(* ===== verification/Prelude.thy ===== *)
theory Prelude
  imports Main "HOL-Library.Word" "HOL-Library.AList" "HOL-Library.List_Lexorder"
    "HOL-Library.Multiset"
begin

text \<open>
  Shared vocabulary of the development: the machine types of the Go code, Go maps as
  association lists, byte strings with their big-endian and hexadecimal codecs, and the
  generic lemmas that the components share.

  A Go \<open>map\<close> is an association list with distinct keys; the order of the list is the order in
  which a \<open>range\<close> over the map visits it, so a lemma about every well-formed list holds for
  every iteration order.
\<close>

type_synonym byte = "8 word"
type_synonym bytes = "byte list"
type_synonym u64 = "64 word"
type_synonym ('k, 'v) gomap = "('k \<times> 'v) list"


named_theorems gomap_simps "lookup after an update of a Go map"

subsection \<open>Go maps\<close>

abbreviation goget :: "('k, 'v) gomap \<Rightarrow> 'k \<Rightarrow> 'v option" where
  "goget m k \<equiv> map_of m k"

abbreviation goput :: "'k \<Rightarrow> 'v \<Rightarrow> ('k, 'v) gomap \<Rightarrow> ('k, 'v) gomap" where
  "goput k v m \<equiv> AList.update k v m"

abbreviation godel :: "'k \<Rightarrow> ('k, 'v) gomap \<Rightarrow> ('k, 'v) gomap" where
  "godel k m \<equiv> AList.delete k m"

definition gomap_wf :: "('k, 'v) gomap \<Rightarrow> bool" where
  "gomap_wf m \<longleftrightarrow> distinct (map fst m)"

lemma gomap_wf_Nil [simp]: "gomap_wf []"
  by (simp add: gomap_wf_def)

lemma gomap_wf_put [simp]: "gomap_wf m \<Longrightarrow> gomap_wf (goput k v m)"
  by (simp add: gomap_wf_def distinct_update)

lemma gomap_wf_del [simp]: "gomap_wf m \<Longrightarrow> gomap_wf (godel k m)"
  by (simp add: gomap_wf_def distinct_delete)

lemma goget_put [gomap_simps, simp]: "goget (goput k v m) j = (if j = k then Some v else goget m j)"
  by (simp add: update_conv')

lemma goget_del [gomap_simps, simp]: "goget (godel k m) j = (if j = k then None else goget m j)"
  by (simp add: delete_conv')

lemma keys_goput [simp]: "fst ` set (goput k v m) = insert k (fst ` set m)"
  by (induction m) auto

lemma length_goput: "length (goput k v m) = (if goget m k = None then Suc (length m) else length m)"
  by (induction m) auto

lemma godel_not_in: "k \<notin> fst ` set m \<Longrightarrow> godel k m = m"
  by (induction m) auto

lemma set_goput_subset: "set (goput k v m) \<subseteq> insert (k, v) (set m)"
  by (induction m) auto

lemma goget_in_set: "goget m k = Some v \<Longrightarrow> (k, v) \<in> set m"
  by (rule map_of_SomeD)

lemma goget_iff_in_set: "gomap_wf m \<Longrightarrow> goget m k = Some v \<longleftrightarrow> (k, v) \<in> set m"
  by (simp add: gomap_wf_def)

lemma goput_goput [simp]: "goput k v (goput k u m) = goput k v m"
  by (induction m) auto

text \<open>\<open>covers m m'\<close>: every key of \<open>m\<close> is one of \<open>m'\<close>.\<close>

definition covers :: "('k, 'v) gomap \<Rightarrow> ('k, 'w) gomap \<Rightarrow> bool" where
  "covers m m' \<longleftrightarrow> (\<forall>k. goget m' k = None \<longrightarrow> goget m k = None)"

lemma covers_simps [simp]:
  "covers [] m'"
  "covers m m' \<Longrightarrow> covers m (goput k v m')"
  "covers m m' \<Longrightarrow> covers (goput k u m) (goput k v m')"
  "covers m m' \<Longrightarrow> goget m' k = Some v \<Longrightarrow> covers (goput k u m) m'"
  "covers m m' \<Longrightarrow> covers (godel k m) m'"
  "covers m m' \<Longrightarrow> covers (godel k m) (godel k m')"
  by (auto simp: covers_def)

lemma covers_dom: "covers m m' \<Longrightarrow> dom (goget m) \<subseteq> dom (goget m')"
  unfolding covers_def by force

subsection \<open>Sums over Go maps and lists\<close>

lemma sum_list_map_goput:
  fixes f :: "'k \<times> 'v \<Rightarrow> 'a :: ab_group_add"
  assumes "gomap_wf m"
  shows "(\<Sum>p\<leftarrow>goput k v m. f p)
    = (\<Sum>p\<leftarrow>m. f p) + f (k, v) - (case goget m k of None \<Rightarrow> 0 | Some u \<Rightarrow> f (k, u))"
  using assms
proof (induction m)
  case Nil
  then show ?case by simp
next
  case (Cons p m)
  obtain a b where p: "p = (a, b)" by (cases p)
  from Cons.prems have wf: "gomap_wf m" and a: "a \<notin> fst ` set m"
    by (auto simp: gomap_wf_def p)
  have "map_of m a = None" using a by (simp add: map_of_eq_None_iff)
  with Cons.IH [OF wf] show ?case by (auto simp: p algebra_simps)
qed

lemma sum_list_map_goput_nat:
  fixes f :: "'k \<times> 'v \<Rightarrow> nat"
  assumes "gomap_wf m"
  shows "(\<Sum>p\<leftarrow>goput k v m. f p) + (case goget m k of None \<Rightarrow> 0 | Some u \<Rightarrow> f (k, u))
    = (\<Sum>p\<leftarrow>m. f p) + f (k, v)"
  using assms
proof (induction m)
  case Nil
  then show ?case by simp
next
  case (Cons p m)
  obtain a b where p: "p = (a, b)" by (cases p)
  from Cons.prems have wf: "gomap_wf m" and a: "a \<notin> fst ` set m"
    by (auto simp: gomap_wf_def p)
  have "map_of m a = None" using a by (simp add: map_of_eq_None_iff)
  with Cons.IH [OF wf] show ?case by (auto simp: p split: option.splits)
qed

lemma sum_list_map_godel_nat:
  fixes f :: "'k \<times> 'v \<Rightarrow> nat"
  assumes "gomap_wf m"
  shows "(\<Sum>p\<leftarrow>godel k m. f p) + (case goget m k of None \<Rightarrow> 0 | Some u \<Rightarrow> f (k, u))
    = (\<Sum>p\<leftarrow>m. f p)"
  using assms
proof (induction m)
  case Nil
  then show ?case by simp
next
  case (Cons p m)
  obtain a b where p: "p = (a, b)" by (cases p)
  from Cons.prems have wf: "gomap_wf m" and a: "a \<notin> fst ` set m"
    by (auto simp: gomap_wf_def p)
  have "map_of m a = None" using a by (simp add: map_of_eq_None_iff)
  with Cons.IH [OF wf] a show ?case
    by (auto simp: p godel_not_in split: option.splits)
qed

lemma sum_list_map_godel:
  fixes f :: "'k \<times> 'v \<Rightarrow> 'a :: ab_group_add"
  assumes "gomap_wf m"
  shows "(\<Sum>p\<leftarrow>godel k m. f p)
    = (\<Sum>p\<leftarrow>m. f p) - (case goget m k of None \<Rightarrow> 0 | Some u \<Rightarrow> f (k, u))"
  using assms
proof (induction m)
  case Nil
  then show ?case by simp
next
  case (Cons p m)
  obtain a b where p: "p = (a, b)" by (cases p)
  from Cons.prems have wf: "gomap_wf m" and a: "a \<notin> fst ` set m"
    by (auto simp: gomap_wf_def p)
  have "map_of m a = None" using a by (simp add: map_of_eq_None_iff)
  with Cons.IH [OF wf] a show ?case by (auto simp: p godel_not_in algebra_simps)
qed

lemma length_godel:
  "gomap_wf m \<Longrightarrow> goget m k = Some v \<Longrightarrow> Suc (length (godel k m)) = length m"
  using sum_list_map_godel_nat [of m "\<lambda>_. 1" k] by (simp add: sum_list_triv)

lemma member_le_sum_list_nat:
  fixes f :: "'a \<Rightarrow> nat"
  shows "x \<in> set xs \<Longrightarrow> f x \<le> (\<Sum>y\<leftarrow>xs. f y)"
  by (induction xs) auto

lemma sum_list_filter_le_nat:
  fixes f :: "'a \<Rightarrow> nat"
  shows "(\<Sum>x\<leftarrow>filter P xs. f x) \<le> (\<Sum>x\<leftarrow>xs. f x)"
  by (induction xs) auto

lemma unat_sum_list:
  fixes f :: "'a \<Rightarrow> u64"
  assumes "(\<Sum>x\<leftarrow>xs. unat (f x)) < 2 ^ 64"
  shows "unat (\<Sum>x\<leftarrow>xs. f x) = (\<Sum>x\<leftarrow>xs. unat (f x))"
  using assms
proof (induction xs)
  case Nil
  then show ?case by simp
next
  case (Cons x xs)
  then have "unat (\<Sum>x\<leftarrow>xs. f x) = (\<Sum>x\<leftarrow>xs. unat (f x))" by simp
  with Cons.prems show ?case by (simp add: unat_word_ariths)
qed

lemma sum_list_word_mod:
  fixes f :: "'a \<Rightarrow> u64"
  shows "unat (\<Sum>x\<leftarrow>xs. f x) = (\<Sum>x\<leftarrow>xs. unat (f x)) mod 2 ^ 64"
  by (induction xs) (simp_all add: unat_word_ariths mod_simps)

lemma mod_eq_0_between:
  fixes n m :: nat
  assumes "n mod m = 0" and "0 < n" and "n < m + m"
  shows "n = m"
proof (cases "n < m")
  case True
  with assms show ?thesis by simp
next
  case False
  then have "n mod m = (n - m) mod m" by (simp add: le_mod_geq)
  also have "\<dots> = n - m" using assms(3) by simp
  finally show ?thesis using assms(1) False by simp
qed

lemma unat_uminus_u64:
  assumes "0 < k"
  shows "unat (- k :: u64) = 2 ^ 64 - unat k"
proof -
  have "k \<noteq> 0" using assms by auto
  then have "unat k \<noteq> 0" by (simp add: unsigned_eq_0_iff)
  moreover have "unat k < 2 ^ 64" "unat (- k) < 2 ^ 64"
    using unsigned_less [of k, where ?'a = nat] unsigned_less [of "- k", where ?'a = nat] by simp_all
  moreover have "(unat k + unat (- k)) mod 2 ^ 64 = 0"
  proof -
    have "unat (k + - k) = (unat k + unat (- k)) mod 2 ^ 64"
      by (simp only: unat_word_ariths len_num1 len_bit0 len_bit1) simp
    then show ?thesis by simp
  qed
  ultimately show ?thesis
    using mod_eq_0_between [of "unat k + unat (- k)" "2 ^ 64"] by linarith
qed

subsection \<open>Updating the first match of a slice\<close>

text \<open>A loop that finds the first element with a property and mutates it through its pointer.\<close>

fun update_first :: "('a \<Rightarrow> bool) \<Rightarrow> ('a \<Rightarrow> 'a) \<Rightarrow> 'a list \<Rightarrow> 'a list" where
  "update_first P f [] = []"
| "update_first P f (x # xs) = (if P x then f x # xs else x # update_first P f xs)"

fun remove_first :: "('a \<Rightarrow> bool) \<Rightarrow> 'a list \<Rightarrow> 'a list" where
  "remove_first P [] = []"
| "remove_first P (x # xs) = (if P x then xs else x # remove_first P xs)"

lemma length_update_first [simp]: "length (update_first P f xs) = length xs"
  by (induction xs) auto

lemma map_update_first [simp]:
  "(\<And>x. g (f x) = g x) \<Longrightarrow> map g (update_first P f xs) = map g xs"
  by (induction xs) auto

lemma update_first_None: "find P xs = None \<Longrightarrow> update_first P f xs = xs"
  by (induction xs) (auto split: if_splits)

lemma set_remove_first_subset: "set (remove_first P xs) \<subseteq> set xs"
  by (induction xs) auto

lemma mset_remove_first:
  "mset (remove_first P xs) = (case find P xs of None \<Rightarrow> mset xs | Some x \<Rightarrow> mset xs - {#x#})"
proof (induction xs)
  case Nil
  then show ?case by simp
next
  case (Cons y xs)
  show ?case
  proof (cases "P y")
    case True
    then show ?thesis by simp
  next
    case False
    show ?thesis
    proof (cases "find P xs")
      case None
      with False Cons.IH show ?thesis by simp
    next
      case (Some x)
      then have "x \<in> set xs" and "P x"
        by (auto simp: find_Some_iff)
      with False Cons.IH Some show ?thesis by auto
    qed
  qed
qed

lemma sorted_map_remove_first: "sorted (map g xs) \<Longrightarrow> sorted (map g (remove_first P xs))"
proof (induction xs)
  case Nil
  then show ?case by simp
next
  case (Cons x xs)
  then show ?case using set_remove_first_subset [of P xs] by auto
qed

lemma distinct_map_remove_first: "distinct (map g xs) \<Longrightarrow> distinct (map g (remove_first P xs))"
proof (induction xs)
  case Nil
  then show ?case by simp
next
  case (Cons x xs)
  then show ?case using set_remove_first_subset [of P xs] by auto
qed

lemma find_Some_mem: "find P xs = Some x \<Longrightarrow> x \<in> set xs \<and> P x"
  by (auto simp: find_Some_iff)

subsection \<open>Big-endian integers\<close>

text \<open>
  \<open>be n x\<close> is what \<open>binary.BigEndian.PutUint64\<close> and its kin write in an \<open>n\<close>-byte buffer,
  \<open>unbe\<close> what \<open>big.Int.SetBytes\<close> and \<open>binary.BigEndian.Uint64\<close> read, and \<open>big_bytes\<close> the
  minimal encoding of \<open>big.Int.Bytes\<close>.
\<close>

fun be :: "nat \<Rightarrow> nat \<Rightarrow> bytes" where
  "be 0 x = []"
| "be (Suc n) x = be n (x div 256) @ [of_nat x]"

definition unbe :: "bytes \<Rightarrow> nat" where
  "unbe bs = foldl (\<lambda>a b. a * 256 + unat b) 0 bs"

fun big_bytes :: "nat \<Rightarrow> bytes" where
  "big_bytes n = (if n = 0 then [] else big_bytes (n div 256) @ [of_nat n])"

declare big_bytes.simps [simp del]

abbreviation be_u64 :: "u64 \<Rightarrow> bytes" where
  "be_u64 x \<equiv> be 8 (unat x)"

lemma length_be [simp]: "length (be n x) = n"
  by (induction n arbitrary: x) auto

lemma unbe_Nil [simp]: "unbe [] = 0"
  by (simp add: unbe_def)

lemma unbe_snoc [simp]: "unbe (bs @ [b]) = unbe bs * 256 + unat b"
  by (simp add: unbe_def)

lemma unat_of_nat_byte: "unat (of_nat x :: byte) = x mod 256"
  by (simp add: unat_of_nat)

lemma unbe_be [simp]: "unbe (be n x) = x mod 256 ^ n"
proof (induction n arbitrary: x)
  case 0
  then show ?case by simp
next
  case (Suc n)
  have "x mod 256 ^ Suc n = x mod (256 * 256 ^ n)" by simp
  also have "\<dots> = 256 * (x div 256 mod 256 ^ n) + x mod 256" by (rule mod_mult2_eq)
  finally show ?case using Suc by (simp add: unat_of_nat_byte mult.commute)
qed

lemma unbe_be_u64 [simp]: "unbe (be_u64 x) = unat x"
proof -
  have "unat x < 2 ^ 64" using unsigned_less [of x] by simp
  then show ?thesis by simp
qed

lemma be_inject:
  assumes "be n x = be n y" and "x < 256 ^ n" and "y < 256 ^ n"
  shows "x = y"
proof -
  from assms(1) have "unbe (be n x) = unbe (be n y)" by simp
  with assms(2,3) show ?thesis by simp
qed

lemma unat_less_u64: "unat (x :: u64) < 256 ^ 8"
  using unsigned_less [of x] by simp

lemma be_u64_inject [simp]: "be_u64 x = be_u64 y \<longleftrightarrow> x = y"
  using be_inject [OF _ unat_less_u64 unat_less_u64, of x y] by (auto intro: unsigned_word_eqI)

lemma unbe_big_bytes [simp]: "unbe (big_bytes n) = n"
proof (induction n rule: big_bytes.induct)
  case (1 n)
  show ?case
  proof (cases "n = 0")
    case True
    then show ?thesis by (simp add: big_bytes.simps)
  next
    case False
    with 1 have "unbe (big_bytes (n div 256)) = n div 256" by simp
    with False show ?thesis
      by (subst big_bytes.simps) (simp add: unat_of_nat_byte)
  qed
qed

lemma big_bytes_eq_Nil [simp]: "big_bytes n = [] \<longleftrightarrow> n = 0"
  by (subst big_bytes.simps) simp

lemma big_bytes_inject [simp]: "big_bytes m = big_bytes n \<longleftrightarrow> m = n"
  by (metis unbe_big_bytes)

lemma big_bytes_0 [simp]: "big_bytes 0 = []"
  by simp

lemma length_big_bytes_le: "n < 256 ^ k \<Longrightarrow> length (big_bytes n) \<le> k"
proof (induction k arbitrary: n)
  case 0
  then show ?case by simp
next
  case (Suc k)
  show ?case
  proof (cases "n = 0")
    case True
    then show ?thesis by simp
  next
    case False
    have "n div 256 < 256 ^ k" using Suc.prems by (simp add: less_mult_imp_div_less mult.commute)
    then have "length (big_bytes (n div 256)) \<le> k" by (rule Suc.IH)
    with False show ?thesis by (subst big_bytes.simps) simp
  qed
qed

lemma foldl_unbe_append:
  "foldl (\<lambda>a b. a * 256 + unat (b :: byte)) (0::nat) (as @ bs)
    = foldl (\<lambda>a b. a * 256 + unat b) 0 as * 256 ^ length bs + foldl (\<lambda>a b. a * 256 + unat b) 0 bs"
proof (induction bs rule: rev_induct)
  case Nil
  then show ?case by simp
next
  case (snoc b bs)
  then show ?case by (simp add: algebra_simps flip: append_assoc)
qed

lemma unbe_append: "unbe (as @ bs) = unbe as * 256 ^ length bs + unbe bs"
  unfolding unbe_def by (rule foldl_unbe_append)

lemma unbe_replicate_0 [simp]: "unbe (replicate n 0 @ bs) = unbe bs"
proof -
  have "unbe (replicate n 0) = 0"
    by (induction n) (simp_all add: unbe_def)
  then show ?thesis by (simp add: unbe_append)
qed

lemma unbe_less: "unbe bs < 256 ^ length bs"
proof (induction bs rule: rev_induct)
  case Nil
  then show ?case by simp
next
  case (snoc b bs)
  have "unat b < 256" using unsigned_less [of b] by simp
  moreover have "unbe bs + 1 \<le> 256 ^ length bs" using snoc by simp
  then have "(unbe bs + 1) * 256 \<le> 256 ^ length bs * 256" by (rule mult_le_mono1)
  ultimately show ?case by simp
qed

end
