(* ===== verification/Contracts.thy ===== *)
theory Contracts
  imports Prelude
begin

text \<open>
  The interfaces of the development, as locales.

  \<open>guarded_system\<close> is the contract of a component that handles one event at a time: every
  event keeps the component's invariant; its lemmas lift the invariant to whole histories.
  \<open>monotone_system\<close> adds a quantity that no event lowers, \<open>conserving_system\<close> one that no event
  changes. \<open>weighted_quorum\<close> is the contract of a stake-weighted electorate, as the consensus
  engine relies on it, \<open>append_chain\<close> that of a store of blocks.
\<close>

subsection \<open>Event-driven components\<close>

locale guarded_system =
  fixes step :: "'s \<Rightarrow> 'e \<Rightarrow> 's"
    and inv :: "'s \<Rightarrow> bool"
  assumes step_inv: "inv s \<Longrightarrow> inv (step s e)"
begin

lemma run_inv: "inv s \<Longrightarrow> inv (foldl step s es)"
  by (induction es arbitrary: s) (auto intro: step_inv)

end

locale monotone_system = guarded_system step inv
  for step :: "'s \<Rightarrow> 'e \<Rightarrow> 's" and inv :: "'s \<Rightarrow> bool" +
  fixes rank :: "'s \<Rightarrow> 'm :: preorder"
  assumes step_rank: "inv s \<Longrightarrow> rank s \<le> rank (step s e)"
begin

lemma run_rank: "inv s \<Longrightarrow> rank s \<le> rank (foldl step s es)"
proof (induction es arbitrary: s)
  case Nil
  then show ?case by simp
next
  case (Cons e es)
  have "rank s \<le> rank (step s e)" by (rule step_rank [OF Cons.prems])
  also have "\<dots> \<le> rank (foldl step (step s e) es)"
    by (rule Cons.IH [OF step_inv [OF Cons.prems]])
  finally show ?case by simp
qed

lemma run_rank_between:
  "inv s \<Longrightarrow> rank (foldl step s es) \<le> rank (foldl step s (es @ fs))"
  using run_rank [OF run_inv, of s es fs] by simp

end

locale conserving_system = guarded_system step inv
  for step :: "'s \<Rightarrow> 'e \<Rightarrow> 's" and inv :: "'s \<Rightarrow> bool" +
  fixes quantity :: "'s \<Rightarrow> 'm"
  assumes step_quantity: "inv s \<Longrightarrow> quantity (step s e) = quantity s"
begin

lemma run_quantity: "inv s \<Longrightarrow> quantity (foldl step s es) = quantity s"
  by (induction es arbitrary: s) (auto simp: step_quantity step_inv)

end

subsection \<open>Components with admissible events\<close>

text \<open>
  The same contract for a component whose surroundings make promises: only the events that
  satisfy \<open>adm\<close> must keep the invariant and the rank. The unconditional contract is the case in
  which every event is admissible.
\<close>

locale admissible_system =
  fixes step :: "'s \<Rightarrow> 'e \<Rightarrow> 's"
    and inv :: "'s \<Rightarrow> bool"
    and adm :: "'e \<Rightarrow> bool"
  assumes adm_inv: "inv s \<Longrightarrow> adm e \<Longrightarrow> inv (step s e)"
begin

lemma adm_run_inv: "inv s \<Longrightarrow> list_all adm es \<Longrightarrow> inv (foldl step s es)"
  by (induction es arbitrary: s) (auto intro: adm_inv)

end

locale admissible_ranked_system = admissible_system step inv adm
  for step :: "'s \<Rightarrow> 'e \<Rightarrow> 's" and inv :: "'s \<Rightarrow> bool" and adm :: "'e \<Rightarrow> bool" +
  fixes rank :: "'s \<Rightarrow> 'm :: preorder"
  assumes adm_rank: "inv s \<Longrightarrow> adm e \<Longrightarrow> rank s \<le> rank (step s e)"
begin

lemma adm_run_rank: "inv s \<Longrightarrow> list_all adm es \<Longrightarrow> rank s \<le> rank (foldl step s es)"
proof (induction es arbitrary: s)
  case Nil
  then show ?case by simp
next
  case (Cons e es)
  have "rank s \<le> rank (step s e)" using Cons.prems by (simp add: adm_rank)
  also have "\<dots> \<le> rank (foldl step (step s e) es)"
    using Cons.prems by (intro Cons.IH adm_inv) simp_all
  finally show ?case by simp
qed

end

sublocale guarded_system \<subseteq> adm: admissible_system step inv "\<lambda>_. True"
  by unfold_locales (rule step_inv)

sublocale monotone_system \<subseteq> adm: admissible_ranked_system step inv "\<lambda>_. True" rank
  by unfold_locales (rule step_rank)

subsection \<open>Chains\<close>

text \<open>
  The contract of a store of blocks: an event leaves the chain as it is or appends one block that is
  linked to the last one. \<open>inv n\<close> is the invariant with room for \<open>n\<close> more blocks (heights are 64-bit
  numbers). The lemmas are what a client of a chain relies on: it is linked throughout, and what was
  a chain stays a prefix of it.
\<close>

locale append_chain =
  fixes step :: "'s \<Rightarrow> 'e \<Rightarrow> 's"
    and inv :: "nat \<Rightarrow> 's \<Rightarrow> bool"
    and chain :: "'s \<Rightarrow> 'b list"
    and linked :: "'b \<Rightarrow> 'b \<Rightarrow> bool"
  assumes chain_nonempty: "inv n s \<Longrightarrow> chain s \<noteq> []"
    and step_room: "inv (Suc n) s \<Longrightarrow> inv n (step s e)"
    and step_grows: "inv (Suc n) s \<Longrightarrow> chain (step s e) = chain s
      \<or> (\<exists>b. chain (step s e) = chain s @ [b] \<and> linked (last (chain s)) b)"
begin

lemma run_room: "inv (length es + n) s \<Longrightarrow> inv n (foldl step s es)"
  by (induction es arbitrary: s) (auto intro: step_room)

lemma step_linked:
  assumes "inv (Suc n) s" and "successively linked (chain s)"
  shows "successively linked (chain (step s e))"
  using step_grows [OF assms(1), of e] assms(2) chain_nonempty [OF assms(1)]
  by (auto simp: successively_append_iff)

lemma run_linked:
  "inv (length es + n) s \<Longrightarrow> successively linked (chain s) \<Longrightarrow>
    successively linked (chain (foldl step s es))"
  by (induction es arbitrary: s) (auto intro: step_room step_linked)

lemma run_prefix:
  "inv (length es + n) s \<Longrightarrow> \<exists>bs. chain (foldl step s es) = chain s @ bs \<and> length bs \<le> length es"
proof (induction es arbitrary: s)
  case Nil
  then show ?case by simp
next
  case (Cons e es)
  from Cons.prems have inv: "inv (Suc (length es + n)) s" by simp
  obtain bs where bs: "chain (foldl step (step s e) es) = chain (step s e) @ bs" "length bs \<le> length es"
    using Cons.IH [OF step_room [OF inv]] by blast
  show ?case using step_grows [OF inv, of e] bs by auto
qed

lemma run_prefix_take:
  assumes "inv (length es + n) s"
  shows "\<exists>bs. chain (foldl step s es) = chain (foldl step s (take k es)) @ bs"
proof -
  have "length es + n = length (take k es) + (length (drop k es) + n)" by simp
  then have "inv (length (take k es) + (length (drop k es) + n)) s" using assms by (simp only:)
  then have "inv (length (drop k es) + n) (foldl step s (take k es))" by (rule run_room)
  from run_prefix [OF this] show ?thesis by (auto simp flip: foldl_append)
qed

end

subsection \<open>Stake-weighted quorums\<close>

locale weighted_quorum =
  fixes members :: "'s \<Rightarrow> 'v set"
    and weight :: "'s \<Rightarrow> 'v \<Rightarrow> nat"
    and total :: "'s \<Rightarrow> nat"
    and invar :: "'s \<Rightarrow> bool"
  assumes finite_members: "invar s \<Longrightarrow> finite (members s)"
    and total_weight: "invar s \<Longrightarrow> total s = (\<Sum>v \<in> members s. weight s v)"
begin

definition power_of :: "'s \<Rightarrow> 'v set \<Rightarrow> nat" where
  "power_of s Q = (\<Sum>v \<in> members s \<inter> Q. weight s v)"

definition quorum :: "'s \<Rightarrow> 'v set \<Rightarrow> bool" where
  "quorum s Q \<longleftrightarrow> 2 * total s < 3 * power_of s Q"

lemma power_of_mono: "invar s \<Longrightarrow> Q \<subseteq> R \<Longrightarrow> power_of s Q \<le> power_of s R"
  unfolding power_of_def
  by (rule sum_mono2) (auto simp: finite_members)

lemma power_of_le_total: "invar s \<Longrightarrow> power_of s Q \<le> total s"
  unfolding power_of_def total_weight
  by (rule sum_mono2) (auto simp: finite_members)

lemma power_of_inter:
  assumes "invar s"
  shows "power_of s Q + power_of s R \<le> total s + power_of s (Q \<inter> R)"
proof -
  let ?M = "members s"
  have fin: "finite (?M \<inter> Q)" "finite (?M \<inter> R)"
    using finite_members [OF assms] by auto
  have "power_of s Q + power_of s R
      = (\<Sum>v \<in> (?M \<inter> Q) \<union> (?M \<inter> R). weight s v) + (\<Sum>v \<in> (?M \<inter> Q) \<inter> (?M \<inter> R). weight s v)"
    unfolding power_of_def by (rule sum.union_inter [OF fin, symmetric])
  also have "(?M \<inter> Q) \<inter> (?M \<inter> R) = ?M \<inter> (Q \<inter> R)" by blast
  also have "(\<Sum>v \<in> (?M \<inter> Q) \<union> (?M \<inter> R). weight s v) \<le> total s"
    unfolding total_weight [OF assms]
    by (rule sum_mono2) (auto simp: finite_members [OF assms])
  finally show ?thesis by (simp add: power_of_def)
qed

text \<open>Two quorums share more than a third of the stake.\<close>

lemma quorum_inter_power:
  assumes "invar s" "quorum s Q" "quorum s R"
  shows "total s < 3 * power_of s (Q \<inter> R)"
  using power_of_inter [OF assms(1), of Q R] assms(2,3) unfolding quorum_def by linarith

lemma quorum_inter_member:
  assumes "invar s" "quorum s Q" "quorum s R"
  shows "\<exists>v \<in> members s \<inter> Q \<inter> R. 0 < weight s v"
proof (rule ccontr)
  assume "\<not> ?thesis"
  then have "power_of s (Q \<inter> R) = 0" unfolding power_of_def by (auto intro!: sum.neutral)
  with quorum_inter_power [OF assms] show False by simp
qed

text \<open>If the faulty members hold less than a third, two quorums share a correct member.\<close>

lemma quorum_inter_correct:
  assumes "invar s" "quorum s Q" "quorum s R" "3 * power_of s F \<le> total s"
  shows "\<exists>v \<in> members s \<inter> Q \<inter> R. v \<notin> F"
proof (rule ccontr)
  assume "\<not> ?thesis"
  then have "members s \<inter> (Q \<inter> R) \<subseteq> members s \<inter> F" by blast
  then have "power_of s (Q \<inter> R) \<le> power_of s F"
    unfolding power_of_def using finite_members [OF assms(1)] by (intro sum_mono2) auto
  with quorum_inter_power [OF assms(1-3)] assms(4) show False by simp
qed

end

end
