(* ===== verification/Codec.thy ===== *)
theory Codec
  imports Prelude
begin

text \<open>
  The text and byte codecs of the consensus package: \<open>hex.EncodeToString\<close> and the package's
  own \<open>hexDecode\<close> (\<open>consensus/validator_set.go\<close>), which scans two characters at a time with
  \<open>fmt.Sscanf("%02x")\<close>, and the reading discipline of \<open>bytes.Reader\<close>.

  A Go \<open>string\<close> is a sequence of bytes, so it is a HOL \<open>string\<close> (a list of 8-bit characters).
\<close>

definition str_of_bytes :: "bytes \<Rightarrow> string" where
  "str_of_bytes bs = map (\<lambda>b. char_of (unat b)) bs"

definition bytes_of_str :: "string \<Rightarrow> bytes" where
  "bytes_of_str s = map (\<lambda>c. of_nat (of_char c)) s"

lemma str_of_bytes_of_str [simp]: "str_of_bytes (bytes_of_str s) = s"
proof -
  have "char_of (unat (of_nat (of_char c) :: byte)) = c" for c
    by (simp add: unat_of_nat_byte)
  then show ?thesis by (simp add: str_of_bytes_def bytes_of_str_def comp_def)
qed

lemma bytes_of_str_of_bytes [simp]: "bytes_of_str (str_of_bytes bs) = bs"
proof -
  have "(of_nat (of_char (char_of (unat b) :: char)) :: byte) = b" for b :: byte
  proof -
    have "unat b < 256" using unsigned_less [of b] by simp
    then show ?thesis by simp
  qed
  then show ?thesis by (simp add: str_of_bytes_def bytes_of_str_def comp_def)
qed

lemma length_bytes_of_str [simp]: "length (bytes_of_str s) = length s"
  by (simp add: bytes_of_str_def)

lemma length_str_of_bytes [simp]: "length (str_of_bytes s) = length s"
  by (simp add: str_of_bytes_def)

subsection \<open>Hexadecimal text\<close>

definition hex_char :: "nat \<Rightarrow> char" where
  "hex_char n = char_of (if n < 10 then 48 + n else 87 + n)"

definition hex_val :: "char \<Rightarrow> nat option" where
  "hex_val c = (let n = (of_char c :: nat) in
     if 48 \<le> n \<and> n \<le> 57 then Some (n - 48)
     else if 97 \<le> n \<and> n \<le> 102 then Some (n - 87)
     else if 65 \<le> n \<and> n \<le> 70 then Some (n - 55)
     else None)"

definition hexEncode :: "bytes \<Rightarrow> string" where
  "hexEncode bs = concat (map (\<lambda>b. [hex_char (unat b div 16), hex_char (unat b mod 16)]) bs)"

text \<open>
  \<open>fmt.Sscanf(s, "%02x", &b)\<close> on a two-character string: leading blanks are skipped, a newline
  is an error, and one digit is enough (what follows the digits is not looked at).
\<close>

definition scan_blank :: "char \<Rightarrow> bool" where
  "scan_blank c \<longleftrightarrow> (of_char c :: nat) \<in> {9, 11, 12, 13, 32}"

definition sscanf_02x :: "char \<Rightarrow> char \<Rightarrow> byte option" where
  "sscanf_02x a b =
     (case hex_val a of
        Some h \<Rightarrow> (case hex_val b of
            Some l \<Rightarrow> Some (of_nat (16 * h + l))
          | None \<Rightarrow> Some (of_nat h))
      | None \<Rightarrow> (if scan_blank a then map_option of_nat (hex_val b) else None))"

datatype hex_error = HexOddLength | HexScan

fun hex_pairs :: "string \<Rightarrow> hex_error + bytes" where
  "hex_pairs (a # b # s) =
     (case sscanf_02x a b of
        None \<Rightarrow> Inl HexScan
      | Some x \<Rightarrow> (case hex_pairs s of Inl e \<Rightarrow> Inl e | Inr xs \<Rightarrow> Inr (x # xs)))"
| "hex_pairs _ = Inr []"

definition hexDecode :: "string \<Rightarrow> hex_error + bytes" where
  "hexDecode s = (if length s mod 2 \<noteq> 0 then Inl HexOddLength else hex_pairs s)"

lemma hex_val_hex_char [simp]: "n < 16 \<Longrightarrow> hex_val (hex_char n) = Some n"
  by (auto simp: hex_val_def hex_char_def Let_def)

lemma sscanf_hex_chars [simp]:
  "sscanf_02x (hex_char (unat b div 16)) (hex_char (unat b mod 16)) = Some b"
proof -
  have "unat b < 256" using unsigned_less [of b] by simp
  then show ?thesis by (simp add: sscanf_02x_def)
qed

lemma hexEncode_Nil [simp]: "hexEncode [] = []"
  by (simp add: hexEncode_def)

lemma hexEncode_Cons: "hexEncode (b # bs)
    = hex_char (unat b div 16) # hex_char (unat b mod 16) # hexEncode bs"
  by (simp add: hexEncode_def)

lemma length_hexEncode [simp]: "length (hexEncode bs) = 2 * length bs"
  by (induction bs) (auto simp: hexEncode_Cons)

lemma hex_pairs_hexEncode [simp]: "hex_pairs (hexEncode bs) = Inr bs"
  by (induction bs) (auto simp: hexEncode_Cons)

lemma hexDecode_hexEncode [simp]: "hexDecode (hexEncode bs) = Inr bs"
  by (simp add: hexDecode_def)

lemma hexEncode_inject [simp]: "hexEncode as = hexEncode bs \<longleftrightarrow> as = bs"
  by (metis hexDecode_hexEncode sum.inject(2))

lemma inj_hexEncode: "inj hexEncode"
  by (simp add: inj_def)

lemma hexDecode_length: "hexDecode s = Inr bs \<Longrightarrow> length s = 2 * length bs"
proof -
  have "length s mod 2 = 0 \<Longrightarrow> hex_pairs s = Inr bs \<Longrightarrow> length s = 2 * length bs"
    by (induction s arbitrary: bs rule: hex_pairs.induct)
      (auto split: option.splits sum.splits)
  then show "hexDecode s = Inr bs \<Longrightarrow> length s = 2 * length bs"
    by (auto simp: hexDecode_def split: if_splits)
qed

text \<open>\<open>hex.DecodeString\<close> of the standard library: strict, an odd or foreign character is an error.\<close>

fun hex_DecodeString :: "string \<Rightarrow> bytes option" where
  "hex_DecodeString [] = Some []"
| "hex_DecodeString (a # b # s) = (case (hex_val a, hex_val b) of
       (Some h, Some l) \<Rightarrow> map_option ((#) (of_nat (16 * h + l))) (hex_DecodeString s)
     | _ \<Rightarrow> None)"
| "hex_DecodeString [a] = None"

lemma hex_DecodeString_hexEncode [simp]: "hex_DecodeString (hexEncode bs) = Some bs"
proof (induction bs)
  case Nil
  then show ?case by simp
next
  case (Cons b bs)
  have "unat b < 256" using unsigned_less [of b] by simp
  with Cons show ?case by (simp add: hexEncode_Cons)
qed

subsection \<open>Reading from a byte reader\<close>

text \<open>
  \<open>binary.Read\<close> of an \<open>n\<close>-byte integer fails when fewer than \<open>n\<close> bytes are left, whereas
  \<open>bytes.Reader.Read(buf)\<close> fails only at the end of the data (even for an empty buffer) and
  otherwise copies what there is, leaving the rest of the zeroed buffer as it was.
\<close>

definition read_uint :: "nat \<Rightarrow> bytes \<Rightarrow> (nat \<times> bytes) option" where
  "read_uint n bs = (if length bs < n then None else Some (unbe (take n bs), drop n bs))"

definition read_buf :: "nat \<Rightarrow> bytes \<Rightarrow> (bytes \<times> bytes) option" where
  "read_buf n bs = (if bs = [] then None
     else Some (take n bs @ replicate (n - length bs) 0, drop n bs))"

lemma read_uint_be [simp]: "read_uint n (be n x @ bs) = Some (x mod 256 ^ n, bs)"
  by (simp add: read_uint_def)

lemma read_u64 [simp]: "read_uint 8 (be_u64 x @ bs) = Some (unat x, bs)"
proof -
  have "unat x mod 256 ^ 8 = unat x" using unat_less_u64 [of x] by (rule mod_less)
  then show ?thesis by (simp only: read_uint_be)
qed

lemma be_eq_Nil [simp]: "be n x = [] \<longleftrightarrow> n = 0"
  by (cases n) auto

lemma read_buf_append [simp]:
  "length xs = n \<Longrightarrow> xs @ bs \<noteq> [] \<Longrightarrow> read_buf n (xs @ bs) = Some (xs, bs)"
  by (auto simp: read_buf_def)

lemma read_buf_length: "read_buf n bs = Some (xs, r) \<Longrightarrow> length xs = n"
  by (auto simp: read_buf_def split: if_splits)

end
