(* ===== verification/Validator_Set.thy ===== *)
theory Validator_Set
  imports Contracts Codec
begin

text \<open>
  The validator set (\<open>internal/layer1/consensus/validator_set.go\<close>): the members sorted by
  address, the cached total stake, the proposer election and the super-majority test.

  \<open>SHA256\<close> is a parameter. Stakes are \<open>uint64\<close> and wrap, as in the code.
\<close>

record validator =
  vAddress :: bytes
  vPublicKey :: bytes
  vStake :: u64
  vIsActive :: bool
  vIsJailed :: bool
  vJailedUntil :: int
  vUnbondingAt :: int
  vCommittedRounds :: u64
  vMissedVotes :: u64

record validator_set =
  validators :: "validator list"
  totalStake :: u64
  vsEpoch :: u64

datatype vs_error = EmptyValidatorSet | ValidatorExists | ValidatorNotFound

definition NewValidatorSet :: "validator list \<Rightarrow> u64 \<Rightarrow> validator_set" where
  "NewValidatorSet vals ep =
     (let act = filter (\<lambda>v. vIsActive v \<and> \<not> vIsJailed v) vals in
      \<lparr>validators = sort_key vAddress act,
       totalStake = (\<Sum>v\<leftarrow>act. vStake v),
       vsEpoch = ep\<rparr>)"

definition GetValidator :: "validator_set \<Rightarrow> bytes \<Rightarrow> validator option" where
  "GetValidator vs addr = find (\<lambda>v. vAddress v = addr) (validators vs)"

definition GetValidators :: "validator_set \<Rightarrow> validator list" where
  "GetValidators vs = validators vs"

definition Size :: "validator_set \<Rightarrow> nat" where
  "Size vs = length (validators vs)"

subsection \<open>Proposer election\<close>

fun weighted_pick :: "validator list \<Rightarrow> nat \<Rightarrow> u64 \<Rightarrow> u64 \<Rightarrow> nat option" where
  "weighted_pick [] i cumulative w = None"
| "weighted_pick (v # vs) i cumulative w =
     (let cumulative' = cumulative + vStake v in
      if w < cumulative' then Some i else weighted_pick vs (Suc i) cumulative' w)"

definition selectProposer :: "(bytes \<Rightarrow> bytes) \<Rightarrow> validator_set \<Rightarrow> u64 \<Rightarrow> u64 \<Rightarrow> nat" where
  "selectProposer sha256 vs height view =
     (if length (validators vs) = 0 \<or> totalStake vs = 0 then 0
      else
        let seedBytes = be_u64 height @ be_u64 view @ be_u64 (vsEpoch vs);
            seed = (of_nat (unbe (take 8 (sha256 seedBytes))) :: u64);
            weightedIndex = seed mod totalStake vs;
            n = length (validators vs)
        in case weighted_pick (validators vs) 0 0 weightedIndex of
             Some i \<Rightarrow> (i + unat view mod n) mod n
           | None \<Rightarrow> n - 1)"

definition GetProposerForView ::
    "(bytes \<Rightarrow> bytes) \<Rightarrow> validator_set \<Rightarrow> u64 \<Rightarrow> u64 \<Rightarrow> vs_error + validator" where
  "GetProposerForView sha256 vs height view =
     (if length (validators vs) = 0 then Inl EmptyValidatorSet
      else Inr (validators vs ! selectProposer sha256 vs height view))"

definition GetProposer ::
    "(bytes \<Rightarrow> bytes) \<Rightarrow> validator_set \<Rightarrow> u64 \<Rightarrow> vs_error + validator" where
  "GetProposer sha256 vs height =
     (if length (validators vs) = 0 then Inl EmptyValidatorSet
      else Inr (validators vs ! selectProposer sha256 vs height 0))"

definition GetNextProposer ::
    "(bytes \<Rightarrow> bytes) \<Rightarrow> validator_set \<Rightarrow> u64 \<Rightarrow> validator option" where
  "GetNextProposer sha256 vs height =
     (if length (validators vs) = 0 then None
      else let idx = selectProposer sha256 vs (height + 1) 0 in
        if idx \<ge> length (validators vs) then None else Some (validators vs ! idx))"

subsection \<open>Votes weighted by stake\<close>

text \<open>The inner loop over the members: the stake of the first member with that address.\<close>

definition stake_of :: "validator_set \<Rightarrow> bytes \<Rightarrow> u64" where
  "stake_of vs addr = (case GetValidator vs addr of None \<Rightarrow> 0 | Some v \<Rightarrow> vStake v)"

fun signed_stake :: "validator_set \<Rightarrow> u64 \<Rightarrow> (string, bool) gomap \<Rightarrow> u64" where
  "signed_stake vs acc [] = acc"
| "signed_stake vs acc ((addr, voted) # rest) =
     (if \<not> voted then signed_stake vs acc rest
      else case hexDecode addr of
          Inl _ \<Rightarrow> signed_stake vs acc rest
        | Inr addrBytes \<Rightarrow> signed_stake vs (acc + stake_of vs addrBytes) rest)"

definition HasSuperMajority :: "validator_set \<Rightarrow> (string, bool) gomap \<Rightarrow> bool" where
  "HasSuperMajority vs signatures \<longleftrightarrow> signed_stake vs 0 signatures * 3 > totalStake vs * 2"

definition CalculateQuorumStake :: "validator_set \<Rightarrow> u64" where
  "CalculateQuorumStake vs = totalStake vs * 2 div 3 + 1"

subsection \<open>Membership changes\<close>

definition AddValidator :: "validator_set \<Rightarrow> validator \<Rightarrow> vs_error + validator_set" where
  "AddValidator vs v =
     (case GetValidator vs (vAddress v) of
        Some _ \<Rightarrow> Inl ValidatorExists
      | None \<Rightarrow> Inr (vs\<lparr>validators := sort_key vAddress (validators vs @ [v]),
                     totalStake := totalStake vs + vStake v\<rparr>))"

definition RemoveValidator :: "validator_set \<Rightarrow> bytes \<Rightarrow> vs_error + validator_set" where
  "RemoveValidator vs addr =
     (case find (\<lambda>v. vAddress v = addr) (validators vs) of
        None \<Rightarrow> Inl ValidatorNotFound
      | Some v \<Rightarrow> Inr (vs\<lparr>totalStake := totalStake vs - vStake v,
                       validators := remove_first (\<lambda>v. vAddress v = addr) (validators vs)\<rparr>))"

definition UpdateStake :: "validator_set \<Rightarrow> bytes \<Rightarrow> u64 \<Rightarrow> vs_error + validator_set" where
  "UpdateStake vs addr newStake =
     (case GetValidator vs addr of
        None \<Rightarrow> Inl ValidatorNotFound
      | Some v \<Rightarrow> Inr (vs\<lparr>totalStake := totalStake vs - vStake v + newStake,
                       validators := update_first (\<lambda>w. vAddress w = addr)
                         (\<lambda>w. w\<lparr>vStake := newStake\<rparr>) (validators vs)\<rparr>))"

definition IncrementCommitted :: "validator_set \<Rightarrow> bytes \<Rightarrow> validator_set" where
  "IncrementCommitted vs addr =
     vs\<lparr>validators := update_first (\<lambda>w. vAddress w = addr)
       (\<lambda>w. w\<lparr>vCommittedRounds := vCommittedRounds w + 1, vMissedVotes := 0\<rparr>) (validators vs)\<rparr>"

definition IncrementMissed :: "validator_set \<Rightarrow> bytes \<Rightarrow> validator_set" where
  "IncrementMissed vs addr =
     vs\<lparr>validators := update_first (\<lambda>w. vAddress w = addr)
       (\<lambda>w. w\<lparr>vMissedVotes := vMissedVotes w + 1\<rparr>) (validators vs)\<rparr>"

subsection \<open>Well-formed validator sets\<close>

text \<open>
  The members are sorted by address without duplicates and the cached total is the sum of the
  stakes (modulo \<open>2 ^ 64\<close>); \<open>vs_bounded\<close> says moreover that tripling the total does not wrap.
\<close>

definition vs_wf :: "validator_set \<Rightarrow> bool" where
  "vs_wf vs \<longleftrightarrow> sorted (map vAddress (validators vs)) \<and> distinct (map vAddress (validators vs)) \<and>
     totalStake vs = (\<Sum>v\<leftarrow>validators vs. vStake v)"

definition stake_sum :: "validator_set \<Rightarrow> nat" where
  "stake_sum vs = (\<Sum>v\<leftarrow>validators vs. unat (vStake v))"

definition vs_bounded :: "validator_set \<Rightarrow> bool" where
  "vs_bounded vs \<longleftrightarrow> vs_wf vs \<and> 3 * stake_sum vs < 2 ^ 64"

lemma totalStake_stake_sum: "vs_wf vs \<Longrightarrow> stake_sum vs < 2 ^ 64 \<Longrightarrow> unat (totalStake vs) = stake_sum vs"
  unfolding vs_wf_def stake_sum_def by (simp only: unat_sum_list)

lemma vs_bounded_total: "vs_bounded vs \<Longrightarrow> unat (totalStake vs) = stake_sum vs"
  by (auto simp: vs_bounded_def intro: totalStake_stake_sum)

lemma sum_list_sort_key: "(\<Sum>x\<leftarrow>sort_key k xs. f x) = (\<Sum>x\<leftarrow>xs. f x :: 'a :: comm_monoid_add)"
  by (metis mset_map mset_sort sum_mset_sum_list)

lemma distinct_map_sort_key: "distinct (map g (sort_key k xs)) = distinct (map g xs)"
  by (metis distinct_map distinct_sort set_sort)

lemma NewValidatorSet_wf:
  "distinct (map vAddress (filter (\<lambda>v. vIsActive v \<and> \<not> vIsJailed v) vals)) \<Longrightarrow> vs_wf (NewValidatorSet vals ep)"
  by (simp add: vs_wf_def NewValidatorSet_def Let_def sum_list_sort_key distinct_map_sort_key)

lemma AddValidator_wf: "vs_wf vs \<Longrightarrow> AddValidator vs v = Inr vs' \<Longrightarrow> vs_wf vs'"
  by (auto simp: vs_wf_def AddValidator_def GetValidator_def sum_list_sort_key distinct_map_sort_key
      find_None_iff split: option.splits) metis

lemma sum_list_remove_first:
  fixes f :: "'a \<Rightarrow> 'b :: ab_group_add"
  shows "find P xs = Some x \<Longrightarrow> (\<Sum>y\<leftarrow>remove_first P xs. f y) = (\<Sum>y\<leftarrow>xs. f y) - f x"
  by (induction xs) (auto split: if_splits simp: algebra_simps)

lemma sum_list_update_first:
  fixes g :: "'a \<Rightarrow> 'b :: ab_group_add"
  shows "find P xs = Some x \<Longrightarrow>
    (\<Sum>y\<leftarrow>update_first P f xs. g y) = (\<Sum>y\<leftarrow>xs. g y) - g x + g (f x)"
  by (induction xs) (auto split: if_splits simp: algebra_simps)

lemma RemoveValidator_wf: "vs_wf vs \<Longrightarrow> RemoveValidator vs addr = Inr vs' \<Longrightarrow> vs_wf vs'"
  by (auto simp: vs_wf_def RemoveValidator_def sum_list_remove_first sorted_map_remove_first
      distinct_map_remove_first split: option.splits)

lemma UpdateStake_wf: "vs_wf vs \<Longrightarrow> UpdateStake vs addr st = Inr vs' \<Longrightarrow> vs_wf vs'"
  by (auto simp: vs_wf_def UpdateStake_def GetValidator_def sum_list_update_first
      split: option.splits)

lemma update_first_stake:
  "(\<And>v. vStake (f v) = vStake v) \<Longrightarrow> map vStake (update_first P f xs) = map vStake xs"
  by (rule map_update_first)

lemma IncrementCommitted_wf: "vs_wf vs \<Longrightarrow> vs_wf (IncrementCommitted vs addr)"
  by (simp add: vs_wf_def IncrementCommitted_def)

lemma IncrementMissed_wf: "vs_wf vs \<Longrightarrow> vs_wf (IncrementMissed vs addr)"
  by (simp add: vs_wf_def IncrementMissed_def)

subsection \<open>The election picks a member, in proportion to stake\<close>

lemma weighted_pick_bounds:
  "weighted_pick vs i c w = Some j \<Longrightarrow> i \<le> j \<and> j < i + length vs"
proof (induction vs arbitrary: i c)
  case Nil
  then show ?case by simp
next
  case (Cons v vs)
  show ?case
  proof (cases "w < c + vStake v")
    case True
    with Cons.prems show ?thesis by simp
  next
    case False
    with Cons.prems have "weighted_pick vs (Suc i) (c + vStake v) w = Some j" by (simp add: Let_def)
    from Cons.IH [OF this] show ?thesis by simp
  qed
qed

lemma selectProposer_less:
  assumes "validators vs \<noteq> []"
  shows "selectProposer sha256 vs height view < length (validators vs)"
  using assms by (auto simp: selectProposer_def Let_def split: option.splits)

text \<open>
  Without wrap-around, index \<open>i + j\<close> is picked exactly for the \<open>vStake\<close> many weights in its slot.
\<close>

definition stake_before :: "validator list \<Rightarrow> nat \<Rightarrow> nat" where
  "stake_before vs j = (\<Sum>v\<leftarrow>take j vs. unat (vStake v))"

lemma stake_before_Cons_Suc [simp]:
  "stake_before (v # vs) (Suc j) = unat (vStake v) + stake_before vs j"
  by (simp add: stake_before_def)

lemma stake_before_0 [simp]: "stake_before vs 0 = 0"
  by (simp add: stake_before_def)

lemma weighted_pick_slot:
  assumes "unat c + (\<Sum>v\<leftarrow>vs. unat (vStake v)) < 2 ^ 64" and "unat c \<le> unat w"
  shows "weighted_pick vs i c w = Some (i + j) \<longleftrightarrow>
    j < length vs \<and> unat c + stake_before vs j \<le> unat w \<and>
    unat w < unat c + stake_before vs (Suc j)"
  using assms
proof (induction vs arbitrary: i c j)
  case Nil
  then show ?case by simp
next
  case (Cons v vs)
  have c': "unat (c + vStake v) = unat c + unat (vStake v)"
    using Cons.prems(1) by (simp add: unat_word_ariths)
  show ?case
  proof (cases "w < c + vStake v")
    case True
    then have lt: "unat w < unat c + unat (vStake v)" by (simp add: word_less_nat_alt c')
    show ?thesis
    proof (cases j)
      case 0
      with True lt Cons.prems show ?thesis by simp
    next
      case (Suc k)
      with True lt show ?thesis by (simp add: Let_def)
    qed
  next
    case False
    then have ge: "unat c + unat (vStake v) \<le> unat w" by (simp add: word_less_nat_alt c')
    show ?thesis
    proof (cases j)
      case 0
      have "weighted_pick vs (Suc i) (c + vStake v) w \<noteq> Some i"
        using weighted_pick_bounds by fastforce
      with 0 False ge show ?thesis by (simp add: Let_def)
    next
      case (Suc k)
      have "weighted_pick vs (Suc i) (c + vStake v) w = Some (Suc i + k) \<longleftrightarrow>
        k < length vs \<and> unat (c + vStake v) + stake_before vs k \<le> unat w \<and>
        unat w < unat (c + vStake v) + stake_before vs (Suc k)"
        using Cons.prems ge by (intro Cons.IH) (simp_all add: c')
      with Suc False show ?thesis by (simp add: Let_def c' add.assoc)
    qed
  qed
qed

lemma weighted_pick_total:
  assumes "unat c + (\<Sum>v\<leftarrow>vs. unat (vStake v)) < 2 ^ 64"
    and "unat c \<le> unat w" and "unat w < unat c + (\<Sum>v\<leftarrow>vs. unat (vStake v))"
  shows "weighted_pick vs i c w \<noteq> None"
  using assms
proof (induction vs arbitrary: i c)
  case Nil
  then show ?case by simp
next
  case (Cons v vs)
  have c': "unat (c + vStake v) = unat c + unat (vStake v)"
    using Cons.prems(1) by (simp add: unat_word_ariths)
  show ?case
  proof (cases "w < c + vStake v")
    case True
    then show ?thesis by simp
  next
    case False
    then have "unat (c + vStake v) \<le> unat w" by (simp add: word_less_nat_alt)
    with Cons.prems have "weighted_pick vs (Suc i) (c + vStake v) w \<noteq> None"
      by (intro Cons.IH) (simp_all add: c')
    with False show ?thesis by (simp add: Let_def)
  qed
qed

subsection \<open>Counting signatures\<close>

definition sig_stake :: "validator_set \<Rightarrow> string \<times> bool \<Rightarrow> u64" where
  "sig_stake vs p = (if snd p then (case hexDecode (fst p) of Inl _ \<Rightarrow> 0 | Inr a \<Rightarrow> stake_of vs a) else 0)"

lemma signed_stake_sum: "signed_stake vs acc sigs = acc + (\<Sum>p\<leftarrow>sigs. sig_stake vs p)"
  by (induction vs acc sigs rule: signed_stake.induct)
    (auto simp: sig_stake_def split: sum.splits)

lemma signed_stake_perm: "mset sigs = mset sigs' \<Longrightarrow> signed_stake vs acc sigs = signed_stake vs acc sigs'"
  by (metis signed_stake_sum mset_map sum_mset_sum_list)

definition member_addrs :: "validator_set \<Rightarrow> bytes set" where
  "member_addrs vs = vAddress ` set (validators vs)"

definition signers :: "(string, bool) gomap \<Rightarrow> bytes set" where
  "signers sigs = {a. (hexEncode a, True) \<in> set sigs}"

lemma finite_signers: "finite (signers sigs)"
proof -
  have "hexEncode ` signers sigs \<subseteq> fst ` set sigs" by (auto simp: signers_def image_iff) force
  then have "finite (hexEncode ` signers sigs)" by (rule finite_subset) simp
  then show ?thesis by (rule finite_imageD) (simp add: inj_on_def)
qed

text \<open>Keys as the engine writes them: encodings of addresses, each at most once.\<close>

definition canonical_keys :: "(string, bool) gomap \<Rightarrow> bool" where
  "canonical_keys sigs \<longleftrightarrow> gomap_wf sigs \<and> (\<forall>p \<in> set sigs. fst p \<in> range hexEncode)"

lemma canonical_keys_Nil [simp]: "canonical_keys []"
  by (simp add: canonical_keys_def)

lemma canonical_keys_put [simp]:
  "canonical_keys sigs \<Longrightarrow> canonical_keys (goput (hexEncode a) b sigs)"
  using set_goput_subset [of "hexEncode a" b sigs] by (auto simp: canonical_keys_def)

lemma stake_of_outside: "a \<notin> member_addrs vs \<Longrightarrow> stake_of vs a = 0"
  by (auto simp: stake_of_def GetValidator_def member_addrs_def find_Some_iff split: option.splits)

lemma GetValidator_member: "distinct (map vAddress (validators vs)) \<Longrightarrow> v \<in> set (validators vs) \<Longrightarrow>
    GetValidator vs (vAddress v) = Some v"
proof -
  have "distinct (map vAddress xs) \<Longrightarrow> v \<in> set xs \<Longrightarrow> find (\<lambda>w. vAddress w = vAddress v) xs = Some v" for xs
    by (induction xs) force+
  then show "distinct (map vAddress (validators vs)) \<Longrightarrow> v \<in> set (validators vs) \<Longrightarrow> ?thesis"
    by (simp add: GetValidator_def)
qed

lemma stake_sum_members:
  assumes "distinct (map vAddress (validators vs))"
  shows "stake_sum vs = (\<Sum>a \<in> member_addrs vs. unat (stake_of vs a))"
proof -
  have "distinct (validators vs)" and inj: "inj_on vAddress (set (validators vs))"
    using assms by (simp_all add: distinct_map)
  then have "stake_sum vs = (\<Sum>v \<in> set (validators vs). unat (vStake v))"
    by (simp add: stake_sum_def sum_list_distinct_conv_sum_set)
  also have "\<dots> = (\<Sum>v \<in> set (validators vs). unat (stake_of vs (vAddress v)))"
    by (rule sum.cong) (simp_all add: stake_of_def GetValidator_member [OF assms])
  also have "\<dots> = (\<Sum>a \<in> member_addrs vs. unat (stake_of vs a))"
    by (simp add: member_addrs_def sum.reindex [OF inj])
  finally show ?thesis .
qed

interpretation vq: weighted_quorum member_addrs "\<lambda>vs a. unat (stake_of vs a)" "\<lambda>vs. unat (totalStake vs)" vs_bounded
proof unfold_locales
  fix vs assume "vs_bounded vs"
  then show "finite (member_addrs vs)" by (simp add: member_addrs_def)
next
  fix vs assume vs: "vs_bounded vs"
  then have "distinct (map vAddress (validators vs))" by (simp add: vs_bounded_def vs_wf_def)
  then show "unat (totalStake vs) = (\<Sum>a \<in> member_addrs vs. unat (stake_of vs a))"
    using vs_bounded_total [OF vs] by (simp add: stake_sum_members)
qed

lemma sig_stake_sum_signers:
  assumes "canonical_keys sigs"
  shows "(\<Sum>p\<leftarrow>sigs. unat (sig_stake vs p)) = (\<Sum>a \<in> signers sigs. unat (stake_of vs a))"
  using assms
proof (induction sigs)
  case Nil
  then show ?case by (simp add: signers_def)
next
  case (Cons p sigs)
  obtain k b where p: "p = (k, b)" by (cases p)
  from Cons.prems obtain a where k: "k = hexEncode a" and ck: "canonical_keys sigs"
    and fresh: "\<And>c. (hexEncode a, c) \<notin> set sigs"
    by (fastforce simp: canonical_keys_def gomap_wf_def p image_iff)
  have fin: "finite (signers sigs)" by (rule finite_signers)
  have "signers (p # sigs) = (if b then insert a (signers sigs) else signers sigs)"
    by (auto simp: signers_def p k)
  moreover have "a \<notin> signers sigs" using fresh by (simp add: signers_def)
  ultimately show ?case using Cons.IH [OF ck] fin by (simp add: p k sig_stake_def)
qed

lemma signed_stake_power:
  assumes vs: "vs_bounded vs" and "canonical_keys sigs"
  shows "unat (signed_stake vs 0 sigs) = vq.power_of vs (signers sigs)"
proof -
  have fin: "finite (signers sigs)" by (rule finite_signers)
  have eq: "(\<Sum>p\<leftarrow>sigs. unat (sig_stake vs p)) = vq.power_of vs (signers sigs)"
    unfolding sig_stake_sum_signers [OF assms(2)] vq.power_of_def
    by (rule sum.mono_neutral_right [OF fin]) (blast, metis DiffE IntI stake_of_outside unat_0)
  also have "\<dots> \<le> unat (totalStake vs)" by (rule vq.power_of_le_total [OF vs])
  also have "\<dots> < 2 ^ 64" using unsigned_less [of "totalStake vs"] by simp
  finally have lt: "(\<Sum>p\<leftarrow>sigs. unat (sig_stake vs p)) < 2 ^ 64" .
  have "unat (signed_stake vs 0 sigs) = unat (\<Sum>p\<leftarrow>sigs. sig_stake vs p)"
    by (simp add: signed_stake_sum)
  also have "\<dots> = (\<Sum>p\<leftarrow>sigs. unat (sig_stake vs p))" by (rule unat_sum_list [OF lt])
  finally show ?thesis by (simp add: eq)
qed

lemma super_majority_test:
  assumes "vs_bounded vs" and "unat s \<le> unat (totalStake vs)"
  shows "s * 3 > totalStake vs * 2 \<longleftrightarrow> 2 * unat (totalStake vs) < 3 * unat s"
proof -
  have "3 * unat (totalStake vs) < 2 ^ 64"
    using assms(1) vs_bounded_total [OF assms(1)] by (simp add: vs_bounded_def)
  with assms(2) show ?thesis by (simp add: word_less_nat_alt unat_word_ariths mult.commute)
qed

lemma HasSuperMajority_quorum:
  assumes "vs_bounded vs" and "canonical_keys sigs"
  shows "HasSuperMajority vs sigs \<longleftrightarrow> vq.quorum vs (signers sigs)"
  unfolding HasSuperMajority_def vq.quorum_def signed_stake_power [OF assms, symmetric]
  by (rule super_majority_test [OF assms(1)])
    (simp add: signed_stake_power [OF assms] vq.power_of_le_total [OF assms(1)])

subsection \<open>Histories of membership changes\<close>

text \<open>A failing operation returns an error and leaves the set as it was.\<close>

datatype vs_op = OpAdd validator | OpRemove bytes | OpStake bytes u64 | OpCommitted bytes | OpMissed bytes

definition keep_on_error :: "'a \<Rightarrow> 'e + 'a \<Rightarrow> 'a" where
  "keep_on_error s r = (case r of Inl _ \<Rightarrow> s | Inr s' \<Rightarrow> s')"

fun vs_step :: "validator_set \<Rightarrow> vs_op \<Rightarrow> validator_set" where
  "vs_step vs (OpAdd v) = keep_on_error vs (AddValidator vs v)"
| "vs_step vs (OpRemove a) = keep_on_error vs (RemoveValidator vs a)"
| "vs_step vs (OpStake a st) = keep_on_error vs (UpdateStake vs a st)"
| "vs_step vs (OpCommitted a) = IncrementCommitted vs a"
| "vs_step vs (OpMissed a) = IncrementMissed vs a"

interpretation vs_sys: guarded_system vs_step vs_wf
proof unfold_locales
  fix vs op assume "vs_wf vs"
  then show "vs_wf (vs_step vs op)"
    by (cases op) (auto simp: keep_on_error_def split: sum.splits
        intro: IncrementCommitted_wf IncrementMissed_wf
        dest: AddValidator_wf RemoveValidator_wf UpdateStake_wf)
qed

definition sample_validator :: "nat \<Rightarrow> u64 \<Rightarrow> validator" where
  "sample_validator a st = \<lparr>vAddress = [of_nat a], vPublicKey = [], vStake = st, vIsActive = True,
     vIsJailed = False, vJailedUntil = 0, vUnbondingAt = 0, vCommittedRounds = 0, vMissedVotes = 0\<rparr>"

definition sample_vs :: validator_set where
  "sample_vs = \<lparr>validators = [sample_validator 10 2, sample_validator 11 3, sample_validator 12 1],
     totalStake = 6, vsEpoch = 1\<rparr>"

lemma sample_vs_wf: "vs_wf sample_vs"
  by (simp add: vs_wf_def sample_vs_def sample_validator_def)

lemma sample_vs_bounded: "vs_bounded sample_vs"
  using sample_vs_wf by (simp add: vs_bounded_def stake_sum_def sample_vs_def sample_validator_def)

text \<open>
  Whatever sequence of additions, removals, stake updates and vote counters is
  applied to a validator set, it stays sorted by address, free of duplicates, and its cached
  total stake stays the sum of the members' stakes.
\<close>

theorem vs_history_wf:
  assumes "vs_wf vs"
  shows "vs_wf (foldl vs_step vs ops)"
  using assms by (rule vs_sys.run_inv)

theorem vs_history_wf_witness:
  "vs_wf (foldl vs_step sample_vs
     [OpAdd (sample_validator 9 7), OpRemove [11], OpStake [12] 5, OpAdd (sample_validator 9 1)])"
  by (rule vs_history_wf [OF sample_vs_wf])

lemma card_unat_interval:
  assumes "hi \<le> 2 ^ 64"
  shows "card {w :: u64. lo \<le> unat w \<and> unat w < hi} = hi - lo"
proof -
  have un: "unat (of_nat n :: u64) = n" if "n < hi" for n
  proof -
    from that assms have "n < 2 ^ 64" by simp
    then show ?thesis by (simp only: unat_of_nat len_num1 len_bit0 len_bit1) simp
  qed
  have "{w :: u64. lo \<le> unat w \<and> unat w < hi} = of_nat ` {lo ..< hi}"
  proof (intro set_eqI iffI)
    fix w :: u64
    assume "w \<in> {w. lo \<le> unat w \<and> unat w < hi}"
    then have "w = of_nat (unat w)" "unat w \<in> {lo ..< hi}" by simp_all
    then show "w \<in> of_nat ` {lo ..< hi}" by (rule image_eqI)
  next
    fix w :: u64
    assume "w \<in> of_nat ` {lo ..< hi}"
    then obtain n where "w = of_nat n" and "lo \<le> n" "n < hi" by auto
    then show "w \<in> {w. lo \<le> unat w \<and> unat w < hi}" by (simp add: un)
  qed
  moreover have "inj_on (of_nat :: nat \<Rightarrow> u64) {lo ..< hi}"
    by (rule inj_on_inverseI [where g = unat]) (simp add: un)
  ultimately show ?thesis by (simp add: card_image)
qed

lemma stake_before_Suc:
  "i < length vs \<Longrightarrow> stake_before vs (Suc i) = stake_before vs i + unat (vStake (vs ! i))"
  by (simp add: stake_before_def take_Suc_conv_app_nth)

lemma stake_before_le: "stake_before (validators vs) i \<le> stake_sum vs"
proof -
  have "stake_sum vs = stake_before (validators vs) i + (\<Sum>v\<leftarrow>drop i (validators vs). unat (vStake v))"
    unfolding stake_sum_def stake_before_def by (metis append_take_drop_id map_append sum_list_append)
  then show ?thesis by simp
qed

lemma weighted_pick_slot_0:
  assumes "stake_sum vs < 2 ^ 64" and "i < length (validators vs)"
  shows "weighted_pick (validators vs) 0 0 w = Some i \<longleftrightarrow>
    stake_before (validators vs) i \<le> unat w \<and> unat w < stake_before (validators vs) (Suc i)"
  using weighted_pick_slot [of 0 "validators vs" w 0 i] assms
  by (simp only: stake_sum_def unat_0 add_0) simp

text \<open>
  The weighted draw of the proposer election gives the member at position
  \<open>i\<close> exactly as many of the \<open>totalStake\<close> weights as it has stake, and no weight below the total is
  left without a member (the fallback to the last member is never needed).
\<close>

theorem proposer_stake_share:
  assumes "stake_sum vs < 2 ^ 64" and "i < length (validators vs)"
  shows "card {w :: u64. unat w < stake_sum vs \<and> weighted_pick (validators vs) 0 0 w = Some i}
        = unat (vStake (validators vs ! i)) \<and>
      (\<forall>w. unat w < stake_sum vs \<longrightarrow> weighted_pick (validators vs) 0 0 w \<noteq> None)"
proof
  let ?lo = "stake_before (validators vs) i" and ?hi = "stake_before (validators vs) (Suc i)"
  have "{w :: u64. unat w < stake_sum vs \<and> weighted_pick (validators vs) 0 0 w = Some i}
      = {w. ?lo \<le> unat w \<and> unat w < ?hi}"
    using weighted_pick_slot_0 [OF assms] stake_before_le [of vs "Suc i"] by (auto intro: less_le_trans)
  moreover have "?hi \<le> 2 ^ 64" using stake_before_le [of vs "Suc i"] assms(1) by linarith
  ultimately show "card {w :: u64. unat w < stake_sum vs \<and> weighted_pick (validators vs) 0 0 w = Some i}
      = unat (vStake (validators vs ! i))"
    by (simp only: card_unat_interval stake_before_Suc [OF assms(2)] add_diff_cancel_left')
next
  show "\<forall>w. unat w < stake_sum vs \<longrightarrow> weighted_pick (validators vs) 0 0 w \<noteq> None"
    using weighted_pick_total [of 0 "validators vs" _ 0] assms(1)
    by (simp only: stake_sum_def unat_0 add_0) blast
qed

theorem proposer_stake_share_witness:
  "card {w :: u64. unat w < stake_sum sample_vs \<and> weighted_pick (validators sample_vs) 0 0 w = Some 1} = 3"
proof -
  have "stake_sum sample_vs < 2 ^ 64" "1 < length (validators sample_vs)"
    by (simp_all add: stake_sum_def sample_vs_def sample_validator_def)
  from proposer_stake_share [OF this]
  show ?thesis by (simp add: sample_vs_def sample_validator_def)
qed

text \<open>
  The proposer of any height and view of a non-empty set is one of its
  members, whatever the hash function: the slice access is never out of range.
\<close>

theorem proposer_is_member:
  assumes "0 < Size vs"
  shows "\<exists>v \<in> set (GetValidators vs). GetProposerForView sha256 vs height view = Inr v"
    using selectProposer_less [of vs sha256 height view] assms
    by (auto simp: GetProposerForView_def Size_def GetValidators_def intro: nth_mem)

theorem proposer_is_member_witness:
  "\<exists>v \<in> set (GetValidators sample_vs). GetProposerForView (\<lambda>bs. rev bs) sample_vs 7 3 = Inr v"
  by (rule proposer_is_member) (simp add: Size_def sample_vs_def)

lemma super_majorities_common:
  assumes "vs_bounded vs" and "canonical_keys A" and "canonical_keys B"
    and "HasSuperMajority vs A" and "HasSuperMajority vs B"
    and "3 * (\<Sum>a \<in> member_addrs vs \<inter> F. unat (stake_of vs a)) \<le> unat (totalStake vs)"
  shows "\<exists>a \<in> member_addrs vs. a \<notin> F \<and> goget A (hexEncode a) = Some True \<and> goget B (hexEncode a) = Some True"
proof -
  have "vq.quorum vs (signers A)" "vq.quorum vs (signers B)"
    using HasSuperMajority_quorum assms(1-5) by blast+
  from vq.quorum_inter_correct [OF assms(1) this, of F] assms(6)
  obtain a where a: "a \<in> member_addrs vs" "a \<in> signers A" "a \<in> signers B" "a \<notin> F"
    by (auto simp: vq.power_of_def)
  then show ?thesis
    using assms(2,3) by (auto simp: signers_def canonical_keys_def goget_iff_in_set)
qed

text \<open>
  C28 (super_majorities_intersect): two vote sets with a super-majority, under any order in which their maps are
  visited, share a member that is not in a given set of faulty validators holding at most a
  third of the stake.
\<close>

theorem super_majorities_intersect:
  assumes "vs_bounded vs" and "canonical_keys A" and "canonical_keys B"
    and "mset A = mset A'" and "HasSuperMajority vs A'" and "HasSuperMajority vs B"
    and "3 * (\<Sum>a \<in> member_addrs vs \<inter> F. unat (stake_of vs a)) \<le> unat (totalStake vs)"
  shows "\<exists>a \<in> member_addrs vs. a \<notin> F \<and> goget A (hexEncode a) = Some True \<and> goget B (hexEncode a) = Some True"
proof -
  have "HasSuperMajority vs A"
    using assms(5) signed_stake_perm [OF assms(4)] by (simp add: HasSuperMajority_def)
  then show ?thesis using super_majorities_common assms by blast
qed

theorem super_majorities_intersect_witness:
  "\<exists>a \<in> member_addrs sample_vs. a \<notin> {[12]} \<and>
     goget [(hexEncode [10], True), (hexEncode [11], True)] (hexEncode a) = Some True \<and>
     goget [(hexEncode [11], True), (hexEncode [10], True), (hexEncode [12], True)] (hexEncode a) = Some True"
proof (rule super_majorities_intersect [where A' = "[(hexEncode [11], True), (hexEncode [10], True)]"])
  show "HasSuperMajority sample_vs [(hexEncode [11], True), (hexEncode [10], True)]"
    and "HasSuperMajority sample_vs [(hexEncode [11], True), (hexEncode [10], True), (hexEncode [12], True)]"
    by (simp_all add: HasSuperMajority_def stake_of_def GetValidator_def sample_vs_def sample_validator_def)
  have "member_addrs sample_vs \<inter> {[12]} = {[12]}"
    by (simp add: member_addrs_def sample_vs_def sample_validator_def)
  then show "3 * (\<Sum>a \<in> member_addrs sample_vs \<inter> {[12]}. unat (stake_of sample_vs a)) \<le> unat (totalStake sample_vs)"
    by (simp add: stake_of_def GetValidator_def sample_vs_def sample_validator_def)
qed (simp_all add: sample_vs_bounded canonical_keys_def gomap_wf_def add_mset_commute)

end
