(* ===== verification/Keys.thy ===== *)
theory Keys
  imports Codec
begin

text \<open>
  Keys and signatures (\<open>crypto/keys.go\<close>). The elliptic curve and the hash functions are libraries:
  they are the fields of \<open>crypto_lib\<close>, an argument of every definition that uses them, over
  abstract types of secret and public keys. What is modelled is what the package does around the
  library: the low-S rule, the 64-byte signature format and the 32-byte arrays that are filled
  before a verification, whose \<open>copy(arr[32-len(b):], b)\<close> panics for a longer number.
\<close>

record ('s, 'k) crypto_lib =
  clSha256 :: "bytes \<Rightarrow> bytes"
  clKeccak :: "bytes \<Rightarrow> bytes"
  clParsePubKey :: "bytes \<Rightarrow> 'k option"
  clSerialize :: "'k \<Rightarrow> bytes"
  clPub :: "'s \<Rightarrow> 'k"
  clOrder :: nat
  clSign :: "'s \<Rightarrow> bytes \<Rightarrow> nat \<times> nat"
  clVerify :: "bytes \<Rightarrow> bytes \<Rightarrow> bytes \<Rightarrow> 'k \<Rightarrow> bool"
  clRecover :: "bytes \<Rightarrow> bytes \<Rightarrow> 'k option"

text \<open>\<open>crypto.Signature\<close>: two non-negative big integers.\<close>

record signature =
  sigR :: nat
  sigS :: nat

text \<open>What a computation that can panic returns.\<close>

datatype 'a outcome = Done 'a | Panics

fun bind_outcome :: "'a outcome \<Rightarrow> ('a \<Rightarrow> 'b outcome) \<Rightarrow> 'b outcome" where
  "bind_outcome (Done x) f = f x"
| "bind_outcome Panics f = Panics"

definition DoubleSHA256 :: "('s, 'k) crypto_lib \<Rightarrow> bytes \<Rightarrow> bytes" where
  "DoubleSHA256 cl data = clSha256 cl (clSha256 cl data)"

text \<open>A number right-aligned in 32 zero bytes.\<close>

definition fill32 :: "bytes \<Rightarrow> bytes outcome" where
  "fill32 b = (if 32 < length b then Panics else Done (replicate (32 - length b) 0 @ b))"

definition SignHash :: "('s, 'k) crypto_lib \<Rightarrow> 's \<Rightarrow> bytes \<Rightarrow> signature" where
  "SignHash cl key hash = (let (r, s) = clSign cl key hash
     in \<lparr>sigR = r, sigS = (if clOrder cl div 2 < s then clOrder cl - s else s)\<rparr>)"

definition Sign :: "('s, 'k) crypto_lib \<Rightarrow> 's \<Rightarrow> bytes \<Rightarrow> signature" where
  "Sign cl key data = SignHash cl key (clKeccak cl data)"

definition sig_Bytes :: "signature \<Rightarrow> bytes outcome" where
  "sig_Bytes sig = (let rBytes = big_bytes (sigR sig); sBytes = big_bytes (sigS sig)
     in if 32 < length rBytes then Panics
        else if 64 < length sBytes then Panics
        else let combined = replicate (32 - length rBytes) 0 @ rBytes @ replicate 32 0
          in Done (take (64 - length sBytes) combined @ sBytes))"

datatype key_error = KeyBadSigLength nat | KeyInvalid

definition SignatureFromBytes :: "bytes \<Rightarrow> key_error + signature" where
  "SignatureFromBytes data = (if length data \<noteq> 64 then Inl (KeyBadSigLength (length data))
     else Inr \<lparr>sigR = unbe (take 32 data), sigS = unbe (take 32 (drop 32 data))\<rparr>)"

definition SignMessage :: "('s, 'k) crypto_lib \<Rightarrow> 's \<Rightarrow> bytes \<Rightarrow> bytes outcome" where
  "SignMessage cl key data = sig_Bytes (Sign cl key data)"

definition VerifyHash :: "('s, 'k) crypto_lib \<Rightarrow> 'k \<Rightarrow> bytes \<Rightarrow> signature \<Rightarrow> bool outcome" where
  "VerifyHash cl pub hash sig =
     bind_outcome (fill32 (big_bytes (sigR sig))) (\<lambda>r.
     bind_outcome (fill32 (big_bytes (sigS sig))) (\<lambda>s.
     Done (clVerify cl r s hash pub)))"

definition pub_Verify :: "('s, 'k) crypto_lib \<Rightarrow> 'k \<Rightarrow> bytes \<Rightarrow> signature \<Rightarrow> bool outcome" where
  "pub_Verify cl pub data sig = VerifyHash cl pub (clKeccak cl data) sig"

definition VerifyMessage :: "('s, 'k) crypto_lib \<Rightarrow> 'k \<Rightarrow> bytes \<Rightarrow> bytes \<Rightarrow> bool outcome" where
  "VerifyMessage cl pub data sig = (if length sig \<noteq> 64 then Done False
     else pub_Verify cl pub data \<lparr>sigR = unbe (take 32 sig), sigS = unbe (drop 32 sig)\<rparr>)"

definition PubKeyFromBytes :: "('s, 'k) crypto_lib \<Rightarrow> bytes \<Rightarrow> key_error + 'k" where
  "PubKeyFromBytes cl data = (case clParsePubKey cl data of
       None \<Rightarrow> Inl KeyInvalid | Some k \<Rightarrow> Inr k)"

text \<open>An uncompressed key has 65 bytes and a Keccak digest 32, so no slice is out of range.\<close>

definition Address :: "('s, 'k) crypto_lib \<Rightarrow> 'k \<Rightarrow> bytes" where
  "Address cl pub = drop 12 (clKeccak cl (drop 1 (clSerialize cl pub)))"

subsection \<open>Signatures in 64 bytes\<close>

lemma sig_Bytes_fits:
  assumes "sigR sig < 256 ^ 32" and "sigS sig < 256 ^ 32"
  shows "\<exists>b. sig_Bytes sig = Done b \<and> length b = 64
    \<and> unbe (take 32 b) = sigR sig \<and> unbe (drop 32 b) = sigS sig"
proof -
  let ?r = "big_bytes (sigR sig)" and ?s = "big_bytes (sigS sig)"
  have len: "length ?r \<le> 32" "length ?s \<le> 32"
    using assms by (simp_all only: length_big_bytes_le)
  let ?b = "(replicate (32 - length ?r) 0 @ ?r) @ replicate (32 - length ?s) 0 @ ?s"
  have "take (64 - length ?s) (replicate (32 - length ?r) 0 @ ?r @ replicate 32 (0 :: byte))
      = (replicate (32 - length ?r) 0 @ ?r) @ replicate (32 - length ?s) 0"
    using len by (auto simp: min_def)
  then have "sig_Bytes sig = Done ?b" using len by (simp add: sig_Bytes_def Let_def)
  moreover have "length (replicate (32 - length ?r) (0 :: byte) @ ?r) = 32" using len by simp
  then have "take 32 ?b = replicate (32 - length ?r) 0 @ ?r"
    and "drop 32 ?b = replicate (32 - length ?s) 0 @ ?s"
    by (metis append_eq_conv_conj)+
  moreover have "length ?b = 64" using len by simp
  ultimately show ?thesis by simp
qed

text \<open>What \<open>VerifyMessage\<close> does with the bytes of a signature is what \<open>Verify\<close> does with it.\<close>

lemma VerifyMessage_Bytes:
  assumes "sigR sig < 256 ^ 32" and "sigS sig < 256 ^ 32"
  shows "\<exists>b. sig_Bytes sig = Done b \<and> VerifyMessage cl pub data b = pub_Verify cl pub data sig
    \<and> SignatureFromBytes b = Inr sig"
proof -
  obtain b where b: "sig_Bytes sig = Done b" "length b = 64" "unbe (take 32 b) = sigR sig"
      "unbe (drop 32 b) = sigS sig"
    using sig_Bytes_fits [OF assms] by blast
  moreover have "take 32 (drop 32 b) = drop 32 b" using b(2) by simp
  ultimately show ?thesis by (cases sig) (simp add: VerifyMessage_def SignatureFromBytes_def)
qed

text \<open>The low-S rule, for a library that returns scalars below the order.\<close>

lemma SignHash_low_s:
  assumes "snd (clSign cl key hash) < clOrder cl"
  shows "2 * sigS (SignHash cl key hash) \<le> clOrder cl"
  using assms by (auto simp: SignHash_def split: prod.splits)

lemma VerifyHash_done:
  assumes "sigR sig < 256 ^ 32" and "sigS sig < 256 ^ 32"
  shows "VerifyHash cl pub hash sig \<noteq> Panics"
  using length_big_bytes_le [OF assms(1)] length_big_bytes_le [OF assms(2)]
  by (simp add: VerifyHash_def fill32_def)

lemma big_bytes_long: "256 ^ k \<le> n \<Longrightarrow> k < length (big_bytes n)"
proof (rule ccontr)
  assume "256 ^ k \<le> n" and "\<not> k < length (big_bytes n)"
  moreover have "n < 256 ^ length (big_bytes n)" using unbe_less [of "big_bytes n"] by simp
  moreover have "(256 :: nat) ^ length (big_bytes n) \<le> 256 ^ k"
    using \<open>\<not> k < length (big_bytes n)\<close> by (intro power_increasing) simp_all
  ultimately show False by linarith
qed

text \<open>A signature whose first number has more than 32 bytes panics in the verification.\<close>

lemma VerifyHash_panics: "256 ^ 32 \<le> sigR sig \<Longrightarrow> VerifyHash cl pub hash sig = Panics"
  using big_bytes_long [of 32 "sigR sig"] by (simp add: VerifyHash_def fill32_def)

end
