(* ===== verification/Quorum_Cert.thy ===== *)
theory Quorum_Cert
  imports Validator_Set Keys
begin

text \<open>
  Quorum certificates (\<open>QC\<close> in \<open>internal/layer1/consensus/validator_set.go\<close>): the validity test
  and the binary codec. A \<open>Phase\<close> is a \<open>uint8\<close>, which the decoder does not restrict to the five
  named phases, so it is a byte here as well.
\<close>

type_synonym phase = byte

abbreviation (input) PhaseIdle :: phase where "PhaseIdle \<equiv> 0"
abbreviation (input) PhasePrepare :: phase where "PhasePrepare \<equiv> 1"
abbreviation (input) PhasePreCommit :: phase where "PhasePreCommit \<equiv> 2"
abbreviation (input) PhaseCommit :: phase where "PhaseCommit \<equiv> 3"
abbreviation (input) PhaseDecide :: phase where "PhaseDecide \<equiv> 4"

definition Phase_String :: "phase \<Rightarrow> string" where
  "Phase_String p =
     (if p = PhaseIdle then ''IDLE''
      else if p = PhasePrepare then ''PREPARE''
      else if p = PhasePreCommit then ''PRECOMMIT''
      else if p = PhaseCommit then ''COMMIT''
      else if p = PhaseDecide then ''DECIDE''
      else ''UNKNOWN'')"

record qc =
  qcHeight :: u64
  qcView :: u64
  qcPhase :: phase
  qcBlockHash :: bytes
  qcSignatures :: "(string, signature) gomap"
  qcValidatorAddrs :: "string list"

subsection \<open>Validity\<close>

fun qc_signed_stake ::
    "validator_set \<Rightarrow> (string, signature) gomap \<Rightarrow> string list \<Rightarrow> u64 \<Rightarrow> string list \<Rightarrow> u64" where
  "qc_signed_stake vs sigs seen acc [] = acc"
| "qc_signed_stake vs sigs seen acc (addr # rest) =
     (if addr \<in> set seen then qc_signed_stake vs sigs seen acc rest
      else let seen' = addr # seen in
        case goget sigs addr of
          None \<Rightarrow> qc_signed_stake vs sigs seen' acc rest
        | Some _ \<Rightarrow> (case hexDecode addr of
              Inl _ \<Rightarrow> qc_signed_stake vs sigs seen' acc rest
            | Inr addrBytes \<Rightarrow> qc_signed_stake vs sigs seen' (acc + stake_of vs addrBytes) rest))"

definition IsValid :: "qc \<Rightarrow> validator_set \<Rightarrow> bool" where
  "IsValid q vs \<longleftrightarrow>
     qc_signed_stake vs (qcSignatures q) [] 0 (qcValidatorAddrs q) * 3 > totalStake vs * 2"

subsection \<open>The binary codec\<close>

definition encode_signer :: "(string, signature) gomap \<Rightarrow> string \<Rightarrow> bytes" where
  "encode_signer sigs addr =
     be 2 (length addr) @ bytes_of_str addr @
     (case goget sigs addr of
        None \<Rightarrow> []
      | Some sig \<Rightarrow>
          (let rBytes = big_bytes (sigR sig); sBytes = big_bytes (sigS sig) in
           be 2 (length rBytes) @ rBytes @ be 2 (length sBytes) @ sBytes))"

definition QC_Encode :: "qc \<Rightarrow> bytes" where
  "QC_Encode q =
     be_u64 (qcHeight q) @ be_u64 (qcView q) @ [qcPhase q] @
     be 2 (length (qcBlockHash q)) @ qcBlockHash q @
     be 4 (length (qcValidatorAddrs q)) @
     concat (map (encode_signer (qcSignatures q)) (qcValidatorAddrs q))"

datatype qc_error = QCRead | QCHashTooLong nat | QCTooManyAddrs nat | QCAddrTooLong nat
  | QCSigRTooLong nat | QCSigSTooLong nat

abbreviation (input) maxAddrCount :: nat where "maxAddrCount \<equiv> 1000"
abbreviation (input) maxHashLen :: nat where "maxHashLen \<equiv> 64"
abbreviation (input) maxSigLen :: nat where "maxSigLen \<equiv> 66"
abbreviation (input) maxAddrStr :: nat where "maxAddrStr \<equiv> 128"

text \<open>One turn of the decoding loop: an address and its signature.\<close>

definition decode_signer :: "bytes \<Rightarrow> qc_error + (string \<times> signature \<times> bytes)" where
  "decode_signer b0 =
     (case read_uint 2 b0 of None \<Rightarrow> Inl QCRead | Some (addrLen, b1) \<Rightarrow>
      if addrLen > maxAddrStr then Inl (QCAddrTooLong addrLen) else
      case read_buf addrLen b1 of None \<Rightarrow> Inl QCRead | Some (addr, b2) \<Rightarrow>
      case read_uint 2 b2 of None \<Rightarrow> Inl QCRead | Some (rLen, b3) \<Rightarrow>
      if rLen > maxSigLen then Inl (QCSigRTooLong rLen) else
      case read_buf rLen b3 of None \<Rightarrow> Inl QCRead | Some (rBytes, b4) \<Rightarrow>
      case read_uint 2 b4 of None \<Rightarrow> Inl QCRead | Some (sLen, b5) \<Rightarrow>
      if sLen > maxSigLen then Inl (QCSigSTooLong sLen) else
      case read_buf sLen b5 of None \<Rightarrow> Inl QCRead | Some (sBytes, b6) \<Rightarrow>
      Inr (str_of_bytes addr, \<lparr>sigR = unbe rBytes, sigS = unbe sBytes\<rparr>, b6))"

fun decode_signers :: "nat \<Rightarrow> qc \<Rightarrow> bytes \<Rightarrow> qc_error + qc" where
  "decode_signers 0 q bs = Inr q"
| "decode_signers (Suc n) q bs =
     (case decode_signer bs of
        Inl e \<Rightarrow> Inl e
      | Inr (addr, sig, rest) \<Rightarrow>
          decode_signers n (q\<lparr>qcValidatorAddrs := qcValidatorAddrs q @ [addr],
            qcSignatures := goput addr sig (qcSignatures q)\<rparr>) rest)"

definition DecodeQC :: "bytes \<Rightarrow> qc_error + qc" where
  "DecodeQC b0 =
     (case read_uint 8 b0 of None \<Rightarrow> Inl QCRead | Some (h, b1) \<Rightarrow>
      case read_uint 8 b1 of None \<Rightarrow> Inl QCRead | Some (v, b2) \<Rightarrow>
      case read_uint 1 b2 of None \<Rightarrow> Inl QCRead | Some (ph, b3) \<Rightarrow>
      case read_uint 2 b3 of None \<Rightarrow> Inl QCRead | Some (hashLen, b4) \<Rightarrow>
      if hashLen > maxHashLen then Inl (QCHashTooLong hashLen) else
      case read_buf hashLen b4 of None \<Rightarrow> Inl QCRead | Some (hash, b5) \<Rightarrow>
      case read_uint 4 b5 of None \<Rightarrow> Inl QCRead | Some (addrCount, b6) \<Rightarrow>
      if addrCount > maxAddrCount then Inl (QCTooManyAddrs addrCount) else
      decode_signers addrCount
        \<lparr>qcHeight = of_nat h, qcView = of_nat v, qcPhase = of_nat ph, qcBlockHash = hash,
         qcSignatures = [], qcValidatorAddrs = []\<rparr> b6)"

subsection \<open>What the validity test counts\<close>

definition qc_sig_stake :: "validator_set \<Rightarrow> (string, signature) gomap \<Rightarrow> string \<Rightarrow> u64" where
  "qc_sig_stake vs sigs addr =
     (if goget sigs addr = None then 0
      else (case hexDecode addr of Inl _ \<Rightarrow> 0 | Inr a \<Rightarrow> stake_of vs a))"

lemma qc_signed_stake_sum:
  "qc_signed_stake vs sigs seen acc addrs =
     acc + (\<Sum>a \<in> set addrs - set seen. qc_sig_stake vs sigs a)"
proof (induction addrs arbitrary: seen acc)
  case Nil
  then show ?case by simp
next
  case (Cons a addrs)
  show ?case
  proof (cases "a \<in> set seen")
    case True
    then have "set (a # addrs) - set seen = set addrs - set seen" by auto
    with True Cons.IH show ?thesis by simp
  next
    case False
    then have "set (a # addrs) - set seen = insert a (set addrs - set (a # seen))" by auto
    then have "(\<Sum>b \<in> set (a # addrs) - set seen. qc_sig_stake vs sigs b)
      = qc_sig_stake vs sigs a + (\<Sum>b \<in> set addrs - set (a # seen). qc_sig_stake vs sigs b)"
      by simp
    with False show ?thesis
      by (auto simp: Cons.IH Let_def qc_sig_stake_def add.assoc split: option.splits sum.splits)
  qed
qed

definition qc_signers :: "qc \<Rightarrow> bytes set" where
  "qc_signers q = {a. hexEncode a \<in> set (qcValidatorAddrs q) \<and> goget (qcSignatures q) (hexEncode a) \<noteq> None}"

definition canonical_qc :: "qc \<Rightarrow> bool" where
  "canonical_qc q \<longleftrightarrow> set (qcValidatorAddrs q) \<subseteq> range hexEncode"

lemma unat_sum_set:
  fixes f :: "'a \<Rightarrow> u64"
  assumes "finite A" and "(\<Sum>x \<in> A. unat (f x)) < 2 ^ 64"
  shows "unat (\<Sum>x \<in> A. f x) = (\<Sum>x \<in> A. unat (f x))"
  using assms by (induction A) (simp_all add: unat_word_ariths)

lemma qc_signed_stake_power:
  assumes vs: "vs_bounded vs" and can: "canonical_qc q"
  shows "unat (qc_signed_stake vs (qcSignatures q) [] 0 (qcValidatorAddrs q)) = vq.power_of vs (qc_signers q)"
proof -
  let ?f = "qc_sig_stake vs (qcSignatures q)" and ?A = "set (qcValidatorAddrs q)"
  have fin: "finite (qc_signers q)"
  proof -
    have "hexEncode ` qc_signers q \<subseteq> ?A" by (auto simp: qc_signers_def)
    then have "finite (hexEncode ` qc_signers q)" by (rule finite_subset) simp
    then show ?thesis by (rule finite_imageD) (simp add: inj_on_def)
  qed
  have "(\<Sum>x \<in> ?A. unat (?f x)) = (\<Sum>x \<in> hexEncode ` qc_signers q. unat (?f x))"
  proof (rule sum.mono_neutral_right)
    show "\<forall>i \<in> ?A - hexEncode ` qc_signers q. unat (?f i) = 0"
      using can by (auto simp: canonical_qc_def qc_signers_def qc_sig_stake_def)
  qed (auto simp: qc_signers_def)
  also have "\<dots> = (\<Sum>a \<in> qc_signers q. unat (stake_of vs a))"
    by (subst sum.reindex) (auto simp: inj_on_def qc_sig_stake_def qc_signers_def intro!: sum.cong)
  also have "\<dots> = vq.power_of vs (qc_signers q)"
    unfolding vq.power_of_def
    by (rule sum.mono_neutral_right [OF fin]) (blast, metis DiffE IntI stake_of_outside unat_0)
  finally have eq: "(\<Sum>x \<in> ?A. unat (?f x)) = vq.power_of vs (qc_signers q)" .
  also have "\<dots> \<le> unat (totalStake vs)" by (rule vq.power_of_le_total [OF vs])
  also have "\<dots> < 2 ^ 64" using unsigned_less [of "totalStake vs"] by simp
  finally have "unat (\<Sum>x \<in> ?A. ?f x) = (\<Sum>x \<in> ?A. unat (?f x))" by (intro unat_sum_set) simp_all
  then show ?thesis by (simp add: qc_signed_stake_sum eq)
qed

lemma IsValid_quorum:
  assumes "vs_bounded vs" and "canonical_qc q"
  shows "IsValid q vs \<longleftrightarrow> vq.quorum vs (qc_signers q)"
  unfolding IsValid_def vq.quorum_def qc_signed_stake_power [OF assms, symmetric]
  by (rule super_majority_test [OF assms(1)])
    (simp add: qc_signed_stake_power [OF assms] vq.power_of_le_total [OF assms(1)])

text \<open>The test looks at which addresses carry a signature, never at the signature.\<close>

lemma IsValid_cong:
  assumes "\<And>a. goget (qcSignatures q) a = None \<longleftrightarrow> goget (qcSignatures q') a = None"
    and "set (qcValidatorAddrs q) = set (qcValidatorAddrs q')"
  shows "IsValid q vs = IsValid q' vs"
  by (simp add: IsValid_def qc_signed_stake_sum qc_sig_stake_def assms)

subsection \<open>Encoding and decoding\<close>

definition encodable_sig :: "signature \<Rightarrow> bool" where
  "encodable_sig sig \<longleftrightarrow> length (big_bytes (sigR sig)) \<le> maxSigLen \<and>
     length (big_bytes (sigS sig)) \<le> maxSigLen \<and> sigS sig \<noteq> 0"

definition encodable_qc :: "qc \<Rightarrow> bool" where
  "encodable_qc q \<longleftrightarrow> length (qcBlockHash q) \<le> maxHashLen \<and>
     length (qcValidatorAddrs q) \<le> maxAddrCount \<and>
     (\<forall>a \<in> set (qcValidatorAddrs q). length a \<le> maxAddrStr \<and>
        (case goget (qcSignatures q) a of None \<Rightarrow> False | Some sig \<Rightarrow> encodable_sig sig))"

lemma decode_encode_signer:
  assumes "goget sigs a = Some sig" and "encodable_sig sig" and "length a \<le> maxAddrStr"
  shows "decode_signer (encode_signer sigs a @ rest) = Inr (a, sig, rest)"
proof -
  from assms have lens: "length (big_bytes (sigR sig)) < 65536" "length (big_bytes (sigS sig)) < 65536"
    "length a < 65536" by (simp_all add: encodable_sig_def)
  have S: "big_bytes (sigS sig) \<noteq> []" using assms(2) by (simp add: encodable_sig_def)
  show ?thesis
    using assms lens S
    by (simp add: decode_signer_def encode_signer_def Let_def encodable_sig_def)
qed

lemma decode_encode_signers:
  assumes "\<And>a. a \<in> set addrs \<Longrightarrow> length a \<le> maxAddrStr \<and>
      (case goget sigs a of None \<Rightarrow> False | Some sig \<Rightarrow> encodable_sig sig)"
  shows "\<exists>sigs'. decode_signers (length addrs) q (concat (map (encode_signer sigs) addrs) @ rest)
      = Inr (q\<lparr>qcValidatorAddrs := qcValidatorAddrs q @ addrs, qcSignatures := sigs'\<rparr>) \<and>
    (\<forall>a. goget sigs' a = (if a \<in> set addrs then goget sigs a else goget (qcSignatures q) a))"
  using assms
proof (induction addrs arbitrary: q)
  case Nil
  show ?case by (rule exI [of _ "qcSignatures q"]) simp
next
  case (Cons a addrs)
  from Cons.prems [of a] obtain sig where sig: "goget sigs a = Some sig" "encodable_sig sig" "length a \<le> maxAddrStr"
    by (auto split: option.splits)
  let ?q = "q\<lparr>qcValidatorAddrs := qcValidatorAddrs q @ [a], qcSignatures := goput a sig (qcSignatures q)\<rparr>"
  obtain sigs' where
    d: "decode_signers (length addrs) ?q (concat (map (encode_signer sigs) addrs) @ rest)
      = Inr (?q\<lparr>qcValidatorAddrs := qcValidatorAddrs ?q @ addrs, qcSignatures := sigs'\<rparr>)"
    and s: "\<forall>b. goget sigs' b = (if b \<in> set addrs then goget sigs b else goget (qcSignatures ?q) b)"
    using Cons.IH [of ?q] Cons.prems by auto
  show ?case
    using d s sig by (intro exI [of _ sigs']) (auto simp: decode_encode_signer)
qed

text \<open>
  C36 (qc_roundtrip): decoding what \<open>Encode\<close> wrote gives the certificate back: the same height, view,
  phase, block hash and signer list, and for every signer the same signature. It holds within the
  decoder's own limits when every listed signer has signed with a non-zero \<open>S\<close> (a reader at the
  end of its data rejects even an empty read).
\<close>

theorem qc_roundtrip:
  assumes "encodable_qc q"
  shows "\<exists>sigs. DecodeQC (QC_Encode q) = Inr (q\<lparr>qcSignatures := sigs\<rparr>) \<and>
    (\<forall>a \<in> set (qcValidatorAddrs q). goget sigs a = goget (qcSignatures q) a)"
proof -
  let ?q0 = "\<lparr>qcHeight = qcHeight q, qcView = qcView q, qcPhase = qcPhase q,
    qcBlockHash = qcBlockHash q, qcSignatures = [], qcValidatorAddrs = []\<rparr>"
  have ok: "\<And>a. a \<in> set (qcValidatorAddrs q) \<Longrightarrow> length a \<le> maxAddrStr \<and>
      (case goget (qcSignatures q) a of None \<Rightarrow> False | Some sig \<Rightarrow> encodable_sig sig)"
    and len: "length (qcBlockHash q) \<le> maxHashLen" "length (qcValidatorAddrs q) \<le> maxAddrCount"
    using assms by (auto simp: encodable_qc_def)
  obtain sigs where
    d: "decode_signers (length (qcValidatorAddrs q)) ?q0
        (concat (map (encode_signer (qcSignatures q)) (qcValidatorAddrs q)))
      = Inr (?q0\<lparr>qcValidatorAddrs := qcValidatorAddrs q, qcSignatures := sigs\<rparr>)"
    and s: "\<forall>a. goget sigs a = (if a \<in> set (qcValidatorAddrs q) then goget (qcSignatures q) a else None)"
    using decode_encode_signers [of "qcValidatorAddrs q" "qcSignatures q" ?q0 "[]"] ok by auto
  have phase: "read_uint 1 (qcPhase q # bs) = Some (unat (qcPhase q), bs)" for bs
    by (simp add: read_uint_def unbe_def)
  have hl: "read_uint 2 (be 2 (length (qcBlockHash q)) @ bs) = Some (length (qcBlockHash q), bs)" for bs
    using len(1) by simp
  have al: "read_uint 4 (be 4 (length (qcValidatorAddrs q)) @ bs) = Some (length (qcValidatorAddrs q), bs)" for bs
    using len(2) by simp
  have rb: "read_buf (length (qcBlockHash q)) (qcBlockHash q @ be 4 n @ bs) = Some (qcBlockHash q, be 4 n @ bs)" for n bs
    by (rule read_buf_append) simp_all
  have "DecodeQC (QC_Encode q) = Inr (q\<lparr>qcSignatures := sigs\<rparr>)"
    using len d
    by (simp only: DecodeQC_def QC_Encode_def read_u64 phase hl al rb option.case prod.case
        append_Cons append_Nil not_less [symmetric] if_False of_nat_unat) simp
  with s show ?thesis by auto
qed

definition sample_qc :: qc where
  "sample_qc = \<lparr>qcHeight = 5, qcView = 2, qcPhase = PhasePrepare, qcBlockHash = [1, 2, 3],
     qcSignatures = [(hexEncode [11], \<lparr>sigR = 300, sigS = 7\<rparr>), (hexEncode [10], \<lparr>sigR = 1, sigS = 70000\<rparr>)],
     qcValidatorAddrs = [hexEncode [10], hexEncode [11]]\<rparr>"

theorem qc_roundtrip_witness:
  "\<exists>sigs. DecodeQC (QC_Encode sample_qc) = Inr (sample_qc\<lparr>qcSignatures := sigs\<rparr>) \<and>
    (\<forall>a \<in> set (qcValidatorAddrs sample_qc). goget sigs a = goget (qcSignatures sample_qc) a)"
proof (rule qc_roundtrip)
  have "encodable_sig \<lparr>sigR = 300, sigS = 7\<rparr>" "encodable_sig \<lparr>sigR = 1, sigS = 70000\<rparr>"
    by (simp_all add: encodable_sig_def big_bytes.simps)
  then show "encodable_qc sample_qc"
    by (simp add: encodable_qc_def sample_qc_def)
qed

text \<open>
  Two certificates that pass the validity test, with signer lists written by
  \<open>hex.EncodeToString\<close>, carry the signature of a common member outside any faulty set with at
  most a third of the stake.
\<close>

theorem valid_qcs_intersect:
  assumes "vs_bounded vs" and "canonical_qc p" and "canonical_qc q"
    and "IsValid p vs" and "IsValid q vs"
    and "3 * (\<Sum>a \<in> member_addrs vs \<inter> F. unat (stake_of vs a)) \<le> unat (totalStake vs)"
  shows "\<exists>a \<in> member_addrs vs. a \<notin> F \<and> a \<in> qc_signers p \<and> a \<in> qc_signers q"
proof -
  have "vq.quorum vs (qc_signers p)" "vq.quorum vs (qc_signers q)"
    using IsValid_quorum assms(1-5) by blast+
  from vq.quorum_inter_correct [OF assms(1) this, of F] assms(6) show ?thesis
    by (auto simp: vq.power_of_def)
qed

theorem valid_qcs_intersect_witness:
  "\<exists>a \<in> member_addrs sample_vs. a \<notin> {[12]} \<and> a \<in> qc_signers sample_qc \<and> a \<in> qc_signers sample_qc"
proof (rule valid_qcs_intersect)
  show "vs_bounded sample_vs" by (rule sample_vs_bounded)
  show "canonical_qc sample_qc" by (simp add: canonical_qc_def sample_qc_def)
  then show "canonical_qc sample_qc" .
  show "IsValid sample_qc sample_vs"
    by (simp add: IsValid_def sample_qc_def stake_of_def GetValidator_def sample_vs_def sample_validator_def Let_def)
  then show "IsValid sample_qc sample_vs" .
  have "member_addrs sample_vs \<inter> {[12]} = {[12]}"
    by (simp add: member_addrs_def sample_vs_def sample_validator_def)
  then show "3 * (\<Sum>a \<in> member_addrs sample_vs \<inter> {[12]}. unat (stake_of sample_vs a)) \<le> unat (totalStake sample_vs)"
    by (simp add: stake_of_def GetValidator_def sample_vs_def sample_validator_def)
qed

text \<open>
  The validity test never inspects a signature: replacing every signature of a
  valid certificate by an arbitrary one, and its height, view, phase and block hash by others,
  leaves it valid.
\<close>

theorem qc_forgeable:
  assumes "IsValid q vs"
  shows "IsValid \<lparr>qcHeight = h, qcView = v, qcPhase = ph, qcBlockHash = hash,
      qcSignatures = map (\<lambda>(a, _). (a, forged a)) (qcSignatures q),
      qcValidatorAddrs = qcValidatorAddrs q\<rparr> vs"
proof -
  have "goget (map (\<lambda>(a, _). (a, forged a)) m) a = None \<longleftrightarrow> goget m a = None" for m :: "(string, signature) gomap" and a
    by (induction m) auto
  then show ?thesis using assms by (subst IsValid_cong [where q' = q]) simp_all
qed

theorem qc_forgeable_witness:
  "IsValid \<lparr>qcHeight = 900, qcView = 9, qcPhase = PhaseCommit, qcBlockHash = [66],
      qcSignatures = map (\<lambda>(a, _). (a, \<lparr>sigR = 0, sigS = 0\<rparr>)) (qcSignatures sample_qc),
      qcValidatorAddrs = qcValidatorAddrs sample_qc\<rparr> sample_vs"
  by (rule qc_forgeable)
    (simp add: IsValid_def sample_qc_def stake_of_def GetValidator_def sample_vs_def sample_validator_def Let_def)

definition alias_qc :: qc where
  "alias_qc = \<lparr>qcHeight = 5, qcView = 2, qcPhase = PhasePrepare, qcBlockHash = [1],
     qcSignatures = [(''0b'', \<lparr>sigR = 1, sigS = 1\<rparr>), (''0B'', \<lparr>sigR = 1, sigS = 1\<rparr>)],
     qcValidatorAddrs = [''0b'', ''0B'']\<rparr>"

text \<open>
  A certificate that names one member under two spellings of its address
  (\<open>0b\<close> and \<open>0B\<close>) counts that member's stake twice, so one signer with half of the stake
  passes as a super-majority.
\<close>

lemma hex_alias: "hexDecode ''0b'' = Inr [11]" "hexDecode ''0B'' = Inr [11]"
  by (simp_all add: hexDecode_def sscanf_02x_def hex_val_def)

lemma alias_stake: "stake_of sample_vs [11] = 3"
  by (simp add: stake_of_def GetValidator_def sample_vs_def sample_validator_def)

theorem qc_alias_double_count:
  "IsValid alias_qc sample_vs \<and>
   map hexDecode (qcValidatorAddrs alias_qc) = [Inr [11], Inr [11]] \<and>
   2 * unat (stake_of sample_vs [11]) = unat (totalStake sample_vs)"
  by (simp add: IsValid_def alias_qc_def hex_alias alias_stake Let_def) (simp add: sample_vs_def)

end
