(* ===== verification/Staking.thy ===== *)
theory Staking
  imports Contracts
begin

text \<open>
  The staking module (\<open>internal/layer1/consensus/staking.go\<close>): stake records by address, the
  running total and the event log. Times are nanoseconds as integers; the clock is the argument
  \<open>now\<close> of the operations that read it. The slashing fraction is a \<open>float64\<close> that the code turns
  into an integer number of billionths, \<open>uint64(fraction * 1e9)\<close>; that integer is the argument
  \<open>num\<close> of the slash.
\<close>

type_synonym time = int
type_synonym duration = int

datatype staking_action = StakeAction | UnstakeAction | SlashAction

record staking_event =
  evAction :: staking_action
  evValidator :: bytes
  evAmount :: u64
  evTimestamp :: time

record stake_record =
  srAddress :: bytes
  srPublicKey :: bytes
  srStake :: u64
  srSelfStake :: u64
  srDelegatedStake :: u64
  srRewards :: u64
  srIsActive :: bool
  srUnbondingAt :: time
  srJailed :: bool
  srJailedUntil :: time
  srSlashedAmount :: u64

record staking_module =
  smValidators :: "(bytes, stake_record) gomap"
  smEvents :: "staking_event list"
  smTotalStaked :: u64
  smUnbondingPeriod :: duration

datatype staking_error = StakeNotPositive | ValidatorDeactivated | ValidatorJailed
  | StakeValidatorNotFound | InsufficientStake | InsufficientSelfStake | JailNotExpired

definition NewStakingModule :: "duration \<Rightarrow> staking_module" where
  "NewStakingModule unbondingPeriod =
     \<lparr>smValidators = [], smEvents = [], smTotalStaked = 0, smUnbondingPeriod = unbondingPeriod\<rparr>"

definition new_stake_record :: "bytes \<Rightarrow> bytes \<Rightarrow> u64 \<Rightarrow> stake_record" where
  "new_stake_record validator publicKey amount =
     \<lparr>srAddress = validator, srPublicKey = publicKey, srStake = amount, srSelfStake = amount,
      srDelegatedStake = 0, srRewards = 0, srIsActive = True, srUnbondingAt = 0, srJailed = False,
      srJailedUntil = 0, srSlashedAmount = 0\<rparr>"

definition log_event :: "staking_action \<Rightarrow> bytes \<Rightarrow> u64 \<Rightarrow> time \<Rightarrow> staking_module \<Rightarrow> staking_module" where
  "log_event act validator amount now sm = sm\<lparr>smEvents := smEvents sm @
     [\<lparr>evAction = act, evValidator = validator, evAmount = amount, evTimestamp = now\<rparr>]\<rparr>"

definition Stake ::
    "staking_module \<Rightarrow> bytes \<Rightarrow> bytes \<Rightarrow> u64 \<Rightarrow> time \<Rightarrow> staking_error + staking_module" where
  "Stake sm validator publicKey amount now =
     (if amount = 0 then Inl StakeNotPositive
      else case goget (smValidators sm) validator of
          Some r \<Rightarrow>
            (if \<not> srIsActive r then Inl ValidatorDeactivated
             else if srJailed r then Inl ValidatorJailed
             else Inr (log_event StakeAction validator amount now
               (sm\<lparr>smValidators := goput validator
                     (r\<lparr>srStake := srStake r + amount, srSelfStake := srSelfStake r + amount\<rparr>)
                     (smValidators sm),
                   smTotalStaked := smTotalStaked sm + amount\<rparr>)))
        | None \<Rightarrow> Inr (log_event StakeAction validator amount now
             (sm\<lparr>smValidators := goput validator (new_stake_record validator publicKey amount)
                   (smValidators sm),
                 smTotalStaked := smTotalStaked sm + amount\<rparr>)))"

definition Unstake ::
    "staking_module \<Rightarrow> bytes \<Rightarrow> u64 \<Rightarrow> time \<Rightarrow> staking_error + staking_module" where
  "Unstake sm validator amount now =
     (case goget (smValidators sm) validator of
        None \<Rightarrow> Inl StakeValidatorNotFound
      | Some r \<Rightarrow>
          if amount > srStake r then Inl InsufficientStake
          else if amount > srSelfStake r then Inl InsufficientSelfStake
          else
            let r1 = r\<lparr>srStake := srStake r - amount, srSelfStake := srSelfStake r - amount\<rparr>;
                r2 = (if srStake r1 = 0
                      then r1\<lparr>srIsActive := False, srUnbondingAt := now + smUnbondingPeriod sm\<rparr>
                      else r1)
            in Inr (log_event UnstakeAction validator amount now
                 (sm\<lparr>smValidators := goput validator r2 (smValidators sm),
                     smTotalStaked := smTotalStaked sm - amount\<rparr>)))"

definition slash_amount :: "u64 \<Rightarrow> u64 \<Rightarrow> u64" where
  "slash_amount stake num =
     (let slashAmount = stake * num div 1000000000 in
      if slashAmount > stake then stake else slashAmount)"

definition Slash ::
    "staking_module \<Rightarrow> bytes \<Rightarrow> u64 \<Rightarrow> time \<Rightarrow> staking_error + (u64 \<times> staking_module)" where
  "Slash sm validator num now =
     (case goget (smValidators sm) validator of
        None \<Rightarrow> Inl StakeValidatorNotFound
      | Some r \<Rightarrow>
          let slashAmount = slash_amount (srStake r) num;
              r' = r\<lparr>srStake := srStake r - slashAmount,
                     srSlashedAmount := srSlashedAmount r + slashAmount,
                     srJailed := True,
                     srJailedUntil := now + smUnbondingPeriod sm\<rparr>
          in Inr (slashAmount, log_event SlashAction validator slashAmount now
               (sm\<lparr>smValidators := goput validator r' (smValidators sm),
                   smTotalStaked := smTotalStaked sm - slashAmount\<rparr>)))"

definition Jail ::
    "staking_module \<Rightarrow> bytes \<Rightarrow> duration \<Rightarrow> time \<Rightarrow> staking_error + staking_module" where
  "Jail sm validator dur now =
     (case goget (smValidators sm) validator of
        None \<Rightarrow> Inl StakeValidatorNotFound
      | Some r \<Rightarrow> Inr (sm\<lparr>smValidators := goput validator
            (r\<lparr>srJailed := True, srJailedUntil := now + dur\<rparr>) (smValidators sm)\<rparr>))"

definition Unjail :: "staking_module \<Rightarrow> bytes \<Rightarrow> time \<Rightarrow> staking_error + staking_module" where
  "Unjail sm validator now =
     (case goget (smValidators sm) validator of
        None \<Rightarrow> Inl StakeValidatorNotFound
      | Some r \<Rightarrow>
          if now < srJailedUntil r then Inl JailNotExpired
          else Inr (sm\<lparr>smValidators := goput validator (r\<lparr>srJailed := False\<rparr>) (smValidators sm)\<rparr>))"

definition sm_GetValidator :: "staking_module \<Rightarrow> bytes \<Rightarrow> stake_record option" where
  "sm_GetValidator sm validator = goget (smValidators sm) validator"

definition GetActiveValidators :: "staking_module \<Rightarrow> stake_record list" where
  "GetActiveValidators sm =
     filter (\<lambda>r. srIsActive r \<and> \<not> srJailed r \<and> srStake r > 0) (map snd (smValidators sm))"

definition GetInactiveValidators :: "staking_module \<Rightarrow> stake_record list" where
  "GetInactiveValidators sm =
     filter (\<lambda>r. \<not> srIsActive r \<or> srJailed r) (map snd (smValidators sm))"

definition TotalStaked :: "staking_module \<Rightarrow> u64" where
  "TotalStaked sm = smTotalStaked sm"

definition GetEvents :: "staking_module \<Rightarrow> time \<Rightarrow> staking_event list" where
  "GetEvents sm from_time = filter (\<lambda>e. \<not> evTimestamp e < from_time) (smEvents sm)"

subsection \<open>The books balance\<close>

text \<open>
  \<open>staking_books\<close>: records sit under their own address, the cached total is the sum of the records' stakes, and the event log
  reconciles with it: what was staked less what was unstaked and slashed.
\<close>

definition event_delta :: "staking_event \<Rightarrow> u64" where
  "event_delta e = (if evAction e = StakeAction then evAmount e else - evAmount e)"

definition staking_books :: "staking_module \<Rightarrow> bool" where
  "staking_books sm \<longleftrightarrow> gomap_wf (smValidators sm) \<and>
     (\<forall>p \<in> set (smValidators sm). srAddress (snd p) = fst p) \<and>
     smTotalStaked sm = (\<Sum>p\<leftarrow>smValidators sm. srStake (snd p)) \<and>
     smTotalStaked sm = (\<Sum>e\<leftarrow>smEvents sm. event_delta e)"

lemma staking_books_put:
  assumes "staking_books sm" and "d = srStake r' - (case goget (smValidators sm) a of None \<Rightarrow> 0 | Some r \<Rightarrow> srStake r)"
    and "event_delta \<lparr>evAction = act, evValidator = a, evAmount = amt, evTimestamp = now\<rparr> = d"
    and "srAddress r' = a"
  shows "staking_books (log_event act a amt now
    (sm\<lparr>smValidators := goput a r' (smValidators sm), smTotalStaked := smTotalStaked sm + d\<rparr>))"
  using assms set_goput_subset [of a r' "smValidators sm"]
  by (auto simp: staking_books_def log_event_def sum_list_map_goput split: option.splits)

lemma staking_books_address:
  "staking_books sm \<Longrightarrow> goget (smValidators sm) a = Some r \<Longrightarrow> srAddress r = a"
  by (fastforce simp: staking_books_def dest: goget_in_set)

lemma Stake_books:
  "staking_books sm \<Longrightarrow> Stake sm a pk amt now = Inr sm' \<Longrightarrow> staking_books sm'"
  by (auto simp: Stake_def event_delta_def new_stake_record_def staking_books_address intro!: staking_books_put
      split: option.splits if_splits)

lemma staking_books_take:
  assumes "staking_books sm" and "goget (smValidators sm) a = Some r" and "act \<noteq> StakeAction"
    and "srStake r' = srStake r - amt" and "srAddress r' = srAddress r"
  shows "staking_books (log_event act a amt now
    (sm\<lparr>smValidators := goput a r' (smValidators sm), smTotalStaked := smTotalStaked sm - amt\<rparr>))"
  using staking_books_put [OF assms(1), of "- amt" r' a act amt now] assms(2-5)
    staking_books_address [OF assms(1,2)]
  by (simp add: event_delta_def)

lemma Unstake_books:
  "staking_books sm \<Longrightarrow> Unstake sm a amt now = Inr sm' \<Longrightarrow> staking_books sm'"
  by (auto simp: Unstake_def Let_def intro!: staking_books_take split: option.splits if_splits)

lemma Slash_books:
  "staking_books sm \<Longrightarrow> Slash sm a num now = Inr (amt, sm') \<Longrightarrow> staking_books sm'"
  by (auto simp: Slash_def Let_def intro!: staking_books_take split: option.splits)

lemma staking_books_keep:
  "staking_books sm \<Longrightarrow> goget (smValidators sm) a = Some r \<Longrightarrow> srStake r' = srStake r \<Longrightarrow>
    srAddress r' = srAddress r \<Longrightarrow> staking_books (sm\<lparr>smValidators := goput a r' (smValidators sm)\<rparr>)"
  using set_goput_subset [of a r' "smValidators sm"] staking_books_address [of sm a r]
  by (auto simp: staking_books_def sum_list_map_goput)

lemma Jail_books: "staking_books sm \<Longrightarrow> Jail sm a dur now = Inr sm' \<Longrightarrow> staking_books sm'"
  by (auto simp: Jail_def intro: staking_books_keep split: option.splits)

lemma Unjail_books: "staking_books sm \<Longrightarrow> Unjail sm a now = Inr sm' \<Longrightarrow> staking_books sm'"
  by (auto simp: Unjail_def intro: staking_books_keep split: option.splits if_splits)

datatype staking_op = SOStake bytes bytes u64 time | SOUnstake bytes u64 time | SOSlash bytes u64 time
  | SOJail bytes duration time | SOUnjail bytes time

definition staking_result :: "staking_module \<Rightarrow> 'e + staking_module \<Rightarrow> staking_module" where
  "staking_result sm r = (case r of Inl _ \<Rightarrow> sm | Inr sm' \<Rightarrow> sm')"

fun staking_step :: "staking_module \<Rightarrow> staking_op \<Rightarrow> staking_module" where
  "staking_step sm (SOStake a pk amt now) = staking_result sm (Stake sm a pk amt now)"
| "staking_step sm (SOUnstake a amt now) = staking_result sm (Unstake sm a amt now)"
| "staking_step sm (SOSlash a num now) = 
     (case Slash sm a num now of Inl _ \<Rightarrow> sm | Inr (_, sm') \<Rightarrow> sm')"
| "staking_step sm (SOJail a dur now) = staking_result sm (Jail sm a dur now)"
| "staking_step sm (SOUnjail a now) = staking_result sm (Unjail sm a now)"

interpretation staking_sys: guarded_system staking_step staking_books
proof unfold_locales
  fix sm op assume "staking_books sm"
  then show "staking_books (staking_step sm op)"
    by (cases op) (auto simp: staking_result_def split: sum.splits
        dest: Stake_books Unstake_books Slash_books Jail_books Unjail_books)
qed

lemma NewStakingModule_books: "staking_books (NewStakingModule p)"
  by (simp add: staking_books_def NewStakingModule_def)

text \<open>
  After any history of stakes, unstakes, slashes, jailings and releases
  (failed ones included), the total equals the sum of the records' stakes and equals the event
  log's balance.
\<close>

theorem staking_books_balance:
  "let sm = foldl staking_step (NewStakingModule p) ops in
     TotalStaked sm = (\<Sum>q\<leftarrow>smValidators sm. srStake (snd q)) \<and>
     TotalStaked sm = (\<Sum>e\<leftarrow>smEvents sm. event_delta e)"
  using staking_sys.run_inv [OF NewStakingModule_books, of p ops]
  unfolding staking_books_def TotalStaked_def Let_def by blast

text \<open>
  A slash never takes more than the stake and, as long as \<open>stake * num\<close> fits in 64
  bits, takes exactly \<open>num\<close> billionths of it, rounded down, capped at the stake.
\<close>

theorem slash_exact:
  assumes "Slash sm a num now = Inr (amt, sm')" and "goget (smValidators sm) a = Some r"
    and "unat (srStake r) * unat num < 2 ^ 64"
  shows "unat amt = min (unat (srStake r)) (unat (srStake r) * unat num div 10 ^ 9) \<and>
    amt \<le> srStake r \<and>
    (\<exists>r'. goget (smValidators sm') a = Some r' \<and> unat (srStake r') = unat (srStake r) - unat amt \<and>
       srJailed r' \<and> srJailedUntil r' = now + smUnbondingPeriod sm)"
proof -
  have amt: "amt = slash_amount (srStake r) num"
    using assms(1,2) by (auto simp: Slash_def Let_def)
  have prod: "unat (srStake r * num) = unat (srStake r) * unat num"
    using assms(3) by (simp add: unat_word_ariths)
  have unat: "unat amt = min (unat (srStake r)) (unat (srStake r) * unat num div 10 ^ 9)"
    by (simp add: amt slash_amount_def Let_def word_less_nat_alt unat_div_distrib prod)
  then have le: "amt \<le> srStake r" by (simp add: word_le_nat_alt)
  then have "unat (srStake r - amt) = unat (srStake r) - unat amt"
    by (simp add: unat_sub word_le_nat_alt)
  with assms(1,2) unat le show ?thesis
    by (auto simp: Slash_def Let_def log_event_def)
qed

definition sample_staking :: staking_module where
  "sample_staking = staking_step (NewStakingModule 100) (SOStake [1] [2] 5000 0)"

theorem slash_exact_witness:
  "\<exists>amt sm'. Slash sample_staking [1] 10000000 7 = Inr (amt, sm') \<and> unat amt = 50"
proof -
  have r: "goget (smValidators sample_staking) [1] = Some (new_stake_record [1] [2] 5000)"
    by (simp add: sample_staking_def NewStakingModule_def Stake_def staking_result_def log_event_def)
  then obtain amt sm' where s: "Slash sample_staking [1] 10000000 7 = Inr (amt, sm')"
    by (simp add: Slash_def Let_def)
  have "unat amt = min 5000 (5000 * 10000000 div 10 ^ 9)"
    using slash_exact [OF s r] by (simp add: new_stake_record_def)
  with s show ?thesis by auto
qed

text \<open>
  Beyond that bound the product wraps: slashing one percent of a stake of
  1844674407371 units (\<open>num = 10000000\<close>, the default fraction) takes nothing at all, although the
  validator is jailed.
\<close>

theorem slash_overflow:
  "let sm = staking_step (NewStakingModule 100) (SOStake [1] [2] 1844674407371 0) in
   \<exists>sm' r. Slash sm [1] 10000000 7 = Inr (0, sm') \<and> goget (smValidators sm') [1] = Some r \<and>
     srStake r = 1844674407371 \<and> srJailed r"
  by (simp add: Slash_def Let_def NewStakingModule_def Stake_def staking_result_def log_event_def
      new_stake_record_def slash_amount_def)

text \<open>
  A jailed validator is neither in the active list nor able to add stake, and it
  can be released only once its jail time is over.
\<close>

theorem jail_blocks:
  assumes "goget (smValidators sm) a = Some r" and "srJailed r" and "staking_books sm"
  shows "a \<notin> srAddress ` set (GetActiveValidators sm) \<and>
    (\<forall>pk amt now sm'. Stake sm a pk amt now \<noteq> Inr sm') \<and>
    (\<forall>now sm'. Unjail sm a now = Inr sm' \<longrightarrow> srJailedUntil r \<le> now)"
proof (intro conjI allI impI)
  show "a \<notin> srAddress ` set (GetActiveValidators sm)"
  proof
    assume "a \<in> srAddress ` set (GetActiveValidators sm)"
    then obtain k q where kq: "(k, q) \<in> set (smValidators sm)" "a = srAddress q" "\<not> srJailed q"
      by (auto simp: GetActiveValidators_def)
    with assms(3) have "k = a" by (force simp: staking_books_def)
    with kq assms(3) have "goget (smValidators sm) a = Some q" by (simp add: goget_iff_in_set staking_books_def)
    with assms(1,2) kq(3) show False by simp
  qed
next
  fix pk amt now sm'
  show "Stake sm a pk amt now \<noteq> Inr sm'" using assms(1,2) by (simp add: Stake_def)
next
  fix now sm' assume "Unjail sm a now = Inr sm'"
  then show "srJailedUntil r \<le> now" using assms(1) by (auto simp: Unjail_def split: if_splits)
qed

theorem jail_blocks_witness:
  "[1] \<notin> srAddress ` set (GetActiveValidators (staking_step sample_staking (SOJail [1] 50 3)))"
proof -
  let ?sm = "staking_step sample_staking (SOJail [1] 50 3)"
  have sm: "smValidators ?sm = [([1], (new_stake_record [1] [2] 5000)\<lparr>srJailed := True, srJailedUntil := 53\<rparr>)]"
    by (simp add: sample_staking_def NewStakingModule_def Stake_def staking_result_def log_event_def Jail_def)
  then have g: "goget (smValidators ?sm) [1]
      = Some ((new_stake_record [1] [2] 5000)\<lparr>srJailed := True, srJailedUntil := 53\<rparr>)" by simp
  have b: "staking_books ?sm"
    unfolding sample_staking_def by (intro staking_sys.step_inv NewStakingModule_books)
  show ?thesis by (rule jail_blocks [THEN conjunct1, OF g _ b]) simp
qed

end
