(* ===== verification/Detectors.thy ===== *)
theory Detectors
  imports Quorum_Cert Staking
begin

text \<open>
  The engine's bookkeepers (\<open>internal/layer1/consensus/engine.go\<close>): the double-sign detector, the
  finality gadget, the consensus state store and the liveness tracker.

  The detector hands out pointers into its evidence slice; here it hands out the index of the
  record. Its pruning deletes the first half of the keys in the order the runtime visits the map,
  which the argument \<open>order\<close> (a rearrangement of the key list) gives. The finality gadget's
  \<open>float64\<close> share enters as the function \<open>required\<close>, \<open>n \<mapsto> int(float64(n) * requiredVotes)\<close>.
\<close>

subsection \<open>Double signing\<close>

datatype double_sign_type = DoubleSignProposal | DoubleSignVote | DoubleSignFork

record double_sign_record =
  dsValidator :: bytes
  dsType :: double_sign_type
  dsHeight :: u64
  dsView :: u64
  dsEvidence1 :: bytes
  dsEvidence2 :: bytes
  dsTimestamp :: time
  dsIsSlashed :: bool
  dsSlashAmount :: u64

type_synonym height_view = "u64 \<times> u64"

record sign_record =
  rcProposer :: bytes
  rcBlockHash :: bytes
  rcVotes :: "(phase, (bytes, bytes) gomap) gomap"

record detector =
  dtHistory :: "(height_view, sign_record) gomap"
  dtEvidence :: "double_sign_record list"
  dtMaxHistoryLen :: nat

definition NewDoubleSignDetector :: detector where
  "NewDoubleSignDetector = \<lparr>dtHistory = [], dtEvidence = [], dtMaxHistoryLen = 10000\<rparr>"

definition trimHistory :: "(height_view list \<Rightarrow> height_view list) \<Rightarrow> detector \<Rightarrow> detector" where
  "trimHistory order d =
     (if length (dtHistory d) \<le> dtMaxHistoryLen d then d
      else let keys = order (map fst (dtHistory d)) in
        d\<lparr>dtHistory := foldl (\<lambda>m k. godel k m) (dtHistory d) (take (length keys div 2) keys)\<rparr>)"

definition ds_record ::
    "bytes \<Rightarrow> double_sign_type \<Rightarrow> u64 \<Rightarrow> u64 \<Rightarrow> bytes \<Rightarrow> bytes \<Rightarrow> time \<Rightarrow> double_sign_record" where
  "ds_record validator ty height view e1 e2 now =
     \<lparr>dsValidator = validator, dsType = ty, dsHeight = height, dsView = view, dsEvidence1 = e1,
      dsEvidence2 = e2, dsTimestamp = now, dsIsSlashed = False, dsSlashAmount = 0\<rparr>"

text \<open>Appending a record gives its index, the model's pointer to it.\<close>

definition add_evidence :: "double_sign_record \<Rightarrow> detector \<Rightarrow> detector \<times> nat option" where
  "add_evidence rec d = (d\<lparr>dtEvidence := dtEvidence d @ [rec]\<rparr>, Some (length (dtEvidence d)))"

definition CheckProposal ::
    "(height_view list \<Rightarrow> height_view list) \<Rightarrow> detector \<Rightarrow> bytes \<Rightarrow> u64 \<Rightarrow> u64 \<Rightarrow> bytes \<Rightarrow> time \<Rightarrow>
      detector \<times> nat option" where
  "CheckProposal order d proposer height view blockHash now =
     (case goget (dtHistory d) (height, view) of
        None \<Rightarrow> (trimHistory order (d\<lparr>dtHistory := goput (height, view)
            \<lparr>rcProposer = proposer, rcBlockHash = blockHash, rcVotes = []\<rparr> (dtHistory d)\<rparr>), None)
      | Some r \<Rightarrow>
          if rcProposer r \<noteq> proposer then (d, None)
          else if rcBlockHash r \<noteq> blockHash
          then add_evidence (ds_record proposer DoubleSignProposal height view (rcBlockHash r) blockHash now) d
          else (d, None))"

text \<open>
  A write through the record pointer reaches the map only while the key is still there (pruning
  may have dropped a key just inserted).
\<close>

definition store_record :: "height_view \<Rightarrow> sign_record \<Rightarrow> detector \<Rightarrow> detector" where
  "store_record key r d =
     (if goget (dtHistory d) key = None then d else d\<lparr>dtHistory := goput key r (dtHistory d)\<rparr>)"

definition votes_at :: "sign_record \<Rightarrow> phase \<Rightarrow> (bytes, bytes) gomap" where
  "votes_at r phase = (case goget (rcVotes r) phase of None \<Rightarrow> [] | Some m \<Rightarrow> m)"

definition CheckVote ::
    "(height_view list \<Rightarrow> height_view list) \<Rightarrow> detector \<Rightarrow> bytes \<Rightarrow> u64 \<Rightarrow> u64 \<Rightarrow> phase \<Rightarrow> bytes \<Rightarrow> time \<Rightarrow>
      detector \<times> nat option" where
  "CheckVote order d validator height view phase blockHash now =
     (let key = (height, view);
          (d1, r) = (case goget (dtHistory d) key of
              Some r \<Rightarrow> (d, r)
            | None \<Rightarrow> (let r = \<lparr>rcProposer = [], rcBlockHash = [], rcVotes = []\<rparr> in
                (trimHistory order (d\<lparr>dtHistory := goput key r (dtHistory d)\<rparr>), r)));
          vm = votes_at r phase
      in case goget vm validator of
           None \<Rightarrow> (store_record key
               (r\<lparr>rcVotes := goput phase (goput validator blockHash vm) (rcVotes r)\<rparr>) d1, None)
         | Some existing \<Rightarrow>
             (let d2 = store_record key (r\<lparr>rcVotes := goput phase vm (rcVotes r)\<rparr>) d1 in
              if existing \<noteq> blockHash
              then add_evidence (ds_record validator DoubleSignVote height view existing blockHash now) d2
              else (d2, None)))"

definition GetEvidence :: "detector \<Rightarrow> double_sign_record list" where
  "GetEvidence d = dtEvidence d"

definition MarkSlashed :: "detector \<Rightarrow> bytes \<Rightarrow> u64 \<Rightarrow> detector" where
  "MarkSlashed d validator height = d\<lparr>dtEvidence := map (\<lambda>e.
     if dsValidator e = validator \<and> dsHeight e = height then e\<lparr>dsIsSlashed := True\<rparr> else e) (dtEvidence d)\<rparr>"

subsection \<open>Finality\<close>

record checkpoint =
  cpHeight :: u64
  cpBlockHash :: bytes
  cpValidators :: "bytes list"
  cpSignatures :: "(bytes, bool) gomap"
  cpIsFinal :: bool
  cpCreatedAt :: time

record finality_gadget =
  fgCheckpoints :: "checkpoint list"
  fgLastFinalized :: u64
  fgFinalityWindow :: u64

definition NewFinalityGadget :: "u64 \<Rightarrow> finality_gadget" where
  "NewFinalityGadget finalityWindow =
     \<lparr>fgCheckpoints = [], fgLastFinalized = 0, fgFinalityWindow = finalityWindow\<rparr>"

definition CreateCheckpoint ::
    "finality_gadget \<Rightarrow> u64 \<Rightarrow> bytes \<Rightarrow> bytes list \<Rightarrow> time \<Rightarrow> finality_gadget" where
  "CreateCheckpoint fg height blockHash vals now = fg\<lparr>fgCheckpoints := fgCheckpoints fg @
     [\<lparr>cpHeight = height, cpBlockHash = blockHash, cpValidators = vals, cpSignatures = [],
       cpIsFinal = False, cpCreatedAt = now\<rparr>]\<rparr>"

text \<open>The loop of \<open>AddVote\<close>: it signs every open checkpoint of the height until one is final.\<close>

fun add_vote_loop :: "(nat \<Rightarrow> nat) \<Rightarrow> u64 \<Rightarrow> bytes \<Rightarrow> checkpoint list \<Rightarrow> checkpoint list \<times> bool" where
  "add_vote_loop required height validator [] = ([], False)"
| "add_vote_loop required height validator (cp # cps) =
     (if cpHeight cp = height \<and> \<not> cpIsFinal cp then
        let cp' = cp\<lparr>cpSignatures := goput validator True (cpSignatures cp)\<rparr> in
        if length (cpSignatures cp') \<ge> required (length (cpValidators cp'))
        then (cp'\<lparr>cpIsFinal := True\<rparr> # cps, True)
        else let (cps', done) = add_vote_loop required height validator cps in (cp' # cps', done)
      else let (cps', done) = add_vote_loop required height validator cps in (cp # cps', done))"

definition AddVote ::
    "(nat \<Rightarrow> nat) \<Rightarrow> finality_gadget \<Rightarrow> u64 \<Rightarrow> bytes \<Rightarrow> finality_gadget \<times> bool" where
  "AddVote required fg height validator =
     (let (cps, done) = add_vote_loop required height validator (fgCheckpoints fg);
          fg' = fg\<lparr>fgCheckpoints := cps\<rparr>
      in (if done \<and> height > fgLastFinalized fg then fg'\<lparr>fgLastFinalized := height\<rparr> else fg', done))"

definition IsFinalized :: "finality_gadget \<Rightarrow> u64 \<Rightarrow> bool" where
  "IsFinalized fg height \<longleftrightarrow> height \<le> fgLastFinalized fg"

definition LastFinalized :: "finality_gadget \<Rightarrow> u64" where
  "LastFinalized fg = fgLastFinalized fg"

definition Cleanup :: "finality_gadget \<Rightarrow> u64 \<Rightarrow> finality_gadget" where
  "Cleanup fg maxHeight = fg\<lparr>fgCheckpoints :=
     filter (\<lambda>cp. cpHeight cp + fgFinalityWindow fg \<ge> maxHeight) (fgCheckpoints fg)\<rparr>"

definition GetCheckpoints :: "finality_gadget \<Rightarrow> u64 \<Rightarrow> u64 \<Rightarrow> checkpoint list" where
  "GetCheckpoints fg from_height to_height =
     filter (\<lambda>cp. cpHeight cp \<ge> from_height \<and> cpHeight cp \<le> to_height) (fgCheckpoints fg)"

subsection \<open>The consensus state and its store\<close>

record consensus_state =
  csHeight :: u64
  csView :: u64
  csPhase :: phase
  csLockedQC :: "qc option"
  csPreparedQC :: "qc option"
  csDecidedHash :: bytes
  csStartTime :: time
  csProtocolVersion :: u64

record persisted_state =
  psHeight :: u64
  psView :: u64
  psPhase :: phase
  psLockedQC :: "qc option"
  psPreparedQC :: "qc option"
  psDecidedHash :: bytes
  psValidatorAddrs :: "bytes list"
  psLastSaved :: time

definition NewConsensusStateStore :: persisted_state where
  "NewConsensusStateStore = \<lparr>psHeight = 0, psView = 0, psPhase = PhaseIdle, psLockedQC = None,
     psPreparedQC = None, psDecidedHash = [], psValidatorAddrs = [], psLastSaved = 0\<rparr>"

definition Save :: "persisted_state \<Rightarrow> consensus_state \<Rightarrow> bytes list \<Rightarrow> time \<Rightarrow> persisted_state" where
  "Save ps st addrs now = \<lparr>psHeight = csHeight st, psView = csView st, psPhase = csPhase st,
     psLockedQC = csLockedQC st, psPreparedQC = csPreparedQC st, psDecidedHash = csDecidedHash st,
     psValidatorAddrs = addrs, psLastSaved = now\<rparr>"

definition Load :: "persisted_state \<Rightarrow> persisted_state option" where
  "Load ps = (if psHeight ps = 0 \<and> psPhase ps = PhaseIdle then None else Some ps)"

subsection \<open>Liveness\<close>

record liveness =
  ltLastActivity :: "(bytes, u64) gomap"
  ltCurrentHeight :: u64
  ltThreshold :: u64
  ltOfflineSince :: "(bytes, u64) gomap"

definition NewLivenessTracker :: "u64 \<Rightarrow> liveness" where
  "NewLivenessTracker threshold =
     \<lparr>ltLastActivity = [], ltCurrentHeight = 0, ltThreshold = threshold, ltOfflineSince = []\<rparr>"

definition RecordActivity :: "liveness \<Rightarrow> bytes \<Rightarrow> u64 \<Rightarrow> liveness" where
  "RecordActivity lt validator height =
     lt\<lparr>ltLastActivity := goput validator height (ltLastActivity lt),
        ltOfflineSince := godel validator (ltOfflineSince lt)\<rparr>"

definition UpdateHeight :: "liveness \<Rightarrow> u64 \<Rightarrow> liveness" where
  "UpdateHeight lt height = lt\<lparr>ltCurrentHeight := height\<rparr>"

definition lt_offline :: "liveness \<Rightarrow> u64 \<Rightarrow> bool" where
  "lt_offline lt lastHeight \<longleftrightarrow> ltCurrentHeight lt - lastHeight > ltThreshold lt"

definition GetOfflineValidators :: "liveness \<Rightarrow> liveness \<times> bytes list" where
  "GetOfflineValidators lt =
     (let offline = map fst (filter (\<lambda>(k, h). lt_offline lt h) (ltLastActivity lt)) in
      (lt\<lparr>ltOfflineSince := foldl (\<lambda>m k. if goget m k = None then goput k (ltCurrentHeight lt) m else m)
            (ltOfflineSince lt) offline\<rparr>, offline))"

definition GetMissed :: "liveness \<Rightarrow> bytes \<Rightarrow> u64" where
  "GetMissed lt validator =
     (case goget (ltLastActivity lt) validator of
        None \<Rightarrow> ltCurrentHeight lt
      | Some lastHeight \<Rightarrow> ltCurrentHeight lt - lastHeight)"

definition lt_Reset :: "liveness \<Rightarrow> liveness" where
  "lt_Reset lt = lt\<lparr>ltLastActivity := [], ltOfflineSince := []\<rparr>"

subsection \<open>Evidence is always backed by two conflicting messages\<close>

datatype dt_event = DEProposal bytes u64 u64 bytes time | DEVote bytes u64 u64 phase bytes time

fun dt_step :: "(height_view list \<Rightarrow> height_view list) \<Rightarrow> detector \<Rightarrow> dt_event \<Rightarrow> detector" where
  "dt_step order d (DEProposal p h v hash now) = fst (CheckProposal order d p h v hash now)"
| "dt_step order d (DEVote a h v ph hash now) = fst (CheckVote order d a h v ph hash now)"

definition voted :: "dt_event list \<Rightarrow> bytes \<Rightarrow> u64 \<Rightarrow> u64 \<Rightarrow> phase \<Rightarrow> bytes \<Rightarrow> bool" where
  "voted evs a h v ph hash \<longleftrightarrow> (\<exists>now. DEVote a h v ph hash now \<in> set evs)"

definition proposed :: "dt_event list \<Rightarrow> bytes \<Rightarrow> u64 \<Rightarrow> u64 \<Rightarrow> bytes \<Rightarrow> bool" where
  "proposed evs p h v hash \<longleftrightarrow> (\<exists>now. DEProposal p h v hash now \<in> set evs)"

definition evidence_backed :: "dt_event list \<Rightarrow> double_sign_record \<Rightarrow> bool" where
  "evidence_backed evs e \<longleftrightarrow> dsEvidence1 e \<noteq> dsEvidence2 e \<and>
     (case dsType e of
        DoubleSignVote \<Rightarrow> (\<exists>ph. voted evs (dsValidator e) (dsHeight e) (dsView e) ph (dsEvidence1 e) \<and>
            voted evs (dsValidator e) (dsHeight e) (dsView e) ph (dsEvidence2 e))
      | DoubleSignProposal \<Rightarrow> dsValidator e \<noteq> [] \<longrightarrow>
            proposed evs (dsValidator e) (dsHeight e) (dsView e) (dsEvidence1 e) \<and>
            proposed evs (dsValidator e) (dsHeight e) (dsView e) (dsEvidence2 e)
      | DoubleSignFork \<Rightarrow> False)"

definition record_backed :: "dt_event list \<Rightarrow> height_view \<Rightarrow> sign_record \<Rightarrow> bool" where
  "record_backed evs key r \<longleftrightarrow>
     (rcProposer r \<noteq> [] \<longrightarrow> proposed evs (rcProposer r) (fst key) (snd key) (rcBlockHash r)) \<and>
     (\<forall>ph a hash. goget (votes_at r ph) a = Some hash \<longrightarrow> voted evs a (fst key) (snd key) ph hash)"

definition detector_backed :: "dt_event list \<Rightarrow> detector \<Rightarrow> bool" where
  "detector_backed evs d \<longleftrightarrow>
     (\<forall>key r. goget (dtHistory d) key = Some r \<longrightarrow> record_backed evs key r) \<and>
     (\<forall>e \<in> set (dtEvidence d). evidence_backed evs e)"

lemma voted_snoc [simp]: "voted (evs @ [e]) a h v ph hash \<longleftrightarrow>
    voted evs a h v ph hash \<or> (\<exists>now. e = DEVote a h v ph hash now)"
  by (auto simp: voted_def)

lemma proposed_snoc [simp]: "proposed (evs @ [e]) p h v hash \<longleftrightarrow>
    proposed evs p h v hash \<or> (\<exists>now. e = DEProposal p h v hash now)"
  by (auto simp: proposed_def)

lemma evidence_backed_snoc: "evidence_backed evs e \<Longrightarrow> evidence_backed (evs @ [x]) e"
  by (auto simp: evidence_backed_def split: double_sign_type.splits)

lemma record_backed_snoc: "record_backed evs key r \<Longrightarrow> record_backed (evs @ [x]) key r"
  by (auto simp: record_backed_def)

lemma detector_backed_snoc: "detector_backed evs d \<Longrightarrow> detector_backed (evs @ [x]) d"
  by (auto simp: detector_backed_def intro: evidence_backed_snoc record_backed_snoc)

lemma goget_godels: "goget (foldl (\<lambda>m k. godel k m) m ks) j = (if j \<in> set ks then None else goget m j)"
  by (induction ks arbitrary: m) auto

lemma trimHistory_sub: "goget (dtHistory (trimHistory order d)) key = Some r \<Longrightarrow> goget (dtHistory d) key = Some r"
  by (auto simp: trimHistory_def Let_def goget_godels split: if_splits)

lemma trimHistory_evidence [simp]: "dtEvidence (trimHistory order d) = dtEvidence d"
  by (simp add: trimHistory_def Let_def)

lemma trimHistory_backed: "detector_backed evs d \<Longrightarrow> detector_backed evs (trimHistory order d)"
  by (auto simp: detector_backed_def dest: trimHistory_sub)

lemma put_record_backed:
  "detector_backed evs d \<Longrightarrow> record_backed evs key r \<Longrightarrow>
    detector_backed evs (d\<lparr>dtHistory := goput key r (dtHistory d)\<rparr>)"
  by (auto simp: detector_backed_def)

lemma store_record_backed:
  "detector_backed evs d \<Longrightarrow> record_backed evs key r \<Longrightarrow> detector_backed evs (store_record key r d)"
  by (simp add: store_record_def put_record_backed)

lemma add_evidence_backed:
  "detector_backed evs d \<Longrightarrow> evidence_backed evs e \<Longrightarrow> detector_backed evs (fst (add_evidence e d))"
  by (auto simp: detector_backed_def add_evidence_def)

lemma votes_at_put [simp]:
  "votes_at (r\<lparr>rcVotes := goput ph vm (rcVotes r)\<rparr>) ph' = (if ph' = ph then vm else votes_at r ph')"
  by (simp add: votes_at_def)

lemma CheckProposal_backed:
  assumes "detector_backed evs d"
  shows "detector_backed (evs @ [DEProposal p h v hash now]) (fst (CheckProposal order d p h v hash now))"
proof -
  let ?evs = "evs @ [DEProposal p h v hash now]"
  have b: "detector_backed ?evs d" by (rule detector_backed_snoc [OF assms])
  have new: "record_backed ?evs (h, v) \<lparr>rcProposer = p, rcBlockHash = hash, rcVotes = []\<rparr>"
    by (simp add: record_backed_def votes_at_def)
  have ev: "evidence_backed ?evs (ds_record p DoubleSignProposal h v (rcBlockHash r) hash now)"
    if "goget (dtHistory d) (h, v) = Some r" "rcProposer r = p" "rcBlockHash r \<noteq> hash" for r
  proof -
    have "record_backed evs (h, v) r" using assms that(1) by (simp add: detector_backed_def)
    with that show ?thesis by (auto simp: evidence_backed_def ds_record_def record_backed_def)
  qed
  show ?thesis
    unfolding CheckProposal_def
    by (split option.split) (use b new ev in \<open>auto intro!: trimHistory_backed put_record_backed add_evidence_backed\<close>)
qed

lemma CheckVote_backed:
  assumes "detector_backed evs d"
  shows "detector_backed (evs @ [DEVote a h v ph hash now]) (fst (CheckVote order d a h v ph hash now))"
proof -
  let ?evs = "evs @ [DEVote a h v ph hash now]"
  let ?r0 = "\<lparr>rcProposer = [], rcBlockHash = [], rcVotes = []\<rparr> :: sign_record"
  obtain d1 r where dr: "(case goget (dtHistory d) (h, v) of
              Some r \<Rightarrow> (d, r)
            | None \<Rightarrow> (let r = ?r0 in
                (trimHistory order (d\<lparr>dtHistory := goput (h, v) r (dtHistory d)\<rparr>), r))) = (d1, r)"
    by force
  have r0: "record_backed evs (h, v) ?r0" by (simp add: record_backed_def votes_at_def)
  have b1: "detector_backed evs d1"
    using dr assms r0
    by (auto simp: Let_def intro!: trimHistory_backed put_record_backed split: option.splits)
  have br: "record_backed evs (h, v) r"
    using dr assms r0 by (auto simp: Let_def detector_backed_def split: option.splits)
  note b1' = detector_backed_snoc [OF b1, of "DEVote a h v ph hash now"]
  show ?thesis
  proof (cases "goget (votes_at r ph) a")
    case None
    have "record_backed ?evs (h, v) (r\<lparr>rcVotes := goput ph (goput a hash (votes_at r ph)) (rcVotes r)\<rparr>)"
      using br by (auto simp: record_backed_def)
    then show ?thesis
      using None dr b1' by (simp add: CheckVote_def Let_def store_record_backed)
  next
    case (Some existing)
    have rb: "record_backed ?evs (h, v) (r\<lparr>rcVotes := goput ph (votes_at r ph) (rcVotes r)\<rparr>)"
      using br by (auto simp: record_backed_def)
    have "existing \<noteq> hash \<Longrightarrow> evidence_backed ?evs (ds_record a DoubleSignVote h v existing hash now)"
      using br Some by (auto simp: evidence_backed_def ds_record_def record_backed_def)
    then show ?thesis
      using Some dr b1' rb
      by (simp add: CheckVote_def Let_def store_record_backed add_evidence_backed)
  qed
qed

lemma dt_step_backed: "detector_backed evs d \<Longrightarrow> detector_backed (evs @ [e]) (dt_step order d e)"
  by (cases e) (simp_all add: CheckProposal_backed CheckVote_backed)

lemma dt_run_backed: "detector_backed evs d \<Longrightarrow> detector_backed (evs @ es) (foldl (dt_step order) d es)"
proof (induction es arbitrary: evs d)
  case Nil
  then show ?case by simp
next
  case (Cons e es)
  from Cons.IH [OF dt_step_backed [OF Cons.prems]] show ?case by simp
qed

text \<open>
  Whatever proposals and votes the detector is shown, and however its history
  is pruned, every record of evidence names two different block hashes and is backed by two
  conflicting messages of the accused validator at the same height and view (the same phase, for
  votes). No validator that signs once is ever accused.
\<close>

theorem double_sign_sound:
  assumes "e \<in> set (GetEvidence (foldl (dt_step order) NewDoubleSignDetector evs))"
  shows "evidence_backed evs e"
proof -
  have "detector_backed [] NewDoubleSignDetector"
    by (simp add: detector_backed_def NewDoubleSignDetector_def)
  from dt_run_backed [OF this, of evs order] assms show ?thesis
    by (simp add: detector_backed_def GetEvidence_def)
qed

lemmas dt_eval = NewDoubleSignDetector_def CheckProposal_def CheckVote_def trimHistory_def
  add_evidence_def ds_record_def store_record_def votes_at_def GetEvidence_def Let_def

theorem double_sign_sound_witness:
  "evidence_backed [DEVote [7] 3 0 PhasePrepare [1] 10, DEVote [7] 3 0 PhasePrepare [2] 11]
     (ds_record [7] DoubleSignVote 3 0 [1] [2] 11)"
  by (rule double_sign_sound [where order = id]) (simp add: dt_eval)

text \<open>
  Two votes of one validator for different blocks in the same height, view
  and phase yield evidence as long as the history holds the entry.
\<close>

theorem double_vote_caught:
  assumes "goget (dtHistory d) (h, v) = Some r" and "goget (votes_at r ph) a = Some hash1"
    and "hash1 \<noteq> hash2"
  shows "\<exists>d' i. CheckVote order d a h v ph hash2 now = (d', Some i) \<and>
    i < length (GetEvidence d') \<and>
    GetEvidence d' ! i = ds_record a DoubleSignVote h v hash1 hash2 now"
proof -
  have [simp]: "dtEvidence (store_record k q d') = dtEvidence d'" for k q d'
    by (simp add: store_record_def)
  show ?thesis using assms
    by (auto simp: CheckVote_def Let_def add_evidence_def GetEvidence_def)
qed

theorem double_vote_caught_witness:
  "\<exists>d' i. CheckVote id (dt_step id NewDoubleSignDetector (DEVote [7] 3 0 PhasePrepare [1] 10))
      [7] 3 0 PhasePrepare [2] 11 = (d', Some i) \<and>
    i < length (GetEvidence d') \<and> GetEvidence d' ! i = ds_record [7] DoubleSignVote 3 0 [1] [2] 11"
  by (rule double_vote_caught [where r = "\<lparr>rcProposer = [], rcBlockHash = [],
      rcVotes = [(PhasePrepare, [([7], [1])])]\<rparr>"]) (simp_all add: dt_eval)

text \<open>
  A vote that reaches the detector before the proposal of its height
  and view disables the check on proposals: whatever that view's proposers then propose, no
  evidence of a double proposal is ever recorded for it.
\<close>

theorem vote_blinds_proposal_check:
  assumes "goget (dtHistory d) (h, v) = None" and "length (dtHistory d) < dtMaxHistoryLen d" and "p \<noteq> []"
  shows "snd (CheckProposal order (fst (CheckVote order d a h v ph hash now)) p h v hash1 t1) = None \<and>
    fst (CheckProposal order (fst (CheckVote order d a h v ph hash now)) p h v hash1 t1)
      = fst (CheckVote order d a h v ph hash now)"
proof -
  let ?r0 = "\<lparr>rcProposer = [], rcBlockHash = [], rcVotes = []\<rparr> :: sign_record"
  have "length (goput (h, v) ?r0 (dtHistory d)) = Suc (length (dtHistory d))"
    using assms(1) by (simp add: length_goput)
  with assms have trim: "trimHistory order (d\<lparr>dtHistory := goput (h, v) ?r0 (dtHistory d)\<rparr>)
      = d\<lparr>dtHistory := goput (h, v) ?r0 (dtHistory d)\<rparr>"
    by (simp add: trimHistory_def)
  show ?thesis
    using assms(1,3) by (auto simp: CheckVote_def Let_def trim store_record_def votes_at_def CheckProposal_def)
qed

theorem vote_blinds_proposal_check_witness:
  "GetEvidence (foldl (dt_step id) NewDoubleSignDetector
     [DEVote [9] 3 0 PhasePrepare [1] 10, DEProposal [7] 3 0 [1] 11, DEProposal [7] 3 0 [2] 12]) = []"
proof -
  let ?d = "fst (CheckVote id NewDoubleSignDetector [9] 3 0 PhasePrepare [1] 10)"
  have "fst (CheckProposal id ?d [7] 3 0 hash now) = ?d" for hash now
    by (rule vote_blinds_proposal_check [THEN conjunct2]) (simp_all add: NewDoubleSignDetector_def)
  then show ?thesis by (simp add: dt_eval)
qed

subsection \<open>Finality needs the votes\<close>

datatype fg_op = FGCheckpoint u64 bytes "bytes list" time | FGVote u64 bytes | FGCleanup u64

fun fg_step :: "(nat \<Rightarrow> nat) \<Rightarrow> finality_gadget \<Rightarrow> fg_op \<Rightarrow> finality_gadget" where
  "fg_step required fg (FGCheckpoint h hash vals now) = CreateCheckpoint fg h hash vals now"
| "fg_step required fg (FGVote h a) = fst (AddVote required fg h a)"
| "fg_step required fg (FGCleanup h) = Cleanup fg h"

definition cp_ok :: "(nat \<Rightarrow> nat) \<Rightarrow> checkpoint \<Rightarrow> bool" where
  "cp_ok required cp \<longleftrightarrow> gomap_wf (cpSignatures cp) \<and>
     (cpIsFinal cp \<longrightarrow> required (length (cpValidators cp)) \<le> length (cpSignatures cp))"

definition fg_ok :: "(nat \<Rightarrow> nat) \<Rightarrow> finality_gadget \<Rightarrow> bool" where
  "fg_ok required fg \<longleftrightarrow> (\<forall>cp \<in> set (fgCheckpoints fg). cp_ok required cp)"

lemma add_vote_loop_ok:
  "\<forall>cp \<in> set cps. cp_ok required cp \<Longrightarrow>
    \<forall>cp \<in> set (fst (add_vote_loop required h a cps)). cp_ok required cp"
  by (induction cps) (auto simp: Let_def cp_ok_def split: prod.splits)

lemma AddVote_ok: "fg_ok required fg \<Longrightarrow> fg_ok required (fst (AddVote required fg h a))"
  using add_vote_loop_ok [of "fgCheckpoints fg" required h a]
  by (auto simp: AddVote_def fg_ok_def Let_def split: prod.splits)

lemma AddVote_mono: "fgLastFinalized fg \<le> fgLastFinalized (fst (AddVote required fg h a))"
  by (auto simp: AddVote_def Let_def split: prod.splits)

interpretation fg_sys: monotone_system "fg_step required" "fg_ok required" fgLastFinalized
  for required
proof unfold_locales
  fix fg op assume "fg_ok required fg"
  then show "fg_ok required (fg_step required fg op)"
    by (cases op) (auto simp: AddVote_ok, auto simp: CreateCheckpoint_def Cleanup_def fg_ok_def cp_ok_def)
next
  fix fg op assume "fg_ok required fg"
  show "fgLastFinalized fg \<le> fgLastFinalized (fg_step required fg op)"
    by (cases op) (auto simp: AddVote_mono CreateCheckpoint_def Cleanup_def)
qed

text \<open>
  Along any history of checkpoints, votes and clean-ups, a checkpoint is
  final only with at least the required number of distinct voters, and what was finalized stays
  finalized.
\<close>

theorem finality_gadget_sound:
  assumes "fg_ok required fg" and "IsFinalized fg h"
  shows "IsFinalized (foldl (fg_step required) fg ops) h \<and>
    (\<forall>cp \<in> set (fgCheckpoints (foldl (fg_step required) fg ops)). cpIsFinal cp \<longrightarrow>
       required (length (cpValidators cp)) \<le> card (fst ` set (cpSignatures cp)))"
proof
  show "IsFinalized (foldl (fg_step required) fg ops) h"
    using fg_sys.run_rank [OF assms(1), of ops] assms(2) by (simp add: IsFinalized_def)
  have "fg_ok required (foldl (fg_step required) fg ops)" by (rule fg_sys.run_inv [OF assms(1)])
  then show "\<forall>cp \<in> set (fgCheckpoints (foldl (fg_step required) fg ops)). cpIsFinal cp \<longrightarrow>
       required (length (cpValidators cp)) \<le> card (fst ` set (cpSignatures cp))"
    by (auto simp: fg_ok_def cp_ok_def gomap_wf_def) (metis distinct_card length_map set_map)
qed

theorem finality_gadget_sound_witness:
  "IsFinalized (foldl (fg_step (\<lambda>n. n * 67 div 100)) (NewFinalityGadget 1000)
     [FGCheckpoint 5 [1] [[1], [2], [3]] 0, FGVote 5 [1], FGVote 5 [2]]) 0"
  by (rule finality_gadget_sound [THEN conjunct1])
    (simp_all add: fg_ok_def NewFinalityGadget_def IsFinalized_def)

subsection \<open>Liveness arithmetic\<close>

text \<open>
  For a validator last seen at or below the tracker's height, the missed count
  is the plain difference and the validator is reported offline exactly when it exceeds the threshold.
\<close>

theorem liveness_gap_exact:
  assumes "gomap_wf (ltLastActivity lt)" and "goget (ltLastActivity lt) a = Some h" and "h \<le> ltCurrentHeight lt"
  shows "unat (GetMissed lt a) = unat (ltCurrentHeight lt) - unat h \<and>
    (a \<in> set (snd (GetOfflineValidators lt)) \<longleftrightarrow> unat (ltThreshold lt) < unat (ltCurrentHeight lt) - unat h)"
proof -
  have gap: "unat (ltCurrentHeight lt - h) = unat (ltCurrentHeight lt) - unat h"
    using assms(3) by (simp add: unat_sub word_le_nat_alt)
  have "a \<in> set (snd (GetOfflineValidators lt)) \<longleftrightarrow> (\<exists>g. (a, g) \<in> set (ltLastActivity lt) \<and> lt_offline lt g)"
    by (force simp: GetOfflineValidators_def Let_def)
  then have "a \<in> set (snd (GetOfflineValidators lt)) \<longleftrightarrow> lt_offline lt h"
    using assms(2) by (simp flip: goget_iff_in_set [OF assms(1)])
  with assms(2) gap show ?thesis by (simp add: GetMissed_def lt_offline_def word_less_nat_alt)
qed

theorem liveness_gap_exact_witness:
  "let lt = UpdateHeight (RecordActivity (NewLivenessTracker 10) [1] 5) 16 in
   unat (GetMissed lt [1]) = 11 \<and> [1] \<in> set (snd (GetOfflineValidators lt))"
proof -
  let ?lt = "UpdateHeight (RecordActivity (NewLivenessTracker 10) [1] 5) 16"
  have "gomap_wf (ltLastActivity ?lt)" "goget (ltLastActivity ?lt) [1] = Some 5" "(5 :: u64) \<le> ltCurrentHeight ?lt"
    by (simp_all add: UpdateHeight_def RecordActivity_def NewLivenessTracker_def gomap_wf_def)
  from liveness_gap_exact [OF this] show ?thesis
    by (simp add: UpdateHeight_def RecordActivity_def NewLivenessTracker_def Let_def)
qed

text \<open>
  A validator seen at a height above the tracker's own (its height is
  refreshed by a timer, activity by messages) is reported offline: the difference wraps around,
  giving a missed count within \<open>k\<close> of \<open>2 ^ 64\<close> for an activity \<open>k\<close> blocks ahead.
\<close>

theorem liveness_ahead_is_offline:
  assumes "goget (ltLastActivity lt) a = Some (ltCurrentHeight lt + k)" and "0 < k"
    and "unat (ltThreshold lt) < 2 ^ 64 - unat k"
  shows "a \<in> set (snd (GetOfflineValidators lt)) \<and> unat (GetMissed lt a) = 2 ^ 64 - unat k"
proof -
  have "ltCurrentHeight lt - (ltCurrentHeight lt + k) = - k" by simp
  moreover have neg: "unat (- k) = 2 ^ 64 - unat k"
    using assms(2) by (rule unat_uminus_u64)
  ultimately have "lt_offline lt (ltCurrentHeight lt + k)"
    using assms(3) by (simp add: lt_offline_def word_less_nat_alt)
  then show ?thesis
    using assms(1) neg goget_in_set [OF assms(1)] by (force simp: GetOfflineValidators_def Let_def GetMissed_def)
qed

theorem liveness_ahead_is_offline_witness:
  "let lt = RecordActivity (UpdateHeight (NewLivenessTracker 10) 41) [1] 42 in
   [1] \<in> set (snd (GetOfflineValidators lt)) \<and> unat (GetMissed lt [1]) = 2 ^ 64 - 1"
proof -
  let ?lt = "RecordActivity (UpdateHeight (NewLivenessTracker 10) 41) [1] 42"
  have "goget (ltLastActivity ?lt) [1] = Some (ltCurrentHeight ?lt + 1)"
    by (simp add: UpdateHeight_def RecordActivity_def NewLivenessTracker_def)
  from liveness_ahead_is_offline [OF this] show ?thesis
    by (simp add: UpdateHeight_def RecordActivity_def NewLivenessTracker_def Let_def)
qed

end
