(* ===== verification/State_Sync.thy ===== *)
theory State_Sync
  imports Contracts Staking
begin

text \<open>
  The state syncer (\<open>internal/layer1/consensus/state_sync.go\<close>): it collects blocks by height and
  hands them to an applier in height order. The applier belongs to the engine, so the operations
  take it as an argument \<open>apply\<close> that runs on the owner's state and reports success; requests for
  blocks are returned as the height ranges to ask for. Logging and the timers of the request loop
  are left out: \<open>requestLoop_tick\<close> is one turn of that loop.
\<close>

record state_syncer =
  ssSyncing :: bool
  ssCurrentHeight :: u64
  ssTargetHeight :: u64
  ssPendingBlocks :: "(u64, bytes) gomap"
  ssRequested :: "(u64, bool) gomap"
  ssSyncTimeout :: duration
  ssSyncStartTime :: time
  ssMaxBatchSize :: u64

datatype sync_error = NotSyncing | InvalidBlockData | ApplyFailed

definition NewStateSyncer :: state_syncer where
  "NewStateSyncer = \<lparr>ssSyncing = False, ssCurrentHeight = 0, ssTargetHeight = 0,
     ssPendingBlocks = [], ssRequested = [], ssSyncTimeout = 60000000000, ssSyncStartTime = 0,
     ssMaxBatchSize = 100\<rparr>"

subsection \<open>Starting and requesting\<close>

text \<open>
  \<open>for h := lo; h <= hi; h++\<close> over \<open>uint64\<close> runs for ever when \<open>hi\<close> is the largest value; the
  loop is bounded by a number of turns, at most the batch size here.
\<close>

fun mark_range :: "nat \<Rightarrow> u64 \<Rightarrow> u64 \<Rightarrow> (u64, bool) gomap \<Rightarrow> (u64, bool) gomap" where
  "mark_range 0 h hi m = m"
| "mark_range (Suc n) h hi m = (if h \<le> hi then mark_range n (h + 1) hi (goput h True m) else m)"

definition batch_end :: "state_syncer \<Rightarrow> u64 \<Rightarrow> u64 \<Rightarrow> u64" where
  "batch_end ss start target =
     (let batchEnd = start + ssMaxBatchSize ss - 1 in if batchEnd > target then target else batchEnd)"

definition StartSync ::
    "state_syncer \<Rightarrow> u64 \<Rightarrow> u64 \<Rightarrow> time \<Rightarrow> state_syncer \<times> (u64 \<times> u64) option" where
  "StartSync ss localHeight target now =
     (if target \<le> localHeight then (ss, None)
      else if ssSyncing ss then
        (ss\<lparr>ssTargetHeight := (if target > ssTargetHeight ss then target else ssTargetHeight ss),
            ssRequested := [], ssPendingBlocks := [], ssSyncStartTime := now\<rparr>, None)
      else
        let batchEnd = batch_end ss localHeight target in
        (ss\<lparr>ssSyncing := True, ssCurrentHeight := localHeight, ssTargetHeight := target,
            ssPendingBlocks := [],
            ssRequested := mark_range (unat (ssMaxBatchSize ss)) localHeight batchEnd [],
            ssSyncStartTime := now\<rparr>, Some (localHeight, batchEnd)))"

text \<open>The marking loop of \<open>RequestBlocks\<close> stops after a batch.\<close>

fun mark_batch :: "nat \<Rightarrow> u64 \<Rightarrow> u64 \<Rightarrow> (u64, bool) gomap \<Rightarrow> (u64, bool) gomap" where
  "mark_batch 0 h hi m = m"
| "mark_batch (Suc n) h hi m =
     (if h \<le> hi then mark_batch n (h + 1) hi (if goget m h = Some True then m else goput h True m) else m)"

definition RequestBlocks ::
    "state_syncer \<Rightarrow> u64 \<Rightarrow> u64 \<Rightarrow> sync_error + (state_syncer \<times> (u64 \<times> u64) option)" where
  "RequestBlocks ss from_height to_height =
     (if \<not> ssSyncing ss then Inl NotSyncing
      else
        let ss' = ss\<lparr>ssRequested := mark_batch (unat (ssMaxBatchSize ss)) from_height to_height (ssRequested ss)\<rparr>;
            batchEnd = batch_end ss from_height to_height
        in Inr (ss', if batchEnd < from_height then None else Some (from_height, batchEnd)))"

definition resyncFromHeight :: "state_syncer \<Rightarrow> u64 \<Rightarrow> time \<Rightarrow> state_syncer" where
  "resyncFromHeight ss height now = ss\<lparr>ssCurrentHeight := height, ssRequested := [],
     ssPendingBlocks := [], ssSyncStartTime := now\<rparr>"

definition finishSync :: "state_syncer \<Rightarrow> state_syncer" where
  "finishSync ss = ss\<lparr>ssSyncing := False, ssPendingBlocks := [], ssRequested := []\<rparr>"

definition requestNextBatch ::
    "state_syncer \<Rightarrow> state_syncer \<times> (u64 \<times> u64) option" where
  "requestNextBatch ss =
     (if \<not> ssSyncing ss then (ss, None)
      else if ssCurrentHeight ss > ssTargetHeight ss then (ss, None)
      else
        case RequestBlocks ss (ssCurrentHeight ss) (batch_end ss (ssCurrentHeight ss) (ssTargetHeight ss)) of
          Inl _ \<Rightarrow> (ss, None)
        | Inr r \<Rightarrow> r)"

definition requestLoop_tick ::
    "state_syncer \<Rightarrow> time \<Rightarrow> state_syncer \<times> (u64 \<times> u64) option" where
  "requestLoop_tick ss now =
     (if \<not> ssSyncing ss then (ss, None)
      else if now - ssSyncStartTime ss > ssSyncTimeout ss
      then (resyncFromHeight ss (ssCurrentHeight ss) now, None)
      else if ssCurrentHeight ss > ssTargetHeight ss then (ss, None)
      else requestNextBatch ss)"

definition ss_Stop :: "state_syncer \<Rightarrow> state_syncer" where
  "ss_Stop ss = ss\<lparr>ssSyncing := False, ssPendingBlocks := [], ssRequested := []\<rparr>"

definition IsSyncing :: "state_syncer \<Rightarrow> bool" where
  "IsSyncing ss = ssSyncing ss"

definition SyncProgress :: "state_syncer \<Rightarrow> u64 \<times> u64" where
  "SyncProgress ss = (if \<not> ssSyncing ss then (0, 0) else (ssCurrentHeight ss, ssTargetHeight ss))"

subsection \<open>Applying blocks\<close>

text \<open>
  The apply loop: each turn removes a pending block, which bounds the recursion. It returns the
  syncer, the owner's state and whether the applier failed.
\<close>

function apply_loop ::
    "('s \<Rightarrow> bytes \<Rightarrow> 's \<times> bool) \<Rightarrow> time \<Rightarrow> state_syncer \<Rightarrow> 's \<Rightarrow> state_syncer \<times> 's \<times> bool" where
  "apply_loop apply now ss s =
     (if ssCurrentHeight ss \<le> ssTargetHeight ss then
        (case goget (ssPendingBlocks ss) (ssCurrentHeight ss) of
           None \<Rightarrow> (ss, s, True)
         | Some block \<Rightarrow>
             (let ss1 = ss\<lparr>ssPendingBlocks := godel (ssCurrentHeight ss) (ssPendingBlocks ss)\<rparr>;
                  (s', ok) = apply s block
              in if \<not> ok
                 then (resyncFromHeight (ss1\<lparr>ssRequested := godel (ssCurrentHeight ss) (ssRequested ss1)\<rparr>)
                         (ssCurrentHeight ss) now, s', False)
                 else apply_loop apply now (ss1\<lparr>ssCurrentHeight := ssCurrentHeight ss + 1\<rparr>) s'))
      else (ss, s, True))"
  by pat_completeness auto

lemma length_godel_less: "goget m k = Some v \<Longrightarrow> length (godel k m) < length m"
  by (induction m) (auto simp: less_Suc_eq_le length_delete_le split: if_splits)

termination apply_loop
  by (relation "measure (\<lambda>(apply, now, ss, s). length (ssPendingBlocks ss))")
    (auto dest: length_godel_less)

declare apply_loop.simps [simp del]

definition ApplyBlock ::
    "('s \<Rightarrow> bytes \<Rightarrow> 's \<times> bool) \<Rightarrow> state_syncer \<Rightarrow> 's \<Rightarrow> bytes \<Rightarrow> time \<Rightarrow>
      state_syncer \<times> 's \<times> sync_error option" where
  "ApplyBlock apply ss s blockData now =
     (if \<not> ssSyncing ss then (ss, s, Some NotSyncing)
      else if length blockData < 8 then (ss, s, Some InvalidBlockData)
      else
        let blockHeight = (of_nat (unbe (take 8 blockData)) :: u64) in
        if blockHeight < ssCurrentHeight ss then (ss, s, None)
        else if blockHeight > ssTargetHeight ss
        then (ss\<lparr>ssPendingBlocks := goput blockHeight blockData (ssPendingBlocks ss)\<rparr>, s, None)
        else
          (case apply_loop apply now
              (ss\<lparr>ssPendingBlocks := goput blockHeight blockData (ssPendingBlocks ss)\<rparr>) s of
             (ss', s', ok) \<Rightarrow>
               if \<not> ok then (ss', s', Some ApplyFailed)
               else (if ssCurrentHeight ss' > ssTargetHeight ss' then finishSync ss' else ss', s', None)))"

definition ReceiveBlock where
  "ReceiveBlock = ApplyBlock"

subsection \<open>The wire format of heights\<close>

definition ExtractBlockHeight :: "bytes \<Rightarrow> u64" where
  "ExtractBlockHeight blockData = (if length blockData < 8 then 0 else of_nat (unbe (take 8 blockData)))"

definition SerializeBlockHeight :: "u64 \<Rightarrow> bytes" where
  "SerializeBlockHeight height = be_u64 height"

definition DeserializeBlockHeight :: "bytes \<Rightarrow> u64 option" where
  "DeserializeBlockHeight data = (if length data < 8 then None else Some (of_nat (unbe (take 8 data))))"

definition SerializeBlockRequest :: "u64 \<Rightarrow> u64 \<Rightarrow> bytes" where
  "SerializeBlockRequest from_height to_height = be_u64 from_height @ be_u64 to_height"

definition DeserializeBlockRequest :: "bytes \<Rightarrow> (u64 \<times> u64) option" where
  "DeserializeBlockRequest data = (if length data < 16 then None
     else Some (of_nat (unbe (take 8 data)), of_nat (unbe (take 8 (drop 8 data)))))"

subsection \<open>Blocks are applied in height order\<close>

text \<open>An applier that logs the blocks it is given, and fails where \<open>bad\<close> says so.\<close>

definition logging_apply :: "(bytes \<Rightarrow> bool) \<Rightarrow> bytes list \<Rightarrow> bytes \<Rightarrow> bytes list \<times> bool" where
  "logging_apply bad log block = (log @ [block], \<not> bad block)"

text \<open>The pending table files each block under the height it carries.\<close>

definition syncer_ok :: "state_syncer \<Rightarrow> bool" where
  "syncer_ok ss \<longleftrightarrow> (\<forall>h b. goget (ssPendingBlocks ss) h = Some b \<longrightarrow> ExtractBlockHeight b = h)"

lemma apply_loop_in_order:
  "syncer_ok ss \<Longrightarrow>
   \<exists>blocks. fst (snd (apply_loop (logging_apply bad) now ss log)) = log @ blocks \<and>
     (\<forall>i < length blocks. ExtractBlockHeight (blocks ! i) = ssCurrentHeight ss + of_nat i) \<and>
     (\<forall>b \<in> set (butlast blocks). \<not> bad b) \<and>
     (snd (snd (apply_loop (logging_apply bad) now ss log)) \<longrightarrow>
        (\<forall>b \<in> set blocks. \<not> bad b) \<and>
        ssCurrentHeight (fst (apply_loop (logging_apply bad) now ss log)) = ssCurrentHeight ss + of_nat (length blocks))"
proof (induction "logging_apply bad" now ss log rule: apply_loop.induct)
  case (1 now ss log)
  let ?h = "ssCurrentHeight ss"
  show ?case
  proof (cases "?h \<le> ssTargetHeight ss \<and> goget (ssPendingBlocks ss) ?h \<noteq> None")
    case False
    then have "apply_loop (logging_apply bad) now ss log = (ss, log, True)"
      by (auto simp: apply_loop.simps)
    then show ?thesis by (intro exI [of _ "[]"]) simp
  next
    case True
    then obtain block where le: "?h \<le> ssTargetHeight ss" and b: "goget (ssPendingBlocks ss) ?h = Some block"
      by blast
    have hb: "ExtractBlockHeight block = ?h" using "1.prems" b by (simp add: syncer_ok_def)
    show ?thesis
    proof (cases "bad block")
      case bad: True
      have "fst (snd (apply_loop (logging_apply bad) now ss log)) = log @ [block]
          \<and> \<not> snd (snd (apply_loop (logging_apply bad) now ss log))"
        using le b bad by (simp add: apply_loop.simps logging_apply_def Let_def)
      then show ?thesis using hb by (intro exI [of _ "[block]"]) simp
    next
      case good: False
      let ?ss1 = "ss\<lparr>ssPendingBlocks := godel ?h (ssPendingBlocks ss), ssCurrentHeight := ?h + 1\<rparr>"
      have rec: "apply_loop (logging_apply bad) now ss log = apply_loop (logging_apply bad) now ?ss1 (log @ [block])"
        using le b good by (subst apply_loop.simps) (simp add: logging_apply_def Let_def)
      have la: "(log @ [block], True) = logging_apply bad log block"
        using good by (simp add: logging_apply_def)
      have ok1: "syncer_ok ?ss1" using "1.prems" by (auto simp: syncer_ok_def)
      obtain bs where bs: "fst (snd (apply_loop (logging_apply bad) now ?ss1 (log @ [block]))) = (log @ [block]) @ bs"
        "\<forall>i < length bs. ExtractBlockHeight (bs ! i) = ?h + 1 + of_nat i"
        "\<forall>b \<in> set (butlast bs). \<not> bad b"
        "snd (snd (apply_loop (logging_apply bad) now ?ss1 (log @ [block]))) \<longrightarrow>
          (\<forall>b \<in> set bs. \<not> bad b) \<and>
          ssCurrentHeight (fst (apply_loop (logging_apply bad) now ?ss1 (log @ [block]))) = ?h + 1 + of_nat (length bs)"
        using "1.hyps" [OF le b refl refl la _ ok1] by auto
      show ?thesis
        unfolding rec using bs hb good
        by (intro exI [of _ "block # bs"]) (auto simp: nth_Cons algebra_simps split: nat.splits)
    qed
  qed
qed

lemma apply_loop_ok: "syncer_ok ss \<Longrightarrow> syncer_ok (fst (apply_loop app now ss s))"
proof (induction app now ss s rule: apply_loop.induct)
  case (1 app now ss s)
  let ?h = "ssCurrentHeight ss"
  have del: "syncer_ok (ss\<lparr>ssPendingBlocks := godel ?h (ssPendingBlocks ss), ssCurrentHeight := ?h + 1\<rparr>)"
    using "1.prems" by (auto simp: syncer_ok_def)
  show ?case
  proof (cases "?h \<le> ssTargetHeight ss \<and> goget (ssPendingBlocks ss) ?h \<noteq> None")
    case False
    with "1.prems" show ?thesis by (auto simp: apply_loop.simps)
  next
    case True
    then obtain block where le: "?h \<le> ssTargetHeight ss" and b: "goget (ssPendingBlocks ss) ?h = Some block"
      by blast
    obtain s' ok where sb: "(s', ok) = app s block" by (metis prod.collapse)
    show ?thesis
    proof (cases ok)
      case True
      from "1.IH" [OF le b refl refl sb _ del] True le b sb [symmetric] show ?thesis
        by (subst apply_loop.simps) (simp add: Let_def)
    next
      case False
      with le b sb [symmetric] show ?thesis
        by (subst apply_loop.simps) (simp add: Let_def resyncFromHeight_def syncer_ok_def)
    qed
  qed
qed

lemma syncer_ok_put: "syncer_ok ss \<Longrightarrow> 8 \<le> length b \<Longrightarrow>
    syncer_ok (ss\<lparr>ssPendingBlocks := goput (of_nat (unbe (take 8 b))) b (ssPendingBlocks ss)\<rparr>)"
  by (auto simp: syncer_ok_def ExtractBlockHeight_def)

lemma unat_batch_end:
  assumes "unat start + unat (ssMaxBatchSize ss) < 2 ^ 64" and "0 < ssMaxBatchSize ss"
  shows "unat (batch_end ss start target) = min (unat target) (unat start + unat (ssMaxBatchSize ss) - 1)"
proof -
  have "0 < unat (ssMaxBatchSize ss)" using assms(2) by (simp add: word_less_nat_alt)
  moreover have sum: "unat (start + ssMaxBatchSize ss) = unat start + unat (ssMaxBatchSize ss)"
    using assms(1) by (simp add: unat_word_ariths)
  ultimately have "unat (start + ssMaxBatchSize ss - 1) = unat start + unat (ssMaxBatchSize ss) - 1"
    by (simp add: unat_sub word_le_nat_alt)
  then show ?thesis by (auto simp: batch_end_def Let_def word_less_nat_alt)
qed

lemma goget_mark_range:
  "unat lo + n < 2 ^ 64 \<Longrightarrow> goget (mark_range n lo hi m) h =
    (if unat lo \<le> unat h \<and> unat h < unat lo + n \<and> h \<le> hi then Some True else goget m h)"
proof (induction n arbitrary: lo m)
  case 0
  then show ?case by auto
next
  case (Suc n)
  have lo1: "unat (lo + 1) = unat lo + 1" using Suc.prems by (simp add: unat_word_ariths)
  show ?case
  proof (cases "lo \<le> hi")
    case True
    have "goget (mark_range (Suc n) lo hi m) h
        = (if unat lo + 1 \<le> unat h \<and> unat h < unat lo + 1 + n \<and> h \<le> hi then Some True
           else goget (goput lo True m) h)"
      using True Suc.prems by (simp add: Suc.IH lo1)
    then show ?thesis using True by (auto simp: word_unat_eq_iff word_le_nat_alt)
  next
    case False
    then show ?thesis by (auto simp: word_le_nat_alt)
  qed
qed

text \<open>
  A block handed to the syncer makes it apply blocks of consecutive
  heights, starting at its current height, each at the height it carries, stopping at the first
  failure; without a failure the current height advances by the number of blocks applied.
\<close>

theorem sync_applies_in_order:
  assumes "syncer_ok ss" and "ApplyBlock (logging_apply bad) ss log blockData now = (ss', log', err)"
  shows "\<exists>blocks. log' = log @ blocks \<and>
     (\<forall>i < length blocks. ExtractBlockHeight (blocks ! i) = ssCurrentHeight ss + of_nat i) \<and>
     (\<forall>b \<in> set (butlast blocks). \<not> bad b) \<and>
     (err = None \<longrightarrow> (\<forall>b \<in> set blocks. \<not> bad b) \<and>
        ssCurrentHeight ss' = ssCurrentHeight ss + of_nat (length blocks)) \<and> syncer_ok ss'"
proof -
  let ?h = "of_nat (unbe (take 8 blockData)) :: u64"
  let ?ss1 = "ss\<lparr>ssPendingBlocks := goput ?h blockData (ssPendingBlocks ss)\<rparr>"
  show ?thesis
  proof (cases "ssSyncing ss \<and> 8 \<le> length blockData \<and> ssCurrentHeight ss \<le> ?h \<and> ?h \<le> ssTargetHeight ss")
    case False
    then have "log' = log" "err \<noteq> Some ApplyFailed" "ssCurrentHeight ss' = ssCurrentHeight ss" "syncer_ok ss'"
      using assms by (auto simp: ApplyBlock_def Let_def syncer_ok_put split: if_splits)
    then show ?thesis by (intro exI [of _ "[]"]) simp
  next
    case True
    obtain ss2 log2 ok where al: "apply_loop (logging_apply bad) now ?ss1 log = (ss2, log2, ok)"
      by (metis prod_cases3)
    have ok1: "syncer_ok ?ss1" using assms(1) True by (simp add: syncer_ok_put)
    have ok2: "syncer_ok ss2" using apply_loop_ok [OF ok1, of "logging_apply bad" now log] al by simp
    have res: "log' = log2 \<and> (err = None \<longleftrightarrow> ok) \<and> ssCurrentHeight ss' = ssCurrentHeight ss2 \<and> syncer_ok ss'"
      using assms(2) True al ok2
      by (auto simp: ApplyBlock_def Let_def finishSync_def syncer_ok_def split: if_splits)
    from apply_loop_in_order [OF ok1, of bad now log] al res show ?thesis by simp
  qed
qed

definition sample_syncer :: state_syncer where
  "sample_syncer = (fst (StartSync NewStateSyncer 4 9 0))\<lparr>ssPendingBlocks := [(5, be_u64 5 @ [77])]\<rparr>"

theorem sync_applies_in_order_witness:
  "\<exists>blocks. fst (snd (ApplyBlock (logging_apply (\<lambda>_. False)) sample_syncer [] (be_u64 4 @ [66]) 1)) = [] @ blocks \<and>
     (\<forall>i < length blocks. ExtractBlockHeight (blocks ! i) = ssCurrentHeight sample_syncer + of_nat i)"
proof -
  have "syncer_ok sample_syncer"
    by (simp add: syncer_ok_def sample_syncer_def ExtractBlockHeight_def)
  moreover obtain ss' log' err where
    "ApplyBlock (logging_apply (\<lambda>_. False)) sample_syncer [] (be_u64 4 @ [66]) 1 = (ss', log', err)"
    by (metis prod_cases3)
  ultimately show ?thesis using sync_applies_in_order by fastforce
qed

text \<open>
  Starting a sync asks for the range from the local height to the smaller of
  the target and a full batch, and marks exactly the heights of that range as requested.
\<close>

theorem sync_requests_cover:
  assumes "\<not> ssSyncing ss" and "local < target" and "unat local + unat (ssMaxBatchSize ss) < 2 ^ 64"
    and "0 < ssMaxBatchSize ss"
  shows "\<exists>ss' hi. StartSync ss local target now = (ss', Some (local, hi)) \<and>
    unat hi = min (unat target) (unat local + unat (ssMaxBatchSize ss) - 1) \<and> ssSyncing ss' \<and>
    (\<forall>h. goget (ssRequested ss') h = Some True \<longleftrightarrow> local \<le> h \<and> h \<le> hi)"
proof -
  let ?hi = "batch_end ss local target"
  have hi: "unat ?hi = min (unat target) (unat local + unat (ssMaxBatchSize ss) - 1)"
    by (rule unat_batch_end [OF assms(3,4)])
  have "0 < unat (ssMaxBatchSize ss)" using assms(4) by (simp add: word_less_nat_alt)
  then have "goget (mark_range (unat (ssMaxBatchSize ss)) local ?hi []) h = Some True \<longleftrightarrow> local \<le> h \<and> h \<le> ?hi" for h
    using hi assms(3) by (subst goget_mark_range) (auto simp: word_le_nat_alt)
  with hi assms(1,2) show ?thesis
    by (simp add: StartSync_def Let_def)
qed

theorem sync_requests_cover_witness:
  "\<exists>ss' hi. StartSync NewStateSyncer 4 500 0 = (ss', Some (4, hi)) \<and> unat hi = 103 \<and> ssSyncing ss'"
  using sync_requests_cover [of NewStateSyncer 4 500 0] by (auto simp: NewStateSyncer_def)

end
