(* ===== verification/HotStuff_State.thy ===== *)
theory HotStuff_State
  imports Detectors State_Sync
begin

text \<open>
  The state of the consensus engine (\<open>internal/layer1/consensus/hotstuff.go\<close>, \<open>types.go\<close>) and its
  helper functions: vote registries, the data that is signed, certificates made from collected
  signatures, the rate limiter, broadcasting and timers.

  The engine talks to a \<open>BlockProducer\<close>, to the clock, to SHA-256 and to \<open>encoding/json\<close>; their
  answers during one call are the fields of the environment record \<open>env\<close> (each call may meet a
  different environment). What the engine hands out is recorded in its state: \<open>hsOutbox\<close> are the
  messages given to the broadcast function and \<open>hsCommits\<close> the blocks the producer has committed
  for it. Logging, metrics and the audit log are not modelled.
\<close>

subsection \<open>Messages\<close>

datatype message_type = MsgProposal | MsgVotePrepare | MsgVotePreCommit | MsgVoteCommit
  | MsgTimeout | MsgNewView | MsgBlockRequest | MsgBlockResponse | MsgUnknown byte

text \<open>A Go slice that may be \<open>nil\<close> is an option; \<open>slice\<close> reads it, \<open>nil\<close> being empty.\<close>

definition slice :: "bytes option \<Rightarrow> bytes" where
  "slice b = (case b of None \<Rightarrow> [] | Some x \<Rightarrow> x)"

record message =
  mType :: message_type
  mHeight :: u64
  mView :: u64
  mBlockHash :: bytes
  mValidator :: "bytes option"
  mSignature :: "signature option"
  mJustifyQC :: "qc option"
  mPayload :: "bytes option"
  mTimestamp :: time

definition mSender :: "message \<Rightarrow> bytes" where
  "mSender m = slice (mValidator m)"

record timeout_cert =
  tcHeight :: u64
  tcView :: u64
  tcTimeouts :: "(string, bool) gomap"
  tcSignatures :: "(string, signature) gomap"
  tcTotalStake :: u64
  tcHighQC :: "qc option"

definition HasQuorum :: "timeout_cert \<Rightarrow> int \<Rightarrow> bool" where
  "HasQuorum tc threshold \<longleftrightarrow> int (length (tcTimeouts tc)) \<ge> threshold"

record config =
  cfBlockTime :: duration
  cfViewTimeout :: duration
  cfMaxViewTimeout :: duration
  cfTimeoutIncrease :: duration
  cfMinValidators :: nat
  cfEpochLength :: u64
  cfUnbondingPeriod :: duration
  cfDowntimeThreshold :: u64
  cfProtocolVersion :: u64
  cfMessageRateLimit :: int
  cfMessageRateWindow :: duration

definition DefaultConsensusConfig :: config where
  "DefaultConsensusConfig = \<lparr>cfBlockTime = 3000000000, cfViewTimeout = 5000000000,
     cfMaxViewTimeout = 30000000000, cfTimeoutIncrease = 2000000000, cfMinValidators = 4,
     cfEpochLength = 1000, cfUnbondingPeriod = 21 * 24 * 3600000000000, cfDowntimeThreshold = 10,
     cfProtocolVersion = 1, cfMessageRateLimit = 1000, cfMessageRateWindow = 1000000000\<rparr>"

text \<open>
  \<open>envSlashNum\<close> and \<open>envHalfSlashNum\<close> are \<open>uint64(f * 1e9)\<close> for \<open>f\<close> the slashing fraction and half
  of it; \<open>envChainHeight\<close> is the producer's chain height, given the blocks committed so far, and
  \<open>envBlockHash\<close> the hash of a decoded block; \<open>envRequired\<close> is the finality gadget's share of \<open>n\<close> validators.
\<close>

record env =
  envNow :: time
  envSha256 :: "bytes \<Rightarrow> bytes"
  envMe :: bytes
  envSign :: "bytes \<Rightarrow> signature option"
  envVerify :: "bytes \<Rightarrow> bytes \<Rightarrow> signature \<Rightarrow> bool"
  envCreateBlock :: "bytes \<Rightarrow> u64 \<Rightarrow> (bytes \<times> bytes) option"
  envValidateBlock :: "bytes \<Rightarrow> bytes \<Rightarrow> u64 \<Rightarrow> bool"
  envCommitBlock :: "bytes \<Rightarrow> u64 \<Rightarrow> bool"
  envGetBlockData :: "u64 \<Rightarrow> bytes option"
  envChainHeight :: "(u64 \<times> bytes) list \<Rightarrow> u64"
  envMarshalTC :: "timeout_cert \<Rightarrow> bytes"
  envUnmarshalTC :: "bytes \<Rightarrow> timeout_cert option"
  envBlockHash :: "bytes \<Rightarrow> bytes option"
  envOrder :: "height_view list \<Rightarrow> height_view list"
  envSlashNum :: u64
  envHalfSlashNum :: u64
  envRequired :: "nat \<Rightarrow> nat"

subsection \<open>The rate limiter\<close>

record rate_counter =
  rcCount :: int
  rcLastSeen :: time

record rate_limiter =
  rlCounters :: "(string, rate_counter) gomap"
  rlLimit :: int
  rlWindow :: duration
  rlLastReset :: time

definition newMessageRateLimiter :: "int \<Rightarrow> duration \<Rightarrow> time \<Rightarrow> rate_limiter" where
  "newMessageRateLimiter limit window now =
     \<lparr>rlCounters = [], rlLimit = limit, rlWindow = window, rlLastReset = now\<rparr>"

definition Allow :: "rate_limiter \<Rightarrow> string \<Rightarrow> time \<Rightarrow> rate_limiter \<times> bool" where
  "Allow rl addr now =
     (let rl1 = (if now - rlLastReset rl > rlWindow rl
                 then rl\<lparr>rlCounters := [], rlLastReset := now\<rparr> else rl)
      in case goget (rlCounters rl1) addr of
           None \<Rightarrow> (rl1\<lparr>rlCounters := goput addr \<lparr>rcCount = 1, rcLastSeen = now\<rparr> (rlCounters rl1)\<rparr>, True)
         | Some c \<Rightarrow>
             let c' = \<lparr>rcCount = rcCount c + 1, rcLastSeen = now\<rparr>
             in (rl1\<lparr>rlCounters := goput addr c' (rlCounters rl1)\<rparr>, rcCount c' \<le> rlLimit rl1))"

subsection \<open>Vote registries\<close>

record pending_block =
  pbHash :: bytes
  pbProposer :: bytes
  pbPayload :: bytes

record vote_registry =
  rgVotes :: "(phase, (string, (string, bool) gomap) gomap) gomap"
  rgSignatures :: "(phase, (string, (string, signature) gomap) gomap) gomap"
  rgMyVotes :: "(phase, bytes) gomap"

definition newViewVoteRegistry :: vote_registry where
  "newViewVoteRegistry = \<lparr>rgVotes = [], rgSignatures = [], rgMyVotes = []\<rparr>"

text \<open>Reading a missing inner map gives the empty one, as a \<open>nil\<close> map does in Go.\<close>

definition inner :: "'a \<Rightarrow> ('a, ('b, 'c) gomap) gomap \<Rightarrow> ('b, 'c) gomap" where
  "inner k m = (case goget m k of None \<Rightarrow> [] | Some x \<Rightarrow> x)"

lemma inner_put [simp]: "inner j (goput k x m) = (if j = k then x else inner j m)"
  by (simp add: inner_def)

lemma inner_Nil [simp]: "inner k [] = []"
  by (simp add: inner_def)

definition votes_for :: "vote_registry \<Rightarrow> phase \<Rightarrow> string \<Rightarrow> (string, bool) gomap" where
  "votes_for reg ph hash = inner hash (inner ph (rgVotes reg))"

definition add_vote :: "phase \<Rightarrow> string \<Rightarrow> string \<Rightarrow> vote_registry \<Rightarrow> vote_registry" where
  "add_vote ph hash addr reg = reg\<lparr>rgVotes :=
     goput ph (goput hash (goput addr True (votes_for reg ph hash)) (inner ph (rgVotes reg))) (rgVotes reg)\<rparr>"

definition add_signature :: "phase \<Rightarrow> string \<Rightarrow> string \<Rightarrow> signature \<Rightarrow> vote_registry \<Rightarrow> vote_registry" where
  "add_signature ph hash addr sig reg = reg\<lparr>rgSignatures :=
     goput ph (goput hash (goput addr sig (inner hash (inner ph (rgSignatures reg))))
       (inner ph (rgSignatures reg))) (rgSignatures reg)\<rparr>"

definition set_my_vote :: "phase \<Rightarrow> bytes \<Rightarrow> vote_registry \<Rightarrow> vote_registry" where
  "set_my_vote ph hash reg = reg\<lparr>rgMyVotes := goput ph hash (rgMyVotes reg)\<rparr>"

subsection \<open>The engine\<close>

text \<open>The armed timer: the view timeout, or the one-validator proposal timer.\<close>

datatype timer = NoTimer | ViewTimer duration | ProposeTimer duration

record engine =
  hsConfig :: config
  hsChainID :: u64
  hsState :: consensus_state
  hsValidatorSet :: validator_set
  hsStaking :: staking_module
  hsDoubleSign :: detector
  hsFinality :: finality_gadget
  hsStateStore :: persisted_state
  hsLiveness :: liveness
  hsSyncer :: state_syncer
  hsViewVotes :: "(height_view, vote_registry) gomap"
  hsVotesOrder :: "height_view list"
  hsTimer :: timer
  hsTimeoutView :: u64
  hsViewTimeout :: duration
  hsTimeouts :: "(u64, (string, bool) gomap) gomap"
  hsTimeoutSignatures :: "(u64, (string, signature) gomap) gomap"
  hsTimeoutHighQCs :: "(u64, (string, qc option) gomap) gomap"
  hsTimeoutsOrder :: "u64 list"
  hsMessageCh :: "message list"
  hsProposeCh :: bool
  hsFutureCh :: "message list"
  hsSyncCh :: "message list"
  hsRunning :: bool
  hsCurHeight :: u64
  hsCurView :: u64
  hsPendingBlocks :: "(u64, pending_block) gomap"
  hsEpochStart :: u64
  hsRewardPool :: nat
  hsRateLimiter :: rate_limiter
  hsOutbox :: "message list"
  hsCommits :: "(u64 \<times> bytes) list"

definition NewHotStuffEngine ::
    "config \<Rightarrow> validator_set \<Rightarrow> staking_module \<Rightarrow> u64 \<Rightarrow> time \<Rightarrow> engine" where
  "NewHotStuffEngine cf vs sm chainID now =
     \<lparr>hsConfig = cf, hsChainID = chainID,
      hsState = \<lparr>csHeight = 0, csView = 0, csPhase = PhaseIdle, csLockedQC = None, csPreparedQC = None,
        csDecidedHash = [], csStartTime = 0, csProtocolVersion = 0\<rparr>,
      hsValidatorSet = vs, hsStaking = sm, hsDoubleSign = NewDoubleSignDetector,
      hsFinality = NewFinalityGadget (cfEpochLength cf), hsStateStore = NewConsensusStateStore,
      hsLiveness = NewLivenessTracker (cfDowntimeThreshold cf), hsSyncer = NewStateSyncer,
      hsViewVotes = [], hsVotesOrder = [], hsTimer = NoTimer, hsTimeoutView = 0,
      hsViewTimeout = cfViewTimeout cf, hsTimeouts = [], hsTimeoutSignatures = [], hsTimeoutHighQCs = [],
      hsTimeoutsOrder = [], hsMessageCh = [], hsProposeCh = False, hsFutureCh = [], hsSyncCh = [],
      hsRunning = False, hsCurHeight = 0, hsCurView = 0, hsPendingBlocks = [], hsEpochStart = 1,
      hsRewardPool = 0,
      hsRateLimiter = newMessageRateLimiter (cfMessageRateLimit cf) (cfMessageRateWindow cf) now,
      hsOutbox = [], hsCommits = []\<rparr>"

abbreviation (input) hsHeight :: "engine \<Rightarrow> u64" where "hsHeight hs \<equiv> csHeight (hsState hs)"
abbreviation (input) hsView :: "engine \<Rightarrow> u64" where "hsView hs \<equiv> csView (hsState hs)"
abbreviation (input) hsPhase :: "engine \<Rightarrow> phase" where "hsPhase hs \<equiv> csPhase (hsState hs)"
abbreviation (input) hsLockedQC :: "engine \<Rightarrow> qc option" where "hsLockedQC hs \<equiv> csLockedQC (hsState hs)"
abbreviation (input) hsPreparedQC :: "engine \<Rightarrow> qc option" where "hsPreparedQC hs \<equiv> csPreparedQC (hsState hs)"

definition setPhase :: "phase \<Rightarrow> engine \<Rightarrow> engine" where
  "setPhase ph hs = hs\<lparr>hsState := (hsState hs)\<lparr>csPhase := ph\<rparr>\<rparr>"

definition setLockedQC :: "qc option \<Rightarrow> engine \<Rightarrow> engine" where
  "setLockedQC q hs = hs\<lparr>hsState := (hsState hs)\<lparr>csLockedQC := q\<rparr>\<rparr>"

definition setPreparedQC :: "qc option \<Rightarrow> engine \<Rightarrow> engine" where
  "setPreparedQC q hs = hs\<lparr>hsState := (hsState hs)\<lparr>csPreparedQC := q\<rparr>\<rparr>"

text \<open>\<open>if lockedQC == nil || q.View > lockedQC.View\<close>, and the variant with \<open>>=\<close>.\<close>

definition lock_if_newer :: "qc \<Rightarrow> engine \<Rightarrow> engine" where
  "lock_if_newer q hs =
     (case hsLockedQC hs of
        None \<Rightarrow> setLockedQC (Some q) hs
      | Some l \<Rightarrow> if qcView q > qcView l then setLockedQC (Some q) hs else hs)"

definition lock_if_not_older :: "qc \<Rightarrow> engine \<Rightarrow> engine" where
  "lock_if_not_older q hs =
     (case hsLockedQC hs of
        None \<Rightarrow> setLockedQC (Some q) hs
      | Some l \<Rightarrow> if qcView q \<ge> qcView l then setLockedQC (Some q) hs else hs)"

subsection \<open>Registry access\<close>

definition getOrCreateVoteRegistry :: "u64 \<Rightarrow> u64 \<Rightarrow> engine \<Rightarrow> engine \<times> vote_registry" where
  "getOrCreateVoteRegistry height view hs =
     (case goget (hsViewVotes hs) (height, view) of
        Some reg \<Rightarrow> (hs, reg)
      | None \<Rightarrow> (hs\<lparr>hsViewVotes := goput (height, view) newViewVoteRegistry (hsViewVotes hs),
                   hsVotesOrder := hsVotesOrder hs @ [(height, view)]\<rparr>, newViewVoteRegistry))"

text \<open>A mutation through the registry pointer of a height and view.\<close>

definition update_registry ::
    "u64 \<Rightarrow> u64 \<Rightarrow> (vote_registry \<Rightarrow> vote_registry) \<Rightarrow> engine \<Rightarrow> engine" where
  "update_registry height view f hs =
     (let (hs1, reg) = getOrCreateVoteRegistry height view hs in
      hs1\<lparr>hsViewVotes := goput (height, view) (f reg) (hsViewVotes hs1)\<rparr>)"

definition registry_votes :: "engine \<Rightarrow> u64 \<Rightarrow> u64 \<Rightarrow> phase \<Rightarrow> bytes \<Rightarrow> (string, bool) gomap" where
  "registry_votes hs height view ph blockHash =
     (case goget (hsViewVotes hs) (height, view) of
        None \<Rightarrow> []
      | Some reg \<Rightarrow> votes_for reg ph (hexEncode blockHash))"

definition storeVoteSignature ::
    "u64 \<Rightarrow> u64 \<Rightarrow> phase \<Rightarrow> string \<Rightarrow> string \<Rightarrow> signature option \<Rightarrow> engine \<Rightarrow> engine" where
  "storeVoteSignature height view ph blockHash validatorAddr sig hs =
     (case sig of
        None \<Rightarrow> hs
      | Some s \<Rightarrow> update_registry height view (add_signature ph blockHash validatorAddr s) hs)"

definition createQC :: "u64 \<Rightarrow> u64 \<Rightarrow> phase \<Rightarrow> bytes \<Rightarrow> engine \<Rightarrow> engine \<times> qc" where
  "createQC height view ph blockHash hs =
     (let (hs1, reg) = getOrCreateVoteRegistry height view hs;
          sigs = inner (hexEncode blockHash) (inner ph (rgSignatures reg))
      in (hs1, \<lparr>qcHeight = height, qcView = view, qcPhase = ph, qcBlockHash = blockHash,
                qcSignatures = sigs, qcValidatorAddrs = map fst sigs\<rparr>))"

subsection \<open>Signed data\<close>

definition createProposalData :: "engine \<Rightarrow> bytes \<Rightarrow> bytes" where
  "createProposalData hs blockHash = be_u64 (hsChainID hs) @ blockHash"

definition createVoteData :: "engine \<Rightarrow> u64 \<Rightarrow> u64 \<Rightarrow> phase \<Rightarrow> bytes \<Rightarrow> bytes" where
  "createVoteData hs height view ph blockHash =
     be_u64 (hsChainID hs) @ be_u64 height @ be_u64 view @ [ph] @ blockHash"

definition createTimeoutData :: "engine \<Rightarrow> u64 \<Rightarrow> u64 \<Rightarrow> bytes" where
  "createTimeoutData hs height view = be_u64 (hsChainID hs) @ be_u64 height @ be_u64 view"

definition Signature_Bytes :: "signature \<Rightarrow> bytes" where
  "Signature_Bytes sig = be 32 (sigR sig) @ be 32 (sigS sig)"

definition encodeTimeoutPayload :: "engine \<Rightarrow> u64 \<Rightarrow> signature option \<Rightarrow> qc option \<Rightarrow> bytes option" where
  "encodeTimeoutPayload hs view sig highQC =
     (case sig of
        None \<Rightarrow> None
      | Some s \<Rightarrow> Some (be_u64 (hsHeight hs) @ be_u64 view @ Signature_Bytes s @
          (case highQC of None \<Rightarrow> [] | Some q \<Rightarrow> QC_Encode q)))"

definition prependHeightToPayload :: "bytes \<Rightarrow> u64 \<Rightarrow> bytes" where
  "prependHeightToPayload payload height = be_u64 height @ payload"

subsection \<open>Channels, timers, broadcasting\<close>

text \<open>A \<open>select\<close> with a \<open>default\<close> on a buffered channel drops the value when the buffer is full.\<close>

definition chan_send :: "nat \<Rightarrow> 'a list \<Rightarrow> 'a \<Rightarrow> 'a list" where
  "chan_send cap ch x = (if length ch < cap then ch @ [x] else ch)"

definition triggerPropose :: "engine \<Rightarrow> engine" where
  "triggerPropose hs = hs\<lparr>hsProposeCh := True\<rparr>"

definition doBroadcast :: "message \<Rightarrow> engine \<Rightarrow> engine" where
  "doBroadcast msg hs =
     (if Size (hsValidatorSet hs) > 1
      then hs\<lparr>hsOutbox := hsOutbox hs @ [msg], hsMessageCh := chan_send 1000 (hsMessageCh hs) msg\<rparr>
      else hs)"

definition startTimeout :: "engine \<Rightarrow> engine" where
  "startTimeout hs = hs\<lparr>hsTimer := ViewTimer (hsViewTimeout hs)\<rparr>"

text \<open>A panic in a loop is recovered by stopping the engine.\<close>

definition recoverPanic :: "engine \<Rightarrow> engine" where
  "recoverPanic hs = hs\<lparr>hsRunning := False\<rparr>"

definition isValidQC :: "engine \<Rightarrow> qc option \<Rightarrow> bool" where
  "isValidQC hs q = (case q of None \<Rightarrow> False | Some c \<Rightarrow> IsValid c (hsValidatorSet hs))"

definition IsLeader :: "env \<Rightarrow> engine \<Rightarrow> bool" where
  "IsLeader e hs =
     (case GetProposerForView (envSha256 e) (hsValidatorSet hs) (hsHeight hs) (hsView hs) of
        Inl _ \<Rightarrow> False
      | Inr p \<Rightarrow> envMe e = vAddress p)"

definition getValidatorAddresses :: "engine \<Rightarrow> bytes list" where
  "getValidatorAddresses hs = map vAddress (GetValidators (hsValidatorSet hs))"

text \<open>\<open>int64\<close> arithmetic on durations.\<close>

definition wrap64 :: "int \<Rightarrow> int" where
  "wrap64 x = sint (of_int x :: u64)"

end
