(* ===== verification/HotStuff_Engine.thy ===== *)
theory HotStuff_Engine
  imports HotStuff_State
begin

text \<open>
  The handlers of the consensus engine (\<open>internal/layer1/consensus/hotstuff.go\<close>): proposing,
  voting, certificates and decisions, view changes and timeouts, slashing, epochs and rewards, the
  entry point for messages and the turns of the engine's loops. Each handler takes the
  environment \<open>e\<close> of the call and the engine and returns the engine.
\<close>

subsection \<open>Self-checks\<close>

definition verifyInvariants :: "engine \<Rightarrow> string list" where
  "verifyInvariants hs =
     (if hsHeight hs = 0 then [''height_nonzero''] else []) @
     (if hsPhase hs > PhaseDecide then [''phase_valid''] else []) @
     (if hsCurHeight hs \<noteq> hsHeight hs then [''height_consistency''] else []) @
     (if hsCurView hs \<noteq> hsView hs then [''view_consistency''] else []) @
     (case hsPreparedQC hs of None \<Rightarrow> [] | Some p \<Rightarrow>
        if qcHeight p > hsHeight hs then [''preparedqc_height''] else []) @
     (case hsLockedQC hs of None \<Rightarrow> [] | Some l \<Rightarrow>
        if qcHeight l > hsHeight hs then [''lockedqc_height''] else []) @
     (case (hsPreparedQC hs, hsLockedQC hs) of
        (Some p, Some l) \<Rightarrow>
          if qcView p < qcView l \<and> qcHeight p \<le> qcHeight l then [''lock_ordering''] else []
      | _ \<Rightarrow> []) @
     (if hsTimeoutView hs < hsView hs then [''timeout_view''] else []) @
     (if list_ex (\<lambda>((h, v), reg). h > 0 \<and> h < hsHeight hs) (hsViewVotes hs) then [''stale_votes''] else []) @
     (if list_ex (\<lambda>(v, m). v < hsView hs) (hsTimeouts hs) then [''stale_timeouts''] else [])"

subsection \<open>Slashing, epochs, rewards\<close>

definition set_slashed :: "nat \<Rightarrow> u64 \<Rightarrow> detector \<Rightarrow> detector" where
  "set_slashed i amount d =
     d\<lparr>dtEvidence := (dtEvidence d)[i := (dtEvidence d ! i)\<lparr>dsSlashAmount := amount, dsIsSlashed := True\<rparr>]\<rparr>"

text \<open>Slash the offender of evidence \<open>i\<close>, mark the evidence, drop the offender from the set.\<close>

definition slash_evidence :: "env \<Rightarrow> nat \<Rightarrow> engine \<Rightarrow> engine" where
  "slash_evidence e i hs =
     (let ev = dtEvidence (hsDoubleSign hs) ! i in
      case Slash (hsStaking hs) (dsValidator ev) (envSlashNum e) (envNow e) of
        Inl _ \<Rightarrow> hs
      | Inr (amount, sm') \<Rightarrow>
          hs\<lparr>hsStaking := sm',
             hsDoubleSign := set_slashed i amount (MarkSlashed (hsDoubleSign hs) (dsValidator ev) (dsHeight ev)),
             hsValidatorSet := keep_on_error (hsValidatorSet hs)
               (RemoveValidator (hsValidatorSet hs) (dsValidator ev))\<rparr>)"

definition handleDoubleSign :: "env \<Rightarrow> nat \<Rightarrow> engine \<Rightarrow> engine" where
  "handleDoubleSign e i hs =
     (if dsIsSlashed (dtEvidence (hsDoubleSign hs) ! i) then hs else slash_evidence e i hs)"

definition applyEpochSlashing :: "env \<Rightarrow> engine \<Rightarrow> engine" where
  "applyEpochSlashing e hs =
     foldl (\<lambda>hs i. if dsIsSlashed (dtEvidence (hsDoubleSign hs) ! i) then hs else slash_evidence e i hs)
       hs [0 ..< length (GetEvidence (hsDoubleSign hs))]"

definition handleDowntimeSlash :: "env \<Rightarrow> bytes \<Rightarrow> engine \<Rightarrow> engine" where
  "handleDowntimeSlash e validator hs =
     (case sm_GetValidator (hsStaking hs) validator of
        None \<Rightarrow> hs
      | Some r \<Rightarrow>
          if \<not> srIsActive r \<or> srJailed r then hs
          else (case Slash (hsStaking hs) validator (envHalfSlashNum e) (envNow e) of
              Inl _ \<Rightarrow> hs
            | Inr (_, sm') \<Rightarrow> hs\<lparr>hsStaking := sm'\<rparr>))"

definition try_unjail :: "env \<Rightarrow> engine \<Rightarrow> stake_record \<Rightarrow> engine" where
  "try_unjail e hs r =
     (if \<not> srJailed r then hs
      else if envNow e > srJailedUntil r
      then hs\<lparr>hsStaking := staking_result (hsStaking hs) (Unjail (hsStaking hs) (srAddress r) (envNow e))\<rparr>
      else hs)"

definition processAutoUnjail :: "env \<Rightarrow> engine \<Rightarrow> engine" where
  "processAutoUnjail e hs =
     (let hs1 = foldl (try_unjail e) hs (GetActiveValidators (hsStaking hs))
      in foldl (try_unjail e) hs1 (GetInactiveValidators (hsStaking hs1)))"

definition validator_of_stake :: "stake_record \<Rightarrow> validator" where
  "validator_of_stake r = \<lparr>vAddress = srAddress r, vPublicKey = srPublicKey r, vStake = srStake r,
     vIsActive = True, vIsJailed = False, vJailedUntil = 0, vUnbondingAt = 0, vCommittedRounds = 0,
     vMissedVotes = 0\<rparr>"

text \<open>\<open>None\<close> is the division by a zero epoch length, which panics.\<close>

definition rotateEpoch :: "env \<Rightarrow> u64 \<Rightarrow> engine \<Rightarrow> engine option" where
  "rotateEpoch e height hs =
     (let hs1 = hs\<lparr>hsEpochStart := height + 1\<rparr>;
          active = GetActiveValidators (hsStaking hs1)
      in if length active < cfMinValidators (hsConfig hs1) then Some hs1
         else if cfEpochLength (hsConfig hs1) = 0 then None
         else
           let vs = NewValidatorSet (map validator_of_stake active) (height div cfEpochLength (hsConfig hs1) + 1);
               hs2 = applyEpochSlashing e (hs1\<lparr>hsValidatorSet := vs\<rparr>)
           in Some (hs2\<lparr>hsLiveness := lt_Reset (hsLiveness hs2)\<rparr>))"

definition distributeRewards :: "env \<Rightarrow> engine \<Rightarrow> engine" where
  "distributeRewards e hs =
     (if hsRewardPool hs = 0 then hs
      else
        let vals = GetValidators (hsValidatorSet hs) in
        if length vals = 0 then hs
        else
          let rewardPerValidator = hsRewardPool hs div length vals;
              sm = (if rewardPerValidator < 2 ^ 64
                    then foldl (\<lambda>sm v. staking_result sm
                           (Stake sm (vAddress v) (vPublicKey v) (of_nat rewardPerValidator) (envNow e)))
                         (hsStaking hs) vals
                    else hsStaking hs)
          in hs\<lparr>hsStaking := sm, hsRewardPool := 0\<rparr>)"

definition AddReward :: "u64 \<Rightarrow> engine \<Rightarrow> engine" where
  "AddReward amount hs = hs\<lparr>hsRewardPool := hsRewardPool hs + unat amount\<rparr>"

subsection \<open>Deciding a block\<close>

definition lock_conflict :: "engine \<Rightarrow> bytes \<Rightarrow> u64 \<Rightarrow> bool" where
  "lock_conflict hs blockHash height =
     (case hsLockedQC hs of
        None \<Rightarrow> False
      | Some l \<Rightarrow> qcBlockHash l \<noteq> [] \<and> qcHeight l = height \<and> blockHash \<noteq> qcBlockHash l)"

definition finalize_block :: "env \<Rightarrow> bytes \<Rightarrow> u64 \<Rightarrow> bytes list \<Rightarrow> engine \<Rightarrow> engine" where
  "finalize_block e blockHash height addrs hs =
     hs\<lparr>hsFinality := foldl (\<lambda>fg a. fst (AddVote (envRequired e) fg height a))
          (CreateCheckpoint (hsFinality hs) height blockHash addrs (envNow e)) addrs\<rparr>"

text \<open>The next height: reset the view state, then propose or wait.\<close>

definition enter_height :: "env \<Rightarrow> engine \<Rightarrow> engine" where
  "enter_height e hs =
     (let h = hsHeight hs + 1;
          hs1 = hs\<lparr>hsState := (hsState hs)\<lparr>csHeight := h, csView := 0, csPhase := PhasePrepare,
                     csStartTime := envNow e\<rparr>,
                   hsCurHeight := h, hsCurView := 0,
                   hsViewVotes := [], hsVotesOrder := [],
                   hsTimeouts := [], hsTimeoutSignatures := [], hsTimeoutHighQCs := [],
                   hsViewTimeout := cfViewTimeout (hsConfig hs)\<rparr>
      in case GetProposer (envSha256 e) (hsValidatorSet hs1) h of
           Inl _ \<Rightarrow> (if Size (hsValidatorSet hs1) = 1
             then hs1\<lparr>hsTimer := ProposeTimer (cfViewTimeout (hsConfig hs1))\<rparr> else startTimeout hs1)
         | Inr p \<Rightarrow>
             if length (vAddress p) < 8 then recoverPanic hs1
             else if Size (hsValidatorSet hs1) = 1
             then hs1\<lparr>hsTimer := ProposeTimer (cfViewTimeout (hsConfig hs1))\<rparr>
             else startTimeout (if envMe e = vAddress p then triggerPropose hs1 else hs1))"

definition mark_decided :: "bytes \<Rightarrow> u64 \<Rightarrow> engine \<Rightarrow> engine" where
  "mark_decided blockHash height hs =
     hs\<lparr>hsState := (hsState hs)\<lparr>csPhase := PhaseDecide, csDecidedHash := blockHash\<rparr>,
        hsPendingBlocks := godel height (hsPendingBlocks hs)\<rparr>"

text \<open>\<open>rotateEpoch\<close> if the epoch is over; a panic in it stops the engine.\<close>

definition maybe_rotate :: "env \<Rightarrow> u64 \<Rightarrow> engine \<Rightarrow> engine option" where
  "maybe_rotate e height hs =
     (if height \<ge> hsEpochStart hs + cfEpochLength (hsConfig hs) then rotateEpoch e height hs else Some hs)"

text \<open>What follows a successful \<open>CommitBlock\<close>.\<close>

definition after_commit :: "env \<Rightarrow> bytes \<Rightarrow> u64 \<Rightarrow> engine \<Rightarrow> engine" where
  "after_commit e blockHash height hs =
     (let addrs = getValidatorAddresses hs;
          hs2 = finalize_block e blockHash height addrs (hs\<lparr>hsCommits := hsCommits hs @ [(height, blockHash)]\<rparr>)
      in case maybe_rotate e height hs2 of
           None \<Rightarrow> recoverPanic (hs2\<lparr>hsEpochStart := height + 1\<rparr>)
         | Some hs3 \<Rightarrow>
             let hs4 = distributeRewards e hs3;
                 hs5 = hs4\<lparr>hsStateStore := Save (hsStateStore hs4) (hsState hs4) addrs (envNow e)\<rparr>
             in if hsHeight hs5 \<noteq> height then hs5 else enter_height e hs5)"

definition decide :: "env \<Rightarrow> bytes \<Rightarrow> u64 \<Rightarrow> engine \<Rightarrow> engine" where
  "decide e blockHash height hs =
     (if lock_conflict hs blockHash height then hs
      else let hs1 = mark_decided blockHash height hs in
           if \<not> envCommitBlock e blockHash height then hs1
           else after_commit e blockHash height hs1)"

subsection \<open>Changing the view\<close>

definition updateView :: "u64 \<Rightarrow> engine \<Rightarrow> engine" where
  "updateView newView hs =
     (let t = wrap64 (cfViewTimeout (hsConfig hs) + wrap64 (cfTimeoutIncrease (hsConfig hs) * sint newView));
          hs1 = hs\<lparr>hsState := (hsState hs)\<lparr>csView := newView, csPhase := PhasePrepare\<rparr>,
                   hsCurView := newView,
                   hsViewTimeout := (if t > cfMaxViewTimeout (hsConfig hs) then cfMaxViewTimeout (hsConfig hs) else t),
                   hsViewVotes := [],
                   hsPendingBlocks := godel (hsHeight hs) (hsPendingBlocks hs)\<rparr>
      in if Size (hsValidatorSet hs1) > 1 then startTimeout hs1 else hs1)"

definition propose_if_leader :: "env \<Rightarrow> engine \<Rightarrow> engine" where
  "propose_if_leader e hs =
     (if IsLeader e hs \<and> hsPhase hs = PhasePrepare then triggerPropose hs else hs)"

definition delete_timeouts :: "u64 \<Rightarrow> engine \<Rightarrow> engine" where
  "delete_timeouts v hs = hs\<lparr>hsTimeouts := godel v (hsTimeouts hs),
     hsTimeoutSignatures := godel v (hsTimeoutSignatures hs),
     hsTimeoutHighQCs := godel v (hsTimeoutHighQCs hs)\<rparr>"

definition trimTimeouts :: "engine \<Rightarrow> engine" where
  "trimTimeouts hs =
     (let n = length (hsTimeoutsOrder hs) - 2048 in
      foldl (\<lambda>hs v. delete_timeouts v hs)
        (hs\<lparr>hsTimeoutsOrder := drop n (hsTimeoutsOrder hs)\<rparr>) (take n (hsTimeoutsOrder hs)))"

text \<open>The best certificate among those sent with the timeouts of a view.\<close>

definition better_qc :: "qc option \<Rightarrow> qc option \<Rightarrow> qc option" where
  "better_qc best q =
     (case q of
        None \<Rightarrow> best
      | Some c \<Rightarrow> (case best of None \<Rightarrow> Some c | Some b \<Rightarrow> if qcView c > qcView b then Some c else best))"

definition best_high_qc :: "engine \<Rightarrow> u64 \<Rightarrow> qc option" where
  "best_high_qc hs newView =
     foldl (\<lambda>best (addr, sig). better_qc best
         (case goget (inner newView (hsTimeoutHighQCs hs)) addr of None \<Rightarrow> None | Some q \<Rightarrow> q))
       None (inner newView (hsTimeoutSignatures hs))"

definition createNewViewAndBroadcast :: "env \<Rightarrow> u64 \<Rightarrow> engine \<Rightarrow> engine" where
  "createNewViewAndBroadcast e newView hs =
     (if newView \<le> hsView hs then hs
      else
        let best = best_high_qc hs newView;
            tc = \<lparr>tcHeight = hsHeight hs, tcView = newView, tcTimeouts = inner newView (hsTimeouts hs),
                  tcSignatures = inner newView (hsTimeoutSignatures hs),
                  tcTotalStake = totalStake (hsValidatorSet hs), tcHighQC = best\<rparr>;
            payload = envMarshalTC e tc;
            msg = \<lparr>mType = MsgNewView, mHeight = hsHeight hs, mView = newView, mBlockHash = [],
                   mValidator = Some (envMe e), mSignature = envSign e payload, mJustifyQC = best,
                   mPayload = Some payload, mTimestamp = envNow e\<rparr>
        in delete_timeouts newView (doBroadcast msg hs))"

fun tc_signed_stake ::
    "env \<Rightarrow> engine \<Rightarrow> bytes \<Rightarrow> u64 \<Rightarrow> (string, signature) gomap \<Rightarrow> u64 option" where
  "tc_signed_stake e hs timeoutData acc [] = Some acc"
| "tc_signed_stake e hs timeoutData acc ((addrStr, sig) # rest) =
     (case hexDecode addrStr of
        Inl _ \<Rightarrow> None
      | Inr addrBytes \<Rightarrow>
          (case GetValidator (hsValidatorSet hs) addrBytes of
             None \<Rightarrow> None
           | Some v \<Rightarrow>
               if \<not> envVerify e (vPublicKey v) timeoutData sig then None
               else tc_signed_stake e hs timeoutData (acc + vStake v) rest))"

definition validateTimeoutCert :: "env \<Rightarrow> engine \<Rightarrow> timeout_cert \<Rightarrow> bool" where
  "validateTimeoutCert e hs tc =
     (if tcHeight tc \<noteq> hsHeight hs then False
      else if length (tcSignatures tc) = 0 then False
      else case tc_signed_stake e hs (createTimeoutData hs (tcHeight tc) (tcView tc)) 0 (tcSignatures tc) of
          None \<Rightarrow> False
        | Some signedStake \<Rightarrow> signedStake * 3 > totalStake (hsValidatorSet hs) * 2)"

definition record_timeout ::
    "u64 \<Rightarrow> string \<Rightarrow> signature \<Rightarrow> qc option \<Rightarrow> engine \<Rightarrow> engine" where
  "record_timeout v addr sig highQC hs =
     hs\<lparr>hsTimeouts := goput v (goput addr True (inner v (hsTimeouts hs))) (hsTimeouts hs),
        hsTimeoutSignatures := goput v (goput addr sig (inner v (hsTimeoutSignatures hs))) (hsTimeoutSignatures hs),
        hsTimeoutHighQCs := goput v (goput addr highQC (inner v (hsTimeoutHighQCs hs))) (hsTimeoutHighQCs hs)\<rparr>"

text \<open>The maps of a view are created on first use, even if the timeout then turns out a repeat.\<close>

definition open_timeouts :: "u64 \<Rightarrow> engine \<Rightarrow> engine" where
  "open_timeouts v hs =
     hs\<lparr>hsTimeoutsOrder := (if goget (hsTimeouts hs) v = None then hsTimeoutsOrder hs @ [v] else hsTimeoutsOrder hs),
        hsTimeouts := goput v (inner v (hsTimeouts hs)) (hsTimeouts hs),
        hsTimeoutSignatures := goput v (inner v (hsTimeoutSignatures hs)) (hsTimeoutSignatures hs),
        hsTimeoutHighQCs := goput v (inner v (hsTimeoutHighQCs hs)) (hsTimeoutHighQCs hs)\<rparr>"

text \<open>A timeout that passed the checks and is new: count it, and change the view.\<close>

definition count_timeout :: "env \<Rightarrow> message \<Rightarrow> signature \<Rightarrow> engine \<Rightarrow> engine" where
  "count_timeout e msg sig hs =
     (let hs2 = record_timeout (mView msg) (hexEncode (mSender msg)) sig (mJustifyQC msg) hs;
          hs3 = hs2\<lparr>hsLiveness := RecordActivity (hsLiveness hs2) (mSender msg) (mHeight msg)\<rparr>;
          hs4 = (if HasSuperMajority (hsValidatorSet hs3) (inner (mView msg) (hsTimeouts hs3))
                 then createNewViewAndBroadcast e (mView msg) hs3 else hs3);
          hs5 = (trimTimeouts hs4)\<lparr>hsTimeoutView := mView msg\<rparr>
      in if mView msg > hsView hs5 then propose_if_leader e (updateView (mView msg) hs5) else hs5)"

definition handleTimeout :: "env \<Rightarrow> message \<Rightarrow> engine \<Rightarrow> engine" where
  "handleTimeout e msg hs =
     (if mView msg < hsView hs then hs
      else case mSignature msg of None \<Rightarrow> hs | Some sig \<Rightarrow>
      (case GetValidator (hsValidatorSet hs) (mSender msg) of None \<Rightarrow> hs | Some v \<Rightarrow>
       if \<not> envVerify e (vPublicKey v) (createTimeoutData hs (mHeight msg) (mView msg)) sig then hs
       else if mJustifyQC msg \<noteq> None \<and> \<not> isValidQC hs (mJustifyQC msg) then hs
       else
         let hs1 = open_timeouts (mView msg) hs in
         if goget (inner (mView msg) (hsTimeouts hs1)) (hexEncode (mSender msg)) = Some True then hs1
         else count_timeout e msg sig hs1))"

text \<open>The certificate a new-view message carries, and the lock it leads to.\<close>

definition adopt_new_view_qc :: "env \<Rightarrow> message \<Rightarrow> engine \<Rightarrow> engine option" where
  "adopt_new_view_qc e msg hs =
     (if slice (mPayload msg) \<noteq> [] then
        (case envUnmarshalTC e (slice (mPayload msg)) of None \<Rightarrow> None | Some tc \<Rightarrow>
         if tcView tc \<noteq> mView msg then None
         else if tcHeight tc \<noteq> mHeight msg then None
         else if \<not> validateTimeoutCert e hs tc then None
         else if tcHighQC tc \<noteq> None \<and> \<not> isValidQC hs (tcHighQC tc) then None
         else Some (case tcHighQC tc of None \<Rightarrow> hs | Some q \<Rightarrow> lock_if_newer q hs))
      else if \<not> isValidQC hs (mJustifyQC msg) then None else Some hs)"

definition drop_old_timeouts :: "u64 \<Rightarrow> engine \<Rightarrow> engine" where
  "drop_old_timeouts v hs =
     foldl (\<lambda>hs w. if w < v then delete_timeouts w hs else hs) hs (map fst (hsTimeouts hs))"

definition handleNewView :: "env \<Rightarrow> message \<Rightarrow> engine \<Rightarrow> engine" where
  "handleNewView e msg hs =
     (if mJustifyQC msg = None \<and> mPayload msg = None then hs
      else if mSignature msg = None then hs
      else case adopt_new_view_qc e msg hs of
          None \<Rightarrow> hs
        | Some hs1 \<Rightarrow>
            let hs2 = (case mJustifyQC msg of None \<Rightarrow> hs1 | Some q \<Rightarrow> lock_if_newer q hs1);
                hs3 = drop_old_timeouts (mView msg) (updateView (mView msg) hs2)
            in propose_if_leader e hs3)"

end
