(* ===== verification/HotStuff_Handlers.thy ===== *)
theory HotStuff_Handlers
  imports HotStuff_Engine
begin

text \<open>
  Proposals, votes and the message dispatch of the consensus engine
  (\<open>internal/layer1/consensus/hotstuff.go\<close>), and the turns of its goroutines as events.

  A slice expression such as \<open>msg.Validator[:8]\<close> panics on a slice with fewer than eight bytes
  (slices are taken with capacity equal to their length); the loop's \<open>recoverPanic\<close> then stops
  the engine.
\<close>

subsection \<open>Voting\<close>

definition record_vote :: "u64 \<Rightarrow> u64 \<Rightarrow> phase \<Rightarrow> bytes \<Rightarrow> bytes \<Rightarrow> engine \<Rightarrow> engine" where
  "record_vote height view ph blockHash addr hs =
     update_registry height view (add_vote ph (hexEncode blockHash) (hexEncode addr)) hs"

text \<open>The engine's own vote: it also marks \<open>MyVotes\<close>.\<close>

definition record_my_vote :: "env \<Rightarrow> u64 \<Rightarrow> u64 \<Rightarrow> phase \<Rightarrow> bytes \<Rightarrow> engine \<Rightarrow> engine" where
  "record_my_vote e height view ph blockHash hs =
     update_registry height view
       (\<lambda>reg. set_my_vote ph blockHash (add_vote ph (hexEncode blockHash) (hexEncode (envMe e)) reg)) hs"

definition sign_vote :: "env \<Rightarrow> u64 \<Rightarrow> u64 \<Rightarrow> phase \<Rightarrow> bytes \<Rightarrow> engine \<Rightarrow> engine" where
  "sign_vote e height view ph blockHash hs =
     storeVoteSignature height view ph (hexEncode blockHash) (hexEncode (envMe e))
       (envSign e (createVoteData hs height view ph blockHash)) hs"

definition has_quorum :: "engine \<Rightarrow> u64 \<Rightarrow> u64 \<Rightarrow> phase \<Rightarrow> bytes \<Rightarrow> bool" where
  "has_quorum hs height view ph blockHash =
     HasSuperMajority (hsValidatorSet hs) (registry_votes hs height view ph blockHash)"

definition vote_message ::
    "env \<Rightarrow> message_type \<Rightarrow> u64 \<Rightarrow> u64 \<Rightarrow> bytes \<Rightarrow> signature option \<Rightarrow> message" where
  "vote_message e ty height view blockHash sig =
     \<lparr>mType = ty, mHeight = height, mView = view, mBlockHash = blockHash, mValidator = Some (envMe e),
      mSignature = sig, mJustifyQC = None, mPayload = None, mTimestamp = envNow e\<rparr>"

text \<open>A prepare certificate from the collected signatures becomes the prepared and locked one.\<close>

definition prepare_certificate :: "u64 \<Rightarrow> u64 \<Rightarrow> bytes \<Rightarrow> engine \<Rightarrow> engine" where
  "prepare_certificate height view blockHash hs =
     (let (hs1, q) = createQC height view PhasePrepare blockHash hs
      in lock_if_not_older q (setPreparedQC (Some q) hs1))"

text \<open>\<open>selfVote\<close>: first the proposer's own prepare vote, broadcast when it can be signed.\<close>

definition self_prepare :: "env \<Rightarrow> bytes \<Rightarrow> u64 \<Rightarrow> u64 \<Rightarrow> engine \<Rightarrow> engine" where
  "self_prepare e blockHash height view hs =
     (let hs1 = record_my_vote e height view PhasePrepare blockHash hs;
          hs2 = hs1\<lparr>hsLiveness := RecordActivity (hsLiveness hs1) (envMe e) height\<rparr>
      in case envSign e (createVoteData hs2 height view PhasePrepare blockHash) of
           None \<Rightarrow> hs2
         | Some s \<Rightarrow> doBroadcast (vote_message e MsgVotePrepare height view blockHash (Some s))
             (storeVoteSignature height view PhasePrepare (hexEncode blockHash) (hexEncode (envMe e)) (Some s) hs2))"

text \<open>Then its votes of the later phases, which it only records.\<close>

definition self_phase_vote :: "env \<Rightarrow> bytes \<Rightarrow> u64 \<Rightarrow> u64 \<Rightarrow> phase \<Rightarrow> engine \<Rightarrow> engine" where
  "self_phase_vote e blockHash height view ph hs =
     sign_vote e height view ph blockHash (record_my_vote e height view ph blockHash (setPhase ph hs))"

definition selfVote :: "env \<Rightarrow> bytes \<Rightarrow> u64 \<Rightarrow> u64 \<Rightarrow> engine \<Rightarrow> engine" where
  "selfVote e blockHash height view hs =
     (let hs3 = self_prepare e blockHash height view hs in
      if \<not> has_quorum hs3 height view PhasePrepare blockHash then hs3
      else
        let hs5 = self_phase_vote e blockHash height view PhasePreCommit
              (prepare_certificate height view blockHash hs3) in
        if \<not> has_quorum hs5 height view PhasePreCommit blockHash then hs5
        else
          let hs6 = self_phase_vote e blockHash height view PhaseCommit hs5 in
          if \<not> has_quorum hs6 height view PhaseCommit blockHash then hs6
          else decide e blockHash height hs6)"

definition advancePhase :: "env \<Rightarrow> phase \<Rightarrow> engine \<Rightarrow> engine" where
  "advancePhase e ph hs =
     (case hsPreparedQC hs of
        None \<Rightarrow> hs
      | Some pq \<Rightarrow>
          let hs1 = startTimeout (setPhase ph hs);
              blockHash = qcBlockHash pq
          in if ph \<noteq> PhasePreCommit \<and> ph \<noteq> PhaseCommit then hs1
             else
               let ty = (if ph = PhasePreCommit then MsgVotePreCommit else MsgVoteCommit);
                   sig = envSign e (createVoteData hs1 (hsHeight hs1) (hsView hs1) ph blockHash);
                   hs2 = doBroadcast (vote_message e ty (hsHeight hs1) (hsView hs1) blockHash sig) hs1;
                   hs3 = record_my_vote e (hsHeight hs2) (hsView hs2) ph blockHash hs2
               in storeVoteSignature (hsHeight hs3) (hsView hs3) ph (hexEncode blockHash)
                    (hexEncode (envMe e)) sig hs3)"

definition trimVotes :: "engine \<Rightarrow> engine" where
  "trimVotes hs =
     (let n = length (hsVotesOrder hs) - 2048;
          hs1 = hs\<lparr>hsVotesOrder := drop n (hsVotesOrder hs),
                   hsViewVotes := foldl (\<lambda>m k. godel k m) (hsViewVotes hs) (take n (hsVotesOrder hs))\<rparr>
      in if hsHeight hs > 10 then
           let pruneBelow = hsHeight hs - 10 in
           hs1\<lparr>hsViewVotes := foldl (\<lambda>m k. godel k m) (hsViewVotes hs1)
                 (filter (\<lambda>(h, v). h < pruneBelow) (hsVotesOrder hs1)),
               hsVotesOrder := filter (\<lambda>(h, v). \<not> h < pruneBelow) (hsVotesOrder hs1)\<rparr>
         else hs1)"

text \<open>What a certificate of a phase leads to.\<close>

definition act_on_quorum :: "env \<Rightarrow> message \<Rightarrow> phase \<Rightarrow> engine \<Rightarrow> engine" where
  "act_on_quorum e msg ph hs =
     (let (hs1, q) = createQC (mHeight msg) (mView msg) ph (mBlockHash msg) hs
      in if ph = PhasePrepare
         then advancePhase e PhasePreCommit (lock_if_not_older q (setPreparedQC (Some q) hs1))
         else if ph = PhasePreCommit then advancePhase e PhaseCommit hs1
         else if ph = PhaseCommit then decide e (mBlockHash msg) (mHeight msg) hs1
         else hs1)"

definition vote_signature_ok :: "env \<Rightarrow> message \<Rightarrow> phase \<Rightarrow> engine \<Rightarrow> bool" where
  "vote_signature_ok e msg ph hs =
     (case mSignature msg of
        None \<Rightarrow> True
      | Some sig \<Rightarrow>
          (case GetValidator (hsValidatorSet hs) (mSender msg) of
             None \<Rightarrow> False
           | Some v \<Rightarrow> envVerify e (vPublicKey v)
               (createVoteData hs (mHeight msg) (mView msg) ph (mBlockHash msg)) sig))"

text \<open>A vote that passed the checks: record it and see whether it completes a quorum.\<close>

definition count_vote :: "message \<Rightarrow> phase \<Rightarrow> engine \<Rightarrow> engine" where
  "count_vote msg ph hs =
     (let hs1 = record_vote (mHeight msg) (mView msg) ph (mBlockHash msg) (mSender msg) hs;
          hs2 = storeVoteSignature (mHeight msg) (mView msg) ph (hexEncode (mBlockHash msg))
            (hexEncode (mSender msg)) (mSignature msg) hs1
      in hs2\<lparr>hsLiveness := RecordActivity (hsLiveness hs2) (mSender msg) (mHeight msg)\<rparr>)"

definition handleVote :: "env \<Rightarrow> message \<Rightarrow> phase \<Rightarrow> engine \<Rightarrow> engine" where
  "handleVote e msg ph hs =
     (if \<not> vote_signature_ok e msg ph hs then hs
      else
        case CheckVote (envOrder e) (hsDoubleSign hs) (mSender msg) (mHeight msg) (mView msg) ph
               (mBlockHash msg) (envNow e) of
          (d, Some i) \<Rightarrow> handleDoubleSign e i (hs\<lparr>hsDoubleSign := d\<rparr>)
        | (d, None) \<Rightarrow>
            let hs1 = count_vote msg ph (hs\<lparr>hsDoubleSign := d\<rparr>)
            in trimVotes
                (if has_quorum hs1 (mHeight msg) (mView msg) ph (mBlockHash msg)
                 then act_on_quorum e msg ph hs1
                 else if ph = PhasePrepare \<and> mView msg = hsView hs1 then startTimeout hs1
                 else hs1))"

subsection \<open>Proposing\<close>

datatype propose_error = ProposerUnknown | CreateBlockFailed | SignFailed | DoubleSignDetected

definition proposal_message :: "env \<Rightarrow> bytes \<Rightarrow> bytes \<Rightarrow> bytes \<Rightarrow> signature \<Rightarrow> engine \<Rightarrow> message" where
  "proposal_message e proposer blockData blockHash sig hs =
     \<lparr>mType = MsgProposal, mHeight = hsHeight hs, mView = hsView hs, mBlockHash = blockHash,
      mValidator = Some proposer, mSignature = Some sig,
      mJustifyQC = (case hsLockedQC hs of
          None \<Rightarrow> None
        | Some q \<Rightarrow> if length (qcSignatures q) = 0 then None else Some q),
      mPayload = Some blockData, mTimestamp = envNow e\<rparr>"

definition after_proposal :: "engine \<Rightarrow> engine" where
  "after_proposal hs =
     (let hs1 = (if hsPhase hs \<noteq> PhaseDecide then setPhase PhasePrepare hs else hs)
      in if Size (hsValidatorSet hs1) > 1 then startTimeout hs1 else hs1)"

text \<open>After the block is made and signed: broadcast it, vote for it, restart the timer.\<close>

definition send_proposal :: "env \<Rightarrow> bytes \<Rightarrow> bytes \<Rightarrow> bytes \<Rightarrow> signature \<Rightarrow> engine \<Rightarrow> engine" where
  "send_proposal e proposer blockData blockHash sig hs =
     after_proposal (selfVote e blockHash (hsHeight hs) (hsView hs)
       (doBroadcast (proposal_message e proposer blockData blockHash sig hs) hs))"

definition proposeLocked :: "env \<Rightarrow> engine \<Rightarrow> engine \<times> propose_error option" where
  "proposeLocked e hs =
     (if hsPhase hs \<noteq> PhasePrepare then (hs, None)
      else if goget (hsPendingBlocks hs) (hsHeight hs) \<noteq> None then (hs, None)
      else if length (GetActiveValidators (hsStaking hs)) < cfMinValidators (hsConfig hs) then (hs, None)
      else case GetProposerForView (envSha256 e) (hsValidatorSet hs) (hsHeight hs) (hsView hs) of
          Inl _ \<Rightarrow> (hs, Some ProposerUnknown)
        | Inr proposer \<Rightarrow>
      if envMe e \<noteq> vAddress proposer then (hs, None)
      else case envCreateBlock e (vAddress proposer) (hsHeight hs) of
          None \<Rightarrow> (hs, Some CreateBlockFailed)
        | Some (blockData, blockHash) \<Rightarrow>
      let hs1 = hs\<lparr>hsPendingBlocks := goput (hsHeight hs)
            \<lparr>pbHash = blockHash, pbProposer = vAddress proposer, pbPayload = blockData\<rparr> (hsPendingBlocks hs)\<rparr>
      in case envSign e (createProposalData hs1 blockHash) of
          None \<Rightarrow> (hs1, Some SignFailed)
        | Some sig \<Rightarrow>
      (case CheckProposal (envOrder e) (hsDoubleSign hs1) (vAddress proposer) (hsHeight hs1) (hsView hs1)
              blockHash (envNow e) of
         (d, Some i) \<Rightarrow> (handleDoubleSign e i (hs1\<lparr>hsDoubleSign := d\<rparr>), Some DoubleSignDetected)
       | (d, None) \<Rightarrow>
           (send_proposal e (vAddress proposer) blockData blockHash sig (hs1\<lparr>hsDoubleSign := d\<rparr>), None)))"

text \<open>The part of \<open>handleProposal\<close> after all checks: vote, and certify if that completes a quorum.\<close>

definition accept_proposal :: "env \<Rightarrow> message \<Rightarrow> signature \<Rightarrow> engine \<Rightarrow> engine" where
  "accept_proposal e msg sig hs =
     (let hs1 = doBroadcast (vote_message e MsgVotePrepare (mHeight msg) (mView msg) (mBlockHash msg) (Some sig)) hs;
          hs2 = record_my_vote e (mHeight msg) (mView msg) PhasePrepare (mBlockHash msg) hs1;
          hs3 = storeVoteSignature (mHeight msg) (mView msg) PhasePrepare (hexEncode (mBlockHash msg))
            (hexEncode (envMe e)) (Some sig) hs2;
          hs4 = hs3\<lparr>hsLiveness := RecordActivity (hsLiveness hs3) (envMe e) (mHeight msg)\<rparr>;
          hs5 = (if has_quorum hs4 (mHeight msg) (mView msg) PhasePrepare (mBlockHash msg)
                 then prepare_certificate (mHeight msg) (mView msg) (mBlockHash msg) hs4 else hs4)
      in setPhase PhasePreCommit (startTimeout hs5))"

definition add_pending :: "message \<Rightarrow> engine \<Rightarrow> engine" where
  "add_pending msg hs =
     (if goget (hsPendingBlocks hs) (mHeight msg) \<noteq> None then hs
      else hs\<lparr>hsPendingBlocks := goput (mHeight msg)
        \<lparr>pbHash = mBlockHash msg, pbProposer = mSender msg, pbPayload = slice (mPayload msg)\<rparr> (hsPendingBlocks hs)\<rparr>)"

definition proposal_signature_ok :: "env \<Rightarrow> bytes \<Rightarrow> message \<Rightarrow> engine \<Rightarrow> bool" where
  "proposal_signature_ok e publicKey msg hs =
     (case mSignature msg of
        None \<Rightarrow> True
      | Some sig \<Rightarrow> envVerify e publicKey (createProposalData hs (mBlockHash msg)) sig)"

text \<open>From the validated block on: remember it, and vote for it unless a vote was cast already.\<close>

definition vote_for_block :: "env \<Rightarrow> message \<Rightarrow> engine \<Rightarrow> engine" where
  "vote_for_block e msg hs =
     (let (hs1, reg) = getOrCreateVoteRegistry (mHeight msg) (mView msg) (add_pending msg hs) in
      if goget (rgMyVotes reg) PhasePrepare \<noteq> None then hs1
      else case envSign e (createVoteData hs1 (mHeight msg) (mView msg) PhasePrepare (mBlockHash msg)) of
          None \<Rightarrow> hs1
        | Some sig \<Rightarrow> accept_proposal e msg sig hs1)"

text \<open>From the justification on: adopt a newer certificate as lock and validate the block.\<close>

definition judge_proposal :: "env \<Rightarrow> message \<Rightarrow> engine \<Rightarrow> engine" where
  "judge_proposal e msg hs =
     (if mJustifyQC msg \<noteq> None \<and> \<not> isValidQC hs (mJustifyQC msg) then hs
      else
        let hs1 = (case mJustifyQC msg of None \<Rightarrow> hs | Some q \<Rightarrow> lock_if_newer q hs) in
        if \<not> envValidateBlock e (slice (mPayload msg)) (mBlockHash msg) (mHeight msg) then hs1
        else vote_for_block e msg hs1)"

definition handleProposal :: "env \<Rightarrow> message \<Rightarrow> engine \<Rightarrow> engine" where
  "handleProposal e msg hs =
     (if hsPhase hs \<noteq> PhasePrepare then hs
      else case GetProposerForView (envSha256 e) (hsValidatorSet hs) (hsHeight hs) (hsView hs) of
          Inl _ \<Rightarrow> hs
        | Inr proposer \<Rightarrow>
      if mSender msg \<noteq> vAddress proposer then
        (if length (mSender msg) < 8 \<or> length (vAddress proposer) < 8 then recoverPanic hs else hs)
      else if \<not> proposal_signature_ok e (vPublicKey proposer) msg hs then hs
      else case CheckProposal (envOrder e) (hsDoubleSign hs) (mSender msg) (mHeight msg) (mView msg)
             (mBlockHash msg) (envNow e) of
          (d, Some i) \<Rightarrow> handleDoubleSign e i (hs\<lparr>hsDoubleSign := d\<rparr>)
        | (d, None) \<Rightarrow> judge_proposal e msg (hs\<lparr>hsDoubleSign := d\<rparr>))"

subsection \<open>Synchronisation traffic\<close>

definition block_request_message :: "env \<Rightarrow> u64 \<Rightarrow> u64 \<Rightarrow> message" where
  "block_request_message e from_height to_height =
     \<lparr>mType = MsgBlockRequest, mHeight = from_height, mView = to_height, mBlockHash = [],
      mValidator = None, mSignature = None, mJustifyQC = None,
      mPayload = Some (SerializeBlockRequest from_height to_height), mTimestamp = envNow e\<rparr>"

definition send_request :: "env \<Rightarrow> (u64 \<times> u64) option \<Rightarrow> engine \<Rightarrow> engine" where
  "send_request e req hs =
     (case req of
        None \<Rightarrow> hs
      | Some (lo, hi) \<Rightarrow> hs\<lparr>hsOutbox := hsOutbox hs @ [block_request_message e lo hi]\<rparr>)"

definition start_sync :: "env \<Rightarrow> u64 \<Rightarrow> engine \<Rightarrow> engine" where
  "start_sync e target hs =
     (let (ss, req) = StartSync (hsSyncer hs) (hsCurHeight hs) target (envNow e)
      in send_request e req (hs\<lparr>hsSyncer := ss\<rparr>))"

text \<open>
  One turn of \<open>applyLoop\<close>: commit, and move past the height if the engine is not beyond it. The
  applier hands a request to the loop and waits for the answer. In the model this is one step: the
  answer is in time, or, for a stopped engine and for a timeout as for a refusal, there is an error
  and no commit. A block committed after its request has timed out is not modelled.
\<close>

definition apply_request :: "env \<Rightarrow> bytes \<Rightarrow> u64 \<Rightarrow> engine \<Rightarrow> engine \<times> bool" where
  "apply_request e blockHash height hs =
     (if \<not> envCommitBlock e blockHash height then (hs, False)
      else
        let hs1 = hs\<lparr>hsCommits := hsCommits hs @ [(height, blockHash)]\<rparr> in
        if height \<ge> hsHeight hs1
        then (hs1\<lparr>hsState := (hsState hs1)\<lparr>csHeight := height + 1, csView := 0, csPhase := PhasePrepare\<rparr>,
                  hsCurHeight := height + 1, hsCurView := 0\<rparr>, True)
        else (hs1, True))"

definition defaultBlockApplier :: "env \<Rightarrow> engine \<Rightarrow> bytes \<Rightarrow> engine \<times> bool" where
  "defaultBlockApplier e hs blockData =
     (if length blockData < 8 then (hs, False)
      else
        let height = (of_nat (unbe (take 8 blockData)) :: u64);
            payload = drop 8 blockData
        in if height \<le> envChainHeight e (hsCommits hs) then (hs, True)
           else case envBlockHash e payload of
               None \<Rightarrow> (hs, False)
             | Some blockHash \<Rightarrow>
                 if \<not> envValidateBlock e payload blockHash height then (hs, False)
                 else apply_request e blockHash height hs)"

definition receive_block :: "env \<Rightarrow> bytes \<Rightarrow> engine \<Rightarrow> engine" where
  "receive_block e blockData hs =
     (case ReceiveBlock (defaultBlockApplier e) (hsSyncer hs) hs blockData (envNow e) of
        (ss, hs', _) \<Rightarrow> hs'\<lparr>hsSyncer := ss\<rparr>)"

text \<open>
  Answering a block request: one response per known height of the range. \<open>respond_loop\<close> is the loop
  \<open>for h := from; h <= to; h++\<close> with a bound on its turns, \<open>None\<close> if they do not suffice; \<open>h\<close> wraps,
  so that for the largest \<open>to\<close> no bound does. \<open>respond_blocks\<close> are the responses to the heights of
  the range, which are those of the loop when it ends.
\<close>

definition block_response :: "env \<Rightarrow> u64 \<Rightarrow> message list" where
  "block_response e h =
     (case envGetBlockData e h of
        None \<Rightarrow> []
      | Some blockData \<Rightarrow>
          [\<lparr>mType = MsgBlockResponse, mHeight = h, mView = 0, mBlockHash = [], mValidator = None,
            mSignature = None, mJustifyQC = None, mPayload = Some blockData, mTimestamp = envNow e\<rparr>])"

fun respond_loop :: "env \<Rightarrow> nat \<Rightarrow> u64 \<Rightarrow> u64 \<Rightarrow> message list option" where
  "respond_loop e 0 h to_height = None"
| "respond_loop e (Suc n) h to_height =
     (if h \<le> to_height
      then map_option ((@) (block_response e h)) (respond_loop e n (h + 1) to_height)
      else Some [])"

definition respond_blocks :: "env \<Rightarrow> u64 \<Rightarrow> u64 \<Rightarrow> message list" where
  "respond_blocks e from_height to_height =
     concat (map (\<lambda>n. block_response e (of_nat n)) [unat from_height ..< Suc (unat to_height)])"

definition handleBlockRequestData :: "env \<Rightarrow> bytes \<Rightarrow> engine \<Rightarrow> engine" where
  "handleBlockRequestData e payload hs =
     (if length payload < 16 then hs
      else
        let fromHeight = (of_nat (unbe (take 8 payload)) :: u64);
            toHeight = (of_nat (unbe (take 8 (drop 8 payload))) :: u64)
        in hs\<lparr>hsOutbox := hsOutbox hs @ respond_blocks e fromHeight toHeight\<rparr>)"

subsection \<open>Dispatch\<close>

definition queue_future :: "message \<Rightarrow> engine \<Rightarrow> engine" where
  "queue_future msg hs =
     hs\<lparr>hsSyncCh := chan_send 2000 (hsSyncCh hs) msg, hsFutureCh := chan_send 500 (hsFutureCh hs) msg\<rparr>"

definition catch_up_view :: "message \<Rightarrow> engine \<Rightarrow> engine" where
  "catch_up_view msg hs = (if mView msg > hsView hs then updateView (mView msg) hs else hs)"

definition handleMessageLocked :: "env \<Rightarrow> message \<Rightarrow> engine \<Rightarrow> engine" where
  "handleMessageLocked e msg hs =
     (if mType msg = MsgBlockRequest \<or> mType msg = MsgBlockResponse then hs
      else if mHeight msg < hsHeight hs then hs
      else if mHeight msg > hsHeight hs then
        queue_future msg (if \<not> IsSyncing (hsSyncer hs) then start_sync e (mHeight msg) hs else hs)
      else if mView msg < hsView hs then hs
      else case mType msg of
          MsgTimeout \<Rightarrow> handleTimeout e msg hs
        | MsgProposal \<Rightarrow> handleProposal e msg (catch_up_view msg hs)
        | MsgVotePrepare \<Rightarrow> handleVote e msg PhasePrepare (catch_up_view msg hs)
        | MsgVotePreCommit \<Rightarrow> handleVote e msg PhasePreCommit (catch_up_view msg hs)
        | MsgVoteCommit \<Rightarrow> handleVote e msg PhaseCommit (catch_up_view msg hs)
        | MsgNewView \<Rightarrow> handleNewView e msg (catch_up_view msg hs)
        | _ \<Rightarrow> hs)"

definition check_rate :: "env \<Rightarrow> message \<Rightarrow> engine \<Rightarrow> engine \<times> bool" where
  "check_rate e msg hs =
     (case mValidator msg of
        None \<Rightarrow> (hs, True)
      | Some addr \<Rightarrow>
          (let (rl, ok) = Allow (hsRateLimiter hs) (hexEncode addr) (envNow e)
           in (hs\<lparr>hsRateLimiter := rl\<rparr>, ok)))"

text \<open>The entry point for messages from the network.\<close>

definition HandleMessage :: "env \<Rightarrow> message \<Rightarrow> engine \<Rightarrow> engine" where
  "HandleMessage e msg hs =
     (if \<not> hsRunning hs then hs\<lparr>hsMessageCh := chan_send 1000 (hsMessageCh hs) msg\<rparr>
      else
        let (hs1, allowed) = check_rate e msg hs
        in if \<not> allowed then hs1
           else if mType msg = MsgBlockResponse then
             (if IsSyncing (hsSyncer hs1) \<and> slice (mPayload msg) \<noteq> []
              then receive_block e (prependHeightToPayload (slice (mPayload msg)) (mHeight msg)) hs1
              else hs1)
           else if mType msg = MsgBlockRequest then handleBlockRequestData e (slice (mPayload msg)) hs1
           else if mHeight msg > hsCurHeight hs1 + 1 then
             queue_future msg (if \<not> IsSyncing (hsSyncer hs1) then start_sync e (mHeight msg) hs1 else hs1)
           else hs1\<lparr>hsMessageCh := chan_send 1000 (hsMessageCh hs1) msg\<rparr>)"

subsection \<open>The turns of the loops and timers\<close>

definition loop_message :: "env \<Rightarrow> engine \<Rightarrow> engine" where
  "loop_message e hs =
     (case hsMessageCh hs of [] \<Rightarrow> hs | msg # rest \<Rightarrow> handleMessageLocked e msg (hs\<lparr>hsMessageCh := rest\<rparr>))"

definition loop_propose :: "env \<Rightarrow> engine \<Rightarrow> engine" where
  "loop_propose e hs = (if hsProposeCh hs then fst (proposeLocked e (hs\<lparr>hsProposeCh := False\<rparr>)) else hs)"

definition futureLoop_turn :: "env \<Rightarrow> engine \<Rightarrow> engine" where
  "futureLoop_turn e hs =
     (case hsFutureCh hs of
        [] \<Rightarrow> hs
      | msg # rest \<Rightarrow>
          let hs1 = hs\<lparr>hsFutureCh := rest\<rparr> in
          if mHeight msg = hsHeight hs1 then handleMessageLocked e msg hs1
          else hs1\<lparr>hsFutureCh := chan_send 500 (hsFutureCh hs1) msg\<rparr>)"

definition processSyncMessage :: "env \<Rightarrow> message \<Rightarrow> engine \<Rightarrow> engine" where
  "processSyncMessage e msg hs =
     (if mHeight msg \<le> hsCurHeight hs + 1 then HandleMessage e msg hs
      else if \<not> IsSyncing (hsSyncer hs) then hs
      else if mType msg = MsgProposal \<and> slice (mPayload msg) \<noteq> []
      then receive_block e (prependHeightToPayload (slice (mPayload msg)) (mHeight msg)) hs
      else hs)"

definition syncLoop_turn :: "env \<Rightarrow> engine \<Rightarrow> engine" where
  "syncLoop_turn e hs =
     (case hsSyncCh hs of [] \<Rightarrow> hs | msg # rest \<Rightarrow> processSyncMessage e msg (hs\<lparr>hsSyncCh := rest\<rparr>))"

definition liveness_tick :: "env \<Rightarrow> engine \<Rightarrow> engine" where
  "liveness_tick e hs =
     (let (lt, offline) = GetOfflineValidators (UpdateHeight (hsLiveness hs) (hsCurHeight hs));
          hs1 = hs\<lparr>hsLiveness := lt\<rparr>
      in foldl (\<lambda>hs addr.
           if GetMissed (hsLiveness hs) addr > cfDowntimeThreshold (hsConfig hs) * 2
           then handleDowntimeSlash e addr hs else hs) hs1 offline)"

text \<open>The view timer's function: announce a timeout for the next view, and move there on a quorum.\<close>

definition on_view_timeout :: "env \<Rightarrow> engine \<Rightarrow> engine" where
  "on_view_timeout e hs =
     (if \<not> hsRunning hs then hs
      else
        let newView = hsView hs + 1 in
        case envSign e (createTimeoutData hs (hsHeight hs) newView) of
          None \<Rightarrow> hs
        | Some sig \<Rightarrow>
            let highQC = hsPreparedQC hs;
                msg = \<lparr>mType = MsgTimeout, mHeight = hsHeight hs, mView = newView, mBlockHash = [],
                       mValidator = Some (envMe e), mSignature = Some sig, mJustifyQC = highQC,
                       mPayload = encodeTimeoutPayload hs newView (Some sig) highQC,
                       mTimestamp = envNow e\<rparr>;
                hs1 = record_timeout newView (hexEncode (envMe e)) sig highQC (doBroadcast msg hs)
            in if HasSuperMajority (hsValidatorSet hs1) (inner newView (hsTimeouts hs1))
               then propose_if_leader e (updateView newView (createNewViewAndBroadcast e newView hs1))
               else hs1)"

definition timer_fires :: "env \<Rightarrow> engine \<Rightarrow> engine" where
  "timer_fires e hs =
     (case hsTimer hs of
        NoTimer \<Rightarrow> hs
      | ViewTimer _ \<Rightarrow> on_view_timeout e (hs\<lparr>hsTimer := NoTimer\<rparr>)
      | ProposeTimer _ \<Rightarrow>
          (if \<not> hsRunning hs then hs\<lparr>hsTimer := NoTimer\<rparr>
           else if hsPhase hs = PhasePrepare then fst (proposeLocked e (hs\<lparr>hsTimer := NoTimer\<rparr>))
           else hs\<lparr>hsTimer := NoTimer\<rparr>))"

definition restoreState :: "persisted_state \<Rightarrow> time \<Rightarrow> engine \<Rightarrow> engine" where
  "restoreState saved now hs = hs\<lparr>hsState := (hsState hs)\<lparr>csHeight := psHeight saved, csView := psView saved,
     csPhase := psPhase saved, csLockedQC := psLockedQC saved, csPreparedQC := psPreparedQC saved,
     csDecidedHash := psDecidedHash saved, csStartTime := now\<rparr>\<rparr>"

datatype start_error = AlreadyRunning | VersionMismatch

definition Start :: "env \<Rightarrow> u64 \<Rightarrow> engine \<Rightarrow> engine \<times> start_error option" where
  "Start e height hs =
     (if hsRunning hs then (hs, Some AlreadyRunning)
      else
        let hs1 = (case Load (hsStateStore hs) of
              Some saved \<Rightarrow> (if psHeight saved > 0 then restoreState saved (envNow e) hs
                 else hs\<lparr>hsState := (hsState hs)\<lparr>csHeight := height, csView := 0, csPhase := PhasePrepare,
                   csStartTime := envNow e, csProtocolVersion := cfProtocolVersion (hsConfig hs)\<rparr>\<rparr>)
            | None \<Rightarrow> hs\<lparr>hsState := (hsState hs)\<lparr>csHeight := height, csView := 0, csPhase := PhasePrepare,
                   csStartTime := envNow e, csProtocolVersion := cfProtocolVersion (hsConfig hs)\<rparr>\<rparr>);
            hs2 = hs1\<lparr>hsCurHeight := hsHeight hs1, hsCurView := hsView hs1\<rparr>;
            pv = csProtocolVersion (hsState hs2); cv = cfProtocolVersion (hsConfig hs2)
        in if pv > 0 \<and> cv \<noteq> 0 \<and> pv \<noteq> cv then (hs2, Some VersionMismatch)
           else
             let hs3 = (if cv \<noteq> 0 \<and> pv = 0
                        then hs2\<lparr>hsState := (hsState hs2)\<lparr>csProtocolVersion := cv\<rparr>\<rparr> else hs2);
                 hs4 = hs3\<lparr>hsRunning := True\<rparr>;
                 hs5 = (case GetProposer (envSha256 e) (hsValidatorSet hs4) (hsHeight hs4) of
                     Inl _ \<Rightarrow> hs4
                   | Inr p \<Rightarrow> if envMe e = vAddress p then triggerPropose hs4 else hs4)
             in (startTimeout hs5, None))"

definition hs_Stop :: "engine \<Rightarrow> engine" where
  "hs_Stop hs = (if \<not> hsRunning hs then hs else hs\<lparr>hsRunning := False, hsTimer := NoTimer\<rparr>)"

text \<open>What can happen to a started engine; its loops make no turn once it has stopped.\<close>

datatype event = EvMessage message | EvLoop | EvPropose | EvFuture | EvSync | EvTimer
  | EvLiveness | EvUnjail | EvReward u64 | EvRequestTick

definition hs_step :: "engine \<Rightarrow> env \<times> event \<Rightarrow> engine" where
  "hs_step hs ev =
     (case ev of (e, x) \<Rightarrow>
        (case x of
           EvMessage msg \<Rightarrow> HandleMessage e msg hs
         | EvTimer \<Rightarrow> timer_fires e hs
         | EvReward amount \<Rightarrow> AddReward amount hs
         | EvRequestTick \<Rightarrow>
             (let (ss, req) = requestLoop_tick (hsSyncer hs) (envNow e)
              in send_request e req (hs\<lparr>hsSyncer := ss\<rparr>))
         | _ \<Rightarrow>
             if \<not> hsRunning hs then hs
             else case x of
                 EvLoop \<Rightarrow> loop_message e hs
               | EvPropose \<Rightarrow> loop_propose e hs
               | EvFuture \<Rightarrow> futureLoop_turn e hs
               | EvSync \<Rightarrow> syncLoop_turn e hs
               | EvLiveness \<Rightarrow> liveness_tick e hs
               | EvUnjail \<Rightarrow> processAutoUnjail e hs
               | _ \<Rightarrow> hs))"

end
