(* ===== verification/HotStuff_Safety.thy ===== *)
theory HotStuff_Safety
  imports HotStuff_Handlers
begin

text \<open>
  The engine as a whole (\<open>internal/layer1/consensus/hotstuff.go\<close>): the blocks it commits have
  increasing heights, and its rounds, ordered by height and view, never go back. The proofs go
  through \<open>core\<close>, the part of the state these statements are about: each helper either leaves the
  core alone (the lemmas \<open>core_\<dots>\<close>, all simplification rules) or changes it in one stated way.
\<close>

subsection \<open>What each helper leaves alone\<close>

text \<open>The height, the view, the committed blocks and the running flag of an engine.\<close>

definition core :: "engine \<Rightarrow> u64 \<times> u64 \<times> (u64 \<times> bytes) list \<times> bool" where
  "core hs = (hsHeight hs, hsView hs, hsCommits hs, hsRunning hs)"

lemma core_eqD:
  assumes "core hs = core hs'"
  shows "hsHeight hs = hsHeight hs'" "hsView hs = hsView hs'" "hsCommits hs = hsCommits hs'"
    "hsRunning hs = hsRunning hs'"
  using assms by (auto simp: core_def)

lemma core_updates [simp]:
  "core (hs\<lparr>hsDoubleSign := x0\<rparr>) = core hs"
  "core (hs\<lparr>hsLiveness := x1\<rparr>) = core hs"
  "core (hs\<lparr>hsPendingBlocks := x2\<rparr>) = core hs"
  "core (hs\<lparr>hsTimeoutView := x3\<rparr>) = core hs"
  "core (hs\<lparr>hsRateLimiter := x4\<rparr>) = core hs"
  "core (hs\<lparr>hsSyncer := x5\<rparr>) = core hs"
  "core (hs\<lparr>hsMessageCh := x6\<rparr>) = core hs"
  "core (hs\<lparr>hsProposeCh := x7\<rparr>) = core hs"
  "core (hs\<lparr>hsFutureCh := x8\<rparr>) = core hs"
  "core (hs\<lparr>hsSyncCh := x9\<rparr>) = core hs"
  "core (hs\<lparr>hsTimer := x10\<rparr>) = core hs"
  "core (hs\<lparr>hsRewardPool := x11\<rparr>) = core hs"
  "core (hs\<lparr>hsEpochStart := x12\<rparr>) = core hs"
  "core (hs\<lparr>hsValidatorSet := x13\<rparr>) = core hs"
  "core (hs\<lparr>hsStaking := x14\<rparr>) = core hs"
  "core (hs\<lparr>hsFinality := x15\<rparr>) = core hs"
  "core (hs\<lparr>hsStateStore := x16\<rparr>) = core hs"
  "core (hs\<lparr>hsViewVotes := x17\<rparr>) = core hs"
  "core (hs\<lparr>hsVotesOrder := x18\<rparr>) = core hs"
  "core (hs\<lparr>hsTimeouts := x19\<rparr>) = core hs"
  "core (hs\<lparr>hsTimeoutSignatures := x20\<rparr>) = core hs"
  "core (hs\<lparr>hsTimeoutHighQCs := x21\<rparr>) = core hs"
  "core (hs\<lparr>hsTimeoutsOrder := x22\<rparr>) = core hs"
  "core (hs\<lparr>hsOutbox := x23\<rparr>) = core hs"
  "core (hs\<lparr>hsViewTimeout := x24\<rparr>) = core hs"
  "core (hs\<lparr>hsCurHeight := x25\<rparr>) = core hs"
  "core (hs\<lparr>hsCurView := x26\<rparr>) = core hs"
  by (simp_all add: core_def)

lemma core_foldl: "(\<And>hs x. core (f hs x) = core hs) \<Longrightarrow> core (foldl f hs xs) = core hs"
  by (induction xs arbitrary: hs) simp_all

lemma core_setPhase [simp]: "core (setPhase ph hs) = core hs"
  by (simp add: core_def setPhase_def)

lemma core_setLockedQC [simp]: "core (setLockedQC q hs) = core hs"
  by (simp add: core_def setLockedQC_def)

lemma core_setPreparedQC [simp]: "core (setPreparedQC q hs) = core hs"
  by (simp add: core_def setPreparedQC_def)

lemma core_lock_if_newer [simp]: "core (lock_if_newer q hs) = core hs"
  by (simp add: lock_if_newer_def split: option.splits)

lemma core_lock_if_not_older [simp]: "core (lock_if_not_older q hs) = core hs"
  by (simp add: lock_if_not_older_def split: option.splits)

lemma core_getOrCreate [simp]: "core (fst (getOrCreateVoteRegistry h v hs)) = core hs"
  by (simp add: getOrCreateVoteRegistry_def core_def split: option.splits)

lemma core_update_registry [simp]: "core (update_registry h v f hs) = core hs"
  by (simp add: update_registry_def case_prod_unfold Let_def)

lemma core_storeVoteSignature [simp]: "core (storeVoteSignature h v ph b a s hs) = core hs"
  by (simp add: storeVoteSignature_def split: option.splits)

lemma core_createQC [simp]: "core (fst (createQC h v ph b hs)) = core hs"
  by (simp add: createQC_def case_prod_unfold Let_def)

lemma core_triggerPropose [simp]: "core (triggerPropose hs) = core hs"
  by (simp add: triggerPropose_def core_def)

lemma core_doBroadcast [simp]: "core (doBroadcast m hs) = core hs"
  by (simp add: doBroadcast_def core_def)

lemma core_startTimeout [simp]: "core (startTimeout hs) = core hs"
  by (simp add: startTimeout_def core_def)

lemma core_slash_evidence [simp]: "core (slash_evidence e i hs) = core hs"
  by (simp add: slash_evidence_def core_def Let_def split: sum.splits)

lemma core_handleDoubleSign [simp]: "core (handleDoubleSign e i hs) = core hs"
  by (simp add: handleDoubleSign_def)

lemma core_applyEpochSlashing [simp]: "core (applyEpochSlashing e hs) = core hs"
  unfolding applyEpochSlashing_def by (rule core_foldl) simp

lemma core_handleDowntimeSlash [simp]: "core (handleDowntimeSlash e a hs) = core hs"
  by (simp add: handleDowntimeSlash_def core_def split: option.splits sum.splits)

lemma core_try_unjail [simp]: "core (try_unjail e hs r) = core hs"
  by (simp add: try_unjail_def core_def)

lemma core_processAutoUnjail [simp]: "core (processAutoUnjail e hs) = core hs"
  by (simp add: processAutoUnjail_def Let_def core_foldl)

lemma core_rotateEpoch: "rotateEpoch e h hs = Some hs' \<Longrightarrow> core hs' = core hs"
  by (auto simp: rotateEpoch_def Let_def split: if_splits)

lemma core_distributeRewards [simp]: "core (distributeRewards e hs) = core hs"
  by (simp add: distributeRewards_def core_def Let_def)

lemma core_finalize_block [simp]: "core (finalize_block e b h addrs hs) = core hs"
  by (simp add: finalize_block_def core_def)

lemma core_propose_if_leader [simp]: "core (propose_if_leader e hs) = core hs"
  by (simp add: propose_if_leader_def)

lemma core_delete_timeouts [simp]: "core (delete_timeouts v hs) = core hs"
  by (simp add: delete_timeouts_def core_def)

lemma core_trimTimeouts [simp]: "core (trimTimeouts hs) = core hs"
  by (simp add: trimTimeouts_def Let_def core_foldl)

lemma core_createNewView [simp]: "core (createNewViewAndBroadcast e v hs) = core hs"
  by (simp add: createNewViewAndBroadcast_def Let_def)

lemma core_record_timeout [simp]: "core (record_timeout v a s q hs) = core hs"
  by (simp add: record_timeout_def core_def)

lemma core_open_timeouts [simp]: "core (open_timeouts v hs) = core hs"
  by (simp add: open_timeouts_def core_def)

lemma core_drop_old_timeouts [simp]: "core (drop_old_timeouts v hs) = core hs"
  unfolding drop_old_timeouts_def by (rule core_foldl) simp

lemma core_adopt_new_view_qc: "adopt_new_view_qc e m hs = Some hs' \<Longrightarrow> core hs' = core hs"
  by (auto simp: adopt_new_view_qc_def split: if_splits option.splits)

lemma core_record_vote [simp]: "core (record_vote h v ph b a hs) = core hs"
  by (simp add: record_vote_def)

lemma core_record_my_vote [simp]: "core (record_my_vote e h v ph b hs) = core hs"
  by (simp add: record_my_vote_def)

lemma core_sign_vote [simp]: "core (sign_vote e h v ph b hs) = core hs"
  by (simp add: sign_vote_def)

lemma core_prepare_certificate [simp]: "core (prepare_certificate h v b hs) = core hs"
  by (simp add: prepare_certificate_def case_prod_unfold Let_def)

lemma core_advancePhase [simp]: "core (advancePhase e ph hs) = core hs"
  by (simp add: advancePhase_def Let_def split: option.splits)

lemma core_trimVotes [simp]: "core (trimVotes hs) = core hs"
  by (simp add: trimVotes_def Let_def core_def)

lemma core_add_pending [simp]: "core (add_pending m hs) = core hs"
  by (simp add: add_pending_def core_def)

lemma core_accept_proposal [simp]: "core (accept_proposal e m s hs) = core hs"
  by (simp add: accept_proposal_def Let_def)

lemma core_send_request [simp]: "core (send_request e r hs) = core hs"
  by (simp add: send_request_def split: option.splits)

lemma core_start_sync [simp]: "core (start_sync e t hs) = core hs"
  by (simp add: start_sync_def case_prod_unfold Let_def)

lemma core_queue_future [simp]: "core (queue_future m hs) = core hs"
  by (simp add: queue_future_def core_def)

lemma core_handleBlockRequestData [simp]: "core (handleBlockRequestData e p hs) = core hs"
  by (simp add: handleBlockRequestData_def core_def Let_def)

lemma core_liveness_tick [simp]: "core (liveness_tick e hs) = core hs"
  by (simp add: liveness_tick_def case_prod_unfold Let_def core_foldl)

lemma core_updateView: "core hs = (h, w, cs, r) \<Longrightarrow> core (updateView v hs) = (h, v, cs, r)"
  by (simp add: updateView_def Let_def core_def startTimeout_def)

lemma core_recoverPanic: "core hs = (h, v, cs, r) \<Longrightarrow> core (recoverPanic hs) = (h, v, cs, False)"
  by (simp add: recoverPanic_def core_def)

lemma core_enter_height:
  "core hs = (h, v, cs, r) \<Longrightarrow>
   core (enter_height e hs) = (h + 1, 0, cs, r) \<or> core (enter_height e hs) = (h + 1, 0, cs, False)"
  by (simp add: enter_height_def Let_def core_def recoverPanic_def startTimeout_def triggerPropose_def
      split: sum.splits)

lemma core_append_commit: "core hs = (h, v, cs, r) \<Longrightarrow> core (hs\<lparr>hsCommits := hsCommits hs @ [c]\<rparr>) = (h, v, cs @ [c], r)"
  by (simp add: core_def)

lemma core_height: "core hs = (h, v, cs, r) \<Longrightarrow> hsHeight hs = h"
  by (simp add: core_def)

lemma core_view: "core hs = (h, v, cs, r) \<Longrightarrow> hsView hs = v"
  by (simp add: core_def)

subsection \<open>Commits and heights\<close>

lemma core_mark_decided [simp]: "core (mark_decided b h hs) = core hs"
  by (simp add: mark_decided_def core_def)

lemma core_after_commit:
  assumes c: "core hs = (h, v, cs, r)"
  shows "core (after_commit e b h hs) = (h, v, cs @ [(h, b)], False)
    \<or> core (after_commit e b h hs) = (h + 1, 0, cs @ [(h, b)], False)
    \<or> core (after_commit e b h hs) = (h + 1, 0, cs @ [(h, b)], r)"
proof -
  let ?hs2 = "finalize_block e b h (getValidatorAddresses hs) (hs\<lparr>hsCommits := hsCommits hs @ [(h, b)]\<rparr>)"
  have c2: "core ?hs2 = (h, v, cs @ [(h, b)], r)"
    using core_append_commit [OF c] by simp
  show ?thesis
  proof (cases "maybe_rotate e h ?hs2")
    case None
    then have "after_commit e b h hs = recoverPanic (?hs2\<lparr>hsEpochStart := h + 1\<rparr>)"
      by (simp add: after_commit_def Let_def)
    then show ?thesis using c2 by (simp add: core_recoverPanic)
  next
    case (Some hs3)
    then have c3: "core hs3 = core ?hs2"
      by (auto simp: maybe_rotate_def split: if_splits dest: core_rotateEpoch)
    define hs5 where "hs5 = (distributeRewards e hs3)\<lparr>hsStateStore := Save (hsStateStore (distributeRewards e hs3))
       (hsState (distributeRewards e hs3)) (getValidatorAddresses hs) (envNow e)\<rparr>"
    have c5: "core hs5 = (h, v, cs @ [(h, b)], r)"
      using c2 c3 by (simp add: hs5_def)
    have "after_commit e b h hs = enter_height e hs5"
      using Some core_height [OF c5] by (simp add: after_commit_def Let_def hs5_def)
    with core_enter_height [OF c5, of e] show ?thesis by auto
  qed
qed

lemma decide_core:
  assumes c: "core hs = (h, v, cs, r)"
  shows "core (decide e b h hs) = (h, v, cs, r)
    \<or> envCommitBlock e b h \<and>
      (core (decide e b h hs) = (h, v, cs @ [(h, b)], False)
       \<or> core (decide e b h hs) = (h + 1, 0, cs @ [(h, b)], False)
       \<or> core (decide e b h hs) = (h + 1, 0, cs @ [(h, b)], r))"
proof -
  have "core (mark_decided b h hs) = (h, v, cs, r)" using c by simp
  then show ?thesis
    using core_after_commit [of "mark_decided b h hs" h v cs r e b] c by (auto simp: decide_def Let_def)
qed

text \<open>The order of the rounds: by height, then by view.\<close>

definition round_le :: "engine \<Rightarrow> engine \<Rightarrow> bool" where
  "round_le hs hs' \<longleftrightarrow> hsHeight hs < hsHeight hs' \<or> hsHeight hs = hsHeight hs' \<and> hsView hs \<le> hsView hs'"

text \<open>
  What the engine expects of its block producer: it never accepts a block of the largest height,
  and its chain height is at least every height it has committed.
\<close>

definition producer_ok :: "env \<Rightarrow> bool" where
  "producer_ok e \<longleftrightarrow> (\<forall>b. \<not> envCommitBlock e b (- 1)) \<and> (\<forall>cs. \<forall>c \<in> set cs. fst c \<le> envChainHeight e cs)"

definition chain_core :: "u64 \<times> u64 \<times> (u64 \<times> bytes) list \<times> bool \<Rightarrow> bool" where
  "chain_core c = (case c of (h, v, cs, r) \<Rightarrow>
     sorted_wrt (<) (map fst cs) \<and> (r \<longrightarrow> (\<forall>c \<in> set cs. fst c < h)))"

definition chain_ok :: "engine \<Rightarrow> bool" where
  "chain_ok hs \<longleftrightarrow> chain_core (core hs)"

definition advances :: "engine \<Rightarrow> engine \<Rightarrow> bool" where
  "advances hs hs' \<longleftrightarrow> chain_ok hs' \<and> round_le hs hs'"

lemma round_le_core: "core hs1 = core hs2 \<Longrightarrow> round_le hs hs1 \<longleftrightarrow> round_le hs hs2"
  "core hs1 = core hs2 \<Longrightarrow> round_le hs1 hs \<longleftrightarrow> round_le hs2 hs"
  by (auto simp: round_le_def dest: core_eqD)

lemma round_le_trans: "round_le hs hs' \<Longrightarrow> round_le hs' hs'' \<Longrightarrow> round_le hs hs''"
  by (auto simp: round_le_def)

lemma advances_core: "core hs1 = core hs2 \<Longrightarrow> advances hs hs1 \<longleftrightarrow> advances hs hs2"
  by (simp add: advances_def chain_ok_def round_le_core(1) [of hs1 hs2])

lemma advances_from_core: "core hs1 = core hs2 \<Longrightarrow> advances hs1 hs \<longleftrightarrow> advances hs2 hs"
  by (simp add: advances_def round_le_core(2) [of hs1 hs2])

lemma advances_refl: "chain_ok hs \<Longrightarrow> advances hs hs"
  by (simp add: advances_def round_le_def)

lemma advances_same: "core hs' = core hs \<Longrightarrow> chain_ok hs \<Longrightarrow> advances hs hs'"
  using advances_core advances_refl by blast

lemma advances_trans: "advances hs hs' \<Longrightarrow> advances hs' hs'' \<Longrightarrow> advances hs hs''"
  by (auto simp: advances_def intro: round_le_trans)

lemma advancesI:
  "core hs = (h, v, cs, r) \<Longrightarrow> core hs' = (h', v', cs', r') \<Longrightarrow> chain_core (h', v', cs', r') \<Longrightarrow>
    h < h' \<or> h = h' \<and> v \<le> v' \<Longrightarrow> advances hs hs'"
  by (simp add: advances_def chain_ok_def core_height core_view round_le_def)

lemma word_less_plus_1:
  assumes "(h :: u64) \<noteq> - 1"
  shows "h < h + 1"
proof -
  have "1 + h \<noteq> 0" using assms max_word_wrap [of h] by (auto simp: add.commute)
  from unatSuc [OF this] show ?thesis by (simp add: word_less_nat_alt add.commute)
qed

lemma chain_core_commit:
  assumes "chain_core (h, v, cs, r)" "r" "h \<noteq> - 1"
  shows "chain_core (h, v', cs @ [(h, b)], False)" "chain_core (h + 1, v', cs @ [(h, b)], r')"
  using assms word_less_plus_1 [of h]
  by (auto simp: chain_core_def sorted_wrt_append intro: order.strict_trans)

lemma decide_advances:
  assumes p: "producer_ok e" and ok: "chain_ok hs" and c: "core hs = (h, v, cs, True)"
  shows "advances hs (decide e b h hs)"
proof (cases "envCommitBlock e b h")
  case True
  with p have h: "h \<noteq> - 1" by (auto simp: producer_ok_def)
  have cc: "chain_core (h, v, cs, True)" using ok c by (simp add: chain_ok_def)
  note less = word_less_plus_1 [OF h]
  from decide_core [OF c, of e b] show ?thesis
    using advancesI [OF c] less chain_core_commit [OF cc TrueI h] cc by blast
next
  case False
  with decide_core [OF c, of e b] c have "core (decide e b h hs) = core hs" by simp
  then show ?thesis using ok by (rule advances_same)
qed

text \<open>A handler leaves the core alone, or ends in a decision from a state with the same core.\<close>

definition decides :: "env \<Rightarrow> u64 \<Rightarrow> engine \<Rightarrow> engine \<Rightarrow> bool" where
  "decides e h hs hs' \<longleftrightarrow>
     core hs' = core hs \<or> (\<exists>hs1 b. core hs1 = core hs \<and> core hs' = core (decide e b h hs1))"

lemma decides_same: "core hs' = core hs \<Longrightarrow> decides e h hs hs'"
  by (simp add: decides_def)

lemma decides_decide: "core hs1 = core hs \<Longrightarrow> core hs' = core (decide e b h hs1) \<Longrightarrow> decides e h hs hs'"
  by (auto simp: decides_def)

lemma decides_cong: "core hs1 = core hs \<Longrightarrow> core hs2 = core hs' \<Longrightarrow> decides e h hs hs' \<Longrightarrow> decides e h hs1 hs2"
  by (auto simp: decides_def)

lemma decides_advances:
  assumes "decides e h hs hs'" "producer_ok e" "chain_ok hs" "core hs = (h, v, cs, True)"
  shows "advances hs hs'"
proof (cases "core hs' = core hs")
  case True
  then show ?thesis using assms(3) by (rule advances_same)
next
  case False
  then obtain hs1 b where hs1: "core hs1 = core hs" and hs': "core hs' = core (decide e b h hs1)"
    using assms(1) by (auto simp: decides_def)
  have "advances hs1 (decide e b h hs1)"
    using assms hs1 by (intro decide_advances [where v = v and cs = cs]) (simp_all add: chain_ok_def)
  then show ?thesis using advances_core [OF hs'] advances_from_core [OF hs1] by blast
qed

lemma decides_leaf: "core hs1 = core hs \<Longrightarrow> decides e h hs (decide e b h hs1)"
  by (auto simp: decides_def)

lemma decides_if: "(P \<Longrightarrow> decides e h hs a) \<Longrightarrow> (\<not> P \<Longrightarrow> decides e h hs b) \<Longrightarrow> decides e h hs (if P then a else b)"
  by simp

lemma core_self_prepare [simp]: "core (self_prepare e b h v hs) = core hs"
  by (simp add: self_prepare_def Let_def split: option.splits)

lemma core_self_phase_vote [simp]: "core (self_phase_vote e b h v ph hs) = core hs"
  by (simp add: self_phase_vote_def)

lemma decides_selfVote: "core hs1 = core hs \<Longrightarrow> decides e h hs (selfVote e b h v hs1)"
  unfolding selfVote_def Let_def
  by (intro decides_if decides_leaf; (rule decides_same)?; simp)

lemma decides_to: "decides e h hs hs' \<Longrightarrow> core hs2 = core hs' \<Longrightarrow> decides e h hs hs2"
  by (auto simp: decides_def)

lemma core_after_proposal [simp]: "core (after_proposal hs) = core hs"
  by (simp add: after_proposal_def Let_def)

lemma decides_send_proposal:
  assumes "core hs1 = core hs" "hsHeight hs1 = h"
  shows "decides e h hs (send_proposal e p d b sig hs1)"
  unfolding send_proposal_def assms(2)
  by (rule decides_to [OF decides_selfVote]) (simp_all add: assms(1))

lemma decides_proposeLocked:
  assumes "core hs1 = core hs" "hsHeight hs1 = h"
  shows "decides e h hs (fst (proposeLocked e hs1))"
  using assms
  by (auto simp: proposeLocked_def Let_def split: option.splits sum.splits prod.splits
      intro!: decides_send_proposal intro: decides_same)

text \<open>The message handlers.\<close>

lemma core_catch_up_view:
  assumes "core hs = (h, v, cs, r)"
  shows "core (catch_up_view m hs) = (h, max v (mView m), cs, r)"
proof -
  have "hsView hs = v" using assms by (simp add: core_def)
  then show ?thesis
    using assms core_updateView [OF assms, of "mView m"] by (auto simp: catch_up_view_def max_def)
qed

lemma core_vote_for_block [simp]: "core (vote_for_block e m hs) = core hs"
  by (simp add: vote_for_block_def Let_def case_prod_unfold split: option.splits)

lemma core_judge_proposal [simp]: "core (judge_proposal e m hs) = core hs"
  by (simp add: judge_proposal_def Let_def split: option.splits)

lemma core_handleProposal:
  "core (handleProposal e m hs) = core hs \<or> handleProposal e m hs = recoverPanic hs"
  by (simp add: handleProposal_def split: sum.splits option.splits prod.splits)

lemma core_count_vote [simp]: "core (count_vote m ph hs) = core hs"
  by (simp add: count_vote_def Let_def)

lemma decides_act_on_quorum:
  assumes "core hs1 = core hs" "mHeight m = h"
  shows "decides e h hs (act_on_quorum e m ph hs1)"
  using assms
  by (auto simp: act_on_quorum_def Let_def case_prod_unfold intro!: decides_leaf intro: decides_same)

lemma decides_handleVote:
  assumes "mHeight m = h"
  shows "decides e h hs (handleVote e m ph hs)"
proof -
  have "decides e h hs (trimVotes (act_on_quorum e m ph (count_vote m ph (hs\<lparr>hsDoubleSign := d\<rparr>))))" for d
    by (rule decides_to [OF decides_act_on_quorum [OF _ assms]]) simp_all
  then show ?thesis
    by (auto simp: handleVote_def Let_def intro: decides_same split: prod.splits option.splits)
qed

lemma core_count_timeout:
  assumes "core hs = (h, v, cs, r)"
  shows "core (count_timeout e m sig hs) = (h, max v (mView m), cs, r)"
proof -
  define hs5 where "hs5 = (let hs2 = record_timeout (mView m) (hexEncode (mSender m)) sig (mJustifyQC m) hs;
          hs3 = hs2\<lparr>hsLiveness := RecordActivity (hsLiveness hs2) (mSender m) (mHeight m)\<rparr>;
          hs4 = (if HasSuperMajority (hsValidatorSet hs3) (inner (mView m) (hsTimeouts hs3))
                 then createNewViewAndBroadcast e (mView m) hs3 else hs3)
      in (trimTimeouts hs4)\<lparr>hsTimeoutView := mView m\<rparr>)"
  have c5: "core hs5 = (h, v, cs, r)" using assms by (simp add: hs5_def Let_def)
  have "count_timeout e m sig hs
      = (if mView m > hsView hs5 then propose_if_leader e (updateView (mView m) hs5) else hs5)"
    by (simp only: count_timeout_def hs5_def Let_def)
  with c5 core_updateView [OF c5, of "mView m"] show ?thesis
    by (auto simp: max_def core_eqD(2) [of hs5] core_def [of hs5])
qed

lemma core_handleTimeout:
  assumes "core hs = (h, v, cs, r)"
  shows "core (handleTimeout e m hs) = (h, v, cs, r) \<or> core (handleTimeout e m hs) = (h, max v (mView m), cs, r)"
  using assms core_count_timeout [of "open_timeouts (mView m) hs" h v cs r e m]
  by (auto simp: handleTimeout_def Let_def split: option.splits)

lemma core_handleNewView:
  assumes "core hs = (h, v, cs, r)"
  shows "core (handleNewView e m hs) = (h, v, cs, r) \<or> core (handleNewView e m hs) = (h, mView m, cs, r)"
proof -
  have "core (updateView (mView m) hs2) = (h, mView m, cs, r)" if "core hs2 = core hs" for hs2
    using that assms core_updateView by simp
  then show ?thesis using assms
    by (auto simp: handleNewView_def Let_def dest: core_adopt_new_view_qc split: option.splits)
qed

lemma advances_view:
  "core hs1 = (h, v', cs, r) \<Longrightarrow> core hs = (h, v, cs, r) \<Longrightarrow> v \<le> v' \<Longrightarrow> chain_ok hs \<Longrightarrow>
    chain_ok hs1 \<and> (advances hs1 hs' \<longrightarrow> advances hs hs')"
  by (auto simp: chain_ok_def chain_core_def advances_def round_le_def core_height core_view)

text \<open>Every message, and every turn of a loop, keeps \<open>chain_ok\<close> and does not lower the height.\<close>

lemma core_cases: obtains h v cs r where "core hs = (h, v, cs, r)"
  by (cases "core hs")

lemma advances_recoverPanic: "chain_ok hs \<Longrightarrow> advances hs (recoverPanic hs)"
  by (rule core_cases [of hs], rule advancesI [OF _ core_recoverPanic])
    (auto simp: chain_ok_def chain_core_def)

lemma advances_new_view:
  "core hs = (h, v, cs, r) \<Longrightarrow> core hs' = (h, v', cs, r) \<Longrightarrow> v \<le> v' \<Longrightarrow> chain_ok hs \<Longrightarrow>
    advances hs hs'"
  by (auto simp: chain_ok_def chain_core_def intro: advancesI)

lemma handleMessageLocked_advances:
  assumes p: "producer_ok e" and ok: "chain_ok hs" and run: "hsRunning hs"
  shows "advances hs (handleMessageLocked e m hs)"
proof -
  obtain h v cs where c: "core hs = (h, v, cs, True)"
    using run by (auto simp: core_def)
  let ?cu = "catch_up_view m hs"
  have cu: "core ?cu = (h, max v (mView m), cs, True)" by (rule core_catch_up_view [OF c])
  have cu_ok: "chain_ok ?cu" and lift: "\<And>hs'. advances ?cu hs' \<Longrightarrow> advances hs hs'"
    using advances_view [OF cu c max.cobounded1 ok] by blast+
  have vote: "advances hs (handleVote e m ph ?cu)" if "mHeight m = h" for ph
    using decides_handleVote [OF that, of e ?cu ph] p cu_ok cu
    by (intro lift decides_advances [where h = h and v = "max v (mView m)" and cs = cs])
  have proposal: "advances hs (handleProposal e m ?cu)"
    using core_handleProposal [of e m ?cu] cu_ok
    by (auto intro!: lift intro: advances_same advances_recoverPanic)
  have nv: "advances hs (handleNewView e m ?cu)" if "v \<le> mView m"
    using core_handleNewView [OF cu, of e m] advances_new_view [OF c _ _ ok] that max.cobounded1 by metis
  have tmo: "advances hs (handleTimeout e m hs)"
    using core_handleTimeout [OF c, of e m] advances_new_view [OF c _ _ ok] max.cobounded1 order.refl by metis
  have h: "hsHeight hs = h" "hsView hs = v" by (rule core_height [OF c], rule core_view [OF c])
  show ?thesis
    using vote proposal nv tmo h
    by (auto simp: handleMessageLocked_def advances_refl [OF ok] not_less split: message_type.splits
        intro!: advances_same ok)
qed


text \<open>The syncer commits blocks through the applier; whatever the applier keeps, the syncer keeps.\<close>

lemma apply_loop_preserves:
  assumes "\<And>s b. P s \<Longrightarrow> P (fst (app s b))"
  shows "P s \<Longrightarrow> P (fst (snd (apply_loop app now ss s)))"
  using assms
proof (induction app now ss s rule: apply_loop.induct)
  case (1 app now ss s)
  let ?h = "ssCurrentHeight ss"
  show ?case
  proof (cases "?h \<le> ssTargetHeight ss \<and> goget (ssPendingBlocks ss) ?h \<noteq> None")
    case False
    with "1.prems" show ?thesis by (auto simp: apply_loop.simps)
  next
    case True
    then obtain block where le: "?h \<le> ssTargetHeight ss" and b: "goget (ssPendingBlocks ss) ?h = Some block"
      by blast
    obtain s' ok where sb: "(s', ok) = app s block" by (metis prod.collapse)
    have P': "P s'" using "1.prems"(2) [OF "1.prems"(1), of block] sb by (metis fst_conv)
    show ?thesis
    proof (cases ok)
      case True
      from "1.IH" [OF le b refl refl sb _ P' "1.prems"(2)] True le b sb [symmetric] show ?thesis
        by (subst apply_loop.simps) (simp add: Let_def)
    next
      case False
      with le b sb [symmetric] P' show ?thesis
        by (subst apply_loop.simps) (simp add: Let_def)
    qed
  qed
qed

lemma ApplyBlock_preserves:
  assumes "\<And>s b. P s \<Longrightarrow> P (fst (app s b))" and "P s"
  shows "P (fst (snd (ApplyBlock app ss s d now)))"
  using apply_loop_preserves [of P app, OF assms(1)] assms(2)
  by (auto simp: ApplyBlock_def Let_def case_prod_unfold)

lemma apply_request_chain:
  assumes p: "producer_ok e" and ok: "chain_ok hs" and run: "hsRunning hs"
    and new: "envChainHeight e (hsCommits hs) < height"
  shows "advances hs (fst (apply_request e b height hs)) \<and> hsRunning (fst (apply_request e b height hs))"
proof (cases "envCommitBlock e b height")
  case False
  then show ?thesis using ok run by (simp add: apply_request_def advances_refl)
next
  case True
  with p have "height \<noteq> - 1" by (auto simp: producer_ok_def)
  then have h1: "height < height + 1" by (rule word_less_plus_1)
  obtain h v cs where c: "core hs = (h, v, cs, True)" using run by (auto simp: core_def)
  have cs: "hsCommits hs = cs" "hsHeight hs = h" "hsView hs = v" using c by (auto simp: core_def)
  have cc: "chain_core (h, v, cs, True)" using ok c by (simp add: chain_ok_def)
  have above: "\<forall>c \<in> set cs. fst c < height"
    using p new cs by (auto simp: producer_ok_def intro: le_less_trans)
  show ?thesis
  proof (cases "h \<le> height")
    case le: True
    have "core (fst (apply_request e b height hs)) = (height + 1, 0, cs @ [(height, b)], True)"
      using True le run cs by (simp add: apply_request_def core_def Let_def)
    moreover have "chain_core (height + 1, 0, cs @ [(height, b)], True)"
      using cc above h1 by (auto simp: chain_core_def sorted_wrt_append intro: order.strict_trans)
    ultimately show ?thesis using advancesI [OF c] le_less_trans [OF le h1] by (simp add: core_def)
  next
    case gt: False
    have "core (fst (apply_request e b height hs)) = (h, v, cs @ [(height, b)], True)"
      using True gt run cs by (simp add: apply_request_def core_def Let_def)
    moreover have "chain_core (h, v, cs @ [(height, b)], True)"
      using cc above gt by (auto simp: chain_core_def sorted_wrt_append)
    ultimately show ?thesis using advancesI [OF c] by (simp add: core_def)
  qed
qed

lemma defaultBlockApplier_chain:
  assumes "producer_ok e" "chain_ok hs" "hsRunning hs"
  shows "advances hs (fst (defaultBlockApplier e hs b)) \<and> hsRunning (fst (defaultBlockApplier e hs b))"
  using assms apply_request_chain [OF assms]
  by (auto simp: defaultBlockApplier_def Let_def advances_refl not_le split: option.splits)

lemma receive_block_advances:
  assumes "producer_ok e" "chain_ok hs" "hsRunning hs"
  shows "advances hs (receive_block e d hs)"
proof -
  let ?P = "\<lambda>s. advances hs s \<and> hsRunning s"
  have "?P (fst (defaultBlockApplier e s b))" if "?P s" for s b
    using that defaultBlockApplier_chain [OF assms(1), of s b] advances_trans [of hs s]
    by (auto simp: advances_def)
  then have "?P (fst (snd (ApplyBlock (defaultBlockApplier e) (hsSyncer hs) hs d (envNow e))))"
    by (rule ApplyBlock_preserves) (use assms in \<open>auto intro: advances_refl\<close>)
  then show ?thesis
    by (simp add: receive_block_def ReceiveBlock_def case_prod_unfold advances_core [OF core_updates(6)])
qed

lemma core_check_rate [simp]: "core (fst (check_rate e m hs)) = core hs"
  by (simp add: check_rate_def case_prod_unfold Let_def split: option.splits)

lemma HandleMessage_advances:
  assumes p: "producer_ok e" and ok: "chain_ok hs"
  shows "advances hs (HandleMessage e m hs)"
proof (cases "hsRunning hs")
  case False
  then show ?thesis using ok by (simp add: HandleMessage_def advances_same)
next
  case True
  obtain hs1 al where r: "check_rate e m hs = (hs1, al)" by (metis prod.exhaust)
  have c1: "core hs1 = core hs" using core_check_rate [of e m hs] r by simp
  have ok1: "chain_ok hs1" and run1: "hsRunning hs1"
    using ok True core_eqD(4) [OF c1] by (simp_all add: chain_ok_def c1)
  have same: "core hs' = core hs1 \<Longrightarrow> advances hs hs'" for hs'
    using advances_same [OF _ ok] c1 by simp
  have rcv: "advances hs (receive_block e d hs1)" for d
    using receive_block_advances [OF p ok1 run1] advances_from_core [OF c1] by blast
  show ?thesis using True by (auto simp: HandleMessage_def r intro: same rcv)
qed

lemma proposeLocked_advances:
  assumes "producer_ok e" "chain_ok hs" "hsRunning hs" "core hs1 = core hs"
  shows "advances hs (fst (proposeLocked e hs1))"
proof -
  obtain h v cs where c: "core hs = (h, v, cs, True)" using assms(3) by (auto simp: core_def)
  have "hsHeight hs1 = h" using core_eqD(1) [OF assms(4)] core_height [OF c] by simp
  from decides_proposeLocked [OF assms(4) this] assms(1,2) c show ?thesis
    by (rule decides_advances)
qed

lemma on_view_timeout_core:
  assumes "core hs = (h, v, cs, r)"
  shows "core (on_view_timeout e hs) = (h, v, cs, r) \<or> r \<and> core (on_view_timeout e hs) = (h, v + 1, cs, r)"
proof (cases "hsRunning hs")
  case False
  then show ?thesis using assms by (simp add: on_view_timeout_def)
next
  case True
  have hv: "hsView hs = v" and r using assms True by (auto simp: core_def)
  have up: "core (updateView w hs1) = (h, w, cs, r)" if "core hs1 = core hs" for w hs1
    using that assms core_updateView by simp
  show ?thesis
    using assms \<open>r\<close> hv by (auto simp: on_view_timeout_def Let_def up split: option.splits)
qed

lemma timer_fires_advances:
  assumes p: "producer_ok e" and ok: "chain_ok hs" and v: "hsView hs \<noteq> - 1"
  shows "advances hs (timer_fires e hs)"
proof -
  obtain h v cs r where c: "core hs = (h, v, cs, r)" by (rule core_cases)
  have c1: "core (hs\<lparr>hsTimer := NoTimer\<rparr>) = (h, v, cs, r)" using c by simp
  have "advances hs (on_view_timeout e (hs\<lparr>hsTimer := NoTimer\<rparr>))"
    using on_view_timeout_core [OF c1, of e] advances_new_view [OF c _ _ ok] v core_view [OF c]
      word_less_plus_1 [of v] by (metis order.refl order.strict_implies_order)
  moreover have "advances hs (fst (proposeLocked e (hs\<lparr>hsTimer := NoTimer\<rparr>)))" if "hsRunning hs"
    using proposeLocked_advances [OF p ok that] by simp
  ultimately show ?thesis
    using ok by (auto simp: timer_fires_def advances_refl advances_same split: timer.splits)
qed

lemma timer_fires_chain:
  assumes p: "producer_ok e" and ok: "chain_ok hs"
  shows "chain_ok (timer_fires e hs) \<and> hsHeight hs \<le> hsHeight (timer_fires e hs)"
proof -
  obtain h v cs r where c: "core hs = (h, v, cs, r)" by (rule core_cases)
  have c1: "core (hs\<lparr>hsTimer := NoTimer\<rparr>) = (h, v, cs, r)" using c by simp
  have cc: "chain_core (h, w, cs, r)" for w using ok c by (simp add: chain_ok_def chain_core_def)
  have "chain_ok (on_view_timeout e (hs\<lparr>hsTimer := NoTimer\<rparr>))
      \<and> hsHeight hs \<le> hsHeight (on_view_timeout e (hs\<lparr>hsTimer := NoTimer\<rparr>))"
    using on_view_timeout_core [OF c1, of e] cc c by (auto simp: chain_ok_def core_height)
  moreover have "advances hs (fst (proposeLocked e (hs\<lparr>hsTimer := NoTimer\<rparr>)))" if "hsRunning hs"
    using proposeLocked_advances [OF p ok that] by simp
  ultimately show ?thesis
    using ok by (auto simp: timer_fires_def chain_ok_def advances_def round_le_def split: timer.splits)
qed

lemma loop_message_advances:
  assumes p: "producer_ok e" and ok: "chain_ok hs" and run: "hsRunning hs" and c: "core hs1 = core hs"
  shows "advances hs (handleMessageLocked e m hs1)" "advances hs (HandleMessage e m hs1)"
    "advances hs (receive_block e d hs1)"
proof -
  have ok1: "chain_ok hs1" and run1: "hsRunning hs1"
    using ok run core_eqD(4) [OF c] by (simp_all add: chain_ok_def c)
  show "advances hs (handleMessageLocked e m hs1)" "advances hs (HandleMessage e m hs1)"
    "advances hs (receive_block e d hs1)"
    using handleMessageLocked_advances [OF p ok1 run1] HandleMessage_advances [OF p ok1]
      receive_block_advances [OF p ok1 run1] advances_from_core [OF c] by blast+
qed

lemma hs_step_advances:
  assumes p: "producer_ok e" and ok: "chain_ok hs" and x: "x \<noteq> EvTimer"
  shows "advances hs (hs_step hs (e, x))"
proof (cases "hsRunning hs")
  case False
  then show ?thesis
    using HandleMessage_advances [OF p ok] x
    by (auto simp: hs_step_def AddReward_def case_prod_unfold Let_def advances_same ok split: event.splits)
next
  case run: True
  note msg = loop_message_advances [OF p ok run]
  show ?thesis
    using HandleMessage_advances [OF p ok] x run
    by (cases x) (auto simp: hs_step_def AddReward_def case_prod_unfold Let_def advances_same ok
        loop_message_def loop_propose_def futureLoop_turn_def syncLoop_turn_def processSyncMessage_def
        intro!: msg proposeLocked_advances [OF p ok run]
        split: list.splits)
qed

lemma hs_step_chain:
  assumes "producer_ok e" "chain_ok hs"
  shows "chain_ok (hs_step hs (e, x)) \<and> hsHeight hs \<le> hsHeight (hs_step hs (e, x))"
proof (cases "x = EvTimer")
  case True
  then show ?thesis using timer_fires_chain [OF assms] by (simp add: hs_step_def)
next
  case False
  from hs_step_advances [OF assms this] show ?thesis by (auto simp: advances_def round_le_def)
qed
end
