(* ===== verification/HotStuff_Votes.thy ===== *)
theory HotStuff_Votes
  imports HotStuff_Safety
begin

text \<open>
  Where the votes in the engine's registries come from, and what its commits rest on
  (\<open>internal/layer1/consensus/hotstuff.go\<close>). \<open>knows\<close> are the votes in the registries and in the
  messages still queued; the lemmas \<open>learns_\<dots>\<close> show of each operation that it adds at most the
  votes of the message it is given and votes of the engine itself, those of \<open>commit_voted\<close> that a
  block is only committed on a super-majority of such votes.
\<close>

subsection \<open>Votes the engine knows of\<close>

text \<open>
  A vote fact names a height, a view, a phase, a block hash and a validator, the latter two as the
  engine's map keys.
\<close>

type_synonym vote_fact = "u64 \<times> u64 \<times> phase \<times> string \<times> string"

fun msg_phase :: "message_type \<Rightarrow> phase option" where
  "msg_phase MsgVotePrepare = Some PhasePrepare"
| "msg_phase MsgVotePreCommit = Some PhasePreCommit"
| "msg_phase MsgVoteCommit = Some PhaseCommit"
| "msg_phase _ = None"

definition fact_of :: "message \<Rightarrow> vote_fact set" where
  "fact_of m = (case msg_phase (mType m) of
       None \<Rightarrow> {}
     | Some ph \<Rightarrow> {(mHeight m, mView m, ph, hexEncode (mBlockHash m), hexEncode (mSender m))})"

type_synonym vote_table = "(height_view, vote_registry) gomap"

definition voters :: "(string, bool) gomap \<Rightarrow> string set" where
  "voters m = fst ` set m"

lemma voters_simps [simp]: "voters [] = {}" "voters (goput a b m) = insert a (voters m)"
  by (simp_all add: voters_def)

definition table_facts :: "vote_table \<Rightarrow> vote_fact set" where
  "table_facts t = {(h, v, ph, x, a). \<exists>reg. goget t (h, v) = Some reg \<and> a \<in> voters (votes_for reg ph x)}"

text \<open>Every vote map has distinct keys that are encoded addresses, all marked true.\<close>

definition tidy_votes :: "(string, bool) gomap \<Rightarrow> bool" where
  "tidy_votes m \<longleftrightarrow> canonical_keys m \<and> (\<forall>p \<in> set m. snd p)"

definition tidy_table :: "vote_table \<Rightarrow> bool" where
  "tidy_table t \<longleftrightarrow> (\<forall>k reg ph x. goget t k = Some reg \<longrightarrow> tidy_votes (votes_for reg ph x))"

definition mail :: "engine \<Rightarrow> vote_table \<times> message list" where
  "mail hs = (hsViewVotes hs, hsMessageCh hs @ hsFutureCh hs @ hsSyncCh hs)"

definition knows :: "engine \<Rightarrow> vote_fact set" where
  "knows hs = table_facts (fst (mail hs)) \<union> (\<Union>m \<in> set (snd (mail hs)). fact_of m)"

definition tidy :: "engine \<Rightarrow> bool" where
  "tidy hs \<longleftrightarrow> tidy_table (fst (mail hs))"

definition own :: "bytes \<Rightarrow> vote_fact set" where
  "own me = {(h, v, ph, x, a). a = hexEncode me}"

definition learns :: "vote_fact set \<Rightarrow> engine \<Rightarrow> engine \<Rightarrow> bool" where
  "learns F hs hs' \<longleftrightarrow> knows hs' \<subseteq> knows hs \<union> F \<and> (tidy hs \<longrightarrow> tidy hs')"

lemma learns_same: "mail hs' = mail hs \<Longrightarrow> learns F hs hs'"
  by (simp add: learns_def knows_def tidy_def)

lemma learns_to: "mail hs2 = mail hs1 \<Longrightarrow> learns F hs hs2 \<longleftrightarrow> learns F hs hs1"
  by (simp add: learns_def knows_def tidy_def)

lemma learns_from: "mail hs2 = mail hs1 \<Longrightarrow> learns F hs2 hs \<longleftrightarrow> learns F hs1 hs"
  by (simp add: learns_def knows_def tidy_def)

lemma learns_trans: "learns F hs hs1 \<Longrightarrow> learns F hs1 hs2 \<Longrightarrow> learns F hs hs2"
  by (auto simp: learns_def)

lemma learns_mono: "learns F hs hs' \<Longrightarrow> F \<subseteq> G \<Longrightarrow> learns G hs hs'"
  by (auto simp: learns_def)

lemma learns_refl [simp]: "learns F hs hs"
  by (simp add: learns_def)

lemma learns_foldl: "(\<And>hs x. learns F hs (f hs x)) \<Longrightarrow> learns F hs (foldl f hs xs)"
  by (induction xs arbitrary: hs) (auto intro: learns_trans)

lemma mail_foldl: "(\<And>hs x. mail (f hs x) = mail hs) \<Longrightarrow> mail (foldl f hs xs) = mail hs"
  by (induction xs arbitrary: hs) simp_all

subsubsection \<open>Tables of votes\<close>

lemma tidy_votes_Nil [simp]: "tidy_votes []"
  by (simp add: tidy_votes_def)

lemma tidy_votes_put [simp]: "tidy_votes m \<Longrightarrow> tidy_votes (goput (hexEncode a) True m)"
  using set_goput_subset [of "hexEncode a" True m] by (auto simp: tidy_votes_def)

lemma votes_for_new [simp]: "votes_for newViewVoteRegistry ph x = []"
  by (simp add: votes_for_def newViewVoteRegistry_def)

lemma votes_for_add_vote [simp]:
  "votes_for (add_vote ph x a reg) ph' x' = (if ph' = ph \<and> x' = x then goput a True (votes_for reg ph x) else votes_for reg ph' x')"
  by (simp add: votes_for_def add_vote_def)

lemma votes_for_add_signature [simp]: "votes_for (add_signature ph x a s reg) ph' x' = votes_for reg ph' x'"
  by (simp add: votes_for_def add_signature_def)

lemma votes_for_set_my_vote [simp]: "votes_for (set_my_vote ph b reg) ph' x' = votes_for reg ph' x'"
  by (simp add: votes_for_def set_my_vote_def)

lemma table_facts_Nil [simp]: "table_facts [] = {}"
  by (simp add: table_facts_def)

lemma tidy_table_Nil [simp]: "tidy_table []"
  by (simp add: tidy_table_def)

lemma table_facts_del: "table_facts (godel k t) \<subseteq> table_facts t"
  by (auto simp: table_facts_def split: if_splits)

lemma tidy_table_del: "tidy_table t \<Longrightarrow> tidy_table (godel k t)"
  by (auto simp: tidy_table_def split: if_splits)

lemma table_del_all:
  "table_facts (foldl (\<lambda>m k. godel k m) t ks) \<subseteq> table_facts t
   \<and> (tidy_table t \<longrightarrow> tidy_table (foldl (\<lambda>m k. godel k m) t ks))"
proof (induction ks arbitrary: t)
  case Nil
  then show ?case by simp
next
  case (Cons k ks)
  from Cons.IH [of "godel k t"] table_facts_del [of k t] tidy_table_del [of t k] show ?case by auto
qed

lemma learnsI:
  assumes "table_facts (hsViewVotes hs') \<subseteq> table_facts (hsViewVotes hs) \<union> F"
    and "tidy_table (hsViewVotes hs) \<Longrightarrow> tidy_table (hsViewVotes hs')"
    and "(\<Union>m \<in> set (snd (mail hs')). fact_of m) \<subseteq> knows hs \<union> F"
  shows "learns F hs hs'"
  using assms by (auto simp: learns_def knows_def tidy_def mail_def)

subsubsection \<open>Helpers\<close>

lemma mail_updates [simp]:
  "mail (hs\<lparr>hsDoubleSign := x0\<rparr>) = mail hs"
  "mail (hs\<lparr>hsLiveness := x1\<rparr>) = mail hs"
  "mail (hs\<lparr>hsPendingBlocks := x2\<rparr>) = mail hs"
  "mail (hs\<lparr>hsTimeoutView := x3\<rparr>) = mail hs"
  "mail (hs\<lparr>hsRateLimiter := x4\<rparr>) = mail hs"
  "mail (hs\<lparr>hsSyncer := x5\<rparr>) = mail hs"
  "mail (hs\<lparr>hsState := x6\<rparr>) = mail hs"
  "mail (hs\<lparr>hsProposeCh := x7\<rparr>) = mail hs"
  "mail (hs\<lparr>hsVotesOrder := x8\<rparr>) = mail hs"
  "mail (hs\<lparr>hsRunning := x9\<rparr>) = mail hs"
  "mail (hs\<lparr>hsTimer := x10\<rparr>) = mail hs"
  "mail (hs\<lparr>hsRewardPool := x11\<rparr>) = mail hs"
  "mail (hs\<lparr>hsEpochStart := x12\<rparr>) = mail hs"
  "mail (hs\<lparr>hsValidatorSet := x13\<rparr>) = mail hs"
  "mail (hs\<lparr>hsStaking := x14\<rparr>) = mail hs"
  "mail (hs\<lparr>hsFinality := x15\<rparr>) = mail hs"
  "mail (hs\<lparr>hsStateStore := x16\<rparr>) = mail hs"
  "mail (hs\<lparr>hsTimeouts := x19\<rparr>) = mail hs"
  "mail (hs\<lparr>hsTimeoutSignatures := x20\<rparr>) = mail hs"
  "mail (hs\<lparr>hsTimeoutHighQCs := x21\<rparr>) = mail hs"
  "mail (hs\<lparr>hsTimeoutsOrder := x22\<rparr>) = mail hs"
  "mail (hs\<lparr>hsOutbox := x23\<rparr>) = mail hs"
  "mail (hs\<lparr>hsViewTimeout := x24\<rparr>) = mail hs"
  "mail (hs\<lparr>hsCurHeight := x25\<rparr>) = mail hs"
  "mail (hs\<lparr>hsCurView := x26\<rparr>) = mail hs"
  "mail (hs\<lparr>hsCommits := x27\<rparr>) = mail hs"
  by (simp_all add: mail_def)

lemma mail_setPhase [simp]: "mail (setPhase ph hs) = mail hs"
  by (simp add: setPhase_def)

lemma mail_setLockedQC [simp]: "mail (setLockedQC q hs) = mail hs"
  by (simp add: setLockedQC_def)

lemma mail_setPreparedQC [simp]: "mail (setPreparedQC q hs) = mail hs"
  by (simp add: setPreparedQC_def)

lemma mail_lock_if_newer [simp]: "mail (lock_if_newer q hs) = mail hs"
  by (simp add: lock_if_newer_def split: option.splits)

lemma mail_lock_if_not_older [simp]: "mail (lock_if_not_older q hs) = mail hs"
  by (simp add: lock_if_not_older_def split: option.splits)

lemma mail_triggerPropose [simp]: "mail (triggerPropose hs) = mail hs"
  by (simp add: triggerPropose_def)

lemma mail_startTimeout [simp]: "mail (startTimeout hs) = mail hs"
  by (simp add: startTimeout_def)

lemma mail_recoverPanic [simp]: "mail (recoverPanic hs) = mail hs"
  by (simp add: recoverPanic_def)

lemma mail_slash_evidence [simp]: "mail (slash_evidence e i hs) = mail hs"
  by (simp add: slash_evidence_def Let_def split: sum.splits)

lemma mail_handleDoubleSign [simp]: "mail (handleDoubleSign e i hs) = mail hs"
  by (simp add: handleDoubleSign_def)

lemma mail_applyEpochSlashing [simp]: "mail (applyEpochSlashing e hs) = mail hs"
  unfolding applyEpochSlashing_def by (rule mail_foldl) simp

lemma mail_handleDowntimeSlash [simp]: "mail (handleDowntimeSlash e a hs) = mail hs"
  by (simp add: handleDowntimeSlash_def split: option.splits sum.splits)

lemma mail_try_unjail [simp]: "mail (try_unjail e hs r) = mail hs"
  by (simp add: try_unjail_def)

lemma mail_processAutoUnjail [simp]: "mail (processAutoUnjail e hs) = mail hs"
  by (simp add: processAutoUnjail_def Let_def mail_foldl)

lemma mail_rotateEpoch: "rotateEpoch e h hs = Some hs' \<Longrightarrow> mail hs' = mail hs"
  by (auto simp: rotateEpoch_def Let_def split: if_splits)

lemma mail_distributeRewards [simp]: "mail (distributeRewards e hs) = mail hs"
  by (simp add: distributeRewards_def Let_def)

lemma mail_finalize_block [simp]: "mail (finalize_block e b h addrs hs) = mail hs"
  by (simp add: finalize_block_def)

lemma mail_propose_if_leader [simp]: "mail (propose_if_leader e hs) = mail hs"
  by (simp add: propose_if_leader_def)

lemma mail_delete_timeouts [simp]: "mail (delete_timeouts v hs) = mail hs"
  by (simp add: delete_timeouts_def)

lemma mail_trimTimeouts [simp]: "mail (trimTimeouts hs) = mail hs"
  by (simp add: trimTimeouts_def Let_def mail_foldl)

lemma mail_record_timeout [simp]: "mail (record_timeout v a s q hs) = mail hs"
  by (simp add: record_timeout_def)

lemma mail_open_timeouts [simp]: "mail (open_timeouts v hs) = mail hs"
  by (simp add: open_timeouts_def)

lemma mail_drop_old_timeouts [simp]: "mail (drop_old_timeouts v hs) = mail hs"
  unfolding drop_old_timeouts_def by (rule mail_foldl) simp

lemma mail_adopt_new_view_qc: "adopt_new_view_qc e m hs = Some hs' \<Longrightarrow> mail hs' = mail hs"
  by (auto simp: adopt_new_view_qc_def split: if_splits option.splits)

lemma mail_mark_decided [simp]: "mail (mark_decided b h hs) = mail hs"
  by (simp add: mark_decided_def)

lemma mail_add_pending [simp]: "mail (add_pending m hs) = mail hs"
  by (simp add: add_pending_def)

lemma mail_send_request [simp]: "mail (send_request e r hs) = mail hs"
  by (simp add: send_request_def split: option.splits)

lemma mail_start_sync [simp]: "mail (start_sync e t hs) = mail hs"
  by (simp add: start_sync_def case_prod_unfold Let_def)

lemma mail_handleBlockRequestData [simp]: "mail (handleBlockRequestData e p hs) = mail hs"
  by (simp add: handleBlockRequestData_def Let_def)

lemma mail_liveness_tick [simp]: "mail (liveness_tick e hs) = mail hs"
  by (simp add: liveness_tick_def case_prod_unfold Let_def mail_foldl)

lemma mail_after_proposal [simp]: "mail (after_proposal hs) = mail hs"
  by (simp add: after_proposal_def Let_def)

lemma mail_AddReward [simp]: "mail (AddReward n hs) = mail hs"
  by (simp add: AddReward_def)

subsubsection \<open>Registries, broadcasts and views\<close>

lemma table_facts_put:
  "table_facts (goput (h, v) reg t) \<subseteq> table_facts t \<union> {(h', v', ph, x, a). h' = h \<and> v' = v \<and> a \<in> voters (votes_for reg ph x)}"
  by (auto simp: table_facts_def split: if_splits)

lemma tidy_table_put: "tidy_table t \<Longrightarrow> (\<And>ph x. tidy_votes (votes_for reg ph x)) \<Longrightarrow> tidy_table (goput k reg t)"
  by (auto simp: tidy_table_def split: if_splits)

lemma tidy_table_get: "tidy_table t \<Longrightarrow> goget t k = Some reg \<Longrightarrow> tidy_votes (votes_for reg ph x)"
  unfolding tidy_table_def by blast

lemma learns_getOrCreate: "learns F hs (fst (getOrCreateVoteRegistry h v hs))"
proof (cases "goget (hsViewVotes hs) (h, v)")
  case (Some reg)
  then show ?thesis by (simp add: getOrCreateVoteRegistry_def)
next
  case None
  then show ?thesis
    using table_facts_put [of h v newViewVoteRegistry "hsViewVotes hs"]
    by (intro learnsI) (auto simp: getOrCreateVoteRegistry_def knows_def mail_def intro!: tidy_table_put)
qed

lemma learns_update_registry:
  assumes "\<And>reg ph x a. a \<in> voters (votes_for (f reg) ph x) \<Longrightarrow> a \<in> voters (votes_for reg ph x) \<or> (h, v, ph, x, a) \<in> F"
    and "\<And>reg ph x. (\<And>ph x. tidy_votes (votes_for reg ph x)) \<Longrightarrow> tidy_votes (votes_for (f reg) ph x)"
  shows "learns F hs (update_registry h v f hs)"
proof -
  obtain hs1 reg where g: "getOrCreateVoteRegistry h v hs = (hs1, reg)" by (metis prod.exhaust)
  have reg: "goget (hsViewVotes hs1) (h, v) = Some reg"
    using g by (auto simp: getOrCreateVoteRegistry_def split: option.splits)
  have "learns F hs1 (hs1\<lparr>hsViewVotes := goput (h, v) (f reg) (hsViewVotes hs1)\<rparr>)"
  proof (rule learnsI)
    show "table_facts (hsViewVotes (hs1\<lparr>hsViewVotes := goput (h, v) (f reg) (hsViewVotes hs1)\<rparr>)) \<subseteq> table_facts (hsViewVotes hs1) \<union> F"
      using reg by (auto simp: table_facts_def dest: assms(1) split: if_splits)
    show "tidy_table (hsViewVotes (hs1\<lparr>hsViewVotes := goput (h, v) (f reg) (hsViewVotes hs1)\<rparr>))"
      if "tidy_table (hsViewVotes hs1)"
      using that assms(2) [of reg] tidy_table_get [OF that reg] by (auto intro!: tidy_table_put)
  qed (auto simp: knows_def mail_def)
  moreover have "learns F hs hs1" using learns_getOrCreate [of F hs h v] g by simp
  ultimately show ?thesis by (auto simp: update_registry_def g Let_def intro: learns_trans)
qed

lemma learns_storeVoteSignature: "learns F hs (storeVoteSignature h v ph x a s hs)"
  by (auto simp: storeVoteSignature_def intro!: learns_update_registry split: option.splits)

lemma learns_record_vote: "learns {(h, v, ph, hexEncode b, hexEncode a)} hs (record_vote h v ph b a hs)"
  unfolding record_vote_def by (rule learns_update_registry) (auto split: if_splits)

lemma learns_record_my_vote: "learns (own (envMe e)) hs (record_my_vote e h v ph b hs)"
  unfolding record_my_vote_def by (rule learns_update_registry) (auto simp: own_def split: if_splits)

lemma learns_sign_vote: "learns F hs (sign_vote e h v ph b hs)"
  by (simp add: sign_vote_def learns_storeVoteSignature)

lemma learns_createQC: "learns F hs (fst (createQC h v ph b hs))"
  by (simp add: createQC_def case_prod_unfold Let_def learns_getOrCreate)

lemma learns_prepare_certificate: "learns F hs (prepare_certificate h v b hs)"
  by (simp add: prepare_certificate_def case_prod_unfold Let_def learns_createQC learns_to [OF mail_lock_if_not_older]
      learns_to [OF mail_setPreparedQC])

lemma learns_doBroadcast: "mSender m = me \<Longrightarrow> learns (own me) hs (doBroadcast m hs)"
  by (intro learnsI) (auto simp: doBroadcast_def knows_def mail_def chan_send_def fact_of_def own_def split: if_splits option.splits)

lemma learns_updateView: "learns F hs (updateView v hs)"
  by (rule learnsI) (auto simp: updateView_def Let_def startTimeout_def knows_def mail_def)

lemma learns_enter_height: "learns F hs (enter_height e hs)"
  by (rule learnsI) (auto simp: enter_height_def Let_def startTimeout_def recoverPanic_def triggerPropose_def knows_def mail_def
      split: sum.splits)

lemma learns_trimVotes: "learns F hs (trimVotes hs)"
proof (rule learnsI)
  show "table_facts (hsViewVotes (trimVotes hs)) \<subseteq> table_facts (hsViewVotes hs) \<union> F"
    unfolding trimVotes_def Let_def using table_del_all by (auto dest!: subsetD [OF conjunct1 [OF table_del_all]] split: if_splits)
  show "tidy_table (hsViewVotes (trimVotes hs))" if "tidy_table (hsViewVotes hs)"
    using that by (auto simp: trimVotes_def Let_def intro!: conjunct2 [OF table_del_all, THEN mp])
qed (auto simp: trimVotes_def Let_def knows_def mail_def)

lemma learns_queue_future: "learns (fact_of m) hs (queue_future m hs)"
  by (rule learnsI) (auto simp: queue_future_def knows_def mail_def chan_send_def split: if_splits)

subsubsection \<open>Handlers\<close>

lemma learns_to_own: "learns F hs1 hs2 \<Longrightarrow> mail hs1 = mail hs \<Longrightarrow> learns F hs hs2"
  using learns_from by blast

lemma learns_createNewView: "learns (own (envMe e)) hs (createNewViewAndBroadcast e v hs)"
  by (simp add: createNewViewAndBroadcast_def Let_def learns_to [OF mail_delete_timeouts] learns_doBroadcast mSender_def slice_def)

lemma learns_count_timeout: "learns (own (envMe e)) hs (count_timeout e m sig hs)"
proof -
  define hs3 where "hs3 = (let hs2 = record_timeout (mView m) (hexEncode (mSender m)) sig (mJustifyQC m) hs
      in hs2\<lparr>hsLiveness := RecordActivity (hsLiveness hs2) (mSender m) (mHeight m)\<rparr>)"
  define hs4 where "hs4 = (if HasSuperMajority (hsValidatorSet hs3) (inner (mView m) (hsTimeouts hs3))
      then createNewViewAndBroadcast e (mView m) hs3 else hs3)"
  define hs5 where "hs5 = (trimTimeouts hs4)\<lparr>hsTimeoutView := mView m\<rparr>"
  have "learns (own (envMe e)) hs hs3" by (rule learns_same) (simp add: hs3_def Let_def)
  moreover have "learns (own (envMe e)) hs3 hs4" by (simp add: hs4_def learns_createNewView)
  moreover have "learns (own (envMe e)) hs4 hs5" by (rule learns_same) (simp add: hs5_def)
  moreover have "learns (own (envMe e)) hs5 (propose_if_leader e (updateView (mView m) hs5))"
    by (simp add: learns_to [OF mail_propose_if_leader] learns_updateView)
  moreover have "count_timeout e m sig hs
      = (if mView m > hsView hs5 then propose_if_leader e (updateView (mView m) hs5) else hs5)"
    by (simp only: count_timeout_def hs5_def hs4_def hs3_def Let_def)
  ultimately show ?thesis by (auto intro: learns_trans)
qed

lemma learns_handleTimeout: "learns (own (envMe e)) hs (handleTimeout e m hs)"
  by (auto simp: handleTimeout_def Let_def learns_same intro!: learns_to_own [OF learns_count_timeout] split: option.splits)

lemma learns_handleNewView: "learns F hs (handleNewView e m hs)"
proof -
  have "learns F hs (propose_if_leader e (drop_old_timeouts v (updateView w hs2)))" if "mail hs2 = mail hs" for hs2 v w
    using learns_updateView [of F hs2 w] that
    by (simp add: learns_to [OF mail_propose_if_leader] learns_to [OF mail_drop_old_timeouts] learns_from [OF that])
  then show ?thesis
    by (auto simp: handleNewView_def Let_def dest!: mail_adopt_new_view_qc split: option.splits)
qed

lemma learns_after_commit: "learns F hs (after_commit e b h hs)"
proof -
  let ?hs2 = "finalize_block e b h (getValidatorAddresses hs) (hs\<lparr>hsCommits := hsCommits hs @ [(h, b)]\<rparr>)"
  show ?thesis
  proof (cases "maybe_rotate e h ?hs2")
    case None
    then show ?thesis by (simp add: after_commit_def Let_def learns_same)
  next
    case (Some hs3)
    then have m3: "mail hs3 = mail ?hs2"
      by (auto simp: maybe_rotate_def split: if_splits dest: mail_rotateEpoch)
    then show ?thesis using Some
      by (auto simp: after_commit_def Let_def intro!: learns_same learns_to_own [OF learns_enter_height])
  qed
qed

lemma learns_decide: "learns F hs (decide e b h hs)"
  by (auto simp: decide_def Let_def learns_same intro!: learns_to_own [OF learns_after_commit])

lemma learns_self_prepare: "learns (own (envMe e)) hs (self_prepare e b h v hs)"
proof -
  let ?F = "own (envMe e)"
  define hs2 where "hs2 = (let hs1 = record_my_vote e h v PhasePrepare b hs
      in hs1\<lparr>hsLiveness := RecordActivity (hsLiveness hs1) (envMe e) h\<rparr>)"
  have 2: "learns ?F hs hs2"
    by (simp add: hs2_def Let_def learns_to [OF mail_updates(2)] learns_record_my_vote)
  have 3: "learns ?F hs2 (doBroadcast (vote_message e MsgVotePrepare h v b sg)
      (storeVoteSignature h v PhasePrepare (hexEncode b) (hexEncode (envMe e)) sg hs2))" for sg
    by (rule learns_trans [OF learns_storeVoteSignature learns_doBroadcast])
      (simp add: mSender_def vote_message_def slice_def)
  have "self_prepare e b h v hs = (case envSign e (createVoteData hs2 h v PhasePrepare b) of
      None \<Rightarrow> hs2
    | Some s \<Rightarrow> doBroadcast (vote_message e MsgVotePrepare h v b (Some s))
        (storeVoteSignature h v PhasePrepare (hexEncode b) (hexEncode (envMe e)) (Some s) hs2))"
    by (simp only: self_prepare_def hs2_def Let_def)
  then show ?thesis using 2 3 by (auto intro: learns_trans split: option.splits)
qed

lemma learns_self_phase_vote: "learns (own (envMe e)) hs (self_phase_vote e b h v ph hs)"
  unfolding self_phase_vote_def
  by (rule learns_trans [OF learns_to_own [OF learns_record_my_vote mail_setPhase] learns_sign_vote])

lemma learns_selfVote: "learns (own (envMe e)) hs (selfVote e b h v hs)"
proof -
  let ?F = "own (envMe e)"
  define hs3 where "hs3 = self_prepare e b h v hs"
  define hs5 where "hs5 = self_phase_vote e b h v PhasePreCommit (prepare_certificate h v b hs3)"
  define hs6 where "hs6 = self_phase_vote e b h v PhaseCommit hs5"
  have 3: "learns ?F hs hs3" by (simp add: hs3_def learns_self_prepare)
  have 5: "learns ?F hs hs5" unfolding hs5_def
    by (rule learns_trans [OF 3 learns_trans [OF learns_prepare_certificate learns_self_phase_vote]])
  have 6: "learns ?F hs hs6" unfolding hs6_def by (rule learns_trans [OF 5 learns_self_phase_vote])
  show ?thesis
    using 3 5 6 learns_trans [OF 6 learns_decide]
    by (auto simp: selfVote_def Let_def hs3_def [symmetric] hs5_def [symmetric] hs6_def [symmetric])
qed

lemma learns_advancePhase: "learns (own (envMe e)) hs (advancePhase e ph hs)"
proof (cases "hsPreparedQC hs")
  case None
  then show ?thesis by (simp add: advancePhase_def)
next
  case (Some pq)
  let ?F = "own (envMe e)"
  define hs1 where "hs1 = startTimeout (setPhase ph hs)"
  define b where "b = qcBlockHash pq"
  have 1: "learns ?F hs hs1" by (rule learns_same) (simp add: hs1_def)
  have 2: "learns ?F hs1 (storeVoteSignature h2 v2 ph x a sg (record_my_vote e h1 v1 ph b
      (doBroadcast (vote_message e ty h v b sg) hs1)))" for h2 v2 x a sg h1 v1 ty h v
    by (rule learns_trans [OF learns_trans [OF learns_doBroadcast learns_record_my_vote] learns_storeVoteSignature])
      (simp add: mSender_def vote_message_def slice_def)
  show ?thesis
    using Some 1 learns_trans [OF 1 2]
    by (simp add: advancePhase_def Let_def flip: hs1_def b_def)
qed

lemma learns_act_on_quorum: "learns (own (envMe e)) hs (act_on_quorum e m ph hs)"
proof -
  let ?F = "own (envMe e)"
  obtain hs1 q where c: "createQC (mHeight m) (mView m) ph (mBlockHash m) hs = (hs1, q)" by (metis prod.exhaust)
  have 1: "learns ?F hs hs1" using learns_createQC [of ?F hs] c by (metis fst_conv)
  have 2: "learns ?F hs1 (advancePhase e PhasePreCommit (lock_if_not_older q (setPreparedQC (Some q) hs1)))"
    by (rule learns_to_own [OF learns_advancePhase]) simp
  show ?thesis
    using 1 2 learns_advancePhase [of e hs1] learns_decide [of ?F hs1]
    by (auto simp: act_on_quorum_def c intro: learns_trans)
qed

lemma learns_count_vote:
  "learns {(mHeight m, mView m, ph, hexEncode (mBlockHash m), hexEncode (mSender m))} hs (count_vote m ph hs)"
  by (simp add: count_vote_def Let_def learns_to [OF mail_updates(2)]
      learns_trans [OF learns_record_vote learns_storeVoteSignature])

lemma learns_handleVote:
  assumes "msg_phase (mType m) = Some ph"
  shows "learns (own (envMe e) \<union> fact_of m) hs (handleVote e m ph hs)"
proof -
  let ?F = "own (envMe e) \<union> fact_of m"
  have cv: "learns ?F hs (count_vote m ph (hs\<lparr>hsDoubleSign := d\<rparr>))" for d
    by (rule learns_mono [OF learns_to_own [OF learns_count_vote]]) (simp_all add: fact_of_def assms)
  have aq: "learns ?F hs1 (act_on_quorum e m ph hs1)" for hs1
    by (rule learns_mono [OF learns_act_on_quorum]) simp
  show ?thesis
    using cv aq
    by (auto simp: handleVote_def Let_def learns_same learns_to [OF mail_startTimeout]
        intro: learns_trans [OF _ learns_trimVotes] learns_trans split: prod.splits option.splits)
qed

lemma learns_accept_proposal: "learns (own (envMe e)) hs (accept_proposal e m sig hs)"
proof -
  let ?F = "own (envMe e)"
  define hs4 where "hs4 = (let hs3 = storeVoteSignature (mHeight m) (mView m) PhasePrepare (hexEncode (mBlockHash m))
            (hexEncode (envMe e)) (Some sig) (record_my_vote e (mHeight m) (mView m) PhasePrepare (mBlockHash m)
              (doBroadcast (vote_message e MsgVotePrepare (mHeight m) (mView m) (mBlockHash m) (Some sig)) hs))
      in hs3\<lparr>hsLiveness := RecordActivity (hsLiveness hs3) (envMe e) (mHeight m)\<rparr>)"
  have "learns ?F hs hs4"
    unfolding hs4_def Let_def learns_to [OF mail_updates(2)]
    by (rule learns_trans [OF learns_trans [OF learns_doBroadcast learns_record_my_vote] learns_storeVoteSignature])
      (simp add: mSender_def vote_message_def slice_def)
  moreover have "accept_proposal e m sig hs = setPhase PhasePreCommit (startTimeout
      (if has_quorum hs4 (mHeight m) (mView m) PhasePrepare (mBlockHash m)
       then prepare_certificate (mHeight m) (mView m) (mBlockHash m) hs4 else hs4))"
    by (simp only: accept_proposal_def hs4_def Let_def)
  ultimately show ?thesis
    by (auto simp: learns_to [OF mail_setPhase] learns_to [OF mail_startTimeout]
        intro: learns_trans [OF _ learns_prepare_certificate])
qed

lemma learns_vote_for_block: "learns (own (envMe e)) hs (vote_for_block e m hs)"
proof -
  let ?F = "own (envMe e)"
  have "learns ?F hs (fst (getOrCreateVoteRegistry (mHeight m) (mView m) (add_pending m hs)))"
    by (rule learns_to_own [OF learns_getOrCreate]) simp
  then show ?thesis
    by (auto simp: vote_for_block_def Let_def case_prod_unfold
        intro: learns_trans [OF _ learns_accept_proposal] split: option.splits)
qed

lemma learns_judge_proposal: "learns (own (envMe e)) hs (judge_proposal e m hs)"
  by (auto simp: judge_proposal_def Let_def learns_same
      intro!: learns_to_own [OF learns_vote_for_block] split: option.splits)

lemma learns_handleProposal: "learns (own (envMe e)) hs (handleProposal e m hs)"
  by (auto simp: handleProposal_def learns_same intro!: learns_to_own [OF learns_judge_proposal]
      split: sum.splits option.splits prod.splits)

lemma learns_catch_up_view: "learns F hs (catch_up_view m hs)"
  by (simp add: catch_up_view_def learns_updateView)

lemma learns_handleMessageLocked: "learns (own (envMe e) \<union> fact_of m) hs (handleMessageLocked e m hs)"
proof -
  let ?F = "own (envMe e) \<union> fact_of m"
  have "learns ?F hs (handleVote e m ph (catch_up_view m hs))" if "msg_phase (mType m) = Some ph" for ph
    by (rule learns_trans [OF learns_catch_up_view learns_handleVote [OF that]])
  moreover have "learns ?F hs (handleProposal e m (catch_up_view m hs))"
    by (rule learns_mono [OF learns_trans [OF learns_catch_up_view learns_handleProposal]]) simp
  moreover have "learns ?F hs (handleTimeout e m hs)"
    by (rule learns_mono [OF learns_handleTimeout]) simp
  moreover have "learns ?F hs (handleNewView e m (catch_up_view m hs))"
    by (rule learns_trans [OF learns_catch_up_view learns_handleNewView])
  moreover have "learns ?F hs (queue_future m hs1)" if "mail hs1 = mail hs" for hs1
    by (rule learns_mono [OF learns_to_own [OF learns_queue_future that]]) simp
  ultimately show ?thesis
    by (auto simp: handleMessageLocked_def split: message_type.splits)
qed

lemma learns_send_proposal: "learns (own (envMe e)) hs (send_proposal e (envMe e) d b sig hs)"
  by (simp add: send_proposal_def learns_to [OF mail_after_proposal] mSender_def proposal_message_def slice_def
      learns_trans [OF learns_doBroadcast learns_selfVote])

lemma learns_proposeLocked: "learns (own (envMe e)) hs (fst (proposeLocked e hs))"
proof -
  have send: "learns (own a) hs (send_proposal e a d b sig hs1)"
    if "mail hs1 = mail hs" "envMe e = a" for a d b sig hs1
    using learns_to_own [OF learns_send_proposal that(1)] that(2) by metis
  show ?thesis
    by (auto simp: proposeLocked_def Let_def learns_same intro!: send split: sum.splits option.splits prod.splits)
qed

lemma mail_apply_request [simp]: "mail (fst (apply_request e b h hs)) = mail hs"
  by (simp add: apply_request_def Let_def)

lemma mail_defaultBlockApplier [simp]: "mail (fst (defaultBlockApplier e hs d)) = mail hs"
  by (simp add: defaultBlockApplier_def Let_def split: option.splits)

lemma mail_receive_block [simp]: "mail (receive_block e d hs) = mail hs"
proof -
  have "mail (fst (snd (ApplyBlock (defaultBlockApplier e) (hsSyncer hs) hs d (envNow e)))) = mail hs"
    by (rule ApplyBlock_preserves [where P = "\<lambda>s. mail s = mail hs"]) simp_all
  then show ?thesis by (simp add: receive_block_def ReceiveBlock_def case_prod_unfold)
qed

lemma mail_check_rate [simp]: "mail (fst (check_rate e m hs)) = mail hs"
  by (simp add: check_rate_def case_prod_unfold Let_def split: option.splits)

lemma learns_HandleMessage: "learns (fact_of m) hs (HandleMessage e m hs)"
proof -
  have push: "learns (fact_of m) hs (hs1\<lparr>hsMessageCh := chan_send n (hsMessageCh hs1) m\<rparr>)"
    if "mail hs1 = mail hs" for n hs1
    unfolding learns_from [OF that, symmetric]
    by (rule learnsI) (auto simp: knows_def mail_def chan_send_def split: if_splits)
  have queue: "learns (fact_of m) hs (queue_future m hs1)" if "mail hs1 = mail hs" for hs1
    by (rule learns_to_own [OF learns_queue_future that])
  obtain hs1 al where r: "check_rate e m hs = (hs1, al)" by (metis prod.exhaust)
  have m1: "mail hs1 = mail hs" using mail_check_rate [of e m hs] r by simp
  have same: "learns (fact_of m) hs hs'" if "mail hs' = mail hs1" for hs'
    using that m1 by (simp add: learns_same)
  show ?thesis
    using m1 by (auto simp: HandleMessage_def r intro: same push queue)
qed

lemma learns_updateView_after: "learns F hs hs1 \<Longrightarrow> learns F hs (propose_if_leader e (updateView v hs1))"
  by (simp add: learns_to [OF mail_propose_if_leader]) (blast intro: learns_trans learns_updateView)

lemma learns_on_view_timeout: "learns (own (envMe e)) hs (on_view_timeout e hs)"
proof -
  have bc: "learns (own (envMe e)) hs (record_timeout v a s q (doBroadcast m hs))" if "mSender m = envMe e" for v a s q m
    using that by (simp add: learns_to [OF mail_record_timeout] learns_doBroadcast)
  show ?thesis
    by (auto simp: on_view_timeout_def Let_def mSender_def slice_def split: option.splits
        intro!: bc learns_updateView_after learns_trans [OF bc learns_createNewView])
qed

lemma learns_pop:
  "hsMessageCh hs = m # rest \<Longrightarrow> learns (own me \<union> fact_of m) (hs\<lparr>hsMessageCh := rest\<rparr>) hs' \<Longrightarrow> learns (own me) hs hs'"
  "hsFutureCh hs = m # rest \<Longrightarrow> learns (own me \<union> fact_of m) (hs\<lparr>hsFutureCh := rest\<rparr>) hs' \<Longrightarrow> learns (own me) hs hs'"
  "hsSyncCh hs = m # rest \<Longrightarrow> learns (own me \<union> fact_of m) (hs\<lparr>hsSyncCh := rest\<rparr>) hs' \<Longrightarrow> learns (own me) hs hs'"
  by (auto simp: learns_def knows_def tidy_def mail_def)

text \<open>What an event brings in from outside.\<close>

fun event_facts :: "event \<Rightarrow> vote_fact set" where
  "event_facts (EvMessage m) = fact_of m"
| "event_facts _ = {}"

lemma learns_loop_message: "learns (own (envMe e)) hs (loop_message e hs)"
  by (auto simp: loop_message_def intro!: learns_pop(1) learns_handleMessageLocked split: list.splits)

lemma learns_futureLoop: "learns (own (envMe e)) hs (futureLoop_turn e hs)"
proof (cases "hsFutureCh hs")
  case Nil
  then show ?thesis by (simp add: futureLoop_turn_def)
next
  case (Cons m rest)
  have "learns (own (envMe e) \<union> fact_of m) (hs\<lparr>hsFutureCh := rest\<rparr>)
      (hs\<lparr>hsFutureCh := chan_send 500 rest m\<rparr>)"
    by (rule learnsI) (auto simp: knows_def mail_def chan_send_def split: if_splits)
  then show ?thesis
    using Cons learns_handleMessageLocked [of e m "hs\<lparr>hsFutureCh := rest\<rparr>"]
    by (auto simp: futureLoop_turn_def Let_def intro: learns_pop(2))
qed

lemma learns_syncLoop: "learns (own (envMe e)) hs (syncLoop_turn e hs)"
proof (cases "hsSyncCh hs")
  case Nil
  then show ?thesis by (simp add: syncLoop_turn_def)
next
  case (Cons m rest)
  have "learns (own (envMe e) \<union> fact_of m) (hs\<lparr>hsSyncCh := rest\<rparr>) (processSyncMessage e m (hs\<lparr>hsSyncCh := rest\<rparr>))"
    by (auto simp: processSyncMessage_def learns_same intro!: learns_mono [OF learns_HandleMessage])
  then show ?thesis
    using Cons by (auto simp: syncLoop_turn_def intro: learns_pop(3))
qed

lemma learns_loop_propose: "learns (own (envMe e)) hs (loop_propose e hs)"
  by (auto simp: loop_propose_def intro!: learns_to_own [OF learns_proposeLocked])

lemma learns_timer_fires: "learns (own (envMe e)) hs (timer_fires e hs)"
  by (auto simp: timer_fires_def learns_same intro!: learns_to_own [OF learns_proposeLocked]
      learns_to_own [OF learns_on_view_timeout] split: timer.splits)

lemma learns_hs_step: "learns (own (envMe e) \<union> event_facts x) hs (hs_step hs (e, x))"
proof -
  let ?F = "own (envMe e) \<union> event_facts x"
  have own: "learns (own (envMe e)) hs hs' \<Longrightarrow> learns ?F hs hs'" for hs'
    by (erule learns_mono) simp
  show ?thesis
    by (cases x) (auto simp: hs_step_def case_prod_unfold Let_def learns_same
        learns_mono [OF learns_HandleMessage]
        intro: own learns_loop_message learns_futureLoop learns_syncLoop learns_loop_propose learns_timer_fires)
qed

subsection \<open>Commits rest on quorums of commit votes\<close>

text \<open>
  \<open>commit_voted V F hs hs'\<close>: if a block was committed on the way from \<open>hs\<close> to \<open>hs'\<close>, it is one
  block at the engine's height, with a super-majority of \<open>V\<close> whose commit votes for that block are
  facts of \<open>F\<close>.
\<close>

definition commit_voted :: "validator_set \<Rightarrow> vote_fact set \<Rightarrow> engine \<Rightarrow> engine \<Rightarrow> bool" where
  "commit_voted V F hs hs' \<longleftrightarrow> hsCommits hs' = hsCommits hs \<or>
     (\<exists>b v votes. hsCommits hs' = hsCommits hs @ [(hsHeight hs, b)] \<and> HasSuperMajority V votes \<and>
        tidy_votes votes \<and> (\<forall>a \<in> voters votes. (hsHeight hs, v, PhaseCommit, hexEncode b, a) \<in> F))"

lemma commit_voted_core: "core hs' = core hs \<Longrightarrow> commit_voted V F hs hs'"
  by (simp add: commit_voted_def core_def)

lemma commit_voted_to: "core hs2 = core hs1 \<Longrightarrow> commit_voted V F hs hs2 \<longleftrightarrow> commit_voted V F hs hs1"
  by (simp add: commit_voted_def core_eqD(3) [of hs2 hs1])

lemma commit_voted_mono: "commit_voted V F hs hs' \<Longrightarrow> F \<subseteq> G \<Longrightarrow> commit_voted V G hs hs'"
  unfolding commit_voted_def by blast

lemma has_quorum_votes:
  assumes "has_quorum hs h v ph b" "tidy hs"
  shows "\<exists>votes. HasSuperMajority (hsValidatorSet hs) votes \<and> tidy_votes votes \<and>
    (\<forall>a \<in> voters votes. (h, v, ph, hexEncode b, a) \<in> knows hs)"
proof (intro exI conjI)
  show "HasSuperMajority (hsValidatorSet hs) (registry_votes hs h v ph b)"
    using assms(1) by (simp add: has_quorum_def)
  show "tidy_votes (registry_votes hs h v ph b)"
    using assms(2) by (auto simp: registry_votes_def tidy_def mail_def dest: tidy_table_get split: option.splits)
  show "\<forall>a \<in> voters (registry_votes hs h v ph b). (h, v, ph, hexEncode b, a) \<in> knows hs"
    by (auto simp: registry_votes_def knows_def mail_def table_facts_def split: option.splits)
qed

lemma after_commit_commits: "hsCommits (after_commit e b h hs) = hsCommits hs @ [(h, b)]"
proof -
  let ?hs2 = "finalize_block e b h (getValidatorAddresses hs) (hs\<lparr>hsCommits := hsCommits hs @ [(h, b)]\<rparr>)"
  have c2: "hsCommits ?hs2 = hsCommits hs @ [(h, b)]" by (simp add: finalize_block_def)
  have er: "hsCommits (enter_height e s) = hsCommits s" for s
    using core_enter_height [of s "hsHeight s" "hsView s" "hsCommits s" "hsRunning s" e] by (auto simp: core_def)
  show ?thesis
  proof (cases "maybe_rotate e h ?hs2")
    case None
    then show ?thesis using c2 by (simp add: after_commit_def Let_def recoverPanic_def)
  next
    case (Some hs3)
    then have "core hs3 = core ?hs2"
      by (auto simp: maybe_rotate_def split: if_splits dest: core_rotateEpoch)
    then have "hsCommits (distributeRewards e hs3) = hsCommits hs @ [(h, b)]"
      using core_eqD(3) [OF core_distributeRewards, of e hs3] core_eqD(3) c2 by metis
    then show ?thesis using Some by (simp add: after_commit_def Let_def er)
  qed
qed

lemma decide_commits:
  "hsCommits (decide e b h hs) =
     (if lock_conflict hs b h \<or> \<not> envCommitBlock e b h then hsCommits hs else hsCommits hs @ [(h, b)])"
proof -
  have "hsCommits (mark_decided b h hs) = hsCommits hs" using core_eqD(3) [OF core_mark_decided] .
  then show ?thesis by (auto simp: decide_def Let_def after_commit_commits)
qed

text \<open>Voting leaves the validator set alone.\<close>

lemma vset_update_registry [simp]: "hsValidatorSet (update_registry h v f hs) = hsValidatorSet hs"
  by (simp add: update_registry_def getOrCreateVoteRegistry_def Let_def split: option.splits)

lemma vset_getOrCreate [simp]: "hsValidatorSet (fst (getOrCreateVoteRegistry h v hs)) = hsValidatorSet hs"
  by (simp add: getOrCreateVoteRegistry_def split: option.splits)

lemma vset_storeVoteSignature [simp]: "hsValidatorSet (storeVoteSignature h v ph x a s hs) = hsValidatorSet hs"
  by (simp add: storeVoteSignature_def split: option.splits)

lemma vset_votes [simp]:
  "hsValidatorSet (record_vote h v ph b a hs) = hsValidatorSet hs"
  "hsValidatorSet (record_my_vote e h v ph b hs) = hsValidatorSet hs"
  "hsValidatorSet (sign_vote e h v ph b hs) = hsValidatorSet hs"
  "hsValidatorSet (setPhase ph hs) = hsValidatorSet hs"
  "hsValidatorSet (setLockedQC q hs) = hsValidatorSet hs"
  "hsValidatorSet (setPreparedQC q hs) = hsValidatorSet hs"
  "hsValidatorSet (doBroadcast m hs) = hsValidatorSet hs"
  by (simp_all add: record_vote_def record_my_vote_def sign_vote_def setPhase_def setLockedQC_def
      setPreparedQC_def doBroadcast_def)

lemma vset_lock [simp]: "hsValidatorSet (lock_if_not_older q hs) = hsValidatorSet hs"
  by (simp add: lock_if_not_older_def split: option.splits)

lemma vset_createQC [simp]: "hsValidatorSet (fst (createQC h v ph b hs)) = hsValidatorSet hs"
  by (simp add: createQC_def case_prod_unfold Let_def)

lemma vset_prepare_certificate [simp]: "hsValidatorSet (prepare_certificate h v b hs) = hsValidatorSet hs"
  by (simp add: prepare_certificate_def case_prod_unfold Let_def)

lemma vset_self [simp]:
  "hsValidatorSet (self_prepare e b h v hs) = hsValidatorSet hs"
  "hsValidatorSet (self_phase_vote e b h v ph hs) = hsValidatorSet hs"
  by (simp_all add: self_prepare_def self_phase_vote_def Let_def split: option.splits)

lemma vset_count_vote [simp]: "hsValidatorSet (count_vote m ph hs) = hsValidatorSet hs"
  by (simp add: count_vote_def Let_def)

lemma vset_updateView [simp]: "hsValidatorSet (updateView v hs) = hsValidatorSet hs"
  by (simp add: updateView_def Let_def startTimeout_def)

lemma vset_catch_up_view [simp]: "hsValidatorSet (catch_up_view m hs) = hsValidatorSet hs"
  by (simp add: catch_up_view_def)

text \<open>A decision taken in a state \<open>hs1\<close> that has a quorum, reached from \<open>hs\<close>.\<close>

lemma decide_voted:
  assumes q: "has_quorum hs1 h v PhaseCommit b" and l: "learns F hs hs1" and t: "tidy hs"
    and V: "hsValidatorSet hs1 = V" and h: "hsHeight hs = h" and c: "hsCommits hs1 = hsCommits hs"
    and d: "hsCommits hs2 = hsCommits hs1"
  shows "commit_voted V (knows hs \<union> F) hs (decide e b h hs2)"
proof -
  have t1: "tidy hs1" and k1: "knows hs1 \<subseteq> knows hs \<union> F" using l t by (auto simp: learns_def)
  from has_quorum_votes [OF q t1] obtain votes where "HasSuperMajority V votes" "tidy_votes votes"
    "\<forall>a \<in> voters votes. (h, v, PhaseCommit, hexEncode b, a) \<in> knows hs \<union> F"
    using k1 V by blast
  then show ?thesis
    using c d h unfolding commit_voted_def by (auto simp: decide_commits)
qed

lemma selfVote_voted:
  assumes "tidy hs" "hsHeight hs = h"
  shows "commit_voted (hsValidatorSet hs) (knows hs \<union> own (envMe e)) hs (selfVote e b h v hs)"
proof -
  let ?F = "own (envMe e)"
  define hs3 where "hs3 = self_prepare e b h v hs"
  define hs5 where "hs5 = self_phase_vote e b h v PhasePreCommit (prepare_certificate h v b hs3)"
  define hs6 where "hs6 = self_phase_vote e b h v PhaseCommit hs5"
  have "learns ?F hs hs3" by (simp add: hs3_def learns_self_prepare)
  then have "learns ?F hs hs5" unfolding hs5_def
    by (blast intro: learns_trans learns_prepare_certificate learns_self_phase_vote)
  then have l6: "learns ?F hs hs6" unfolding hs6_def by (rule learns_trans [OF _ learns_self_phase_vote])
  have c: "core hs3 = core hs" "core hs5 = core hs" "core hs6 = core hs"
    by (simp_all add: hs3_def hs5_def hs6_def)
  have V: "hsValidatorSet hs6 = hsValidatorSet hs" by (simp add: hs3_def hs5_def hs6_def)
  have "commit_voted (hsValidatorSet hs) (knows hs \<union> ?F) hs (decide e b h hs6)"
    if "has_quorum hs6 h v PhaseCommit b"
    by (rule decide_voted [OF that l6 assms(1) V assms(2) core_eqD(3) [OF c(3)] refl])
  then show ?thesis
    using c by (auto simp: selfVote_def Let_def commit_voted_core
        simp flip: hs3_def hs5_def hs6_def)
qed

lemma commit_voted_from:
  assumes "commit_voted V F hs1 hs'" "core hs1 = core hs"
  shows "commit_voted V F hs hs'"
  using assms core_eqD [OF assms(2)] by (simp add: commit_voted_def)

lemma proposeLocked_voted:
  assumes "tidy hs"
  shows "commit_voted (hsValidatorSet hs) (knows hs \<union> own (envMe e)) hs (fst (proposeLocked e hs))"
proof -
  let ?F = "own (envMe e)"
  have send: "commit_voted (hsValidatorSet hs) (knows hs \<union> own a) hs (send_proposal e a d b sig hs1)"
    if hs1: "mail hs1 = mail hs" "core hs1 = core hs" "hsValidatorSet hs1 = hsValidatorSet hs" "envMe e = a"
    for hs1 a d b sig
  proof -
    let ?hs2 = "doBroadcast (proposal_message e a d b sig hs1) hs1"
    have l: "learns ?F hs ?hs2"
      by (rule learns_to_own [OF learns_doBroadcast hs1(1)]) (simp add: mSender_def proposal_message_def slice_def hs1(4))
    then have t2: "tidy ?hs2" and k2: "knows ?hs2 \<subseteq> knows hs \<union> ?F" using assms by (auto simp: learns_def)
    have "hsHeight ?hs2 = hsHeight hs1" using core_eqD(1) [OF core_doBroadcast] .
    from selfVote_voted [OF t2 this, of e b "hsView hs1"] k2
    have "commit_voted (hsValidatorSet hs) (knows hs \<union> ?F) ?hs2 (selfVote e b (hsHeight hs1) (hsView hs1) ?hs2)"
      by (auto simp: hs1(3) intro: commit_voted_mono)
    then have "commit_voted (hsValidatorSet hs) (knows hs \<union> ?F) hs (selfVote e b (hsHeight hs1) (hsView hs1) ?hs2)"
      by (rule commit_voted_from) (simp add: hs1(2))
    then show ?thesis
      by (simp add: send_proposal_def commit_voted_to [OF core_after_proposal] hs1(4))
  qed
  show ?thesis
    by (auto simp: proposeLocked_def Let_def commit_voted_core intro!: send split: sum.splits option.splits prod.splits)
qed

lemma act_on_quorum_voted:
  assumes q: "has_quorum hs1 (mHeight m) (mView m) ph (mBlockHash m)" and l: "learns F hs hs1"
    and t: "tidy hs" and V: "hsValidatorSet hs1 = hsValidatorSet hs" and h: "hsHeight hs = mHeight m"
    and c: "hsCommits hs1 = hsCommits hs"
  shows "commit_voted (hsValidatorSet hs) (knows hs \<union> F) hs (act_on_quorum e m ph hs1)"
proof -
  obtain hs2 qc where cq: "createQC (mHeight m) (mView m) ph (mBlockHash m) hs1 = (hs2, qc)" by (metis prod.exhaust)
  have c2: "core hs2 = core hs1" using core_createQC cq by (metis fst_conv)
  have nc: "hsCommits hs' = hsCommits hs" if "core hs' = core hs1" for hs'
    using core_eqD(3) [OF that] c by simp
  show ?thesis
  proof (cases "ph = PhaseCommit")
    case True
    have "commit_voted (hsValidatorSet hs) (knows hs \<union> F) hs (decide e (mBlockHash m) (mHeight m) hs2)"
      using q True by (intro decide_voted [OF _ l t V h c]) (simp_all add: nc c c2)
    then show ?thesis using True cq by (simp add: act_on_quorum_def)
  next
    case False
    then have "core (act_on_quorum e m ph hs1) = core hs1" using c2 by (simp add: act_on_quorum_def cq)
    then show ?thesis by (simp add: commit_voted_def nc)
  qed
qed

lemma handleVote_voted:
  assumes ph: "msg_phase (mType m) = Some ph" and t: "tidy hs" and h: "hsHeight hs = mHeight m"
  shows "commit_voted (hsValidatorSet hs) (knows hs \<union> fact_of m) hs (handleVote e m ph hs)"
proof -
  have cv: "learns (fact_of m) hs (count_vote m ph (hs\<lparr>hsDoubleSign := d\<rparr>))" for d
    by (rule learns_mono [OF learns_to_own [OF learns_count_vote]]) (simp_all add: fact_of_def ph)
  have cc: "core (count_vote m ph (hs\<lparr>hsDoubleSign := d\<rparr>)) = core hs" for d by simp
  have "commit_voted (hsValidatorSet hs) (knows hs \<union> fact_of m) hs
      (act_on_quorum e m ph (count_vote m ph (hs\<lparr>hsDoubleSign := d\<rparr>)))"
    if "has_quorum (count_vote m ph (hs\<lparr>hsDoubleSign := d\<rparr>)) (mHeight m) (mView m) ph (mBlockHash m)" for d
    using that by (rule act_on_quorum_voted [OF _ cv t _ h core_eqD(3) [OF cc]]) simp
  then show ?thesis
    by (auto simp: handleVote_def Let_def commit_voted_core commit_voted_to [OF core_trimVotes]
        split: prod.splits option.splits)
qed

lemma handleMessageLocked_voted:
  assumes t: "tidy hs"
  shows "commit_voted (hsValidatorSet hs) (knows hs \<union> fact_of m) hs (handleMessageLocked e m hs)"
proof -
  obtain h v cs r where c: "core hs = (h, v, cs, r)" by (rule core_cases)
  let ?cu = "catch_up_view m hs"
  have cu: "core ?cu = (h, max v (mView m), cs, r)" by (rule core_catch_up_view [OF c])
  have lc: "tidy ?cu" "knows ?cu \<subseteq> knows hs" using learns_catch_up_view [of "{}" hs m] t by (auto simp: learns_def)
  have keep: "commit_voted V F hs hs'" if "\<exists>v' r'. core hs' = (h, v', cs, r')" for V F hs'
    using that c by (auto simp: commit_voted_def core_def)
  have "commit_voted (hsValidatorSet hs) (knows hs \<union> fact_of m) hs (handleVote e m ph ?cu)"
    if ph: "msg_phase (mType m) = Some ph" and h: "hsHeight hs = mHeight m" for ph
  proof -
    have "hsHeight ?cu = mHeight m" using h core_height [OF c] core_height [OF cu] by simp
    from handleVote_voted [OF ph lc(1) this, of e] lc(2)
    have "commit_voted (hsValidatorSet hs) (knows hs \<union> fact_of m) ?cu (handleVote e m ph ?cu)"
      by (auto intro: commit_voted_mono)
    then show ?thesis using c cu by (simp add: commit_voted_def core_def)
  qed
  moreover have "commit_voted V F hs (handleProposal e m ?cu)" for V F
    using core_handleProposal [of e m ?cu] cu core_recoverPanic [OF cu] by (intro keep) auto
  moreover have "commit_voted V F hs (handleTimeout e m hs)" for V F
    using core_handleTimeout [OF c, of e m] by (intro keep) auto
  moreover have "commit_voted V F hs (handleNewView e m ?cu)" for V F
    using core_handleNewView [OF cu, of e m] by (intro keep) auto
  ultimately show ?thesis
    by (auto simp: handleMessageLocked_def commit_voted_core split: message_type.splits)
qed

lemma commit_voted_pop:
  assumes m: "mail hs = (vv, xs)" "mail hs1 = (vv, ys)" "(\<Union>x \<in> set ys. fact_of x) \<union> G \<subseteq> (\<Union>x \<in> set xs. fact_of x)"
    and V: "hsValidatorSet hs1 = hsValidatorSet hs" and c: "core hs1 = core hs"
    and v: "commit_voted (hsValidatorSet hs1) (knows hs1 \<union> G) hs1 hs'"
  shows "commit_voted (hsValidatorSet hs) (knows hs) hs hs'"
proof -
  have "knows hs1 \<union> G \<subseteq> knows hs" using m by (auto simp: knows_def)
  from commit_voted_from [OF commit_voted_mono [OF v this] c] show ?thesis by (simp add: V)
qed

text \<open>The turns in which the engine itself may decide; blocks also arrive through the syncer.\<close>

fun syncing_event :: "event \<Rightarrow> bool" where
  "syncing_event (EvMessage m) = True"
| "syncing_event EvSync = True"
| "syncing_event _ = False"

lemma loop_message_voted:
  assumes t: "tidy hs"
  shows "commit_voted (hsValidatorSet hs) (knows hs) hs (loop_message e hs)"
proof (cases "hsMessageCh hs")
  case Nil
  then show ?thesis by (simp add: loop_message_def commit_voted_core)
next
  case (Cons m rest)
  let ?hs1 = "hs\<lparr>hsMessageCh := rest\<rparr>"
  have "tidy ?hs1" using t by (simp add: tidy_def mail_def)
  from handleMessageLocked_voted [OF this, of m e]
  have "commit_voted (hsValidatorSet hs) (knows hs) hs (handleMessageLocked e m ?hs1)"
    by (rule commit_voted_pop [rotated 5]) (auto simp: mail_def Cons)
  then show ?thesis by (simp add: loop_message_def Cons)
qed

lemma futureLoop_voted:
  assumes t: "tidy hs"
  shows "commit_voted (hsValidatorSet hs) (knows hs) hs (futureLoop_turn e hs)"
proof (cases "hsFutureCh hs")
  case Nil
  then show ?thesis by (simp add: futureLoop_turn_def commit_voted_core)
next
  case (Cons m rest)
  let ?hs1 = "hs\<lparr>hsFutureCh := rest\<rparr>"
  have "tidy ?hs1" using t by (simp add: tidy_def mail_def)
  from handleMessageLocked_voted [OF this, of m e]
  have "commit_voted (hsValidatorSet hs) (knows hs) hs (handleMessageLocked e m ?hs1)"
    by (rule commit_voted_pop [rotated 5]) (auto simp: mail_def Cons)
  then show ?thesis by (simp add: futureLoop_turn_def Cons Let_def commit_voted_core)
qed

lemma hs_step_voted:
  assumes t: "tidy hs" and x: "\<not> syncing_event x"
  shows "commit_voted (hsValidatorSet hs) (knows hs \<union> own (envMe e)) hs (hs_step hs (e, x))"
proof -
  have prop_pop: "commit_voted (hsValidatorSet hs) (knows hs \<union> own (envMe e)) hs (fst (proposeLocked e hs1))"
    if "mail hs1 = mail hs" "hsValidatorSet hs1 = hsValidatorSet hs" "core hs1 = core hs" for hs1
  proof -
    have "tidy hs1" "knows hs1 = knows hs" using t that(1) by (simp_all add: tidy_def knows_def)
    with commit_voted_from [OF proposeLocked_voted that(3), of e] that(2) show ?thesis by simp
  qed
  have timer: "commit_voted V F hs (on_view_timeout e (hs\<lparr>hsTimer := NoTimer\<rparr>))" for V F
  proof -
    obtain h v cs r where c: "core hs = (h, v, cs, r)" by (rule core_cases)
    then have "core (hs\<lparr>hsTimer := NoTimer\<rparr>) = (h, v, cs, r)" by simp
    from on_view_timeout_core [OF this, of e] c show ?thesis by (auto simp: commit_voted_def core_def)
  qed
  have loops: "commit_voted (hsValidatorSet hs) (knows hs \<union> own (envMe e)) hs (loop_message e hs)"
    "commit_voted (hsValidatorSet hs) (knows hs \<union> own (envMe e)) hs (futureLoop_turn e hs)"
    using loop_message_voted [OF t] futureLoop_voted [OF t] by (auto intro: commit_voted_mono)
  show ?thesis
    using x loops
    by (cases x) (auto simp: hs_step_def AddReward_def case_prod_unfold Let_def commit_voted_core
        loop_propose_def timer_fires_def timer intro!: prop_pop split: timer.splits)
qed

subsection \<open>A proposer on its own\<close>

lemma votes_update_registry:
  "registry_votes (update_registry h v f hs) h v ph b =
     votes_for (f (snd (getOrCreateVoteRegistry h v hs))) ph (hexEncode b)"
  by (simp add: registry_votes_def update_registry_def case_prod_unfold Let_def)

lemma votes_getOrCreate:
  "votes_for (snd (getOrCreateVoteRegistry h v hs)) ph (hexEncode b) = registry_votes hs h v ph b"
  by (simp add: registry_votes_def getOrCreateVoteRegistry_def split: option.splits)

lemma votes_record_my_vote [simp]:
  "registry_votes (record_my_vote e h v ph b hs) h v ph' b =
    (if ph' = ph then goput (hexEncode (envMe e)) True (registry_votes hs h v ph b) else registry_votes hs h v ph' b)"
  by (simp add: record_my_vote_def votes_update_registry votes_getOrCreate)

lemma votes_storeVoteSignature [simp]:
  "registry_votes (storeVoteSignature h v ph x a s hs) h v ph' b = registry_votes hs h v ph' b"
  by (simp add: storeVoteSignature_def votes_update_registry votes_getOrCreate split: option.splits)

lemma votes_sign_vote [simp]: "registry_votes (sign_vote e h v ph b hs) h v ph' b' = registry_votes hs h v ph' b'"
  by (simp add: sign_vote_def)

lemma registry_votes_updates [simp]:
  "registry_votes (hs\<lparr>hsLiveness := l\<rparr>) = registry_votes hs"
  "registry_votes (hs\<lparr>hsDoubleSign := d\<rparr>) = registry_votes hs"
  by (simp_all add: registry_votes_def fun_eq_iff)

lemma votes_count_vote:
  "registry_votes (count_vote m ph hs) (mHeight m) (mView m) ph (mBlockHash m)
    = goput (hexEncode (mSender m)) True (registry_votes hs (mHeight m) (mView m) ph (mBlockHash m))"
  by (simp add: count_vote_def record_vote_def Let_def votes_update_registry votes_getOrCreate)

lemma votes_doBroadcast [simp]: "registry_votes (doBroadcast m hs) = registry_votes hs"
  by (simp add: doBroadcast_def registry_votes_def fun_eq_iff)

lemma votes_self_prepare [simp]:
  "registry_votes (self_prepare e b h v hs) h v ph b =
    (if ph = PhasePrepare then goput (hexEncode (envMe e)) True (registry_votes hs h v ph b) else registry_votes hs h v ph b)"
proof -
  have l: "registry_votes (hs1\<lparr>hsLiveness := x\<rparr>) = registry_votes hs1" for hs1 x
    by (simp add: registry_votes_def fun_eq_iff)
  show ?thesis by (simp add: self_prepare_def Let_def l split: option.splits)
qed

lemma votes_setPhase [simp]: "registry_votes (setPhase ph hs) = registry_votes hs"
  by (simp add: registry_votes_def setPhase_def fun_eq_iff)

lemma votes_self_phase_vote [simp]:
  "registry_votes (self_phase_vote e b h v ph hs) h v ph' b =
    (if ph' = ph then goput (hexEncode (envMe e)) True (registry_votes hs h v ph b) else registry_votes hs h v ph' b)"
  by (simp add: self_phase_vote_def)

lemma votes_prepare_certificate [simp]:
  "registry_votes (prepare_certificate h v b hs) h v ph b = registry_votes hs h v ph b"
proof -
  have "registry_votes (lock_if_not_older q (setPreparedQC p hs1)) = registry_votes hs1" for q p hs1
    by (simp add: registry_votes_def lock_if_not_older_def setPreparedQC_def setLockedQC_def fun_eq_iff split: option.splits)
  moreover have "registry_votes (fst (getOrCreateVoteRegistry h v hs)) h v ph b = registry_votes hs h v ph b"
    by (simp add: registry_votes_def getOrCreateVoteRegistry_def split: option.splits)
  ultimately show ?thesis by (simp add: prepare_certificate_def createQC_def case_prod_unfold Let_def)
qed

lemma locked_update_registry [simp]: "hsState (update_registry h v f hs) = hsState hs"
  by (simp add: update_registry_def getOrCreateVoteRegistry_def Let_def split: option.splits)

lemma state_storeVoteSignature [simp]: "hsState (storeVoteSignature h v ph x a s hs) = hsState hs"
  by (simp add: storeVoteSignature_def split: option.splits)

lemma state_record_my_vote [simp]: "hsState (record_my_vote e h v ph b hs) = hsState hs"
  by (simp add: record_my_vote_def)

lemma state_sign_vote [simp]: "hsState (sign_vote e h v ph b hs) = hsState hs"
  by (simp add: sign_vote_def)

lemma state_doBroadcast [simp]: "hsState (doBroadcast m hs) = hsState hs"
  by (simp add: doBroadcast_def)

lemma state_self_prepare [simp]: "hsState (self_prepare e b h v hs) = hsState hs"
  by (simp add: self_prepare_def Let_def split: option.splits)

lemma locked_self_phase_vote [simp]: "hsLockedQC (self_phase_vote e b h v ph hs) = hsLockedQC hs"
  by (simp add: self_phase_vote_def setPhase_def)

lemma locked_prepare_certificate:
  "hsLockedQC hs = None \<Longrightarrow> \<exists>q. hsLockedQC (prepare_certificate h v b hs) = Some q \<and> qcBlockHash q = b"
  by (auto simp: prepare_certificate_def createQC_def getOrCreateVoteRegistry_def Let_def lock_if_not_older_def setLockedQC_def
      setPreparedQC_def split: option.splits)

text \<open>A proposer whose own stake is a super-majority commits its block.\<close>

lemma selfVote_commits:
  assumes "HasSuperMajority (hsValidatorSet hs) [(hexEncode (envMe e), True)]"
    and "\<And>ph. registry_votes hs h v ph b = []"
    and "hsLockedQC hs = None" and "envCommitBlock e b h"
  shows "hsCommits (selfVote e b h v hs) = hsCommits hs @ [(h, b)]"
proof -
  define hs3 where "hs3 = self_prepare e b h v hs"
  define hs5 where "hs5 = self_phase_vote e b h v PhasePreCommit (prepare_certificate h v b hs3)"
  define hs6 where "hs6 = self_phase_vote e b h v PhaseCommit hs5"
  have q: "has_quorum hs3 h v PhasePrepare b" "has_quorum hs5 h v PhasePreCommit b" "has_quorum hs6 h v PhaseCommit b"
    by (simp_all add: has_quorum_def hs3_def hs5_def hs6_def assms(1,2))
  have "core hs6 = core hs" by (simp add: hs6_def hs5_def hs3_def)
  then have c: "hsCommits hs6 = hsCommits hs" by (rule core_eqD(3))
  have "hsLockedQC hs3 = None" using assms(3) by (simp add: hs3_def)
  then have "\<not> lock_conflict hs6 b h"
    using locked_prepare_certificate [of hs3 h v b] by (auto simp: lock_conflict_def hs6_def hs5_def)
  then show ?thesis
    using q assms(4) c by (simp add: selfVote_def Let_def decide_commits flip: hs3_def hs5_def hs6_def)
qed


subsection \<open>Whole runs\<close>

definition engine_run :: "engine \<Rightarrow> (env \<times> event) list \<Rightarrow> engine" where
  "engine_run hs evs = foldl hs_step hs evs"

text \<open>An engine as it is created and started at a height.\<close>

definition started_engine ::
    "env \<Rightarrow> u64 \<Rightarrow> config \<Rightarrow> validator_set \<Rightarrow> staking_module \<Rightarrow> u64 \<Rightarrow> engine" where
  "started_engine e h cf vs sm chainID = fst (Start e h (NewHotStuffEngine cf vs sm chainID (envNow e)))"

lemma started_mail [simp]: "mail (started_engine e h cf vs sm c) = ([], [])"
  by (simp add: started_engine_def Start_def NewHotStuffEngine_def Let_def mail_def startTimeout_def
      triggerPropose_def restoreState_def split: option.splits sum.splits)

lemma started_commits [simp]: "hsCommits (started_engine e h cf vs sm c) = []"
  by (simp add: started_engine_def Start_def NewHotStuffEngine_def Let_def startTimeout_def
      triggerPropose_def restoreState_def split: option.splits sum.splits)

text \<open>
  What the network has handed to an engine: a vote message under an address, for a block in a phase
  of a view. Whether its signature is good is not part of it: the engine counts unsigned votes too.
\<close>

definition received_vote ::
    "(env \<times> event) list \<Rightarrow> message_type \<Rightarrow> u64 \<Rightarrow> u64 \<Rightarrow> bytes \<Rightarrow> bytes \<Rightarrow> bool" where
  "received_vote evs ty h v b a \<longleftrightarrow>
     (\<exists>m \<in> {m. EvMessage m \<in> snd ` set evs}. mType m = ty \<and> mHeight m = h \<and> mView m = v \<and> mBlockHash m = b \<and> mSender m = a)"

lemma engine_run_learns:
  "list_all (\<lambda>ev. envMe (fst ev) = me) evs \<Longrightarrow>
   knows (engine_run hs evs) \<subseteq> knows hs \<union> own me \<union> (\<Union>ev \<in> set evs. event_facts (snd ev))
   \<and> (tidy hs \<longrightarrow> tidy (engine_run hs evs))"
proof (induction evs arbitrary: hs)
  case Nil
  then show ?case by (simp add: engine_run_def)
next
  case (Cons ev evs)
  obtain e x where ev: "ev = (e, x)" by (cases ev)
  have "learns (own me \<union> event_facts x) hs (hs_step hs (e, x))"
    using learns_hs_step [of e x hs] Cons.prems ev by simp
  moreover have "knows (engine_run (hs_step hs (e, x)) evs) \<subseteq> knows (hs_step hs (e, x)) \<union> own me \<union> (\<Union>ev \<in> set evs. event_facts (snd ev))
      \<and> (tidy (hs_step hs (e, x)) \<longrightarrow> tidy (engine_run (hs_step hs (e, x)) evs))"
    using Cons.IH Cons.prems by simp
  ultimately show ?case by (auto simp: engine_run_def learns_def ev)
qed

lemma started_run_knows:
  assumes "list_all (\<lambda>ev. envMe (fst ev) = me) evs"
  shows "knows (engine_run (started_engine e h cf vs sm c) evs) \<subseteq> own me \<union> (\<Union>ev \<in> set evs. event_facts (snd ev))"
    and "tidy (engine_run (started_engine e h cf vs sm c) evs)"
  using engine_run_learns [OF assms, of "started_engine e h cf vs sm c"]
  by (simp_all add: knows_def [of "started_engine e h cf vs sm c"] tidy_def [of "started_engine e h cf vs sm c"])

fun phase_vote :: "phase \<Rightarrow> message_type" where
  "phase_vote ph = (if ph = PhasePrepare then MsgVotePrepare else if ph = PhasePreCommit then MsgVotePreCommit else MsgVoteCommit)"

lemma msg_phase_vote: "msg_phase ty = Some ph \<Longrightarrow> ty = phase_vote ph"
  by (cases ty) auto

lemma fact_voted:
  assumes "(h, v, ph, hexEncode b, hexEncode a) \<in> own me \<union> (\<Union>ev \<in> set evs. event_facts (snd ev))"
  shows "a = me \<or> received_vote evs (phase_vote ph) h v b a"
proof (cases "a = me")
  case True
  then show ?thesis by simp
next
  case False
  then obtain ev where ev: "ev \<in> set evs" and f: "(h, v, ph, hexEncode b, hexEncode a) \<in> event_facts (snd ev)"
    using assms by (auto simp: own_def)
  then obtain m where m: "snd ev = EvMessage m" "(h, v, ph, hexEncode b, hexEncode a) \<in> fact_of m"
    by (cases "snd ev") auto
  then have "msg_phase (mType m) = Some ph" "mHeight m = h" "mView m = v" "mBlockHash m = b" "mSender m = a"
    by (auto simp: fact_of_def split: option.splits)
  with ev m(1) show ?thesis
    unfolding received_vote_def using msg_phase_vote [of "mType m" ph] by (metis imageI mem_Collect_eq)
qed

lemma tidy_votes_members: "tidy_votes m \<Longrightarrow> canonical_keys m \<and> (\<forall>x \<in> voters m. \<exists>a. x = hexEncode a \<and> goget m x = Some True)"
  by (force simp: tidy_votes_def canonical_keys_def voters_def goget_iff_in_set)

subsection \<open>A sample engine: one validator of its own\<close>

definition sole_addr :: bytes where
  "sole_addr = [1, 2, 3, 4, 5, 6, 7, 8]"

definition sole_vs :: validator_set where
  "sole_vs = \<lparr>validators = [\<lparr>vAddress = sole_addr, vPublicKey = [9], vStake = 5, vIsActive = True,
     vIsJailed = False, vJailedUntil = 0, vUnbondingAt = 0, vCommittedRounds = 0, vMissedVotes = 0\<rparr>],
     totalStake = 5, vsEpoch = 1\<rparr>"

definition sole_config :: config where
  "sole_config = DefaultConsensusConfig\<lparr>cfMinValidators := 0\<rparr>"

definition sole_env :: env where
  "sole_env = \<lparr>envNow = 0, envSha256 = (\<lambda>_. []), envMe = sole_addr,
     envSign = (\<lambda>d. Some \<lparr>sigR = 1, sigS = 1\<rparr>), envVerify = (\<lambda>pk d s. True),
     envCreateBlock = (\<lambda>p h. Some ([42], [7])), envValidateBlock = (\<lambda>d b h. True),
     envCommitBlock = (\<lambda>b h. h \<noteq> - 1), envGetBlockData = (\<lambda>h. None),
     envChainHeight = (\<lambda>cs. foldr (\<lambda>c m. max (fst c) m) cs 0),
     envMarshalTC = (\<lambda>tc. []), envUnmarshalTC = (\<lambda>d. None), envBlockHash = (\<lambda>d. None),
     envOrder = (\<lambda>ks. ks), envSlashNum = 0, envHalfSlashNum = 0, envRequired = (\<lambda>n. n)\<rparr>"

definition sole_engine :: engine where
  "sole_engine = started_engine sole_env 5 sole_config sole_vs (NewStakingModule 0) 1"

lemma sole_pick: "selectProposer f sole_vs h v = 0"
  using selectProposer_less [of sole_vs f h v] by (simp add: sole_vs_def)

lemma sole_env_simps [simp]:
  "envNow sole_env = 0" "envMe sole_env = sole_addr" "envSign sole_env d = Some \<lparr>sigR = 1, sigS = 1\<rparr>"
  "envCreateBlock sole_env p h = Some ([42], [7])" "envCommitBlock sole_env b h \<longleftrightarrow> h \<noteq> - 1"
  "envOrder sole_env ks = ks" "envRequired sole_env n = n"
  by (simp_all add: sole_env_def)

lemma sole_majority: "HasSuperMajority sole_vs [(hexEncode sole_addr, True)]"
  by (simp add: HasSuperMajority_def stake_of_def GetValidator_def sole_vs_def)


lemmas sole_defs = sole_engine_def started_engine_def Start_def NewHotStuffEngine_def NewConsensusStateStore_def
  Load_def GetProposer_def startTimeout_def triggerPropose_def sole_pick
lemma sole_fields [simp]:
  "hsProposeCh sole_engine" "hsRunning sole_engine" "hsState sole_engine = \<lparr>csHeight = 5, csView = 0, csPhase = PhasePrepare, csLockedQC = None,
             csPreparedQC = None, csDecidedHash = [], csStartTime = 0, csProtocolVersion = 1\<rparr>"
  "hsPendingBlocks sole_engine = []" "hsValidatorSet sole_engine = sole_vs" "hsViewVotes sole_engine = []"
  "hsDoubleSign sole_engine = NewDoubleSignDetector" "hsConfig sole_engine = sole_config" "hsCommits sole_engine = []"
  by (simp_all add: sole_defs Let_def) (simp_all add: sole_vs_def sole_config_def DefaultConsensusConfig_def)

lemma sole_size [simp]: "Size sole_vs = 1" "length (validators sole_vs) = 1" "vAddress (validators sole_vs ! 0) = sole_addr"
  "cfMinValidators sole_config = 0"
  by (simp_all add: Size_def sole_vs_def sole_config_def)


lemma sole_commits: "hsCommits (hs_step sole_engine (sole_env, EvPropose)) = [(5, [7])]"
proof -
  have *: "hsCommits (send_proposal sole_env sole_addr d b sig hs) = [(5, b)]"
    if "hsValidatorSet hs = sole_vs" "hsHeight hs = 5" "hsView hs = v" "hsLockedQC hs = None" "hsViewVotes hs = []" "hsCommits hs = []"
    for d b sig hs v
  proof -
    let ?hs1 = "doBroadcast (proposal_message sole_env sole_addr d b sig hs) hs"
    have "hsCommits (selfVote sole_env b 5 v ?hs1) = hsCommits ?hs1 @ [(5, b)]"
    proof (rule selfVote_commits)
      show "registry_votes ?hs1 5 v ph b = []" for ph using that by (simp add: registry_votes_def doBroadcast_def)
    qed (use that in \<open>simp_all add: sole_majority\<close>)
    then show ?thesis
      using that core_eqD(3) [OF core_doBroadcast] by (simp add: send_proposal_def core_eqD(3) [OF core_after_proposal])
  qed
  show ?thesis
    by (simp add: hs_step_def loop_propose_def proposeLocked_def Let_def GetProposerForView_def sole_pick CheckProposal_def
      NewDoubleSignDetector_def trimHistory_def *)
qed

lemma sole_producer: "producer_ok sole_env"
proof -
  have "c \<in> set cs \<Longrightarrow> fst c \<le> foldr (\<lambda>c m. max (fst c) m) cs 0" for c :: "u64 \<times> bytes" and cs
    by (induction cs) (auto simp: le_max_iff_disj)
  then show ?thesis by (simp add: producer_ok_def sole_env_def)
qed

subsection \<open>The properties\<close>

interpretation hs_sys: admissible_ranked_system hs_step chain_ok "\<lambda>ev. producer_ok (fst ev)" "\<lambda>hs. csHeight (hsState hs)"
proof unfold_locales
  fix hs and ev :: "env \<times> event"
  assume "chain_ok hs" "producer_ok (fst ev)"
  then show "chain_ok (hs_step hs ev)" "csHeight (hsState hs) \<le> csHeight (hsState (hs_step hs ev))"
    using hs_step_chain [of "fst ev" hs "snd ev"] by simp_all
qed

text \<open>
  C25 (commits_increasing): let the block producer never accept a block of the largest height and
  report a chain height that covers every block committed (\<open>producer_ok\<close>, in every turn). Then, whatever
  messages, timers and loop turns a started engine meets, the heights of the blocks it commits, by its
  own decisions or through the syncer, increase strictly, and its own height never goes down; at any
  moment at which it runs, the committed heights are all below its own. A request to the apply loop is
  one step with its answer here: it is answered before its timeout, or not carried out (a stopped
  engine, a timeout and a refusal are the same); a commit after the timeout is outside the model.
\<close>

theorem commits_increasing:
  assumes "list_all (\<lambda>ev. producer_ok (fst ev)) (evs @ evs')"
    and "hs = engine_run (started_engine e0 h0 cf vs sm chainID) evs"
    and "hs' = engine_run (started_engine e0 h0 cf vs sm chainID) (evs @ evs')"
  shows "sorted_wrt (<) (map fst (hsCommits hs')) \<and>
    (hsRunning hs' \<longrightarrow> (\<forall>c \<in> set (hsCommits hs'). fst c < hsHeight hs')) \<and> hsHeight hs \<le> hsHeight hs'"
proof -
  let ?hs0 = "started_engine e0 h0 cf vs sm chainID"
  have ok0: "chain_ok ?hs0" by (simp add: chain_ok_def chain_core_def core_def)
  have adm: "list_all (\<lambda>ev. producer_ok (fst ev)) evs" "list_all (\<lambda>ev. producer_ok (fst ev)) evs'"
    using assms(1) by simp_all
  have ok: "chain_ok hs"
    using hs_sys.adm_run_inv [OF ok0 adm(1)] by (simp add: assms(2) engine_run_def)
  have run: "hs' = foldl hs_step hs evs'" by (simp add: assms(2,3) engine_run_def)
  have "chain_ok hs'" "hsHeight hs \<le> hsHeight hs'"
    using hs_sys.adm_run_inv [OF ok adm(2)] hs_sys.adm_run_rank [OF ok adm(2)] by (simp_all add: run)
  then show ?thesis by (auto simp: chain_ok_def chain_core_def core_def)
qed

theorem commits_increasing_witness:
  "hsCommits (engine_run sole_engine ([] @ [(sole_env, EvPropose)])) = [(5, [7])] \<and>
   sorted_wrt (<) (map fst (hsCommits (engine_run sole_engine ([] @ [(sole_env, EvPropose)])))) \<and>
   hsHeight (engine_run sole_engine []) \<le> hsHeight (engine_run sole_engine ([] @ [(sole_env, EvPropose)]))"
proof -
  have "sole_engine = started_engine sole_env 5 sole_config sole_vs (NewStakingModule 0) 1"
    by (simp add: sole_engine_def)
  note run = commits_increasing [where evs = "[]" and evs' = "[(sole_env, EvPropose)]", OF _ refl refl, of sole_env 5 sole_config
    sole_vs "NewStakingModule 0" 1, folded this]
  have "list_all (\<lambda>ev. producer_ok (fst ev)) ([] @ [(sole_env, EvPropose)])" by (simp add: sole_producer)
  from run [OF this] have "sorted_wrt (<) (map fst (hsCommits (engine_run sole_engine ([] @ [(sole_env, EvPropose)]))))"
    "hsHeight (engine_run sole_engine []) \<le> hsHeight (engine_run sole_engine ([] @ [(sole_env, EvPropose)]))"
    by blast+
  moreover have "hsCommits (engine_run sole_engine ([] @ [(sole_env, EvPropose)])) = [(5, [7])]"
    by (simp add: engine_run_def sole_commits)
  ultimately show ?thesis by blast
qed

text \<open>
  One event never takes a consistent engine back in the order of the rounds,
  by height and then by view; the view timer is excepted when the view is the largest number,
  from which it wraps to zero.
\<close>

theorem rounds_never_back:
  assumes "producer_ok e" and "chain_ok hs" and "x \<noteq> EvTimer \<or> hsView hs \<noteq> - 1"
  shows "hsHeight hs < hsHeight (hs_step hs (e, x)) \<or>
    hsHeight hs = hsHeight (hs_step hs (e, x)) \<and> hsView hs \<le> hsView (hs_step hs (e, x))"
proof -
  have "advances hs (hs_step hs (e, x))"
    using hs_step_advances [OF assms(1,2)] timer_fires_advances [OF assms(1,2)] assms(3)
    by (cases "x = EvTimer") (auto simp: hs_step_def)
  then show ?thesis by (simp add: advances_def round_le_def)
qed

theorem rounds_never_back_witness:
  "hsHeight sole_engine < hsHeight (hs_step sole_engine (sole_env, EvTimer)) \<or>
    hsHeight sole_engine = hsHeight (hs_step sole_engine (sole_env, EvTimer)) \<and>
    hsView sole_engine \<le> hsView (hs_step sole_engine (sole_env, EvTimer))"
  by (rule rounds_never_back [OF sole_producer]) (simp_all add: chain_ok_def chain_core_def core_def)

text \<open>
  C1 (commits_are_voted): along any run of a started engine, a block it decides itself (a turn other
  than those that receive synchronised blocks) is one block, at the engine's height, and it has a
  super-majority of the stake: for every validator counted in it other than the engine itself the
  engine has received a commit vote for that block, height and view.
\<close>

theorem commits_are_voted:
  assumes "list_all (\<lambda>ev. envMe (fst ev) = me) (evs @ [(e, x)])" and "\<not> syncing_event x"
    and "hs = engine_run (started_engine e0 h0 cf vs sm chainID) evs"
    and "hsCommits (hs_step hs (e, x)) \<noteq> hsCommits hs"
  shows "\<exists>b v votes. hsCommits (hs_step hs (e, x)) = hsCommits hs @ [(hsHeight hs, b)] \<and>
      HasSuperMajority (hsValidatorSet hs) votes \<and> canonical_keys votes \<and>
      (\<forall>a. goget votes (hexEncode a) = Some True \<longrightarrow> a = me \<or> received_vote evs MsgVoteCommit (hsHeight hs) v b a)"
proof -
  have me: "list_all (\<lambda>ev. envMe (fst ev) = me) evs" "envMe e = me" using assms(1) by simp_all
  note k = started_run_knows [OF me(1), of e0 h0 cf vs sm chainID, folded assms(3)]
  from hs_step_voted [OF k(2) assms(2), of e] assms(4)
  obtain b v votes where c: "hsCommits (hs_step hs (e, x)) = hsCommits hs @ [(hsHeight hs, b)]"
    and q: "HasSuperMajority (hsValidatorSet hs) votes" "tidy_votes votes"
    and f: "\<And>a. a \<in> voters votes \<Longrightarrow> (hsHeight hs, v, PhaseCommit, hexEncode b, a) \<in> knows hs \<union> own me"
    unfolding commit_voted_def me(2) by blast
  have "a = me \<or> received_vote evs MsgVoteCommit (hsHeight hs) v b a" if "goget votes (hexEncode a) = Some True" for a
  proof -
    have "hexEncode a \<in> voters votes" using goget_in_set [OF that] by (force simp: voters_def)
    from f [OF this] k(1) show ?thesis using fact_voted [of _ _ PhaseCommit] by fastforce
  qed
  with c q show ?thesis using tidy_votes_members [OF q(2)] by blast
qed

theorem commits_are_voted_witness:
  "\<exists>b v votes. hsCommits (hs_step sole_engine (sole_env, EvPropose)) = hsCommits sole_engine @ [(hsHeight sole_engine, b)] \<and>
      HasSuperMajority (hsValidatorSet sole_engine) votes \<and> canonical_keys votes"
proof -
  have s: "sole_engine = engine_run (started_engine sole_env 5 sole_config sole_vs (NewStakingModule 0) 1) []"
    by (simp add: engine_run_def sole_engine_def)
  have "list_all (\<lambda>ev. envMe (fst ev) = sole_addr) ([] @ [(sole_env, EvPropose)])" "\<not> syncing_event EvPropose"
    "hsCommits (hs_step sole_engine (sole_env, EvPropose)) \<noteq> hsCommits sole_engine"
    by (simp_all add: sole_commits)
  from commits_are_voted [OF this(1,2) s this(3)] show ?thesis by blast
qed

text \<open>A producer that refuses to commit leaves the quorum in the registry.\<close>

definition stuck_env :: "bytes \<Rightarrow> env" where
  "stuck_env b = sole_env\<lparr>envCommitBlock := (\<lambda>_ _. False), envCreateBlock := (\<lambda>_ _. Some ([42], b))\<rparr>"

lemma stuck_simps [simp]:
  "envMe (stuck_env b) = sole_addr" "envSign (stuck_env b) d = Some \<lparr>sigR = 1, sigS = 1\<rparr>"
  "envCreateBlock (stuck_env b) p h = Some ([42], b)" "envOrder (stuck_env b) ks = ks"
  "\<not> envCommitBlock (stuck_env b) c h"
  by (simp_all add: stuck_env_def sole_env_def)

text \<open>An engine with little stake beside a validator that is a quorum of its own.\<close>

definition big_addr :: bytes where
  "big_addr = [8, 7, 6, 5, 4, 3, 2, 1]"

definition duo_vs :: validator_set where
  "duo_vs = \<lparr>validators = [\<lparr>vAddress = sole_addr, vPublicKey = [9], vStake = 1, vIsActive = True,
     vIsJailed = False, vJailedUntil = 0, vUnbondingAt = 0, vCommittedRounds = 0, vMissedVotes = 0\<rparr>,
     \<lparr>vAddress = big_addr, vPublicKey = [10], vStake = 10, vIsActive = True,
     vIsJailed = False, vJailedUntil = 0, vUnbondingAt = 0, vCommittedRounds = 0, vMissedVotes = 0\<rparr>],
     totalStake = 11, vsEpoch = 1\<rparr>"

definition big_vote :: "bytes \<Rightarrow> message" where
  "big_vote b = \<lparr>mType = MsgVoteCommit, mHeight = 5, mView = 0, mBlockHash = b, mValidator = Some big_addr,
     mSignature = Some \<lparr>sigR = 1, sigS = 1\<rparr>, mJustifyQC = None, mPayload = None, mTimestamp = 0\<rparr>"

lemma big_vote_simps [simp]:
  "mType (big_vote b) = MsgVoteCommit" "mHeight (big_vote b) = 5" "mView (big_vote b) = 0" "mBlockHash (big_vote b) = b"
  "mValidator (big_vote b) = Some big_addr" "mSender (big_vote b) = big_addr" "mSignature (big_vote b) = Some \<lparr>sigR = 1, sigS = 1\<rparr>"
  by (simp_all add: big_vote_def mSender_def slice_def)

definition duo_engine :: engine where
  "duo_engine = started_engine sole_env 5 sole_config duo_vs (NewStakingModule 0) 1"


lemma duo_fields:
  "hsRunning duo_engine" "hsState duo_engine = \<lparr>csHeight = 5, csView = 0, csPhase = PhasePrepare, csLockedQC = None,
     csPreparedQC = None, csDecidedHash = [], csStartTime = 0, csProtocolVersion = 1\<rparr>" "hsMessageCh duo_engine = []"
  "hsCurHeight duo_engine = 5" "hsVotesOrder duo_engine = []"
  "hsValidatorSet duo_engine = duo_vs" "hsViewVotes duo_engine = []" "hsDoubleSign duo_engine = NewDoubleSignDetector"
  "rlCounters (hsRateLimiter duo_engine) = []"
  by (simp_all add: duo_engine_def started_engine_def Start_def NewHotStuffEngine_def NewConsensusStateStore_def
    Load_def startTimeout_def triggerPropose_def Let_def GetProposer_def newMessageRateLimiter_def
    sole_config_def DefaultConsensusConfig_def)

lemma duo_receives:
  "\<exists>rl. hs_step duo_engine (e, EvMessage (big_vote b)) = duo_engine\<lparr>hsRateLimiter := rl, hsMessageCh := [big_vote b]\<rparr>"
  by (auto simp: hs_step_def HandleMessage_def check_rate_def Allow_def duo_fields Let_def chan_send_def)

lemma duo_majority: "HasSuperMajority duo_vs [(hexEncode big_addr, True)]"
  by (simp add: HasSuperMajority_def stake_of_def GetValidator_def duo_vs_def big_addr_def sole_addr_def)

lemma duo_bounded: "vs_bounded duo_vs"
  by (simp add: vs_bounded_def vs_wf_def stake_sum_def duo_vs_def big_addr_def sole_addr_def)

lemma votes_trimVotes:
  assumes "length (hsVotesOrder hs) \<le> 2048" and "\<not> 10 < hsHeight hs"
  shows "registry_votes (trimVotes hs) = registry_votes hs" and "hsValidatorSet (trimVotes hs) = hsValidatorSet hs"
  using assms by (simp_all add: trimVotes_def registry_votes_def fun_eq_iff Let_def)

lemma duo_counts:
  assumes "hs = duo_engine\<lparr>hsRateLimiter := rl, hsMessageCh := [big_vote b]\<rparr>"
  shows "registry_votes (hs_step hs (stuck_env b, EvLoop)) 5 0 PhaseCommit b = [(hexEncode big_addr, True)]
    \<and> hsValidatorSet (hs_step hs (stuck_env b, EvLoop)) = duo_vs"
proof -
  define hs0 where "hs0 = hs\<lparr>hsMessageCh := []\<rparr>"
  have f: "hsState hs0 = hsState duo_engine" "hsVotesOrder hs0 = []" "hsValidatorSet hs0 = duo_vs" "hsViewVotes hs0 = []"
    "hsDoubleSign hs0 = NewDoubleSignDetector"
    by (simp_all add: hs0_def assms duo_fields)
  obtain d where d: "CheckVote (envOrder (stuck_env b)) (hsDoubleSign hs0) (mSender (big_vote b)) 5 0 PhaseCommit b (envNow (stuck_env b)) = (d, None)"
    by (simp add: f CheckVote_def NewDoubleSignDetector_def votes_at_def Let_def case_prod_unfold)
  define hs1 where "hs1 = count_vote (big_vote b) PhaseCommit (hs0\<lparr>hsDoubleSign := d\<rparr>)"
  define hs2 where "hs2 = fst (createQC 5 0 PhaseCommit b hs1)"
  have v0: "registry_votes hs0 5 0 PhaseCommit b = []" by (simp add: registry_votes_def f)
  have v1: "registry_votes hs1 5 0 PhaseCommit b = [(hexEncode big_addr, True)]"
    using votes_count_vote [of "big_vote b" PhaseCommit "hs0\<lparr>hsDoubleSign := d\<rparr>"] by (simp add: hs1_def v0)
  have r1: "hsVotesOrder hs1 = [(5, 0)]" "hsState hs1 = hsState duo_engine" "hsValidatorSet hs1 = duo_vs"
    by (simp_all add: hs1_def count_vote_def record_vote_def storeVoteSignature_def update_registry_def
      getOrCreateVoteRegistry_def f Let_def)
  have g: "\<exists>reg. goget (hsViewVotes hs1) (5, 0) = Some reg"
    by (simp add: hs1_def count_vote_def record_vote_def storeVoteSignature_def update_registry_def
      getOrCreateVoteRegistry_def f Let_def)
  then have "hs2 = hs1" by (auto simp: hs2_def createQC_def getOrCreateVoteRegistry_def Let_def)
  then have act: "act_on_quorum (stuck_env b) (big_vote b) PhaseCommit hs1 = mark_decided b 5 hs1"
    by (simp add: act_on_quorum_def case_prod_unfold Let_def flip: hs2_def)
      (simp add: decide_def lock_conflict_def r1 duo_fields)
  have q: "has_quorum hs1 5 0 PhaseCommit b" by (simp add: has_quorum_def v1 r1 duo_majority)
  have sig: "vote_signature_ok (stuck_env b) (big_vote b) PhaseCommit hs0"
    by (simp add: vote_signature_ok_def f GetValidator_def duo_vs_def big_addr_def sole_addr_def stuck_env_def sole_env_def)
  have "hs_step hs (stuck_env b, EvLoop) = handleVote (stuck_env b) (big_vote b) PhaseCommit hs0"
    by (simp add: hs_step_def loop_message_def handleMessageLocked_def catch_up_view_def assms hs0_def duo_fields)
  also have "\<dots> = trimVotes (mark_decided b 5 hs1)"
    using sig d q act by (simp add: handleVote_def flip: hs1_def)
  finally have step: "hs_step hs (stuck_env b, EvLoop) = trimVotes (mark_decided b 5 hs1)" .
  have "registry_votes (mark_decided b 5 hs1) = registry_votes hs1" by (simp add: mark_decided_def registry_votes_def fun_eq_iff)
  then show ?thesis unfolding step
    by (simp add: votes_trimVotes mark_decided_def r1 duo_fields) (simp add: v1 r1)
qed

text \<open>
  C4 (quorums_of_a_view_agree): if two engines, each along its own run, hold a quorum of one height,
  view and phase for two blocks, then for a common member of the validator set each engine has
  received a vote message for its block; and this member lies outside any given minority (at most a
  third of the stake) that contains the two engines, say the faulty validators and the two observers.
  So if nobody can send a vote message in the name of a correct member, and correct members vote for at
  most one block in a phase of a view, the two blocks are the same.
\<close>

theorem quorums_of_a_view_agree:
  assumes "list_all (\<lambda>ev. envMe (fst ev) = me1) evs1" and "list_all (\<lambda>ev. envMe (fst ev) = me2) evs2"
    and "hs1 = engine_run (started_engine e1 h1 cf1 vs1 sm1 c1) evs1"
    and "hs2 = engine_run (started_engine e2 h2 cf2 vs2 sm2 c2) evs2"
    and "hsValidatorSet hs2 = hsValidatorSet hs1" and "vs_bounded (hsValidatorSet hs1)"
    and "has_quorum hs1 h v ph b1" and "has_quorum hs2 h v ph b2"
    and "3 * (\<Sum>a \<in> member_addrs (hsValidatorSet hs1) \<inter> F. unat (stake_of (hsValidatorSet hs1) a)) \<le> unat (totalStake (hsValidatorSet hs1))"
    and "{me1, me2} \<subseteq> F"
  shows "\<exists>a \<in> member_addrs (hsValidatorSet hs1) - F.
     received_vote evs1 (phase_vote ph) h v b1 a \<and> received_vote evs2 (phase_vote ph) h v b2 a"
proof -
  note k1 = started_run_knows [OF assms(1), of e1 h1 cf1 vs1 sm1 c1, folded assms(3)]
  note k2 = started_run_knows [OF assms(2), of e2 h2 cf2 vs2 sm2 c2, folded assms(4)]
  from has_quorum_votes [OF assms(7) k1(2)] obtain A where A: "HasSuperMajority (hsValidatorSet hs1) A" "tidy_votes A"
    "\<And>a. a \<in> voters A \<Longrightarrow> (h, v, ph, hexEncode b1, a) \<in> knows hs1" by blast
  from has_quorum_votes [OF assms(8) k2(2)] obtain B where B: "HasSuperMajority (hsValidatorSet hs1) B" "tidy_votes B"
    "\<And>a. a \<in> voters B \<Longrightarrow> (h, v, ph, hexEncode b2, a) \<in> knows hs2" using assms(5) by metis
  obtain a where a: "a \<in> member_addrs (hsValidatorSet hs1)" "a \<notin> F"
    "goget A (hexEncode a) = Some True" "goget B (hexEncode a) = Some True"
    using super_majorities_common [OF assms(6) conjunct1 [OF tidy_votes_members [OF A(2)]]
        conjunct1 [OF tidy_votes_members [OF B(2)]] A(1) B(1) assms(9)] by blast
  have "hexEncode a \<in> voters A" "hexEncode a \<in> voters B"
    using goget_in_set [OF a(3)] goget_in_set [OF a(4)] by (force simp: voters_def)+
  moreover have "a \<noteq> me1" "a \<noteq> me2" using a(2) assms(10) by auto
  ultimately have "received_vote evs1 (phase_vote ph) h v b1 a" "received_vote evs2 (phase_vote ph) h v b2 a"
    using fact_voted [OF subsetD [OF k1(1) A(3)]] fact_voted [OF subsetD [OF k2(1) B(3)]] by blast+
  with a(1,2) show ?thesis by blast
qed

theorem quorums_of_a_view_agree_witness:
  "\<exists>a \<in> member_addrs duo_vs - {sole_addr}.
     received_vote [(stuck_env [7], EvMessage (big_vote [7])), (stuck_env [7], EvLoop)] (phase_vote PhaseCommit) 5 0 [7] a \<and>
     received_vote [(stuck_env [8], EvMessage (big_vote [8])), (stuck_env [8], EvLoop)] (phase_vote PhaseCommit) 5 0 [8] a"
proof -
  define evs where "evs b = [(stuck_env b, EvMessage (big_vote b)), (stuck_env b, EvLoop)]" for b
  define hs where "hs b = engine_run (started_engine sole_env 5 sole_config duo_vs (NewStakingModule 0) 1) (evs b)" for b
  have st: "registry_votes (hs b) 5 0 PhaseCommit b = [(hexEncode big_addr, True)]" "hsValidatorSet (hs b) = duo_vs" for b
  proof -
    obtain rl where r: "hs_step duo_engine (stuck_env b, EvMessage (big_vote b))
        = duo_engine\<lparr>hsRateLimiter := rl, hsMessageCh := [big_vote b]\<rparr>"
      using duo_receives by blast
    have "hs b = hs_step (duo_engine\<lparr>hsRateLimiter := rl, hsMessageCh := [big_vote b]\<rparr>) (stuck_env b, EvLoop)"
      by (simp add: hs_def evs_def engine_run_def r flip: duo_engine_def)
    then show "registry_votes (hs b) 5 0 PhaseCommit b = [(hexEncode big_addr, True)]" "hsValidatorSet (hs b) = duo_vs"
      using duo_counts [OF refl] by simp_all
  qed
  have me: "list_all (\<lambda>ev. envMe (fst ev) = sole_addr) (evs b)" for b by (simp add: evs_def)
  have stake: "3 * (\<Sum>a \<in> member_addrs duo_vs \<inter> {sole_addr}. unat (stake_of duo_vs a)) \<le> unat (totalStake duo_vs)"
    by (simp add: duo_vs_def member_addrs_def stake_of_def GetValidator_def sole_addr_def big_addr_def)
  show ?thesis
    using quorums_of_a_view_agree [OF me me hs_def [of "[7]"] hs_def [of "[8]"], of 5 0 PhaseCommit "[7]" "[8]" "{sole_addr}"]
    by (simp add: st has_quorum_def duo_majority duo_bounded stake evs_def)
qed

end
