(* ===== verification/HotStuff_Books.thy ===== *)
theory HotStuff_Books
  imports HotStuff_Votes
begin

text \<open>
  The engine keeps the books of the components it owns: along every run its validator set stays
  well formed and its staking module balanced. Only slashing, releases from jail, rewards and the
  epoch change touch them; every other operation leaves \<open>books\<close> alone. The steps rest on the
  components' own invariants (\<open>Validator_Set\<close>, \<open>Staking\<close>).
\<close>

definition books :: "engine \<Rightarrow> validator_set \<times> staking_module" where
  "books hs = (hsValidatorSet hs, hsStaking hs)"

definition sound_books :: "validator_set \<times> staking_module \<Rightarrow> bool" where
  "sound_books b \<longleftrightarrow> vs_wf (fst b) \<and> staking_books (snd b)"

abbreviation books_ok :: "engine \<Rightarrow> bool" where
  "books_ok hs \<equiv> sound_books (books hs)"

lemma books_ok_same: "books hs' = books hs \<Longrightarrow> books_ok hs \<Longrightarrow> books_ok hs'"
  by simp

lemma books_foldl: "(\<And>hs x. books (f hs x) = books hs) \<Longrightarrow> books (foldl f hs xs) = books hs"
  by (induction xs arbitrary: hs) simp_all

lemma books_ok_foldl: "(\<And>hs x. books_ok hs \<Longrightarrow> books_ok (f hs x)) \<Longrightarrow> books_ok hs \<Longrightarrow> books_ok (foldl f hs xs)"
  by (induction xs arbitrary: hs) simp_all

lemma books_updates [simp]:
  "books (hs\<lparr>hsDoubleSign := x0\<rparr>) = books hs"
  "books (hs\<lparr>hsLiveness := x1\<rparr>) = books hs"
  "books (hs\<lparr>hsPendingBlocks := x2\<rparr>) = books hs"
  "books (hs\<lparr>hsTimeoutView := x3\<rparr>) = books hs"
  "books (hs\<lparr>hsRateLimiter := x4\<rparr>) = books hs"
  "books (hs\<lparr>hsSyncer := x5\<rparr>) = books hs"
  "books (hs\<lparr>hsState := x6\<rparr>) = books hs"
  "books (hs\<lparr>hsProposeCh := x7\<rparr>) = books hs"
  "books (hs\<lparr>hsVotesOrder := x8\<rparr>) = books hs"
  "books (hs\<lparr>hsRunning := x9\<rparr>) = books hs"
  "books (hs\<lparr>hsTimer := x10\<rparr>) = books hs"
  "books (hs\<lparr>hsRewardPool := x11\<rparr>) = books hs"
  "books (hs\<lparr>hsEpochStart := x12\<rparr>) = books hs"
  "books (hs\<lparr>hsFinality := x15\<rparr>) = books hs"
  "books (hs\<lparr>hsStateStore := x16\<rparr>) = books hs"
  "books (hs\<lparr>hsTimeouts := x19\<rparr>) = books hs"
  "books (hs\<lparr>hsTimeoutSignatures := x20\<rparr>) = books hs"
  "books (hs\<lparr>hsTimeoutHighQCs := x21\<rparr>) = books hs"
  "books (hs\<lparr>hsTimeoutsOrder := x22\<rparr>) = books hs"
  "books (hs\<lparr>hsOutbox := x23\<rparr>) = books hs"
  "books (hs\<lparr>hsViewTimeout := x24\<rparr>) = books hs"
  "books (hs\<lparr>hsCurHeight := x25\<rparr>) = books hs"
  "books (hs\<lparr>hsCurView := x26\<rparr>) = books hs"
  "books (hs\<lparr>hsCommits := x27\<rparr>) = books hs"
  "books (hs\<lparr>hsViewVotes := y1\<rparr>) = books hs"
  "books (hs\<lparr>hsMessageCh := y2\<rparr>) = books hs"
  "books (hs\<lparr>hsFutureCh := y3\<rparr>) = books hs"
  "books (hs\<lparr>hsSyncCh := y4\<rparr>) = books hs"
  by (simp_all add: books_def)

lemma books_setPhase [simp]: "books (setPhase ph hs) = books hs"
  by (simp add: setPhase_def)

lemma books_setLockedQC [simp]: "books (setLockedQC q hs) = books hs"
  by (simp add: setLockedQC_def)

lemma books_setPreparedQC [simp]: "books (setPreparedQC q hs) = books hs"
  by (simp add: setPreparedQC_def)

lemma books_lock_if_newer [simp]: "books (lock_if_newer q hs) = books hs"
  by (simp add: lock_if_newer_def split: option.splits)

lemma books_lock_if_not_older [simp]: "books (lock_if_not_older q hs) = books hs"
  by (simp add: lock_if_not_older_def split: option.splits)

lemma books_triggerPropose [simp]: "books (triggerPropose hs) = books hs"
  by (simp add: triggerPropose_def)

lemma books_startTimeout [simp]: "books (startTimeout hs) = books hs"
  by (simp add: startTimeout_def)

lemma books_recoverPanic [simp]: "books (recoverPanic hs) = books hs"
  by (simp add: recoverPanic_def)

lemma books_finalize_block [simp]: "books (finalize_block e b h addrs hs) = books hs"
  by (simp add: finalize_block_def)

lemma books_propose_if_leader [simp]: "books (propose_if_leader e hs) = books hs"
  by (simp add: propose_if_leader_def)

lemma books_delete_timeouts [simp]: "books (delete_timeouts v hs) = books hs"
  by (simp add: delete_timeouts_def)

lemma books_trimTimeouts [simp]: "books (trimTimeouts hs) = books hs"
  by (simp add: trimTimeouts_def Let_def books_foldl)

lemma books_record_timeout [simp]: "books (record_timeout v a s q hs) = books hs"
  by (simp add: record_timeout_def)

lemma books_open_timeouts [simp]: "books (open_timeouts v hs) = books hs"
  by (simp add: open_timeouts_def)

lemma books_drop_old_timeouts [simp]: "books (drop_old_timeouts v hs) = books hs"
  unfolding drop_old_timeouts_def by (rule books_foldl) simp

lemma books_adopt_new_view_qc: "adopt_new_view_qc e m hs = Some hs' \<Longrightarrow> books hs' = books hs"
  by (auto simp: adopt_new_view_qc_def split: if_splits option.splits)

lemma books_mark_decided [simp]: "books (mark_decided b h hs) = books hs"
  by (simp add: mark_decided_def)

lemma books_add_pending [simp]: "books (add_pending m hs) = books hs"
  by (simp add: add_pending_def)

lemma books_send_request [simp]: "books (send_request e r hs) = books hs"
  by (simp add: send_request_def split: option.splits)

lemma books_start_sync [simp]: "books (start_sync e t hs) = books hs"
  by (simp add: start_sync_def case_prod_unfold Let_def)

lemma books_handleBlockRequestData [simp]: "books (handleBlockRequestData e p hs) = books hs"
  by (simp add: handleBlockRequestData_def Let_def)

lemma books_after_proposal [simp]: "books (after_proposal hs) = books hs"
  by (simp add: after_proposal_def Let_def)

lemma books_AddReward [simp]: "books (AddReward n hs) = books hs"
  by (simp add: AddReward_def)


lemma books_getOrCreate [simp]: "books (fst (getOrCreateVoteRegistry h v hs)) = books hs"
  by (simp add: getOrCreateVoteRegistry_def books_def split: option.splits)

lemma books_update_registry [simp]: "books (update_registry h v f hs) = books hs"
  by (simp add: update_registry_def case_prod_unfold Let_def)

lemma books_storeVoteSignature [simp]: "books (storeVoteSignature h v ph b a s hs) = books hs"
  by (simp add: storeVoteSignature_def split: option.splits)

lemma books_votes [simp]:
  "books (record_vote h v ph b a hs) = books hs" "books (record_my_vote e h v ph b hs) = books hs"
  "books (sign_vote e h v ph b hs) = books hs" "books (doBroadcast m hs) = books hs"
  "books (updateView v hs) = books hs" "books (catch_up_view m hs) = books hs" "books (trimVotes hs) = books hs"
  "books (queue_future m hs) = books hs"
  by (simp_all add: record_vote_def record_my_vote_def sign_vote_def doBroadcast_def updateView_def catch_up_view_def
      trimVotes_def queue_future_def Let_def)

lemma books_createQC [simp]: "books (fst (createQC h v ph b hs)) = books hs"
  by (simp add: createQC_def case_prod_unfold Let_def)

lemma books_prepare_certificate [simp]: "books (prepare_certificate h v b hs) = books hs"
  by (simp add: prepare_certificate_def case_prod_unfold Let_def)

lemma books_createNewView [simp]: "books (createNewViewAndBroadcast e v hs) = books hs"
  by (simp add: createNewViewAndBroadcast_def Let_def)

lemma books_count_timeout [simp]: "books (count_timeout e m sig hs) = books hs"
  by (simp add: count_timeout_def Let_def)

lemma books_handleTimeout [simp]: "books (handleTimeout e m hs) = books hs"
  by (simp add: handleTimeout_def Let_def split: option.splits)

lemma books_handleNewView [simp]: "books (handleNewView e m hs) = books hs"
  by (auto simp: handleNewView_def Let_def dest: books_adopt_new_view_qc split: option.splits)

lemma books_advancePhase [simp]: "books (advancePhase e ph hs) = books hs"
  by (simp add: advancePhase_def Let_def split: option.splits)

lemma books_self [simp]:
  "books (self_prepare e b h v hs) = books hs" "books (self_phase_vote e b h v ph hs) = books hs"
  by (simp_all add: self_prepare_def self_phase_vote_def Let_def split: option.splits)

lemma books_accept_proposal [simp]: "books (accept_proposal e m s hs) = books hs"
  by (simp add: accept_proposal_def Let_def)

lemma books_vote_for_block [simp]: "books (vote_for_block e m hs) = books hs"
  by (simp add: vote_for_block_def Let_def case_prod_unfold split: option.splits)

lemma books_judge_proposal [simp]: "books (judge_proposal e m hs) = books hs"
  by (simp add: judge_proposal_def Let_def split: option.splits)

lemma books_count_vote [simp]: "books (count_vote m ph hs) = books hs"
  by (simp add: count_vote_def Let_def)

lemma books_check_rate [simp]: "books (fst (check_rate e m hs)) = books hs"
  by (simp add: check_rate_def case_prod_unfold Let_def split: option.splits)

lemma books_enter_height [simp]: "books (enter_height e hs) = books hs"
  by (simp add: enter_height_def Let_def split: sum.splits)

lemma books_on_view_timeout [simp]: "books (on_view_timeout e hs) = books hs"
  by (simp add: on_view_timeout_def Let_def split: option.splits)

lemma books_apply_request [simp]: "books (fst (apply_request e b h hs)) = books hs"
  by (simp add: apply_request_def Let_def)

lemma books_defaultBlockApplier [simp]: "books (fst (defaultBlockApplier e hs d)) = books hs"
  by (simp add: defaultBlockApplier_def Let_def split: option.splits)

lemma books_receive_block [simp]: "books (receive_block e d hs) = books hs"
proof -
  have "books (fst (snd (ApplyBlock (defaultBlockApplier e) (hsSyncer hs) hs d (envNow e)))) = books hs"
    by (rule ApplyBlock_preserves [where P = "\<lambda>s. books s = books hs"]) simp_all
  then show ?thesis by (simp add: receive_block_def ReceiveBlock_def case_prod_unfold)
qed

subsubsection \<open>What changes the books\<close>

lemma books_ok_slash_evidence: "books_ok hs \<Longrightarrow> books_ok (slash_evidence e i hs)"
  by (auto simp: slash_evidence_def sound_books_def books_def Let_def keep_on_error_def
      dest: Slash_books RemoveValidator_wf split: sum.splits)

lemma books_ok_handleDoubleSign: "books_ok hs \<Longrightarrow> books_ok (handleDoubleSign e i hs)"
  by (simp add: handleDoubleSign_def books_ok_slash_evidence)

lemma books_ok_applyEpochSlashing: "books_ok hs \<Longrightarrow> books_ok (applyEpochSlashing e hs)"
  unfolding applyEpochSlashing_def by (rule books_ok_foldl) (simp_all add: books_ok_slash_evidence)

lemma books_ok_staking: "books_ok hs \<Longrightarrow> staking_books sm \<Longrightarrow> books_ok (hs\<lparr>hsStaking := sm\<rparr>)"
  by (simp add: sound_books_def books_def)

lemma staking_of_books: "books_ok hs \<Longrightarrow> staking_books (hsStaking hs)"
  by (simp add: sound_books_def books_def)

lemma books_ok_handleDowntimeSlash: "books_ok hs \<Longrightarrow> books_ok (handleDowntimeSlash e a hs)"
  by (auto simp: handleDowntimeSlash_def intro!: books_ok_staking dest: staking_of_books Slash_books
      split: option.splits sum.splits)

lemma staking_result_books:
  "staking_books sm \<Longrightarrow> staking_books (staking_result sm (Unjail sm a t))"
  "staking_books sm \<Longrightarrow> staking_books (staking_result sm (Stake sm a pk n t))"
  using staking_sys.step_inv [of sm "SOUnjail a t"] staking_sys.step_inv [of sm "SOStake a pk n t"] by simp_all

lemma books_ok_try_unjail: "books_ok hs \<Longrightarrow> books_ok (try_unjail e hs r)"
  by (auto simp: try_unjail_def intro!: books_ok_staking staking_result_books dest: staking_of_books)

lemma books_ok_processAutoUnjail: "books_ok hs \<Longrightarrow> books_ok (processAutoUnjail e hs)"
  unfolding processAutoUnjail_def Let_def by (intro books_ok_foldl books_ok_try_unjail)

lemma books_ok_distributeRewards: "books_ok hs \<Longrightarrow> books_ok (distributeRewards e hs)"
proof -
  assume ok: "books_ok hs"
  have "staking_books (foldl (\<lambda>sm v. staking_result sm (Stake sm (vAddress v) (vPublicKey v) n (envNow e))) sm vals)"
    if "staking_books sm" for sm n vals
    using that by (induction vals arbitrary: sm) (simp_all add: staking_result_books)
  with staking_of_books [OF ok] ok show ?thesis
    by (auto simp: distributeRewards_def Let_def sound_books_def books_def)
qed

text \<open>The active validators of balanced books have distinct addresses.\<close>

lemma active_distinct: "staking_books sm \<Longrightarrow> distinct (map srAddress (GetActiveValidators sm))"
proof -
  assume sm: "staking_books sm"
  have "map srAddress (map snd (smValidators sm)) = map fst (smValidators sm)"
    using sm by (auto simp: staking_books_def)
  moreover have "distinct (map fst (smValidators sm))"
    using sm by (simp add: staking_books_def gomap_wf_def)
  ultimately have "distinct (map srAddress (map snd (smValidators sm)))" by (simp only:)
  then show ?thesis unfolding GetActiveValidators_def by (rule distinct_map_filter)
qed

lemma books_ok_rotateEpoch: "books_ok hs \<Longrightarrow> rotateEpoch e h hs = Some hs' \<Longrightarrow> books_ok hs'"
proof -
  assume ok: "books_ok hs" and r: "rotateEpoch e h hs = Some hs'"
  let ?act = "GetActiveValidators (hsStaking hs)"
  have "vs_wf (NewValidatorSet (map validator_of_stake ?act) ep)" for ep
    using active_distinct [OF staking_of_books [OF ok]]
    by (intro NewValidatorSet_wf) (simp add: validator_of_stake_def comp_def filter_map distinct_map_filter)
  then have "books_ok (hs1\<lparr>hsValidatorSet := NewValidatorSet (map validator_of_stake ?act) ep\<rparr>)"
    if "hsStaking hs1 = hsStaking hs" for hs1 ep
    using that staking_of_books [OF ok] by (simp add: sound_books_def books_def)
  then show ?thesis
    using r ok by (auto simp: rotateEpoch_def Let_def intro!: books_ok_applyEpochSlashing split: if_splits)
qed

lemma books_ok_after_commit: "books_ok hs \<Longrightarrow> books_ok (after_commit e b h hs)"
proof -
  assume ok: "books_ok hs"
  let ?hs2 = "finalize_block e b h (getValidatorAddresses hs) (hs\<lparr>hsCommits := hsCommits hs @ [(h, b)]\<rparr>)"
  have ok2: "books_ok ?hs2" using ok by simp
  show ?thesis
  proof (cases "maybe_rotate e h ?hs2")
    case None
    then show ?thesis using ok2 by (auto simp: after_commit_def Let_def intro: books_ok_same)
  next
    case (Some hs3)
    then have "books_ok hs3"
      using ok2 by (auto simp: maybe_rotate_def split: if_splits intro: books_ok_rotateEpoch [OF ok2])
    then have "books_ok (distributeRewards e hs3)" by (rule books_ok_distributeRewards)
    then show ?thesis using Some by (auto simp: after_commit_def Let_def intro: books_ok_same)
  qed
qed

lemma books_ok_decide: "books_ok hs \<Longrightarrow> books_ok (decide e b h hs)"
  by (simp add: decide_def Let_def books_ok_after_commit)

lemma books_ok_decide_same: "books_ok hs \<Longrightarrow> books hs1 = books hs \<Longrightarrow> books_ok (decide e b h hs1)"
  by (rule books_ok_decide, rule books_ok_same)

lemma books_ok_selfVote: "books_ok hs \<Longrightarrow> books_ok (selfVote e b h v hs)"
  by (auto simp: selfVote_def Let_def intro!: books_ok_decide_same intro: books_ok_same)

lemma books_ok_proposeLocked: "books_ok hs \<Longrightarrow> books_ok (fst (proposeLocked e hs))"
proof -
  assume ok: "books_ok hs"
  have send: "books_ok (send_proposal e a d b sig hs1)" if "books hs1 = books hs" for a d b sig hs1
  proof -
    have "books_ok (selfVote e b (hsHeight hs1) (hsView hs1) (doBroadcast m hs1))" for m
      using ok that by (intro books_ok_selfVote books_ok_same [OF _ ok]) simp
    then show ?thesis unfolding send_proposal_def by (rule books_ok_same [OF books_after_proposal])
  qed
  show ?thesis
    using ok by (auto simp: proposeLocked_def Let_def intro!: send books_ok_handleDoubleSign intro: books_ok_same
        split: option.splits sum.splits prod.splits)
qed

lemma books_ok_handleVote: "books_ok hs \<Longrightarrow> books_ok (handleVote e m ph hs)"
proof -
  assume ok: "books_ok hs"
  have act: "books_ok (act_on_quorum e m ph hs1)" if "books hs1 = books hs" for hs1 ph
    using that ok by (auto simp: act_on_quorum_def case_prod_unfold Let_def intro!: books_ok_decide_same intro: books_ok_same)
  show ?thesis
    using ok by (auto simp: handleVote_def Let_def intro!: act books_ok_handleDoubleSign
        intro: books_ok_same split: prod.splits option.splits)
qed

lemma books_ok_handleProposal: "books_ok hs \<Longrightarrow> books_ok (handleProposal e m hs)"
  by (auto simp: handleProposal_def intro!: books_ok_handleDoubleSign intro: books_ok_same
      split: sum.splits option.splits prod.splits)

lemma books_ok_handleMessageLocked: "books_ok hs \<Longrightarrow> books_ok (handleMessageLocked e m hs)"
  by (auto simp: handleMessageLocked_def intro!: books_ok_handleVote books_ok_handleProposal intro: books_ok_same
      split: message_type.splits)

lemma books_HandleMessage [simp]: "books (HandleMessage e m hs) = books hs"
proof -
  obtain hs1 al where r: "check_rate e m hs = (hs1, al)" by (metis prod.exhaust)
  have "books hs1 = books hs" using books_check_rate [of e m hs] r by simp
  then show ?thesis by (simp add: HandleMessage_def r)
qed

lemma books_ok_liveness_tick: "books_ok hs \<Longrightarrow> books_ok (liveness_tick e hs)"
proof -
  assume ok: "books_ok hs"
  have "books_ok (foldl (\<lambda>hs addr. if GetMissed (hsLiveness hs) addr > cfDowntimeThreshold (hsConfig hs) * 2
      then handleDowntimeSlash e addr hs else hs) (hs\<lparr>hsLiveness := l\<rparr>) as)" for l as
    by (rule books_ok_foldl) (auto intro: books_ok_handleDowntimeSlash books_ok_same [OF _ ok])
  then show ?thesis by (simp add: liveness_tick_def case_prod_unfold Let_def)
qed

lemma hs_step_books: "books_ok hs \<Longrightarrow> books_ok (hs_step hs ev)"
proof -
  assume ok: "books_ok hs"
  obtain e x where ev: "ev = (e, x)" by (cases ev)
  have same: "books hs1 = books hs \<Longrightarrow> books_ok hs1" for hs1 by (rule books_ok_same [OF _ ok])
  show ?thesis
    using ok unfolding ev
    by (cases x) (auto simp: hs_step_def case_prod_unfold Let_def loop_message_def loop_propose_def futureLoop_turn_def
        syncLoop_turn_def processSyncMessage_def timer_fires_def
        intro!: books_ok_handleMessageLocked books_ok_proposeLocked books_ok_liveness_tick books_ok_processAutoUnjail
        intro: same split: list.splits timer.splits)
qed

interpretation books_sys: guarded_system hs_step books_ok
  by unfold_locales (rule hs_step_books)

text \<open>
  C31 (engine_books_sound): an engine started on a well-formed validator set and balanced stakes keeps
  both along every run: members sorted, distinct and summing up to the cached total stake, and the
  staking total reconciling with the records and the event log.
\<close>

theorem engine_books_sound:
  assumes "vs_wf vs" and "staking_books sm"
    and "hs = engine_run (started_engine e h cf vs sm chainID) evs"
  shows "vs_wf (hsValidatorSet hs) \<and> staking_books (hsStaking hs)"
proof -
  have "books (started_engine e h cf vs sm chainID) = (vs, sm)"
    by (simp add: started_engine_def Start_def NewHotStuffEngine_def Let_def books_def startTimeout_def
      triggerPropose_def restoreState_def split: option.splits sum.splits)
  then have "books_ok (started_engine e h cf vs sm chainID)" using assms(1,2) by (simp add: sound_books_def)
  then have "books_ok hs" unfolding assms(3) engine_run_def by (rule books_sys.run_inv)
  then show ?thesis by (simp add: sound_books_def books_def)
qed

theorem engine_books_sound_witness:
  "vs_wf (hsValidatorSet (engine_run sole_engine [(sole_env, EvPropose), (sole_env, EvUnjail)])) \<and>
   staking_books (hsStaking (engine_run sole_engine [(sole_env, EvPropose), (sole_env, EvUnjail)]))"
  unfolding sole_engine_def
  by (rule engine_books_sound [OF _ NewStakingModule_books refl]) (simp add: vs_wf_def sole_vs_def)

end
