(* ===== verification/HotStuff_Limits.thy ===== *)
theory HotStuff_Limits
  imports HotStuff_Books
begin

text \<open>
  Single operations of the engine (\<open>internal/layer1/consensus/hotstuff.go\<close>): the exact view timeout,
  rate limit and block responses, and the places where the engine gives less than a reader of it
  would expect: unsigned votes, view changes without a check or a quorum, locks that are not
  consulted, and a state saved too early.
\<close>

subsection \<open>Votes, views and certificates\<close>

lemma state_count_vote [simp]: "hsState (count_vote m ph hs) = hsState hs"
  by (simp add: count_vote_def record_vote_def Let_def)

lemma state_createQC [simp]: "hsState (fst (createQC h v ph b hs)) = hsState hs"
  by (simp add: createQC_def getOrCreateVoteRegistry_def Let_def split: option.splits)

text \<open>
  A commit vote without a signature is counted like a signed one. If the
  sender it claims would complete the quorum, the engine commits the block, even in an environment
  in which no signature of anyone verifies.
\<close>

theorem unsigned_vote_commits:
  assumes "mSignature m = None" and "mType m = MsgVoteCommit" and "mHeight m = hsHeight hs" and "mView m = hsView hs"
    and "CheckVote (envOrder e) (hsDoubleSign hs) (mSender m) (mHeight m) (mView m) PhaseCommit (mBlockHash m) (envNow e) = (d, None)"
    and "HasSuperMajority (hsValidatorSet hs) (goput (hexEncode (mSender m)) True
      (registry_votes hs (mHeight m) (mView m) PhaseCommit (mBlockHash m)))"
    and "\<not> lock_conflict hs (mBlockHash m) (mHeight m)" and "envCommitBlock e (mBlockHash m) (mHeight m)"
    and "envVerify e = (\<lambda>_ _ _. False)"
  shows "hsCommits (handleMessageLocked e m hs) = hsCommits hs @ [(mHeight m, mBlockHash m)]"
proof -
  define hs1 where "hs1 = count_vote m PhaseCommit (hs\<lparr>hsDoubleSign := d\<rparr>)"
  define hs2 where "hs2 = fst (createQC (mHeight m) (mView m) PhaseCommit (mBlockHash m) hs1)"
  have q: "has_quorum hs1 (mHeight m) (mView m) PhaseCommit (mBlockHash m)"
    using assms(6) by (simp add: has_quorum_def hs1_def votes_count_vote)
  have "hsState hs2 = hsState hs" by (simp add: hs2_def hs1_def)
  then have lc: "\<not> lock_conflict hs2 (mBlockHash m) (mHeight m)"
    using assms(7) by (simp add: lock_conflict_def)
  have "core hs2 = core hs" by (simp add: hs2_def hs1_def)
  then have "hsCommits hs2 = hsCommits hs" by (rule core_eqD(3))
  then have "hsCommits (decide e (mBlockHash m) (mHeight m) hs2) = hsCommits hs @ [(mHeight m, mBlockHash m)]"
    using lc assms(8) by (simp add: decide_commits)
  moreover have "act_on_quorum e m PhaseCommit hs1 = decide e (mBlockHash m) (mHeight m) hs2"
    by (simp add: act_on_quorum_def hs2_def case_prod_unfold Let_def)
  ultimately have "hsCommits (handleVote e m PhaseCommit hs) = hsCommits hs @ [(mHeight m, mBlockHash m)]"
    using assms(1,5) q by (simp add: handleVote_def core_eqD(3) [OF core_trimVotes] vote_signature_ok_def flip: hs1_def)
  then show ?thesis using assms(2-4) by (simp add: handleMessageLocked_def catch_up_view_def)
qed

definition forged_vote :: message where
  "forged_vote = \<lparr>mType = MsgVoteCommit, mHeight = 5, mView = 0, mBlockHash = [99], mValidator = Some sole_addr,
     mSignature = None, mJustifyQC = None, mPayload = None, mTimestamp = 0\<rparr>"

theorem unsigned_vote_commits_witness:
  "hsCommits (handleMessageLocked (sole_env\<lparr>envVerify := (\<lambda>_ _ _. False)\<rparr>) forged_vote sole_engine) = [(5, [99])]"
proof -
  let ?e = "sole_env\<lparr>envVerify := (\<lambda>_ _ _. False)\<rparr>"
  obtain d where d: "CheckVote (envOrder ?e) (hsDoubleSign sole_engine) (mSender forged_vote) (mHeight forged_vote)
      (mView forged_vote) PhaseCommit (mBlockHash forged_vote) (envNow ?e) = (d, None)"
    by (simp add: CheckVote_def NewDoubleSignDetector_def votes_at_def Let_def case_prod_unfold)
  have "hsCommits (handleMessageLocked ?e forged_vote sole_engine)
      = hsCommits sole_engine @ [(mHeight forged_vote, mBlockHash forged_vote)]"
    by (rule unsigned_vote_commits [OF _ _ _ _ d])
      (simp_all add: forged_vote_def mSender_def slice_def registry_votes_def sole_majority lock_conflict_def)
  then show ?thesis by (simp add: forged_vote_def)
qed

text \<open>
  A vote or proposal for the engine's height and a later view moves the
  engine to that view before its signature or its sender is looked at. Here the vote is one the
  engine then rejects, and still it has lost its view, its vote registries and its pending block.
\<close>

theorem rejected_vote_moves_view:
  assumes "mType m = MsgVotePrepare" and "mHeight m = hsHeight hs" and "mView m > hsView hs"
    and "\<not> vote_signature_ok e m PhasePrepare hs"
  shows "handleMessageLocked e m hs = updateView (mView m) hs \<and>
    hsView (handleMessageLocked e m hs) = mView m \<and> hsViewVotes (handleMessageLocked e m hs) = [] \<and>
    goget (hsPendingBlocks (handleMessageLocked e m hs)) (hsHeight hs) = None"
proof -
  have "\<not> vote_signature_ok e m PhasePrepare (updateView (mView m) hs)"
    using assms(4) by (auto simp: vote_signature_ok_def createVoteData_def updateView_def Let_def startTimeout_def split: option.splits)
  then have "handleMessageLocked e m hs = updateView (mView m) hs"
    using assms(1-3) by (auto simp: handleMessageLocked_def catch_up_view_def handleVote_def)
  then show ?thesis by (simp add: updateView_def Let_def startTimeout_def)
qed

definition stranger_vote :: message where
  "stranger_vote = forged_vote\<lparr>mType := MsgVotePrepare, mView := 1000, mValidator := Some [],
     mSignature := Some \<lparr>sigR = 0, sigS = 0\<rparr>\<rparr>"

theorem rejected_vote_moves_view_witness:
  "handleMessageLocked sole_env stranger_vote sole_engine = updateView 1000 sole_engine \<and>
    hsView (handleMessageLocked sole_env stranger_vote sole_engine) = 1000 \<and>
    hsViewVotes (handleMessageLocked sole_env stranger_vote sole_engine) = [] \<and>
    goget (hsPendingBlocks (handleMessageLocked sole_env stranger_vote sole_engine)) (hsHeight sole_engine) = None"
proof -
  have v: "mView stranger_vote = 1000" by (simp add: stranger_vote_def)
  show ?thesis unfolding v [symmetric]
    by (rule rejected_vote_moves_view)
      (simp_all add: stranger_vote_def forged_vote_def vote_signature_ok_def GetValidator_def sole_vs_def mSender_def
        slice_def sole_addr_def)
qed

text \<open>
  The first accepted timeout of a single validator for a later view takes
  the engine to that view; no quorum of timeouts is needed.
\<close>

theorem one_timeout_moves_view:
  assumes "mView m > hsView hs" and "mSignature m = Some sig"
    and "GetValidator (hsValidatorSet hs) (mSender m) = Some v"
    and "envVerify e (vPublicKey v) (createTimeoutData hs (mHeight m) (mView m)) sig"
    and "mJustifyQC m = None" and "goget (hsTimeouts hs) (mView m) = None"
  shows "hsView (handleTimeout e m hs) = mView m"
proof -
  let ?hs1 = "open_timeouts (mView m) hs"
  have "goget (inner (mView m) (hsTimeouts ?hs1)) (hexEncode (mSender m)) = None"
    using assms(6) by (simp add: open_timeouts_def inner_def)
  then have "handleTimeout e m hs = count_timeout e m sig ?hs1"
    using assms by (simp add: handleTimeout_def Let_def)
  moreover have "core ?hs1 = (hsHeight hs, hsView hs, hsCommits hs, hsRunning hs)"
    by simp (simp add: core_def)
  from core_count_timeout [OF this, of e m sig] have "hsView (count_timeout e m sig ?hs1) = max (hsView hs) (mView m)"
    by (rule core_view)
  ultimately show ?thesis using assms(1) by (simp add: max_absorb2 less_imp_le)
qed

definition sole_timeout :: message where
  "sole_timeout = stranger_vote\<lparr>mType := MsgTimeout, mValidator := Some sole_addr\<rparr>"

theorem one_timeout_moves_view_witness:
  "hsView (handleTimeout sole_env sole_timeout sole_engine) = 1000"
proof -
  have v: "mView sole_timeout = 1000" by (simp add: sole_timeout_def stranger_vote_def)
  have t: "hsTimeouts sole_engine = []" by (simp add: sole_defs Let_def)
  show ?thesis unfolding v [symmetric]
    by (rule one_timeout_moves_view [where sig = "\<lparr>sigR = 0, sigS = 0\<rparr>" and v = "validators sole_vs ! 0"])
      (simp_all add: t sole_timeout_def stranger_vote_def forged_vote_def GetValidator_def sole_vs_def mSender_def slice_def,
       simp add: sole_env_def)
qed

text \<open>
  A proposal whose validator field has fewer than eight bytes and is
  not the proposer's makes the log line of the rejection panic, which stops the engine.
\<close>

theorem short_sender_stops_engine:
  assumes "hsPhase hs = PhasePrepare" and "mType m = MsgProposal" and "mHeight m = hsHeight hs" and "mView m = hsView hs"
    and "GetProposerForView (envSha256 e) (hsValidatorSet hs) (hsHeight hs) (hsView hs) = Inr p"
    and "length (mSender m) < 8" and "mSender m \<noteq> vAddress p"
  shows "\<not> hsRunning (handleMessageLocked e m hs)"
  using assms by (simp add: handleMessageLocked_def catch_up_view_def handleProposal_def recoverPanic_def)

theorem short_sender_stops_engine_witness:
  "hsRunning sole_engine \<and> \<not> hsRunning (handleMessageLocked sole_env
    (forged_vote\<lparr>mType := MsgProposal, mValidator := None\<rparr>) sole_engine)"
proof
  show "\<not> hsRunning (handleMessageLocked sole_env (forged_vote\<lparr>mType := MsgProposal, mValidator := None\<rparr>) sole_engine)"
    by (rule short_sender_stops_engine [where p = "validators sole_vs ! 0"])
      (simp_all add: forged_vote_def mSender_def slice_def GetProposerForView_def sole_pick, simp add: sole_vs_def sole_addr_def)
qed simp

lemma wrap64_fits: "- (2 ^ 63) \<le> x \<Longrightarrow> x < 2 ^ 63 \<Longrightarrow> wrap64 x = x"
  by (simp add: wrap64_def signed_of_int signed_take_bit_int_eq_self)

text \<open>
  On entering a view the timeout is the base plus the view times the increment,
  cut off at the maximum, as long as that sum fits in 63 bits.
\<close>

theorem view_timeout_exact:
  assumes "0 \<le> cfViewTimeout (hsConfig hs)" and "0 \<le> cfTimeoutIncrease (hsConfig hs)"
    and "cfViewTimeout (hsConfig hs) + cfTimeoutIncrease (hsConfig hs) * uint v < 2 ^ 63" and "uint v < 2 ^ 63"
  shows "hsViewTimeout (updateView v hs)
    = min (cfMaxViewTimeout (hsConfig hs)) (cfViewTimeout (hsConfig hs) + cfTimeoutIncrease (hsConfig hs) * uint v)"
proof -
  let ?p = "cfTimeoutIncrease (hsConfig hs) * uint v"
  have s: "sint v = uint v"
    using assms(4) order_trans [OF _ uint_ge_0, of "- (2 ^ 63)" v]
    by (simp add: sint_uint signed_take_bit_int_eq_self)
  have p: "0 \<le> ?p" using assms(2) by simp
  have "wrap64 ?p = ?p" "wrap64 (cfViewTimeout (hsConfig hs) + ?p) = cfViewTimeout (hsConfig hs) + ?p"
    using assms(1,3) p by (auto intro!: wrap64_fits)
  then show ?thesis by (simp add: updateView_def Let_def startTimeout_def s min_def)
qed

theorem view_timeout_exact_witness:
  "hsViewTimeout (updateView 4 sole_engine) = min 30000000000 (5000000000 + 2000000000 * uint (4 :: u64))"
  using view_timeout_exact [of sole_engine 4] by (simp add: sole_config_def DefaultConsensusConfig_def)

text \<open>
  Beyond that bound the product wraps. With the default configuration a
  message for view 4611686019 leaves a negative timeout, so that the view timer fires at once.
\<close>

theorem view_timeout_wraps:
  "hsViewTimeout (updateView 4611686019 (NewHotStuffEngine DefaultConsensusConfig vs sm c now)) < 0"
  by (simp add: updateView_def Let_def startTimeout_def NewHotStuffEngine_def DefaultConsensusConfig_def wrap64_def)

text \<open>
  A new-view message that carries a valid timeout certificate may
  carry any other certificate next to it: if its view is the newest it becomes the lock, without a
  look at its signers. The message's own signature is not verified either.
\<close>

theorem new_view_installs_unchecked_qc:
  assumes "mSignature m \<noteq> None" and "slice (mPayload m) \<noteq> []" and "envUnmarshalTC e (slice (mPayload m)) = Some tc"
    and "tcView tc = mView m" and "tcHeight tc = mHeight m" and "validateTimeoutCert e hs tc" and "tcHighQC tc = None"
    and "mJustifyQC m = Some q" and "\<And>l. hsLockedQC hs = Some l \<Longrightarrow> qcView l < qcView q"
  shows "hsLockedQC (handleNewView e m hs) = Some q"
proof -
  have st: "hsLockedQC (propose_if_leader e hs1) = hsLockedQC hs1" for hs1
    by (simp add: propose_if_leader_def triggerPropose_def)
  have dr: "hsState (drop_old_timeouts v hs1) = hsState hs1" for v hs1
  proof -
    have "hsState (foldl (\<lambda>hs w. if w < v then delete_timeouts w hs else hs) hs1 ws) = hsState hs1" for ws
      by (induction ws arbitrary: hs1) (simp_all add: delete_timeouts_def)
    then show ?thesis by (simp add: drop_old_timeouts_def)
  qed
  have up: "hsLockedQC (updateView v hs1) = hsLockedQC hs1" for v hs1
    by (simp add: updateView_def Let_def startTimeout_def)
  have "adopt_new_view_qc e m hs = Some hs"
    using assms by (simp add: adopt_new_view_qc_def)
  moreover have "hsLockedQC (lock_if_newer q hs) = Some q"
    using assms(9) by (simp add: lock_if_newer_def setLockedQC_def split: option.splits)
  ultimately show ?thesis
    using assms(1,8) by (auto simp: handleNewView_def Let_def st dr up)
qed

text \<open>
  The lock survives the step to the next height. As long as the views of
  the new height are below that of the stale lock, no prepare certificate replaces it, and a lock of
  an older height never makes \<open>decide\<close> refuse a block.
\<close>

theorem stale_lock_blocks_locking:
  assumes "hsLockedQC hs = Some l" and "v < qcView l" and "qcHeight l < h"
  shows "hsLockedQC (prepare_certificate h v b hs) = Some l \<and> \<not> lock_conflict (prepare_certificate h v b hs) b' h"
proof -
  have "hsState (fst (createQC h v PhasePrepare b hs)) = hsState hs"
    by simp
  then have "hsLockedQC (prepare_certificate h v b hs) = Some l"
    using assms(1,2)
    by (simp add: prepare_certificate_def case_prod_unfold Let_def lock_if_not_older_def setPreparedQC_def createQC_def
        flip: not_less)
  then show ?thesis using assms(3) by (auto simp: lock_conflict_def)
qed

definition stale_engine :: engine where
  "stale_engine = setLockedQC (Some \<lparr>qcHeight = 4, qcView = 9, qcPhase = PhasePrepare, qcBlockHash = [1],
     qcSignatures = [], qcValidatorAddrs = []\<rparr>) sole_engine"

theorem stale_lock_blocks_locking_witness:
  "hsLockedQC (prepare_certificate 5 0 [7] stale_engine) = hsLockedQC stale_engine
   \<and> \<not> lock_conflict (prepare_certificate 5 0 [7] stale_engine) [8] 5"
proof -
  have l: "hsLockedQC stale_engine = Some \<lparr>qcHeight = 4, qcView = 9, qcPhase = PhasePrepare, qcBlockHash = [1],
     qcSignatures = [], qcValidatorAddrs = []\<rparr>"
    by (simp add: stale_engine_def setLockedQC_def)
  show ?thesis unfolding l by (rule stale_lock_blocks_locking [OF l]) simp_all
qed

definition sole_tc :: timeout_cert where
  "sole_tc = \<lparr>tcHeight = 5, tcView = 1000, tcTimeouts = [], tcSignatures = [(hexEncode sole_addr, \<lparr>sigR = 0, sigS = 0\<rparr>)],
     tcTotalStake = 5, tcHighQC = None\<rparr>"

definition empty_qc :: qc where
  "empty_qc = \<lparr>qcHeight = 5, qcView = 0, qcPhase = PhasePrepare, qcBlockHash = [66], qcSignatures = [], qcValidatorAddrs = []\<rparr>"

definition new_view_message :: message where
  "new_view_message = stranger_vote\<lparr>mType := MsgNewView, mPayload := Some [0], mJustifyQC := Some empty_qc\<rparr>"

theorem new_view_installs_unchecked_qc_witness:
  "\<not> IsValid empty_qc sole_vs \<and>
   hsLockedQC (handleNewView (sole_env\<lparr>envUnmarshalTC := (\<lambda>_. Some sole_tc)\<rparr>) new_view_message sole_engine) = Some empty_qc"
proof
  show "hsLockedQC (handleNewView (sole_env\<lparr>envUnmarshalTC := (\<lambda>_. Some sole_tc)\<rparr>) new_view_message sole_engine) = Some empty_qc"
  proof (rule new_view_installs_unchecked_qc [where tc = sole_tc])
    show "validateTimeoutCert (sole_env\<lparr>envUnmarshalTC := (\<lambda>_. Some sole_tc)\<rparr>) sole_engine sole_tc"
      by (simp add: validateTimeoutCert_def sole_tc_def GetValidator_def) (simp add: sole_env_def sole_vs_def)
  qed (simp_all add: new_view_message_def stranger_vote_def forged_vote_def sole_tc_def slice_def)
  show "\<not> IsValid empty_qc sole_vs"
    by (simp add: IsValid_def empty_qc_def sole_vs_def)
qed

lemma Start_restores:
  assumes "\<not> hsRunning hs" and "0 < psHeight (hsStateStore hs)"
  shows "hsHeight (fst (Start e h hs)) = psHeight (hsStateStore hs)"
  using assms by (auto simp: Start_def Load_def restoreState_def Let_def startTimeout_def triggerPropose_def split: sum.splits)

lemma saved_by_decide:
  assumes "hsHeight hs = h" and "\<not> lock_conflict hs b h" and "envCommitBlock e b h"
    and "h < hsEpochStart hs + cfEpochLength (hsConfig hs)"
  shows "psHeight (hsStateStore (decide e b h hs)) = h"
proof -
  let ?hs1 = "mark_decided b h hs"
  define hs2 where "hs2 = finalize_block e b h (getValidatorAddresses ?hs1) (?hs1\<lparr>hsCommits := hsCommits ?hs1 @ [(h, b)]\<rparr>)"
  define hs5 where "hs5 = (distributeRewards e hs2)\<lparr>hsStateStore := Save (hsStateStore (distributeRewards e hs2))
       (hsState (distributeRewards e hs2)) (getValidatorAddresses ?hs1) (envNow e)\<rparr>"
  have st: "hsHeight hs2 = h" using assms(1) by (simp add: hs2_def finalize_block_def mark_decided_def)
  have "maybe_rotate e h hs2 = Some hs2"
    using assms(4) [unfolded not_le [symmetric]]
    by (simp add: maybe_rotate_def hs2_def finalize_block_def mark_decided_def)
  moreover have h4: "hsHeight (distributeRewards e hs2) = h"
    using st core_eqD(1) [OF core_distributeRewards] by simp
  ultimately have "decide e b h hs = enter_height e hs5"
    using assms(2,3) by (simp add: decide_def after_commit_def Let_def hs5_def flip: hs2_def)
  moreover have "hsStateStore (enter_height e hs5) = hsStateStore hs5"
    by (simp add: enter_height_def Let_def recoverPanic_def startTimeout_def triggerPropose_def split: sum.splits)
  ultimately show ?thesis using h4 by (simp add: hs5_def Save_def)
qed

text \<open>
  The state is saved before the height goes up. An engine that has decided
  a block and is then stopped and started again is back at the height of that block.
\<close>

theorem restart_repeats_height:
  assumes "hsHeight hs = h" and "0 < h" and "\<not> lock_conflict hs b h" and "envCommitBlock e b h"
    and "h < hsEpochStart hs + cfEpochLength (hsConfig hs)"
  shows "hsHeight (fst (Start e' h' (hs_Stop (decide e b h hs)))) = h \<and> (h, b) \<in> set (hsCommits (decide e b h hs))"
proof -
  have "hsStateStore (hs_Stop (decide e b h hs)) = hsStateStore (decide e b h hs)" "\<not> hsRunning (hs_Stop (decide e b h hs))"
    by (simp_all add: hs_Stop_def)
  then show ?thesis
    using Start_restores [of "hs_Stop (decide e b h hs)" e' h'] saved_by_decide [OF assms(1,3,4,5)] assms(2-4)
    by (simp add: decide_commits)
qed

theorem restart_repeats_height_witness:
  "hsHeight (fst (Start sole_env 77 (hs_Stop (decide sole_env [7] 5 sole_engine)))) = 5
   \<and> (5, [7]) \<in> set (hsCommits (decide sole_env [7] 5 sole_engine))"
proof (rule restart_repeats_height)
  have "hsEpochStart sole_engine = 1" by (simp add: sole_defs Let_def)
  then show "5 < hsEpochStart sole_engine + cfEpochLength (hsConfig sole_engine)"
    by (simp add: sole_config_def DefaultConsensusConfig_def)
qed (simp_all add: lock_conflict_def)

text \<open>
  Answering a block request ends for every upper height but the largest, with
  the known blocks of the range; a request up to the largest height keeps the handler busy for ever.
\<close>

lemma respond_loop_range:
  assumes "unat hi < 2 ^ 64 - 1"
  shows "unat hi + 1 - unat h = n \<Longrightarrow> respond_loop e (Suc n) h hi = Some (respond_blocks e h hi)"
proof (induction n arbitrary: h)
  case 0
  then have "\<not> h \<le> hi" by (simp add: word_le_nat_alt)
  with 0 show ?case by (simp add: respond_blocks_def)
next
  case (Suc n)
  then have le: "unat h \<le> unat hi" by simp
  then have u: "unat (h + 1) = unat h + 1" using assms by (simp add: unat_word_ariths)
  have "[unat h ..< Suc (unat hi)] = unat h # [unat (h + 1) ..< Suc (unat hi)]"
    using le by (simp add: u upt_conv_Cons)
  then have "respond_blocks e h hi = block_response e h @ respond_blocks e (h + 1) hi"
    unfolding respond_blocks_def by simp
  moreover have "respond_loop e (Suc n) (h + 1) hi = Some (respond_blocks e (h + 1) hi)"
    using Suc.prems u by (intro Suc.IH) simp
  ultimately show ?case using le by (subst respond_loop.simps) (simp add: word_le_nat_alt)
qed

theorem block_request_loop:
  "(if hi = - 1 then (\<forall>n. respond_loop e n lo hi = None)
    else (\<exists>n. respond_loop e n lo hi = Some (respond_blocks e lo hi)))"
proof (cases "hi = - 1")
  case True
  have "respond_loop e n h (- 1) = None" for n h
    by (induction n arbitrary: h) simp_all
  with True show ?thesis by simp
next
  case False
  have "unat hi < unat (hi + 1)" using word_less_plus_1 [OF False] by (simp add: word_less_nat_alt)
  moreover have "unat (hi + 1) < 2 ^ 64" using unsigned_less [of "hi + 1"] by simp
  ultimately have "unat hi < 2 ^ 64 - 1" by simp
  from respond_loop_range [OF this refl, where e = e and h = lo]
  have "\<exists>n. respond_loop e n lo hi = Some (respond_blocks e lo hi)" by (rule exI)
  with False show ?thesis by simp
qed

text \<open>
  Within a window the k-th message of a sender passes exactly if it is the first
  or k is within the limit.
\<close>

lemma Allow_count:
  assumes "now - rlLastReset rl \<le> rlWindow rl"
  shows "snd (Allow rl a now) \<longleftrightarrow> goget (rlCounters rl) a = None \<or> rcCount (the (goget (rlCounters rl) a)) + 1 \<le> rlLimit rl"
    and "rlLastReset (fst (Allow rl a now)) = rlLastReset rl" and "rlWindow (fst (Allow rl a now)) = rlWindow rl"
    and "rlLimit (fst (Allow rl a now)) = rlLimit rl"
    and "goget (rlCounters (fst (Allow rl a now))) b = (if b = a then Some \<lparr>rcCount =
      (case goget (rlCounters rl) a of None \<Rightarrow> 0 | Some c \<Rightarrow> rcCount c) + 1, rcLastSeen = now\<rparr> else goget (rlCounters rl) b)"
  using assms by (auto simp: Allow_def Let_def split: option.splits)

fun allow_all :: "rate_limiter \<Rightarrow> (string \<times> time) list \<Rightarrow> rate_limiter" where
  "allow_all rl [] = rl"
| "allow_all rl ((a, t) # qs) = allow_all (fst (Allow rl a t)) qs"

theorem rate_limit_exact:
  assumes "\<forall>t \<in> snd ` set qs. t - t0 \<le> w" and "now - t0 \<le> w"
  shows "snd (Allow (allow_all (newMessageRateLimiter limit w t0) qs) a now)
    \<longleftrightarrow> a \<notin> fst ` set qs \<or> int (length (filter (\<lambda>q. fst q = a) qs)) + 1 \<le> limit"
proof -
  have *: "\<forall>t \<in> snd ` set qs. t - rlLastReset rl \<le> rlWindow rl \<Longrightarrow>
      rlLastReset (allow_all rl qs) = rlLastReset rl \<and> rlWindow (allow_all rl qs) = rlWindow rl \<and>
      rlLimit (allow_all rl qs) = rlLimit rl \<and>
      (goget (rlCounters (allow_all rl qs)) a = None \<longleftrightarrow> a \<notin> fst ` set qs \<and> goget (rlCounters rl) a = None) \<and>
      (case goget (rlCounters (allow_all rl qs)) a of None \<Rightarrow> 0 | Some c \<Rightarrow> rcCount c)
        = (case goget (rlCounters rl) a of None \<Rightarrow> 0 | Some c \<Rightarrow> rcCount c) + int (length (filter (\<lambda>q. fst q = a) qs))" for rl
  proof (induction qs arbitrary: rl)
    case Nil
    then show ?case by simp
  next
    case (Cons q qs)
    obtain b t where q: "q = (b, t)" by (cases q)
    have t: "t - rlLastReset rl \<le> rlWindow rl" using Cons.prems q by simp
    show ?case
      using Cons.IH [of "fst (Allow rl b t)"] Cons.prems by (auto simp: q Allow_count [OF t] split: option.splits)
  qed
  let ?rl = "allow_all (newMessageRateLimiter limit w t0) qs"
  have f: "rlLastReset ?rl = t0" "rlWindow ?rl = w" "rlLimit ?rl = limit"
    "goget (rlCounters ?rl) a = None \<longleftrightarrow> a \<notin> fst ` set qs"
    "(case goget (rlCounters ?rl) a of None \<Rightarrow> 0 | Some c \<Rightarrow> rcCount c) = int (length (filter (\<lambda>q. fst q = a) qs))"
    using * [of "newMessageRateLimiter limit w t0"] assms(1) by (simp_all add: newMessageRateLimiter_def)
  have "now - rlLastReset ?rl \<le> rlWindow ?rl" using assms(2) f by simp
  from Allow_count(1) [OF this, of a] f show ?thesis by (cases "goget (rlCounters ?rl) a") auto
qed

theorem rate_limit_exact_witness:
  "\<not> snd (Allow (allow_all (newMessageRateLimiter 2 100 0) [(''a'', 1), (''b'', 2), (''a'', 3)]) ''a'' 50)"
proof -
  have "\<forall>t \<in> snd ` set [(''a'', 1), (''b'', 2), (''a'', 3)]. t - 0 \<le> (100 :: int)" "(50 :: int) - 0 \<le> 100"
    by simp_all
  from rate_limit_exact [OF this, of 2 "''a''"] show ?thesis by simp
qed

subsection \<open>Voting does not look at the lock\<close>

definition unlock :: "engine \<Rightarrow> engine" where
  "unlock hs = hs\<lparr>hsState := (hsState hs)\<lparr>csLockedQC := None\<rparr>\<rparr>"

lemma unlock_fields [simp]:
  "hsHeight (unlock hs) = hsHeight hs" "hsView (unlock hs) = hsView hs" "hsPhase (unlock hs) = hsPhase hs"
  "hsValidatorSet (unlock hs) = hsValidatorSet hs" "hsDoubleSign (unlock hs) = hsDoubleSign hs"
  "hsOutbox (unlock hs) = hsOutbox hs" "hsViewVotes (unlock hs) = hsViewVotes hs" "hsLiveness (unlock hs) = hsLiveness hs"
  "hsPendingBlocks (unlock hs) = hsPendingBlocks hs" "hsChainID (unlock hs) = hsChainID hs"
  by (simp_all add: unlock_def)

lemma unlock_unlock [simp]: "unlock (unlock hs) = unlock hs"
  by (simp add: unlock_def)

lemma unlock_lock [simp]: "unlock (setLockedQC q hs) = unlock hs" "unlock (lock_if_newer p hs) = unlock hs"
  "unlock (lock_if_not_older p hs) = unlock hs"
  by (simp_all add: unlock_def setLockedQC_def lock_if_newer_def lock_if_not_older_def split: option.splits)

lemma unlock_updates [simp]:
  "(unlock hs)\<lparr>hsDoubleSign := d\<rparr> = unlock (hs\<lparr>hsDoubleSign := d\<rparr>)"
  "(unlock hs)\<lparr>hsLiveness := l\<rparr> = unlock (hs\<lparr>hsLiveness := l\<rparr>)"
  "setPhase ph (unlock hs) = unlock (setPhase ph hs)"
  "setPreparedQC q (unlock hs) = unlock (setPreparedQC q hs)"
  "startTimeout (unlock hs) = unlock (startTimeout hs)"
  "doBroadcast m (unlock hs) = unlock (doBroadcast m hs)"
  "recoverPanic (unlock hs) = unlock (recoverPanic hs)"
  "add_pending m (unlock hs) = unlock (add_pending m hs)"
  "slash_evidence e i (unlock hs) = unlock (slash_evidence e i hs)"
  by (simp_all add: unlock_def setPhase_def setPreparedQC_def startTimeout_def doBroadcast_def recoverPanic_def add_pending_def
      slash_evidence_def Let_def split: sum.splits)

lemma unlock_getOrCreate [simp]:
  "getOrCreateVoteRegistry h v (unlock hs) = map_prod unlock id (getOrCreateVoteRegistry h v hs)"
  by (simp add: getOrCreateVoteRegistry_def unlock_def split: option.splits)

lemma unlock_update_registry [simp]: "update_registry h v f (unlock hs) = unlock (update_registry h v f hs)"
  by (simp add: update_registry_def case_prod_unfold Let_def) (simp add: unlock_def)

lemma unlock_storeVoteSignature [simp]: "storeVoteSignature h v ph x a s (unlock hs) = unlock (storeVoteSignature h v ph x a s hs)"
  by (simp add: storeVoteSignature_def split: option.splits)

lemma unlock_record_my_vote [simp]: "record_my_vote e h v ph b (unlock hs) = unlock (record_my_vote e h v ph b hs)"
  by (simp add: record_my_vote_def)

lemma unlock_createQC [simp]: "createQC h v ph b (unlock hs) = map_prod unlock id (createQC h v ph b hs)"
  by (simp add: createQC_def case_prod_unfold Let_def)

lemma unlock_has_quorum [simp]: "has_quorum (unlock hs) h v ph b = has_quorum hs h v ph b"
  by (simp add: has_quorum_def registry_votes_def)

lemma unlock_prepare_certificate [simp]:
  "unlock (prepare_certificate h v b (unlock hs)) = unlock (prepare_certificate h v b hs)"
  by (simp add: prepare_certificate_def case_prod_unfold Let_def)

lemma unlock_setPhase: "unlock (setPhase ph hs) = setPhase ph (unlock hs)" "unlock (startTimeout hs) = startTimeout (unlock hs)"
  by simp_all

lemma unlock_accept_proposal [simp]: "unlock (accept_proposal e m s (unlock hs)) = unlock (accept_proposal e m s hs)"
  by (simp add: accept_proposal_def Let_def unlock_setPhase del: unlock_updates(3,5))

lemma unlock_vote_data [simp]: "createVoteData (unlock hs) h v ph b = createVoteData hs h v ph b"
  "createProposalData (unlock hs) b = createProposalData hs b"
  by (simp_all add: createVoteData_def createProposalData_def)

lemma unlock_vote_for_block: "unlock (vote_for_block e m (unlock hs)) = unlock (vote_for_block e m hs)"
  by (simp add: vote_for_block_def case_prod_unfold Let_def split: option.splits)

lemma unlock_vote_for_block_cong: "unlock hs = unlock hs' \<Longrightarrow> unlock (vote_for_block e m hs) = unlock (vote_for_block e m hs')"
  by (metis unlock_vote_for_block)

lemma unlock_judge_proposal: "unlock (judge_proposal e m (unlock hs)) = unlock (judge_proposal e m hs)"
  by (auto simp: judge_proposal_def Let_def isValidQC_def intro!: unlock_vote_for_block_cong split: option.splits)

lemma unlock_handleProposal: "unlock (handleProposal e m (unlock hs)) = unlock (handleProposal e m hs)"
  by (auto simp: handleProposal_def proposal_signature_ok_def handleDoubleSign_def unlock_judge_proposal
      split: sum.splits prod.splits option.splits)

text \<open>
  What an engine sends on a proposal, its prepare vote included, is the same
  whatever certificate it is locked on. The locking rule of HotStuff, to vote only for blocks that
  extend the lock or come with a newer certificate, is not there.
\<close>

theorem proposal_ignores_lock:
  "hsOutbox (handleProposal e m (setLockedQC q hs)) = hsOutbox (handleProposal e m hs)"
proof -
  have "unlock (handleProposal e m (setLockedQC q hs)) = unlock (handleProposal e m hs)"
    using unlock_handleProposal [of e m "setLockedQC q hs"] unlock_handleProposal [of e m hs] by simp
  then have "hsOutbox (unlock (handleProposal e m (setLockedQC q hs))) = hsOutbox (unlock (handleProposal e m hs))"
    by simp
  then show ?thesis by simp
qed
end
