(* ===== verification/Abi.thy ===== *)
theory Abi
  imports Codec
begin

text \<open>
  The 32-byte word encoding that the native token contracts use for calldata and results
  (\<open>contracts/erc20.go\<close>, shared by \<open>contracts/erc721.go\<close>), and the outcome of a contract call.

  \<open>padTo32\<close> slices \<open>b[32-len(v):]\<close> and panics for a longer argument: its result is an option,
  \<open>None\<close> the panic. Integers are \<open>big.Int\<close> values, whose \<open>Bytes\<close> are those of the absolute value.
\<close>

datatype 'e call_result = Output bytes | CallError 'e | CallPanic

definition padTo32 :: "bytes \<Rightarrow> bytes option" where
  "padTo32 v = (if length v \<le> 32 then Some (replicate (32 - length v) 0 @ v) else None)"

text \<open>A nil slice turns into the empty string when it is used as a map key.\<close>

definition readAddress :: "bytes \<Rightarrow> bytes option" where
  "readAddress data = (if length data < 32 then None else Some (take 20 (drop 12 data)))"

definition addr_key :: "bytes option \<Rightarrow> bytes" where
  "addr_key a = (case a of None \<Rightarrow> [] | Some v \<Rightarrow> v)"

definition readUint256 :: "bytes \<Rightarrow> int" where
  "readUint256 data = (if length data < 32 then 0 else int (unbe (take 32 data)))"

definition readBool :: "bytes \<Rightarrow> bool" where
  "readBool data = (if length data < 32 then False else unbe (take 32 data) \<noteq> 0)"

definition big_Bytes :: "int \<Rightarrow> bytes" where
  "big_Bytes x = big_bytes (nat \<bar>x\<bar>)"

text \<open>The answer \<open>padTo32(x.Bytes())\<close> of a call.\<close>

definition answer :: "bytes option \<Rightarrow> 'e call_result" where
  "answer b = (case b of None \<Rightarrow> CallPanic | Some v \<Rightarrow> Output v)"

definition encodeString :: "string \<Rightarrow> bytes option" where
  "encodeString s = (let data = bytes_of_str s;
       dataPart = data @ replicate (32 * ((length data + 31) div 32) - length data) 0
     in case padTo32 (big_bytes 32) of
          None \<Rightarrow> None
        | Some offsetPart \<Rightarrow> (case padTo32 (big_bytes (length data)) of
              None \<Rightarrow> None
            | Some lenPart \<Rightarrow> Some (offsetPart @ lenPart @ dataPart)))"

subsection \<open>What the words say\<close>

text \<open>\<open>abi_word n\<close> is the 32-byte big-endian word of a number, \<open>abi_address a\<close> that of an address.\<close>

definition abi_word :: "nat \<Rightarrow> bytes" where
  "abi_word n = be 32 n"

definition abi_address :: "bytes \<Rightarrow> bytes" where
  "abi_address a = replicate 12 0 @ a"

lemma length_abi_word [simp]: "length (abi_word n) = 32"
  by (simp add: abi_word_def)

lemma length_abi_address [simp]: "length a = 20 \<Longrightarrow> length (abi_address a) = 32"
  by (simp add: abi_address_def)

lemma addr_key_Some [simp]: "addr_key (Some a) = a"
  by (simp add: addr_key_def)

lemma readAddress_abi [simp]:
  "length a = 20 \<Longrightarrow> readAddress (abi_address a @ rest) = Some a"
  by (simp add: readAddress_def abi_address_def)

lemma readUint256_word [simp]: "readUint256 (abi_word n @ rest) = int (n mod 2 ^ 256)"
proof -
  have "unbe (abi_word n) = n mod 256 ^ 32" unfolding abi_word_def by (rule unbe_be)
  then show ?thesis by (simp add: readUint256_def)
qed

lemma readUint256_word_only [simp]: "readUint256 (abi_word n) = int (n mod 2 ^ 256)"
  using readUint256_word [of n "[]"] by simp

lemma readUint256_nonneg [simp]: "0 \<le> readUint256 data"
  by (simp add: readUint256_def)

lemma readUint256_less: "readUint256 data < 2 ^ 256"
proof (cases "length data < 32")
  case True
  then show ?thesis by (simp add: readUint256_def)
next
  case False
  then have "length (take 32 data) = 32" by simp
  then have "unbe (take 32 data) < 256 ^ 32" using unbe_less [of "take 32 data"] by metis
  then show ?thesis using False by (simp add: readUint256_def)
qed

lemma padTo32_unbe: "padTo32 v = Some w \<Longrightarrow> length w = 32 \<and> unbe w = unbe v"
  by (auto simp: padTo32_def split: if_splits)

lemma padTo32_Some: "length v \<le> 32 \<Longrightarrow> padTo32 v = Some (replicate (32 - length v) 0 @ v)"
  by (simp add: padTo32_def)

lemma length_big_Bytes:
  assumes "\<bar>x\<bar> < 2 ^ 256"
  shows "length (big_Bytes x) \<le> 32"
proof -
  have "nat \<bar>x\<bar> < 256 ^ 32" using assms by (simp add: nat_less_iff)
  then show ?thesis unfolding big_Bytes_def by (rule length_big_bytes_le)
qed

text \<open>A number that fits in 256 bits is answered as its word, whatever larger one panics.\<close>

lemma answer_number:
  assumes "0 \<le> x" and "x < 2 ^ 256"
  shows "\<exists>w. answer (padTo32 (big_Bytes x)) = Output w \<and> length w = 32 \<and> int (unbe w) = x"
proof -
  have "length (big_Bytes x) \<le> 32" using assms by (intro length_big_Bytes) simp
  then obtain w where w: "padTo32 (big_Bytes x) = Some w" by (simp add: padTo32_Some)
  with padTo32_unbe [OF w] assms show ?thesis by (simp add: answer_def big_Bytes_def)
qed

lemma pad_small: "padTo32 (big_Bytes 0) = Some (abi_word 0)" "padTo32 (big_Bytes 1) = Some (abi_word 1)"
  by code_simp+

lemma answer_small [simp]:
  "answer (padTo32 (big_Bytes 0)) = Output (abi_word 0)"
  "answer (padTo32 (big_Bytes 1)) = Output (abi_word 1)"
  by (simp_all add: pad_small answer_def)

lemma encodeString_decodes:
  assumes "length s < 2 ^ 256" and "encodeString s = Some b"
  shows "unbe (take 32 b) = 32" and "unbe (take 32 (drop 32 b)) = length s"
    and "take (length s) (drop 64 b) = bytes_of_str s" and "length b mod 32 = 0"
proof -
  have "length s < 256 ^ 32" using assms(1) by simp
  then have "length (big_bytes (length s)) \<le> 32" by (rule length_big_bytes_le)
  moreover have "length (big_bytes 32) \<le> 32" by (rule length_big_bytes_le) simp
  ultimately obtain o' l where w: "padTo32 (big_bytes 32) = Some o'"
      "padTo32 (big_bytes (length s)) = Some l"
    by (simp add: padTo32_Some)
  note o' = padTo32_unbe [OF w(1)] and l = padTo32_unbe [OF w(2)]
  have b: "b = o' @ l @ bytes_of_str s
      @ replicate (32 * ((length s + 31) div 32) - length s) 0"
    using assms(2) by (simp add: encodeString_def w)
  show "unbe (take 32 b) = 32" "unbe (take 32 (drop 32 b)) = length s"
    "take (length s) (drop 64 b) = bytes_of_str s"
    using o' l by (simp_all add: b)
  have "length s \<le> 32 * ((length s + 31) div 32)" by presburger
  then have "length b = 64 + 32 * ((length s + 31) div 32)" using o' l by (simp add: b)
  then show "length b mod 32 = 0" by presburger
qed

end
