(* ===== verification/ERC20.thy ===== *)
theory ERC20
  imports Abi Contracts
begin

text \<open>
  The native fungible token of \<open>contracts/erc20.go\<close>: calldata dispatch, the handlers, and the
  entry points the node calls directly (\<open>BalanceOf\<close>, \<open>TransferFromAccount\<close>, \<open>Mint\<close>).

  Balances and allowances are \<open>*big.Int\<close> values that a handler mutates in place; no two map
  entries share a pointer (every entry is created by a fresh \<open>big.Int\<close>), so an in-place \<open>Sub\<close>
  or \<open>Add\<close> is an update of the map at that key, and a transfer to oneself reads the entry again
  after the subtraction. Each call holds the token's lock throughout and is one step.
\<close>

subsection \<open>State and errors\<close>

record erc20 =
  tkName :: string
  tkSymbol :: string
  tkDecimals :: byte
  tkTotalSupply :: int
  tkBalances :: "(bytes, int) gomap"
  tkAllowances :: "(bytes, int) gomap"

datatype erc20_error = ErcShortInput | ErcUnknownSelector | ErcBalanceOfArgs | ErcTransferArgs
  | ErcTransferFromArgs | ErcApproveArgs | ErcAllowanceArgs | ErcInsufficient

definition selTotalSupply :: bytes where "selTotalSupply = [0x18, 0x16, 0x0d, 0xdd]"
definition selBalanceOf :: bytes where "selBalanceOf = [0x70, 0xa0, 0x82, 0x31]"
definition selTransfer :: bytes where "selTransfer = [0xa9, 0x05, 0x9c, 0xbb]"
definition selTransferFrom :: bytes where "selTransferFrom = [0x23, 0xb8, 0x72, 0xdd]"
definition selApprove :: bytes where "selApprove = [0x09, 0x5e, 0xa7, 0xb3]"
definition selAllowance :: bytes where "selAllowance = [0xdd, 0x62, 0xed, 0x3e]"
definition selName :: bytes where "selName = [0x06, 0xfd, 0xde, 0x03]"
definition selSymbol :: bytes where "selSymbol = [0x95, 0xd8, 0x9b, 0x41]"
definition selDecimals :: bytes where "selDecimals = [0x31, 0x3c, 0xe5, 0x67]"

lemmas erc20_selectors = selTotalSupply_def selBalanceOf_def selTransfer_def selTransferFrom_def
  selApprove_def selAllowance_def selName_def selSymbol_def selDecimals_def

definition NewERC20Token :: "string \<Rightarrow> string \<Rightarrow> byte \<Rightarrow> int \<Rightarrow> bytes \<Rightarrow> erc20" where
  "NewERC20Token name symbol decimals initialSupply deployer =
     \<lparr>tkName = name, tkSymbol = symbol, tkDecimals = decimals, tkTotalSupply = initialSupply,
      tkBalances = goput deployer initialSupply [], tkAllowances = []\<rparr>"

subsection \<open>Handlers\<close>

definition handleTotalSupply :: "erc20 \<Rightarrow> erc20_error call_result" where
  "handleTotalSupply t = answer (padTo32 (big_Bytes (tkTotalSupply t)))"

definition handleBalanceOf :: "erc20 \<Rightarrow> bytes \<Rightarrow> erc20_error call_result" where
  "handleBalanceOf t args = (case readAddress args of
       None \<Rightarrow> CallError ErcBalanceOfArgs
     | Some owner \<Rightarrow>
         (let bal = (case goget (tkBalances t) owner of None \<Rightarrow> 0 | Some b \<Rightarrow> b)
          in answer (padTo32 (big_Bytes bal))))"

text \<open>The end of both transfers: the receiver's entry is created when missing and increased.\<close>

definition credit :: "bytes \<Rightarrow> int \<Rightarrow> (bytes, int) gomap \<Rightarrow> (bytes, int) gomap" where
  "credit toAddr amount bals =
     (let bals' = (if goget bals toAddr = None then goput toAddr 0 bals else bals)
      in goput toAddr ((case goget bals' toAddr of None \<Rightarrow> 0 | Some b \<Rightarrow> b) + amount) bals')"

definition handleTransfer :: "erc20 \<Rightarrow> bytes \<Rightarrow> bytes \<Rightarrow> erc20 \<times> erc20_error call_result" where
  "handleTransfer t caller args =
     (if length args < 64 then (t, CallError ErcTransferArgs)
      else let dest = readAddress args; amount = readUint256 (drop 32 args)
        in case goget (tkBalances t) caller of
             None \<Rightarrow> (t, answer (padTo32 (big_Bytes 0)))
           | Some fromBal \<Rightarrow>
               (if fromBal < amount then (t, answer (padTo32 (big_Bytes 0)))
                else (t\<lparr>tkBalances := credit (addr_key dest) amount
                          (goput caller (fromBal - amount) (tkBalances t))\<rparr>,
                      answer (padTo32 (big_Bytes 1)))))"

definition allowance_key :: "bytes \<Rightarrow> bytes \<Rightarrow> bytes" where
  "allowance_key owner spender = owner @ bytes_of_str ''|'' @ spender"

definition handleTransferFrom :: "erc20 \<Rightarrow> bytes \<Rightarrow> bytes \<Rightarrow> erc20 \<times> erc20_error call_result" where
  "handleTransferFrom t caller args =
     (if length args < 96 then (t, CallError ErcTransferFromArgs)
      else let src = addr_key (readAddress args); dest = readAddress (drop 32 args);
               amount = readUint256 (drop 64 args); allowanceKey = allowance_key src caller
        in case goget (tkBalances t) src of
             None \<Rightarrow> (t, answer (padTo32 (big_Bytes 0)))
           | Some fromBal \<Rightarrow>
               (if fromBal < amount then (t, answer (padTo32 (big_Bytes 0)))
                else (case goget (tkAllowances t) allowanceKey of
                    None \<Rightarrow> (t, answer (padTo32 (big_Bytes 0)))
                  | Some allowance \<Rightarrow>
                      (if allowance < amount then (t, answer (padTo32 (big_Bytes 0)))
                       else (t\<lparr>tkBalances := credit (addr_key dest) amount
                                 (goput src (fromBal - amount) (tkBalances t)),
                               tkAllowances := goput allowanceKey (allowance - amount)
                                 (tkAllowances t)\<rparr>,
                             answer (padTo32 (big_Bytes 1)))))))"

definition handleApprove :: "erc20 \<Rightarrow> bytes \<Rightarrow> bytes \<Rightarrow> erc20 \<times> erc20_error call_result" where
  "handleApprove t caller args =
     (if length args < 64 then (t, CallError ErcApproveArgs)
      else let spender = addr_key (readAddress args); amount = readUint256 (drop 32 args)
        in (t\<lparr>tkAllowances := goput (allowance_key caller spender) amount (tkAllowances t)\<rparr>,
            answer (padTo32 (big_Bytes 1))))"

definition handleAllowance :: "erc20 \<Rightarrow> bytes \<Rightarrow> erc20_error call_result" where
  "handleAllowance t args =
     (if length args < 64 then CallError ErcAllowanceArgs
      else let owner = addr_key (readAddress args); spender = addr_key (readAddress (drop 32 args));
               allowance = (case goget (tkAllowances t) (allowance_key owner spender) of
                   None \<Rightarrow> 0 | Some a \<Rightarrow> a)
        in answer (padTo32 (big_Bytes allowance)))"

definition handleName :: "erc20 \<Rightarrow> erc20_error call_result" where
  "handleName t = answer (encodeString (tkName t))"

definition handleSymbol :: "erc20 \<Rightarrow> erc20_error call_result" where
  "handleSymbol t = answer (encodeString (tkSymbol t))"

definition handleDecimals :: "erc20 \<Rightarrow> erc20_error call_result" where
  "handleDecimals t = answer (padTo32 [tkDecimals t])"

definition ExecuteCall :: "erc20 \<Rightarrow> bytes \<Rightarrow> bytes \<Rightarrow> erc20 \<times> erc20_error call_result" where
  "ExecuteCall t caller input =
     (if length input < 4 then (t, CallError ErcShortInput)
      else let sel = take 4 input; args = drop 4 input
        in if sel = selTotalSupply then (t, handleTotalSupply t)
           else if sel = selBalanceOf then (t, handleBalanceOf t args)
           else if sel = selTransfer then handleTransfer t caller args
           else if sel = selTransferFrom then handleTransferFrom t caller args
           else if sel = selApprove then handleApprove t caller args
           else if sel = selAllowance then (t, handleAllowance t args)
           else if sel = selName then (t, handleName t)
           else if sel = selSymbol then (t, handleSymbol t)
           else if sel = selDecimals then (t, handleDecimals t)
           else (t, CallError ErcUnknownSelector))"

subsection \<open>Direct entry points\<close>

definition BalanceOf :: "erc20 \<Rightarrow> bytes \<Rightarrow> int" where
  "BalanceOf t owner = (case goget (tkBalances t) owner of None \<Rightarrow> 0 | Some b \<Rightarrow> b)"

definition TransferFromAccount :: "erc20 \<Rightarrow> bytes \<Rightarrow> bytes \<Rightarrow> int \<Rightarrow> erc20 \<times> erc20_error option" where
  "TransferFromAccount t src dest amount =
     (case goget (tkBalances t) src of
        None \<Rightarrow> (t, Some ErcInsufficient)
      | Some cur \<Rightarrow>
          (if cur < amount then (t, Some ErcInsufficient)
           else let bals = goput src (cur - amount) (tkBalances t)
             in if 0 < length dest
                then (let toCur = (case goget bals dest of None \<Rightarrow> 0 | Some b \<Rightarrow> b)
                      in (t\<lparr>tkBalances := goput dest (toCur + amount) bals\<rparr>, None))
                else (t\<lparr>tkBalances := bals\<rparr>, None)))"

definition Mint :: "erc20 \<Rightarrow> bytes \<Rightarrow> int \<Rightarrow> erc20" where
  "Mint t dest amount =
     (let cur = (case goget (tkBalances t) dest of None \<Rightarrow> 0 | Some b \<Rightarrow> b)
      in t\<lparr>tkBalances := goput dest (cur + amount) (tkBalances t),
           tkTotalSupply := tkTotalSupply t + amount\<rparr>)"

text \<open>The operations that change a token, as the events of its history.\<close>

datatype erc20_op = OpCall bytes bytes | OpSystemTransfer bytes bytes int | OpMint bytes int

fun erc20_step :: "erc20 \<Rightarrow> erc20_op \<Rightarrow> erc20" where
  "erc20_step t (OpCall caller input) = fst (ExecuteCall t caller input)"
| "erc20_step t (OpSystemTransfer src dest amount) = fst (TransferFromAccount t src dest amount)"
| "erc20_step t (OpMint dest amount) = Mint t dest amount"

subsection \<open>Supply and holdings\<close>

definition holdings :: "erc20 \<Rightarrow> int" where
  "holdings t = (\<Sum>p\<leftarrow>tkBalances t. snd p)"

text \<open>What an operation takes out of circulation: a system transfer without a receiver.\<close>

fun burned_by :: "erc20 \<Rightarrow> erc20_op \<Rightarrow> int" where
  "burned_by t (OpSystemTransfer src dest amount) =
     (if dest = [] \<and> snd (TransferFromAccount t src dest amount) = None then amount else 0)"
| "burned_by t _ = 0"

fun minted_by :: "erc20_op \<Rightarrow> int" where
  "minted_by (OpMint dest amount) = amount"
| "minted_by _ = 0"

fun burned_in :: "erc20 \<Rightarrow> erc20_op list \<Rightarrow> int" where
  "burned_in t [] = 0"
| "burned_in t (op # ops) = burned_by t op + burned_in (erc20_step t op) ops"

lemma holdings_put:
  "gomap_wf (tkBalances t) \<Longrightarrow>
     holdings (t\<lparr>tkBalances := goput k v (tkBalances t)\<rparr>) = holdings t + v - BalanceOf t k"
  by (simp add: holdings_def BalanceOf_def sum_list_map_goput split: option.splits)

lemma sum_put:
  "gomap_wf m \<Longrightarrow> (\<Sum>p\<leftarrow>goput k v m. snd p)
     = (\<Sum>p\<leftarrow>m. snd p) + v - (case goget m k of None \<Rightarrow> 0 | Some b \<Rightarrow> (b :: int))"
  by (simp add: sum_list_map_goput split: option.splits)

lemma credit_alt: "credit a n m = goput a ((case goget m a of None \<Rightarrow> 0 | Some b \<Rightarrow> b) + n) m"
  by (simp add: credit_def Let_def split: option.splits)

lemma credit_wf [simp]: "gomap_wf m \<Longrightarrow> gomap_wf (credit a n m)"
  by (simp add: credit_alt)

lemma sum_credit: "gomap_wf m \<Longrightarrow> (\<Sum>p\<leftarrow>credit a n m. snd p) = (\<Sum>p\<leftarrow>m. snd p) + n"
  by (simp add: credit_alt sum_put split: option.splits)

lemma goget_credit: "goget (credit a n m) x
    = (if x = a then Some ((case goget m a of None \<Rightarrow> 0 | Some b \<Rightarrow> b) + n) else goget m x)"
  by (simp add: credit_alt)

text \<open>A transfer in the map: debit, then credit.\<close>

lemma sum_move:
  assumes "gomap_wf m" and "goget m s = Some b"
  shows "(\<Sum>p\<leftarrow>credit a n (goput s (b - n) m). snd p) = (\<Sum>p\<leftarrow>m. snd p)"
  using assms by (simp add: sum_credit sum_put)

lemma goget_move:
  assumes "goget m s = Some b"
  shows "(case goget (credit a n (goput s (b - n) m)) x of None \<Rightarrow> 0 | Some v \<Rightarrow> v)
    = (case goget m x of None \<Rightarrow> 0 | Some v \<Rightarrow> v) + (if x = a then n else 0)
        - (if x = s then n else (0 :: int))"
  using assms by (simp add: goget_credit)

text \<open>What each call does to the two books of the token, as one frame lemma.\<close>

lemma call_books:
  assumes "gomap_wf (tkBalances t)"
  shows "gomap_wf (tkBalances (fst (ExecuteCall t caller input)))"
    and "holdings (fst (ExecuteCall t caller input)) = holdings t"
    and "tkTotalSupply (fst (ExecuteCall t caller input)) = tkTotalSupply t"
  using assms
  by (simp_all add: ExecuteCall_def handleTransfer_def handleTransferFrom_def handleApprove_def
      holdings_def sum_move Let_def split: option.splits)

lemma system_transfer_books:
  assumes "gomap_wf (tkBalances t)"
  shows "gomap_wf (tkBalances (fst (TransferFromAccount t src dest amount)))"
    and "holdings (fst (TransferFromAccount t src dest amount))
      = holdings t - burned_by t (OpSystemTransfer src dest amount)"
    and "tkTotalSupply (fst (TransferFromAccount t src dest amount)) = tkTotalSupply t"
  using assms
  by (simp_all add: TransferFromAccount_def holdings_def sum_put Let_def split: option.splits)

lemma mint_books:
  assumes "gomap_wf (tkBalances t)"
  shows "gomap_wf (tkBalances (Mint t dest amount))"
    and "holdings (Mint t dest amount) = holdings t + amount"
    and "tkTotalSupply (Mint t dest amount) = tkTotalSupply t + amount"
  using assms
  by (simp_all add: Mint_def holdings_def sum_put Let_def split: option.splits)

lemmas token_books = call_books system_transfer_books mint_books

text \<open>
  The token with the amount burned so far beside it: every operation conserves the difference
  between the supply on one side and holdings plus burned amount on the other.
\<close>

fun accounted_step :: "erc20 \<times> int \<Rightarrow> erc20_op \<Rightarrow> erc20 \<times> int" where
  "accounted_step (t, burned) op = (erc20_step t op, burned + burned_by t op)"

lemma accounted_run:
  "foldl accounted_step (t, b) ops = (foldl erc20_step t ops, b + burned_in t ops)"
  by (induction ops arbitrary: t b) simp_all

interpretation token: conserving_system accounted_step "\<lambda>a. gomap_wf (tkBalances (fst a))"
  "\<lambda>a. tkTotalSupply (fst a) - holdings (fst a) - snd a"
proof
  fix a :: "erc20 \<times> int" and op
  assume wf: "gomap_wf (tkBalances (fst a))"
  obtain t b where a: "a = (t, b)" by (cases a)
  show "gomap_wf (tkBalances (fst (accounted_step a op)))"
    using wf by (cases op) (simp_all add: a token_books)
  show "tkTotalSupply (fst (accounted_step a op)) - holdings (fst (accounted_step a op))
      - snd (accounted_step a op) = tkTotalSupply (fst a) - holdings (fst a) - snd a"
    using wf by (cases op) (simp_all add: a token_books)
qed

lemma supply_run:
  "gomap_wf (tkBalances t) \<Longrightarrow>
    tkTotalSupply (foldl erc20_step t ops) = tkTotalSupply t + (\<Sum>op\<leftarrow>ops. minted_by op)"
proof (induction ops arbitrary: t)
  case Nil
  then show ?case by simp
next
  case (Cons op ops)
  then have "gomap_wf (tkBalances (erc20_step t op))"
    and "tkTotalSupply (erc20_step t op) = tkTotalSupply t + minted_by op"
    by (cases op; simp add: token_books)+
  with Cons.IH show ?case by simp
qed

lemma fresh_token [simp]:
  "gomap_wf (tkBalances (NewERC20Token name symbol decimals initial deployer))"
  "holdings (NewERC20Token name symbol decimals initial deployer) = initial"
  "tkTotalSupply (NewERC20Token name symbol decimals initial deployer) = initial"
  by (simp_all add: NewERC20Token_def holdings_def gomap_wf_def)

text \<open>
  C2 (erc20_supply_conserved): After any history of calls, system transfers and mints, the total
  supply is the initial supply plus what was minted, and it equals what the accounts hold
  together plus what system transfers without a receiver burned: no call creates or destroys
  tokens, and the fee path of the execution engine, which transfers to nobody, lowers what is held
  without lowering the reported supply.
\<close>

theorem erc20_supply_conserved:
  "let t0 = NewERC20Token name symbol decimals initial deployer; t = foldl erc20_step t0 ops
   in tkTotalSupply t = initial + (\<Sum>op\<leftarrow>ops. minted_by op)
      \<and> tkTotalSupply t = holdings t + burned_in t0 ops"
  using token.run_quantity [of "(NewERC20Token name symbol decimals initial deployer, 0)" ops]
  by (simp add: Let_def supply_run accounted_run)

subsection \<open>Transfers\<close>

lemma selector_call:
  "length sel = 4 \<Longrightarrow> take 4 (sel @ args) = sel \<and> drop 4 (sel @ args) = args"
  by simp

lemma ExecuteCall_transfer:
  "ExecuteCall t caller (selTransfer @ args) = handleTransfer t caller args"
  by (simp add: ExecuteCall_def erc20_selectors)

lemma ExecuteCall_transferFrom:
  "ExecuteCall t caller (selTransferFrom @ args) = handleTransferFrom t caller args"
  by (simp add: ExecuteCall_def erc20_selectors)

lemma ExecuteCall_approve:
  "ExecuteCall t caller (selApprove @ args) = handleApprove t caller args"
  by (simp add: ExecuteCall_def erc20_selectors)

lemma ExecuteCall_balanceOf:
  "ExecuteCall t caller (selBalanceOf @ args) = (t, handleBalanceOf t args)"
  by (simp add: ExecuteCall_def erc20_selectors)

lemma ExecuteCall_allowance:
  "ExecuteCall t caller (selAllowance @ args) = (t, handleAllowance t args)"
  by (simp add: ExecuteCall_def erc20_selectors)

lemma ExecuteCall_totalSupply:
  "ExecuteCall t caller (selTotalSupply @ args) = (t, handleTotalSupply t)"
  by (simp add: ExecuteCall_def erc20_selectors)

lemmas ExecuteCall_selected = ExecuteCall_transfer ExecuteCall_transferFrom ExecuteCall_approve
  ExecuteCall_balanceOf ExecuteCall_allowance ExecuteCall_totalSupply

text \<open>\<open>moved t t' s a n\<close>: the balances of \<open>t'\<close> are those of \<open>t\<close> with \<open>n\<close> moved from \<open>s\<close> to \<open>a\<close>.\<close>

definition moved :: "erc20 \<Rightarrow> erc20 \<Rightarrow> bytes \<Rightarrow> bytes \<Rightarrow> int \<Rightarrow> bool" where
  "moved t t' s a n \<longleftrightarrow> tkTotalSupply t' = tkTotalSupply t
     \<and> (\<forall>x. BalanceOf t' x = BalanceOf t x + (if x = a then n else 0) - (if x = s then n else 0))"

lemma moved_move:
  assumes "goget (tkBalances t) s = Some b"
  shows "moved t (t\<lparr>tkBalances := credit a n (goput s (b - n) (tkBalances t))\<rparr>) s a n"
    and "moved t (t\<lparr>tkBalances := credit a n (goput s (b - n) (tkBalances t)),
      tkAllowances := al\<rparr>) s a n"
  using assms by (simp_all add: moved_def BalanceOf_def goget_move)

text \<open>
  A transfer call that names a 20-byte receiver and an amount answers 1
  and moves exactly that amount when the caller has an entry that covers it (the receiver may be
  the caller itself), and otherwise answers 0 and changes nothing.
\<close>

theorem erc20_transfer_exact:
  assumes "length dest = 20" and "n < 2 ^ 256"
    and "ExecuteCall t caller (selTransfer @ abi_address dest @ abi_word n) = (t', r)"
  shows "if (\<exists>b. goget (tkBalances t) caller = Some b \<and> int n \<le> b)
    then r = Output (abi_word 1) \<and> tkAllowances t' = tkAllowances t
      \<and> moved t t' caller dest (int n)
    else r = Output (abi_word 0) \<and> t' = t"
proof (cases "goget (tkBalances t) caller")
  case None
  with assms show ?thesis by (simp add: ExecuteCall_selected handleTransfer_def Let_def)
next
  case (Some b)
  show ?thesis
  proof (cases "int n \<le> b")
    case True
    with assms Some show ?thesis
      by (auto simp: ExecuteCall_selected handleTransfer_def Let_def moved_move)
  next
    case False
    with assms Some show ?thesis
      by (simp add: ExecuteCall_selected handleTransfer_def Let_def)
  qed
qed

definition sample_token :: erc20 where
  "sample_token = NewERC20Token ''VIRI Token'' ''VIRI'' 18 1000 (replicate 20 1)"

theorem erc20_transfer_exact_witness:
  "let t' = fst (ExecuteCall sample_token (replicate 20 1)
          (selTransfer @ abi_address (replicate 20 2) @ abi_word 400))
   in moved sample_token t' (replicate 20 1) (replicate 20 2) 400"
  using erc20_transfer_exact [of "replicate 20 2" 400 sample_token "replicate 20 1"]
  by (auto simp: Let_def sample_token_def NewERC20Token_def prod_eq_iff)

text \<open>
  C34 (erc20_allowance_spent): A transferFrom call answers 1 only if the owner's entry and the
  allowance that the owner granted the caller both cover the amount; it then moves the amount and
  lowers that allowance by it, leaving every other allowance alone. In all other cases it answers
  0 and changes nothing.
\<close>

theorem erc20_allowance_spent:
  assumes "length src = 20" and "length dest = 20" and "n < 2 ^ 256"
    and "ExecuteCall t caller
      (selTransferFrom @ abi_address src @ abi_address dest @ abi_word n) = (t', r)"
  shows "if (\<exists>b al. goget (tkBalances t) src = Some b \<and> int n \<le> b
        \<and> goget (tkAllowances t) (allowance_key src caller) = Some al \<and> int n \<le> al)
    then r = Output (abi_word 1) \<and> moved t t' src dest (int n)
      \<and> (\<exists>al. goget (tkAllowances t) (allowance_key src caller) = Some al
           \<and> tkAllowances t' = goput (allowance_key src caller) (al - int n) (tkAllowances t))
    else r = Output (abi_word 0) \<and> t' = t"
proof (cases "\<exists>b al. goget (tkBalances t) src = Some b \<and> int n \<le> b
        \<and> goget (tkAllowances t) (allowance_key src caller) = Some al \<and> int n \<le> al")
  case True
  with assms show ?thesis
    by (auto simp: ExecuteCall_selected handleTransferFrom_def Let_def moved_move)
next
  case False
  with assms show ?thesis
    by (auto simp: ExecuteCall_selected handleTransferFrom_def Let_def
        split: option.splits if_splits)
qed

definition approved_token :: erc20 where
  "approved_token = fst (ExecuteCall sample_token (replicate 20 1)
     (selApprove @ abi_address (replicate 20 3) @ abi_word 500))"

theorem erc20_allowance_spent_witness:
  "let t' = fst (ExecuteCall approved_token (replicate 20 3)
          (selTransferFrom @ abi_address (replicate 20 1) @ abi_address (replicate 20 2)
             @ abi_word 400))
   in goget (tkAllowances t') (allowance_key (replicate 20 1) (replicate 20 3)) = Some 100
     \<and> moved approved_token t' (replicate 20 1) (replicate 20 2) 400"
  using erc20_allowance_spent [of "replicate 20 1" "replicate 20 2" 400 approved_token
      "replicate 20 3"]
  by (auto simp: Let_def approved_token_def sample_token_def NewERC20Token_def
      ExecuteCall_selected handleApprove_def prod_eq_iff)

text \<open>Two grants by 20-byte owners share an entry only if owner and spender agree.\<close>

lemma allowance_key_inject:
  "length a = length b \<Longrightarrow> allowance_key a s = allowance_key b u \<longleftrightarrow> a = b \<and> s = u"
  by (auto simp: allowance_key_def)

subsection \<open>Queries\<close>

definition within :: "int \<Rightarrow> ('k, int) gomap \<Rightarrow> bool" where
  "within c m \<longleftrightarrow> gomap_wf m \<and> (\<forall>k b. goget m k = Some b \<longrightarrow> 0 \<le> b \<and> (0 < c \<longrightarrow> b < c))"

text \<open>No balance is negative, and an allowance is in addition a 256-bit number.\<close>

definition token_ok :: "erc20 \<Rightarrow> bool" where
  "token_ok t \<longleftrightarrow> within 0 (tkBalances t) \<and> within (2 ^ 256) (tkAllowances t)"

lemma within_put: "within c m \<Longrightarrow> 0 \<le> b \<Longrightarrow> (0 < c \<Longrightarrow> b < c) \<Longrightarrow> within c (goput k b m)"
  by (simp add: within_def)

lemma within_get: "within c m \<Longrightarrow> goget m k = Some b \<Longrightarrow> 0 \<le> b \<and> (0 < c \<longrightarrow> b < c)"
  by (auto simp: within_def)

lemma within_credit: "within 0 m \<Longrightarrow> 0 \<le> n \<Longrightarrow> within 0 (credit a n m)"
  by (auto simp: credit_alt within_get intro!: within_put split: option.splits)

lemma within_move:
  "within 0 m \<Longrightarrow> 0 \<le> n \<Longrightarrow> n \<le> b \<Longrightarrow> within 0 (credit a n (goput s (b - n) m))"
  by (intro within_credit within_put) simp_all

lemma within_spend:
  assumes "within (2 ^ 256) m" and "goget m k = Some al" and "0 \<le> n" and "n \<le> al"
  shows "within (2 ^ 256) (goput k (al - n) m)"
  using within_get [OF assms(1,2)] assms by (intro within_put) auto

lemma within_grant: "within (2 ^ 256) m \<Longrightarrow> within (2 ^ 256) (goput k (readUint256 d) m)"
  using readUint256_less [of d] by (intro within_put) simp_all

text \<open>The node passes no negative amount to the direct entry points.\<close>

fun amount_ok :: "erc20_op \<Rightarrow> bool" where
  "amount_ok (OpCall caller input) = True"
| "amount_ok (OpSystemTransfer src dest amount) = (0 \<le> amount)"
| "amount_ok (OpMint dest amount) = (0 \<le> amount)"

lemma token_ok_nonneg: "token_ok t \<Longrightarrow> 0 \<le> BalanceOf t a"
  by (auto simp: token_ok_def BalanceOf_def within_get split: option.splits)

lemma transfer_token_ok: "token_ok t \<Longrightarrow> token_ok (fst (handleTransfer t caller args))"
  by (simp add: token_ok_def handleTransfer_def within_move Let_def split: option.splits)

lemma transferFrom_token_ok: "token_ok t \<Longrightarrow> token_ok (fst (handleTransferFrom t caller args))"
  using within_spend [of "tkAllowances t"]
  by (simp add: token_ok_def handleTransferFrom_def within_move Let_def split: option.splits)

lemma approve_token_ok: "token_ok t \<Longrightarrow> token_ok (fst (handleApprove t caller args))"
  using within_grant [of "tkAllowances t"]
  by (simp add: token_ok_def handleApprove_def Let_def)

lemma call_token_ok: "token_ok t \<Longrightarrow> token_ok (fst (ExecuteCall t caller input))"
  by (simp add: ExecuteCall_def transfer_token_ok transferFrom_token_ok approve_token_ok Let_def)

lemma TransferFromAccount_alt:
  "TransferFromAccount t src dest amount =
     (case goget (tkBalances t) src of
        None \<Rightarrow> (t, Some ErcInsufficient)
      | Some cur \<Rightarrow>
          (if cur < amount then (t, Some ErcInsufficient)
           else (t\<lparr>tkBalances := (if dest = [] then id else credit dest amount)
                     (goput src (cur - amount) (tkBalances t))\<rparr>, None)))"
  by (simp add: TransferFromAccount_def credit_alt Let_def split: option.splits)

lemma system_transfer_token_ok:
  "token_ok t \<Longrightarrow> 0 \<le> amount \<Longrightarrow> token_ok (fst (TransferFromAccount t src dest amount))"
  by (simp add: token_ok_def TransferFromAccount_alt within_move within_put split: option.splits)

lemma mint_token_ok: "token_ok t \<Longrightarrow> 0 \<le> amount \<Longrightarrow> token_ok (Mint t dest amount)"
  using within_credit [of "tkBalances t" amount dest]
  by (simp add: token_ok_def Mint_def credit_alt Let_def)

lemma step_token_ok: "token_ok t \<Longrightarrow> amount_ok op \<Longrightarrow> token_ok (erc20_step t op)"
  by (cases op) (simp_all add: call_token_ok system_transfer_token_ok mint_token_ok)

interpretation ok_token: admissible_system erc20_step token_ok amount_ok
  by unfold_locales (rule step_token_ok)

lemma burned_nonneg: "list_all amount_ok ops \<Longrightarrow> 0 \<le> burned_in t ops"
proof (induction ops arbitrary: t)
  case Nil
  then show ?case by simp
next
  case (Cons op ops)
  moreover from Cons.prems have "0 \<le> burned_by t op" by (cases op) simp_all
  ultimately show ?case by simp
qed

lemma balance_le_holdings:
  assumes "token_ok t"
  shows "BalanceOf t a \<le> holdings t"
proof -
  have le: "\<forall>p \<in> set m. 0 \<le> snd p \<Longrightarrow>
      (case goget m a of None \<Rightarrow> 0 | Some b \<Rightarrow> b) \<le> (\<Sum>p\<leftarrow>m. snd p)" for m :: "(bytes, int) gomap"
  proof (induction m)
    case Nil
    then show ?case by simp
  next
    case (Cons p m)
    have "0 \<le> (\<Sum>q\<leftarrow>m. snd q)" using Cons.prems by (intro sum_list_nonneg) auto
    with Cons show ?case by auto
  qed
  have "\<forall>p \<in> set (tkBalances t). 0 \<le> snd p"
    using assms by (auto simp: token_ok_def within_def goget_iff_in_set)
  from le [OF this] show ?thesis by (simp add: BalanceOf_def holdings_def)
qed

text \<open>
  In every history with non-negative amounts, while the supply is below
  2^256, the calls balanceOf, allowance and totalSupply answer the 32-byte word of exactly what
  the books say, change nothing and do not panic, and no balance is negative or exceeds the total
  supply.
\<close>

theorem erc20_queries_exact:
  assumes "list_all amount_ok ops" and "0 \<le> initial"
    and "t = foldl erc20_step (NewERC20Token name symbol decimals initial deployer) ops"
    and "tkTotalSupply t < 2 ^ 256" and "length owner = 20" and "length spender = 20"
  shows "0 \<le> BalanceOf t owner \<and> BalanceOf t owner \<le> tkTotalSupply t
    \<and> (\<exists>b s al. ExecuteCall t caller (selBalanceOf @ abi_address owner) = (t, Output b)
        \<and> int (unbe b) = BalanceOf t owner \<and> length b = 32
        \<and> ExecuteCall t caller selTotalSupply = (t, Output s)
        \<and> int (unbe s) = tkTotalSupply t \<and> length s = 32
        \<and> ExecuteCall t caller (selAllowance @ abi_address owner @ abi_address spender)
            = (t, Output al)
        \<and> int (unbe al) = (case goget (tkAllowances t) (allowance_key owner spender) of
              None \<Rightarrow> 0 | Some x \<Rightarrow> x) \<and> length al = 32)"
proof -
  let ?t0 = "NewERC20Token name symbol decimals initial deployer"
  have "token_ok ?t0" using assms(2) by (simp add: token_ok_def NewERC20Token_def within_def gomap_wf_def)
  then have ok: "token_ok t" unfolding assms(3) using assms(1) by (rule ok_token.adm_run_inv)
  have "tkTotalSupply t = holdings t + burned_in ?t0 ops"
    using token.run_quantity [of "(?t0, 0)" ops] by (simp add: accounted_run assms(3))
  with balance_le_holdings [OF ok, of owner] burned_nonneg [OF assms(1), of ?t0]
  have le: "BalanceOf t owner \<le> tkTotalSupply t" by simp
  have nn: "0 \<le> BalanceOf t owner" by (rule token_ok_nonneg [OF ok])
  let ?al = "case goget (tkAllowances t) (allowance_key owner spender) of None \<Rightarrow> 0 | Some x \<Rightarrow> x"
  have al: "0 \<le> ?al" "?al < 2 ^ 256"
    using ok within_get by (fastforce simp: token_ok_def split: option.splits)+
  have call: "ExecuteCall t caller selTotalSupply = (t, handleTotalSupply t)"
    using ExecuteCall_totalSupply [of t caller "[]"] by simp
  have "BalanceOf t owner < 2 ^ 256" "0 \<le> tkTotalSupply t" using le nn assms(4) by linarith+
  then obtain b u where b: "(answer (padTo32 (big_Bytes (BalanceOf t owner))) :: erc20_error call_result) = Output b"
      "length b = 32" "int (unbe b) = BalanceOf t owner"
    and u: "(answer (padTo32 (big_Bytes (tkTotalSupply t))) :: erc20_error call_result) = Output u" "length u = 32"
      "int (unbe u) = tkTotalSupply t"
    using answer_number [OF nn] answer_number [OF _ assms(4)] by metis
  obtain w where w: "(answer (padTo32 (big_Bytes ?al)) :: erc20_error call_result) = Output w" "length w = 32" "int (unbe w) = ?al"
    using answer_number [OF al] by metis
  show ?thesis
    using le nn assms(5,6) readAddress_abi [of owner "[]"] readAddress_abi [of spender "[]"] b u w
    by (simp add: call ExecuteCall_selected handleBalanceOf_def handleAllowance_def
        handleTotalSupply_def flip: BalanceOf_def)
qed

theorem erc20_queries_exact_witness:
  "\<exists>b. ExecuteCall approved_token (replicate 20 1) (selBalanceOf @ abi_address (replicate 20 1))
        = (approved_token, Output b) \<and> int (unbe b) = 1000"
proof -
  let ?ops = "[OpCall (replicate 20 1) (selApprove @ abi_address (replicate 20 3) @ abi_word 500)]"
  have "BalanceOf approved_token (replicate 20 1) = 1000" "tkTotalSupply approved_token = 1000"
    by (simp_all add: approved_token_def sample_token_def NewERC20Token_def ExecuteCall_selected
        handleApprove_def BalanceOf_def)
  then show ?thesis
    using erc20_queries_exact [of ?ops 1000 approved_token "''VIRI Token''" "''VIRI''" 18
        "replicate 20 1" "replicate 20 1" "replicate 20 3" "replicate 20 1"]
    by (auto simp: approved_token_def sample_token_def)
qed

text \<open>Beyond that, a mint has no cap: past 256 bits the query for the supply panics.\<close>

lemma totalSupply_panics:
  assumes "2 ^ 256 \<le> tkTotalSupply t"
  shows "handleTotalSupply t = CallPanic"
proof -
  have "\<not> length (big_Bytes (tkTotalSupply t)) \<le> 32"
  proof
    assume le: "length (big_Bytes (tkTotalSupply t)) \<le> 32"
    have "nat \<bar>tkTotalSupply t\<bar> < 256 ^ length (big_Bytes (tkTotalSupply t))"
      using unbe_less [of "big_Bytes (tkTotalSupply t)"] by (simp add: big_Bytes_def)
    also have "\<dots> \<le> 256 ^ 32" by (rule power_increasing [OF le]) simp
    finally show False using assms by (simp add: nat_less_iff)
  qed
  then show ?thesis by (simp add: handleTotalSupply_def padTo32_def answer_def)
qed

end
