(* ===== verification/ERC721.thy ===== *)
theory ERC721
  imports ERC20
begin

text \<open>
  The native non-fungible token of \<open>contracts/erc721.go\<close>: calldata dispatch, the handlers, and
  the entry points \<open>Mint\<close> and \<open>Burn\<close>. Token identifiers are 64-bit: \<open>big.Int.Uint64\<close> keeps the
  low 64 bits of the 256-bit word of the calldata. Counters are \<open>uint64\<close> and wrap; a counter is
  answered through \<open>big.NewInt(int64(n))\<close>, so it is read as a signed number first.
\<close>

subsection \<open>State and errors\<close>

record erc721 =
  nfName :: string
  nfSymbol :: string
  nfBaseURI :: string
  nfTotalCount :: u64
  nfOwners :: "(u64, bytes) gomap"
  nfBalances :: "(bytes, u64) gomap"
  nfTokenApprovals :: "(u64, bytes) gomap"
  nfOperatorApprovals :: "(bytes, (bytes, bool) gomap) gomap"
  nfTokenURIs :: "(u64, string) gomap"

datatype erc721_error = NftShortInput | NftUnknownSelector | NftBadArgs | NftExists u64
  | NftMissing int | NftFromMismatch | NftUnauthorized

definition sel721BalanceOf :: bytes where "sel721BalanceOf = [0x70, 0xa0, 0x82, 0x31]"
definition sel721OwnerOf :: bytes where "sel721OwnerOf = [0x63, 0x52, 0x21, 0x1e]"
definition sel721TransferFrom :: bytes where "sel721TransferFrom = [0x23, 0xb8, 0x72, 0xdd]"
definition sel721SafeTransferFrom :: bytes where "sel721SafeTransferFrom = [0x42, 0x84, 0x2e, 0x0e]"
definition sel721Approve :: bytes where "sel721Approve = [0x09, 0x5e, 0xa7, 0xb3]"
definition sel721SetApprovalForAll :: bytes where "sel721SetApprovalForAll = [0xa2, 0x2c, 0xb4, 0x65]"
definition sel721GetApproved :: bytes where "sel721GetApproved = [0x08, 0x18, 0x12, 0xfc]"
definition sel721IsApprovedForAll :: bytes where "sel721IsApprovedForAll = [0xe9, 0x85, 0xe7, 0xc5]"
definition sel721Name :: bytes where "sel721Name = [0x06, 0xfd, 0xde, 0x03]"
definition sel721Symbol :: bytes where "sel721Symbol = [0x95, 0xd8, 0x9b, 0x41]"
definition sel721TokenURI :: bytes where "sel721TokenURI = [0xc8, 0x7f, 0x56, 0xbd]"
definition sel721TotalSupply :: bytes where "sel721TotalSupply = [0x18, 0x16, 0x0d, 0xdd]"
definition sel721Mint :: bytes where "sel721Mint = [0xa0, 0x71, 0x0e, 0x8d]"

lemmas erc721_selectors = sel721BalanceOf_def sel721OwnerOf_def sel721TransferFrom_def
  sel721SafeTransferFrom_def sel721Approve_def sel721SetApprovalForAll_def sel721GetApproved_def
  sel721IsApprovedForAll_def sel721Name_def sel721Symbol_def sel721TokenURI_def
  sel721TotalSupply_def sel721Mint_def

definition NewERC721Token :: "string \<Rightarrow> string \<Rightarrow> string \<Rightarrow> erc721" where
  "NewERC721Token name symbol baseURI =
     \<lparr>nfName = name, nfSymbol = symbol, nfBaseURI = baseURI, nfTotalCount = 0, nfOwners = [],
      nfBalances = [], nfTokenApprovals = [], nfOperatorApprovals = [], nfTokenURIs = []\<rparr>"

subsection \<open>Minting and burning\<close>

text \<open>\<open>m[k]++\<close> and \<open>m[k]--\<close> on a map of counters: a missing entry counts as 0.\<close>

definition counter :: "(bytes, u64) gomap \<Rightarrow> bytes \<Rightarrow> u64" where
  "counter m k = (case goget m k of None \<Rightarrow> 0 | Some c \<Rightarrow> c)"

definition bump :: "u64 \<Rightarrow> bytes \<Rightarrow> (bytes, u64) gomap \<Rightarrow> (bytes, u64) gomap" where
  "bump d k m = goput k (counter m k + d) m"

definition nft_Mint :: "erc721 \<Rightarrow> bytes \<Rightarrow> u64 \<Rightarrow> string \<Rightarrow> erc721_error + erc721" where
  "nft_Mint n dest tokenID tokenURI =
     (if goget (nfOwners n) tokenID \<noteq> None then Inl (NftExists tokenID)
      else let n1 = n\<lparr>nfOwners := goput tokenID dest (nfOwners n),
                      nfBalances := bump 1 dest (nfBalances n),
                      nfTotalCount := nfTotalCount n + 1\<rparr>
        in Inr (if tokenURI \<noteq> '''' then n1\<lparr>nfTokenURIs := goput tokenID tokenURI (nfTokenURIs n1)\<rparr>
                else n1))"

definition nft_Burn :: "erc721 \<Rightarrow> u64 \<Rightarrow> erc721_error + erc721" where
  "nft_Burn n tokenID = (case goget (nfOwners n) tokenID of
       None \<Rightarrow> Inl (NftMissing (uint tokenID))
     | Some owner \<Rightarrow> Inr (n\<lparr>nfOwners := godel tokenID (nfOwners n),
                            nfBalances := bump (- 1) owner (nfBalances n),
                            nfTotalCount := nfTotalCount n - 1,
                            nfTokenApprovals := godel tokenID (nfTokenApprovals n),
                            nfTokenURIs := godel tokenID (nfTokenURIs n)\<rparr>))"

subsection \<open>Transfers and approvals\<close>

text \<open>\<open>readUint256(data).Uint64()\<close>\<close>

definition readTokenID :: "bytes \<Rightarrow> u64" where
  "readTokenID data = word_of_int (readUint256 data)"

definition is_operator :: "erc721 \<Rightarrow> bytes \<Rightarrow> bytes \<Rightarrow> bool" where
  "is_operator n owner caller = (case goget (nfOperatorApprovals n) owner of
       None \<Rightarrow> False
     | Some operators \<Rightarrow> (case goget operators caller of None \<Rightarrow> False | Some b \<Rightarrow> b))"

definition checkTransferAuth :: "erc721 \<Rightarrow> bytes \<Rightarrow> bytes \<Rightarrow> u64 \<Rightarrow> erc721_error option" where
  "checkTransferAuth n caller src tokenID = (case goget (nfOwners n) tokenID of
       None \<Rightarrow> Some (NftMissing (uint tokenID))
     | Some owner \<Rightarrow>
         (if owner \<noteq> src then Some NftFromMismatch
          else if caller = owner then None
          else if goget (nfTokenApprovals n) tokenID = Some caller then None
          else if is_operator n owner caller then None
          else Some NftUnauthorized))"

definition executeTransfer :: "erc721 \<Rightarrow> bytes \<Rightarrow> bytes \<Rightarrow> u64 \<Rightarrow> erc721" where
  "executeTransfer n src dest tokenID =
     n\<lparr>nfTokenApprovals := godel tokenID (nfTokenApprovals n),
       nfOwners := goput tokenID dest (nfOwners n),
       nfBalances := bump 1 dest (bump (- 1) src (nfBalances n))\<rparr>"

definition nft_handleTransferFrom ::
    "erc721 \<Rightarrow> bytes \<Rightarrow> bytes \<Rightarrow> erc721 \<times> erc721_error call_result" where
  "nft_handleTransferFrom n caller args =
     (if length args < 96 then (n, CallError NftBadArgs)
      else let src = addr_key (readAddress args); dest = addr_key (readAddress (drop 32 args));
               tokenID = readTokenID (drop 64 args)
        in if checkTransferAuth n caller src tokenID \<noteq> None
           then (n, answer (padTo32 (big_Bytes 0)))
           else (executeTransfer n src dest tokenID, answer (padTo32 (big_Bytes 1))))"

definition nft_handleSafeTransferFrom ::
    "erc721 \<Rightarrow> bytes \<Rightarrow> bytes \<Rightarrow> erc721 \<times> erc721_error call_result" where
  "nft_handleSafeTransferFrom n caller args =
     (if length args < 96 then (n, CallError NftBadArgs)
      else let src = addr_key (readAddress args); dest = addr_key (readAddress (drop 32 args));
               tokenID = readTokenID (drop 64 args)
        in if checkTransferAuth n caller src tokenID \<noteq> None
           then (n, answer (padTo32 (big_Bytes 0)))
           else (executeTransfer n src dest tokenID, answer (padTo32 (big_Bytes 1))))"

definition nft_handleApprove ::
    "erc721 \<Rightarrow> bytes \<Rightarrow> bytes \<Rightarrow> erc721 \<times> erc721_error call_result" where
  "nft_handleApprove n caller args =
     (if length args < 64 then (n, CallError NftBadArgs)
      else let approved = addr_key (readAddress args); tokenID = readTokenID (drop 32 args)
        in case goget (nfOwners n) tokenID of
             None \<Rightarrow> (n, CallError (NftMissing (uint tokenID)))
           | Some owner \<Rightarrow>
               (if caller \<noteq> owner then (n, answer (padTo32 (big_Bytes 0)))
                else (if length approved = 0 \<or> unbe approved = 0
                      then n\<lparr>nfTokenApprovals := godel tokenID (nfTokenApprovals n)\<rparr>
                      else n\<lparr>nfTokenApprovals := goput tokenID approved (nfTokenApprovals n)\<rparr>,
                      answer (padTo32 (big_Bytes (sint (nfTotalCount n)))))))"

definition nft_handleMint :: "erc721 \<Rightarrow> bytes \<Rightarrow> bytes \<Rightarrow> erc721 \<times> erc721_error call_result" where
  "nft_handleMint n caller args =
     (if length args < 64 then (n, CallError NftBadArgs)
      else let dest = addr_key (readAddress args); tokenID = readTokenID (drop 32 args)
        in case nft_Mint n dest tokenID '''' of
             Inl e \<Rightarrow> (n, answer (padTo32 (big_Bytes 0)))
           | Inr n' \<Rightarrow> (n', answer (padTo32 (big_Bytes 1))))"

definition nft_handleSetApprovalForAll ::
    "erc721 \<Rightarrow> bytes \<Rightarrow> bytes \<Rightarrow> erc721 \<times> erc721_error call_result" where
  "nft_handleSetApprovalForAll n caller args =
     (if length args < 64 then (n, CallError NftBadArgs)
      else let operator = addr_key (readAddress args); approved = readBool (drop 32 args);
               operators = (case goget (nfOperatorApprovals n) caller of
                   None \<Rightarrow> [] | Some m \<Rightarrow> m)
        in (n\<lparr>nfOperatorApprovals :=
                goput caller (goput operator approved operators) (nfOperatorApprovals n)\<rparr>,
            answer (padTo32 (big_Bytes 1))))"

subsection \<open>Queries\<close>

definition nft_handleBalanceOf :: "erc721 \<Rightarrow> bytes \<Rightarrow> erc721_error call_result" where
  "nft_handleBalanceOf n args = (case readAddress args of
       None \<Rightarrow> CallError NftBadArgs
     | Some owner \<Rightarrow> answer (padTo32 (big_Bytes (sint (counter (nfBalances n) owner)))))"

definition nft_handleOwnerOf :: "erc721 \<Rightarrow> bytes \<Rightarrow> erc721_error call_result" where
  "nft_handleOwnerOf n args = (case goget (nfOwners n) (readTokenID args) of
       None \<Rightarrow> CallError (NftMissing (readUint256 args))
     | Some owner \<Rightarrow> answer (padTo32 owner))"

definition nft_handleGetApproved :: "erc721 \<Rightarrow> bytes \<Rightarrow> erc721_error call_result" where
  "nft_handleGetApproved n args = (case goget (nfTokenApprovals n) (readTokenID args) of
       None \<Rightarrow> answer (padTo32 []) | Some approved \<Rightarrow> answer (padTo32 approved))"

definition nft_handleIsApprovedForAll :: "erc721 \<Rightarrow> bytes \<Rightarrow> erc721_error call_result" where
  "nft_handleIsApprovedForAll n args =
     (if length args < 64 then CallError NftBadArgs
      else let owner = addr_key (readAddress args); operator = addr_key (readAddress (drop 32 args))
        in if is_operator n owner operator then answer (padTo32 (big_Bytes 1))
           else answer (padTo32 (big_Bytes 0)))"

text \<open>The decimal text of \<open>fmt.Sprintf("%d", x)\<close>.\<close>

fun dec_string :: "nat \<Rightarrow> string" where
  "dec_string n = (if n < 10 then [char_of (48 + n)]
     else dec_string (n div 10) @ [char_of (48 + n mod 10)])"

declare dec_string.simps [simp del]

definition nft_handleTokenURI :: "erc721 \<Rightarrow> bytes \<Rightarrow> erc721_error call_result" where
  "nft_handleTokenURI n args = (let tokenID = readTokenID args in
     case goget (nfTokenURIs n) tokenID of
       Some uri \<Rightarrow> answer (encodeString uri)
     | None \<Rightarrow> (if nfBaseURI n \<noteq> '''' then answer (encodeString (nfBaseURI n @ dec_string (unat tokenID)))
                else answer (encodeString '''')))"

definition nft_handleTotalSupply :: "erc721 \<Rightarrow> erc721_error call_result" where
  "nft_handleTotalSupply n = answer (padTo32 (big_Bytes (sint (nfTotalCount n))))"

definition nft_handleName :: "erc721 \<Rightarrow> erc721_error call_result" where
  "nft_handleName n = answer (encodeString (nfName n))"

definition nft_handleSymbol :: "erc721 \<Rightarrow> erc721_error call_result" where
  "nft_handleSymbol n = answer (encodeString (nfSymbol n))"

definition nft_ExecuteCall :: "erc721 \<Rightarrow> bytes \<Rightarrow> bytes \<Rightarrow> erc721 \<times> erc721_error call_result" where
  "nft_ExecuteCall n caller input =
     (if length input < 4 then (n, CallError NftShortInput)
      else let sel = take 4 input; args = drop 4 input
        in if sel = sel721BalanceOf then (n, nft_handleBalanceOf n args)
           else if sel = sel721OwnerOf then (n, nft_handleOwnerOf n args)
           else if sel = sel721TransferFrom then nft_handleTransferFrom n caller args
           else if sel = sel721SafeTransferFrom then nft_handleSafeTransferFrom n caller args
           else if sel = sel721Approve then nft_handleApprove n caller args
           else if sel = sel721SetApprovalForAll then nft_handleSetApprovalForAll n caller args
           else if sel = sel721GetApproved then (n, nft_handleGetApproved n args)
           else if sel = sel721IsApprovedForAll then (n, nft_handleIsApprovedForAll n args)
           else if sel = sel721Name then (n, nft_handleName n)
           else if sel = sel721Symbol then (n, nft_handleSymbol n)
           else if sel = sel721TokenURI then (n, nft_handleTokenURI n args)
           else if sel = sel721TotalSupply then (n, nft_handleTotalSupply n)
           else if sel = sel721Mint then nft_handleMint n caller args
           else (n, CallError NftUnknownSelector))"

text \<open>\<open>ERC721EventData\<close> ignores the addresses: 24 zero bytes and the token's 8.\<close>

definition ERC721EventData :: "bytes \<Rightarrow> bytes \<Rightarrow> u64 \<Rightarrow> bytes" where
  "ERC721EventData src dest tokenID = replicate 24 0 @ be_u64 tokenID"

datatype nft_op = NftCall bytes bytes | NftMint bytes u64 string | NftBurn u64

fun nft_step :: "erc721 \<Rightarrow> nft_op \<Rightarrow> erc721" where
  "nft_step n (NftCall caller input) = fst (nft_ExecuteCall n caller input)"
| "nft_step n (NftMint dest tokenID uri) = (case nft_Mint n dest tokenID uri of
       Inl e \<Rightarrow> n | Inr n' \<Rightarrow> n')"
| "nft_step n (NftBurn tokenID) = (case nft_Burn n tokenID of Inl e \<Rightarrow> n | Inr n' \<Rightarrow> n')"

subsection \<open>Invariant of the token's books\<close>

definition owned :: "erc721 \<Rightarrow> bytes \<Rightarrow> nat" where
  "owned n a = length (filter (\<lambda>p. snd p = a) (nfOwners n))"

text \<open>
  The balance of every address is the number of tokens it owns and the total is the number of
  tokens, both as \<open>uint64\<close>; approvals and URIs exist for minted tokens only.
\<close>

definition nft_ok :: "erc721 \<Rightarrow> bool" where
  "nft_ok n \<longleftrightarrow> gomap_wf (nfOwners n)
     \<and> (\<forall>a. counter (nfBalances n) a = of_nat (owned n a))
     \<and> nfTotalCount n = of_nat (length (nfOwners n))
     \<and> covers (nfTokenApprovals n) (nfOwners n) \<and> covers (nfTokenURIs n) (nfOwners n)"

lemma counter_bump: "counter (bump d k m) a = counter m a + (if a = k then d else 0)"
  by (simp add: counter_def bump_def)

lemma of_nat_owned:
  "(of_nat (owned n a) :: u64) = (\<Sum>p\<leftarrow>nfOwners n. if snd p = a then 1 else 0)"
proof -
  have "(of_nat (length (filter P m)) :: u64) = (\<Sum>p\<leftarrow>m. if P p then 1 else 0)"
    for P and m :: "(u64, bytes) gomap"
    by (induction m) simp_all
  then show ?thesis by (simp add: owned_def)
qed

lemma owned_new:
  assumes "gomap_wf (nfOwners n)" and "goget (nfOwners n) i = None"
  shows "(of_nat (owned (n\<lparr>nfOwners := goput i d (nfOwners n)\<rparr>) a) :: u64)
    = of_nat (owned n a) + (if a = d then 1 else 0)"
  using assms by (simp add: of_nat_owned sum_list_map_goput)

lemma owned_gone:
  assumes "gomap_wf (nfOwners n)" and "goget (nfOwners n) i = Some s"
  shows "(of_nat (owned (n\<lparr>nfOwners := godel i (nfOwners n)\<rparr>) a) :: u64)
    = of_nat (owned n a) - (if a = s then 1 else 0)"
  using assms by (simp add: of_nat_owned sum_list_map_godel)

lemma owned_moved:
  assumes "gomap_wf (nfOwners n)" and "goget (nfOwners n) i = Some s"
  shows "(of_nat (owned (n\<lparr>nfOwners := goput i d (nfOwners n)\<rparr>) a) :: u64)
    = of_nat (owned n a) + (if a = d then 1 else 0) - (if a = s then 1 else 0)"
  using assms by (simp add: of_nat_owned sum_list_map_goput)

lemma owned_cong: "nfOwners n = nfOwners n' \<Longrightarrow> owned n = owned n'"
  by (simp add: owned_def fun_eq_iff)

lemma nft_ok_mint:
  assumes "nft_ok n" and "nft_Mint n dest i uri = Inr n'"
  shows "nft_ok n'"
proof -
  have new: "goget (nfOwners n) i = None" using assms(2) by (simp add: nft_Mint_def split: if_splits)
  have wf: "gomap_wf (nfOwners n)" using assms(1) by (simp add: nft_ok_def)
  define n1 where "n1 = n\<lparr>nfOwners := goput i dest (nfOwners n)\<rparr>"
  have own: "nfOwners n' = nfOwners n1" and bal: "nfBalances n' = bump 1 dest (nfBalances n)"
    using assms(2) new by (auto simp: nft_Mint_def n1_def Let_def split: if_splits)
  have "(of_nat (owned n' a) :: u64) = counter (nfBalances n') a" for a
    using owned_new [OF wf new, of dest a] owned_cong [OF own] assms(1)
    by (simp add: n1_def bal counter_bump nft_ok_def)
  then show ?thesis
    using assms new wf
    by (auto simp: nft_ok_def nft_Mint_def Let_def length_goput split: if_splits)
qed

lemma nft_ok_burn:
  assumes "nft_ok n" and "nft_Burn n i = Inr n'"
  shows "nft_ok n'"
proof -
  obtain s where s: "goget (nfOwners n) i = Some s"
    using assms(2) by (auto simp: nft_Burn_def split: option.splits)
  have wf: "gomap_wf (nfOwners n)" using assms(1) by (simp add: nft_ok_def)
  define n1 where "n1 = n\<lparr>nfOwners := godel i (nfOwners n)\<rparr>"
  have own: "nfOwners n' = nfOwners n1" and bal: "nfBalances n' = bump (- 1) s (nfBalances n)"
    using assms(2) s by (auto simp: nft_Burn_def n1_def)
  have "(of_nat (owned n' a) :: u64) = counter (nfBalances n') a" for a
    using owned_gone [OF wf s, of a] owned_cong [OF own] assms(1)
    by (simp add: n1_def bal counter_bump nft_ok_def)
  moreover have "nfTotalCount n' = of_nat (length (nfOwners n'))"
    using assms s by (auto simp: nft_ok_def nft_Burn_def simp flip: length_godel [OF wf s])
  ultimately show ?thesis
    using assms s wf by (auto simp: nft_ok_def nft_Burn_def)
qed

lemma checkTransferAuth_owner:
  "checkTransferAuth n caller src i = None \<Longrightarrow> goget (nfOwners n) i = Some src"
  by (auto simp: checkTransferAuth_def split: option.splits if_splits)

lemma nft_ok_transfer:
  assumes "nft_ok n" and s: "goget (nfOwners n) i = Some src"
  shows "nft_ok (executeTransfer n src dest i)"
proof -
  have wf: "gomap_wf (nfOwners n)" using assms(1) by (simp add: nft_ok_def)
  define n1 where "n1 = n\<lparr>nfOwners := goput i dest (nfOwners n)\<rparr>"
  have own: "nfOwners (executeTransfer n src dest i) = nfOwners n1"
    by (simp add: executeTransfer_def n1_def)
  have "(of_nat (owned (executeTransfer n src dest i) a) :: u64)
      = counter (nfBalances (executeTransfer n src dest i)) a" for a
    using owned_moved [OF wf s, of dest a] owned_cong [OF own] assms(1)
    by (simp add: n1_def executeTransfer_def counter_bump nft_ok_def)
  moreover have "length (goput i dest (nfOwners n)) = length (nfOwners n)"
    using s by (simp add: length_goput)
  ultimately show ?thesis
    using assms wf by (auto simp: nft_ok_def executeTransfer_def)
qed

lemma nft_ok_transferFrom: "nft_ok n \<Longrightarrow> nft_ok (fst (nft_handleTransferFrom n caller args))"
  using nft_ok_transfer checkTransferAuth_owner
  by (fastforce simp: nft_handleTransferFrom_def Let_def)

lemma nft_safe_is_transfer: "nft_handleSafeTransferFrom = nft_handleTransferFrom"
  by (simp add: nft_handleSafeTransferFrom_def nft_handleTransferFrom_def fun_eq_iff)

lemma nft_ok_approve: "nft_ok n \<Longrightarrow> nft_ok (fst (nft_handleApprove n caller args))"
  by (auto simp: nft_handleApprove_def nft_ok_def owned_def Let_def
      split: option.splits if_splits)

lemma nft_ok_operator: "nft_ok n \<Longrightarrow> nft_ok (fst (nft_handleSetApprovalForAll n caller args))"
  by (simp add: nft_handleSetApprovalForAll_def nft_ok_def owned_def Let_def)

lemma nft_ok_mint_call: "nft_ok n \<Longrightarrow> nft_ok (fst (nft_handleMint n caller args))"
  using nft_ok_mint by (fastforce simp: nft_handleMint_def Let_def split: sum.splits)

lemmas nft_ok_handlers = nft_ok_transferFrom nft_ok_approve nft_ok_operator nft_ok_mint_call

lemma nft_ok_call: "nft_ok n \<Longrightarrow> nft_ok (fst (nft_ExecuteCall n caller input))"
  by (simp add: nft_ExecuteCall_def nft_safe_is_transfer nft_ok_handlers Let_def)

lemma nft_ok_step: "nft_ok n \<Longrightarrow> nft_ok (nft_step n op)"
  by (cases op) (auto simp: nft_ok_call intro: nft_ok_mint nft_ok_burn split: sum.splits)

interpretation nft: guarded_system nft_step nft_ok
  by unfold_locales (rule nft_ok_step)

lemma nft_ok_new: "nft_ok (NewERC721Token name symbol baseURI)"
  by (simp add: nft_ok_def NewERC721Token_def counter_def owned_def)

text \<open>
  C23 (nft_books_exact): After any history of calls, mints and burns, the balance of every address is
  the number of tokens it owns and the total supply is the number of tokens (as 64-bit counters),
  and only minted tokens have an approval or a URI.
\<close>

theorem nft_books_exact:
  "let n = foldl nft_step (NewERC721Token name symbol baseURI) ops
   in (\<forall>a. counter (nfBalances n) a = of_nat (card {i. goget (nfOwners n) i = Some a}))
      \<and> nfTotalCount n = of_nat (card (dom (goget (nfOwners n))))
      \<and> dom (goget (nfTokenApprovals n)) \<subseteq> dom (goget (nfOwners n))
      \<and> dom (goget (nfTokenURIs n)) \<subseteq> dom (goget (nfOwners n))"
proof -
  define n where "n = foldl nft_step (NewERC721Token name symbol baseURI) ops"
  have ok: "nft_ok n" unfolding n_def by (rule nft.run_inv [OF nft_ok_new])
  then have wf: "gomap_wf (nfOwners n)" by (simp add: nft_ok_def)
  have card: "card (fst ` set (filter P (nfOwners n))) = length (filter P (nfOwners n))" for P
    using distinct_card [of "map fst (filter P (nfOwners n))"] wf
    by (simp add: gomap_wf_def distinct_map_filter)
  have "{i. goget (nfOwners n) i = Some a} = fst ` set (filter (\<lambda>p. snd p = a) (nfOwners n))" for a
    using goget_iff_in_set [OF wf] by force
  then have "card {i. goget (nfOwners n) i = Some a} = owned n a" for a
    by (simp only: card owned_def)
  moreover have "card (dom (goget (nfOwners n))) = length (nfOwners n)"
    using card [of "\<lambda>_. True"] by (simp add: dom_map_of_conv_image_fst)
  ultimately show ?thesis
    using ok by (simp add: nft_ok_def covers_dom flip: n_def)
qed

subsection \<open>Who may move a token\<close>

definition may_move :: "erc721 \<Rightarrow> bytes \<Rightarrow> u64 \<Rightarrow> bool" where
  "may_move n caller i = (case goget (nfOwners n) i of
       None \<Rightarrow> False
     | Some owner \<Rightarrow> caller = owner \<or> goget (nfTokenApprovals n) i = Some caller
         \<or> is_operator n owner caller)"

lemma checkTransferAuth_iff:
  "checkTransferAuth n caller src i = None
     \<longleftrightarrow> goget (nfOwners n) i = Some src \<and> may_move n caller i"
  by (simp add: checkTransferAuth_def may_move_def split: option.splits)

lemma transferFrom_owner:
  assumes "goget (nfOwners n) i = Some s"
    and "goget (nfOwners (fst (nft_handleTransferFrom n caller args))) i \<noteq> Some s"
  shows "may_move n caller i"
  using assms
  by (simp add: nft_handleTransferFrom_def executeTransfer_def checkTransferAuth_iff Let_def
      split: if_splits)

lemma other_calls_owner:
  assumes "goget (nfOwners n) i = Some s"
  shows "goget (nfOwners (fst (nft_handleApprove n caller args))) i = Some s"
    and "goget (nfOwners (fst (nft_handleSetApprovalForAll n caller args))) i = Some s"
    and "goget (nfOwners (fst (nft_handleMint n caller args))) i = Some s"
  using assms
  by (auto simp: nft_handleApprove_def nft_handleSetApprovalForAll_def nft_handleMint_def
      nft_Mint_def Let_def split: option.splits if_splits sum.splits)

lemma owner_kept:
  assumes "goget (nfOwners n) i = Some s"
    and "length input < 4
      \<or> take 4 input \<notin> {sel721TransferFrom, sel721SafeTransferFrom}"
  shows "goget (nfOwners (fst (nft_ExecuteCall n caller input))) i = Some s"
proof (cases "length input < 4")
  case True
  with assms(1) show ?thesis by (simp add: nft_ExecuteCall_def)
next
  case False
  with assms(2) have ne: "take 4 input \<noteq> sel721TransferFrom" "take 4 input \<noteq> sel721SafeTransferFrom"
    by simp_all
  show ?thesis
    unfolding nft_ExecuteCall_def Let_def
    by (simp only: if_distrib [of "\<lambda>x. goget (nfOwners (fst x)) i = Some s"] False ne if_False
        fst_conv assms(1) other_calls_owner [OF assms(1)] if_cancel)
qed

text \<open>
  C32 (nft_owner_change_authorised): Whatever the calldata, a call changes the owner of an existing
  token only if its caller owns the token, is approved for it or is an operator of its owner; the
  token is not destroyed and its approval is cleared.
\<close>

theorem nft_owner_change_authorised:
  assumes "goget (nfOwners n) i = Some s"
    and "goget (nfOwners (fst (nft_ExecuteCall n caller input))) i \<noteq> Some s"
  shows "may_move n caller i \<and> goget (nfOwners (fst (nft_ExecuteCall n caller input))) i \<noteq> None
    \<and> goget (nfTokenApprovals (fst (nft_ExecuteCall n caller input))) i = None"
proof -
  have "take 4 input \<in> {sel721TransferFrom, sel721SafeTransferFrom} \<and> \<not> length input < 4"
    using assms owner_kept [OF assms(1), of input caller] by blast
  then have run: "nft_ExecuteCall n caller input
      = nft_handleTransferFrom n caller (drop 4 input)"
    by (auto simp: nft_ExecuteCall_def nft_safe_is_transfer erc721_selectors Let_def)
  show ?thesis
    using assms transferFrom_owner [OF assms(1), of caller "drop 4 input"] unfolding run
    by (simp add: nft_handleTransferFrom_def executeTransfer_def Let_def split: if_splits)
qed

lemma readTokenID_word [simp]:
  assumes "k < 2 ^ 64"
  shows "readTokenID (abi_word k @ rest) = of_nat k" and "readTokenID (abi_word k) = of_nat k"
  using assms by (simp_all add: readTokenID_def)

definition sample_nft :: erc721 where
  "sample_nft = foldl nft_step (NewERC721Token ''V'' ''V'' '''')
     [NftMint (be 20 1) 7 '''', NftCall (be 20 1) (sel721Approve @ abi_address (be 20 2) @ abi_word 7)]"

theorem nft_owner_change_authorised_witness:
  "may_move sample_nft (be 20 2) 7"
proof -
  let ?call = "sel721TransferFrom @ abi_address (be 20 1) @ abi_address (be 20 3) @ abi_word 7"
  have own: "goget (nfOwners sample_nft) 7 = Some (be 20 1)"
    and "goget (nfTokenApprovals sample_nft) 7 = Some (be 20 2)"
    by (simp_all add: sample_nft_def NewERC721Token_def nft_Mint_def nft_ExecuteCall_def
        erc721_selectors nft_handleApprove_def Let_def)
  then have "checkTransferAuth sample_nft (be 20 2) (be 20 1) 7 = None"
    by (simp add: checkTransferAuth_def)
  then have "goget (nfOwners (fst (nft_ExecuteCall sample_nft (be 20 2) ?call))) 7 = Some (be 20 3)"
    by (simp add: nft_ExecuteCall_def erc721_selectors nft_handleTransferFrom_def
        executeTransfer_def Let_def)
  moreover have "be 20 3 \<noteq> be 20 1" using be_inject [of 20 3 1] by auto
  ultimately show ?thesis
    using own nft_owner_change_authorised [of sample_nft 7 "be 20 1" "be 20 2" ?call]
    by simp
qed

text \<open>A mint call has no such guard: any caller creates any token that does not exist.\<close>

lemma nft_mint_open:
  assumes "length dest = 20" and "k < 2 ^ 64" and "goget (nfOwners n) (of_nat k) = None"
  shows "\<exists>n'. nft_ExecuteCall n caller (sel721Mint @ abi_address dest @ abi_word k)
      = (n', Output (abi_word 1)) \<and> goget (nfOwners n') (of_nat k) = Some dest"
proof -
  from assms show ?thesis
    by (simp add: nft_ExecuteCall_def erc721_selectors nft_handleMint_def nft_Mint_def Let_def)
qed

text \<open>\<open>approve\<close> answers the total number of tokens instead of 1.\<close>

lemma nft_approve_answer:
  assumes "length a = 20" and "k < 2 ^ 64" and "goget (nfOwners n) (of_nat k) = Some caller"
  shows "snd (nft_ExecuteCall n caller (sel721Approve @ abi_address a @ abi_word k))
      = answer (padTo32 (big_Bytes (sint (nfTotalCount n))))"
proof -
  from assms show ?thesis
    by (simp add: nft_ExecuteCall_def erc721_selectors nft_handleApprove_def Let_def)
qed

end
