(* ===== verification/RLP.thy ===== *)
theory RLP
  imports Keys
begin

text \<open>
  Ethereum transactions in RLP (\<open>ledger/rlp.go\<close>): the item decoder, the transaction decoder for
  legacy and typed transactions, the encoder behind the signing hash and the transaction hash, and
  the recovery of the sender.

  A Go \<open>int\<close> is 64 bits wide and signed. The length of a long item is accumulated in an \<open>int\<close> and
  added to the header length, so both wrap; the slice that follows panics when its bounds are
  reversed. The panic is a value of the error type.
\<close>

datatype rlp_error = RlpEmpty | RlpShortString | RlpShortStringLength | RlpShortList
  | RlpShortListLength | RlpTrailing | RlpItem nat rlp_error | RlpList rlp_error
  | RlpItemCount nat | RlpTypedCount nat | RlpPanic | RlpZeroSig | RlpSigTooLong | RlpRecover
  | RlpBadKey

subsection \<open>Items\<close>

text \<open>\<open>length = (length << 8) | int(b)\<close> and \<open>val = (val << 8) | uint64(b)\<close>, over the bytes.\<close>

definition shift_in :: "bytes \<Rightarrow> u64" where
  "shift_in bs = foldl (\<lambda>v b. or (push_bit 8 v) (ucast b)) 0 bs"

text \<open>The part of an item whose length takes \<open>lenLen\<close> bytes.\<close>

definition take_long :: "rlp_error \<Rightarrow> rlp_error \<Rightarrow> bytes \<Rightarrow> nat \<Rightarrow> rlp_error + (bytes \<times> bytes)" where
  "take_long shortLength short data lenLen =
     (if length data < 1 + lenLen then Inl shortLength
      else let len = shift_in (take lenLen (drop 1 data));
               stop = sint (of_nat (1 + lenLen) + len)
        in if int (length data) < stop then Inl short
           else if stop < int (1 + lenLen) then Inl RlpPanic
           else Inr (take (nat stop - (1 + lenLen)) (drop (1 + lenLen) data), drop (nat stop) data))"

definition take_short :: "rlp_error \<Rightarrow> bytes \<Rightarrow> nat \<Rightarrow> rlp_error + (bytes \<times> bytes)" where
  "take_short short data len =
     (if length data < 1 + len then Inl short
      else Inr (take len (drop 1 data), drop (1 + len) data))"

fun decodeRLPItem :: "bytes \<Rightarrow> rlp_error + (bytes \<times> bytes)" where
  "decodeRLPItem [] = Inl RlpEmpty"
| "decodeRLPItem (b # rest) = (let prefix = unat b; data = b # rest in
     if prefix < 0x80 then Inr ([b], rest)
     else if prefix \<le> 0xB7 then take_short RlpShortString data (prefix - 0x80)
     else if prefix \<le> 0xBF then take_long RlpShortStringLength RlpShortString data (prefix - 0xB7)
     else if prefix \<le> 0xF7 then take_short RlpShortList data (prefix - 0xC0)
     else take_long RlpShortListLength RlpShortList data (prefix - 0xF7))"

definition decodeRLPBigInt :: "bytes \<Rightarrow> u64" where
  "decodeRLPBigInt data = (if length data = 0 then 0 else shift_in data)"

lemma take_long_rest:
  "take_long e f data n = Inr (item, rest) \<Longrightarrow> 0 < n \<Longrightarrow> length rest < length data"
  by (auto simp: take_long_def Let_def split: if_splits)

lemma decodeRLPItem_rest:
  "decodeRLPItem data = Inr (item, rest) \<Longrightarrow> length rest < length data"
  by (cases data)
    (auto simp: take_short_def Let_def split: if_splits dest!: take_long_rest)

text \<open>The loop over the items of a list; \<open>n\<close> counts the items read so far.\<close>

function decode_items :: "nat \<Rightarrow> bytes \<Rightarrow> rlp_error + bytes list" where
  "decode_items n listData = (if listData = [] then Inr []
     else case decodeRLPItem listData of
            Inl e \<Rightarrow> Inl (RlpItem n e)
          | Inr (item, rest) \<Rightarrow> (case decode_items (n + 1) rest of
                Inl e \<Rightarrow> Inl e | Inr items \<Rightarrow> Inr (item # items)))"
  by pat_completeness auto
termination
  by (relation "measure (\<lambda>(n, d). length d)") (auto dest!: decodeRLPItem_rest)

declare decode_items.simps [simp del]

subsection \<open>Transactions\<close>

record rlp_tx =
  rtNonce :: u64
  rtGasPrice :: u64
  rtGasLimit :: u64
  rtTo :: bytes
  rtValue :: u64
  rtData :: bytes
  rtV :: byte
  rtR :: bytes
  rtS :: bytes
  rtChainID :: u64
  rtTxType :: byte
  rtMaxPriorityFee :: u64
  rtAccessListRaw :: bytes

text \<open>The recovery byte of a typed and of a legacy transaction.\<close>

definition typed_v :: "u64 \<Rightarrow> byte" where
  "typed_v v = (if 27 \<le> v then ucast (v - 27) else ucast v)"

definition legacy_chain :: "u64 \<Rightarrow> u64" where
  "legacy_chain v = (if 35 \<le> v then (v - 35) div 2 else 0)"

definition legacy_v :: "u64 \<Rightarrow> byte" where
  "legacy_v v = (if 35 \<le> v then ucast (v - 35 - 2 * legacy_chain v)
     else if 27 \<le> v then ucast (v - 27) else ucast v)"

definition typed_tx :: "byte \<Rightarrow> bytes list \<Rightarrow> rlp_tx" where
  "typed_tx ty items =
     \<lparr>rtNonce = decodeRLPBigInt (items ! 1), rtGasPrice = decodeRLPBigInt (items ! 3),
      rtGasLimit = decodeRLPBigInt (items ! 4), rtTo = items ! 5,
      rtValue = decodeRLPBigInt (items ! 6), rtData = items ! 7,
      rtV = typed_v (decodeRLPBigInt (items ! 9)), rtR = items ! 10, rtS = items ! 11,
      rtChainID = decodeRLPBigInt (items ! 0), rtTxType = ty,
      rtMaxPriorityFee = decodeRLPBigInt (items ! 2), rtAccessListRaw = items ! 8\<rparr>"

definition legacy_tx :: "byte \<Rightarrow> bytes list \<Rightarrow> rlp_tx" where
  "legacy_tx ty items = (let v = decodeRLPBigInt (items ! 6) in
     \<lparr>rtNonce = decodeRLPBigInt (items ! 0), rtGasPrice = decodeRLPBigInt (items ! 1),
      rtGasLimit = decodeRLPBigInt (items ! 2), rtTo = items ! 3,
      rtValue = decodeRLPBigInt (items ! 4), rtData = items ! 5,
      rtV = legacy_v v, rtR = items ! 7, rtS = items ! 8,
      rtChainID = legacy_chain v, rtTxType = ty,
      rtMaxPriorityFee = 0, rtAccessListRaw = []\<rparr>)"

definition is_typed :: "byte \<Rightarrow> bool" where
  "is_typed ty \<longleftrightarrow> ty = 2 \<or> ty = 1"

definition DecodeRLPTransaction :: "bytes \<Rightarrow> rlp_error + rlp_tx" where
  "DecodeRLPTransaction raw0 =
     (let typed = 0 < length raw0 \<and> 1 \<le> hd raw0 \<and> hd raw0 \<le> 2;
          ty = (if typed then hd raw0 else 0); raw = (if typed then tl raw0 else raw0)
      in case decodeRLPItem raw of
           Inl RlpPanic \<Rightarrow> Inl RlpPanic
         | Inl e \<Rightarrow> Inl (RlpList e)
         | Inr (listData, rest) \<Rightarrow>
             (if 0 < length rest then Inl RlpTrailing
              else case decode_items 0 listData of
                  Inl (RlpItem n RlpPanic) \<Rightarrow> Inl RlpPanic
                | Inl e \<Rightarrow> Inl e
                | Inr items \<Rightarrow>
                    (if length items < 9 \<or> 12 < length items then Inl (RlpItemCount (length items))
                     else if is_typed ty
                     then (if length items < 12 then Inl (RlpTypedCount (length items))
                           else Inr (typed_tx ty items))
                     else Inr (legacy_tx ty items))))"

subsection \<open>Encoding\<close>

text \<open>The minimal big-endian form that the leading-zero scan of an 8-byte buffer leaves.\<close>

definition trim_u64 :: "u64 \<Rightarrow> bytes" where
  "trim_u64 x = dropWhile (\<lambda>b. b = 0) (be_u64 x)"

definition rlpEncodeWithPrefix :: "bytes \<Rightarrow> byte \<Rightarrow> bytes" where
  "rlpEncodeWithPrefix data base = (let l = length data in
     if l = 0 then [base]
     else if l \<le> 55 then (base + of_nat l) # data
     else let lenPrefix = trim_u64 (of_nat l)
       in (base + 55 + of_nat (length lenPrefix)) # lenPrefix @ data)"

definition rlpEncodeList :: "bytes list \<Rightarrow> bytes" where
  "rlpEncodeList items = rlpEncodeWithPrefix (concat items) 0xC0"

definition rlpEncodeBytes :: "bytes \<Rightarrow> bytes" where
  "rlpEncodeBytes data = (if length data = 0 then [0x80]
     else if length data = 1 \<and> hd data < 0x80 then data
     else rlpEncodeWithPrefix data 0x80)"

definition rlpEncodeUint64 :: "u64 \<Rightarrow> bytes" where
  "rlpEncodeUint64 val = (if val = 0 then [0x80]
     else let data = trim_u64 val
       in if length data = 1 \<and> hd data < 0x80 then data else rlpEncodeWithPrefix data 0x80)"

definition encodeAccessList :: "rlp_tx \<Rightarrow> bytes" where
  "encodeAccessList tx = (if length (rtAccessListRaw tx) = 0 then rlpEncodeList []
     else rlpEncodeWithPrefix (rtAccessListRaw tx) 0xC0)"

definition signing_payload :: "rlp_tx \<Rightarrow> bytes" where
  "signing_payload tx = (if is_typed (rtTxType tx)
     then rtTxType tx # rlpEncodeList
       [rlpEncodeUint64 (rtChainID tx), rlpEncodeUint64 (rtNonce tx),
        rlpEncodeUint64 (rtMaxPriorityFee tx), rlpEncodeUint64 (rtGasPrice tx),
        rlpEncodeUint64 (rtGasLimit tx), rlpEncodeBytes (rtTo tx), rlpEncodeUint64 (rtValue tx),
        rlpEncodeBytes (rtData tx), encodeAccessList tx]
     else rlpEncodeList
       [rlpEncodeUint64 (rtNonce tx), rlpEncodeUint64 (rtGasPrice tx),
        rlpEncodeUint64 (rtGasLimit tx), rlpEncodeBytes (rtTo tx), rlpEncodeUint64 (rtValue tx),
        rlpEncodeBytes (rtData tx), rlpEncodeUint64 (rtChainID tx), rlpEncodeUint64 0,
        rlpEncodeUint64 0])"

definition SigningHash :: "('s, 'k) crypto_lib \<Rightarrow> rlp_tx \<Rightarrow> bytes" where
  "SigningHash cl tx = clKeccak cl (signing_payload tx)"

definition tx_payload :: "rlp_tx \<Rightarrow> bytes" where
  "tx_payload tx = (if is_typed (rtTxType tx)
     then rtTxType tx # rlpEncodeList
       [rlpEncodeUint64 (rtChainID tx), rlpEncodeUint64 (rtNonce tx),
        rlpEncodeUint64 (rtMaxPriorityFee tx), rlpEncodeUint64 (rtGasPrice tx),
        rlpEncodeUint64 (rtGasLimit tx), rlpEncodeBytes (rtTo tx), rlpEncodeUint64 (rtValue tx),
        rlpEncodeBytes (rtData tx), encodeAccessList tx, rlpEncodeUint64 (ucast (rtV tx)),
        rlpEncodeBytes (rtR tx), rlpEncodeBytes (rtS tx)]
     else let vVal = (if 0 < rtChainID tx then rtChainID tx * 2 + 35 + ucast (rtV tx)
                      else ucast (rtV tx))
       in rlpEncodeList
       [rlpEncodeUint64 (rtNonce tx), rlpEncodeUint64 (rtGasPrice tx),
        rlpEncodeUint64 (rtGasLimit tx), rlpEncodeBytes (rtTo tx), rlpEncodeUint64 (rtValue tx),
        rlpEncodeBytes (rtData tx), rlpEncodeUint64 vVal, rlpEncodeBytes (rtR tx),
        rlpEncodeBytes (rtS tx)])"

definition TxHash :: "('s, 'k) crypto_lib \<Rightarrow> rlp_tx \<Rightarrow> bytes" where
  "TxHash cl tx = clKeccak cl (tx_payload tx)"

subsection \<open>The sender\<close>

definition compact_sig :: "rlp_tx \<Rightarrow> bytes" where
  "compact_sig tx = (27 + rtV tx) # replicate (32 - length (rtR tx)) 0 @ rtR tx
     @ replicate (32 - length (rtS tx)) 0 @ rtS tx"

definition RecoverPubKey :: "('s, 'k) crypto_lib \<Rightarrow> rlp_tx \<Rightarrow> rlp_error + bytes" where
  "RecoverPubKey cl tx =
     (if unbe (rtR tx) = 0 \<or> unbe (rtS tx) = 0 then Inl RlpZeroSig
      else if 32 < length (rtR tx) \<or> 32 < length (rtS tx) then Inl RlpSigTooLong
      else case clRecover cl (compact_sig tx) (SigningHash cl tx) of
             None \<Rightarrow> Inl RlpRecover
           | Some pub \<Rightarrow> Inr (clSerialize cl pub))"

subsection \<open>Numbers in bytes\<close>

lemma or_low_byte: "or (push_bit 8 (v :: u64)) (ucast (b :: byte)) = 256 * v + ucast b"
proof -
  have "and (push_bit 8 v) (ucast b) = 0"
  proof (rule bit_eqI)
    fix n
    show "bit (and (push_bit 8 v) (ucast b)) n \<longleftrightarrow> bit (0 :: u64) n"
      by (auto simp: bit_and_iff bit_push_bit_iff bit_ucast_iff dest: bit_imp_le_length)
  qed
  then have "or (push_bit 8 v) (ucast b) = push_bit 8 v + ucast b"
    by (simp add: disjunctive_add_eq_or)
  then show ?thesis by (simp add: push_bit_eq_mult mult.commute)
qed

lemma shift_in_unbe: "shift_in bs = of_nat (unbe bs)"
proof (induction bs rule: rev_induct)
  case Nil
  then show ?case by (simp add: shift_in_def)
next
  case (snoc b bs)
  have "(ucast b :: u64) = of_nat (unat b)" by simp
  with snoc show ?case by (simp add: shift_in_def or_low_byte mult.commute)
qed

lemma decodeRLPBigInt_unbe: "decodeRLPBigInt bs = of_nat (unbe bs)"
  by (simp add: decodeRLPBigInt_def shift_in_unbe)

lemma be_big_bytes: "n < 256 ^ k \<Longrightarrow> be k n = replicate (k - length (big_bytes n)) 0 @ big_bytes n"
proof (induction k arbitrary: n)
  case 0
  then show ?case by simp
next
  case (Suc k)
  show ?case
  proof (cases "n = 0")
    case True
    have "be j 0 = replicate j 0" for j
      by (induction j) (simp_all add: replicate_append_same)
    with True show ?thesis by simp
  next
    case False
    have lt: "n div 256 < 256 ^ k" using Suc.prems by (simp add: less_mult_imp_div_less mult.commute)
    then have "length (big_bytes (n div 256)) \<le> k" by (rule length_big_bytes_le)
    with Suc.IH [OF lt] False show ?thesis
      by (subst (1 2) big_bytes.simps) (simp add: Suc_diff_le)
  qed
qed

lemma hd_big_bytes: "n \<noteq> 0 \<Longrightarrow> hd (big_bytes n) \<noteq> 0"
proof (induction n rule: big_bytes.induct)
  case (1 n)
  show ?case
  proof (cases "n div 256 = 0")
    case True
    then have "n < 256" by (simp add: div_eq_0_iff)
    then have "unat (of_nat n :: byte) = n" by (simp add: unat_of_nat_byte)
    with 1(2) True show ?thesis by (subst big_bytes.simps) (auto simp: unsigned_eq_0_iff)
  next
    case False
    with 1 show ?thesis by (subst big_bytes.simps) simp
  qed
qed

lemma trim_u64_big_bytes: "trim_u64 x = big_bytes (unat x)"
proof -
  have "dropWhile (\<lambda>b. b = 0) (replicate j 0 @ bs) = dropWhile (\<lambda>b. b = 0) bs"
    for j and bs :: bytes
    by (induction j) auto
  moreover have "dropWhile (\<lambda>b. b = 0) (big_bytes (unat x)) = big_bytes (unat x)"
    using hd_big_bytes [of "unat x"] by (cases "unat x = 0"; cases "big_bytes (unat x)") auto
  ultimately show ?thesis
    by (simp only: trim_u64_def be_big_bytes [OF unat_less_u64])
qed

subsection \<open>Decoding what was encoded\<close>

text \<open>\<open>encodes e item\<close>: in front of any data, \<open>e\<close> decodes to \<open>item\<close> and is consumed.\<close>

definition encodes :: "bytes \<Rightarrow> bytes \<Rightarrow> bool" where
  "encodes e item \<longleftrightarrow> e \<noteq> [] \<and> (\<forall>rest. decodeRLPItem (e @ rest) = Inr (item, rest))"

lemma unat_byte_add: "unat (a :: byte) + n < 256 \<Longrightarrow> unat (a + of_nat n) = unat a + n"
  by (simp add: unat_word_ariths unat_of_nat)

lemma take_long_encoded:
  assumes "length d < 2 ^ 62" and "lp = big_bytes (length d)" and "0 < length d"
  shows "take_long e f (b # lp @ d @ rest) (length lp) = Inr (d, rest)"
proof -
  have n: "length d < 256 ^ 8" using assms(1) by simp
  then have len: "length lp \<le> 8" unfolding assms(2) by (rule length_big_bytes_le)
  have "of_nat (1 + length lp) + shift_in lp = (of_nat (1 + length lp + length d) :: u64)"
    by (simp add: shift_in_unbe assms(2))
  moreover have "sint (of_nat m :: u64) = int m" if "m < 2 ^ 63" for m
    using that by (simp add: sint_uint unsigned_of_nat take_bit_nat_eq_self
        signed_take_bit_int_eq_self)
  moreover have "1 + length lp + length d < 2 ^ 63" using len assms(1) by simp
  ultimately have "sint (of_nat (1 + length lp) + shift_in lp) = int (1 + length lp + length d)"
    by presburger
  then show ?thesis by (simp add: take_long_def nat_add_distrib Let_def)
qed

lemma encodes_prefix:
  assumes "length d < 2 ^ 62" and "base = 0x80 \<or> base = 0xC0"
  shows "encodes (rlpEncodeWithPrefix d base) d"
proof -
  let ?lp = "big_bytes (length d)"
  have "(of_nat (length d) :: u64) = of_nat (length d)" and un: "unat (of_nat (length d) :: u64) = length d"
    using assms(1) by (simp_all add: unat_of_nat)
  have lp: "trim_u64 (of_nat (length d)) = ?lp" by (simp add: trim_u64_big_bytes un)
  have n: "length d < 256 ^ 8" using assms(1) by simp
  consider "length d = 0" | "0 < length d" "length d \<le> 55" | "55 < length d" by linarith
  then show ?thesis
  proof cases
    case 1
    with assms(2) show ?thesis
      by (auto simp: encodes_def rlpEncodeWithPrefix_def take_short_def)
  next
    case 2
    have "unat (base + of_nat (length d)) = unat base + length d"
      using 2 assms(2) by (intro unat_byte_add) auto
    with 2 assms(2) show ?thesis
      by (auto simp: encodes_def rlpEncodeWithPrefix_def take_short_def Let_def)
  next
    case 3
    then have ne: "d \<noteq> []" by auto
    have le: "length ?lp \<le> 8" using n by (rule length_big_bytes_le)
    have pos: "0 < length ?lp" using ne by simp
    have "unat (base + 55 + of_nat (length ?lp)) = unat (base + 55) + length ?lp"
      using le assms(2) by (intro unat_byte_add) auto
    with 3 le pos assms(2) take_long_encoded [OF assms(1) refl] show ?thesis
      by (auto simp: encodes_def rlpEncodeWithPrefix_def lp Let_def)
  qed
qed

lemma encodes_bytes: "length d < 2 ^ 62 \<Longrightarrow> encodes (rlpEncodeBytes d) d"
proof -
  assume len: "length d < 2 ^ 62"
  consider "d = []" | b where "d = [b]" "b < 0x80" | "d \<noteq> []" "\<not> (length d = 1 \<and> hd d < 0x80)"
    by (cases d) (auto simp: length_Suc_conv)
  then show ?thesis
  proof cases
    case 1
    then show ?thesis by (simp add: encodes_def rlpEncodeBytes_def take_short_def)
  next
    case 2
    then show ?thesis by (simp add: encodes_def rlpEncodeBytes_def word_less_nat_alt)
  next
    case 3
    then show ?thesis using encodes_prefix [OF len] by (auto simp: rlpEncodeBytes_def)
  qed
qed

lemma encodes_uint64: "encodes (rlpEncodeUint64 v) (big_bytes (unat v))"
proof -
  have "length (big_bytes (unat v)) \<le> 8" by (rule length_big_bytes_le [OF unat_less_u64])
  then have "encodes (rlpEncodeBytes (big_bytes (unat v))) (big_bytes (unat v))"
    by (intro encodes_bytes) simp
  moreover have "rlpEncodeUint64 v = rlpEncodeBytes (big_bytes (unat v))"
    by (auto simp: rlpEncodeUint64_def rlpEncodeBytes_def trim_u64_big_bytes Let_def
        unsigned_eq_0_iff)
  ultimately show ?thesis by simp
qed

lemma encodes_access_list:
  "length (rtAccessListRaw tx) < 2 ^ 62 \<Longrightarrow> encodes (encodeAccessList tx) (rtAccessListRaw tx)"
  using encodes_prefix [of "rtAccessListRaw tx" "0xC0"] encodes_prefix [of "[]" "0xC0"]
  by (auto simp: encodeAccessList_def rlpEncodeList_def)

lemma decode_items_concat:
  "list_all2 encodes es items \<Longrightarrow> decode_items n (concat es) = Inr items"
proof (induction arbitrary: n rule: list_all2_induct)
  case Nil
  then show ?case by (simp add: decode_items.simps)
next
  case (Cons e es item items)
  then have "e @ concat es \<noteq> []" and "decodeRLPItem (e @ concat es) = Inr (item, concat es)"
    by (auto simp: encodes_def)
  with Cons.IH show ?case by (subst decode_items.simps) simp
qed

lemma decode_list:
  assumes "list_all2 encodes es items" and "length (concat es) < 2 ^ 62"
  shows "decodeRLPItem (rlpEncodeList es) = Inr (concat es, [])"
    and "hd (rlpEncodeList es) \<ge> 0xC0" and "rlpEncodeList es \<noteq> []"
proof -
  have enc: "encodes (rlpEncodeList es) (concat es)"
    unfolding rlpEncodeList_def by (rule encodes_prefix [OF assms(2)]) simp
  then show "rlpEncodeList es \<noteq> []" by (simp add: encodes_def)
  from enc have "decodeRLPItem (rlpEncodeList es @ []) = Inr (concat es, [])"
    by (simp only: encodes_def)
  then show "decodeRLPItem (rlpEncodeList es) = Inr (concat es, [])" by simp
  let ?lp = "trim_u64 (of_nat (length (concat es)))"
  have "length ?lp \<le> 8" by (simp add: trim_u64_big_bytes length_big_bytes_le [OF unat_less_u64])
  then have "unat (0xC0 + 55 + of_nat (length ?lp) :: byte) = 0xF7 + length ?lp"
    using unat_byte_add [of "0xF7" "length ?lp"] by simp
  moreover have "unat (0xC0 + of_nat (length (concat es)) :: byte) = 0xC0 + length (concat es)"
    if "length (concat es) \<le> 55" using unat_byte_add [of "0xC0" "length (concat es)"] that by simp
  ultimately show "hd (rlpEncodeList es) \<ge> 0xC0"
    by (simp add: rlpEncodeList_def rlpEncodeWithPrefix_def word_le_nat_alt Let_def)
qed

lemma length_prefix: "length (rlpEncodeWithPrefix d base) \<le> length d + 9"
  using length_big_bytes_le [OF unat_less_u64, of "of_nat (length d)"]
  by (simp add: rlpEncodeWithPrefix_def trim_u64_big_bytes Let_def)

lemma length_encode_bytes: "length (rlpEncodeBytes d) \<le> length d + 9"
  using length_prefix [of d "0x80"] by (simp add: rlpEncodeBytes_def)

lemma length_encode_uint64: "length (rlpEncodeUint64 v) \<le> 17"
  using length_prefix [of "trim_u64 v" "0x80"] length_big_bytes_le [OF unat_less_u64, of v]
  by (simp add: rlpEncodeUint64_def trim_u64_big_bytes Let_def)

lemma length_access_list: "length (encodeAccessList tx) \<le> length (rtAccessListRaw tx) + 9"
  using length_prefix [of "rtAccessListRaw tx" "0xC0"] length_prefix [of "[]" "0xC0"]
  by (simp add: encodeAccessList_def rlpEncodeList_def)

lemmas length_encoded = length_encode_bytes length_encode_uint64 length_access_list

text \<open>The transactions whose variable parts fit the address space together.\<close>

definition tx_size_ok :: "rlp_tx \<Rightarrow> bool" where
  "tx_size_ok tx \<longleftrightarrow> length (rtTo tx) + length (rtData tx) + length (rtR tx) + length (rtS tx)
     + length (rtAccessListRaw tx) < 2 ^ 61"

lemma field_encodes:
  assumes "tx_size_ok tx"
  shows "encodes (rlpEncodeBytes (rtTo tx)) (rtTo tx)"
    and "encodes (rlpEncodeBytes (rtData tx)) (rtData tx)"
    and "encodes (rlpEncodeBytes (rtR tx)) (rtR tx)" and "encodes (rlpEncodeBytes (rtS tx)) (rtS tx)"
    and "encodes (encodeAccessList tx) (rtAccessListRaw tx)"
  using assms by (simp_all add: tx_size_ok_def encodes_bytes encodes_access_list)

lemma decode_num [simp]: "decodeRLPBigInt (big_bytes (unat v)) = v"
  by (simp add: decodeRLPBigInt_unbe)

text \<open>The fields of the two payloads with what they decode to.\<close>

definition legacy_fields :: "rlp_tx \<Rightarrow> u64 \<Rightarrow> bytes list" where
  "legacy_fields tx v = [rlpEncodeUint64 (rtNonce tx), rlpEncodeUint64 (rtGasPrice tx),
     rlpEncodeUint64 (rtGasLimit tx), rlpEncodeBytes (rtTo tx), rlpEncodeUint64 (rtValue tx),
     rlpEncodeBytes (rtData tx), rlpEncodeUint64 v]"

definition legacy_items :: "rlp_tx \<Rightarrow> u64 \<Rightarrow> bytes list" where
  "legacy_items tx v = [big_bytes (unat (rtNonce tx)), big_bytes (unat (rtGasPrice tx)),
     big_bytes (unat (rtGasLimit tx)), rtTo tx, big_bytes (unat (rtValue tx)), rtData tx,
     big_bytes (unat v)]"

definition typed_fields :: "rlp_tx \<Rightarrow> bytes list" where
  "typed_fields tx = [rlpEncodeUint64 (rtChainID tx), rlpEncodeUint64 (rtNonce tx),
     rlpEncodeUint64 (rtMaxPriorityFee tx), rlpEncodeUint64 (rtGasPrice tx),
     rlpEncodeUint64 (rtGasLimit tx), rlpEncodeBytes (rtTo tx), rlpEncodeUint64 (rtValue tx),
     rlpEncodeBytes (rtData tx), encodeAccessList tx]"

definition typed_items :: "rlp_tx \<Rightarrow> bytes list" where
  "typed_items tx = [big_bytes (unat (rtChainID tx)), big_bytes (unat (rtNonce tx)),
     big_bytes (unat (rtMaxPriorityFee tx)), big_bytes (unat (rtGasPrice tx)),
     big_bytes (unat (rtGasLimit tx)), rtTo tx, big_bytes (unat (rtValue tx)), rtData tx,
     rtAccessListRaw tx]"

lemma legacy_fields_encode:
  "tx_size_ok tx \<Longrightarrow> list_all2 encodes (legacy_fields tx v) (legacy_items tx v)"
  by (simp add: legacy_fields_def legacy_items_def encodes_uint64 field_encodes)

lemma typed_fields_encode:
  "tx_size_ok tx \<Longrightarrow> list_all2 encodes (typed_fields tx) (typed_items tx)"
  by (simp add: typed_fields_def typed_items_def encodes_uint64 field_encodes)

lemma sig_fields_encode:
  "tx_size_ok tx \<Longrightarrow>
    list_all2 encodes [rlpEncodeBytes (rtR tx), rlpEncodeBytes (rtS tx)] [rtR tx, rtS tx]"
  by (simp add: encodes_uint64 field_encodes)

lemma legacy_size:
  "tx_size_ok tx \<Longrightarrow> length (concat (legacy_fields tx v @
     [rlpEncodeBytes (rtR tx), rlpEncodeBytes (rtS tx)])) < 2 ^ 62"
  using length_encoded(1) [of "rtTo tx"] length_encoded(1) [of "rtData tx"]
    length_encoded(1) [of "rtR tx"] length_encoded(1) [of "rtS tx"]
    length_encoded(2) [of "rtNonce tx"] length_encoded(2) [of "rtGasPrice tx"]
    length_encoded(2) [of "rtGasLimit tx"] length_encoded(2) [of "rtValue tx"]
    length_encoded(2) [of v]
  by (simp add: tx_size_ok_def legacy_fields_def)

lemma typed_size:
  "tx_size_ok tx \<Longrightarrow> length (concat (typed_fields tx @ rlpEncodeUint64 v #
     [rlpEncodeBytes (rtR tx), rlpEncodeBytes (rtS tx)])) < 2 ^ 62"
  using length_encoded(1) [of "rtTo tx"] length_encoded(1) [of "rtData tx"]
    length_encoded(1) [of "rtR tx"] length_encoded(1) [of "rtS tx"] length_encoded(3) [of tx]
    length_encoded(2) [of "rtNonce tx"] length_encoded(2) [of "rtGasPrice tx"]
    length_encoded(2) [of "rtGasLimit tx"] length_encoded(2) [of "rtValue tx"]
    length_encoded(2) [of v] length_encoded(2) [of "rtChainID tx"]
    length_encoded(2) [of "rtMaxPriorityFee tx"]
  by (simp add: tx_size_ok_def typed_fields_def)

lemma unat_ucast_byte: "unat (ucast (v :: byte) :: u64) = unat v"
proof -
  have "unat v < 2 ^ 8" using unsigned_less [of v] by simp
  then have "unat v < 2 ^ 64" by simp
  then show ?thesis by (simp add: unsigned_ucast_eq take_bit_nat_eq_self)
qed

lemma ucast_ucast_byte: "(ucast (ucast (v :: byte) :: u64) :: byte) = v"
proof -
  have "unat v < 2 ^ 8" using unsigned_less [of v] by simp
  then have "unat (ucast (ucast v :: u64) :: byte) = unat v"
    by (subst unsigned_ucast_eq, subst unat_ucast_byte)
      (simp add: take_bit_nat_eq_self)
  then show ?thesis by (simp add: word_unat_eq_iff)
qed

lemma typed_v_small:
  assumes "v < 27"
  shows "typed_v (ucast (v :: byte)) = v"
proof -
  have "\<not> (27 :: u64) \<le> ucast v"
    using assms unat_ucast_byte [of v] by (simp add: word_le_nat_alt word_less_nat_alt)
  then show ?thesis using ucast_ucast_byte [of v] by (simp add: typed_v_def)
qed

text \<open>Splitting EIP-155's \<open>v\<close> into chain id and recovery byte.\<close>

lemma legacy_v_split:
  assumes "v \<le> (1 :: byte)" and "c < 2 ^ 63 - 18"
  shows "legacy_chain (c * 2 + 35 + ucast v) = c" and "legacy_v (c * 2 + 35 + ucast v) = v"
proof -
  let ?w = "c * 2 + 35 + ucast v"
  have v: "unat v \<le> 1" using assms(1) by (simp add: word_le_nat_alt)
  have c: "unat c < 2 ^ 63 - 18" using assms(2) by (simp add: word_less_nat_alt)
  note uv = unat_ucast_byte [of v]
  have w: "unat ?w = unat c * 2 + 35 + unat v"
    using v c uv by (simp add: unat_word_ariths)
  then have ge: "35 \<le> ?w" by (simp add: word_le_nat_alt)
  have sub: "?w - 35 = c * 2 + ucast v" by simp
  have "unat (c * 2 + ucast v) = unat c * 2 + unat v"
    using v c uv by (simp add: unat_word_ariths)
  then have "unat ((c * 2 + ucast v) div 2) = unat c"
    using v by (simp add: unat_div)
  then show chain: "legacy_chain ?w = c"
    using ge sub by (simp add: legacy_chain_def word_unat_eq_iff)
  then show "legacy_v ?w = v"
    using ge ucast_ucast_byte [of v] by (simp add: legacy_v_def)
qed

text \<open>
  Decoding the signed form of a legacy transaction returns the
  transaction, field by field: for a chain id from 1 to 2^63 - 19 and a recovery byte 0 or 1.
\<close>

theorem rlp_legacy_roundtrip:
  assumes "tx_size_ok tx" and "rtTxType tx = 0" and "rtMaxPriorityFee tx = 0"
    and "rtAccessListRaw tx = []" and "0 < rtChainID tx" and "rtChainID tx < 2 ^ 63 - 18"
    and "rtV tx \<le> 1"
  shows "DecodeRLPTransaction (tx_payload tx) = Inr tx"
proof -
  let ?v = "rtChainID tx * 2 + 35 + ucast (rtV tx)"
  let ?es = "legacy_fields tx ?v @ [rlpEncodeBytes (rtR tx), rlpEncodeBytes (rtS tx)]"
  let ?items = "legacy_items tx ?v @ [rtR tx, rtS tx]"
  have payload: "tx_payload tx = rlpEncodeList ?es"
    using assms(2,5) by (simp add: tx_payload_def is_typed_def legacy_fields_def Let_def)
  have es: "list_all2 encodes ?es ?items"
    by (intro list_all2_appendI legacy_fields_encode sig_fields_encode assms(1))
  note list = decode_list [OF es legacy_size [OF assms(1)]]
  have "\<not> hd (rlpEncodeList ?es) \<le> 2" using list(2) by (auto simp: word_le_nat_alt)
  then have "DecodeRLPTransaction (tx_payload tx) = Inr (legacy_tx 0 ?items)"
    using list(1,3) decode_items_concat [OF es, of 0]
    by (simp add: DecodeRLPTransaction_def payload is_typed_def legacy_items_def Let_def)
  also have "legacy_tx 0 ?items = tx"
    using assms(2-4) legacy_v_split [OF assms(7,6)]
    by (cases tx) (simp add: legacy_tx_def legacy_items_def Let_def)
  finally show ?thesis .
qed

text \<open>
  C29 (rlp_typed_roundtrip): Decoding the signed form of a typed transaction (type byte 1 or 2, access
  list included) returns the transaction, for a recovery byte below 27.
\<close>

theorem rlp_typed_roundtrip:
  assumes "tx_size_ok tx" and "is_typed (rtTxType tx)" and "rtV tx < 27"
  shows "DecodeRLPTransaction (tx_payload tx) = Inr tx"
proof -
  let ?es = "typed_fields tx @ rlpEncodeUint64 (ucast (rtV tx)) #
    [rlpEncodeBytes (rtR tx), rlpEncodeBytes (rtS tx)]"
  let ?items = "typed_items tx @ big_bytes (unat (ucast (rtV tx) :: u64)) # [rtR tx, rtS tx]"
  have payload: "tx_payload tx = rtTxType tx # rlpEncodeList ?es"
    using assms(2) by (simp add: tx_payload_def typed_fields_def)
  have es: "list_all2 encodes ?es ?items"
    using encodes_uint64 sig_fields_encode [OF assms(1)]
    by (intro list_all2_appendI typed_fields_encode assms(1)) simp
  note list = decode_list [OF es typed_size [OF assms(1)]]
  have "1 \<le> rtTxType tx \<and> rtTxType tx \<le> 2" using assms(2) by (auto simp: is_typed_def)
  then have "DecodeRLPTransaction (tx_payload tx) = Inr (typed_tx (rtTxType tx) ?items)"
    using list(1,3) decode_items_concat [OF es, of 0] assms(2)
    by (simp add: DecodeRLPTransaction_def payload typed_items_def Let_def)
  also have "typed_tx (rtTxType tx) ?items = tx"
    using typed_v_small [OF assms(3)]
    by (cases tx) (simp add: typed_tx_def typed_items_def numeral_nat)
  finally show ?thesis .
qed

definition sample_rlp :: rlp_tx where
  "sample_rlp = \<lparr>rtNonce = 7, rtGasPrice = 1000, rtGasLimit = 21000, rtTo = be 20 99, rtValue = 5,
     rtData = [1, 2, 3], rtV = 1, rtR = be 32 77, rtS = be 32 78, rtChainID = 1337, rtTxType = 0,
     rtMaxPriorityFee = 0, rtAccessListRaw = []\<rparr>"

theorem rlp_legacy_roundtrip_witness:
  "DecodeRLPTransaction (tx_payload sample_rlp) = Inr sample_rlp"
  using rlp_legacy_roundtrip [of sample_rlp] by (simp add: sample_rlp_def tx_size_ok_def)

theorem rlp_typed_roundtrip_witness:
  "DecodeRLPTransaction (tx_payload (sample_rlp\<lparr>rtTxType := 2, rtAccessListRaw := [0x80]\<rparr>))
    = Inr (sample_rlp\<lparr>rtTxType := 2, rtAccessListRaw := [0x80]\<rparr>)"
  using rlp_typed_roundtrip [of "sample_rlp\<lparr>rtTxType := 2, rtAccessListRaw := [0x80]\<rparr>"]
  by (simp add: sample_rlp_def tx_size_ok_def is_typed_def)

subsection \<open>What a signature covers\<close>

definition signed_part :: "rlp_tx \<Rightarrow> byte \<times> bytes list" where
  "signed_part tx = (if is_typed (rtTxType tx) then (rtTxType tx, typed_items tx)
     else (0, legacy_items tx (rtChainID tx)))"

lemma signing_payload_alt:
  "signing_payload tx = (if is_typed (rtTxType tx) then rtTxType tx # rlpEncodeList (typed_fields tx)
     else rlpEncodeList (legacy_fields tx (rtChainID tx) @ [rlpEncodeUint64 0, rlpEncodeUint64 0]))"
  by (simp add: signing_payload_def typed_fields_def legacy_fields_def)

lemma legacy_signing_fields:
  assumes "tx_size_ok tx"
  shows "list_all2 encodes (legacy_fields tx v @ [rlpEncodeUint64 0, rlpEncodeUint64 0])
      (legacy_items tx v @ [[], []])"
    and "length (concat (legacy_fields tx v @ [rlpEncodeUint64 0, rlpEncodeUint64 0])) < 2 ^ 62"
proof -
  show "list_all2 encodes (legacy_fields tx v @ [rlpEncodeUint64 0, rlpEncodeUint64 0])
      (legacy_items tx v @ [[], []])"
    using encodes_uint64 [of 0] by (intro list_all2_appendI legacy_fields_encode assms) simp
  have "length (rlpEncodeUint64 0) = 1" by (simp add: rlpEncodeUint64_def)
  moreover have "0 < length (rlpEncodeBytes (rtR tx))" "0 < length (rlpEncodeBytes (rtS tx))"
    using field_encodes(3,4) [OF assms] by (simp_all add: encodes_def)
  ultimately show
    "length (concat (legacy_fields tx v @ [rlpEncodeUint64 0, rlpEncodeUint64 0])) < 2 ^ 62"
    using legacy_size [OF assms, of v] by (simp flip: length_greater_0_conv)
qed

lemma typed_signing_size:
  "tx_size_ok tx \<Longrightarrow> length (concat (typed_fields tx)) < 2 ^ 62"
  using typed_size [of tx 0] by simp

lemma rlpEncodeList_inject:
  assumes "list_all2 encodes es items" and "list_all2 encodes fs items'"
    and "length (concat es) < 2 ^ 62" and "length (concat fs) < 2 ^ 62"
    and "rlpEncodeList es = rlpEncodeList fs"
  shows "items = items'"
proof -
  have "concat es = concat fs"
    using decode_list(1) [OF assms(1,3)] decode_list(1) [OF assms(2,4)] assms(5) by simp
  then show ?thesis
    using decode_items_concat [OF assms(1), of 0] decode_items_concat [OF assms(2), of 0] by simp
qed

lemma legacy_payload_head:
  assumes "tx_size_ok tx" and "\<not> is_typed (rtTxType tx)"
  shows "0xC0 \<le> hd (signing_payload tx)"
  using decode_list(2) [OF legacy_signing_fields [OF assms(1), of "rtChainID tx"]] assms(2)
  by (simp add: signing_payload_alt)

lemma typed_payload_head: "is_typed (rtTxType tx) \<Longrightarrow> \<not> 0xC0 \<le> hd (signing_payload tx)"
  by (auto simp: signing_payload_alt is_typed_def word_le_nat_alt)

text \<open>
  Two transactions with the same signing payload agree in everything a
  signature should cover: the kind, chain id, nonce, prices, limit, receiver, value and data, and
  for a typed transaction its type byte, priority fee and access list.
\<close>

theorem rlp_signing_binds:
  assumes "tx_size_ok tx" and "tx_size_ok tx'" and "signing_payload tx = signing_payload tx'"
  shows "signed_part tx = signed_part tx'"
proof (cases "is_typed (rtTxType tx)")
  case True
  then have "\<not> 0xC0 \<le> hd (signing_payload tx')" using typed_payload_head assms(3) by metis
  then have typed: "is_typed (rtTxType tx')" using legacy_payload_head [OF assms(2)] by blast
  then have "rtTxType tx = rtTxType tx'" and "rlpEncodeList (typed_fields tx) = rlpEncodeList (typed_fields tx')"
    using assms(3) True by (simp_all add: signing_payload_alt)
  then show ?thesis
    using rlpEncodeList_inject [OF typed_fields_encode typed_fields_encode typed_signing_size
        typed_signing_size, OF assms(1,2,1,2)] True typed
    by (simp add: signed_part_def)
next
  case False
  then have "0xC0 \<le> hd (signing_payload tx')" using legacy_payload_head [OF assms(1)] assms(3) by metis
  then have legacy: "\<not> is_typed (rtTxType tx')" using typed_payload_head by blast
  have "legacy_items tx (rtChainID tx) @ [[], []] = legacy_items tx' (rtChainID tx') @ [[], []]"
    using assms(3) False legacy
    by (intro rlpEncodeList_inject [OF legacy_signing_fields(1) legacy_signing_fields(1)
          legacy_signing_fields(2) legacy_signing_fields(2)])
      (simp_all add: signing_payload_alt assms(1,2))
  then show ?thesis using False legacy by (simp add: signed_part_def)
qed

theorem rlp_signing_binds_witness:
  "signed_part sample_rlp = signed_part (sample_rlp\<lparr>rtV := 0\<rparr>)"
  using rlp_signing_binds [of sample_rlp "sample_rlp\<lparr>rtV := 0\<rparr>"]
  by (simp add: sample_rlp_def tx_size_ok_def signing_payload_def is_typed_def)

subsection \<open>Where decoding panics\<close>

lemma sint_of_nat_u64: "sint (of_nat m :: u64) = (int m + 2 ^ 63) mod 2 ^ 64 - 2 ^ 63"
  using int_word_sint [of "int m", where 'a = 64] by simp

lemma sint_of_nat_low: "m < 2 ^ 63 \<Longrightarrow> sint (of_nat m :: u64) = int m"
  unfolding sint_of_nat_u64 by simp

lemma sint_of_nat_high:
  assumes "2 ^ 63 \<le> m" and "m < 2 ^ 64"
  shows "sint (of_nat m :: u64) = int m - 2 ^ 64"
proof -
  have "(int m + 2 ^ 63) mod 2 ^ 64 = (int m - 2 ^ 63) mod 2 ^ 64"
    by (simp add: mod_eq_dvd_iff)
  also have "\<dots> = int m - 2 ^ 63" using assms by (intro mod_pos_pos_trivial) simp_all
  finally show ?thesis unfolding sint_of_nat_u64 by simp
qed

lemma take_long_panics:
  assumes "length lp = n" and "n \<le> 8" and "e \<noteq> RlpPanic" and "f \<noteq> RlpPanic"
  shows "take_long e f (b # lp @ rest) n = Inl RlpPanic \<longleftrightarrow> 2 ^ 63 \<le> 1 + n + unbe lp"
proof -
  let ?w = "of_nat (1 + n) + shift_in lp :: u64"
  have "unbe lp < 256 ^ length lp" by (rule unbe_less)
  also have "\<dots> \<le> 256 ^ 8" using assms(1,2) by (intro power_increasing) simp_all
  finally have u: "unbe lp < 2 ^ 64" by simp
  have w: "?w = of_nat (1 + n + unbe lp)" by (simp add: shift_in_unbe)
  consider "1 + n + unbe lp < 2 ^ 63" | "2 ^ 63 \<le> 1 + n + unbe lp" "1 + n + unbe lp < 2 ^ 64"
    | "2 ^ 64 \<le> 1 + n + unbe lp" by linarith
  then have "sint ?w < int (1 + n) \<longleftrightarrow> 2 ^ 63 \<le> 1 + n + unbe lp"
  proof cases
    case 1
    then have "sint ?w = int (1 + n + unbe lp)"
      unfolding w by (rule sint_of_nat_low)
    with 1 show ?thesis by simp
  next
    case 2
    then have "sint ?w = int (1 + n + unbe lp) - 2 ^ 64" unfolding w by (rule sint_of_nat_high)
    with 2 show ?thesis by simp
  next
    case 3
    have "(of_nat (1 + n + unbe lp) :: u64) = of_nat (1 + n + unbe lp - 2 ^ 64)"
      using 3 by (simp add: of_nat_diff)
    moreover have "1 + n + unbe lp - 2 ^ 64 < 2 ^ 63" using u assms(2) by simp
    ultimately have "sint ?w = int (1 + n + unbe lp - 2 ^ 64)"
      unfolding w by (simp only: sint_of_nat_low)
    with 3 u show ?thesis by simp
  qed
  then show ?thesis
    using assms by (auto simp: take_long_def Let_def)
qed

lemma take_short_no_panic: "f \<noteq> RlpPanic \<Longrightarrow> take_short f data n \<noteq> Inl RlpPanic"
  by (simp add: take_short_def)

lemma take_long_short:
  "length data < 1 + n \<Longrightarrow> e \<noteq> RlpPanic \<Longrightarrow> take_long e f data n \<noteq> Inl RlpPanic"
  by (simp add: take_long_def)

lemma take_long_panics_iff:
  assumes "n \<le> 8" and "e \<noteq> RlpPanic" and "f \<noteq> RlpPanic"
  shows "take_long e f (b # rest) n = Inl RlpPanic
    \<longleftrightarrow> n = 8 \<and> 8 \<le> length rest \<and> 2 ^ 63 - 9 \<le> unbe (take 8 rest)"
proof (cases "n \<le> length rest")
  case True
  then have "take_long e f (b # rest) n = Inl RlpPanic \<longleftrightarrow> 2 ^ 63 \<le> 1 + n + unbe (take n rest)"
    using take_long_panics [of "take n rest" n e f b "drop n rest"] assms by simp
  moreover have "n = 8 \<or> 1 + n + unbe (take n rest) < 2 ^ 63"
  proof (cases "n = 8")
    case False
    then have "n \<le> 7" using assms(1) by simp
    have "unbe (take n rest) < 256 ^ length (take n rest)" by (rule unbe_less)
    also have "\<dots> \<le> 256 ^ 7" using \<open>n \<le> 7\<close> by (intro power_increasing) simp_all
    finally show ?thesis using \<open>n \<le> 7\<close> by simp
  qed simp
  ultimately show ?thesis using True by auto
next
  case False
  with assms show ?thesis using take_long_short [of "b # rest" n e f] by auto
qed

text \<open>
  C40 (rlp_item_panics_iff): The item decoder panics on an input exactly when its first byte announces
  a string or list whose length takes eight bytes (0xBF or 0xFF), those bytes are there, and the
  length they hold is at least 2^63 - 9: the sum with the header length wraps around, so the bound
  check passes and the slice bounds are reversed.
\<close>

theorem rlp_item_panics_iff:
  "decodeRLPItem (b # rest) = Inl RlpPanic
    \<longleftrightarrow> (b = 0xBF \<or> b = 0xFF) \<and> 8 \<le> length rest \<and> 2 ^ 63 - 9 \<le> unbe (take 8 rest)"
proof -
  have "unat b < 2 ^ 8" using unsigned_less [of b] by simp
  then have b: "b = 0xBF \<longleftrightarrow> unat b = 0xBF" "b = 0xFF \<longleftrightarrow> unat b = 0xFF" "unat b \<le> 0xFF"
    by (auto simp: word_unat_eq_iff)
  consider "unat b \<le> 0xB7" | "0xB7 < unat b" "unat b \<le> 0xBF" | "0xBF < unat b" "unat b \<le> 0xF7"
    | "0xF7 < unat b" by linarith
  then show ?thesis
  proof cases
    case 1
    then show ?thesis unfolding b by (auto simp: take_short_no_panic Let_def)
  next
    case 2
    then have "decodeRLPItem (b # rest)
        = take_long RlpShortStringLength RlpShortString (b # rest) (unat b - 0xB7)"
      by (simp add: Let_def)
    moreover have "unat b - 0xB7 \<le> 8" "unat b - 0xB7 = 8 \<longleftrightarrow> unat b = 0xBF" using 2 by auto
    ultimately show ?thesis unfolding b using 2 by (simp add: take_long_panics_iff)
  next
    case 3
    then show ?thesis unfolding b by (auto simp: take_short_no_panic Let_def)
  next
    case 4
    then have "decodeRLPItem (b # rest)
        = take_long RlpShortListLength RlpShortList (b # rest) (unat b - 0xF7)"
      by (simp add: Let_def)
    moreover have "unat b - 0xF7 \<le> 8" "unat b - 0xF7 = 8 \<longleftrightarrow> unat b = 0xFF" using 4 b(3) by auto
    ultimately show ?thesis unfolding b using 4 by (simp add: take_long_panics_iff)
  qed
qed

text \<open>Nine bytes 0xFF are enough to make the transaction decoder panic.\<close>

lemma rlp_transaction_panics:
  "DecodeRLPTransaction (replicate 9 0xFF @ rest) = Inl RlpPanic"
proof -
  have nine: "replicate 9 (0xFF :: byte) @ rest = 0xFF # (replicate 8 0xFF @ rest)"
    using replicate_Suc [of 8 "0xFF :: byte"] by simp
  have "Suc (unbe (replicate n 0xFF)) = 256 ^ n" for n
    by (induction n) (simp_all flip: replicate_append_same)
  from this [of 8] have "unbe (replicate 8 0xFF) = 2 ^ 64 - 1" by simp
  then have "decodeRLPItem (0xFF # (replicate 8 0xFF @ rest)) = Inl RlpPanic"
    unfolding rlp_item_panics_iff by simp
  then show ?thesis
    unfolding nine by (simp add: DecodeRLPTransaction_def word_le_nat_alt Let_def)
qed

text \<open>An EIP-2930 transaction has eleven fields and is always refused.\<close>

lemma rlp_type1_eleven:
  assumes "list_all2 encodes es items" and "length es = 11" and "length (concat es) < 2 ^ 62"
  shows "DecodeRLPTransaction (1 # rlpEncodeList es) = Inl (RlpTypedCount 11)"
proof -
  have "length items = 11" using list_all2_lengthD [OF assms(1)] assms(2) by simp
  then show ?thesis
    using decode_list(1) [OF assms(1,3)] decode_items_concat [OF assms(1), of 0]
    by (simp add: DecodeRLPTransaction_def is_typed_def Let_def)
qed

lemma length_compact_sig:
  "length (rtR tx) \<le> 32 \<Longrightarrow> length (rtS tx) \<le> 32 \<Longrightarrow> length (compact_sig tx) = 65"
  by (simp add: compact_sig_def)

end
