(* ===== verification/Merkle.thy ===== *)
theory Merkle
  imports Prelude "HOL-Library.Signed_Division"
begin

text \<open>
  The binary Merkle tree of \<open>crypto/merkle.go\<close>: root, inclusion proofs and their verification.
  SHA-256 is a parameter \<open>h\<close>; where its output length matters it is a named hypothesis. A level
  of odd length is padded with its last hash.
\<close>

subsection \<open>Levels\<close>

definition pad_level :: "bytes list \<Rightarrow> bytes list" where
  "pad_level hashes = (if length hashes mod 2 \<noteq> 0 then hashes @ [last hashes] else hashes)"

fun combine_level :: "(bytes \<Rightarrow> bytes) \<Rightarrow> bytes list \<Rightarrow> bytes list" where
  "combine_level h (a # b # rest) = h (a @ b) # combine_level h rest"
| "combine_level h _ = []"

lemma length_pad_level: "length (pad_level xs) = 2 * ((length xs + 1) div 2)"
  unfolding pad_level_def by (cases "length xs mod 2 = 0") (simp_all, presburger+)

lemma length_combine_level [simp]: "length (combine_level h xs) = length xs div 2"
  by (induction h xs rule: combine_level.induct) auto

function merkle_root :: "(bytes \<Rightarrow> bytes) \<Rightarrow> bytes list \<Rightarrow> bytes list" where
  "merkle_root h hashes = (if length hashes \<le> 1 then hashes
     else merkle_root h (combine_level h (pad_level hashes)))"
  by pat_completeness auto
termination
  by (relation "measure (\<lambda>(h, hashes). length hashes)") (auto simp: length_pad_level)

declare merkle_root.simps [simp del]

record merkle_tree =
  mtRootHash :: "bytes option"
  mtLeaves :: "bytes list"

text \<open>The tree of no data has a nil root; the code's error result is never used.\<close>

definition NewMerkleTree :: "(bytes \<Rightarrow> bytes) \<Rightarrow> bytes list \<Rightarrow> merkle_tree" where
  "NewMerkleTree h data =
     (if length data = 0 then \<lparr>mtRootHash = None, mtLeaves = []\<rparr>
      else \<lparr>mtRootHash = Some (hd (merkle_root h (map h data))), mtLeaves = data\<rparr>)"

subsection \<open>Proofs\<close>

text \<open>One pass over a padded level, from index \<open>i\<close>: the sibling of \<open>currentIndex\<close> is collected.\<close>

fun collect_sibling :: "bytes list \<Rightarrow> nat \<Rightarrow> nat \<Rightarrow> bytes list" where
  "collect_sibling (a # b # rest) i currentIndex =
     (if i = currentIndex then [b] else if i + 1 = currentIndex then [a] else [])
       @ collect_sibling rest (i + 2) currentIndex"
| "collect_sibling _ i currentIndex = []"

function proof_loop :: "(bytes \<Rightarrow> bytes) \<Rightarrow> bytes list \<Rightarrow> nat \<Rightarrow> bytes list" where
  "proof_loop h hashes currentIndex = (if length hashes \<le> 1 then []
     else let padded = pad_level hashes;
              nextIndex = (if currentIndex mod 2 = 0 then currentIndex div 2
                           else (currentIndex - 1) div 2)
       in collect_sibling padded 0 currentIndex
            @ proof_loop h (combine_level h padded) nextIndex)"
  by pat_completeness auto
termination
  by (relation "measure (\<lambda>(h, hashes, i). length hashes)") (auto simp: length_pad_level)

declare proof_loop.simps [simp del]

datatype merkle_error = ErrInvalidKey

definition GenerateProof ::
    "(bytes \<Rightarrow> bytes) \<Rightarrow> merkle_tree \<Rightarrow> int \<Rightarrow> merkle_error + bytes list" where
  "GenerateProof h m index =
     (if index < 0 \<or> int (length (mtLeaves m)) \<le> index then Inl ErrInvalidKey
      else Inr (proof_loop h (map h (mtLeaves m)) (nat index)))"

text \<open>
  Go's integer division truncates towards zero. Hashes are values here. In the code \<open>append\<close> on a
  proof element whose slice has spare capacity writes the current hash into memory shared with whatever
  else uses that array; a proof whose elements are slices of one buffer can thereby change under the
  loop. The proofs of \<open>GenerateProof\<close> are slices of full length, which \<open>append\<close> copies.
\<close>

fun fold_proof :: "(bytes \<Rightarrow> bytes) \<Rightarrow> bytes \<Rightarrow> bytes list \<Rightarrow> int \<Rightarrow> bytes" where
  "fold_proof h currentHash [] index = currentHash"
| "fold_proof h currentHash (proofHash # proof) index =
     fold_proof h (if index mod 2 = 0 then h (currentHash @ proofHash)
                   else h (proofHash @ currentHash)) proof (index sdiv 2)"

definition VerifyProof ::
    "(bytes \<Rightarrow> bytes) \<Rightarrow> bytes \<Rightarrow> bytes \<Rightarrow> bytes list \<Rightarrow> int \<Rightarrow> bool" where
  "VerifyProof h rootHash data proof index \<longleftrightarrow> fold_proof h (h data) proof index = rootHash"

subsection \<open>Levels by index\<close>

lemma nth_combine_level:
  "2 * k + 1 < length xs \<Longrightarrow> combine_level h xs ! k = h (xs ! (2 * k) @ xs ! (2 * k + 1))"
proof (induction h xs arbitrary: k rule: combine_level.induct)
  case (1 h a b rest)
  then show ?case by (cases k) auto
qed auto

lemma nth_pad_level: "i < length xs \<Longrightarrow> pad_level xs ! i = xs ! i"
  by (simp add: pad_level_def nth_append)

lemma collect_sibling_at:
  "i \<le> j \<Longrightarrow> even i \<Longrightarrow> j - i < length xs \<Longrightarrow> even (length xs) \<Longrightarrow>
    collect_sibling xs i j = [if even j then xs ! (j - i + 1) else xs ! (j - i - 1)]"
proof (induction xs i j rule: collect_sibling.induct)
  case (1 a b rest i j)
  have none: "collect_sibling ys k j = []" if "j < k" for ys k
    using that by (induction ys k j rule: collect_sibling.induct) auto
  consider "j = i" | "j = i + 1" | "i + 2 \<le> j" using 1(2) by linarith
  then show ?case
  proof cases
    case 3
    then have "collect_sibling rest (i + 2) j
        = [if even j then rest ! (j - (i + 2) + 1) else rest ! (j - (i + 2) - 1)]"
      using 1 by (intro "1.IH") auto
    moreover have "j - i = Suc (Suc (j - (i + 2)))" using 3 by simp
    moreover have "odd j \<Longrightarrow> j - (i + 2) \<noteq> 0" using 1(3) 3 by auto
    ultimately show ?thesis using 3 by (auto simp: nth_Cons')
  qed (use 1(3) none in auto)
qed auto

lemma next_index: "(if i mod 2 = 0 then i div 2 else (i - 1) div 2) = i div (2 :: nat)"
  by presburger

text \<open>One level of proof and verification: the sibling pairs up with the hash at the index.\<close>

definition sibling :: "bytes list \<Rightarrow> nat \<Rightarrow> bytes" where
  "sibling hashes i = (if even i then pad_level hashes ! (i + 1) else pad_level hashes ! (i - 1))"

lemma parent_at:
  assumes "i < length hashes"
  shows "combine_level h (pad_level hashes) ! (i div 2)
    = (if even i then h (hashes ! i @ sibling hashes i) else h (sibling hashes i @ hashes ! i))"
proof -
  have i: "2 * (i div 2) + 1 < length (pad_level hashes)"
    using assms by (simp add: length_pad_level) presburger
  show ?thesis
  proof (cases "even i")
    case True
    then have "2 * (i div 2) = i" by simp
    with nth_combine_level [OF i] assms True show ?thesis
      by (simp add: nth_pad_level sibling_def)
  next
    case False
    then have "2 * (i div 2) + 1 = i" "2 * (i div 2) = i - 1" by presburger+
    with nth_combine_level [OF i] assms False show ?thesis
      by (simp add: nth_pad_level sibling_def)
  qed
qed

lemma proof_loop_step:
  assumes "\<not> length hashes \<le> 1" and "i < length hashes"
  shows "proof_loop h hashes i
    = sibling hashes i # proof_loop h (combine_level h (pad_level hashes)) (i div 2)"
proof -
  have "collect_sibling (pad_level hashes) 0 i = [sibling hashes i]"
    using assms(2) collect_sibling_at [of 0 i "pad_level hashes"]
    by (simp add: length_pad_level sibling_def)
  then show ?thesis
    using assms(1) by (subst proof_loop.simps) (simp add: next_index Let_def)
qed

lemma merkle_root_short: "length hashes \<le> 1 \<Longrightarrow> merkle_root h hashes = hashes"
  by (subst merkle_root.simps) simp

lemma proof_loop_short: "length hashes \<le> 1 \<Longrightarrow> proof_loop h hashes i = []"
  by (subst proof_loop.simps) simp

lemma merkle_root_long:
  "\<not> length hashes \<le> 1 \<Longrightarrow>
    merkle_root h hashes = merkle_root h (combine_level h (pad_level hashes))"
  by (subst merkle_root.simps) simp

lemma half_index: "i < n \<Longrightarrow> i div 2 < (n + 1) div (2 :: nat)"
  by presburger

lemma sdiv_nat: "int i sdiv 2 = int (i div 2)"
  by (simp add: signed_divide_int_def zdiv_int sgn_if)

lemma fold_proof_complete:
  "i < length hashes \<Longrightarrow>
     fold_proof h (hashes ! i) (proof_loop h hashes i) (int i) = hd (merkle_root h hashes)"
proof (induction h hashes arbitrary: i rule: merkle_root.induct)
  case (1 h hashes)
  show ?case
  proof (cases "length hashes \<le> 1")
    case True
    moreover from 1(2) True have "hashes ! i = hd hashes"
      by (cases hashes) auto
    ultimately show ?thesis by (simp add: merkle_root_short proof_loop_short)
  next
    case False
    let ?next = "combine_level h (pad_level hashes)"
    have "i div 2 < length ?next" using half_index [OF 1(2)] by (simp add: length_pad_level)
    from "1.IH" [OF False this]
    have "fold_proof h (?next ! (i div 2)) (proof_loop h ?next (i div 2)) (int (i div 2))
        = hd (merkle_root h hashes)"
      by (simp only: merkle_root_long [OF False])
    then show ?thesis
      unfolding proof_loop_step [OF False 1(2), of h] parent_at [OF 1(2), of h]
      by (simp add: sdiv_nat even_iff_mod_2_eq_zero [symmetric] split: if_splits)
  qed
qed

text \<open>
  C33 (merkle_proof_complete): For every leaf of a tree, \<open>GenerateProof\<close> returns a proof that
  \<open>VerifyProof\<close> accepts for that leaf at that index under the tree's root, whatever the hash
  function and the number of leaves.
\<close>

theorem merkle_proof_complete:
  assumes "i < length data"
  shows "\<exists>proof root. GenerateProof h (NewMerkleTree h data) (int i) = Inr proof
    \<and> mtRootHash (NewMerkleTree h data) = Some root
    \<and> VerifyProof h root (data ! i) proof (int i)"
proof -
  have "data \<noteq> []" using assms by auto
  then show ?thesis
    using fold_proof_complete [of i "map h data" h] assms
    by (simp add: GenerateProof_def NewMerkleTree_def VerifyProof_def)
qed

definition toy_hash :: "bytes \<Rightarrow> bytes" where
  "toy_hash bs = be 32 (unbe bs + length bs)"

theorem merkle_proof_complete_witness:
  "\<exists>proof root. GenerateProof toy_hash (NewMerkleTree toy_hash [[1], [2], [3]]) 2 = Inr proof
    \<and> mtRootHash (NewMerkleTree toy_hash [[1], [2], [3]]) = Some root
    \<and> VerifyProof toy_hash root [3] proof 2"
  using merkle_proof_complete [of 2 "[[1], [2], [3]]" toy_hash] by simp

subsection \<open>What a proof binds\<close>

text \<open>The strings that building a tree and folding a proof feed to the hash function.\<close>

fun pair_strings :: "bytes list \<Rightarrow> bytes list" where
  "pair_strings (a # b # rest) = (a @ b) # pair_strings rest"
| "pair_strings _ = []"

function tree_strings :: "(bytes \<Rightarrow> bytes) \<Rightarrow> bytes list \<Rightarrow> bytes list" where
  "tree_strings h hashes = (if length hashes \<le> 1 then []
     else pair_strings (pad_level hashes) @ tree_strings h (combine_level h (pad_level hashes)))"
  by pat_completeness auto
termination
  by (relation "measure (\<lambda>(h, hashes). length hashes)") (auto simp: length_pad_level)

declare tree_strings.simps [simp del]

fun fold_strings :: "(bytes \<Rightarrow> bytes) \<Rightarrow> bytes \<Rightarrow> bytes list \<Rightarrow> int \<Rightarrow> bytes list" where
  "fold_strings h currentHash [] index = []"
| "fold_strings h currentHash (proofHash # pf) index =
     (let s = (if index mod 2 = 0 then currentHash @ proofHash else proofHash @ currentHash)
      in s # fold_strings h (h s) pf (index sdiv 2))"

definition hashed_strings :: "(bytes \<Rightarrow> bytes) \<Rightarrow> bytes list \<Rightarrow> bytes \<Rightarrow> bytes list \<Rightarrow> int \<Rightarrow> bytes set" where
  "hashed_strings h data d pf index = insert d (set data)
     \<union> set (tree_strings h (map h data)) \<union> set (fold_strings h (h d) pf index)"

fun merkle_depth :: "nat \<Rightarrow> nat" where
  "merkle_depth n = (if n \<le> 1 then 0 else Suc (merkle_depth ((n + 1) div 2)))"

declare merkle_depth.simps [simp del]

lemma tree_strings_long:
  "\<not> length hashes \<le> 1 \<Longrightarrow> tree_strings h hashes
    = pair_strings (pad_level hashes) @ tree_strings h (combine_level h (pad_level hashes))"
  by (subst tree_strings.simps) simp

lemma length_next_level [simp]:
  "length (combine_level h (pad_level hashes)) = (length hashes + 1) div 2"
  by (simp add: length_pad_level)

lemma merkle_depth_long: "\<not> n \<le> 1 \<Longrightarrow> merkle_depth n = Suc (merkle_depth ((n + 1) div 2))"
  by (subst merkle_depth.simps) simp

lemma nth_pair_strings:
  "2 * k + 1 < length xs \<Longrightarrow> xs ! (2 * k) @ xs ! (2 * k + 1) \<in> set (pair_strings xs)"
proof (induction xs arbitrary: k rule: pair_strings.induct)
  case (1 a b rest)
  then show ?case by (cases k) auto
qed auto

lemma pair_at:
  assumes "i < length hashes"
  shows "(if even i then hashes ! i @ sibling hashes i else sibling hashes i @ hashes ! i)
    \<in> set (pair_strings (pad_level hashes))"
proof -
  have i: "2 * (i div 2) + 1 < length (pad_level hashes)"
    using assms by (simp add: length_pad_level) presburger
  show ?thesis
  proof (cases "even i")
    case True
    then have "2 * (i div 2) = i" by simp
    with nth_pair_strings [OF i] assms True show ?thesis
      by (simp add: nth_pad_level sibling_def)
  next
    case False
    then have "2 * (i div 2) + 1 = i" "2 * (i div 2) = i - 1" by presburger+
    with nth_pair_strings [OF i] assms False show ?thesis
      by (simp add: nth_pad_level sibling_def)
  qed
qed

lemma combine_level_lengths:
  "(\<And>x. length (h x) = 32) \<Longrightarrow> \<forall>x \<in> set (combine_level h xs). length x = 32"
  by (induction h xs rule: combine_level.induct) auto

lemma sibling_length:
  assumes "i < length hashes" and "\<forall>x \<in> set hashes. length x = 32"
  shows "length (sibling hashes i) = 32"
proof -
  have "\<forall>x \<in> set (pad_level hashes). length x = 32"
    using assms last_in_set [of hashes] by (cases hashes) (auto simp: pad_level_def)
  moreover have "even i \<Longrightarrow> i + 1 < length (pad_level hashes)"
    and "i - 1 < length (pad_level hashes)"
    using assms(1) by (simp_all add: length_pad_level) presburger+
  ultimately show ?thesis by (simp add: sibling_def)
qed

text \<open>One folding step is undone: equal hashes of strings in the set come from equal halves.\<close>

lemma unfold_step:
  assumes "inj_on h S" and "length a = 32" and "length cur = 32" and "length s = 32"
    and "(if even i then cur @ p else p @ cur) \<in> S" and "(if even i then a @ s else s @ a) \<in> S"
    and "h (if even i then cur @ p else p @ cur) = h (if even i then a @ s else s @ a)"
  shows "cur = a \<and> p = s"
  using inj_onD [OF assms(1) assms(7) assms(5,6)] assms(2-4) by (auto split: if_splits)

lemma fold_proof_binding:
  assumes "\<And>x. length (h x) = 32"
    and "inj_on h (set (tree_strings h hashes) \<union> set (fold_strings h cur pf (int i)))"
    and "\<forall>x \<in> set hashes. length x = 32" and "length cur = 32"
    and "i < length hashes" and "length pf = merkle_depth (length hashes)"
    and "fold_proof h cur pf (int i) = hd (merkle_root h hashes)"
  shows "cur = hashes ! i \<and> pf = proof_loop h hashes i"
  using assms
proof (induction h hashes arbitrary: cur pf i rule: merkle_root.induct)
  case (1 h hashes)
  show ?case
  proof (cases "length hashes \<le> 1")
    case True
    then have "pf = []" using 1(7) by (simp add: merkle_depth.simps)
    moreover have "hashes ! i = hd hashes" using True 1(6) by (cases hashes) auto
    ultimately show ?thesis
      using 1(8) True by (simp add: merkle_root_short proof_loop_short)
  next
    case False
    let ?next = "combine_level h (pad_level hashes)"
    from 1(7) obtain p rest where pf: "pf = p # rest"
        and rest: "length rest = merkle_depth (length ?next)"
      using merkle_depth_long [OF False] by (cases pf) (auto simp del: length_combine_level)
    define s where "s = (if even i then cur @ p else p @ cur)"
    define t where "t = (if even i then hashes ! i @ sibling hashes i
                         else sibling hashes i @ hashes ! i)"
    have strings: "fold_strings h cur pf (int i)
        = s # fold_strings h (h s) rest (int (i div 2))"
      by (simp add: pf s_def sdiv_nat Let_def even_iff_mod_2_eq_zero [symmetric])
    note inj = 1(3) [unfolded strings tree_strings_long [OF False]]
    have "fold_proof h (h s) rest (int (i div 2)) = hd (merkle_root h ?next)"
      using 1(8) unfolding merkle_root_long [OF False]
      by (simp add: pf s_def sdiv_nat even_iff_mod_2_eq_zero [symmetric] split: if_splits)
    moreover have "inj_on h (set (tree_strings h ?next)
        \<union> set (fold_strings h (h s) rest (int (i div 2))))"
      by (rule inj_on_subset [OF inj]) auto
    ultimately have IH: "h s = ?next ! (i div 2) \<and> rest = proof_loop h ?next (i div 2)"
      using half_index [OF 1(6)] rest combine_level_lengths [OF 1(2)] 1(2)
      by (intro "1.IH" [OF False]) (simp_all del: length_combine_level)
    have "h s = h t" using IH parent_at [OF 1(6), of h] by (simp add: t_def)
    moreover have "t \<in> set (pair_strings (pad_level hashes))"
      unfolding t_def by (rule pair_at [OF 1(6)])
    ultimately have "cur = hashes ! i \<and> p = sibling hashes i"
      using unfold_step [OF inj, of "hashes ! i" cur "sibling hashes i" i p] 1(4-6)
        sibling_length [OF 1(6) 1(4)]
      by (simp add: s_def t_def)
    then show ?thesis
      using IH proof_loop_step [OF False 1(6), of h] by (simp add: pf)
  qed
qed

lemma length_proof_loop: "i < length hashes \<Longrightarrow>
    length (proof_loop h hashes i) = merkle_depth (length hashes)"
proof (induction h hashes arbitrary: i rule: merkle_root.induct)
  case (1 h hashes)
  show ?case
  proof (cases "length hashes \<le> 1")
    case True
    then show ?thesis by (simp add: proof_loop_short merkle_depth.simps)
  next
    case False
    have "i div 2 < length (combine_level h (pad_level hashes))"
      using half_index [OF 1(2)] by (simp only: length_next_level)
    from "1.IH" [OF False this] show ?thesis
      by (simp only: proof_loop_step [OF False 1(2)] merkle_depth_long [OF False] length_next_level
          list.size add_0_right add_Suc_right)
  qed
qed

text \<open>
  C30 (merkle_proof_binding): Under the root of a tree, a proof of the tree's depth is accepted for an
  index only with the datum that is stored there, and only if it is the generated proof, unless
  two of the strings hashed on the way (a finite set, written out) collide.
\<close>

theorem merkle_proof_binding:
  assumes "\<And>x. length (h x) = 32" and "inj_on h (hashed_strings h data d pf (int i))"
    and "i < length data" and "length pf = merkle_depth (length data)"
    and "mtRootHash (NewMerkleTree h data) = Some root" and "VerifyProof h root d pf (int i)"
  shows "d = data ! i \<and> GenerateProof h (NewMerkleTree h data) (int i) = Inr pf"
proof -
  have root: "root = hd (merkle_root h (map h data))" and ne: "data \<noteq> []"
    using assms(5) by (auto simp: NewMerkleTree_def split: if_splits)
  have inj: "inj_on h (set (tree_strings h (map h data))
      \<union> set (fold_strings h (h d) pf (int i)))"
    by (rule inj_on_subset [OF assms(2)]) (auto simp: hashed_strings_def)
  have *: "h d = map h data ! i \<and> pf = proof_loop h (map h data) i"
    using assms(3,4,6) root
    by (intro fold_proof_binding [OF assms(1) inj]) (auto simp: assms(1) VerifyProof_def)
  then have "d = data ! i"
    using assms(3) inj_onD [OF assms(2), of d "data ! i"] by (simp add: hashed_strings_def)
  with * show ?thesis
    using assms(3) ne by (simp add: GenerateProof_def NewMerkleTree_def)
qed

lemma unbe_toy_hash: "unbe (toy_hash bs) = (unbe bs + length bs) mod 256 ^ 32"
  unfolding toy_hash_def by (rule unbe_be)

lemma unbe_distinct: "unbe x \<noteq> unbe y \<Longrightarrow> x \<noteq> y"
  by blast

theorem merkle_proof_binding_witness:
  "\<exists>root. mtRootHash (NewMerkleTree toy_hash [[1], [2]]) = Some root
    \<and> VerifyProof toy_hash root [2] [toy_hash [1]] 1
    \<and> GenerateProof toy_hash (NewMerkleTree toy_hash [[1], [2]]) 1 = Inr [toy_hash [1]]"
proof -
  let ?s = "toy_hash [1] @ toy_hash [2]"
  have strings: "hashed_strings toy_hash [[1], [2]] [2] [toy_hash [1]] (int 1) = {[1], [2], ?s}"
    by (auto simp: hashed_strings_def tree_strings.simps pad_level_def)
  have len: "length (toy_hash x) = 32" for x by (simp add: toy_hash_def)
  have "unbe [1] = 1" "unbe [2] = 2" by (simp_all add: unbe_def)
  then have "unbe (toy_hash [1]) = 2" "unbe (toy_hash [2]) = 3"
    by (simp_all add: unbe_toy_hash)
  moreover from this have "unbe (toy_hash ?s) = 67"
    by (simp add: unbe_toy_hash [of ?s] unbe_append len)
  ultimately have "toy_hash [1] \<noteq> toy_hash [2]" "toy_hash [1] \<noteq> toy_hash ?s"
      "toy_hash [2] \<noteq> toy_hash ?s"
    by (auto intro: unbe_distinct)
  then have inj: "inj_on toy_hash {[1], [2], ?s}" by (auto simp: inj_on_def)
  obtain root where root: "mtRootHash (NewMerkleTree toy_hash [[1], [2]]) = Some root"
    by (simp add: NewMerkleTree_def)
  then have "root = toy_hash ?s"
    by (simp add: NewMerkleTree_def merkle_root_long pad_level_def merkle_root_short)
  then have "VerifyProof toy_hash root [2] [toy_hash [1]] (int 1)"
    by (simp add: VerifyProof_def)
  with merkle_proof_binding [of toy_hash "[[1], [2]]" "[2]" "[toy_hash [1]]" 1 root, OF len
      inj [folded strings] _ _ root] root
  show ?thesis by (simp add: merkle_depth.simps)
qed

text \<open>
  The code has no domain separation between leaves and inner nodes, and pads with a copy: an inner
  node passes as a leaf with a shorter proof, and a list of odd length has the root of the list
  with its last datum repeated.
\<close>

lemma merkle_inner_node_as_leaf:
  "mtRootHash (NewMerkleTree h [a, b]) = Some root \<Longrightarrow> VerifyProof h root (h a @ h b) [] 0"
  by (simp add: NewMerkleTree_def VerifyProof_def pad_level_def merkle_root_long merkle_root_short)

lemma merkle_root_repeats_last:
  assumes "1 < length data" and "odd (length data)"
  shows "mtRootHash (NewMerkleTree h (data @ [last data])) = mtRootHash (NewMerkleTree h data)"
proof -
  have "data \<noteq> []" using assms(1) by (cases data) simp_all
  let ?xs = "map h data" and ?ys = "map h (data @ [last data])"
  from assms \<open>data \<noteq> []\<close> have "pad_level ?ys = ?ys" and "pad_level ?xs = ?ys"
    by (auto simp: pad_level_def last_map odd_iff_mod_2_eq_one mod_Suc)
  moreover have "\<not> length ?xs \<le> 1" and "\<not> length ?ys \<le> 1" using assms(1) \<open>data \<noteq> []\<close> by simp_all
  ultimately have "merkle_root h ?ys = merkle_root h ?xs" by (metis merkle_root_long)
  then show ?thesis using \<open>data \<noteq> []\<close> by (simp add: NewMerkleTree_def)
qed

end
