(* ===== verification/Transactions.thy ===== *)
theory Transactions
  imports RLP Merkle
begin

text \<open>
  Transactions (\<open>ledger/transaction.go\<close>, the types in \<open>ledger/types.go\<close>, and \<open>ToTransaction\<close> of
  \<open>ledger/rlp.go\<close>): signing payload, hash, sender, verification and construction. The crypto
  library is the argument \<open>cl\<close>; a verification can panic (\<open>Keys\<close>).
\<close>

subsection \<open>Types\<close>

record tx_signature =
  tsR :: bytes
  tsS :: bytes
  tsV :: byte

record transaction =
  txHash :: bytes
  txNonce :: u64
  txFrom :: bytes
  txTo :: bytes
  txValue :: u64
  txGasLimit :: u64
  txGasPrice :: u64
  txFeeCurrency :: bytes
  txData :: bytes
  txSignature :: "tx_signature option"
  txChainID :: u64
  txVerified :: bool

definition FeeToken :: "transaction \<Rightarrow> bytes option" where
  "FeeToken tx = (if length (txFeeCurrency tx) = 0 then None
     else if length (txFeeCurrency tx) = 20 \<and> txFeeCurrency tx = replicate 20 0 then None
     else Some (txFeeCurrency tx))"

subsection \<open>Payload, hash and sender\<close>

definition SigningPayload :: "transaction \<Rightarrow> bytes" where
  "SigningPayload tx = be_u64 (txChainID tx) @ be_u64 (txNonce tx) @ txFrom tx @ txTo tx
     @ be_u64 (txValue tx) @ be_u64 (txGasLimit tx) @ be_u64 (txGasPrice tx) @ txData tx
     @ (if 0 < length (txFeeCurrency tx) then txFeeCurrency tx else [])"

definition ComputeHash :: "('s, 'k) crypto_lib \<Rightarrow> transaction \<Rightarrow> bytes" where
  "ComputeHash cl tx = DoubleSHA256 cl (SigningPayload tx
     @ (case txSignature tx of None \<Rightarrow> [] | Some sig \<Rightarrow> tsR sig @ tsS sig @ [tsV sig]))"

definition SenderAddress :: "('s, 'k) crypto_lib \<Rightarrow> transaction \<Rightarrow> bytes option" where
  "SenderAddress cl tx =
     (if length (txFrom tx) = 20 then Some (txFrom tx)
      else if length (txFrom tx) \<noteq> 65 then None
      else case PubKeyFromBytes cl (txFrom tx) of
             Inl _ \<Rightarrow> None | Inr pub \<Rightarrow> Some (Address cl pub))"

definition Verify :: "('s, 'k) crypto_lib \<Rightarrow> transaction \<Rightarrow> bool outcome" where
  "Verify cl tx = (case txSignature tx of
       None \<Rightarrow> Done False
     | Some ts \<Rightarrow>
         (if length (txFrom tx) = 20 then Done (txVerified tx)
          else if length (txFrom tx) \<noteq> 65 then Done False
          else let sig = \<lparr>sigR = unbe (tsR ts), sigS = unbe (tsS ts)\<rparr>
            in case PubKeyFromBytes cl (txFrom tx) of
                 Inl _ \<Rightarrow> Done False
               | Inr pub \<Rightarrow> pub_Verify cl pub (SigningPayload tx) sig))"

subsection \<open>Construction\<close>

definition recovery_id :: "nat \<Rightarrow> byte" where
  "recovery_id s = (let b = big_bytes s in if 0 < length b \<and> and (last b) 1 \<noteq> 0 then 1 else 0)"

definition NewTransaction :: "('s, 'k) crypto_lib \<Rightarrow> u64 \<Rightarrow> bytes \<Rightarrow> u64 \<Rightarrow> u64 \<Rightarrow> u64 \<Rightarrow> bytes
    \<Rightarrow> u64 \<Rightarrow> 's \<Rightarrow> transaction" where
  "NewTransaction cl nonce dest value gasLimit gasPrice data chainID key =
     (let tx = \<lparr>txHash = [], txNonce = nonce, txFrom = clSerialize cl (clPub cl key), txTo = dest,
                txValue = value, txGasLimit = gasLimit, txGasPrice = gasPrice, txFeeCurrency = [],
                txData = data, txSignature = None, txChainID = chainID, txVerified = False\<rparr>;
          sig = Sign cl key (SigningPayload tx);
          tx1 = tx\<lparr>txSignature := Some \<lparr>tsR = big_bytes (sigR sig), tsS = big_bytes (sigS sig),
                                        tsV = 27 + recovery_id (sigS sig)\<rparr>\<rparr>
      in tx1\<lparr>txHash := ComputeHash cl tx1\<rparr>)"

definition ToTransaction :: "('s, 'k) crypto_lib \<Rightarrow> rlp_tx \<Rightarrow> rlp_error + transaction" where
  "ToTransaction cl tx = (case RecoverPubKey cl tx of
       Inl e \<Rightarrow> Inl e
     | Inr pubKeyBytes \<Rightarrow> (case PubKeyFromBytes cl pubKeyBytes of
           Inl _ \<Rightarrow> Inl RlpBadKey
         | Inr pub \<Rightarrow> Inr \<lparr>txHash = TxHash cl tx, txNonce = rtNonce tx, txFrom = Address cl pub,
               txTo = rtTo tx, txValue = rtValue tx, txGasLimit = rtGasLimit tx,
               txGasPrice = rtGasPrice tx, txFeeCurrency = [], txData = rtData tx,
               txSignature = Some \<lparr>tsR = rtR tx, tsS = rtS tx, tsV = rtV tx\<rparr>,
               txChainID = rtChainID tx, txVerified = True\<rparr>))"

subsection \<open>What the payload covers\<close>

text \<open>With a receiver and a fee currency of known lengths the payload determines the fields.\<close>

definition payload_part :: "transaction \<Rightarrow> u64 \<times> u64 \<times> bytes \<times> bytes \<times> u64 \<times> u64 \<times> u64 \<times> bytes \<times> bytes"
  where "payload_part tx = (txChainID tx, txNonce tx, txFrom tx, txTo tx, txValue tx, txGasLimit tx,
     txGasPrice tx, txData tx, txFeeCurrency tx)"

lemma payload_fee: "SigningPayload tx = be_u64 (txChainID tx) @ be_u64 (txNonce tx) @ txFrom tx
    @ txTo tx @ be_u64 (txValue tx) @ be_u64 (txGasLimit tx) @ be_u64 (txGasPrice tx) @ txData tx
    @ txFeeCurrency tx"
  by (simp add: SigningPayload_def)

lemma append_inj_length:
  "length a = length b \<Longrightarrow> a @ x = b @ y \<longleftrightarrow> a = b \<and> x = y"
  by simp

lemma append_inj_suffix:
  "length x = length y \<Longrightarrow> a @ x = b @ y \<longleftrightarrow> a = b \<and> x = y"
  by simp

lemma payload_inject:
  assumes "SigningPayload tx = SigningPayload tx'" and "length (txFrom tx) = length (txFrom tx')"
    and "length (txTo tx) = length (txTo tx')"
    and "length (txFeeCurrency tx) = length (txFeeCurrency tx')"
  shows "payload_part tx = payload_part tx'"
  using assms by (simp add: payload_fee payload_part_def append_inj_length append_inj_suffix)

text \<open>
  Without lengths in the payload, the end of the data can be moved into the
  fee currency: the altered transaction has the same payload, so the same signature verifies, yet
  it pays its fees in a token of the attacker's choice and carries other data.
\<close>

theorem payload_malleable:
  assumes "txData tx = d @ token" and "txFeeCurrency tx = []" and "length token = 20"
    and "token \<noteq> replicate 20 0" and "length (txFrom tx) = 65" and "Verify cl tx = Done True"
  shows "let tx' = tx\<lparr>txData := d, txFeeCurrency := token\<rparr>
    in Verify cl tx' = Done True \<and> FeeToken tx = None \<and> FeeToken tx' = Some token
      \<and> ComputeHash cl tx' = ComputeHash cl tx \<and> SenderAddress cl tx' = SenderAddress cl tx"
proof -
  let ?tx' = "tx\<lparr>txData := d, txFeeCurrency := token\<rparr>"
  have "SigningPayload ?tx' = SigningPayload tx" using assms(1,2) by (simp add: payload_fee)
  then show ?thesis
    using assms(2-)
    by (cases "txSignature tx"; cases "token = []")
      (simp_all add: Let_def Verify_def FeeToken_def ComputeHash_def SenderAddress_def
        split: sum.splits)
qed

subsection \<open>Signing and verifying\<close>

text \<open>
  What the library documents of its signatures: a serialised key has 65 bytes and parses back, both
  numbers are non-zero and below the order, which fits 32 bytes, and a signature verifies under the
  signer's key, as does its low-S form.
\<close>

definition library_ok :: "('s, 'k) crypto_lib \<Rightarrow> bool" where
  "library_ok cl \<longleftrightarrow>
     (\<forall>k. length (clSerialize cl k) = 65 \<and> clParsePubKey cl (clSerialize cl k) = Some k)
     \<and> clOrder cl < 256 ^ 32
     \<and> (\<forall>key hash. fst (clSign cl key hash) < clOrder cl \<and> snd (clSign cl key hash) < clOrder cl
         \<and> (\<forall>s \<in> {snd (clSign cl key hash), clOrder cl - snd (clSign cl key hash)}.
              clVerify cl (be 32 (fst (clSign cl key hash))) (be 32 s) hash (clPub cl key)))"

lemma fill32_be: "n < 256 ^ 32 \<Longrightarrow> fill32 (big_bytes n) = Done (be 32 n)"
  using length_big_bytes_le [of n 32] by (simp add: fill32_def be_big_bytes)

lemma signature_eta: "\<lparr>sigR = sigR x, sigS = sigS x\<rparr> = x"
  by (cases x) simp

lemma signature_verifies:
  assumes "library_ok cl"
  shows "pub_Verify cl (clPub cl key) data (Sign cl key data) = Done True"
proof -
  let ?h = "clKeccak cl data"
  obtain r s where rs: "clSign cl key ?h = (r, s)" by fastforce
  have lt: "r < clOrder cl" "s < clOrder cl" "clOrder cl < 256 ^ 32"
    and ok: "\<forall>s' \<in> {s, clOrder cl - s}. clVerify cl (be 32 r) (be 32 s') ?h (clPub cl key)"
    using assms rs unfolding library_ok_def by (metis fst_conv, metis snd_conv, simp, metis fst_conv snd_conv)
  define s' where "s' = (if clOrder cl div 2 < s then clOrder cl - s else s)"
  have "s' \<le> clOrder cl" using lt by (simp add: s'_def)
  then have "r < 256 ^ 32" "s' < 256 ^ 32" using lt by linarith+
  moreover have "Sign cl key data = \<lparr>sigR = r, sigS = s'\<rparr>"
    by (simp add: Sign_def SignHash_def rs s'_def)
  moreover have "clVerify cl (be 32 r) (be 32 s') ?h (clPub cl key)"
    using ok by (simp add: s'_def)
  ultimately show ?thesis by (simp add: pub_Verify_def VerifyHash_def fill32_be)
qed

text \<open>
  A transaction built by \<open>NewTransaction\<close> verifies, its sender is the
  address of the signing key, and its hash is the hash that is recomputed from its fields.
\<close>

theorem new_transaction_verifies:
  assumes "library_ok cl"
  shows "let tx = NewTransaction cl nonce dest value gasLimit gasPrice data chainID key
    in Verify cl tx = Done True \<and> SenderAddress cl tx = Some (Address cl (clPub cl key))
      \<and> txHash tx = ComputeHash cl tx"
proof -
  let ?tx = "NewTransaction cl nonce dest value gasLimit gasPrice data chainID key"
  have key: "length (clSerialize cl (clPub cl key)) = 65"
    "PubKeyFromBytes cl (clSerialize cl (clPub cl key)) = Inr (clPub cl key)"
    using assms by (simp_all add: library_ok_def PubKeyFromBytes_def)
  let ?p = "SigningPayload ?tx"
  have "txSignature ?tx = Some \<lparr>tsR = big_bytes (sigR (Sign cl key ?p)),
      tsS = big_bytes (sigS (Sign cl key ?p)), tsV = 27 + recovery_id (sigS (Sign cl key ?p))\<rparr>"
    and "txFrom ?tx = clSerialize cl (clPub cl key)"
    by (simp_all add: NewTransaction_def payload_fee Let_def)
  then have "Verify cl ?tx = Done True" and "SenderAddress cl ?tx = Some (Address cl (clPub cl key))"
    using key signature_verifies [OF assms, of key ?p]
    by (simp_all add: Verify_def SenderAddress_def signature_eta)
  moreover have "txHash ?tx = ComputeHash cl ?tx"
    by (simp add: NewTransaction_def ComputeHash_def payload_fee Let_def)
  ultimately show ?thesis by (simp add: Let_def)
qed

text \<open>A library that meets the documented laws: one-byte keys, and the signature (1, 1).\<close>

definition toy_lib :: "(byte, byte) crypto_lib" where
  "toy_lib = \<lparr>clSha256 = toy_hash, clKeccak = toy_hash,
     clParsePubKey = (\<lambda>bs. if length bs = 65 then Some (last bs) else None),
     clSerialize = (\<lambda>k. replicate 64 4 @ [k]), clPub = id, clOrder = 256 ^ 32 - 1,
     clSign = (\<lambda>_ _. (1, 1)), clVerify = (\<lambda>r s h k. r = be 32 1),
     clRecover = (\<lambda>_ _. Some 0)\<rparr>"

lemma toy_lib_ok: "library_ok toy_lib"
  by (simp add: library_ok_def toy_lib_def)

theorem new_transaction_verifies_witness:
  "Verify toy_lib (NewTransaction toy_lib 1 (be 20 9) 5 21000 10 [7] 1337 3) = Done True"
  using new_transaction_verifies [OF toy_lib_ok, of 1 "be 20 9" 5 21000 10 "[7]" 1337 3]
  by (simp add: Let_def)

definition sample_tx :: transaction where
  "sample_tx = \<lparr>txHash = [1], txNonce = 0, txFrom = be 20 5, txTo = be 20 6, txValue = 100,
     txGasLimit = 21000, txGasPrice = 10, txFeeCurrency = [], txData = [],
     txSignature = Some \<lparr>tsR = [], tsS = [], tsV = 0\<rparr>, txChainID = 0, txVerified = True\<rparr>"

text \<open>
  A transaction whose sender field is a 20-byte address passes
  verification exactly when a signature is present (with any content) and its Verified flag is
  set; the flag is a field of the decoded message, so anybody can spend from any address.
\<close>

theorem verified_flag_is_trusted:
  assumes "length (txFrom tx) = 20"
  shows "(Verify cl tx = Done True \<longleftrightarrow> txSignature tx \<noteq> None \<and> txVerified tx)
    \<and> SenderAddress cl tx = Some (txFrom tx)"
  using assms by (auto simp: Verify_def SenderAddress_def split: option.splits)

theorem verified_flag_is_trusted_witness:
  "Verify toy_lib sample_tx = Done True \<and> SenderAddress toy_lib sample_tx = Some (be 20 5)"
  using verified_flag_is_trusted [of sample_tx toy_lib] by (simp add: sample_tx_def)

definition signed_tx :: transaction where
  "signed_tx = NewTransaction toy_lib 1 (be 20 9) 5 21000 10 (7 # be 20 8) 1337 3"

theorem payload_malleable_witness:
  "FeeToken (signed_tx\<lparr>txData := [7], txFeeCurrency := be 20 8\<rparr>) = Some (be 20 8)
    \<and> Verify toy_lib (signed_tx\<lparr>txData := [7], txFeeCurrency := be 20 8\<rparr>) = Done True"
proof -
  have "Verify toy_lib signed_tx = Done True"
    using new_transaction_verifies [OF toy_lib_ok, of 1 "be 20 9" 5 21000 10 "7 # be 20 8" 1337 3]
    by (simp add: signed_tx_def Let_def)
  moreover have "unbe (be 20 8) = 8" "unbe (replicate 20 0) = 0"
    using unbe_replicate_0 [of 20 "[]"] by simp_all
  then have "be 20 8 \<noteq> replicate 20 0" by (metis zero_neq_numeral)
  moreover have "txData signed_tx = [7] @ be 20 8" "txFeeCurrency signed_tx = []"
      "length (txFrom signed_tx) = 65"
    by (simp_all add: signed_tx_def NewTransaction_def toy_lib_def Let_def)
  ultimately show ?thesis
    using payload_malleable [of signed_tx "[7]" "be 20 8" toy_lib] by (simp add: Let_def)
qed

text \<open>A signature number of more than 32 bytes panics instead of being refused.\<close>

lemma long_signature_panics:
  assumes "length (txFrom tx) = 65" and "PubKeyFromBytes cl (txFrom tx) = Inr pub"
    and "txSignature tx = Some ts" and "256 ^ 32 \<le> unbe (tsR ts)"
  shows "Verify cl tx = Panics"
  using assms by (simp add: Verify_def pub_Verify_def VerifyHash_panics)

end
