(* ===== verification/Blocks.thy ===== *)
theory Blocks
  imports Transactions
begin

text \<open>
  Blocks (\<open>ledger/block.go\<close>, the types in \<open>ledger/types.go\<close>): signing payload, hash,
  verification, construction and the root of the transactions. A timestamp is a number of
  nanoseconds since the epoch, the wall clock of a verification an argument of it. A block decoded
  from foreign bytes may lack its header, so the header is an option; where the code dereferences
  it without a test, \<open>None\<close> panics.
\<close>

record block_header =
  bhVersion :: byte
  bhHeight :: u64
  bhPrevHash :: bytes
  bhTxsHash :: bytes
  bhStateRoot :: bytes
  bhReceiptsRoot :: bytes
  bhTimestamp :: int
  bhProposer :: bytes
  bhSignature :: bytes
  bhNonce :: u64

record ledger_block =
  lbHeader :: "block_header option"
  lbTransactions :: "transaction list"
  lbConsensusHash :: bytes

definition Version1 :: byte where "Version1 = 1"

definition an_hour :: int where "an_hour = 3600 * 10 ^ 9"

text \<open>The instant of Go's zero \<open>time.Time\<close>, January 1 of year 1.\<close>

definition zero_time :: int where "zero_time = - 62135596800 * 10 ^ 9"

definition ComputeTransactionsHash :: "('s, 'k) crypto_lib \<Rightarrow> transaction list \<Rightarrow> bytes" where
  "ComputeTransactionsHash cl txs =
     (if length txs = 0 then clSha256 cl []
      else case mtRootHash (NewMerkleTree (clSha256 cl) (map txHash txs)) of
             None \<Rightarrow> [] | Some root \<Rightarrow> root)"

definition header_payload :: "block_header \<Rightarrow> bytes" where
  "header_payload h = bhVersion h # be_u64 (bhHeight h) @ bhPrevHash h @ bhTxsHash h
     @ be_u64 (word_of_int (bhTimestamp h div 10 ^ 9)) @ bhProposer h"

definition block_SigningPayload :: "ledger_block \<Rightarrow> bytes outcome" where
  "block_SigningPayload b = (case lbHeader b of None \<Rightarrow> Panics | Some h \<Rightarrow> Done (header_payload h))"

definition block_Hash :: "('s, 'k) crypto_lib \<Rightarrow> ledger_block \<Rightarrow> bytes outcome" where
  "block_Hash cl b = (if 0 < length (lbConsensusHash b) then Done (lbConsensusHash b)
     else bind_outcome (block_SigningPayload b) (\<lambda>p. Done (DoubleSHA256 cl p)))"

text \<open>The loop over the transactions: it stops at the first one that does not verify.\<close>

fun all_verify :: "('s, 'k) crypto_lib \<Rightarrow> transaction list \<Rightarrow> bool outcome" where
  "all_verify cl [] = Done True"
| "all_verify cl (tx # txs) =
     bind_outcome (Verify cl tx) (\<lambda>ok. if ok then all_verify cl txs else Done False)"

definition block_Verify :: "('s, 'k) crypto_lib \<Rightarrow> int \<Rightarrow> ledger_block \<Rightarrow> bool outcome" where
  "block_Verify cl now b = (case lbHeader b of
       None \<Rightarrow> Done False
     | Some h \<Rightarrow>
         (if length (bhPrevHash h) = 0 \<and> 0 < bhHeight h then Done False
          else if now - bhTimestamp h < - an_hour then Done False
          else if 0 < bhHeight h \<and> length (bhSignature h) \<noteq> 64 then Done False
          else bind_outcome (all_verify cl (lbTransactions b)) (\<lambda>ok.
            if \<not> ok then Done False
            else Done (ComputeTransactionsHash cl (lbTransactions b) = bhTxsHash h))))"

definition VerifyWithProposer ::
    "('s, 'k) crypto_lib \<Rightarrow> int \<Rightarrow> ledger_block \<Rightarrow> bytes \<Rightarrow> bool outcome" where
  "VerifyWithProposer cl now b pubKey =
     bind_outcome (block_Verify cl now b) (\<lambda>ok.
       if \<not> ok then Done False
       else if length pubKey = 0 then Done False
       else case lbHeader b of
              None \<Rightarrow> Panics
            | Some h \<Rightarrow> (case PubKeyFromBytes cl pubKey of
                  Inl _ \<Rightarrow> Done False
                | Inr pub \<Rightarrow> VerifyMessage cl pub (header_payload h) (bhSignature h)))"

definition NewBlock :: "('s, 'k) crypto_lib \<Rightarrow> int \<Rightarrow> u64 \<Rightarrow> bytes \<Rightarrow> transaction list \<Rightarrow> bytes
    \<Rightarrow> 's \<Rightarrow> ledger_block outcome" where
  "NewBlock cl now height prevHash txs proposer key =
     (let h = \<lparr>bhVersion = Version1, bhHeight = height, bhPrevHash = prevHash,
                bhTxsHash = ComputeTransactionsHash cl txs, bhStateRoot = [], bhReceiptsRoot = [],
                bhTimestamp = now, bhProposer = proposer, bhSignature = [], bhNonce = 0\<rparr>
      in bind_outcome (sig_Bytes (Sign cl key (header_payload h))) (\<lambda>sig.
           Done \<lparr>lbHeader = Some (h\<lparr>bhSignature := sig\<rparr>), lbTransactions = txs,
                 lbConsensusHash = []\<rparr>))"

subsection \<open>Blocks that verify\<close>

lemma all_verify_iff:
  "all_verify cl txs = Done True \<longleftrightarrow> (\<forall>tx \<in> set txs. Verify cl tx = Done True)"
proof (induction txs)
  case Nil
  then show ?case by simp
next
  case (Cons tx txs)
  then show ?case by (cases "Verify cl tx") auto
qed

lemma block_verified_iff:
  "block_Verify cl now b = Done True \<longleftrightarrow> (\<exists>h. lbHeader b = Some h
     \<and> (bhPrevHash h \<noteq> [] \<or> bhHeight h = 0) \<and> bhTimestamp h \<le> now + an_hour
     \<and> (bhHeight h = 0 \<or> length (bhSignature h) = 64)
     \<and> (\<forall>tx \<in> set (lbTransactions b). Verify cl tx = Done True)
     \<and> ComputeTransactionsHash cl (lbTransactions b) = bhTxsHash h)"
proof (cases "lbHeader b")
  case None
  then show ?thesis by (simp add: block_Verify_def)
next
  case (Some h)
  show ?thesis
    using all_verify_iff [of cl "lbTransactions b"] Some
    by (cases "all_verify cl (lbTransactions b)")
      (auto simp: block_Verify_def word_gt_0 not_less split: if_splits)
qed

lemma signature_fits:
  assumes "library_ok cl"
  shows "sigR (Sign cl key data) < 256 ^ 32" and "sigS (Sign cl key data) < 256 ^ 32"
proof -
  obtain r s where rs: "clSign cl key (clKeccak cl data) = (r, s)" by fastforce
  have "fst (clSign cl key (clKeccak cl data)) < clOrder cl"
    "snd (clSign cl key (clKeccak cl data)) < clOrder cl" and n: "clOrder cl < 256 ^ 32"
    using assms unfolding library_ok_def by blast+
  then have "r < clOrder cl" "s < clOrder cl" using rs by simp_all
  then have "r < 256 ^ 32" "s < 256 ^ 32" "clOrder cl - s < 256 ^ 32" using n by linarith+
  then show "sigR (Sign cl key data) < 256 ^ 32" "sigS (Sign cl key data) < 256 ^ 32"
    by (simp_all add: Sign_def SignHash_def rs)
qed

text \<open>
  A block that \<open>NewBlock\<close> builds from transactions that verify, on a parent
  and above height 0, is built without a panic, verifies, verifies with the proposer's key, and
  keeps the parent, the height and the transactions it was given.
\<close>

theorem new_block_verifies:
  assumes "library_ok cl" and "\<forall>tx \<in> set txs. Verify cl tx = Done True" and "prevHash \<noteq> []"
  shows "\<exists>b h. NewBlock cl now height prevHash txs proposer key = Done b
    \<and> block_Verify cl now b = Done True
    \<and> VerifyWithProposer cl now b (clSerialize cl (clPub cl key)) = Done True
    \<and> lbHeader b = Some h \<and> bhHeight h = height \<and> bhPrevHash h = prevHash
    \<and> lbTransactions b = txs"
proof -
  define h where "h = \<lparr>bhVersion = Version1, bhHeight = height, bhPrevHash = prevHash,
    bhTxsHash = ComputeTransactionsHash cl txs, bhStateRoot = [], bhReceiptsRoot = [],
    bhTimestamp = now, bhProposer = proposer, bhSignature = [], bhNonce = 0\<rparr>"
  let ?p = "header_payload h"
  note fits = signature_fits [OF assms(1), of key ?p]
  obtain sig where sig: "sig_Bytes (Sign cl key ?p) = Done sig"
      "VerifyMessage cl (clPub cl key) ?p sig = pub_Verify cl (clPub cl key) ?p (Sign cl key ?p)"
    using VerifyMessage_Bytes [OF fits, where cl = cl and pub = "clPub cl key" and data = ?p] by blast
  have len: "length sig = 64" using sig_Bytes_fits [OF fits] sig(1) by simp
  let ?b = "\<lparr>lbHeader = Some (h\<lparr>bhSignature := sig\<rparr>), lbTransactions = txs, lbConsensusHash = []\<rparr>"
  have new: "NewBlock cl now height prevHash txs proposer key = Done ?b"
    using sig(1) by (simp add: NewBlock_def h_def Let_def)
  have ver: "block_Verify cl now ?b = Done True"
    using assms(2,3) len by (simp add: block_verified_iff h_def an_hour_def)
  have key: "clSerialize cl (clPub cl key) \<noteq> []"
    "PubKeyFromBytes cl (clSerialize cl (clPub cl key)) = Inr (clPub cl key)"
    using assms(1) by (auto simp: library_ok_def PubKeyFromBytes_def simp del: length_0_conv
        dest!: spec [of _ "clPub cl key"])
  have "header_payload (h\<lparr>bhSignature := sig\<rparr>) = ?p" by (simp add: header_payload_def)
  then have "VerifyWithProposer cl now ?b (clSerialize cl (clPub cl key)) = Done True"
    using ver key sig(2) signature_verifies [OF assms(1), of key ?p]
    by (simp add: VerifyWithProposer_def)
  with new ver show ?thesis by (auto simp: h_def)
qed

theorem new_block_verifies_witness:
  "\<exists>b. NewBlock toy_lib 5 1 [7] [sample_tx] [9] 3 = Done b \<and> block_Verify toy_lib 5 b = Done True"
proof -
  have "Verify toy_lib sample_tx = Done True" by (simp add: Verify_def sample_tx_def)
  then show ?thesis using new_block_verifies [OF toy_lib_ok, of "[sample_tx]" "[7]" 5 1 "[9]" 3] by auto
qed

subsection \<open>What a verified block leaves open\<close>

text \<open>
  Verification does not look at the consensus hash, the state root, the
  receipts root, the nonce or the content of a signature; a non-empty consensus hash is answered as
  the block's hash. So any verified block can be turned into one that verifies under any chosen
  hash, with any state root and any 64 bytes as signature.
\<close>

theorem block_hash_forgeable:
  assumes "block_Verify cl now b = Done True" and "lbHeader b = Some h"
    and "length sig = 64" and "chosen \<noteq> []"
  shows "let b' = b\<lparr>lbHeader := Some (h\<lparr>bhStateRoot := root, bhReceiptsRoot := receipts,
                       bhNonce := nonce, bhSignature := sig\<rparr>), lbConsensusHash := chosen\<rparr>
    in block_Verify cl now b' = Done True \<and> block_Hash cl b' = Done chosen
      \<and> block_SigningPayload b' = block_SigningPayload b"
  using assms
  by (auto simp: Let_def block_verified_iff block_Hash_def block_SigningPayload_def
      header_payload_def)

definition sample_header :: block_header where
  "sample_header = \<lparr>bhVersion = 1, bhHeight = 1, bhPrevHash = [7],
     bhTxsHash = ComputeTransactionsHash toy_lib [sample_tx], bhStateRoot = [], bhReceiptsRoot = [],
     bhTimestamp = 0, bhProposer = [9], bhSignature = replicate 64 0, bhNonce = 0\<rparr>"

definition sample_block :: ledger_block where
  "sample_block = \<lparr>lbHeader = Some sample_header, lbTransactions = [sample_tx],
     lbConsensusHash = []\<rparr>"

lemma sample_block_verifies: "0 \<le> now \<Longrightarrow> block_Verify toy_lib now sample_block = Done True"
  by (simp add: block_verified_iff sample_block_def sample_header_def Verify_def an_hour_def)
    (simp add: sample_tx_def)

theorem block_hash_forgeable_witness:
  "block_Hash toy_lib (sample_block\<lparr>lbHeader := Some (sample_header\<lparr>bhStateRoot := [6],
       bhReceiptsRoot := [5], bhNonce := 4, bhSignature := replicate 64 1\<rparr>),
     lbConsensusHash := [1, 2, 3]\<rparr>) = Done [1, 2, 3]"
  using block_hash_forgeable [OF sample_block_verifies [of 0], of sample_header "replicate 64 1"
      "[1, 2, 3]", where root = "[6]" and receipts = "[5]" and nonce = 4]
  by (simp add: sample_block_def Let_def)

text \<open>
  The root of an odd number of transactions (more than one) does not change
  when the last one is repeated, so the block with its last transaction twice verifies as well, under
  the same hash.
\<close>

theorem block_tail_duplicated:
  assumes "block_Verify cl now b = Done True" and "1 < length (lbTransactions b)"
    and "odd (length (lbTransactions b))"
  shows "let b' = b\<lparr>lbTransactions := lbTransactions b @ [last (lbTransactions b)]\<rparr>
    in block_Verify cl now b' = Done True \<and> block_Hash cl b' = block_Hash cl b
      \<and> length (lbTransactions b') = Suc (length (lbTransactions b))"
proof -
  let ?txs = "lbTransactions b"
  have ne: "?txs \<noteq> []" using assms(2) by auto
  then have last: "last (map txHash ?txs) = txHash (last ?txs)" by (simp add: last_map)
  have "ComputeTransactionsHash cl (?txs @ [last ?txs]) = ComputeTransactionsHash cl ?txs"
    using merkle_root_repeats_last [of "map txHash ?txs" "clSha256 cl"] assms(2,3) ne
    by (simp add: ComputeTransactionsHash_def last)
  then show ?thesis
    using assms(1) ne by (auto simp: Let_def block_verified_iff block_Hash_def block_SigningPayload_def)
qed

theorem block_tail_duplicated_witness:
  "block_Verify toy_lib 0 (sample_block\<lparr>lbHeader := Some (sample_header\<lparr>bhTxsHash :=
       ComputeTransactionsHash toy_lib [sample_tx, sample_tx, sample_tx]\<rparr>),
     lbTransactions := [sample_tx, sample_tx, sample_tx, sample_tx]\<rparr>) = Done True"
proof -
  let ?b = "sample_block\<lparr>lbHeader := Some (sample_header\<lparr>bhTxsHash :=
       ComputeTransactionsHash toy_lib [sample_tx, sample_tx, sample_tx]\<rparr>),
     lbTransactions := [sample_tx, sample_tx, sample_tx]\<rparr>"
  have "Verify toy_lib sample_tx = Done True" by (simp add: Verify_def sample_tx_def)
  then have "block_Verify toy_lib 0 ?b = Done True"
    by (simp add: block_verified_iff sample_header_def an_hour_def)
  from block_tail_duplicated [OF this] show ?thesis by (simp add: sample_block_def Let_def)
qed

end
