(* ===== verification/LRU.thy ===== *)
theory LRU
  imports Prelude
begin

text \<open>
  The bounded cache that both block stores build from a map and a slice of its keys, least recently
  used first (\<open>cacheBlock\<close> and \<open>touchIndex\<close> of \<open>ledger/chain.go\<close>, \<open>cacheBlock\<close> and
  \<open>touchCache\<close> of \<open>ledger/persistent_chain.go\<close>).
\<close>

text \<open>The first occurrence of the key moves to the end, unless it is there already.\<close>

definition touch :: "'k \<Rightarrow> 'k list \<Rightarrow> 'k list" where
  "touch k order = (if length order = 0 then order
     else if k \<notin> set order then order
     else let idx = length (takeWhile (\<lambda>h. h \<noteq> k) order)
       in if idx = length order - 1 then order
          else take idx order @ drop (idx + 1) order @ [k])"

definition lru_put :: "int \<Rightarrow> 'k \<Rightarrow> 'v \<Rightarrow> ('k, 'v) gomap \<Rightarrow> 'k list \<Rightarrow> ('k, 'v) gomap \<times> 'k list" where
  "lru_put cap k v m order =
     (if goget m k \<noteq> None then (goput k v m, touch k order)
      else let m1 = goput k v m; order1 = order @ [k]
        in if 0 < cap \<and> cap < int (length order1) then (godel (hd order1) m1, tl order1)
           else (m1, order1))"

definition lru_ok :: "int \<Rightarrow> ('k, 'v) gomap \<Rightarrow> 'k list \<Rightarrow> bool" where
  "lru_ok cap m order \<longleftrightarrow> gomap_wf m \<and> distinct order \<and> set order = fst ` set m
     \<and> (0 < cap \<longrightarrow> int (length order) \<le> cap)"

lemma split_at_key:
  assumes "k \<in> set order"
  obtains xs ys where "order = xs @ k # ys" and "k \<notin> set xs"
    and "takeWhile (\<lambda>h. h \<noteq> k) order = xs"
proof -
  obtain xs ys where xs: "order = xs @ k # ys" "k \<notin> set xs" using assms by (meson split_list_first)
  then have "takeWhile (\<lambda>h. h \<noteq> k) order = xs" by (auto simp: takeWhile_append intro!: takeWhile_eq_all_conv [THEN iffD2])
  with xs show ?thesis by (rule that)
qed

lemma touch_mset: "mset (touch k order) = mset order"
proof (cases "k \<in> set order")
  case True
  then obtain xs ys where xs: "order = xs @ k # ys" "takeWhile (\<lambda>h. h \<noteq> k) order = xs"
    by (rule split_at_key)
  then show ?thesis by (auto simp: touch_def Let_def)
next
  case False
  then show ?thesis by (simp add: touch_def)
qed

lemma touch_set [simp]: "set (touch k order) = set order"
  and touch_distinct [simp]: "distinct (touch k order) = distinct order"
  and touch_length [simp]: "length (touch k order) = length order"
  using touch_mset [of k order]
  by (metis set_mset_mset) (metis mset_eq_imp_distinct_iff touch_mset, metis mset_eq_length touch_mset)

lemma touch_last: "distinct order \<Longrightarrow> k \<in> set order \<Longrightarrow> last (touch k order) = k"
proof -
  assume "distinct order" "k \<in> set order"
  then obtain xs ys where xs: "order = xs @ k # ys" "takeWhile (\<lambda>h. h \<noteq> k) order = xs"
    by (auto elim: split_at_key)
  then show ?thesis by (auto simp: touch_def Let_def)
qed

lemma lru_ok_touch: "lru_ok cap m order \<Longrightarrow> lru_ok cap m (touch k order)"
  by (simp add: lru_ok_def)

lemma lru_ok_put:
  assumes "lru_ok cap m order" and "lru_put cap k v m order = (m', order')"
  shows "lru_ok cap m' order'"
proof (cases "goget m k = None")
  case False
  then have "fst ` set (goput k v m) = fst ` set m"
    by (simp add: map_of_eq_None_iff insert_absorb)
  moreover have "m' = goput k v m" "order' = touch k order"
    using assms(2) False by (simp_all add: lru_put_def)
  ultimately show ?thesis using assms(1) unfolding lru_ok_def by simp
next
  case True
  then have k: "k \<notin> set order" using assms(1) by (auto simp: lru_ok_def map_of_eq_None_iff)
  show ?thesis
  proof (cases "0 < cap \<and> cap < int (length order) + 1")
    case False
    with assms(2) True have m': "m' = goput k v m" "order' = order @ [k]"
      by (auto simp: lru_put_def Let_def)
    have "0 < cap \<longrightarrow> int (length order') \<le> cap" using False m' by auto
    then show ?thesis
      using assms(1) k m' unfolding lru_ok_def by simp
  next
    case full: True
    then obtain a os where order: "order = a # os" by (cases order) auto
    have keys: "fst ` set (godel a m1) = fst ` set m1 - {a}" for m1 :: "('a \<times> 'b) list"
      by (induction m1) auto
    have "m' = godel a (goput k v m)" "order' = os @ [k]"
      using assms(2) True full by (auto simp: lru_put_def Let_def order)
    moreover have "k \<notin> set os" using k by (simp add: order)
    moreover have "insert k (set os) = insert k (fst ` set m) - {a}"
      using assms(1) k by (auto simp: lru_ok_def order)
    ultimately show ?thesis
      using assms(1) k full unfolding lru_ok_def order by (simp add: keys)
  qed
qed

text \<open>A put keeps or forgets what was cached, and what it puts is cached.\<close>

lemma lru_put_get:
  assumes "lru_put cap k v m order = (m', order')" and "goget m' j = Some w"
  shows "(j = k \<and> w = v) \<or> goget m j = Some w"
  using assms by (auto simp: lru_put_def Let_def split: if_splits)

lemma lru_put_new:
  assumes "lru_ok cap m order" and "lru_put cap k v m order = (m', order')"
  shows "goget m' k = Some v"
proof (cases "goget m k = None")
  case True
  then have "k \<notin> set order" using assms(1) by (auto simp: lru_ok_def map_of_eq_None_iff)
  then have "order = [] \<or> hd (order @ [k]) \<noteq> k" by (cases order) auto
  then show ?thesis using assms True by (fastforce simp: lru_put_def Let_def split: if_splits)
next
  case False
  then show ?thesis using assms by (auto simp: lru_put_def Let_def)
qed

end
