(* ===== verification/Mem_Chain.thy ===== *)
theory Mem_Chain
  imports Blocks LRU Contracts
begin

text \<open>
  The in-memory block store (\<open>ledger/chain.go\<close>): the slice of blocks, the bounded index by hash,
  and the operations on them. Every operation holds the lock for its whole body. \<open>GetBlockByHash\<close>
  moves the key in the index order although it only holds the read lock; the model takes it as one
  step.
\<close>

subsection \<open>State and operations\<close>

record mem_chain =
  mcBlocks :: "ledger_block list"
  mcIndex :: "(string, ledger_block) gomap"
  mcIndexOrder :: "string list"
  mcIndexCap :: int

datatype chain_error = ChGenesisExists | ChInvalidHeight u64 u64 | ChInvalidPrevHash
  | ChInvalidBlock | ChHeightNotFound u64 | ChHashNotFound string

definition CreateGenesisBlock :: "('s, 'k) crypto_lib \<Rightarrow> ledger_block" where
  "CreateGenesisBlock cl =
     \<lparr>lbHeader = Some \<lparr>bhVersion = Version1, bhHeight = 0, bhPrevHash = replicate 32 0,
        bhTxsHash = clSha256 cl (bytes_of_str ''genesis''),
        bhStateRoot = clSha256 cl (bytes_of_str ''empty-state''), bhReceiptsRoot = [],
        bhTimestamp = 0, bhProposer = bytes_of_str ''genesis'', bhSignature = [], bhNonce = 2048\<rparr>,
      lbTransactions = [], lbConsensusHash = []\<rparr>"

definition mc_cacheBlock ::
    "('s, 'k) crypto_lib \<Rightarrow> ledger_block \<Rightarrow> mem_chain \<Rightarrow> mem_chain outcome" where
  "mc_cacheBlock cl b s = bind_outcome (block_Hash cl b) (\<lambda>hash.
     let (m, order) = lru_put (mcIndexCap s) (hexEncode hash) b (mcIndex s) (mcIndexOrder s)
     in Done (s\<lparr>mcIndex := m, mcIndexOrder := order\<rparr>))"

definition NewBlockchain :: "('s, 'k) crypto_lib \<Rightarrow> mem_chain outcome" where
  "NewBlockchain cl = mc_cacheBlock cl (CreateGenesisBlock cl)
     \<lparr>mcBlocks = [CreateGenesisBlock cl], mcIndex = [], mcIndexOrder = [], mcIndexCap = 1000\<rparr>"

text \<open>An operation that can fail returns its error and the state; both dereference headers.\<close>

definition mc_AddBlock :: "('s, 'k) crypto_lib \<Rightarrow> int \<Rightarrow> ledger_block \<Rightarrow> mem_chain
    \<Rightarrow> (chain_error option \<times> mem_chain) outcome" where
  "mc_AddBlock cl now b s =
     (if length (mcBlocks s) = 0 then Done (Some ChGenesisExists, s)
      else let latest = last (mcBlocks s)
        in case (lbHeader b, lbHeader latest) of
             (Some h, Some l) \<Rightarrow>
               (if bhHeight h \<noteq> bhHeight l + 1
                then Done (Some (ChInvalidHeight (bhHeight l + 1) (bhHeight h)), s)
                else bind_outcome (block_Hash cl latest) (\<lambda>hash.
                  if bhPrevHash h \<noteq> hash then Done (Some ChInvalidPrevHash, s)
                  else bind_outcome (block_Verify cl now b) (\<lambda>ok.
                    if \<not> ok then Done (Some ChInvalidBlock, s)
                    else bind_outcome (mc_cacheBlock cl b (s\<lparr>mcBlocks := mcBlocks s @ [b]\<rparr>))
                      (\<lambda>s'. Done (None, s')))))
           | _ \<Rightarrow> Panics)"

text \<open>The block that \<open>AddBlockByHash\<close> makes up, in both stores.\<close>

definition block_by_hash :: "('s, 'k) crypto_lib \<Rightarrow> u64 \<Rightarrow> bytes \<Rightarrow> bytes \<Rightarrow> bytes \<Rightarrow> ledger_block"
  where "block_by_hash cl height prevHash blockHash proposer =
     \<lparr>lbHeader = Some \<lparr>bhVersion = Version1, bhHeight = height, bhPrevHash = prevHash,
        bhTxsHash = clSha256 cl [], bhStateRoot = clSha256 cl [], bhReceiptsRoot = [],
        bhTimestamp = zero_time, bhProposer = proposer, bhSignature = [], bhNonce = 0\<rparr>,
      lbTransactions = [], lbConsensusHash = blockHash\<rparr>"

definition mc_AddBlockByHash :: "('s, 'k) crypto_lib \<Rightarrow> u64 \<Rightarrow> bytes \<Rightarrow> bytes \<Rightarrow> bytes \<Rightarrow> mem_chain
    \<Rightarrow> (chain_error option \<times> mem_chain) outcome" where
  "mc_AddBlockByHash cl height prevHash blockHash proposer s =
     (if length (mcBlocks s) = 0 then Done (Some ChGenesisExists, s)
      else let latest = last (mcBlocks s)
        in case lbHeader latest of
             None \<Rightarrow> Panics
           | Some l \<Rightarrow>
               (if height \<noteq> bhHeight l + 1
                then Done (Some (ChInvalidHeight (bhHeight l + 1) height), s)
                else bind_outcome (block_Hash cl latest) (\<lambda>hash.
                  if prevHash \<noteq> hash then Done (Some ChInvalidPrevHash, s)
                  else let b = block_by_hash cl height prevHash blockHash proposer;
                           key = hexEncode blockHash
                    in Done (None, s\<lparr>mcBlocks := mcBlocks s @ [b], mcIndex := goput key b (mcIndex s),
                         mcIndexOrder := mcIndexOrder s @ [key]\<rparr>))))"

definition mc_GetBlock :: "u64 \<Rightarrow> mem_chain \<Rightarrow> chain_error + ledger_block" where
  "mc_GetBlock height s = (if length (mcBlocks s) \<le> unat height then Inl (ChHeightNotFound height)
     else Inr (mcBlocks s ! unat height))"

definition mc_GetBlockByHash :: "string \<Rightarrow> mem_chain \<Rightarrow> (chain_error + ledger_block) \<times> mem_chain" where
  "mc_GetBlockByHash hash s = (case goget (mcIndex s) hash of
       None \<Rightarrow> (Inl (ChHashNotFound hash), s)
     | Some b \<Rightarrow> (Inr b, s\<lparr>mcIndexOrder := touch hash (mcIndexOrder s)\<rparr>))"

definition mc_LatestBlock :: "mem_chain \<Rightarrow> ledger_block option" where
  "mc_LatestBlock s = (if length (mcBlocks s) = 0 then None else Some (last (mcBlocks s)))"

definition mc_Height :: "mem_chain \<Rightarrow> u64 outcome" where
  "mc_Height s = (if length (mcBlocks s) = 0 then Done 0
     else case lbHeader (last (mcBlocks s)) of None \<Rightarrow> Panics | Some h \<Rightarrow> Done (bhHeight h))"

fun validate_pairs :: "('s, 'k) crypto_lib \<Rightarrow> int \<Rightarrow> ledger_block list \<Rightarrow> bool outcome" where
  "validate_pairs cl now (prev # cur # rest) = (case (lbHeader cur, lbHeader prev) of
       (Some h, Some p) \<Rightarrow>
         (if bhHeight h \<noteq> bhHeight p + 1 then Done False
          else bind_outcome (block_Hash cl prev) (\<lambda>hash.
            if bhPrevHash h \<noteq> hash then Done False
            else bind_outcome (block_Verify cl now cur) (\<lambda>ok.
              if \<not> ok then Done False else validate_pairs cl now (cur # rest))))
     | _ \<Rightarrow> Panics)"
| "validate_pairs cl now _ = Done True"

definition mc_Validate :: "('s, 'k) crypto_lib \<Rightarrow> int \<Rightarrow> mem_chain \<Rightarrow> bool outcome" where
  "mc_Validate cl now s = validate_pairs cl now (mcBlocks s)"

datatype chain_op = ChAdd int ledger_block | ChAddByHash u64 bytes bytes bytes | ChGetByHash string

definition after :: "'s \<Rightarrow> ('r \<times> 's) outcome \<Rightarrow> 's" where
  "after s r = (case r of Panics \<Rightarrow> s | Done res \<Rightarrow> snd res)"

fun mc_step :: "('s, 'k) crypto_lib \<Rightarrow> mem_chain \<Rightarrow> chain_op \<Rightarrow> mem_chain" where
  "mc_step cl s (ChAdd now b) = after s (mc_AddBlock cl now b s)"
| "mc_step cl s (ChAddByHash height prevHash blockHash proposer) =
     after s (mc_AddBlockByHash cl height prevHash blockHash proposer s)"
| "mc_step cl s (ChGetByHash hash) = snd (mc_GetBlockByHash hash s)"

subsection \<open>Linked chains\<close>

definition linked :: "('s, 'k) crypto_lib \<Rightarrow> ledger_block \<Rightarrow> ledger_block \<Rightarrow> bool" where
  "linked cl p b \<longleftrightarrow> (\<exists>hp hb. lbHeader p = Some hp \<and> lbHeader b = Some hb
     \<and> bhHeight hb = bhHeight hp + 1 \<and> block_Hash cl p = Done (bhPrevHash hb))"

text \<open>Block \<open>i\<close> of a chain has height \<open>i\<close>; there is room for \<open>n\<close> more.\<close>

definition numbered :: "nat \<Rightarrow> ledger_block list \<Rightarrow> bool" where
  "numbered n bs \<longleftrightarrow> bs \<noteq> [] \<and> length bs + n \<le> 2 ^ 64
     \<and> (\<forall>i < length bs. \<exists>h. lbHeader (bs ! i) = Some h \<and> unat (bhHeight h) = i)"

lemma numbered_last:
  assumes "numbered n bs"
  obtains h where "lbHeader (last bs) = Some h" and "unat (bhHeight h) = length bs - 1"
proof -
  have "bs \<noteq> []" and "\<exists>h. lbHeader (bs ! (length bs - 1)) = Some h \<and> unat (bhHeight h) = length bs - 1"
    using assms by (auto simp: numbered_def)
  then show ?thesis using that by (auto simp: last_conv_nth)
qed

lemma numbered_snoc:
  assumes "numbered (Suc n) bs" and "linked cl (last bs) b"
  shows "numbered n (bs @ [b])"
proof -
  obtain p where p: "lbHeader (last bs) = Some p" "unat (bhHeight p) = length bs - 1"
    by (rule numbered_last [OF assms(1)])
  obtain h where h: "lbHeader b = Some h" "bhHeight h = bhHeight p + 1"
    using assms(2) p(1) by (auto simp: linked_def)
  have len: "length bs + 1 \<le> 2 ^ 64" "0 < length bs" using assms(1) by (auto simp: numbered_def)
  have "unat (bhHeight p + 1) = length bs"
    using p(2) len unat_word_ariths(1) [of "bhHeight p" 1] by simp
  then show ?thesis using assms(1) h by (auto simp: numbered_def nth_append less_Suc_eq)
qed

lemma numbered_mono: "numbered (Suc n) bs \<Longrightarrow> numbered n bs"
  by (simp add: numbered_def)

lemma block_Hash_done: "lbHeader b = Some h \<Longrightarrow> \<exists>hash. block_Hash cl b = Done hash"
  by (simp add: block_Hash_def block_SigningPayload_def)

lemma cache_done:
  assumes "lbHeader b = Some h"
  shows "\<exists>s1. mc_cacheBlock cl b s = Done s1 \<and> mcBlocks s1 = mcBlocks s"
proof -
  obtain hash where hash: "block_Hash cl b = Done hash" using block_Hash_done [OF assms] by blast
  obtain m order where "lru_put (mcIndexCap s) (hexEncode hash) b (mcIndex s) (mcIndexOrder s) = (m, order)"
    by fastforce
  with hash show ?thesis by (simp add: mc_cacheBlock_def)
qed

text \<open>A successful \<open>AddBlock\<close> appends a verified block that is linked to the last one.\<close>

lemma AddBlock_done:
  assumes "mc_AddBlock cl now b s = Done (e, s')"
  shows "(mcBlocks s' = mcBlocks s \<and> e \<noteq> None \<and> s' = s)
    \<or> (e = None \<and> mcBlocks s' = mcBlocks s @ [b] \<and> linked cl (last (mcBlocks s)) b
        \<and> block_Verify cl now b = Done True)"
proof (cases "mcBlocks s = []")
  case True
  then show ?thesis using assms by (auto simp: mc_AddBlock_def)
next
  case False
  then obtain h l where hl: "lbHeader b = Some h" "lbHeader (last (mcBlocks s)) = Some l"
    using assms by (auto simp: mc_AddBlock_def Let_def split: option.splits)
  obtain hash where hash: "block_Hash cl (last (mcBlocks s)) = Done hash"
    using block_Hash_done [OF hl(2)] by blast
  obtain s1 where s1: "mc_cacheBlock cl b (s\<lparr>mcBlocks := mcBlocks s @ [b]\<rparr>) = Done s1"
      "mcBlocks s1 = mcBlocks s @ [b]"
    using cache_done [OF hl(1), of cl "s\<lparr>mcBlocks := mcBlocks s @ [b]\<rparr>"] by auto
  have res: "mc_AddBlock cl now b s = (if bhHeight h \<noteq> bhHeight l + 1
      then Done (Some (ChInvalidHeight (bhHeight l + 1) (bhHeight h)), s)
      else if bhPrevHash h \<noteq> hash then Done (Some ChInvalidPrevHash, s)
      else bind_outcome (block_Verify cl now b)
        (\<lambda>ok. if \<not> ok then Done (Some ChInvalidBlock, s) else Done (None, s1)))"
    using False hl hash s1(1) by (simp add: mc_AddBlock_def Let_def cong: if_cong)
  show ?thesis
  proof (cases "block_Verify cl now b")
    case (Done ok)
    then show ?thesis
      using assms hl hash s1(2) unfolding res linked_def by (auto split: if_split_asm)
  next
    case Panics
    then show ?thesis using assms unfolding res by (auto split: if_split_asm)
  qed
qed

lemma AddByHash_done:
  assumes "mc_AddBlockByHash cl height prev hash proposer s = Done (e, s')"
  shows "(e \<noteq> None \<and> s' = s)
    \<or> (e = None \<and> mcBlocks s' = mcBlocks s @ [block_by_hash cl height prev hash proposer]
        \<and> linked cl (last (mcBlocks s)) (block_by_hash cl height prev hash proposer))"
proof (cases "mcBlocks s = []")
  case True
  then show ?thesis using assms by (auto simp: mc_AddBlockByHash_def)
next
  case False
  then obtain l where l: "lbHeader (last (mcBlocks s)) = Some l"
    using assms by (auto simp: mc_AddBlockByHash_def Let_def split: option.splits)
  obtain h where h: "block_Hash cl (last (mcBlocks s)) = Done h"
    using block_Hash_done [OF l] by blast
  show ?thesis
    using assms False l h
    by (auto simp: mc_AddBlockByHash_def linked_def block_by_hash_def Let_def split: if_splits)
qed

lemma mc_step_cases:
  obtains (same) "mcBlocks (mc_step cl s e) = mcBlocks s"
    | (appended) b where "mcBlocks (mc_step cl s e) = mcBlocks s @ [b]" "linked cl (last (mcBlocks s)) b"
proof (cases e)
  case (ChAdd now b)
  show ?thesis
  proof (cases "mc_AddBlock cl now b s")
    case (Done r)
    then show ?thesis using AddBlock_done [of cl now b s "fst r" "snd r"] ChAdd that
      by (auto simp: after_def)
  next
    case Panics
    then show ?thesis using ChAdd that by (simp add: after_def)
  qed
next
  case (ChAddByHash height prev hash proposer)
  show ?thesis
  proof (cases "mc_AddBlockByHash cl height prev hash proposer s")
    case (Done r)
    then show ?thesis
      using AddByHash_done [of cl height prev hash proposer s "fst r" "snd r"] ChAddByHash that
      by (auto simp: after_def)
  next
    case Panics
    then show ?thesis using ChAddByHash that by (simp add: after_def)
  qed
next
  case (ChGetByHash hash)
  then show ?thesis using that by (simp add: mc_GetBlockByHash_def split: option.splits)
qed

interpretation memc: append_chain "mc_step cl" "\<lambda>n s. numbered n (mcBlocks s)"
  "mcBlocks :: mem_chain \<Rightarrow> _" "linked cl" for cl
proof unfold_locales
  fix n e and s :: mem_chain
  show "numbered n (mcBlocks s) \<Longrightarrow> mcBlocks s \<noteq> []" by (simp add: numbered_def)
  show "mcBlocks (mc_step cl s e) = mcBlocks s
      \<or> (\<exists>b. mcBlocks (mc_step cl s e) = mcBlocks s @ [b] \<and> linked cl (last (mcBlocks s)) b)"
    by (cases rule: mc_step_cases [of cl s e]) auto
  assume "numbered (Suc n) (mcBlocks s)"
  then show "numbered n (mcBlocks (mc_step cl s e))"
    by (cases rule: mc_step_cases [of cl s e]) (auto intro: numbered_snoc numbered_mono)
qed

subsection \<open>Validation\<close>

lemma validate_linked:
  assumes "successively (linked cl) bs"
  shows "validate_pairs cl now bs = Done True \<longleftrightarrow> (\<forall>b \<in> set (tl bs). block_Verify cl now b = Done True)"
  using assms
proof (induction cl now bs rule: validate_pairs.induct)
  case (1 cl now prev cur rest)
  then have link: "linked cl prev cur" and rest: "successively (linked cl) (cur # rest)" by simp_all
  show ?case
  proof (cases "block_Verify cl now cur = Done True")
    case True
    have "validate_pairs cl now (cur # rest) = Done True
        \<longleftrightarrow> (\<forall>b \<in> set rest. block_Verify cl now b = Done True)"
      using link rest True "1.IH" by (auto simp: linked_def)
    with True link show ?thesis by (auto simp: linked_def)
  next
    case False
    with link show ?thesis by (cases "block_Verify cl now cur") (auto simp: linked_def)
  qed
qed auto

lemma verify_later:
  "block_Verify cl now b = Done True \<Longrightarrow> now \<le> later \<Longrightarrow> block_Verify cl later b = Done True"
  by (auto simp: block_verified_iff)

lemma by_hash_not_verified:
  assumes "0 < height"
  shows "block_Verify cl now (block_by_hash cl height prev hash proposer) = Done False"
  using assms by (simp add: block_Verify_def block_by_hash_def zero_time_def an_hour_def)

lemma new_chain:
  assumes "NewBlockchain cl = Done s0"
  shows "mcBlocks s0 = [CreateGenesisBlock cl]" and "n < 2 ^ 64 \<Longrightarrow> numbered n (mcBlocks s0)"
proof -
  have "\<exists>h. lbHeader (CreateGenesisBlock cl) = Some h \<and> unat (bhHeight h) = 0"
    by (simp add: CreateGenesisBlock_def)
  then obtain h where h: "lbHeader (CreateGenesisBlock cl) = Some h" "unat (bhHeight h) = 0" by blast
  let ?s = "\<lparr>mcBlocks = [CreateGenesisBlock cl], mcIndex = [], mcIndexOrder = [], mcIndexCap = 1000\<rparr>"
  obtain s1 where "NewBlockchain cl = Done s1" "mcBlocks s1 = [CreateGenesisBlock cl]"
    using cache_done [OF h(1), of cl ?s] unfolding NewBlockchain_def by auto
  with assms show "mcBlocks s0 = [CreateGenesisBlock cl]" by simp
  then show "n < 2 ^ 64 \<Longrightarrow> numbered n (mcBlocks s0)" using h by (simp add: numbered_def)
qed

text \<open>
  After any sequence of operations on a new in-memory chain, block \<open>i\<close> has
  height \<open>i\<close>, every block names the hash of its predecessor, the chain at any earlier time is a
  prefix, and \<open>Validate\<close> accepts exactly the chains in which every block above the genesis verifies.
\<close>

theorem mem_chain_linked:
  assumes "NewBlockchain cl = Done s0" and "length ops < 2 ^ 64"
  shows "let s = foldl (mc_step cl) s0 ops
    in numbered 0 (mcBlocks s) \<and> successively (linked cl) (mcBlocks s)
      \<and> (\<exists>bs. mcBlocks s = mcBlocks (foldl (mc_step cl) s0 (take n ops)) @ bs)
      \<and> (mc_Validate cl now s = Done True
          \<longleftrightarrow> (\<forall>b \<in> set (tl (mcBlocks s)). block_Verify cl now b = Done True))"
proof -
  let ?mid = "foldl (mc_step cl) s0 (take n ops)"
  have room: "numbered (length ops + 0) (mcBlocks s0)" using new_chain(2) [OF assms(1)] assms(2) by simp
  then have num: "numbered 0 (mcBlocks (foldl (mc_step cl) s0 ops))" by (rule memc.run_room)
  have link: "successively (linked cl) (mcBlocks (foldl (mc_step cl) s0 ops))"
    using memc.run_linked [OF room] new_chain(1) [OF assms(1)] by simp
  have "\<exists>bs. mcBlocks (foldl (mc_step cl) s0 ops) = mcBlocks ?mid @ bs"
    by (rule memc.run_prefix_take [OF room])
  with num link show ?thesis using validate_linked [OF link] by (simp add: mc_Validate_def Let_def)
qed

text \<open>A chain to which a block was added by hash never validates again.\<close>

lemma by_hash_never_validates:
  assumes "mc_AddBlockByHash cl height prev hash proposer s = Done (None, s')"
    and "numbered (Suc n) (mcBlocks s)" and "successively (linked cl) (mcBlocks s)"
  shows "mc_Validate cl now s' \<noteq> Done True"
proof -
  let ?b = "block_by_hash cl height prev hash proposer"
  from AddByHash_done [OF assms(1)] have s': "mcBlocks s' = mcBlocks s @ [?b]"
    and link: "linked cl (last (mcBlocks s)) ?b" by auto
  have num: "numbered n (mcBlocks s')" unfolding s' by (rule numbered_snoc [OF assms(2) link])
  obtain h where "lbHeader (last (mcBlocks s')) = Some h" "unat (bhHeight h) = length (mcBlocks s') - 1"
    by (rule numbered_last [OF num])
  then have "unat height = length (mcBlocks s)" by (auto simp: s' block_by_hash_def)
  moreover have ne: "mcBlocks s \<noteq> []" using assms(2) by (simp add: numbered_def)
  ultimately have "0 < unat height" by simp
  then have "0 < height" by (simp only: unat_gt_0 word_gt_0)
  then have "block_Verify cl now ?b = Done False" by (rule by_hash_not_verified)
  moreover have "?b \<in> set (tl (mcBlocks s'))" using ne by (simp add: s')
  moreover have "successively (linked cl) (mcBlocks s')"
    using assms(3) link ne by (simp add: s' successively_append_iff)
  ultimately show ?thesis using validate_linked [of cl "mcBlocks s'" now]
    by (auto simp: mc_Validate_def)
qed

theorem mem_chain_linked_witness:
  "\<exists>s0. NewBlockchain toy_lib = Done s0 \<and> successively (linked toy_lib)
     (mcBlocks (foldl (mc_step toy_lib) s0 [ChAddByHash 1 [7] [8] [9]]))"
proof -
  have "lbHeader (CreateGenesisBlock toy_lib) \<noteq> None" by (simp add: CreateGenesisBlock_def)
  then obtain h where "lbHeader (CreateGenesisBlock toy_lib) = Some h" by auto
  then obtain s0 where s0: "NewBlockchain toy_lib = Done s0"
    unfolding NewBlockchain_def by (metis cache_done)
  then show ?thesis
    using mem_chain_linked [OF s0, of "[ChAddByHash 1 [7] [8] [9]]" 0 0] by (simp add: Let_def)
qed

end
