(* ===== verification/KV_Store.thy ===== *)
theory KV_Store
  imports Prelude
begin

text \<open>
  The key-value store of the node (\<open>state/db.go\<close>): the in-memory implementation of \<open>KVStore\<close>,
  its batches and its prefix iteration. The interface is the locale \<open>kv_store\<close>; the state layers
  on top rest on its laws. The on-disk implementation only wraps a third-party database; what it
  adds, that a write can fail and then changes nothing, is a flag of the operations that use it.
\<close>

type_synonym store = "(bytes, bytes) gomap"

definition NewMemoryStore :: store where
  "NewMemoryStore = []"

definition kv_Get :: "store \<Rightarrow> bytes \<Rightarrow> bytes option" where
  "kv_Get m key = goget m key"

definition kv_Put :: "bytes \<Rightarrow> bytes \<Rightarrow> store \<Rightarrow> store" where
  "kv_Put key val m = goput key val m"

definition kv_Delete :: "bytes \<Rightarrow> store \<Rightarrow> store" where
  "kv_Delete key m = godel key m"

definition kv_Has :: "store \<Rightarrow> bytes \<Rightarrow> bool" where
  "kv_Has m key \<longleftrightarrow> goget m key \<noteq> None"

definition kv_Close :: "store \<Rightarrow> store" where
  "kv_Close m = []"

subsection \<open>Batches\<close>

text \<open>A batch is the list of its operations, oldest first; \<open>Write\<close> applies them and empties it.\<close>

record batch_op =
  boKey :: bytes
  boValue :: bytes
  boDelete :: bool

definition batch_Put :: "bytes \<Rightarrow> bytes \<Rightarrow> batch_op list \<Rightarrow> batch_op list" where
  "batch_Put key val ops = ops @ [\<lparr>boKey = key, boValue = val, boDelete = False\<rparr>]"

definition batch_Delete :: "bytes \<Rightarrow> batch_op list \<Rightarrow> batch_op list" where
  "batch_Delete key ops = ops @ [\<lparr>boKey = key, boValue = [], boDelete = True\<rparr>]"

definition apply_op :: "store \<Rightarrow> batch_op \<Rightarrow> store" where
  "apply_op m op' = (if boDelete op' then godel (boKey op') m else goput (boKey op') (boValue op') m)"

definition batch_Write :: "batch_op list \<Rightarrow> store \<Rightarrow> batch_op list \<times> store" where
  "batch_Write ops m = ([], foldl apply_op m ops)"

definition batch_Reset :: "batch_op list \<Rightarrow> batch_op list" where
  "batch_Reset ops = []"

subsection \<open>Iteration\<close>

definition keysWithPrefix :: "store \<Rightarrow> bytes \<Rightarrow> bytes list" where
  "keysWithPrefix m p = filter (\<lambda>k. length p \<le> length k \<and> take (length p) k = p) (map fst m)"

record iterator =
  itKeys :: "bytes list"
  itIdx :: int

definition kv_Iterator :: "store \<Rightarrow> bytes \<Rightarrow> iterator" where
  "kv_Iterator m p = \<lparr>itKeys = keysWithPrefix m p, itIdx = - 1\<rparr>"

definition it_Next :: "iterator \<Rightarrow> bool \<times> iterator" where
  "it_Next it = (let it' = it\<lparr>itIdx := itIdx it + 1\<rparr>
     in (itIdx it' < int (length (itKeys it')), it'))"

definition it_Key :: "iterator \<Rightarrow> bytes option" where
  "it_Key it = (if itIdx it < 0 \<or> int (length (itKeys it)) \<le> itIdx it then None
     else Some (itKeys it ! nat (itIdx it)))"

text \<open>The value is read from the store when it is asked for.\<close>

definition it_Value :: "store \<Rightarrow> iterator \<Rightarrow> bytes option" where
  "it_Value m it = (case it_Key it of None \<Rightarrow> None | Some k \<Rightarrow> kv_Get m k)"

subsection \<open>The interface\<close>

text \<open>
  What the layers above rely on: a lookup after a write, a delete or a close, and writes to other
  keys. The lemmas lift the laws to batches.
\<close>

locale kv_store =
  fixes get :: "'m \<Rightarrow> 'k \<Rightarrow> 'v option"
    and put :: "'k \<Rightarrow> 'v \<Rightarrow> 'm \<Rightarrow> 'm"
    and del :: "'k \<Rightarrow> 'm \<Rightarrow> 'm"
    and empty :: 'm
  assumes get_empty: "get empty k = None"
    and get_put: "get (put k v m) j = (if j = k then Some v else get m j)"
    and get_del: "get (del k m) j = (if j = k then None else get m j)"
begin

definition write_all :: "('k \<times> 'v option) list \<Rightarrow> 'm \<Rightarrow> 'm" where
  "write_all ops m = foldl (\<lambda>m (k, v). case v of None \<Rightarrow> del k m | Some x \<Rightarrow> put k x m) m ops"

lemma get_write_all:
  "get (write_all ops m) k = (case map_of (rev ops) k of None \<Rightarrow> get m k | Some v \<Rightarrow> v)"
proof (induction ops rule: rev_induct)
  case Nil
  then show ?case by (simp add: write_all_def)
next
  case (snoc op' ops)
  obtain j v where "op' = (j, v)" by (cases op')
  with snoc show ?case
    by (auto simp: write_all_def get_put get_del split: option.splits)
qed

lemma get_write_other: "k \<notin> fst ` set ops \<Longrightarrow> get (write_all ops m) k = get m k"
  using map_of_eq_None_iff [of "rev ops" k] by (simp add: get_write_all)

lemma get_write_last:
  assumes "ops = xs @ (k, v) # ys" and "k \<notin> fst ` set ys"
  shows "get (write_all ops m) k = v"
proof -
  have "map_of (rev ys) k = None" using assms(2) by (simp add: map_of_eq_None_iff)
  then show ?thesis by (simp add: get_write_all assms(1) map_add_def)
qed

end

interpretation mem: kv_store kv_Get kv_Put kv_Delete NewMemoryStore
  by unfold_locales (simp_all add: kv_Get_def kv_Put_def kv_Delete_def NewMemoryStore_def)

text \<open>The batch of the code as the list of writes of the interface.\<close>

definition op_pair :: "batch_op \<Rightarrow> bytes \<times> bytes option" where
  "op_pair op' = (boKey op', if boDelete op' then None else Some (boValue op'))"

lemma apply_op_pair: "apply_op m op'
    = (case op_pair op' of (k, v) \<Rightarrow> case v of None \<Rightarrow> kv_Delete k m | Some x \<Rightarrow> kv_Put k x m)"
  by (simp add: apply_op_def op_pair_def kv_Put_def kv_Delete_def)

lemma batch_Write_all: "snd (batch_Write ops m) = mem.write_all (map op_pair ops) m"
  by (simp add: batch_Write_def mem.write_all_def apply_op_pair [abs_def] foldl_map)

lemma kv_Get_batch:
  "kv_Get (snd (batch_Write ops m)) k
    = (case map_of (rev (map op_pair ops)) k of None \<Rightarrow> kv_Get m k | Some v \<Rightarrow> v)"
  by (simp add: batch_Write_all mem.get_write_all)

lemma kv_simps [simp]:
  "kv_Get (kv_Put k v m) j = (if j = k then Some v else kv_Get m j)"
  "kv_Get (kv_Delete k m) j = (if j = k then None else kv_Get m j)"
  "kv_Get NewMemoryStore j = None"
  by (simp_all add: mem.get_put mem.get_del mem.get_empty)

text \<open>An iteration visits exactly the keys with the prefix, each once.\<close>

lemma keysWithPrefix_set:
  "set (keysWithPrefix m p) = {k. kv_Has m k \<and> take (length p) k = p}"
proof -
  have "take (length p) k = p \<Longrightarrow> length p \<le> length k" for k
    by (metis length_take min.cobounded1)
  then show ?thesis by (auto simp: keysWithPrefix_def kv_Has_def map_of_eq_None_iff)
qed

lemma keysWithPrefix_distinct: "gomap_wf m \<Longrightarrow> distinct (keysWithPrefix m p)"
  by (simp add: keysWithPrefix_def gomap_wf_def)

end
