(* ===== verification/Tx_Pool.thy ===== *)
theory Tx_Pool
  imports Transactions Contracts Complex_Main
begin

text \<open>
  The transaction pool (\<open>ledger/pool.go\<close>). Every exported method holds the pool's lock for its
  whole body and is one step. \<open>sort.Slice\<close> is not stable, so the two sorts are functions of the
  environment of which only the documented contract is assumed (\<open>env_ok\<close>): the result is a
  permutation of the argument in which no later element comes before an earlier one. The nonce
  that the state manager answers (\<open>None\<close> for no manager or an error) is an argument of \<open>Add\<close>.
  The pressure level is the exact quotient; with a constant divisor and counts below 2^52 two
  \<open>float64\<close> quotients differ exactly when the counts do, which is all the pool compares.
\<close>

subsection \<open>State\<close>

record tx_pool_config =
  pcMaxTransactions :: int
  pcMaxGas :: u64
  pcMinGasPrice :: u64
  pcMaxAccountTxs :: int

definition DefaultTxPoolConfig :: tx_pool_config where
  "DefaultTxPoolConfig = \<lparr>pcMaxTransactions = 10000, pcMaxGas = 30000000, pcMinGasPrice = 1,
     pcMaxAccountTxs = 100\<rparr>"

record tx_pool =
  tpConfig :: tx_pool_config
  tpChainID :: u64
  tpPending :: "(bytes, transaction) gomap"
  tpQueued :: "(bytes, transaction list) gomap"
  tpByGasPrice :: "transaction list"
  tpTxCounter :: int
  tpHasCallback :: bool
  tpLastLevel :: rat
  tpNotified :: "rat list"  \<comment> \<open>the calls of the pressure callback, latest first\<close>

record ('s, 'k) pool_env =
  peLib :: "('s, 'k) crypto_lib"
  peSortPrice :: "transaction list \<Rightarrow> transaction list"
  peSortNonce :: "transaction list \<Rightarrow> transaction list"

datatype pool_error = PoolInvalidSender | ErrDuplicateTx | ErrGasPriceTooLow
  | PoolChainMismatch u64 u64 | ErrAccountTxLimit | ErrNonceTooLow | ErrTxPoolFull

definition NewTxPool :: "tx_pool_config option \<Rightarrow> tx_pool" where
  "NewTxPool config = \<lparr>tpConfig = (case config of None \<Rightarrow> DefaultTxPoolConfig | Some c \<Rightarrow> c),
     tpChainID = 0, tpPending = [], tpQueued = [], tpByGasPrice = [], tpTxCounter = 0,
     tpHasCallback = False, tpLastLevel = 0, tpNotified = []\<rparr>"

subsection \<open>Helpers\<close>

abbreviation sender :: "('s, 'k) pool_env \<Rightarrow> transaction \<Rightarrow> bytes option" where
  "sender env tx \<equiv> SenderAddress (peLib env) tx"

text \<open>A nil sender address compares as the empty string.\<close>

definition sender_key :: "('s, 'k) pool_env \<Rightarrow> transaction \<Rightarrow> bytes" where
  "sender_key env tx = (case sender env tx of None \<Rightarrow> [] | Some a \<Rightarrow> a)"

definition countAccountTxs :: "('s, 'k) pool_env \<Rightarrow> tx_pool \<Rightarrow> bytes \<Rightarrow> nat" where
  "countAccountTxs env p account =
     length (filter (\<lambda>e. sender_key env (snd e) = account) (tpPending p))"

definition countQueued :: "tx_pool \<Rightarrow> nat" where
  "countQueued p = (\<Sum>e\<leftarrow>tpQueued p. length (snd e))"

definition gasUsedLocked :: "tx_pool \<Rightarrow> u64" where
  "gasUsedLocked p = (\<Sum>e\<leftarrow>tpPending p. txGasLimit (snd e))"

definition uniqueAccountsLocked :: "tx_pool \<Rightarrow> nat" where
  "uniqueAccountsLocked p = length (remdups (map (\<lambda>e. txFrom (snd e)) (tpPending p)))"

definition removeLocked :: "bytes \<Rightarrow> tx_pool \<Rightarrow> tx_pool" where
  "removeLocked h p = (if goget (tpPending p) h = None then p
     else p\<lparr>tpPending := godel h (tpPending p),
            tpByGasPrice := remove_first (\<lambda>t. txHash t = h) (tpByGasPrice p)\<rparr>)"

definition level :: "nat \<Rightarrow> int \<Rightarrow> rat" where
  "level n m = of_nat n / of_int m"

definition notifyPressure :: "tx_pool \<Rightarrow> tx_pool" where
  "notifyPressure p = (if \<not> tpHasCallback p then p
     else let maxTx = pcMaxTransactions (tpConfig p);
              lvl = (if 0 < maxTx then level (length (tpPending p)) maxTx else 0)
       in if lvl \<noteq> tpLastLevel p
          then p\<lparr>tpLastLevel := lvl, tpNotified := lvl # tpNotified p\<rparr> else p)"

definition rebuildByGasPrice :: "('s, 'k) pool_env \<Rightarrow> tx_pool \<Rightarrow> tx_pool" where
  "rebuildByGasPrice env p = p\<lparr>tpByGasPrice := peSortPrice env (map snd (tpPending p))\<rparr>"

subsection \<open>Adding a transaction\<close>

text \<open>The pending transaction that \<open>tx\<close> may replace: the first one the range finds.\<close>

definition may_replace :: "('s, 'k) pool_env \<Rightarrow> transaction \<Rightarrow> bytes \<Rightarrow> transaction \<Rightarrow> bool" where
  "may_replace env tx senderStr existing \<longleftrightarrow>
     sender env existing \<noteq> None \<and> sender_key env existing = senderStr
     \<and> txNonce existing = txNonce tx
     \<and> txGasPrice existing + txGasPrice existing div 10 < txGasPrice tx"

definition rbf_target :: "('s, 'k) pool_env \<Rightarrow> transaction \<Rightarrow> bytes \<Rightarrow> tx_pool \<Rightarrow> bytes option" where
  "rbf_target env tx senderStr p =
     map_option fst (find (\<lambda>e. may_replace env tx senderStr (snd e)) (tpPending p))"

definition insert_tx :: "('s, 'k) pool_env \<Rightarrow> transaction \<Rightarrow> tx_pool \<Rightarrow> tx_pool" where
  "insert_tx env tx p = notifyPressure (p\<lparr>tpPending := goput (txHash tx) tx (tpPending p),
     tpByGasPrice := peSortPrice env (tpByGasPrice p @ [tx]), tpTxCounter := tpTxCounter p + 1\<rparr>)"

definition Add :: "('s, 'k) pool_env \<Rightarrow> (bytes \<Rightarrow> u64 option) \<Rightarrow> transaction \<Rightarrow> tx_pool
    \<Rightarrow> pool_error + tx_pool" where
  "Add env getNonce tx p = (case sender env tx of
       None \<Rightarrow> Inl PoolInvalidSender
     | Some from \<Rightarrow>
         (if goget (tpPending p) (txHash tx) \<noteq> None then Inl ErrDuplicateTx
          else if txGasPrice tx < pcMinGasPrice (tpConfig p) then Inl ErrGasPriceTooLow
          else if tpChainID p \<noteq> 0 \<and> txChainID tx \<noteq> 0 \<and> txChainID tx \<noteq> tpChainID p
          then Inl (PoolChainMismatch (tpChainID p) (txChainID tx))
          else if pcMaxAccountTxs (tpConfig p) \<le> int (countAccountTxs env p from)
          then Inl ErrAccountTxLimit
          else if (case getNonce from of None \<Rightarrow> False | Some nonce \<Rightarrow> txNonce tx < nonce)
          then Inl ErrNonceTooLow
          else if pcMaxTransactions (tpConfig p) \<le> int (length (tpPending p))
          then (case rbf_target env tx from p of
                  None \<Rightarrow> Inl ErrTxPoolFull
                | Some h \<Rightarrow> Inr (insert_tx env tx (removeLocked h p)))
          else Inr (insert_tx env tx p)))"

subsection \<open>Removal and eviction\<close>

definition Remove :: "bytes \<Rightarrow> tx_pool \<Rightarrow> tx_pool" where
  "Remove h p = removeLocked h p"

definition RemoveConfirmed :: "transaction list \<Rightarrow> tx_pool \<Rightarrow> tx_pool" where
  "RemoveConfirmed txs p = foldl (\<lambda>q tx. removeLocked (txHash tx) q) p txs"

definition Clear :: "tx_pool \<Rightarrow> tx_pool" where
  "Clear p = p\<lparr>tpPending := [], tpQueued := [], tpByGasPrice := []\<rparr>"

text \<open>The loop of \<open>Evict\<close> from the end of the list, with the number removed so far.\<close>

fun evict_loop :: "int \<Rightarrow> transaction list \<Rightarrow> (bytes, transaction) gomap \<Rightarrow> int
    \<Rightarrow> (bytes, transaction) gomap \<times> int" where
  "evict_loop cnt [] pending removed = (pending, removed)"
| "evict_loop cnt (t # ts) pending removed =
     (if removed < cnt
      then if goget pending (txHash t) \<noteq> None
           then evict_loop cnt ts (godel (txHash t) pending) (removed + 1)
           else evict_loop cnt ts pending removed
      else (pending, removed))"

definition Evict :: "('s, 'k) pool_env \<Rightarrow> int \<Rightarrow> tx_pool \<Rightarrow> tx_pool \<times> int" where
  "Evict env cnt p =
     (let (pending, removed) = evict_loop cnt (rev (tpByGasPrice p)) (tpPending p) 0
      in (notifyPressure (rebuildByGasPrice env (p\<lparr>tpPending := pending\<rparr>)), removed))"

definition SetPressureCallback :: "tx_pool \<Rightarrow> tx_pool" where
  "SetPressureCallback p = p\<lparr>tpHasCallback := True\<rparr>"

subsection \<open>Queries\<close>

definition GetPending :: "('s, 'k) pool_env \<Rightarrow> tx_pool \<Rightarrow> transaction list" where
  "GetPending env p = peSortPrice env (map snd (tpPending p))"

definition GetPendingByAccount :: "('s, 'k) pool_env \<Rightarrow> tx_pool \<Rightarrow> bytes \<Rightarrow> transaction list" where
  "GetPendingByAccount env p account = peSortNonce env
     (filter (\<lambda>tx. sender_key env tx = account) (map snd (tpPending p)))"

definition pool_Size :: "tx_pool \<Rightarrow> nat" where
  "pool_Size p = length (tpPending p)"

definition GasUsed :: "tx_pool \<Rightarrow> u64" where
  "GasUsed p = (\<Sum>e\<leftarrow>tpPending p. txGasLimit (snd e))"

definition Has :: "tx_pool \<Rightarrow> bytes \<Rightarrow> bool" where
  "Has p h \<longleftrightarrow> goget (tpPending p) h \<noteq> None"

record tx_pool_stats =
  psPendingCount :: nat
  psQueuedCount :: nat
  psTotalGas :: u64
  psUniqueAccounts :: nat
  psTotalProcessed :: int

definition Stats :: "tx_pool \<Rightarrow> tx_pool_stats" where
  "Stats p = \<lparr>psPendingCount = length (tpPending p), psQueuedCount = countQueued p,
     psTotalGas = gasUsedLocked p, psUniqueAccounts = uniqueAccountsLocked p,
     psTotalProcessed = tpTxCounter p\<rparr>"

definition PressureLevel :: "tx_pool \<Rightarrow> rat" where
  "PressureLevel p = (if pcMaxTransactions (tpConfig p) = 0 then 0
     else level (length (tpPending p)) (pcMaxTransactions (tpConfig p)))"

datatype pool_op = PoolAdd "bytes \<Rightarrow> u64 option" transaction | PoolRemove bytes
  | PoolRemoveConfirmed "transaction list" | PoolClear | PoolEvict int | PoolSetCallback

fun pool_step :: "('s, 'k) pool_env \<Rightarrow> tx_pool \<Rightarrow> pool_op \<Rightarrow> tx_pool" where
  "pool_step env p (PoolAdd getNonce tx) = (case Add env getNonce tx p of Inl _ \<Rightarrow> p | Inr p' \<Rightarrow> p')"
| "pool_step env p (PoolRemove h) = Remove h p"
| "pool_step env p (PoolRemoveConfirmed txs) = RemoveConfirmed txs p"
| "pool_step env p PoolClear = Clear p"
| "pool_step env p (PoolEvict cnt) = fst (Evict env cnt p)"
| "pool_step env p PoolSetCallback = SetPressureCallback p"

subsection \<open>The sorts\<close>

definition env_ok :: "('s, 'k) pool_env \<Rightarrow> bool" where
  "env_ok env \<longleftrightarrow>
     (\<forall>xs. mset (peSortPrice env xs) = mset xs
        \<and> sorted_wrt (\<lambda>a b. txGasPrice b \<le> txGasPrice a) (peSortPrice env xs))
     \<and> (\<forall>xs. mset (peSortNonce env xs) = mset xs
        \<and> sorted_wrt (\<lambda>a b. txNonce a \<le> txNonce b) (peSortNonce env xs))"

abbreviation by_price :: "transaction list \<Rightarrow> bool" where
  "by_price \<equiv> sorted_wrt (\<lambda>a b. txGasPrice b \<le> txGasPrice a)"

lemma sort_price:
  assumes "env_ok env"
  shows "mset (peSortPrice env xs) = mset xs" and "by_price (peSortPrice env xs)"
  using assms by (simp_all add: env_ok_def)

lemma sorted_wrt_remove_first: "sorted_wrt P xs \<Longrightarrow> sorted_wrt P (remove_first Q xs)"
proof (induction xs)
  case Nil
  then show ?case by simp
next
  case (Cons x xs)
  then show ?case using set_remove_first_subset [of Q xs] by auto
qed

subsection \<open>Invariant\<close>

text \<open>
  Pending transactions are stored under their hashes, the price list holds exactly them in
  descending order of price, and neither the pool's nor an account's limit is exceeded.
\<close>

definition pending_ok :: "(bytes, transaction) gomap \<Rightarrow> bool" where
  "pending_ok m \<longleftrightarrow> gomap_wf m \<and> (\<forall>(h, t) \<in> set m. h = txHash t)"

definition pool_books :: "tx_pool \<Rightarrow> bool" where
  "pool_books p \<longleftrightarrow> pending_ok (tpPending p)
     \<and> mset (tpByGasPrice p) = mset (map snd (tpPending p)) \<and> by_price (tpByGasPrice p)"

definition pool_limits :: "('s, 'k) pool_env \<Rightarrow> tx_pool \<Rightarrow> bool" where
  "pool_limits env p \<longleftrightarrow>
     int (length (tpPending p)) \<le> max 0 (pcMaxTransactions (tpConfig p))
     \<and> (\<forall>a. int (countAccountTxs env p a) \<le> max 0 (pcMaxAccountTxs (tpConfig p)))"

definition pool_inv :: "('s, 'k) pool_env \<Rightarrow> tx_pool \<Rightarrow> bool" where
  "pool_inv env p \<longleftrightarrow> pool_books p \<and> pool_limits env p"

lemma notifyPressure_frame [simp]:
  "tpPending (notifyPressure p) = tpPending p" "tpByGasPrice (notifyPressure p) = tpByGasPrice p"
  "tpConfig (notifyPressure p) = tpConfig p" "tpQueued (notifyPressure p) = tpQueued p"
  "tpTxCounter (notifyPressure p) = tpTxCounter p" "tpChainID (notifyPressure p) = tpChainID p"
  by (simp_all add: notifyPressure_def Let_def)

lemma pool_frame:
  assumes "tpPending p' = tpPending p" and "tpByGasPrice p' = tpByGasPrice p"
    and "tpConfig p' = tpConfig p"
  shows "pool_inv env p' = pool_inv env p"
  using assms by (simp add: pool_inv_def pool_books_def pool_limits_def countAccountTxs_def)

text \<open>Counting entries is a sum over the map, so an update or a removal changes it by one.\<close>

lemma count_put:
  assumes "gomap_wf m" and "goget m h = None"
  shows "length (filter P (goput h t m)) = length (filter P m) + (if P (h, t) then 1 else 0)"
proof -
  have len: "length (filter P xs) = (\<Sum>x\<leftarrow>xs. if P x then 1 else 0)" for xs
    by (induction xs) simp_all
  show ?thesis
    using sum_list_map_goput_nat [OF assms(1), of "\<lambda>x. if P x then 1 else 0" h t] assms(2)
    by (simp add: len)
qed

lemma godel_filter: "godel h m = filter (\<lambda>e. fst e \<noteq> h) m"
  by (induction m) auto

lemma count_del: "length (filter P (godel h m)) \<le> length (filter P m)"
  unfolding godel_filter by (induction m) auto

lemma values_put:
  assumes "goget m h = None"
  shows "image_mset snd (mset (goput h t m)) = add_mset t (image_mset snd (mset m))"
  using assms by (induction m) (auto split: if_splits)

lemma pending_ok_get: "pending_ok m \<Longrightarrow> goget m h = Some t \<Longrightarrow> txHash t = h"
  by (auto simp: pending_ok_def dest!: goget_in_set)

lemma pending_ok_put: "pending_ok m \<Longrightarrow> pending_ok (goput (txHash t) t m)"
  using set_goput_subset [of "txHash t" t m] by (fastforce simp: pending_ok_def)

lemma pending_ok_del: "pending_ok m \<Longrightarrow> pending_ok (godel h m)"
  by (auto simp: pending_ok_def godel_filter gomap_wf_def distinct_map_filter)

lemma values_del:
  assumes "pending_ok m" and "goget m h = Some t"
  shows "mset (map snd (godel h m)) = mset (map snd m) - {#t#}"
proof -
  have wf: "gomap_wf m" using assms(1) by (simp add: pending_ok_def)
  have "mset (map snd (godel h m)) + {#t#} = mset (map snd m)"
    using wf assms(2)
  proof (induction m)
    case Nil
    then show ?case by simp
  next
    case (Cons e m)
    then show ?case
      by (cases e) (auto simp: gomap_wf_def godel_not_in split: if_splits)
  qed
  then show ?thesis by (metis add_diff_cancel_right')
qed

text \<open>The price list loses exactly the transaction that is removed.\<close>

lemma find_by_hash:
  assumes "pending_ok m" and "mset xs = mset (map snd m)" and "goget m h = Some t"
  shows "find (\<lambda>u. txHash u = h) xs = Some t"
proof -
  have set: "set xs = snd ` set m" using assms(2) by (metis list.set_map set_mset_mset)
  have wf: "gomap_wf m" using assms(1) by (simp add: pending_ok_def)
  have "t \<in> set xs" "txHash t = h"
    using set goget_in_set [OF assms(3)] pending_ok_get [OF assms(1,3)] by force+
  then obtain u where u: "find (\<lambda>u. txHash u = h) xs = Some u"
    by (cases "find (\<lambda>u. txHash u = h) xs") (auto simp: find_None_iff)
  then have "u \<in> set xs" "txHash u = h" by (auto dest: find_Some_mem)
  then obtain k where k: "(k, u) \<in> set m" using set by auto
  then have "k = h" using assms(1) \<open>txHash u = h\<close> by (auto simp: pending_ok_def)
  with k have "goget m h = Some u" using goget_iff_in_set [OF wf] by blast
  with u assms(3) show ?thesis by simp
qed

lemma books_remove: "pool_books p \<Longrightarrow> pool_books (removeLocked h p)"
proof (cases "goget (tpPending p) h")
  case None
  then show "pool_books p \<Longrightarrow> ?thesis" by (simp add: removeLocked_def)
next
  case (Some t)
  assume ok: "pool_books p"
  then have pok: "pending_ok (tpPending p)"
    and ms: "mset (tpByGasPrice p) = mset (map snd (tpPending p))" by (simp_all add: pool_books_def)
  have "mset (remove_first (\<lambda>t. txHash t = h) (tpByGasPrice p)) = mset (map snd (godel h (tpPending p)))"
    using find_by_hash [OF pok ms Some] values_del [OF pok Some] ms by (simp add: mset_remove_first)
  then show ?thesis
    using ok Some by (simp add: pool_books_def removeLocked_def pending_ok_del sorted_wrt_remove_first)
qed

lemma removeLocked_frame [simp]: "tpConfig (removeLocked h p) = tpConfig p"
  "tpPending (removeLocked h p) = godel h (tpPending p)"
  by (simp_all add: removeLocked_def godel_not_in map_of_eq_None_iff)

lemma limits_remove: "pool_limits env p \<Longrightarrow> pool_limits env (removeLocked h p)"
proof -
  assume lim: "pool_limits env p"
  have "length (godel h (tpPending p)) \<le> length (tpPending p)"
    using count_del [of "\<lambda>_. True" h "tpPending p"] by simp
  moreover have "countAccountTxs env (removeLocked h p) a \<le> countAccountTxs env p a" for a
    by (simp add: countAccountTxs_def count_del)
  ultimately show ?thesis
    using lim unfolding pool_limits_def removeLocked_frame
    by (meson dual_order.trans of_nat_mono)
qed

lemma inv_remove: "pool_inv env p \<Longrightarrow> pool_inv env (removeLocked h p)"
  by (simp add: pool_inv_def books_remove limits_remove)

lemma books_insert:
  assumes "env_ok env" and "pool_books p" and "goget (tpPending p) (txHash tx) = None"
  shows "pool_books (insert_tx env tx p)"
  using assms by (simp add: pool_books_def insert_tx_def sort_price pending_ok_put values_put)

lemma limits_insert:
  assumes "pool_limits env p" and "gomap_wf (tpPending p)"
    and new: "goget (tpPending p) (txHash tx) = None"
    and "int (length (tpPending p)) < max 0 (pcMaxTransactions (tpConfig p))"
    and "int (countAccountTxs env p (sender_key env tx)) < pcMaxAccountTxs (tpConfig p)"
  shows "pool_limits env (insert_tx env tx p)"
proof -
  have "countAccountTxs env (insert_tx env tx p) a
      = countAccountTxs env p a + (if a = sender_key env tx then 1 else 0)" for a
    using count_put [OF assms(2) new, of "\<lambda>e. sender_key env (snd e) = a"]
    by (auto simp: countAccountTxs_def insert_tx_def)
  moreover have "length (tpPending (insert_tx env tx p)) = Suc (length (tpPending p))"
    using new by (simp add: insert_tx_def length_goput)
  ultimately show ?thesis
    using assms(1,4,5) by (auto simp: pool_limits_def insert_tx_def)
qed

lemma sender_key_Some: "sender env tx = Some a \<Longrightarrow> sender_key env tx = a"
  by (simp add: sender_key_def)

lemma rbf_target_find:
  assumes "rbf_target env tx a p = Some h"
  shows "\<exists>t. (h, t) \<in> set (tpPending p) \<and> may_replace env tx a t"
proof -
  from assms obtain e where e: "find (\<lambda>e. may_replace env tx a (snd e)) (tpPending p) = Some e"
      and "h = fst e"
    by (auto simp: rbf_target_def)
  with find_Some_mem [OF e] show ?thesis by (cases e) auto
qed

text \<open>The outcomes of a successful \<open>Add\<close>: with or without a replacement.\<close>

lemma Add_cases:
  assumes "Add env getNonce tx p = Inr p'"
  obtains (plain) "p' = insert_tx env tx p"
      "int (length (tpPending p)) < pcMaxTransactions (tpConfig p)"
    | (replace) h t where "p' = insert_tx env tx (removeLocked h p)"
      "(h, t) \<in> set (tpPending p)" "may_replace env tx (sender_key env tx) t"
      "pcMaxTransactions (tpConfig p) \<le> int (length (tpPending p))"
  using assms rbf_target_find [of env tx "sender_key env tx" p]
  by (auto simp: Add_def sender_key_Some not_le split: option.splits if_splits)

lemma Add_guards:
  assumes "Add env getNonce tx p = Inr p'"
  shows "goget (tpPending p) (txHash tx) = None" and "sender env tx \<noteq> None"
    and "int (countAccountTxs env p (sender_key env tx)) < pcMaxAccountTxs (tpConfig p)"
    and "pcMinGasPrice (tpConfig p) \<le> txGasPrice tx"
    and "\<And>n. getNonce (sender_key env tx) = Some n \<Longrightarrow> n \<le> txNonce tx"
  using assms by (auto simp: Add_def sender_key_Some not_le not_less split: option.splits if_splits)

lemma length_del_Suc:
  "gomap_wf m \<Longrightarrow> (h, t) \<in> set m \<Longrightarrow> Suc (length (godel h m)) = length m"
  by (rule length_godel) (simp_all add: goget_iff_in_set)

lemma inv_add:
  assumes "env_ok env" and "pool_inv env p" and "Add env getNonce tx p = Inr p'"
  shows "pool_inv env p'"
proof -
  have wf: "gomap_wf (tpPending p)"
    using assms(2) by (simp add: pool_inv_def pool_books_def pending_ok_def)
  from assms(3) show ?thesis
proof (cases rule: Add_cases)
  case plain
  then show ?thesis
    using Add_guards(1,3) [OF assms(3)] assms(2) wf
    by (simp add: pool_inv_def books_insert [OF assms(1)] limits_insert)
next
  case (replace h t)
  let ?q = "removeLocked h p"
  have inv: "pool_inv env ?q" by (rule inv_remove [OF assms(2)])
  have "Suc (length (tpPending ?q)) = length (tpPending p)"
    using length_del_Suc [OF wf replace(2)] by simp
  moreover have "int (length (tpPending p)) \<le> max 0 (pcMaxTransactions (tpConfig p))"
    using assms(2) by (simp add: pool_inv_def pool_limits_def)
  ultimately have "int (length (tpPending ?q)) < max 0 (pcMaxTransactions (tpConfig ?q))"
    by simp
  moreover have "goget (tpPending ?q) (txHash tx) = None" using Add_guards(1) [OF assms(3)] by simp
  moreover have "countAccountTxs env ?q (sender_key env tx) \<le> countAccountTxs env p (sender_key env tx)"
    by (simp add: countAccountTxs_def count_del)
  then have "int (countAccountTxs env ?q (sender_key env tx)) < pcMaxAccountTxs (tpConfig ?q)"
    using Add_guards(3) [OF assms(3)] by simp
  ultimately show ?thesis
    using replace(1) inv assms(1) wf
    by (simp add: pool_inv_def books_insert limits_insert)
qed
qed

subsection \<open>Eviction\<close>

lemma evict_loop_taken:
  assumes "distinct (map txHash ts)" and "\<forall>t \<in> set ts. goget m (txHash t) \<noteq> None"
    and "removed \<le> max 0 cnt"
  shows "evict_loop cnt ts m removed
    = (foldl (\<lambda>m t. godel (txHash t) m) m (take (nat (cnt - removed)) ts),
       removed + int (min (nat (cnt - removed)) (length ts)))"
  using assms
proof (induction ts arbitrary: m removed)
  case Nil
  then show ?case by simp
next
  case (Cons t ts)
  show ?case
  proof (cases "removed < cnt")
    case True
    then have k: "nat (cnt - removed) = Suc (nat (cnt - (removed + 1)))" by simp
    have "\<forall>u \<in> set ts. txHash u \<noteq> txHash t" using Cons.prems(1) by (simp, metis imageI)
    then have "\<forall>u \<in> set ts. goget (godel (txHash t) m) (txHash u) \<noteq> None"
      using Cons.prems(2) by simp
    with Cons.IH [of "godel (txHash t) m" "removed + 1"] Cons.prems True k show ?thesis by simp
  next
    case False
    then show ?thesis by simp
  qed
qed

lemma goget_foldl_del:
  "goget (foldl (\<lambda>m t. godel (txHash t) m) m ts) h
    = (if h \<in> txHash ` set ts then None else goget m h)"
  by (induction ts arbitrary: m) auto

lemma pending_ok_foldl_del:
  "pending_ok m \<Longrightarrow> pending_ok (foldl (\<lambda>m t. godel (txHash t) m) m ts)"
  by (induction ts arbitrary: m) (simp_all add: pending_ok_del)

lemma length_foldl_del:
  "gomap_wf m \<Longrightarrow> distinct (map txHash ts) \<Longrightarrow> \<forall>t \<in> set ts. goget m (txHash t) \<noteq> None \<Longrightarrow>
    length (foldl (\<lambda>m t. godel (txHash t) m) m ts) + length ts = length m"
proof (induction ts arbitrary: m)
  case Nil
  then show ?case by simp
next
  case (Cons t ts)
  then obtain u where "goget m (txHash t) = Some u" by auto
  then have "Suc (length (godel (txHash t) m)) = length m"
    by (rule length_godel [OF Cons.prems(1)])
  moreover have "\<forall>u \<in> set ts. txHash u \<noteq> txHash t" using Cons.prems(2) by (simp, metis imageI)
  then have "\<forall>u \<in> set ts. goget (godel (txHash t) m) (txHash u) \<noteq> None"
    using Cons.prems(3) by simp
  ultimately show ?case using Cons.IH [of "godel (txHash t) m"] Cons.prems(1,2) by simp
qed

lemma books_hashes:
  assumes "pool_books p"
  shows "distinct (map txHash (tpByGasPrice p))"
    and "t \<in> set (tpByGasPrice p) \<longleftrightarrow> goget (tpPending p) (txHash t) = Some t"
    and "length (tpByGasPrice p) = length (tpPending p)"
proof -
  have ok: "pending_ok (tpPending p)" and ms: "mset (tpByGasPrice p) = mset (map snd (tpPending p))"
    and wf: "gomap_wf (tpPending p)"
    using assms by (simp_all add: pool_books_def pending_ok_def)
  have keys: "map txHash (map snd (tpPending p)) = map fst (tpPending p)"
    using ok by (auto simp: pending_ok_def)
  have "mset (map txHash (tpByGasPrice p)) = mset (map txHash (map snd (tpPending p)))"
    using ms by (metis mset_map)
  then have "mset (map txHash (tpByGasPrice p)) = mset (map fst (tpPending p))"
    by (simp only: keys)
  then show "distinct (map txHash (tpByGasPrice p))"
    using wf mset_eq_imp_distinct_iff unfolding gomap_wf_def by blast
  have set: "set (tpByGasPrice p) = snd ` set (tpPending p)" using ms by (metis list.set_map set_mset_mset)
  show "t \<in> set (tpByGasPrice p) \<longleftrightarrow> goget (tpPending p) (txHash t) = Some t"
  proof
    assume "t \<in> set (tpByGasPrice p)"
    then obtain h where h: "(h, t) \<in> set (tpPending p)" unfolding set by auto
    then have "h = txHash t" using ok by (auto simp: pending_ok_def)
    with h show "goget (tpPending p) (txHash t) = Some t" using goget_iff_in_set [OF wf] by blast
  next
    assume "goget (tpPending p) (txHash t) = Some t"
    then have "(txHash t, t) \<in> set (tpPending p)" by (rule goget_in_set)
    then show "t \<in> set (tpByGasPrice p)" unfolding set by (rule rev_image_eqI) simp
  qed
  show "length (tpByGasPrice p) = length (tpPending p)" using ms by (metis length_map mset_eq_length)
qed

text \<open>The pending map after an eviction: the cheapest \<open>k\<close> are gone.\<close>

definition evicted :: "tx_pool \<Rightarrow> nat \<Rightarrow> transaction list" where
  "evicted p k = take k (rev (tpByGasPrice p))"

lemma Evict_alt:
  assumes "pool_books p"
  shows "Evict env cnt p =
    (notifyPressure (rebuildByGasPrice env
       (p\<lparr>tpPending := foldl (\<lambda>m t. godel (txHash t) m) (tpPending p) (evicted p (nat cnt))\<rparr>)),
     int (min (nat cnt) (length (tpPending p))))"
proof -
  have "evict_loop cnt (rev (tpByGasPrice p)) (tpPending p) 0
      = (foldl (\<lambda>m t. godel (txHash t) m) (tpPending p) (take (nat (cnt - 0)) (rev (tpByGasPrice p))),
         0 + int (min (nat (cnt - 0)) (length (rev (tpByGasPrice p)))))"
    using books_hashes(1,2) [OF assms]
    by (intro evict_loop_taken) (simp_all flip: rev_map)
  then show ?thesis
    using books_hashes(3) [OF assms] by (simp add: Evict_def evicted_def Let_def)
qed

lemma inv_evict:
  assumes "env_ok env" and "pool_inv env p"
  shows "pool_inv env (fst (Evict env cnt p))"
proof -
  let ?m = "foldl (\<lambda>m t. godel (txHash t) m) (tpPending p) (evicted p (nat cnt))"
  have books: "pool_books p" using assms(2) by (simp add: pool_inv_def)
  then have ok: "pending_ok ?m" by (simp add: pool_books_def pending_ok_foldl_del)
  have le: "length (filter P (foldl (\<lambda>m t. godel (txHash t) m) m ts)) \<le> length (filter P m)" for P m ts
    by (induction ts arbitrary: m) (auto intro: order_trans [OF _ count_del])
  have "pool_limits env (p\<lparr>tpPending := ?m\<rparr>)"
    using assms(2) le [of "\<lambda>_. True" "tpPending p"]
    unfolding pool_inv_def pool_limits_def countAccountTxs_def
    by (auto intro: order_trans [OF of_nat_mono] order_trans [OF of_nat_mono [OF le]])
  then show ?thesis
    using assms(1) ok unfolding pool_inv_def Evict_alt [OF books]
    by (simp add: pool_books_def rebuildByGasPrice_def sort_price pool_limits_def countAccountTxs_def)
qed

lemma inv_remove_confirmed: "pool_inv env p \<Longrightarrow> pool_inv env (RemoveConfirmed txs p)"
  unfolding RemoveConfirmed_def by (induction txs arbitrary: p) (simp_all add: inv_remove)

lemma inv_clear: "pool_inv env (Clear p)"
  by (simp add: Clear_def pool_inv_def pool_books_def pool_limits_def pending_ok_def
      countAccountTxs_def)

lemma inv_callback: "pool_inv env p \<Longrightarrow> pool_inv env (SetPressureCallback p)"
  using pool_frame [of "SetPressureCallback p" p env] by (simp add: SetPressureCallback_def)

lemma inv_step:
  assumes "env_ok env" and "pool_inv env p"
  shows "pool_inv env (pool_step env p op)"
proof (cases op)
  case (PoolAdd getNonce tx)
  then show ?thesis
    using inv_add [OF assms] assms(2) by (simp split: sum.splits)
qed (use assms in \<open>simp_all add: inv_evict Remove_def inv_remove inv_remove_confirmed inv_clear
    inv_callback\<close>)

lemma inv_new: "pool_inv env (NewTxPool config)"
  by (simp add: NewTxPool_def pool_inv_def pool_books_def pool_limits_def pending_ok_def
      countAccountTxs_def)

lemma pool_system: "env_ok env \<Longrightarrow> guarded_system (pool_step env) (pool_inv env)"
  by unfold_locales (rule inv_step)

interpretation pool: guarded_system "pool_step env" "\<lambda>p. env_ok env \<and> pool_inv env p" for env
  by unfold_locales (simp add: inv_step)

text \<open>
  C24 (pool_history_ok): Whatever is added, removed, confirmed, evicted or cleared, the pool keeps its
  books: every pending transaction is stored under its own hash, the price list holds exactly the
  pending transactions in descending order of gas price, and neither the pool nor any sender holds
  more transactions than the configuration allows.
\<close>

theorem pool_history_ok:
  assumes "env_ok env"
  shows "let p = foldl (pool_step env) (NewTxPool config) ops
    in (\<forall>h t. goget (tpPending p) h = Some t \<longrightarrow> txHash t = h)
      \<and> mset (tpByGasPrice p) = mset (map snd (tpPending p)) \<and> by_price (tpByGasPrice p)
      \<and> int (pool_Size p) \<le> max 0 (pcMaxTransactions (tpConfig p))
      \<and> (\<forall>a. int (countAccountTxs env p a) \<le> max 0 (pcMaxAccountTxs (tpConfig p)))"
proof -
  have "pool_inv env (foldl (pool_step env) (NewTxPool config) ops)"
    using pool.run_inv [of env "NewTxPool config" ops] assms by (simp add: inv_new)
  then show ?thesis
    by (auto simp: Let_def pool_inv_def pool_books_def pool_limits_def pool_Size_def
        dest: pending_ok_get)
qed

text \<open>
  A successful Add stores the transaction under its hash, which was free, and
  nothing else changes except that a full pool gives up one transaction: of the same sender, with
  the same nonce, and outbid by more than a tenth (in \<open>uint64\<close> arithmetic). The size grows by one
  or, after a replacement, stays.
\<close>

theorem pool_add_exact:
  assumes "env_ok env" and "pool_inv env p" and "Add env getNonce tx p = Inr p'"
  shows "\<exists>gone. (\<forall>h. goget (tpPending p') h
        = (if h = txHash tx then Some tx else if gone = Some h then None else goget (tpPending p) h))
      \<and> goget (tpPending p) (txHash tx) = None \<and> tpTxCounter p' = tpTxCounter p + 1
      \<and> pool_Size p' = (if gone = None then Suc (pool_Size p) else pool_Size p)
      \<and> (case gone of
           None \<Rightarrow> int (pool_Size p) < pcMaxTransactions (tpConfig p)
         | Some h \<Rightarrow> pcMaxTransactions (tpConfig p) \<le> int (pool_Size p)
             \<and> (\<exists>t. goget (tpPending p) h = Some t \<and> sender env t = sender env tx
                 \<and> txNonce t = txNonce tx
                 \<and> txGasPrice t + txGasPrice t div 10 < txGasPrice tx))"
  using assms(3)
proof (cases rule: Add_cases)
  case plain
  then show ?thesis
    using Add_guards(1) [OF assms(3)]
    by (intro exI [of _ None]) (simp add: insert_tx_def pool_Size_def length_goput)
next
  case (replace h t)
  have wf: "gomap_wf (tpPending p)"
    using assms(2) by (simp add: pool_inv_def pool_books_def pending_ok_def)
  have "sender env t = sender env tx"
    using replace(3) Add_guards(2) [OF assms(3)]
    by (auto simp: may_replace_def sender_key_def)
  moreover have "goget (tpPending p) h = Some t" using goget_iff_in_set [OF wf] replace(2) by blast
  ultimately show ?thesis
    using Add_guards(1) [OF assms(3)] replace length_del_Suc [OF wf replace(2)]
    by (intro exI [of _ "Some h"])
      (auto simp: insert_tx_def pool_Size_def length_goput may_replace_def removeLocked_def)
qed

text \<open>
  The tenth is computed in 64 bits: next to the largest price the threshold wraps, and a tiny
  price replaces it.
\<close>

lemma rbf_threshold_wraps: "(2 ^ 64 - 1 :: u64) + (2 ^ 64 - 1) div 10 < 1844674407370955161"
  by simp

lemma rbf_threshold_exact:
  assumes "unat q + unat q div 10 < 2 ^ 64"
  shows "(q :: u64) + q div 10 < r \<longleftrightarrow> unat q + unat q div 10 < unat r"
  using assms by (simp add: word_less_nat_alt unat_word_ariths unat_div)

text \<open>
  Evict removes exactly the asked number of transactions, or all of them
  when there are fewer (none for a negative number): the map loses them and nothing else, and no
  transaction that stays is cheaper than one that goes.
\<close>

theorem evict_takes_cheapest:
  assumes "pool_inv env p"
  shows "let (p', n) = Evict env cnt p; gone = evicted p (nat cnt)
    in n = int (min (nat cnt) (pool_Size p)) \<and> int (length gone) = n
      \<and> int (pool_Size p') = int (pool_Size p) - n
      \<and> (\<forall>h. goget (tpPending p') h
          = (if h \<in> txHash ` set gone then None else goget (tpPending p) h))
      \<and> (\<forall>g \<in> set gone. goget (tpPending p) (txHash g) = Some g
          \<and> (\<forall>h t. goget (tpPending p') h = Some t \<longrightarrow> txGasPrice g \<le> txGasPrice t))"
proof -
  have books: "pool_books p" using assms by (simp add: pool_inv_def)
  then have wf: "gomap_wf (tpPending p)" and ok: "pending_ok (tpPending p)"
    by (simp_all add: pool_books_def pending_ok_def)
  let ?k = "nat cnt" and ?l = "rev (tpByGasPrice p)"
  let ?gone = "evicted p ?k"
  have split: "?l = ?gone @ drop ?k ?l" by (simp add: evicted_def)
  have sorted: "sorted_wrt (\<lambda>a b. txGasPrice a \<le> txGasPrice b) (?gone @ drop ?k ?l)"
    using books unfolding split [symmetric] by (simp add: pool_books_def sorted_wrt_rev)
  have dist: "distinct (map txHash ?gone)"
    using books_hashes(1) [OF books] unfolding evicted_def
    by (simp flip: take_map rev_map)
  have mem: "g \<in> set ?gone \<Longrightarrow> goget (tpPending p) (txHash g) = Some g" for g
    using books_hashes(2) [OF books, of g] set_take_subset [of ?k ?l] by (auto simp: evicted_def)
  have len: "length ?gone = min ?k (pool_Size p)"
    using books_hashes(3) [OF books] by (simp add: evicted_def pool_Size_def min.commute)
  let ?m = "foldl (\<lambda>m t. godel (txHash t) m) (tpPending p) ?gone"
  have size: "length ?m + length ?gone = pool_Size p"
    using length_foldl_del [OF wf dist] mem by (simp add: pool_Size_def)
  have cheap: "txGasPrice g \<le> txGasPrice t" if "g \<in> set ?gone" "goget ?m h = Some t" for g h t
  proof -
    from that(2) have t: "goget (tpPending p) h = Some t" "h \<notin> txHash ` set ?gone"
      by (auto simp: goget_foldl_del split: if_splits)
    then have "txHash t = h" using ok by (simp add: pending_ok_get)
    with t have "t \<in> set ?l" "t \<notin> set ?gone" using books_hashes(2) [OF books, of t] by auto
    then have "t \<in> set (drop ?k ?l)" using split by (metis Un_iff set_append)
    with that(1) sorted show ?thesis by (simp add: sorted_wrt_append)
  qed
  show ?thesis
    using size len mem cheap
    by (simp add: Evict_alt [OF books] Let_def rebuildByGasPrice_def pool_Size_def goget_foldl_del
        split del: if_split)
qed

subsection \<open>Witnesses\<close>

definition sample_env :: "(byte, byte) pool_env" where
  "sample_env = \<lparr>peLib = toy_lib, peSortPrice = \<lambda>xs. rev (sort_key txGasPrice xs),
     peSortNonce = sort_key txNonce\<rparr>"

lemma sample_env_ok: "env_ok sample_env"
proof -
  have le: "sorted_wrt (\<lambda>a b. f a \<le> f b) (sort_key f xs)" for f :: "transaction \<Rightarrow> u64" and xs
    using sorted_sort_key [of f xs] by (simp add: sorted_map)
  then show ?thesis by (simp add: env_ok_def sample_env_def sorted_wrt_rev)
qed

definition small_pool :: tx_pool where
  "small_pool = NewTxPool (Some \<lparr>pcMaxTransactions = 1, pcMaxGas = 0, pcMinGasPrice = 1,
     pcMaxAccountTxs = 3\<rparr>)"

definition outbid_tx :: transaction where
  "outbid_tx = sample_tx\<lparr>txHash := [2], txGasPrice := 12\<rparr>"

definition full_pool :: tx_pool where
  "full_pool = pool_step sample_env small_pool (PoolAdd (\<lambda>_. None) sample_tx)"

lemma full_pool_inv: "pool_inv sample_env full_pool"
  unfolding full_pool_def small_pool_def by (intro inv_step sample_env_ok inv_new)

lemma full_pool_pending: "tpPending full_pool = [([1], sample_tx)]"
  by (simp add: full_pool_def small_pool_def NewTxPool_def sample_env_def Add_def SenderAddress_def
      sample_tx_def countAccountTxs_def insert_tx_def)

theorem pool_history_ok_witness:
  "int (pool_Size (foldl (pool_step sample_env) (NewTxPool None) [PoolAdd (\<lambda>_. None) sample_tx]))
     \<le> 10000"
  using pool_history_ok [OF sample_env_ok, of None "[PoolAdd (\<lambda>_. None) sample_tx]"]
  by (simp add: Let_def NewTxPool_def DefaultTxPoolConfig_def sample_env_def Add_def
      SenderAddress_def sample_tx_def countAccountTxs_def insert_tx_def)

lemma full_pool_sender: "sender sample_env outbid_tx = Some (be 20 5)"
    "sender sample_env sample_tx = Some (be 20 5)"
  by (simp_all add: SenderAddress_def outbid_tx_def sample_tx_def)

theorem pool_add_exact_witness:
  "\<exists>p'. Add sample_env (\<lambda>_. None) outbid_tx full_pool = Inr p' \<and> pool_Size p' = 1
    \<and> goget (tpPending p') [2] = Some outbid_tx"
proof -
  have cfg: "tpConfig full_pool = \<lparr>pcMaxTransactions = 1, pcMaxGas = 0, pcMinGasPrice = 1,
      pcMaxAccountTxs = 3\<rparr>" "tpChainID full_pool = 0"
    by (simp_all add: full_pool_def small_pool_def NewTxPool_def sample_env_def Add_def
        SenderAddress_def sample_tx_def countAccountTxs_def insert_tx_def)
  have tx: "txHash outbid_tx = [2]" "txGasPrice outbid_tx = 12" "txGasPrice sample_tx = 10"
      "txNonce outbid_tx = txNonce sample_tx" "txChainID outbid_tx = 0"
    by (simp_all add: outbid_tx_def sample_tx_def)
  have "may_replace sample_env outbid_tx (be 20 5) sample_tx"
    using full_pool_sender tx by (simp add: may_replace_def sender_key_def)
  then have "rbf_target sample_env outbid_tx (be 20 5) full_pool = Some [1]"
    by (simp add: rbf_target_def full_pool_pending)
  moreover have "countAccountTxs sample_env full_pool (be 20 5) = 1"
    using full_pool_sender by (simp add: countAccountTxs_def full_pool_pending sender_key_def)
  ultimately obtain p' where p': "Add sample_env (\<lambda>_. None) outbid_tx full_pool = Inr p'"
    using cfg full_pool_sender tx by (simp add: Add_def full_pool_pending)
  show ?thesis
    using pool_add_exact [OF sample_env_ok full_pool_inv p'] p' cfg tx
    by (auto simp: pool_Size_def full_pool_pending split: if_splits option.splits)
qed

theorem evict_takes_cheapest_witness:
  "snd (Evict sample_env 5 full_pool) = 1
    \<and> goget (tpPending (fst (Evict sample_env 5 full_pool))) [1] = None"
proof -
  have "pool_books full_pool" using full_pool_inv by (simp add: pool_inv_def)
  from books_hashes(2) [OF this, of sample_tx] have "sample_tx \<in> set (tpByGasPrice full_pool)"
    by (simp add: full_pool_pending sample_tx_def)
  moreover have "length (tpByGasPrice full_pool) = 1"
    using books_hashes(3) [OF \<open>pool_books full_pool\<close>] by (simp add: full_pool_pending)
  ultimately have "sample_tx \<in> set (evicted full_pool 5)" by (simp add: evicted_def)
  moreover have "txHash sample_tx = [1]" by (simp add: sample_tx_def)
  ultimately show ?thesis
    using evict_takes_cheapest [OF full_pool_inv, of 5]
    by (auto simp: Let_def pool_Size_def full_pool_pending image_iff split: prod.splits if_splits)
qed

end
