(* ===== verification/Economics.thy ===== *)
theory Economics
  imports Transactions Contracts
begin

text \<open>
  Money (\<open>ledger/economics.go\<close>, \<open>ledger/fee_market.go\<close>, \<open>ledger/slashing.go\<close>): block rewards,
  fees and supply, the base fee, and the slashing of a validator's stake. \<open>big.Int\<close> values are
  integers and \<open>Div\<close> by a positive number is \<open>div\<close>. A division by zero is the panic of the
  outcome type. \<open>InflationRate\<close> (a rounded \<open>big.Float\<close> quotient) is left out.
\<close>

subsection \<open>Economics\<close>

record economics_config =
  ecBlockReward :: int
  ecUncleReward :: int
  ecMaxSupply :: int
  ecInitialSupply :: int
  ecHalvingInterval :: u64
  ecBaseFeeTarget :: int
  ecBaseFeeMaxChangeRate :: int
  ecGasTarget :: u64
  ecGasLimitBound :: u64
  ecValidatorShare :: int
  ecDeveloperShare :: int
  ecBurnShare :: int

definition DefaultEconomicsConfig :: economics_config where
  "DefaultEconomicsConfig =
     \<lparr>ecBlockReward = 10 ^ 18, ecUncleReward = 10 ^ 18 div 32, ecMaxSupply = 10 ^ 26,
      ecInitialSupply = 10 ^ 25, ecHalvingInterval = 2100000, ecBaseFeeTarget = 1000000000,
      ecBaseFeeMaxChangeRate = 125, ecGasTarget = 15000000, ecGasLimitBound = 1024,
      ecValidatorShare = 80, ecDeveloperShare = 10, ecBurnShare = 10\<rparr>"

record economics =
  eConfig :: economics_config
  eTotalSupply :: int
  eCirculating :: int
  eBurned :: int
  eTotalFees :: int
  eHeight :: u64

definition NewEconomics :: "economics_config option \<Rightarrow> economics" where
  "NewEconomics config =
     (let c = (case config of None \<Rightarrow> DefaultEconomicsConfig | Some c \<Rightarrow> c)
      in \<lparr>eConfig = c, eTotalSupply = ecMaxSupply c, eCirculating = ecInitialSupply c,
          eBurned = 0, eTotalFees = 0, eHeight = 0\<rparr>)"

text \<open>The halving loop.\<close>

fun halve :: "nat \<Rightarrow> int \<Rightarrow> int" where
  "halve 0 reward = reward"
| "halve (Suc n) reward = halve n (reward div 2)"

definition calculateBlockRewardLocked :: "economics \<Rightarrow> u64 \<Rightarrow> int outcome" where
  "calculateBlockRewardLocked e blockHeight =
     (if ecHalvingInterval (eConfig e) = 0 then Panics
      else let epochs = blockHeight div ecHalvingInterval (eConfig e)
        in if 64 \<le> epochs then Done 0
           else Done (halve (unat epochs) (ecBlockReward (eConfig e))))"

definition CalculateBlockReward :: "economics \<Rightarrow> u64 \<Rightarrow> int outcome" where
  "CalculateBlockReward e blockHeight =
     (if ecHalvingInterval (eConfig e) = 0 then Panics
      else let epochs = blockHeight div ecHalvingInterval (eConfig e)
        in if 64 \<le> epochs then Done 0
           else Done (halve (unat epochs) (ecBlockReward (eConfig e))))"

text \<open>A share of the fees: \<open>fee * share / 100\<close>.\<close>

definition share_of :: "int \<Rightarrow> int \<Rightarrow> int" where
  "share_of totalFee share = totalFee * share div 100"

definition calculateFeesLocked :: "economics \<Rightarrow> transaction list \<Rightarrow> int \<times> int \<times> int" where
  "calculateFeesLocked e txs =
     (let totalFee = (\<Sum>tx\<leftarrow>txs. uint (txGasPrice tx) * uint (txGasLimit tx))
      in (totalFee, share_of totalFee (ecValidatorShare (eConfig e)),
          share_of totalFee (ecBurnShare (eConfig e))))"

definition CalculateFees :: "economics \<Rightarrow> transaction list \<Rightarrow> int \<times> int \<times> int" where
  "CalculateFees e txs =
     (let totalFee = (\<Sum>tx\<leftarrow>txs. uint (txGasPrice tx) * uint (txGasLimit tx))
      in (totalFee, share_of totalFee (ecValidatorShare (eConfig e)),
          share_of totalFee (ecBurnShare (eConfig e))))"

definition gas_of :: "u64 list \<Rightarrow> nat \<Rightarrow> transaction \<Rightarrow> u64" where
  "gas_of gasUsedPerTx i tx =
     (if i < length gasUsedPerTx \<and> 0 < gasUsedPerTx ! i then gasUsedPerTx ! i else txGasLimit tx)"

definition CalculateFeesFromGasUsed ::
    "economics \<Rightarrow> transaction list \<Rightarrow> u64 list \<Rightarrow> int \<times> int \<times> int" where
  "CalculateFeesFromGasUsed e txs gasUsedPerTx =
     (let totalFee = (\<Sum>(i, tx)\<leftarrow>enumerate 0 txs.
                        uint (txGasPrice tx) * uint (gas_of gasUsedPerTx i tx))
      in (totalFee, share_of totalFee (ecValidatorShare (eConfig e)),
          share_of totalFee (ecBurnShare (eConfig e))))"

record block_economics =
  beBlockHeight :: u64
  beBlockReward :: int
  beTotalFees :: int
  beValidatorFees :: int
  beBurnedFees :: int
  beNetIssuance :: int
  beCirculating :: int

datatype economics_error = EcoMaxSupply

definition eco_ProcessBlock :: "economics \<Rightarrow> transaction list \<Rightarrow> u64
    \<Rightarrow> (economics_error + (block_economics \<times> economics)) outcome" where
  "eco_ProcessBlock e txs blockHeight =
     bind_outcome (calculateBlockRewardLocked e blockHeight) (\<lambda>reward.
       let (fees, validatorFees, burnFees) = calculateFeesLocked e txs;
           totalIssuance = reward + fees; newCirculating = eCirculating e + totalIssuance
       in if eTotalSupply e < newCirculating then Done (Inl EcoMaxSupply)
          else Done (Inr (\<lparr>beBlockHeight = blockHeight, beBlockReward = reward,
                 beTotalFees = fees, beValidatorFees = validatorFees, beBurnedFees = burnFees,
                 beNetIssuance = totalIssuance, beCirculating = newCirculating\<rparr>,
               e\<lparr>eCirculating := newCirculating, eBurned := eBurned e + burnFees,
                 eTotalFees := eTotalFees e + fees, eHeight := blockHeight\<rparr>)))"

fun eco_step :: "economics \<Rightarrow> transaction list \<times> u64 \<Rightarrow> economics" where
  "eco_step e (txs, h) = (case eco_ProcessBlock e txs h of Done (Inr (_, e')) \<Rightarrow> e' | _ \<Rightarrow> e)"

subsection \<open>The reward schedule\<close>

lemma halve_div: "halve n r = r div 2 ^ n"
proof (induction n arbitrary: r)
  case 0
  then show ?case by simp
next
  case (Suc n)
  have "r div 2 ^ Suc n = r div (2 * 2 ^ n)" by simp
  also have "\<dots> = r div 2 div 2 ^ n" by (rule zdiv_zmult2_eq) simp
  finally show ?case using Suc by simp
qed

text \<open>The reference: the reward at a height, in closed form.\<close>

definition reward_at :: "economics_config \<Rightarrow> nat \<Rightarrow> int" where
  "reward_at c h = (let k = h div unat (ecHalvingInterval c)
     in if 64 \<le> k then 0 else ecBlockReward c div 2 ^ k)"

lemma reward_closed_form:
  assumes "ecHalvingInterval (eConfig e) \<noteq> 0"
  shows "calculateBlockRewardLocked e h = Done (reward_at (eConfig e) (unat h))"
    and "CalculateBlockReward e h = Done (reward_at (eConfig e) (unat h))"
  using assms
  by (simp_all add: calculateBlockRewardLocked_def CalculateBlockReward_def reward_at_def halve_div
      Let_def unat_div word_le_nat_alt)

lemma reward_nonneg: "0 \<le> ecBlockReward c \<Longrightarrow> 0 \<le> reward_at c h"
  by (simp add: reward_at_def Let_def pos_imp_zdiv_nonneg_iff)

lemma halvings_bounded:
  assumes "0 \<le> (r :: int)"
  shows "(\<Sum>j<k. r div 2 ^ j) \<le> 2 * r - 2 * (r div 2 ^ k)"
proof (induction k)
  case 0
  then show ?case by simp
next
  case (Suc k)
  have "r div 2 ^ Suc k = r div 2 ^ k div 2"
    using zdiv_zmult2_eq [of 2 r "2 ^ k"] by (simp add: mult.commute)
  then have "2 * (r div 2 ^ Suc k) \<le> r div 2 ^ k" by simp
  then show ?case using Suc by simp
qed

lemma emission_bounded:
  assumes "ecHalvingInterval c \<noteq> 0" and "0 \<le> ecBlockReward c"
  shows "(\<Sum>h<n. reward_at c h) \<le> 2 * int (unat (ecHalvingInterval c)) * ecBlockReward c"
proof -
  let ?i = "unat (ecHalvingInterval c)" and ?r = "ecBlockReward c"
  have i: "0 < ?i" using assms(1) by (simp add: unat_gt_0)
  let ?f = "\<lambda>h. ?r div 2 ^ (h div ?i)"
  have "(\<Sum>h<n. reward_at c h) \<le> (\<Sum>h<n. ?f h)"
    using assms(2) by (intro sum_mono) (simp add: reward_at_def Let_def pos_imp_zdiv_nonneg_iff)
  also have "\<dots> \<le> (\<Sum>h<n * ?i. ?f h)"
    using i assms(2) by (intro sum_mono2) (auto simp: pos_imp_zdiv_nonneg_iff)
  also have "\<dots> = (\<Sum>m<n. sum ?f {m * ?i ..< m * ?i + ?i})" by (rule sum.nat_group [symmetric])
  also have "\<dots> = (\<Sum>m<n. int ?i * (?r div 2 ^ m))"
  proof (rule sum.cong [OF refl])
    fix m
    have "h div ?i = m" if "h \<in> {m * ?i ..< m * ?i + ?i}" for h
      using that i by (intro div_nat_eqI) (auto simp: mult.commute)
    then have "sum ?f {m * ?i ..< m * ?i + ?i} = (\<Sum>h \<in> {m * ?i ..< m * ?i + ?i}. ?r div 2 ^ m)"
      by (intro sum.cong) simp_all
    then show "sum ?f {m * ?i ..< m * ?i + ?i} = int ?i * (?r div 2 ^ m)" by simp
  qed
  also have "\<dots> = int ?i * (\<Sum>m<n. ?r div 2 ^ m)" by (simp add: sum_distrib_left)
  also have "\<dots> \<le> int ?i * (2 * ?r)"
  proof (rule mult_left_mono)
    have "0 \<le> ?r div 2 ^ n" using assms(2) by (simp add: pos_imp_zdiv_nonneg_iff)
    with halvings_bounded [OF assms(2), of n] show "(\<Sum>m<n. ?r div 2 ^ m) \<le> 2 * ?r" by linarith
  qed simp
  finally show ?thesis by (simp add: algebra_simps)
qed

text \<open>
  The block reward halves once per interval: at every height it is the
  initial reward divided by two to the number of intervals passed (zero from the 64th on), and the
  rewards of all blocks of a chain, however long, add up to at most twice the interval times the
  initial reward.
\<close>

theorem block_reward_schedule:
  assumes "ecHalvingInterval (eConfig e) \<noteq> 0" and "0 \<le> ecBlockReward (eConfig e)"
  shows "CalculateBlockReward e h = Done (reward_at (eConfig e) (unat h))
    \<and> calculateBlockRewardLocked e h = CalculateBlockReward e h
    \<and> (\<Sum>k<n. reward_at (eConfig e) k)
        \<le> 2 * int (unat (ecHalvingInterval (eConfig e))) * ecBlockReward (eConfig e)"
  using reward_closed_form [OF assms(1)] emission_bounded [OF assms] by simp

theorem block_reward_schedule_witness:
  "CalculateBlockReward (NewEconomics None) 4200000 = Done (10 ^ 18 div 4)
    \<and> (\<Sum>k<5. reward_at DefaultEconomicsConfig k) \<le> 4200000 * 10 ^ 18"
  using block_reward_schedule [of "NewEconomics None" 4200000 5]
  by (simp add: NewEconomics_def DefaultEconomicsConfig_def reward_at_def)

subsection \<open>Supply\<close>

text \<open>
  The books of the supply, for a configuration with non-negative amounts: the cap holds, the coins
  in circulation are at least the initial ones plus all fees, and the burned part is within the
  burn share of the fees.
\<close>

definition eco_ok :: "economics_config \<Rightarrow> economics \<Rightarrow> bool" where
  "eco_ok c e \<longleftrightarrow> eConfig e = c \<and> eTotalSupply e = ecMaxSupply c
     \<and> 0 \<le> ecBlockReward c \<and> 0 \<le> ecBurnShare c \<and> 0 \<le> eTotalFees e
     \<and> (ecInitialSupply c \<le> ecMaxSupply c \<longrightarrow> eCirculating e \<le> ecMaxSupply c)
     \<and> ecInitialSupply c + eTotalFees e \<le> eCirculating e
     \<and> 0 \<le> eBurned e \<and> 100 * eBurned e \<le> ecBurnShare c * eTotalFees e"

lemma fees_nonneg: "0 \<le> fst (calculateFeesLocked e txs)"
  by (auto simp: calculateFeesLocked_def Let_def intro!: sum_list_nonneg)

lemma process_block_cases:
  assumes "eco_ProcessBlock e txs h = Done (Inr (b, e'))"
  obtains fees where "ecHalvingInterval (eConfig e) \<noteq> 0"
    and "fees = fst (calculateFeesLocked e txs)"
    and "eCirculating e + reward_at (eConfig e) (unat h) + fees \<le> eTotalSupply e"
    and "e' = e\<lparr>eCirculating := eCirculating e + reward_at (eConfig e) (unat h) + fees,
      eBurned := eBurned e + share_of fees (ecBurnShare (eConfig e)),
      eTotalFees := eTotalFees e + fees, eHeight := h\<rparr>"
    and "beNetIssuance b = reward_at (eConfig e) (unat h) + fees"
proof (cases "ecHalvingInterval (eConfig e) = 0")
  case True
  with assms show ?thesis by (simp add: eco_ProcessBlock_def calculateBlockRewardLocked_def)
next
  case False
  show ?thesis
    using assms reward_closed_form(1) [OF False, of h]
    by (intro that [OF False refl])
      (auto simp: eco_ProcessBlock_def calculateFeesLocked_def Let_def algebra_simps split: if_splits)
qed

lemma eco_step_cases:
  obtains (same) "eco_step e (txs, h) = e"
    | (done') b where "eco_ProcessBlock e txs h = Done (Inr (b, eco_step e (txs, h)))"
proof (cases "eco_ProcessBlock e txs h")
  case (Done r)
  then show ?thesis using that by (cases r) auto
next
  case Panics
  then show ?thesis using that by auto
qed

lemma eco_step_ok:
  assumes "eco_ok c e"
  shows "eco_ok c (eco_step e b)" and "eCirculating e \<le> eCirculating (eco_step e b)"
proof -
  obtain txs h where b: "b = (txs, h)" by (cases b)
  have "eco_ok c (eco_step e b) \<and> eCirculating e \<le> eCirculating (eco_step e b)"
  proof (cases rule: eco_step_cases [of e txs h])
    case same
    with assms b show ?thesis by simp
  next
    case (done' r)
    then show ?thesis
    proof (cases rule: process_block_cases)
      case (1 fees)
      have fees: "0 \<le> fees" using 1(2) fees_nonneg by simp
      have c: "eConfig e = c" and pos: "0 \<le> ecBlockReward c" "0 \<le> ecBurnShare c"
        using assms by (simp_all add: eco_ok_def)
      have "0 \<le> reward_at c (unat h)" using pos(1) by (rule reward_nonneg)
      moreover have "0 \<le> share_of fees (ecBurnShare c)" "100 * share_of fees (ecBurnShare c)
          \<le> ecBurnShare c * fees"
        using fees pos(2) by (simp_all add: share_of_def pos_imp_zdiv_nonneg_iff mult.commute)
      ultimately show ?thesis
        using assms fees 1(3) unfolding b 1(4) c by (simp add: eco_ok_def algebra_simps)
    qed
  qed
  then show "eco_ok c (eco_step e b)" and "eCirculating e \<le> eCirculating (eco_step e b)" by auto
qed

interpretation eco: monotone_system eco_step "eco_ok c" eCirculating for c
  by unfold_locales (rule eco_step_ok, assumption)+

text \<open>
  C35 (supply_capped): Over any sequence of blocks the circulating supply never exceeds the maximum
  and never shrinks; the fees that were paid are counted as newly issued coins on top of the
  initial supply, and the burned amount, at most the burn share of the fees, is never deducted.
\<close>

theorem supply_capped:
  assumes "0 \<le> ecBlockReward c" and "0 \<le> ecBurnShare c" and "ecInitialSupply c \<le> ecMaxSupply c"
  shows "let e = foldl eco_step (NewEconomics (Some c)) bs
    in eCirculating e \<le> ecMaxSupply c
      \<and> ecInitialSupply c + eTotalFees e \<le> eCirculating e
      \<and> 100 * eBurned e \<le> ecBurnShare c * eTotalFees e
      \<and> eCirculating (foldl eco_step (NewEconomics (Some c)) (take n bs)) \<le> eCirculating e"
proof -
  have "eco_ok c (NewEconomics (Some c))" using assms by (simp add: eco_ok_def NewEconomics_def)
  from eco.run_inv [OF this, of bs] eco.run_rank_between [OF this, of "take n bs" "drop n bs"]
  show ?thesis using assms(3) by (simp add: eco_ok_def Let_def)
qed

theorem supply_capped_witness:
  "eCirculating (foldl eco_step (NewEconomics (Some DefaultEconomicsConfig)) [([sample_tx], 1)])
     \<le> 10 ^ 26"
  using supply_capped [of DefaultEconomicsConfig "[([sample_tx], 1)]" 0]
  by (simp add: DefaultEconomicsConfig_def Let_def)

text \<open>A block that would pass the cap is refused and changes nothing, forever after as well.\<close>

lemma over_cap_refused:
  assumes "ecHalvingInterval (eConfig e) \<noteq> 0"
    and "eTotalSupply e < eCirculating e + reward_at (eConfig e) (unat h) + fst (calculateFeesLocked e txs)"
  shows "eco_ProcessBlock e txs h = Done (Inl EcoMaxSupply)"
  using assms(2) reward_closed_form(1) [OF assms(1), of h]
  by (simp add: eco_ProcessBlock_def calculateFeesLocked_def Let_def algebra_simps)

subsection \<open>Fee market\<close>

record fee_market =
  fmBaseFee :: u64
  fmGasTarget :: u64
  fmGasUsed :: u64
  fmMaxChange :: u64
  fmBlockGasLimit :: u64

definition NewFeeMarket :: "u64 \<Rightarrow> u64 \<Rightarrow> u64 \<Rightarrow> fee_market" where
  "NewFeeMarket initialBaseFee gasTarget blockGasLimit =
     \<lparr>fmBaseFee = initialBaseFee, fmGasTarget = gasTarget, fmGasUsed = 0, fmMaxChange = 1,
      fmBlockGasLimit = blockGasLimit\<rparr>"

definition DefaultFeeMarket :: fee_market where
  "DefaultFeeMarket =
     \<lparr>fmBaseFee = 1000000000, fmGasTarget = 15000000, fmGasUsed = 0, fmMaxChange = 1,
      fmBlockGasLimit = 30000000\<rparr>"

text \<open>The change of the base fee for a distance from the target.\<close>

definition fee_delta :: "u64 \<Rightarrow> u64 \<Rightarrow> u64 \<Rightarrow> int" where
  "fee_delta base dist target = uint base * min (uint dist) (uint target) div uint target div 8"

definition fm_Update :: "u64 \<Rightarrow> fee_market \<Rightarrow> fee_market outcome" where
  "fm_Update gasUsed fm0 = (let fm = fm0\<lparr>fmGasUsed := gasUsed\<rparr> in
     if gasUsed = fmGasTarget fm then Done fm
     else if fmGasTarget fm < gasUsed
     then (if fmGasTarget fm = 0 then Panics
           else Done (fm\<lparr>fmBaseFee := word_of_int (uint (fmBaseFee fm)
                  + fee_delta (fmBaseFee fm) (gasUsed - fmGasTarget fm) (fmGasTarget fm))\<rparr>))
     else (let newBase = uint (fmBaseFee fm)
                 - fee_delta (fmBaseFee fm) (fmGasTarget fm - gasUsed) (fmGasTarget fm)
           in Done (fm\<lparr>fmBaseFee := (if newBase < 1 then 1 else word_of_int newBase)\<rparr>)))"

definition SetBaseFee :: "u64 \<Rightarrow> fee_market \<Rightarrow> fee_market" where
  "SetBaseFee fee fm = fm\<lparr>fmBaseFee := fee\<rparr>"

definition fm_Reset :: "fee_market \<Rightarrow> fee_market" where
  "fm_Reset fm = fm\<lparr>fmGasUsed := 0\<rparr>"

definition AcceptableGasPrice :: "fee_market \<Rightarrow> u64 \<Rightarrow> bool" where
  "AcceptableGasPrice fm gasPrice \<longleftrightarrow> fmBaseFee fm \<le> gasPrice"

definition CalculateTip :: "fee_market \<Rightarrow> u64 \<Rightarrow> u64" where
  "CalculateTip fm gasPrice = (if gasPrice \<le> fmBaseFee fm then 0 else gasPrice - fmBaseFee fm)"

lemma uint_pos: "w \<noteq> 0 \<Longrightarrow> 0 < uint (w :: u64)"
  using unsigned_greater_eq [of w] by (metis less_le unsigned_eq_0_iff)

lemma uint_of_int_u64: "0 \<le> x \<Longrightarrow> x < 2 ^ 64 \<Longrightarrow> uint (word_of_int x :: u64) = x"
  by (simp add: uint_word_of_int)

lemma fee_delta_bounds:
  assumes "target \<noteq> 0"
  shows "0 \<le> fee_delta base dist target" and "fee_delta base dist target \<le> uint base div 8"
    and "target \<le> dist \<Longrightarrow> fee_delta base dist target = uint base div 8"
proof -
  have t: "0 < uint target" using assms by (rule uint_pos)
  have "uint base * min (uint dist) (uint target) \<le> uint base * uint target"
    by (intro mult_left_mono) simp_all
  then have "uint base * min (uint dist) (uint target) div uint target
      \<le> uint base * uint target div uint target"
    using t by (rule zdiv_mono1)
  then have "uint base * min (uint dist) (uint target) div uint target \<le> uint base" using t by simp
  then show "fee_delta base dist target \<le> uint base div 8"
    unfolding fee_delta_def by (rule zdiv_mono1) simp
  show "0 \<le> fee_delta base dist target"
    using t by (simp add: fee_delta_def pos_imp_zdiv_nonneg_iff)
  show "fee_delta base dist target = uint base div 8" if "target \<le> dist"
    using t that by (simp add: fee_delta_def word_le_def)
qed

text \<open>
  C37 (base_fee_step): With a gas target and a base fee whose eighth can be added in 64 bits, an update
  never panics and moves the base fee by at most an eighth: not down above the target, not up below
  it, by exactly an eighth for twice the target and for an empty block.
\<close>

theorem base_fee_step:
  assumes "fmGasTarget fm \<noteq> 0" and "fmBaseFee fm \<noteq> 0"
    and "uint (fmBaseFee fm) + uint (fmBaseFee fm) div 8 < 2 ^ 64"
  shows "\<exists>fm'. fm_Update gasUsed fm = Done fm'
    \<and> fmGasUsed fm' = gasUsed \<and> fmGasTarget fm' = fmGasTarget fm
    \<and> \<bar>uint (fmBaseFee fm') - uint (fmBaseFee fm)\<bar> \<le> uint (fmBaseFee fm) div 8
    \<and> (if gasUsed = fmGasTarget fm then fmBaseFee fm' = fmBaseFee fm
       else if fmGasTarget fm < gasUsed then fmBaseFee fm \<le> fmBaseFee fm'
       else fmBaseFee fm' \<le> fmBaseFee fm)
    \<and> (if gasUsed = 0 then uint (fmBaseFee fm') = uint (fmBaseFee fm) - uint (fmBaseFee fm) div 8
       else if fmGasTarget fm < gasUsed \<and> fmGasTarget fm \<le> gasUsed - fmGasTarget fm
       then uint (fmBaseFee fm') = uint (fmBaseFee fm) + uint (fmBaseFee fm) div 8 else True)"
proof -
  let ?b = "fmBaseFee fm" and ?t = "fmGasTarget fm"
  have b: "0 < uint ?b" using assms(2) by (rule uint_pos)
  note d = fee_delta_bounds [OF assms(1)]
  consider "gasUsed = ?t" | "?t < gasUsed" | "gasUsed < ?t" by fastforce
  then show ?thesis
  proof cases
    case 1
    then show ?thesis using assms(1) b by (simp add: fm_Update_def)
  next
    case 2
    let ?d = "fee_delta ?b (gasUsed - ?t) ?t"
    have "uint (word_of_int (uint ?b + ?d) :: u64) = uint ?b + ?d"
    proof (rule uint_of_int_u64)
      show "uint ?b + ?d < 2 ^ 64" using assms(3) d(2) [of ?b "gasUsed - ?t"] by linarith
    qed (use b d(1) [of ?b "gasUsed - ?t"] in linarith)
    moreover have "gasUsed \<noteq> 0" using 2 by auto
    ultimately show ?thesis
      using 2 assms(1) d(1,2) [of ?b "gasUsed - ?t"] d(3) [of "gasUsed - ?t" ?b]
      by (auto simp: fm_Update_def Let_def word_le_def)
  next
    case 3
    let ?d = "fee_delta ?b (?t - gasUsed) ?t"
    have "?d \<le> uint ?b div 8" "0 \<le> ?d" using d by simp_all
    moreover have "uint ?b div 8 < uint ?b" using b by simp
    ultimately have pos: "1 \<le> uint ?b - ?d" by linarith
    have "uint ?b < 2 ^ 64" using uint_lt2p [of ?b] by simp
    then have "uint (word_of_int (uint ?b - ?d) :: u64) = uint ?b - ?d"
      using pos \<open>0 \<le> ?d\<close> by (intro uint_of_int_u64) linarith+
    then show ?thesis
      using 3 assms(1) pos d(1,2) [of ?b "?t - gasUsed"] d(3) [of "?t - gasUsed" ?b]
      by (auto simp: fm_Update_def Let_def word_le_def)
  qed
qed

text \<open>
  A base fee below eight is frozen: its eighth is zero, so no sequence of blocks,
  however full, ever raises it again.
\<close>

theorem base_fee_frozen:
  assumes "fmGasTarget fm \<noteq> 0" and "0 < fmBaseFee fm" and "fmBaseFee fm < 8"
  shows "\<exists>fm'. foldl (\<lambda>r g. bind_outcome r (fm_Update g)) (Done fm) gs = Done fm'
    \<and> fmBaseFee fm' = fmBaseFee fm"
proof -
  have one: "\<exists>fm'. fm_Update g fm = Done fm' \<and> fmBaseFee fm' = fmBaseFee fm
      \<and> fmGasTarget fm' = fmGasTarget fm"
    if "fmGasTarget fm \<noteq> 0" "0 < fmBaseFee fm" "fmBaseFee fm < 8" for fm g
  proof -
    have b: "0 < uint (fmBaseFee fm)" "uint (fmBaseFee fm) < 8"
      using that(2,3) by (simp_all add: word_less_def)
    then have "uint (fmBaseFee fm) div 8 = 0" by simp
    then have "fee_delta (fmBaseFee fm) d (fmGasTarget fm) = 0" for d
      using fee_delta_bounds(1,2) [OF that(1), of "fmBaseFee fm" d] by linarith
    then show ?thesis using that b by (simp add: fm_Update_def Let_def)
  qed
  show ?thesis
    using assms
  proof (induction gs arbitrary: fm)
    case Nil
    then show ?case by simp
  next
    case (Cons g gs)
    from one [OF Cons.prems, of g] obtain fm1 where "fm_Update g fm = Done fm1"
        "fmBaseFee fm1 = fmBaseFee fm" "fmGasTarget fm1 = fmGasTarget fm" by blast
    with Cons.IH [of fm1] Cons.prems show ?case by simp
  qed
qed

theorem base_fee_step_witness:
  "\<exists>fm'. fm_Update 30000000 DefaultFeeMarket = Done fm' \<and> uint (fmBaseFee fm') = 1125000000"
  using base_fee_step [of DefaultFeeMarket 30000000] by (auto simp: DefaultFeeMarket_def)

theorem base_fee_frozen_witness:
  "\<exists>fm'. foldl (\<lambda>r g. bind_outcome r (fm_Update g)) (Done (NewFeeMarket 7 15000000 30000000))
      [30000000, 30000000, 30000000] = Done fm' \<and> fmBaseFee fm' = 7"
  using base_fee_frozen [of "NewFeeMarket 7 15000000 30000000" "[30000000, 30000000, 30000000]"]
  by (simp add: NewFeeMarket_def)

text \<open>The two exceptions: an eighth that does not fit wraps around, and a zero target panics.\<close>

lemma base_fee_wraps:
  "\<exists>fm'. fm_Update 30000000 (NewFeeMarket (2 ^ 64 - 1) 15000000 30000000) = Done fm'
    \<and> fmBaseFee fm' < 2 ^ 61"
  by (simp add: fm_Update_def NewFeeMarket_def fee_delta_def)

lemma zero_target_panics: "0 < g \<Longrightarrow> fm_Update g (NewFeeMarket base 0 limit) = Panics"
  by (auto simp: fm_Update_def NewFeeMarket_def Let_def)

subsection \<open>Slashing\<close>

record slashing_config =
  slDoubleSignSlashRate :: u64
  slDoubleSignJailPeriod :: u64
  slDowntimeSlashRate :: u64
  slDowntimeJailPeriod :: u64
  slMaxEvidenceAge :: u64

definition DefaultSlashingConfig :: slashing_config where
  "DefaultSlashingConfig =
     \<lparr>slDoubleSignSlashRate = 5000, slDoubleSignJailPeriod = 10000, slDowntimeSlashRate = 100,
      slDowntimeJailPeriod = 1000, slMaxEvidenceAge = 100000\<rparr>"

text \<open>\<open>SlashingReason\<close> is a byte with four named values; evidence is not looked at.\<close>

record slashing_record =
  srReason :: byte
  srValidator :: bytes
  srBlockHeight :: u64
  srEvidence :: bytes
  srSlashRate :: u64
  srJailPeriod :: u64

definition SlashingDoubleSign :: byte where "SlashingDoubleSign = 1"
definition SlashingDowntime :: byte where "SlashingDowntime = 2"
definition SlashingInvalidBlock :: byte where "SlashingInvalidBlock = 3"
definition SlashingMalicious :: byte where "SlashingMalicious = 4"

lemmas slashing_reasons = SlashingDoubleSign_def SlashingDowntime_def SlashingInvalidBlock_def
  SlashingMalicious_def

record validator_state =
  vsTotalStake :: int
  vsIsJailed :: bool
  vsJailedUntil :: u64
  vsSlashCount :: u64

datatype slashing_error = SlashJailed | SlashTooOld | SlashUnknownReason byte
  | UnjailNotJailed | UnjailTooEarly u64

definition slash_terms :: "slashing_config \<Rightarrow> slashing_record \<Rightarrow> (u64 \<times> u64) option" where
  "slash_terms cfg r =
     (if srReason r = SlashingDoubleSign
      then Some (slDoubleSignSlashRate cfg, slDoubleSignJailPeriod cfg)
      else if srReason r = SlashingDowntime
      then Some (slDowntimeSlashRate cfg, slDowntimeJailPeriod cfg)
      else if srReason r = SlashingInvalidBlock then Some (srSlashRate r, srJailPeriod r)
      else if srReason r = SlashingMalicious then Some (srSlashRate r, srJailPeriod r)
      else None)"

definition cap_rate :: "u64 \<Rightarrow> u64" where
  "cap_rate slashRate = (if 10000 < slashRate then 10000 else slashRate)"

definition ProcessSlashing :: "slashing_config \<Rightarrow> slashing_record \<Rightarrow> validator_state \<Rightarrow> u64
    \<Rightarrow> slashing_error + (int \<times> validator_state)" where
  "ProcessSlashing cfg r v currentHeight =
     (if vsIsJailed v \<and> currentHeight < vsJailedUntil v then Inl SlashJailed
      else if srBlockHeight r + slMaxEvidenceAge cfg < currentHeight then Inl SlashTooOld
      else case slash_terms cfg r of
             None \<Rightarrow> Inl (SlashUnknownReason (srReason r))
           | Some (rate0, jailPeriod) \<Rightarrow>
               (let slashRate = cap_rate rate0;
                    slashAmount = vsTotalStake v * sint slashRate div 10000
                in Inr (slashAmount,
                     v\<lparr>vsTotalStake := (if vsTotalStake v \<le> slashAmount then 0
                                          else vsTotalStake v - slashAmount),
                       vsIsJailed := True, vsJailedUntil := currentHeight + jailPeriod,
                       vsSlashCount := vsSlashCount v + 1\<rparr>)))"

definition slash_Unjail :: "validator_state \<Rightarrow> u64 \<Rightarrow> slashing_error + validator_state" where
  "slash_Unjail v currentHeight =
     (if \<not> vsIsJailed v then Inl UnjailNotJailed
      else if currentHeight < vsJailedUntil v then Inl (UnjailTooEarly (vsJailedUntil v))
      else Inr (v\<lparr>vsIsJailed := False, vsJailedUntil := 0\<rparr>))"

lemma capped_rate: "sint (cap_rate rate) = min (uint rate) 10000"
proof -
  have r: "uint (cap_rate rate) = min (uint rate) 10000" by (simp add: cap_rate_def word_less_def)
  have "sint (word_of_int (uint (cap_rate rate)) :: u64) = uint (cap_rate rate)"
    using int_word_sint [of "uint (cap_rate rate)", where ?'a = 64] r by simp
  then have "sint (cap_rate rate) = uint (cap_rate rate)" by (simp only: word_of_int_uint)
  with r show ?thesis by simp
qed

text \<open>
  A processed slashing takes the stake times the rate in basis points,
  capped at the whole stake, rounded down; the stake loses exactly that amount and never goes below
  zero, the validator is jailed for the period, and can leave the jail from its end on and not
  before.
\<close>

theorem slash_processed_exact:
  assumes "0 \<le> vsTotalStake v" and "slash_terms cfg r = Some (rate, period)"
    and "ProcessSlashing cfg r v h = Inr (amount, v')"
  shows "amount = vsTotalStake v * min (uint rate) 10000 div 10000
    \<and> vsTotalStake v' = vsTotalStake v - amount \<and> 0 \<le> amount \<and> 0 \<le> vsTotalStake v'
    \<and> vsIsJailed v' \<and> vsJailedUntil v' = h + period
    \<and> \<not> (vsIsJailed v \<and> h < vsJailedUntil v)
    \<and> ((\<exists>v''. slash_Unjail v' h' = Inr v'') \<longleftrightarrow> h + period \<le> h')"
proof -
  define a where "a = vsTotalStake v * min (uint rate) 10000 div 10000"
  have "vsTotalStake v * min (uint rate) 10000 \<le> vsTotalStake v * 10000"
    using assms(1) by (intro mult_left_mono) simp_all
  then have le: "a \<le> vsTotalStake v" unfolding a_def by linarith
  have nonneg: "0 \<le> a" unfolding a_def using assms(1) by (simp add: pos_imp_zdiv_nonneg_iff)
  have a: "vsTotalStake v * sint (cap_rate rate) div 10000 = a"
    unfolding capped_rate a_def ..
  have free: "\<not> (vsIsJailed v \<and> h < vsJailedUntil v)"
    and res: "Inr (amount, v') = (Inr (a, v\<lparr>vsTotalStake := (if vsTotalStake v \<le> a then 0
        else vsTotalStake v - a), vsIsJailed := True, vsJailedUntil := h + period,
        vsSlashCount := vsSlashCount v + 1\<rparr>) :: slashing_error + _)"
    using assms(3) unfolding ProcessSlashing_def assms(2) option.case prod.case Let_def a
    by (metis Inr_Inl_False, metis Inr_Inl_False)
  from res have "amount = a" and v': "vsTotalStake v' = vsTotalStake v - a" "vsIsJailed v'"
      "vsJailedUntil v' = h + period"
    using le by auto
  then show ?thesis
    using le nonneg free unfolding a_def [symmetric] by (auto simp: slash_Unjail_def not_less)
qed

definition sample_offence :: slashing_record where
  "sample_offence = \<lparr>srReason = SlashingDoubleSign, srValidator = [1], srBlockHeight = 50,
     srEvidence = [], srSlashRate = 0, srJailPeriod = 0\<rparr>"

definition sample_state :: validator_state where
  "sample_state = \<lparr>vsTotalStake = 1001, vsIsJailed = False, vsJailedUntil = 0, vsSlashCount = 0\<rparr>"

theorem slash_processed_exact_witness:
  "\<exists>v'. ProcessSlashing DefaultSlashingConfig sample_offence sample_state 100 = Inr (500, v')
    \<and> vsTotalStake v' = 501 \<and> vsJailedUntil v' = 10100"
proof -
  obtain a v' where p: "ProcessSlashing DefaultSlashingConfig sample_offence sample_state 100
      = Inr (a, v')"
    by (auto simp: ProcessSlashing_def sample_state_def sample_offence_def slash_terms_def
        DefaultSlashingConfig_def cap_rate_def Let_def)
  have "slash_terms DefaultSlashingConfig sample_offence = Some (5000, 10000)"
    by (simp add: slash_terms_def sample_offence_def DefaultSlashingConfig_def)
  from slash_processed_exact [OF _ this p, of 0] p show ?thesis by (simp add: sample_state_def)
qed

text \<open>
  Nothing remembers which evidence was processed: once the jail period is over, the same record is
  slashed again, until it is too old.
\<close>

lemma evidence_slashed_again:
  "\<exists>v1 v2. ProcessSlashing DefaultSlashingConfig sample_offence sample_state 100 = Inr (500, v1)
    \<and> ProcessSlashing DefaultSlashingConfig sample_offence v1 10100 = Inr (250, v2)
    \<and> vsTotalStake v2 = 251"
  by (simp add: ProcessSlashing_def sample_state_def sample_offence_def slash_terms_def
      DefaultSlashingConfig_def cap_rate_def Let_def)

end
