(* ===== verification/Persistent_Chain.thy ===== *)
theory Persistent_Chain
  imports Mem_Chain KV_Store Tx_Pool Economics
begin

text \<open>
  The persistent block store (\<open>ledger/persistent_chain.go\<close>) with its transaction index
  (\<open>ledger/tx_index.go\<close>) and fork choice (\<open>ledger/fork_choice.go\<close>): blocks in the key-value
  store, the bounded cache in front of it, the economics and the transaction pool beside it.

  The block encoding (\<open>gob\<close>) and the index entries (\<open>json\<close>) of the standard library are fields of
  the environment; what is assumed of them is that decoding an encoded block returns it. A write to
  the store can fail, which is a flag of the operation; a failed write changes nothing. Operations
  hold the chain's lock and are one step; \<open>GetBlock\<close> releases it between its parts and is taken as
  one step as well.
\<close>

subsection \<open>State\<close>

record tx_index_entry =
  tieHash :: string
  tieHeight :: u64
  tieIndex :: nat
  tieFrom :: string
  tieTo :: string
  tieValue :: u64
  tieGasUsed :: u64

record receipt_log =
  lgAddress :: bytes
  lgTopics :: "bytes list"
  lgData :: bytes

record receipt =
  rcTxHash :: bytes
  rcBlockHeight :: u64
  rcGasUsed :: u64
  rcStatus :: byte
  rcLogs :: "receipt_log list"

record ('s, 'k) chain_env =
  ceLib :: "('s, 'k) crypto_lib"
  ceEncode :: "ledger_block \<Rightarrow> bytes option"
  ceDecode :: "bytes \<Rightarrow> ledger_block option"
  ceEntry :: "tx_index_entry \<Rightarrow> bytes"
  ceReadEntry :: "bytes \<Rightarrow> tx_index_entry option"
  ceReceipt :: "receipt \<Rightarrow> bytes option"
  ceReadReceipt :: "bytes \<Rightarrow> receipt option"

record chain =
  bcDb :: store
  bcPool :: tx_pool
  bcEconomics :: economics
  bcHeight :: u64
  bcTip :: bytes
  bcCache :: "(u64, ledger_block) gomap"
  bcCacheOrder :: "u64 list"
  bcCacheCap :: int

datatype pchain_error = BcInvalidHeight u64 u64 | BcGenesisByHash | BcInvalidPrevHash | BcInvalidBlock
  | BcEconomics economics_error | BcSerialize | BcWrite | BcIndex nat | BcEmptyHash | BcEmptyProposer
  | BcNotFound u64 | BcDecode | BcHashFormat | BcHashNotFound | BcShortNumber | BcFromTooHigh
  | BcNotInitialized | BcNoTip | BcInit pchain_error | BcLoad pchain_error | BcReceipt | BcRootHash
  | BcDiscontinuity u64 | BcTxNotFound | BcTxDecode

subsection \<open>Keys\<close>

definition blockKey :: "u64 \<Rightarrow> bytes" where "blockKey height = 0x01 # be_u64 height"
definition hashIndexKey :: "bytes \<Rightarrow> bytes" where "hashIndexKey hash = 0x02 # hash"
definition heightKey :: bytes where "heightKey = [0x03, 0x00]"
definition tipHashKey :: bytes where "tipHashKey = [0x03, 0x01]"
definition txIndexKey :: "bytes \<Rightarrow> bytes" where "txIndexKey hash = 0x04 # hash"
definition receiptKey :: "bytes \<Rightarrow> bytes" where "receiptKey hash = 0x05 # hash"

lemmas chain_keys = blockKey_def hashIndexKey_def heightKey_def tipHashKey_def txIndexKey_def
  receiptKey_def

definition bytesToUint64 :: "bytes \<Rightarrow> u64 option" where
  "bytesToUint64 b = (if length b < 8 then None else Some (shift_in (take 8 b)))"

subsection \<open>Cache and reads\<close>

definition touchCache :: "u64 \<Rightarrow> chain \<Rightarrow> chain" where
  "touchCache height bc = bc\<lparr>bcCacheOrder := touch height (bcCacheOrder bc)\<rparr>"

definition cacheBlock :: "ledger_block \<Rightarrow> chain \<Rightarrow> chain outcome" where
  "cacheBlock b bc = (case lbHeader b of
       None \<Rightarrow> Panics
     | Some h \<Rightarrow> (let (m, order) = lru_put (bcCacheCap bc) (bhHeight h) b (bcCache bc) (bcCacheOrder bc)
                  in Done (bc\<lparr>bcCache := m, bcCacheOrder := order\<rparr>)))"

definition GetBlock :: "('s, 'k) chain_env \<Rightarrow> u64 \<Rightarrow> chain
    \<Rightarrow> ((pchain_error + ledger_block) \<times> chain) outcome" where
  "GetBlock env height bc = (case goget (bcCache bc) height of
       Some b \<Rightarrow> Done (Inr b, touchCache height bc)
     | None \<Rightarrow> (case kv_Get (bcDb bc) (blockKey height) of
           None \<Rightarrow> Done (Inl (BcNotFound height), bc)
         | Some data \<Rightarrow> (case ceDecode env data of
               None \<Rightarrow> Done (Inl BcDecode, bc)
             | Some b \<Rightarrow> bind_outcome (cacheBlock b bc) (\<lambda>bc'. Done (Inr b, bc')))))"

definition GetBlockByHash :: "('s, 'k) chain_env \<Rightarrow> string \<Rightarrow> chain
    \<Rightarrow> ((pchain_error + ledger_block) \<times> chain) outcome" where
  "GetBlockByHash env hash bc =
     (let hashStr = (if 2 \<le> length hash \<and> take 2 hash = ''0x'' then drop 2 hash else hash)
      in case hex_DecodeString hashStr of
           None \<Rightarrow> Done (Inl BcHashFormat, bc)
         | Some hashBytes \<Rightarrow> (case kv_Get (bcDb bc) (hashIndexKey hashBytes) of
               None \<Rightarrow> Done (Inl BcHashNotFound, bc)
             | Some data \<Rightarrow> (case bytesToUint64 data of
                   None \<Rightarrow> Done (Inl BcShortNumber, bc)
                 | Some height \<Rightarrow> GetBlock env height bc)))"

text \<open>The loop of \<open>GetBlocks\<close>: for the largest height it never ends.\<close>

partial_function (option) get_blocks_loop :: "('s, 'k) chain_env \<Rightarrow> u64 \<Rightarrow> u64 \<Rightarrow> ledger_block list
    \<Rightarrow> (u64 \<times> pchain_error) list \<Rightarrow> chain
    \<Rightarrow> (ledger_block list \<times> (u64 \<times> pchain_error) list \<times> chain) outcome option" where
  "get_blocks_loop env h stop blocks errs bc =
     (if h \<le> stop
      then case GetBlock env h bc of
             Panics \<Rightarrow> Some Panics
           | Done (Inl e, bc') \<Rightarrow> get_blocks_loop env (h + 1) stop blocks (errs @ [(h, e)]) bc'
           | Done (Inr b, bc') \<Rightarrow> get_blocks_loop env (h + 1) stop (blocks @ [b]) errs bc'
      else Some (Done (blocks, errs, bc)))"

definition GetBlocks :: "('s, 'k) chain_env \<Rightarrow> u64 \<Rightarrow> u64 \<Rightarrow> chain
    \<Rightarrow> (pchain_error + (ledger_block list \<times> (u64 \<times> pchain_error) list \<times> chain) outcome) option" where
  "GetBlocks env from stop bc =
     (if bcHeight bc < from then Some (Inl BcFromTooHigh)
      else map_option Inr (get_blocks_loop env from (if bcHeight bc < stop then bcHeight bc else stop)
             [] [] bc))"

definition LatestBlock :: "('s, 'k) chain_env \<Rightarrow> chain
    \<Rightarrow> ((pchain_error + ledger_block) \<times> chain) outcome" where
  "LatestBlock env bc = GetBlock env (bcHeight bc) bc"

subsection \<open>Transaction index and receipts\<close>

definition hex_0x :: "bytes \<Rightarrow> string" where
  "hex_0x b = ''0x'' @ hexEncode b"

definition IndexTransaction ::
    "('s, 'k) chain_env \<Rightarrow> transaction \<Rightarrow> u64 \<Rightarrow> nat \<Rightarrow> store \<Rightarrow> store" where
  "IndexTransaction env tx height index db = kv_Put (txIndexKey (txHash tx))
     (ceEntry env \<lparr>tieHash = hex_0x (txHash tx), tieHeight = height, tieIndex = index,
        tieFrom = hex_0x (txFrom tx), tieTo = hex_0x (txTo tx), tieValue = txValue tx,
        tieGasUsed = 0\<rparr>) db"

text \<open>\<open>iok i\<close> says whether the write of the \<open>i\<close>-th entry succeeds; the first failure ends the loop.\<close>

fun IndexTransactions :: "('s, 'k) chain_env \<Rightarrow> (nat \<Rightarrow> bool) \<Rightarrow> nat \<Rightarrow> transaction list \<Rightarrow> u64 \<Rightarrow> store
    \<Rightarrow> pchain_error option \<times> store" where
  "IndexTransactions env iok i [] height db = (None, db)"
| "IndexTransactions env iok i (tx # txs) height db =
     (if iok i then IndexTransactions env iok (i + 1) txs height (IndexTransaction env tx height i db)
      else (Some (BcIndex i), db))"

definition GetTransaction :: "('s, 'k) chain_env \<Rightarrow> bytes \<Rightarrow> chain \<Rightarrow> pchain_error + tx_index_entry" where
  "GetTransaction env hash bc = (case kv_Get (bcDb bc) (txIndexKey hash) of
       None \<Rightarrow> Inl BcTxNotFound
     | Some data \<Rightarrow> (case ceReadEntry env data of None \<Rightarrow> Inl BcTxDecode | Some e \<Rightarrow> Inr e))"

fun receipt_batch :: "('s, 'k) chain_env \<Rightarrow> receipt list \<Rightarrow> batch_op list \<Rightarrow> batch_op list option" where
  "receipt_batch env [] ops = Some ops"
| "receipt_batch env (r # rs) ops = (case ceReceipt env r of
       None \<Rightarrow> None
     | Some data \<Rightarrow> receipt_batch env rs (batch_Put (receiptKey (rcTxHash r)) data ops))"

definition SaveReceipts :: "('s, 'k) chain_env \<Rightarrow> bool \<Rightarrow> receipt list \<Rightarrow> chain
    \<Rightarrow> pchain_error option \<times> chain" where
  "SaveReceipts env wok receipts bc = (case receipt_batch env receipts [] of
       None \<Rightarrow> (Some BcReceipt, bc)
     | Some ops \<Rightarrow> (if wok then (None, bc\<lparr>bcDb := snd (batch_Write ops (bcDb bc))\<rparr>)
                   else (Some BcWrite, bc)))"

definition GetReceipt :: "('s, 'k) chain_env \<Rightarrow> bytes \<Rightarrow> chain \<Rightarrow> pchain_error + receipt" where
  "GetReceipt env hash bc = (case kv_Get (bcDb bc) (receiptKey hash) of
       None \<Rightarrow> Inl BcReceipt
     | Some data \<Rightarrow> (case ceReadReceipt env data of None \<Rightarrow> Inl BcReceipt | Some r \<Rightarrow> Inr r))"

subsection \<open>Adding blocks\<close>

definition block_batch :: "bytes \<Rightarrow> bytes \<Rightarrow> u64 \<Rightarrow> batch_op list" where
  "block_batch data hash height =
     batch_Put tipHashKey hash (batch_Put heightKey (be_u64 height)
       (batch_Put (hashIndexKey hash) (be_u64 height) (batch_Put (blockKey height) data [])))"

definition AddBlock :: "('s, 'k) chain_env \<Rightarrow> int \<Rightarrow> bool \<Rightarrow> (nat \<Rightarrow> bool) \<Rightarrow> ledger_block \<Rightarrow> chain
    \<Rightarrow> (pchain_error option \<times> chain) outcome" where
  "AddBlock env now wok iok b bc = (case lbHeader b of
       None \<Rightarrow> Panics
     | Some h \<Rightarrow>
         (if bhHeight h \<noteq> bcHeight bc + 1
          then Done (Some (BcInvalidHeight (bcHeight bc + 1) (bhHeight h)), bc)
          else if bhPrevHash h \<noteq> bcTip bc then Done (Some BcInvalidPrevHash, bc)
          else bind_outcome (block_Verify (ceLib env) now b) (\<lambda>ok.
            if \<not> ok then Done (Some BcInvalidBlock, bc)
            else bind_outcome (eco_ProcessBlock (bcEconomics bc) (lbTransactions b) (bhHeight h)) (\<lambda>r.
              case r of
                Inl e \<Rightarrow> Done (Some (BcEconomics e), bc)
              | Inr (_, eco) \<Rightarrow> (let bc1 = bc\<lparr>bcEconomics := eco\<rparr> in case ceEncode env b of
                    None \<Rightarrow> Done (Some BcSerialize, bc1)
                  | Some data \<Rightarrow> bind_outcome (block_Hash (ceLib env) b) (\<lambda>hash.
                      if \<not> wok then Done (Some BcWrite, bc1)
                      else bind_outcome (cacheBlock b (bc1\<lparr>
                          bcDb := snd (batch_Write (block_batch data hash (bhHeight h)) (bcDb bc1)),
                          bcHeight := bhHeight h, bcTip := hash\<rparr>)) (\<lambda>bc2.
                        let bc3 = bc2\<lparr>bcPool := RemoveConfirmed (lbTransactions b) (bcPool bc2)\<rparr>;
                            (e, db) = IndexTransactions env iok 0 (lbTransactions b) (bhHeight h) (bcDb bc3)
                        in Done (e, bc3\<lparr>bcDb := db\<rparr>))))))))"

definition AddBlockByHash :: "('s, 'k) chain_env \<Rightarrow> bool \<Rightarrow> u64 \<Rightarrow> bytes \<Rightarrow> bytes \<Rightarrow> bytes \<Rightarrow> chain
    \<Rightarrow> (pchain_error option \<times> chain) outcome" where
  "AddBlockByHash env wok height prevHash blockHash proposer bc =
     (if height = 0 then Done (Some BcGenesisByHash, bc)
      else if height \<noteq> bcHeight bc + 1
      then Done (Some (BcInvalidHeight (bcHeight bc + 1) height), bc)
      else if prevHash \<noteq> bcTip bc then Done (Some BcInvalidPrevHash, bc)
      else if length blockHash = 0 then Done (Some BcEmptyHash, bc)
      else if length proposer = 0 then Done (Some BcEmptyProposer, bc)
      else let b = block_by_hash (ceLib env) height prevHash blockHash proposer
        in bind_outcome (eco_ProcessBlock (bcEconomics bc) [] height) (\<lambda>r. case r of
             Inl e \<Rightarrow> Done (Some (BcEconomics e), bc)
           | Inr (_, eco) \<Rightarrow> (let bc1 = bc\<lparr>bcEconomics := eco\<rparr> in case ceEncode env b of
                 None \<Rightarrow> Done (Some BcSerialize, bc1)
               | Some data \<Rightarrow>
                   (if \<not> wok then Done (Some BcWrite, bc1)
                    else bind_outcome (cacheBlock b (bc1\<lparr>
                        bcDb := snd (batch_Write (block_batch data blockHash height) (bcDb bc1)),
                        bcHeight := height, bcTip := blockHash\<rparr>)) (\<lambda>bc2. Done (None, bc2))))))"

subsection \<open>Opening\<close>

definition loadFromDB :: "chain \<Rightarrow> pchain_error + chain" where
  "loadFromDB bc = (case kv_Get (bcDb bc) heightKey of
       None \<Rightarrow> Inl BcNotInitialized
     | Some heightData \<Rightarrow> (case bytesToUint64 heightData of
           None \<Rightarrow> Inl BcShortNumber
         | Some height \<Rightarrow> (case kv_Get (bcDb bc) tipHashKey of
               None \<Rightarrow> Inl BcNoTip
             | Some tipHash \<Rightarrow> Inr (bc\<lparr>bcHeight := height, bcTip := tipHash\<rparr>))))"

definition initializeGenesis :: "('s, 'k) chain_env \<Rightarrow> bool \<Rightarrow> chain
    \<Rightarrow> (pchain_error + chain) outcome" where
  "initializeGenesis env wok bc =
     bind_outcome (block_Hash (ceLib env) (CreateGenesisBlock (ceLib env))) (\<lambda>genesisHash.
       case ceEncode env (CreateGenesisBlock (ceLib env)) of
         None \<Rightarrow> Done (Inl BcSerialize)
       | Some data \<Rightarrow>
           (if \<not> wok then Done (Inl BcWrite)
            else Done (Inr (bc\<lparr>bcDb := snd (batch_Write (block_batch data genesisHash 0) (bcDb bc)),
                               bcHeight := 0, bcTip := genesisHash\<rparr>))))"

definition NewPersistentBlockchain :: "('s, 'k) chain_env \<Rightarrow> bool \<Rightarrow> store
    \<Rightarrow> (pchain_error + chain) outcome" where
  "NewPersistentBlockchain env wok db =
     (let bc = \<lparr>bcDb = db, bcPool = NewTxPool None, bcEconomics = NewEconomics None, bcHeight = 0,
                bcTip = [], bcCache = [], bcCacheOrder = [], bcCacheCap = 1000\<rparr>
      in case loadFromDB bc of
           Inl BcNotInitialized \<Rightarrow> bind_outcome (initializeGenesis env wok bc) (\<lambda>r. case r of
               Inl e \<Rightarrow> Done (Inl (BcInit e)) | Inr bc' \<Rightarrow> Done (Inr bc'))
         | Inl e \<Rightarrow> Done (Inl (BcLoad e))
         | Inr bc' \<Rightarrow> Done (Inr bc'))"

text \<open>The height is set before the hash is looked at.\<close>

definition ImportStateSnapshot :: "u64 \<Rightarrow> string \<Rightarrow> chain \<Rightarrow> pchain_error option \<times> chain" where
  "ImportStateSnapshot blockHeight rootHash bc =
     (let bc1 = bc\<lparr>bcHeight := blockHeight\<rparr>;
          hashStr = (if 2 \<le> length rootHash \<and> take 2 rootHash = ''0x'' then drop 2 rootHash else rootHash)
      in case hex_DecodeString hashStr of
           None \<Rightarrow> (Some BcRootHash, bc1)
         | Some tipHash \<Rightarrow> (None, bc1\<lparr>bcTip := tipHash\<rparr>))"

subsection \<open>Checking the chain\<close>

partial_function (option) validate_loop :: "('s, 'k) chain_env \<Rightarrow> int \<Rightarrow> u64 \<Rightarrow> u64 \<Rightarrow> chain
    \<Rightarrow> (bool \<times> chain) outcome option" where
  "validate_loop env now h stop bc =
     (if h \<le> stop
      then case GetBlock env h bc of
             Panics \<Rightarrow> Some Panics
           | Done (Inl e, bc1) \<Rightarrow> Some (Done (False, bc1))
           | Done (Inr b, bc1) \<Rightarrow> (case block_Verify (ceLib env) now b of
                 Panics \<Rightarrow> Some Panics
               | Done ok \<Rightarrow>
                   (if \<not> ok then Some (Done (False, bc1))
                    else case GetBlock env (h - 1) bc1 of
                        Panics \<Rightarrow> Some Panics
                      | Done (Inl e, bc2) \<Rightarrow> Some (Done (False, bc2))
                      | Done (Inr p, bc2) \<Rightarrow> (case (lbHeader b, block_Hash (ceLib env) p) of
                            (Some bh, Done hash) \<Rightarrow>
                              (if bhPrevHash bh \<noteq> hash then Some (Done (False, bc2))
                               else validate_loop env now (h + 1) stop bc2)
                          | _ \<Rightarrow> Some Panics)))
      else Some (Done (True, bc)))"

definition bc_Validate :: "('s, 'k) chain_env \<Rightarrow> int \<Rightarrow> chain \<Rightarrow> (bool \<times> chain) outcome option" where
  "bc_Validate env now bc = validate_loop env now 1 (bcHeight bc) bc"

partial_function (option) continuity_loop :: "('s, 'k) chain_env \<Rightarrow> u64 \<Rightarrow> u64 \<Rightarrow> chain
    \<Rightarrow> (pchain_error option \<times> chain) outcome option" where
  "continuity_loop env h stop bc =
     (if h \<le> stop
      then case GetBlock env h bc of
             Panics \<Rightarrow> Some Panics
           | Done (Inl e, bc1) \<Rightarrow> Some (Done (Some e, bc1))
           | Done (Inr b, bc1) \<Rightarrow> (case GetBlock env (h - 1) bc1 of
                 Panics \<Rightarrow> Some Panics
               | Done (Inl e, bc2) \<Rightarrow> Some (Done (Some e, bc2))
               | Done (Inr p, bc2) \<Rightarrow> (case (lbHeader b, block_Hash (ceLib env) p) of
                     (Some bh, Done hash) \<Rightarrow>
                       (if bhPrevHash bh \<noteq> hash then Some (Done (Some (BcDiscontinuity h), bc2))
                        else continuity_loop env (h + 1) stop bc2)
                   | _ \<Rightarrow> Some Panics))
      else Some (Done (None, bc)))"

definition ValidateChainContinuity ::
    "('s, 'k) chain_env \<Rightarrow> chain \<Rightarrow> (pchain_error option \<times> chain) outcome option" where
  "ValidateChainContinuity env bc = continuity_loop env 1 (bcHeight bc) bc"

subsection \<open>Fork choice\<close>

record reorg_result =
  rrOldTip :: u64
  rrNewTip :: u64
  rrCommonAncestor :: u64
  rrReorgDepth :: u64

definition computeChainWeight :: "u64 \<Rightarrow> ledger_block \<Rightarrow> u64" where
  "computeChainWeight height b = push_bit 32 height + of_nat (length (lbTransactions b))"

definition computeChainWeightFromHeight :: "u64 \<Rightarrow> u64" where
  "computeChainWeightFromHeight height = push_bit 32 height"

text \<open>
  \<open>Height()\<close> takes the chain's read lock. Go's \<open>RWMutex\<close> is not reentrant: the call never returns
  when the caller already holds the write lock, which is the \<open>None\<close> here.
\<close>

definition Height_locked :: "bool \<Rightarrow> chain \<Rightarrow> u64 option" where
  "Height_locked write_held bc = (if write_held then None else Some (bcHeight bc))"

definition findCommonAncestorHeight :: "bool \<Rightarrow> chain \<Rightarrow> u64 \<Rightarrow> u64 option" where
  "findCommonAncestorHeight write_held bc candidateHeight =
     (case Height_locked write_held bc of
        None \<Rightarrow> None
      | Some currentHeight \<Rightarrow>
          Some (if candidateHeight < currentHeight then candidateHeight else currentHeight))"

definition SelectChain :: "chain \<Rightarrow> ledger_block \<Rightarrow> reorg_result option outcome" where
  "SelectChain bc candidate = (case lbHeader candidate of
       None \<Rightarrow> Panics
     | Some h \<Rightarrow>
         (if bhHeight h \<le> bcHeight bc then Done None
          else if computeChainWeight (bhHeight h) candidate
                    \<le> computeChainWeightFromHeight (bcHeight bc) then Done None
          else case findCommonAncestorHeight False bc (bhHeight h) of
                 None \<Rightarrow> Done None
               | Some common \<Rightarrow> Done (Some \<lparr>rrOldTip = bcHeight bc, rrNewTip = bhHeight h,
                   rrCommonAncestor = common, rrReorgDepth = bhHeight h - bcHeight bc\<rparr>)))"

text \<open>
  \<open>ProcessReorg\<close> up to its first look at the height, which it takes with the write lock held: what
  follows in the code is only reached when that look returns.
\<close>

definition ProcessReorg_start :: "ledger_block list \<Rightarrow> chain \<Rightarrow> (chain \<times> u64 option) outcome option" where
  "ProcessReorg_start newBlocks bc =
     (if length newBlocks = 0 then Some (Done (bc, None))
      else case lbHeader (hd newBlocks) of
             None \<Rightarrow> map_option (\<lambda>_. Panics) (Height_locked True bc)
           | Some h \<Rightarrow> map_option (\<lambda>common. Done (bc, Some common))
                         (findCommonAncestorHeight True bc (bhHeight h)))"

definition HandleSideBlock :: "ledger_block \<Rightarrow> chain \<Rightarrow> (reorg_result option \<times> chain) outcome option" where
  "HandleSideBlock b bc = (case lbHeader b of
       None \<Rightarrow> Some Panics
     | Some h \<Rightarrow>
         (if bhHeight h \<le> bcHeight bc then Some (Done (None, bc))
          else case SelectChain bc b of
                 Panics \<Rightarrow> Some Panics
               | Done None \<Rightarrow> Some (Done (None, bc))
               | Done (Some result) \<Rightarrow> (case ProcessReorg_start [b] bc of
                     None \<Rightarrow> None
                   | Some Panics \<Rightarrow> Some Panics
                   | Some (Done (bc', _)) \<Rightarrow> Some (Done (Some result, bc')))))"

lemma reorg_deadlocks: "newBlocks \<noteq> [] \<Longrightarrow> ProcessReorg_start newBlocks bc = None"
  by (simp add: ProcessReorg_start_def findCommonAncestorHeight_def Height_locked_def
      split: option.splits)

text \<open>The weight loses the high half of the height: a block far ahead can weigh less.\<close>

lemma weight_wraps: "computeChainWeight (2 ^ 32) (b\<lparr>lbTransactions := []\<rparr>) < computeChainWeightFromHeight 1"
  by (simp add: computeChainWeight_def computeChainWeightFromHeight_def)

subsection \<open>What is stored\<close>

definition stored :: "('s, 'k) chain_env \<Rightarrow> store \<Rightarrow> u64 \<Rightarrow> ledger_block option" where
  "stored env db height = (case kv_Get db (blockKey height) of
       None \<Rightarrow> None | Some data \<Rightarrow> ceDecode env data)"

text \<open>The chain in the store, from the genesis block to a height.\<close>

definition chain_in :: "('s, 'k) chain_env \<Rightarrow> u64 \<Rightarrow> store \<Rightarrow> ledger_block list" where
  "chain_in env height db = map (\<lambda>i. the (stored env db (of_nat i))) [0..<Suc (unat height)]"

definition chain_of :: "('s, 'k) chain_env \<Rightarrow> chain \<Rightarrow> ledger_block list" where
  "chain_of env bc = chain_in env (bcHeight bc) (bcDb bc)"

text \<open>What is assumed of the standard library's codec.\<close>

definition chain_env_ok :: "('s, 'k) chain_env \<Rightarrow> bool" where
  "chain_env_ok env \<longleftrightarrow> (\<forall>b d. ceEncode env b = Some d \<longrightarrow> ceDecode env d = Some b)"

text \<open>A store that holds a chain up to a height, whose last block has the hash \<open>tip\<close>.\<close>

definition db_ok :: "('s, 'k) chain_env \<Rightarrow> nat \<Rightarrow> u64 \<Rightarrow> bytes \<Rightarrow> store \<Rightarrow> bool" where
  "db_ok env n height tip db \<longleftrightarrow> Suc (unat height) + n \<le> 2 ^ 64
     \<and> kv_Get db heightKey = Some (be_u64 height) \<and> kv_Get db tipHashKey = Some tip
     \<and> (\<forall>i \<le> height. \<exists>b h. stored env db i = Some b \<and> lbHeader b = Some h \<and> bhHeight h = i)
     \<and> (\<forall>i > height. kv_Get db (blockKey i) = None)
     \<and> block_Hash (ceLib env) (the (stored env db height)) = Done tip"

definition cache_ok :: "('s, 'k) chain_env \<Rightarrow> chain \<Rightarrow> bool" where
  "cache_ok env bc \<longleftrightarrow> bcCacheCap bc = 1000 \<and> lru_ok 1000 (bcCache bc) (bcCacheOrder bc)
     \<and> (\<forall>i b. goget (bcCache bc) i = Some b \<longrightarrow> stored env (bcDb bc) i = Some b)"

definition pc_inv :: "('s, 'k) chain_env \<Rightarrow> nat \<Rightarrow> chain \<Rightarrow> bool" where
  "pc_inv env n bc \<longleftrightarrow> db_ok env n (bcHeight bc) (bcTip bc) (bcDb bc) \<and> cache_ok env bc
     \<and> ecHalvingInterval (eConfig (bcEconomics bc)) \<noteq> 0"

lemma block_batch_get:
  "kv_Get (snd (batch_Write (block_batch data hash height) db)) k
    = (if k = tipHashKey then Some hash else if k = heightKey then Some (be_u64 height)
       else if k = hashIndexKey hash then Some (be_u64 height)
       else if k = blockKey height then Some data else kv_Get db k)"
  by (simp add: kv_Get_batch block_batch_def batch_Put_def op_pair_def)

lemma index_get:
  "IndexTransactions env iok i txs height db = (e, db') \<Longrightarrow> (\<And>x. k \<noteq> txIndexKey x) \<Longrightarrow>
    kv_Get db' k = kv_Get db k"
  by (induction txs arbitrary: i db) (auto simp: IndexTransaction_def split: if_splits)

lemma key_distinct [simp]:
  "blockKey i \<noteq> heightKey" "blockKey i \<noteq> tipHashKey" "blockKey i \<noteq> hashIndexKey x"
  "blockKey i \<noteq> txIndexKey x" "blockKey i \<noteq> receiptKey x" "heightKey \<noteq> tipHashKey"
  "heightKey \<noteq> txIndexKey x" "tipHashKey \<noteq> txIndexKey x" "heightKey \<noteq> receiptKey x"
  "tipHashKey \<noteq> receiptKey x" "heightKey \<noteq> hashIndexKey x" "tipHashKey \<noteq> hashIndexKey x"
  "blockKey i = blockKey j \<longleftrightarrow> i = j"
  by (simp_all add: chain_keys)

lemma chain_in_nth: "i \<le> unat height \<Longrightarrow> chain_in env height db ! i = the (stored env db (of_nat i))"
  by (simp add: chain_in_def del: upt_Suc)

lemma length_chain_in [simp]: "length (chain_in env height db) = Suc (unat height)"
  by (simp add: chain_in_def)

lemma chain_in_nonempty [simp]: "chain_in env height db \<noteq> []"
  by (simp add: chain_in_def)

lemma last_chain_in: "last (chain_in env height db) = the (stored env db height)"
  by (simp add: chain_in_def)

lemma next_height:
  assumes "db_ok env (Suc n) height tip db"
  shows "unat (height + 1) = Suc (unat height)" and "height < height + 1"
proof -
  have "unat height + 1 < 2 ^ 64" using assms by (simp add: db_ok_def)
  then show "unat (height + 1) = Suc (unat height)"
    using unat_word_ariths(1) [of height 1] by simp
  then show "height < height + 1" by (simp add: word_less_nat_alt)
qed

text \<open>Writing the next block extends the chain in the store by it.\<close>

lemma db_append:
  assumes env: "chain_env_ok env" and ok: "db_ok env (Suc n) height tip db"
    and b: "ceEncode env b = Some data" "lbHeader b = Some h" "bhHeight h = height + 1"
      "block_Hash (ceLib env) b = Done hash"
    and db': "\<And>k. (\<And>x. k \<noteq> txIndexKey x) \<Longrightarrow>
      kv_Get db' k = kv_Get (snd (batch_Write (block_batch data hash (height + 1)) db)) k"
  shows "db_ok env n (height + 1) hash db'"
    and "chain_in env (height + 1) db' = chain_in env height db @ [b]"
    and "i \<noteq> height + 1 \<Longrightarrow> stored env db' i = stored env db i"
    and "stored env db' (height + 1) = Some b"
proof -
  note next' = next_height [OF ok]
  have old: "stored env db' i = stored env db i" if "i \<noteq> height + 1" for i
    using that db' [of "blockKey i"] by (simp add: stored_def block_batch_get)
  have new: "stored env db' (height + 1) = Some b"
    using db' [of "blockKey (height + 1)"] env b(1)
    by (simp add: stored_def block_batch_get chain_env_ok_def)
  show "stored env db' (height + 1) = Some b" by (rule new)
  show "i \<noteq> height + 1 \<Longrightarrow> stored env db' i = stored env db i" by (rule old)
  have le: "i \<le> height" if "i \<le> height + 1" "i \<noteq> height + 1" for i
  proof -
    have "i < height + 1" using that by simp
    then have "unat i < Suc (unat height)" using next'(1) by (simp add: word_less_nat_alt)
    then show ?thesis by (simp add: word_le_nat_alt)
  qed
  show "db_ok env n (height + 1) hash db'"
    unfolding db_ok_def
  proof (intro conjI allI impI)
    show "Suc (unat (height + 1)) + n \<le> 2 ^ 64" using ok next'(1) by (simp add: db_ok_def)
    show "kv_Get db' heightKey = Some (be_u64 (height + 1))"
      using db' [of heightKey] by (simp add: block_batch_get)
    show "kv_Get db' tipHashKey = Some hash" using db' [of tipHashKey] by (simp add: block_batch_get)
    show "block_Hash (ceLib env) (the (stored env db' (height + 1))) = Done hash"
      using b(4) new by simp
    show "\<exists>b h. stored env db' i = Some b \<and> lbHeader b = Some h \<and> bhHeight h = i"
      if "i \<le> height + 1" for i
      using that le [of i] old [of i] new ok b(2,3) by (cases "i = height + 1") (auto simp: db_ok_def)
    show "kv_Get db' (blockKey i) = None" if "height + 1 < i" for i
    proof -
      have "height < i" using that next'(2) by (rule less_trans [rotated])
      then show ?thesis using ok that db' [of "blockKey i"] by (auto simp: block_batch_get db_ok_def)
    qed
  qed
  have other: "of_nat i \<noteq> height + 1" if "i < Suc (unat height)" for i
  proof
    assume "of_nat i = height + 1"
    moreover have "unat (of_nat i :: u64) = i"
    proof -
      have "i < 2 ^ 64" using that ok by (simp add: db_ok_def)
      then show ?thesis by (simp add: unat_of_nat)
    qed
    ultimately show False using that next'(1) by simp
  qed
  have "map (\<lambda>i. the (stored env db' (of_nat i))) [0..<Suc (unat height)]
      = map (\<lambda>i. the (stored env db (of_nat i))) [0..<Suc (unat height)]"
    by (intro map_cong refl arg_cong [of _ _ the] old other) (simp del: upt_Suc)
  moreover have "(of_nat (Suc (unat height)) :: u64) = height + 1" by simp
  ultimately show "chain_in env (height + 1) db' = chain_in env height db @ [b]"
    unfolding chain_in_def next'(1) by (subst upt_Suc) (simp add: new del: upt_Suc of_nat_Suc)
qed

subsection \<open>Reads\<close>

text \<open>The reference of \<open>GetBlock\<close>: the store without the cache.\<close>

definition read_db :: "('s, 'k) chain_env \<Rightarrow> u64 \<Rightarrow> store \<Rightarrow> pchain_error + ledger_block" where
  "read_db env height db = (case kv_Get db (blockKey height) of
       None \<Rightarrow> Inl (BcNotFound height)
     | Some data \<Rightarrow> (case ceDecode env data of None \<Rightarrow> Inl BcDecode | Some b \<Rightarrow> Inr b))"

definition same_chain :: "chain \<Rightarrow> chain \<Rightarrow> bool" where
  "same_chain bc bc' \<longleftrightarrow> bcDb bc' = bcDb bc \<and> bcHeight bc' = bcHeight bc \<and> bcTip bc' = bcTip bc
     \<and> bcEconomics bc' = bcEconomics bc \<and> bcPool bc' = bcPool bc"

lemma GetBlock_inv:
  assumes "pc_inv env n bc"
  shows "\<exists>bc'. GetBlock env i bc = Done (read_db env i (bcDb bc), bc') \<and> pc_inv env n bc'
    \<and> same_chain bc bc'"
proof (cases "goget (bcCache bc) i")
  case (Some b)
  then have "stored env (bcDb bc) i = Some b" using assms by (simp add: pc_inv_def cache_ok_def)
  then have "read_db env i (bcDb bc) = Inr b"
    by (auto simp: stored_def read_db_def split: option.splits)
  moreover have "pc_inv env n (touchCache i bc)"
    using assms by (simp add: pc_inv_def cache_ok_def touchCache_def lru_ok_touch)
  ultimately show ?thesis using Some by (simp add: GetBlock_def same_chain_def touchCache_def)
next
  case None
  show ?thesis
  proof (cases "stored env (bcDb bc) i")
    case none: None
    then show ?thesis
      using None assms by (auto simp: GetBlock_def read_db_def stored_def same_chain_def split: option.splits)
  next
    case (Some b)
    then obtain d where d: "kv_Get (bcDb bc) (blockKey i) = Some d" "ceDecode env d = Some b"
      by (auto simp: stored_def split: option.splits)
    then have "i \<le> bcHeight bc" using assms by (fastforce simp: pc_inv_def db_ok_def not_less [symmetric])
    then obtain h where h: "lbHeader b = Some h" "bhHeight h = i"
      using assms Some by (fastforce simp: pc_inv_def db_ok_def)
    obtain m order where put: "lru_put 1000 i b (bcCache bc) (bcCacheOrder bc) = (m, order)"
      by fastforce
    let ?bc' = "bc\<lparr>bcCache := m, bcCacheOrder := order\<rparr>"
    have "cache_ok env ?bc'"
      using assms Some lru_ok_put [OF _ put] lru_put_get [OF put]
      by (auto simp: pc_inv_def cache_ok_def)
    moreover have "bcCacheCap bc = 1000" using assms by (simp add: pc_inv_def cache_ok_def)
    ultimately show ?thesis
      using None d h put assms
      by (simp add: GetBlock_def read_db_def cacheBlock_def same_chain_def pc_inv_def)
  qed
qed

subsection \<open>Additions\<close>

lemma bind_outcome_done: "bind_outcome r f = Done x \<longleftrightarrow> (\<exists>y. r = Done y \<and> f y = Done x)"
  by (cases r) auto

lemma AddBlock_split:
  assumes "AddBlock env now wok iok b bc = Done (e, bc')"
  obtains (refused) "e \<noteq> None" "\<forall>i. e \<noteq> Some (BcIndex i)" "e \<noteq> Some BcWrite"
      "e \<noteq> Some BcSerialize" "bc' = bc"
    | (unwritten) rep eco h where "e = Some BcSerialize \<or> e = Some BcWrite" "lbHeader b = Some h"
      "eco_ProcessBlock (bcEconomics bc) (lbTransactions b) (bhHeight h) = Done (Inr (rep, eco))"
      "bc' = bc\<lparr>bcEconomics := eco\<rparr>"
    | (added) h rep eco data hash bc2 db where "lbHeader b = Some h" "bhHeight h = bcHeight bc + 1"
      "bhPrevHash h = bcTip bc" "block_Verify (ceLib env) now b = Done True" "wok"
      "eco_ProcessBlock (bcEconomics bc) (lbTransactions b) (bhHeight h) = Done (Inr (rep, eco))"
      "ceEncode env b = Some data" "block_Hash (ceLib env) b = Done hash"
      "cacheBlock b (bc\<lparr>bcEconomics := eco,
         bcDb := snd (batch_Write (block_batch data hash (bhHeight h)) (bcDb bc)),
         bcHeight := bhHeight h, bcTip := hash\<rparr>) = Done bc2"
      "IndexTransactions env iok 0 (lbTransactions b) (bhHeight h) (bcDb bc2) = (e, db)"
      "bc' = bc2\<lparr>bcPool := RemoveConfirmed (lbTransactions b) (bcPool bc2), bcDb := db\<rparr>"
proof -
  obtain h where h: "lbHeader b = Some h" using assms by (auto simp: AddBlock_def split: option.splits)
  show ?thesis
  proof (cases "bhHeight h = bcHeight bc + 1 \<and> bhPrevHash h = bcTip bc")
    case False
    then show ?thesis using assms h by (intro refused) (auto simp: AddBlock_def split: if_split_asm)
  next
    case True
    with assms h obtain ok where ok: "block_Verify (ceLib env) now b = Done ok"
      by (auto simp: AddBlock_def bind_outcome_done)
    show ?thesis
    proof (cases ok)
      case False
      then show ?thesis using assms h True ok by (intro refused) (auto simp: AddBlock_def)
    next
      case verified: True
      with assms h True ok obtain r where
        r: "eco_ProcessBlock (bcEconomics bc) (lbTransactions b) (bhHeight h) = Done r"
        by (auto simp: AddBlock_def bind_outcome_done)
      show ?thesis
      proof (cases r)
        case (Inl x)
        then show ?thesis using assms h True ok verified r by (intro refused) (auto simp: AddBlock_def)
      next
        case (Inr x)
        then obtain rep eco where x: "r = Inr (rep, eco)" by (cases x) auto
        show ?thesis
        proof (cases "ceEncode env b")
          case None
          then show ?thesis using assms h True ok verified r x
            by (intro unwritten) (auto simp: AddBlock_def)
        next
          case (Some data)
          obtain hash where hash: "block_Hash (ceLib env) b = Done hash"
            using block_Hash_done [OF h] by blast
          show ?thesis
          proof (cases wok)
            case False
            then show ?thesis using assms h True ok verified r x Some hash
              by (intro unwritten) (auto simp: AddBlock_def)
          next
            case written: True
            let ?bc1 = "bc\<lparr>bcEconomics := eco,
              bcDb := snd (batch_Write (block_batch data hash (bhHeight h)) (bcDb bc)),
              bcHeight := bhHeight h, bcTip := hash\<rparr>"
            from written assms h True ok verified r x Some hash
            obtain bc2 where bc2: "cacheBlock b ?bc1 = Done bc2"
              by (auto simp: AddBlock_def bind_outcome_done)
            obtain e' db where idx:
                "IndexTransactions env iok 0 (lbTransactions b) (bhHeight h) (bcDb bc2) = (e', db)"
              by fastforce
            have "e = e'" "bc' = bc2\<lparr>bcPool := RemoveConfirmed (lbTransactions b) (bcPool bc2), bcDb := db\<rparr>"
              using written assms h True ok verified r x Some hash bc2 idx
              by (auto simp: AddBlock_def bind_outcome_done)
            then show ?thesis
              using True written r x ok verified idx bc2 by (intro added [OF h]) (auto simp: Some hash)
          qed
        qed
      qed
    qed
  qed
qed

lemma AddBlockByHash_split:
  assumes "AddBlockByHash env wok height prev bhash proposer bc = Done (e, bc')"
  obtains (refused) "e \<noteq> None" "bc' = bc"
    | (unwritten) rep eco where "e = Some BcSerialize \<or> e = Some BcWrite"
      "eco_ProcessBlock (bcEconomics bc) [] height = Done (Inr (rep, eco))"
      "bc' = bc\<lparr>bcEconomics := eco\<rparr>"
    | (added) rep eco data where "e = None" "height = bcHeight bc + 1" "prev = bcTip bc"
      "bhash \<noteq> []" "proposer \<noteq> []" "wok"
      "eco_ProcessBlock (bcEconomics bc) [] height = Done (Inr (rep, eco))"
      "ceEncode env (block_by_hash (ceLib env) height prev bhash proposer) = Some data"
      "cacheBlock (block_by_hash (ceLib env) height prev bhash proposer) (bc\<lparr>bcEconomics := eco,
         bcDb := snd (batch_Write (block_batch data bhash height) (bcDb bc)),
         bcHeight := height, bcTip := bhash\<rparr>) = Done bc'"
proof (cases "height = 0 \<or> height \<noteq> bcHeight bc + 1 \<or> prev \<noteq> bcTip bc \<or> bhash = [] \<or> proposer = []")
  case True
  then show ?thesis using assms by (intro refused) (auto simp: AddBlockByHash_def split: if_split_asm)
next
  case False
  with assms obtain r where r: "eco_ProcessBlock (bcEconomics bc) [] height = Done r"
    by (auto simp: AddBlockByHash_def Let_def bind_outcome_done)
  show ?thesis
  proof (cases r)
    case (Inl x)
    then show ?thesis using assms False r by (intro refused) (auto simp: AddBlockByHash_def Let_def)
  next
    case (Inr x)
    then obtain rep eco where x: "r = Inr (rep, eco)" by (cases x) auto
    show ?thesis
    proof (cases "ceEncode env (block_by_hash (ceLib env) height prev bhash proposer)")
      case None
      then show ?thesis using assms False r x
        by (intro unwritten) (auto simp: AddBlockByHash_def Let_def)
    next
      case (Some data)
      show ?thesis
      proof (cases wok)
        case False
        then show ?thesis using assms \<open>\<not> (height = 0 \<or> _)\<close> r x Some
          by (intro unwritten) (auto simp: AddBlockByHash_def Let_def)
      next
        case written: True
        with assms False r x Some show ?thesis
          by (intro added [of rep eco data]) (auto simp: AddBlockByHash_def Let_def bind_outcome_done)
      qed
    qed
  qed
qed

text \<open>Both additions end the same way: the store, the cache and the fields move to the new block.\<close>

lemma commit_inv:
  assumes env: "chain_env_ok env" and inv: "pc_inv env (Suc n) bc"
    and b: "ceEncode env b = Some data" "lbHeader b = Some h" "bhHeight h = bcHeight bc + 1"
      "block_Hash (ceLib env) b = Done hash"
    and eco: "ecHalvingInterval (eConfig eco) \<noteq> 0"
    and cached: "cacheBlock b (bc\<lparr>bcEconomics := eco,
         bcDb := snd (batch_Write (block_batch data hash (bhHeight h)) (bcDb bc)),
         bcHeight := bhHeight h, bcTip := hash\<rparr>) = Done bc2"
    and db': "\<And>k. (\<And>x. k \<noteq> txIndexKey x) \<Longrightarrow> kv_Get db' k = kv_Get (bcDb bc2) k"
  shows "pc_inv env n (bc2\<lparr>bcPool := p, bcDb := db'\<rparr>)"
    and "chain_of env (bc2\<lparr>bcPool := p, bcDb := db'\<rparr>) = chain_of env bc @ [b]"
proof -
  have cap: "bcCacheCap bc = 1000" and lru: "lru_ok 1000 (bcCache bc) (bcCacheOrder bc)"
    and sound: "\<And>i c. goget (bcCache bc) i = Some c \<Longrightarrow> stored env (bcDb bc) i = Some c"
    and db: "db_ok env (Suc n) (bcHeight bc) (bcTip bc) (bcDb bc)"
    using inv by (simp_all add: pc_inv_def cache_ok_def)
  obtain m order where put: "lru_put 1000 (bcHeight bc + 1) b (bcCache bc) (bcCacheOrder bc) = (m, order)"
    by fastforce
  have bc2: "bc2 = bc\<lparr>bcEconomics := eco,
      bcDb := snd (batch_Write (block_batch data hash (bcHeight bc + 1)) (bcDb bc)),
      bcHeight := bcHeight bc + 1, bcTip := hash, bcCache := m, bcCacheOrder := order\<rparr>"
    using cached b(2,3) put cap by (simp add: cacheBlock_def)
  have agree: "kv_Get db' k = kv_Get (snd (batch_Write (block_batch data hash (bcHeight bc + 1)) (bcDb bc))) k"
    if "\<And>x. k \<noteq> txIndexKey x" for k
    using db' [OF that] by (simp add: bc2)
  note app = db_append [OF env db b agree]
  have "stored env db' i = Some c" if "goget m i = Some c" for i c
  proof (cases "i = bcHeight bc + 1")
    case True
    then have "c = b" using lru_put_new [OF lru put] that by simp
    with True show ?thesis using app(4) by simp
  next
    case False
    then have "goget (bcCache bc) i = Some c" using lru_put_get [OF put that] by auto
    then show ?thesis using sound False app(3) [OF _ False] by simp
  qed
  then show "pc_inv env n (bc2\<lparr>bcPool := p, bcDb := db'\<rparr>)"
    using app(1) lru_ok_put [OF lru put] eco cap by (simp add: pc_inv_def cache_ok_def bc2)
  show "chain_of env (bc2\<lparr>bcPool := p, bcDb := db'\<rparr>) = chain_of env bc @ [b]"
    using app(2) by (simp add: chain_of_def bc2)
qed

lemma linked_next:
  assumes "pc_inv env n bc" and "lbHeader b = Some h" and "bhHeight h = bcHeight bc + 1"
    and "bhPrevHash h = bcTip bc"
  shows "linked (ceLib env) (last (chain_of env bc)) b"
  using assms by (fastforce simp: linked_def chain_of_def last_chain_in pc_inv_def db_ok_def)

lemma eco_interval:
  "eco_ProcessBlock e txs h = Done (Inr (rep, eco)) \<Longrightarrow>
    ecHalvingInterval (eConfig e) \<noteq> 0 \<Longrightarrow> ecHalvingInterval (eConfig eco) \<noteq> 0"
  by (erule process_block_cases) simp

lemma pc_inv_mono: "pc_inv env (Suc n) bc \<Longrightarrow> pc_inv env n bc"
  by (simp add: pc_inv_def db_ok_def)

lemma pc_inv_eco:
  "pc_inv env n bc \<Longrightarrow> ecHalvingInterval (eConfig eco) \<noteq> 0 \<Longrightarrow> pc_inv env n (bc\<lparr>bcEconomics := eco\<rparr>)"
  by (simp add: pc_inv_def cache_ok_def)

lemma AddBlock_inv:
  assumes env: "chain_env_ok env" and inv: "pc_inv env (Suc n) bc"
    and add: "AddBlock env now wok iok b bc = Done (e, bc')"
  shows "pc_inv env n bc' \<and>
    (if e = None \<or> (\<exists>i. e = Some (BcIndex i))
     then chain_of env bc' = chain_of env bc @ [b] \<and> block_Verify (ceLib env) now b = Done True
       \<and> linked (ceLib env) (last (chain_of env bc)) b
     else \<exists>eco. bc' = bc\<lparr>bcEconomics := eco\<rparr>)"
proof -
  have ei: "ecHalvingInterval (eConfig (bcEconomics bc)) \<noteq> 0" using inv by (simp add: pc_inv_def)
  show ?thesis
    using add
  proof (cases rule: AddBlock_split)
    case refused
    then show ?thesis using pc_inv_mono [OF inv] by (auto intro: exI [of _ "bcEconomics bc"])
  next
    case (unwritten rep eco h)
    then show ?thesis using pc_inv_mono [OF inv] eco_interval [OF unwritten(3) ei]
      by (auto intro: pc_inv_eco)
  next
    case (added h rep eco data hash bc2 db)
    have "e = None \<or> (\<exists>i. e = Some (BcIndex i))"
    proof -
      have "IndexTransactions env iok i txs height d = (e', d') \<Longrightarrow> e' = None \<or> (\<exists>i. e' = Some (BcIndex i))"
        for i txs height d e' d'
        by (induction txs arbitrary: i d) (auto split: if_splits)
      then show ?thesis using added(10) by blast
    qed
    moreover note commit_inv [OF env inv added(7,1,2,8) eco_interval [OF added(6) ei] added(9)
      index_get [OF added(10)]]
    ultimately show ?thesis
      using added(1,2,3,4,11) linked_next [OF inv added(1,2,3)] by simp
  qed
qed

lemma AddBlockByHash_inv:
  assumes env: "chain_env_ok env" and inv: "pc_inv env (Suc n) bc"
    and add: "AddBlockByHash env wok height prev hash proposer bc = Done (e, bc')"
  shows "pc_inv env n bc' \<and>
    (if e = None
     then chain_of env bc' = chain_of env bc @ [block_by_hash (ceLib env) height prev hash proposer]
       \<and> linked (ceLib env) (last (chain_of env bc)) (block_by_hash (ceLib env) height prev hash proposer)
     else \<exists>eco. bc' = bc\<lparr>bcEconomics := eco\<rparr>)"
proof -
  have ei: "ecHalvingInterval (eConfig (bcEconomics bc)) \<noteq> 0" using inv by (simp add: pc_inv_def)
  let ?b = "block_by_hash (ceLib env) height prev hash proposer"
  show ?thesis
    using add
  proof (cases rule: AddBlockByHash_split)
    case refused
    then show ?thesis using pc_inv_mono [OF inv] by (auto intro: exI [of _ "bcEconomics bc"])
  next
    case (unwritten rep eco)
    then show ?thesis using pc_inv_mono [OF inv] eco_interval [OF unwritten(2) ei]
      by (auto intro: pc_inv_eco)
  next
    case (added rep eco data)
    obtain h where h: "lbHeader ?b = Some h" "bhHeight h = height" "bhPrevHash h = prev"
      by (simp add: block_by_hash_def)
    have "block_Hash (ceLib env) ?b = Done hash" using added(4) by (simp add: block_by_hash_def block_Hash_def)
    from commit_inv [OF env inv added(8) h(1) _ this eco_interval [OF added(7) ei], of bc' "bcDb bc'" "bcPool bc'"]
    have "pc_inv env n bc'" "chain_of env bc' = chain_of env bc @ [?b]"
      using added(2,9) h(2) by simp_all
    then show ?thesis using added(1,2,3) h linked_next [OF inv h(1)] by simp
  qed
qed

text \<open>
  The operations that change a chain; \<open>PcPool\<close> is anything that other components do to the pool.
\<close>

datatype pchain_op = PcAdd int bool "nat \<Rightarrow> bool" ledger_block
  | PcAddByHash bool u64 bytes bytes bytes | PcGet u64 | PcGetByHash string
  | PcSaveReceipts bool "receipt list" | PcPool tx_pool

fun pc_step :: "('s, 'k) chain_env \<Rightarrow> chain \<Rightarrow> pchain_op \<Rightarrow> chain" where
  "pc_step env bc (PcAdd now wok iok b) = after bc (AddBlock env now wok iok b bc)"
| "pc_step env bc (PcAddByHash wok height prev hash proposer) =
     after bc (AddBlockByHash env wok height prev hash proposer bc)"
| "pc_step env bc (PcGet i) = after bc (GetBlock env i bc)"
| "pc_step env bc (PcGetByHash hash) = after bc (GetBlockByHash env hash bc)"
| "pc_step env bc (PcSaveReceipts wok rs) = snd (SaveReceipts env wok rs bc)"
| "pc_step env bc (PcPool pool) = bc\<lparr>bcPool := pool\<rparr>"

lemma receipt_batch_keys:
  "receipt_batch env rs ops = Some ops' \<Longrightarrow> (\<forall>p \<in> set ops. \<exists>x. boKey p = receiptKey x) \<Longrightarrow>
    \<forall>p \<in> set ops'. \<exists>x. boKey p = receiptKey x"
proof (induction rs arbitrary: ops)
  case (Cons r rs)
  then obtain d where d: "ceReceipt env r = Some d" by (auto split: option.splits)
  have "\<forall>p \<in> set (batch_Put (receiptKey (rcTxHash r)) d ops). \<exists>x. boKey p = receiptKey x"
    using Cons.prems(2) by (auto simp: batch_Put_def)
  then show ?case using Cons.IH Cons.prems(1) d by simp
qed simp

lemma SaveReceipts_get:
  assumes "SaveReceipts env wok rs bc = (e, bc')"
  shows "\<exists>db. bc' = bc\<lparr>bcDb := db\<rparr> \<and> (\<forall>k. (\<forall>x. k \<noteq> receiptKey x) \<longrightarrow> kv_Get db k = kv_Get (bcDb bc) k)"
proof (cases "receipt_batch env rs []")
  case None
  then show ?thesis using assms by (auto simp: SaveReceipts_def intro: exI [of _ "bcDb bc"])
next
  case (Some ops)
  have keys: "\<forall>p \<in> set ops. \<exists>x. boKey p = receiptKey x" using receipt_batch_keys [OF Some] by simp
  have "kv_Get (snd (batch_Write ops (bcDb bc))) k = kv_Get (bcDb bc) k" if "\<forall>x. k \<noteq> receiptKey x" for k
  proof -
    have "boKey p \<noteq> k" if "p \<in> set ops" for p
      using keys \<open>\<forall>x. k \<noteq> receiptKey x\<close> that by metis
    then show ?thesis
      unfolding batch_Write_all by (intro mem.get_write_other) (force simp: op_pair_def)
  qed
  then show ?thesis
    using assms Some by (cases wok)
      (auto simp: SaveReceipts_def intro: exI [of _ "bcDb bc"] exI [of _ "snd (batch_Write ops (bcDb bc))"])
qed

lemma pc_inv_receipts:
  assumes "pc_inv env n bc" and "\<forall>k. (\<forall>x. k \<noteq> receiptKey x) \<longrightarrow> kv_Get db k = kv_Get (bcDb bc) k"
  shows "pc_inv env n (bc\<lparr>bcDb := db\<rparr>)" and "chain_of env (bc\<lparr>bcDb := db\<rparr>) = chain_of env bc"
proof -
  have "stored env db = stored env (bcDb bc)" using assms(2) by (simp add: stored_def [abs_def])
  then show "pc_inv env n (bc\<lparr>bcDb := db\<rparr>)" "chain_of env (bc\<lparr>bcDb := db\<rparr>) = chain_of env bc"
    using assms by (simp_all add: pc_inv_def cache_ok_def db_ok_def chain_of_def chain_in_def)
qed

lemma GetBlockByHash_inv:
  assumes "pc_inv env n bc"
  shows "\<exists>r bc'. GetBlockByHash env hash bc = Done (r, bc') \<and> pc_inv env n bc' \<and> same_chain bc bc'"
  using assms GetBlock_inv [OF assms]
  by (fastforce simp: GetBlockByHash_def Let_def same_chain_def split: option.splits)

lemma pc_step_grows:
  assumes env: "chain_env_ok env" and inv: "pc_inv env (Suc n) bc"
  shows "pc_inv env n (pc_step env bc op) \<and> (chain_of env (pc_step env bc op) = chain_of env bc
    \<or> (\<exists>b. chain_of env (pc_step env bc op) = chain_of env bc @ [b]
         \<and> linked (ceLib env) (last (chain_of env bc)) b))"
proof (cases op)
  case (PcAdd now wok iok b)
  show ?thesis
  proof (cases "AddBlock env now wok iok b bc")
    case (Done r)
    then show ?thesis
      using AddBlock_inv [OF env inv, of now wok iok b "fst r" "snd r"] PcAdd
      by (auto simp: after_def chain_of_def split: if_splits)
  next
    case Panics
    then show ?thesis using PcAdd pc_inv_mono [OF inv] by (simp add: after_def)
  qed
next
  case (PcAddByHash wok height prev hash proposer)
  show ?thesis
  proof (cases "AddBlockByHash env wok height prev hash proposer bc")
    case (Done r)
    then show ?thesis
      using AddBlockByHash_inv [OF env inv, of wok height prev hash proposer "fst r" "snd r"] PcAddByHash
      by (auto simp: after_def chain_of_def split: if_splits)
  next
    case Panics
    then show ?thesis using PcAddByHash pc_inv_mono [OF inv] by (simp add: after_def)
  qed
next
  case (PcGet i)
  then show ?thesis
    using GetBlock_inv [OF pc_inv_mono [OF inv], of i] by (auto simp: after_def same_chain_def chain_of_def)
next
  case (PcGetByHash hash)
  then show ?thesis
    using GetBlockByHash_inv [OF pc_inv_mono [OF inv], of hash]
    by (auto simp: after_def same_chain_def chain_of_def)
next
  case (PcSaveReceipts wok rs)
  obtain e bc' where "SaveReceipts env wok rs bc = (e, bc')" by fastforce
  with SaveReceipts_get [OF this] pc_inv_receipts [OF pc_inv_mono [OF inv]] PcSaveReceipts
  show ?thesis by auto
next
  case (PcPool pool)
  then show ?thesis using pc_inv_mono [OF inv] by (simp add: pc_inv_def cache_ok_def chain_of_def)
qed

interpretation pchain: append_chain "pc_step env" "\<lambda>n bc. chain_env_ok env \<and> pc_inv env n bc"
  "chain_of env" "linked (ceLib env)" for env
  by unfold_locales (use pc_step_grows in \<open>auto simp: chain_of_def\<close>)

subsection \<open>Opening a store\<close>

lemma shift_in_be: "shift_in (be_u64 h) = h"
  by (simp only: shift_in_unbe unbe_be_u64) simp

lemma load_stored:
  assumes "db_ok env n height tip db" and "bcDb bc = db"
  shows "loadFromDB bc = Inr (bc\<lparr>bcHeight := height, bcTip := tip\<rparr>)"
  using assms by (simp add: loadFromDB_def bytesToUint64_def db_ok_def shift_in_be)

lemma open_stored:
  assumes "db_ok env n height tip db"
  shows "\<exists>bc. NewPersistentBlockchain env wok db = Done (Inr bc) \<and> pc_inv env n bc
    \<and> bcDb bc = db \<and> bcHeight bc = height \<and> bcTip bc = tip"
  using load_stored [OF assms, of "\<lparr>bcDb = db, bcPool = NewTxPool None, bcEconomics = NewEconomics None,
      bcHeight = 0, bcTip = [], bcCache = [], bcCacheOrder = [], bcCacheCap = 1000\<rparr>"] assms
  by (simp add: NewPersistentBlockchain_def pc_inv_def cache_ok_def lru_ok_def NewEconomics_def
      DefaultEconomicsConfig_def)

lemma open_empty:
  assumes env: "chain_env_ok env" and enc: "ceEncode env (CreateGenesisBlock (ceLib env)) = Some data"
    and n: "n < 2 ^ 64"
  shows "\<exists>bc. NewPersistentBlockchain env True NewMemoryStore = Done (Inr bc) \<and> pc_inv env n bc
    \<and> chain_of env bc = [CreateGenesisBlock (ceLib env)] \<and> bcHeight bc = 0
    \<and> bcEconomics bc = NewEconomics None"
proof -
  let ?g = "CreateGenesisBlock (ceLib env)"
  obtain h where h: "lbHeader ?g = Some h" "bhHeight h = 0" by (simp add: CreateGenesisBlock_def)
  obtain hash where hash: "block_Hash (ceLib env) ?g = Done hash" using block_Hash_done [OF h(1)] by blast
  let ?db = "snd (batch_Write (block_batch data hash 0) NewMemoryStore)"
  have stored: "stored env ?db 0 = Some ?g"
    using env enc by (simp add: stored_def block_batch_get chain_env_ok_def)
  have "db_ok env n 0 hash ?db"
    using n h hash stored by (simp add: db_ok_def block_batch_get)
  moreover have "loadFromDB \<lparr>bcDb = NewMemoryStore, bcPool = NewTxPool None,
      bcEconomics = NewEconomics None, bcHeight = 0, bcTip = [], bcCache = [], bcCacheOrder = [],
      bcCacheCap = 1000\<rparr> = Inl BcNotInitialized"
    by (simp add: loadFromDB_def)
  ultimately show ?thesis
    using hash enc stored
    by (simp add: NewPersistentBlockchain_def initializeGenesis_def pc_inv_def cache_ok_def lru_ok_def
        NewEconomics_def DefaultEconomicsConfig_def chain_of_def chain_in_def)
qed

subsection \<open>The store as a chain\<close>

lemma cache_in_chain:
  assumes "pc_inv env n bc" and "goget (bcCache bc) i = Some b"
  shows "i \<le> bcHeight bc \<and> chain_of env bc ! unat i = b"
proof -
  have st: "stored env (bcDb bc) i = Some b" using assms by (simp add: pc_inv_def cache_ok_def)
  have "\<not> bcHeight bc < i"
  proof
    assume "bcHeight bc < i"
    then have "kv_Get (bcDb bc) (blockKey i) = None" using assms(1) by (simp add: pc_inv_def db_ok_def)
    then show False using st by (simp add: stored_def)
  qed
  then have i: "i \<le> bcHeight bc" by simp
  then have "chain_of env bc ! unat i = the (stored env (bcDb bc) i)"
    using chain_in_nth [of "unat i" "bcHeight bc" env "bcDb bc"] by (simp add: chain_of_def word_le_nat_alt)
  then show ?thesis using st i by simp
qed

text \<open>
  C5 (chain_append_only): From a new store on, over any history of additions (of blocks and by hash,
  with a store that may fail), reads by height and by hash, saved receipts and pool updates, the blocks in
  the store form a chain that starts at the genesis block and in which every block names the height
  and hash of its predecessor; the height in memory and the height and tip in the store agree with
  it, every cached block is the block of the chain at its height, and the chain at any earlier time
  is a prefix of it. Importing a state snapshot, which sets the height without blocks, and a
  reorganisation are not in these histories.
\<close>

theorem chain_append_only:
  assumes "chain_env_ok env" and "ceEncode env (CreateGenesisBlock (ceLib env)) \<noteq> None"
    and "NewPersistentBlockchain env True NewMemoryStore = Done (Inr bc0)" and "length ops < 2 ^ 64"
  shows "let bc = foldl (pc_step env) bc0 ops; chain = chain_of env bc
    in hd chain = CreateGenesisBlock (ceLib env) \<and> successively (linked (ceLib env)) chain
      \<and> length chain = Suc (unat (bcHeight bc))
      \<and> block_Hash (ceLib env) (last chain) = Done (bcTip bc)
      \<and> kv_Get (bcDb bc) heightKey = Some (be_u64 (bcHeight bc))
      \<and> kv_Get (bcDb bc) tipHashKey = Some (bcTip bc)
      \<and> (\<forall>i b. goget (bcCache bc) i = Some b \<longrightarrow> i \<le> bcHeight bc \<and> chain ! unat i = b)
      \<and> (\<exists>bs. chain = chain_of env (foldl (pc_step env) bc0 (take n ops)) @ bs)"
proof -
  let ?bc = "foldl (pc_step env) bc0 ops"
  obtain data where "ceEncode env (CreateGenesisBlock (ceLib env)) = Some data" using assms(2) by auto
  from open_empty [OF assms(1) this assms(4)] assms(3)
  have inv0: "pc_inv env (length ops + 0) bc0" and chain0: "chain_of env bc0 = [CreateGenesisBlock (ceLib env)]"
    by auto
  have room: "chain_env_ok env \<and> pc_inv env (length ops + 0) bc0" using assms(1) inv0 by simp
  have inv: "pc_inv env 0 ?bc" using pchain.run_room [OF room] by simp
  have link: "successively (linked (ceLib env)) (chain_of env ?bc)"
    using pchain.run_linked [OF room] chain0 by simp
  obtain bs where "chain_of env ?bc = chain_of env bc0 @ bs" using pchain.run_prefix [OF room] by blast
  then have "hd (chain_of env ?bc) = CreateGenesisBlock (ceLib env)" using chain0 by simp
  with link inv cache_in_chain [OF inv] pchain.run_prefix_take [OF room, of n] show ?thesis
    by (simp add: Let_def pc_inv_def db_ok_def chain_of_def last_chain_in)
qed

text \<open>
  C3 (add_block_refines): In a store that holds a chain, an addition either appends the block, which
  verifies and is linked to the last one, to the abstract chain (also when only the writing of the
  transaction index fails afterwards, which is reported as an error), or it reports an error and
  leaves the store, height, tip, cache and pool as they were, whichever step failed.
\<close>

theorem add_block_refines:
  assumes "chain_env_ok env" and "pc_inv env (Suc n) bc"
    and "AddBlock env now wok iok b bc = Done (e, bc')"
  shows "pc_inv env n bc' \<and>
    (if e = None \<or> (\<exists>i. e = Some (BcIndex i))
     then chain_of env bc' = chain_of env bc @ [b] \<and> block_Verify (ceLib env) now b = Done True
       \<and> linked (ceLib env) (last (chain_of env bc)) b
     else chain_of env bc' = chain_of env bc
       \<and> bc'\<lparr>bcEconomics := bcEconomics bc\<rparr> = bc)"
  using AddBlock_inv [OF assms] by (auto simp: chain_of_def split: if_splits)

text \<open>The economics are the exception: a failed write leaves them ahead of the chain.\<close>

lemma economics_run_ahead:
  assumes "pc_inv env (Suc n) bc" and "AddBlock env now False iok b bc = Done (Some BcWrite, bc')"
    and "0 \<le> ecBlockReward (eConfig (bcEconomics bc))"
  shows "eTotalFees (bcEconomics bc') = eTotalFees (bcEconomics bc)
      + fst (calculateFeesLocked (bcEconomics bc) (lbTransactions b))
    \<and> eHeight (bcEconomics bc') = bcHeight bc' + 1 \<and> bcHeight bc' = bcHeight bc"
  using assms(2)
proof (cases rule: AddBlock_split)
  case refused
  then show ?thesis by simp
next
  case (unwritten rep eco h)
  have "bhHeight h = bcHeight bc + 1"
    using assms(2) unwritten(2) by (auto simp: AddBlock_def split: if_splits)
  with unwritten show ?thesis by (auto elim!: process_block_cases)
next
  case (added h rep eco data hash bc2 db)
  then show ?thesis by simp
qed

lemma read_db_chain:
  assumes "pc_inv env n bc"
  shows "read_db env i (bcDb bc) = (if i \<le> bcHeight bc then Inr (chain_of env bc ! unat i)
    else Inl (BcNotFound i))"
proof (cases "i \<le> bcHeight bc")
  case True
  then obtain b where b: "stored env (bcDb bc) i = Some b"
    using assms by (fastforce simp: pc_inv_def db_ok_def)
  have "chain_of env bc ! unat i = b"
    using True b by (simp add: chain_of_def chain_in_nth word_le_nat_alt)
  with b True show ?thesis by (auto simp: stored_def read_db_def split: option.splits)
next
  case False
  then show ?thesis using assms by (simp add: read_db_def pc_inv_def db_ok_def not_le)
qed

lemma get_block_at:
  assumes "pc_inv env n bc" and "i \<le> bcHeight bc"
  obtains bc' where "GetBlock env i bc = Done (Inr (chain_of env bc ! unat i), bc')" "pc_inv env n bc'"
    "same_chain bc bc'"
  using GetBlock_inv [OF assms(1), of i] read_db_chain [OF assms(1), of i] assms(2) by auto

text \<open>
  What a read does to the cache: a hit only moves its height to the recent end of the order, a miss
  that is found adds the block and, if the cache was full, drops the least recently used one.
\<close>

lemma lru_put_full:
  assumes "lru_ok cap m order" and "goget m k = None" and "0 < cap" and "lru_put cap k v m order = (m', order')"
  shows "order' = (if int (length order) = cap then tl order else order) @ [k]"
    and "goget m' j = (if j = k then Some v else if int (length order) = cap \<and> j = hd order then None else goget m j)"
proof -
  have k: "k \<notin> set order" using assms(1,2) by (auto simp: lru_ok_def map_of_eq_None_iff)
  have len: "int (length order) \<le> cap" using assms(1,3) by (simp add: lru_ok_def)
  have hd: "int (length order) = cap \<Longrightarrow> order \<noteq> [] \<and> hd order \<noteq> k"
    using k assms(3) by (cases order) auto
  have "cap < int (length (order @ [k])) \<longleftrightarrow> int (length order) = cap" using len by auto
  then have p: "lru_put cap k v m order = (if int (length order) = cap
      then (godel (hd (order @ [k])) (goput k v m), tl (order @ [k])) else (goput k v m, order @ [k]))"
    using assms(2,3) by (simp add: lru_put_def Let_def)
  show "order' = (if int (length order) = cap then tl order else order) @ [k]"
    using p assms(4) hd by (auto split: if_splits)
  show "goget m' j = (if j = k then Some v else if int (length order) = cap \<and> j = hd order then None else goget m j)"
    using p assms(4) hd by (auto split: if_splits)
qed

lemma GetBlock_cache:
  assumes "pc_inv env n bc" and "GetBlock env i bc = Done (r, bc')"
  shows "case goget (bcCache bc) i of
      Some b \<Rightarrow> bcCache bc' = bcCache bc \<and> bcCacheOrder bc' = touch i (bcCacheOrder bc)
    | None \<Rightarrow> if bcHeight bc < i then bc' = bc
        else bcCacheOrder bc' = (if length (bcCacheOrder bc) = 1000 then tl (bcCacheOrder bc) else bcCacheOrder bc) @ [i]
          \<and> (\<forall>j. goget (bcCache bc') j = (if j = i then Some (chain_of env bc ! unat i)
               else if length (bcCacheOrder bc) = 1000 \<and> j = hd (bcCacheOrder bc) then None
               else goget (bcCache bc) j))"
proof (cases "goget (bcCache bc) i")
  case (Some b)
  then show ?thesis using assms(2) by (auto simp: GetBlock_def touchCache_def)
next
  case None
  show ?thesis
  proof (cases "bcHeight bc < i")
    case True
    then have "kv_Get (bcDb bc) (blockKey i) = None" using assms(1) by (simp add: pc_inv_def db_ok_def)
    then show ?thesis using None True assms(2) by (simp add: GetBlock_def)
  next
    case False
    then obtain b h where b: "stored env (bcDb bc) i = Some b" "lbHeader b = Some h" "bhHeight h = i"
      using assms(1) by (auto simp: pc_inv_def db_ok_def not_less)
    then obtain d where d: "kv_Get (bcDb bc) (blockKey i) = Some d" "ceDecode env d = Some b"
      by (auto simp: stored_def split: option.splits)
    have at: "chain_of env bc ! unat i = b"
      using chain_in_nth [of "unat i" "bcHeight bc" env "bcDb bc"] False b(1) by (simp add: chain_of_def word_le_nat_alt word_less_nat_alt)
    obtain m order where put: "lru_put 1000 i b (bcCache bc) (bcCacheOrder bc) = (m, order)" by fastforce
    have lru: "bcCacheCap bc = 1000" "lru_ok 1000 (bcCache bc) (bcCacheOrder bc)"
      using assms(1) by (simp_all add: pc_inv_def cache_ok_def)
    have "bcCache bc' = m" "bcCacheOrder bc' = order"
      using assms(2) None d b put lru(1) by (auto simp: GetBlock_def cacheBlock_def)
    then show ?thesis
      using lru_put_full [OF lru(2) None _ put] None False at by simp
  qed
qed

text \<open>
  C26 (get_block_transparent): In a store that holds a chain, \<open>GetBlock\<close> answers what the store says,
  whatever the cache holds: block \<open>i\<close> of the chain up to the height, and nothing above. Store, height,
  tip, economics and pool do not change, and only the cache does: a hit leaves its blocks and moves the
  height to the recent end of its order; a miss that is not found changes nothing at all; a miss that is
  found adds the block at the recent end, and drops the least recently used block exactly when the
  cache held its 1000.
\<close>

theorem get_block_transparent:
  assumes "pc_inv env n bc"
  shows "\<exists>bc'. GetBlock env i bc = Done (read_db env i (bcDb bc), bc') \<and> pc_inv env n bc'
    \<and> same_chain bc bc' \<and> length (bcCacheOrder bc') \<le> 1000
    \<and> read_db env i (bcDb bc) = (if i \<le> bcHeight bc then Inr (chain_of env bc ! unat i)
         else Inl (BcNotFound i))
    \<and> (case goget (bcCache bc) i of
         Some b \<Rightarrow> bcCache bc' = bcCache bc \<and> bcCacheOrder bc' = touch i (bcCacheOrder bc)
       | None \<Rightarrow> if bcHeight bc < i then bc' = bc
           else bcCacheOrder bc' = (if length (bcCacheOrder bc) = 1000 then tl (bcCacheOrder bc) else bcCacheOrder bc) @ [i]
             \<and> (\<forall>j. goget (bcCache bc') j = (if j = i then Some (chain_of env bc ! unat i)
                  else if length (bcCacheOrder bc) = 1000 \<and> j = hd (bcCacheOrder bc) then None
                  else goget (bcCache bc) j)))"
proof -
  obtain bc' where bc': "GetBlock env i bc = Done (read_db env i (bcDb bc), bc')" "pc_inv env n bc'" "same_chain bc bc'"
    using GetBlock_inv [OF assms] by blast
  have "length (bcCacheOrder bc') \<le> 1000" using bc'(2) by (simp add: pc_inv_def cache_ok_def lru_ok_def)
  then show ?thesis using bc' read_db_chain [OF assms, of i] GetBlock_cache [OF assms bc'(1)] by blast
qed

text \<open>
  C38 (reopen_roundtrip): Opening the store of a chain again gives the same chain, height and tip, with
  an empty cache; the pool and the economics start anew, so the supply that was issued and the fees
  that were collected before are forgotten.
\<close>

theorem reopen_roundtrip:
  assumes "pc_inv env n bc"
  shows "\<exists>bc'. NewPersistentBlockchain env wok (bcDb bc) = Done (Inr bc') \<and> pc_inv env n bc'
    \<and> chain_of env bc' = chain_of env bc \<and> bcHeight bc' = bcHeight bc \<and> bcTip bc' = bcTip bc
    \<and> bcCache bc' = [] \<and> bcEconomics bc' = NewEconomics None \<and> bcPool bc' = NewTxPool None"
proof -
  have db: "db_ok env n (bcHeight bc) (bcTip bc) (bcDb bc)" using assms by (simp add: pc_inv_def)
  from open_stored [OF db, of wok] load_stored [OF db, of "\<lparr>bcDb = bcDb bc, bcPool = NewTxPool None,
      bcEconomics = NewEconomics None, bcHeight = 0, bcTip = [], bcCache = [], bcCacheOrder = [],
      bcCacheCap = 1000\<rparr>"]
  show ?thesis by (auto simp: NewPersistentBlockchain_def chain_of_def)
qed

subsection \<open>Ranges and validation\<close>

lemma unat_next: "unat (h :: u64) < 2 ^ 64 - 1 \<Longrightarrow> unat (h + 1) = Suc (unat h)"
  using unat_word_ariths(1) [of h 1] by simp

lemma same_chain_trans: "same_chain a b \<Longrightarrow> same_chain b c \<Longrightarrow> same_chain a c"
  by (simp add: same_chain_def)

lemma same_chain_of: "same_chain a b \<Longrightarrow> chain_of env b = chain_of env a \<and> bcHeight b = bcHeight a"
  by (simp add: same_chain_def chain_of_def)

lemma get_blocks_loop_slice:
  assumes "pc_inv env n bc" and "stop \<le> bcHeight bc" and "unat stop < 2 ^ 64 - 1"
    and "unat h \<le> Suc (unat stop)"
  shows "\<exists>bc'. get_blocks_loop env h stop blocks errs bc
      = Some (Done (blocks @ map ((!) (chain_of env bc)) [unat h..<Suc (unat stop)], errs, bc'))
    \<and> pc_inv env n bc' \<and> same_chain bc bc'"
  using assms
proof (induction "Suc (unat stop) - unat h" arbitrary: h blocks bc)
  case 0
  then have "\<not> h \<le> stop" by (simp add: word_le_nat_alt)
  then show ?case
    using 0 by (subst get_blocks_loop.simps) (simp add: same_chain_def)
next
  case (Suc k)
  then have le: "h \<le> stop" by (simp add: word_le_nat_alt)
  then have "h \<le> bcHeight bc" using Suc.prems(2) by simp
  from get_block_at [OF Suc.prems(1) this] obtain bc1 where
    bc1: "GetBlock env h bc = Done (Inr (chain_of env bc ! unat h), bc1)" "pc_inv env n bc1"
      "same_chain bc bc1" by blast
  have next': "unat (h + 1) = Suc (unat h)"
    using le Suc.prems(3) by (intro unat_next) (simp add: word_le_nat_alt)
  have k: "k = Suc (unat stop) - unat (h + 1)" using Suc.hyps(2) next' by simp
  have chain1: "chain_of env bc1 = chain_of env bc" "bcHeight bc1 = bcHeight bc"
    using same_chain_of [OF bc1(3), of env] by simp_all
  have "unat (h + 1) \<le> Suc (unat stop)" using le next' by (simp add: word_le_nat_alt)
  with Suc.hyps(1) [OF k bc1(2), of "blocks @ [chain_of env bc ! unat h]"] Suc.prems(2,3)
  obtain bc' where bc': "get_blocks_loop env (h + 1) stop (blocks @ [chain_of env bc ! unat h]) errs bc1
      = Some (Done ((blocks @ [chain_of env bc ! unat h])
          @ map ((!) (chain_of env bc)) [unat (h + 1)..<Suc (unat stop)], errs, bc'))"
      "pc_inv env n bc'" "same_chain bc1 bc'"
    unfolding chain1 by blast
  have "[unat h..<Suc (unat stop)] = unat h # [unat (h + 1)..<Suc (unat stop)]"
    using le unfolding next' by (intro upt_conv_Cons) (simp add: word_le_nat_alt)
  then show ?case
    using le bc1(1) bc' same_chain_trans [OF bc1(3) bc'(3)]
    by (subst get_blocks_loop.simps) (simp del: upt_Suc)
qed

text \<open>
  Below the largest height \<open>GetBlocks\<close> terminates, without an error for any
  block, and returns exactly the blocks of the chain from the first height to the smaller of the
  last one and the height of the chain.
\<close>

theorem get_blocks_slice:
  assumes "pc_inv env (Suc n) bc" and "from \<le> bcHeight bc"
  shows "\<exists>bc'. GetBlocks env from stop bc = Some (Inr (Done
      (map ((!) (chain_of env bc)) [unat from..<Suc (min (unat stop) (unat (bcHeight bc)))], [], bc')))
    \<and> same_chain bc bc'"
proof -
  let ?stop = "if bcHeight bc < stop then bcHeight bc else stop"
  have height: "unat (bcHeight bc) < 2 ^ 64 - 1" using assms(1) by (simp add: pc_inv_def db_ok_def)
  have stop: "unat ?stop = min (unat stop) (unat (bcHeight bc))" "?stop \<le> bcHeight bc"
    by (auto simp: word_less_nat_alt word_le_nat_alt)
  have GetBlocks: "GetBlocks env from stop bc = map_option Inr (get_blocks_loop env from ?stop [] [] bc)"
    using leD [OF assms(2)] by (simp add: GetBlocks_def)
  show ?thesis
  proof (cases "unat from \<le> Suc (unat ?stop)")
    case True
    have "unat ?stop < 2 ^ 64 - 1" using height stop(1) by simp
    from get_blocks_loop_slice [OF assms(1) stop(2) this True, of "[]" "[]"] show ?thesis
      unfolding GetBlocks stop(1) by (auto simp del: upt_Suc)
  next
    case False
    then have "\<not> unat from \<le> unat ?stop" by linarith
    then have "\<not> from \<le> ?stop" unfolding word_le_nat_alt .
    moreover have "[unat from..<Suc (min (unat stop) (unat (bcHeight bc)))] = []"
      using False unfolding stop(1) by (simp del: upt_Suc)
    ultimately show ?thesis
      unfolding GetBlocks by (subst get_blocks_loop.simps) (simp add: same_chain_def del: upt_Suc)
  qed
qed

text \<open>From the largest height on the loop of the code has no end.\<close>

lemma height_always_in_range: "(h :: u64) \<le> - 1"
  by simp

subsection \<open>Witnesses\<close>

definition genesis_hash :: bytes where
  "genesis_hash = DoubleSHA256 toy_lib (header_payload (the (lbHeader (CreateGenesisBlock toy_lib))))"

definition first_block :: ledger_block where
  "first_block = \<lparr>lbHeader = Some \<lparr>bhVersion = 1, bhHeight = 1, bhPrevHash = genesis_hash,
     bhTxsHash = ComputeTransactionsHash toy_lib [sample_tx], bhStateRoot = [], bhReceiptsRoot = [],
     bhTimestamp = 0, bhProposer = [9], bhSignature = replicate 64 0, bhNonce = 0\<rparr>,
   lbTransactions = [sample_tx], lbConsensusHash = []\<rparr>"

text \<open>A codec for two blocks.\<close>

definition toy_env :: "(byte, byte) chain_env" where
  "toy_env = \<lparr>ceLib = toy_lib,
     ceEncode = (\<lambda>b. if b = CreateGenesisBlock toy_lib then Some [0]
                     else if b = first_block then Some [1] else None),
     ceDecode = (\<lambda>d. if d = [0] then Some (CreateGenesisBlock toy_lib)
                     else if d = [1] then Some first_block else None),
     ceEntry = (\<lambda>_. []), ceReadEntry = (\<lambda>_. None), ceReceipt = (\<lambda>_. None),
     ceReadReceipt = (\<lambda>_. None)\<rparr>"

lemma toy_env_ok: "chain_env_ok toy_env"
  by (simp add: chain_env_ok_def toy_env_def)

lemma toy_lib_env [simp]: "ceLib toy_env = toy_lib"
  by (simp add: toy_env_def)

lemma toy_open:
  obtains bc0 where "NewPersistentBlockchain toy_env True NewMemoryStore = Done (Inr bc0)"
    and "pc_inv toy_env 10 bc0" and "chain_of toy_env bc0 = [CreateGenesisBlock toy_lib]"
    and "bcHeight bc0 = 0" and "bcEconomics bc0 = NewEconomics None"
  using open_empty [OF toy_env_ok, of "[0]" 10] by (auto simp: toy_env_def)

theorem chain_append_only_witness:
  "\<exists>bc0. NewPersistentBlockchain toy_env True NewMemoryStore = Done (Inr bc0)
    \<and> hd (chain_of toy_env (foldl (pc_step toy_env) bc0 [PcGet 0, PcAdd 0 True (\<lambda>_. True) first_block]))
      = CreateGenesisBlock toy_lib"
proof -
  obtain bc0 where bc0: "NewPersistentBlockchain toy_env True NewMemoryStore = Done (Inr bc0)"
    by (rule toy_open)
  have "ceEncode toy_env (CreateGenesisBlock (ceLib toy_env)) \<noteq> None" by (simp add: toy_env_def)
  from chain_append_only [OF toy_env_ok this bc0, of "[PcGet 0, PcAdd 0 True (\<lambda>_. True) first_block]"] bc0
  show ?thesis by (simp add: Let_def)
qed

theorem get_block_transparent_witness:
  "\<exists>bc0 bc'. NewPersistentBlockchain toy_env True NewMemoryStore = Done (Inr bc0)
    \<and> GetBlock toy_env 0 bc0 = Done (Inr (CreateGenesisBlock toy_lib), bc')"
proof -
  obtain bc0 where "NewPersistentBlockchain toy_env True NewMemoryStore = Done (Inr bc0)"
      "pc_inv toy_env 10 bc0" "chain_of toy_env bc0 = [CreateGenesisBlock toy_lib]"
    by (rule toy_open)
  then show ?thesis using get_block_transparent [of toy_env 10 bc0 0] by auto
qed

theorem reopen_roundtrip_witness:
  "\<exists>bc0 bc'. NewPersistentBlockchain toy_env True NewMemoryStore = Done (Inr bc0)
    \<and> NewPersistentBlockchain toy_env True (bcDb bc0) = Done (Inr bc')
    \<and> chain_of toy_env bc' = [CreateGenesisBlock toy_lib]"
proof -
  obtain bc0 where "NewPersistentBlockchain toy_env True NewMemoryStore = Done (Inr bc0)"
      "pc_inv toy_env 10 bc0" "chain_of toy_env bc0 = [CreateGenesisBlock toy_lib]"
    by (rule toy_open)
  then show ?thesis using reopen_roundtrip [of toy_env 10 bc0 True] by auto
qed

lemma toy_tip:
  assumes "pc_inv toy_env n bc" and "chain_of toy_env bc = [CreateGenesisBlock toy_lib]"
  shows "bcTip bc = genesis_hash"
proof -
  have "block_Hash toy_lib (last (chain_of toy_env bc)) = Done (bcTip bc)"
    using assms(1) by (simp add: pc_inv_def db_ok_def chain_of_def last_chain_in)
  then show ?thesis
    by (simp add: assms(2) genesis_hash_def block_Hash_def block_SigningPayload_def CreateGenesisBlock_def)
qed

lemma first_block_verifies: "block_Verify toy_lib 0 first_block = Done True"
proof -
  have "genesis_hash \<noteq> []"
    by (simp add: genesis_hash_def DoubleSHA256_def toy_lib_def toy_hash_def)
  moreover have "Verify toy_lib sample_tx = Done True" by (simp add: Verify_def sample_tx_def)
  ultimately show ?thesis by (simp add: block_verified_iff first_block_def an_hour_def)
qed

lemma toy_add:
  assumes "pc_inv toy_env n bc" and "chain_of toy_env bc = [CreateGenesisBlock toy_lib]"
    and "bcHeight bc = 0" and "bcEconomics bc = NewEconomics None"
  shows "\<exists>bc'. AddBlock toy_env 0 True (\<lambda>_. True) first_block bc = Done (None, bc')"
proof -
  have tip: "bcTip bc = genesis_hash" by (rule toy_tip [OF assms(1,2)])
  obtain r where r: "eco_ProcessBlock (NewEconomics None) [sample_tx] 1 = Done (Inr r)"
    by (simp add: eco_ProcessBlock_def calculateBlockRewardLocked_def calculateFeesLocked_def
        NewEconomics_def DefaultEconomicsConfig_def sample_tx_def Let_def)
  have other: "first_block \<noteq> CreateGenesisBlock toy_lib"
    by (simp add: first_block_def CreateGenesisBlock_def)
  have "ceEncode toy_env first_block = Some [1]" using other by (simp add: toy_env_def)
  moreover have "lbTransactions first_block = [sample_tx]" by (simp add: first_block_def)
  moreover obtain h where "lbHeader first_block = Some h" "bhHeight h = 1" "bhPrevHash h = genesis_hash"
    by (simp add: first_block_def)
  moreover obtain hash where "block_Hash toy_lib first_block = Done hash"
    using block_Hash_done calculation(3) by blast
  ultimately show ?thesis
    using first_block_verifies r assms(3,4) tip
    by (cases r) (simp add: AddBlock_def cacheBlock_def split: prod.splits)
qed

theorem add_block_refines_witness:
  "\<exists>bc0 bc'. AddBlock toy_env 0 True (\<lambda>_. True) first_block bc0 = Done (None, bc')
    \<and> chain_of toy_env bc' = [CreateGenesisBlock toy_lib, first_block]"
proof -
  obtain bc0 where bc0: "pc_inv toy_env 10 bc0" "chain_of toy_env bc0 = [CreateGenesisBlock toy_lib]"
      "bcHeight bc0 = 0" "bcEconomics bc0 = NewEconomics None"
    by (rule toy_open)
  obtain bc' where add: "AddBlock toy_env 0 True (\<lambda>_. True) first_block bc0 = Done (None, bc')"
    using toy_add [OF bc0] by blast
  have "pc_inv toy_env (Suc 9) bc0" using bc0(1) by simp
  from add_block_refines [OF toy_env_ok this add] bc0(2) add show ?thesis by auto
qed

theorem get_blocks_slice_witness:
  "\<exists>bc0 bc'. GetBlocks toy_env 0 7 bc0 = Some (Inr (Done ([CreateGenesisBlock toy_lib], [], bc')))"
proof -
  obtain bc0 where bc0: "pc_inv toy_env 10 bc0" "chain_of toy_env bc0 = [CreateGenesisBlock toy_lib]"
      "bcHeight bc0 = 0"
    by (rule toy_open)
  then have "pc_inv toy_env (Suc 9) bc0" by simp
  from get_blocks_slice [OF this, of 0 7] bc0(2,3) show ?thesis by auto
qed

end
