(* ===== verification/Json.thy ===== *)
theory Json
  imports Codec "HOL-Library.List_Lexorder"
begin

text \<open>
  The part of \<open>encoding/json\<close> that the state layer relies on: how \<open>Marshal\<close> writes numbers,
  byte slices, strings and maps, and how \<open>Unmarshal\<close> reads back what \<open>Marshal\<close> wrote. Texts of
  other writers (blanks, reordered fields, surrogate pairs) are refused here, since the node only
  reads its own records.
\<close>

subsection \<open>Texts and what may follow a value\<close>

definition expect :: "bytes \<Rightarrow> bytes \<Rightarrow> bytes option" where
  "expect lit bs = (if take (length lit) bs = lit then Some (drop (length lit) bs) else None)"

lemma expect_append [simp]: "expect lit (lit @ rest) = Some rest"
  by (simp add: expect_def)

abbreviation ascii :: "string \<Rightarrow> bytes" where "ascii \<equiv> bytes_of_str"

definition is_digit :: "byte \<Rightarrow> bool" where
  "is_digit b \<longleftrightarrow> 48 \<le> unat b \<and> unat b \<le> 57"

definition ends_value :: "bytes \<Rightarrow> bool" where
  "ends_value rest \<longleftrightarrow> (case rest of [] \<Rightarrow> True | b # _ \<Rightarrow> \<not> is_digit b)"

text \<open>A value that is written and read back, whatever follows it.\<close>

locale json_value =
  fixes enc :: "'a \<Rightarrow> bytes" and dec :: "bytes \<Rightarrow> ('a \<times> bytes) option" and norm :: "'a \<Rightarrow> 'a"
  assumes dec_enc: "ends_value rest \<Longrightarrow> dec (enc x @ rest) = Some (norm x, rest)"

subsection \<open>Numbers\<close>

definition digit :: "nat \<Rightarrow> byte" where "digit d = of_nat (48 + d)"

lemma digit_simps [simp]: "d < 10 \<Longrightarrow> is_digit (digit d)" "d < 10 \<Longrightarrow> unat (digit d) - 48 = d"
  by (simp_all add: digit_def is_digit_def unat_of_nat_byte del: of_nat_add)

fun digits :: "nat \<Rightarrow> bytes" where
  "digits n = (if n < 10 then [digit n] else digits (n div 10) @ [digit (n mod 10)])"

declare digits.simps [simp del]

fun read_digits :: "nat \<Rightarrow> bytes \<Rightarrow> nat \<times> bytes" where
  "read_digits acc (b # bs) = (if is_digit b then read_digits (10 * acc + (unat b - 48)) bs else (acc, b # bs))"
| "read_digits acc [] = (acc, [])"

definition dec_nat :: "bytes \<Rightarrow> (nat \<times> bytes) option" where
  "dec_nat bs = (case bs of b # _ \<Rightarrow> if is_digit b then Some (read_digits 0 bs) else None | [] \<Rightarrow> None)"

definition enc_int :: "int \<Rightarrow> bytes" where
  "enc_int i = (if i < 0 then ascii ''-'' @ digits (nat (- i)) else digits (nat i))"

definition dec_int :: "bytes \<Rightarrow> (int \<times> bytes) option" where
  "dec_int bs = (case expect (ascii ''-'') bs of
       Some rest \<Rightarrow> map_option (apfst (\<lambda>n. - int n)) (dec_nat rest)
     | None \<Rightarrow> map_option (apfst int) (dec_nat bs))"

definition enc_u64 :: "u64 \<Rightarrow> bytes" where "enc_u64 x = digits (unat x)"

definition dec_u64 :: "bytes \<Rightarrow> (u64 \<times> bytes) option" where
  "dec_u64 bs = Option.bind (dec_nat bs) (\<lambda>(n, rest). if n < 2 ^ 64 then Some (of_nat n, rest) else None)"

lemma read_digits_digits: "read_digits acc (digits n @ rest) = read_digits (acc * 10 ^ length (digits n) + n) rest"
proof (induction n arbitrary: acc rest rule: digits.induct)
  case (1 n)
  show ?case
  proof (cases "n < 10")
    case True
    then show ?thesis by (subst (1 2) digits.simps) (simp add: ac_simps)
  next
    case False
    have m: "n mod 10 < 10" by simp
    have "read_digits acc (digits n @ rest)
        = read_digits acc (digits (n div 10) @ digit (n mod 10) # rest)"
      using False by (subst digits.simps) simp
    also have "\<dots> = read_digits (10 * (acc * 10 ^ length (digits (n div 10)) + n div 10) + n mod 10) rest"
      using 1 [OF False] m by simp
    also have "10 * (acc * 10 ^ length (digits (n div 10)) + n div 10) + n mod 10
        = acc * 10 ^ length (digits n) + n"
      using False by (subst (2) digits.simps) (simp add: algebra_simps)
    finally show ?thesis .
  qed
qed

lemma digits_head: obtains b bs where "digits n = b # bs" and "is_digit b"
proof -
  have "\<exists>b bs. digits n = b # bs \<and> is_digit b"
  proof (induction n rule: digits.induct)
    case (1 n)
    show ?case
    proof (cases "n < 10")
      case True
      then show ?thesis by (subst digits.simps) simp
    next
      case False
      with 1 obtain b bs where "digits (n div 10) = b # bs" "is_digit b" by blast
      then show ?thesis using False by (subst digits.simps) simp
    qed
  qed
  then show thesis using that by blast
qed

lemma dec_nat_digits: "ends_value rest \<Longrightarrow> dec_nat (digits n @ rest) = Some (n, rest)"
proof -
  assume "ends_value rest"
  then have "read_digits n rest = (n, rest)" by (cases rest) (auto simp: ends_value_def)
  moreover obtain b bs where "digits n = b # bs" "is_digit b" by (rule digits_head)
  moreover have "read_digits 0 (digits n @ rest) = read_digits n rest"
    using read_digits_digits [of 0 n rest] by simp
  ultimately show ?thesis by (simp add: dec_nat_def)
qed

interpretation json_int: json_value enc_int dec_int "\<lambda>x. x"
proof
  fix rest :: bytes and x :: int assume rest: "ends_value rest"
  show "dec_int (enc_int x @ rest) = Some (x, rest)"
  proof (cases "x < 0")
    case True
    then show ?thesis using dec_nat_digits [OF rest] by (simp add: enc_int_def dec_int_def)
  next
    case False
    obtain b bs where d: "digits (nat x) = b # bs" "is_digit b" by (rule digits_head)
    then have "expect (ascii ''-'') (digits (nat x) @ rest) = None"
      by (auto simp: expect_def bytes_of_str_def is_digit_def)
    then show ?thesis using False dec_nat_digits [OF rest] by (simp add: enc_int_def dec_int_def)
  qed
qed

interpretation json_u64: json_value enc_u64 dec_u64 "\<lambda>x. x"
proof
  fix rest :: bytes and x :: u64 assume rest: "ends_value rest"
  have "unat x < 2 ^ 64" using unsigned_less [of x] by simp
  then show "dec_u64 (enc_u64 x @ rest) = Some (x, rest)"
    using dec_nat_digits [OF rest, of "unat x"] by (simp add: enc_u64_def dec_u64_def)
qed

subsection \<open>Strings\<close>

text \<open>The length of the UTF-8 sequence at the start, 0 where there is none.\<close>

definition between :: "nat \<Rightarrow> nat \<Rightarrow> byte \<Rightarrow> bool" where
  "between lo hi b \<longleftrightarrow> lo \<le> unat b \<and> unat b \<le> hi"

definition rune_len :: "bytes \<Rightarrow> nat" where
  "rune_len bs = (case bs of
       [] \<Rightarrow> 0
     | [a] \<Rightarrow> (if between 0 0x7F a then 1 else 0)
     | a # b # rest \<Rightarrow>
         (if between 0 0x7F a then 1
          else if between 0xC2 0xDF a then (if between 0x80 0xBF b then 2 else 0)
          else if between 0xE0 0xEF a
          then (if between (if a = 0xE0 then 0xA0 else 0x80) (if a = 0xED then 0x9F else 0xBF) b
                   \<and> (case rest of c # _ \<Rightarrow> between 0x80 0xBF c | [] \<Rightarrow> False) then 3 else 0)
          else if between 0xF0 0xF4 a
          then (if between (if a = 0xF0 then 0x90 else 0x80) (if a = 0xF4 then 0x8F else 0xBF) b
                   \<and> (case rest of c # d # _ \<Rightarrow> between 0x80 0xBF c \<and> between 0x80 0xBF d | _ \<Rightarrow> False)
                then 4 else 0)
          else 0))"

lemma rune_len_bytes:
  assumes "rune_len (a # bs) = n" and "128 \<le> unat a" and "n \<noteq> 0"
  shows "0 < n" and "n \<le> length (a # bs)" and "\<forall>b \<in> set (take n (a # bs)). 128 \<le> unat b"
  using assms by (auto simp: rune_len_def between_def split: list.splits if_splits)

definition replacement :: bytes where "replacement = [0xEF, 0xBF, 0xBD]"
definition u_escape :: "nat \<Rightarrow> bytes" where
  "u_escape r = ascii ([CHR 0x5C, CHR ''u''] @ map hex_char [r div 4096, r div 256 mod 16, r div 16 mod 16, r mod 16])"

definition escape :: "byte \<Rightarrow> bytes" where
  "escape b =
     (if b = 0x22 then ascii [CHR 0x5C, CHR 0x22]
      else if b = 0x5C then ascii [CHR 0x5C, CHR 0x5C]
      else if b = 8 then ascii [CHR 0x5C, CHR ''b'']
      else if b = 12 then ascii [CHR 0x5C, CHR ''f'']
      else if b = 10 then ascii [CHR 0x5C, CHR ''n'']
      else if b = 13 then ascii [CHR 0x5C, CHR ''r'']
      else if b = 9 then ascii [CHR 0x5C, CHR ''t'']
      else if unat b < 0x20 \<or> b \<in> {0x3C, 0x3E, 0x26} then u_escape (unat b)
      else [b])"

fun encode_chars :: "bytes \<Rightarrow> bytes" where
  "encode_chars [] = []"
| "encode_chars (b # bs) =
     (if unat b < 128 then escape b @ encode_chars bs
      else let n = rune_len (b # bs) in
        if n = 0 then u_escape 0xFFFD @ encode_chars bs
        else (if take n (b # bs) = [0xE2, 0x80, 0xA8] then u_escape 0x2028
              else if take n (b # bs) = [0xE2, 0x80, 0xA9] then u_escape 0x2029
              else take n (b # bs)) @ encode_chars (drop (n - 1) bs))"

text \<open>What reading back a written string gives: bytes that are not UTF-8 are replaced.\<close>

fun coerce :: "bytes \<Rightarrow> bytes" where
  "coerce [] = []"
| "coerce (b # bs) =
     (if unat b < 128 then b # coerce bs
      else let n = rune_len (b # bs) in
        if n = 0 then replacement @ coerce bs
        else take n (b # bs) @ coerce (drop (n - 1) bs))"

text \<open>\<open>utf8.EncodeRune\<close> below the surrogates' plane.\<close>

definition utf8_rune :: "nat \<Rightarrow> bytes" where
  "utf8_rune r =
     (if r < 0x80 then [of_nat r]
      else if r < 0x800 then [of_nat (0xC0 + r div 64), of_nat (0x80 + r mod 64)]
      else [of_nat (0xE0 + r div 4096), of_nat (0x80 + r div 64 mod 64), of_nat (0x80 + r mod 64)])"

definition hex4 :: "bytes \<Rightarrow> nat option" where
  "hex4 bs = foldl (\<lambda>acc b. Option.bind acc (\<lambda>a. map_option (\<lambda>v. 16 * a + v) (hex_val (char_of (unat b)))))
     (Some 0) (take 4 bs)"

definition unescape :: "bytes \<Rightarrow> (bytes \<times> bytes) option" where
  "unescape bs = (case bs of
       [] \<Rightarrow> None
     | c # cs \<Rightarrow>
         (if c \<in> {0x22, 0x5C, 0x2F} then Some ([c], cs)
          else if c = 0x62 then Some ([8], cs)
          else if c = 0x66 then Some ([12], cs)
          else if c = 0x6E then Some ([10], cs)
          else if c = 0x72 then Some ([13], cs)
          else if c = 0x74 then Some ([9], cs)
          else if c = 0x75 \<and> 4 \<le> length cs
          then Option.bind (hex4 cs) (\<lambda>r. if 0xD800 \<le> r \<and> r < 0xE000 then None else Some (utf8_rune r, drop 4 cs))
          else None))"

lemma unescape_shorter: "unescape bs = Some (r, rest) \<Longrightarrow> length rest < length bs"
  by (auto simp: unescape_def split: list.splits if_splits option.splits bind_splits)

definition emit :: "bytes \<Rightarrow> (bytes \<times> bytes) option \<Rightarrow> (bytes \<times> bytes) option" where
  "emit r x = map_option (apfst (\<lambda>s. r @ s)) x"

lemma emit_Some [simp]: "emit r (Some (s, rest)) = Some (r @ s, rest)"
  by (simp add: emit_def)

function (sequential) decode_chars :: "bytes \<Rightarrow> (bytes \<times> bytes) option" where
  "decode_chars [] = None"
| "decode_chars (b # bs) =
     (if b = 0x22 then Some ([], bs)
      else if b = 0x5C then (case unescape bs of
          None \<Rightarrow> None | Some (r, rest) \<Rightarrow> emit r (decode_chars rest))
      else if unat b < 0x20 then None
      else if unat b < 128 then emit [b] (decode_chars bs)
      else let n = rune_len (b # bs) in
        if n = 0 then emit replacement (decode_chars bs)
        else emit (take n (b # bs)) (decode_chars (drop (n - 1) bs)))"
  by pat_completeness auto

termination
  by (relation "measure length") (auto dest: unescape_shorter)

lemma hex4_hex_chars:
  assumes "r < 65536"
  shows "hex4 (ascii (map hex_char [r div 4096, r div 256 mod 16, r div 16 mod 16, r mod 16]) @ rest) = Some r"
proof -
  have "char_of (unat (of_nat (of_char (hex_char d)) :: byte)) = hex_char d" for d
    using arg_cong [OF str_of_bytes_of_str [of "[hex_char d]"], of hd]
    by (simp add: str_of_bytes_def bytes_of_str_def)
  moreover have "r div 4096 < 16" using assms by simp
  moreover have "16 * (r div 4096) + r div 256 mod 16 = r div 256" "16 * (r div 256) + r div 16 mod 16 = r div 16"
    using div_mult_mod_eq [of "r div 256" 16] div_mult_mod_eq [of "r div 16" 16]
    by (simp_all add: div_mult2_eq [symmetric])
  then have "16 * (16 * (16 * (r div 4096) + r div 256 mod 16) + r div 16 mod 16) + r mod 16 = r" by simp
  ultimately show ?thesis by (simp add: hex4_def bytes_of_str_def)
qed

lemma decode_u_escape:
  assumes "r < 65536" and "r < 0xD800 \<or> 0xE000 \<le> r"
  shows "decode_chars (u_escape r @ rest) = emit (utf8_rune r) (decode_chars rest)"
proof -
  let ?hex = "ascii (map hex_char [r div 4096, r div 256 mod 16, r div 16 mod 16, r mod 16])"
  have u: "u_escape r = 0x5C # 0x75 # ?hex" by (simp add: u_escape_def bytes_of_str_def)
  have "length ?hex = 4" by simp
  then have "unescape (0x75 # ?hex @ rest) = Some (utf8_rune r, rest)"
    using hex4_hex_chars [OF assms(1), of rest] assms(2) by (auto simp: unescape_def simp del: length_map)
  then show ?thesis by (simp add: u)
qed

lemma decode_escape:
  assumes "unat b < 128"
  shows "decode_chars (escape b @ rest) = emit [b] (decode_chars rest)"
proof -
  have "utf8_rune (unat b) = [b]" using assms by (simp add: utf8_rune_def)
  moreover have "unat b < 0x20 \<or> b \<in> {0x3C, 0x3E, 0x26} \<Longrightarrow>
      decode_chars (u_escape (unat b) @ rest) = emit (utf8_rune (unat b)) (decode_chars rest)"
    using assms by (intro decode_u_escape) auto
  ultimately show ?thesis
    using assms by (auto simp: escape_def bytes_of_str_def unescape_def)
qed

lemma rune_len_take:
  assumes "rune_len (b # bs) = n" and "128 \<le> unat b" and "n \<noteq> 0"
  shows "rune_len (take n (b # bs) @ rest) = n"
proof -
  have "\<not> between 0 0x7F b" using assms(2) by (simp add: between_def)
  then show ?thesis using assms(1,3)
    by (cases bs; cases "tl bs"; cases "tl (tl bs)") (auto simp: rune_len_def split: if_splits)
qed

lemma decode_rune:
  assumes n: "rune_len (b # bs) = n" and b: "128 \<le> unat b" and "n \<noteq> 0"
  shows "decode_chars (take n (b # bs) @ rest) = emit (take n (b # bs)) (decode_chars rest)"
proof -
  obtain m where m: "n = Suc m" using \<open>n \<noteq> 0\<close> by (cases n) auto
  have "n \<le> length (b # bs)" using rune_len_bytes [OF assms] by simp
  then have "length (take m bs) = m" using m by simp
  moreover have "rune_len (b # take m bs @ rest) = Suc m" using rune_len_take [OF assms, of rest] m by simp
  moreover have "b \<noteq> 0x22" "b \<noteq> 0x5C" "\<not> unat b < 128" "\<not> unat b < 0x20" using b by auto
  ultimately show ?thesis by (simp add: m Let_def)
qed

lemma special_runes:
  "utf8_rune 0xFFFD = replacement" "utf8_rune 0x2028 = [0xE2, 0x80, 0xA8]" "utf8_rune 0x2029 = [0xE2, 0x80, 0xA9]"
  by (simp_all add: utf8_rune_def replacement_def)

lemma decode_encode_chars: "decode_chars (encode_chars s @ 0x22 # rest) = Some (coerce s, rest)"
proof (induction s rule: encode_chars.induct)
  case 1
  then show ?case by simp
next
  case (2 b bs)
  show ?case
  proof (cases "unat b < 128")
    case True
    then show ?thesis using 2(1) by (simp add: decode_escape)
  next
    case False
    define n where "n = rune_len (b # bs)"
    note IH = 2(2,3) [OF False n_def]
    have b: "128 \<le> unat b" using False by simp
    show ?thesis
    proof (cases "n = 0")
      case True
      then show ?thesis
        using IH(1) False decode_u_escape [of "0xFFFD"] by (simp add: n_def [symmetric] special_runes)
    next
      case n: False
      have "decode_chars ((if take n (b # bs) = [0xE2, 0x80, 0xA8] then u_escape 0x2028
              else if take n (b # bs) = [0xE2, 0x80, 0xA9] then u_escape 0x2029
              else take n (b # bs)) @ tl) = emit (take n (b # bs)) (decode_chars tl)" for tl
        using decode_u_escape [of "0x2028" tl] decode_u_escape [of "0x2029" tl]
          decode_rune [OF n_def [symmetric] b n] by (simp add: special_runes)
      then show ?thesis using IH(2) [OF n] n False
        by (simp add: n_def [symmetric] Let_def del: decode_chars.simps)
    qed
  qed
qed

definition enc_str :: "bytes \<Rightarrow> bytes" where
  "enc_str s = 0x22 # encode_chars s @ [0x22]"

definition dec_str :: "bytes \<Rightarrow> (bytes \<times> bytes) option" where
  "dec_str bs = (case bs of [] \<Rightarrow> None | b # rest \<Rightarrow> if b = 0x22 then decode_chars rest else None)"

lemma dec_enc_str: "dec_str (enc_str s @ rest) = Some (coerce s, rest)"
  using decode_encode_chars [of s rest] by (simp add: dec_str_def enc_str_def)

interpretation json_str: json_value enc_str dec_str coerce
  by unfold_locales (rule dec_enc_str)

lemma coerce_ascii: "\<forall>b \<in> set s. unat b < 128 \<Longrightarrow> coerce s = s"
  by (induction s) auto

subsection \<open>Byte slices\<close>

text \<open>\<open>base64.StdEncoding\<close>.\<close>

definition b64_char :: "nat \<Rightarrow> byte" where
  "b64_char n = of_nat (if n < 26 then 65 + n else if n < 52 then 71 + n else if n < 62 then n - 4
     else if n = 62 then 43 else 47)"

definition b64_val :: "byte \<Rightarrow> nat option" where
  "b64_val b = (let n = unat b in
     if 65 \<le> n \<and> n \<le> 90 then Some (n - 65) else if 97 \<le> n \<and> n \<le> 122 then Some (n - 71)
     else if 48 \<le> n \<and> n \<le> 57 then Some (n + 4) else if n = 43 then Some 62
     else if n = 47 then Some 63 else None)"

fun b64 :: "bytes \<Rightarrow> bytes" where
  "b64 [] = []"
| "b64 [a] = [b64_char (unat a div 4), b64_char (unat a mod 4 * 16), 0x3D, 0x3D]"
| "b64 [a, b] = [b64_char (unat a div 4), b64_char (unat a mod 4 * 16 + unat b div 16),
     b64_char (unat b mod 16 * 4), 0x3D]"
| "b64 (a # b # c # rest) = [b64_char (unat a div 4), b64_char (unat a mod 4 * 16 + unat b div 16),
     b64_char (unat b mod 16 * 4 + unat c div 64), b64_char (unat c mod 64)] @ b64 rest"

fun unb64 :: "bytes \<Rightarrow> bytes option" where
  "unb64 [] = Some []"
| "unb64 (p # q # r # s # rest) = (case (b64_val p, b64_val q) of
       (Some i, Some j) \<Rightarrow>
         (if r = 0x3D \<and> s = 0x3D \<and> rest = [] then Some [of_nat (i * 4 + j div 16)]
          else (case b64_val r of
              None \<Rightarrow> None
            | Some k \<Rightarrow>
                (if s = 0x3D \<and> rest = [] then Some [of_nat (i * 4 + j div 16), of_nat (j mod 16 * 16 + k div 4)]
                 else (case (b64_val s, unb64 rest) of
                     (Some l, Some bs) \<Rightarrow> Some (of_nat (i * 4 + j div 16) # of_nat (j mod 16 * 16 + k div 4)
                        # of_nat (k mod 4 * 64 + l) # bs)
                   | _ \<Rightarrow> None))))
     | _ \<Rightarrow> None)"
| "unb64 _ = None"

lemma b64_char:
  assumes "n < 64"
  shows "b64_val (b64_char n) = Some n" and "b64_char n \<noteq> 0x3D" and "0x20 \<le> unat (b64_char n)"
    and "unat (b64_char n) < 128" and "b64_char n \<notin> {0x22, 0x5C}"
proof -
  define k where "k = (if n < 26 then 65 + n else if n < 52 then 71 + n else if n < 62 then n - 4
     else if n = 62 then 43 else 47)"
  have k: "k < 256" using assms by (auto simp: k_def)
  then have u: "unat (b64_char n) = k" by (simp add: b64_char_def k_def unat_of_nat_byte del: of_nat_add)
  show "b64_val (b64_char n) = Some n" unfolding b64_val_def u Let_def using assms by (auto simp: k_def)
  show "0x20 \<le> unat (b64_char n)" "unat (b64_char n) < 128" unfolding u using assms by (auto simp: k_def)
  have "k \<noteq> 0x3D" "k \<noteq> 0x22" "k \<noteq> 0x5C" using assms by (auto simp: k_def)
  then show "b64_char n \<noteq> 0x3D" and "b64_char n \<notin> {0x22, 0x5C}" using u by auto
qed

lemma byte_less: "unat (b :: byte) < 256"
  using unsigned_less [of b] by simp

lemma byte_parts:
  fixes a b c :: byte
  shows "unat a div 4 < 64" "unat a mod 4 * 16 + unat b div 16 < 64" "unat b mod 16 * 4 + unat c div 64 < 64"
    "unat c mod 64 < 64" "unat a mod 4 * 16 < 64" "unat b mod 16 * 4 < 64"
proof -
  have "unat a mod 4 < 4" "unat b div 16 < 16" "unat b mod 16 < 16" "unat c div 64 < 4"
    using byte_less [of b] byte_less [of c] by simp_all
  then show "unat a mod 4 * 16 + unat b div 16 < 64" "unat b mod 16 * 4 + unat c div 64 < 64"
    "unat a mod 4 * 16 < 64" "unat b mod 16 * 4 < 64" by linarith+
qed (use byte_less [of a] in simp_all)

lemma byte_back:
  fixes a b c :: byte
  shows "of_nat (unat a div 4 * 4 + (unat a mod 4 * 16 + unat b div 16) div 16) = a"
    "(of_nat ((unat a mod 4 * 16 + unat b div 16) mod 16 * 16 + (unat b mod 16 * 4 + unat c div 64) div 4) :: byte) = b"
    "(of_nat ((unat b mod 16 * 4 + unat c div 64) mod 4 * 64 + unat c mod 64) :: byte) = c"
    "of_nat (unat a div 4 * 4 + (unat a mod 4 * 16) div 16) = a"
    "(of_nat ((unat a mod 4 * 16 + unat b div 16) mod 16 * 16 + (unat b mod 16 * 4) div 4) :: byte) = b"
proof -
  have lt: "unat b div 16 < 16" "unat c div 64 < 4" using byte_less [of b] byte_less [of c] by simp_all
  have glue: "x div k * k + (x mod k * m + y) div m = x" "(w * m + y) mod m = y" if "y < m" for x k m y w :: nat
    using that by simp_all
  show "of_nat (unat a div 4 * 4 + (unat a mod 4 * 16 + unat b div 16) div 16) = a"
    unfolding glue(1) [OF lt(1)] by simp
  show "of_nat (unat a div 4 * 4 + (unat a mod 4 * 16) div 16) = a"
    using glue(1) [of 0 16 "unat a" 4] by (simp del: of_nat_add of_nat_mult)
  have "(unat a mod 4 * 16 + unat b div 16) mod 16 * 16 + (unat b mod 16 * 4 + unat c div 64) div 4 = unat b"
    unfolding glue(2) [OF lt(1)] by (rule glue(1) [OF lt(2)])
  then show "(of_nat ((unat a mod 4 * 16 + unat b div 16) mod 16 * 16
      + (unat b mod 16 * 4 + unat c div 64) div 4) :: byte) = b"
    by (simp del: of_nat_add of_nat_mult)
  show "(of_nat ((unat a mod 4 * 16 + unat b div 16) mod 16 * 16 + (unat b mod 16 * 4) div 4) :: byte) = b"
    unfolding glue(2) [OF lt(1)] using glue(1) [of 0 4 "unat b" 16] by (simp del: of_nat_add of_nat_mult)
  show "(of_nat ((unat b mod 16 * 4 + unat c div 64) mod 4 * 64 + unat c mod 64) :: byte) = c"
    unfolding glue(2) [OF lt(2)] by (simp del: of_nat_add of_nat_mult)
qed

lemma unb64_b64: "unb64 (b64 bs) = Some bs"
  by (induction bs rule: b64.induct)
    (use b64_char(1,2) byte_parts byte_back in \<open>simp_all del: of_nat_add of_nat_mult\<close>)

lemma decode_plain:
  "\<forall>b \<in> set s. 0x20 \<le> unat b \<and> unat b < 128 \<and> b \<notin> {0x22, 0x5C} \<Longrightarrow>
    decode_chars (s @ 0x22 # rest) = Some (s, rest)"
  by (induction s) auto

lemma b64_plain: "\<forall>b \<in> set (b64 bs). 0x20 \<le> unat b \<and> unat b < 128 \<and> b \<notin> {0x22, 0x5C}"
  by (induction bs rule: b64.induct) (use b64_char(3-5) byte_parts in auto)

definition enc_bytes :: "bytes option \<Rightarrow> bytes" where
  "enc_bytes v = (case v of None \<Rightarrow> ascii ''null'' | Some bs \<Rightarrow> 0x22 # b64 bs @ [0x22])"

definition dec_bytes :: "bytes \<Rightarrow> (bytes option \<times> bytes) option" where
  "dec_bytes bs = (case expect (ascii ''null'') bs of
       Some rest \<Rightarrow> Some (None, rest)
     | None \<Rightarrow> Option.bind (dec_str bs) (\<lambda>(s, rest). map_option (\<lambda>v. (Some v, rest)) (unb64 s)))"

interpretation json_bytes: json_value enc_bytes dec_bytes "\<lambda>v. v"
proof
  fix rest :: bytes and v :: "bytes option"
  show "dec_bytes (enc_bytes v @ rest) = Some (v, rest)"
  proof (cases v)
    case None
    then show ?thesis by (simp add: dec_bytes_def enc_bytes_def)
  next
    case (Some bs)
    have "expect (ascii ''null'') (0x22 # b64 bs @ 0x22 # rest) = None"
      by (simp add: expect_def bytes_of_str_def)
    then show ?thesis
      using decode_plain [OF b64_plain, of bs rest]
      by (simp add: Some dec_bytes_def enc_bytes_def dec_str_def unb64_b64)
  qed
qed

subsection \<open>Maps\<close>

text \<open>
  \<open>Marshal\<close> writes the entries of a map in the order of their keys. Reading back puts entry after
  entry into a new map, so of two keys that are written alike the later one stays.
\<close>

definition sorted_entries :: "(bytes, 'v) gomap \<Rightarrow> (bytes \<times> 'v) list" where
  "sorted_entries m = sort_key fst m"

definition enc_entry :: "('v \<Rightarrow> bytes) \<Rightarrow> bytes \<times> 'v \<Rightarrow> bytes" where
  "enc_entry enc kv = enc_str (fst kv) @ ascii '':'' @ enc (snd kv)"

fun join_comma :: "bytes list \<Rightarrow> bytes" where
  "join_comma [] = []"
| "join_comma [x] = x"
| "join_comma (x # xs) = x @ ascii '','' @ join_comma xs"

definition enc_map :: "('v \<Rightarrow> bytes) \<Rightarrow> (bytes, 'v) gomap \<Rightarrow> bytes" where
  "enc_map enc m = ascii ''{'' @ join_comma (map (enc_entry enc) (sorted_entries m)) @ ascii ''}''"

definition dec_entry :: "(bytes \<Rightarrow> ('v \<times> bytes) option) \<Rightarrow> bytes \<Rightarrow> ((bytes \<times> 'v) \<times> bytes) option" where
  "dec_entry dec bs = Option.bind (dec_str bs) (\<lambda>(k, rest). Option.bind (expect (ascii '':'') rest) (\<lambda>rest.
     map_option (apfst (Pair k)) (dec rest)))"

text \<open>The fuel is the length of the text, which has more bytes than entries.\<close>

primrec dec_entries :: "(bytes \<Rightarrow> ('v \<times> bytes) option) \<Rightarrow> nat \<Rightarrow> (bytes, 'v) gomap \<Rightarrow> bytes
    \<Rightarrow> ((bytes, 'v) gomap \<times> bytes) option" where
  "dec_entries dec 0 m bs = None"
| "dec_entries dec (Suc n) m bs = Option.bind (dec_entry dec bs) (\<lambda>((k, v), rest).
     case expect (ascii '','') rest of
       Some rest \<Rightarrow> dec_entries dec n (goput k v m) rest
     | None \<Rightarrow> map_option (Pair (goput k v m)) (expect (ascii ''}'') rest))"

definition dec_map :: "(bytes \<Rightarrow> ('v \<times> bytes) option) \<Rightarrow> bytes \<Rightarrow> ((bytes, 'v) gomap \<times> bytes) option" where
  "dec_map dec bs = Option.bind (expect (ascii ''{'') bs) (\<lambda>rest.
     case expect (ascii ''}'') rest of
       Some rest \<Rightarrow> Some ([], rest)
     | None \<Rightarrow> dec_entries dec (length rest) [] rest)"

definition put_all :: "(bytes \<times> 'v) list \<Rightarrow> (bytes, 'v) gomap \<Rightarrow> (bytes, 'v) gomap" where
  "put_all es m = foldl (\<lambda>m (k, v). goput k v m) m es"

definition norm_map :: "('v \<Rightarrow> 'v) \<Rightarrow> (bytes, 'v) gomap \<Rightarrow> (bytes, 'v) gomap" where
  "norm_map norm m = put_all (map (\<lambda>(k, v). (coerce k, norm v)) (sorted_entries m)) []"

lemma ends_ascii [simp]:
  "ends_value (ascii '','' @ rest)" "ends_value (ascii ''}'' @ rest)"
  by (simp_all add: ends_value_def bytes_of_str_def is_digit_def)

lemma expect_ascii [simp]:
  "expect (ascii '','') (ascii ''}'' @ rest) = None"
  "expect (ascii ''}'') (enc_str k @ rest) = None"
  by (simp_all add: expect_def bytes_of_str_def enc_str_def)

context json_value
begin

lemma dec_enc_entry:
  "ends_value rest \<Longrightarrow> dec_entry dec (enc_entry enc (k, v) @ rest) = Some ((coerce k, norm v), rest)"
  by (simp add: dec_entry_def enc_entry_def dec_enc_str dec_enc)

lemma dec_enc_entries:
  assumes "es \<noteq> []" and "length es \<le> n"
  shows "dec_entries dec n m (join_comma (map (enc_entry enc) es) @ ascii ''}'' @ rest)
    = Some (put_all (map (\<lambda>(k, v). (coerce k, norm v)) es) m, rest)"
  using assms
proof (induction es arbitrary: m n)
  case Nil
  then show ?case by simp
next
  case (Cons e es)
  obtain l where n: "n = Suc l" "length es \<le> l" using Cons.prems(2) by (cases n) auto
  obtain k v where e: "e = (k, v)" by (cases e)
  show ?case
  proof (cases es)
    case Nil
    then show ?thesis by (simp add: n e dec_enc_entry put_all_def)
  next
    case (Cons f fs)
    have "dec_entries dec l (goput (coerce k) (norm v) m) (join_comma (map (enc_entry enc) es) @ ascii ''}'' @ rest)
        = Some (put_all (map (\<lambda>(k, v). (coerce k, norm v)) es) (goput (coerce k) (norm v) m), rest)"
      by (rule Cons.IH) (use Cons n in auto)
    then show ?thesis by (simp add: n e Cons dec_enc_entry put_all_def)
  qed
qed

lemma length_entries: "length es \<le> length (join_comma (map (enc_entry enc) es))"
proof (induction es)
  case (Cons e es)
  then show ?case by (cases es) (simp_all add: enc_entry_def enc_str_def)
qed simp

lemma dec_enc_map: "dec_map dec (enc_map enc m @ rest) = Some (norm_map norm m, rest)"
proof (cases "sorted_entries m")
  case Nil
  then show ?thesis by (simp add: dec_map_def enc_map_def norm_map_def put_all_def)
next
  case (Cons e es)
  let ?text = "join_comma (map (enc_entry enc) (e # es))"
  have "expect (ascii ''}'') (?text @ ascii ''}'' @ rest) = None"
    by (cases es) (simp_all add: enc_entry_def)
  moreover have "dec_entries dec (length (?text @ ascii ''}'' @ rest)) [] (?text @ ascii ''}'' @ rest)
      = Some (put_all (map (\<lambda>(k, v). (coerce k, norm v)) (e # es)) [], rest)"
    by (rule dec_enc_entries) (use length_entries [of "e # es"] in auto)
  ultimately show ?thesis by (simp add: dec_map_def enc_map_def norm_map_def Cons)
qed

end

subsection \<open>What survives\<close>

text \<open>A text that is UTF-8 is read back as it was written.\<close>

definition utf8 :: "bytes \<Rightarrow> bool" where
  "utf8 s \<longleftrightarrow> coerce s = s"

lemma rune_len_replacement [simp]: "rune_len (replacement @ rest) = 3"
  by (simp add: rune_len_def replacement_def between_def)

lemma coerce_rune:
  assumes "rune_len (b # bs) = n" and "128 \<le> unat b" and "n \<noteq> 0"
  shows "coerce (take n (b # bs) @ rest) = take n (b # bs) @ coerce rest"
proof -
  obtain m where m: "n = Suc m" using \<open>n \<noteq> 0\<close> by (cases n) auto
  have "n \<le> length (b # bs)" using rune_len_bytes [OF assms] by simp
  then have "length (take m bs) = m" using m by simp
  moreover have "rune_len (b # take m bs @ rest) = Suc m" using rune_len_take [OF assms, of rest] m by simp
  ultimately show ?thesis using assms(2) by (simp add: m Let_def)
qed

lemma coerce_replacement: "coerce (replacement @ rest) = replacement @ coerce rest"
  using rune_len_replacement [of rest] by (simp add: replacement_def Let_def)

lemma coerce_coerce [simp]: "coerce (coerce s) = coerce s"
proof (induction s rule: coerce.induct)
  case 1
  then show ?case by simp
next
  case (2 b bs)
  show ?case
  proof (cases "unat b < 128")
    case True
    then show ?thesis using 2(1) by simp
  next
    case False
    define n where "n = rune_len (b # bs)"
    show ?thesis
    proof (cases "n = 0")
      case True
      then show ?thesis using 2(2) [OF False n_def True] False
        by (simp add: n_def [symmetric] coerce_replacement)
    next
      case n: False
      have "coerce (take n (b # bs) @ coerce (drop (n - 1) bs)) = take n (b # bs) @ coerce (coerce (drop (n - 1) bs))"
        by (rule coerce_rune [OF n_def [symmetric] _ n]) (use False in simp)
      then show ?thesis using 2(3) [OF False n_def n] n False
        by (simp add: n_def [symmetric] Let_def)
    qed
  qed
qed

lemma utf8_coerce [simp]: "utf8 (coerce s)"
  by (simp add: utf8_def)

lemma gomap_wf_put_all: "gomap_wf m \<Longrightarrow> gomap_wf (put_all es m)"
  by (induction es arbitrary: m) (auto simp: put_all_def)

lemma goget_put_all: "goget (put_all es m) k = (case map_of (rev es) k of None \<Rightarrow> goget m k | Some v \<Rightarrow> Some v)"
  by (induction es rule: rev_induct) (auto simp: put_all_def split: option.splits)

lemma norm_map_wf [simp]: "gomap_wf (norm_map norm m)"
  by (simp add: norm_map_def gomap_wf_put_all)

lemma norm_map_not_utf8: "\<not> utf8 k \<Longrightarrow> goget (norm_map norm m) k = None"
proof -
  assume "\<not> utf8 k"
  then have "k \<notin> fst ` set (map (\<lambda>(k, v). (coerce k, norm v)) (sorted_entries m))"
    using utf8_coerce by fastforce
  then have "map_of (rev (map (\<lambda>(k, v). (coerce k, norm v)) (sorted_entries m))) k = None"
    by (simp add: map_of_eq_None_iff del: set_map)
  then show ?thesis by (simp add: norm_map_def goget_put_all)
qed

lemma norm_map_utf8:
  assumes wf: "gomap_wf m" and keys: "\<forall>k \<in> fst ` set m. utf8 k"
  shows "goget (norm_map norm m) k = map_option norm (goget m k)"
proof -
  have set: "set (sorted_entries m) = set m" by (simp add: sorted_entries_def)
  have "mset (map fst (sorted_entries m)) = mset (map fst m)" by (simp add: sorted_entries_def)
  then have dist: "distinct (map fst (sorted_entries m))"
    using wf unfolding gomap_wf_def by (metis mset_eq_imp_distinct_iff)
  have es: "map (\<lambda>(k, v). (coerce k, norm v)) (sorted_entries m) = map (\<lambda>(k, v). (k, norm v)) (sorted_entries m)"
    using keys by (auto simp: set utf8_def rev_image_eqI)
  have "map_of (rev (map (\<lambda>(k, v). (k, norm v)) (sorted_entries m))) k
      = map_option norm (map_of (rev (sorted_entries m)) k)" by (simp add: rev_map map_of_map)
  also have "map_of (rev (sorted_entries m)) = map_of m"
    using dist wf set by (subst map_of_inject_set) (simp_all add: gomap_wf_def rev_map [symmetric])
  finally show ?thesis unfolding norm_map_def es goget_put_all by (simp split: option.split)
qed

end
