(* ===== verification/Accounts.thy ===== *)
theory Accounts
  imports Json KV_Store
begin

text \<open>
  Accounts and their table in the key-value store (\<open>state/account.go\<close>). An account is stored as
  JSON text under its address. Slices that the code tests for nil or writes as null are options;
  addresses are never nil, and the maps of an account are made with it.
\<close>

subsection \<open>Accounts\<close>

definition AccountTypeNormal :: byte where "AccountTypeNormal = 0"
definition AccountTypeContract :: byte where "AccountTypeContract = 1"
definition AccountTypeValidator :: byte where "AccountTypeValidator = 2"
definition AccountTypeSmartWallet :: byte where "AccountTypeSmartWallet = 3"

record account =
  acAddress :: bytes
  acType :: byte
  acBalance :: int
  acTokenBalances :: "(bytes, int) gomap"
  acNonce :: u64
  acCode :: "bytes option"
  acCodeHash :: "bytes option"
  acStorageRoot :: "bytes option"
  acStorage :: "(bytes, bytes option) gomap"
  acMetadata :: "(bytes, bytes) gomap"

datatype account_error = AcNotFound | AcCorrupt | AcNegativeAmount | AcInsufficient

definition NewAccount :: "bytes \<Rightarrow> byte \<Rightarrow> account" where
  "NewAccount address accountType = \<lparr>acAddress = address, acType = accountType, acBalance = 0,
     acTokenBalances = [], acNonce = 0, acCode = None, acCodeHash = None, acStorageRoot = None,
     acStorage = [], acMetadata = []\<rparr>"

definition account_Transfer :: "int \<Rightarrow> account \<Rightarrow> account_error option \<times> account" where
  "account_Transfer amount a =
     (if amount < 0 then (Some AcNegativeAmount, a)
      else let newBalance = acBalance a - amount
        in if newBalance < 0 then (Some AcInsufficient, a) else (None, a\<lparr>acBalance := newBalance\<rparr>))"

definition Deposit :: "int \<Rightarrow> account \<Rightarrow> account" where
  "Deposit amount a = a\<lparr>acBalance := acBalance a + amount\<rparr>"

definition account_GetTokenBalance :: "bytes \<Rightarrow> account \<Rightarrow> int" where
  "account_GetTokenBalance token a =
     (if length token = 0 then acBalance a
      else case goget (acTokenBalances a) token of None \<Rightarrow> 0 | Some b \<Rightarrow> b)"

definition account_SetTokenBalance :: "bytes \<Rightarrow> int \<Rightarrow> account \<Rightarrow> account" where
  "account_SetTokenBalance token amount a =
     (if length token = 0 then a\<lparr>acBalance := amount\<rparr>
      else a\<lparr>acTokenBalances := goput token amount (acTokenBalances a)\<rparr>)"

definition AddTokenBalance :: "bytes \<Rightarrow> int \<Rightarrow> account \<Rightarrow> account" where
  "AddTokenBalance token amount a =
     (if length token = 0 then a\<lparr>acBalance := acBalance a + amount\<rparr>
      else let cur = (case goget (acTokenBalances a) token of None \<Rightarrow> 0 | Some b \<Rightarrow> b)
        in a\<lparr>acTokenBalances := goput token (cur + amount) (acTokenBalances a)\<rparr>)"

definition DeductTokenBalance :: "bytes \<Rightarrow> int \<Rightarrow> account \<Rightarrow> account" where
  "DeductTokenBalance token amount a =
     (if length token = 0 then a\<lparr>acBalance := acBalance a - amount\<rparr>
      else let cur = (case goget (acTokenBalances a) token of None \<Rightarrow> 0 | Some b \<Rightarrow> b)
        in a\<lparr>acTokenBalances := goput token (cur - amount) (acTokenBalances a)\<rparr>)"

definition account_IncrementNonce :: "account \<Rightarrow> account" where
  "account_IncrementNonce a = a\<lparr>acNonce := acNonce a + 1\<rparr>"

definition IsContract :: "account \<Rightarrow> bool" where "IsContract a \<longleftrightarrow> acType a = AccountTypeContract"
definition IsValidator :: "account \<Rightarrow> bool" where "IsValidator a \<longleftrightarrow> acType a = AccountTypeValidator"
definition IsSmartWallet :: "account \<Rightarrow> bool" where "IsSmartWallet a \<longleftrightarrow> acType a = AccountTypeSmartWallet"
definition HasCode :: "account \<Rightarrow> bool" where
  "HasCode a \<longleftrightarrow> (case acCode a of None \<Rightarrow> False | Some c \<Rightarrow> 0 < length c)"

subsection \<open>The stored form\<close>

text \<open>The fields in their order; the token balances are left out when there are none.\<close>

definition tag :: "string \<Rightarrow> bytes" where
  "tag name = ascii ([CHR '','', CHR 0x22] @ name @ [CHR 0x22, CHR '':''])"

definition first_tag :: "string \<Rightarrow> bytes" where
  "first_tag name = ascii ([CHR ''{'', CHR 0x22] @ name @ [CHR 0x22, CHR '':''])"

definition enc_byte :: "byte \<Rightarrow> bytes" where "enc_byte x = digits (unat x)"

definition dec_byte :: "bytes \<Rightarrow> (byte \<times> bytes) option" where
  "dec_byte bs = Option.bind (dec_nat bs) (\<lambda>(n, rest). if n < 256 then Some (of_nat n, rest) else None)"

interpretation json_byte: json_value enc_byte dec_byte "\<lambda>x. x"
proof
  fix rest :: bytes and x :: byte assume "ends_value rest"
  then show "dec_byte (enc_byte x @ rest) = Some (x, rest)"
    using dec_nat_digits [of rest "unat x"] byte_less [of x] by (simp add: enc_byte_def dec_byte_def)
qed

definition Serialize :: "account \<Rightarrow> bytes" where
  "Serialize a = first_tag ''Address'' @ enc_bytes (Some (acAddress a))
     @ tag ''Type'' @ enc_byte (acType a)
     @ tag ''Balance'' @ enc_int (acBalance a)
     @ (if acTokenBalances a = [] then [] else tag ''token_balances'' @ enc_map enc_int (acTokenBalances a))
     @ tag ''Nonce'' @ enc_u64 (acNonce a)
     @ tag ''Code'' @ enc_bytes (acCode a)
     @ tag ''CodeHash'' @ enc_bytes (acCodeHash a)
     @ tag ''StorageRoot'' @ enc_bytes (acStorageRoot a)
     @ tag ''Storage'' @ enc_map enc_bytes (acStorage a)
     @ tag ''Metadata'' @ enc_map enc_str (acMetadata a) @ ascii ''}''"

definition field :: "bytes \<Rightarrow> (bytes \<Rightarrow> ('v \<times> bytes) option) \<Rightarrow> bytes \<Rightarrow> ('v \<times> bytes) option" where
  "field name dec bs = Option.bind (expect name bs) dec"

definition token_field :: "bytes \<Rightarrow> ((bytes, int) gomap \<times> bytes) option" where
  "token_field bs = (case expect (tag ''token_balances'') bs of
       None \<Rightarrow> Some ([], bs) | Some rest \<Rightarrow> dec_map dec_int rest)"

definition Deserialize :: "bytes \<Rightarrow> account option" where
  "Deserialize bs =
     Option.bind (field (first_tag ''Address'') dec_bytes bs) (\<lambda>(address, bs).
     Option.bind (field (tag ''Type'') dec_byte bs) (\<lambda>(ty, bs).
     Option.bind (field (tag ''Balance'') dec_int bs) (\<lambda>(balance, bs).
     Option.bind (token_field bs) (\<lambda>(tokens, bs).
     Option.bind (field (tag ''Nonce'') dec_u64 bs) (\<lambda>(nonce, bs).
     Option.bind (field (tag ''Code'') dec_bytes bs) (\<lambda>(code, bs).
     Option.bind (field (tag ''CodeHash'') dec_bytes bs) (\<lambda>(codeHash, bs).
     Option.bind (field (tag ''StorageRoot'') dec_bytes bs) (\<lambda>(storageRoot, bs).
     Option.bind (field (tag ''Storage'') (dec_map dec_bytes) bs) (\<lambda>(storage, bs).
     Option.bind (field (tag ''Metadata'') (dec_map dec_str) bs) (\<lambda>(metadata, bs).
       if bs = ascii ''}''
       then Some \<lparr>acAddress = (case address of None \<Rightarrow> [] | Some x \<Rightarrow> x), acType = ty, acBalance = balance,
         acTokenBalances = tokens, acNonce = nonce, acCode = code, acCodeHash = codeHash,
         acStorageRoot = storageRoot, acStorage = storage, acMetadata = metadata\<rparr>
       else None))))))))))"

text \<open>What a stored account is when it is read back.\<close>

definition stored :: "account \<Rightarrow> account" where
  "stored a = a\<lparr>acTokenBalances := norm_map (\<lambda>v. v) (acTokenBalances a),
     acStorage := norm_map (\<lambda>v. v) (acStorage a), acMetadata := norm_map coerce (acMetadata a)\<rparr>"

lemma ends_tag [simp]: "ends_value (tag name @ rest)"
  by (simp add: ends_value_def tag_def bytes_of_str_def is_digit_def)

lemma field_enc:
  assumes "json_value enc dec norm"
  shows "field name dec (name @ enc x @ tag next @ rest) = Some (norm x, tag next @ rest)"
  using assms by (simp add: field_def json_value_def)

lemma field_map:
  assumes "json_value enc dec norm"
  shows "field name (dec_map dec) (name @ enc_map enc m @ rest) = Some (norm_map norm m, rest)"
  using json_value.dec_enc_map [OF assms] by (simp add: field_def)

lemma no_tokens: "expect (tag ''token_balances'') (tag ''Nonce'' @ rest) = None"
  by (simp add: expect_def tag_def bytes_of_str_def)

lemma token_field_enc:
  "token_field ((if m = [] then [] else tag ''token_balances'' @ enc_map enc_int m) @ tag ''Nonce'' @ rest)
    = Some (norm_map (\<lambda>v. v) m, tag ''Nonce'' @ rest)"
  using json_int.dec_enc_map [of m "tag ''Nonce'' @ rest"] no_tokens [of rest]
  by (simp add: token_field_def norm_map_def put_all_def sorted_entries_def)

lemma balance_field:
  "field (tag ''Balance'') dec_int (tag ''Balance'' @ enc_int b @ (if c then [] else tag s @ x) @ tag n @ rest)
    = Some (b, (if c then [] else tag s @ x) @ tag n @ rest)"
  using field_enc [OF json_int.json_value_axioms, of "tag ''Balance''" b n rest]
    field_enc [OF json_int.json_value_axioms, of "tag ''Balance''" b s "x @ tag n @ rest"] by simp

lemma deserialize_serialize: "Deserialize (Serialize a) = Some (stored a)"
proof -
  note codecs = field_enc [OF json_bytes.json_value_axioms] field_enc [OF json_byte.json_value_axioms]
    balance_field field_enc [OF json_u64.json_value_axioms]
    field_map [OF json_bytes.json_value_axioms] field_map [OF json_str.json_value_axioms] token_field_enc
  show ?thesis
    unfolding Deserialize_def Serialize_def append_assoc
    by (simp only: codecs Option.bind.simps prod.case) (simp add: stored_def)
qed

text \<open>
  C27 (account_roundtrip): An account that is written to the store can be read back, as \<open>stored a\<close>: its
  address, type, balance, nonce, code, hash and root are unchanged; in its token balances, storage and
  metadata every key, and in the metadata every value, has its bytes that are not UTF-8 replaced, so
  that of keys that become the same one entry remains.
\<close>

theorem account_roundtrip: "Deserialize (Serialize a) = Some (stored a)"
  by (rule deserialize_serialize)

subsection \<open>The table\<close>

definition accountKeyPrefix :: bytes where "accountKeyPrefix = [1]"
definition accountKey :: "bytes \<Rightarrow> bytes" where "accountKey address = accountKeyPrefix @ address"

definition as_GetAccount :: "bytes \<Rightarrow> store \<Rightarrow> account_error + account" where
  "as_GetAccount address db = (case kv_Get db (accountKey address) of
       None \<Rightarrow> Inl AcNotFound
     | Some data \<Rightarrow> (case Deserialize data of None \<Rightarrow> Inl AcCorrupt | Some a \<Rightarrow> Inr a))"

definition as_SetAccount :: "account \<Rightarrow> store \<Rightarrow> store" where
  "as_SetAccount a db = kv_Put (accountKey (acAddress a)) (Serialize a) db"

definition as_DeleteAccount :: "bytes \<Rightarrow> store \<Rightarrow> store" where
  "as_DeleteAccount address db = kv_Delete (accountKey address) db"

definition as_HasAccount :: "bytes \<Rightarrow> store \<Rightarrow> bool" where
  "as_HasAccount address db = kv_Has db (accountKey address)"

definition as_GetBalance :: "bytes \<Rightarrow> store \<Rightarrow> account_error + int" where
  "as_GetBalance address db = map_sum id acBalance (as_GetAccount address db)"

definition as_GetNonce :: "bytes \<Rightarrow> store \<Rightarrow> account_error + u64" where
  "as_GetNonce address db = map_sum id acNonce (as_GetAccount address db)"

definition as_GetCode :: "bytes \<Rightarrow> store \<Rightarrow> account_error + bytes option" where
  "as_GetCode address db = map_sum id acCode (as_GetAccount address db)"

definition account_or_new :: "bytes \<Rightarrow> store \<Rightarrow> account" where
  "account_or_new address db = (case as_GetAccount address db of
       Inl _ \<Rightarrow> NewAccount address AccountTypeNormal | Inr a \<Rightarrow> a)"

text \<open>Sender and receiver are read before either is written; with one address the receiver wins.\<close>

definition as_Transfer :: "bytes \<Rightarrow> bytes \<Rightarrow> int \<Rightarrow> store \<Rightarrow> account_error option \<times> store" where
  "as_Transfer src dest amount db = (case as_GetAccount src db of
       Inl e \<Rightarrow> (Some e, db)
     | Inr sender \<Rightarrow>
         let receiver = account_or_new dest db in
         (case account_Transfer amount sender of
            (Some e, _) \<Rightarrow> (Some e, db)
          | (None, sender) \<Rightarrow>
              let receiver = Deposit amount receiver;
                  batch = batch_Put (accountKey dest) (Serialize receiver)
                    (batch_Put (accountKey src) (Serialize sender) [])
              in (None, snd (batch_Write batch db))))"

text \<open>All accounts that can be read, and whether one could not.\<close>

definition AllAccounts :: "store \<Rightarrow> bool \<times> account list" where
  "AllAccounts db =
     (let datas = map (\<lambda>k. case kv_Get db k of None \<Rightarrow> [] | Some v \<Rightarrow> v) (keysWithPrefix db accountKeyPrefix)
      in (\<exists>d \<in> set datas. Deserialize d = None,
          [a. d \<leftarrow> datas, Some a \<leftarrow> [Deserialize d]]))"

subsection \<open>Reading what was written\<close>

lemma accountKey_inject [simp]: "accountKey a = accountKey b \<longleftrightarrow> a = b"
  by (simp add: accountKey_def)

lemma stored_simps [simp]:
  "acAddress (stored a) = acAddress a" "acType (stored a) = acType a" "acBalance (stored a) = acBalance a"
  "acNonce (stored a) = acNonce a" "acCode (stored a) = acCode a" "acCodeHash (stored a) = acCodeHash a"
  "acStorageRoot (stored a) = acStorageRoot a"
  "acStorage (stored a) = norm_map (\<lambda>v. v) (acStorage a)"
  "acTokenBalances (stored a) = norm_map (\<lambda>v. v) (acTokenBalances a)"
  by (simp_all add: stored_def)

lemma NewAccount_simps [simp]:
  "acAddress (NewAccount x t) = x" "acType (NewAccount x t) = t" "acBalance (NewAccount x t) = 0"
  "acNonce (NewAccount x t) = 0" "acCode (NewAccount x t) = None" "acStorage (NewAccount x t) = []"
  by (simp_all add: NewAccount_def)

lemma Serialize_nonempty [simp]: "Serialize a \<noteq> []"
  by (simp add: Serialize_def first_tag_def bytes_of_str_def)

lemma get_set_account:
  "as_GetAccount x (as_SetAccount a db) = (if x = acAddress a then Inr (stored a) else as_GetAccount x db)"
  using deserialize_serialize [of a] by (simp add: as_GetAccount_def as_SetAccount_def)

end
