(* ===== verification/MPT_Nodes.thy ===== *)
theory MPT_Nodes
  imports KV_Store Codec
begin

text \<open>
  Paths and nodes of the state trie (\<open>state/mpt.go\<close>): nibble paths, the three kinds of nodes, their
  byte encoding and its parsers. A parser that slices out of range panics, which is \<open>None\<close>; the
  nil results of the code are empty lists.
\<close>

subsection \<open>Paths\<close>

fun keyToNibbles :: "bytes \<Rightarrow> bytes" where
  "keyToNibbles [] = []"
| "keyToNibbles (b # key) = drop_bit 4 b # and b 0x0f # keyToNibbles key"

fun nibblesToKey :: "bytes \<Rightarrow> bytes" where
  "nibblesToKey [] = []"
| "nibblesToKey [a] = [push_bit 4 a]"
| "nibblesToKey (a # b # nibbles) = or (push_bit 4 a) b # nibblesToKey nibbles"

fun commonPrefixLen :: "bytes \<Rightarrow> bytes \<Rightarrow> nat" where
  "commonPrefixLen (x # xs) (y # ys) = (if x \<noteq> y then 0 else Suc (commonPrefixLen xs ys))"
| "commonPrefixLen _ _ = 0"

lemma length_keyToNibbles [simp]: "length (keyToNibbles key) = 2 * length key"
  by (induction key) auto

lemma nibbles_small:
  fixes b :: byte
  shows "unat (drop_bit 4 b) < 16" and "unat (and b 0x0f) < 16"
proof -
  have "unat b < 256" using unsigned_less [of b] by simp
  moreover have "unat (drop_bit 4 b) = unat b div 16"
    by (simp add: drop_bit_eq_div unat_div)
  ultimately show "unat (drop_bit 4 b) < 16" by (simp add: less_mult_imp_div_less)
  have "and b 0x0f = take_bit 4 b" by (simp add: take_bit_eq_mask mask_eq_exp_minus_1)
  then show "unat (and b 0x0f) < 16"
    by (simp add: take_bit_eq_mod unat_mod)
qed

lemma keyToNibbles_small: "x \<in> set (keyToNibbles key) \<Longrightarrow> unat x < 16"
  using nibbles_small by (induction key) auto

lemma byte_of_nibbles: "or (push_bit 4 (drop_bit 4 b)) (and b 0x0f) = (b :: byte)"
proof -
  have "and b 0x0f = take_bit 4 b" by (simp add: take_bit_eq_mask mask_eq_exp_minus_1)
  then show ?thesis by (simp only:) (rule bit_word_eqI, auto simp: bit_simps)
qed

lemma nibblesToKey_keyToNibbles [simp]: "nibblesToKey (keyToNibbles key) = key"
  by (induction key) (simp_all add: byte_of_nibbles)

lemma keyToNibbles_inject [simp]: "keyToNibbles j = keyToNibbles k \<longleftrightarrow> j = k"
  by (metis nibblesToKey_keyToNibbles)

lemma commonPrefixLen_take: "take (commonPrefixLen xs ys) xs = take (commonPrefixLen xs ys) ys"
  by (induction xs ys rule: commonPrefixLen.induct) auto

lemma commonPrefixLen_le: "commonPrefixLen xs ys \<le> length xs" "commonPrefixLen xs ys \<le> length ys"
  by (induction xs ys rule: commonPrefixLen.induct) auto

lemma commonPrefixLen_differ:
  "drop (commonPrefixLen xs ys) xs = x # xs' \<Longrightarrow> drop (commonPrefixLen xs ys) ys = y # ys' \<Longrightarrow> x \<noteq> y"
  by (induction xs ys rule: commonPrefixLen.induct) (auto split: if_splits)

text \<open>The common prefix splits both paths.\<close>

lemma commonPrefix_split:
  obtains p where "p = take (commonPrefixLen xs ys) xs"
    and "xs = p @ drop (commonPrefixLen xs ys) xs" and "ys = p @ drop (commonPrefixLen xs ys) ys"
    and "length p = commonPrefixLen xs ys"
proof (rule that [of "take (commonPrefixLen xs ys) xs"])
  show "ys = take (commonPrefixLen xs ys) xs @ drop (commonPrefixLen xs ys) ys"
    using commonPrefixLen_take [of xs ys] by simp
qed (use commonPrefixLen_le(1) [of xs ys] in simp_all)

subsection \<open>Nodes\<close>

definition nodeTypeBranch :: byte where "nodeTypeBranch = 0x02"
definition nodeTypeExtension :: byte where "nodeTypeExtension = 0x03"
definition nodeTypeLeaf :: byte where "nodeTypeLeaf = 0x04"

lemmas node_types = nodeTypeBranch_def nodeTypeExtension_def nodeTypeLeaf_def

text \<open>The sixteen children of a branch are optional hashes; its value may be absent.\<close>

datatype mpt_node =
    LeafNode bytes bytes
  | ExtensionNode bytes bytes
  | BranchNode "bytes option list" "bytes option"

definition child_bytes :: "bytes option \<Rightarrow> bytes" where
  "child_bytes c = (case c of None \<Rightarrow> [0] | Some h \<Rightarrow> of_nat (length h) # h)"

fun serialize :: "mpt_node \<Rightarrow> bytes" where
  "serialize (LeafNode path val) =
     nodeTypeLeaf # be 4 (length path) @ path @ be 4 (length val) @ val"
| "serialize (ExtensionNode shared child) =
     nodeTypeExtension # be 4 (length shared) @ shared @ be 4 (length child) @ child"
| "serialize (BranchNode children val) =
     nodeTypeBranch # concat (map child_bytes children)
       @ (case val of None \<Rightarrow> [0] | Some v \<Rightarrow> 1 # be 4 (length v) @ v)"

subsection \<open>Parsers\<close>

text \<open>
  The additions of the bounds checks are 32-bit and wrap; the slice that follows a check passed
  by wrapping is out of range.
\<close>

definition parse_pair :: "bytes \<Rightarrow> (bytes \<times> bytes) option" where
  "parse_pair data =
     (if length data < 9 then Some ([], [])
      else let len = of_nat (length data) :: 32 word; pl = unbe (take 4 (drop 1 data)) in
        if len < 5 + of_nat pl then Some ([], [])
        else if length data < 5 + pl then None
        else let nibbles = take pl (drop 5 data); pos = 5 + pl in
          if length data < pos + 4 then Some ([], [])
          else let vl = unbe (take 4 (drop pos data)); pos = pos + 4 in
            if len < of_nat pos + of_nat vl then Some ([], [])
            else if length data < pos + vl then None
            else Some (nibbles, take vl (drop pos data)))"

definition parseLeafData :: "bytes \<Rightarrow> (bytes \<times> bytes) option" where
  "parseLeafData data = parse_pair data"

definition parseExtensionData :: "bytes \<Rightarrow> (bytes \<times> bytes) option" where
  "parseExtensionData data = parse_pair data"

fun parse_children :: "nat \<Rightarrow> bytes \<Rightarrow> (bytes option list \<times> bytes) option" where
  "parse_children 0 rest = Some ([], rest)"
| "parse_children (Suc n) [] = None"
| "parse_children (Suc n) (l # rest) =
     (if 0 < unat l \<and> unat l \<le> length rest
      then map_option (apfst ((#) (Some (take (unat l) rest)))) (parse_children n (drop (unat l) rest))
      else map_option (apfst ((#) None)) (parse_children n rest))"

definition parse_value :: "bytes \<Rightarrow> bytes option" where
  "parse_value rest = (case rest of
       [] \<Rightarrow> None
     | flag # r \<Rightarrow>
         (if flag = 1 \<and> 4 \<le> length r
          then let vl = unbe (take 4 r)
            in if 4 + vl \<le> length r then Some (take vl (drop 4 r)) else None
          else None))"

definition parseBranchData :: "bytes \<Rightarrow> (bytes option list \<times> bytes option) option" where
  "parseBranchData data =
     (if length data < 18 then Some (replicate 16 None, None)
      else map_option (apsnd parse_value) (parse_children 16 (drop 1 data)))"

datatype mpt_error = MptEmptyTrie | MptNotFound | MptNoNode | MptEmptyNode | MptUnknown byte
  | MptBadNibble | MptPanic

text \<open>The dispatch on the first byte.\<close>

definition decode_node :: "bytes \<Rightarrow> mpt_error + mpt_node" where
  "decode_node data =
     (if length data = 0 then Inl MptEmptyNode
      else if hd data = nodeTypeLeaf
      then (case parseLeafData data of None \<Rightarrow> Inl MptPanic | Some (p, v) \<Rightarrow> Inr (LeafNode p v))
      else if hd data = nodeTypeExtension
      then (case parseExtensionData data of None \<Rightarrow> Inl MptPanic | Some (s, c) \<Rightarrow> Inr (ExtensionNode s c))
      else if hd data = nodeTypeBranch
      then (case parseBranchData data of None \<Rightarrow> Inl MptPanic | Some (cs, v) \<Rightarrow> Inr (BranchNode cs v))
      else Inl (MptUnknown (hd data)))"

text \<open>The hashes a stored node refers to.\<close>

definition getChildHashes :: "bytes \<Rightarrow> mpt_error + bytes list" where
  "getChildHashes data = (case decode_node data of
       Inl MptPanic \<Rightarrow> Inl MptPanic
     | Inl _ \<Rightarrow> Inr []
     | Inr (LeafNode _ _) \<Rightarrow> Inr []
     | Inr (ExtensionNode _ c) \<Rightarrow> Inr (if 0 < length c then [c] else [])
     | Inr (BranchNode cs _) \<Rightarrow> Inr (filter (\<lambda>h. 0 < length h) (map the (filter (\<lambda>c. c \<noteq> None) cs))))"

subsection \<open>Round trip\<close>

text \<open>Nodes whose encoding fits the 32-bit lengths and the one-byte hash lengths.\<close>

fun node_fits :: "mpt_node \<Rightarrow> bool" where
  "node_fits (LeafNode path val) \<longleftrightarrow> 9 + length path + length val < 2 ^ 32"
| "node_fits (ExtensionNode shared child) \<longleftrightarrow> 9 + length shared + length child < 2 ^ 32"
| "node_fits (BranchNode children val) \<longleftrightarrow> length children = 16
     \<and> (\<forall>h. Some h \<in> set children \<longrightarrow> 0 < length h \<and> length h < 256)
     \<and> (\<forall>v. val = Some v \<longrightarrow> length v < 2 ^ 32)"

lemma drop_prefix: "length xs = n \<Longrightarrow> drop n (xs @ ys) = ys"
  by auto

lemma parse_pair_encode:
  assumes "9 + length a + length b < 2 ^ 32"
  shows "parse_pair (t # be 4 (length a) @ a @ be 4 (length b) @ b) = Some (a, b)"
proof -
  let ?d = "t # be 4 (length a) @ a @ be 4 (length b) @ b"
  have len: "length ?d = 9 + length a + length b" by simp
  have pl: "unbe (take 4 (drop 1 ?d)) = length a" using assms by simp
  have a: "take (length a) (drop 5 ?d) = a" by simp
  have "drop (5 + length a) ((t # be 4 (length a) @ a) @ be 4 (length b) @ b) = be 4 (length b) @ b"
    by (rule drop_prefix) simp
  then have vl: "unbe (take 4 (drop (5 + length a) ?d)) = length b" using assms by simp
  have "drop (5 + length a + 4) ((t # be 4 (length a) @ a @ be 4 (length b)) @ b) = b"
    by (rule drop_prefix) simp
  then have b: "take (length b) (drop (5 + length a + 4) ?d) = b" by simp
  have w: "(of_nat n :: 32 word) \<le> of_nat m" if "n \<le> m" "m < 2 ^ 32" for n m
    using that by (simp add: word_le_nat_alt unat_of_nat)
  have c1: "\<not> (of_nat (length ?d) :: 32 word) < 5 + of_nat (length a)"
    using w [of "5 + length a" "length ?d"] assms unfolding len not_less by simp
  have c2: "\<not> (of_nat (length ?d) :: 32 word) < of_nat (5 + length a + 4) + of_nat (length b)"
    using w [of "5 + length a + 4 + length b" "length ?d"] assms unfolding len not_less
    by (simp add: add.commute add.left_commute)
  show ?thesis
    unfolding parse_pair_def Let_def pl a vl b if_not_P [OF c1] if_not_P [OF c2]
    using len by simp
qed

lemma parse_children_encode:
  assumes "\<And>h. Some h \<in> set cs \<Longrightarrow> 0 < length h \<and> length h < 256"
  shows "parse_children (length cs) (concat (map child_bytes cs) @ rest) = Some (cs, rest)"
  using assms
proof (induction cs)
  case Nil
  then show ?case by simp
next
  case (Cons c cs)
  then have IH: "parse_children (length cs) (concat (map child_bytes cs) @ rest) = Some (cs, rest)"
    by simp
  show ?case
  proof (cases c)
    case None
    then have "concat (map child_bytes (c # cs)) @ rest = 0 # concat (map child_bytes cs) @ rest"
      by (simp add: child_bytes_def)
    with None IH show ?thesis by simp
  next
    case (Some h)
    then have "0 < length h" "length h < 256" using Cons.prems by simp_all
    then have "unat (of_nat (length h) :: byte) = length h" by (simp add: unat_of_nat_byte)
    moreover have "concat (map child_bytes (c # cs)) @ rest
        = of_nat (length h) # h @ concat (map child_bytes cs) @ rest"
      using Some by (simp add: child_bytes_def)
    ultimately show ?thesis using Some IH \<open>0 < length h\<close> by simp
  qed
qed

lemma parse_value_encode:
  "(\<And>v. val = Some v \<Longrightarrow> length v < 2 ^ 32) \<Longrightarrow>
    parse_value (case val of None \<Rightarrow> [0] | Some v \<Rightarrow> 1 # be 4 (length v) @ v) = val"
  by (cases val) (simp_all add: parse_value_def)

lemma length_children: "length cs \<le> length (concat (map child_bytes cs))"
  by (induction cs) (auto simp: child_bytes_def split: option.splits)

lemma decode_serialize:
  assumes "node_fits n"
  shows "decode_node (serialize n) = Inr n"
proof (cases n)
  case (LeafNode path val)
  with assms show ?thesis
    using parse_pair_encode [of path val nodeTypeLeaf] by (simp add: decode_node_def parseLeafData_def)
next
  case (ExtensionNode shared child)
  with assms show ?thesis
    using parse_pair_encode [of shared child nodeTypeExtension]
    by (simp add: decode_node_def parseExtensionData_def node_types)
next
  case (BranchNode children val)
  with assms have c: "length children = 16"
      "\<And>h. Some h \<in> set children \<Longrightarrow> 0 < length h \<and> length h < 256"
    and v: "\<And>v. val = Some v \<Longrightarrow> length v < 2 ^ 32" by auto
  have "16 \<le> length (concat (map child_bytes children))" using length_children [of children] c(1) by simp
  then have "\<not> length (serialize n) < 18" by (cases val) (simp_all add: BranchNode)
  then have "parseBranchData (serialize n) = Some (children, val)"
    using parse_children_encode [of children, OF c(2)] parse_value_encode [of val, OF v] c(1)
    by (simp add: parseBranchData_def BranchNode)
  then show ?thesis by (simp add: decode_node_def BranchNode node_types)
qed

text \<open>
  Every node that fits the length fields of the encoding is read back from
  its encoding unchanged, whatever its kind.
\<close>

theorem mpt_node_roundtrip:
  assumes "node_fits n"
  shows "decode_node (serialize n) = Inr n"
  using assms by (rule decode_serialize)

theorem mpt_node_roundtrip_witness:
  "decode_node (serialize (BranchNode (Some [7, 8] # replicate 15 None) (Some [1])))
    = Inr (BranchNode (Some [7, 8] # replicate 15 None) (Some [1]))"
  by (rule mpt_node_roundtrip) auto

lemma serialize_inject: "node_fits m \<Longrightarrow> node_fits n \<Longrightarrow> serialize m = serialize n \<longleftrightarrow> m = n"
  by (metis decode_serialize sum.inject(2))

end
