(* ===== verification/MPT.thy ===== *)
theory MPT
  imports MPT_Nodes
begin

text \<open>
  The state trie (\<open>state/mpt.go\<close>) over the key-value store: nodes are stored under the hash of
  their encoding, with reference counts beside them. A recursion over stored nodes need not end when
  the store is corrupt, so \<open>None\<close> is not returning; an error or a panic is \<open>Inl\<close>.

  The hash function is a parameter. SHA-256 has collisions, so nothing is assumed of it on all
  inputs: the field \<open>mpLog\<close>, which no operation reads, collects the encodings that were stored, and
  the theorems assume that the hash separates those. Writes go to the memory store and never fail.
\<close>

subsection \<open>State\<close>

record mpt =
  mpRoot :: "bytes option"
  mpDb :: store
  mpLog :: "bytes list"

definition nodeKey :: "bytes \<Rightarrow> bytes" where "nodeKey hash = bytes_of_str ''mpt:'' @ hash"
definition refKey :: "bytes \<Rightarrow> bytes" where "refKey hash = bytes_of_str ''mpt:refcnt:'' @ hash"
definition rootKey :: "u64 \<Rightarrow> bytes" where "rootKey epoch = bytes_of_str ''mpt:root:'' @ be_u64 epoch"

definition NewMPT :: "store \<Rightarrow> mpt" where
  "NewMPT db = \<lparr>mpRoot = None, mpDb = db, mpLog = []\<rparr>"

definition hashEmptyMPT :: "(bytes \<Rightarrow> bytes) \<Rightarrow> bytes" where "hashEmptyMPT H = H [0]"

definition mpt_Root :: "(bytes \<Rightarrow> bytes) \<Rightarrow> mpt \<Rightarrow> bytes" where
  "mpt_Root H m = (case mpRoot m of None \<Rightarrow> hashEmptyMPT H | Some h \<Rightarrow> h)"

text \<open>Sequencing: an error ends the operation, the writes made so far stay.\<close>

definition then_do :: "('e + 'a) \<times> 's \<Rightarrow> ('a \<Rightarrow> 's \<Rightarrow> ('e + 'b) \<times> 's) \<Rightarrow> ('e + 'b) \<times> 's" where
  "then_do r f = (case fst r of Inl e \<Rightarrow> (Inl e, snd r) | Inr a \<Rightarrow> f a (snd r))"

lemma then_do_simps [simp]:
  "then_do (Inl e, s) f = (Inl e, s)"
  "then_do (Inr a, s) f = f a s"
  by (simp_all add: then_do_def)

subsection \<open>Storing nodes\<close>

definition ref_count :: "bytes \<Rightarrow> store \<Rightarrow> u64" where
  "ref_count hash db = (case kv_Get db (refKey hash) of
       None \<Rightarrow> 0 | Some v \<Rightarrow> if length v = 8 then of_nat (unbe v) else 0)"

definition incrementRef :: "bytes \<Rightarrow> store \<Rightarrow> store" where
  "incrementRef hash db = kv_Put (refKey hash) (be_u64 (ref_count hash db + 1)) db"

definition storeNode :: "(bytes \<Rightarrow> bytes) \<Rightarrow> mpt_node \<Rightarrow> mpt \<Rightarrow> (mpt_error + bytes) \<times> mpt" where
  "storeNode H n m =
     (let data = serialize n; hash = H data; m1 = m\<lparr>mpLog := mpLog m @ [data]\<rparr>
      in if kv_Has (mpDb m) (nodeKey hash) then (Inr hash, m1)
         else let db = kv_Put (nodeKey hash) data (mpDb m)
           in case getChildHashes data of
                Inl e \<Rightarrow> (Inl e, m1\<lparr>mpDb := db\<rparr>)
              | Inr children \<Rightarrow> (Inr hash, m1\<lparr>mpDb := foldl (\<lambda>db c. incrementRef c db) db children\<rparr>))"

subsection \<open>Lookup\<close>

partial_function (option) getNode :: "store \<Rightarrow> bytes \<Rightarrow> bytes \<Rightarrow> (mpt_error + bytes) option" where
  "getNode db nodeHash path =
     (if length nodeHash = 0 then Some (Inl MptNotFound)
      else case kv_Get db (nodeKey nodeHash) of
        None \<Rightarrow> Some (Inl MptNoNode)
      | Some data \<Rightarrow> (case decode_node data of
          Inl e \<Rightarrow> Some (Inl e)
        | Inr n \<Rightarrow> (case n of
            LeafNode nibbles val \<Rightarrow> Some (if nibbles = path then Inr val else Inl MptNotFound)
          | ExtensionNode shared childHash \<Rightarrow>
              (if length path < length shared \<or> take (length shared) path \<noteq> shared
               then Some (Inl MptNotFound)
               else getNode db childHash (drop (length shared) path))
          | BranchNode children val \<Rightarrow> (case path of
              [] \<Rightarrow> Some (case val of Some v \<Rightarrow> Inr v | None \<Rightarrow> Inl MptNotFound)
            | idx # rest \<Rightarrow>
                (if 16 \<le> unat idx then Some (Inl MptBadNibble)
                 else case children ! unat idx of
                        None \<Rightarrow> Some (Inl MptNotFound)
                      | Some h \<Rightarrow> getNode db h rest)))))"

definition mpt_Get :: "bytes \<Rightarrow> mpt \<Rightarrow> (mpt_error + bytes) option" where
  "mpt_Get key m = (case mpRoot m of
       None \<Rightarrow> Some (Inl MptEmptyTrie)
     | Some h \<Rightarrow> getNode (mpDb m) h (keyToNibbles key))"

definition mpt_Has :: "bytes \<Rightarrow> mpt \<Rightarrow> bool option" where
  "mpt_Has key m = map_option (\<lambda>r. case r of Inl _ \<Rightarrow> False | Inr _ \<Rightarrow> True) (mpt_Get key m)"

subsection \<open>Insertion\<close>

text \<open>A value with the rest of its path goes into a free place of a new branch.\<close>

definition attach :: "(bytes \<Rightarrow> bytes) \<Rightarrow> bytes \<Rightarrow> bytes \<Rightarrow> bytes option list \<times> bytes option \<Rightarrow> mpt
    \<Rightarrow> (mpt_error + (bytes option list \<times> bytes option)) \<times> mpt" where
  "attach H path val br m = (case path of
       [] \<Rightarrow> (Inr (fst br, Some val), m)
     | x # rest \<Rightarrow> then_do (storeNode H (LeafNode rest val) m) (\<lambda>h m.
         if 16 \<le> unat x then (Inl MptPanic, m)
         else (Inr ((fst br)[unat x := Some h], snd br), m)))"

definition no_branch :: "bytes option list \<times> bytes option" where
  "no_branch = (replicate 16 None, None)"

definition upsertLeaf :: "(bytes \<Rightarrow> bytes) \<Rightarrow> bytes \<Rightarrow> bytes \<Rightarrow> bytes \<Rightarrow> bytes \<Rightarrow> mpt
    \<Rightarrow> (mpt_error + bytes) \<times> mpt" where
  "upsertLeaf H nibbles oldValue path val m =
     (if nibbles = path then storeNode H (LeafNode path val) m
      else let cp = commonPrefixLen nibbles path in
        if cp = 0
        then then_do (attach H nibbles oldValue no_branch m) (\<lambda>br m.
             then_do (attach H path val br m) (\<lambda>br m.
             storeNode H (BranchNode (fst br) (snd br)) m))
        else then_do (attach H (drop cp nibbles) oldValue no_branch m) (\<lambda>br m.
             then_do (attach H (drop cp path) val br m) (\<lambda>br m.
             then_do (storeNode H (BranchNode (fst br) (snd br)) m) (\<lambda>branchHash m.
             storeNode H (ExtensionNode (take cp nibbles) branchHash) m))))"

text \<open>The old child of an extension that is split, under the first nibble of what remains of it.\<close>

definition split_child :: "(bytes \<Rightarrow> bytes) \<Rightarrow> bytes \<Rightarrow> bytes \<Rightarrow> mpt
    \<Rightarrow> (mpt_error + (bytes option list \<times> bytes option)) \<times> mpt" where
  "split_child H remaining childHash m =
     (if length remaining = 1
      then (if 16 \<le> unat (hd remaining) then (Inl MptPanic, m)
            else (Inr ((fst no_branch)[unat (hd remaining) := Some childHash], None), m))
      else then_do (storeNode H (ExtensionNode (tl remaining) childHash) m) (\<lambda>h m.
        if 16 \<le> unat (hd remaining) then (Inl MptPanic, m)
        else (Inr ((fst no_branch)[unat (hd remaining) := Some h], None), m)))"

definition join_split :: "(bytes \<Rightarrow> bytes) \<Rightarrow> bytes \<Rightarrow> bytes option list \<times> bytes option \<Rightarrow> mpt
    \<Rightarrow> (mpt_error + bytes) \<times> mpt" where
  "join_split H commonPath br m =
     then_do (storeNode H (BranchNode (fst br) (snd br)) m) (\<lambda>branchHash m.
       if length commonPath = 0 then (Inr branchHash, m)
       else storeNode H (ExtensionNode commonPath branchHash) m)"

partial_function (option) upsert :: "(bytes \<Rightarrow> bytes) \<Rightarrow> bytes \<Rightarrow> bytes \<Rightarrow> bytes \<Rightarrow> mpt
    \<Rightarrow> ((mpt_error + bytes) \<times> mpt) option" where
  "upsert H nodeHash path val m =
     (if length nodeHash = 0 then Some (storeNode H (LeafNode path val) m)
      else case kv_Get (mpDb m) (nodeKey nodeHash) of
        None \<Rightarrow> Some (Inl MptNoNode, m)
      | Some data \<Rightarrow> (case decode_node data of
          Inl e \<Rightarrow> Some (Inl e, m)
        | Inr n \<Rightarrow> (case n of
            LeafNode nibbles oldValue \<Rightarrow> Some (upsertLeaf H nibbles oldValue path val m)
          | ExtensionNode shared childHash \<Rightarrow>
              (let cp = commonPrefixLen shared path in
               if cp = length shared
               then Option.bind (upsert H childHash (drop cp path) val m) (\<lambda>r.
                 Some (then_do r (\<lambda>newChild m. storeNode H (ExtensionNode shared newChild) m)))
               else (case split_child H (drop cp shared) childHash m of
                   (Inl e, m) \<Rightarrow> Some (Inl e, m)
                 | (Inr br, m) \<Rightarrow>
                     (case drop cp path of
                        [] \<Rightarrow> Some (join_split H (take cp shared) (fst br, Some val) m)
                      | idx # rest \<Rightarrow>
                          (if 16 \<le> unat idx then Some (Inl MptPanic, m)
                           else case fst br ! unat idx of
                               Some h \<Rightarrow> Option.bind (upsert H h rest val m) (\<lambda>r.
                                 Some (then_do r (\<lambda>h m.
                                   join_split H (take cp shared) ((fst br)[unat idx := Some h], snd br) m)))
                             | None \<Rightarrow> Some (then_do (storeNode H (LeafNode rest val) m) (\<lambda>h m.
                                 join_split H (take cp shared) ((fst br)[unat idx := Some h], snd br) m))))))
          | BranchNode children oldValue \<Rightarrow> (case path of
              [] \<Rightarrow> Some (storeNode H (BranchNode children (Some val)) m)
            | idx # rest \<Rightarrow>
                (if 16 \<le> unat idx then Some (Inl MptPanic, m)
                 else case children ! unat idx of
                     Some h \<Rightarrow> Option.bind (upsert H h rest val m) (\<lambda>r.
                       Some (then_do r (\<lambda>newChild m.
                         storeNode H (BranchNode (children[unat idx := Some newChild]) oldValue) m)))
                   | None \<Rightarrow> Some (then_do (storeNode H (LeafNode rest val) m) (\<lambda>h m.
                       storeNode H (BranchNode (children[unat idx := Some h]) oldValue) m)))))))"

subsection \<open>Deletion\<close>

definition store_some :: "(bytes \<Rightarrow> bytes) \<Rightarrow> mpt_node \<Rightarrow> mpt \<Rightarrow> (mpt_error + bytes option) \<times> mpt" where
  "store_some H n m = then_do (storeNode H n m) (\<lambda>h m. (Inr (Some h), m))"

text \<open>
  A child under a path: a leaf or an extension takes the path over, a branch stays below \<open>other\<close>,
  which is also what is kept when the child cannot be read.
\<close>

definition collapse :: "(bytes \<Rightarrow> bytes) \<Rightarrow> bytes \<Rightarrow> bytes \<Rightarrow> mpt_node \<Rightarrow> mpt
    \<Rightarrow> (mpt_error + bytes option) \<times> mpt" where
  "collapse H path child other m = (case kv_Get (mpDb m) (nodeKey child) of
       None \<Rightarrow> store_some H other m
     | Some cd \<Rightarrow>
         (if length cd = 0 \<or> hd cd \<notin> {nodeTypeLeaf, nodeTypeExtension} then store_some H other m
          else case decode_node cd of
              Inl e \<Rightarrow> (Inl e, m)
            | Inr (LeafNode cNibbles cVal) \<Rightarrow> store_some H (LeafNode (path @ cNibbles) cVal) m
            | Inr (ExtensionNode extShared extChild) \<Rightarrow>
                store_some H (ExtensionNode (path @ extShared) extChild) m
            | Inr (BranchNode _ _) \<Rightarrow> store_some H other m))"

definition collapse_extension :: "(bytes \<Rightarrow> bytes) \<Rightarrow> bytes \<Rightarrow> bytes option \<Rightarrow> mpt
    \<Rightarrow> (mpt_error + bytes option) \<times> mpt" where
  "collapse_extension H shared newChild m = (case newChild of
       None \<Rightarrow> (Inr None, m)
     | Some c \<Rightarrow> collapse H shared c (ExtensionNode shared c) m)"

definition remaining :: "bytes option list \<Rightarrow> (nat \<times> bytes) list" where
  "remaining children = [(i, h). i \<leftarrow> [0..<16], Some h \<leftarrow> [children ! i]]"

definition collapse_branch :: "(bytes \<Rightarrow> bytes) \<Rightarrow> bytes option list \<Rightarrow> bytes option \<Rightarrow> mpt
    \<Rightarrow> (mpt_error + bytes option) \<times> mpt" where
  "collapse_branch H children val m = (case (val, remaining children) of
       (Some v, []) \<Rightarrow> store_some H (LeafNode [] v) m
     | (None, [(i, h)]) \<Rightarrow> collapse H [of_nat i] h (BranchNode children None) m
     | (None, []) \<Rightarrow> (Inr None, m)
     | _ \<Rightarrow> store_some H (BranchNode children val) m)"

partial_function (option) mpt_remove :: "(bytes \<Rightarrow> bytes) \<Rightarrow> bytes \<Rightarrow> bytes \<Rightarrow> mpt
    \<Rightarrow> ((mpt_error + bytes option) \<times> mpt) option" where
  "mpt_remove H nodeHash path m =
     (if length nodeHash = 0 then Some (Inr None, m)
      else case kv_Get (mpDb m) (nodeKey nodeHash) of
        None \<Rightarrow> Some (Inr (Some nodeHash), m)
      | Some data \<Rightarrow> (case decode_node data of
          Inl e \<Rightarrow> Some (if e = MptEmptyNode then Inr None
                        else if e = MptPanic then Inl e else Inr (Some nodeHash), m)
        | Inr n \<Rightarrow> (case n of
            LeafNode nibbles _ \<Rightarrow> Some (Inr (if nibbles = path then None else Some (H data)), m)
          | ExtensionNode shared childHash \<Rightarrow>
              (if length path < length shared \<or> take (length shared) path \<noteq> shared
               then Some (Inr (Some (H data)), m)
               else Option.bind (mpt_remove H childHash (drop (length shared) path) m) (\<lambda>r.
                 Some (then_do r (\<lambda>newChild m. collapse_extension H shared newChild m))))
          | BranchNode children val \<Rightarrow> (case path of
              [] \<Rightarrow> Some (collapse_branch H children None m)
            | idx # rest \<Rightarrow>
                (if 16 \<le> unat idx then Some (Inl MptPanic, m)
                 else case children ! unat idx of
                     None \<Rightarrow> Some (Inr (Some (H data)), m)
                   | Some h \<Rightarrow> Option.bind (mpt_remove H h rest m) (\<lambda>r.
                       Some (then_do r (\<lambda>newChild m.
                         collapse_branch H (children[unat idx := newChild]) val m))))))))"

definition mpt_Delete :: "(bytes \<Rightarrow> bytes) \<Rightarrow> bytes \<Rightarrow> mpt \<Rightarrow> ((mpt_error + unit) \<times> mpt) option" where
  "mpt_Delete H key m = (case mpRoot m of
       None \<Rightarrow> Some (Inr (), m)
     | Some h \<Rightarrow> map_option (\<lambda>r. then_do r (\<lambda>newRoot m. (Inr (), m\<lparr>mpRoot := newRoot\<rparr>)))
                   (mpt_remove H h (keyToNibbles key) m))"

definition mpt_Update :: "(bytes \<Rightarrow> bytes) \<Rightarrow> bytes \<Rightarrow> bytes \<Rightarrow> mpt
    \<Rightarrow> ((mpt_error + unit) \<times> mpt) option" where
  "mpt_Update H key val m =
     (if length val = 0 then mpt_Delete H key m
      else map_option (\<lambda>r. then_do r (\<lambda>newRoot m. (Inr (), m\<lparr>mpRoot := Some newRoot\<rparr>)))
             (upsert H (case mpRoot m of None \<Rightarrow> [] | Some h \<Rightarrow> h) (keyToNibbles key) val m))"

end
