(* ===== verification/MPT_Map.thy ===== *)
theory MPT_Map
  imports MPT
begin

text \<open>
  The state trie as a map. \<open>rep db h M\<close> relates the node stored under a hash to the map from paths to
  values that it stands for; lookup, insertion and deletion in the store are lookup, update and
  removal in that map.
\<close>

subsection \<open>Keys of the store\<close>

lemma nodeKey_inject [simp]: "nodeKey h = nodeKey k \<longleftrightarrow> h = k"
  by (simp add: nodeKey_def)

lemma refKey_inject [simp]: "refKey h = refKey k \<longleftrightarrow> h = k"
  by (simp add: refKey_def)

lemma nodeKey_refKey [simp]: "length h = 32 \<Longrightarrow> length k = 32 \<Longrightarrow> nodeKey h \<noteq> refKey k"
proof
  assume "length h = 32" "length k = 32" and "nodeKey h = refKey k"
  then have "length (nodeKey h) = length (refKey k)" by simp
  with \<open>length h = 32\<close> \<open>length k = 32\<close> show False by (simp add: nodeKey_def refKey_def)
qed

subsection \<open>Maps of paths\<close>

type_synonym pmap = "bytes \<Rightarrow> bytes option"

definition prefixed :: "bytes \<Rightarrow> pmap \<Rightarrow> pmap" where
  "prefixed s M = (\<lambda>q. if take (length s) q = s then M (drop (length s) q) else None)"

definition branch_map :: "bytes option \<Rightarrow> (nat \<Rightarrow> pmap) \<Rightarrow> pmap" where
  "branch_map v ms = (\<lambda>q. case q of [] \<Rightarrow> v | x # q' \<Rightarrow> if unat x < 16 then ms (unat x) q' else None)"

lemma prefixed_Nil [simp]: "prefixed [] M = M"
  by (simp add: prefixed_def)

lemma prefixed_append_app [simp]: "prefixed s M (s @ q) = M q"
  by (simp add: prefixed_def)

lemma prefixed_Some: "prefixed s M q = Some v \<longleftrightarrow> (\<exists>r. q = s @ r \<and> M r = Some v)"
  unfolding prefixed_def by (metis append_eq_conv_conj append_take_drop_id option.distinct(1))

lemma prefixed_None: "take (length s) q \<noteq> s \<Longrightarrow> prefixed s M q = None"
  by (simp add: prefixed_def)

lemma map_eqI: "(\<And>q v. M q = Some v \<longleftrightarrow> N q = Some v) \<Longrightarrow> M = (N :: 'a \<rightharpoonup> 'b)"
  by (rule ext) (metis not_Some_eq)

lemma prefixed_prefixed: "prefixed s (prefixed t M) = prefixed (s @ t) M"
  by (rule map_eqI) (auto simp: prefixed_Some)

lemma prefixed_update: "prefixed s (M(q \<mapsto> v)) = (prefixed s M)(s @ q \<mapsto> v)"
  by (rule map_eqI) (auto simp: prefixed_Some)

lemma prefixed_remove: "prefixed s (M(q := None)) = (prefixed s M)(s @ q := None)"
  by (rule map_eqI) (auto simp: prefixed_Some)

lemma prefixed_single: "prefixed s [q \<mapsto> v] = [s @ q \<mapsto> v]"
  by (rule map_eqI) (auto simp: prefixed_Some)

lemma prefixed_empty [simp]: "prefixed s Map.empty = Map.empty"
  by (simp add: prefixed_def fun_eq_iff)

lemma branch_update:
  "(branch_map v ms)([] \<mapsto> x) = branch_map (Some x) ms"
  "(branch_map v ms)([] := None) = branch_map None ms"
  "unat i < 16 \<Longrightarrow> (branch_map v ms)(i # q \<mapsto> x) = branch_map v (ms(unat i := (ms (unat i))(q \<mapsto> x)))"
  "unat i < 16 \<Longrightarrow> (branch_map v ms)(i # q := None)
     = branch_map v (ms(unat i := (ms (unat i))(q := None)))"
  by (auto simp: branch_map_def fun_eq_iff unsigned_word_eqI split: list.split)

text \<open>Entries small enough for the encoding, with paths of nibbles.\<close>

definition entry_fits :: "bytes \<Rightarrow> bytes \<Rightarrow> bool" where
  "entry_fits q v \<longleftrightarrow> length q + length v + 300 < 2 ^ 32 \<and> (\<forall>x \<in> set q. unat x < 16)"

definition map_fits :: "pmap \<Rightarrow> bool" where
  "map_fits M \<longleftrightarrow> (\<forall>q v. M q = Some v \<longrightarrow> entry_fits q v)"

lemma entry_fits_append: "entry_fits (s @ q) v \<Longrightarrow> entry_fits q v"
  by (auto simp: entry_fits_def)

lemma map_fits_empty [simp]: "map_fits Map.empty"
  by (simp add: map_fits_def)

lemma map_fits_update [simp]: "map_fits M \<Longrightarrow> entry_fits q v \<Longrightarrow> map_fits (M(q \<mapsto> v))"
  by (auto simp: map_fits_def)

lemma map_fits_remove [simp]: "map_fits M \<Longrightarrow> map_fits (M(q := None))"
  by (auto simp: map_fits_def)

lemma map_fits_prefixed: "map_fits (prefixed s M) \<Longrightarrow> map_fits M"
  unfolding map_fits_def prefixed_Some by (metis entry_fits_append)

lemma map_fits_branch:
  assumes "map_fits (branch_map v ms)" and "i < 16"
  shows "map_fits (ms i)"
  unfolding map_fits_def
proof (intro allI impI)
  fix q x assume "ms i q = Some x"
  moreover have "unat (of_nat i :: byte) = i" using assms(2) by (simp add: unat_of_nat_byte)
  ultimately have "branch_map v ms (of_nat i # q) = Some x" using assms(2) by (simp add: branch_map_def)
  with assms(1) have "entry_fits (of_nat i # q) x" by (simp add: map_fits_def)
  then show "entry_fits q x" using entry_fits_append [of "[of_nat i]"] by simp
qed

subsection \<open>The nodes in the store\<close>

definition node_at :: "store \<Rightarrow> bytes \<Rightarrow> mpt_node \<Rightarrow> bool" where
  "node_at db h n \<longleftrightarrow> length h = 32 \<and> node_fits n \<and> kv_Get db (nodeKey h) = Some (serialize n)"

inductive rep :: "store \<Rightarrow> bytes \<Rightarrow> pmap \<Rightarrow> bool" for db where
  rep_leaf: "node_at db h (LeafNode p v) \<Longrightarrow> rep db h [p \<mapsto> v]"
| rep_extension: "node_at db h (ExtensionNode s c) \<Longrightarrow> s \<noteq> [] \<Longrightarrow> rep db c M
    \<Longrightarrow> rep db h (prefixed s M)"
| rep_branch: "node_at db h (BranchNode cs v) \<Longrightarrow>
    (\<And>i c. i < 16 \<Longrightarrow> cs ! i = Some c \<Longrightarrow> rep db c (ms i)) \<Longrightarrow>
    (\<And>i. i < 16 \<Longrightarrow> cs ! i = None \<Longrightarrow> ms i = Map.empty) \<Longrightarrow>
    v \<noteq> None \<or> (\<exists>i<16. cs ! i \<noteq> None) \<Longrightarrow> rep db h (branch_map v ms)"

text \<open>\<open>keeps db db'\<close>: every node of the first store is in the second.\<close>

definition keeps :: "store \<Rightarrow> store \<Rightarrow> bool" where
  "keeps db db' \<longleftrightarrow> (\<forall>h d. length h = 32 \<longrightarrow> kv_Get db (nodeKey h) = Some d
     \<longrightarrow> kv_Get db' (nodeKey h) = Some d)"

lemma keeps_refl [simp]: "keeps db db"
  by (simp add: keeps_def)

lemma keeps_trans: "keeps db db' \<Longrightarrow> keeps db' db'' \<Longrightarrow> keeps db db''"
  by (simp add: keeps_def)

lemma node_at_keeps: "node_at db h n \<Longrightarrow> keeps db db' \<Longrightarrow> node_at db' h n"
  by (simp add: node_at_def keeps_def)

lemma rep_keeps: "rep db h M \<Longrightarrow> keeps db db' \<Longrightarrow> rep db' h M"
proof (induction rule: rep.induct)
  case (rep_leaf h p v)
  from rep.rep_leaf [OF node_at_keeps [OF this]] show ?case .
next
  case (rep_extension h s c M)
  from rep.rep_extension [OF node_at_keeps [OF rep_extension(1,5)] rep_extension(2)
      rep_extension(4) [OF rep_extension(5)]] show ?case .
next
  case (rep_branch h cs v ms)
  from rep_branch.prems show ?case
    by (intro rep.rep_branch [OF node_at_keeps [OF rep_branch.hyps(1)]] rep_branch.IH
        rep_branch.hyps) assumption+
qed

lemma rep_length: "rep db h M \<Longrightarrow> length h = 32"
  by (auto elim: rep.cases simp: node_at_def)

lemma rep_nonempty: "rep db h M \<Longrightarrow> \<exists>q v. M q = Some v"
proof (induction rule: rep.induct)
  case (rep_leaf h p v)
  then show ?case by auto
next
  case (rep_extension h s c M)
  then show ?case by (metis prefixed_append_app)
next
  case (rep_branch h cs v ms)
  show ?case
  proof (cases v)
    case (Some x)
    then have "branch_map v ms [] = Some x" by (simp add: branch_map_def)
    then show ?thesis by blast
  next
    case None
    then obtain i c where i: "i < 16" "cs ! i = Some c" using rep_branch.hyps by auto
    then obtain q x where "ms i q = Some x" using rep_branch.IH by blast
    moreover have "unat (of_nat i :: byte) = i" using i(1) by (simp add: unat_of_nat_byte)
    ultimately have "branch_map v ms (of_nat i # q) = Some x" using i(1) by (simp add: branch_map_def)
    then show ?thesis by blast
  qed
qed

lemma node_at_read:
  assumes "node_at db h n"
  obtains data where "kv_Get db (nodeKey h) = Some data" and "decode_node data = Inr n"
    and "length h \<noteq> 0" and "data = serialize n"
  using assms decode_serialize [of n] by (intro that [of "serialize n"]) (auto simp: node_at_def)

subsection \<open>Lookup\<close>

text \<open>A lookup returns, with what the map holds.\<close>

definition nibble_path :: "bytes \<Rightarrow> bool" where
  "nibble_path path \<longleftrightarrow> (\<forall>x \<in> set path. unat x < 16)"

lemma nibble_path_simps [simp]:
  "nibble_path []" "nibble_path (x # path) \<longleftrightarrow> unat x < 16 \<and> nibble_path path"
  by (simp_all add: nibble_path_def)

lemma nibble_path_drop: "nibble_path path \<Longrightarrow> nibble_path (drop n path)"
  by (auto simp: nibble_path_def dest: in_set_dropD)

lemma nibble_path_keyToNibbles [simp]: "nibble_path (keyToNibbles key)"
  using keyToNibbles_small by (auto simp: nibble_path_def)

definition answer_of :: "bytes option \<Rightarrow> mpt_error + bytes" where
  "answer_of v = (case v of None \<Rightarrow> Inl MptNotFound | Some x \<Rightarrow> Inr x)"

lemma answer_of_simps [simp]: "answer_of None = Inl MptNotFound" "answer_of (Some x) = Inr x"
  by (simp_all add: answer_of_def)

lemma getNode_rep: "rep db h M \<Longrightarrow> nibble_path path \<Longrightarrow> getNode db h path = Some (answer_of (M path))"
proof (induction arbitrary: path rule: rep.induct)
  case (rep_leaf h p v)
  from rep_leaf.hyps obtain data where "kv_Get db (nodeKey h) = Some data"
      "decode_node data = Inr (LeafNode p v)" "length h \<noteq> 0" by (rule node_at_read)
  then show ?case by (subst getNode.simps) auto
next
  case (rep_extension h s c M)
  from rep_extension.hyps(1) obtain data where "kv_Get db (nodeKey h) = Some data"
      "decode_node data = Inr (ExtensionNode s c)" "length h \<noteq> 0" by (rule node_at_read)
  then show ?case
    using rep_extension.IH [OF nibble_path_drop [OF rep_extension.prems]]
    by (subst getNode.simps) (auto simp: prefixed_def)
next
  case (rep_branch h cs v ms)
  from rep_branch.hyps(1) obtain data where d: "kv_Get db (nodeKey h) = Some data"
      "decode_node data = Inr (BranchNode cs v)" "length h \<noteq> 0" by (rule node_at_read)
  show ?case
  proof (cases path)
    case Nil
    with d show ?thesis
      by (subst getNode.simps) (auto simp: branch_map_def answer_of_def split: option.splits)
  next
    case (Cons x rest)
    with rep_branch.prems have x: "unat x < 16" "nibble_path rest" by simp_all
    with Cons d rep_branch.IH [OF x(1) _ x(2)] rep_branch.hyps(3) [OF x(1)] show ?thesis
      by (subst getNode.simps) (auto simp: branch_map_def not_le split: option.splits)
  qed
qed

subsection \<open>Storing nodes\<close>

text \<open>Hashes have 32 bytes; the nodes of the store lie under their hash and were logged.\<close>

definition hash_ok :: "(bytes \<Rightarrow> bytes) \<Rightarrow> bool" where
  "hash_ok H \<longleftrightarrow> (\<forall>d. length (H d) = 32)"

definition content_ok :: "(bytes \<Rightarrow> bytes) \<Rightarrow> mpt \<Rightarrow> bool" where
  "content_ok H m \<longleftrightarrow> (\<forall>h d. length h = 32 \<longrightarrow> kv_Get (mpDb m) (nodeKey h) = Some d
     \<longrightarrow> H d = h \<and> d \<in> set (mpLog m))"

lemma content_ok_log: "content_ok H m \<Longrightarrow> content_ok H (m\<lparr>mpLog := mpLog m @ xs\<rparr>)"
  by (auto simp: content_ok_def)

abbreviation logged :: "mpt \<Rightarrow> bytes set" where
  "logged m \<equiv> set (mpLog m)"

fun child_hashes :: "mpt_node \<Rightarrow> bytes set" where
  "child_hashes (LeafNode _ _) = {}"
| "child_hashes (ExtensionNode _ c) = {c}"
| "child_hashes (BranchNode cs _) = {h. Some h \<in> set cs}"

definition node_ok :: "mpt_node \<Rightarrow> bool" where
  "node_ok n \<longleftrightarrow> node_fits n \<and> (\<forall>c \<in> child_hashes n. length c = 32)"

text \<open>States that differ by a sequence of stored nodes.\<close>

inductive stored_from :: "(bytes \<Rightarrow> bytes) \<Rightarrow> mpt \<Rightarrow> mpt \<Rightarrow> bool" for H m where
  stored_none: "stored_from H m m"
| stored_next: "stored_from H m m1 \<Longrightarrow> node_ok n \<Longrightarrow> storeNode H n m1 = (r, m2) \<Longrightarrow> stored_from H m m2"

lemma stored_from_trans: "stored_from H m1 m2 \<Longrightarrow> stored_from H m m1 \<Longrightarrow> stored_from H m m2"
  by (induction rule: stored_from.induct) (auto intro: stored_from.intros)

text \<open>What every part of an operation does to the state besides its result.\<close>

definition grows :: "(bytes \<Rightarrow> bytes) \<Rightarrow> mpt \<Rightarrow> mpt \<Rightarrow> bool" where
  "grows H m m' \<longleftrightarrow> keeps (mpDb m) (mpDb m') \<and> mpRoot m' = mpRoot m \<and> content_ok H m'
     \<and> stored_from H m m'"

lemma grows_trans: "grows H m m1 \<Longrightarrow> grows H m1 m2 \<Longrightarrow> grows H m m2"
  by (auto simp: grows_def intro: keeps_trans stored_from_trans)

lemma rep_grows: "rep (mpDb m) h M \<Longrightarrow> grows H m m' \<Longrightarrow> rep (mpDb m') h M"
  by (auto simp: grows_def intro: rep_keeps)

lemma log_storeNode: "storeNode H n m = (r, m') \<Longrightarrow> logged m' = insert (serialize n) (logged m)"
  by (auto simp: storeNode_def Let_def split: if_splits sum.splits)

lemma increments_get:
  "(\<forall>c \<in> set children. length c = 32) \<Longrightarrow> length h = 32 \<Longrightarrow>
    kv_Get (foldl (\<lambda>db c. incrementRef c db) db children) (nodeKey h) = kv_Get db (nodeKey h)"
  by (induction children arbitrary: db) (simp_all add: incrementRef_def)

lemma getChildHashes_serialize:
  assumes "node_fits n"
  obtains children where "getChildHashes (serialize n) = Inr children"
    and "set children \<subseteq> child_hashes n"
proof (cases n)
  case (BranchNode cs v)
  have "set (filter (\<lambda>h. 0 < length h) (map the (filter (\<lambda>c. c \<noteq> None) cs))) \<subseteq> {h. Some h \<in> set cs}"
    by auto
  with decode_serialize [OF assms] show ?thesis
    by (intro that) (auto simp: getChildHashes_def BranchNode simp del: serialize.simps)
qed (use decode_serialize [OF assms] in \<open>auto simp: getChildHashes_def simp del: serialize.simps intro!: that\<close>)

lemma storeNode_rep:
  assumes H: "hash_ok H" and ok: "content_ok H m" and fits: "node_fits n"
    and kids: "\<And>c. c \<in> child_hashes n \<Longrightarrow> length c = 32"
    and store: "storeNode H n m = (r, m')" and sep: "inj_on H D" "logged m' \<subseteq> D"
  shows "r = Inr (H (serialize n))" and "node_at (mpDb m') (H (serialize n)) n" and "grows H m m'"
proof -
  let ?d = "serialize n"
  let ?h = "H ?d"
  have len: "length ?h = 32" using H by (simp add: hash_ok_def)
  have "node_ok n" using fits kids by (simp add: node_ok_def)
  from stored_next [OF stored_none this store] have chain: "stored_from H m m'" .
  have d: "?d \<in> D" and D: "logged m \<subseteq> D" using log_storeNode [OF store] sep(2) by auto
  obtain children where children: "getChildHashes ?d = Inr children" "set children \<subseteq> child_hashes n"
    using getChildHashes_serialize [OF fits] .
  have kids': "\<forall>c \<in> set children. length c = 32" using children(2) kids by auto
  have "r = Inr ?h \<and> node_at (mpDb m') ?h n \<and> grows H m m'"
  proof (cases "kv_Get (mpDb m) (nodeKey ?h)")
    case None
    let ?db = "foldl (\<lambda>db c. incrementRef c db) (kv_Put (nodeKey ?h) ?d (mpDb m)) children"
    have m': "r = Inr ?h" "m' = m\<lparr>mpLog := mpLog m @ [?d], mpDb := ?db\<rparr>"
      using store None children(1) by (auto simp: storeNode_def Let_def kv_Has_def kv_Get_def)
    have get: "kv_Get ?db (nodeKey k) = (if k = ?h then Some ?d else kv_Get (mpDb m) (nodeKey k))"
      if "length k = 32" for k
      using increments_get [OF kids' that] by simp
    have "node_at (mpDb m') ?h n" using get [OF len] len fits m'(2) by (simp add: node_at_def)
    moreover have "keeps (mpDb m) (mpDb m')" using get None m'(2) by (auto simp: keeps_def)
    moreover have "content_ok H m'"
      unfolding content_ok_def
    proof (intro allI impI)
      fix k d assume "length k = 32" "kv_Get (mpDb m') (nodeKey k) = Some d"
      with get [of k] m'(2) ok show "H d = k \<and> d \<in> logged m'"
        by (auto simp: content_ok_def split: if_splits)
    qed
    ultimately show ?thesis using m' chain by (simp add: grows_def)
  next
    case (Some d')
    then have "H d' = ?h" "d' \<in> D" using ok len D by (auto simp: content_ok_def)
    then have "d' = ?d" using sep(1) d by (auto dest: inj_onD)
    moreover have "r = Inr ?h" "m' = m\<lparr>mpLog := mpLog m @ [?d]\<rparr>"
      using store Some by (auto simp: storeNode_def Let_def kv_Has_def kv_Get_def)
    moreover have "content_ok H (m\<lparr>mpLog := mpLog m @ [?d]\<rparr>)" using ok by (rule content_ok_log)
    ultimately show ?thesis using Some len fits chain by (simp add: node_at_def grows_def)
  qed
  then show "r = Inr ?h" and "node_at (mpDb m') ?h n" and "grows H m m'" by auto
qed


subsection \<open>Sequences of stores\<close>

text \<open>
  What every operation does, also where it fails: the log only grows, and only keys of the trie are
  written.
\<close>

definition extends :: "mpt \<Rightarrow> mpt \<Rightarrow> bool" where
  "extends m m' \<longleftrightarrow> logged m \<subseteq> logged m' \<and> length (mpLog m) \<le> length (mpLog m')
     \<and> (\<forall>k. take 4 k \<noteq> bytes_of_str ''mpt:'' \<longrightarrow> kv_Get (mpDb m') k = kv_Get (mpDb m) k)"

lemma extends_refl [simp]: "extends m m"
  by (simp add: extends_def)

lemma extends_root [simp]: "extends m (m'\<lparr>mpRoot := r\<rparr>) \<longleftrightarrow> extends m m'"
  by (simp add: extends_def)

lemma extends_trans [trans]: "extends m m1 \<Longrightarrow> extends m1 m2 \<Longrightarrow> extends m m2"
  by (auto simp: extends_def)

lemma extends_logged: "extends m m' \<Longrightarrow> logged m \<subseteq> logged m'"
  by (simp add: extends_def)

lemma trie_keys:
  "take 4 (nodeKey h) = bytes_of_str ''mpt:''" "take 4 (refKey h) = bytes_of_str ''mpt:''"
  by (simp_all add: nodeKey_def refKey_def bytes_of_str_def)

lemma increments_other:
  "take 4 k \<noteq> bytes_of_str ''mpt:'' \<Longrightarrow> kv_Get (foldl (\<lambda>db c. incrementRef c db) db cs) k = kv_Get db k"
proof (induction cs arbitrary: db)
  case (Cons c cs)
  have "k \<noteq> refKey c" using Cons.prems trie_keys by auto
  then show ?case using Cons by (simp add: incrementRef_def)
qed simp

lemma extends_store: "extends m (snd (storeNode H n m))"
proof -
  have "k \<noteq> nodeKey h" if "take 4 k \<noteq> bytes_of_str ''mpt:''" for k h using that trie_keys by auto
  then show ?thesis
    by (auto simp: extends_def storeNode_def Let_def increments_other split: sum.split)
qed

text \<open>
  \<open>does H D m res Q\<close>: the operation with the outcome \<open>res\<close> only adds to the log, and when the hash
  separates what was logged it succeeds, keeps the nodes and establishes \<open>Q\<close>.
\<close>

definition does :: "(bytes \<Rightarrow> bytes) \<Rightarrow> bytes set \<Rightarrow> mpt \<Rightarrow> (mpt_error + 'a) \<times> mpt
    \<Rightarrow> ('a \<Rightarrow> mpt \<Rightarrow> bool) \<Rightarrow> bool" where
  "does H D m res Q \<longleftrightarrow> extends m (snd res)
     \<and> (logged (snd res) \<subseteq> D \<longrightarrow> (\<exists>x. fst res = Inr x \<and> grows H m (snd res) \<and> Q x (snd res)))"

definition separates :: "(bytes \<Rightarrow> bytes) \<Rightarrow> bytes set \<Rightarrow> bool" where
  "separates H D \<longleftrightarrow> hash_ok H \<and> inj_on H D"

named_theorems log_mono "operations only add to the log"

lemma log_mono_then_do [log_mono]:
  assumes "extends m (snd r)" and "\<And>x m. extends m (snd (f x m))"
  shows "extends m (snd (then_do r f))"
proof (cases r)
  case (Pair a m1)
  then show ?thesis using assms(1) assms(2) [of m1] by (cases a) (auto intro: extends_trans)
qed

lemma log_mono_store [log_mono]: "extends m (snd (storeNode H n m))"
  by (rule extends_store)

lemma log_mono_attach [log_mono]: "extends m (snd (attach H path val br m))"
proof (cases path)
  case (Cons x rest)
  show ?thesis unfolding attach_def Cons list.case by (intro log_mono) auto
qed (simp add: attach_def)

lemma log_mono_join [log_mono]: "extends m (snd (join_split H p br m))"
  unfolding join_split_def by (intro log_mono) (auto intro: log_mono_store)

lemma does_then:
  assumes r: "does H D m r Q"
    and f: "\<And>x m1. grows H m m1 \<Longrightarrow> Q x m1 \<Longrightarrow> does H D m1 (f x m1) R"
    and log: "\<And>x m1. extends m1 (snd (f x m1))"
  shows "does H D m (then_do r f) R"
proof (cases r)
  case (Pair a m1)
  show ?thesis
  proof (cases a)
    case (Inl e)
    with Pair r show ?thesis by (simp add: does_def)
  next
    case (Inr x)
    have mono: "extends m m1" using Pair r by (simp add: does_def)
    show ?thesis
    proof (cases "logged (snd (f x m1)) \<subseteq> D")
      case True
      then have "logged m1 \<subseteq> D" using extends_logged [OF log [of m1 x]] by blast
      then have "grows H m m1" "Q x m1" using Pair Inr r by (auto simp: does_def)
      with f [OF this] Pair Inr mono show ?thesis by (auto simp: does_def intro: grows_trans extends_trans)
    next
      case False
      with Pair Inr mono log [of m1 x] show ?thesis by (auto simp: does_def intro: extends_trans)
    qed
  qed
qed

lemma does_mono: "does H D m r Q \<Longrightarrow> (\<And>x m1. grows H m m1 \<Longrightarrow> Q x m1 \<Longrightarrow> R x m1) \<Longrightarrow> does H D m r R"
  by (auto simp: does_def)

lemma does_return: "content_ok H m \<Longrightarrow> Q x m \<Longrightarrow> does H D m (Inr x, m) Q"
  by (simp add: does_def grows_def stored_none)

lemma does_store:
  assumes "separates H D" and "content_ok H m" and "node_fits n"
    and "\<And>c. c \<in> child_hashes n \<Longrightarrow> length c = 32"
  shows "does H D m (storeNode H n m) (\<lambda>h m'. node_at (mpDb m') h n)"
proof (cases "storeNode H n m")
  case (Pair r m')
  have sep: "hash_ok H" "inj_on H D" using assms(1) by (simp_all add: separates_def)
  have "extends m m'" using extends_store [of m H n] Pair by simp
  with storeNode_rep [OF sep(1) assms(2-4) Pair sep(2)] show ?thesis
    by (auto simp: does_def Pair)
qed

lemma does_leaf:
  assumes "separates H D" and "content_ok H m" and "entry_fits q v"
  shows "does H D m (storeNode H (LeafNode q v) m) (\<lambda>h m'. rep (mpDb m') h [q \<mapsto> v])"
  using does_store [OF assms(1,2), of "LeafNode q v"] assms(3)
  by (auto simp: entry_fits_def intro: does_mono rep_leaf)

lemma does_extension:
  assumes "separates H D" and "content_ok H m" and c: "rep (mpDb m) c M" and "s \<noteq> []"
    and fits: "map_fits (prefixed s M)"
  shows "does H D m (storeNode H (ExtensionNode s c) m) (\<lambda>h m'. rep (mpDb m') h (prefixed s M))"
proof -
  obtain q v where "M q = Some v" using rep_nonempty [OF c] by blast
  then have "entry_fits (s @ q) v" using fits by (auto simp: map_fits_def prefixed_Some)
  then have "node_fits (ExtensionNode s c)" using rep_length [OF c] by (simp add: entry_fits_def)
  then show ?thesis
    using does_store [OF assms(1,2), of "ExtensionNode s c"] rep_length [OF c] assms(4)
    by (auto intro!: does_mono [of H D m _ "\<lambda>h m'. node_at (mpDb m') h (ExtensionNode s c)"]
        rep_extension rep_grows [OF c])
qed

subsection \<open>Branches under construction\<close>

definition br_rep :: "store \<Rightarrow> bytes option list \<times> bytes option \<Rightarrow> pmap \<Rightarrow> bool" where
  "br_rep db br M \<longleftrightarrow> length (fst br) = 16 \<and> (\<exists>ms. M = branch_map (snd br) ms
     \<and> (\<forall>i c. i < 16 \<longrightarrow> fst br ! i = Some c \<longrightarrow> rep db c (ms i))
     \<and> (\<forall>i. i < 16 \<longrightarrow> fst br ! i = None \<longrightarrow> ms i = Map.empty))"

lemma br_rep_grows: "br_rep (mpDb m) br M \<Longrightarrow> grows H m m' \<Longrightarrow> br_rep (mpDb m') br M"
proof -
  assume br: "br_rep (mpDb m) br M" and g: "grows H m m'"
  then obtain ms where "length (fst br) = 16" "M = branch_map (snd br) ms"
      "\<And>i c. i < 16 \<Longrightarrow> fst br ! i = Some c \<Longrightarrow> rep (mpDb m) c (ms i)"
      "\<And>i. i < 16 \<Longrightarrow> fst br ! i = None \<Longrightarrow> ms i = Map.empty"
    by (auto simp: br_rep_def)
  then show ?thesis
    unfolding br_rep_def by (auto intro!: exI [of _ ms] intro: rep_grows [OF _ g])
qed

lemma br_rep_none [simp]: "br_rep db no_branch Map.empty"
  by (auto simp: br_rep_def no_branch_def branch_map_def fun_eq_iff split: list.split
      intro!: exI [of _ "\<lambda>_. Map.empty"])

lemma does_branch:
  assumes "separates H D" and "content_ok H m" and br: "br_rep (mpDb m) br M"
    and "map_fits M" and "\<exists>q v. M q = Some v"
  shows "does H D m (storeNode H (BranchNode (fst br) (snd br)) m) (\<lambda>h m'. rep (mpDb m') h M)"
proof -
  let ?n = "BranchNode (fst br) (snd br)"
  obtain ms where ms: "length (fst br) = 16" "M = branch_map (snd br) ms"
      "\<And>i c. i < 16 \<Longrightarrow> fst br ! i = Some c \<Longrightarrow> rep (mpDb m) c (ms i)"
      "\<And>i. i < 16 \<Longrightarrow> fst br ! i = None \<Longrightarrow> ms i = Map.empty"
    using br by (auto simp: br_rep_def)
  have kids: "length c = 32" if "Some c \<in> set (fst br)" for c
    using that ms(1) rep_length [OF ms(3)] by (metis in_set_conv_nth)
  have v: "length v < 2 ^ 32" if "snd br = Some v" for v
  proof -
    have "M [] = Some v" using that ms(2) by (simp add: branch_map_def)
    then have "entry_fits [] v" using assms(4) by (simp add: map_fits_def)
    then show ?thesis by (simp add: entry_fits_def)
  qed
  have fits: "node_fits ?n" using ms(1) kids v by (auto simp del: length_greater_0_conv)
  have full: "snd br \<noteq> None \<or> (\<exists>i<16. fst br ! i \<noteq> None)"
  proof (rule ccontr)
    assume "\<not> ?thesis"
    then have "snd br = None" "\<And>i. i < 16 \<Longrightarrow> ms i = Map.empty" using ms(4) by auto
    then have "M q = None" for q by (simp add: ms(2) branch_map_def split: list.split)
    with assms(5) show False by simp
  qed
  show ?thesis
    using does_store [OF assms(1,2) fits] kids
    by (auto intro!: does_mono [of H D m _ "\<lambda>h m'. node_at (mpDb m') h ?n"]
        rep_branch [of _ _ "fst br" "snd br" ms, folded ms(2)] rep_grows [OF ms(3)] ms(4) full)
qed

lemma does_attach:
  assumes "separates H D" and "content_ok H m" and br: "br_rep (mpDb m) br M"
    and fits: "entry_fits path val" and free: "\<And>x rest q. path = x # rest \<Longrightarrow> M (x # q) = None"
  shows "does H D m (attach H path val br m) (\<lambda>br' m'. br_rep (mpDb m') br' (M(path \<mapsto> val)))"
proof (cases path)
  case Nil
  obtain ms where ms: "M = branch_map (snd br) ms" "length (fst br) = 16"
      "\<And>i c. i < 16 \<Longrightarrow> fst br ! i = Some c \<Longrightarrow> rep (mpDb m) c (ms i)"
      "\<And>i. i < 16 \<Longrightarrow> fst br ! i = None \<Longrightarrow> ms i = Map.empty"
    using br by (auto simp: br_rep_def)
  then have "br_rep (mpDb m) (fst br, Some val) (M([] \<mapsto> val))"
    by (auto simp: br_rep_def branch_update)
  with Nil assms(2) show ?thesis by (auto simp: attach_def intro: does_return)
next
  case (Cons x rest)
  have x: "unat x < 16" and rest: "entry_fits rest val"
    using fits entry_fits_append [of "[x]" rest val] by (auto simp: Cons entry_fits_def)
  show ?thesis
    unfolding Cons attach_def list.case
  proof (rule does_then [OF does_leaf [OF assms(1,2) rest]])
    fix h m1 assume g: "grows H m m1" and h: "rep (mpDb m1) h [rest \<mapsto> val]"
    from br_rep_grows [OF br g] obtain ms where ms: "M = branch_map (snd br) ms" "length (fst br) = 16"
        "\<And>i c. i < 16 \<Longrightarrow> fst br ! i = Some c \<Longrightarrow> rep (mpDb m1) c (ms i)"
        "\<And>i. i < 16 \<Longrightarrow> fst br ! i = None \<Longrightarrow> ms i = Map.empty"
      by (auto simp: br_rep_def)
    have "ms (unat x) = Map.empty"
      using free [OF Cons] x by (auto simp: ms(1) branch_map_def)
    then have "M(x # rest \<mapsto> val) = branch_map (snd br) (ms(unat x := [rest \<mapsto> val]))"
      using x by (simp add: ms(1) branch_update)
    with ms h x have "br_rep (mpDb m1) ((fst br)[unat x := Some h], snd br) (M(x # rest \<mapsto> val))"
      by (auto simp: br_rep_def nth_list_update intro!: exI [of _ "ms(unat x := [rest \<mapsto> val])"])
    with g x show "does H D m1 (if 16 \<le> unat x then (Inl MptPanic, m1)
        else (Inr ((fst br)[unat x := Some h], snd br), m1))
        (\<lambda>br' m'. br_rep (mpDb m') br' (M(x # rest \<mapsto> val)))"
      by (auto intro: does_return simp: grows_def)
  qed auto
qed


subsection \<open>Insertion\<close>

lemma fits_take: "entry_fits q v \<Longrightarrow> entry_fits (drop n q) v"
  by (metis append_take_drop_id entry_fits_append)

lemma two_leaves:
  assumes "separates H D" and "content_ok H m" and "entry_fits p v" and "entry_fits q w"
    and diff: "p \<noteq> q" "\<forall>x p' y q'. p = x # p' \<longrightarrow> q = y # q' \<longrightarrow> x \<noteq> y"
    and f: "\<And>br m1. content_ok H m1 \<Longrightarrow> br_rep (mpDb m1) br ([p \<mapsto> v](q \<mapsto> w)) \<Longrightarrow> does H D m1 (f br m1) R"
    and log: "\<And>br m1. extends m1 (snd (f br m1))"
  shows "does H D m (then_do (attach H p v no_branch m) (\<lambda>br m.
    then_do (attach H q w br m) (\<lambda>br m. f br m))) R"
proof (rule does_then [OF does_attach [OF assms(1,2) br_rep_none assms(3)]])
  fix br m1 assume g: "grows H m m1" and br: "br_rep (mpDb m1) br [p \<mapsto> v]"
  then have ok: "content_ok H m1" by (simp add: grows_def)
  show "does H D m1 (then_do (attach H q w br m1) (\<lambda>br m. f br m)) R"
  proof (rule does_then [OF does_attach [OF assms(1) ok br assms(4)]])
    show "[p \<mapsto> v] (x # r) = None" if "q = x # rest" for x rest r
      using diff(2) that by (cases p) (auto split: if_splits)
    show "does H D m2 (f br' m2) R" if "grows H m1 m2" "br_rep (mpDb m2) br' ([p \<mapsto> v](q \<mapsto> w))" for br' m2
      using f that by (simp add: grows_def)
  qed (rule log)
qed (simp, rule log_mono_then_do [OF log_mono_attach log])

lemma does_upsertLeaf:
  assumes sep: "separates H D" and ok: "content_ok H m" and p: "entry_fits p v" and q: "entry_fits q w"
  shows "does H D m (upsertLeaf H p v q w m) (\<lambda>h m'. rep (mpDb m') h ([p \<mapsto> v](q \<mapsto> w)))"
proof (cases "p = q")
  case True
  with does_leaf [OF sep ok q] show ?thesis by (simp add: upsertLeaf_def)
next
  case False
  let ?cp = "commonPrefixLen p q"
  obtain s where s: "s = take ?cp p" "p = s @ drop ?cp p" "q = s @ drop ?cp q" "length s = ?cp"
    by (rule commonPrefix_split)
  have neq: "drop ?cp p \<noteq> drop ?cp q" using False s(2,3) by metis
  have differ: "\<forall>x p' y q'. drop ?cp p = x # p' \<longrightarrow> drop ?cp q = y # q' \<longrightarrow> x \<noteq> y"
    using commonPrefixLen_differ by blast
  let ?M = "[drop ?cp p \<mapsto> v](drop ?cp q \<mapsto> w)"
  have M: "prefixed s ?M = [p \<mapsto> v](q \<mapsto> w)"
    using s(2,3) by (simp add: prefixed_update prefixed_single)
  have fits: "map_fits ([p \<mapsto> v](q \<mapsto> w))" using p q by (auto simp: map_fits_def)
  then have fitsM: "map_fits ?M" using map_fits_prefixed M by metis
  note leaves = two_leaves [OF sep ok fits_take [OF p] fits_take [OF q] neq differ]
  show ?thesis
  proof (cases "?cp = 0")
    case True
    with s have M': "?M = [p \<mapsto> v](q \<mapsto> w)" by simp
    have "does H D m (then_do (attach H (drop ?cp p) v no_branch m) (\<lambda>br m.
        then_do (attach H (drop ?cp q) w br m) (\<lambda>br m.
        storeNode H (BranchNode (fst br) (snd br)) m))) (\<lambda>h m'. rep (mpDb m') h ?M)"
      by (rule leaves) (auto intro!: does_branch [OF sep] fitsM log_mono_store)
    with True False show ?thesis by (simp add: upsertLeaf_def M')
  next
    case cp: False
    have ne: "s \<noteq> []" using cp s(4) by auto
    have "does H D m (then_do (attach H (drop ?cp p) v no_branch m) (\<lambda>br m.
        then_do (attach H (drop ?cp q) w br m) (\<lambda>br m.
        then_do (storeNode H (BranchNode (fst br) (snd br)) m) (\<lambda>branchHash m.
        storeNode H (ExtensionNode s branchHash) m))))
      (\<lambda>h m'. rep (mpDb m') h (prefixed s ?M))"
    proof (rule leaves)
      fix br m1 assume ok1: "content_ok H m1" and br: "br_rep (mpDb m1) br ?M"
      show "does H D m1 (then_do (storeNode H (BranchNode (fst br) (snd br)) m1) (\<lambda>branchHash m.
          storeNode H (ExtensionNode s branchHash) m)) (\<lambda>h m'. rep (mpDb m') h (prefixed s ?M))"
      proof (rule does_then [OF does_branch [OF sep ok1 br fitsM]])
        show "\<exists>q v. ?M q = Some v" by auto
        show "does H D m2 (storeNode H (ExtensionNode s h) m2) (\<lambda>h m'. rep (mpDb m') h (prefixed s ?M))"
          if "grows H m1 m2" "rep (mpDb m2) h ?M" for h m2
          using that ne fits by (intro does_extension [OF sep]) (auto simp: grows_def M)
      qed (rule log_mono_store)
    qed (intro log_mono)
    then show ?thesis unfolding M using False cp by (simp add: upsertLeaf_def s(1) Let_def)
  qed
qed


lemma does_join:
  assumes sep: "separates H D" and ok: "content_ok H m" and br: "br_rep (mpDb m) br M"
    and fits: "map_fits (prefixed p M)" and ne: "\<exists>q v. M q = Some v"
  shows "does H D m (join_split H p br m) (\<lambda>h m'. rep (mpDb m') h (prefixed p M))"
  unfolding join_split_def
proof (rule does_then [OF does_branch [OF sep ok br map_fits_prefixed [OF fits] ne]])
  fix h m1 assume "grows H m m1" and "rep (mpDb m1) h M"
  then show "does H D m1 (if length p = 0 then (Inr h, m1) else storeNode H (ExtensionNode p h) m1)
      (\<lambda>h m'. rep (mpDb m') h (prefixed p M))"
    using does_extension [OF sep _ _ _ fits, of m1 h]
    by (auto simp: grows_def intro: does_return)
qed (auto intro: log_mono_store)

lemma split_child_slots:
  assumes "split_child H (e # es) c m = (Inr br, m1)"
  obtains h where "br = ((fst no_branch)[unat e := Some h], None)" and "unat e < 16"
  using assms
  by (cases "storeNode H (ExtensionNode es c) m"; cases "fst (storeNode H (ExtensionNode es c) m)")
    (auto simp: split_child_def split: if_splits)

lemma does_split_child:
  assumes sep: "separates H D" and ok: "content_ok H m" and c: "rep (mpDb m) c M"
    and fits: "map_fits (prefixed (e # es) M)"
  shows "does H D m (split_child H (e # es) c m) (\<lambda>br m'. br_rep (mpDb m') br (prefixed (e # es) M))"
proof -
  obtain q v where "M q = Some v" using rep_nonempty [OF c] by blast
  then have "entry_fits (e # es @ q) v"
    using fits prefixed_append_app [of "e # es" M q] by (simp add: map_fits_def)
  then have e: "unat e < 16" by (simp add: entry_fits_def)
  have eq: "prefixed (e # es) M = branch_map None ((\<lambda>_. Map.empty)(unat e := prefixed es M))"
    using e by (auto simp: prefixed_def branch_map_def fun_eq_iff unsigned_word_eqI split: list.split)
  have br: "br_rep (mpDb m') ((fst no_branch)[unat e := Some h], None) (prefixed (e # es) M)"
    if "rep (mpDb m') h (prefixed es M)" for h m'
    using that e unfolding br_rep_def eq
    by (auto simp: no_branch_def nth_list_update intro!: exI [of _ "(\<lambda>_. Map.empty)(unat e := prefixed es M)"])
  show ?thesis
  proof (cases "es = []")
    case True
    with e ok br [of m c] c show ?thesis by (auto simp: split_child_def intro: does_return)
  next
    case False
    have fits': "map_fits (prefixed es M)"
      using fits map_fits_prefixed [of "[e]" "prefixed es M"] by (simp add: prefixed_prefixed)
    have "does H D m (then_do (storeNode H (ExtensionNode es c) m) (\<lambda>h m.
        if 16 \<le> unat e then (Inl MptPanic, m) else (Inr ((fst no_branch)[unat e := Some h], None), m)))
      (\<lambda>br m'. br_rep (mpDb m') br (prefixed (e # es) M))"
      using e br by (intro does_then [OF does_extension [OF sep ok c False fits']])
        (auto intro: does_return simp: grows_def)
    with False show ?thesis by (simp add: split_child_def cong: if_cong)
  qed
qed

lemma does_split_extension:
  assumes sep: "separates H D" and ok: "content_ok H m" and c: "rep (mpDb m) c M"
    and fits: "map_fits (prefixed (p @ e # es) M)" and val: "entry_fits (p @ r) val"
    and r: "\<And>x rest. r = x # rest \<Longrightarrow> x \<noteq> e"
  shows "does H D m (then_do (split_child H (e # es) c m) (\<lambda>br m.
      then_do (attach H r val br m) (\<lambda>br m. join_split H p br m)))
    (\<lambda>h m'. rep (mpDb m') h ((prefixed (p @ e # es) M)(p @ r \<mapsto> val)))"
proof -
  let ?M = "prefixed (e # es) M"
  have fits': "map_fits ?M" using fits map_fits_prefixed [of p ?M] by (simp add: prefixed_prefixed)
  have eq: "(prefixed (p @ e # es) M)(p @ r \<mapsto> val) = prefixed p (?M(r \<mapsto> val))"
    by (simp add: prefixed_update prefixed_prefixed)
  have all: "map_fits (prefixed p (?M(r \<mapsto> val)))" using fits val unfolding eq [symmetric] by simp
  show ?thesis
    unfolding eq
  proof (rule does_then [OF does_split_child [OF sep ok c fits']])
    fix br m1 assume "grows H m m1" and br: "br_rep (mpDb m1) br ?M"
    then have ok1: "content_ok H m1" by (simp add: grows_def)
    show "does H D m1 (then_do (attach H r val br m1) (\<lambda>br m. join_split H p br m))
        (\<lambda>h m'. rep (mpDb m') h (prefixed p (?M(r \<mapsto> val))))"
    proof (rule does_then [OF does_attach [OF sep ok1 br entry_fits_append [OF val]]])
      show "?M (x # q) = None" if "r = x # rest" for x rest q
        using r [OF that] by (simp add: prefixed_def)
      show "does H D m2 (join_split H p br' m2) (\<lambda>h m'. rep (mpDb m') h (prefixed p (?M(r \<mapsto> val))))"
        if "grows H m1 m2" "br_rep (mpDb m2) br' (?M(r \<mapsto> val))" for br' m2
        using that by (intro does_join [OF sep _ _ all]) (auto simp: grows_def)
    qed (rule log_mono_join)
  qed (rule log_mono_then_do [OF log_mono_attach log_mono_join])
qed

lemma upsert_new: "length h = 0 \<Longrightarrow> upsert H h path val m = Some (storeNode H (LeafNode path val) m)"
  by (subst upsert.simps) simp

lemma upsert_leaf:
  assumes "node_at (mpDb m) h (LeafNode p v)"
  shows "upsert H h path val m = Some (upsertLeaf H p v path val m)"
  using assms by (subst upsert.simps) (auto elim!: node_at_read)

lemma upsert_extension_below:
  assumes "node_at (mpDb m) h (ExtensionNode s c)"
  shows "upsert H h (s @ r) val m = map_option (\<lambda>res. then_do res (\<lambda>newChild m.
    storeNode H (ExtensionNode s newChild) m)) (upsert H c r val m)"
proof -
  have "commonPrefixLen s (s @ r) = length s" by (induction s) auto
  with assms show ?thesis
    by (subst upsert.simps) (auto elim!: node_at_read simp: Let_def map_option_case Option.bind_eq_None_conv
        split: option.split)
qed

lemma upsert_extension_split:
  assumes node: "node_at (mpDb m) h (ExtensionNode s c)" and cp: "commonPrefixLen s path < length s"
    and nibbles: "nibble_path path"
  shows "upsert H h path val m = Some (then_do (split_child H (drop (commonPrefixLen s path) s) c m)
    (\<lambda>br m. then_do (attach H (drop (commonPrefixLen s path) path) val br m) (\<lambda>br m.
      join_split H (take (commonPrefixLen s path) s) br m)))"
proof -
  let ?cp = "commonPrefixLen s path"
  obtain e es where e: "drop ?cp s = e # es" using cp by (cases "drop ?cp s") auto
  show ?thesis
  proof (cases "split_child H (drop ?cp s) c m")
    case (Pair a m1)
    show ?thesis
    proof (cases a)
      case (Inl err)
      with Pair cp node show ?thesis
        by (subst upsert.simps) (auto elim!: node_at_read simp: Let_def)
    next
      case (Inr br)
      show ?thesis
      proof (cases "drop ?cp path")
        case Nil
        with Inr Pair cp node show ?thesis
          by (subst upsert.simps) (auto elim!: node_at_read simp: Let_def attach_def)
      next
        case (Cons idx rest)
        have "idx \<noteq> e" using commonPrefixLen_differ [OF e Cons] by simp
        moreover have x: "unat idx < 16" using nibble_path_drop [OF nibbles, of ?cp] by (simp add: Cons)
        moreover obtain h where "br = ((fst no_branch)[unat e := Some h], None)" "unat e < 16"
          using split_child_slots [of H e es c m br m1] Pair Inr e by auto
        ultimately have "fst br ! unat idx = None"
          by (auto simp: no_branch_def nth_list_update dest: unsigned_word_eqI)
        with Inr Pair Cons cp node x show ?thesis
          by (subst upsert.simps)
            (auto elim!: node_at_read simp: Let_def attach_def then_do_def split: sum.split)
      qed
    qed
  qed
qed


lemma upsert_branch:
  assumes "node_at (mpDb m) h (BranchNode cs v)"
  shows "upsert H h [] val m = Some (storeNode H (BranchNode cs (Some val)) m)"
    and "unat x < 16 \<Longrightarrow> cs ! unat x = None \<Longrightarrow> upsert H h (x # rest) val m
      = Some (then_do (attach H (x # rest) val (cs, v) m) (\<lambda>br m. storeNode H (BranchNode (fst br) (snd br)) m))"
    and "unat x < 16 \<Longrightarrow> cs ! unat x = Some c \<Longrightarrow> upsert H h (x # rest) val m
      = map_option (\<lambda>res. then_do res (\<lambda>newChild m.
          storeNode H (BranchNode (cs[unat x := Some newChild]) v) m)) (upsert H c rest val m)"
proof -
  from assms obtain data where d: "kv_Get (mpDb m) (nodeKey h) = Some data"
      "decode_node data = Inr (BranchNode cs v)" "length h \<noteq> 0" by (rule node_at_read)
  show "upsert H h [] val m = Some (storeNode H (BranchNode cs (Some val)) m)"
    using d by (subst upsert.simps) simp
  assume x: "unat x < 16"
  show "upsert H h (x # rest) val m
      = Some (then_do (attach H (x # rest) val (cs, v) m) (\<lambda>br m. storeNode H (BranchNode (fst br) (snd br)) m))"
    if "cs ! unat x = None"
    using d x that by (subst upsert.simps) (simp add: attach_def then_do_def split: sum.split)
  show "upsert H h (x # rest) val m
      = map_option (\<lambda>res. then_do res (\<lambda>newChild m.
          storeNode H (BranchNode (cs[unat x := Some newChild]) v) m)) (upsert H c rest val m)"
    if "cs ! unat x = Some c"
    using d x that by (subst upsert.simps) (simp add: map_conv_bind_option comp_def)
qed

text \<open>An insertion into what a node stands for is an update of its map.\<close>

lemma upsert_rep:
  assumes sep: "separates H D" and ok: "content_ok H m"
  shows "rep (mpDb m) h M \<Longrightarrow> map_fits M \<Longrightarrow> entry_fits path val \<Longrightarrow>
    \<exists>res. upsert H h path val m = Some res \<and> does H D m res (\<lambda>h' m'. rep (mpDb m') h' (M(path \<mapsto> val)))"
proof (induction arbitrary: path rule: rep.induct)
  case (rep_leaf h p v)
  then have "entry_fits p v" by (simp add: map_fits_def)
  with does_upsertLeaf [OF sep ok this rep_leaf.prems(2)] upsert_leaf [OF rep_leaf.hyps]
  show ?case by blast
next
  case (rep_extension h s c M)
  obtain p where p: "p = take (commonPrefixLen s path) s" "s = p @ drop (commonPrefixLen s path) s"
      "path = p @ drop (commonPrefixLen s path) path" "length p = commonPrefixLen s path"
    by (rule commonPrefix_split)
  show ?case
  proof (cases "commonPrefixLen s path = length s")
    case True
    then obtain r where r: "path = s @ r" using p(1,3) by auto
    have fits: "map_fits M" "entry_fits r val"
      using rep_extension.prems map_fits_prefixed entry_fits_append [of s r] by (auto simp: r)
    obtain res where res: "upsert H c r val m = Some res"
        "does H D m res (\<lambda>h' m'. rep (mpDb m') h' (M(r \<mapsto> val)))"
      using rep_extension.IH [OF fits] by blast
    have "does H D m (then_do res (\<lambda>newChild m. storeNode H (ExtensionNode s newChild) m))
      (\<lambda>h' m'. rep (mpDb m') h' (prefixed s (M(r \<mapsto> val))))"
    proof (rule does_then [OF res(2)])
      have "map_fits (prefixed s (M(r \<mapsto> val)))"
        using rep_extension.prems by (simp add: prefixed_update r)
      then show "does H D m1 (storeNode H (ExtensionNode s c') m1)
          (\<lambda>h' m'. rep (mpDb m') h' (prefixed s (M(r \<mapsto> val))))"
        if "grows H m m1" "rep (mpDb m1) c' (M(r \<mapsto> val))" for c' m1
        using that rep_extension.hyps(2) by (intro does_extension [OF sep]) (auto simp: grows_def)
    qed (rule log_mono_store)
    then show ?thesis
      using upsert_extension_below [OF rep_extension.hyps(1), of H r val] res(1)
      by (simp add: r prefixed_update del: fun_upd_apply)
  next
    case False
    then have cp: "commonPrefixLen s path < length s" using commonPrefixLen_le(1) [of s path] by simp
    then obtain e es where e: "drop (commonPrefixLen s path) s = e # es"
      by (cases "drop (commonPrefixLen s path) s") auto
    have nibbles: "nibble_path path" using rep_extension.prems(2) by (simp add: entry_fits_def nibble_path_def)
    have s: "s = p @ e # es" using p(2) e by simp
    have "does H D m (then_do (split_child H (e # es) c m) (\<lambda>br m.
        then_do (attach H (drop (commonPrefixLen s path) path) val br m) (\<lambda>br m. join_split H p br m)))
      (\<lambda>h m'. rep (mpDb m') h ((prefixed (p @ e # es) M)
        (p @ drop (commonPrefixLen s path) path \<mapsto> val)))"
    proof (rule does_split_extension [OF sep ok rep_extension.hyps(3)])
      show "map_fits (prefixed (p @ e # es) M)" using rep_extension.prems(1) unfolding s [symmetric] .
      show "entry_fits (p @ drop (commonPrefixLen s path) path) val"
        using rep_extension.prems(2) unfolding p(3) [symmetric] .
      show "x \<noteq> e" if "drop (commonPrefixLen s path) path = x # rest" for x rest
        using commonPrefixLen_differ [OF e that] by simp
    qed
    then show ?thesis
      using upsert_extension_split [OF rep_extension.hyps(1) cp nibbles, of H val]
      unfolding s [symmetric] p(3) [symmetric] p(1) [symmetric] e by blast
  qed
next
  case (rep_branch h cs v ms)
  note kids = rep_branch.hyps(2)
  have len: "length cs = 16" using rep_branch.hyps(1) by (simp add: node_at_def)
  have br: "br_rep (mpDb m) (cs, v) (branch_map v ms)"
    using len kids rep_branch.hyps(3) by (auto simp: br_rep_def)
  have all: "map_fits ((branch_map v ms)(path \<mapsto> val))" using rep_branch.prems by simp
  have "\<exists>q w. ((branch_map v ms)(path \<mapsto> val)) q = Some w" by auto
  note store = does_branch [OF sep _ _ all this]
  show ?case
  proof (cases path)
    case Nil
    have "br_rep (mpDb m) (cs, Some val) ((branch_map v ms)([] \<mapsto> val))"
      using len kids rep_branch.hyps(3) by (auto simp: br_rep_def branch_update)
    with store [OF ok, of "(cs, Some val)"] upsert_branch(1) [OF rep_branch.hyps(1), of H val] Nil
    show ?thesis by (simp del: fun_upd_apply)
  next
    case (Cons x rest)
    have x: "unat x < 16" and rest: "entry_fits rest val"
      using rep_branch.prems(2) entry_fits_append [of "[x]" rest val] by (auto simp: Cons entry_fits_def)
    show ?thesis
    proof (cases "cs ! unat x")
      case None
      have free: "branch_map v ms (x # q) = None" for q
        using rep_branch.hyps(3) [OF x None] x by (simp add: branch_map_def)
      have "does H D m (then_do (attach H path val (cs, v) m) (\<lambda>br m.
          storeNode H (BranchNode (fst br) (snd br)) m))
        (\<lambda>h' m'. rep (mpDb m') h' ((branch_map v ms)(path \<mapsto> val)))"
      proof (rule does_then [OF does_attach [OF sep ok br rep_branch.prems(2)]])
        show "branch_map v ms (y # q) = None" if "path = y # r" for y r q using free that Cons by simp
        show "does H D m1 (storeNode H (BranchNode (fst b) (snd b)) m1)
            (\<lambda>h' m'. rep (mpDb m') h' ((branch_map v ms)(path \<mapsto> val)))"
          if "grows H m m1" "br_rep (mpDb m1) b ((branch_map v ms)(path \<mapsto> val))" for b m1
          using that by (intro store) (auto simp: grows_def simp del: fun_upd_apply)
      qed (rule log_mono_store)
      with upsert_branch(2) [OF rep_branch.hyps(1) x None, of H rest val] Cons show ?thesis
        by (simp del: fun_upd_apply)
    next
      case (Some c)
      obtain res where res: "upsert H c rest val m = Some res"
          "does H D m res (\<lambda>h' m'. rep (mpDb m') h' ((ms (unat x))(rest \<mapsto> val)))"
        using rep_branch.IH [OF x Some map_fits_branch [OF rep_branch.prems(1) x] rest] by blast
      let ?ms = "ms(unat x := (ms (unat x))(rest \<mapsto> val))"
      have eq: "(branch_map v ms)(path \<mapsto> val) = branch_map v ?ms" using x by (simp add: Cons branch_update)
      have "does H D m (then_do res (\<lambda>c' m. storeNode H (BranchNode (cs[unat x := Some c']) v) m))
        (\<lambda>h' m'. rep (mpDb m') h' ((branch_map v ms)(path \<mapsto> val)))"
      proof (rule does_then [OF res(2)])
        fix c' m1 assume g: "grows H m m1" and c': "rep (mpDb m1) c' ((ms (unat x))(rest \<mapsto> val))"
        have "br_rep (mpDb m1) (cs[unat x := Some c'], v) ((branch_map v ms)(path \<mapsto> val))"
          unfolding eq using len x c' rep_grows [OF kids g] rep_branch.hyps(3)
          by (auto simp: br_rep_def nth_list_update intro!: exI [of _ ?ms])
        with store [of m1 "(cs[unat x := Some c'], v)"] g
        show "does H D m1 (storeNode H (BranchNode (cs[unat x := Some c']) v) m1)
            (\<lambda>h' m'. rep (mpDb m') h' ((branch_map v ms)(path \<mapsto> val)))"
          by (simp add: grows_def del: fun_upd_apply)
      qed (rule log_mono_store)
      with upsert_branch(3) [OF rep_branch.hyps(1) x Some, of H rest val] res(1) Cons show ?thesis
        by (simp del: fun_upd_apply)
    qed
  qed
qed


subsection \<open>Deletion\<close>

text \<open>What a removed subtree stands for: nothing at all is the nil hash.\<close>

definition rep_opt :: "store \<Rightarrow> bytes option \<Rightarrow> pmap \<Rightarrow> bool" where
  "rep_opt db r M \<longleftrightarrow> (case r of None \<Rightarrow> M = Map.empty | Some h \<Rightarrow> rep db h M)"

lemma rep_opt_simps [simp]:
  "rep_opt db None M \<longleftrightarrow> M = Map.empty" "rep_opt db (Some h) M \<longleftrightarrow> rep db h M"
  by (simp_all add: rep_opt_def)

lemma log_mono_store_some [log_mono]: "extends m (snd (store_some H n m))"
  unfolding store_some_def by (intro log_mono) auto

lemma log_mono_collapse [log_mono]: "extends m (snd (collapse H p c other m))"
  using log_mono_store_some
  by (auto simp: collapse_def split: option.split sum.split mpt_node.split intro: subsetD)

lemma log_mono_collapse_extension [log_mono]: "extends m (snd (collapse_extension H s c m))"
  using log_mono_collapse by (auto simp: collapse_extension_def split: option.split intro: subsetD)

lemma log_mono_collapse_branch [log_mono]: "extends m (snd (collapse_branch H cs v m))"
  using log_mono_collapse log_mono_store_some
  by (auto simp: collapse_branch_def split: option.split list.split intro: subsetD)

lemma does_store_some:
  assumes "does H D m (storeNode H n m) (\<lambda>h m'. rep (mpDb m') h M)"
  shows "does H D m (store_some H n m) (\<lambda>r m'. rep_opt (mpDb m') r M)"
  unfolding store_some_def
  by (rule does_then [OF assms]) (auto intro: does_return simp: grows_def)

lemma does_collapse:
  assumes sep: "separates H D" and ok: "content_ok H m" and c: "rep (mpDb m) c M" and p: "p \<noteq> []"
    and fits: "map_fits (prefixed p M)"
    and other: "does H D m (storeNode H other m) (\<lambda>h m'. rep (mpDb m') h (prefixed p M))"
  shows "does H D m (collapse H p c other m) (\<lambda>r m'. rep_opt (mpDb m') r (prefixed p M))"
  using c
proof cases
  case (rep_leaf q v)
  from rep_leaf(2) obtain data where d: "kv_Get (mpDb m) (nodeKey c) = Some data"
      "decode_node data = Inr (LeafNode q v)" "data = serialize (LeafNode q v)" by (rule node_at_read)
  have M: "prefixed p M = [p @ q \<mapsto> v]" unfolding rep_leaf(1) by (rule prefixed_single)
  then have "entry_fits (p @ q) v" using fits by (simp add: map_fits_def)
  from does_store_some [OF does_leaf [OF sep ok this]] d show ?thesis
    unfolding M by (simp add: collapse_def)
next
  case (rep_extension s c' M')
  from rep_extension(2) obtain data where d: "kv_Get (mpDb m) (nodeKey c) = Some data"
      "decode_node data = Inr (ExtensionNode s c')" "data = serialize (ExtensionNode s c')"
    by (rule node_at_read)
  have M: "prefixed p M = prefixed (p @ s) M'" unfolding rep_extension(1) by (rule prefixed_prefixed)
  have "p @ s \<noteq> []" using p by simp
  from does_store_some [OF does_extension [OF sep ok rep_extension(4) this fits [unfolded M]]] d
  show ?thesis unfolding M by (simp add: collapse_def)
next
  case (rep_branch cs v ms)
  from rep_branch(2) obtain data where d: "kv_Get (mpDb m) (nodeKey c) = Some data"
      "data = serialize (BranchNode cs v)" by (rule node_at_read)
  with does_store_some [OF other] show ?thesis by (simp add: collapse_def node_types)
qed

lemma does_collapse_extension:
  assumes sep: "separates H D" and ok: "content_ok H m" and c: "rep_opt (mpDb m) c M" and s: "s \<noteq> []"
    and fits: "map_fits (prefixed s M)"
  shows "does H D m (collapse_extension H s c m) (\<lambda>r m'. rep_opt (mpDb m') r (prefixed s M))"
proof (cases c)
  case None
  with c ok show ?thesis by (auto simp: collapse_extension_def intro: does_return)
next
  case (Some h)
  then have h: "rep (mpDb m) h M" using c by simp
  from does_collapse [OF sep ok h s fits does_extension [OF sep ok h s fits]] Some
  show ?thesis by (simp add: collapse_extension_def)
qed

lemma remaining_iff: "length cs = 16 \<Longrightarrow> (i, h) \<in> set (remaining cs) \<longleftrightarrow> i < 16 \<and> cs ! i = Some h"
  by (auto simp: remaining_def split: option.splits)

lemma remaining_cases:
  assumes "length cs = 16"
  shows "remaining cs = [] \<Longrightarrow> i < 16 \<Longrightarrow> cs ! i = None"
    and "remaining cs = [(i, h)] \<Longrightarrow> i < 16 \<and> cs ! i = Some h \<and> (\<forall>j < 16. j \<noteq> i \<longrightarrow> cs ! j = None)"
proof -
  have slot: "cs ! j = None" if "j < 16" "\<And>k. (j, k) \<notin> set (remaining cs)" for j
    using that remaining_iff [OF assms] by (cases "cs ! j") auto
  show "remaining cs = [] \<Longrightarrow> i < 16 \<Longrightarrow> cs ! i = None" using slot by simp
  assume r: "remaining cs = [(i, h)]"
  have "i < 16 \<and> cs ! i = Some h" using remaining_iff [OF assms, of i h] r by simp
  with slot r show "i < 16 \<and> cs ! i = Some h \<and> (\<forall>j < 16. j \<noteq> i \<longrightarrow> cs ! j = None)" by simp
qed

lemma does_collapse_branch:
  assumes sep: "separates H D" and ok: "content_ok H m" and br: "br_rep (mpDb m) (cs, v) M"
    and fits: "map_fits M"
  shows "does H D m (collapse_branch H cs v m) (\<lambda>r m'. rep_opt (mpDb m') r M)"
proof -
  obtain ms where ms: "length cs = 16" "M = branch_map v ms"
      "\<And>i c. i < 16 \<Longrightarrow> cs ! i = Some c \<Longrightarrow> rep (mpDb m) c (ms i)"
      "\<And>i. i < 16 \<Longrightarrow> cs ! i = None \<Longrightarrow> ms i = Map.empty"
    using br by (auto simp: br_rep_def)
  have branch: "does H D m (store_some H (BranchNode cs v) m) (\<lambda>r m'. rep_opt (mpDb m') r M)"
    if "\<exists>q w. M q = Some w"
    using does_store_some [OF does_branch [OF sep ok br fits that]] by simp
  have here: "M [] = v" by (simp add: ms(2) branch_map_def)
  have child: "\<exists>q w. M q = Some w" if "(i, h) \<in> set (remaining cs)" for i h
  proof -
    have i: "i < 16" "cs ! i = Some h" using that remaining_iff [OF ms(1)] by auto
    obtain q w where "ms i q = Some w" using rep_nonempty [OF ms(3) [OF i]] by blast
    moreover have "unat (of_nat i :: byte) = i" using i(1) by (simp add: unat_of_nat_byte)
    ultimately have "M (of_nat i # q) = Some w" using i(1) by (simp add: ms(2) branch_map_def)
    then show ?thesis by blast
  qed
  show ?thesis
  proof (cases v)
    case (Some x)
    show ?thesis
    proof (cases "remaining cs")
      case Nil
      have M: "M = [[] \<mapsto> x]"
        using remaining_cases(1) [OF ms(1) Nil] ms(4) Some
        by (auto simp: ms(2) branch_map_def fun_eq_iff split: list.split)
      have "entry_fits [] x" using fits by (simp add: M map_fits_def)
      from does_store_some [OF does_leaf [OF sep ok this]] Some Nil show ?thesis
        unfolding M by (simp add: collapse_branch_def)
    next
      case (Cons y ys)
      have "\<exists>q w. M q = Some w" using here Some by blast
      from branch [OF this] Some Cons show ?thesis by (simp add: collapse_branch_def split: prod.split)
    qed
  next
    case None
    consider "remaining cs = []" | i h where "remaining cs = [(i, h)]"
      | y z ys where "remaining cs = y # z # ys"
      by (metis list.exhaust prod.exhaust)
    then show ?thesis
    proof cases
      case 1
      have "M = Map.empty"
        using remaining_cases(1) [OF ms(1) 1] ms(4) None
        by (auto simp: ms(2) branch_map_def fun_eq_iff split: list.split)
      with ok None 1 show ?thesis by (auto simp: collapse_branch_def intro: does_return)
    next
      case (2 i h)
      have i: "i < 16" "cs ! i = Some h" and others: "\<And>j. j < 16 \<Longrightarrow> j \<noteq> i \<Longrightarrow> cs ! j = None"
        using remaining_cases(2) [OF ms(1) 2] by auto
      have "unat (of_nat i :: byte) = i" using i(1) by (simp add: unat_of_nat_byte)
      moreover have "unat x \<noteq> i" if "x \<noteq> of_nat i" for x :: byte using that by auto
      moreover have "ms j q = None" if "j < 16" "j \<noteq> i" for j q
        using ms(4) [OF that(1) others [OF that]] by simp
      ultimately have M: "prefixed [of_nat i] (ms i) = M"
        using i(1) None
        by (auto simp: ms(2) branch_map_def prefixed_def fun_eq_iff split: list.split)
      have "\<exists>q w. M q = Some w" using child [of i h] 2 by simp
      from does_branch [OF sep ok br fits this]
      have "does H D m (storeNode H (BranchNode cs v) m) (\<lambda>h m'. rep (mpDb m') h M)" by simp
      with does_collapse [OF sep ok ms(3) [OF i], of "[of_nat i]"] fits 2 None show ?thesis
        unfolding M by (simp add: collapse_branch_def)
    next
      case (3 y z ys)
      have "\<exists>q w. M q = Some w" using child [of "fst y" "snd y"] 3 by simp
      from branch [OF this] None 3 show ?thesis by (simp add: collapse_branch_def split: prod.split)
    qed
  qed
qed


lemma remove_leaf:
  assumes "node_at (mpDb m) h (LeafNode p v)"
  obtains data where "mpt_remove H h path m = Some (Inr (if p = path then None else Some (H data)), m)"
    and "kv_Get (mpDb m) (nodeKey h) = Some data"
proof -
  from assms obtain data where d: "kv_Get (mpDb m) (nodeKey h) = Some data"
      "decode_node data = Inr (LeafNode p v)" "length h \<noteq> 0" by (rule node_at_read)
  have "mpt_remove H h path m = Some (Inr (if p = path then None else Some (H data)), m)"
    using d by (subst mpt_remove.simps) simp
  then show ?thesis using d(1) by (rule that)
qed

lemma remove_extension:
  assumes "node_at (mpDb m) h (ExtensionNode s c)"
  obtains data where "kv_Get (mpDb m) (nodeKey h) = Some data"
    and "take (length s) path \<noteq> s \<Longrightarrow> mpt_remove H h path m = Some (Inr (Some (H data)), m)"
    and "\<And>r. path = s @ r \<Longrightarrow> mpt_remove H h path m
      = map_option (\<lambda>res. then_do res (collapse_extension H s)) (mpt_remove H c r m)"
proof -
  from assms obtain data where d: "kv_Get (mpDb m) (nodeKey h) = Some data"
      "decode_node data = Inr (ExtensionNode s c)" "length h \<noteq> 0" by (rule node_at_read)
  show ?thesis
  proof (rule that [OF d(1)])
    show "mpt_remove H h path m = Some (Inr (Some (H data)), m)" if "take (length s) path \<noteq> s"
      using d that by (subst mpt_remove.simps) simp
    show "mpt_remove H h path m = map_option (\<lambda>res. then_do res (collapse_extension H s)) (mpt_remove H c r m)"
      if "path = s @ r" for r
      using d that by (subst mpt_remove.simps) (simp add: map_conv_bind_option comp_def)
  qed
qed

lemma remove_branch:
  assumes "node_at (mpDb m) h (BranchNode cs v)"
  obtains data where "kv_Get (mpDb m) (nodeKey h) = Some data"
    and "mpt_remove H h [] m = Some (collapse_branch H cs None m)"
    and "\<And>x rest. unat x < 16 \<Longrightarrow> cs ! unat x = None \<Longrightarrow>
      mpt_remove H h (x # rest) m = Some (Inr (Some (H data)), m)"
    and "\<And>x rest c. unat x < 16 \<Longrightarrow> cs ! unat x = Some c \<Longrightarrow> mpt_remove H h (x # rest) m
      = map_option (\<lambda>res. then_do res (\<lambda>newChild. collapse_branch H (cs[unat x := newChild]) v))
          (mpt_remove H c rest m)"
proof -
  from assms obtain data where d: "kv_Get (mpDb m) (nodeKey h) = Some data"
      "decode_node data = Inr (BranchNode cs v)" "length h \<noteq> 0" by (rule node_at_read)
  show ?thesis
  proof (rule that [OF d(1)])
    show "mpt_remove H h [] m = Some (collapse_branch H cs None m)"
      using d by (subst mpt_remove.simps) simp
    show "mpt_remove H h (x # rest) m = Some (Inr (Some (H data)), m)"
      if "unat x < 16" "cs ! unat x = None" for x rest
      using d that by (subst mpt_remove.simps) simp
    show "mpt_remove H h (x # rest) m
      = map_option (\<lambda>res. then_do res (\<lambda>newChild. collapse_branch H (cs[unat x := newChild]) v))
          (mpt_remove H c rest m)"
      if "unat x < 16" "cs ! unat x = Some c" for x rest c
      using d that by (subst mpt_remove.simps) (simp add: map_conv_bind_option comp_def)
  qed
qed

text \<open>A deletion that finds nothing answers the hash of the node's data, which is the node's own.\<close>

lemma does_unchanged:
  assumes "content_ok H m" and "rep (mpDb m) h M" and "kv_Get (mpDb m) (nodeKey h) = Some data"
    and "N = M"
  shows "does H D m (Inr (Some (H data)), m) (\<lambda>r m'. rep_opt (mpDb m') r N)"
proof -
  have "H data = h" using assms(1,3) rep_length [OF assms(2)] by (simp add: content_ok_def)
  with assms show ?thesis by (intro does_return) simp_all
qed

lemma br_rep_set:
  assumes "length cs = 16" and "i < 16" and "rep_opt db c N"
    and "\<And>j d. j < 16 \<Longrightarrow> cs ! j = Some d \<Longrightarrow> rep db d (ms j)"
    and "\<And>j. j < 16 \<Longrightarrow> cs ! j = None \<Longrightarrow> ms j = Map.empty"
  shows "br_rep db (cs[i := c], v) (branch_map v (ms(i := N)))"
  unfolding br_rep_def
proof (intro conjI exI [of _ "ms(i := N)"] allI impI)
  fix j d assume "j < 16" "fst (cs[i := c], v) ! j = Some d"
  then show "rep db d ((ms(i := N)) j)" using assms by (cases "j = i") (auto simp: nth_list_update)
next
  fix j assume "j < 16" "fst (cs[i := c], v) ! j = None"
  then show "(ms(i := N)) j = Map.empty" using assms by (cases "j = i") (auto simp: nth_list_update)
qed (use assms in simp_all)

lemma remove_none: "M path = None \<Longrightarrow> M(path := None) = M"
  by auto

lemma remove_rep:
  assumes sep: "separates H D" and ok: "content_ok H m"
  shows "rep (mpDb m) h M \<Longrightarrow> map_fits M \<Longrightarrow> nibble_path path \<Longrightarrow>
    \<exists>res. mpt_remove H h path m = Some res
      \<and> does H D m res (\<lambda>r m'. rep_opt (mpDb m') r (M(path := None)))"
proof (induction arbitrary: path rule: rep.induct)
  case (rep_leaf h p v)
  obtain data where data: "mpt_remove H h path m = Some (Inr (if p = path then None else Some (H data)), m)"
      "kv_Get (mpDb m) (nodeKey h) = Some data"
    using remove_leaf [OF rep_leaf.hyps] .
  show ?case
  proof (cases "p = path")
    case True
    then have "does H D m (Inr None, m) (\<lambda>r m'. rep_opt (mpDb m') r ([p \<mapsto> v](path := None)))"
      using ok by (intro does_return) auto
    with data(1) True show ?thesis by (simp del: fun_upd_apply)
  next
    case False
    then have "[p \<mapsto> v](path := None) = [p \<mapsto> v]" by auto
    from does_unchanged [OF ok rep.rep_leaf [OF rep_leaf.hyps] data(2) this] data(1) False
    show ?thesis by (simp del: fun_upd_apply)
  qed
next
  case (rep_extension h s c M)
  obtain data where data: "kv_Get (mpDb m) (nodeKey h) = Some data"
    and off: "take (length s) path \<noteq> s \<Longrightarrow> mpt_remove H h path m = Some (Inr (Some (H data)), m)"
    and on: "\<And>r. path = s @ r \<Longrightarrow> mpt_remove H h path m
      = map_option (\<lambda>res. then_do res (collapse_extension H s)) (mpt_remove H c r m)"
    by (rule remove_extension [OF rep_extension.hyps(1), of path H]) (rule that; blast)
  show ?case
  proof (cases "take (length s) path = s")
    case False
    have "(prefixed s M)(path := None) = prefixed s M"
      by (rule remove_none) (simp add: prefixed_def False)
    from does_unchanged [OF ok rep.rep_extension [OF rep_extension.hyps] data this] off [OF False]
    show ?thesis by (simp del: fun_upd_apply)
  next
    case True
    then obtain r where r: "path = s @ r" by (metis append_take_drop_id)
    have "nibble_path r" using rep_extension.prems(2) nibble_path_drop [of path "length s"] by (simp add: r)
    from rep_extension.IH [OF map_fits_prefixed [OF rep_extension.prems(1)] this] obtain res
      where res: "mpt_remove H c r m = Some res"
        "does H D m res (\<lambda>x m'. rep_opt (mpDb m') x (M(r := None)))" by blast
    have fits: "map_fits (prefixed s (M(r := None)))"
      using rep_extension.prems(1) by (simp add: prefixed_remove)
    have "does H D m (then_do res (collapse_extension H s))
      (\<lambda>x m'. rep_opt (mpDb m') x (prefixed s (M(r := None))))"
    proof (rule does_then [OF res(2)])
      show "does H D m1 (collapse_extension H s x m1) (\<lambda>x m'. rep_opt (mpDb m') x (prefixed s (M(r := None))))"
        if "grows H m m1" "rep_opt (mpDb m1) x (M(r := None))" for x m1
        using that rep_extension.hyps(2) fits by (intro does_collapse_extension [OF sep]) (auto simp: grows_def)
    qed (rule log_mono_collapse_extension)
    with on [OF r] res(1) show ?thesis by (simp add: r prefixed_remove del: fun_upd_apply)
  qed
next
  case (rep_branch h cs v ms)
  note kids = rep_branch.hyps(2)
  have len: "length cs = 16" using rep_branch.hyps(1) by (simp add: node_at_def)
  obtain data where data: "kv_Get (mpDb m) (nodeKey h) = Some data"
    and nil: "mpt_remove H h [] m = Some (collapse_branch H cs None m)"
    and free: "\<And>x rest. unat x < 16 \<Longrightarrow> cs ! unat x = None \<Longrightarrow>
      mpt_remove H h (x # rest) m = Some (Inr (Some (H data)), m)"
    and below: "\<And>x rest c. unat x < 16 \<Longrightarrow> cs ! unat x = Some c \<Longrightarrow> mpt_remove H h (x # rest) m
      = map_option (\<lambda>res. then_do res (\<lambda>newChild. collapse_branch H (cs[unat x := newChild]) v))
          (mpt_remove H c rest m)"
    by (rule remove_branch [OF rep_branch.hyps(1), of H]) (rule that; blast)
  have all: "map_fits ((branch_map v ms)(path := None))" using rep_branch.prems(1) by simp
  show ?case
  proof (cases path)
    case Nil
    have "br_rep (mpDb m) (cs, None) ((branch_map v ms)([] := None))"
      using len kids rep_branch.hyps(3) by (auto simp: br_rep_def branch_update)
    from does_collapse_branch [OF sep ok this] all nil Nil show ?thesis by (simp del: fun_upd_apply)
  next
    case (Cons x rest)
    then have x: "unat x < 16" "nibble_path rest" using rep_branch.prems(2) by simp_all
    show ?thesis
    proof (cases "cs ! unat x")
      case None
      have "(branch_map v ms)(path := None) = branch_map v ms"
        using rep_branch.hyps(3) [OF x(1) None] by (intro remove_none) (simp add: Cons branch_map_def)
      note unchanged = does_unchanged [OF ok rep.rep_branch [OF rep_branch.hyps(1) kids rep_branch.hyps(3,4)] data this]
      have "mpt_remove H h path m = Some (Inr (Some (H data)), m)"
        unfolding Cons by (rule free [OF x(1) None])
      with unchanged show ?thesis by blast
    next
      case (Some c)
      obtain res where res: "mpt_remove H c rest m = Some res"
          "does H D m res (\<lambda>r m'. rep_opt (mpDb m') r ((ms (unat x))(rest := None)))"
        using rep_branch.IH [OF x(1) Some map_fits_branch [OF rep_branch.prems(1) x(1)] x(2)] by blast
      let ?ms = "ms(unat x := (ms (unat x))(rest := None))"
      have eq: "(branch_map v ms)(path := None) = branch_map v ?ms" using x(1) by (simp add: Cons branch_update)
      have "does H D m (then_do res (\<lambda>newChild. collapse_branch H (cs[unat x := newChild]) v))
        (\<lambda>r m'. rep_opt (mpDb m') r ((branch_map v ms)(path := None)))"
      proof (rule does_then [OF res(2)])
        fix c' m1 assume g: "grows H m m1" and c': "rep_opt (mpDb m1) c' ((ms (unat x))(rest := None))"
        have "br_rep (mpDb m1) (cs[unat x := c'], v) ((branch_map v ms)(path := None))"
          unfolding eq by (rule br_rep_set [OF len x(1) c' rep_grows [OF kids g] rep_branch.hyps(3)])
        with does_collapse_branch [OF sep _ this all] g
        show "does H D m1 (collapse_branch H (cs[unat x := c']) v m1)
            (\<lambda>r m'. rep_opt (mpDb m') r ((branch_map v ms)(path := None)))"
          by (simp add: grows_def del: fun_upd_apply)
      qed (rule log_mono_collapse_branch)
      with below [OF x(1) Some, of rest] res(1) Cons show ?thesis by (simp del: fun_upd_apply)
    qed
  qed
qed


subsection \<open>Histories\<close>

text \<open>The map of keys as a map of paths.\<close>

definition path_map :: "(bytes \<rightharpoonup> bytes) \<Rightarrow> pmap" where
  "path_map A = (\<lambda>p. if keyToNibbles (nibblesToKey p) = p then A (nibblesToKey p) else None)"

lemma path_map_key [simp]: "path_map A (keyToNibbles k) = A k"
  by (simp add: path_map_def)

lemma path_map_update: "path_map (A(k := v)) = (path_map A)(keyToNibbles k := v)"
  by (auto simp: path_map_def fun_eq_iff)

lemma path_map_empty [simp]: "path_map Map.empty = Map.empty"
  by (simp add: path_map_def fun_eq_iff)

definition key_fits :: "bytes \<Rightarrow> bytes \<Rightarrow> bool" where
  "key_fits k v \<longleftrightarrow> 2 * length k + length v + 300 < 2 ^ 32"

lemma key_fits_entry: "key_fits k v \<Longrightarrow> entry_fits (keyToNibbles k) v"
  using keyToNibbles_small by (auto simp: key_fits_def entry_fits_def)

definition mpt_rep :: "(bytes \<Rightarrow> bytes) \<Rightarrow> mpt \<Rightarrow> (bytes \<rightharpoonup> bytes) \<Rightarrow> bool" where
  "mpt_rep H m A \<longleftrightarrow> content_ok H m \<and> rep_opt (mpDb m) (mpRoot m) (path_map A) \<and> map_fits (path_map A)"

datatype mpt_op = MptUpdate bytes bytes | MptDelete bytes

fun mpt_run :: "(bytes \<Rightarrow> bytes) \<Rightarrow> mpt_op \<Rightarrow> mpt \<Rightarrow> ((mpt_error + unit) \<times> mpt) option" where
  "mpt_run H (MptUpdate k v) m = mpt_Update H k v m"
| "mpt_run H (MptDelete k) m = mpt_Delete H k m"

definition mpt_step :: "(bytes \<Rightarrow> bytes) \<Rightarrow> mpt \<Rightarrow> mpt_op \<Rightarrow> mpt" where
  "mpt_step H m op = (case mpt_run H op m of None \<Rightarrow> m | Some r \<Rightarrow> snd r)"

text \<open>The specification: what the operation does to a map.\<close>

fun map_step :: "(bytes \<rightharpoonup> bytes) \<Rightarrow> mpt_op \<Rightarrow> (bytes \<rightharpoonup> bytes)" where
  "map_step A (MptUpdate k v) = A(k := if v = [] then None else Some v)"
| "map_step A (MptDelete k) = A(k := None)"

fun op_fits :: "mpt_op \<Rightarrow> bool" where
  "op_fits (MptUpdate k v) \<longleftrightarrow> key_fits k v"
| "op_fits (MptDelete k) \<longleftrightarrow> True"

lemma content_ok_root [simp]: "content_ok H (m\<lparr>mpRoot := r\<rparr>) \<longleftrightarrow> content_ok H m"
  by (simp add: content_ok_def)

text \<open>The store after an operation is one that storing nodes gives.\<close>

definition stores :: "(bytes \<Rightarrow> bytes) \<Rightarrow> mpt \<Rightarrow> mpt \<Rightarrow> bool" where
  "stores H m m' \<longleftrightarrow> (\<exists>m1. stored_from H m m1 \<and> mpDb m' = mpDb m1 \<and> mpLog m' = mpLog m1)"

lemma stores_grows [intro]: "grows H m m' \<Longrightarrow> stores H m (m'\<lparr>mpRoot := r\<rparr>)"
  by (auto simp: grows_def stores_def)

lemma stores_refl [simp]: "stores H m m"
  using stored_none by (auto simp: stores_def)

lemma mpt_rep_delete:
  assumes "separates H D" and "mpt_rep H m A"
  shows "\<exists>r m'. mpt_Delete H k m = Some (r, m') \<and> extends m m'
    \<and> (logged m' \<subseteq> D \<longrightarrow> r = Inr () \<and> mpt_rep H m' (A(k := None)) \<and> stores H m m')"
proof (cases "mpRoot m")
  case None
  then have "path_map A = Map.empty" using assms(2) by (simp add: mpt_rep_def)
  then have "A x = None" for x using path_map_key [of A x] by simp
  then have "A(k := None) = A" by auto
  with None assms(2) show ?thesis by (simp add: mpt_Delete_def)
next
  case (Some h)
  then have h: "rep (mpDb m) h (path_map A)" and ok: "content_ok H m" and fits: "map_fits (path_map A)"
    using assms(2) by (simp_all add: mpt_rep_def)
  obtain r m1 where run: "mpt_remove H h (keyToNibbles k) m = Some (r, m1)"
    and d: "does H D m (r, m1) (\<lambda>r m'. rep_opt (mpDb m') r ((path_map A)(keyToNibbles k := None)))"
    using remove_rep [OF assms(1) ok h fits nibble_path_keyToNibbles, of k] by force
  have fits': "map_fits (path_map (A(k := None)))" using fits by (simp add: path_map_update)
  show ?thesis
    using run d fits' Some
    by (cases r) (auto simp: mpt_Delete_def does_def grows_def mpt_rep_def path_map_update simp del: fun_upd_apply)
qed

lemma mpt_rep_update:
  assumes "separates H D" and "mpt_rep H m A" and "key_fits k v" and "v \<noteq> []"
  shows "\<exists>r m'. mpt_Update H k v m = Some (r, m') \<and> extends m m'
    \<and> (logged m' \<subseteq> D \<longrightarrow> r = Inr () \<and> mpt_rep H m' (A(k \<mapsto> v)) \<and> stores H m m')"
proof -
  have ok: "content_ok H m" and fits: "map_fits (path_map A)" using assms(2) by (simp_all add: mpt_rep_def)
  note entry = key_fits_entry [OF assms(3)]
  have "\<exists>res. upsert H (case mpRoot m of None \<Rightarrow> [] | Some h \<Rightarrow> h) (keyToNibbles k) v m = Some res
    \<and> does H D m res (\<lambda>h' m'. rep (mpDb m') h' ((path_map A)(keyToNibbles k \<mapsto> v)))"
  proof (cases "mpRoot m")
    case None
    then have "path_map A = Map.empty" using assms(2) by (simp add: mpt_rep_def)
    with None does_leaf [OF assms(1) ok entry] show ?thesis by (simp add: upsert_new del: fun_upd_apply)
  next
    case (Some h)
    then have "rep (mpDb m) h (path_map A)" using assms(2) by (simp add: mpt_rep_def)
    from upsert_rep [OF assms(1) ok this fits entry] Some show ?thesis by (simp del: fun_upd_apply)
  qed
  then obtain r m1 where run: "upsert H (case mpRoot m of None \<Rightarrow> [] | Some h \<Rightarrow> h) (keyToNibbles k) v m
      = Some (r, m1)"
    and d: "does H D m (r, m1) (\<lambda>h' m'. rep (mpDb m') h' ((path_map A)(keyToNibbles k \<mapsto> v)))" by force
  have fits': "map_fits (path_map (A(k \<mapsto> v)))"
    using fits entry by (simp add: path_map_update del: fun_upd_apply)
  show ?thesis
    using run d fits' assms(4)
    by (cases r) (auto simp: mpt_Update_def does_def grows_def mpt_rep_def path_map_update simp del: fun_upd_apply)
qed

lemma mpt_rep_step:
  assumes "separates H D" and "mpt_rep H m A" and "op_fits op"
  shows "\<exists>r m'. mpt_run H op m = Some (r, m') \<and> extends m m'
    \<and> (logged m' \<subseteq> D \<longrightarrow> r = Inr () \<and> mpt_rep H m' (map_step A op) \<and> stores H m m')"
proof (cases op)
  case (MptUpdate k v)
  show ?thesis
  proof (cases "v = []")
    case True
    with MptUpdate mpt_rep_delete [OF assms(1,2), of k] show ?thesis
      by (simp add: mpt_Update_def del: fun_upd_apply)
  next
    case False
    with MptUpdate mpt_rep_update [OF assms(1,2) _ False, of k] assms(3) show ?thesis
      by (simp del: fun_upd_apply)
  qed
next
  case (MptDelete k)
  with mpt_rep_delete [OF assms(1,2), of k] show ?thesis by (simp del: fun_upd_apply)
qed

lemma mpt_rep_get:
  assumes "mpt_rep H m A"
  shows "mpt_Get k m = Some (case A k of Some v \<Rightarrow> Inr v
    | None \<Rightarrow> Inl (if mpRoot m = None then MptEmptyTrie else MptNotFound))"
proof (cases "mpRoot m")
  case None
  then have "path_map A = Map.empty" using assms by (simp add: mpt_rep_def)
  then have "A k = None" using path_map_key [of A k] by simp
  with None show ?thesis by (simp add: mpt_Get_def)
next
  case (Some h)
  then have "rep (mpDb m) h (path_map A)" using assms by (simp add: mpt_rep_def)
  from getNode_rep [OF this nibble_path_keyToNibbles] Some show ?thesis
    by (simp add: mpt_Get_def answer_of_def split: option.split)
qed

text \<open>Operations only add to the log, even where they fail.\<close>

lemma log_mono_upsertLeaf [log_mono]: "extends m (snd (upsertLeaf H p v q w m))"
  unfolding upsertLeaf_def Let_def by (simp add: log_mono_store) (intro conjI impI log_mono)

lemma log_mono_split [log_mono]: "extends m (snd (split_child H r c m))"
proof -
  have "extends m (snd (then_do (storeNode H (ExtensionNode (tl r) c) m) (\<lambda>h m.
        if 16 \<le> unat (hd r) then (Inl MptPanic, m)
        else (Inr ((fst no_branch)[unat (hd r) := Some h], None :: bytes option), m))))"
    by (intro log_mono) auto
  then show ?thesis by (simp add: split_child_def)
qed

lemma log_mono_bind:
  assumes "Option.bind r (\<lambda>r. Some (then_do r f)) = Some res"
    and "\<And>r'. r = Some r' \<Longrightarrow> extends m (snd r')"
    and "\<And>x m. extends m (snd (f x m))"
  shows "extends m (snd res)"
proof -
  obtain r' where r': "r = Some r'" "res = then_do r' f" using assms(1) by (cases r) auto
  show ?thesis unfolding r'(2) by (rule log_mono_then_do [OF assms(2) [OF r'(1)] assms(3)])
qed

lemma upsert_log: "upsert H h path val m = Some res \<Longrightarrow> extends m (snd res)"
proof (rule upsert.raw_induct [where P = "\<lambda>H h path val m res. extends m (snd res)"], goal_cases)
  case (1 upsert' H h path val m res)
  note IH = 1(2) and body = 1(3)
  show ?case
  proof (cases "length h = 0")
    case True
    then have "res = storeNode H (LeafNode path val) m" using body by auto
    then show ?thesis by (simp only: log_mono)
  next
    case h: False
    show ?thesis
    proof (cases "kv_Get (mpDb m) (nodeKey h)")
      case None
      then show ?thesis using body h by auto
    next
      case data: (Some data)
      show ?thesis
      proof (cases "decode_node data")
        case (Inl e)
        then show ?thesis using body h data by auto
      next
        case (Inr n)
        note body' = body [unfolded data Inr if_not_P [OF h] option.case sum.case]
        show ?thesis
        proof (cases n)
          case (LeafNode p v)
          then have "res = upsertLeaf H p v path val m" using body' by auto
          then show ?thesis by (simp only: log_mono)
        next
          case (BranchNode cs v)
          show ?thesis
          proof (cases path)
            case Nil
            then have "res = storeNode H (BranchNode cs (Some val)) m" using body' BranchNode by auto
            then show ?thesis by (simp only: log_mono)
          next
            case (Cons x rest)
            note b = body' [unfolded BranchNode Cons mpt_node.case list.case]
            show ?thesis
            proof (cases "16 \<le> unat x")
              case True
              then show ?thesis using b by auto
            next
              case x: False
              show ?thesis
              proof (cases "cs ! unat x")
                case None
                have "extends m (snd (then_do (storeNode H (LeafNode rest val) m) (\<lambda>h m.
                    storeNode H (BranchNode (cs[unat x := Some h]) v) m)))" by (intro log_mono)
                then show ?thesis using b x None by auto
              next
                case (Some c)
                show ?thesis
                  by (rule log_mono_bind [OF b [unfolded if_not_P [OF x] Some option.case] IH log_mono_store])
              qed
            qed
          qed
        next
          case (ExtensionNode s c)
          note b = body' [unfolded ExtensionNode mpt_node.case Let_def]
          show ?thesis
          proof (cases "commonPrefixLen s path = length s")
            case True
            show ?thesis by (rule log_mono_bind [OF b [unfolded if_P [OF True]] IH log_mono_store])
          next
            case cp: False
            obtain a m1 where a: "split_child H (drop (commonPrefixLen s path) s) c m = (a, m1)" by fastforce
            have m1: "extends m m1" using log_mono_split [of m H "drop (commonPrefixLen s path) s" c]
              by (simp add: a)
            note b = b [unfolded if_not_P [OF cp] a prod.case]
            show ?thesis
            proof (cases a)
              case (Inl e)
              then show ?thesis using b m1 by auto
            next
              case (Inr br)
              note b = b [unfolded Inr sum.case]
              have "extends m1 (snd res)"
              proof (cases "drop (commonPrefixLen s path) path")
                case Nil
                then have "res = join_split H (take (commonPrefixLen s path) s) (fst br, Some val) m1" using b by auto
                then show ?thesis by (simp only: log_mono)
              next
                case (Cons x rest)
                note b = b [unfolded Cons list.case]
                show ?thesis
                proof (cases "16 \<le> unat x")
                  case True
                  then show ?thesis using b by auto
                next
                  case x: False
                  show ?thesis
                  proof (cases "fst br ! unat x")
                    case None
                    have "extends m1 (snd (then_do (storeNode H (LeafNode rest val) m1) (\<lambda>h m.
                        join_split H (take (commonPrefixLen s path) s) ((fst br)[unat x := Some h], snd br) m)))"
                      by (intro log_mono)
                    then show ?thesis using b x None by auto
                  next
                    case (Some d)
                    show ?thesis
                      by (rule log_mono_bind [OF b [unfolded if_not_P [OF x] Some option.case] IH log_mono_join])
                  qed
                qed
              qed
              with m1 show ?thesis by (rule extends_trans)
            qed
          qed
        qed
      qed
    qed
  qed
qed assumption


lemma remove_log: "mpt_remove H h path m = Some res \<Longrightarrow> extends m (snd res)"
proof (rule mpt_remove.raw_induct [where P = "\<lambda>H h path m res. extends m (snd res)"], goal_cases)
  case (1 remove' H h path m res)
  note IH = 1(2) and body = 1(3)
  show ?case
  proof (cases "length h = 0 \<or> kv_Get (mpDb m) (nodeKey h) = None")
    case True
    then show ?thesis using body by (auto split: option.splits if_splits)
  next
    case False
    then obtain data where h: "length h \<noteq> 0" and data: "kv_Get (mpDb m) (nodeKey h) = Some data" by auto
    show ?thesis
    proof (cases "decode_node data")
      case (Inl e)
      then show ?thesis using body h data by (auto split: if_splits)
    next
      case (Inr n)
      note body' = body [unfolded data Inr if_not_P [OF h] option.case sum.case]
      show ?thesis
      proof (cases n)
        case (LeafNode p v)
        then show ?thesis using body' by auto
      next
        case (ExtensionNode s c)
        note b = body' [unfolded ExtensionNode mpt_node.case]
        show ?thesis
        proof (cases "length path < length s \<or> take (length s) path \<noteq> s")
          case True
          then show ?thesis using b by auto
        next
          case False
          show ?thesis
            by (rule log_mono_bind [OF b [unfolded if_not_P [OF False]] IH log_mono_collapse_extension])
        qed
      next
        case (BranchNode cs v)
        show ?thesis
        proof (cases path)
          case Nil
          then have "res = collapse_branch H cs None m" using body' BranchNode by auto
          then show ?thesis by (simp only: log_mono)
        next
          case (Cons x rest)
          note b = body' [unfolded BranchNode Cons mpt_node.case list.case]
          show ?thesis
          proof (cases "16 \<le> unat x \<or> cs ! unat x = None")
            case True
            then show ?thesis using b by (auto split: if_splits)
          next
            case False
            then obtain c where x: "\<not> 16 \<le> unat x" and c: "cs ! unat x = Some c" by auto
            show ?thesis
              by (rule log_mono_bind [OF b [unfolded if_not_P [OF x] c option.case] IH
                    log_mono_collapse_branch])
          qed
        qed
      qed
    qed
  qed
qed assumption

lemma then_unit_log:
  "extends m (snd r) \<Longrightarrow> extends m (snd (then_do r (\<lambda>x m. (Inr (), m\<lparr>mpRoot := f x\<rparr>))))"
  by (rule log_mono_then_do) simp_all

lemma mpt_step_log: "extends m (mpt_step H m op)"
proof -
  have delete: "extends m (snd r)" if run: "mpt_Delete H k m = Some r" for k r
  proof (cases "mpRoot m")
    case None
    then show ?thesis using run by (auto simp: mpt_Delete_def)
  next
    case (Some h)
    then obtain res where res: "mpt_remove H h (keyToNibbles k) m = Some res"
        "r = then_do res (\<lambda>newRoot m. (Inr (), m\<lparr>mpRoot := newRoot\<rparr>))"
      using run by (auto simp: mpt_Delete_def)
    show ?thesis unfolding res(2) by (rule then_unit_log [OF remove_log [OF res(1)]])
  qed
  have update: "extends m (snd r)" if run: "mpt_Update H k v m = Some r" for k v r
  proof (cases "length v = 0")
    case True
    then show ?thesis using run delete by (simp add: mpt_Update_def)
  next
    case False
    then obtain res where res: "upsert H (case mpRoot m of None \<Rightarrow> [] | Some h \<Rightarrow> h) (keyToNibbles k) v m = Some res"
        "r = then_do res (\<lambda>newRoot m. (Inr (), m\<lparr>mpRoot := Some newRoot\<rparr>))"
      using run by (auto simp: mpt_Update_def)
    show ?thesis unfolding res(2) by (rule then_unit_log [OF upsert_log [OF res(1)]])
  qed
  show ?thesis
    using delete update by (cases op; cases "mpt_run H op m") (auto simp: mpt_step_def)
qed

lemma mpt_rep_run:
  assumes "separates H D" and "mpt_rep H m A" and "list_all op_fits ops"
    and "logged (foldl (mpt_step H) m ops) \<subseteq> D"
  shows "mpt_rep H (foldl (mpt_step H) m ops) (foldl map_step A ops)"
  using assms(3,4)
proof (induction ops rule: rev_induct)
  case Nil
  then show ?case using assms(2) by simp
next
  case (snoc op ops)
  let ?m = "foldl (mpt_step H) m ops"
  have "logged ?m \<subseteq> D" using snoc.prems(2) extends_logged [OF mpt_step_log [of ?m H op]] by auto
  then have rep: "mpt_rep H ?m (foldl map_step A ops)" using snoc by simp
  have "op_fits op" using snoc.prems(1) by simp
  from mpt_rep_step [OF assms(1) rep this] obtain r m' where m': "mpt_run H op ?m = Some (r, m')"
      "logged m' \<subseteq> D \<longrightarrow> mpt_rep H m' (map_step (foldl map_step A ops) op)" by blast
  have "mpt_step H ?m op = m'" using m'(1) by (simp add: mpt_step_def)
  then show ?case using snoc.prems(2) m'(2) by simp
qed

lemma mpt_rep_new:
  assumes "\<And>h. length h = 32 \<Longrightarrow> kv_Get db (nodeKey h) = None"
  shows "mpt_rep H (NewMPT db) Map.empty"
  using assms by (simp add: mpt_rep_def NewMPT_def content_ok_def)

text \<open>
  C6 (mpt_is_map): Over a store without trie nodes, after any history of updates and deletions, a
  lookup in the trie returns exactly what the same history leaves in a map of keys to values, as
  long as the hash has no collision among the encodings that the history stored and keys and values
  are below the 32-bit lengths of the encoding.
\<close>

theorem mpt_is_map:
  assumes "hash_ok H" and "\<And>h. length h = 32 \<Longrightarrow> kv_Get db (nodeKey h) = None"
    and "list_all op_fits ops" and "inj_on H (logged (foldl (mpt_step H) (NewMPT db) ops))"
  shows "\<exists>e. mpt_Get k (foldl (mpt_step H) (NewMPT db) ops)
    = Some (case foldl map_step Map.empty ops k of Some v \<Rightarrow> Inr v | None \<Rightarrow> Inl e)"
proof -
  have "separates H (logged (foldl (mpt_step H) (NewMPT db) ops))"
    using assms(1,4) by (simp add: separates_def)
  from mpt_rep_run [OF this mpt_rep_new [OF assms(2)] assms(3)]
  have "mpt_rep H (foldl (mpt_step H) (NewMPT db) ops) (foldl map_step Map.empty ops)" by simp
  from mpt_rep_get [OF this, of k] show ?thesis by auto
qed

text \<open>
  C14 (mpt_step_refines): In a trie that stands for a map, an update or a deletion terminates without
  an error and leaves a trie that stands for the updated map, as long as the hash has no collision
  among the encodings stored so far and by the operation.
\<close>

theorem mpt_step_refines:
  assumes "hash_ok H" and "mpt_rep H m A" and "op_fits op"
    and "inj_on H (logged (mpt_step H m op))"
  shows "\<exists>m'. mpt_run H op m = Some (Inr (), m') \<and> mpt_rep H m' (map_step A op)"
proof -
  have "separates H (logged (mpt_step H m op))" using assms(1,4) by (simp add: separates_def)
  from mpt_rep_step [OF this assms(2,3)] show ?thesis by (auto simp: mpt_step_def simp del: fun_upd_apply)
qed

subsection \<open>Witnesses\<close>

text \<open>The first bytes of the data as its hash: enough for the few nodes of the example.\<close>

definition prefix_hash :: "bytes \<Rightarrow> bytes" where
  "prefix_hash d = take 32 (d @ replicate 32 0)"

lemma prefix_hash_ok: "hash_ok prefix_hash"
  by (auto simp: hash_ok_def prefix_hash_def min_def)

declare upsert.simps [code] mpt_remove.simps [code]

definition trie_ops :: "mpt_op list" where
  "trie_ops = [MptUpdate [0x11] [7], MptUpdate [0x11] [8], MptDelete [0x12]]"

lemma trie_log: "distinct (map prefix_hash (mpLog (foldl (mpt_step prefix_hash) (NewMPT []) trie_ops)))"
  by code_simp

lemma inj_on_log: "distinct (map H (mpLog m)) \<Longrightarrow> inj_on H (logged m)"
  by (simp add: distinct_map)

theorem mpt_is_map_witness:
  "\<exists>e. mpt_Get [0x11] (foldl (mpt_step prefix_hash) (NewMPT []) trie_ops)
    = Some (case foldl map_step Map.empty trie_ops [0x11] of Some v \<Rightarrow> Inr v | None \<Rightarrow> Inl e)"
  by (rule mpt_is_map [OF prefix_hash_ok _ _ inj_on_log [OF trie_log]])
    (simp_all add: kv_Get_def trie_ops_def key_fits_def)

theorem mpt_step_refines_witness:
  "\<exists>m'. mpt_run prefix_hash (MptUpdate [0x11] [7]) (NewMPT []) = Some (Inr (), m')
    \<and> mpt_rep prefix_hash m' (map_step Map.empty (MptUpdate [0x11] [7]))"
proof (rule mpt_step_refines [OF prefix_hash_ok mpt_rep_new])
  have "distinct (map prefix_hash (mpLog (mpt_step prefix_hash (NewMPT []) (MptUpdate [0x11] [7]))))"
    by code_simp
  then show "inj_on prefix_hash (logged (mpt_step prefix_hash (NewMPT []) (MptUpdate [0x11] [7])))"
    by (rule inj_on_log)
qed (simp_all add: kv_Get_def key_fits_def)

end
