(* ===== verification/MPT_GC.thy ===== *)
theory MPT_GC
  imports MPT_Map
begin

text \<open>
  Reference counts and garbage collection of the state trie (\<open>state/mpt.go\<close>): the roots of epochs
  are saved and counted, and a collection drops the epochs before a bound with every node that
  nothing refers to any more.
\<close>

subsection \<open>Operations\<close>

lemma kv_Delete_shorter: "kv_Get db k = Some v \<Longrightarrow> length (kv_Delete k db) < length db"
proof -
  assume "kv_Get db k = Some v"
  then have "k \<in> fst ` set db" by (auto simp: kv_Get_def dest: map_of_SomeD intro: rev_image_eqI)
  then obtain u where "(k, u) \<in> set db" by auto
  then show ?thesis
    unfolding kv_Delete_def AList.delete_eq by (rule length_filter_less) simp
qed

lemma kv_Delete_length: "length (kv_Delete k db) \<le> length db"
  by (simp add: kv_Delete_def AList.delete_eq)

lemma kv_Put_length: "kv_Get db k = Some v \<Longrightarrow> length (kv_Put k x db) = length db"
  by (simp add: kv_Get_def kv_Put_def length_goput)

text \<open>
  \<open>decrementRef\<close> with the hashes that are still to be decremented: the children of a dropped node
  come before the rest, as in the recursion of the code.
\<close>

function decrement_loop :: "bytes list \<Rightarrow> store \<Rightarrow> (mpt_error + unit) \<times> store" where
  "decrement_loop [] db = (Inr (), db)"
| "decrement_loop (hash # todo) db =
     (case kv_Get db (refKey hash) of
        None \<Rightarrow> decrement_loop todo db
      | Some currentVal \<Rightarrow>
          (if length currentVal \<noteq> 8 then decrement_loop todo db
           else let n = of_nat (unbe currentVal) :: u64; n = (if 0 < n then n - 1 else n)
             in if n = 0
                then (let db = kv_Delete (refKey hash) db in case kv_Get db (nodeKey hash) of
                    None \<Rightarrow> decrement_loop todo db
                  | Some data \<Rightarrow>
                      (if length data = 0 then decrement_loop todo db
                       else let db = kv_Delete (nodeKey hash) db in case getChildHashes data of
                           Inl e \<Rightarrow> (Inl e, db)
                         | Inr children \<Rightarrow> decrement_loop (children @ todo) db))
                else decrement_loop todo (kv_Put (refKey hash) (be_u64 n) db)))"
  by pat_completeness auto

termination
proof (relation "measures [\<lambda>(_, db). length db, \<lambda>(hs, _). length hs]", goal_cases)
  case (4 hash todo db v n n' db')
  then show ?case using kv_Delete_shorter by (simp add: kv_Put_length)
next
  case (5 hash todo db v n n' db' data)
  then show ?case using kv_Delete_shorter by simp
next
  case (6 hash todo db v n n' db' data db'' children)
  then have "length db' < length db" using kv_Delete_shorter by simp
  moreover have "length db'' \<le> length db'" using 6 kv_Delete_length by simp
  ultimately show ?case by simp
next
  case 7
  then show ?case by (simp add: kv_Put_length)
qed simp_all

definition decrementRef :: "bytes \<Rightarrow> store \<Rightarrow> (mpt_error + unit) \<times> store" where
  "decrementRef hash db = decrement_loop [hash] db"

definition SaveEpochRoot :: "u64 \<Rightarrow> bytes \<Rightarrow> store \<Rightarrow> store" where
  "SaveEpochRoot epoch root db =
     (if length root = 0 then db else incrementRef root (kv_Put (rootKey epoch) root db))"

definition root_prefix :: bytes where "root_prefix = bytes_of_str ''mpt:root:''"

text \<open>The entries to prune are collected before anything is deleted.\<close>

definition to_prune :: "u64 \<Rightarrow> store \<Rightarrow> (bytes \<times> bytes) list" where
  "to_prune beforeEpoch db =
     map (\<lambda>key. (key, case kv_Get db key of None \<Rightarrow> [] | Some v \<Rightarrow> v))
       (filter (\<lambda>key. length root_prefix + 8 \<le> length key
            \<and> of_nat (unbe (take 8 (drop (length root_prefix) key))) < beforeEpoch)
          (keysWithPrefix db root_prefix))"

fun prune_loop :: "(bytes \<times> bytes) list \<Rightarrow> u64 \<Rightarrow> store \<Rightarrow> (mpt_error + u64) \<times> store" where
  "prune_loop [] pruned db = (Inr pruned, db)"
| "prune_loop ((key, root) # items) pruned db = (case decrementRef root db of
       (Inl e, db) \<Rightarrow> (Inl e, db)
     | (Inr _, db) \<Rightarrow> prune_loop items (pruned + 1) (kv_Delete key db))"

definition GarbageCollect :: "u64 \<Rightarrow> store \<Rightarrow> (mpt_error + u64) \<times> store" where
  "GarbageCollect beforeEpoch db = prune_loop (to_prune beforeEpoch db) 0 db"


subsection \<open>Counting references\<close>

definition is_node_key :: "bytes \<Rightarrow> bool" where
  "is_node_key k \<longleftrightarrow> length k = 36 \<and> take 4 k = bytes_of_str ''mpt:''"

definition is_root_key :: "bytes \<Rightarrow> bool" where
  "is_root_key k \<longleftrightarrow> length k = 17 \<and> take 9 k = root_prefix"

definition kids :: "bytes \<Rightarrow> bytes list" where
  "kids data = (case getChildHashes data of Inl _ \<Rightarrow> [] | Inr cs \<Rightarrow> cs)"

text \<open>How often the stored nodes and the epochs outside a set refer to a hash.\<close>

definition node_refs :: "store \<Rightarrow> bytes \<Rightarrow> nat" where
  "node_refs db h = (\<Sum>(k, d)\<leftarrow>db. if is_node_key k then count_list (kids d) h else 0)"

definition epoch_refs :: "store \<Rightarrow> bytes set \<Rightarrow> bytes \<Rightarrow> nat" where
  "epoch_refs db X h = (\<Sum>(k, r)\<leftarrow>db. if is_root_key k \<and> k \<notin> X \<and> r = h then 1 else 0)"

text \<open>
  The counters cover all references: those of the stored nodes, those of the epochs outside \<open>X\<close> and
  the ones still to be taken back.
\<close>

definition refs_ok :: "store \<Rightarrow> bytes set \<Rightarrow> bytes list \<Rightarrow> bool" where
  "refs_ok db X todo \<longleftrightarrow> gomap_wf db \<and> (\<forall>h. length h = 32 \<longrightarrow>
     node_refs db h + epoch_refs db X h + count_list todo h \<le> unat (ref_count h db))"

definition nodes_ok :: "store \<Rightarrow> bool" where
  "nodes_ok db \<longleftrightarrow> (\<forall>h d. length h = 32 \<longrightarrow> kv_Get db (nodeKey h) = Some d
     \<longrightarrow> (\<exists>n. node_ok n \<and> d = serialize n))"

lemma length_keys [simp]:
  "length (nodeKey h) = 4 + length h" "length (refKey h) = 11 + length h" "length (rootKey e) = 17"
  "length root_prefix = 9"
  by (simp_all add: nodeKey_def refKey_def rootKey_def root_prefix_def)

lemma is_node_key_iff: "is_node_key k \<longleftrightarrow> (\<exists>h. length h = 32 \<and> k = nodeKey h)"
proof
  assume k: "is_node_key k"
  then have "k = nodeKey (drop 4 k)"
    unfolding is_node_key_def nodeKey_def by (metis append_take_drop_id)
  with k show "\<exists>h. length h = 32 \<and> k = nodeKey h"
    by (intro exI [of _ "drop 4 k"]) (simp add: is_node_key_def)
qed (auto simp: is_node_key_def nodeKey_def)

lemma be_unbe: "be (length bs) (unbe bs) = bs"
proof (induction bs rule: rev_induct)
  case Nil
  then show ?case by simp
next
  case (snoc b bs)
  have b: "unat b < 256" using unsigned_less [of b] by simp
  then have "(unbe bs * 256 + unat b) div 256 = unbe bs" by simp
  moreover have "(of_nat (unbe bs * 256 + unat b) :: byte) = b"
    using b by (simp add: word_unat_eq_iff unat_of_nat del: of_nat_add of_nat_mult)
  ultimately show ?case using snoc by simp
qed

lemma is_root_key_iff: "is_root_key k \<longleftrightarrow> (\<exists>e. k = rootKey e)"
proof
  assume k: "is_root_key k"
  then have len: "length (drop 9 k) = 8" by (simp add: is_root_key_def)
  then have "unbe (drop 9 k) < 2 ^ 64" using unbe_less [of "drop 9 k"] by simp
  then have "be_u64 (of_nat (unbe (drop 9 k))) = drop 9 k"
    using be_unbe [of "drop 9 k"] unfolding len by (simp add: unat_of_nat)
  then have "k = rootKey (of_nat (unbe (drop 9 k)))"
    using k unfolding is_root_key_def rootKey_def root_prefix_def by (metis append_take_drop_id)
  then show "\<exists>e. k = rootKey e" by blast
qed (auto simp: is_root_key_def rootKey_def root_prefix_def)

lemma key_kinds [simp]:
  "length h = 32 \<Longrightarrow> is_node_key (nodeKey h)" "length h = 32 \<Longrightarrow> \<not> is_root_key (nodeKey h)"
  "length h = 32 \<Longrightarrow> \<not> is_node_key (refKey h)" "length h = 32 \<Longrightarrow> \<not> is_root_key (refKey h)"
  "\<not> is_node_key (rootKey e)" "is_root_key (rootKey e)"
  by (auto simp: is_node_key_iff is_root_key_iff dest: arg_cong [of _ _ length])

lemma node_root_disjoint [simp]: "is_root_key k \<Longrightarrow> \<not> is_node_key k"
  by (auto simp: is_root_key_def is_node_key_def)

definition node_children :: "mpt_node \<Rightarrow> bytes list" where
  "node_children n = (case n of LeafNode _ _ \<Rightarrow> []
      | ExtensionNode _ c \<Rightarrow> if 0 < length c then [c] else []
      | BranchNode cs _ \<Rightarrow> filter (\<lambda>h. 0 < length h) (map the (filter (\<lambda>c. c \<noteq> None) cs)))"

lemma getChildHashes_eq: "node_fits n \<Longrightarrow> getChildHashes (serialize n) = Inr (node_children n)"
  using decode_serialize [of n] by (simp add: getChildHashes_def node_children_def split: mpt_node.split)

lemma kids_serialize:
  assumes "node_ok n"
  obtains cs where "getChildHashes (serialize n) = Inr cs" and "kids (serialize n) = cs"
    and "set cs = child_hashes n"
proof -
  have fits: "node_fits n" and len: "\<And>c. c \<in> child_hashes n \<Longrightarrow> length c = 32"
    using assms by (simp_all add: node_ok_def)
  show ?thesis
  proof (rule that [OF getChildHashes_eq [OF fits]])
    show "kids (serialize n) = node_children n" by (simp add: kids_def getChildHashes_eq [OF fits])
    show "set (node_children n) = child_hashes n"
    proof (cases n)
      case (ExtensionNode s c)
      then show ?thesis using len [of c] by (cases c) (auto simp: node_children_def)
    next
      case (BranchNode cs v)
      have "h \<in> the ` {c \<in> set cs. c \<noteq> None}" if "Some h \<in> set cs" for h
        using that by (intro image_eqI [of _ _ "Some h"]) auto
      moreover have "h \<noteq> []" if "Some h \<in> set cs" for h
        using len [of h] that by (auto simp: BranchNode)
      ultimately show ?thesis by (auto simp: BranchNode node_children_def)
    qed (simp add: node_children_def)
  qed
qed

subsection \<open>What single writes do to the counts\<close>

lemma sum_put_other:
  fixes f :: "bytes \<times> bytes \<Rightarrow> nat"
  assumes "gomap_wf db" and "\<And>v. f (k, v) = 0"
  shows "(\<Sum>p\<leftarrow>kv_Put k x db. f p) = (\<Sum>p\<leftarrow>db. f p)"
  using sum_list_map_goput_nat [OF assms(1), of f k x] assms(2)
  by (simp add: kv_Put_def split: option.splits)

lemma sum_del_other:
  fixes f :: "bytes \<times> bytes \<Rightarrow> nat"
  assumes "gomap_wf db" and "\<And>v. f (k, v) = 0"
  shows "(\<Sum>p\<leftarrow>kv_Delete k db. f p) = (\<Sum>p\<leftarrow>db. f p)"
  using sum_list_map_godel_nat [OF assms(1), of f k] assms(2)
  by (simp add: kv_Delete_def split: option.splits)

lemma kv_wf [simp]:
  "gomap_wf db \<Longrightarrow> gomap_wf (kv_Put k v db)" "gomap_wf db \<Longrightarrow> gomap_wf (kv_Delete k db)"
  by (simp_all add: kv_Put_def kv_Delete_def)

lemma node_refs_other:
  assumes "gomap_wf db" and "\<not> is_node_key k"
  shows "node_refs (kv_Put k v db) = node_refs db" and "node_refs (kv_Delete k db) = node_refs db"
  unfolding node_refs_def fun_eq_iff
  using assms by (auto intro!: sum_put_other sum_del_other)

lemma epoch_refs_other:
  assumes "gomap_wf db" and "\<not> is_root_key k \<or> k \<in> X"
  shows "epoch_refs (kv_Put k v db) X = epoch_refs db X" and "epoch_refs (kv_Delete k db) X = epoch_refs db X"
  unfolding epoch_refs_def fun_eq_iff
  using assms by (auto intro!: sum_put_other sum_del_other)

lemma node_refs_delete:
  assumes "gomap_wf db" and "is_node_key k" and "kv_Get db k = Some d"
  shows "node_refs (kv_Delete k db) h + count_list (kids d) h = node_refs db h"
  using sum_list_map_godel_nat [OF assms(1), of "\<lambda>(k, d). if is_node_key k then count_list (kids d) h else 0" k]
    assms(2,3) by (simp add: node_refs_def kv_Delete_def kv_Get_def)

lemma node_refs_put:
  assumes "gomap_wf db" and "is_node_key k" and "kv_Get db k = None"
  shows "node_refs (kv_Put k d db) h = node_refs db h + count_list (kids d) h"
  using sum_list_map_goput_nat [OF assms(1), of "\<lambda>(k, d). if is_node_key k then count_list (kids d) h else 0" k d]
    assms(2,3) by (simp add: node_refs_def kv_Put_def kv_Get_def)

lemma ref_count_node:
  "length h = 32 \<Longrightarrow> length x = 32 \<Longrightarrow> ref_count h (kv_Put (nodeKey x) d db) = ref_count h db"
  "length h = 32 \<Longrightarrow> length x = 32 \<Longrightarrow> ref_count h (kv_Delete (nodeKey x) db) = ref_count h db"
  by (simp_all add: ref_count_def nodeKey_refKey [THEN not_sym])

text \<open>A reference is at least one reference.\<close>

lemma child_counted:
  assumes "node_at db h n" and "node_ok n" and "c \<in> child_hashes n"
  shows "1 \<le> node_refs db c"
proof -
  obtain cs where cs: "kids (serialize n) = cs" "set cs = child_hashes n"
    by (rule kids_serialize [OF assms(2)])
  have "(nodeKey h, serialize n) \<in> set db"
    using assms(1) by (auto simp: node_at_def kv_Get_def dest: map_of_SomeD)
  moreover have "is_node_key (nodeKey h)" using assms(1) by (simp add: node_at_def)
  moreover have "1 \<le> count_list cs c" using cs(2) assms(3) count_list_0_iff [of cs c]
    by (metis less_one linorder_not_le)
  ultimately have "1 \<le> (case (nodeKey h, serialize n) of (k, d) \<Rightarrow>
      if is_node_key k then count_list (kids d) c else 0)" using cs(1) by simp
  also have "\<dots> \<le> node_refs db c"
    unfolding node_refs_def by (rule member_le_sum_list_nat) fact
  finally show ?thesis .
qed

lemma epoch_counted:
  assumes "kv_Get db (rootKey e) = Some r" and "rootKey e \<notin> X"
  shows "1 \<le> epoch_refs db X r"
proof -
  have "(rootKey e, r) \<in> set db" using assms(1) by (auto simp: kv_Get_def dest: map_of_SomeD)
  then have "(case (rootKey e, r) of (k, r') \<Rightarrow> if is_root_key k \<and> k \<notin> X \<and> r' = r then 1 else 0)
      \<le> epoch_refs db X r"
    unfolding epoch_refs_def by (rule member_le_sum_list_nat)
  then show ?thesis using assms(2) by simp
qed

subsection \<open>Taking references back\<close>

definition gc_inv :: "store \<Rightarrow> bytes set \<Rightarrow> bytes list \<Rightarrow> bool" where
  "gc_inv db X todo \<longleftrightarrow> refs_ok db X todo \<and> nodes_ok db \<and> (\<forall>h \<in> set todo. length h = 32)"

lemma epoch_key_distinct [simp]:
  "rootKey e \<noteq> refKey h" "length h = 32 \<Longrightarrow> rootKey e \<noteq> nodeKey h"
proof -
  have "take 6 (rootKey e) \<noteq> take 6 (refKey h)" by (simp add: rootKey_def refKey_def bytes_of_str_def)
  then show "rootKey e \<noteq> refKey h" by auto
qed (auto dest: arg_cong [of _ _ length])

lemma of_nat_unbe_u64: "(of_nat (unbe (be_u64 n)) :: u64) = n"
  unfolding unbe_be_u64 by simp

lemma ref_count_set: "ref_count h (kv_Put (refKey x) (be_u64 n) db) = (if h = x then n else ref_count h db)"
  using of_nat_unbe_u64 [of n] by (simp add: ref_count_def del: unbe_be)

lemma ref_count_delete: "ref_count h (kv_Delete (refKey x) db) = (if h = x then 0 else ref_count h db)"
  by (simp add: ref_count_def)

lemma ref_count_epoch: "ref_count h (kv_Delete (rootKey e) db) = ref_count h db"
  by (simp add: ref_count_def epoch_key_distinct(1) [THEN not_sym])

text \<open>Nodes may go but not change, counters may fall, and keys outside the trie are not touched.\<close>

definition only_drops :: "store \<Rightarrow> store \<Rightarrow> bool" where
  "only_drops db db' \<longleftrightarrow> (\<forall>k. take 4 k \<noteq> bytes_of_str ''mpt:'' \<longrightarrow> kv_Get db' k = kv_Get db k)
     \<and> (\<forall>h d. length h = 32 \<longrightarrow> kv_Get db' (nodeKey h) = Some d \<longrightarrow> kv_Get db (nodeKey h) = Some d)
     \<and> (\<forall>h. length h = 32 \<longrightarrow> ref_count h db' \<le> ref_count h db)"

lemma only_drops_refl [simp]: "only_drops db db"
  by (simp add: only_drops_def)

lemma only_drops_trans: "only_drops db db1 \<Longrightarrow> only_drops db1 db2 \<Longrightarrow> only_drops db db2"
  by (auto simp: only_drops_def intro: order.trans)

lemma only_drops_write:
  "length x = 32 \<Longrightarrow> n \<le> ref_count x db \<Longrightarrow> only_drops db (kv_Put (refKey x) (be_u64 n) db)"
  "length x = 32 \<Longrightarrow> only_drops db (kv_Delete (refKey x) db)"
  "length x = 32 \<Longrightarrow> only_drops db (kv_Delete (nodeKey x) db)"
  "only_drops db (kv_Delete (rootKey e) db)"
proof -
  have other: "k \<noteq> nodeKey h" "k \<noteq> refKey h" "k \<noteq> rootKey e" if "take 4 k \<noteq> bytes_of_str ''mpt:''" for k h
    using that trie_keys by (auto simp: rootKey_def bytes_of_str_def)
  show "length x = 32 \<Longrightarrow> n \<le> ref_count x db \<Longrightarrow> only_drops db (kv_Put (refKey x) (be_u64 n) db)"
    "length x = 32 \<Longrightarrow> only_drops db (kv_Delete (refKey x) db)"
    "length x = 32 \<Longrightarrow> only_drops db (kv_Delete (nodeKey x) db)"
    "only_drops db (kv_Delete (rootKey e) db)"
    using other by (auto simp: only_drops_def ref_count_set ref_count_delete ref_count_node ref_count_epoch)
qed

text \<open>
  What the collection may do: it touches only nodes and counters, adds no key, and keeps the tries of
  the epochs outside \<open>X\<close>.
\<close>

definition shrinks :: "bytes set \<Rightarrow> store \<Rightarrow> store \<Rightarrow> bool" where
  "shrinks X db db' \<longleftrightarrow> (\<forall>e. kv_Get db' (rootKey e) = kv_Get db (rootKey e))
     \<and> (\<forall>k. kv_Has db' k \<longrightarrow> kv_Has db k) \<and> epoch_refs db' X = epoch_refs db X \<and> only_drops db db'
     \<and> (\<forall>h M. 1 \<le> epoch_refs db X h \<longrightarrow> rep db h M \<longrightarrow> rep db' h M)"

lemma shrinks_refl [simp]: "shrinks X db db"
  by (simp add: shrinks_def)

lemma shrinks_trans: "shrinks X db db1 \<Longrightarrow> shrinks X db1 db2 \<Longrightarrow> shrinks X db db2"
  by (auto simp: shrinks_def intro: only_drops_trans)

lemma kv_Has_get: "kv_Has db k \<longleftrightarrow> kv_Get db k \<noteq> None"
  by (simp add: kv_Has_def kv_Get_def)

lemma node_at_ok:
  assumes "nodes_ok db" and "node_at db h n"
  shows "node_ok n"
proof -
  have h: "length h = 32" "node_fits n" "kv_Get db (nodeKey h) = Some (serialize n)"
    using assms(2) by (simp_all add: node_at_def)
  then obtain k where k: "node_ok k" "serialize n = serialize k"
    using assms(1) unfolding nodes_ok_def by blast
  have "decode_node (serialize n) = Inr n" using h(2) by (rule decode_serialize)
  moreover have "decode_node (serialize n) = Inr k"
    unfolding k(2) by (rule decode_serialize) (use k(1) in \<open>simp add: node_ok_def\<close>)
  ultimately show ?thesis using k(1) by simp
qed

text \<open>Without references from nodes, a node can go without harm to the tries of other roots.\<close>

lemma rep_delete:
  assumes "nodes_ok db" and "length x = 32" and "node_refs db x = 0"
  shows "rep db h M \<Longrightarrow> h \<noteq> x \<Longrightarrow> rep (kv_Delete (nodeKey x) db) h M"
proof (induction rule: rep.induct)
  case (rep_leaf h p v)
  then show ?case by (intro rep.rep_leaf) (simp add: node_at_def)
next
  case (rep_extension h s c M)
  have "1 \<le> node_refs db c"
    using rep_extension.hyps(1) node_at_ok [OF assms(1) rep_extension.hyps(1)] by (rule child_counted) simp
  then have "c \<noteq> x" using assms(3) by auto
  with rep_extension show ?case by (intro rep.rep_extension) (simp_all add: node_at_def)
next
  case (rep_branch h cs v ms)
  have ok: "node_ok (BranchNode cs v)" using assms(1) rep_branch.hyps(1) by (rule node_at_ok)
  then have len: "length cs = 16" by (simp add: node_ok_def)
  have other: "c \<noteq> x" if "i < 16" "cs ! i = Some c" for i c
  proof -
    have "Some c \<in> set cs" using that len by (metis nth_mem)
    then have "1 \<le> node_refs db c" by (intro child_counted [OF rep_branch.hyps(1) ok]) simp
    then show ?thesis using assms(3) by auto
  qed
  show ?case
  proof (rule rep.rep_branch)
    show "node_at (kv_Delete (nodeKey x) db) h (BranchNode cs v)"
      using rep_branch.hyps(1) rep_branch.prems by (simp add: node_at_def)
  qed (use rep_branch.hyps rep_branch.IH other in auto)
qed

lemma rep_ref_write:
  assumes "rep db h M" and "length x = 32"
  shows "rep (kv_Put (refKey x) v db) h M" and "rep (kv_Delete (refKey x) db) h M"
  using assms(2) by (auto intro!: rep_keeps [OF assms(1)] simp: keeps_def)

lemma gc_inv_count:
  assumes "gc_inv db X (x # todo)"
  obtains v where "kv_Get db (refKey x) = Some v" and "length v = 8"
    and "ref_count x db = of_nat (unbe v)" and "ref_count x db \<noteq> 0" and "length x = 32"
proof -
  have "length x = 32" using assms by (simp add: gc_inv_def)
  moreover from this have "1 \<le> unat (ref_count x db)"
    using assms by (fastforce simp: gc_inv_def refs_ok_def)
  moreover from this have "ref_count x db \<noteq> 0" by auto
  ultimately show ?thesis
    using that by (auto simp: ref_count_def split: option.splits if_splits)
qed

text \<open>The three ways a reference is taken back.\<close>

lemma gc_lower:
  assumes "gc_inv db X (x # todo)" and n: "n = ref_count x db - 1"
  shows "gc_inv (kv_Put (refKey x) (be_u64 n) db) X todo"
    and "shrinks X db (kv_Put (refKey x) (be_u64 n) db)"
proof -
  obtain v where x: "length x = 32" "ref_count x db \<noteq> 0" "kv_Get db (refKey x) = Some v"
    by (rule gc_inv_count [OF assms(1)])
  have wf: "gomap_wf db" using assms by (simp add: gc_inv_def refs_ok_def)
  let ?db = "kv_Put (refKey x) (be_u64 n) db"
  have "refs_ok ?db X todo"
    unfolding refs_ok_def
  proof (intro conjI allI impI)
    fix h :: bytes assume h: "length h = 32"
    have "node_refs db h + epoch_refs db X h + count_list (x # todo) h \<le> unat (ref_count h db)"
      using assms h unfolding gc_inv_def refs_ok_def by blast
    moreover have "unat n = unat (ref_count x db) - 1"
      using x(2) by (simp add: unat_minus_one n)
    ultimately show "node_refs ?db h + epoch_refs ?db X h + count_list todo h \<le> unat (ref_count h ?db)"
      unfolding ref_count_set using x(1) wf by (simp add: node_refs_other epoch_refs_other split: if_splits)
  qed (use wf in simp)
  then show "gc_inv ?db X todo"
    using assms x(1) by (auto simp: gc_inv_def nodes_ok_def)
  have "n \<le> ref_count x db" using x(2) by (simp add: n word_le_nat_alt unat_minus_one)
  from only_drops_write(1) [OF x(1) this] show "shrinks X db ?db"
    using x wf by (auto simp: shrinks_def epoch_refs_other kv_Has_get intro: rep_ref_write)
qed

lemma gc_drop_count:
  assumes inv: "gc_inv db X (x # todo)" and one: "ref_count x db = 1"
  shows "gc_inv (kv_Delete (refKey x) db) X todo" and "shrinks X db (kv_Delete (refKey x) db)"
    and "node_refs (kv_Delete (refKey x) db) x = 0" and "epoch_refs (kv_Delete (refKey x) db) X x = 0"
proof -
  have x: "length x = 32" and wf: "gomap_wf db" using inv by (simp_all add: gc_inv_def refs_ok_def)
  let ?db = "kv_Delete (refKey x) db"
  have refs: "node_refs db h + epoch_refs db X h + count_list (x # todo) h \<le> unat (ref_count h db)"
    if "length h = 32" for h using inv that unfolding gc_inv_def refs_ok_def by blast
  from refs [OF x] one
  have none: "node_refs db x = 0" "epoch_refs db X x = 0" "count_list todo x = 0" by simp_all
  have eqs: "node_refs ?db = node_refs db" "epoch_refs ?db X = epoch_refs db X"
    using x wf by (simp_all add: node_refs_other epoch_refs_other)
  have "node_refs ?db h + epoch_refs ?db X h + count_list todo h \<le> unat (ref_count h ?db)"
    if "length h = 32" for h
    using refs [OF that] none by (simp add: eqs ref_count_delete split: if_splits)
  then show "gc_inv ?db X todo"
    using inv x wf by (auto simp: gc_inv_def refs_ok_def nodes_ok_def)
  show "shrinks X db ?db"
    using x wf by (auto simp: shrinks_def eqs kv_Has_get intro: rep_ref_write only_drops_write)
  show "node_refs ?db x = 0" and "epoch_refs ?db X x = 0" using none eqs by simp_all
qed

lemma gc_drop_node:
  assumes inv: "gc_inv db X todo" and none: "node_refs db x = 0" "epoch_refs db X x = 0"
    and x: "length x = 32" and data: "kv_Get db (nodeKey x) = Some data"
    and cs: "getChildHashes data = Inr cs"
  shows "gc_inv (kv_Delete (nodeKey x) db) X (cs @ todo)" and "shrinks X db (kv_Delete (nodeKey x) db)"
proof -
  let ?db = "kv_Delete (nodeKey x) db"
  have wf: "gomap_wf db" and ok: "nodes_ok db" using inv by (simp_all add: gc_inv_def refs_ok_def)
  from ok x data obtain n where n: "node_ok n" "data = serialize n" unfolding nodes_ok_def by blast
  obtain cs' where "getChildHashes (serialize n) = Inr cs'" "set cs' = child_hashes n"
    by (rule kids_serialize [OF n(1)])
  with cs n have len: "\<forall>h \<in> set cs. length h = 32" by (simp add: node_ok_def)
  have kids: "kids data = cs" using cs by (simp add: kids_def)
  have nodes: "node_refs ?db h + count_list cs h = node_refs db h" for h
    using node_refs_delete [OF wf _ data] x kids by simp
  have epochs: "epoch_refs ?db X = epoch_refs db X" using x wf by (simp add: epoch_refs_other)
  have "node_refs ?db h + epoch_refs ?db X h + count_list (cs @ todo) h \<le> unat (ref_count h ?db)"
    if h: "length h = 32" for h
  proof -
    have "node_refs db h + epoch_refs db X h + count_list todo h \<le> unat (ref_count h db)"
      using inv h unfolding gc_inv_def refs_ok_def by blast
    then show ?thesis using nodes [of h] by (simp add: epochs ref_count_node(2) [OF h x])
  qed
  then show "gc_inv ?db X (cs @ todo)"
    using inv len wf by (auto simp: gc_inv_def refs_ok_def nodes_ok_def)
  have "rep ?db h M" if "1 \<le> epoch_refs db X h" "rep db h M" for h M
  proof (rule rep_delete [OF ok x none(1) that(2)])
    show "h \<noteq> x" using that(1) none(2) by auto
  qed
  then show "shrinks X db ?db"
    using x by (auto simp: shrinks_def epochs kv_Has_get intro: only_drops_write)
qed

lemma serialize_not_empty: "node_fits n \<Longrightarrow> serialize n \<noteq> []"
  using decode_serialize [of n] by (auto simp: decode_node_def)

text \<open>One turn of the loop, when the counters cover the references.\<close>

lemma decrement_lower:
  assumes "gc_inv db X (x # todo)" and "ref_count x db \<noteq> 1"
  shows "decrement_loop (x # hs) db = decrement_loop hs (kv_Put (refKey x) (be_u64 (ref_count x db - 1)) db)"
proof -
  obtain v where "kv_Get db (refKey x) = Some v" "length v = 8"
      "ref_count x db = of_nat (unbe v)" "ref_count x db \<noteq> 0" by (rule gc_inv_count [OF assms(1)])
  moreover from this have "ref_count x db - 1 \<noteq> 0" "0 < ref_count x db" using assms(2) by (auto simp: word_gt_0)
  ultimately show ?thesis by simp
qed

lemma decrement_drop:
  assumes "gc_inv db X (x # todo)" and "ref_count x db = 1"
  shows "decrement_loop (x # hs) db =
     (case kv_Get db (nodeKey x) of
        None \<Rightarrow> decrement_loop hs (kv_Delete (refKey x) db)
      | Some data \<Rightarrow>
          (if length data = 0 then decrement_loop hs (kv_Delete (refKey x) db)
           else case getChildHashes data of
               Inl e \<Rightarrow> (Inl e, kv_Delete (nodeKey x) (kv_Delete (refKey x) db))
             | Inr cs \<Rightarrow> decrement_loop (cs @ hs) (kv_Delete (nodeKey x) (kv_Delete (refKey x) db))))"
proof -
  obtain v where v: "kv_Get db (refKey x) = Some v" "length v = 8"
      "ref_count x db = of_nat (unbe v)" "length x = 32" by (rule gc_inv_count [OF assms(1)])
  then show ?thesis using assms(2) by (simp add: Let_def split: option.split sum.split)
qed

lemma decrement_loop_ok:
  "gc_inv db X (hs @ todo) \<Longrightarrow>
    \<exists>db'. decrement_loop hs db = (Inr (), db') \<and> gc_inv db' X todo \<and> shrinks X db db'"
proof (induction "(db, hs)" arbitrary: db hs todo
    rule: wf_induct_rule [OF wf_measures [of "[\<lambda>(db, _). length db, \<lambda>(_, hs). length hs]"]])
  case 1
  note IH = 1(1) and inv = 1(2)
  show ?case
  proof (cases hs)
    case Nil
    then show ?thesis using inv by simp
  next
    case (Cons x hs')
    have inv': "gc_inv db X (x # hs' @ todo)" using inv Cons by simp
    obtain v where v: "kv_Get db (refKey x) = Some v" and x: "length x = 32"
      by (rule gc_inv_count [OF inv'])
    have step: ?thesis if "decrement_loop hs db = decrement_loop ks db1" "gc_inv db1 X (ks @ todo)"
        "shrinks X db db1" "length db1 < length db \<or> length db1 = length db \<and> length ks < length hs" for ks db1
    proof -
      have "\<exists>db'. decrement_loop ks db1 = (Inr (), db') \<and> gc_inv db' X todo \<and> shrinks X db1 db'"
        by (rule IH [OF _ that(2)]) (use that(4) in auto)
      then show ?thesis using that(1,3) shrinks_trans by metis
    qed
    show ?thesis
    proof (cases "ref_count x db = 1")
      case False
      show ?thesis
        by (rule step [OF _ _ gc_lower(2) [OF inv' refl]])
          (use decrement_lower [OF inv' False] gc_lower(1) [OF inv' refl] v Cons in \<open>auto simp: kv_Put_length\<close>)
    next
      case True
      let ?db = "kv_Delete (refKey x) db"
      note drop = gc_drop_count [OF inv' True] and eq = decrement_drop [OF inv' True, of hs', folded Cons]
      have shorter: "length ?db < length db" using kv_Delete_shorter [OF v] .
      have get: "kv_Get ?db (nodeKey x) = kv_Get db (nodeKey x)" using x by simp
      show ?thesis
      proof (cases "kv_Get db (nodeKey x)")
        case None
        then show ?thesis using eq drop(1,2) shorter by (intro step [of hs' ?db]) auto
      next
        case (Some data)
        then obtain n where n: "node_ok n" "data = serialize n"
          using inv x unfolding gc_inv_def nodes_ok_def by blast
        obtain cs where cs: "getChildHashes data = Inr cs"
          unfolding n(2) by (rule kids_serialize [OF n(1)])
        have "data \<noteq> []" using n serialize_not_empty by (simp add: node_ok_def)
        with eq Some cs have "decrement_loop hs db = decrement_loop (cs @ hs') (kv_Delete (nodeKey x) ?db)" by simp
        moreover note gc_drop_node [OF drop(1,3,4) x Some [folded get] cs]
        moreover have "length (kv_Delete (nodeKey x) ?db) < length db"
          using kv_Delete_length [of "nodeKey x" ?db] shorter by simp
        ultimately show ?thesis using shrinks_trans [OF drop(2)]
          by (intro step [of "cs @ hs'" "kv_Delete (nodeKey x) ?db"]) auto
      qed
    qed
  qed
qed

subsection \<open>Collections\<close>

text \<open>
  Keys with the prefix of the epochs are keys of epochs: a node whose hash begins with the bytes of
  \<open>root:\<close> would be taken for one.
\<close>

definition no_overlap :: "store \<Rightarrow> bool" where
  "no_overlap db \<longleftrightarrow> (\<forall>k. kv_Has db k \<longrightarrow> take 9 k = root_prefix \<longrightarrow> is_root_key k)"

definition roots_ok :: "store \<Rightarrow> bool" where
  "roots_ok db \<longleftrightarrow> (\<forall>e r. kv_Get db (rootKey e) = Some r \<longrightarrow> length r = 32)"

definition trie_store_ok :: "store \<Rightarrow> bool" where
  "trie_store_ok db \<longleftrightarrow> gc_inv db {} [] \<and> no_overlap db \<and> roots_ok db"

definition before :: "u64 \<Rightarrow> bytes \<Rightarrow> bool" where
  "before bound k \<longleftrightarrow> (\<exists>e < bound. k = rootKey e)"

lemma rootKey_epoch: "of_nat (unbe (take 8 (drop 9 (rootKey e)))) = e"
  using of_nat_unbe_u64 [of e] by (simp add: rootKey_def bytes_of_str_def)

lemma rootKey_inject [simp]: "rootKey e = rootKey f \<longleftrightarrow> e = f"
  using rootKey_epoch by metis

lemma to_prune_entries:
  assumes "trie_store_ok db"
  shows "to_prune bound db = filter (\<lambda>(k, r). before bound k) db"
proof -
  have wf: "gomap_wf db" and over: "no_overlap db"
    using assms by (simp_all add: trie_store_ok_def gc_inv_def refs_ok_def)
  have key: "(length root_prefix \<le> length k \<and> take (length root_prefix) k = root_prefix)
      \<and> length root_prefix + 8 \<le> length k \<and> of_nat (unbe (take 8 (drop (length root_prefix) k))) < bound
    \<longleftrightarrow> before bound k" if "(k, r) \<in> set db" for k r
  proof (cases "is_root_key k")
    case True
    then obtain e where "k = rootKey e" by (auto simp: is_root_key_iff)
    then show ?thesis using True rootKey_epoch [of e] by (auto simp: before_def is_root_key_def)
  next
    case False
    have "kv_Has db k" using that wf by (auto simp: kv_Has_def gomap_wf_def)
    then have "take 9 k \<noteq> root_prefix" using over False by (auto simp: no_overlap_def)
    with False show ?thesis by (auto simp: before_def)
  qed
  have get: "kv_Get db k = Some r" if "(k, r) \<in> set db" for k r
    using that wf by (simp add: kv_Get_def gomap_wf_def)
  have same: "filter (\<lambda>x. length root_prefix \<le> length (fst x) \<and> take (length root_prefix) (fst x) = root_prefix
      \<and> length root_prefix + 8 \<le> length (fst x)
      \<and> of_nat (unbe (take 8 (drop (length root_prefix) (fst x)))) < bound) db
    = filter (\<lambda>x. before bound (fst x)) db"
  proof (rule filter_cong [OF refl])
    fix x assume "x \<in> set db"
    then have "(fst x, snd x) \<in> set db" by simp
    from key [OF this] show "(length root_prefix \<le> length (fst x) \<and> take (length root_prefix) (fst x) = root_prefix
        \<and> length root_prefix + 8 \<le> length (fst x)
        \<and> of_nat (unbe (take 8 (drop (length root_prefix) (fst x)))) < bound) = before bound (fst x)"
      by (simp only: conj_assoc)
  qed
  have "to_prune bound db = map (\<lambda>(k, r). (k, case kv_Get db k of None \<Rightarrow> [] | Some v \<Rightarrow> v))
      (filter (\<lambda>(k, r). before bound k) db)"
    using same by (simp add: to_prune_def keysWithPrefix_def filter_map comp_def split_def)
  also have "\<dots> = filter (\<lambda>(k, r). before bound k) db"
    by (rule map_idI) (auto simp: get)
  finally show ?thesis .
qed

lemma epoch_refs_split:
  assumes "gomap_wf db"
  shows "epoch_refs db {} h = epoch_refs db (fst ` set (filter (\<lambda>(k, r). before bound k) db)) h
    + count_list (map snd (filter (\<lambda>(k, r). before bound k) db)) h"
proof -
  have "(\<Sum>(k, r)\<leftarrow>xs. if is_root_key k \<and> r = h then 1 else 0)
      = (\<Sum>(k, r)\<leftarrow>xs. if is_root_key k \<and> \<not> before bound k \<and> r = h then 1 else (0::nat))
        + count_list (map snd (filter (\<lambda>(k, r). before bound k) xs)) h" for xs
    by (induction xs) (auto simp: before_def)
  moreover have "k \<notin> fst ` set (filter (\<lambda>(k, r). before bound k) db) \<longleftrightarrow> \<not> before bound k"
    if "(k, r) \<in> set db" for k r
    using that by force
  then have "(\<Sum>(k, r)\<leftarrow>db. if is_root_key k \<and> \<not> before bound k \<and> r = h then 1 else (0::nat))
      = epoch_refs db (fst ` set (filter (\<lambda>(k, r). before bound k) db)) h"
    unfolding epoch_refs_def by (intro arg_cong [where f = sum_list] map_cong) auto
  ultimately show ?thesis by (simp add: epoch_refs_def)
qed

lemma gc_inv_start:
  assumes "trie_store_ok db"
  shows "gc_inv db (fst ` set (to_prune bound db)) (map snd (to_prune bound db))"
proof -
  have wf: "gomap_wf db" and inv: "gc_inv db {} []" and roots: "roots_ok db"
    using assms by (simp_all add: trie_store_ok_def gc_inv_def refs_ok_def)
  have "length r = 32" if "(k, r) \<in> set (to_prune bound db)" for k r
  proof -
    from that obtain e where "k = rootKey e" "(k, r) \<in> set db"
      unfolding to_prune_entries [OF assms] by (auto simp: before_def)
    then show ?thesis using roots wf by (simp add: roots_ok_def kv_Get_def gomap_wf_def)
  qed
  moreover have "epoch_refs db {} h = epoch_refs db (fst ` set (to_prune bound db)) h
      + count_list (map snd (to_prune bound db)) h" for h
    using epoch_refs_split [OF wf] by (simp add: to_prune_entries [OF assms])
  ultimately show ?thesis using inv by (auto simp: gc_inv_def refs_ok_def)
qed

text \<open>The loop over the entries takes their references back and drops them.\<close>

lemma gc_drop_epoch:
  assumes "gc_inv db X todo" and "rootKey e \<in> X"
  shows "gc_inv (kv_Delete (rootKey e) db) X todo"
    and "epoch_refs (kv_Delete (rootKey e) db) X = epoch_refs db X"
    and "rep db h M \<Longrightarrow> rep (kv_Delete (rootKey e) db) h M"
proof -
  have wf: "gomap_wf db" using assms(1) by (simp add: gc_inv_def refs_ok_def)
  have count: "ref_count h (kv_Delete (rootKey e) db) = ref_count h db" for h
    by (simp add: ref_count_def epoch_key_distinct(1) [THEN not_sym])
  have node: "kv_Get (kv_Delete (rootKey e) db) (nodeKey h) = kv_Get db (nodeKey h)" if "length h = 32" for h
    using that by (simp add: epoch_key_distinct(2) [THEN not_sym])
  show eq: "epoch_refs (kv_Delete (rootKey e) db) X = epoch_refs db X"
    using wf assms(2) by (simp add: epoch_refs_other)
  show "gc_inv (kv_Delete (rootKey e) db) X todo"
    using assms(1) wf node by (simp add: gc_inv_def refs_ok_def nodes_ok_def eq count node_refs_other)
  show "rep (kv_Delete (rootKey e) db) h M" if "rep db h M"
    by (rule rep_keeps [OF that]) (use node in \<open>simp add: keeps_def del: kv_simps\<close>)
qed

lemma prune_loop_ok:
  assumes "gc_inv db X (map snd items)" and "\<forall>(k, r) \<in> set items. k \<in> X \<and> is_root_key k"
  shows "\<exists>db'. prune_loop items n db = (Inr (n + of_nat (length items)), db') \<and> gc_inv db' X []
    \<and> (\<forall>e. kv_Get db' (rootKey e) = (if rootKey e \<in> fst ` set items then None else kv_Get db (rootKey e)))
    \<and> (\<forall>k. kv_Has db' k \<longrightarrow> kv_Has db k) \<and> only_drops db db'
    \<and> (\<forall>h M. 1 \<le> epoch_refs db X h \<longrightarrow> rep db h M \<longrightarrow> rep db' h M)"
  using assms
proof (induction items arbitrary: n db)
  case Nil
  then show ?case by simp
next
  case (Cons item items)
  obtain k r where item: "item = (k, r)" by (cases item)
  then obtain e where k: "k = rootKey e" and X: "rootKey e \<in> X"
    using Cons.prems(2) by (auto simp: is_root_key_iff)
  have "gc_inv db X ([r] @ map snd items)" using Cons.prems(1) item by simp
  from decrement_loop_ok [OF this] obtain db1 where
    db1: "decrementRef r db = (Inr (), db1)" "gc_inv db1 X (map snd items)" "shrinks X db db1"
    by (auto simp: decrementRef_def)
  let ?db = "kv_Delete (rootKey e) db1"
  note drop = gc_drop_epoch [OF db1(2) X]
  have "\<forall>(k, r) \<in> set items. k \<in> X \<and> is_root_key k" using Cons.prems(2) by simp
  from Cons.IH [OF drop(1) this, of "n + 1"] obtain db' where
    db': "prune_loop items (n + 1) ?db = (Inr (n + 1 + of_nat (length items)), db')" "gc_inv db' X []"
      "\<forall>e. kv_Get db' (rootKey e) = (if rootKey e \<in> fst ` set items then None else kv_Get ?db (rootKey e))"
      "\<forall>k. kv_Has db' k \<longrightarrow> kv_Has ?db k" "only_drops ?db db'"
      "\<forall>h M. 1 \<le> epoch_refs ?db X h \<longrightarrow> rep ?db h M \<longrightarrow> rep db' h M"
    by blast
  show ?case
  proof (intro exI [of _ db'] conjI allI impI)
    show "prune_loop (item # items) n db = (Inr (n + of_nat (length (item # items))), db')"
      using db1(1) db'(1) by (simp add: item k ac_simps)
    show "kv_Get db' (rootKey f) = (if rootKey f \<in> fst ` set (item # items) then None else kv_Get db (rootKey f))" for f
      using db1(3) db'(3) by (auto simp: item k shrinks_def)
    show "kv_Has db k" if "kv_Has db' k" for k
    proof -
      have "kv_Has ?db k" using that db'(4) by blast
      then have "kv_Has db1 k" by (auto simp: kv_Has_get split: if_splits)
      then show ?thesis using db1(3) by (simp add: shrinks_def)
    qed
    show "rep db' h M" if "1 \<le> epoch_refs db X h" "rep db h M" for h M
      using that db1(3) db'(6) drop(2,3) by (simp add: shrinks_def)
    have "only_drops db db1" using db1(3) by (simp add: shrinks_def)
    then show "only_drops db db'"
      by (rule only_drops_trans [OF _ only_drops_trans [OF only_drops_write(4) db'(5)]])
  qed (rule db'(2))
qed

lemma pruned_keys:
  assumes "trie_store_ok db"
  shows "rootKey e \<in> fst ` set (to_prune bound db) \<longleftrightarrow> e < bound \<and> kv_Has db (rootKey e)"
    and "\<forall>(k, r) \<in> set (to_prune bound db). k \<in> fst ` set (to_prune bound db) \<and> is_root_key k"
  unfolding to_prune_entries [OF assms]
  by (force simp: before_def kv_Has_def map_of_eq_None_iff) (auto simp: before_def intro: rev_image_eqI)

text \<open>Once the pruned epochs are gone, the counters cover all that is left.\<close>

lemma gc_inv_end:
  assumes inv: "gc_inv db X []" and "\<And>k. k \<in> X \<Longrightarrow> is_root_key k"
    and gone: "\<And>e. rootKey e \<in> X \<Longrightarrow> kv_Get db (rootKey e) = None"
  shows "gc_inv db {} []"
proof -
  have wf: "gomap_wf db" using inv by (simp add: gc_inv_def refs_ok_def)
  have "(k, r) \<notin> set db" if key: "k \<in> X" for k r
  proof
    assume "(k, r) \<in> set db"
    then have some: "kv_Get db k = Some r" using wf by (simp add: kv_Get_def gomap_wf_def)
    obtain e where e: "k = rootKey e" using assms(2) [OF key] unfolding is_root_key_iff ..
    show False using gone [OF key [unfolded e]] some unfolding e by simp
  qed
  then have "epoch_refs db {} = epoch_refs db X"
    unfolding epoch_refs_def fun_eq_iff
    by (intro allI arg_cong [where f = sum_list] map_cong refl) auto
  then show ?thesis using inv by (simp add: gc_inv_def refs_ok_def)
qed

lemma gc_run:
  assumes "trie_store_ok db"
  obtains n db' where "trie_store_ok db'"
    and "\<And>e. kv_Get db' (rootKey e) = (if e < bound then None else kv_Get db (rootKey e))"
    and "\<And>e r M. bound \<le> e \<Longrightarrow> kv_Get db (rootKey e) = Some r \<Longrightarrow> rep db r M \<Longrightarrow> rep db' r M"
    and "GarbageCollect bound db = (Inr n, db')" and "only_drops db db'"
proof -
  define items where "items = to_prune bound db"
  define X where "X = fst ` set items"
  have mem: "rootKey e \<in> X \<longleftrightarrow> e < bound \<and> kv_Has db (rootKey e)" for e
    using pruned_keys(1) [OF assms] by (simp add: X_def items_def)
  have entries: "\<forall>(k, r) \<in> set items. k \<in> X \<and> is_root_key k"
    using pruned_keys(2) [OF assms] by (simp add: X_def items_def)
  have "gc_inv db X (map snd items)" using gc_inv_start [OF assms] by (simp add: items_def X_def)
  from prune_loop_ok [OF this entries, of 0] obtain db' where
    run: "prune_loop items 0 db = (Inr (of_nat (length items)), db')" and inv: "gc_inv db' X []"
    and roots: "\<And>e. kv_Get db' (rootKey e) = (if rootKey e \<in> X then None else kv_Get db (rootKey e))"
    and has: "\<And>k. kv_Has db' k \<Longrightarrow> kv_Has db k" and drops: "only_drops db db'"
    and reps: "\<And>h M. 1 \<le> epoch_refs db X h \<Longrightarrow> rep db h M \<Longrightarrow> rep db' h M"
    unfolding X_def [symmetric] by auto
  have "gc_inv db' {} []"
    by (rule gc_inv_end [OF inv]) (use entries roots in \<open>auto simp: X_def\<close>)
  moreover have "no_overlap db'" using assms has by (auto simp: trie_store_ok_def no_overlap_def)
  moreover have "roots_ok db'"
    using assms roots by (auto simp: trie_store_ok_def roots_ok_def split: if_splits)
  ultimately have "trie_store_ok db'" by (simp add: trie_store_ok_def)
  moreover have "kv_Get db' (rootKey e) = (if e < bound then None else kv_Get db (rootKey e))" for e
    using roots [of e] mem [of e] kv_Has_get [of db "rootKey e"] 
    by (cases "e < bound"; cases "kv_Has db (rootKey e)") simp_all
  moreover have "rep db' r M" if "bound \<le> e" "kv_Get db (rootKey e) = Some r" "rep db r M" for e r M
    by (rule reps [OF epoch_counted [OF that(2)] that(3)]) (use mem [of e] leD [OF that(1)] in simp)
  moreover have "GarbageCollect bound db = (Inr (of_nat (length items)), db')"
    using run by (simp add: GarbageCollect_def items_def)
  ultimately show thesis using drops by (rule that)
qed

text \<open>
  C13 (gc_keeps_epochs): In a store whose reference counters cover the references, a collection ends
  without an error, drops exactly the epochs before its bound and leaves every other epoch with the
  same root, and a trie that is complete under such a root still holds the same keys and values; the
  counters still cover the references.
\<close>

theorem gc_keeps_epochs:
  assumes "trie_store_ok db"
  shows "\<exists>n db'. GarbageCollect bound db = (Inr n, db') \<and> trie_store_ok db'
    \<and> (\<forall>e. kv_Get db' (rootKey e) = (if e < bound then None else kv_Get db (rootKey e)))
    \<and> (\<forall>e r M. bound \<le> e \<longrightarrow> kv_Get db (rootKey e) = Some r \<longrightarrow> rep db r M \<longrightarrow> rep db' r M)"
  using gc_run [OF assms, of bound] by metis

subsection \<open>Adding nodes and epochs\<close>

lemma ref_count_increment:
  "ref_count h (incrementRef x db) = ref_count h db + (if h = x then 1 else 0)"
  by (auto simp: incrementRef_def ref_count_set)

lemma increment_keeps:
  assumes "gomap_wf db" and "length x = 32"
  shows "gomap_wf (incrementRef x db)" and "node_refs (incrementRef x db) = node_refs db"
    and "epoch_refs (incrementRef x db) X = epoch_refs db X"
    and "kv_Get (incrementRef x db) (rootKey e) = kv_Get db (rootKey e)"
    and "length h = 32 \<Longrightarrow> kv_Get (incrementRef x db) (nodeKey h) = kv_Get db (nodeKey h)"
    and "no_overlap db \<Longrightarrow> no_overlap (incrementRef x db)"
proof -
  have "take 9 (refKey x) \<noteq> root_prefix"
    by (simp add: refKey_def root_prefix_def bytes_of_str_def)
  then show "no_overlap db \<Longrightarrow> no_overlap (incrementRef x db)"
    by (auto simp: no_overlap_def incrementRef_def kv_Has_get)
qed (use assms in \<open>simp_all add: incrementRef_def node_refs_other epoch_refs_other\<close>)

abbreviation increments :: "bytes list \<Rightarrow> store \<Rightarrow> store" where
  "increments cs db \<equiv> foldl (\<lambda>db c. incrementRef c db) db cs"

lemma increments_keep:
  assumes "gomap_wf db" and "\<forall>c \<in> set cs. length c = 32"
  shows "gomap_wf (increments cs db) \<and> node_refs (increments cs db) = node_refs db
    \<and> epoch_refs (increments cs db) X = epoch_refs db X
    \<and> kv_Get (increments cs db) (rootKey e) = kv_Get db (rootKey e)
    \<and> (length h = 32 \<longrightarrow> kv_Get (increments cs db) (nodeKey h) = kv_Get db (nodeKey h))
    \<and> (no_overlap db \<longrightarrow> no_overlap (increments cs db))"
  using assms
proof (induction cs arbitrary: db)
  case Nil
  then show ?case by simp
next
  case (Cons c cs)
  then show ?case
    using increment_keeps [of db c] by simp
qed

definition counts_below :: "nat \<Rightarrow> store \<Rightarrow> bool" where
  "counts_below n db \<longleftrightarrow> (\<forall>h. length h = 32 \<longrightarrow> unat (ref_count h db) \<le> n)"

lemma increment_count:
  assumes "counts_below n db" and "n < 2 ^ 64 - 1"
  shows "length h = 32 \<Longrightarrow> unat (ref_count h (incrementRef x db)) = unat (ref_count h db) + (if h = x then 1 else 0)"
    and "counts_below (n + 1) (incrementRef x db)"
proof -
  have *: "unat (ref_count k (incrementRef x db)) = unat (ref_count k db) + (if k = x then 1 else 0)"
    if "length k = 32" for k
  proof -
    have "unat (ref_count k db) \<le> n" using assms(1) that by (simp add: counts_below_def)
    then have "unat (ref_count k db) + 1 < 2 ^ 64" using assms(2) by simp
    then show ?thesis by (auto simp: ref_count_increment unat_word_ariths)
  qed
  show "unat (ref_count h (incrementRef x db)) = unat (ref_count h db) + (if h = x then 1 else 0)"
    if "length h = 32" using that by (rule *)
  show "counts_below (n + 1) (incrementRef x db)"
    using assms(1) by (auto simp: counts_below_def * intro: le_SucI)
qed

lemma increments_count:
  assumes "counts_below n db" and "n + length cs < 2 ^ 64"
  shows "(length h = 32 \<longrightarrow> unat (ref_count h (increments cs db)) = unat (ref_count h db) + count_list cs h)
    \<and> counts_below (n + length cs) (increments cs db)"
  using assms
proof (induction cs arbitrary: n db)
  case Nil
  then show ?case by simp
next
  case (Cons c cs)
  have n: "n < 2 ^ 64 - 1" "n + 1 + length cs < 2 ^ 64" using Cons.prems(2) by simp_all
  note inc = increment_count [OF Cons.prems(1) n(1), where x = c]
  from Cons.IH [OF inc(2) n(2)] show ?case by (simp add: inc(1))
qed

lemma few_children:
  assumes "node_fits n" and "getChildHashes (serialize n) = Inr cs"
  shows "length cs \<le> 16"
proof -
  have "cs = node_children n" using assms getChildHashes_eq by simp
  moreover have "length (filter Q xs) \<le> 16" if "length xs = 16" for Q and xs :: "bytes option list"
    using that length_filter_le [of Q xs] by simp
  ultimately show ?thesis using assms(1) by (cases n) (simp_all add: node_children_def)
qed

lemma gc_inv_store:
  assumes inv: "gc_inv db X todo" and n: "node_ok n" and h: "length h = 32"
    and new: "kv_Get db (nodeKey h) = None" and low: "counts_below c db" "c + 16 < 2 ^ 64"
    and cs: "getChildHashes (serialize n) = Inr cs"
  shows "gc_inv (increments cs (kv_Put (nodeKey h) (serialize n) db)) X todo
    \<and> counts_below (c + 16) (increments cs (kv_Put (nodeKey h) (serialize n) db))"
proof -
  let ?put = "kv_Put (nodeKey h) (serialize n) db"
  let ?db = "increments cs ?put"
  have wf: "gomap_wf db" using inv by (simp add: gc_inv_def refs_ok_def)
  obtain cs' where "getChildHashes (serialize n) = Inr cs'" "kids (serialize n) = cs'"
      "set cs' = child_hashes n" by (rule kids_serialize [OF n])
  then have kids: "kids (serialize n) = cs" and len: "\<forall>c \<in> set cs. length c = 32"
    using cs n by (simp_all add: node_ok_def)
  have few: "length cs \<le> 16" using few_children [OF _ cs] n by (simp add: node_ok_def)
  note keep = increments_keep [OF kv_wf(1) [OF wf] len]
  have put: "node_refs ?put k = node_refs db k + count_list cs k" "epoch_refs ?put X = epoch_refs db X"
      "ref_count k ?put = ref_count k db" if "length k = 32" for k
    using node_refs_put [OF wf _ new] epoch_refs_other(1) [OF wf] h that
    by (simp_all add: kids ref_count_node)
  have "counts_below c ?put" using low(1) by (simp add: counts_below_def put)
  note counts = increments_count [OF this, of cs]
  have below: "counts_below (c + 16) ?db"
    using counts few low(2) by (fastforce simp: counts_below_def)
  have "node_refs ?db k + epoch_refs ?db X k + count_list todo k \<le> unat (ref_count k ?db)"
    if k: "length k = 32" for k
  proof -
    have "node_refs db k + epoch_refs db X k + count_list todo k \<le> unat (ref_count k db)"
      using inv k unfolding gc_inv_def refs_ok_def by blast
    then show ?thesis using keep counts few low(2) put [OF k] k by auto
  qed
  moreover have "nodes_ok ?db"
    unfolding nodes_ok_def
  proof (intro allI impI)
    fix k d assume "length k = 32" and "kv_Get ?db (nodeKey k) = Some d"
    then show "\<exists>n. node_ok n \<and> d = serialize n"
      using keep inv n by (cases "k = h") (auto simp: gc_inv_def nodes_ok_def)
  qed
  ultimately have "gc_inv ?db X todo" using keep inv by (simp add: gc_inv_def refs_ok_def)
  with below show ?thesis by simp
qed

text \<open>Hashes that cannot be taken for the key of an epoch.\<close>

definition no_root_hash :: "bytes \<Rightarrow> bool" where
  "no_root_hash h \<longleftrightarrow> take 5 h \<noteq> bytes_of_str ''root:''"

lemma no_overlap_put:
  assumes "no_overlap db" and "no_root_hash h" and "length h = 32"
  shows "no_overlap (kv_Put (nodeKey h) d db)"
proof -
  have "take 9 (nodeKey h) = bytes_of_str ''mpt:'' @ take 5 h"
    by (simp add: nodeKey_def bytes_of_str_def)
  then have "take 9 (nodeKey h) \<noteq> root_prefix"
    using assms(2) by (simp add: root_prefix_def no_root_hash_def bytes_of_str_def)
  then show ?thesis using assms(1) by (auto simp: no_overlap_def kv_Has_get)
qed

lemma trie_store_storeNode:
  assumes ok: "trie_store_ok (mpDb m)" and n: "node_ok n" and store: "storeNode H n m = (r, m')"
    and H: "hash_ok H" "no_root_hash (H (serialize n))"
    and low: "counts_below c (mpDb m)" "c + 16 < 2 ^ 64"
  shows "trie_store_ok (mpDb m') \<and> counts_below (c + 16) (mpDb m')
    \<and> (\<forall>e. kv_Get (mpDb m') (rootKey e) = kv_Get (mpDb m) (rootKey e))"
proof (cases "kv_Has (mpDb m) (nodeKey (H (serialize n)))")
  case True
  then have "mpDb m' = mpDb m" using store by (auto simp: storeNode_def Let_def)
  then show ?thesis using ok low(1) by (fastforce simp: counts_below_def)
next
  case False
  let ?h = "H (serialize n)"
  have h: "length ?h = 32" using H(1) by (simp add: hash_ok_def)
  obtain cs where cs: "getChildHashes (serialize n) = Inr cs" "set cs = child_hashes n"
    by (rule kids_serialize [OF n])
  have len: "\<forall>c \<in> set cs. length c = 32" using cs(2) n by (simp add: node_ok_def)
  let ?put = "kv_Put (nodeKey ?h) (serialize n) (mpDb m)"
  have m': "mpDb m' = increments cs ?put" using store False cs(1) by (auto simp: storeNode_def Let_def)
  have inv: "gc_inv (mpDb m) {} []" "no_overlap (mpDb m)" "roots_ok (mpDb m)"
    using ok by (simp_all add: trie_store_ok_def)
  have "gomap_wf ?put" using inv(1) by (simp add: gc_inv_def refs_ok_def)
  note keep = increments_keep [OF this len]
  have "no_overlap (mpDb m')" using keep no_overlap_put [OF inv(2) H(2) h] by (simp add: m')
  moreover have roots: "kv_Get (mpDb m') (rootKey e) = kv_Get (mpDb m) (rootKey e)" for e
    using keep h by (simp add: m')
  moreover have "gc_inv (mpDb m') {} [] \<and> counts_below (c + 16) (mpDb m')"
    unfolding m' using gc_inv_store [OF inv(1) n h _ low cs(1)] False by (simp add: kv_Has_get)
  ultimately show ?thesis using inv(3) by (simp add: trie_store_ok_def roots_ok_def)
qed

lemma epoch_refs_put:
  assumes "gomap_wf db"
  shows "epoch_refs (kv_Put (rootKey e) r db) {} h \<le> epoch_refs db {} h + count_list [r] h"
proof -
  define f where "f = (\<lambda>(k, r). if is_root_key k \<and> k \<notin> {} \<and> r = h then 1 else (0::nat))"
  have "(\<Sum>p\<leftarrow>goput (rootKey e) r db. f p) + (case goget db (rootKey e) of None \<Rightarrow> 0 | Some u \<Rightarrow> f (rootKey e, u))
      = (\<Sum>p\<leftarrow>db. f p) + f (rootKey e, r)"
    by (rule sum_list_map_goput_nat [OF assms])
  moreover have "f (rootKey e, r) = count_list [r] h" by (simp add: f_def)
  ultimately show ?thesis unfolding epoch_refs_def kv_Put_def f_def [symmetric] by linarith
qed

lemma trie_store_save:
  assumes ok: "trie_store_ok db" and r: "length r = 32" and low: "counts_below c db" "c + 1 < 2 ^ 64"
  shows "trie_store_ok (SaveEpochRoot e r db) \<and> counts_below (c + 1) (SaveEpochRoot e r db)
    \<and> kv_Get (SaveEpochRoot e r db) (rootKey f) = (if f = e then Some r else kv_Get db (rootKey f))
    \<and> keeps db (SaveEpochRoot e r db)"
proof -
  let ?put = "kv_Put (rootKey e) r db"
  have save: "SaveEpochRoot e r db = incrementRef r ?put" using r by (auto simp: SaveEpochRoot_def)
  have inv: "gc_inv db {} []" "no_overlap db" "roots_ok db" using ok by (simp_all add: trie_store_ok_def)
  then have wf: "gomap_wf db" by (simp add: gc_inv_def refs_ok_def)
  have count: "ref_count h ?put = ref_count h db" for h by (simp add: ref_count_def epoch_key_distinct(1) [THEN not_sym])
  note keep = increment_keeps [OF kv_wf(1) [OF wf] r]
  have node: "kv_Get ?put (nodeKey h) = kv_Get db (nodeKey h)" if "length h = 32" for h
    using that by (simp add: epoch_key_distinct(2) [THEN not_sym])
  have "counts_below c ?put" using low(1) by (simp add: counts_below_def count)
  note inc = increment_count [OF this, where x = r]
  have "node_refs (incrementRef r ?put) h + epoch_refs (incrementRef r ?put) {} h
      \<le> unat (ref_count h (incrementRef r ?put))" if h: "length h = 32" for h
  proof -
    have "node_refs db h + epoch_refs db {} h \<le> unat (ref_count h db)"
      using inv(1) h by (fastforce simp: gc_inv_def refs_ok_def)
    moreover have "node_refs ?put h = node_refs db h" using wf by (simp add: node_refs_other)
    ultimately show ?thesis
      using epoch_refs_put [OF wf, of e r h] inc(1) [OF _ h] low(2) by (simp add: keep count split: if_splits)
  qed
  then have "gc_inv (incrementRef r ?put) {} []"
    using inv(1) keep node by (simp add: gc_inv_def refs_ok_def nodes_ok_def)
  moreover have "no_overlap ?put" using inv(2) by (auto simp: no_overlap_def kv_Has_get)
  moreover have "kv_Get (incrementRef r ?put) (rootKey f) = (if f = e then Some r else kv_Get db (rootKey f))" for f
    by (simp add: keep)
  ultimately show ?thesis
    using inv(3) r inc(2) low(2) keep node by (auto simp: save trie_store_ok_def roots_ok_def keeps_def)
qed

text \<open>Every state reached by storing nodes: the counters cannot overflow while few nodes were stored.\<close>

lemma trie_store_stored:
  assumes "stored_from H m m'" and "trie_store_ok (mpDb m)" and "hash_ok H"
    and "\<And>d. d \<in> logged m' \<Longrightarrow> no_root_hash (H d)"
    and "counts_below (k + 16 * length (mpLog m)) (mpDb m)" and "k + 16 * length (mpLog m') < 2 ^ 64"
  shows "trie_store_ok (mpDb m') \<and> counts_below (k + 16 * length (mpLog m')) (mpDb m')
    \<and> (\<forall>e. kv_Get (mpDb m') (rootKey e) = kv_Get (mpDb m) (rootKey e))"
  using assms(1,4,6)
proof (induction rule: stored_from.induct)
  case stored_none
  then show ?case using assms(2,5) by simp
next
  case (stored_next m1 n r m2)
  have log: "mpLog m2 = mpLog m1 @ [serialize n]"
    using stored_next.hyps(3) by (auto simp: storeNode_def Let_def split: if_splits sum.splits)
  have IH: "trie_store_ok (mpDb m1) \<and> counts_below (k + 16 * length (mpLog m1)) (mpDb m1)
      \<and> (\<forall>e. kv_Get (mpDb m1) (rootKey e) = kv_Get (mpDb m) (rootKey e))"
    using stored_next.IH stored_next.prems log by simp
  have "no_root_hash (H (serialize n))" using stored_next.prems(1) log by simp
  moreover have "k + 16 * length (mpLog m1) + 16 < 2 ^ 64" using stored_next.prems(2) log by simp
  ultimately have "trie_store_ok (mpDb m2) \<and> counts_below (k + 16 * length (mpLog m1) + 16) (mpDb m2)
      \<and> (\<forall>e. kv_Get (mpDb m2) (rootKey e) = kv_Get (mpDb m1) (rootKey e))"
    using trie_store_storeNode [OF _ stored_next.hyps(2,3) assms(3)] IH by blast
  then show ?case using IH log by (simp add: algebra_simps)
qed

subsection \<open>Witness\<close>

lemma trie_store_empty: "trie_store_ok []"
  by (simp add: trie_store_ok_def gc_inv_def refs_ok_def nodes_ok_def roots_ok_def no_overlap_def
      node_refs_def epoch_refs_def kv_Get_def kv_Has_def)

text \<open>Two epochs with the same leaf as their trie.\<close>

definition leaf_hash :: bytes where
  "leaf_hash = prefix_hash (serialize (LeafNode [1] [7]))"

definition two_epochs :: store where
  "two_epochs = SaveEpochRoot 2 leaf_hash (SaveEpochRoot 1 leaf_hash
     (mpDb (snd (storeNode prefix_hash (LeafNode [1] [7]) (NewMPT [])))))"

lemma two_epochs_ok: "trie_store_ok two_epochs"
proof -
  have n: "node_ok (LeafNode [1] [7])" by (simp add: node_ok_def)
  have root: "no_root_hash (prefix_hash (serialize (LeafNode [1] [7])))"
    by (simp add: no_root_hash_def prefix_hash_def bytes_of_str_def nodeTypeLeaf_def)
  have low: "counts_below 0 (mpDb (NewMPT []))"
    by (simp add: counts_below_def ref_count_def NewMPT_def kv_Get_def)
  obtain r m where m: "storeNode prefix_hash (LeafNode [1] [7]) (NewMPT []) = (r, m)" by force
  have "trie_store_ok (mpDb m) \<and> counts_below 16 (mpDb m)"
    using trie_store_storeNode [OF _ n m prefix_hash_ok root low] by (simp add: NewMPT_def trie_store_empty)
  moreover have len: "length leaf_hash = 32"
    using prefix_hash_ok by (simp add: leaf_hash_def hash_ok_def)
  ultimately show ?thesis
    unfolding two_epochs_def m snd_conv
    using trie_store_save [OF _ len, of "SaveEpochRoot 1 leaf_hash (mpDb m)" 17]
      trie_store_save [OF _ len, of "mpDb m" 16] by simp
qed

theorem gc_keeps_epochs_witness:
  "\<exists>n db'. GarbageCollect 2 two_epochs = (Inr n, db') \<and> trie_store_ok db'
    \<and> (\<forall>e. kv_Get db' (rootKey e) = (if e < 2 then None else kv_Get two_epochs (rootKey e)))
    \<and> (\<forall>e r M. 2 \<le> e \<longrightarrow> kv_Get two_epochs (rootKey e) = Some r \<longrightarrow> rep two_epochs r M \<longrightarrow> rep db' r M)"
  by (rule gc_keeps_epochs [OF two_epochs_ok])

end
