(* ===== verification/State_Manager.thy ===== *)
theory State_Manager
  imports Accounts MPT_GC Merkle
begin

text \<open>
  The state manager (\<open>state/state.go\<close>): accounts, supply and height over one key-value store, and the
  commit that brings the changed accounts into the trie. The store is shared with the trie, so it is
  the store of the \<open>mpt\<close> field. Every operation holds the lock from start to end and is one step.

  \<open>H\<close> is SHA-256. The changed accounts are a Go map: \<open>ord\<close> is the order in which an iteration
  visits them.
\<close>

record state_manager =
  smTotalSupply :: int
  smMaxSupply :: "int option"
  smBlockHeight :: u64
  smStateRoot :: "bytes option"
  smMpt :: mpt
  smDirty :: "bytes list"

abbreviation sm_db :: "state_manager \<Rightarrow> store" where "sm_db sm \<equiv> mpDb (smMpt sm)"

definition set_db :: "(store \<Rightarrow> store) \<Rightarrow> state_manager \<Rightarrow> state_manager" where
  "set_db f sm = sm\<lparr>smMpt := (smMpt sm)\<lparr>mpDb := f (sm_db sm)\<rparr>\<rparr>"

definition mark_dirty :: "bytes \<Rightarrow> state_manager \<Rightarrow> state_manager" where
  "mark_dirty address sm = sm\<lparr>smDirty := if address \<in> set (smDirty sm) then smDirty sm else smDirty sm @ [address]\<rparr>"

datatype state_error = StAccount account_error | StExists | StMaxSupply | StNoBurnAccount
  | StBurnBalance | StNotInitialized | StLoad | StTrie mpt_error | StUnsupported

definition account_result :: "account_error + 'a \<Rightarrow> state_error + 'a" where
  "account_result r = map_sum StAccount id r"

subsection \<open>The saved record\<close>

definition state_key :: bytes where "state_key = ascii ''__state__''"

definition enc_state :: "state_manager \<Rightarrow> bytes" where
  "enc_state sm = first_tag ''block_height'' @ enc_u64 (smBlockHeight sm)
     @ tag ''state_root'' @ enc_bytes (smStateRoot sm)
     @ tag ''total_supply'' @ enc_int (smTotalSupply sm) @ ascii ''}''"

definition dec_state :: "bytes \<Rightarrow> (u64 \<times> bytes option \<times> int) option" where
  "dec_state bs =
     Option.bind (field (first_tag ''block_height'') dec_u64 bs) (\<lambda>(height, bs).
     Option.bind (field (tag ''state_root'') dec_bytes bs) (\<lambda>(root, bs).
     Option.bind (field (tag ''total_supply'') dec_int bs) (\<lambda>(supply, bs).
       if bs = ascii ''}'' then Some (height, root, supply) else None)))"

definition saveState :: "state_manager \<Rightarrow> state_manager" where
  "saveState sm = set_db (kv_Put state_key (enc_state sm)) sm"

definition loadState :: "state_manager \<Rightarrow> state_error option \<times> state_manager" where
  "loadState sm = (case kv_Get (sm_db sm) state_key of
       None \<Rightarrow> (Some StNotInitialized, sm)
     | Some data \<Rightarrow> (case dec_state data of
         None \<Rightarrow> (Some StLoad, sm)
       | Some (height, root, supply) \<Rightarrow>
           (None, sm\<lparr>smBlockHeight := height, smStateRoot := root, smTotalSupply := supply\<rparr>)))"

definition NewStateManager :: "store \<Rightarrow> state_error + state_manager" where
  "NewStateManager db =
     (let sm = \<lparr>smTotalSupply = 0, smMaxSupply = None, smBlockHeight = 0, smStateRoot = None,
                smMpt = NewMPT db, smDirty = []\<rparr>
      in case loadState sm of
           (None, sm) \<Rightarrow> Inr sm
         | (Some StNotInitialized, sm) \<Rightarrow> Inr sm
         | (Some e, _) \<Rightarrow> Inl e)"

definition empty_state :: "(bytes \<Rightarrow> bytes) \<Rightarrow> bytes" where "empty_state H = H (ascii ''empty-state'')"

definition Initialize :: "(bytes \<Rightarrow> bytes) \<Rightarrow> int \<Rightarrow> state_manager \<Rightarrow> state_manager" where
  "Initialize H totalSupply sm =
     (if 0 < smBlockHeight sm \<or> 0 < smTotalSupply sm then sm
      else saveState (sm\<lparr>smTotalSupply := totalSupply, smBlockHeight := 0,
                         smStateRoot := Some (empty_state H)\<rparr>))"

subsection \<open>Accounts\<close>

definition GetAccount :: "bytes \<Rightarrow> state_manager \<Rightarrow> state_error + account" where
  "GetAccount address sm = account_result (as_GetAccount address (sm_db sm))"

definition SetAccount :: "account \<Rightarrow> state_manager \<Rightarrow> state_manager" where
  "SetAccount a sm = set_db (as_SetAccount a) (mark_dirty (acAddress a) sm)"

definition CreateAccount :: "bytes \<Rightarrow> byte \<Rightarrow> int \<Rightarrow> state_manager \<Rightarrow> (state_error + account) \<times> state_manager" where
  "CreateAccount address accountType initialBalance sm =
     (if as_HasAccount address (sm_db sm) then (Inl StExists, sm)
      else let a = (NewAccount address accountType)\<lparr>acBalance := initialBalance\<rparr>
        in (Inr a, mark_dirty address (set_db (as_SetAccount a) sm)))"

definition GetBalance :: "bytes \<Rightarrow> state_manager \<Rightarrow> state_error + int" where
  "GetBalance address sm = account_result (as_GetBalance address (sm_db sm))"

definition sm_GetTokenBalance :: "bytes \<Rightarrow> bytes \<Rightarrow> state_manager \<Rightarrow> state_error + int" where
  "sm_GetTokenBalance address token sm
     = account_result (map_sum id (account_GetTokenBalance token) (as_GetAccount address (sm_db sm)))"

definition sm_SetTokenBalance :: "bytes \<Rightarrow> bytes \<Rightarrow> int \<Rightarrow> state_manager \<Rightarrow> state_manager" where
  "sm_SetTokenBalance address token amount sm =
     (let acc = account_SetTokenBalance token amount (account_or_new address (sm_db sm))
      in set_db (as_SetAccount acc) (mark_dirty address sm))"

definition GetNonce :: "bytes \<Rightarrow> state_manager \<Rightarrow> state_error + u64" where
  "GetNonce address sm = account_result (as_GetNonce address (sm_db sm))"

text \<open>The account is not marked as changed.\<close>

definition IncrementNonce :: "bytes \<Rightarrow> state_manager \<Rightarrow> state_error option \<times> state_manager" where
  "IncrementNonce address sm = (case as_GetAccount address (sm_db sm) of
       Inl e \<Rightarrow> (Some (StAccount e), sm)
     | Inr a \<Rightarrow> (None, set_db (as_SetAccount (account_IncrementNonce a)) sm))"

text \<open>Both addresses are marked before the transfer is tried.\<close>

definition sm_Transfer :: "bytes \<Rightarrow> bytes \<Rightarrow> int \<Rightarrow> state_manager \<Rightarrow> state_error option \<times> state_manager" where
  "sm_Transfer src dest amount sm =
     (let sm = mark_dirty dest (mark_dirty src sm);
          r = as_Transfer src dest amount (sm_db sm)
      in (map_option StAccount (fst r), set_db (\<lambda>_. snd r) sm))"

definition GetCode :: "bytes \<Rightarrow> state_manager \<Rightarrow> state_error + bytes option" where
  "GetCode address sm = account_result (as_GetCode address (sm_db sm))"

definition SetCode :: "(bytes \<Rightarrow> bytes) \<Rightarrow> bytes \<Rightarrow> bytes option \<Rightarrow> state_manager
    \<Rightarrow> state_error option \<times> state_manager" where
  "SetCode H address code sm = (case as_GetAccount address (sm_db sm) of
       Inl e \<Rightarrow> (Some (StAccount e), sm)
     | Inr a \<Rightarrow> (None, set_db (as_SetAccount (a\<lparr>acCode := code,
           acCodeHash := Some (H (case code of None \<Rightarrow> [] | Some c \<Rightarrow> c)),
           acType := AccountTypeContract\<rparr>)) (mark_dirty address sm)))"

definition GetStorage :: "bytes \<Rightarrow> bytes \<Rightarrow> state_manager \<Rightarrow> state_error + bytes option" where
  "GetStorage address key sm = account_result (map_sum id
     (\<lambda>a. case goget (acStorage a) key of None \<Rightarrow> None | Some v \<Rightarrow> v) (as_GetAccount address (sm_db sm)))"

definition SetStorage :: "bytes \<Rightarrow> bytes \<Rightarrow> bytes option \<Rightarrow> state_manager
    \<Rightarrow> state_error option \<times> state_manager" where
  "SetStorage address key val sm = (case as_GetAccount address (sm_db sm) of
       Inl e \<Rightarrow> (Some (StAccount e), sm)
     | Inr a \<Rightarrow> (None, set_db (as_SetAccount (a\<lparr>acStorage := goput key val (acStorage a)\<rparr>))
                    (mark_dirty address sm)))"

subsection \<open>Supply\<close>

definition MintTokens :: "bytes \<Rightarrow> int \<Rightarrow> state_manager \<Rightarrow> state_error option \<times> state_manager" where
  "MintTokens address amount sm =
     (if (case smMaxSupply sm of None \<Rightarrow> False
          | Some cap \<Rightarrow> 0 < cap \<and> cap < smTotalSupply sm + amount)
      then (Some StMaxSupply, sm)
      else let acct = account_or_new address (sm_db sm);
               acct = acct\<lparr>acBalance := acBalance acct + amount\<rparr>;
               sm = sm\<lparr>smTotalSupply := smTotalSupply sm + amount\<rparr>
        in (None, set_db (as_SetAccount acct) (mark_dirty address sm)))"

definition BurnTokens :: "bytes \<Rightarrow> int \<Rightarrow> state_manager \<Rightarrow> state_error option \<times> state_manager" where
  "BurnTokens address amount sm = (case as_GetAccount address (sm_db sm) of
       Inl e \<Rightarrow> (Some StNoBurnAccount, sm)
     | Inr acct \<Rightarrow>
         (if acBalance acct < amount then (Some StBurnBalance, sm)
          else let acct = acct\<lparr>acBalance := acBalance acct - amount\<rparr>;
                   sm = sm\<lparr>smTotalSupply := smTotalSupply sm - amount\<rparr>
            in (None, set_db (as_SetAccount acct) (mark_dirty address sm))))"

definition SetMaxSupply :: "int \<Rightarrow> state_manager \<Rightarrow> state_manager" where
  "SetMaxSupply cap sm = sm\<lparr>smMaxSupply := Some cap\<rparr>"

subsection \<open>Commit\<close>

text \<open>
  The changed accounts go into the trie one by one; the errors of deletions are dropped, a panic is
  not. \<open>None\<close> is a trie operation that does not return.
\<close>

fun update_dirty :: "(bytes \<Rightarrow> bytes) \<Rightarrow> bytes list \<Rightarrow> mpt \<Rightarrow> ((mpt_error + unit) \<times> mpt) option" where
  "update_dirty H [] m = Some (Inr (), m)"
| "update_dirty H (addr # addrs) m = (case as_GetAccount addr (mpDb m) of
       Inl _ \<Rightarrow> Option.bind (mpt_Delete H addr m) (\<lambda>(r, m).
         if r = Inl MptPanic then Some (r, m) else update_dirty H addrs m)
     | Inr acc \<Rightarrow> Option.bind (mpt_Update H addr (Serialize acc) m) (\<lambda>(r, m).
         case r of Inl e \<Rightarrow> Some (Inl e, m) | Inr _ \<Rightarrow> update_dirty H addrs m))"

definition computeStateRootIncremental :: "(bytes \<Rightarrow> bytes) \<Rightarrow> bytes list \<Rightarrow> mpt
    \<Rightarrow> ((mpt_error + bytes) \<times> mpt) option" where
  "computeStateRootIncremental H addrs m = map_option (\<lambda>r. then_do r (\<lambda>_ m. (Inr (mpt_Root H m), m)))
     (update_dirty H addrs m)"

definition keepWindow :: u64 where "keepWindow = 10"

definition Commit :: "(bytes \<Rightarrow> bytes) \<Rightarrow> (bytes list \<Rightarrow> bytes list) \<Rightarrow> u64 \<Rightarrow> state_manager
    \<Rightarrow> (state_error option \<times> state_manager) option" where
  "Commit H ord blockHeight sm0 =
     (let sm = sm0\<lparr>smBlockHeight := blockHeight\<rparr>
      in map_option (\<lambda>(r, m). case r of
          Inl e \<Rightarrow> (Some (StTrie e), sm\<lparr>smMpt := m\<rparr>)
        | Inr root \<Rightarrow>
            let sm = sm\<lparr>smMpt := m, smStateRoot := Some root\<rparr>;
                sm = set_db (SaveEpochRoot blockHeight root) sm;
                gc = (if keepWindow < blockHeight then GarbageCollect (blockHeight - keepWindow) (sm_db sm)
                      else (Inr 0, sm_db sm));
                sm = set_db (\<lambda>_. snd gc) sm
            in case fst gc of
                 Inl e \<Rightarrow> (Some (StTrie e), sm)
               | Inr _ \<Rightarrow> (None, saveState (sm\<lparr>smDirty := []\<rparr>)))
        (computeStateRootIncremental H (ord (smDirty sm)) (smMpt sm)))"

definition computeStateRoot :: "(bytes \<Rightarrow> bytes) \<Rightarrow> state_manager \<Rightarrow> bytes" where
  "computeStateRoot H sm = (case AllAccounts (sm_db sm) of (bad, accounts) \<Rightarrow>
     if bad \<or> length accounts = 0 then empty_state H
     else case mtRootHash (NewMerkleTree H (map Serialize accounts)) of
            None \<Rightarrow> empty_state H | Some r \<Rightarrow> r)"

record state_snapshot =
  snBlockHeight :: u64
  snStateRoot :: "bytes option"
  snTotalSupply :: int
  snNumAccounts :: int

definition Snapshot :: "state_manager \<Rightarrow> state_snapshot" where
  "Snapshot sm = \<lparr>snBlockHeight = smBlockHeight sm, snStateRoot = smStateRoot sm,
     snTotalSupply = smTotalSupply sm, snNumAccounts = int (length (snd (AllAccounts (sm_db sm))))\<rparr>"

text \<open>The light client's pruning: it counts the accounts and deletes none of them.\<close>

definition DeleteBefore :: "(bytes \<Rightarrow> bytes) \<Rightarrow> u64 \<Rightarrow> state_manager \<Rightarrow> (state_error + u64) \<times> state_manager" where
  "DeleteBefore H epoch sm = (case AllAccounts (sm_db sm) of (bad, accounts) \<Rightarrow>
     if bad then (Inl (StAccount AcCorrupt), sm)
     else (Inr (of_nat (length accounts)),
           saveState (sm\<lparr>smMpt := (NewMPT (sm_db sm))\<lparr>mpLog := mpLog (smMpt sm)\<rparr>, smDirty := [],
             smBlockHeight := 0, smStateRoot := Some (empty_state H)\<rparr>)))"

definition Prove :: "bytes \<Rightarrow> state_manager \<Rightarrow> state_error + bytes list" where
  "Prove key sm = Inl StUnsupported"

definition sm_Close :: "state_manager \<Rightarrow> state_manager" where
  "sm_Close sm = set_db kv_Close sm"

definition IsInitialized :: "state_manager \<Rightarrow> bool" where
  "IsInitialized sm \<longleftrightarrow> 0 < smBlockHeight sm \<or> 0 < smTotalSupply sm"

definition sm_GarbageCollect :: "u64 \<Rightarrow> state_manager \<Rightarrow> (mpt_error + u64) \<times> state_manager" where
  "sm_GarbageCollect beforeEpoch sm = (let gc = GarbageCollect beforeEpoch (sm_db sm)
     in (fst gc, set_db (\<lambda>_. snd gc) sm))"

end
