(* ===== verification/State_Commit.thy ===== *)
theory State_Commit
  imports State_Manager
begin

text \<open>
  What the state manager guarantees: an account table with well-formed entries, a supply that
  explains the balances, storage cells that survive the JSON text, and a commit that makes the trie
  equal to the account table.
\<close>

subsection \<open>The account table\<close>

definition table_ok :: "store \<Rightarrow> bool" where
  "table_ok db \<longleftrightarrow> (\<forall>x d. kv_Get db (accountKey x) = Some d \<longrightarrow> (\<exists>a. d = Serialize a \<and> acAddress a = x))"

text \<open>Two stores with the same entries have the same table.\<close>

definition entries :: "store \<Rightarrow> bytes \<Rightarrow> bytes option" where
  "entries db = (\<lambda>x. kv_Get db (accountKey x))"

lemma entries_get: "entries db' = entries db \<Longrightarrow> as_GetAccount x db' = as_GetAccount x db"
  by (simp add: entries_def as_GetAccount_def fun_eq_iff)

lemma entries_table: "entries db' = entries db \<Longrightarrow> table_ok db' = table_ok db"
  by (simp add: entries_def table_ok_def fun_eq_iff)

lemma account_not_trie [simp]: "take 4 (accountKey x) \<noteq> bytes_of_str ''mpt:''"
  by (simp add: accountKey_def accountKeyPrefix_def bytes_of_str_def)

lemma state_key_other [simp]:
  "accountKey x \<noteq> state_key" "state_key \<noteq> accountKey x" "take 4 state_key \<noteq> bytes_of_str ''mpt:''"
  by (simp_all add: state_key_def accountKey_def accountKeyPrefix_def bytes_of_str_def)

lemma table_set: "table_ok db \<Longrightarrow> table_ok (as_SetAccount a db)"
  by (auto simp: table_ok_def as_SetAccount_def)

lemma table_get:
  assumes "table_ok db" and "as_GetAccount x db = Inr a"
  obtains b where "a = stored b" and "acAddress b = x"
  using assms deserialize_serialize
  by (fastforce simp: as_GetAccount_def table_ok_def split: option.splits)

lemma table_get_error: "table_ok db \<Longrightarrow> as_GetAccount x db = Inl e \<Longrightarrow> e = AcNotFound \<and> kv_Get db (accountKey x) = None"
  using deserialize_serialize by (fastforce simp: as_GetAccount_def table_ok_def split: option.splits)

subsection \<open>Storage cells\<close>

text \<open>
  C15 (storage_needs_utf8): A storage cell that is written and read back keeps its value exactly when
  its key is UTF-8 text; under any other key the value cannot be read any more.
\<close>

theorem storage_needs_utf8:
  assumes "table_ok (sm_db sm)" and "GetAccount address sm = Inr acc"
  shows "GetStorage address key (snd (SetStorage address key v sm)) = Inr (if utf8 key then v else None)"
proof -
  have get: "as_GetAccount address (sm_db sm) = Inr acc"
    using assms(2) by (cases "as_GetAccount address (sm_db sm)") (auto simp: GetAccount_def account_result_def)
  obtain b where b: "acc = stored b" "acAddress b = address" by (rule table_get [OF assms(1) get])
  have keys: "\<forall>k \<in> fst ` set (norm_map (\<lambda>v. v) (acStorage b)). utf8 k"
  proof
    fix k assume "k \<in> fst ` set (norm_map (\<lambda>v. v) (acStorage b))"
    then have "goget (norm_map (\<lambda>v. v) (acStorage b)) k \<noteq> None" by (simp add: map_of_eq_None_iff)
    then show "utf8 k" using norm_map_not_utf8 by metis
  qed
  let ?m = "goput key v (norm_map (\<lambda>v. v) (acStorage b))"
  have "GetStorage address key (snd (SetStorage address key v sm))
      = Inr (case goget (norm_map (\<lambda>v. v) ?m) key of None \<Rightarrow> None | Some v \<Rightarrow> v)"
    using get b by (simp add: SetStorage_def GetStorage_def account_result_def set_db_def mark_dirty_def get_set_account)
  also have "goget (norm_map (\<lambda>v. v) ?m) key = (if utf8 key then Some v else None)"
  proof (cases "utf8 key")
    case True
    then have "\<forall>k \<in> fst ` set ?m. utf8 k" using keys set_goput_subset by fastforce
    then show ?thesis using True norm_map_utf8 [of ?m] by simp
  qed (simp add: norm_map_not_utf8)
  finally show ?thesis by simp
qed

subsection \<open>Balances and supply\<close>

definition balance_at :: "store \<Rightarrow> bytes \<Rightarrow> int" where
  "balance_at db x = (case as_GetAccount x db of Inl _ \<Rightarrow> 0 | Inr a \<Rightarrow> acBalance a)"

definition addresses :: "store \<Rightarrow> bytes set" where
  "addresses db = {x. kv_Get db (accountKey x) \<noteq> None}"

definition holdings :: "store \<Rightarrow> int" where
  "holdings db = (\<Sum>x \<in> addresses db. balance_at db x)"

lemma finite_addresses [simp]: "finite (addresses db)"
proof -
  have "x \<in> tl ` fst ` set db" if "kv_Get db (accountKey x) \<noteq> None" for x
  proof -
    have "accountKey x \<in> fst ` set db" using that by (simp add: kv_Get_def map_of_eq_None_iff)
    then show ?thesis by (rule rev_image_eqI) (simp add: accountKey_def accountKeyPrefix_def)
  qed
  then have "addresses db \<subseteq> tl ` fst ` set db" by (auto simp: addresses_def)
  then show ?thesis by (rule finite_subset) simp
qed

lemma holdings_over:
  assumes "finite S" and "addresses db \<subseteq> S"
  shows "holdings db = (\<Sum>x \<in> S. balance_at db x)"
  unfolding holdings_def
proof (rule sum.mono_neutral_left [OF assms])
  show "\<forall>x \<in> S - addresses db. balance_at db x = 0"
    by (simp add: addresses_def balance_at_def as_GetAccount_def)
qed

lemma entries_holdings:
  assumes "entries db' = entries db"
  shows "holdings db' = holdings db"
proof -
  have "addresses db' = addresses db" using assms by (simp add: addresses_def entries_def fun_eq_iff)
  moreover have "balance_at db' = balance_at db"
    using entries_get [OF assms] by (simp add: balance_at_def fun_eq_iff)
  ultimately show ?thesis by (simp add: holdings_def)
qed

text \<open>Writing one entry changes the sum by the difference of its balances.\<close>

lemma holdings_write:
  "holdings (kv_Put (accountKey x) (Serialize a) db) = holdings db - balance_at db x + acBalance a"
proof -
  let ?db = "kv_Put (accountKey x) (Serialize a) db"
  let ?S = "insert x (addresses db)"
  have bal: "balance_at ?db y = (if y = x then acBalance a else balance_at db y)" for y
    using deserialize_serialize [of a] by (simp add: balance_at_def as_GetAccount_def)
  have "holdings ?db = (\<Sum>y \<in> ?S. balance_at ?db y)"
    by (rule holdings_over) (simp, auto simp: addresses_def)
  also have "\<dots> = acBalance a + (\<Sum>y \<in> ?S - {x}. balance_at db y)"
    by (subst sum.remove [of _ x]) (simp_all add: bal)
  finally have "holdings ?db = acBalance a + (\<Sum>y \<in> ?S - {x}. balance_at db y)" .
  moreover have "holdings db = (\<Sum>y \<in> ?S. balance_at db y)" by (rule holdings_over) auto
  moreover have "\<dots> = balance_at db x + (\<Sum>y \<in> ?S - {x}. balance_at db y)"
    by (rule sum.remove) simp_all
  ultimately show ?thesis by simp
qed

lemma holdings_set: "holdings (as_SetAccount a db) = holdings db - balance_at db (acAddress a) + acBalance a"
  unfolding as_SetAccount_def by (rule holdings_write)

lemma balance_or_new: "acBalance (account_or_new x db) = balance_at db x"
  by (simp add: account_or_new_def balance_at_def split: sum.split)

lemma address_or_new: "table_ok db \<Longrightarrow> acAddress (account_or_new x db) = x"
  by (auto simp: account_or_new_def split: sum.split elim: table_get)

lemma holdings_transfer:
  assumes "as_Transfer src dest amount db = (r, db')"
  shows "holdings db' = holdings db + (if src = dest \<and> r = None then amount else 0)"
proof (cases r)
  case (Some e)
  then have "db' = db" using assms
    by (auto simp: as_Transfer_def Let_def split: sum.splits option.splits prod.splits)
  then show ?thesis using Some by simp
next
  case None
  then obtain a where a: "as_GetAccount src db = Inr a" and sub: "account_Transfer amount a = (None, a\<lparr>acBalance := acBalance a - amount\<rparr>)"
    and db': "db' = kv_Put (accountKey dest) (Serialize (Deposit amount (account_or_new dest db)))
      (kv_Put (accountKey src) (Serialize (a\<lparr>acBalance := acBalance a - amount\<rparr>)) db)"
    using assms by (auto simp: as_Transfer_def Let_def account_Transfer_def batch_Put_def batch_Write_def
        apply_op_def kv_Put_def split: sum.splits option.splits prod.splits if_splits)
  let ?sent = "kv_Put (accountKey src) (Serialize (a\<lparr>acBalance := acBalance a - amount\<rparr>)) db"
  have src: "balance_at db src = acBalance a" using a by (simp add: balance_at_def)
  have "balance_at ?sent dest = (if dest = src then acBalance a - amount else balance_at db dest)"
    using deserialize_serialize [of "a\<lparr>acBalance := acBalance a - amount\<rparr>"]
    by (auto simp: balance_at_def as_GetAccount_def)
  then show ?thesis using None src
    by (auto simp: db' holdings_write Deposit_def balance_or_new)
qed

lemma table_transfer:
  assumes "table_ok db" and "as_Transfer src dest amount db = (r, db')"
  shows "table_ok db'"
proof (cases r)
  case (Some e)
  then have "db' = db" using assms(2)
    by (auto simp: as_Transfer_def Let_def split: sum.splits option.splits prod.splits)
  then show ?thesis using assms(1) by simp
next
  case None
  then obtain a where a: "as_GetAccount src db = Inr a"
    and db': "db' = kv_Put (accountKey dest) (Serialize (Deposit amount (account_or_new dest db)))
      (kv_Put (accountKey src) (Serialize (a\<lparr>acBalance := acBalance a - amount\<rparr>)) db)"
    using assms(2) by (auto simp: as_Transfer_def Let_def account_Transfer_def batch_Put_def batch_Write_def
        apply_op_def kv_Put_def split: sum.splits option.splits prod.splits if_splits)
  obtain b where "a = stored b" "acAddress b = src" by (rule table_get [OF assms(1) a])
  then have "acAddress a = src" by simp
  then have "\<exists>b. Serialize (a\<lparr>acBalance := acBalance a - amount\<rparr>) = Serialize b \<and> acAddress b = src"
    by (intro exI [of _ "a\<lparr>acBalance := acBalance a - amount\<rparr>"]) simp
  moreover have "\<exists>b. Serialize (Deposit amount (account_or_new dest db)) = Serialize b \<and> acAddress b = dest"
    using address_or_new [OF assms(1), of dest]
    by (intro exI [of _ "Deposit amount (account_or_new dest db)"]) (simp add: Deposit_def)
  ultimately show ?thesis using assms(1) by (auto simp: table_ok_def db')
qed

subsection \<open>Writes outside the account table\<close>

lemma trie_prefixes: "take 4 (rootKey e) = bytes_of_str ''mpt:''" "take 4 root_prefix = bytes_of_str ''mpt:''"
  by (simp_all add: rootKey_def root_prefix_def bytes_of_str_def)

lemma entries_other:
  assumes "take 4 k = bytes_of_str ''mpt:'' \<or> k = state_key"
  shows "entries (kv_Put k v db) = entries db" and "entries (kv_Delete k db) = entries db"
proof -
  have "accountKey x \<noteq> k" for x using assms account_not_trie [of x] by auto
  then show "entries (kv_Put k v db) = entries db" and "entries (kv_Delete k db) = entries db"
    by (simp_all add: entries_def fun_eq_iff)
qed

lemma entries_writes [simp]:
  "entries (kv_Put (nodeKey h) v db) = entries db" "entries (kv_Delete (nodeKey h) db) = entries db"
  "entries (kv_Put (refKey h) v db) = entries db" "entries (kv_Delete (refKey h) db) = entries db"
  "entries (kv_Put (rootKey e) v db) = entries db" "entries (kv_Put state_key v db) = entries db"
  by (simp_all add: entries_other trie_keys trie_prefixes)

lemma entries_extends: "extends m m' \<Longrightarrow> entries (mpDb m') = entries (mpDb m)"
  by (simp add: extends_def entries_def)

lemma mpt_run_extends: "mpt_run H op m = Some (r, m') \<Longrightarrow> extends m m'"
  using mpt_step_log [of m H op] by (simp add: mpt_step_def)

lemma entries_save [simp]: "entries (SaveEpochRoot e r db) = entries db"
  by (simp add: SaveEpochRoot_def incrementRef_def)

lemma entries_decrement [simp]: "entries (snd (decrement_loop hs db)) = entries db"
proof (induction hs db rule: decrement_loop.induct)
  case (2 hash todo db)
  then show ?case by (simp add: Let_def split: option.split sum.split)
qed simp

lemma entries_prune:
  "\<forall>(k, r) \<in> set items. take 4 k = bytes_of_str ''mpt:'' \<Longrightarrow> entries (snd (prune_loop items n db)) = entries db"
proof (induction items arbitrary: n db)
  case (Cons item items)
  obtain k r where item: "item = (k, r)" by (cases item)
  obtain a db1 where dec: "decrementRef r db = (a, db1)" by force
  have "entries db1 = entries db" using entries_decrement [of "[r]" db] dec by (simp add: decrementRef_def)
  moreover have "take 4 k = bytes_of_str ''mpt:''" using Cons.prems by (simp add: item)
  ultimately show ?case using Cons.IH Cons.prems
    by (cases a) (simp_all add: item dec entries_other)
qed simp

lemma entries_gc [simp]: "entries (snd (GarbageCollect bound db)) = entries db"
proof -
  have "take 4 k = bytes_of_str ''mpt:''" if "take 9 k = root_prefix" for k
  proof -
    have "take 4 k = take 4 (take 9 k)" by simp
    then show ?thesis using that trie_prefixes(2) by simp
  qed
  then show ?thesis
    unfolding GarbageCollect_def
    by (intro entries_prune) (auto simp: to_prune_def keysWithPrefix_def)
qed

lemma update_dirty_extends: "update_dirty H addrs m = Some (r, m') \<Longrightarrow> extends m m'"
proof (induction addrs arbitrary: m)
  case (Cons a addrs)
  have del: "extends m m1" if "mpt_Delete H a m = Some (x, m1)" for x m1
    using mpt_run_extends [of H "MptDelete a"] that by simp
  have upd: "extends m m1" if "mpt_Update H a v m = Some (x, m1)" for v x m1
    using mpt_run_extends [of H "MptUpdate a v"] that by simp
  show ?case
  proof (cases "as_GetAccount a (mpDb m)")
    case (Inl e)
    with Cons.prems obtain x m1 where run: "mpt_Delete H a m = Some (x, m1)"
        "if x = Inl MptPanic then (x, m1) = (r, m') else update_dirty H addrs m1 = Some (r, m')"
      by (auto simp: bind_eq_Some_conv split: if_splits)
    then show ?thesis using Cons.IH [of m1] del [OF run(1)] by (auto split: if_splits intro: extends_trans)
  next
    case (Inr acc)
    with Cons.prems obtain x m1 where run: "mpt_Update H a (Serialize acc) m = Some (x, m1)"
        "case x of Inl e \<Rightarrow> (Inl e, m1) = (r, m') | Inr _ \<Rightarrow> update_dirty H addrs m1 = Some (r, m')"
      by (cases "mpt_Update H a (Serialize acc) m"; cases "fst (the (mpt_Update H a (Serialize acc) m))") auto
    then show ?thesis using Cons.IH [of m1] upd [OF run(1)] by (auto split: sum.splits intro: extends_trans)
  qed
qed simp

lemma set_db_simps [simp]:
  "sm_db (set_db f sm) = f (sm_db sm)" "smTotalSupply (set_db f sm) = smTotalSupply sm"
  "smDirty (set_db f sm) = smDirty sm" "smBlockHeight (set_db f sm) = smBlockHeight sm"
  "mpRoot (smMpt (set_db f sm)) = mpRoot (smMpt sm)" "mpLog (smMpt (set_db f sm)) = mpLog (smMpt sm)"
  "smMaxSupply (set_db f sm) = smMaxSupply sm"
  by (simp_all add: set_db_def)

lemma commit_entries:
  assumes "Commit H ord h sm = Some (r, sm')"
  shows "entries (sm_db sm') = entries (sm_db sm)" and "smTotalSupply sm' = smTotalSupply sm"
proof -
  obtain r1 m where upd: "update_dirty H (ord (smDirty sm)) (smMpt sm) = Some (r1, m)"
    using assms by (cases "update_dirty H (ord (smDirty sm)) (smMpt sm)")
      (auto simp: Commit_def computeStateRootIncremental_def Let_def)
  have "entries (sm_db sm') = entries (mpDb m) \<and> smTotalSupply sm' = smTotalSupply sm"
    using assms upd by (cases r1)
      (auto simp: Commit_def computeStateRootIncremental_def Let_def saveState_def split: sum.splits if_splits)
  with entries_extends [OF update_dirty_extends [OF upd]]
  show "entries (sm_db sm') = entries (sm_db sm)" and "smTotalSupply sm' = smTotalSupply sm" by simp_all
qed

subsection \<open>Histories\<close>

datatype sm_op = SmInit int | SmSetAccount account | SmCreate bytes byte int | SmSetToken bytes bytes int
  | SmNonce bytes | SmTransfer bytes bytes int | SmSetCode bytes "bytes option"
  | SmSetStorage bytes bytes "bytes option" | SmMint bytes int | SmBurn bytes int | SmSetMax int
  | SmCommit u64 | SmGC u64 | SmDeleteBefore u64

fun sm_step :: "(bytes \<Rightarrow> bytes) \<Rightarrow> (bytes list \<Rightarrow> bytes list) \<Rightarrow> state_manager \<Rightarrow> sm_op \<Rightarrow> state_manager" where
  "sm_step H ord sm (SmInit n) = Initialize H n sm"
| "sm_step H ord sm (SmSetAccount a) = SetAccount a sm"
| "sm_step H ord sm (SmCreate x t b) = snd (CreateAccount x t b sm)"
| "sm_step H ord sm (SmSetToken x tok b) = sm_SetTokenBalance x tok b sm"
| "sm_step H ord sm (SmNonce x) = snd (IncrementNonce x sm)"
| "sm_step H ord sm (SmTransfer x y n) = snd (sm_Transfer x y n sm)"
| "sm_step H ord sm (SmSetCode x c) = snd (SetCode H x c sm)"
| "sm_step H ord sm (SmSetStorage x k v) = snd (SetStorage x k v sm)"
| "sm_step H ord sm (SmMint x n) = snd (MintTokens x n sm)"
| "sm_step H ord sm (SmBurn x n) = snd (BurnTokens x n sm)"
| "sm_step H ord sm (SmSetMax n) = SetMaxSupply n sm"
| "sm_step H ord sm (SmCommit h) = (case Commit H ord h sm of None \<Rightarrow> sm | Some r \<Rightarrow> snd r)"
| "sm_step H ord sm (SmGC b) = snd (sm_GarbageCollect b sm)"
| "sm_step H ord sm (SmDeleteBefore e) = snd (DeleteBefore H e sm)"

text \<open>What a step adds to the balances that is not in the supply.\<close>

fun granted :: "state_manager \<Rightarrow> sm_op \<Rightarrow> int" where
  "granted sm (SmInit n) = (if IsInitialized sm then 0 else smTotalSupply sm - n)"
| "granted sm (SmSetAccount a) = acBalance a - balance_at (sm_db sm) (acAddress a)"
| "granted sm (SmCreate x t b) = (if as_HasAccount x (sm_db sm) then 0 else b)"
| "granted sm (SmSetToken x tok b) = (if tok = [] then b - balance_at (sm_db sm) x else 0)"
| "granted sm (SmTransfer x y n) = (if x = y \<and> fst (sm_Transfer x y n sm) = None then n else 0)"
| "granted sm _ = 0"

fun granted_along :: "(bytes \<Rightarrow> bytes) \<Rightarrow> (bytes list \<Rightarrow> bytes list) \<Rightarrow> state_manager \<Rightarrow> sm_op list \<Rightarrow> int" where
  "granted_along H ord sm [] = 0"
| "granted_along H ord sm (op # ops) = granted sm op + granted_along H ord (sm_step H ord sm op) ops"

lemma mark_dirty_simps [simp]:
  "smMpt (mark_dirty x sm) = smMpt sm" "smTotalSupply (mark_dirty x sm) = smTotalSupply sm"
  "set (smDirty (mark_dirty x sm)) = insert x (set (smDirty sm))" "smBlockHeight (mark_dirty x sm) = smBlockHeight sm"
  by (auto simp: mark_dirty_def)

lemma saveState_simps [simp]:
  "entries (sm_db (saveState sm)) = entries (sm_db sm)" "smTotalSupply (saveState sm) = smTotalSupply sm"
  "smDirty (saveState sm) = smDirty sm"
  by (simp_all add: saveState_def)

lemma transfer_result:
  "fst (sm_Transfer x y n sm) = map_option StAccount (fst (as_Transfer x y n (sm_db sm)))"
  "sm_db (snd (sm_Transfer x y n sm)) = snd (as_Transfer x y n (sm_db sm))"
  "smTotalSupply (snd (sm_Transfer x y n sm)) = smTotalSupply sm"
  by (simp_all add: sm_Transfer_def Let_def)

lemma loaded_address: "table_ok db \<Longrightarrow> as_GetAccount x db = Inr a \<Longrightarrow> acAddress a = x"
  by (auto elim: table_get)

lemma loaded_balance: "as_GetAccount x db = Inr a \<Longrightarrow> balance_at db x = acBalance a"
  by (simp add: balance_at_def)

lemma absent_balance: "\<not> as_HasAccount x db \<Longrightarrow> balance_at db x = 0"
  by (simp add: as_HasAccount_def balance_at_def as_GetAccount_def kv_Has_def kv_Get_def)

lemma sm_step_table:
  assumes "table_ok (sm_db sm)"
  shows "table_ok (sm_db (sm_step H ord sm op))"
proof (cases op)
  case (SmTransfer x y n)
  obtain r db where "as_Transfer x y n (sm_db sm) = (r, db)" by force
  then show ?thesis using table_transfer [OF assms] by (simp add: SmTransfer transfer_result)
next
  case (SmCommit h)
  show ?thesis
  proof (cases "Commit H ord h sm")
    case (Some r)
    then have "Commit H ord h sm = Some (fst r, snd r)" by simp
    from entries_table [OF commit_entries(1) [OF this]] Some assms show ?thesis by (simp add: SmCommit)
  qed (simp add: SmCommit assms)
next
  case (SmGC b)
  then show ?thesis using entries_table [OF entries_gc, of b "sm_db sm"] assms
    by (simp add: sm_GarbageCollect_def Let_def)
next
  case (SmDeleteBefore e)
  then show ?thesis using assms
    by (auto simp: DeleteBefore_def NewMPT_def entries_table [OF saveState_simps(1)] split: prod.split)
next
  case (SmInit n)
  then show ?thesis using assms by (simp add: Initialize_def entries_table [OF saveState_simps(1)])
qed (use assms in \<open>auto simp: SetAccount_def CreateAccount_def sm_SetTokenBalance_def IncrementNonce_def
    SetCode_def SetStorage_def MintTokens_def BurnTokens_def SetMaxSupply_def Let_def
    intro: table_set split: sum.split option.split\<close>)

lemma sm_step_supply:
  assumes "table_ok (sm_db sm)"
  shows "holdings (sm_db (sm_step H ord sm op)) - smTotalSupply (sm_step H ord sm op)
    = holdings (sm_db sm) - smTotalSupply sm + granted sm op"
proof (cases op)
  case (SmTransfer x y n)
  obtain r db where "as_Transfer x y n (sm_db sm) = (r, db)" by force
  then show ?thesis using holdings_transfer by (auto simp: SmTransfer transfer_result)
next
  case (SmCommit h)
  show ?thesis
  proof (cases "Commit H ord h sm")
    case (Some r)
    then have run: "Commit H ord h sm = Some (fst r, snd r)" by simp
    from entries_holdings [OF commit_entries(1) [OF run]] commit_entries(2) [OF run] Some
    show ?thesis by (simp add: SmCommit)
  qed (simp add: SmCommit)
next
  case (SmGC b)
  then show ?thesis using entries_holdings [OF entries_gc, of b "sm_db sm"]
    by (simp add: sm_GarbageCollect_def Let_def)
next
  case (SmDeleteBefore e)
  then show ?thesis
    by (auto simp: DeleteBefore_def NewMPT_def entries_holdings [OF saveState_simps(1)] split: prod.split)
next
  case (SmInit n)
  then show ?thesis by (simp add: Initialize_def IsInitialized_def entries_holdings [OF saveState_simps(1)])
next
  case (SmSetToken x tok b)
  then show ?thesis using address_or_new [OF assms, of x] balance_or_new [of x "sm_db sm"]
    by (simp add: sm_SetTokenBalance_def Let_def holdings_set account_SetTokenBalance_def)
next
  case (SmMint x n)
  then show ?thesis using address_or_new [OF assms, of x] balance_or_new [of x "sm_db sm"]
    by (simp add: MintTokens_def Let_def holdings_set)
qed (auto simp: SetAccount_def CreateAccount_def IncrementNonce_def SetCode_def SetStorage_def
    BurnTokens_def SetMaxSupply_def Let_def holdings_set loaded_address [OF assms] loaded_balance
    absent_balance account_IncrementNonce_def split: sum.split)

text \<open>
  C12 (supply_explained): Over any history of operations the difference between the sum of all
  balances and the recorded supply changes only by what accounts were given outside the supply:
  directly set balances, accounts created with a balance, the first initialisation, and transfers of
  an account to itself, which create their amount. Minting, burning, transfers between accounts,
  nonces, code, storage, commits and collections leave it unchanged.
\<close>

theorem supply_explained:
  assumes "table_ok (sm_db sm)"
  shows "holdings (sm_db (foldl (sm_step H ord) sm ops)) - smTotalSupply (foldl (sm_step H ord) sm ops)
    = holdings (sm_db sm) - smTotalSupply sm + granted_along H ord sm ops"
  using assms
proof (induction ops arbitrary: sm)
  case (Cons op ops)
  from Cons.IH [OF sm_step_table [OF Cons.prems]] sm_step_supply [OF Cons.prems] show ?case by simp
qed simp

subsection \<open>The trie after a commit\<close>

definition table_entry :: "store \<Rightarrow> bytes \<Rightarrow> bytes option" where
  "table_entry db x = (case as_GetAccount x db of Inl _ \<Rightarrow> None | Inr a \<Rightarrow> Some (Serialize a))"

definition entry_op :: "store \<Rightarrow> bytes \<Rightarrow> mpt_op" where
  "entry_op db x = (case table_entry db x of None \<Rightarrow> MptDelete x | Some d \<Rightarrow> MptUpdate x d)"

text \<open>
  \<open>covers_accounts H n sm A\<close>: the trie is sound and holds the map \<open>A\<close>, which agrees with the account
  table wherever no account is marked; \<open>n\<close> bounds the commits so far.
\<close>

definition covers_accounts :: "(bytes \<Rightarrow> bytes) \<Rightarrow> nat \<Rightarrow> state_manager \<Rightarrow> (bytes \<rightharpoonup> bytes) \<Rightarrow> bool" where
  "covers_accounts H n sm A \<longleftrightarrow> mpt_rep H (smMpt sm) A \<and> trie_store_ok (sm_db sm)
     \<and> counts_below (16 * length (mpLog (smMpt sm)) + n) (sm_db sm)
     \<and> (\<forall>x. x \<notin> set (smDirty sm) \<longrightarrow> A x = table_entry (sm_db sm) x)"

lemma entries_entry: "entries db' = entries db \<Longrightarrow> table_entry db' = table_entry db"
  by (rule ext) (simp add: table_entry_def entries_get [of db' db])

lemma foldl_entries:
  "foldl map_step A (map (entry_op db) xs) x = (if x \<in> set xs then table_entry db x else A x)"
proof (induction xs rule: rev_induct)
  case (snoc y xs)
  have "map_step B (entry_op db y) x = (if x = y then table_entry db y else B x)" for B
    by (auto simp: entry_op_def table_entry_def split: sum.split)
  then show ?case using snoc by auto
qed simp

lemma mpt_steps_log: "logged m \<subseteq> logged (foldl (mpt_step H) m ops)"
proof (induction ops arbitrary: m)
  case (Cons op ops)
  show ?case using extends_logged [OF mpt_step_log [of m H op]] Cons [of "mpt_step H m op"] by simp
qed simp

lemma stored_from_extends: "stored_from H m m' \<Longrightarrow> extends m m'"
proof (induction rule: stored_from.induct)
  case (stored_next m1 n r m2)
  then show ?case using extends_store [of m1 H n] by (auto intro: extends_trans)
qed simp

lemma mpt_steps_length: "length (mpLog m) \<le> length (mpLog (foldl (mpt_step H) m ops))"
proof (induction ops arbitrary: m)
  case (Cons op ops)
  have "length (mpLog m) \<le> length (mpLog (mpt_step H m op))"
    using mpt_step_log [of m H op] by (simp add: extends_def)
  then show ?case using Cons [of "mpt_step H m op"] by simp
qed simp

text \<open>What a commit needs of the hash and the sizes: \<open>D\<close> is what will have been stored.\<close>

definition hash_safe :: "(bytes \<Rightarrow> bytes) \<Rightarrow> bytes set \<Rightarrow> bool" where
  "hash_safe H D \<longleftrightarrow> separates H D \<and> (\<forall>d \<in> D. no_root_hash (H d))"

lemma trie_store_stores:
  assumes "stores H m m'" and "trie_store_ok (mpDb m)" and H: "hash_safe H D" and D: "logged m' \<subseteq> D"
    and "counts_below (16 * length (mpLog m) + n) (mpDb m)" and "16 * length (mpLog m') + n < 2 ^ 64"
  shows "trie_store_ok (mpDb m') \<and> counts_below (16 * length (mpLog m') + n) (mpDb m')"
proof -
  obtain m1 where m1: "stored_from H m m1" "mpDb m' = mpDb m1" "mpLog m' = mpLog m1"
    using assms(1) by (auto simp: stores_def)
  have root: "no_root_hash (H d)" if "d \<in> logged m1" for d
    using H D m1(3) that by (auto simp: hash_safe_def)
  have "hash_ok H" using H by (simp add: hash_safe_def separates_def)
  moreover have "counts_below (n + 16 * length (mpLog m)) (mpDb m)" "n + 16 * length (mpLog m1) < 2 ^ 64"
    using assms(5,6) m1(3) by (simp_all add: add.commute)
  ultimately show ?thesis
    using trie_store_stored [OF m1(1) assms(2) _ root] m1 by (simp add: add.commute)
qed

lemma update_dirty_runs:
  assumes H: "hash_safe H D" and "mpt_rep H m A" and "entries (mpDb m) = entries db"
    and "list_all op_fits (map (entry_op db) xs)"
    and "trie_store_ok (mpDb m)" and "counts_below (16 * length (mpLog m) + n) (mpDb m)"
    and "logged (foldl (mpt_step H) m (map (entry_op db) xs)) \<subseteq> D"
    and "16 * length (mpLog (foldl (mpt_step H) m (map (entry_op db) xs))) + n < 2 ^ 64"
  shows "\<exists>m'. update_dirty H xs m = Some (Inr (), m') \<and> m' = foldl (mpt_step H) m (map (entry_op db) xs)
    \<and> mpt_rep H m' (foldl map_step A (map (entry_op db) xs)) \<and> trie_store_ok (mpDb m')
    \<and> counts_below (16 * length (mpLog m') + n) (mpDb m') \<and> entries (mpDb m') = entries db"
  using assms(2-8)
proof (induction xs arbitrary: m A)
  case Nil
  then show ?case by simp
next
  case (Cons x xs)
  let ?op = "entry_op db x"
  have sep: "separates H D" using H by (simp add: hash_safe_def)
  have fits: "op_fits ?op" "list_all op_fits (map (entry_op db) xs)" using Cons.prems(3) by simp_all
  obtain r m1 where run: "mpt_run H ?op m = Some (r, m1)"
    and ok: "logged m1 \<subseteq> D \<longrightarrow> r = Inr () \<and> mpt_rep H m1 (map_step A ?op) \<and> stores H m m1"
    using mpt_rep_step [OF sep Cons.prems(1) fits(1)] by blast
  have step: "mpt_step H m ?op = m1" using run by (simp add: mpt_step_def)
  have log: "logged (foldl (mpt_step H) m1 (map (entry_op db) xs)) \<subseteq> D"
    and size: "16 * length (mpLog (foldl (mpt_step H) m1 (map (entry_op db) xs))) + n < 2 ^ 64"
    using Cons.prems(6,7) step by simp_all
  have log1: "logged m1 \<subseteq> D" using log mpt_steps_log [of m1 H] by blast
  then have m1: "r = Inr ()" "mpt_rep H m1 (map_step A ?op)" "stores H m m1" using ok by blast+
  have "16 * length (mpLog m1) + n < 2 ^ 64"
    using size mpt_steps_length [of m1 H "map (entry_op db) xs"] by linarith
  from trie_store_stores [OF m1(3) Cons.prems(4) H log1 Cons.prems(5) this]
  have store: "trie_store_ok (mpDb m1)" "counts_below (16 * length (mpLog m1) + n) (mpDb m1)" by simp_all
  have same: "entries (mpDb m1) = entries db"
    using entries_extends [OF mpt_run_extends [OF run]] Cons.prems(2) by simp
  have "as_GetAccount x (mpDb m) = as_GetAccount x db" using Cons.prems(2) by (rule entries_get)
  then have "update_dirty H (x # xs) m = update_dirty H xs m1"
    using run m1(1) by (auto simp: entry_op_def table_entry_def split: sum.splits)
  then show ?case using Cons.IH [OF m1(2) same fits(2) store log size] step by simp
qed

text \<open>Writing a key outside the trie changes nothing of the trie.\<close>

lemma mpt_rep_other:
  assumes "mpt_rep H m A" and "rep_opt db (mpRoot m) (path_map A)"
    and "\<And>h d. length h = 32 \<Longrightarrow> kv_Get db (nodeKey h) = Some d \<Longrightarrow> kv_Get (mpDb m) (nodeKey h) = Some d"
  shows "mpt_rep H (m\<lparr>mpDb := db\<rparr>) A"
  using assms by (auto simp: mpt_rep_def content_ok_def)

lemma trie_store_put:
  assumes ok: "trie_store_ok db" and k: "take 4 k \<noteq> bytes_of_str ''mpt:''"
  shows "trie_store_ok (kv_Put k v db)" and "counts_below n (kv_Put k v db) = counts_below n db"
    and "kv_Get (kv_Put k v db) (nodeKey h) = kv_Get db (nodeKey h)"
    and "rep_opt db r M \<Longrightarrow> rep_opt (kv_Put k v db) r M"
proof -
  have ne: "k \<noteq> nodeKey h" "k \<noteq> refKey h" "k \<noteq> rootKey e" for h e using k trie_keys trie_prefixes by auto
  have kind: "\<not> is_node_key k" "\<not> is_root_key k" using ne by (auto simp: is_node_key_iff is_root_key_iff)
  have wf: "gomap_wf db" using ok by (simp add: trie_store_ok_def gc_inv_def refs_ok_def)
  have count: "ref_count h (kv_Put k v db) = ref_count h db" for h
    using ne by (simp add: ref_count_def eq_commute [of "refKey h"])
  have get: "kv_Get (kv_Put k v db) (nodeKey h) = kv_Get db (nodeKey h)"
      "kv_Get (kv_Put k v db) (rootKey e) = kv_Get db (rootKey e)" for h e
    using ne by (simp_all add: eq_commute [of _ k])
  show "kv_Get (kv_Put k v db) (nodeKey h) = kv_Get db (nodeKey h)" by (rule get(1))
  have "take 9 k \<noteq> root_prefix"
  proof
    assume "take 9 k = root_prefix"
    then have "take 4 (take 9 k) = bytes_of_str ''mpt:''" using trie_prefixes(2) by simp
    then show False using k by simp
  qed
  then have "no_overlap (kv_Put k v db)" using ok by (auto simp: trie_store_ok_def no_overlap_def kv_Has_get)
  then show "trie_store_ok (kv_Put k v db)"
    using ok wf kind by (simp add: trie_store_ok_def gc_inv_def refs_ok_def nodes_ok_def roots_ok_def get count
        node_refs_other epoch_refs_other del: kv_simps)
  show "counts_below n (kv_Put k v db) = counts_below n db" by (simp add: counts_below_def count)
  show "rep_opt db r M \<Longrightarrow> rep_opt (kv_Put k v db) r M"
    by (cases r) (auto intro: rep_keeps simp: keeps_def get simp del: kv_simps)
qed

text \<open>The end of a commit: the root is saved, old epochs go, the record is written.\<close>

definition seal :: "u64 \<Rightarrow> bytes \<Rightarrow> store \<Rightarrow> (mpt_error + u64) \<times> store" where
  "seal height root db = (let db = SaveEpochRoot height root db
     in if keepWindow < height then GarbageCollect (height - keepWindow) db else (Inr 0, db))"

lemma seal_ok:
  assumes rep: "mpt_rep H m A" and ok: "trie_store_ok (mpDb m)" and H: "hash_ok H"
    and low: "counts_below c (mpDb m)" "c + 1 < 2 ^ 64"
  obtains n db where "seal h (mpt_Root H m) (mpDb m) = (Inr n, db)" and "mpt_rep H (m\<lparr>mpDb := db\<rparr>) A"
    and "trie_store_ok db" and "counts_below (c + 1) db" and "entries db = entries (mpDb m)"
proof -
  let ?r = "mpt_Root H m" and ?db = "SaveEpochRoot h (mpt_Root H m) (mpDb m)"
  have len: "length ?r = 32"
  proof (cases "mpRoot m")
    case None
    then show ?thesis using H by (simp add: mpt_Root_def hashEmptyMPT_def hash_ok_def)
  next
    case (Some x)
    then show ?thesis using rep rep_length by (auto simp: mpt_Root_def mpt_rep_def)
  qed
  have save: "trie_store_ok ?db" "counts_below (c + 1) ?db" "keeps (mpDb m) ?db"
      "kv_Get ?db (rootKey h) = Some ?r"
    using trie_store_save [OF ok len low, of h h] by simp_all
  have nodes: "kv_Get ?db (nodeKey x) = kv_Get (mpDb m) (nodeKey x)" if "length x = 32" for x
    using len that epoch_key_distinct(2) [OF that, THEN not_sym] by (auto simp: SaveEpochRoot_def incrementRef_def)
  have root: "rep_opt ?db (mpRoot m) (path_map A)"
    using rep rep_keeps [OF _ save(3)] by (cases "mpRoot m") (auto simp: mpt_rep_def)
  show thesis
  proof (cases "keepWindow < h")
    case False
    show thesis
      by (rule that [of 0 ?db]) (use False save root mpt_rep_other [OF rep root] nodes in \<open>simp_all add: seal_def\<close>)
  next
    case True
    obtain n db where gc: "trie_store_ok db"
      "\<And>e r M. h - keepWindow \<le> e \<Longrightarrow> kv_Get ?db (rootKey e) = Some r \<Longrightarrow> rep ?db r M \<Longrightarrow> rep db r M"
      "GarbageCollect (h - keepWindow) ?db = (Inr n, db)" "only_drops ?db db"
      by (rule gc_run [OF save(1), of "h - keepWindow"]) blast
    have "h - keepWindow \<le> h" using True by (simp add: word_sub_le less_imp_le)
    then have "rep_opt db (mpRoot m) (path_map A)"
      using gc(2) [OF _ save(4)] root by (cases "mpRoot m") (auto simp: mpt_Root_def)
    then have "mpt_rep H (m\<lparr>mpDb := db\<rparr>) A"
      by (rule mpt_rep_other [OF rep]) (use gc(4) nodes in \<open>auto simp: only_drops_def\<close>)
    moreover have "counts_below (c + 1) db"
      using save(2) gc(4) by (fastforce simp: counts_below_def only_drops_def word_le_nat_alt)
    moreover have "entries db = entries (mpDb m)"
      using entries_gc [of "h - keepWindow" ?db] gc(3) by simp
    ultimately show thesis using gc(1,3) True by (intro that [of n db]) (simp_all add: seal_def)
  qed
qed

text \<open>The other operations keep the agreement: what they write is marked.\<close>

lemma covers_mark:
  assumes "covers_accounts H n sm A"
  shows "covers_accounts H n (mark_dirty x sm) A"
  using assms by (simp add: covers_accounts_def)

lemma covers_put:
  assumes "covers_accounts H n sm A" and "x \<in> set (smDirty sm)"
  shows "covers_accounts H n (set_db (kv_Put (accountKey x) v) sm) A"
proof -
  note put = trie_store_put [OF _ account_not_trie, of "sm_db sm"]
  have "mpt_rep H ((smMpt sm)\<lparr>mpDb := kv_Put (accountKey x) v (sm_db sm)\<rparr>) A"
    by (rule mpt_rep_other) (use assms(1) put(3,4) in \<open>simp_all add: covers_accounts_def mpt_rep_def del: kv_simps\<close>)
  moreover have "table_entry (kv_Put (accountKey x) v (sm_db sm)) y = table_entry (sm_db sm) y"
    if "y \<notin> set (smDirty sm)" for y
  proof -
    have "y \<noteq> x" using that assms(2) by auto
    then show ?thesis by (simp add: table_entry_def as_GetAccount_def)
  qed
  ultimately show ?thesis using assms put(1,2) by (auto simp: covers_accounts_def set_db_def)
qed

lemma covers_set: "covers_accounts H n sm A \<Longrightarrow> acAddress a \<in> set (smDirty sm)
    \<Longrightarrow> covers_accounts H n (set_db (as_SetAccount a) sm) A"
  using covers_put by (simp add: as_SetAccount_def [abs_def])

lemma covers_new: "covers_accounts H 0 \<lparr>smTotalSupply = 0, smMaxSupply = None, smBlockHeight = 0,
    smStateRoot = None, smMpt = NewMPT [], smDirty = []\<rparr> Map.empty"
proof -
  have "mpt_rep H (NewMPT []) Map.empty" by (rule mpt_rep_new) (simp add: kv_Get_def)
  then show ?thesis
    using trie_store_empty
    by (simp add: covers_accounts_def NewMPT_def counts_below_def ref_count_def kv_Get_def table_entry_def as_GetAccount_def)
qed

text \<open>
  One commit of a state that \<open>covers_accounts\<close> describes: it returns without an error and makes the trie
  equal to the account table, and the next commit finds the same conditions. The hash must not collide
  on the nodes stored so far and by the commit, and the reference counters must not be near their 64 bits.
\<close>

definition commit_ops :: "(bytes list \<Rightarrow> bytes list) \<Rightarrow> state_manager \<Rightarrow> mpt_op list" where
  "commit_ops ord sm = map (entry_op (sm_db sm)) (ord (smDirty sm))"

definition commit_safe :: "(bytes \<Rightarrow> bytes) \<Rightarrow> (bytes list \<Rightarrow> bytes list) \<Rightarrow> nat \<Rightarrow> state_manager \<Rightarrow> bool" where
  "commit_safe H ord n sm \<longleftrightarrow> list_all op_fits (commit_ops ord sm)
     \<and> hash_safe H (logged (foldl (mpt_step H) (smMpt sm) (commit_ops ord sm)))
     \<and> 16 * length (mpLog (foldl (mpt_step H) (smMpt sm) (commit_ops ord sm))) + n + 1 < 2 ^ 64"

lemma commit_step:
  fixes sm :: state_manager and ord :: "bytes list \<Rightarrow> bytes list"
  assumes "covers_accounts H n sm A" and "set (ord (smDirty sm)) = set (smDirty sm)" and "commit_safe H ord n sm"
  shows "\<exists>sm'. Commit H ord h sm = Some (None, sm') \<and> entries (sm_db sm') = entries (sm_db sm)
    \<and> covers_accounts H (n + 1) sm' (table_entry (sm_db sm'))
    \<and> (\<forall>x. \<exists>e. mpt_Get x (smMpt sm') = Some (case table_entry (sm_db sm) x of Some d \<Rightarrow> Inr d | None \<Rightarrow> Inl e))
    \<and> smStateRoot sm' = Some (mpt_Root H (smMpt sm')) \<and> smDirty sm' = []"
proof -
  let ?T = "table_entry (sm_db sm)"
  define ops where "ops = commit_ops ord sm"
  note safe = assms(3) [unfolded commit_safe_def, folded ops_def]
  have cov: "mpt_rep H (smMpt sm) A" "trie_store_ok (sm_db sm)"
      "counts_below (16 * length (mpLog (smMpt sm)) + n) (sm_db sm)" "\<And>x. x \<notin> set (smDirty sm) \<Longrightarrow> A x = ?T x"
    using assms(1) by (simp_all add: covers_accounts_def)
  have H: "hash_ok H" using safe by (simp add: hash_safe_def separates_def)
  obtain m where m: "update_dirty H (ord (smDirty sm)) (smMpt sm) = Some (Inr (), m)"
      "m = foldl (mpt_step H) (smMpt sm) ops" "mpt_rep H m (foldl map_step A ops)" "trie_store_ok (mpDb m)"
      "counts_below (16 * length (mpLog m) + n) (mpDb m)" "entries (mpDb m) = entries (sm_db sm)"
    using update_dirty_runs [OF conjunct1 [OF conjunct2 [OF safe]] cov(1) refl _ cov(2,3), of "ord (smDirty sm)"] safe
    unfolding ops_def commit_ops_def by auto
  have "foldl map_step A ops = ?T"
    using cov(4) assms(2) by (auto simp: fun_eq_iff ops_def commit_ops_def foldl_entries)
  with m(3) have rep: "mpt_rep H m ?T" by simp
  have "16 * length (mpLog m) + n + 1 < 2 ^ 64" using safe m(2) by simp
  then obtain k db where seal: "seal h (mpt_Root H m) (mpDb m) = (Inr k, db)" "mpt_rep H (m\<lparr>mpDb := db\<rparr>) ?T"
      "trie_store_ok db" "counts_below (16 * length (mpLog m) + n + 1) db" "entries db = entries (mpDb m)"
    by (rule seal_ok [OF rep m(4) H m(5)])
  define sm1 where "sm1 = sm\<lparr>smBlockHeight := h, smStateRoot := Some (mpt_Root H m), smMpt := m\<lparr>mpDb := db\<rparr>, smDirty := []\<rparr>"
  have run: "Commit H ord h sm = Some (None, saveState sm1)"
    using m(1) seal(1) by (auto simp: Commit_def computeStateRootIncremental_def Let_def seal_def set_db_def
        sm1_def split: if_splits)
  note put = trie_store_put [OF seal(3) state_key_other(3)]
  have sm1: "smMpt sm1 = m\<lparr>mpDb := db\<rparr>" "smDirty sm1 = []" "smStateRoot sm1 = Some (mpt_Root H m)"
    by (simp_all add: sm1_def)
  have rep': "mpt_rep H (smMpt (saveState sm1)) ?T"
    using mpt_rep_other [OF seal(2), of "kv_Put state_key (enc_state sm1) db"] seal(2) put
    by (simp add: saveState_def set_db_def sm1 mpt_rep_def del: kv_simps)
  have same: "entries (sm_db (saveState sm1)) = entries (sm_db sm)" using seal(5) m(6) by (simp add: sm1)
  have "covers_accounts H (n + 1) (saveState sm1) (table_entry (sm_db (saveState sm1)))"
    using rep' put(1,2) seal(4) entries_entry [OF same]
    by (simp add: covers_accounts_def saveState_def set_db_def sm1)
  moreover have "\<exists>e. mpt_Get x (smMpt (saveState sm1)) = Some (case ?T x of Some d \<Rightarrow> Inr d | None \<Rightarrow> Inl e)" for x
    using mpt_rep_get [OF rep', of x] by auto
  moreover have "smStateRoot (saveState sm1) = Some (mpt_Root H (smMpt (saveState sm1)))"
    by (simp add: saveState_def set_db_def sm1 mpt_Root_def)
  ultimately show ?thesis using run same by (intro exI [of _ "saveState sm1"]) (simp add: sm1)
qed

text \<open>
  The histories a commit relies on: every change of an account marks it. A rising nonce does not, so its
  account has to be marked already; deleting old state forgets the marks, and a collection asked for
  from outside may take the newest root. Each commit on the way meets its own conditions.
\<close>

fun tracked :: "(bytes \<Rightarrow> bytes) \<Rightarrow> (bytes list \<Rightarrow> bytes list) \<Rightarrow> nat \<Rightarrow> state_manager \<Rightarrow> sm_op list \<Rightarrow> bool" where
  "tracked H ord n sm [] = True"
| "tracked H ord n sm (SmCommit h # ops) =
     (commit_safe H ord n sm \<and> tracked H ord (n + 1) (sm_step H ord sm (SmCommit h)) ops)"
| "tracked H ord n sm (SmNonce x # ops) =
     (x \<in> set (smDirty sm) \<and> tracked H ord n (sm_step H ord sm (SmNonce x)) ops)"
| "tracked H ord n sm (SmGC b # ops) = False"
| "tracked H ord n sm (SmDeleteBefore e # ops) = False"
| "tracked H ord n sm (op # ops) = tracked H ord n (sm_step H ord sm op) ops"

lemma mark_set: "mark_dirty x (set_db f sm) = set_db f (mark_dirty x sm)"
  by (simp add: mark_dirty_def set_db_def)

lemma covers_fields:
  "covers_accounts H n (sm\<lparr>smTotalSupply := s\<rparr>) A = covers_accounts H n sm A"
  "covers_accounts H n (sm\<lparr>smMaxSupply := c\<rparr>) A = covers_accounts H n sm A"
  "covers_accounts H n (sm\<lparr>smBlockHeight := h\<rparr>) A = covers_accounts H n sm A"
  "covers_accounts H n (sm\<lparr>smStateRoot := r\<rparr>) A = covers_accounts H n sm A"
  by (simp_all add: covers_accounts_def)

lemma covers_save: "covers_accounts H n sm A \<Longrightarrow> covers_accounts H n (saveState sm) A"
proof -
  assume cov: "covers_accounts H n sm A"
  note put = trie_store_put [OF _ state_key_other(3), of "sm_db sm"]
  have "mpt_rep H ((smMpt sm)\<lparr>mpDb := kv_Put state_key (enc_state sm) (sm_db sm)\<rparr>) A"
    by (rule mpt_rep_other) (use cov put(3,4) in \<open>simp_all add: covers_accounts_def mpt_rep_def del: kv_simps\<close>)
  moreover have "table_entry (kv_Put state_key (enc_state sm) (sm_db sm)) = table_entry (sm_db sm)"
    by (rule entries_entry) simp
  ultimately show ?thesis using cov put(1,2) by (simp add: covers_accounts_def saveState_def set_db_def)
qed

lemma covers_transfer:
  assumes "covers_accounts H n sm A" and "src \<in> set (smDirty sm)" "dest \<in> set (smDirty sm)"
  shows "covers_accounts H n (set_db (\<lambda>_. snd (as_Transfer src dest amount (sm_db sm))) sm) A"
proof -
  obtain r db where run: "as_Transfer src dest amount (sm_db sm) = (r, db)" by force
  consider "db = sm_db sm" | v w where "db = kv_Put (accountKey dest) v (kv_Put (accountKey src) w (sm_db sm))"
    using run by (cases r) (auto simp: as_Transfer_def Let_def account_Transfer_def batch_Put_def batch_Write_def
        apply_op_def kv_Put_def split: sum.splits option.splits prod.splits if_splits)
  then show ?thesis
  proof cases
    case 1
    then show ?thesis using assms(1) run by (simp add: set_db_def)
  next
    case 2
    have "set_db (\<lambda>_. db) sm = set_db (kv_Put (accountKey dest) v) (set_db (kv_Put (accountKey src) w) sm)"
      by (simp add: 2 set_db_def)
    then show ?thesis using covers_put [OF covers_put [OF assms(1,2)], of dest] assms(3) run by simp
  qed
qed

lemma covers_op:
  assumes "covers_accounts H n sm A" and "table_ok (sm_db sm)" and "tracked H ord n sm [op]" and "\<nexists>h. op = SmCommit h"
  shows "covers_accounts H n (sm_step H ord sm op) A"
proof (cases op)
  case (SmTransfer x y k)
  then show ?thesis using covers_transfer [of H n "mark_dirty y (mark_dirty x sm)" A x y k] assms(1)
    by (simp add: sm_Transfer_def Let_def covers_mark)
next
  case (SmInit k)
  then show ?thesis using assms(1) by (simp add: Initialize_def covers_save covers_fields)
next
  case (SmSetToken x tok b)
  then show ?thesis using assms(1) address_or_new [OF assms(2), of x]
    by (simp add: sm_SetTokenBalance_def Let_def account_SetTokenBalance_def covers_set covers_mark)
next
  case (SmMint x k)
  then show ?thesis using assms(1) address_or_new [OF assms(2), of x]
    by (simp add: MintTokens_def Let_def covers_set covers_mark covers_fields)
qed (use assms in \<open>auto simp: SetAccount_def CreateAccount_def IncrementNonce_def SetCode_def SetStorage_def
    BurnTokens_def SetMaxSupply_def Let_def account_IncrementNonce_def mark_set covers_fields loaded_address
    intro!: covers_set covers_mark split: sum.split\<close>)

lemma tracked_covers:
  assumes "\<And>xs. set (ord xs) = set xs"
  shows "tracked H ord n sm (ops @ ops') \<Longrightarrow> covers_accounts H n sm A \<Longrightarrow> table_ok (sm_db sm) \<Longrightarrow>
    \<exists>k B. covers_accounts H k (foldl (sm_step H ord) sm ops) B \<and> tracked H ord k (foldl (sm_step H ord) sm ops) ops'"
proof (induction ops arbitrary: n sm A)
  case Nil
  then show ?case by auto
next
  case (Cons op ops)
  note ok = sm_step_table [OF Cons.prems(3), of H ord op]
  show ?case
  proof (cases "\<exists>h. op = SmCommit h")
    case True
    then obtain h where h: "op = SmCommit h" by blast
    obtain sm' where sm': "Commit H ord h sm = Some (None, sm')" "covers_accounts H (n + 1) sm' (table_entry (sm_db sm'))"
      using commit_step [where ord = ord, OF Cons.prems(2) assms, of h] Cons.prems(1) h by auto
    then have "sm_step H ord sm op = sm'" by (simp add: h)
    then show ?thesis using Cons.IH [of "n + 1" sm' "table_entry (sm_db sm')"] Cons.prems(1) sm' ok h by simp
  next
    case False
    have "tracked H ord n (sm_step H ord sm op) (ops @ ops')" "tracked H ord n sm [op]"
      using Cons.prems(1) False by (cases op; simp)+
    then show ?thesis using Cons.IH [OF _ covers_op [OF Cons.prems(2,3) _ False] ok] by simp
  qed
qed

definition fresh_manager :: state_manager where
  "fresh_manager = \<lparr>smTotalSupply = 0, smMaxSupply = None, smBlockHeight = 0, smStateRoot = None,
     smMpt = NewMPT [], smDirty = []\<rparr>"

lemma fresh_created: "NewStateManager [] = Inr fresh_manager"
  by (simp add: NewStateManager_def loadState_def fresh_manager_def NewMPT_def kv_Get_def)

lemma fresh_table: "table_ok (sm_db fresh_manager)"
  by (simp add: fresh_manager_def NewMPT_def table_ok_def kv_Get_def)


subsection \<open>Witnesses\<close>

definition one_account :: state_manager where
  "one_account = snd (CreateAccount [1, 2] AccountTypeNormal 5 fresh_manager)"

lemma one_account_steps: "one_account = sm_step prefix_hash id fresh_manager (SmCreate [1, 2] AccountTypeNormal 5)"
  by (simp add: one_account_def)

lemma one_account_table: "table_ok (sm_db one_account)"
  unfolding one_account_steps by (rule sm_step_table [OF fresh_table])

lemma one_account_alt: "one_account = set_db (as_SetAccount ((NewAccount [1, 2] AccountTypeNormal)\<lparr>acBalance := 5\<rparr>))
    (mark_dirty [1, 2] fresh_manager)"
  by (simp add: one_account_def CreateAccount_def fresh_manager_def NewMPT_def as_HasAccount_def kv_Has_def
      Let_def set_db_def mark_dirty_def)

theorem storage_needs_utf8_witness:
  "GetStorage [1, 2] [0xFF] (snd (SetStorage [1, 2] [0xFF] (Some [7]) one_account)) = Inr (if utf8 [0xFF] then Some [7] else None)"
proof (rule storage_needs_utf8 [OF one_account_table])
  show "GetAccount [1, 2] one_account = Inr (stored ((NewAccount [1, 2] AccountTypeNormal)\<lparr>acBalance := 5\<rparr>))"
    by (simp add: one_account_alt GetAccount_def account_result_def get_set_account)
qed

theorem supply_explained_witness:
  "holdings (sm_db (foldl (sm_step prefix_hash id) fresh_manager [SmMint [1] 5, SmTransfer [1] [1] 3]))
     - smTotalSupply (foldl (sm_step prefix_hash id) fresh_manager [SmMint [1] 5, SmTransfer [1] [1] 3])
   = holdings (sm_db fresh_manager) - smTotalSupply fresh_manager
     + granted_along prefix_hash id fresh_manager [SmMint [1] 5, SmTransfer [1] [1] 3]"
  by (rule supply_explained [OF fresh_table])

text \<open>A transfer of an account to itself that the balance covers creates its amount.\<close>

lemma self_transfer_creates:
  assumes "as_GetAccount x (sm_db sm) = Inr a" and "0 \<le> n" and "n \<le> acBalance a"
  shows "granted sm (SmTransfer x x n) = n"
  using assms by (simp add: transfer_result as_Transfer_def account_Transfer_def Let_def)

lemma one_account_dirty: "smDirty one_account = [[1, 2]]" "mpLog (smMpt one_account) = []" "mpRoot (smMpt one_account) = None"
  by (simp_all add: one_account_alt fresh_manager_def mark_dirty_def set_db_def NewMPT_def)

lemma first_update:
  assumes "mpRoot m = None" and "v \<noteq> []" and "mpLog m = []" and "node_fits (LeafNode (keyToNibbles k) v)"
  shows "mpLog (mpt_step H m (MptUpdate k v)) = [serialize (LeafNode (keyToNibbles k) v)]"
proof -
  obtain r m1 where store: "storeNode H (LeafNode (keyToNibbles k) v) m = (r, m1)" by force
  then have "mpLog m1 = [serialize (LeafNode (keyToNibbles k) v)]"
    using assms(3) by (auto simp: storeNode_def Let_def split: if_splits sum.splits)
  then show ?thesis using assms(1,2) store
    by (cases r) (simp_all add: mpt_step_def mpt_Update_def upsert_new)
qed

lemma one_account_safe: "commit_safe prefix_hash id 0 one_account"
proof -
  let ?a = "(NewAccount [1, 2] AccountTypeNormal)\<lparr>acBalance := 5\<rparr>"
  have entry: "table_entry (sm_db one_account) [1, 2] = Some (Serialize (stored ?a))"
    by (simp add: one_account_alt table_entry_def get_set_account)
  have size: "length (Serialize (stored ?a)) < 1000" by code_simp
  have ops: "commit_ops id one_account = [MptUpdate [1, 2] (Serialize (stored ?a))]"
    by (simp add: commit_ops_def one_account_dirty entry_op_def entry)
  have log: "mpLog (mpt_step prefix_hash (smMpt one_account) (MptUpdate [1, 2] (Serialize (stored ?a))))
      = [serialize (LeafNode (keyToNibbles [1, 2]) (Serialize (stored ?a)))]"
    by (rule first_update) (use one_account_dirty size in simp_all)
  have "hash_safe prefix_hash (logged (foldl (mpt_step prefix_hash) (smMpt one_account) (commit_ops id one_account)))"
    unfolding ops by (simp add: log hash_safe_def separates_def prefix_hash_ok no_root_hash_def prefix_hash_def
        bytes_of_str_def nodeTypeLeaf_def)
  moreover have "list_all op_fits (commit_ops id one_account)" unfolding ops using size by (simp add: key_fits_def)
  moreover have "16 * length (mpLog (foldl (mpt_step prefix_hash) (smMpt one_account) (commit_ops id one_account))) + 0 + 1 < 2 ^ 64"
    unfolding ops by (simp add: log)
  ultimately show ?thesis unfolding commit_safe_def by blast
qed


text \<open>A nonce that rises without a mark: the trie keeps the old text of the account.\<close>

lemma nonce_not_marked: "smDirty (snd (IncrementNonce x sm)) = smDirty sm"
  by (simp add: IncrementNonce_def split: sum.split)

end
