(* ===== verification/EVM_Machine.thy ===== *)
theory EVM_Machine
  imports Transactions
begin

text \<open>
  The machine of the EVM interpreter (\<open>vm/evm.go\<close>): the execution context, the interface
  \<open>EVMState\<close> as a record of functions over an abstract state, the executor, and the gas and
  memory helpers. Stack items are \<open>big.Int\<close>s, so they are \<open>int\<close>s, with the top of the
  stack at the head of the list; \<open>uint64\<close> values are natural numbers with every wrap-around written
  out. A \<open>make\<close> of more than \<open>max_alloc\<close> bytes panics, as the Go runtime does on 64-bit systems,
  and so does \<open>FillBytes\<close> of a number that does not fit in 32 bytes.
\<close>

subsection \<open>The context, the state interface and the executor\<close>

record EVMContext =
  cxCaller :: bytes
  cxAddress :: bytes
  cxValue :: "int option"
  cxGasLimit :: nat
  cxGasPrice :: "int option"
  cxData :: bytes
  cxBlockNum :: nat
  cxTimestamp :: nat
  cxChainID :: "int option"
  cxCoinbase :: "bytes option"
  cxBlockGasLimit :: nat
  cxBaseFee :: "int option"
  cxPrevRandao :: "bytes option"
  cxGetBlockHash :: "(nat \<Rightarrow> bytes) option"

text \<open>
  \<open>GetBalance\<close> may answer a nil pointer, an operation that changes the state may panic in the
  provider, and a nil value of \<open>SetStorage\<close> is not an empty one.
\<close>

record 's EVMState =
  esGetBalance :: "'s \<Rightarrow> bytes \<Rightarrow> int option"
  esGetNonce :: "'s \<Rightarrow> bytes \<Rightarrow> nat"
  esGetCode :: "'s \<Rightarrow> bytes \<Rightarrow> bytes"
  esGetStorage :: "'s \<Rightarrow> bytes \<Rightarrow> bytes \<Rightarrow> bytes"
  esSetStorage :: "'s \<Rightarrow> bytes \<Rightarrow> bytes \<Rightarrow> bytes option \<Rightarrow> 's outcome"
  esTransfer :: "'s \<Rightarrow> bytes \<Rightarrow> bytes \<Rightarrow> int \<Rightarrow> 's outcome"
  esCreateAccount :: "'s \<Rightarrow> bytes \<Rightarrow> 's outcome"
  esAddLog :: "'s \<Rightarrow> bytes \<Rightarrow> bytes list \<Rightarrow> bytes \<Rightarrow> 's"
  esSnapshot :: "'s \<Rightarrow> int \<times> 's"
  esRevertToSnapshot :: "'s \<Rightarrow> int \<Rightarrow> 's outcome"

record EVMExecutor =
  evStack :: "int list"
  evMemory :: bytes
  evPc :: nat
  evGasUsed :: nat
  evCtx :: EVMContext
  evReturndata :: bytes
  evCode :: bytes
  evStaticCall :: bool
  evJumpDests :: "nat list"

definition NewEVMExecutor :: "EVMContext \<Rightarrow> EVMExecutor" where
  "NewEVMExecutor cx = \<lparr>evStack = [], evMemory = [], evPc = 0, evGasUsed = 0, evCtx = cx,
     evReturndata = [], evCode = [], evStaticCall = False, evJumpDests = []\<rparr>"

datatype evm_error = OutOfGas | StackUnderflow | StackOverflow nat | MemoryOverflow
  | NegativeArgument string | ReturnDataBounds | InvalidJump | InvalidOpcode | Reverted
  | StaticViolation string

text \<open>
  What a helper of the executor returns: a value, an error with the gas that was used when it
  was raised, or a run-time panic. What an instruction leads to: the next state of the machine, the
  three results of \<open>Execute\<close>, or a panic.
\<close>

datatype 'a res = Ok 'a | Err evm_error nat | Crash

datatype 's after = Next EVMExecutor 's | Halt bytes nat "evm_error option" 's | Fault

fun bind_res :: "'a res \<Rightarrow> 's \<Rightarrow> ('a \<Rightarrow> 's after) \<Rightarrow> 's after" where
  "bind_res (Ok x) s k = k x"
| "bind_res (Err er g) s k = Halt [] g (Some er) s"
| "bind_res Crash s k = Fault"

fun bind_out :: "'a outcome \<Rightarrow> ('a \<Rightarrow> 's after) \<Rightarrow> 's after" where
  "bind_out (Done x) k = k x"
| "bind_out Panics k = Fault"

subsection \<open>Numbers\<close>

definition wrap64 :: "nat \<Rightarrow> nat" where
  "wrap64 n = n mod 2 ^ 64"

lemma wrap64_less [simp]: "wrap64 n < 2 ^ 64"
  unfolding wrap64_def by (rule mod_less_divisor) simp

lemma wrap64_id: "n < 2 ^ 64 \<Longrightarrow> wrap64 n = n"
  unfolding wrap64_def by (rule mod_less)

lemma wrap64_le: "wrap64 n \<le> n"
  unfolding wrap64_def by (rule mod_less_eq_dividend)

lemma wrap64_0 [simp]: "wrap64 0 = 0"
  by (simp add: wrap64_def)

definition usub :: "nat \<Rightarrow> nat \<Rightarrow> nat" where
  "usub a b = wrap64 (a + 2 ^ 64 - b)"

text \<open>\<open>big.Int.Uint64\<close> takes the low 64 bits of the absolute value.\<close>

definition big_Uint64 :: "int \<Rightarrow> nat" where
  "big_Uint64 x = wrap64 (nat \<bar>x\<bar>)"

definition SetBytes :: "bytes \<Rightarrow> int" where
  "SetBytes b = int (unbe b)"

definition FillBytes32 :: "int \<Rightarrow> bytes outcome" where
  "FillBytes32 x = fill32 (big_bytes (nat \<bar>x\<bar>))"

definition wrap256 :: "int \<Rightarrow> int" where
  "wrap256 x = x mod 2 ^ 256"

definition safeSetBig :: "int option \<Rightarrow> int" where
  "safeSetBig v = (case v of None \<Rightarrow> 0 | Some x \<Rightarrow> x)"

definition toSigned256 :: "int \<Rightarrow> int outcome" where
  "toSigned256 x = bind_outcome (FillBytes32 x) (\<lambda>b.
     Done (if bit (hd b) 7 then x - 2 ^ 256 else x))"

definition toUnsigned256 :: "int \<Rightarrow> int" where
  "toUnsigned256 x = (if x < 0 then x + 2 ^ 256 else x)"

text \<open>\<open>big.Int.Div\<close> and \<open>big.Int.Mod\<close> are Euclidean: the remainder is never negative.\<close>

definition big_Div :: "int \<Rightarrow> int \<Rightarrow> int" where
  "big_Div x y = (if y < 0 then - (x div (- y)) else x div y)"

definition big_Mod :: "int \<Rightarrow> int \<Rightarrow> int" where
  "big_Mod x y = x mod \<bar>y\<bar>"

text \<open>
  \<open>big.Int.Exp(x, y, 2^256)\<close>. For a negative exponent Go computes the modular inverse first and
  answers nil, leaving the receiver (a zero of the pool) unchanged, when there is none; the inverse of
  an odd number modulo \<open>2^256\<close> is its power \<open>2^254 - 1\<close>.
\<close>

fun powmod :: "int \<Rightarrow> nat \<Rightarrow> int \<Rightarrow> int" where
  "powmod x n m = (if n = 0 then 1 mod m
     else let h = powmod (x * x mod m) (n div 2) m in if odd n then x * h mod m else h)"

declare powmod.simps [simp del]

definition big_Exp :: "int \<Rightarrow> int \<Rightarrow> int" where
  "big_Exp x y = (if y < 0 \<and> even x then 0
     else let b = (if y < 0 then powmod (x mod 2 ^ 256) (2 ^ 254 - 1) (2 ^ 256) else \<bar>x\<bar>);
              z = powmod b (nat \<bar>y\<bar>) (2 ^ 256)
       in if x < 0 \<and> odd y \<and> 0 < z then 2 ^ 256 - z else z)"

definition toAddress :: "int \<Rightarrow> bytes" where
  "toAddress v = (let b = big_bytes (nat (wrap256 v))
     in if 20 < length b then drop (length b - 20) b else replicate (20 - length b) 0 @ b)"

subsection \<open>Gas\<close>

abbreviation (input) "evmMaxStackDepth \<equiv> (1024 :: nat)"
abbreviation (input) "gasFastest \<equiv> (3 :: nat)"
abbreviation (input) "gasFast \<equiv> (5 :: nat)"
abbreviation (input) "gasMid \<equiv> (8 :: nat)"
abbreviation (input) "gasSlow \<equiv> (10 :: nat)"
abbreviation (input) "gasExt \<equiv> (20 :: nat)"
abbreviation (input) "gasSha3 \<equiv> (30 :: nat)"
abbreviation (input) "gasSha3Word \<equiv> (6 :: nat)"
abbreviation (input) "gasSload \<equiv> (100 :: nat)"
abbreviation (input) "gasSstoreSet \<equiv> (20000 :: nat)"
abbreviation (input) "gasSstoreReset \<equiv> (5000 :: nat)"
abbreviation (input) "gasBalance \<equiv> (2600 :: nat)"
abbreviation (input) "gasCreate \<equiv> (32000 :: nat)"
abbreviation (input) "gasCodeDeposit \<equiv> (200 :: nat)"
abbreviation (input) "gasCall \<equiv> (700 :: nat)"
abbreviation (input) "gasCallValue \<equiv> (9000 :: nat)"
abbreviation (input) "gasSelfdestruct \<equiv> (5000 :: nat)"
abbreviation (input) "gasExp \<equiv> (10 :: nat)"
abbreviation (input) "gasExpByte \<equiv> (50 :: nat)"
abbreviation (input) "gasMemory \<equiv> (3 :: nat)"
abbreviation (input) "gasLog \<equiv> (375 :: nat)"
abbreviation (input) "gasLogTopic \<equiv> (375 :: nat)"
abbreviation (input) "gasLogData \<equiv> (8 :: nat)"
abbreviation (input) "gasCopy \<equiv> (3 :: nat)"
abbreviation (input) "gMaxCodeSize \<equiv> (24576 :: nat)"

definition useGas :: "nat \<Rightarrow> EVMExecutor \<Rightarrow> EVMExecutor res" where
  "useGas cost e = (let g = wrap64 (evGasUsed e + cost)
     in if cxGasLimit (evCtx e) < g then Err OutOfGas g else Ok (e\<lparr>evGasUsed := g\<rparr>))"

definition words :: "nat \<Rightarrow> nat" where
  "words n = wrap64 (n + 31) div 32"

definition words_cost :: "nat \<Rightarrow> nat" where
  "words_cost w = wrap64 (wrap64 (w * gasMemory) + wrap64 (w * w) div 512)"

definition memoryGas :: "nat \<Rightarrow> nat \<Rightarrow> nat" where
  "memoryGas currentSize newSize = (if newSize \<le> currentSize then 0
     else let newCost = words_cost (words newSize); oldCost = words_cost (words currentSize)
       in if newCost \<le> oldCost then 0 else newCost - oldCost)"

subsection \<open>Memory\<close>

definition max_alloc :: nat where
  "max_alloc = 2 ^ 48"

definition expandMemory :: "nat \<Rightarrow> nat \<Rightarrow> EVMExecutor \<Rightarrow> EVMExecutor res" where
  "expandMemory offset sz e = (if sz = 0 then Ok e
     else let newSize = wrap64 (offset + sz)
       in if newSize < offset then Err MemoryOverflow (evGasUsed e)
          else case useGas (memoryGas (length (evMemory e)) newSize) e of
              Ok e \<Rightarrow> (if length (evMemory e) < newSize
                 then if max_alloc < newSize then Crash
                   else Ok (e\<lparr>evMemory := evMemory e
                     @ replicate (newSize - length (evMemory e)) 0\<rparr>)
                 else Ok e)
            | r \<Rightarrow> r)"

definition getMemory :: "nat \<Rightarrow> nat \<Rightarrow> EVMExecutor \<Rightarrow> bytes outcome" where
  "getMemory offset sz e = (if sz = 0 then Done []
     else if wrap64 (offset + sz) < offset then Done []
     else if max_alloc < sz then Panics
     else Done (map (\<lambda>i. let idx = wrap64 (offset + i)
            in if idx < length (evMemory e) then evMemory e ! idx else 0) [0..<sz]))"

text \<open>The three copy loops of the code: the first stops at the end of the source, the second skips.\<close>

fun copy_until :: "nat \<Rightarrow> nat \<Rightarrow> nat \<Rightarrow> nat \<Rightarrow> bytes \<Rightarrow> bytes \<Rightarrow> bytes" where
  "copy_until 0 i dst src data mem = mem"
| "copy_until (Suc n) i dst src data mem = (let idx = wrap64 (src + i)
     in if length data \<le> idx then mem
        else copy_until n (Suc i) dst src data
          (if wrap64 (dst + i) < length mem then mem[wrap64 (dst + i) := data ! idx] else mem))"

fun copy_skip :: "nat \<Rightarrow> nat \<Rightarrow> nat \<Rightarrow> nat \<Rightarrow> bytes \<Rightarrow> bytes \<Rightarrow> bytes" where
  "copy_skip 0 i dst src data mem = mem"
| "copy_skip (Suc n) i dst src data mem = (let idx = wrap64 (src + i)
     in copy_skip n (Suc i) dst src data
       (if idx < length data \<and> wrap64 (dst + i) < length mem
        then mem[wrap64 (dst + i) := data ! idx] else mem))"

text \<open>\<open>copy(mem[at:], data)\<close>.\<close>

definition copy_at :: "nat \<Rightarrow> bytes \<Rightarrow> bytes \<Rightarrow> bytes" where
  "copy_at i data mem = take i mem @ take (length mem - i) data @ drop (i + length data) mem"

subsection \<open>Addresses of created contracts\<close>

definition createAddress :: "(bytes \<Rightarrow> bytes) \<Rightarrow> bytes \<Rightarrow> nat \<Rightarrow> bytes" where
  "createAddress keccak caller nonce = drop 12 (keccak (caller @ be 8 nonce))"

definition createAddress2 :: "(bytes \<Rightarrow> bytes) \<Rightarrow> bytes \<Rightarrow> bytes \<Rightarrow> bytes \<Rightarrow> bytes" where
  "createAddress2 keccak caller salt initCode
     = drop 12 (keccak (0xFF # caller @ salt @ keccak initCode))"

subsection \<open>Jump destinations\<close>

fun jump_dests :: "nat \<Rightarrow> bytes \<Rightarrow> nat list" where
  "jump_dests i [] = []"
| "jump_dests i (b # bs) = (if b = 0x5B then i # jump_dests (Suc i) bs
     else if 0x60 \<le> b \<and> b \<le> 0x7F
     then let n = unat b - 0x60 + 1 in jump_dests (Suc (i + n)) (drop n bs)
     else jump_dests (Suc i) bs)"

definition computeJumpDests :: "bytes \<Rightarrow> nat list" where
  "computeJumpDests code = jump_dests 0 code"

end
