(* ===== verification/EVM_Ops.thy ===== *)
theory EVM_Ops
  imports EVM_Machine
begin

text \<open>
  The instructions of the interpreter that stay in their frame: one definition per case of the switch
  in \<open>Execute\<close> (\<open>vm/evm.go\<close>), in the order of the opcodes, and the table that the
  switch is. The checks, the gas charge and the pops are in the order of the code, since the gas used
  so far is part of every result. \<open>keccak\<close> is the hash of the library, \<open>I\<close> the state
  interface.
\<close>

unbundle bit_operations_syntax

subsection \<open>Taking operands\<close>

definition pop1 :: "EVMExecutor \<Rightarrow> 's \<Rightarrow> (int \<Rightarrow> int list \<Rightarrow> 's after) \<Rightarrow> 's after" where
  "pop1 e s k = (case evStack e of a # r \<Rightarrow> k a r
     | _ \<Rightarrow> Halt [] (evGasUsed e) (Some StackUnderflow) s)"

definition pop2 :: "EVMExecutor \<Rightarrow> 's \<Rightarrow> (int \<Rightarrow> int \<Rightarrow> int list \<Rightarrow> 's after) \<Rightarrow> 's after" where
  "pop2 e s k = (case evStack e of b # a # r \<Rightarrow> k b a r
     | _ \<Rightarrow> Halt [] (evGasUsed e) (Some StackUnderflow) s)"

definition pop3 ::
    "EVMExecutor \<Rightarrow> 's \<Rightarrow> (int \<Rightarrow> int \<Rightarrow> int \<Rightarrow> int list \<Rightarrow> 's after) \<Rightarrow> 's after" where
  "pop3 e s k = (case evStack e of c # b # a # r \<Rightarrow> k c b a r
     | _ \<Rightarrow> Halt [] (evGasUsed e) (Some StackUnderflow) s)"

definition pop4 ::
    "EVMExecutor \<Rightarrow> 's \<Rightarrow> (int \<Rightarrow> int \<Rightarrow> int \<Rightarrow> int \<Rightarrow> int list \<Rightarrow> 's after) \<Rightarrow> 's after" where
  "pop4 e s k = (case evStack e of d # c # b # a # r \<Rightarrow> k d c b a r
     | _ \<Rightarrow> Halt [] (evGasUsed e) (Some StackUnderflow) s)"

definition binop ::
    "nat \<Rightarrow> (int \<Rightarrow> int \<Rightarrow> int outcome) \<Rightarrow> EVMExecutor \<Rightarrow> 's \<Rightarrow> 's after" where
  "binop cost f e s = pop2 e s (\<lambda>b a r. bind_res (useGas cost e) s (\<lambda>e.
     bind_out (f b a) (\<lambda>v. Next (e\<lparr>evStack := v # r\<rparr>) s)))"

definition triop ::
    "nat \<Rightarrow> (int \<Rightarrow> int \<Rightarrow> int \<Rightarrow> int) \<Rightarrow> EVMExecutor \<Rightarrow> 's \<Rightarrow> 's after" where
  "triop cost f e s = pop3 e s (\<lambda>c b a r. bind_res (useGas cost e) s (\<lambda>e.
     Next (e\<lparr>evStack := f c b a # r\<rparr>) s))"

definition unop :: "nat \<Rightarrow> (int \<Rightarrow> int) \<Rightarrow> EVMExecutor \<Rightarrow> 's \<Rightarrow> 's after" where
  "unop cost f e s = pop1 e s (\<lambda>a r. bind_res (useGas cost e) s (\<lambda>e.
     Next (e\<lparr>evStack := f a # r\<rparr>) s))"

definition push_op :: "nat \<Rightarrow> (EVMExecutor \<Rightarrow> int) \<Rightarrow> EVMExecutor \<Rightarrow> 's \<Rightarrow> 's after" where
  "push_op cost f e s = bind_res (useGas cost e) s (\<lambda>e.
     Next (e\<lparr>evStack := f e # evStack e\<rparr>) s)"

definition of_flag :: "bool \<Rightarrow> int" where
  "of_flag p = (if p then 1 else 0)"

subsection \<open>Arithmetic\<close>

definition opADD :: "EVMExecutor \<Rightarrow> 's \<Rightarrow> 's after" where
  "opADD = binop gasFastest (\<lambda>b a. Done (wrap256 (a + b)))"

definition opSUB :: "EVMExecutor \<Rightarrow> 's \<Rightarrow> 's after" where
  "opSUB = binop gasFastest (\<lambda>b a. Done (wrap256 (a - b)))"

definition opMUL :: "EVMExecutor \<Rightarrow> 's \<Rightarrow> 's after" where
  "opMUL = binop gasFast (\<lambda>b a. Done (wrap256 (a * b)))"

definition opDIV :: "EVMExecutor \<Rightarrow> 's \<Rightarrow> 's after" where
  "opDIV = binop gasFast (\<lambda>b a. Done (if b = 0 then 0 else big_Div a b))"

definition opSDIV :: "EVMExecutor \<Rightarrow> 's \<Rightarrow> 's after" where
  "opSDIV = binop gasFast (\<lambda>b a. if b = 0 then Done 0
     else bind_outcome (toSigned256 a) (\<lambda>sa. bind_outcome (toSigned256 b) (\<lambda>sb.
       Done (toUnsigned256 (big_Div sa sb)))))"

definition opMOD :: "EVMExecutor \<Rightarrow> 's \<Rightarrow> 's after" where
  "opMOD = binop gasFast (\<lambda>b a. Done (if b = 0 then 0 else big_Mod a b))"

definition opSMOD :: "EVMExecutor \<Rightarrow> 's \<Rightarrow> 's after" where
  "opSMOD = binop gasFast (\<lambda>b a. if b = 0 then Done 0
     else bind_outcome (toSigned256 a) (\<lambda>sa. bind_outcome (toSigned256 b) (\<lambda>sb.
       Done (toUnsigned256 (big_Mod sa sb)))))"

definition opADDMOD :: "EVMExecutor \<Rightarrow> 's \<Rightarrow> 's after" where
  "opADDMOD = triop gasMid (\<lambda>c b a. if c = 0 then 0 else big_Mod (a + b) c)"

definition opMULMOD :: "EVMExecutor \<Rightarrow> 's \<Rightarrow> 's after" where
  "opMULMOD = triop gasMid (\<lambda>c b a. if c = 0 then 0 else big_Mod (a * b) c)"

definition opEXP :: "EVMExecutor \<Rightarrow> 's \<Rightarrow> 's after" where
  "opEXP e s = pop2 e s (\<lambda>exponent base r.
     bind_res (useGas (gasExp + gasExpByte * length (big_bytes (nat \<bar>exponent\<bar>))) e) s (\<lambda>e.
       Next (e\<lparr>evStack := (if exponent = 0 then 1 else wrap256 (big_Exp base exponent)) # r\<rparr>) s))"

definition sign_extend :: "int \<Rightarrow> int \<Rightarrow> int outcome" where
  "sign_extend b a = (if b < 0 \<or> 31 \<le> big_Uint64 b then Done a
     else bind_outcome (FillBytes32 a) (\<lambda>bs.
       let pos = 31 - big_Uint64 b; fill = (if bit (bs ! pos) 7 then 0xFF else 0)
       in Done (SetBytes (replicate pos fill @ drop pos bs))))"

definition opSIGNEXTEND :: "EVMExecutor \<Rightarrow> 's \<Rightarrow> 's after" where
  "opSIGNEXTEND = binop gasFast sign_extend"

subsection \<open>Comparisons\<close>

definition opLT :: "EVMExecutor \<Rightarrow> 's \<Rightarrow> 's after" where
  "opLT = binop gasFastest (\<lambda>b a. Done (of_flag (b < a)))"

definition opGT :: "EVMExecutor \<Rightarrow> 's \<Rightarrow> 's after" where
  "opGT = binop gasFastest (\<lambda>b a. Done (of_flag (b > a)))"

definition opSLT :: "EVMExecutor \<Rightarrow> 's \<Rightarrow> 's after" where
  "opSLT = binop gasFastest (\<lambda>b a. bind_outcome (toSigned256 b) (\<lambda>sb.
     bind_outcome (toSigned256 a) (\<lambda>sa. Done (of_flag (sb < sa)))))"

definition opSGT :: "EVMExecutor \<Rightarrow> 's \<Rightarrow> 's after" where
  "opSGT = binop gasFastest (\<lambda>b a. bind_outcome (toSigned256 b) (\<lambda>sb.
     bind_outcome (toSigned256 a) (\<lambda>sa. Done (of_flag (sb > sa)))))"

definition opEQ :: "EVMExecutor \<Rightarrow> 's \<Rightarrow> 's after" where
  "opEQ = binop gasFastest (\<lambda>b a. Done (of_flag (a = b)))"

definition opISZERO :: "EVMExecutor \<Rightarrow> 's \<Rightarrow> 's after" where
  "opISZERO = unop gasFastest (\<lambda>a. of_flag (a = 0))"

subsection \<open>Bits\<close>

definition opAND :: "EVMExecutor \<Rightarrow> 's \<Rightarrow> 's after" where
  "opAND = binop gasFastest (\<lambda>b a. Done (a AND b))"

definition opOR :: "EVMExecutor \<Rightarrow> 's \<Rightarrow> 's after" where
  "opOR = binop gasFastest (\<lambda>b a. Done (a OR b))"

definition opXOR :: "EVMExecutor \<Rightarrow> 's \<Rightarrow> 's after" where
  "opXOR = binop gasFastest (\<lambda>b a. Done (a XOR b))"

definition opNOT :: "EVMExecutor \<Rightarrow> 's \<Rightarrow> 's after" where
  "opNOT = unop gasFastest (\<lambda>a. a XOR (2 ^ 256 - 1))"

definition opBYTE :: "EVMExecutor \<Rightarrow> 's \<Rightarrow> 's after" where
  "opBYTE = binop gasFast (\<lambda>pos v. Done (if 0 \<le> pos \<and> pos \<le> 31
     then drop_bit ((31 - big_Uint64 pos) * 8) v AND 0xFF else 0))"

definition opSHL :: "EVMExecutor \<Rightarrow> 's \<Rightarrow> 's after" where
  "opSHL = binop gasFast (\<lambda>shift v. let n = big_Uint64 shift
     in Done (if 255 < n then 0 else wrap256 (push_bit n v)))"

definition opSHR :: "EVMExecutor \<Rightarrow> 's \<Rightarrow> 's after" where
  "opSHR = binop gasFast (\<lambda>shift v. let n = big_Uint64 shift
     in Done (if 255 < n then 0 else drop_bit n v))"

definition opSAR :: "EVMExecutor \<Rightarrow> 's \<Rightarrow> 's after" where
  "opSAR = binop gasFast (\<lambda>shift v. let n = (if 255 < big_Uint64 shift then 255 else big_Uint64 shift)
     in bind_outcome (toSigned256 v) (\<lambda>sval. Done (toUnsigned256 (drop_bit n sval))))"

subsection \<open>Hashing\<close>

definition opSHA3 :: "(bytes \<Rightarrow> bytes) \<Rightarrow> EVMExecutor \<Rightarrow> 's \<Rightarrow> 's after" where
  "opSHA3 keccak e s = pop2 e s (\<lambda>offset sz r.
     if sz < 0 \<or> offset < 0
     then Halt [] (evGasUsed e) (Some (NegativeArgument ''sha3'')) s
     else let off = big_Uint64 offset; n = big_Uint64 sz
       in bind_res (expandMemory off n e) s (\<lambda>e.
          bind_res (useGas (wrap64 (gasSha3 + wrap64 (gasSha3Word * words n))) e) s (\<lambda>e.
          bind_out (getMemory off n e) (\<lambda>data.
            Next (e\<lparr>evStack := SetBytes (keccak data) # r\<rparr>) s))))"

subsection \<open>The environment\<close>

definition opADDRESS :: "EVMExecutor \<Rightarrow> 's \<Rightarrow> 's after" where
  "opADDRESS = push_op gasMid (\<lambda>e. SetBytes (cxAddress (evCtx e)))"

definition opBALANCE :: "'s EVMState \<Rightarrow> EVMExecutor \<Rightarrow> 's \<Rightarrow> 's after" where
  "opBALANCE I e s = pop1 e s (\<lambda>a r. bind_res (useGas gasBalance e) s (\<lambda>e.
     case esGetBalance I s (toAddress a) of None \<Rightarrow> Fault
     | Some v \<Rightarrow> Next (e\<lparr>evStack := v # r\<rparr>) s))"

definition opORIGIN :: "EVMExecutor \<Rightarrow> 's \<Rightarrow> 's after" where
  "opORIGIN = push_op gasMid (\<lambda>e. SetBytes (cxCaller (evCtx e)))"

definition opCALLER :: "EVMExecutor \<Rightarrow> 's \<Rightarrow> 's after" where
  "opCALLER = push_op gasMid (\<lambda>e. SetBytes (cxCaller (evCtx e)))"

definition opGASPRICE :: "EVMExecutor \<Rightarrow> 's \<Rightarrow> 's after" where
  "opGASPRICE = push_op gasMid (\<lambda>e. safeSetBig (cxGasPrice (evCtx e)))"

definition opCALLVALUE :: "EVMExecutor \<Rightarrow> 's \<Rightarrow> 's after" where
  "opCALLVALUE = push_op gasMid (\<lambda>e. safeSetBig (cxValue (evCtx e)))"

definition opCALLDATALOAD :: "EVMExecutor \<Rightarrow> 's \<Rightarrow> 's after" where
  "opCALLDATALOAD e s = pop1 e s (\<lambda>a r. bind_res (useGas gasFastest e) s (\<lambda>e.
     let data = cxData (evCtx e); offset = big_Uint64 a
     in Next (e\<lparr>evStack := SetBytes (map (\<lambda>i. let idx = wrap64 (offset + i)
          in if idx < length data then data ! idx else 0) [0..<32]) # r\<rparr>) s))"

definition opCALLDATASIZE :: "EVMExecutor \<Rightarrow> 's \<Rightarrow> 's after" where
  "opCALLDATASIZE = push_op gasMid (\<lambda>e. int (length (cxData (evCtx e))))"

definition copyGas :: "nat \<Rightarrow> nat \<Rightarrow> nat" where
  "copyGas base n = wrap64 (base + wrap64 (gasCopy * words n))"

definition opCALLDATACOPY :: "EVMExecutor \<Rightarrow> 's \<Rightarrow> 's after" where
  "opCALLDATACOPY e s = pop3 e s (\<lambda>destOffset srcOffset sz r.
     if destOffset < 0 \<or> srcOffset < 0 \<or> sz < 0
     then Halt [] (evGasUsed e) (Some (NegativeArgument ''calldatacopy'')) s
     else let dst = big_Uint64 destOffset; src = big_Uint64 srcOffset; n = big_Uint64 sz
       in bind_res (expandMemory dst n e) s (\<lambda>e. bind_res (useGas (copyGas gasFastest n) e) s (\<lambda>e.
          Next (e\<lparr>evStack := r,
            evMemory := copy_until n 0 dst src (cxData (evCtx e)) (evMemory e)\<rparr>) s)))"

definition opCODESIZE :: "EVMExecutor \<Rightarrow> 's \<Rightarrow> 's after" where
  "opCODESIZE = push_op gasMid (\<lambda>e. int (length (evCode e)))"

definition opCODECOPY :: "EVMExecutor \<Rightarrow> 's \<Rightarrow> 's after" where
  "opCODECOPY e s = pop3 e s (\<lambda>memOffset codeOffset sz r.
     if memOffset < 0 \<or> codeOffset < 0 \<or> sz < 0
     then Halt [] (evGasUsed e) (Some (NegativeArgument ''codecopy'')) s
     else let dst = big_Uint64 memOffset; src = big_Uint64 codeOffset; n = big_Uint64 sz
       in bind_res (expandMemory dst n e) s (\<lambda>e. bind_res (useGas (copyGas gasFastest n) e) s (\<lambda>e.
          Next (e\<lparr>evStack := r,
            evMemory := copy_until n 0 dst src (evCode e) (evMemory e)\<rparr>) s)))"

definition opRETURNDATASIZE :: "EVMExecutor \<Rightarrow> 's \<Rightarrow> 's after" where
  "opRETURNDATASIZE = push_op gasMid (\<lambda>e. int (length (evReturndata e)))"

definition opRETURNDATACOPY :: "EVMExecutor \<Rightarrow> 's \<Rightarrow> 's after" where
  "opRETURNDATACOPY e s = pop3 e s (\<lambda>destOffset srcOffset sz r.
     if destOffset < 0 \<or> srcOffset < 0 \<or> sz < 0
     then Halt [] (evGasUsed e) (Some (NegativeArgument ''returndatacopy'')) s
     else let dst = big_Uint64 destOffset; src = big_Uint64 srcOffset; n = big_Uint64 sz
       in if wrap64 (src + n) < src \<or> length (evReturndata e) < wrap64 (src + n)
          then Halt [] (evGasUsed e) (Some ReturnDataBounds) s
          else bind_res (expandMemory dst n e) s (\<lambda>e.
            bind_res (useGas (copyGas gasFastest n) e) s (\<lambda>e.
              Next (e\<lparr>evStack := r,
                evMemory := copy_skip n 0 dst src (evReturndata e) (evMemory e)\<rparr>) s)))"

subsection \<open>Stack, memory, storage and control\<close>

definition opPOP :: "EVMExecutor \<Rightarrow> 's \<Rightarrow> 's after" where
  "opPOP e s = pop1 e s (\<lambda>a r. bind_res (useGas gasFastest e) s (\<lambda>e.
     Next (e\<lparr>evStack := r\<rparr>) s))"

definition opMLOAD :: "EVMExecutor \<Rightarrow> 's \<Rightarrow> 's after" where
  "opMLOAD e s = pop1 e s (\<lambda>a r. let offset = big_Uint64 a
     in bind_res (expandMemory offset 32 e) s (\<lambda>e. bind_res (useGas gasFastest e) s (\<lambda>e.
        bind_out (getMemory offset 32 e) (\<lambda>data.
          Next (e\<lparr>evStack := SetBytes data # r\<rparr>) s))))"

definition opMSTORE :: "EVMExecutor \<Rightarrow> 's \<Rightarrow> 's after" where
  "opMSTORE e s = pop2 e s (\<lambda>a v r. let offset = big_Uint64 a
     in bind_res (expandMemory offset 32 e) s (\<lambda>e. bind_res (useGas gasFastest e) s (\<lambda>e.
        bind_out (FillBytes32 v) (\<lambda>valBytes.
          Next (e\<lparr>evStack := r, evMemory := copy_at offset valBytes (evMemory e)\<rparr>) s))))"

definition opMSTORE8 :: "EVMExecutor \<Rightarrow> 's \<Rightarrow> 's after" where
  "opMSTORE8 e s = pop2 e s (\<lambda>a v r. let offset = big_Uint64 a; valBytes = big_bytes (nat \<bar>v\<bar>)
     in bind_res (expandMemory offset 1 e) s (\<lambda>e. bind_res (useGas gasFastest e) s (\<lambda>e.
        Next (e\<lparr>evStack := r, evMemory :=
          (if valBytes \<noteq> [] \<and> offset < length (evMemory e)
           then (evMemory e)[offset := last valBytes] else evMemory e)\<rparr>) s)))"

definition opSLOAD :: "'s EVMState \<Rightarrow> EVMExecutor \<Rightarrow> 's \<Rightarrow> 's after" where
  "opSLOAD I e s = pop1 e s (\<lambda>a r. bind_res (useGas gasSload e) s (\<lambda>e.
     bind_out (FillBytes32 a) (\<lambda>key.
       Next (e\<lparr>evStack := SetBytes (esGetStorage I s (cxAddress (evCtx e)) key) # r\<rparr>) s)))"

definition bytes_is_zero :: "bytes \<Rightarrow> bool" where
  "bytes_is_zero v \<longleftrightarrow> length v = 0 \<or> length v = 1 \<and> v ! 0 = 0"

definition opSSTORE :: "'s EVMState \<Rightarrow> EVMExecutor \<Rightarrow> 's \<Rightarrow> 's after" where
  "opSSTORE I e s = (if evStaticCall e
     then Halt [] (evGasUsed e) (Some (StaticViolation ''sstore'')) s
     else pop2 e s (\<lambda>keyVal valueVal r. bind_out (FillBytes32 keyVal) (\<lambda>key.
       bind_out (FillBytes32 valueVal) (\<lambda>v.
       let current = esGetStorage I s (cxAddress (evCtx e)) key;
           cost = (if bytes_is_zero current \<and> \<not> bytes_is_zero v then gasSstoreSet else gasSstoreReset)
       in bind_res (useGas cost e) s (\<lambda>e.
          bind_out (esSetStorage I s (cxAddress (evCtx e)) key (Some v)) (\<lambda>s.
          Next (e\<lparr>evStack := r\<rparr>) s))))))"

definition opJUMP :: "EVMExecutor \<Rightarrow> 's \<Rightarrow> 's after" where
  "opJUMP e s = pop1 e s (\<lambda>a r. bind_res (useGas gasMid e) s (\<lambda>e.
     let dest = big_Uint64 a
     in if dest \<notin> set (evJumpDests e) then Halt [] (evGasUsed e) (Some InvalidJump) s
        else Next (e\<lparr>evStack := r, evPc := dest\<rparr>) s))"

definition opJUMPI :: "EVMExecutor \<Rightarrow> 's \<Rightarrow> 's after" where
  "opJUMPI e s = pop2 e s (\<lambda>cond destVal r. bind_res (useGas gasMid e) s (\<lambda>e.
     let dest = big_Uint64 destVal
     in if cond \<noteq> 0
        then if dest \<notin> set (evJumpDests e) then Halt [] (evGasUsed e) (Some InvalidJump) s
          else Next (e\<lparr>evStack := r, evPc := dest\<rparr>) s
        else Next (e\<lparr>evStack := r\<rparr>) s))"

definition opPC :: "EVMExecutor \<Rightarrow> 's \<Rightarrow> 's after" where
  "opPC = push_op gasFastest (\<lambda>e. int (evPc e - 1))"

definition opMSIZE :: "EVMExecutor \<Rightarrow> 's \<Rightarrow> 's after" where
  "opMSIZE = push_op gasFastest (\<lambda>e. int (length (evMemory e)))"

definition opGAS :: "EVMExecutor \<Rightarrow> 's \<Rightarrow> 's after" where
  "opGAS = push_op gasFastest (\<lambda>e. int (usub (cxGasLimit (evCtx e)) (evGasUsed e)))"

definition opJUMPDEST :: "EVMExecutor \<Rightarrow> 's \<Rightarrow> 's after" where
  "opJUMPDEST e s = bind_res (useGas gasFastest e) s (\<lambda>e. Next e s)"

definition opSTOP :: "EVMExecutor \<Rightarrow> 's \<Rightarrow> 's after" where
  "opSTOP e s = Halt [] (evGasUsed e) None s"

definition opINVALID :: "EVMExecutor \<Rightarrow> 's \<Rightarrow> 's after" where
  "opINVALID e s = Halt [] (cxGasLimit (evCtx e)) (Some InvalidOpcode) s"

definition opRETURN :: "EVMExecutor \<Rightarrow> 's \<Rightarrow> 's after" where
  "opRETURN e s = pop2 e s (\<lambda>offset sz r. bind_res (useGas gasSlow e) s (\<lambda>e.
     bind_out (getMemory (big_Uint64 offset) (big_Uint64 sz) e) (\<lambda>data.
       Halt data (evGasUsed e) None s)))"

definition opREVERT :: "EVMExecutor \<Rightarrow> 's \<Rightarrow> 's after" where
  "opREVERT e s = pop2 e s (\<lambda>offset sz r. bind_res (useGas gasSlow e) s (\<lambda>e.
     bind_out (getMemory (big_Uint64 offset) (big_Uint64 sz) e) (\<lambda>data.
       Halt data (evGasUsed e) (Some Reverted) s)))"

subsection \<open>Logs and self-destruction\<close>

fun fill_all :: "int list \<Rightarrow> bytes list outcome" where
  "fill_all [] = Done []"
| "fill_all (x # xs) = bind_outcome (FillBytes32 x) (\<lambda>b.
     bind_outcome (fill_all xs) (\<lambda>bs. Done (b # bs)))"

text \<open>
  \<open>topics[i]\<close> is read from the bottom of the popped items upwards: the first topic is the
  deepest. The size is on top of the stack and the offset below it.
\<close>

definition opLOG :: "'s EVMState \<Rightarrow> nat \<Rightarrow> EVMExecutor \<Rightarrow> 's \<Rightarrow> 's after" where
  "opLOG I numTopics e s = (if evStaticCall e
     then Halt [] (evGasUsed e) (Some (StaticViolation ''log'')) s
     else if length (evStack e) < 2 + numTopics
     then Halt [] (evGasUsed e) (Some StackUnderflow) s
     else let sz = big_Uint64 (evStack e ! 0); offset = big_Uint64 (evStack e ! 1)
       in bind_out (fill_all (rev (take numTopics (drop 2 (evStack e))))) (\<lambda>topics.
          bind_res (useGas (wrap64 (gasLog + numTopics * gasLogTopic + wrap64 (sz * gasLogData)))
            (e\<lparr>evStack := drop (2 + numTopics) (evStack e)\<rparr>)) s (\<lambda>e.
          bind_res (expandMemory offset sz e) s (\<lambda>e.
          bind_out (getMemory offset sz e) (\<lambda>data.
            Next e (esAddLog I s (cxAddress (evCtx e)) topics data))))))"

definition opSELFDESTRUCT :: "'s EVMState \<Rightarrow> EVMExecutor \<Rightarrow> 's \<Rightarrow> 's after" where
  "opSELFDESTRUCT I e s = (if evStaticCall e
     then Halt [] (evGasUsed e) (Some (StaticViolation ''selfdestruct'')) s
     else pop1 e s (\<lambda>a r. bind_res (useGas gasSelfdestruct e) s (\<lambda>e.
       let self = cxAddress (evCtx e)
       in case esGetBalance I s self of None \<Rightarrow> Fault
          | Some balance \<Rightarrow>
              bind_out (if 0 < balance then esTransfer I s self (toAddress a) balance else Done s)
                (\<lambda>s. bind_out (esSetStorage I s self [] None) (\<lambda>s.
                  Halt [] (evGasUsed e) None s)))))"

subsection \<open>The block\<close>

definition opCOINBASE :: "EVMExecutor \<Rightarrow> 's \<Rightarrow> 's after" where
  "opCOINBASE = push_op gasMid (\<lambda>e. case cxCoinbase (evCtx e) of None \<Rightarrow> 0 | Some b \<Rightarrow> SetBytes b)"

definition opTIMESTAMP :: "EVMExecutor \<Rightarrow> 's \<Rightarrow> 's after" where
  "opTIMESTAMP = push_op gasMid (\<lambda>e. int (cxTimestamp (evCtx e)))"

definition opNUMBER :: "EVMExecutor \<Rightarrow> 's \<Rightarrow> 's after" where
  "opNUMBER = push_op gasMid (\<lambda>e. int (cxBlockNum (evCtx e)))"

definition opPREVRANDAO :: "EVMExecutor \<Rightarrow> 's \<Rightarrow> 's after" where
  "opPREVRANDAO = push_op gasMid
     (\<lambda>e. case cxPrevRandao (evCtx e) of None \<Rightarrow> 0 | Some b \<Rightarrow> SetBytes b)"

definition opGASLIMIT :: "EVMExecutor \<Rightarrow> 's \<Rightarrow> 's after" where
  "opGASLIMIT = push_op gasMid (\<lambda>e. int (cxBlockGasLimit (evCtx e)))"

definition opCHAINID :: "EVMExecutor \<Rightarrow> 's \<Rightarrow> 's after" where
  "opCHAINID = push_op gasMid (\<lambda>e. case cxChainID (evCtx e) of Some v \<Rightarrow> v | None \<Rightarrow> 0)"

definition opSELFBALANCE :: "'s EVMState \<Rightarrow> EVMExecutor \<Rightarrow> 's \<Rightarrow> 's after" where
  "opSELFBALANCE I e s = push_op gasFast
     (\<lambda>e. safeSetBig (esGetBalance I s (cxAddress (evCtx e)))) e s"

definition opBASEFEE :: "EVMExecutor \<Rightarrow> 's \<Rightarrow> 's after" where
  "opBASEFEE = push_op gasMid (\<lambda>e. case cxBaseFee (evCtx e) of Some v \<Rightarrow> v | None \<Rightarrow> 0)"

definition opBLOCKHASH :: "EVMExecutor \<Rightarrow> 's \<Rightarrow> 's after" where
  "opBLOCKHASH e s = pop1 e s (\<lambda>a r. bind_res (useGas gasMid e) s (\<lambda>e.
     Next (e\<lparr>evStack := (case cxGetBlockHash (evCtx e) of
         Some f \<Rightarrow> (let hash = f (big_Uint64 a) in if length hash = 0 then 0 else SetBytes hash)
       | None \<Rightarrow> 0) # r\<rparr>) s))"

subsection \<open>Transient storage, memory copies and foreign code\<close>

definition opPUSH0 :: "EVMExecutor \<Rightarrow> 's \<Rightarrow> 's after" where
  "opPUSH0 = push_op gasFastest (\<lambda>e. 0)"

definition opTLOAD :: "'s EVMState \<Rightarrow> EVMExecutor \<Rightarrow> 's \<Rightarrow> 's after" where
  "opTLOAD I e s = pop1 e s (\<lambda>a r. bind_res (useGas gasFastest e) s (\<lambda>e.
     bind_out (FillBytes32 a) (\<lambda>key.
       Next (e\<lparr>evStack := SetBytes (esGetStorage I s (cxAddress (evCtx e)) key) # r\<rparr>) s)))"

definition opTSTORE :: "'s EVMState \<Rightarrow> EVMExecutor \<Rightarrow> 's \<Rightarrow> 's after" where
  "opTSTORE I e s = pop2 e s (\<lambda>keyVal valueVal r. bind_out (FillBytes32 keyVal) (\<lambda>key.
     bind_out (FillBytes32 valueVal) (\<lambda>v. bind_res (useGas gasSstoreReset e) s (\<lambda>e.
       bind_out (esSetStorage I s (cxAddress (evCtx e)) key (Some v)) (\<lambda>s.
       Next (e\<lparr>evStack := r\<rparr>) s)))))"

text \<open>
  In \<open>evm.memory[dst:dst+copyLen]\<close> the upper bound has wrapped when it is below \<open>dst\<close>, and
  Go panics on such a slice.
\<close>

definition opMCOPY :: "EVMExecutor \<Rightarrow> 's \<Rightarrow> 's after" where
  "opMCOPY e s = pop3 e s (\<lambda>dstV srcV sizeV r.
     let dst = big_Uint64 dstV; src = big_Uint64 srcV; sz = big_Uint64 sizeV
     in if dstV < 0 \<or> srcV < 0 \<or> sizeV < 0
        then Halt [] (evGasUsed e) (Some (NegativeArgument ''mcopy'')) s
        else let dstEnd = wrap64 (dst + sz); srcEnd = wrap64 (src + sz);
                 maxEnd = (if dstEnd < srcEnd then srcEnd else dstEnd)
          in bind_res (expandMemory 0 maxEnd e) s (\<lambda>e.
             bind_res (useGas (copyGas gasFastest sz) e) s (\<lambda>e.
             let m = evMemory e;
                 copyLen = (if length m < srcEnd \<or> length m < dstEnd then 0 else sz)
             in if copyLen = 0 then Next (e\<lparr>evStack := r\<rparr>) s
                else if dstEnd < dst \<or> srcEnd < src then Fault
                else Next (e\<lparr>evStack := r,
                  evMemory := copy_at dst (take copyLen (drop src m)) m\<rparr>) s)))"

definition opEXTCODESIZE :: "'s EVMState \<Rightarrow> EVMExecutor \<Rightarrow> 's \<Rightarrow> 's after" where
  "opEXTCODESIZE I e s = pop1 e s (\<lambda>a r. bind_res (useGas gasExt e) s (\<lambda>e.
     Next (e\<lparr>evStack := int (length (esGetCode I s (toAddress a))) # r\<rparr>) s))"

definition opEXTCODECOPY :: "'s EVMState \<Rightarrow> EVMExecutor \<Rightarrow> 's \<Rightarrow> 's after" where
  "opEXTCODECOPY I e s = pop4 e s (\<lambda>addrV memOffsetV codeOffsetV sizeV r.
     if addrV < 0 \<or> memOffsetV < 0 \<or> codeOffsetV < 0 \<or> sizeV < 0
     then Halt [] (evGasUsed e) (Some (NegativeArgument ''extcodecopy'')) s
     else let dst = big_Uint64 memOffsetV; src = big_Uint64 codeOffsetV; n = big_Uint64 sizeV
       in bind_res (expandMemory dst n e) s (\<lambda>e. bind_res (useGas (copyGas gasExt n) e) s (\<lambda>e.
          Next (e\<lparr>evStack := r, evMemory := copy_skip n 0 dst src
            (esGetCode I s (toAddress addrV)) (evMemory e)\<rparr>) s)))"

definition opEXTCODEHASH ::
    "(bytes \<Rightarrow> bytes) \<Rightarrow> 's EVMState \<Rightarrow> EVMExecutor \<Rightarrow> 's \<Rightarrow> 's after" where
  "opEXTCODEHASH keccak I e s = pop1 e s (\<lambda>a r. bind_res (useGas gasExt e) s (\<lambda>e.
     let code = esGetCode I s (toAddress a)
     in Next (e\<lparr>evStack := (if length code = 0 then 0 else SetBytes (keccak code)) # r\<rparr>) s))"

subsection \<open>Push, duplicate, exchange\<close>

definition opPUSH :: "nat \<Rightarrow> EVMExecutor \<Rightarrow> 's \<Rightarrow> 's after" where
  "opPUSH numBytes e s = bind_res (useGas gasFastest e) s (\<lambda>e.
     Next (if evPc e + numBytes \<le> length (evCode e)
       then e\<lparr>evStack := SetBytes (take numBytes (drop (evPc e) (evCode e))) # evStack e,
              evPc := evPc e + numBytes\<rparr>
       else e\<lparr>evStack := SetBytes (drop (evPc e) (evCode e)) # evStack e,
              evPc := length (evCode e)\<rparr>) s)"

definition opDUP :: "nat \<Rightarrow> EVMExecutor \<Rightarrow> 's \<Rightarrow> 's after" where
  "opDUP n e s = bind_res (useGas gasFastest e) s (\<lambda>e.
     if length (evStack e) < n then Halt [] (evGasUsed e) (Some StackUnderflow) s
     else Next (e\<lparr>evStack := evStack e ! (n - 1) # evStack e\<rparr>) s)"

definition opSWAP :: "nat \<Rightarrow> EVMExecutor \<Rightarrow> 's \<Rightarrow> 's after" where
  "opSWAP n e s = bind_res (useGas gasFastest e) s (\<lambda>e.
     if length (evStack e) < n + 1 then Halt [] (evGasUsed e) (Some StackUnderflow) s
     else Next (e\<lparr>evStack := (evStack e)[0 := evStack e ! n, n := evStack e ! 0]\<rparr>) s)"

subsection \<open>The switch\<close>

definition op_table ::
    "(bytes \<Rightarrow> bytes) \<Rightarrow> 's EVMState \<Rightarrow> (nat \<times> (EVMExecutor \<Rightarrow> 's \<Rightarrow> 's after)) list" where
  "op_table keccak I =
     [(0x00, opSTOP), (0x01, opADD), (0x02, opMUL), (0x03, opSUB), (0x04, opDIV), (0x05, opSDIV),
      (0x06, opMOD), (0x07, opSMOD), (0x08, opADDMOD), (0x09, opMULMOD), (0x0A, opEXP),
      (0x0B, opSIGNEXTEND), (0x10, opLT), (0x11, opGT), (0x12, opSLT), (0x13, opSGT), (0x14, opEQ),
      (0x15, opISZERO), (0x16, opAND), (0x17, opOR), (0x18, opXOR), (0x19, opNOT), (0x1A, opBYTE),
      (0x1B, opSHL), (0x1C, opSHR), (0x1D, opSAR), (0x20, opSHA3 keccak), (0x30, opADDRESS),
      (0x31, opBALANCE I), (0x32, opORIGIN), (0x33, opCALLER), (0x34, opCALLVALUE),
      (0x35, opCALLDATALOAD), (0x36, opCALLDATASIZE), (0x37, opCALLDATACOPY), (0x38, opCODESIZE),
      (0x39, opCODECOPY), (0x3A, opGASPRICE), (0x3B, opEXTCODESIZE I), (0x3C, opEXTCODECOPY I),
      (0x3D, opRETURNDATASIZE), (0x3E, opRETURNDATACOPY), (0x3F, opEXTCODEHASH keccak I),
      (0x40, opBLOCKHASH), (0x41, opCOINBASE), (0x42, opTIMESTAMP), (0x43, opNUMBER),
      (0x44, opPREVRANDAO), (0x45, opGASLIMIT), (0x46, opCHAINID), (0x47, opSELFBALANCE I),
      (0x48, opBASEFEE), (0x50, opPOP), (0x51, opMLOAD), (0x52, opMSTORE), (0x53, opMSTORE8),
      (0x54, opSLOAD I), (0x55, opSSTORE I), (0x56, opJUMP), (0x57, opJUMPI), (0x58, opPC),
      (0x59, opMSIZE), (0x5A, opGAS), (0x5B, opJUMPDEST), (0x5C, opTLOAD I), (0x5D, opTSTORE I),
      (0x5E, opMCOPY), (0x5F, opPUSH0), (0xA0, opLOG I 0), (0xA1, opLOG I 1), (0xA2, opLOG I 2),
      (0xA3, opLOG I 3), (0xA4, opLOG I 4), (0xF3, opRETURN), (0xFD, opREVERT), (0xFE, opINVALID),
      (0xFF, opSELFDESTRUCT I)]"

text \<open>The cases without calls: the table, then the ranges of the \<open>default\<close> case.\<close>

definition simple_op ::
    "(bytes \<Rightarrow> bytes) \<Rightarrow> 's EVMState \<Rightarrow> nat \<Rightarrow> EVMExecutor \<Rightarrow> 's \<Rightarrow> 's after" where
  "simple_op keccak I op = (case map_of (op_table keccak I) op of Some h \<Rightarrow> h
     | None \<Rightarrow> if 0x60 \<le> op \<and> op \<le> 0x7F then opPUSH (op - 0x60 + 1)
        else if 0x80 \<le> op \<and> op < 0x80 + 16 then opDUP (op - 0x80 + 1)
        else if 0x90 \<le> op \<and> op < 0x90 + 16 then opSWAP (op - 0x90 + 1)
        else opINVALID)"

lemma simple_op_cases:
  obtains (table) h where "(op, h) \<in> set (op_table keccak I)" "simple_op keccak I op = h"
  | (push) "0x60 \<le> op" "op \<le> 0x7F" "simple_op keccak I op = opPUSH (op - 0x60 + 1)"
  | (dup) "0x80 \<le> op" "op < 0x90" "simple_op keccak I op = opDUP (op - 0x80 + 1)"
  | (swap) "0x90 \<le> op" "op < 0xA0" "simple_op keccak I op = opSWAP (op - 0x90 + 1)"
  | (invalid) "simple_op keccak I op = opINVALID"
proof (cases "map_of (op_table keccak I) op")
  case None
  then have h: "simple_op keccak I op = (if 0x60 \<le> op \<and> op \<le> 0x7F then opPUSH (op - 0x60 + 1)
      else if 0x80 \<le> op \<and> op < 0x90 then opDUP (op - 0x80 + 1)
      else if 0x90 \<le> op \<and> op < 0xA0 then opSWAP (op - 0x90 + 1) else opINVALID)"
    by (simp add: simple_op_def)
  consider "0x60 \<le> op \<and> op \<le> 0x7F" | "0x80 \<le> op \<and> op < 0x90" | "0x90 \<le> op \<and> op < 0xA0"
    | "op < 0x60" | "0xA0 \<le> op" by linarith
  then show thesis using push dup swap invalid h by cases simp_all
next
  case (Some h)
  then show thesis using table [of h] by (simp add: simple_op_def map_of_SomeD)
qed

end
