(* ===== verification/EVM_Run.thy ===== *)
theory EVM_Run
  imports EVM_Ops
begin

text \<open>
  Calls and creations, and the interpreter loop (\<open>Execute\<close> in \<open>vm/evm.go\<close>). An instruction
  that starts another executor is an \<open>Enter\<close>: the executor with its code, the state it starts in,
  and what the caller does with its three results. \<open>run\<close> is the loop of \<open>Execute\<close> under a
  fuel that every iteration and every nested executor consumes; the code has no such bound, so
  \<open>None\<close> means only that the fuel did not suffice.
\<close>

datatype 's action = Plain "'s after"
  | Enter EVMExecutor bytes 's "bytes \<Rightarrow> nat \<Rightarrow> evm_error option \<Rightarrow> 's \<Rightarrow> 's after"

fun res_action :: "'a res \<Rightarrow> 's \<Rightarrow> ('a \<Rightarrow> 's action) \<Rightarrow> 's action" where
  "res_action (Ok x) s k = k x"
| "res_action (Err er g) s k = Plain (Halt [] g (Some er) s)"
| "res_action Crash s k = Plain Fault"

fun out_action :: "'a outcome \<Rightarrow> ('a \<Rightarrow> 's action) \<Rightarrow> 's action" where
  "out_action (Done x) k = k x"
| "out_action Panics k = Plain Fault"

definition fail :: "evm_error \<Rightarrow> EVMExecutor \<Rightarrow> 's \<Rightarrow> 's action" where
  "fail er e s = Plain (Halt [] (evGasUsed e) (Some er) s)"

text \<open>The context of a nested executor; copying a nil \<open>GasPrice\<close> or value panics.\<close>

definition sub_context ::
    "EVMExecutor \<Rightarrow> bytes \<Rightarrow> bytes \<Rightarrow> int option \<Rightarrow> nat \<Rightarrow> bytes \<Rightarrow> EVMContext outcome" where
  "sub_context e caller addr v limit data = (case (v, cxGasPrice (evCtx e)) of
       (Some v, Some price) \<Rightarrow> Done \<lparr>cxCaller = caller, cxAddress = addr, cxValue = Some v,
         cxGasLimit = limit, cxGasPrice = Some price, cxData = data,
         cxBlockNum = cxBlockNum (evCtx e), cxTimestamp = 0, cxChainID = None, cxCoinbase = None,
         cxBlockGasLimit = 0, cxBaseFee = None, cxPrevRandao = None, cxGetBlockHash = None\<rparr>
     | _ \<Rightarrow> Panics)"

subsection \<open>Creating contracts\<close>

text \<open>What \<open>CREATE\<close> and \<open>CREATE2\<close> do with the results of the init code.\<close>

definition resume_create ::
    "'s EVMState \<Rightarrow> EVMExecutor \<Rightarrow> int \<Rightarrow> bytes \<Rightarrow> bytes \<Rightarrow> nat \<Rightarrow> evm_error option \<Rightarrow> 's \<Rightarrow> 's after"
where
  "resume_create I e snap contractAddr retdata subGas er s =
     (let e = e\<lparr>evGasUsed := wrap64 (evGasUsed e + subGas)\<rparr>;
          revert = bind_out (esRevertToSnapshot I s snap)
      in if er \<noteq> None \<or> gMaxCodeSize < length retdata
         then revert (\<lambda>s. Next (e\<lparr>evStack := 0 # evStack e\<rparr>) s)
         else case useGas (wrap64 (gasCodeDeposit * words (length retdata))) e of
             Ok e \<Rightarrow> Next (e\<lparr>evStack := SetBytes contractAddr # evStack e\<rparr>) s
           | Err er g \<Rightarrow> revert (\<lambda>s. Halt [] g (Some er) s)
           | Crash \<Rightarrow> Fault)"

definition opCREATE ::
    "(bytes \<Rightarrow> bytes) \<Rightarrow> 's EVMState \<Rightarrow> EVMExecutor \<Rightarrow> 's \<Rightarrow> 's action" where
  "opCREATE keccak I e s = (if evStaticCall e then fail (StaticViolation ''create'') e s
     else case evStack e of v # offset # sz # r \<Rightarrow>
       let self = cxAddress (evCtx e); e = e\<lparr>evStack := r\<rparr>;
           go = res_action (useGas gasCreate e) s (\<lambda>e.
             let off = big_Uint64 offset; n = big_Uint64 sz
             in res_action (expandMemory off n e) s (\<lambda>e.
                out_action (getMemory off n e) (\<lambda>initCode.
                let (snap, s) = esSnapshot I s;
                    contractAddr = createAddress keccak self (esGetNonce I s self)
                in out_action (esCreateAccount I s contractAddr) (\<lambda>s.
                   out_action (esTransfer I s self contractAddr v) (\<lambda>s.
                   out_action (sub_context e self contractAddr (Some v)
                     (usub (cxGasLimit (evCtx e)) (evGasUsed e)) []) (\<lambda>cx.
                     Enter (NewEVMExecutor cx) initCode s (resume_create I e snap contractAddr)))))))
       in if 0 < v
          then case esGetBalance I s self of None \<Rightarrow> Plain Fault
            | Some b \<Rightarrow> if b < v then Plain (Next (e\<lparr>evStack := 0 # r\<rparr>) s) else go
          else go
     | _ \<Rightarrow> fail StackUnderflow e s)"

definition opCREATE2 ::
    "(bytes \<Rightarrow> bytes) \<Rightarrow> 's EVMState \<Rightarrow> EVMExecutor \<Rightarrow> 's \<Rightarrow> 's action" where
  "opCREATE2 keccak I e s = (if evStaticCall e then fail (StaticViolation ''create2'') e s
     else case evStack e of v # offset # sz # salt # r \<Rightarrow>
       let self = cxAddress (evCtx e); e = e\<lparr>evStack := r\<rparr>;
           go = res_action (useGas gasCreate e) s (\<lambda>e.
             let off = big_Uint64 offset; n = big_Uint64 sz
             in res_action (expandMemory off n e) s (\<lambda>e.
                out_action (getMemory off n e) (\<lambda>initCode.
                out_action (FillBytes32 salt) (\<lambda>saltBytes.
                let contractAddr = createAddress2 keccak self saltBytes initCode;
                    (snap, s) = esSnapshot I s
                in out_action (esCreateAccount I s contractAddr) (\<lambda>s.
                   out_action (esTransfer I s self contractAddr v) (\<lambda>s.
                   out_action (sub_context e self contractAddr (Some v)
                     (usub (cxGasLimit (evCtx e)) (evGasUsed e)) []) (\<lambda>cx.
                     Enter (NewEVMExecutor cx) initCode s (resume_create I e snap contractAddr))))))))
       in if 0 < v
          then case esGetBalance I s self of None \<Rightarrow> Plain Fault
            | Some b \<Rightarrow> if b < v then Plain (Next (e\<lparr>evStack := 0 # r\<rparr>) s) else go
          else go
     | _ \<Rightarrow> fail StackUnderflow e s)"

subsection \<open>Calls\<close>

datatype call_kind = Call | CallCode | DelegateCall | StaticCall

text \<open>What a call does with the results of the callee.\<close>

definition resume_call ::
    "'s EVMState \<Rightarrow> call_kind \<Rightarrow> EVMExecutor \<Rightarrow> int \<Rightarrow> nat \<Rightarrow> nat \<Rightarrow> bytes \<Rightarrow> nat \<Rightarrow> evm_error option
      \<Rightarrow> 's \<Rightarrow> 's after" where
  "resume_call I kind e snap rOff rSz retdata subGas er s =
     (let e = e\<lparr>evGasUsed := wrap64 (evGasUsed e + subGas), evReturndata := retdata\<rparr>
      in if er \<noteq> None
         then bind_out (if kind \<noteq> StaticCall then esRevertToSnapshot I s snap else Done s)
           (\<lambda>s. Next (e\<lparr>evStack := 0 # evStack e\<rparr>) s)
         else let e = e\<lparr>evStack := 1 # evStack e\<rparr>;
                  copyLen = (if length retdata < rSz then length retdata else rSz)
           in bind_res (if length (evMemory e) < wrap64 (rOff + copyLen)
                then expandMemory rOff copyLen e else Ok e) s (\<lambda>e.
                Next (e\<lparr>evMemory := copy_skip copyLen 0 rOff 0 retdata (evMemory e)\<rparr>) s))"

text \<open>The arguments on the stack; the value is an operand of \<open>CALL\<close> and \<open>CALLCODE\<close> only.\<close>

definition call_args :: "call_kind \<Rightarrow> EVMExecutor
    \<Rightarrow> (int \<times> int \<times> int option \<times> int \<times> int \<times> int \<times> int \<times> int list) option" where
  "call_args kind e = (if kind = DelegateCall \<or> kind = StaticCall
     then case evStack e of g # callee # aOff # aSz # rOff # rSz # r \<Rightarrow>
         Some (g, callee, if kind = StaticCall then Some 0 else cxValue (evCtx e),
           aOff, aSz, rOff, rSz, r)
       | _ \<Rightarrow> None
     else case evStack e of g # callee # v # aOff # aSz # rOff # rSz # r \<Rightarrow>
         Some (g, callee, Some v, aOff, aSz, rOff, rSz, r)
       | _ \<Rightarrow> None)"

definition callee_context ::
    "call_kind \<Rightarrow> EVMExecutor \<Rightarrow> bytes \<Rightarrow> int \<Rightarrow> nat \<Rightarrow> bytes \<Rightarrow> EVMContext outcome" where
  "callee_context kind e target v gasAvailable callData = (let self = cxAddress (evCtx e)
     in case kind of
          Call \<Rightarrow> sub_context e self target (Some v) gasAvailable callData
        | CallCode \<Rightarrow> sub_context e self self (Some v) gasAvailable callData
        | DelegateCall \<Rightarrow>
            sub_context e (cxCaller (evCtx e)) self (cxValue (evCtx e)) gasAvailable callData
        | StaticCall \<Rightarrow> sub_context e self target (Some 0) gasAvailable callData)"

text \<open>From the gas charge on: \<open>e\<close> has its arguments popped, \<open>v\<close> is the value.\<close>

definition enter_call :: "'s EVMState \<Rightarrow> call_kind \<Rightarrow> EVMExecutor \<Rightarrow> 's \<Rightarrow> int \<Rightarrow> bytes \<Rightarrow> int \<Rightarrow> bool
    \<Rightarrow> nat \<Rightarrow> nat \<Rightarrow> nat \<Rightarrow> nat \<Rightarrow> 's action" where
  "enter_call I kind e s gasLimit target v valueTransferred aOff aSz rOff rSz =
     res_action (useGas (if valueTransferred then gasCall + gasCallValue else gasCall) e) s (\<lambda>e.
     res_action (expandMemory aOff aSz e) s (\<lambda>e.
     res_action (expandMemory rOff rSz e) s (\<lambda>e.
     out_action (getMemory aOff aSz e) (\<lambda>callData.
     let left = usub (cxGasLimit (evCtx e)) (evGasUsed e);
         g = (if left < big_Uint64 gasLimit then left else big_Uint64 gasLimit);
         gasAvailable = g - g div 64;
         (snap, s) = (if kind \<noteq> StaticCall then esSnapshot I s else (0, s))
     in out_action (if valueTransferred then esTransfer I s (cxAddress (evCtx e)) target v else Done s)
       (\<lambda>s. out_action (callee_context kind e target v gasAvailable callData) (\<lambda>cx.
       let code = esGetCode I s target
       in if length code = 0
          then Plain (Next (e\<lparr>evStack := 1 # evStack e, evReturndata := []\<rparr>) s)
          else Enter ((NewEVMExecutor cx)\<lparr>evStaticCall := (kind = StaticCall)\<rparr>) code s
            (resume_call I kind e snap rOff rSz)))))))"

definition opCALLS :: "'s EVMState \<Rightarrow> call_kind \<Rightarrow> EVMExecutor \<Rightarrow> 's \<Rightarrow> 's action" where
  "opCALLS I kind e s = (case call_args kind e of None \<Rightarrow> fail StackUnderflow e s
     | Some (gasLimit, callee, v, argOffset, argSize, retOffset, retSize, r) \<Rightarrow>
         if kind = StaticCall \<and> evStaticCall e then fail (StaticViolation ''staticcall'') e s
         else case v of None \<Rightarrow> Plain Fault
         | Some v \<Rightarrow>
             let e = e\<lparr>evStack := r\<rparr>; target = toAddress callee;
                 valueTransferred = (0 < v \<and> (kind = Call \<or> kind = CallCode));
                 go = enter_call I kind e s gasLimit target v valueTransferred
                   (big_Uint64 argOffset) (big_Uint64 argSize)
                   (big_Uint64 retOffset) (big_Uint64 retSize)
             in if valueTransferred
                then case esGetBalance I s (cxAddress (evCtx e)) of None \<Rightarrow> Plain Fault
                  | Some b \<Rightarrow> if b < v then Plain (Next (e\<lparr>evStack := 0 # r\<rparr>) s) else go
                else go)"

subsection \<open>The loop\<close>

text \<open>The check in front of the switch: instructions that would grow a full stack.\<close>

definition pushes :: "nat \<Rightarrow> bool" where
  "pushes op \<longleftrightarrow> 0x5F \<le> op \<and> op \<le> 0x7F \<or> 0x80 \<le> op \<and> op < 0x80 + 16
     \<or> op \<in> {0x30, 0x32, 0x33, 0x34, 0x36, 0x38, 0x3A, 0x3D, 0x41, 0x42, 0x43, 0x44, 0x45, 0x46,
         0x47, 0x48, 0x58, 0x59, 0x5A}"

definition step :: "(bytes \<Rightarrow> bytes) \<Rightarrow> 's EVMState \<Rightarrow> EVMExecutor \<Rightarrow> 's \<Rightarrow> 's action" where
  "step keccak I e s = (let op = unat (evCode e ! evPc e); e = e\<lparr>evPc := evPc e + 1\<rparr>
     in if evmMaxStackDepth \<le> length (evStack e) \<and> pushes op
        then fail (StackOverflow (length (evStack e))) e s
        else if op = 0xF0 then opCREATE keccak I e s
        else if op = 0xF5 then opCREATE2 keccak I e s
        else if op = 0xF1 then opCALLS I Call e s
        else if op = 0xF2 then opCALLS I CallCode e s
        else if op = 0xF4 then opCALLS I DelegateCall e s
        else if op = 0xFA then opCALLS I StaticCall e s
        else Plain (simple_op keccak I op e s))"

type_synonym 's evm_result = "(bytes \<times> nat \<times> evm_error option \<times> 's) outcome"

definition start :: "EVMExecutor \<Rightarrow> bytes \<Rightarrow> EVMExecutor" where
  "start e code = e\<lparr>evPc := 0, evGasUsed := 0, evStack := [], evCode := code,
     evJumpDests := computeJumpDests code\<rparr>"

primrec run :: "nat \<Rightarrow> (bytes \<Rightarrow> bytes) \<Rightarrow> 's EVMState \<Rightarrow> EVMExecutor \<Rightarrow> 's \<Rightarrow> 's evm_result option" where
  "run 0 keccak I e s = None"
| "run (Suc n) keccak I e s =
     (if evPc e < length (evCode e)
      then let continue = (\<lambda>a. case a of
               Next e s \<Rightarrow> run n keccak I e s
             | Halt ret g er s \<Rightarrow> Some (Done (ret, g, er, s))
             | Fault \<Rightarrow> Some Panics)
        in case step keccak I e s of
             Plain a \<Rightarrow> continue a
           | Enter sub code s k \<Rightarrow>
               (case run n keccak I (start sub code) s of
                  None \<Rightarrow> None
                | Some Panics \<Rightarrow> Some Panics
                | Some (Done (ret, g, er, s)) \<Rightarrow> continue (k ret g er s))
      else Some (Done ([], evGasUsed e, None, s)))"

definition Execute ::
    "nat \<Rightarrow> (bytes \<Rightarrow> bytes) \<Rightarrow> 's EVMState \<Rightarrow> EVMExecutor \<Rightarrow> bytes \<Rightarrow> 's \<Rightarrow> 's evm_result option" where
  "Execute n keccak I e code s = run n keccak I (start e code) s"

end
