(* ===== verification/Contract_Manager.thy ===== *)
theory Contract_Manager
  imports EVM_Run ERC20 ERC721
begin

text \<open>
  The contract manager (\<open>contracts/manager.go\<close>): the deployed contracts, the built-in token
  contracts, and \<open>contractManagerState\<close>, the manager's view of its contracts as the
  \<open>EVMState\<close> of an executor. Contracts are reached through pointers of the map, so updating a
  contract is updating its entry.
\<close>

record contract =
  ctAddress :: bytes
  ctCode :: bytes
  ctCodeHash :: bytes
  ctABI :: string
  ctOwner :: bytes
  ctBalance :: u64
  ctCreatedAt :: u64
  ctUpdatedAt :: u64
  ctStorage :: "(bytes, bytes) gomap"

text \<open>\<open>StandardContract\<close>: the two implementations of the package.\<close>

datatype standard = Standard20 erc20 | Standard721 erc721

record contract_manager =
  cmContracts :: "(bytes, contract) gomap"
  cmStandards :: "(bytes, standard) gomap"

definition AddrERC20 :: bytes where "AddrERC20 = replicate 19 0 @ [0xE0]"
definition AddrERC721 :: bytes where "AddrERC721 = replicate 19 0 @ [0xE1]"

definition RegisterStandardContract ::
    "bytes \<Rightarrow> standard \<Rightarrow> contract_manager \<Rightarrow> contract_manager" where
  "RegisterStandardContract addr sc cm = cm\<lparr>cmStandards := goput addr sc (cmStandards cm)\<rparr>"

definition registerDefaultContracts :: "contract_manager \<Rightarrow> contract_manager" where
  "registerDefaultContracts cm = cm\<lparr>cmStandards :=
     goput AddrERC721
       (Standard721 (NewERC721Token ''Standard NFT'' ''SNFT'' ''https://viri-chain.io/nft/''))
     (goput AddrERC20 (Standard20 (NewERC20Token ''Standard Token'' ''STD'' 18 0 []))
       (cmStandards cm))\<rparr>"

definition NewContractManager :: contract_manager where
  "NewContractManager = registerDefaultContracts \<lparr>cmContracts = [], cmStandards = []\<rparr>"

definition GetStandardContract :: "contract_manager \<Rightarrow> bytes \<Rightarrow> standard option" where
  "GetStandardContract cm addr = goget (cmStandards cm) addr"

definition GetERC20 :: "contract_manager \<Rightarrow> bytes \<Rightarrow> erc20 option" where
  "GetERC20 cm addr = (case goget (cmStandards cm) addr of
       Some (Standard20 tok) \<Rightarrow> Some tok | _ \<Rightarrow> None)"

definition IsStandardContract :: "contract_manager \<Rightarrow> bytes \<Rightarrow> bool" where
  "IsStandardContract cm addr \<longleftrightarrow> goget (cmStandards cm) addr \<noteq> None"

text \<open>The derived address: the first 20 bytes of a hash, with the first byte overwritten.\<close>

definition standard_address :: "(bytes \<Rightarrow> bytes) \<Rightarrow> string \<Rightarrow> byte \<Rightarrow> bytes \<Rightarrow> bytes" where
  "standard_address keccak tag first owner
     = (take 20 (keccak (bytes_of_str tag @ owner)))[0 := first]"

definition DeployStandardERC20 :: "(bytes \<Rightarrow> bytes) \<Rightarrow> bytes \<Rightarrow> string \<Rightarrow> string \<Rightarrow> byte \<Rightarrow> u64
    \<Rightarrow> contract_manager \<Rightarrow> erc20 \<times> contract_manager" where
  "DeployStandardERC20 keccak owner name symbol decimals initialSupply cm =
     (let token = NewERC20Token name symbol decimals (uint initialSupply) owner
      in (token, RegisterStandardContract (standard_address keccak ''erc20'' 0xE0 owner)
            (Standard20 token) cm))"

definition DeployStandardERC721 :: "(bytes \<Rightarrow> bytes) \<Rightarrow> bytes \<Rightarrow> string \<Rightarrow> string \<Rightarrow> string
    \<Rightarrow> contract_manager \<Rightarrow> erc721 \<times> contract_manager" where
  "DeployStandardERC721 keccak owner name symbol baseURI cm =
     (let token = NewERC721Token name symbol baseURI
      in (token, RegisterStandardContract (standard_address keccak ''erc721'' 0xE1 owner)
            (Standard721 token) cm))"

subsection \<open>Deploying contracts\<close>

definition new_contract :: "bytes \<Rightarrow> contract" where
  "new_contract addr = \<lparr>ctAddress = addr, ctCode = [], ctCodeHash = [], ctABI = [], ctOwner = [],
     ctBalance = 0, ctCreatedAt = 0, ctUpdatedAt = 0, ctStorage = []\<rparr>"

definition Deploy :: "(bytes \<Rightarrow> bytes) \<Rightarrow> bytes \<Rightarrow> bytes \<Rightarrow> u64 \<Rightarrow> contract_manager
    \<Rightarrow> contract \<times> contract_manager" where
  "Deploy keccak owner code blockHeight cm =
     (let nonceBytes = be 8 (length (cmContracts cm));
          addr = drop 12 (keccak (owner @ nonceBytes));
          c = (new_contract addr)\<lparr>ctCode := code, ctCodeHash := keccak code, ctOwner := owner,
            ctCreatedAt := blockHeight, ctUpdatedAt := blockHeight\<rparr>
      in (c, cm\<lparr>cmContracts := goput addr c (cmContracts cm)\<rparr>))"

subsection \<open>The state of an executor\<close>

record manager_state =
  msContracts :: "(bytes, contract) gomap"
  msLogs :: "string list"

definition ms_GetBalance :: "manager_state \<Rightarrow> bytes \<Rightarrow> int option" where
  "ms_GetBalance s addr = (case goget (msContracts s) addr of None \<Rightarrow> Some 0
     | Some c \<Rightarrow> Some (uint (ctBalance c)))"

definition ms_GetNonce :: "manager_state \<Rightarrow> bytes \<Rightarrow> nat" where
  "ms_GetNonce s addr = 0"

definition ms_GetCode :: "manager_state \<Rightarrow> bytes \<Rightarrow> bytes" where
  "ms_GetCode s addr = (case goget (msContracts s) addr of None \<Rightarrow> [] | Some c \<Rightarrow> ctCode c)"

definition ms_GetStorage :: "manager_state \<Rightarrow> bytes \<Rightarrow> bytes \<Rightarrow> bytes" where
  "ms_GetStorage s addr key = (case goget (msContracts s) addr of None \<Rightarrow> []
     | Some c \<Rightarrow> (case goget (ctStorage c) key of None \<Rightarrow> [] | Some v \<Rightarrow> v))"

definition ms_SetStorage ::
    "manager_state \<Rightarrow> bytes \<Rightarrow> bytes \<Rightarrow> bytes option \<Rightarrow> manager_state" where
  "ms_SetStorage s addr key v = (case goget (msContracts s) addr of None \<Rightarrow> s
     | Some c \<Rightarrow> s\<lparr>msContracts := goput addr (c\<lparr>ctStorage := (case v of
           None \<Rightarrow> godel key (ctStorage c) | Some v \<Rightarrow> goput key v (ctStorage c))\<rparr>) (msContracts s)\<rparr>)"

text \<open>
  \<open>t\<close> is read before \<open>f.Balance -= a\<close> but it is a pointer: for a transfer to oneself both
  updates hit the same contract.
\<close>

definition ms_Transfer ::
    "manager_state \<Rightarrow> bytes \<Rightarrow> bytes \<Rightarrow> int \<Rightarrow> manager_state outcome" where
  "ms_Transfer s src dest amount = Done
     (if amount \<le> 0 \<or> 2 ^ 64 \<le> amount then s
      else let a = (word_of_int amount :: u64)
        in case goget (msContracts s) src of None \<Rightarrow> s
         | Some f \<Rightarrow> if ctBalance f < a then s
             else let m = goput src (f\<lparr>ctBalance := ctBalance f - a\<rparr>) (msContracts s);
                      t = (case goget m dest of None \<Rightarrow> new_contract dest | Some t \<Rightarrow> t)
               in s\<lparr>msContracts := goput dest (t\<lparr>ctBalance := ctBalance t + a\<rparr>) m\<rparr>)"

definition ms_CreateAccount :: "manager_state \<Rightarrow> bytes \<Rightarrow> manager_state" where
  "ms_CreateAccount s addr = (if goget (msContracts s) addr = None
     then s\<lparr>msContracts := goput addr (new_contract addr) (msContracts s)\<rparr> else s)"

text \<open>\<open>%x\<close> of a slice of byte slices prints the elements between brackets.\<close>

fun spaced :: "string list \<Rightarrow> string" where
  "spaced [] = ''''"
| "spaced [w] = w"
| "spaced (w # ws) = w @ '' '' @ spaced ws"

definition ms_AddLog :: "manager_state \<Rightarrow> bytes \<Rightarrow> bytes list \<Rightarrow> bytes \<Rightarrow> manager_state" where
  "ms_AddLog s addr topics data = s\<lparr>msLogs := msLogs s @ [''LOG: addr='' @ hexEncode addr
     @ '' topics=['' @ spaced (map hexEncode topics) @ ''] data='' @ hexEncode data]\<rparr>"

definition ms_Snapshot :: "manager_state \<Rightarrow> int \<times> manager_state" where
  "ms_Snapshot s = (int (length (msLogs s)), s)"

definition ms_RevertToSnapshot :: "manager_state \<Rightarrow> int \<Rightarrow> manager_state" where
  "ms_RevertToSnapshot s n = (if 0 \<le> n \<and> n < int (length (msLogs s))
     then s\<lparr>msLogs := take (nat n) (msLogs s)\<rparr> else s)"

definition managerState :: "manager_state EVMState" where
  "managerState = \<lparr>esGetBalance = ms_GetBalance, esGetNonce = ms_GetNonce,
     esGetCode = ms_GetCode, esGetStorage = ms_GetStorage,
     esSetStorage = \<lambda>s a k v. Done (ms_SetStorage s a k v), esTransfer = ms_Transfer,
     esCreateAccount = \<lambda>s a. Done (ms_CreateAccount s a), esAddLog = ms_AddLog,
     esSnapshot = ms_Snapshot, esRevertToSnapshot = \<lambda>s n. Done (ms_RevertToSnapshot s n)\<rparr>"

subsection \<open>Executing and reading contracts\<close>

datatype manager_error = ContractNotFound | EvmFailed evm_error

text \<open>
  \<open>Execute\<close> under the fuel of the interpreter: the changes of the run stay in the manager even
  when it fails, since the manager is the state of the run.
\<close>

definition manager_context :: "bytes \<Rightarrow> bytes \<Rightarrow> bytes \<Rightarrow> EVMContext" where
  "manager_context address caller input = \<lparr>cxCaller = caller, cxAddress = address,
     cxValue = Some 0, cxGasLimit = 1000000, cxGasPrice = Some 0, cxData = input, cxBlockNum = 0,
     cxTimestamp = 0, cxChainID = None, cxCoinbase = None, cxBlockGasLimit = 0, cxBaseFee = None,
     cxPrevRandao = None, cxGetBlockHash = None\<rparr>"

definition manager_Execute :: "nat \<Rightarrow> (bytes \<Rightarrow> bytes) \<Rightarrow> bytes \<Rightarrow> bytes \<Rightarrow> bytes \<Rightarrow> u64
    \<Rightarrow> contract_manager \<Rightarrow> ((manager_error + bytes) \<times> contract_manager) outcome option" where
  "manager_Execute fuel keccak address caller input blockHeight cm =
     (case goget (cmContracts cm) address of None \<Rightarrow> Some (Done (Inl ContractNotFound, cm))
      | Some c \<Rightarrow>
         (case Execute fuel keccak managerState (NewEVMExecutor (manager_context address caller input))
              (ctCode c) \<lparr>msContracts = cmContracts cm, msLogs = []\<rparr> of
            None \<Rightarrow> None
          | Some Panics \<Rightarrow> Some Panics
          | Some (Done (ret, g, Some er, s)) \<Rightarrow>
              Some (Done (Inl (EvmFailed er), cm\<lparr>cmContracts := msContracts s\<rparr>))
          | Some (Done (ret, g, None, s)) \<Rightarrow>
              Some (Done (Inr ret, cm\<lparr>cmContracts := (case goget (msContracts s) address of
                 None \<Rightarrow> msContracts s
               | Some c \<Rightarrow> goput address (c\<lparr>ctUpdatedAt := blockHeight\<rparr>) (msContracts s))\<rparr>))))"

definition contract_Clone :: "contract \<Rightarrow> contract" where
  "contract_Clone c = c\<lparr>ctStorage := fold (\<lambda>(k, v) m. goput k v m) (ctStorage c) []\<rparr>"

definition GetContract :: "contract_manager \<Rightarrow> bytes \<Rightarrow> contract option" where
  "GetContract cm address = map_option contract_Clone (goget (cmContracts cm) address)"

definition HasContract :: "contract_manager \<Rightarrow> bytes \<Rightarrow> bool" where
  "HasContract cm address \<longleftrightarrow> goget (cmContracts cm) address \<noteq> None"

definition cm_SetBalance ::
    "bytes \<Rightarrow> u64 \<Rightarrow> contract_manager \<Rightarrow> (manager_error + contract_manager)" where
  "cm_SetBalance address balance cm = (case goget (cmContracts cm) address of
       None \<Rightarrow> Inl ContractNotFound
     | Some c \<Rightarrow> Inr (cm\<lparr>cmContracts := goput address (c\<lparr>ctBalance := balance\<rparr>) (cmContracts cm)\<rparr>))"

definition cm_GetBalance :: "contract_manager \<Rightarrow> bytes \<Rightarrow> manager_error + u64" where
  "cm_GetBalance cm address = (case goget (cmContracts cm) address of
       None \<Rightarrow> Inl ContractNotFound | Some c \<Rightarrow> Inr (ctBalance c))"

end
