(* ===== verification/EVM_Words.thy ===== *)
theory EVM_Words
  imports Contract_Manager
begin

text \<open>
  Stack items as 256-bit words: on operands between 0 and \<open>2^256 - 1\<close> the \<open>big.Int\<close> code of an
  instruction computes an operation of the type \<open>256 word\<close>. \<open>word_op\<close> is the table of what the
  instructions on two items do in every case, with the top of the stack as the first argument;
  \<open>eth_op\<close> are Ethereum's operations, stated without looking at the code, and \<open>evm_words\<close> says
  where the two agree.
\<close>

type_synonym w256 = "256 word"

definition in_word :: "int \<Rightarrow> bool" where
  "in_word x \<longleftrightarrow> 0 \<le> x \<and> x < 2 ^ 256"

lemma in_word_uint [simp]: "in_word (uint (w :: w256))"
  using uint_bounded [of w] by (simp add: in_word_def)

lemma uint_of_in_word: "in_word x \<Longrightarrow> uint (word_of_int x :: w256) = x"
  by (simp add: in_word_def uint_word_of_int)

lemma in_word_wrap256 [simp]: "in_word (wrap256 x)"
  by (simp add: in_word_def wrap256_def)

lemma wrap256_take_bit: "wrap256 x = take_bit 256 x"
  by (simp only: wrap256_def take_bit_eq_mod)

lemma wrap256_uint: "wrap256 x = uint (word_of_int x :: w256)"
  by (simp add: wrap256_def uint_word_of_int)

lemma in_word_obtain:
  assumes "in_word x"
  obtains w :: w256 where "x = uint w"
  using uint_of_in_word [OF assms] by metis

subsection \<open>Big-endian buffers\<close>

lemma nth_be: "i < n \<Longrightarrow> be n x ! i = of_nat (x div 256 ^ (n - 1 - i))"
proof (induction n arbitrary: x)
  case 0
  then show ?case by simp
next
  case (Suc n)
  show ?case
  proof (cases "i < n")
    case True
    then have "n - i = Suc (n - 1 - i)" by simp
    then have p: "(256 :: nat) ^ (n - i) = 256 * 256 ^ (n - 1 - i)" by simp
    from True have "be (Suc n) x ! i = be n (x div 256) ! i" by (simp add: nth_append)
    also have "\<dots> = of_nat (x div 256 div 256 ^ (n - 1 - i))" using True by (rule Suc.IH)
    also have "x div 256 div 256 ^ (n - 1 - i) = x div 256 ^ (n - i)"
      unfolding p by (rule div_mult2_eq [symmetric])
    finally show ?thesis by simp
  next
    case False
    with Suc.prems have "i = n" by simp
    then show ?thesis by (simp add: nth_append)
  qed
qed

lemma drop_be: "k \<le> n \<Longrightarrow> drop k (be n x) = be (n - k) x"
proof (induction n arbitrary: x)
  case 0
  then show ?case by simp
next
  case (Suc n)
  show ?case
  proof (cases "k \<le> n")
    case True
    then have "Suc n - k = Suc (n - k)" by simp
    with True Suc.IH show ?thesis by simp
  next
    case False
    with Suc.prems have "k = Suc n" by simp
    then show ?thesis by (simp only: drop_all length_be diff_self_eq_0 be.simps(1) le_refl)
  qed
qed

lemma in_word_nat: "in_word x \<Longrightarrow> nat x < 256 ^ 32"
  by (simp add: in_word_def nat_less_iff)

lemma FillBytes32_word: "in_word x \<Longrightarrow> FillBytes32 x = Done (be 32 (nat x))"
  using in_word_nat [of x] by (simp add: FillBytes32_def fill32_be in_word_def)

lemma SetBytes_be32: "in_word x \<Longrightarrow> SetBytes (be 32 (nat x)) = x"
  using in_word_nat [of x] by (simp add: SetBytes_def in_word_def)

lemma SetBytes_in_word: "length b \<le> 32 \<Longrightarrow> in_word (SetBytes b)"
proof -
  assume "length b \<le> 32"
  have "unbe b < 256 ^ length b" by (rule unbe_less)
  also have "\<dots> \<le> 256 ^ 32" using \<open>length b \<le> 32\<close> by (rule power_increasing) simp
  finally have "int (unbe b) < int (256 ^ 32)" by (simp only: of_nat_less_iff)
  then show ?thesis by (simp add: in_word_def SetBytes_def)
qed

lemma toSigned256_word:
  assumes "in_word x"
  shows "toSigned256 x = Done (sint (word_of_int x :: w256))"
proof -
  have "be 32 (nat x) \<noteq> []" by simp
  then have h: "hd (be 32 (nat x)) = of_nat (nat x div 256 ^ 31)"
    by (simp add: hd_conv_nth nth_be)
  define q where "q = nat x div 256 ^ 31"
  have "nat x < 256 ^ 31 * 256" using in_word_nat [OF assms] by simp
  then have q: "q < 256" unfolding q_def by (simp only: less_mult_imp_div_less mult.commute)
  have "bit (of_nat q :: byte) 7 \<longleftrightarrow> bit q 7" by (simp add: bit_of_nat_iff)
  also have "\<dots> \<longleftrightarrow> 128 \<le> q"
  proof (cases "128 \<le> q")
    case True
    then have "q div 128 = 1" using q by (intro div_nat_eqI) simp_all
    with True show ?thesis by (simp add: bit_iff_odd)
  qed (simp add: bit_iff_odd)
  also have "\<dots> \<longleftrightarrow> 2 ^ 255 \<le> nat x"
  proof -
    have "128 \<le> q \<longleftrightarrow> 128 * 256 ^ 31 \<le> nat x"
      unfolding q_def by (rule less_eq_div_iff_mult_less_eq) simp
    then show ?thesis by simp
  qed
  also have "\<dots> \<longleftrightarrow> 2 ^ 255 \<le> x" using assms by (auto simp: in_word_def nat_le_eq_zle le_nat_iff)
  finally have b: "bit (hd (be 32 (nat x))) 7 \<longleftrightarrow> 2 ^ 255 \<le> x" by (simp add: h q_def)
  have "sint (word_of_int x :: w256) = signed_take_bit 255 x" by (simp add: sint_sbintrunc')
  also have "\<dots> = (x + 2 ^ 255) mod 2 ^ 256 - 2 ^ 255"
    by (simp add: signed_take_bit_eq_take_bit_shift take_bit_eq_mod)
  also have "\<dots> = (if 2 ^ 255 \<le> x then x - 2 ^ 256 else x)"
  proof (cases "2 ^ 255 \<le> x")
    case True
    then have "(x + 2 ^ 255) mod 2 ^ 256 = (x + 2 ^ 255 - 2 ^ 256) mod 2 ^ 256"
      by (intro mod_pos_geq) simp_all
    also have "\<dots> = x + 2 ^ 255 - 2 ^ 256"
      using assms True by (intro mod_pos_pos_trivial) (simp_all add: in_word_def)
    finally show ?thesis using True by simp
  next
    case False
    with assms show ?thesis by (simp add: in_word_def)
  qed
  finally show ?thesis using assms b by (simp add: toSigned256_def FillBytes32_word)
qed

subsection \<open>Signed results, powers and shifts\<close>

lemma toUnsigned256_word:
  "- (2 ^ 256) \<le> x \<Longrightarrow> x < 2 ^ 256 \<Longrightarrow> toUnsigned256 x = uint (word_of_int x :: w256)"
proof -
  assume x: "- (2 ^ 256) \<le> x" "x < 2 ^ 256"
  have "x mod 2 ^ 256 = (if x < 0 then x + 2 ^ 256 else x)"
  proof (cases "x < 0")
    case True
    have "x mod 2 ^ 256 = (x + 2 ^ 256) mod 2 ^ 256" by simp
    also have "\<dots> = x + 2 ^ 256" using True x by (intro mod_pos_pos_trivial) simp_all
    finally show ?thesis using True by simp
  qed (use x in simp)
  then show "toUnsigned256 x = uint (word_of_int x :: w256)"
    by (simp add: toUnsigned256_def uint_word_of_int)
qed

lemma sint_bounds: "- (2 ^ 255) \<le> sint (w :: w256)" "sint (w :: w256) < 2 ^ 255"
  using sint_ge [of w] sint_lt [of w] by simp_all

lemma big_Div_bound: "\<bar>big_Div x y\<bar> \<le> \<bar>x\<bar> + 1"
proof -
  have le: "\<bar>x div k\<bar> \<le> \<bar>x\<bar> + 1" if "0 \<le> k" for k
  proof (cases "k = 0")
    case False
    with that have k: "1 \<le> k" by simp
    show ?thesis
    proof (cases "0 \<le> x")
      case True
      then have "x div k \<le> x div 1" using k by (intro zdiv_mono2) simp_all
      moreover have "0 \<le> x div k" using True k by (simp add: pos_imp_zdiv_nonneg_iff)
      ultimately have "0 \<le> x div k" "x div k \<le> x" by simp_all
      then show ?thesis by simp
    next
      case neg: False
      then have "x div 1 \<le> x div k" using k by (intro zdiv_mono2_neg) simp_all
      moreover have "x div k \<le> 0" using neg k by (simp add: div_nonpos_pos_le0)
      ultimately show ?thesis by simp
    qed
  qed simp
  show ?thesis using le [of y] le [of "- y"] by (simp add: big_Div_def)
qed

lemma powmod_eq: "powmod x n m = x ^ n mod m"
proof (induction x n m rule: powmod.induct)
  case (1 x n m)
  show ?case
  proof (cases "n = 0")
    case True
    then show ?thesis by (simp add: powmod.simps)
  next
    case False
    with 1 have ih: "powmod (x * x mod m) (n div 2) m = (x * x) ^ (n div 2) mod m"
      by (simp add: power_mod)
    show ?thesis
    proof (cases "odd n")
      case True
      then have "x ^ n = x * (x * x) ^ (n div 2)"
        by (metis odd_two_times_div_two_succ power_Suc power_mult power2_eq_square add.commute
            plus_1_eq_Suc)
      with True False ih show ?thesis
        by (subst powmod.simps) (simp add: mod_mult_right_eq)
    next
      case even: False
      then have "x ^ n = (x * x) ^ (n div 2)"
        by (metis dvd_mult_div_cancel power_mult power2_eq_square)
      with even False ih show ?thesis by (subst powmod.simps) simp
    qed
  qed
qed

lemma big_Exp_word:
  assumes "in_word x" "in_word y" "y \<noteq> 0"
  shows "wrap256 (big_Exp x y) = uint ((word_of_int x :: w256) ^ nat y)"
proof -
  have "wrap256 (big_Exp x y) = x ^ nat y mod 2 ^ 256"
    using assms by (simp add: big_Exp_def powmod_eq in_word_def wrap256_def)
  then show ?thesis
    by (simp only: word_of_int_power_hom wrap256_uint [symmetric] wrap256_def)
qed

lemma push_bit_word:
  fixes a :: w256
  shows "(if 255 < n then 0 else wrap256 (push_bit n (uint a))) = uint (push_bit n a)"
proof -
  have "uint (push_bit n a) = take_bit 256 (push_bit n (uint a))"
    by (simp add: unsigned_push_bit_eq)
  moreover have "take_bit 256 (push_bit n (uint a)) = 0" if "255 < n"
    using that by (simp add: take_bit_push_bit)
  ultimately show ?thesis by (simp add: wrap256_take_bit)
qed

lemma drop_bit_word:
  fixes a :: w256
  shows "(if 255 < n then 0 else drop_bit n (uint a)) = uint (drop_bit n a)"
proof -
  have "uint (drop_bit n a) = drop_bit n (take_bit 256 (uint a))"
    by (simp add: unsigned_drop_bit_eq)
  also have "take_bit 256 (uint a) = uint a" using in_word_uint [of a] by (simp only: in_word_def take_bit_int_eq_self)
  finally have d: "uint (drop_bit n a) = drop_bit n (uint a)" .
  have "drop_bit n (uint a) = 0" if "255 < n"
  proof -
    have "uint a < 2 ^ 256" using in_word_uint [of a] by (simp only: in_word_def)
    also have "(2 :: int) ^ 256 \<le> 2 ^ n" using that by (intro power_increasing) simp_all
    finally show ?thesis by (simp add: drop_bit_eq_div div_pos_pos_trivial)
  qed
  then show ?thesis by (simp add: d)
qed

lemma signed_drop_bit_word:
  fixes a :: w256
  shows "toUnsigned256 (drop_bit (if 255 < n then 255 else n) (sint a)) = uint (signed_drop_bit n a)"
proof -
  have eq: "drop_bit (if 255 < n then 255 else n) (sint a) = drop_bit n (sint a)"
  proof (cases "255 < n")
    case True
    have z: "x div 2 ^ m = (if x < 0 then -1 else 0)"
      if "- (2 ^ 255) \<le> x" "x < 2 ^ 255" "255 \<le> m" for x :: int and m
    proof -
      have p: "(2 :: int) ^ 255 \<le> 2 ^ m" using that by (intro power_increasing) simp_all
      show ?thesis
      proof (cases "x < 0")
        case True
        then show ?thesis using that p by (intro int_div_pos_eq [of _ _ _ "x + 2 ^ m", THEN trans]) auto
      next
        case False
        then show ?thesis using that p by (simp add: div_pos_pos_trivial)
      qed
    qed
    show ?thesis using True z [of "sint a" 255] z [of "sint a" n] sint_bounds [of a]
      by (simp add: drop_bit_eq_div)
  qed simp
  have s: "sint (signed_drop_bit n a) = drop_bit n (sint a)" by (rule sint_signed_drop_bit_eq)
  have "toUnsigned256 (sint (signed_drop_bit n a)) = uint (word_of_int (sint (signed_drop_bit n a)) :: w256)"
    using sint_bounds [of "signed_drop_bit n a"] by (intro toUnsigned256_word) simp_all
  then show ?thesis by (simp add: eq flip: s)
qed


definition low64 :: "w256 \<Rightarrow> nat" where
  "low64 b = unat b mod 2 ^ 64"

lemma big_Uint64_uint [simp]: "big_Uint64 (uint (b :: w256)) = low64 b"
  unfolding big_Uint64_def low64_def wrap64_def by (simp only: abs_of_nonneg uint_ge_0 nat_uint_eq)

lemma take_bit_256_below:
  fixes y k :: int
  assumes "0 \<le> y" "y < k" "k \<le> 2 ^ 256"
  shows "take_bit 256 (y - k) = 2 ^ 256 - k + y" "take_bit 256 y = y"
proof -
  have "take_bit 256 (y - k) = (y - k + 2 ^ 256) mod 2 ^ 256"
    by (simp only: take_bit_eq_mod mod_add_self2)
  also have "\<dots> = y - k + 2 ^ 256" using assms by (intro mod_pos_pos_trivial) simp_all
  finally show "take_bit 256 (y - k) = 2 ^ 256 - k + y" by simp
  show "take_bit 256 y = y" using assms by (simp only: take_bit_int_eq_self)
qed

lemma sign_extend_word:
  fixes a b :: w256
  shows "sign_extend (uint b) (uint a)
    = Done (uint (if 31 \<le> low64 b then a else signed_take_bit (8 * low64 b + 7) a))"
proof (cases "31 \<le> low64 b")
  case True
  then show ?thesis by (simp add: sign_extend_def)
next
  case False
  define t where "t = low64 b"
  define x where "x = uint a"
  define m where "m = 8 * t + 7"
  from False have t31: "t < 31" by (simp add: t_def)
  have x: "in_word x" by (simp add: x_def)
  show ?thesis
  proof -
    have bs: "be 32 (nat x) ! (31 - t) = of_nat (nat x div 256 ^ t)"
      using t31 by (simp add: nth_be)
    have "(256 :: nat) ^ t = 2 ^ (8 * t)" by (simp add: power_mult)
    then have "bit (of_nat (nat x div 256 ^ t) :: byte) 7 \<longleftrightarrow> bit (drop_bit (8 * t) (nat x)) 7"
      by (simp add: bit_of_nat_iff drop_bit_eq_div)
    also have "\<dots> \<longleftrightarrow> bit (nat x) m" by (simp add: bit_drop_bit_eq m_def)
    also have "\<dots> \<longleftrightarrow> bit x m"
      using x by (simp add: in_word_def bit_nat_iff)
    finally have sign: "bit (be 32 (nat x) ! (31 - t)) 7 \<longleftrightarrow> bit x m" by (simp add: bs)
    have "(256 :: nat) ^ t = 2 ^ (8 * t)" by (simp add: power_mult)
    then have p: "(256 :: nat) ^ Suc t = 2 ^ Suc m" by (simp add: m_def power_add)
    have low: "int (unbe (be (Suc t) (nat x))) = take_bit (Suc m) x"
    proof -
      have "unbe (be (Suc t) (nat x)) = nat x mod 2 ^ Suc m" by (simp only: unbe_be p)
      then show ?thesis using x by (simp add: in_word_def zmod_int take_bit_eq_mod)
    qed
    have pw: "(256 :: int) ^ (31 - t) * 2 ^ Suc m = 2 ^ 256"
    proof -
      have "(256 :: int) ^ (31 - t) = 2 ^ (8 * (31 - t))" by (simp add: power_mult)
      then have "(256 :: int) ^ (31 - t) * 2 ^ Suc m = 2 ^ (8 * (31 - t) + Suc m)"
        by (simp only: power_add)
      also have "8 * (31 - t) + Suc m = 256" using t31 by (simp add: m_def)
      finally show ?thesis .
    qed
    have ff: "int (unbe (replicate k 0xFF)) = 256 ^ k - 1" for k
    proof (induction k)
      case (Suc k)
      have "replicate (Suc k) (0xFF :: byte) = replicate k 0xFF @ [0xFF]"
        by (simp add: replicate_append_same)
      with Suc show ?case by (simp only: unbe_snoc) simp
    qed simp
    have drop: "drop (31 - t) (be 32 (nat x)) = be (Suc t) (nat x)"
      using t31 by (subst drop_be) (simp_all add: Suc_diff_le del: be.simps)
    have "int (unbe (replicate (31 - t) (if bit x m then 0xFF else 0) @ be (Suc t) (nat x)))
      = (if bit x m then 2 ^ 256 - 2 ^ Suc m else 0) + take_bit (Suc m) x"
    proof (cases "bit x m")
      case True
      have "int (unbe (replicate (31 - t) 0xFF @ be (Suc t) (nat x)))
        = (256 ^ (31 - t) - 1) * int (256 ^ Suc t) + take_bit (Suc m) x"
        by (simp only: unbe_append length_be of_nat_add of_nat_mult ff low)
      also have "\<dots> = (256 ^ (31 - t) - 1) * 2 ^ Suc m + take_bit (Suc m) x"
        by (simp only: p of_nat_power of_nat_numeral)
      also have "\<dots> = 2 ^ 256 - 2 ^ Suc m + take_bit (Suc m) x"
        using pw by (simp add: left_diff_distrib)
      finally show ?thesis using True by simp
    qed (use low in \<open>simp del: be.simps\<close>)
    also have "\<dots> = take_bit 256 (signed_take_bit m x)"
    proof -
      have lt: "take_bit (Suc m) x < 2 ^ Suc m" "0 \<le> take_bit (Suc m) x"
        by (rule take_bit_int_less_exp, rule take_bit_nonnegative)
      have le: "(2 :: int) ^ Suc m \<le> 2 ^ 256"
        using t31 by (intro power_increasing) (simp_all add: m_def)
      have
        "take_bit 256 (take_bit (Suc m) x - 2 ^ Suc m) = 2 ^ 256 - 2 ^ Suc m + take_bit (Suc m) x"
        "take_bit 256 (take_bit (Suc m) x) = take_bit (Suc m) x"
        by (rule take_bit_256_below [OF lt(2) lt(1) le])+
      then show ?thesis by (simp only: signed_take_bit_eq_take_bit_minus) simp
    qed
    also have "\<dots> = uint (signed_take_bit m a)"
      using t31 by (intro bit_eqI)
        (auto simp: x_def m_def bit_uint_iff bit_signed_take_bit_iff bit_take_bit_iff)
    finally show ?thesis
      using x False sign drop by (simp add: sign_extend_def FillBytes32_word SetBytes_def Let_def
        flip: x_def t_def m_def del: be.simps)
  qed
qed


subsection \<open>What the instructions compute\<close>

definition word_op :: "nat \<Rightarrow> (w256 \<Rightarrow> w256 \<Rightarrow> w256) option" where
  "word_op = map_of
     [(0x01, \<lambda>b a. a + b), (0x02, \<lambda>b a. a * b), (0x03, \<lambda>b a. a - b), (0x04, \<lambda>b a. a div b),
      (0x05, \<lambda>b a. if b = 0 then 0 else word_of_int (big_Div (sint a) (sint b))),
      (0x06, \<lambda>b a. if b = 0 then 0 else a mod b),
      (0x07, \<lambda>b a. if b = 0 then 0 else word_of_int (big_Mod (sint a) (sint b))),
      (0x0A, \<lambda>b a. a ^ unat b),
      (0x0B, \<lambda>b a. if 31 \<le> low64 b then a else signed_take_bit (8 * low64 b + 7) a),
      (0x10, \<lambda>b a. of_bool (b < a)), (0x11, \<lambda>b a. of_bool (b > a)),
      (0x12, \<lambda>b a. of_bool (b <s a)), (0x13, \<lambda>b a. of_bool (a <s b)),
      (0x14, \<lambda>b a. of_bool (b = a)),
      (0x16, \<lambda>b a. a AND b), (0x17, \<lambda>b a. a OR b), (0x18, \<lambda>b a. a XOR b),
      (0x1A, \<lambda>b a. if b \<le> 31 then drop_bit ((31 - unat b) * 8) a AND 0xFF else 0),
      (0x1B, \<lambda>b a. push_bit (low64 b) a), (0x1C, \<lambda>b a. drop_bit (low64 b) a),
      (0x1D, \<lambda>b a. signed_drop_bit (low64 b) a)]"

definition word_gas :: "nat \<Rightarrow> w256 \<Rightarrow> nat" where
  "word_gas op b = (if op = 0x0A then 10 + 50 * length (big_bytes (unat b))
     else if op \<in> {0x08, 0x09} then 8
     else if op \<in> {0x01, 0x03, 0x10, 0x11, 0x12, 0x13, 0x14, 0x15, 0x16, 0x17, 0x18, 0x19} then 3 else 5)"

lemma of_flag_word: "of_flag p = uint (of_bool p :: w256)"
  by (simp add: of_flag_def)

lemma uint_inject_w256: "uint (a :: w256) = 0 \<longleftrightarrow> a = 0"
  by (simp add: uint_0_iff)

lemma uint_eq_w256: "uint (a :: w256) = uint b \<longleftrightarrow> b = a"
  by (metis word_uint_eq_iff)

lemma div_word: "(if uint b = 0 then 0 else big_Div (uint a) (uint b)) = uint ((a :: w256) div b)"
  by (simp add: big_Div_def uint_div_distrib)

lemma mod_word:
  "(if uint b = 0 then 0 else big_Mod (uint a) (uint b)) = uint (if b = 0 then 0 else (a :: w256) mod b)"
  by (simp add: big_Mod_def uint_mod_distrib uint_0_iff)

lemma sdiv_word: "toUnsigned256 (big_Div (sint a) (sint b))
  = uint (word_of_int (big_Div (sint (a :: w256)) (sint (b :: w256))) :: w256)"
proof (rule toUnsigned256_word)
  have "\<bar>sint a\<bar> \<le> 2 ^ 255" using sint_bounds [of a] by (simp add: abs_le_iff)
  then have "\<bar>big_Div (sint a) (sint b)\<bar> \<le> 2 ^ 255 + 1"
    using big_Div_bound [of "sint a" "sint b"] by linarith
  then show "- (2 ^ 256) \<le> big_Div (sint a) (sint b)" "big_Div (sint a) (sint b) < 2 ^ 256"
    by (simp_all add: abs_le_iff)
qed

lemma smod_word:
  assumes "b \<noteq> 0"
  shows "toUnsigned256 (big_Mod (sint a) (sint b))
    = uint (word_of_int (big_Mod (sint (a :: w256)) (sint (b :: w256))) :: w256)"
proof (intro toUnsigned256_word)
  have "sint b \<noteq> 0" using assms by (simp add: signed_eq_0_iff)
  then have "0 \<le> big_Mod (sint a) (sint b)" "big_Mod (sint a) (sint b) < \<bar>sint b\<bar>"
    by (simp_all add: big_Mod_def)
  moreover have "\<bar>sint b\<bar> \<le> 2 ^ 255" using sint_bounds [of b] by (simp add: abs_le_iff)
  ultimately show "- (2 ^ 256) \<le> big_Mod (sint a) (sint b)" "big_Mod (sint a) (sint b) < 2 ^ 256"
    by simp_all
qed

lemma byte_word:
  "(if 0 \<le> uint b \<and> uint b \<le> 31 then drop_bit ((31 - low64 b) * 8) (uint a) AND 0xFF else 0)
    = uint (if b \<le> 31 then drop_bit ((31 - unat b) * 8) (a :: w256) AND 0xFF else 0)"
proof -
  have le: "uint b \<le> 31 \<longleftrightarrow> b \<le> 31" by (simp add: word_le_def)
  have low: "low64 b = unat b" if "b \<le> 31"
  proof -
    have "unat b \<le> 31" using that by (simp add: word_le_nat_alt)
    then show ?thesis by (simp add: low64_def)
  qed
  have "uint (drop_bit n a AND 0xFF) = drop_bit n (uint a) AND 0xFF" if "n \<le> 255" for n
    using that drop_bit_word [of n a] by (simp add: uint_and)
  then show ?thesis by (simp add: le low)
qed

lemma binop_word:
  assumes "evStack e = uint b # uint a # r" "f (uint b) (uint a) = Done (uint v)"
  shows "binop c f e s = bind_res (useGas c e) s (\<lambda>e. Next (e\<lparr>evStack := uint v # r\<rparr>) s)"
  using assms by (simp add: binop_def pop2_def)

lemma simple_op_table:
  "map_of (op_table keccak I) op = Some h \<Longrightarrow> simple_op keccak I op = h"
  by (simp add: simple_op_def)

lemma toSigned256_uint [simp]: "toSigned256 (uint (a :: w256)) = Done (sint a)"
  by (simp add: toSigned256_word)

lemma exp_word:
  "(if uint b = 0 then 1 else wrap256 (big_Exp (uint a) (uint b))) = uint ((a :: w256) ^ unat (b :: w256))"
proof (cases "uint b = 0")
  case True
  then show ?thesis by (simp add: uint_0_iff)
next
  case False
  then show ?thesis using big_Exp_word [of "uint a" "uint b"] by simp
qed

named_theorems word_ops "an instruction on two words, as the reference operation"

lemma arith_words [word_ops]:
  assumes "evStack e = uint (b :: w256) # uint (a :: w256) # r"
  shows "opADD e s = bind_res (useGas 3 e) s (\<lambda>e. Next (e\<lparr>evStack := uint (a + b) # r\<rparr>) s)"
    "opMUL e s = bind_res (useGas 5 e) s (\<lambda>e. Next (e\<lparr>evStack := uint (a * b) # r\<rparr>) s)"
    "opSUB e s = bind_res (useGas 3 e) s (\<lambda>e. Next (e\<lparr>evStack := uint (a - b) # r\<rparr>) s)"
    "opDIV e s = bind_res (useGas 5 e) s (\<lambda>e. Next (e\<lparr>evStack := uint (a div b) # r\<rparr>) s)"
    "opMOD e s = bind_res (useGas 5 e) s
       (\<lambda>e. Next (e\<lparr>evStack := uint (if b = 0 then 0 else a mod b) # r\<rparr>) s)"
  unfolding opADD_def opMUL_def opSUB_def opDIV_def opMOD_def
  by (rule binop_word [OF assms]; simp add: wrap256_uint div_word mod_word word_of_int_uint del: uint_word_of_int)+


lemma signed_words [word_ops]:
  assumes "evStack e = uint (b :: w256) # uint (a :: w256) # r"
  shows "opSDIV e s = bind_res (useGas 5 e) s (\<lambda>e. Next (e\<lparr>evStack := uint (if b = 0 then 0
       else word_of_int (big_Div (sint a) (sint b)) :: w256) # r\<rparr>) s)"
    "opSMOD e s = bind_res (useGas 5 e) s (\<lambda>e. Next (e\<lparr>evStack := uint (if b = 0 then 0
       else word_of_int (big_Mod (sint a) (sint b)) :: w256) # r\<rparr>) s)"
    "opSIGNEXTEND e s = bind_res (useGas 5 e) s (\<lambda>e. Next (e\<lparr>evStack :=
       uint (if 31 \<le> low64 b then a else signed_take_bit (8 * low64 b + 7) a) # r\<rparr>) s)"
    "opSLT e s = bind_res (useGas 3 e) s
       (\<lambda>e. Next (e\<lparr>evStack := uint (of_bool (b <s a) :: w256) # r\<rparr>) s)"
    "opSGT e s = bind_res (useGas 3 e) s
       (\<lambda>e. Next (e\<lparr>evStack := uint (of_bool (a <s b) :: w256) # r\<rparr>) s)"
  unfolding opSDIV_def opSMOD_def opSIGNEXTEND_def opSLT_def opSGT_def
  by (rule binop_word [OF assms]; simp add: sdiv_word smod_word uint_0_iff of_flag_word
      word_sless_alt sign_extend_word)+

lemma logic_words [word_ops]:
  assumes "evStack e = uint (b :: w256) # uint (a :: w256) # r"
  shows "opLT e s = bind_res (useGas 3 e) s
       (\<lambda>e. Next (e\<lparr>evStack := uint (of_bool (b < a) :: w256) # r\<rparr>) s)"
    "opGT e s = bind_res (useGas 3 e) s
       (\<lambda>e. Next (e\<lparr>evStack := uint (of_bool (b > a) :: w256) # r\<rparr>) s)"
    "opEQ e s = bind_res (useGas 3 e) s
       (\<lambda>e. Next (e\<lparr>evStack := uint (of_bool (b = a) :: w256) # r\<rparr>) s)"
    "opAND e s = bind_res (useGas 3 e) s (\<lambda>e. Next (e\<lparr>evStack := uint (a AND b) # r\<rparr>) s)"
    "opOR e s = bind_res (useGas 3 e) s (\<lambda>e. Next (e\<lparr>evStack := uint (a OR b) # r\<rparr>) s)"
    "opXOR e s = bind_res (useGas 3 e) s (\<lambda>e. Next (e\<lparr>evStack := uint (a XOR b) # r\<rparr>) s)"
  unfolding opLT_def opGT_def opEQ_def opAND_def opOR_def opXOR_def
  by (rule binop_word [OF assms]; simp add: of_flag_word word_less_def uint_eq_w256
      uint_and uint_or uint_xor)+

lemma shift_words [word_ops]:
  assumes "evStack e = uint (b :: w256) # uint (a :: w256) # r"
  shows "opBYTE e s = bind_res (useGas 5 e) s (\<lambda>e. Next (e\<lparr>evStack :=
       uint (if b \<le> 31 then drop_bit ((31 - unat b) * 8) a AND 0xFF else 0) # r\<rparr>) s)"
    "opSHL e s = bind_res (useGas 5 e) s
       (\<lambda>e. Next (e\<lparr>evStack := uint (push_bit (low64 b) a) # r\<rparr>) s)"
    "opSHR e s = bind_res (useGas 5 e) s
       (\<lambda>e. Next (e\<lparr>evStack := uint (drop_bit (low64 b) a) # r\<rparr>) s)"
    "opSAR e s = bind_res (useGas 5 e) s
       (\<lambda>e. Next (e\<lparr>evStack := uint (signed_drop_bit (low64 b) a) # r\<rparr>) s)"
proof -
  show "opBYTE e s = bind_res (useGas 5 e) s (\<lambda>e. Next (e\<lparr>evStack :=
       uint (if b \<le> 31 then drop_bit ((31 - unat b) * 8) a AND 0xFF else 0) # r\<rparr>) s)"
    unfolding opBYTE_def by (rule binop_word [OF assms]) (unfold big_Uint64_uint, rule arg_cong [OF byte_word])
  show "opSHL e s = bind_res (useGas 5 e) s
       (\<lambda>e. Next (e\<lparr>evStack := uint (push_bit (low64 b) a) # r\<rparr>) s)"
    unfolding opSHL_def Let_def
    by (rule binop_word [OF assms]) (unfold big_Uint64_uint, rule arg_cong [OF push_bit_word])
  show "opSHR e s = bind_res (useGas 5 e) s
       (\<lambda>e. Next (e\<lparr>evStack := uint (drop_bit (low64 b) a) # r\<rparr>) s)"
    unfolding opSHR_def Let_def
    by (rule binop_word [OF assms]) (unfold big_Uint64_uint, rule arg_cong [OF drop_bit_word])
  show "opSAR e s = bind_res (useGas 5 e) s
       (\<lambda>e. Next (e\<lparr>evStack := uint (signed_drop_bit (low64 b) a) # r\<rparr>) s)"
    unfolding opSAR_def Let_def toSigned256_uint
    by (rule binop_word [OF assms])
      (unfold big_Uint64_uint toSigned256_uint bind_outcome.simps,
        rule arg_cong [OF signed_drop_bit_word])
qed

lemma exp_words [word_ops]:
  assumes "evStack e = uint (b :: w256) # uint (a :: w256) # r"
  shows "opEXP e s = bind_res (useGas (10 + 50 * length (big_bytes (unat b))) e) s
    (\<lambda>e. Next (e\<lparr>evStack := uint (a ^ unat b) # r\<rparr>) s)"
proof -
  have "uint b = 0 \<longleftrightarrow> b = 0" by (simp add: uint_0_iff)
  then show ?thesis using exp_word [of b a]
    by (cases "b = 0") (simp_all add: opEXP_def pop2_def assms)
qed

lemma simple_ops:
  "simple_op keccak I 0x01 = opADD" "simple_op keccak I 0x02 = opMUL"
  "simple_op keccak I 0x03 = opSUB" "simple_op keccak I 0x04 = opDIV"
  "simple_op keccak I 0x05 = opSDIV" "simple_op keccak I 0x06 = opMOD"
  "simple_op keccak I 0x07 = opSMOD" "simple_op keccak I 0x0A = opEXP"
  "simple_op keccak I 0x0B = opSIGNEXTEND" "simple_op keccak I 0x10 = opLT"
  "simple_op keccak I 0x11 = opGT" "simple_op keccak I 0x12 = opSLT"
  "simple_op keccak I 0x13 = opSGT" "simple_op keccak I 0x14 = opEQ"
  "simple_op keccak I 0x16 = opAND" "simple_op keccak I 0x17 = opOR"
  "simple_op keccak I 0x18 = opXOR" "simple_op keccak I 0x1A = opBYTE"
  "simple_op keccak I 0x1B = opSHL" "simple_op keccak I 0x1C = opSHR"
  "simple_op keccak I 0x1D = opSAR"
  by (simp_all add: simple_op_def op_table_def)

lemma word_op_cases:
  "word_op op = Some f \<Longrightarrow> op \<in> {0x01, 0x02, 0x03, 0x04, 0x05, 0x06, 0x07, 0x0A, 0x0B, 0x10, 0x11,
    0x12, 0x13, 0x14, 0x16, 0x17, 0x18, 0x1A, 0x1B, 0x1C, 0x1D}"
  unfolding word_op_def by (drule map_of_SomeD) auto

lemma evm_words_uint:
  assumes f: "word_op op = Some f" and st: "evStack e = uint b # uint a # r"
  shows "simple_op keccak I op e s
    = bind_res (useGas (word_gas op b) e) s (\<lambda>e. Next (e\<lparr>evStack := uint (f b a) # r\<rparr>) s)"
proof -
  have "f = the (word_op op)" using f by simp
  moreover have "simple_op keccak I op e s
    = bind_res (useGas (word_gas op b) e) s
        (\<lambda>e. Next (e\<lparr>evStack := uint (the (word_op op) b a) # r\<rparr>) s)"
    using word_op_cases [OF f]
    by (elim insertE emptyE; simp add: simple_ops word_gas_def word_ops [OF st] word_op_def del: One_nat_def)
  ultimately show ?thesis by simp
qed

subsection \<open>The operations of Ethereum\<close>

text \<open>
  The arithmetic, comparison, bitwise and shift instructions of the Yellow Paper as operations on
  words, with the operands in its order (the first is the top of the stack): division by zero is
  zero, signed division rounds towards zero and its remainder has the sign of the dividend, sums and
  products for \<open>ADDMOD\<close> and \<open>MULMOD\<close> are not reduced first.
\<close>

definition eth_unary :: "(nat \<times> (w256 \<Rightarrow> w256)) list" where
  "eth_unary = [(0x15, \<lambda>x. if x = 0 then 1 else 0), (0x19, \<lambda>x. NOT x)]"

definition eth_binary :: "(nat \<times> (w256 \<Rightarrow> w256 \<Rightarrow> w256)) list" where
  "eth_binary =
     [(0x01, \<lambda>x y. x + y), (0x02, \<lambda>x y. x * y), (0x03, \<lambda>x y. x - y), (0x04, \<lambda>x y. if y = 0 then 0 else x div y),
      (0x05, \<lambda>x y. if y = 0 then 0 else word_of_int (sgn (sint x) * sgn (sint y) * (\<bar>sint x\<bar> div \<bar>sint y\<bar>))),
      (0x06, \<lambda>x y. if y = 0 then 0 else x mod y),
      (0x07, \<lambda>x y. if y = 0 then 0 else word_of_int (sgn (sint x) * (\<bar>sint x\<bar> mod \<bar>sint y\<bar>))),
      (0x0A, \<lambda>x y. x ^ unat y),
      (0x0B, \<lambda>x y. if x < 31 then signed_take_bit (8 * unat x + 7) y else y),
      (0x10, \<lambda>x y. if x < y then 1 else 0), (0x11, \<lambda>x y. if x > y then 1 else 0),
      (0x12, \<lambda>x y. if sint x < sint y then 1 else 0), (0x13, \<lambda>x y. if sint x > sint y then 1 else 0),
      (0x14, \<lambda>x y. if x = y then 1 else 0),
      (0x16, \<lambda>x y. x AND y), (0x17, \<lambda>x y. x OR y), (0x18, \<lambda>x y. x XOR y),
      (0x1A, \<lambda>x y. if x < 32 then drop_bit (8 * (31 - unat x)) y AND 0xFF else 0),
      (0x1B, \<lambda>x y. push_bit (unat x) y), (0x1C, \<lambda>x y. drop_bit (unat x) y),
      (0x1D, \<lambda>x y. signed_drop_bit (unat x) y)]"

definition eth_ternary :: "(nat \<times> (w256 \<Rightarrow> w256 \<Rightarrow> w256 \<Rightarrow> w256)) list" where
  "eth_ternary =
     [(0x08, \<lambda>x y m. if m = 0 then 0 else word_of_int ((uint x + uint y) mod uint m)),
      (0x09, \<lambda>x y m. if m = 0 then 0 else word_of_int ((uint x * uint y) mod uint m))]"

fun eth_op :: "nat \<Rightarrow> w256 list \<Rightarrow> w256 option" where
  "eth_op op [x] = map_option (\<lambda>f. f x) (map_of eth_unary op)"
| "eth_op op [x, y] = map_option (\<lambda>f. f x y) (map_of eth_binary op)"
| "eth_op op [x, y, m] = map_option (\<lambda>f. f x y m) (map_of eth_ternary op)"
| "eth_op op _ = None"

text \<open>
  The code departs from it in three places. These instructions take their operands in the reverse
  order, the top of the stack last.
\<close>

definition top_last :: "nat set" where
  "top_last = {0x03, 0x04, 0x05, 0x06, 0x07, 0x08, 0x09, 0x0A}"

text \<open>
  The signed divisions leave a remainder that is never negative, and counts and positions are cut to
  their low 64 bits: outside these cases an instruction is \<open>standard\<close> on its operands.
\<close>

definition standard :: "nat \<Rightarrow> w256 list \<Rightarrow> bool" where
  "standard op xs \<longleftrightarrow>
     (if op \<in> {0x05, 0x07} then 0 \<le> sint (xs ! 0) \<or> sint (xs ! 1) dvd sint (xs ! 0)
      else if op \<in> {0x0B, 0x1B, 0x1C, 0x1D} then unat (xs ! 0) < 2 ^ 64 else True)"

lemma truncated_div:
  assumes "0 \<le> m \<or> n dvd m" and "n \<noteq> 0"
  shows "big_Div m n = sgn m * sgn n * (\<bar>m\<bar> div \<bar>n\<bar>)" and "big_Mod m n = sgn m * (\<bar>m\<bar> mod \<bar>n\<bar>)"
proof -
  have "big_Div m n = sgn m * sgn n * (\<bar>m\<bar> div \<bar>n\<bar>) \<and> big_Mod m n = sgn m * (\<bar>m\<bar> mod \<bar>n\<bar>)"
  proof (cases "0 \<le> m")
    case True
    then show ?thesis using assms(2) by (cases "m = 0") (auto simp: big_Div_def big_Mod_def sgn_if)
  next
    case False
    then obtain k where k: "m = n * k" using assms(1) by (auto elim: dvdE)
    have "\<bar>m\<bar> div \<bar>n\<bar> = \<bar>k\<bar>" using assms(2) by (simp add: k abs_mult)
    moreover have "sgn m * sgn n * \<bar>k\<bar> = k"
      using assms(2) by (simp add: k sgn_mult mult.assoc) (simp add: sgn_if)
    moreover have "big_Div m n = k"
      using assms(2) nonzero_mult_div_cancel_left [of "- n" "- k"] by (simp add: big_Div_def k)
    ultimately show ?thesis by (simp add: big_Mod_def k abs_mult)
  qed
  then show "big_Div m n = sgn m * sgn n * (\<bar>m\<bar> div \<bar>n\<bar>)" "big_Mod m n = sgn m * (\<bar>m\<bar> mod \<bar>n\<bar>)" by simp_all
qed

lemma low64_small: "unat b < 2 ^ 64 \<Longrightarrow> low64 b = unat b"
  by (simp add: low64_def)

lemma signed_zero: "sint (b :: w256) = 0 \<longleftrightarrow> b = 0"
  by (simp add: signed_eq_0_iff)

lemma word_op_simps:
  "word_op 0x01 = Some (\<lambda>b a. a + b)" "word_op 0x02 = Some (\<lambda>b a. a * b)" "word_op 0x03 = Some (\<lambda>b a. a - b)"
  "word_op 0x04 = Some (\<lambda>b a. a div b)"
  "word_op 0x05 = Some (\<lambda>b a. if b = 0 then 0 else word_of_int (big_Div (sint a) (sint b)))"
  "word_op 0x06 = Some (\<lambda>b a. if b = 0 then 0 else a mod b)"
  "word_op 0x07 = Some (\<lambda>b a. if b = 0 then 0 else word_of_int (big_Mod (sint a) (sint b)))"
  "word_op 0x0A = Some (\<lambda>b a. a ^ unat b)"
  "word_op 0x0B = Some (\<lambda>b a. if 31 \<le> low64 b then a else signed_take_bit (8 * low64 b + 7) a)"
  "word_op 0x10 = Some (\<lambda>b a. of_bool (b < a))" "word_op 0x11 = Some (\<lambda>b a. of_bool (b > a))"
  "word_op 0x12 = Some (\<lambda>b a. of_bool (b <s a))" "word_op 0x13 = Some (\<lambda>b a. of_bool (a <s b))"
  "word_op 0x14 = Some (\<lambda>b a. of_bool (b = a))"
  "word_op 0x16 = Some (\<lambda>b a. a AND b)" "word_op 0x17 = Some (\<lambda>b a. a OR b)" "word_op 0x18 = Some (\<lambda>b a. a XOR b)"
  "word_op 0x1A = Some (\<lambda>b a. if b \<le> 31 then drop_bit ((31 - unat b) * 8) a AND 0xFF else 0)"
  "word_op 0x1B = Some (\<lambda>b a. push_bit (low64 b) a)" "word_op 0x1C = Some (\<lambda>b a. drop_bit (low64 b) a)"
  "word_op 0x1D = Some (\<lambda>b a. signed_drop_bit (low64 b) a)"
  by (simp_all add: word_op_def)

lemma word_below: "(b :: w256) < 32 \<longleftrightarrow> b \<le> 31" "(b :: w256) < 31 \<longleftrightarrow> \<not> 31 \<le> unat b"
  by (auto simp: word_less_nat_alt word_le_nat_alt)

lemma word_op_standard:
  assumes "map_of eth_binary op = Some g" and "standard op [x, y]" and "(b, a) = (if op \<in> top_last then (y, x) else (x, y))"
  shows "\<exists>f. word_op op = Some f \<and> f b a = g x y"
proof -
  have low: "unat x < 18446744073709551616 \<Longrightarrow> low64 x = unat x" using low64_small [of x] by simp
  have signed: "0 \<le> sint x \<or> sint y dvd sint x \<Longrightarrow> y \<noteq> 0 \<Longrightarrow>
      word_of_int (big_Div (sint x) (sint y)) =
        (word_of_int (sgn (sint x)) * word_of_int (sgn (sint y)) * word_of_int (\<bar>sint x\<bar> div \<bar>sint y\<bar>) :: w256) \<and>
      word_of_int (big_Mod (sint x) (sint y)) = (word_of_int (sgn (sint x)) * word_of_int (\<bar>sint x\<bar> mod \<bar>sint y\<bar>) :: w256)"
    using truncated_div [of "sint x" "sint y"] by (simp add: signed_zero)
  have "(op, g) \<in> set eth_binary" using assms(1) by (rule map_of_SomeD)
  then show ?thesis using assms(2,3)
    unfolding eth_binary_def list.set
    by (elim insertE emptyE; simp only: prod.inject word_op_simps;
        simp add: top_last_def standard_def signed low word_sless_alt word_below mult.commute
          and.commute or.commute xor.commute; fail)
qed

lemma not_word: "uint (x :: w256) XOR (2 ^ 256 - 1) = uint (NOT x)"
proof -
  have "uint (x XOR - 1) = uint x XOR uint (- 1 :: w256)" by (rule uint_xor)
  moreover have "uint (- 1 :: w256) = 2 ^ 256 - 1" by (simp add: unsigned_minus_1_eq_mask mask_eq_exp_minus_1)
  ultimately show ?thesis by simp
qed

lemma unary_word:
  assumes "evStack e = uint x # r" and "f (uint x) = uint v"
  shows "unop c f e s = bind_res (useGas c e) s (\<lambda>e. Next (e\<lparr>evStack := uint v # r\<rparr>) s)"
  using assms by (simp add: unop_def pop1_def)

lemma ternary_word:
  assumes "evStack e = uint m # uint y # uint x # r" and "f (uint m) (uint y) (uint x) = uint v"
  shows "triop c f e s = bind_res (useGas c e) s (\<lambda>e. Next (e\<lparr>evStack := uint v # r\<rparr>) s)"
  using assms by (simp add: triop_def pop3_def)

lemma mod_below:
  assumes "(m :: w256) \<noteq> 0"
  shows "k mod uint m = uint (word_of_int (k mod uint m) :: w256)"
proof -
  have "0 < uint m" using assms by (metis uint_0_iff uint_ge_0 order_le_less)
  then have "0 \<le> k mod uint m" "k mod uint m < 2 ^ 256"
    using order.strict_trans [OF pos_mod_bound uint_bounded [of m]] by simp_all
  then show ?thesis by (simp add: uint_word_of_int)
qed

lemma other_words:
  "evStack e = uint (x :: w256) # r \<Longrightarrow> simple_op keccak I 0x15 e s
     = bind_res (useGas 3 e) s (\<lambda>e. Next (e\<lparr>evStack := uint (if x = 0 then 1 else 0 :: w256) # r\<rparr>) s)"
  "evStack e = uint (x :: w256) # r \<Longrightarrow> simple_op keccak I 0x19 e s
     = bind_res (useGas 3 e) s (\<lambda>e. Next (e\<lparr>evStack := uint (NOT x) # r\<rparr>) s)"
  "evStack e = uint (m :: w256) # uint (y :: w256) # uint (x :: w256) # r \<Longrightarrow> simple_op keccak I 0x08 e s
     = bind_res (useGas 8 e) s (\<lambda>e. Next (e\<lparr>evStack := uint (if m = 0 then 0
         else word_of_int ((uint x + uint y) mod uint m) :: w256) # r\<rparr>) s)"
  "evStack e = uint (m :: w256) # uint (y :: w256) # uint (x :: w256) # r \<Longrightarrow> simple_op keccak I 0x09 e s
     = bind_res (useGas 8 e) s (\<lambda>e. Next (e\<lparr>evStack := uint (if m = 0 then 0
         else word_of_int ((uint x * uint y) mod uint m) :: w256) # r\<rparr>) s)"
proof -
  have op: "simple_op keccak I 0x15 = opISZERO" "simple_op keccak I 0x19 = opNOT"
    "simple_op keccak I 0x08 = opADDMOD" "simple_op keccak I 0x09 = opMULMOD"
    by (simp_all add: simple_op_def op_table_def)
  show "evStack e = uint (x :: w256) # r \<Longrightarrow> simple_op keccak I 0x15 e s
     = bind_res (useGas 3 e) s (\<lambda>e. Next (e\<lparr>evStack := uint (if x = 0 then 1 else 0 :: w256) # r\<rparr>) s)"
    unfolding op opISZERO_def by (rule unary_word) (auto simp: of_flag_def uint_0_iff)
  show "evStack e = uint (x :: w256) # r \<Longrightarrow> simple_op keccak I 0x19 e s
     = bind_res (useGas 3 e) s (\<lambda>e. Next (e\<lparr>evStack := uint (NOT x) # r\<rparr>) s)"
    unfolding op opNOT_def by (rule unary_word) (assumption, rule not_word)
  show "evStack e = uint (m :: w256) # uint (y :: w256) # uint (x :: w256) # r \<Longrightarrow> simple_op keccak I 0x08 e s
     = bind_res (useGas 8 e) s (\<lambda>e. Next (e\<lparr>evStack := uint (if m = 0 then 0
         else word_of_int ((uint x + uint y) mod uint m) :: w256) # r\<rparr>) s)"
    unfolding op opADDMOD_def
    by (rule ternary_word, assumption) (use mod_below [of m "uint x + uint y"] in \<open>auto simp: uint_0_iff big_Mod_def\<close>)
  show "evStack e = uint (m :: w256) # uint (y :: w256) # uint (x :: w256) # r \<Longrightarrow> simple_op keccak I 0x09 e s
     = bind_res (useGas 8 e) s (\<lambda>e. Next (e\<lparr>evStack := uint (if m = 0 then 0
         else word_of_int ((uint x * uint y) mod uint m) :: w256) # r\<rparr>) s)"
    unfolding op opMULMOD_def
    by (rule ternary_word, assumption) (use mod_below [of m "uint x * uint y"] in \<open>auto simp: uint_0_iff big_Mod_def\<close>)
qed

text \<open>
  C9 (evm_words): the twenty-five arithmetic, comparison, bitwise and shift instructions (\<open>ADD\<close> to
  \<open>SIGNEXTEND\<close>, \<open>LT\<close> to \<open>SAR\<close>), on a stack whose upper items are words, charge their gas and replace their
  operands by the word of Ethereum's operation. The operands are in Ethereum's order, top first,
  except for the eight instructions in \<open>top_last\<close> (\<open>SUB\<close>, \<open>DIV\<close>, \<open>SDIV\<close>, \<open>MOD\<close>, \<open>SMOD\<close>, \<open>ADDMOD\<close>,
  \<open>MULMOD\<close>, \<open>EXP\<close>), which take it last. Not covered (\<open>standard\<close>) are \<open>SDIV\<close> and \<open>SMOD\<close> of a negative
  dividend with a remainder, and positions and shift counts of \<open>2^64\<close> and more.
\<close>

theorem evm_words:
  assumes "eth_op op (if op \<in> top_last then rev ws else ws) = Some v"
    and "standard op (if op \<in> top_last then rev ws else ws)"
    and "evStack e = map uint ws @ r"
  shows "simple_op keccak I op e s
    = bind_res (useGas (word_gas op (hd ws)) e) s (\<lambda>e. Next (e\<lparr>evStack := uint v # r\<rparr>) s)"
proof -
  define xs where "xs = (if op \<in> top_last then rev ws else ws)"
  note std = assms(1,2) [folded xs_def]
  have ws_xs: "ws = (if op \<in> top_last then rev xs else xs)" by (simp add: xs_def)
  consider x where "xs = [x]" | x y where "xs = [x, y]" | x y m where "xs = [x, y, m]"
    using std(1) by (cases "(op, xs)" rule: eth_op.cases) auto
  then show ?thesis
  proof cases
    case 1
    then have ws: "ws = [x]" using ws_xs by simp
    obtain f where "(op, f) \<in> set eth_unary" "v = f x" using std(1) 1 by (auto dest: map_of_SomeD)
    then show ?thesis using assms(3) ws
      unfolding eth_unary_def list.set
      by (elim insertE emptyE; simp only: prod.inject) (simp_all add: other_words word_gas_def)
  next
    case 2
    define b a where "b = (if op \<in> top_last then y else x)" and "a = (if op \<in> top_last then x else y)"
    have ws: "ws = [b, a]" using ws_xs 2 by (simp add: b_def a_def)
    obtain g where g: "map_of eth_binary op = Some g" "v = g x y" using std(1) 2 by auto
    have "(b, a) = (if op \<in> top_last then (y, x) else (x, y))" by (simp add: b_def a_def)
    from word_op_standard [OF g(1) std(2) [unfolded 2] this] obtain f where "word_op op = Some f" "f b a = v"
      using g(2) by blast
    with evm_words_uint [OF this(1), of e b a r] assms(3) show ?thesis by (simp add: ws)
  next
    case 3
    obtain f where f: "(op, f) \<in> set eth_ternary" "v = f x y m" using std(1) 3 by (auto dest: map_of_SomeD)
    then have "op \<in> top_last" by (auto simp: eth_ternary_def top_last_def)
    then have ws: "ws = [m, y, x]" using ws_xs 3 by simp
    show ?thesis using f assms(3) ws
      unfolding eth_ternary_def list.set
      by (elim insertE emptyE; simp only: prod.inject) (simp_all add: other_words word_gas_def)
  qed
qed

text \<open>Outside the standard cases: minus seven by two, and a shift by \<open>2^64\<close>.\<close>

lemma sdiv_rounds_down:
  "eth_op 0x05 [- 7, 2] = Some (- 3)" "map_option (\<lambda>f. f 2 (- 7)) (word_op 0x05) = Some (- 4)"
  by (simp_all add: eth_binary_def word_op_simps big_Div_def)

lemma shift_by_low_bits:
  "eth_op 0x1C [2 ^ 64, 1] = Some 0" "map_option (\<lambda>f. f (2 ^ 64) 1) (word_op 0x1C) = Some 1"
  by (simp_all add: eth_binary_def word_op_simps low64_def)

end
