(* ===== verification/EVM_Logic.thy ===== *)
theory EVM_Logic
  imports EVM_Words
begin

text \<open>
  A calculus for one instruction: \<open>wp N H F a\<close> says what holds of the next machine state (\<open>N\<close>), of
  the results of \<open>Execute\<close> (\<open>H\<close>) and whether a panic is allowed (\<open>F\<close>). Its rules follow the
  combinators of the instructions, and the lemmas below give the shape of every instruction: which
  parts of the executor it may change, how far the stack grows, and what it spends.
\<close>

fun wp :: "(EVMExecutor \<Rightarrow> 's \<Rightarrow> bool) \<Rightarrow> (bytes \<Rightarrow> nat \<Rightarrow> evm_error option \<Rightarrow> 's \<Rightarrow> bool) \<Rightarrow> bool
    \<Rightarrow> 's after \<Rightarrow> bool" where
  "wp N H F (Next e s) = N e s"
| "wp N H F (Halt ret g er s) = H ret g er s"
| "wp N H F Fault = F"

lemma wp_mono:
  "wp N H F a \<Longrightarrow> (\<And>e s. N e s \<Longrightarrow> N' e s) \<Longrightarrow> (\<And>r g er s. H r g er s \<Longrightarrow> H' r g er s) \<Longrightarrow> (F \<Longrightarrow> F')
    \<Longrightarrow> wp N' H' F' a"
  by (cases a) simp_all

lemma wp_useGas [intro!]:
  "(\<And>e'. useGas c e = Ok e' \<Longrightarrow> wp N H F (k e')) \<Longrightarrow> (\<And>g. useGas c e = Err OutOfGas g \<Longrightarrow> H [] g (Some OutOfGas) s)
    \<Longrightarrow> wp N H F (bind_res (useGas c e) s k)"
  by (auto simp: useGas_def Let_def)

lemma wp_expandMemory [intro!]:
  "(\<And>e'. expandMemory off n e = Ok e' \<Longrightarrow> wp N H F (k e'))
    \<Longrightarrow> (\<And>er g. expandMemory off n e = Err er g \<Longrightarrow> H [] g (Some er) s)
    \<Longrightarrow> (expandMemory off n e = Crash \<Longrightarrow> F)
    \<Longrightarrow> wp N H F (bind_res (expandMemory off n e) s k)"
  by (cases "expandMemory off n e") simp_all

lemma wp_expand_if [intro!]:
  "(\<And>e'. p \<Longrightarrow> expandMemory off n e = Ok e' \<Longrightarrow> wp N H F (k e'))
    \<Longrightarrow> (\<And>er g. p \<Longrightarrow> expandMemory off n e = Err er g \<Longrightarrow> H [] g (Some er) s)
    \<Longrightarrow> (p \<Longrightarrow> expandMemory off n e = Crash \<Longrightarrow> F) \<Longrightarrow> (\<not> p \<Longrightarrow> wp N H F (k e))
    \<Longrightarrow> wp N H F (bind_res (if p then expandMemory off n e else Ok e) s k)"
  by (cases "expandMemory off n e") simp_all

lemma wp_bind_out [intro!]:
  "(\<And>x. out = Done x \<Longrightarrow> wp N H F (k x)) \<Longrightarrow> (out = Panics \<Longrightarrow> F) \<Longrightarrow> wp N H F (bind_out out k)"
  by (cases out) simp_all

lemma wp_res [intro!]:
  "(\<And>x. r = Ok x \<Longrightarrow> wp N H F (k x)) \<Longrightarrow> (\<And>er g. r = Err er g \<Longrightarrow> wp N H F (h er g))
    \<Longrightarrow> (r = Crash \<Longrightarrow> wp N H F c) \<Longrightarrow> wp N H F (case r of Ok x \<Rightarrow> k x | Err er g \<Rightarrow> h er g | Crash \<Rightarrow> c)"
  by (cases r) simp_all

lemma wp_if [intro!]: "(p \<Longrightarrow> wp N H F a) \<Longrightarrow> (\<not> p \<Longrightarrow> wp N H F b) \<Longrightarrow> wp N H F (if p then a else b)"
  by simp

lemma wp_let [intro!]: "(\<And>x. x = v \<Longrightarrow> wp N H F (k x)) \<Longrightarrow> wp N H F (let x = v in k x)"
  by (simp add: Let_def)

lemma wp_option [intro!]:
  "(x = None \<Longrightarrow> wp N H F a) \<Longrightarrow> (\<And>v. x = Some v \<Longrightarrow> wp N H F (k v))
    \<Longrightarrow> wp N H F (case x of None \<Rightarrow> a | Some v \<Rightarrow> k v)"
  by (cases x) simp_all

lemma wp_pop1 [intro!]:
  "(\<And>a r. evStack e = a # r \<Longrightarrow> wp N H F (k a r)) \<Longrightarrow> H [] (evGasUsed e) (Some StackUnderflow) s
    \<Longrightarrow> wp N H F (pop1 e s k)"
  by (auto simp: pop1_def split: list.split)

lemma wp_pop2 [intro!]:
  "(\<And>b a r. evStack e = b # a # r \<Longrightarrow> wp N H F (k b a r))
    \<Longrightarrow> H [] (evGasUsed e) (Some StackUnderflow) s \<Longrightarrow> wp N H F (pop2 e s k)"
  by (auto simp: pop2_def split: list.split)

lemma wp_pop3 [intro!]:
  "(\<And>c b a r. evStack e = c # b # a # r \<Longrightarrow> wp N H F (k c b a r))
    \<Longrightarrow> H [] (evGasUsed e) (Some StackUnderflow) s \<Longrightarrow> wp N H F (pop3 e s k)"
  by (auto simp: pop3_def split: list.split)

lemma wp_pop4 [intro!]:
  "(\<And>d c b a r. evStack e = d # c # b # a # r \<Longrightarrow> wp N H F (k d c b a r))
    \<Longrightarrow> H [] (evGasUsed e) (Some StackUnderflow) s \<Longrightarrow> wp N H F (pop4 e s k)"
  by (auto simp: pop4_def split: list.split)

subsection \<open>The helpers\<close>

lemma useGas_Ok: "useGas c e = Ok e' \<longleftrightarrow> e' = e\<lparr>evGasUsed := wrap64 (evGasUsed e + c)\<rparr>
    \<and> wrap64 (evGasUsed e + c) \<le> cxGasLimit (evCtx e)"
  by (auto simp: useGas_def Let_def)

lemma useGas_Err: "useGas c e = Err er g \<Longrightarrow> g < 2 ^ 64 \<and> er = OutOfGas"
  using wrap64_less [of "evGasUsed e + c"] by (auto simp: useGas_def Let_def split: if_splits)

text \<open>Memory never shrinks, and its growth is paid for and bounded.\<close>

lemma expandMemory_Ok:
  assumes "expandMemory off n e = Ok e'"
  obtains g m where "e' = e\<lparr>evGasUsed := g, evMemory := evMemory e @ m\<rparr>"
    and "n = 0 \<longrightarrow> m = [] \<and> g = evGasUsed e"
    and "n \<noteq> 0 \<longrightarrow> off \<le> wrap64 (off + n) \<and> wrap64 (off + n) \<le> length (evMemory e')
      \<and> g = wrap64 (evGasUsed e + memoryGas (length (evMemory e)) (wrap64 (off + n)))
      \<and> g \<le> cxGasLimit (evCtx e)"
    and "length (evMemory e) \<le> max_alloc \<longrightarrow> length (evMemory e') \<le> max_alloc"
proof (cases "n = 0")
  case True
  with assms that [where g = "evGasUsed e" and m = "[]"] show thesis by (simp add: expandMemory_def)
next
  case False
  define nw where "nw = wrap64 (off + n)"
  from assms False have ge: "off \<le> nw"
    by (simp add: expandMemory_def Let_def flip: nw_def split: if_splits)
  from assms False ge obtain e1 where e1: "useGas (memoryGas (length (evMemory e)) nw) e = Ok e1"
    and grow: "(if length (evMemory e1) < nw then if max_alloc < nw then Crash
       else Ok (e1\<lparr>evMemory := evMemory e1 @ replicate (nw - length (evMemory e1)) 0\<rparr>) else Ok e1) = Ok e'"
    by (auto simp: expandMemory_def Let_def simp flip: nw_def split: res.splits)
  show thesis
  proof (cases "length (evMemory e1) < nw")
    case True
    with grow e1 False ge that [where g = "evGasUsed e1" and m = "replicate (nw - length (evMemory e1)) 0"]
    show thesis by (auto simp: useGas_Ok simp flip: nw_def split: if_splits)
  next
    case le: False
    with grow e1 False ge that [where g = "evGasUsed e1" and m = "[]"]
    show thesis by (auto simp: useGas_Ok simp flip: nw_def split: if_splits)
  qed
qed

lemma length_copy_until [simp]: "length (copy_until n i dst src data mem) = length mem"
  by (induction n i dst src data mem rule: copy_until.induct) (simp_all add: Let_def)

lemma length_copy_skip [simp]: "length (copy_skip n i dst src data mem) = length mem"
  by (induction n i dst src data mem rule: copy_skip.induct) (simp_all add: Let_def)

lemma length_copy_at: "i + length data \<le> length mem \<Longrightarrow> length (copy_at i data mem) = length mem"
  by (simp add: copy_at_def)

lemma getMemory_length: "getMemory off n e = Done d \<Longrightarrow> length d \<le> max_alloc"
  by (auto simp: getMemory_def Let_def split: if_splits)

lemma fill32_length: "fill32 b = Done v \<Longrightarrow> length v = 32"
  by (auto simp: fill32_def split: if_splits)

lemma FillBytes32_length: "FillBytes32 x = Done v \<Longrightarrow> length v = 32"
  unfolding FillBytes32_def by (rule fill32_length)

subsection \<open>The shape of an instruction\<close>

text \<open>What no instruction changes, and what a call does not change either.\<close>

definition same_frame :: "EVMExecutor \<Rightarrow> EVMExecutor \<Rightarrow> bool" where
  "same_frame e e' \<longleftrightarrow> evCtx e' = evCtx e \<and> evCode e' = evCode e
     \<and> evStaticCall e' = evStaticCall e \<and> evJumpDests e' = evJumpDests e"

lemma same_frame_refl [simp]: "same_frame e e"
  by (simp add: same_frame_def)

text \<open>\<open>shape d e e'\<close>: the frame is the same, the program counter is where it was or at a jump
  destination, and the stack has grown by at most \<open>d\<close>.\<close>

definition shape :: "nat \<Rightarrow> EVMExecutor \<Rightarrow> EVMExecutor \<Rightarrow> bool" where
  "shape d e e' \<longleftrightarrow> same_frame e e' \<and> (evPc e' = evPc e \<or> evPc e' \<in> set (evJumpDests e))
     \<and> length (evStack e') \<le> length (evStack e) + d"

lemma expandMemory_frame:
  assumes "expandMemory off n e = Ok e'"
  shows "same_frame e e'" "evStack e' = evStack e" "evPc e' = evPc e"
    "evReturndata e' = evReturndata e"
  using assms by (elim expandMemory_Ok; simp add: same_frame_def)+

lemma useGas_frame:
  assumes "useGas c e = Ok e'"
  shows "same_frame e e'" "evStack e' = evStack e" "evPc e' = evPc e" "evMemory e' = evMemory e"
    "evReturndata e' = evReturndata e"
  using assms by (simp_all add: same_frame_def useGas_Ok)

abbreviation "shaped d e \<equiv> wp (\<lambda>e' s'. shape d e e') (\<lambda>_ _ _ _. True) True"

lemma shaped_binop: "shaped 0 e (binop c f e s)"
  unfolding binop_def by (auto simp: shape_def same_frame_def useGas_Ok)

lemma shaped_triop: "shaped 0 e (triop c f e s)"
  unfolding triop_def by (auto simp: shape_def same_frame_def useGas_Ok)

lemma shaped_unop: "shaped 0 e (unop c f e s)"
  unfolding unop_def by (auto simp: shape_def same_frame_def useGas_Ok)

lemma shaped_push_op: "shaped 1 e (push_op c f e s)"
  unfolding push_op_def by (auto simp: shape_def same_frame_def useGas_Ok)

lemmas binop_defs = opADD_def opSUB_def opMUL_def opDIV_def opSDIV_def opMOD_def opSMOD_def
  opSIGNEXTEND_def opLT_def opGT_def opSLT_def opSGT_def opEQ_def opAND_def opOR_def opXOR_def
  opBYTE_def opSHL_def opSHR_def opSAR_def

lemmas push_op_defs = opADDRESS_def opORIGIN_def opCALLER_def opGASPRICE_def opCALLVALUE_def
  opCALLDATASIZE_def opCODESIZE_def opRETURNDATASIZE_def opPC_def opMSIZE_def opGAS_def
  opCOINBASE_def opTIMESTAMP_def opNUMBER_def opPREVRANDAO_def opGASLIMIT_def opCHAINID_def
  opSELFBALANCE_def opBASEFEE_def opPUSH0_def

lemmas frame_defs = opSHA3_def opBALANCE_def opCALLDATALOAD_def opCALLDATACOPY_def opCODECOPY_def
  opRETURNDATACOPY_def opPOP_def opMLOAD_def opMSTORE_def opMSTORE8_def opSLOAD_def opSSTORE_def
  opJUMP_def opJUMPI_def opJUMPDEST_def opSTOP_def opINVALID_def opRETURN_def opREVERT_def
  opSELFDESTRUCT_def opBLOCKHASH_def opTLOAD_def opTSTORE_def opMCOPY_def opEXTCODESIZE_def
  opEXTCODECOPY_def opEXTCODEHASH_def opEXP_def

lemma expandMemory_upd:
  "expandMemory off n e = Ok e' \<Longrightarrow> \<exists>g m. e' = e\<lparr>evGasUsed := g, evMemory := m\<rparr>"
  by (elim expandMemory_Ok) blast

lemma useGas_upd: "useGas c e = Ok e' \<Longrightarrow> \<exists>g. e' = e\<lparr>evGasUsed := g\<rparr>"
  unfolding useGas_Ok by blast

lemmas shape_simps = shape_def same_frame_def
lemmas upds = expandMemory_upd useGas_upd

lemma shaped_memory:
  "shaped 0 e (opSHA3 keccak e s)" "shaped 0 e (opCALLDATACOPY e s)" "shaped 0 e (opCODECOPY e s)"
  "shaped 0 e (opRETURNDATACOPY e s)" "shaped 0 e (opMLOAD e s)" "shaped 0 e (opMSTORE e s)"
  "shaped 0 e (opMSTORE8 e s)" "shaped 0 e (opMCOPY e s)" "shaped 0 e (opEXTCODECOPY I e s)"
  unfolding opSHA3_def opCALLDATACOPY_def opCODECOPY_def opRETURNDATACOPY_def opMLOAD_def
    opMSTORE_def opMSTORE8_def opMCOPY_def opEXTCODECOPY_def
  by (auto simp: shape_simps dest!: upds)

lemma shaped_jumps: "shaped 0 e (opJUMP e s)" "shaped 0 e (opJUMPI e s)"
  unfolding opJUMP_def opJUMPI_def
  by (auto simp: shape_def same_frame_def useGas_Ok)

lemma shaped_plain:
  "shaped 0 e (opBALANCE I e s)" "shaped 0 e (opCALLDATALOAD e s)" "shaped 0 e (opPOP e s)"
  "shaped 0 e (opSLOAD I e s)" "shaped 0 e (opSSTORE I e s)" "shaped 0 e (opJUMPDEST e s)"
  "shaped 0 e (opSTOP e s)" "shaped 0 e (opINVALID e s)" "shaped 0 e (opRETURN e s)"
  "shaped 0 e (opREVERT e s)" "shaped 0 e (opSELFDESTRUCT I e s)" "shaped 0 e (opBLOCKHASH e s)"
  "shaped 0 e (opTLOAD I e s)" "shaped 0 e (opTSTORE I e s)" "shaped 0 e (opEXTCODESIZE I e s)"
  "shaped 0 e (opEXTCODEHASH keccak I e s)" "shaped 0 e (opEXP e s)"
  unfolding frame_defs by (auto simp: shape_def same_frame_def useGas_Ok)

lemma shaped_log: "shaped 0 e (opLOG I n e s)"
  unfolding opLOG_def
  by (auto simp: shape_simps dest!: upds)

lemma shaped_stack: "shaped 1 e (opDUP n e s)" "shaped 0 e (opSWAP n e s)"
  unfolding opDUP_def opSWAP_def by (auto simp: shape_simps useGas_Ok)

text \<open>The bytes of immediate data behind an opcode.\<close>

definition immediate :: "nat \<Rightarrow> nat" where
  "immediate op = (if 0x60 \<le> op \<and> op \<le> 0x7F then op - 0x60 + 1 else 0)"

definition op_shape :: "nat \<Rightarrow> EVMExecutor \<Rightarrow> EVMExecutor \<Rightarrow> bool" where
  "op_shape op e e' \<longleftrightarrow> same_frame e e'
     \<and> (evPc e' = min (evPc e + immediate op) (length (evCode e)) \<or> evPc e' \<in> set (evJumpDests e))
     \<and> length (evStack e') \<le> length (evStack e) + (if pushes op then 1 else 0)"

lemma op_shapeI:
  "shaped d e a \<Longrightarrow> (d = 0 \<or> pushes op \<and> d = 1) \<Longrightarrow> immediate op = 0 \<Longrightarrow> evPc e \<le> length (evCode e)
    \<Longrightarrow> wp (\<lambda>e' s'. op_shape op e e') (\<lambda>_ _ _ _. True) True a"
  by (erule wp_mono) (auto simp: shape_def op_shape_def)

lemmas shaped = shaped_binop shaped_triop shaped_unop shaped_push_op shaped_memory shaped_jumps
  shaped_plain shaped_log shaped_stack

lemma op_table_shaped:
  assumes "(op, h) \<in> set (op_table keccak I)"
  shows "shaped (if pushes op then 1 else 0) e (h e s) \<and> immediate op = 0"
  using assms unfolding op_table_def list.set
  by (elim insertE emptyE; simp add: binop_defs push_op_defs opADDMOD_def opMULMOD_def opISZERO_def
      opNOT_def pushes_def immediate_def shaped shaped_push_op [where e = e and s = s, simplified]
      shaped_log [simplified])


lemma push_shaped:
  assumes "0x60 \<le> op" "op \<le> 0x7F" "evPc e \<le> length (evCode e)"
  shows "wp (\<lambda>e' s'. op_shape op e e') (\<lambda>_ _ _ _. True) True (opPUSH (op - 0x60 + 1) e s)"
  using assms unfolding opPUSH_def
  by (auto simp: op_shape_def same_frame_def useGas_Ok immediate_def pushes_def)

lemma simple_op_shape:
  assumes "evPc e \<le> length (evCode e)"
  shows "wp (\<lambda>e' s'. op_shape op e e') (\<lambda>_ _ _ _. True) True (simple_op keccak I op e s)"
proof (cases rule: simple_op_cases [of op keccak I])
  case (table h)
  from op_table_shaped [OF table(1), of e s] assms show ?thesis
    by (auto simp: table(2) split: if_splits intro: op_shapeI)
next
  case push
  with push_shaped assms show ?thesis by simp
next
  case dup
  then show ?thesis using assms
    by (auto simp: pushes_def immediate_def intro!: op_shapeI shaped_stack)
next
  case swap
  then show ?thesis using assms
    by (auto simp: pushes_def immediate_def intro!: op_shapeI shaped_stack)
next
  case invalid
  then show ?thesis by (simp add: opINVALID_def)
qed

end
