(* ===== verification/EVM_Frames.thy ===== *)
theory EVM_Frames
  imports EVM_Logic
begin

text \<open>
  Frames of execution. \<open>frame_reach\<close> are the machine states that one call of \<open>Execute\<close> goes
  through, whatever its nested executors answer. The state machine has two invariants that the
  code's checks are there for: the program counter is always at the start of an instruction of the code
  (so immediate data is never executed) and the stack never exceeds 1024 items.
\<close>

subsection \<open>Instructions of a code\<close>

text \<open>The starts of instructions, counted from the first byte; \<open>jump_dests\<close> walks over them.\<close>

inductive instr_start :: "bytes \<Rightarrow> nat \<Rightarrow> bool" for code :: bytes where
  first: "instr_start code 0"
| following: "instr_start code i \<Longrightarrow> i < length code
    \<Longrightarrow> instr_start code (Suc (i + immediate (unat (code ! i))))"

definition valid_dests :: "bytes \<Rightarrow> nat set" where
  "valid_dests code = {i. instr_start code i \<and> i < length code \<and> code ! i = 0x5B}"

lemma immediate_push:
  "immediate (unat (b :: byte)) = (if 0x60 \<le> b \<and> b \<le> 0x7F then unat b - 0x60 + 1 else 0)"
  by (simp add: immediate_def word_le_nat_alt)

abbreviation next_instr :: "bytes \<Rightarrow> nat \<Rightarrow> nat" where
  "next_instr code i \<equiv> Suc (i + immediate (unat (code ! i)))"

text \<open>No instruction starts inside another one.\<close>

lemma instr_start_order:
  "instr_start code i \<Longrightarrow> i < length code \<Longrightarrow> instr_start code j \<Longrightarrow> i < j \<Longrightarrow> next_instr code i \<le> j"
proof (induction j arbitrary: i rule: less_induct)
  case (less j)
  from less.prems(3) less.prems(4) obtain k where k: "instr_start code k" "k < length code"
    "j = next_instr code k"
    by (cases rule: instr_start.cases) auto
  consider "k = i" | "i < k" | "k < i" by linarith
  then show ?case
  proof cases
    case 2
    with k less.prems less.IH [of k i] show ?thesis by simp
  next
    case 3
    with k less.prems less.IH [of i k] show ?thesis by simp
  qed (use k in simp)
qed

lemma set_jump_dests:
  "instr_start code i
    \<Longrightarrow> set (jump_dests i (drop i code)) = {j \<in> valid_dests code. i \<le> j}"
proof (induction "length code - i" arbitrary: i rule: less_induct)
  case less
  show ?case
  proof (cases "i < length code")
    case False
    then show ?thesis by (auto simp: valid_dests_def)
  next
    case True
    define n where "n = immediate (unat (code ! i))"
    have start: "instr_start code (Suc (i + n))"
      unfolding n_def using less.prems True by (rule following)
    have ih: "set (jump_dests (Suc (i + n)) (drop (Suc (i + n)) code))
        = {j \<in> valid_dests code. Suc (i + n) \<le> j}"
      using True start by (intro less.hyps) simp_all
    have split: "{j \<in> valid_dests code. i \<le> j} = (if code ! i = 0x5B then {i} else {})
        \<union> {j \<in> valid_dests code. Suc (i + n) \<le> j}"
    proof -
      have "Suc (i + n) \<le> x" if "x \<in> valid_dests code" "i \<le> x" "x \<noteq> i" for x
        using that instr_start_order [OF less.prems True, of x] by (simp add: valid_dests_def n_def)
      moreover have "i \<in> valid_dests code \<longleftrightarrow> code ! i = 0x5B"
        using less.prems True by (simp add: valid_dests_def)
      ultimately show ?thesis by fastforce
    qed
    have d: "drop i code = code ! i # drop (Suc i) code" using True by (simp add: Cons_nth_drop_Suc)
    have rest: "drop n (drop (Suc i) code) = drop (Suc (i + n)) code" by (simp add: add.commute)
    have "set (jump_dests i (drop i code)) = (if code ! i = 0x5B then {i} else {})
        \<union> set (jump_dests (Suc (i + n)) (drop (Suc (i + n)) code))"
    proof (cases "code ! i = 0x5B")
      case True
      then have "n = 0" by (simp add: n_def immediate_def)
      with True show ?thesis by (simp add: d)
    next
      case other: False
      show ?thesis
      proof (cases "0x60 \<le> code ! i \<and> code ! i \<le> 0x7F")
        case True
        then have n: "unat (code ! i) - 0x60 + 1 = n" by (simp add: n_def immediate_push)
        show ?thesis using True other
          unfolding d jump_dests.simps Let_def n rest by (simp only: if_False if_True Un_empty_left simp_thms)
      next
        case False
        then have "n = 0" by (auto simp: n_def immediate_push)
        with False other show ?thesis unfolding d jump_dests.simps by auto
      qed
    qed
    then show ?thesis by (simp only: ih split)
  qed
qed

text \<open>
  \<open>computeJumpDests\<close>, which walks over the code and skips the immediate data of
  \<open>PUSH\<close>, finds exactly the bytes \<open>0x5B\<close> at which an instruction of the code starts.
\<close>

theorem jump_dests_exact: "set (computeJumpDests code) = valid_dests code"
  using set_jump_dests [OF first, of code] by (simp add: computeJumpDests_def)


subsection \<open>The states of a frame\<close>

inductive frame_reach :: "(bytes \<Rightarrow> bytes) \<Rightarrow> 's EVMState \<Rightarrow> EVMExecutor \<Rightarrow> 's \<Rightarrow> EVMExecutor \<Rightarrow> 's \<Rightarrow> bool"
  for keccak I e0 s0 where
  init: "frame_reach keccak I e0 s0 e0 s0"
| plain: "frame_reach keccak I e0 s0 e s \<Longrightarrow> evPc e < length (evCode e)
    \<Longrightarrow> step keccak I e s = Plain (Next e' s') \<Longrightarrow> frame_reach keccak I e0 s0 e' s'"
| resume: "frame_reach keccak I e0 s0 e s \<Longrightarrow> evPc e < length (evCode e)
    \<Longrightarrow> step keccak I e s = Enter sub code s1 k \<Longrightarrow> k ret g er s2 = Next e' s'
    \<Longrightarrow> frame_reach keccak I e0 s0 e' s'"

text \<open>The same calculus for an action: what follows it, and what follows every answer of a nested run.\<close>

fun wpa :: "(EVMExecutor \<Rightarrow> 's \<Rightarrow> bool) \<Rightarrow> 's action \<Rightarrow> bool" where
  "wpa N (Plain a) = wp N (\<lambda>_ _ _ _. True) True a"
| "wpa N (Enter sub code s k) = (\<forall>ret g er s. wp N (\<lambda>_ _ _ _. True) True (k ret g er s))"

lemma wpa_useGas [intro!]:
  "(\<And>e'. useGas c e = Ok e' \<Longrightarrow> wpa N (k e')) \<Longrightarrow> wpa N (res_action (useGas c e) s k)"
  by (cases "useGas c e") simp_all

lemma wpa_expandMemory [intro!]:
  "(\<And>e'. expandMemory off n e = Ok e' \<Longrightarrow> wpa N (k e')) \<Longrightarrow> wpa N (res_action (expandMemory off n e) s k)"
  by (cases "expandMemory off n e") simp_all

lemma wpa_out [intro!]:
  "(\<And>x. out = Done x \<Longrightarrow> wpa N (k x)) \<Longrightarrow> wpa N (out_action out k)"
  by (cases out) simp_all

lemma wpa_fail [simp]: "wpa N (fail er e s)"
  by (simp add: fail_def)

lemma wpa_if [intro!]: "(p \<Longrightarrow> wpa N a) \<Longrightarrow> (\<not> p \<Longrightarrow> wpa N b) \<Longrightarrow> wpa N (if p then a else b)"
  by simp

lemma wpa_let [intro!]: "(\<And>x. x = v \<Longrightarrow> wpa N (k x)) \<Longrightarrow> wpa N (let x = v in k x)"
  by (simp add: Let_def)

lemma wpa_option [intro!]:
  "(x = None \<Longrightarrow> wpa N a) \<Longrightarrow> (\<And>v. x = Some v \<Longrightarrow> wpa N (k v))
    \<Longrightarrow> wpa N (case x of None \<Rightarrow> a | Some v \<Rightarrow> k v)"
  by (cases x) simp_all

text \<open>A call or a creation pops at least three items and pushes one.\<close>

definition call_shape :: "EVMExecutor \<Rightarrow> EVMExecutor \<Rightarrow> bool" where
  "call_shape e e' \<longleftrightarrow> same_frame e e' \<and> evPc e' = evPc e \<and> length (evStack e') \<le> length (evStack e)"

lemma call_shapeI [intro!]:
  "same_frame e0 e \<Longrightarrow> evPc e = evPc e0 \<Longrightarrow> length (evStack e) \<le> length (evStack e0)
    \<Longrightarrow> call_shape e0 e"
  by (simp add: call_shape_def)

lemma resume_create_shape [intro!]:
  assumes "same_frame e0 e" "evPc e = evPc e0" "Suc (length (evStack e)) \<le> length (evStack e0)"
  shows "wp (\<lambda>e' s'. call_shape e0 e') (\<lambda>_ _ _ _. True) True (resume_create I e snap addr ret g er s)"
  using assms unfolding resume_create_def
  by (auto simp: same_frame_def dest!: upds)

lemma resume_call_shape [intro!]:
  assumes "same_frame e0 e" "evPc e = evPc e0" "Suc (length (evStack e)) \<le> length (evStack e0)"
  shows "wp (\<lambda>e' s'. call_shape e0 e') (\<lambda>_ _ _ _. True) True
    (resume_call I kind e snap rOff rSz ret g er s)"
  using assms unfolding resume_call_def
  by (auto simp: same_frame_def dest!: upds)

lemma create_shape:
  "wpa (\<lambda>e' s'. call_shape e e') (opCREATE keccak I e s)"
  "wpa (\<lambda>e' s'. call_shape e e') (opCREATE2 keccak I e s)"
  unfolding opCREATE_def opCREATE2_def
  by (auto split: list.split prod.split simp: same_frame_def dest!: upds)

lemma enter_call_shape [intro!]:
  assumes "same_frame e0 e" "evPc e = evPc e0" "Suc (length (evStack e)) \<le> length (evStack e0)"
  shows "wpa (\<lambda>e' s'. call_shape e0 e') (enter_call I kind e s g target v p aOff aSz rOff rSz)"
  using assms unfolding enter_call_def
  by (auto split: prod.split simp: same_frame_def dest!: upds)

lemma call_args_stack: "call_args kind e = Some (g, c, v, aOff, aSz, rOff, rSz, r)
    \<Longrightarrow> Suc (length r) \<le> length (evStack e)"
  by (auto simp: call_args_def split: if_splits list.splits)

lemma call_op_shape: "wpa (\<lambda>e' s'. call_shape e e') (opCALLS I kind e s)"
  unfolding opCALLS_def
  by (auto split: prod.split simp: same_frame_def dest!: call_args_stack)


subsection \<open>The invariants of a frame\<close>

definition pc_ok :: "EVMExecutor \<Rightarrow> bool" where
  "pc_ok e \<longleftrightarrow> evPc e = length (evCode e)
     \<or> evPc e < length (evCode e) \<and> instr_start (evCode e) (evPc e)"

definition frame_ok :: "EVMExecutor \<Rightarrow> bool" where
  "frame_ok e \<longleftrightarrow> pc_ok e \<and> evJumpDests e = computeJumpDests (evCode e)
     \<and> length (evStack e) \<le> evmMaxStackDepth"

lemma pc_ok_start: "instr_start (evCode e) (evPc e) \<Longrightarrow> evPc e \<le> length (evCode e) \<Longrightarrow> pc_ok e"
  by (auto simp: pc_ok_def)

definition op_at :: "EVMExecutor \<Rightarrow> nat" where
  "op_at e = unat (evCode e ! evPc e)"

lemma frame_ok_op:
  assumes ok: "frame_ok e" and pc: "evPc e < length (evCode e)"
    and shape: "op_shape (op_at e) (e\<lparr>evPc := evPc e + 1\<rparr>) e'"
    and room: "length (evStack e) < evmMaxStackDepth \<or> \<not> pushes (op_at e)"
  shows "frame_ok e'"
proof -
  have frame: "evCode e' = evCode e" "evJumpDests e' = computeJumpDests (evCode e)"
    using shape ok by (auto simp: op_shape_def same_frame_def frame_ok_def)
  have start: "instr_start (evCode e) (next_instr (evCode e) (evPc e))"
    using ok pc by (intro following) (auto simp: frame_ok_def pc_ok_def)
  have "pc_ok e'"
  proof (cases "evPc e' \<in> set (evJumpDests e)")
    case True
    then have "evPc e' \<in> valid_dests (evCode e)"
      using ok jump_dests_exact by (auto simp: frame_ok_def)
    then show ?thesis by (simp add: pc_ok_def frame valid_dests_def)
  next
    case False
    then have "evPc e' = min (next_instr (evCode e) (evPc e)) (length (evCode e))"
      using shape by (auto simp: op_shape_def op_at_def)
    then show ?thesis using start by (auto simp: pc_ok_def frame min_def)
  qed
  moreover have "length (evStack e') \<le> evmMaxStackDepth"
    using shape ok room by (auto simp: op_shape_def frame_ok_def split: if_splits)
  ultimately show ?thesis by (simp add: frame_ok_def frame)
qed

lemma op_shape_call:
  "call_shape (e\<lparr>evPc := evPc e + 1\<rparr>) e' \<Longrightarrow> evPc e < length (evCode e) \<Longrightarrow> immediate (op_at e) = 0
    \<Longrightarrow> op_shape (op_at e) (e\<lparr>evPc := evPc e + 1\<rparr>) e'"
  by (auto simp: call_shape_def op_shape_def)

lemma wpa_mono: "wpa N a \<Longrightarrow> (\<And>e s. N e s \<Longrightarrow> N' e s) \<Longrightarrow> wpa N' a"
  using wp_mono [of N "\<lambda>_ _ _ _. True" True _ N' "\<lambda>_ _ _ _. True" True] by (cases a) simp_all

lemma wpa_call:
  "wpa (\<lambda>e' s'. call_shape (e\<lparr>evPc := evPc e + 1\<rparr>) e') a \<Longrightarrow> evPc e < length (evCode e)
    \<Longrightarrow> immediate (op_at e) = 0 \<Longrightarrow> wpa (\<lambda>e' s'. op_shape (op_at e) (e\<lparr>evPc := evPc e + 1\<rparr>) e') a"
  by (erule wpa_mono) (rule op_shape_call)

lemma step_shape:
  assumes "evPc e < length (evCode e)"
  shows "wpa (\<lambda>e' s'. op_shape (op_at e) (e\<lparr>evPc := evPc e + 1\<rparr>) e'
      \<and> (length (evStack e) < evmMaxStackDepth \<or> \<not> pushes (op_at e))) (step keccak I e s)"
proof (cases "evmMaxStackDepth \<le> length (evStack e) \<and> pushes (op_at e)")
  case True
  then show ?thesis by (simp add: step_def Let_def op_at_def)
next
  case False
  let ?e = "e\<lparr>evPc := evPc e + 1\<rparr>"
  have "wpa (\<lambda>e' s'. op_shape (op_at e) ?e e') (step keccak I e s)"
  proof -
    have calls: "op_at e \<in> {0xF0, 0xF5, 0xF1, 0xF2, 0xF4, 0xFA} \<Longrightarrow> immediate (op_at e) = 0"
      by (auto simp: immediate_def)
    note called = wpa_call [OF create_shape(1) assms calls] wpa_call [OF create_shape(2) assms calls]
      wpa_call [OF call_op_shape assms calls]
    have simple: "wpa (\<lambda>e' s'. op_shape (op_at e) ?e e') (Plain (simple_op keccak I (op_at e) ?e s))"
      using simple_op_shape [of ?e] assms by simp
    show ?thesis
      unfolding step_def Let_def op_at_def [symmetric]
      by (intro wpa_if wpa_fail called simple) simp_all
  qed
  then show ?thesis using False by (auto elim!: wpa_mono)
qed

lemma wpa_Plain: "wpa N a \<Longrightarrow> a = Plain (Next e s) \<Longrightarrow> N e s"
  by simp

lemma wpa_Enter: "wpa N a \<Longrightarrow> a = Enter sub code s1 k \<Longrightarrow> k ret g er s2 = Next e s \<Longrightarrow> N e s"
  by (metis wp.simps(1) wpa.simps(2))

lemma frame_ok_start: "frame_ok (start e code)"
  using first [of code] by (auto simp: frame_ok_def start_def pc_ok_def)

text \<open>
  C8 (evm_frames): in every state that a run of a code goes through, the program counter is at the start
  of an instruction of that code or at its end, the stack holds at most 1024 items, and the context,
  the code and the static flag are those the run was started with.
\<close>

theorem evm_frames:
  assumes "frame_reach keccak I (start e0 code) s0 e s"
  shows "(evPc e = length code \<or> instr_start code (evPc e)) \<and> length (evStack e) \<le> 1024
    \<and> evCtx e = evCtx e0 \<and> evCode e = code \<and> evStaticCall e = evStaticCall e0"
proof -
  have "frame_ok e \<and> same_frame (start e0 code) e"
    using assms
  proof (induction rule: frame_reach.induct)
    case init
    then show ?case by (simp add: frame_ok_start)
  next
    case (plain e s e' s')
    with wpa_Plain [OF step_shape [OF plain.hyps(2)] plain.hyps(3)] frame_ok_op [of e e'] show ?case
      by (auto simp: op_shape_def same_frame_def)
  next
    case (resume e s sub c s1 k ret g er s2 e' s')
    with wpa_Enter [OF step_shape [OF resume.hyps(2)] resume.hyps(3,4)] frame_ok_op [of e e'] show ?case
      by (auto simp: op_shape_def same_frame_def)
  qed
  then show ?thesis by (auto simp: frame_ok_def pc_ok_def same_frame_def start_def)
qed

end
