(* ===== verification/EVM_Gas.thy ===== *)
theory EVM_Gas
  imports EVM_Frames
begin

text \<open>
  Gas. With a limit below \<open>2^63\<close> no charge of a single instruction wraps around, every instruction
  that lets its frame go on costs at least 3, and the memory stays below the allocation limit; so a
  frame whose code has no call instruction ends after at most a third of its gas limit.
\<close>

definition gas_ok :: "EVMExecutor \<Rightarrow> bool" where
  "gas_ok e \<longleftrightarrow> evGasUsed e \<le> cxGasLimit (evCtx e) \<and> cxGasLimit (evCtx e) < 2 ^ 63
     \<and> length (evMemory e) \<le> max_alloc"

text \<open>\<open>spends k e e'\<close>: at least \<open>k\<close> was charged between two states of a frame.\<close>

definition spends :: "nat \<Rightarrow> EVMExecutor \<Rightarrow> EVMExecutor \<Rightarrow> bool" where
  "spends k e e' \<longleftrightarrow> gas_ok e' \<and> evGasUsed e + k \<le> evGasUsed e' \<and> evCtx e' = evCtx e"

lemma spends_0 [simp]: "spends 0 e e \<longleftrightarrow> gas_ok e"
  by (simp add: spends_def)

lemma spends_trans: "spends j e e1 \<Longrightarrow> spends k e1 e2 \<Longrightarrow> spends (j + k) e e2"
  by (simp add: spends_def)

lemma spends_less: "spends j e e' \<Longrightarrow> k \<le> j \<Longrightarrow> spends k e e'"
  by (simp add: spends_def)

lemma spends_upd [simp]:
  "spends k e (e'\<lparr>evStack := st\<rparr>) = spends k e e'"
  "spends k e (e'\<lparr>evPc := p\<rparr>) = spends k e e'"
  "spends k (e\<lparr>evPc := p\<rparr>) e' = spends k e e'"
  "spends k (e\<lparr>evStack := st\<rparr>) e' = spends k e e'"
  by (simp_all add: spends_def gas_ok_def)

lemma gas_ok_upd [simp]:
  "gas_ok (e\<lparr>evStack := st\<rparr>) = gas_ok e" "gas_ok (e\<lparr>evPc := p\<rparr>) = gas_ok e"
  by (simp_all add: gas_ok_def)

lemma spends_memory:
  "spends k e e' \<Longrightarrow> length m = length (evMemory e') \<Longrightarrow> spends k e (e'\<lparr>evMemory := m\<rparr>)"
  by (auto simp: spends_def gas_ok_def)

subsection \<open>Charges\<close>

definition small :: "nat \<Rightarrow> bool" where
  "small c \<longleftrightarrow> c < 2 ^ 63"

lemma useGas_spends:
  assumes "gas_ok e" "small c" "useGas c e = Ok e'"
  shows "spends c e e'"
proof -
  have "evGasUsed e + c < 2 ^ 64" using assms(1,2) by (simp add: gas_ok_def small_def)
  then show ?thesis using assms by (simp add: useGas_Ok wrap64_id spends_def gas_ok_def)
qed

lemma words_less: "words n < 2 ^ 59"
proof -
  have "wrap64 (n + 31) < 2 ^ 59 * 32" using wrap64_less [of "n + 31"] by simp
  then show ?thesis unfolding words_def by (rule less_mult_imp_div_less)
qed

lemma words_cost_less: "words_cost (words n) < 2 ^ 62"
proof -
  have "wrap64 (words n * 3) \<le> words n * 3" by (rule wrap64_le)
  moreover have "wrap64 (words n * words n) < 2 ^ 55 * 512"
    using wrap64_less [of "words n * words n"] by simp
  then have "wrap64 (words n * words n) div 512 < 2 ^ 55" by (rule less_mult_imp_div_less)
  ultimately have "wrap64 (words n * 3) + wrap64 (words n * words n) div 512 < 2 ^ 62"
    using words_less [of n] by simp
  then show ?thesis using wrap64_le order.strict_trans1 unfolding words_cost_def by blast
qed

lemma memoryGas_small: "small (memoryGas c n)"
proof -
  have "memoryGas c n < 2 ^ 62"
    using words_cost_less [of n] by (auto simp: memoryGas_def Let_def intro: le_less_trans)
  then show ?thesis by (simp add: small_def)
qed

lemma small_wrap:
  assumes "base \<le> 1000" "k \<le> 6"
  shows "wrap64 (base + wrap64 (k * words n)) = base + k * words n"
    "small (base + k * words n)"
proof -
  have "k * words n \<le> 6 * words n" using assms(2) by (rule mult_le_mono1)
  also have "\<dots> < 2 ^ 62" using words_less [of n] by simp
  finally have "k * words n < 2 ^ 62" .
  then show "wrap64 (base + wrap64 (k * words n)) = base + k * words n" "small (base + k * words n)"
    using assms(1) by (simp_all add: wrap64_id small_def)
qed

lemma small_num [simp]: "c \<le> 100000 \<Longrightarrow> small c"
  by (simp add: small_def)

lemma copyGas_eq: "base \<le> 1000 \<Longrightarrow> copyGas base n = base + 3 * words n"
  by (simp add: copyGas_def small_wrap)

lemma copyGas_small [simp]: "base \<le> 1000 \<Longrightarrow> small (base + 3 * words n)"
  by (rule small_wrap) simp_all

text \<open>The code's test for an overflow of a sum.\<close>

lemma no_wrap:
  assumes "a < 2 ^ 64" "b < 2 ^ 64" "a \<le> wrap64 (a + b)"
  shows "wrap64 (a + b) = a + b"
proof (cases "a + b < 2 ^ 64")
  case True
  then show ?thesis by (rule wrap64_id)
next
  case False
  then have "wrap64 (a + b) = wrap64 (a + b - 2 ^ 64)" by (simp add: wrap64_def le_mod_geq)
  also have "\<dots> = a + b - 2 ^ 64" using assms(1,2) by (intro wrap64_id) linarith
  finally show ?thesis using assms False by linarith
qed

lemma big_Uint64_less [simp]: "big_Uint64 x < 2 ^ 64"
  unfolding big_Uint64_def by (rule wrap64_less)

lemmas uint64_bounds [simp] = big_Uint64_less [simplified] wrap64_less [simplified]

lemma expandMemory_spends:
  assumes "gas_ok e" "expandMemory off n e = Ok e'"
  shows "spends 0 e e'" "n < 2 ^ 64 \<Longrightarrow> n \<le> max_alloc"
proof -
  from assms(2) obtain g m where e': "e' = e\<lparr>evGasUsed := g, evMemory := evMemory e @ m\<rparr>"
    and zero: "n = 0 \<longrightarrow> m = [] \<and> g = evGasUsed e"
    and more: "n \<noteq> 0 \<longrightarrow> off \<le> wrap64 (off + n) \<and> wrap64 (off + n) \<le> length (evMemory e')
      \<and> g = wrap64 (evGasUsed e + memoryGas (length (evMemory e)) (wrap64 (off + n)))
      \<and> g \<le> cxGasLimit (evCtx e)"
    and max: "length (evMemory e) \<le> max_alloc \<longrightarrow> length (evMemory e') \<le> max_alloc"
    by (rule expandMemory_Ok)
  have "evGasUsed e + memoryGas (length (evMemory e)) (wrap64 (off + n)) < 2 ^ 64"
    using assms(1) memoryGas_small [of "length (evMemory e)" "wrap64 (off + n)"]
    by (simp add: gas_ok_def small_def)
  then have "n \<noteq> 0 \<Longrightarrow> evGasUsed e \<le> g" using more by (simp add: wrap64_id)
  with assms(1) zero more max show "spends 0 e e'"
    by (cases "n = 0") (simp_all add: spends_def gas_ok_def e')
  show "n \<le> max_alloc" if n: "n < 2 ^ 64"
  proof (cases "n = 0")
    case False
    with more max assms(1) have le: "wrap64 (off + n) \<le> max_alloc" and off: "off \<le> wrap64 (off + n)"
      by (simp_all add: gas_ok_def)
    have "wrap64 (off + n) = off + n"
      using off wrap64_less [of "off + n"] n by (intro no_wrap) linarith+
    then show ?thesis using le by simp
  qed simp
qed

lemma expandMemory_bytes: "gas_ok e \<Longrightarrow> expandMemory off (big_Uint64 x) e = Ok e' \<Longrightarrow> big_Uint64 x \<le> max_alloc"
  unfolding big_Uint64_def by (erule expandMemory_spends(2), assumption, rule wrap64_less)

subsection \<open>What the instructions spend\<close>

abbreviation "paid e \<equiv> wp (\<lambda>e' s'. spends 3 e e') (\<lambda>_ _ _ _. True) True"

lemma paid_useGas:
  assumes "gas_ok e" "small c" "3 \<le> c" "\<And>e'. spends 3 e e' \<Longrightarrow> wp N (\<lambda>_ _ _ _. True) True (k e')"
  shows "wp N (\<lambda>_ _ _ _. True) True (bind_res (useGas c e) s k)"
  using assms useGas_spends [OF assms(1,2)] by (auto intro: spends_less)

lemma paid_binop: "gas_ok e \<Longrightarrow> small c \<Longrightarrow> 3 \<le> c \<Longrightarrow> paid e (binop c f e s)"
  unfolding binop_def by (intro wp_pop2 paid_useGas wp_bind_out) simp_all

lemma paid_triop: "gas_ok e \<Longrightarrow> small c \<Longrightarrow> 3 \<le> c \<Longrightarrow> paid e (triop c f e s)"
  unfolding triop_def by (intro wp_pop3 paid_useGas) simp_all

lemma paid_unop: "gas_ok e \<Longrightarrow> small c \<Longrightarrow> 3 \<le> c \<Longrightarrow> paid e (unop c f e s)"
  unfolding unop_def by (intro wp_pop1 paid_useGas) simp_all

lemma paid_push_op: "gas_ok e \<Longrightarrow> small c \<Longrightarrow> 3 \<le> c \<Longrightarrow> paid e (push_op c f e s)"
  unfolding push_op_def by (intro paid_useGas) simp_all

text \<open>Memory first, then the charge.\<close>

lemma paid_expand:
  assumes "gas_ok e" "small c" "3 \<le> c"
    and "\<And>e1 e'. expandMemory off n e = Ok e1 \<Longrightarrow> useGas c e1 = Ok e' \<Longrightarrow> spends 3 e e'
      \<Longrightarrow> wp N (\<lambda>_ _ _ _. True) True (k e')"
  shows "wp N (\<lambda>_ _ _ _. True) True (bind_res (expandMemory off n e) s (\<lambda>e. bind_res (useGas c e) s k))"
proof (intro wp_expandMemory wp_useGas TrueI)
  fix e1 e' assume e1: "expandMemory off n e = Ok e1" and e': "useGas c e1 = Ok e'"
  from expandMemory_spends(1) [OF assms(1) e1] have s1: "spends 0 e e1" .
  then have "spends c e1 e'" using useGas_spends [OF _ assms(2) e'] by (simp add: spends_def)
  with s1 assms(3) have "spends 3 e e'" by (auto dest: spends_trans intro: spends_less)
  then show "wp N (\<lambda>_ _ _ _. True) True (k e')" by (rule assms(4) [OF e1 e'])
qed

lemma paid_copies:
  assumes "gas_ok e"
  shows "paid e (opCALLDATACOPY e s)" "paid e (opCODECOPY e s)" "paid e (opRETURNDATACOPY e s)"
    "paid e (opEXTCODECOPY I e s)"
  unfolding opCALLDATACOPY_def opCODECOPY_def opRETURNDATACOPY_def opEXTCODECOPY_def
  by (intro wp_pop3 wp_pop4 wp_if wp_let paid_expand; simp add: assms copyGas_eq spends_memory)+


lemma paid_mcopy:
  assumes "gas_ok e"
  shows "paid e (opMCOPY e s)"
proof -
  have copy: "spends 3 e (e'\<lparr>evStack := r, evMemory := copy_at dst (take n (drop src m)) m\<rparr>)"
    if "spends 3 e e'" "m = evMemory e'" "\<not> (length m < wrap64 (src + n) \<or> length m < wrap64 (dst + n))"
      "\<not> (wrap64 (dst + n) < dst \<or> wrap64 (src + n) < src)" "dst < 2 ^ 64" "n < 2 ^ 64"
    for e' r dst src n and m
  proof (rule spends_memory)
    have "wrap64 (dst + n) = dst + n" using that by (intro no_wrap) simp_all
    moreover have "length (take n (drop src m)) \<le> n" by simp
    ultimately have "dst + length (take n (drop src m)) \<le> length m" using that(3) by linarith
    with that show "length (copy_at dst (take n (drop src m)) m)
        = length (evMemory (e'\<lparr>evStack := r\<rparr>))"
      by (simp add: length_copy_at)
  qed (use that in simp)
  show ?thesis
    unfolding opMCOPY_def
    by (intro wp_pop3 wp_if wp_let paid_expand TrueI; auto simp: assms copyGas_eq intro!: copy split: if_splits)
qed


lemma paid_sha3:
  assumes "gas_ok e"
  shows "paid e (opSHA3 keccak e s)"
  unfolding opSHA3_def
  by (intro wp_pop2 wp_if wp_let paid_expand wp_bind_out TrueI; simp add: assms small_wrap)

lemma expandMemory_room:
  assumes "expandMemory off n e = Ok e1" "n \<noteq> 0" "off < 2 ^ 64" "n < 2 ^ 64"
  shows "off + n \<le> length (evMemory e1)"
proof -
  from assms(1,2) have "off \<le> wrap64 (off + n)" "wrap64 (off + n) \<le> length (evMemory e1)"
    by (auto elim!: expandMemory_Ok)
  then show ?thesis using no_wrap [OF assms(3,4)] by simp
qed

lemma paid_words:
  assumes "gas_ok e"
  shows "paid e (opMLOAD e s)" "paid e (opMSTORE e s)" "paid e (opMSTORE8 e s)"
proof -
  have copy: "spends 3 e (e'\<lparr>evStack := r, evMemory := copy_at off v (evMemory e')\<rparr>)"
    if "spends 3 e e'" "expandMemory off 32 e = Ok e1" "useGas 3 e1 = Ok e'" "FillBytes32 x = Done v"
      "off = big_Uint64 y"
    for e' e1 off v x y r
  proof (rule spends_memory)
    have "off + 32 \<le> length (evMemory e1)" using that(2,5) by (intro expandMemory_room [of off 32 e]) simp_all
    moreover have "evMemory e' = evMemory e1" using useGas_frame [OF that(3)] by simp
    ultimately show "length (copy_at off v (evMemory e')) = length (evMemory (e'\<lparr>evStack := r\<rparr>))"
      using FillBytes32_length [OF that(4)] by (simp add: length_copy_at)
  qed (use that in simp)
  show "paid e (opMSTORE e s)" unfolding opMSTORE_def
    by (intro wp_pop2 wp_let paid_expand wp_bind_out TrueI; auto simp: assms intro!: copy)
  show "paid e (opMLOAD e s)" unfolding opMLOAD_def
    by (intro wp_pop1 wp_let paid_expand wp_bind_out TrueI; simp add: assms)
  show "paid e (opMSTORE8 e s)" unfolding opMSTORE8_def
    by (intro wp_pop2 wp_let paid_expand TrueI; simp add: assms spends_memory)
qed

lemma paid_plain:
  assumes "gas_ok e"
  shows "paid e (opBALANCE I e s)" "paid e (opCALLDATALOAD e s)" "paid e (opPOP e s)"
    "paid e (opSLOAD I e s)" "paid e (opSSTORE I e s)" "paid e (opJUMP e s)" "paid e (opJUMPI e s)"
    "paid e (opJUMPDEST e s)" "paid e (opSTOP e s)" "paid e (opINVALID e s)" "paid e (opRETURN e s)"
    "paid e (opREVERT e s)" "paid e (opSELFDESTRUCT I e s)" "paid e (opBLOCKHASH e s)"
    "paid e (opTLOAD I e s)" "paid e (opTSTORE I e s)" "paid e (opEXTCODESIZE I e s)"
    "paid e (opEXTCODEHASH keccak I e s)" "paid e (opPUSH n e s)" "paid e (opDUP n e s)"
    "paid e (opSWAP n e s)"
  unfolding frame_defs opPUSH_def opDUP_def opSWAP_def
  by (((intro wp_pop1 wp_pop2 wp_if wp_let paid_useGas wp_bind_out wp_option TrueI)?;
      simp add: assms; fail)+)


lemma useGas_gas_ok: "gas_ok e \<Longrightarrow> useGas c e = Ok e' \<Longrightarrow> gas_ok e'"
  by (auto simp: gas_ok_def useGas_Ok)

text \<open>
  The charge of \<open>LOG\<close> wraps around for a huge size, but then the memory it asks for next is beyond
  the allocation limit and the frame does not go on.
\<close>

lemma paid_log:
  assumes e: "gas_ok e" and k: "k \<le> 4"
  shows "paid e (opLOG I k e s)"
  unfolding opLOG_def
proof (intro wp_if wp_let wp_bind_out wp_useGas wp_expandMemory TrueI; (unfold wp.simps)?; (rule TrueI)?)
  fix n off topics e1 e2
  assume n: "n = big_Uint64 (evStack e ! 0)"
    and e1: "useGas (wrap64 (375 + k * 375 + wrap64 (n * 8)))
      (e\<lparr>evStack := drop (2 + k) (evStack e)\<rparr>) = Ok e1"
    and e2: "expandMemory off n e1 = Ok e2"
  let ?e = "e\<lparr>evStack := drop (2 + k) (evStack e)\<rparr>"
  have ok: "gas_ok ?e" using e by simp
  from useGas_gas_ok [OF ok e1] have ok1: "gas_ok e1" .
  have "n \<le> max_alloc" using expandMemory_spends(2) [OF ok1 e2] by (simp add: n)
  then have "n * 8 \<le> 2 ^ 51" by (simp add: max_alloc_def)
  then have "wrap64 (n * 8) = n * 8" and le: "375 + k * 375 + n * 8 < 2 ^ 63"
    using k by (auto intro: wrap64_id)
  then have c: "wrap64 (375 + k * 375 + wrap64 (n * 8)) = 375 + k * 375 + n * 8"
    by (simp add: wrap64_id)
  have "spends (375 + k * 375 + n * 8) ?e e1"
    using useGas_spends [OF ok _ e1] le by (simp add: c small_def)
  from spends_trans [OF this expandMemory_spends(1) [OF ok1 e2]] show "spends 3 e e2"
    by (auto intro: spends_less)
qed

lemmas paid = paid_binop paid_triop paid_unop paid_push_op paid_copies paid_mcopy paid_sha3
  paid_words paid_plain

lemma op_table_paid:
  assumes "(op, h) \<in> set (op_table keccak I)" and "gas_ok e"
  shows "paid e (h e s) \<or> h = opEXP"
  using assms(1) unfolding op_table_def list.set
  by (elim insertE emptyE; simp add: binop_defs push_op_defs opADDMOD_def opMULMOD_def opISZERO_def
      opNOT_def paid paid_log assms(2))

end
