(* ===== verification/EVM_Types.thy ===== *)
theory EVM_Types
  imports EVM_Gas
begin

text \<open>
  Type soundness. \<open>evm_host\<close> is what the interpreter needs of its state interface: balances and
  storage values that fit in a word, and operations that keep it so. On such a host every
  instruction keeps the stack a list of 256-bit words, so no \<open>FillBytes\<close> and no nil pointer can
  panic: an instruction without memory operands never does.
\<close>

definition cx_typed :: "EVMContext \<Rightarrow> bool" where
  "cx_typed cx \<longleftrightarrow> length (cxCaller cx) \<le> 32 \<and> length (cxAddress cx) \<le> 32
     \<and> (\<exists>v. cxValue cx = Some v \<and> in_word v) \<and> (\<exists>v. cxGasPrice cx = Some v \<and> in_word v)
     \<and> cxGasLimit cx < 2 ^ 64 \<and> length (cxData cx) < 2 ^ 64 \<and> cxBlockNum cx < 2 ^ 64
     \<and> cxTimestamp cx < 2 ^ 64 \<and> (\<forall>v. cxChainID cx = Some v \<longrightarrow> in_word v)
     \<and> (\<forall>b. cxCoinbase cx = Some b \<longrightarrow> length b \<le> 32) \<and> cxBlockGasLimit cx < 2 ^ 64
     \<and> (\<forall>v. cxBaseFee cx = Some v \<longrightarrow> in_word v)
     \<and> (\<forall>b. cxPrevRandao cx = Some b \<longrightarrow> length b \<le> 32)
     \<and> (\<forall>f n. cxGetBlockHash cx = Some f \<longrightarrow> length (f n) \<le> 32)"

definition typed :: "EVMExecutor \<Rightarrow> bool" where
  "typed e \<longleftrightarrow> list_all in_word (evStack e) \<and> cx_typed (evCtx e) \<and> length (evMemory e) \<le> max_alloc
     \<and> length (evReturndata e) < 2 ^ 64 \<and> length (evCode e) < 2 ^ 64 \<and> evPc e \<le> length (evCode e)
     \<and> evGasUsed e < 2 ^ 64"

definition touches_memory :: "nat \<Rightarrow> bool" where
  "touches_memory op \<longleftrightarrow> op \<in> {0x20, 0x37, 0x39, 0x3C, 0x3E, 0x51, 0x52, 0x53, 0x5E, 0xA0, 0xA1,
     0xA2, 0xA3, 0xA4, 0xF0, 0xF1, 0xF2, 0xF3, 0xF4, 0xF5, 0xFA, 0xFD}"

locale evm_host =
  fixes I :: "'s EVMState" and W :: "'s \<Rightarrow> bool"
  assumes balance_word: "W s \<Longrightarrow> \<exists>v. esGetBalance I s a = Some v \<and> in_word v"
    and code_length: "W s \<Longrightarrow> length (esGetCode I s a) < 2 ^ 64"
    and storage_word: "W s \<Longrightarrow> length (esGetStorage I s a k) \<le> 32"
    and set_storage: "W s \<Longrightarrow> (\<And>b. v = Some b \<Longrightarrow> length b \<le> 32) \<Longrightarrow> \<exists>s'. esSetStorage I s a k v = Done s' \<and> W s'"
    and transfer: "W s \<Longrightarrow> in_word x \<Longrightarrow> \<exists>s'. esTransfer I s a b x = Done s' \<and> W s'"
    and create_account: "W s \<Longrightarrow> \<exists>s'. esCreateAccount I s a = Done s' \<and> W s'"
    and add_log: "W s \<Longrightarrow> W (esAddLog I s a ts d)"
    and snapshot: "W s \<Longrightarrow> W (snd (esSnapshot I s))"
    and revert: "W s \<Longrightarrow> \<exists>s'. esRevertToSnapshot I s i = Done s' \<and> W s'"

subsection \<open>Words\<close>

lemma in_word_nat_less [simp]: "n < 2 ^ 64 \<Longrightarrow> in_word (int n)"
proof -
  assume "n < 2 ^ 64"
  then have "int n < 2 ^ 64" by (metis of_nat_less_iff of_nat_numeral of_nat_power)
  also have "(2 :: int) ^ 64 \<le> 2 ^ 256" by (rule power_increasing) simp_all
  finally show ?thesis by (simp only: in_word_def of_nat_0_le_iff simp_thms)
qed

lemma in_word_0 [simp]: "in_word 0" and in_word_1 [simp]: "in_word 1"
  by (simp_all add: in_word_def)

lemma in_word_flag [simp]: "in_word (of_flag p)"
  by (simp add: of_flag_def)

lemma big_Mod_in_word:
  assumes "in_word c"
  shows "in_word (if c = 0 then 0 else big_Mod x c)"
proof (cases "c = 0")
  case False
  with assms have "0 \<le> x mod c" "x mod c < c" by (simp_all add: in_word_def)
  with False assms show ?thesis by (simp add: big_Mod_def in_word_def)
qed simp

lemma not_in_word:
  assumes "in_word a"
  shows "in_word (a XOR (2 ^ 256 - 1))"
proof -
  from assms obtain w :: w256 where w: "a = uint w" by (rule in_word_obtain)
  have "(2 :: int) ^ 256 - 1 = uint (- 1 :: w256)"
    by (simp add: unsigned_minus_1_eq_mask mask_eq_exp_minus_1)
  then show ?thesis by (simp only: w uint_xor [symmetric] in_word_uint)
qed

lemma FillBytes32_typed [simp]: "in_word x \<Longrightarrow> FillBytes32 x \<noteq> Panics"
  by (simp add: FillBytes32_word)

lemma fill_all_typed: "list_all in_word xs \<Longrightarrow> fill_all xs \<noteq> Panics"
proof (induction xs)
  case (Cons x xs)
  then obtain bs where "fill_all xs = Done bs" by (cases "fill_all xs") auto
  with Cons show ?case by (simp add: FillBytes32_word)
qed simp

lemma typed_upd [simp]: "typed e \<Longrightarrow> list_all in_word st \<Longrightarrow> typed (e\<lparr>evStack := st\<rparr>)"
  by (simp add: typed_def)

lemma typed_pc: "typed e \<Longrightarrow> p \<le> length (evCode e) \<Longrightarrow> typed (e\<lparr>evPc := p\<rparr>)"
  by (simp add: typed_def)

lemma typed_memory:
  "typed e \<Longrightarrow> length m = length (evMemory e) \<Longrightarrow> typed (e\<lparr>evMemory := m\<rparr>)"
  by (simp add: typed_def)

lemma typed_useGas: "useGas c e = Ok e' \<Longrightarrow> typed e \<Longrightarrow> typed e'"
  by (auto simp: useGas_Ok typed_def)

lemma typed_expand: "expandMemory off n e = Ok e' \<Longrightarrow> typed e \<Longrightarrow> typed e'"
proof -
  assume e': "expandMemory off n e = Ok e'" and e: "typed e"
  obtain g m where u: "e' = e\<lparr>evGasUsed := g, evMemory := evMemory e @ m\<rparr>"
    and "n = 0 \<longrightarrow> m = [] \<and> g = evGasUsed e" "n \<noteq> 0 \<longrightarrow> g \<le> cxGasLimit (evCtx e)"
    and mem: "length (evMemory e) \<le> max_alloc \<longrightarrow> length (evMemory e') \<le> max_alloc"
    using expandMemory_Ok [OF e'] by metis
  then have "g < 2 ^ 64" using e by (cases "n = 0") (auto simp: typed_def cx_typed_def)
  with u mem e show "typed e'" by (simp add: typed_def)
qed

lemma useGas_Err_less: "useGas c e = Err er g \<Longrightarrow> g < 2 ^ 64"
  by (drule useGas_Err) simp

lemma expandMemory_Err: "expandMemory off n e = Err er g \<Longrightarrow> g = evGasUsed e \<or> (\<exists>c. useGas c e = Err er g)"
  unfolding expandMemory_def Let_def by (auto split: if_splits res.splits)

lemma expandMemory_Err_less: "expandMemory off n e = Err er g \<Longrightarrow> typed e \<Longrightarrow> g < 2 ^ 64"
  using expandMemory_Err useGas_Err_less unfolding typed_def by metis

lemma getMemory_le: "getMemory off n e = Done d \<Longrightarrow> length d \<le> n"
  unfolding getMemory_def Let_def by (auto split: if_splits)

lemma typed_gas: "typed e \<Longrightarrow> evGasUsed e < 2 ^ 64"
  by (simp add: typed_def)

lemma typed_stack: "typed e \<Longrightarrow> list_all in_word (evStack e)"
  by (simp add: typed_def)

lemma pop2_underflow: "\<nexists>b a r. evStack e = b # a # r
    \<Longrightarrow> pop2 e s k = Halt [] (evGasUsed e) (Some StackUnderflow) s"
  by (auto simp: pop2_def split: list.split)

lemma word_op_underflow:
  assumes "word_op op = Some f" "\<nexists>b a r. evStack e = b # a # r"
  shows "simple_op keccak I op e s = Halt [] (evGasUsed e) (Some StackUnderflow) s"
  using word_op_cases [OF assms(1)]
  by (elim insertE emptyE; simp only: simple_ops binop_defs binop_def opEXP_def pop2_underflow [OF assms(2)])

lemma typed_values:
  assumes "typed e"
  shows "in_word (SetBytes (cxAddress (evCtx e)))" "in_word (SetBytes (cxCaller (evCtx e)))"
    "in_word (safeSetBig (cxGasPrice (evCtx e)))" "in_word (safeSetBig (cxValue (evCtx e)))"
    "in_word (int (length (cxData (evCtx e))))" "in_word (int (length (evCode e)))"
    "in_word (int (length (evReturndata e)))" "in_word (int (evPc e - 1))"
    "in_word (int (evPc e - Suc 0))"
    "in_word (int (length (evMemory e)))" "in_word (int (usub a b))"
    "in_word (case cxCoinbase (evCtx e) of None \<Rightarrow> 0 | Some b \<Rightarrow> SetBytes b)"
    "in_word (int (cxTimestamp (evCtx e)))" "in_word (int (cxBlockNum (evCtx e)))"
    "in_word (case cxPrevRandao (evCtx e) of None \<Rightarrow> 0 | Some b \<Rightarrow> SetBytes b)"
    "in_word (int (cxBlockGasLimit (evCtx e)))"
    "in_word (case cxChainID (evCtx e) of Some v \<Rightarrow> v | None \<Rightarrow> 0)"
    "in_word (case cxBaseFee (evCtx e) of Some v \<Rightarrow> v | None \<Rightarrow> 0)"
proof -
  have u: "in_word (int (usub a b))" by (simp only: usub_def in_word_nat_less wrap64_less)
  have m: "n \<le> max_alloc \<Longrightarrow> in_word (int n)" for n
    by (rule in_word_nat_less) (simp add: max_alloc_def)
  have p: "in_word (int (evPc e - 1))"
  proof (rule in_word_nat_less)
    have "evPc e \<le> length (evCode e)" "length (evCode e) < 2 ^ 64" using assms by (simp_all add: typed_def)
    then show "evPc e - 1 < 2 ^ 64" by linarith
  qed
  then show "in_word (int (evPc e - Suc 0))" by simp
  show "in_word (SetBytes (cxAddress (evCtx e)))" "in_word (SetBytes (cxCaller (evCtx e)))"
    "in_word (safeSetBig (cxGasPrice (evCtx e)))" "in_word (safeSetBig (cxValue (evCtx e)))"
    "in_word (int (length (cxData (evCtx e))))" "in_word (int (length (evCode e)))"
    "in_word (int (length (evReturndata e)))" "in_word (int (evPc e - 1))"
    "in_word (int (length (evMemory e)))" "in_word (int (usub a b))"
    "in_word (case cxCoinbase (evCtx e) of None \<Rightarrow> 0 | Some b \<Rightarrow> SetBytes b)"
    "in_word (int (cxTimestamp (evCtx e)))" "in_word (int (cxBlockNum (evCtx e)))"
    "in_word (case cxPrevRandao (evCtx e) of None \<Rightarrow> 0 | Some b \<Rightarrow> SetBytes b)"
    "in_word (int (cxBlockGasLimit (evCtx e)))"
    "in_word (case cxChainID (evCtx e) of Some v \<Rightarrow> v | None \<Rightarrow> 0)"
    "in_word (case cxBaseFee (evCtx e) of Some v \<Rightarrow> v | None \<Rightarrow> 0)"
    using assms u m p
    by (auto simp: typed_def cx_typed_def safeSetBig_def in_word_nat_less intro: SetBytes_in_word
        split: option.splits)
qed

definition result_ok :: "bytes \<Rightarrow> nat \<Rightarrow> bool" where
  "result_ok ret g \<longleftrightarrow> length ret \<le> max_alloc \<and> g < 2 ^ 64"

lemma result_ok_gas: "typed e \<Longrightarrow> length ret \<le> max_alloc \<Longrightarrow> result_ok ret (evGasUsed e)"
  by (simp add: result_ok_def typed_def)

lemma result_ok_Nil [simp]: "typed e \<Longrightarrow> result_ok [] (evGasUsed e)"
  by (simp add: result_ok_gas)

lemma result_ok_Err: "useGas c e = Err er g \<Longrightarrow> result_ok [] g"
  using useGas_Err_less by (simp add: result_ok_def)

lemma result_ok_Err_memory: "expandMemory off n e = Err er g \<Longrightarrow> typed e \<Longrightarrow> result_ok [] g"
  using expandMemory_Err_less by (simp add: result_ok_def)

context evm_host
begin

text \<open>What a typed instruction leads to; \<open>F\<close> allows a panic.\<close>

abbreviation "sound F \<equiv> wp (\<lambda>e' s'. typed e' \<and> W s') (\<lambda>ret g er s'. W s' \<and> result_ok ret g) F"

lemma sound_fail: "typed e \<Longrightarrow> W s \<Longrightarrow> sound F (Halt [] (evGasUsed e) er s)"
  by simp

lemma sound_useGas:
  assumes "typed e" "W s" "\<And>e'. useGas c e = Ok e' \<Longrightarrow> typed e' \<Longrightarrow> sound F (k e')"
  shows "sound F (bind_res (useGas c e) s k)"
  using assms typed_useGas [of c e] result_ok_Err [of c e] by auto

lemma sound_expand:
  assumes "typed e" "W s" "F" "\<And>e'. expandMemory off n e = Ok e' \<Longrightarrow> typed e' \<Longrightarrow> sound F (k e')"
  shows "sound F (bind_res (expandMemory off n e) s k)"
  using assms typed_expand [of off n e] result_ok_Err_memory [of off n e] by auto

lemma sound_pop1:
  assumes "typed e" "W s"
    "\<And>a r. evStack e = a # r \<Longrightarrow> in_word a \<Longrightarrow> list_all in_word r \<Longrightarrow> sound F (k a r)"
  shows "sound F (pop1 e s k)"
  using assms typed_stack [of e] by auto

lemma sound_pop2:
  assumes "typed e" "W s"
    "\<And>b a r. evStack e = b # a # r \<Longrightarrow> in_word b \<Longrightarrow> in_word a \<Longrightarrow> list_all in_word r \<Longrightarrow> sound F (k b a r)"
  shows "sound F (pop2 e s k)"
  using assms typed_stack [of e] by auto

lemma sound_pop3:
  assumes "typed e" "W s"
    "\<And>c b a r. evStack e = c # b # a # r \<Longrightarrow> in_word c \<Longrightarrow> in_word b \<Longrightarrow> in_word a \<Longrightarrow> list_all in_word r
      \<Longrightarrow> sound F (k c b a r)"
  shows "sound F (pop3 e s k)"
  using assms typed_stack [of e] by auto

lemma sound_pop4:
  assumes "typed e" "W s"
    "\<And>d c b a r. evStack e = d # c # b # a # r \<Longrightarrow> in_word d \<Longrightarrow> in_word c \<Longrightarrow> in_word b \<Longrightarrow> in_word a
      \<Longrightarrow> list_all in_word r \<Longrightarrow> sound F (k d c b a r)"
  shows "sound F (pop4 e s k)"
  using assms typed_stack [of e] by auto

lemma sound_Next:
  "typed e \<Longrightarrow> W s \<Longrightarrow> list_all in_word st \<Longrightarrow> sound F (Next (e\<lparr>evStack := st\<rparr>) s)"
  by (simp add: typed_def)

lemma sound_Next_memory:
  "typed e \<Longrightarrow> W s \<Longrightarrow> list_all in_word st \<Longrightarrow> length m = length (evMemory e)
    \<Longrightarrow> sound F (Next (e\<lparr>evStack := st, evMemory := m\<rparr>) s)"
  by (simp add: typed_def)

lemmas sound_rules = sound_pop1 sound_pop2 sound_pop3 sound_pop4 sound_useGas sound_expand
  wp_if wp_let sound_fail sound_Next sound_Next_memory

lemma sound_words:
  assumes "word_op op = Some f" "typed e" "W s"
  shows "sound F (simple_op keccak I op e s)"
proof (cases "\<exists>b a r. evStack e = b # a # r")
  case True
  then obtain b a r where st: "evStack e = b # a # r" by blast
  then have "in_word b" "in_word a" "list_all in_word r" using assms(2) by (simp_all add: typed_def)
  then obtain b' a' :: w256 where "b = uint b'" "a = uint a'" by (metis in_word_obtain)
  with st have "evStack e = uint b' # uint a' # r" by simp
  note eq = evm_words_uint [OF assms(1) this]
  show ?thesis unfolding eq using \<open>list_all in_word r\<close> assms(2,3) by (intro sound_rules) simp_all
next
  case False
  then have "simple_op keccak I op e s = Halt [] (evGasUsed e) (Some StackUnderflow) s"
    by (rule word_op_underflow [OF assms(1)])
  then show ?thesis using assms(2,3) by (simp only:) (rule sound_fail)
qed

lemma sound_triop:
  "typed e \<Longrightarrow> W s \<Longrightarrow> (\<And>c b a. in_word c \<Longrightarrow> in_word (f c b a)) \<Longrightarrow> sound F (triop n f e s)"
  unfolding triop_def by (intro sound_rules; simp)

lemma sound_unop: "typed e \<Longrightarrow> W s \<Longrightarrow> (\<And>a. in_word a \<Longrightarrow> in_word (f a)) \<Longrightarrow> sound F (unop n f e s)"
  unfolding unop_def by (intro sound_rules; simp)

lemma sound_push_op:
  "typed e \<Longrightarrow> W s \<Longrightarrow> (\<And>e. typed e \<Longrightarrow> in_word (f e)) \<Longrightarrow> sound F (push_op n f e s)"
  unfolding push_op_def by (intro sound_rules) (simp_all add: typed_stack)

text \<open>The instructions, group by group.\<close>

lemma sound_pushes:
  assumes "typed e" "W s"
  shows "sound F (opADDRESS e s)" "sound F (opORIGIN e s)" "sound F (opCALLER e s)"
    "sound F (opGASPRICE e s)" "sound F (opCALLVALUE e s)" "sound F (opCALLDATASIZE e s)"
    "sound F (opCODESIZE e s)" "sound F (opRETURNDATASIZE e s)" "sound F (opPC e s)"
    "sound F (opMSIZE e s)" "sound F (opGAS e s)" "sound F (opCOINBASE e s)"
    "sound F (opTIMESTAMP e s)" "sound F (opNUMBER e s)" "sound F (opPREVRANDAO e s)"
    "sound F (opGASLIMIT e s)" "sound F (opCHAINID e s)" "sound F (opSELFBALANCE I e s)"
    "sound F (opBASEFEE e s)" "sound F (opPUSH0 e s)"
proof -
  have bal: "in_word (safeSetBig (esGetBalance I s a))" for a
    using balance_word [OF assms(2), of a] by (auto simp: safeSetBig_def)
  show "sound F (opADDRESS e s)" "sound F (opORIGIN e s)" "sound F (opCALLER e s)"
    "sound F (opGASPRICE e s)" "sound F (opCALLVALUE e s)" "sound F (opCALLDATASIZE e s)"
    "sound F (opCODESIZE e s)" "sound F (opRETURNDATASIZE e s)" "sound F (opPC e s)"
    "sound F (opMSIZE e s)" "sound F (opGAS e s)" "sound F (opCOINBASE e s)"
    "sound F (opTIMESTAMP e s)" "sound F (opNUMBER e s)" "sound F (opPREVRANDAO e s)"
    "sound F (opGASLIMIT e s)" "sound F (opCHAINID e s)" "sound F (opSELFBALANCE I e s)"
    "sound F (opBASEFEE e s)" "sound F (opPUSH0 e s)"
    unfolding push_op_defs
    by (rule sound_push_op [OF assms]; simp add: typed_values bal)+
qed

lemma sound_simple:
  assumes "typed e" "W s"
  shows "sound F (opADDMOD e s)" "sound F (opMULMOD e s)" "sound F (opISZERO e s)"
    "sound F (opNOT e s)" "sound F (opSTOP e s)" "sound F (opPOP e s)" "sound F (opJUMPDEST e s)"
    "sound F (opCALLDATALOAD e s)" "sound F (opBLOCKHASH e s)" "sound F (opEXTCODESIZE I e s)"
proof -
  show "sound F (opADDMOD e s)" "sound F (opMULMOD e s)"
    unfolding opADDMOD_def opMULMOD_def by (rule sound_triop [OF assms]; erule big_Mod_in_word)+
  show "sound F (opISZERO e s)" unfolding opISZERO_def by (rule sound_unop [OF assms]) simp
  show "sound F (opNOT e s)"
    unfolding opNOT_def by (rule sound_unop [OF assms]) (erule not_in_word)
  show "sound F (opSTOP e s)" unfolding opSTOP_def by (rule sound_fail [OF assms])
  show "sound F (opPOP e s)" unfolding opPOP_def by (intro sound_rules; simp add: assms)
  show "sound F (opJUMPDEST e s)"
    unfolding opJUMPDEST_def by (intro sound_rules) (simp_all add: assms)
  show "sound F (opCALLDATALOAD e s)"
    unfolding opCALLDATALOAD_def by (intro sound_rules; simp add: assms SetBytes_in_word)
  have hash: "in_word (case cxGetBlockHash (evCtx e') of
         Some f \<Rightarrow> (let hash = f n in if length hash = 0 then 0 else SetBytes hash) | None \<Rightarrow> 0)"
    if "typed e'" for e' n
    using that by (auto simp: typed_def cx_typed_def Let_def intro: SetBytes_in_word split: option.split)
  show "sound F (opBLOCKHASH e s)"
    unfolding opBLOCKHASH_def using hash by (intro sound_rules; simp add: assms)
  show "sound F (opEXTCODESIZE I e s)"
    unfolding opEXTCODESIZE_def using code_length [OF assms(2)]
    by (intro sound_rules; simp add: assms in_word_nat_less)
qed

lemma sound_exthash:
  assumes "typed e" "W s" "\<And>x. length (keccak x) \<le> 32"
  shows "sound F (opEXTCODEHASH keccak I e s)"
  unfolding opEXTCODEHASH_def
  by (intro sound_rules; simp add: assms SetBytes_in_word)

lemma sound_invalid: "typed e \<Longrightarrow> W s \<Longrightarrow> sound F (opINVALID e s)"
  by (auto simp: opINVALID_def typed_def cx_typed_def result_ok_def)

lemma sound_case_balance:
  assumes "W s" "\<And>v. in_word v \<Longrightarrow> sound F (k v)"
  shows "sound F (case esGetBalance I s a of None \<Rightarrow> Fault | Some v \<Rightarrow> k v)"
proof -
  obtain v where "esGetBalance I s a = Some v" "in_word v" using balance_word [OF assms(1)] by blast
  with assms(2) show ?thesis by simp
qed

lemma sound_balance: "typed e \<Longrightarrow> W s \<Longrightarrow> sound F (opBALANCE I e s)"
  unfolding opBALANCE_def by (intro sound_rules sound_case_balance; simp)

lemma sound_out:
  assumes "in_word x" "\<And>b. length b = 32 \<Longrightarrow> sound F (k b)"
  shows "sound F (bind_out (FillBytes32 x) k)"
  using assms FillBytes32_typed [of x] FillBytes32_length [of x] by (cases "FillBytes32 x") auto

lemma sound_set:
  assumes "W s" "\<And>b. v = Some b \<Longrightarrow> length b \<le> 32" "\<And>s'. W s' \<Longrightarrow> sound F (k s')"
  shows "sound F (bind_out (esSetStorage I s a key v) k)"
proof -
  obtain s' where "esSetStorage I s a key v = Done s'" "W s'" using set_storage [OF assms(1,2)] by blast
  with assms(3) show ?thesis by simp
qed

lemma sound_revert:
  assumes "W s" "\<And>s'. W s' \<Longrightarrow> sound F (k s')"
  shows "sound F (bind_out (esRevertToSnapshot I s i) k)"
proof -
  obtain s' where "esRevertToSnapshot I s i = Done s'" "W s'" using revert [OF assms(1)] by blast
  with assms(2) show ?thesis by simp
qed

lemma sound_storage:
  assumes "typed e" "W s"
  shows "sound F (opSLOAD I e s)" "sound F (opTLOAD I e s)" "sound F (opSSTORE I e s)"
    "sound F (opTSTORE I e s)"
proof -
  have word: "in_word (SetBytes (esGetStorage I s a k))" for a k
    using storage_word [OF assms(2)] by (rule SetBytes_in_word)
  show "sound F (opSLOAD I e s)" "sound F (opTLOAD I e s)"
    unfolding opSLOAD_def opTLOAD_def by (intro sound_rules sound_out; simp add: assms word)+
  show "sound F (opSSTORE I e s)" "sound F (opTSTORE I e s)"
    unfolding opSSTORE_def opTSTORE_def by (intro sound_rules sound_out sound_set; simp add: assms)+
qed

lemma sound_jumps:
  assumes "typed e" "W s" "set (evJumpDests e) \<subseteq> {..length (evCode e)}"
  shows "sound F (opJUMP e s)" "sound F (opJUMPI e s)"
proof -
  have jump: "typed (e'\<lparr>evStack := r, evPc := d\<rparr>)"
    if "useGas c e = Ok e'" "typed e'" "list_all in_word r" "d \<in> set (evJumpDests e')" for e' r d c
    using that assms(3) by (auto simp: useGas_Ok typed_def)
  show "sound F (opJUMP e s)" "sound F (opJUMPI e s)"
    unfolding opJUMP_def opJUMPI_def
    by (intro sound_rules; simp add: assms jump)+
qed

text \<open>Instructions on memory, which may panic: \<open>F\<close> is true.\<close>

lemma sound_getMemory:
  assumes "\<And>d. length d \<le> max_alloc \<Longrightarrow> sound True (k d)"
  shows "sound True (bind_out (getMemory off n e) k)"
  using assms getMemory_length [of off n e] by (cases "getMemory off n e") auto

lemma sound_memory:
  assumes e: "typed e" and s: "W s" and keccak: "\<And>x. length (keccak x) \<le> 32"
  shows "sound True (opSHA3 keccak e s)" "sound True (opCALLDATACOPY e s)"
    "sound True (opCODECOPY e s)" "sound True (opRETURNDATACOPY e s)"
    "sound True (opEXTCODECOPY I e s)" "sound True (opMLOAD e s)" "sound True (opMSTORE8 e s)"
proof -
  note rules = sound_pop1 sound_pop2 sound_pop3 sound_pop4 sound_useGas sound_expand wp_if wp_let
    sound_getMemory sound_fail sound_Next sound_Next_memory
  show "sound True (opSHA3 keccak e s)" unfolding opSHA3_def
    by (intro rules; simp add: e s keccak SetBytes_in_word)
  show "sound True (opCALLDATACOPY e s)" "sound True (opCODECOPY e s)"
    "sound True (opRETURNDATACOPY e s)" "sound True (opEXTCODECOPY I e s)"
    unfolding opCALLDATACOPY_def opCODECOPY_def opRETURNDATACOPY_def opEXTCODECOPY_def
    by (intro rules; simp add: e s)+
  have word: "getMemory off 32 e' = Done d \<Longrightarrow> in_word (SetBytes d)" for off e' d
    by (rule SetBytes_in_word) (rule getMemory_le)
  have mload: "sound True (bind_out (getMemory off 32 e')
      (\<lambda>d. Next (e'\<lparr>evStack := SetBytes d # r\<rparr>) s))"
    if "typed e'" "list_all in_word r" for off e' r
    using word [of off e'] that s by (cases "getMemory off 32 e'") auto
  show "sound True (opMLOAD e s)" unfolding opMLOAD_def
    by (intro sound_pop1 wp_let sound_expand sound_useGas mload; simp add: e s)
  show "sound True (opMSTORE8 e s)" unfolding opMSTORE8_def
    by (intro rules; simp add: e s)
qed

lemma sound_mstore:
  assumes e: "typed e" and s: "W s"
  shows "sound True (opMSTORE e s)"
proof -
  have copy: "length (copy_at off v (evMemory e')) = length (evMemory e')"
    if "expandMemory off 32 e = Ok e1" "useGas 3 e1 = Ok e'" "length v = 32" "off = big_Uint64 y"
    for e' e1 off v y
  proof -
    have "off + 32 \<le> length (evMemory e1)" using that(1,4) by (intro expandMemory_room [of off 32 e]) simp_all
    moreover have "evMemory e' = evMemory e1" using useGas_frame [OF that(2)] by simp
    ultimately show ?thesis using that(3) by (simp add: length_copy_at)
  qed
  show ?thesis unfolding opMSTORE_def
    by (intro sound_pop2 wp_let sound_expand sound_useGas sound_out sound_Next_memory; simp add: e s copy)
qed

lemma sound_mcopy:
  assumes e: "typed e" and s: "W s"
  shows "sound True (opMCOPY e s)"
proof -
  have copy: "length (copy_at dst (take n (drop src m)) m) = length m"
    if "\<not> (length m < wrap64 (src + n) \<or> length m < wrap64 (dst + n))"
      "\<not> (wrap64 (dst + n) < dst \<or> wrap64 (src + n) < src)" "dst < 2 ^ 64" "n < 2 ^ 64"
    for dst src n and m
  proof -
    have "wrap64 (dst + n) = dst + n" using that by (intro no_wrap) simp_all
    moreover have "length (take n (drop src m)) \<le> n" by simp
    ultimately have "dst + length (take n (drop src m)) \<le> length m" using that(1) by linarith
    then show ?thesis by (rule length_copy_at)
  qed
  show ?thesis unfolding opMCOPY_def
    by (intro sound_pop3 wp_if wp_let sound_fail sound_expand sound_useGas sound_Next sound_Next_memory;
        auto simp: e s copy split: if_splits)
qed

lemma sound_returns:
  assumes "typed e" "W s"
  shows "sound True (opRETURN e s)" "sound True (opREVERT e s)"
proof -
  have ret: "sound True (bind_out (getMemory off n e') (\<lambda>d. Halt d (evGasUsed e') er s))"
    if "typed e'" for off n e' er
    using that assms(2) result_ok_gas [OF that] by (intro sound_getMemory) simp
  show "sound True (opRETURN e s)" "sound True (opREVERT e s)"
    unfolding opRETURN_def opREVERT_def by (intro sound_pop2 sound_useGas ret; simp add: assms)+
qed

lemma sound_fill_all:
  assumes "list_all in_word xs" "\<And>bs. sound F (k bs)"
  shows "sound F (bind_out (fill_all xs) k)"
  using assms fill_all_typed [of xs] by (cases "fill_all xs") auto

lemma sound_log:
  assumes e: "typed e" and s: "W s"
  shows "sound True (opLOG I n e s)"
proof -
  have words: "list_all in_word (take n (drop 2 (evStack e)))"
    "list_all in_word (drop (2 + n) (evStack e))"
    using typed_stack [OF e] by (auto simp: list_all_iff dest: in_set_takeD in_set_dropD)
  then have e': "typed (e\<lparr>evStack := drop (2 + n) (evStack e)\<rparr>)" using e by simp
  show ?thesis unfolding opLOG_def
    by (intro wp_if wp_let sound_fail sound_fill_all sound_useGas sound_expand sound_getMemory e';
        simp add: e s words add_log list_all_rev)
qed

lemma sound_selfdestruct:
  assumes e: "typed e" and s: "W s"
  shows "sound F (opSELFDESTRUCT I e s)"
proof -
  have die: "sound F (bind_out (esSetStorage I s' a k None) (\<lambda>s. Halt [] (evGasUsed e') None s))"
    if "typed e'" "W s'" for e' s' a k
    by (rule sound_set) (use that in simp_all)
  have move: "sound F (bind_out (if p then esTransfer I s a b v else Done s)
      (\<lambda>s. bind_out (esSetStorage I s a k None) (\<lambda>s. Halt [] (evGasUsed e') None s)))" if te: "typed e'" and v: "in_word v" for e' a b v p k
  proof -
    obtain s' where "esTransfer I s a b v = Done s'" "W s'" using transfer [OF s v] by blast
    with die [OF te] s show ?thesis by simp
  qed
  show ?thesis unfolding opSELFDESTRUCT_def
    by (intro wp_if wp_let sound_fail sound_pop1 sound_useGas sound_case_balance move; simp add: e s)
qed

lemma sound_stack:
  assumes e: "typed e" and s: "W s"
  shows "sound F (opPUSH n e s) \<or> 32 < n" "0 < n \<Longrightarrow> sound F (opDUP n e s)" "sound F (opSWAP n e s)"
proof -
  have push: "typed (if evPc e' + n \<le> length (evCode e')
       then e'\<lparr>evStack := SetBytes (take n (drop (evPc e') (evCode e'))) # evStack e', evPc := evPc e' + n\<rparr>
       else e'\<lparr>evStack := SetBytes (drop (evPc e') (evCode e')) # evStack e', evPc := length (evCode e')\<rparr>)"
    if "typed e'" "n \<le> 32" for e'
    using that by (auto simp: typed_def intro!: SetBytes_in_word)
  have "sound F (opPUSH n e s)" if "n \<le> 32"
    unfolding opPUSH_def using push [OF _ that] by (intro sound_useGas) (simp_all add: e s)
  then show "sound F (opPUSH n e s) \<or> 32 < n" by linarith
  have nth: "in_word (evStack e' ! i)" if "typed e'" "i < length (evStack e')" for e' i
    using that typed_stack [of e'] by (auto simp: list_all_iff)
  show "sound F (opDUP n e s)" if "0 < n"
    unfolding opDUP_def using that
    by (intro sound_useGas wp_if sound_fail sound_Next) (simp_all add: e s nth typed_stack)
  have swap: "list_all in_word ((evStack e')[0 := evStack e' ! n, n := evStack e' ! 0])"
    if "typed e'" "n < length (evStack e')" for e'
    using that nth [OF that(1) that(2)] nth [OF that(1) order.strict_trans1 [OF le0 that(2)]] typed_stack [OF that(1)]
    by (auto simp: list_all_iff dest!: set_update_subset_insert [THEN subsetD])
  show "sound F (opSWAP n e s)"
    unfolding opSWAP_def by (intro sound_useGas wp_if sound_fail sound_Next; simp add: e s swap)
qed

lemma sound_table:
  assumes "(op, h) \<in> set (op_table keccak I)" and e: "typed e" and s: "W s"
    and keccak: "\<And>x. length (keccak x) = 32" and dests: "set (evJumpDests e) \<subseteq> {..length (evCode e)}"
  shows "sound (touches_memory op) (h e s) \<or> (\<exists>f. word_op op = Some f)"
proof -
  have k: "length (keccak x) \<le> 32" for x by (simp add: keccak)
  note rules = sound_pushes [OF e s] sound_simple [OF e s] sound_exthash [OF e s k]
    sound_invalid [OF e s] sound_balance [OF e s] sound_storage [OF e s] sound_jumps [OF e s dests]
    sound_memory [OF e s k] sound_mstore [OF e s] sound_mcopy [OF e s] sound_returns [OF e s]
    sound_log [OF e s] sound_selfdestruct [OF e s]
  show ?thesis
    using assms(1) unfolding op_table_def list.set
    by (elim insertE emptyE; simp add: touches_memory_def rules del: One_nat_def;
        simp add: word_op_def)
qed

lemma sound_simple_op:
  assumes e: "typed e" and s: "W s"
    and keccak: "\<And>x. length (keccak x) = 32" and dests: "set (evJumpDests e) \<subseteq> {..length (evCode e)}"
  shows "sound (touches_memory op) (simple_op keccak I op e s)"
proof (cases rule: simple_op_cases [of op keccak I])
  case (table h)
  with sound_table [OF table(1) e s keccak dests] sound_words [OF _ e s] show ?thesis by auto
next
  case push
  then show ?thesis 
    using sound_stack(1) [OF e s, where F = "touches_memory op" and n = "op - 0x60 + 1"] by auto
next
  case dup
  then show ?thesis using sound_stack(2) [OF e s, of "op - 0x80 + 1"] by simp
next
  case swap
  then show ?thesis using sound_stack(3) [OF e s] by simp
next
  case invalid
  then show ?thesis using sound_invalid [OF e s] by simp
qed

subsection \<open>Calls and creations\<close>

fun sound_act :: "bool \<Rightarrow> 's action \<Rightarrow> bool" where
  "sound_act F (Plain a) = sound F a"
| "sound_act F (Enter sub code s k) = (typed (start sub code) \<and> W s
     \<and> (\<forall>ret g er s'. W s' \<longrightarrow> result_ok ret g \<longrightarrow> sound True (k ret g er s')))"

lemma sound_act_fail: "typed e \<Longrightarrow> W s \<Longrightarrow> sound_act F (fail er e s)"
  by (simp add: fail_def)

lemma sound_act_useGas:
  assumes "typed e" "W s" "\<And>e'. useGas c e = Ok e' \<Longrightarrow> typed e' \<Longrightarrow> sound_act F (k e')"
  shows "sound_act F (res_action (useGas c e) s k)"
  using assms typed_useGas [of c e] result_ok_Err [of c e] by (cases "useGas c e") (auto simp: useGas_def Let_def split: if_splits)

lemma sound_act_expand:
  assumes "typed e" "W s" "\<And>e'. expandMemory off n e = Ok e' \<Longrightarrow> typed e' \<Longrightarrow> sound_act True (k e')"
  shows "sound_act True (res_action (expandMemory off n e) s k)"
  using assms typed_expand [of off n e] result_ok_Err_memory [of off n e]
  by (cases "expandMemory off n e") auto

lemma sound_act_getMemory:
  assumes "\<And>d. length d \<le> max_alloc \<Longrightarrow> sound_act True (k d)"
  shows "sound_act True (out_action (getMemory off n e) k)"
  using assms getMemory_length [of off n e] by (cases "getMemory off n e") auto

lemma sound_act_fill:
  assumes "in_word x" "\<And>b. length b = 32 \<Longrightarrow> sound_act F (k b)"
  shows "sound_act F (out_action (FillBytes32 x) k)"
  using assms FillBytes32_typed [of x] FillBytes32_length [of x] by (cases "FillBytes32 x") auto

lemma sound_act_transfer:
  assumes "W s" "in_word v" "\<And>s'. W s' \<Longrightarrow> sound_act F (k s')"
  shows "sound_act F (out_action (esTransfer I s a b v) k)"
proof -
  obtain s' where "esTransfer I s a b v = Done s'" "W s'" using transfer [OF assms(1,2)] by blast
  with assms(3) show ?thesis by simp
qed

lemma sound_act_create:
  assumes "W s" "\<And>s'. W s' \<Longrightarrow> sound_act F (k s')"
  shows "sound_act F (out_action (esCreateAccount I s a) k)"
proof -
  obtain s' where "esCreateAccount I s a = Done s'" "W s'" using create_account [OF assms(1)] by blast
  with assms(2) show ?thesis by simp
qed

lemma sound_act_if: "(p \<Longrightarrow> sound_act F a) \<Longrightarrow> (\<not> p \<Longrightarrow> sound_act F b) \<Longrightarrow> sound_act F (if p then a else b)"
  by simp

lemma sound_act_balance:
  assumes "W s" "\<And>v. in_word v \<Longrightarrow> sound_act F (k v)"
  shows "sound_act F (case esGetBalance I s a of None \<Rightarrow> Plain Fault | Some v \<Rightarrow> k v)"
proof -
  obtain v where "esGetBalance I s a = Some v" "in_word v" using balance_word [OF assms(1)] by blast
  with assms(2) show ?thesis by simp
qed

lemma sub_context_typed:
  assumes "typed e" "length caller \<le> 32" "length addr \<le> 32" "in_word v" "limit < 2 ^ 64"
    "length data < 2 ^ 64"
  obtains cx where "sub_context e caller addr (Some v) limit data = Done cx" "cx_typed cx"
  using assms that by (auto simp: sub_context_def typed_def cx_typed_def)

lemma typed_start:
  assumes "cx_typed cx" "length code < 2 ^ 64"
  shows "typed (start ((NewEVMExecutor cx)\<lparr>evStaticCall := b\<rparr>) code)" "typed (start (NewEVMExecutor cx) code)"
  using assms by (simp_all add: typed_def start_def NewEVMExecutor_def)

lemma max_alloc_less: "n \<le> max_alloc \<Longrightarrow> n < 2 ^ 64"
  by (simp add: max_alloc_def)

lemma useGas_no_crash [simp]: "useGas c e \<noteq> Crash"
  by (simp add: useGas_def Let_def)

lemma sound_resume_create:
  assumes "typed e" "W s" "result_ok ret g" "length addr \<le> 32"
  shows "sound True (resume_create I e snap addr ret g er s)"
proof -
  have t: "typed (e\<lparr>evGasUsed := wrap64 (evGasUsed e + g)\<rparr>)" using assms(1) by (simp add: typed_def)
  have next_ok: "sound True (Next (e'\<lparr>evStack := x # evStack e'\<rparr>) s')" if "typed e'" "in_word x" "W s'" for e' x s'
    using that typed_stack [OF that(1)] by simp
  show ?thesis unfolding resume_create_def Let_def
    by (intro wp_if wp_res sound_revert next_ok)
      (auto simp: t assms(2,4) SetBytes_in_word useGas_no_crash intro: typed_useGas result_ok_Err)
qed

lemma sound_resume_call:
  assumes "typed e" "W s" "result_ok ret g"
  shows "sound True (resume_call I kind e snap rOff rSz ret g er s)"
proof -
  have "length ret < 2 ^ 64" using assms(3) by (intro max_alloc_less) (simp add: result_ok_def)
  with assms(1) have ok: "typed e \<and> length ret < 2 ^ 64" by simp
  have last: "sound True (bind_res (if p then expandMemory off n e1 else Ok e1) s
      (\<lambda>e. Next (e\<lparr>evMemory := copy_skip c 0 a 0 ret (evMemory e)\<rparr>) s))" if "typed e1" for p off n c a e1
  proof (cases p)
    case True
    have "sound True (bind_res (expandMemory off n e1) s
        (\<lambda>e. Next (e\<lparr>evMemory := copy_skip c 0 a 0 ret (evMemory e)\<rparr>) s))"
      by (rule sound_expand [OF that assms(2)]) (simp_all add: typed_memory assms(2))
    with True show ?thesis by simp
  qed (simp add: typed_memory that assms(2))
  have reverted: "sound True (bind_out (if p then esRevertToSnapshot I s i else Done s) k)"
    if "\<And>s'. W s' \<Longrightarrow> sound True (k s')" for p i k
    using that sound_revert [OF assms(2), of True k] assms(2) by simp
  show ?thesis unfolding resume_call_def
    using ok by (intro wp_let wp_if last reverted) (simp_all add: typed_def assms(2))
qed


lemma sound_act_let: "(\<And>x. x = v \<Longrightarrow> sound_act F (k x)) \<Longrightarrow> sound_act F (let x = v in k x)"
  by (simp add: Let_def)

lemma sound_act_pair:
  assumes "W (snd p)" "\<And>i s'. W s' \<Longrightarrow> sound_act F (k i s')"
  shows "sound_act F (case p of (i, s') \<Rightarrow> k i s')"
  using assms by (cases p) simp

lemma sound_act_sub:
  assumes "typed e" "length caller \<le> 32" "length addr \<le> 32" "in_word v" "limit < 2 ^ 64"
    "length data < 2 ^ 64" "\<And>cx. cx_typed cx \<Longrightarrow> sound_act F (k cx)"
  shows "sound_act F (out_action (sub_context e caller addr (Some v) limit data) k)"
proof -
  from assms(1-6) obtain cx where "sub_context e caller addr (Some v) limit data = Done cx" "cx_typed cx"
    by (rule sub_context_typed)
  with assms(7) show ?thesis by simp
qed

lemma typed_addresses:
  assumes "typed e"
  shows "length (cxAddress (evCtx e)) \<le> 32" "length (cxCaller (evCtx e)) \<le> 32"
  using assms by (simp_all add: typed_def cx_typed_def)

lemma created_address:
  assumes "\<And>x. length (keccak x) = 32"
  shows "length (createAddress keccak a n) \<le> 32" "length (createAddress2 keccak a salt c) \<le> 32"
  by (simp_all add: createAddress_def createAddress2_def assms)

lemma toAddress_length [simp]: "length (toAddress v) = 20"
  by (simp add: toAddress_def Let_def)

lemma usub_less [simp]: "usub a b < 2 ^ 64"
  unfolding usub_def by (rule wrap64_less)

lemmas usub_bound [simp] = usub_less [simplified]

lemmas act_rules = sound_act_let sound_act_if sound_act_balance sound_act_useGas sound_act_expand
  sound_act_getMemory sound_act_pair sound_act_transfer sound_act_create sound_act_sub

lemma sound_create:
  assumes e: "typed e" and s: "W s" and keccak: "\<And>x. length (keccak x) = 32"
  shows "sound_act True (opCREATE keccak I e s)" "sound_act True (opCREATE2 keccak I e s)"
proof -
  have enter: "sound_act True (Enter (NewEVMExecutor cx) c s' (resume_create I e' snap a))"
    if "cx_typed cx" "length c \<le> max_alloc" "W s'" "typed e'" "length a \<le> 32" for cx c s' e' snap a
    using that typed_start(2) [OF that(1) max_alloc_less [OF that(2)]] by (simp add: sound_resume_create)
  show "sound_act True (opCREATE keccak I e s)"
  proof (cases "\<exists>v offset sz r. evStack e = v # offset # sz # r")
    case True
    then obtain v offset sz r where st: "evStack e = v # offset # sz # r" by blast
    then have ws: "in_word v" "list_all in_word r" using e by (simp_all add: typed_def)
    show ?thesis unfolding opCREATE_def st list.case Let_def
      by (intro act_rules enter sound_act_fail)
        (simp_all add: e s ws created_address keccak snapshot typed_addresses [OF e])
  qed (auto simp: opCREATE_def sound_act_fail e s split: list.split)
  show "sound_act True (opCREATE2 keccak I e s)"
  proof (cases "\<exists>v offset sz salt r. evStack e = v # offset # sz # salt # r")
    case True
    then obtain v offset sz salt r where st: "evStack e = v # offset # sz # salt # r" by blast
    then have ws: "in_word v" "in_word salt" "list_all in_word r" using e by (simp_all add: typed_def)
    show ?thesis unfolding opCREATE2_def st list.case Let_def
      by (intro act_rules sound_act_fill enter sound_act_fail)
        (simp_all add: e s ws created_address keccak snapshot typed_addresses [OF e])
  qed (auto simp: opCREATE2_def sound_act_fail e s split: list.split)
qed

lemma sound_context:
  assumes "typed e" "length target \<le> 32" "in_word v" "gas < 2 ^ 64" "length data < 2 ^ 64"
    "\<And>cx. cx_typed cx \<Longrightarrow> sound_act F (k cx)"
  shows "sound_act F (out_action (callee_context kind e target v gas data) k)"
proof -
  obtain u where u: "cxValue (evCtx e) = Some u" "in_word u" using assms(1) by (auto simp: typed_def cx_typed_def)
  note sub = sound_act_sub [OF assms(1) _ _ _ assms(4,5,6)]
  show ?thesis
    using assms(2,3) u typed_addresses [OF assms(1)]
    by (cases kind) (simp_all add: callee_context_def Let_def sub)
qed

lemma sound_enter_call:
  assumes e: "typed e" and s: "W s" and v: "in_word v" "length target \<le> 32"
  shows "sound_act True (enter_call I kind e s gasLimit target v paying aOff aSz rOff rSz)"
proof -
  have enter: "sound_act True (if length c = 0
      then Plain (Next (e'\<lparr>evStack := 1 # evStack e', evReturndata := []\<rparr>) s')
      else Enter ((NewEVMExecutor cx)\<lparr>evStaticCall := b\<rparr>) c s' (resume_call I kind e' snap rOff rSz))"
    if "cx_typed cx" "length c < 2 ^ 64" "W s'" "typed e'" for cx c s' e' snap b
  proof -
    have "typed (e'\<lparr>evStack := 1 # evStack e', evReturndata := []\<rparr>)"
      using that(4) by (simp add: typed_def)
    then show ?thesis
      using that typed_start(1) [OF that(1,2)] by (simp add: sound_resume_call)
  qed
  have gas: "g < 2 ^ 64 \<Longrightarrow> g - g div 64 < 2 ^ 64" for g :: nat by simp
  have move: "sound_act True (out_action (if paying then esTransfer I s' a b v else Done s') k)"
    if "W s'" "\<And>s'. W s' \<Longrightarrow> sound_act True (k s')" for s' a b k
    using sound_act_transfer [OF that(1) v(1) that(2)] that by simp
  have pair: "W (snd (if p then esSnapshot I s else (0, s)))" for p using s by (simp add: snapshot)
  show ?thesis unfolding enter_call_def Let_def
    by (intro sound_act_useGas sound_act_expand sound_act_getMemory sound_act_pair move sound_context enter
        gas pair) (simp_all add: e s v max_alloc_less [simplified] code_length [simplified])
qed

lemma call_args_typed:
  assumes "typed e" "call_args kind e = Some (g, c, v, aOff, aSz, rOff, rSz, r)"
  shows "list_all in_word r" "\<exists>u. v = Some u \<and> in_word u"
proof -
  obtain w where w: "cxValue (evCtx e) = Some w" "in_word w" using assms(1) by (auto simp: typed_def cx_typed_def)
  note st = typed_stack [OF assms(1)]
  show "list_all in_word r" "\<exists>u. v = Some u \<and> in_word u"
    using assms(2) st w
    by (cases kind; simp add: call_args_def split: list.splits; fastforce)+
qed

lemma sound_calls:
  assumes e: "typed e" and s: "W s"
  shows "sound_act True (opCALLS I kind e s)"
proof (cases "call_args kind e")
  case None
  then show ?thesis using assms by (simp add: opCALLS_def sound_act_fail)
next
  case (Some a)
  then obtain g c v aOff aSz rOff rSz r
    where a: "call_args kind e = Some (g, c, v, aOff, aSz, rOff, rSz, r)" by (cases a) auto
  from call_args_typed [OF e a] obtain u where u: "v = Some u" "in_word u" and r: "list_all in_word r"
    by blast
  show ?thesis unfolding opCALLS_def a u option.case prod.case Let_def
    by (intro sound_act_if sound_act_fail sound_act_balance sound_enter_call) (simp_all add: e s u r)
qed

subsection \<open>The loop\<close>

lemma typed_next: "typed e \<Longrightarrow> evPc e < length (evCode e) \<Longrightarrow> typed (e\<lparr>evPc := evPc e + 1\<rparr>)"
  by (rule typed_pc) simp_all

lemma sound_weak: "sound_act False a \<Longrightarrow> sound_act F a"
proof (cases a)
  case (Plain b)
  then show "sound_act False a \<Longrightarrow> ?thesis" by (cases b) simp_all
qed simp

lemma sound_step:
  assumes "typed e" "W s" "\<And>x. length (keccak x) = 32" "frame_ok e" "evPc e < length (evCode e)"
  shows "sound_act (touches_memory (op_at e)) (step keccak I e s)"
proof -
  note e = typed_next [OF assms(1,5)]
  have dests: "set (evJumpDests (e\<lparr>evPc := evPc e + 1\<rparr>)) \<subseteq> {..length (evCode (e\<lparr>evPc := evPc e + 1\<rparr>))}"
  proof -
    have "evJumpDests e = computeJumpDests (evCode e)" using assms(4) by (simp add: frame_ok_def)
    moreover have "i \<le> length (evCode e)" if "i \<in> valid_dests (evCode e)" for i
      using that by (simp add: valid_dests_def)
    ultimately have "set (evJumpDests e) \<subseteq> {..length (evCode e)}" by (auto simp: jump_dests_exact)
    then show ?thesis by simp
  qed
  note simple = sound_simple_op [OF e assms(2,3) dests]
  show ?thesis
  proof (cases "op_at e \<in> {0xF0, 0xF5, 0xF1, 0xF2, 0xF4, 0xFA}")
    case True
    then have "touches_memory (op_at e)" by (auto simp: touches_memory_def)
    moreover have "sound_act True (step keccak I e s)"
      using True unfolding step_def Let_def op_at_def [symmetric]
      by (elim insertE emptyE)
        (simp_all add: sound_act_fail e assms(2) sound_create [OF e assms(2,3)] sound_calls [OF e assms(2)]
          split: if_split del: One_nat_def add_Suc_right)
    ultimately show ?thesis by simp
  next
    case False
    then show ?thesis
      unfolding step_def Let_def op_at_def [symmetric]
      using simple sound_act_fail [OF e assms(2)] by simp
  qed
qed

definition result_typed :: "'s evm_result \<Rightarrow> bool" where
  "result_typed r = (case r of Panics \<Rightarrow> True | Done (ret, g, er, s) \<Rightarrow> W s \<and> result_ok ret g)"

lemma frame_ok_step:
  assumes "frame_ok e" "evPc e < length (evCode e)"
  shows "wpa (\<lambda>e' s'. frame_ok e') (step keccak I e s)"
  using step_shape [OF assms(2)] by (rule wpa_mono) (auto intro: frame_ok_op [OF assms])

lemma run_sound:
  assumes "run n keccak I e s = Some r" "typed e" "W s" "\<And>x. length (keccak x) = 32" "frame_ok e"
  shows "result_typed r"
  using assms
proof (induction n arbitrary: e s r)
  case (Suc n)
  show ?case
  proof (cases "evPc e < length (evCode e)")
    case True
    note st = sound_step [where keccak = keccak, OF Suc.prems(2,3,4,5) True]
    note ok = frame_ok_step [OF Suc.prems(5) True, of keccak s]
    have go: "result_typed r"
      if "(case a of Next e s \<Rightarrow> run n keccak I e s | Halt ret g er s \<Rightarrow> Some (Done (ret, g, er, s))
           | Fault \<Rightarrow> Some Panics) = Some r" "sound True a"
        "wp (\<lambda>e' s'. frame_ok e') (\<lambda>_ _ _ _. True) True a" for a
      using that Suc.IH [OF _ _ _ Suc.prems(4)] by (cases a) (auto simp: result_typed_def)
    show ?thesis
    proof (cases "step keccak I e s")
      case (Plain a)
      moreover have "sound True a" using st Plain by (cases a) simp_all
      ultimately show ?thesis using Suc.prems(1) True ok by (intro go [of a]) (simp_all add: Let_def)
    next
      case (Enter sub c s1 k)
      note run = Suc.prems(1) [unfolded run.simps, simplified True if_True Let_def Enter action.case]
      from st Enter have sub: "typed (start sub c)" "W s1"
        and k: "\<And>ret g er s'. W s' \<Longrightarrow> result_ok ret g \<Longrightarrow> sound True (k ret g er s')" by simp_all
      show ?thesis
      proof (cases "run n keccak I (start sub c) s1")
        case None
        then show ?thesis using run by simp
      next
        case (Some q)
        from Suc.IH [OF Some sub Suc.prems(4) frame_ok_start] have q: "result_typed q" .
        show ?thesis
        proof (cases q)
          case (Done x)
          obtain ret g er s2 where x: "x = (ret, g, er, s2)" by (cases x)
          have "sound True (k ret g er s2)" using q by (intro k) (simp_all add: result_typed_def Done x)
          moreover have "wp (\<lambda>e' s'. frame_ok e') (\<lambda>_ _ _ _. True) True (k ret g er s2)"
            using ok Enter by simp
          ultimately show ?thesis using run by (intro go [of "k ret g er s2"]) (simp_all add: Some Done x)
        next
          case Panics
          then show ?thesis using run Some by (simp add: result_typed_def)
        qed
      qed
    qed
  next
    case False
    then show ?thesis using Suc.prems(1,2,3) by (auto simp: result_typed_def)
  qed
qed simp

end

end
