(* ===== verification/EVM_Ends.thy ===== *)
theory EVM_Ends
  imports EVM_Types Contract_Manager
begin

text \<open>
  Runs that end, and runs that cannot go wrong. Code without call instructions ends within a third
  of its gas limit, on every host that keeps the contract of \<open>evm_host\<close>; code that has no memory
  operands either returns its results without a panic. The state of the contract manager is such a
  host.
\<close>

definition is_call :: "nat \<Rightarrow> bool" where
  "is_call op \<longleftrightarrow> op \<in> {0xF0, 0xF1, 0xF2, 0xF4, 0xF5, 0xFA}"

text \<open>Every instruction of the code, immediate data excluded.\<close>

definition all_ops :: "(nat \<Rightarrow> bool) \<Rightarrow> bytes \<Rightarrow> bool" where
  "all_ops P code \<longleftrightarrow> (\<forall>i. instr_start code i \<longrightarrow> i < length code \<longrightarrow> P (unat (code ! i)))"

lemma all_opsI: "(\<And>b. b \<in> set code \<Longrightarrow> P (unat b)) \<Longrightarrow> all_ops P code"
  by (simp add: all_ops_def)

lemma all_ops_mono: "all_ops P code \<Longrightarrow> (\<And>op. P op \<Longrightarrow> Q op) \<Longrightarrow> all_ops Q code"
  by (auto simp: all_ops_def)

lemma op_at_ops:
  assumes "all_ops P (evCode e)" "frame_ok e" "evPc e < length (evCode e)"
  shows "P (op_at e)"
  using assms by (auto simp: all_ops_def frame_ok_def pc_ok_def op_at_def)

lemma is_call_touches: "\<not> touches_memory op \<Longrightarrow> \<not> is_call op"
  by (auto simp: touches_memory_def is_call_def)

lemma paid_halt: "paid e (Halt r g er s)"
  by simp

lemma paid_exp:
  assumes "typed e" "gas_ok e"
  shows "paid e (opEXP e s)"
proof (cases "\<exists>b a r. evStack e = b # a # r")
  case True
  then obtain b a r where st: "evStack e = b # a # r" by blast
  then have "in_word b" "in_word a" using assms(1) by (simp_all add: typed_def)
  then obtain b' a' :: w256 where "b = uint b'" "a = uint a'" by (metis in_word_obtain)
  with st have eq: "opEXP e s = bind_res (useGas (10 + 50 * length (big_bytes (unat b'))) e) s
    (\<lambda>e. Next (e\<lparr>evStack := uint (a' ^ unat b') # r\<rparr>) s)" by (intro exp_words) simp
  have "length (big_bytes (unat b')) \<le> 32" 
    using unsigned_less [of b', where 'a = nat] by (intro length_big_bytes_le) simp
  then have "small (10 + 50 * length (big_bytes (unat b')))" by (intro small_num) linarith
  then show ?thesis unfolding eq using assms(2) by (intro paid_useGas) simp_all
next
  case False
  then show ?thesis by (auto simp: opEXP_def pop2_def split: list.split)
qed

lemma simple_op_paid:
  assumes "typed e" "gas_ok e"
  shows "paid e (simple_op keccak I op e s)"
proof (cases rule: simple_op_cases [of op keccak I])
  case (table h)
  have "paid e (h e s)"
    using op_table_paid [OF table(1) assms(2), of s] paid_exp [OF assms, of s] by auto
  then show ?thesis by (simp only: table(2))
next
  case push
  then show ?thesis using paid assms(2) by simp
next
  case dup
  then show ?thesis using paid assms(2) by simp
next
  case swap
  then show ?thesis using paid assms(2) by simp
next
  case invalid
  then show ?thesis using paid assms(2) by simp
qed

lemma step_paid:
  assumes "typed e" "gas_ok e" "evPc e < length (evCode e)" "\<not> is_call (op_at e)"
  obtains a where "step keccak I e s = Plain a" "paid e a"
proof -
  let ?e = "e\<lparr>evPc := evPc e + 1\<rparr>"
  have "paid ?e (simple_op keccak I (op_at e) ?e s)"
    by (rule simple_op_paid) (use typed_pc [OF assms(1)] assms(2,3) in simp_all)
  then have simple: "paid e (simple_op keccak I (op_at e) ?e s)"
    by (rule wp_mono) simp_all
  show thesis
  proof (cases "1024 \<le> length (evStack e) \<and> pushes (op_at e)")
    case True
    then show ?thesis
      by (intro that [of "Halt [] (evGasUsed ?e) (Some (StackOverflow (length (evStack ?e)))) s"])
        (simp_all add: step_def Let_def op_at_def [symmetric] fail_def)
  next
    case False
    with assms(4) simple show ?thesis
      by (intro that [of "simple_op keccak I (op_at e) ?e s"])
        (auto simp: step_def Let_def op_at_def [symmetric] is_call_def)
  qed
qed

context evm_host
begin

lemma run_ends:
  assumes "typed e" "W s" "\<And>x. length (keccak x) = 32" "frame_ok e" "gas_ok e"
    "all_ops (\<lambda>op. \<not> is_call op) (evCode e)" "cxGasLimit (evCtx e) - evGasUsed e < 3 * n"
  shows "\<exists>r. run n keccak I e s = Some r
    \<and> (all_ops (\<lambda>op. \<not> touches_memory op) (evCode e) \<longrightarrow> r \<noteq> Panics)"
  using assms
proof (induction n arbitrary: e s)
  case (Suc n)
  show ?case
  proof (cases "evPc e < length (evCode e)")
    case pc: True
    obtain a where a: "step keccak I e s = Plain a" and paid: "paid e a"
      by (rule step_paid [OF Suc.prems(1,5) pc op_at_ops [OF Suc.prems(6,4) pc]])
    have st: "sound (touches_memory (op_at e)) a"
      using sound_step [where keccak = keccak, OF Suc.prems(1-4) pc] unfolding a sound_act.simps .
    have frame: "wp (\<lambda>e' s'. frame_ok e') (\<lambda>_ _ _ _. True) True a"
      using frame_ok_step [OF Suc.prems(4) pc, of keccak s] unfolding a wpa.simps .
    have same_fr: "wp (\<lambda>e' s'. same_frame e e') (\<lambda>_ _ _ _. True) True a"
      using step_shape [OF pc, of keccak I s] unfolding a wpa.simps
      by (rule wp_mono) (simp_all add: op_shape_def same_frame_def)
    show ?thesis
    proof (cases a)
      case (Next e' s')
      from frame same_fr Next have same: "evCode e' = evCode e" "evCtx e' = evCtx e" "frame_ok e'"
        by (simp_all add: same_frame_def)
      from paid Next have spent: "evGasUsed e + 3 \<le> evGasUsed e'" "gas_ok e'" by (simp_all add: spends_def)
      have "\<exists>r. run n keccak I e' s' = Some r
          \<and> (all_ops (\<lambda>op. \<not> touches_memory op) (evCode e') \<longrightarrow> r \<noteq> Panics)"
      proof (rule Suc.IH)
        show "typed e'" "W s'" using st Next by simp_all
        show "cxGasLimit (evCtx e') - evGasUsed e' < 3 * n"
          using Suc.prems(7) spent same(2) by (auto simp: gas_ok_def)
      qed (use Suc.prems(3,6) same spent in simp_all)
      then show ?thesis using pc a Next same(1) by (simp add: Let_def)
    next
      case (Halt ret g er s')
      then show ?thesis using pc a by (simp add: Let_def)
    next
      case Fault
      then show ?thesis
        using pc a st op_at_ops [of "\<lambda>op. \<not> touches_memory op" e] Suc.prems(4) by (auto simp: Let_def)
    qed
  qed simp
qed simp

lemma Execute_ends:
  assumes "cx_typed cx" "cxGasLimit cx < 2 ^ 63" "W s" "\<And>x. length (keccak x) = 32"
    "length code < 2 ^ 64" "all_ops (\<lambda>op. \<not> is_call op) code"
  obtains r where "Execute (cxGasLimit cx div 3 + 1) keccak I (NewEVMExecutor cx) code s = Some r"
    "result_typed r" "all_ops (\<lambda>op. \<not> touches_memory op) code \<Longrightarrow> r \<noteq> Panics"
proof -
  let ?e = "start (NewEVMExecutor cx) code"
  have t: "typed ?e" by (rule typed_start(2) [OF assms(1,5)])
  have g: "gas_ok ?e" "evCode ?e = code"
    using assms(2) by (simp_all add: gas_ok_def start_def NewEVMExecutor_def)
  have calls: "all_ops (\<lambda>op. \<not> is_call op) (evCode ?e)" using assms(6) by (simp only: g(2))
  have "cxGasLimit (evCtx ?e) - evGasUsed ?e < 3 * (cxGasLimit cx div 3 + 1)"
    by (simp add: start_def NewEVMExecutor_def)
  from run_ends [where keccak = keccak, OF t assms(3,4) frame_ok_start g(1) calls this]
  obtain r where r: "run (cxGasLimit cx div 3 + 1) keccak I ?e s = Some r"
    and p: "all_ops (\<lambda>op. \<not> touches_memory op) code \<longrightarrow> r \<noteq> Panics" unfolding g(2) by blast
  from run_sound [where keccak = keccak, OF r t assms(3,4) frame_ok_start] have "result_typed r" .
  with r p show thesis by (intro that) (simp_all only: Execute_def simp_thms)
qed

end

subsection \<open>The state of the contract manager\<close>

definition contract_typed :: "contract \<Rightarrow> bool" where
  "contract_typed c \<longleftrightarrow> length (ctCode c) < 2 ^ 64 \<and> (\<forall>(k, v) \<in> set (ctStorage c). length v \<le> 32)"

definition contracts_typed :: "(bytes, contract) gomap \<Rightarrow> bool" where
  "contracts_typed m \<longleftrightarrow> (\<forall>(a, c) \<in> set m. contract_typed c)"

lemma contracts_typed_get: "contracts_typed m \<Longrightarrow> goget m a = Some c \<Longrightarrow> contract_typed c"
  by (auto simp: contracts_typed_def dest: map_of_SomeD)

lemma set_goput: "set (goput k v m) \<subseteq> insert (k, v) (set m)"
  by (induction m) auto

lemma set_godel: "set (godel k m) \<subseteq> set m"
  by (auto simp: AList.delete_eq)

lemma contracts_typed_put [simp]: "contracts_typed m \<Longrightarrow> contract_typed c \<Longrightarrow> contracts_typed (goput a c m)"
  using set_goput [of a c m] by (auto simp: contracts_typed_def)

lemma contract_typed_new [simp]: "contract_typed (new_contract a)"
  by (simp add: contract_typed_def new_contract_def)

lemma contract_typed_upd [simp]:
  "contract_typed (c\<lparr>ctBalance := b\<rparr>) = contract_typed c"
  "contract_typed (c\<lparr>ctUpdatedAt := h\<rparr>) = contract_typed c"
  by (simp_all add: contract_typed_def)

lemma contract_typed_storage:
  "contract_typed c \<Longrightarrow> length v \<le> 32 \<Longrightarrow> contract_typed (c\<lparr>ctStorage := goput k v (ctStorage c)\<rparr>)"
  "contract_typed c \<Longrightarrow> contract_typed (c\<lparr>ctStorage := godel k (ctStorage c)\<rparr>)"
  using set_goput [of k v "ctStorage c"] set_godel [of k "ctStorage c"]
  by (auto simp: contract_typed_def)

lemma u64_in_word [simp]: "in_word (uint (w :: u64))"
proof -
  have "uint w < 2 ^ 64" using unsigned_less [of w, where 'a = int] by simp
  also have "(2 :: int) ^ 64 \<le> 2 ^ 256" by (rule power_increasing) simp_all
  finally show ?thesis by (simp only: in_word_def uint_ge_0 simp_thms)
qed

interpretation manager: evm_host managerState "\<lambda>s. contracts_typed (msContracts s)"
proof
  fix s :: manager_state and a b k v x i ts d
  assume s: "contracts_typed (msContracts s)"
  note typed_c = contracts_typed_get [OF s]
  show "\<exists>v. esGetBalance managerState s a = Some v \<and> in_word v"
    by (simp add: managerState_def ms_GetBalance_def split: option.split)
  show "length (esGetCode managerState s a) < 2 ^ 64"
    using typed_c [of a] by (auto simp: managerState_def ms_GetCode_def contract_typed_def split: option.split)
  show "length (esGetStorage managerState s a k) \<le> 32"
    using typed_c [of a]
    by (fastforce simp: managerState_def ms_GetStorage_def contract_typed_def split: option.split
        dest: map_of_SomeD [of "ctStorage c" for c])
  show "\<exists>s'. esSetStorage managerState s a k v = Done s' \<and> contracts_typed (msContracts s')"
    if "\<And>b. v = Some b \<Longrightarrow> length b \<le> 32"
    using s that typed_c [of a]
    by (auto simp: managerState_def ms_SetStorage_def contract_typed_storage split: option.split)
  show "\<exists>s'. esTransfer managerState s a b x = Done s' \<and> contracts_typed (msContracts s')"
    using s typed_c [of a] typed_c [of b]
    by (auto simp: managerState_def ms_Transfer_def Let_def split: option.split)
  show "\<exists>s'. esCreateAccount managerState s a = Done s' \<and> contracts_typed (msContracts s')"
    using s by (simp add: managerState_def ms_CreateAccount_def)
  show "contracts_typed (msContracts (esAddLog managerState s a ts d))"
    using s by (simp add: managerState_def ms_AddLog_def)
  show "contracts_typed (msContracts (snd (esSnapshot managerState s)))"
    using s by (simp add: managerState_def ms_Snapshot_def)
  show "\<exists>s'. esRevertToSnapshot managerState s i = Done s' \<and> contracts_typed (msContracts s')"
    using s by (simp add: managerState_def ms_RevertToSnapshot_def)
qed

text \<open>
  C11 (evm_terminates): with a gas limit below \<open>2^63\<close>, the run of a code without call and creation
  instructions ends: a third of the gas limit, and one more, are enough iterations of the loop,
  whatever jumps it takes.
\<close>

theorem evm_terminates:
  assumes "cx_typed cx" "cxGasLimit cx < 2 ^ 63" "contracts_typed (msContracts s)"
    and "\<And>x. length (keccak x) = 32" and "length code < 2 ^ 64" and "all_ops (\<lambda>op. \<not> is_call op) code"
  shows "Execute (cxGasLimit cx div 3 + 1) keccak managerState (NewEVMExecutor cx) code s \<noteq> None"
  by (rule manager.Execute_ends [where keccak = keccak, OF assms]) simp

lemma cx_typed_manager:
  "length address \<le> 32 \<Longrightarrow> length caller \<le> 32 \<Longrightarrow> length input < 2 ^ 64
    \<Longrightarrow> cx_typed (manager_context address caller input)"
  by (simp add: cx_typed_def manager_context_def)

text \<open>
  C10 (evm_type_sound): executing a deployed contract whose code has no memory operands and no calls
  never panics: it answers the returned bytes or an error of the interpreter, and the contracts of
  the manager remain well typed (storage values of at most 32 bytes).
\<close>

theorem evm_type_sound:
  assumes "contracts_typed (cmContracts cm)" "goget (cmContracts cm) address = Some c"
    and "all_ops (\<lambda>op. \<not> touches_memory op) (ctCode c)"
    and "length address = 20" "length caller = 20" "length input < 2 ^ 64"
    and "\<And>x. length (keccak x) = 32"
  shows "\<exists>r cm'. manager_Execute 333334 keccak address caller input height cm = Some (Done (r, cm'))
    \<and> r \<noteq> Inl ContractNotFound \<and> contracts_typed (cmContracts cm')"
proof -
  let ?cx = "manager_context address caller input" and ?s = "\<lparr>msContracts = cmContracts cm, msLogs = []\<rparr>"
  have cx: "cx_typed ?cx" using assms(4-6) by (intro cx_typed_manager) simp_all
  have lim: "cxGasLimit ?cx < 2 ^ 63" "cxGasLimit ?cx div 3 + 1 = 333334"
    by (simp_all add: manager_context_def)
  have code: "length (ctCode c) < 2 ^ 64"
    using contracts_typed_get [OF assms(1,2)] by (simp only: contract_typed_def)
  have calls: "all_ops (\<lambda>op. \<not> is_call op) (ctCode c)"
    using assms(3) by (rule all_ops_mono) (rule is_call_touches)
  have s: "contracts_typed (msContracts ?s)" using assms(1) by simp
  obtain r where run: "Execute 333334 keccak managerState (NewEVMExecutor ?cx) (ctCode c) ?s = Some r"
    and r: "manager.result_typed r" "r \<noteq> Panics"
    by (rule manager.Execute_ends [where keccak = keccak, OF cx lim(1) s assms(7) code calls, unfolded lim(2)])
      (use assms(3) in blast)
  then obtain ret g er s' where d: "r = Done (ret, g, er, s')" and s': "contracts_typed (msContracts s')"
    by (cases r) (auto simp: manager.result_typed_def)
  show ?thesis
    using run s' contracts_typed_get [OF s', of address]
    by (cases er) (auto simp: manager_Execute_def assms(2) d split: option.split)
qed

end
