(* ===== verification/EVM_State.thy ===== *)
theory EVM_State
  imports EVM_Ends
begin

text \<open>
  What a run does to the state behind the interpreter. Only a handful of instructions touch it, and
  none of them in a static frame but \<open>TSTORE\<close> and the calls. \<open>evm_keeps\<close> is a property of the
  state that every operation of the interface keeps; every run keeps it, nested runs included. The
  contract manager keeps the sum of its balances and the code of its contracts.
\<close>

subsection \<open>Instructions that only read the state\<close>

abbreviation "reads s \<equiv> wp (\<lambda>e' s'. s' = s) (\<lambda>_ _ _ s'. s' = s) True"

lemma reads_op:
  "reads s (binop c f e s)" "reads s (triop c g e s)" "reads s (unop c h e s)"
  "reads s (push_op c j e s)"
  unfolding binop_def triop_def unop_def push_op_def by auto

lemma reads_plain:
  "reads s (opSHA3 keccak e s)" "reads s (opCALLDATACOPY e s)" "reads s (opCODECOPY e s)"
  "reads s (opRETURNDATACOPY e s)" "reads s (opMLOAD e s)" "reads s (opMSTORE e s)"
  "reads s (opMSTORE8 e s)" "reads s (opMCOPY e s)" "reads s (opEXTCODECOPY I e s)"
  "reads s (opBALANCE I e s)" "reads s (opCALLDATALOAD e s)" "reads s (opPOP e s)"
  "reads s (opSLOAD I e s)" "reads s (opJUMP e s)" "reads s (opJUMPI e s)"
  "reads s (opJUMPDEST e s)" "reads s (opSTOP e s)" "reads s (opINVALID e s)"
  "reads s (opRETURN e s)" "reads s (opREVERT e s)" "reads s (opBLOCKHASH e s)"
  "reads s (opTLOAD I e s)" "reads s (opEXTCODESIZE I e s)" "reads s (opEXTCODEHASH keccak I e s)"
  "reads s (opEXP e s)" "reads s (opPUSH n e s)" "reads s (opDUP n e s)" "reads s (opSWAP n e s)"
  unfolding frame_defs opPUSH_def opDUP_def opSWAP_def by auto

lemma reads_static:
  assumes "evStaticCall e"
  shows "reads s (opSSTORE I e s)" "reads s (opLOG I n e s)" "reads s (opSELFDESTRUCT I e s)"
  using assms by (simp_all add: opSSTORE_def opLOG_def opSELFDESTRUCT_def)

lemmas reads = reads_op reads_plain

definition writes :: "nat \<Rightarrow> bool" where
  "writes op \<longleftrightarrow> op \<in> {0x55, 0x5D, 0xA0, 0xA1, 0xA2, 0xA3, 0xA4, 0xFF}"

lemma op_table_reads:
  assumes "(op, h) \<in> set (op_table keccak I)"
  shows "reads s (h e s) \<or> writes op"
  using assms unfolding op_table_def list.set
  by (elim insertE emptyE; simp add: binop_defs push_op_defs opADDMOD_def opMULMOD_def opISZERO_def
      opNOT_def reads writes_def)

lemma simple_op_reads: "writes op \<or> reads s (simple_op keccak I op e s)"
proof (cases rule: simple_op_cases [of op keccak I])
  case (table h)
  with op_table_reads [OF table(1), of s e] show ?thesis by auto
qed (simp_all add: reads)

lemma writing_ops:
  "simple_op keccak I 0x55 = opSSTORE I" "simple_op keccak I 0x5D = opTSTORE I"
  "simple_op keccak I 0xA0 = opLOG I 0" "simple_op keccak I 0xA1 = opLOG I 1"
  "simple_op keccak I 0xA2 = opLOG I 2" "simple_op keccak I 0xA3 = opLOG I 3"
  "simple_op keccak I 0xA4 = opLOG I 4" "simple_op keccak I 0xFF = opSELFDESTRUCT I"
  by (simp_all add: simple_op_def op_table_def)

lemma simple_op_static:
  assumes "evStaticCall e" "op \<noteq> 0x5D"
  shows "reads s (simple_op keccak I op e s)"
proof (cases "writes op")
  case True
  then show ?thesis using assms(2) reads_static [OF assms(1)] unfolding writes_def
    by (elim insertE emptyE) (simp_all add: writing_ops)
next
  case False
  then show ?thesis using simple_op_reads [of op s keccak I e] by (simp only: simp_thms)
qed

subsection \<open>Every state of an execution\<close>

text \<open>
  \<open>visits keccak I e0 s0 e s\<close>: in the course of the loop started with \<open>e0\<close> and \<open>s0\<close>, this executor or
  one it has called, directly or not, is at \<open>e\<close> with the state \<open>s\<close>. The execution need not end.
\<close>

inductive visits :: "(bytes \<Rightarrow> bytes) \<Rightarrow> 's EVMState \<Rightarrow> EVMExecutor \<Rightarrow> 's \<Rightarrow> EVMExecutor \<Rightarrow> 's \<Rightarrow> bool"
  for keccak I e0 s0 where
  visits_init: "visits keccak I e0 s0 e0 s0"
| visits_next: "visits keccak I e0 s0 e s \<Longrightarrow> evPc e < length (evCode e)
    \<Longrightarrow> step keccak I e s = Plain (Next e' s') \<Longrightarrow> visits keccak I e0 s0 e' s'"
| visits_enter: "visits keccak I e0 s0 e s \<Longrightarrow> evPc e < length (evCode e)
    \<Longrightarrow> step keccak I e s = Enter sub code s1 k \<Longrightarrow> visits keccak I e0 s0 (start sub code) s1"
| visits_resume: "visits keccak I e0 s0 e s \<Longrightarrow> evPc e < length (evCode e)
    \<Longrightarrow> step keccak I e s = Enter sub code s1 k \<Longrightarrow> run n keccak I (start sub code) s1 = Some (Done (ret, g, er, s2))
    \<Longrightarrow> k ret g er s2 = Next e' s' \<Longrightarrow> visits keccak I e0 s0 e' s'"

subsection \<open>Properties of the state that every operation keeps\<close>

locale evm_keeps =
  fixes I :: "'s EVMState" and P :: "'s \<Rightarrow> bool"
  assumes set_storage: "P s \<Longrightarrow> esSetStorage I s a k v = Done s' \<Longrightarrow> P s'"
    and transfer: "P s \<Longrightarrow> esTransfer I s a b x = Done s' \<Longrightarrow> P s'"
    and create_account: "P s \<Longrightarrow> esCreateAccount I s a = Done s' \<Longrightarrow> P s'"
    and add_log: "P s \<Longrightarrow> P (esAddLog I s a ts d)"
    and snapshot: "P s \<Longrightarrow> P (snd (esSnapshot I s))"
    and revert: "P s \<Longrightarrow> esRevertToSnapshot I s i = Done s' \<Longrightarrow> P s'"
begin

abbreviation "keeps \<equiv> wp (\<lambda>e' s'. P s') (\<lambda>_ _ _ s'. P s') True"

lemma reads_keeps: "reads s a \<Longrightarrow> P s \<Longrightarrow> keeps a"
  by (erule wp_mono) simp_all

lemma keeps_move:
  "P s \<Longrightarrow> (if p then esTransfer I s a b x else Done s) = Done s' \<Longrightarrow> P s'"
  by (cases p) (auto dest: transfer)

lemma simple_op_keeps:
  assumes "P s"
  shows "keeps (simple_op keccak I op e s)"
proof (cases "writes op")
  case True
  have "keeps (opSSTORE I e s)" "keeps (opTSTORE I e s)" "keeps (opLOG I n e s)"
    "keeps (opSELFDESTRUCT I e s)" for n
    unfolding opSSTORE_def opTSTORE_def opLOG_def opSELFDESTRUCT_def
    using assms by (auto intro: set_storage [OF keeps_move] set_storage add_log)
  with True show ?thesis unfolding writes_def
    by (elim insertE emptyE) (simp_all only: writing_ops)
next
  case False
  with simple_op_reads [of op s keccak I e] reads_keeps assms show ?thesis by blast
qed

fun keeps_act :: "'s action \<Rightarrow> bool" where
  "keeps_act (Plain a) = keeps a"
| "keeps_act (Enter sub code s k) = (P s \<and> (\<forall>ret g er s'. P s' \<longrightarrow> keeps (k ret g er s')))"

lemma keeps_act_res: "P s \<Longrightarrow> (\<And>x. r = Ok x \<Longrightarrow> keeps_act (k x)) \<Longrightarrow> keeps_act (res_action r s k)"
  by (cases r) simp_all

lemma keeps_act_out: "(\<And>x. out = Done x \<Longrightarrow> keeps_act (k x)) \<Longrightarrow> keeps_act (out_action out k)"
  by (cases out) simp_all

lemma keeps_act_if: "(p \<Longrightarrow> keeps_act a) \<Longrightarrow> (\<not> p \<Longrightarrow> keeps_act b) \<Longrightarrow> keeps_act (if p then a else b)"
  by simp

lemma keeps_act_option:
  "(x = None \<Longrightarrow> keeps_act a) \<Longrightarrow> (\<And>v. x = Some v \<Longrightarrow> keeps_act (k v))
    \<Longrightarrow> keeps_act (case x of None \<Rightarrow> a | Some v \<Rightarrow> k v)"
  by (cases x) simp_all

lemma keeps_act_fail: "P s \<Longrightarrow> keeps_act (fail er e s)"
  by (simp add: fail_def)

lemmas keeps_act_intros = keeps_act_res keeps_act_out keeps_act_if keeps_act_option keeps_act_fail

lemma keeps_act_pair: "(\<And>i s'. q = (i, s') \<Longrightarrow> keeps_act (k i s')) \<Longrightarrow> keeps_act (case q of (i, s') \<Rightarrow> k i s')"
  by (cases q) simp

lemma snapshot_pair: "esSnapshot I s = (i, s') \<Longrightarrow> P s \<Longrightarrow> P s'"
  using snapshot [of s] by simp

lemma resume_keeps:
  assumes "P s"
  shows "keeps (resume_create I e snap addr ret g er s)"
    "keeps (resume_call I kind e snap rOff rSz ret g er s)"
  unfolding resume_create_def resume_call_def using assms revert
  by (auto simp: Let_def split: if_splits)

lemma create_keeps:
  assumes "P s"
  shows "keeps_act (opCREATE keccak I e s)" "keeps_act (opCREATE2 keccak I e s)"
proof -
  have enter: "keeps_act (Enter sub c s' (resume_create I e' snap a))" if "P s'" for sub c s' e' snap a
    using that by (simp add: resume_keeps)
  show "keeps_act (opCREATE keccak I e s)" "keeps_act (opCREATE2 keccak I e s)"
    unfolding opCREATE_def opCREATE2_def Let_def
    by (auto split: list.split intro!: keeps_act_intros keeps_act_pair enter assms
        dest: snapshot_pair create_account transfer)
qed

lemma enter_call_keeps:
  assumes "P s"
  shows "keeps_act (enter_call I kind e s g target v p aOff aSz rOff rSz)"
proof -
  have enter: "keeps_act (if c then Plain (Next e' s') else Enter sub code s' (resume_call I kind e2 snap rOff rSz))"
    if "P s'" for c e' s' sub code e2 snap
    using that by (simp add: resume_keeps)
  have pair: "P s'" if "(if q then esSnapshot I s else (0, s)) = (i, s')" for q i s'
    using that assms snapshot_pair by (cases q) auto
  show ?thesis unfolding enter_call_def Let_def
    by (intro keeps_act_intros(1,2) keeps_act_pair enter assms) (auto dest: pair keeps_move)
qed

lemma step_keeps:
  assumes "P s"
  shows "keeps_act (step keccak I e s)"
proof -
  have calls: "keeps_act (opCALLS I kind e s)" for kind e
    unfolding opCALLS_def Let_def
    by (auto split: option.split intro!: keeps_act_intros enter_call_keeps assms)
  show ?thesis unfolding step_def Let_def
    by (intro keeps_act_intros(3,5) create_keeps calls assms) (simp add: simple_op_keeps assms)
qed

lemma run_keeps: "run n keccak I e s = Some (Done (ret, g, er, s')) \<Longrightarrow> P s \<Longrightarrow> P s'"
proof (induction n arbitrary: e s ret g er s')
  case (Suc n)
  show ?case
  proof (cases "evPc e < length (evCode e)")
    case True
    note st = step_keeps [OF Suc.prems(2), of keccak e]
    have go: "P s'"
      if "(case a of Next e s \<Rightarrow> run n keccak I e s | Halt ret g er s \<Rightarrow> Some (Done (ret, g, er, s))
           | Fault \<Rightarrow> Some Panics) = Some (Done (ret, g, er, s'))" "keeps a" for a
      using that Suc.IH by (cases a) auto
    show ?thesis
    proof (cases "step keccak I e s")
      case (Plain a)
      then show ?thesis using Suc.prems(1) True st by (intro go [of a]) (simp_all add: Let_def)
    next
      case (Enter sub c s1 k)
      then have s1: "P s1" and k: "\<And>ret g er s'. P s' \<Longrightarrow> keeps (k ret g er s')" using st by simp_all
      from Suc.prems(1) True Enter obtain ret2 g2 er2 s2
        where sub: "run n keccak I (start sub c) s1 = Some (Done (ret2, g2, er2, s2))"
        by (auto simp: Let_def split: option.splits outcome.splits)
      from Suc.IH [OF sub s1] k have "keeps (k ret2 g2 er2 s2)" by simp
      then show ?thesis using Suc.prems(1) True Enter sub
        by (intro go [of "k ret2 g2 er2 s2"]) (simp_all add: Let_def)
    qed
  next
    case False
    then show ?thesis using Suc.prems by simp
  qed
qed simp

lemma Execute_keeps: "Execute n keccak I e code s = Some (Done (ret, g, er, s')) \<Longrightarrow> P s \<Longrightarrow> P s'"
  unfolding Execute_def by (rule run_keeps)

lemma visits_keeps: "visits keccak I e0 s0 e s \<Longrightarrow> P s0 \<Longrightarrow> P s"
proof (induction rule: visits.induct)
  case (visits_next e s e' s')
  then show ?case using step_keeps [of s keccak e] by simp
next
  case (visits_enter e s sub code s1 k)
  then show ?case using step_keeps [of s keccak e] by simp
next
  case (visits_resume e s sub code s1 k n ret g er s2 e' s')
  then have "P s1" "\<And>ret g er s'. P s' \<Longrightarrow> keeps (k ret g er s')" using step_keeps [of s keccak e] by simp_all
  then have "keeps (k ret g er s2)" using run_keeps [OF visits_resume.hyps(4)] by blast
  then show ?case using visits_resume.hyps(5) by simp
qed

end


subsection \<open>Static frames\<close>

definition quiet :: "nat \<Rightarrow> bool" where
  "quiet op \<longleftrightarrow> \<not> is_call op \<and> op \<noteq> 0x5D"

lemma step_static:
  assumes "evStaticCall e" "quiet (op_at e)"
  obtains a where "step keccak I e s = Plain a" "reads s a"
proof (cases "1024 \<le> length (evStack e) \<and> pushes (op_at e)")
  case True
  then show ?thesis
    by (intro that [of "Halt [] (evGasUsed e) (Some (StackOverflow (length (evStack e)))) s"])
      (auto simp: step_def Let_def op_at_def [symmetric] fail_def)
next
  case False
  then show ?thesis using assms simple_op_static [of "e\<lparr>evPc := evPc e + 1\<rparr>" "op_at e" s keccak I]
    by (intro that [of "simple_op keccak I (op_at e) (e\<lparr>evPc := evPc e + 1\<rparr>) s"])
      (auto simp: step_def Let_def op_at_def [symmetric] quiet_def is_call_def)
qed

lemma run_static:
  assumes "run n keccak I e s = Some (Done (ret, g, er, s'))" "evStaticCall e" "frame_ok e"
    "all_ops quiet (evCode e)"
  shows "s' = s"
  using assms
proof (induction n arbitrary: e s)
  case (Suc n)
  show ?case
  proof (cases "evPc e < length (evCode e)")
    case pc: True
    obtain a where a: "step keccak I e s = Plain a" and reads: "reads s a"
      by (rule step_static [OF Suc.prems(2) op_at_ops [OF Suc.prems(4,3) pc]])
    show ?thesis
    proof (cases a)
      case (Next e2 s2)
      note st = a [unfolded Next]
      from wpa_Plain [OF step_shape [OF pc] st] frame_ok_op [OF Suc.prems(3) pc, of e2]
      have "same_frame e e2" "frame_ok e2" by (auto simp: op_shape_def same_frame_def)
      moreover have "run n keccak I e2 s2 = Some (Done (ret, g, er, s'))" "s2 = s"
        using Suc.prems(1) pc st reads Next by (simp_all add: Let_def)
      ultimately show ?thesis using Suc.IH [of e2 s2] Suc.prems(2,4) by (simp add: same_frame_def)
    next
      case Halt
      then show ?thesis using Suc.prems(1) pc a reads by (simp add: Let_def)
    next
      case Fault
      then show ?thesis using Suc.prems(1) pc a by (simp add: Let_def)
    qed
  next
    case False
    then show ?thesis using Suc.prems(1) by simp
  qed
qed simp

text \<open>
  C19 (evm_static): in a static executor, a run of a code without calls and without \<open>TSTORE\<close> leaves
  the state behind the interpreter as it was, however it ends.
\<close>

theorem evm_static:
  assumes "Execute n keccak I e code s = Some (Done (ret, g, er, s'))" and "evStaticCall e"
    and "all_ops quiet code"
  shows "s' = s"
  using assms frame_ok_start [of e code]
  by (intro run_static [of n keccak I "start e code" s ret g er s'])
    (simp_all add: Execute_def, simp_all add: start_def)

subsection \<open>The money of the contract manager\<close>

definition money :: "(bytes, contract) gomap \<Rightarrow> int" where
  "money m = (\<Sum>p\<leftarrow>m. uint (ctBalance (snd p)))"

text \<open>A contract with the same code and owner, wherever its balance and storage have gone.\<close>

definition same_contract :: "contract \<Rightarrow> contract \<Rightarrow> bool" where
  "same_contract c c' \<longleftrightarrow> ctAddress c' = ctAddress c \<and> ctCode c' = ctCode c
     \<and> ctCodeHash c' = ctCodeHash c \<and> ctABI c' = ctABI c \<and> ctOwner c' = ctOwner c
     \<and> ctCreatedAt c' = ctCreatedAt c"

lemma same_contract_refl [simp]: "same_contract c c"
  by (simp add: same_contract_def)

lemma same_contract_trans: "same_contract a b \<Longrightarrow> same_contract b c \<Longrightarrow> same_contract a c"
  by (simp add: same_contract_def)

lemma same_contract_upd [simp]:
  "same_contract c (c'\<lparr>ctBalance := b\<rparr>) = same_contract c c'"
  "same_contract c (c'\<lparr>ctUpdatedAt := h\<rparr>) = same_contract c c'"
  "same_contract c (c'\<lparr>ctStorage := st\<rparr>) = same_contract c c'"
  by (simp_all add: same_contract_def)

definition conserved :: "(bytes, contract) gomap \<Rightarrow> (bytes, contract) gomap \<Rightarrow> bool" where
  "conserved m m' \<longleftrightarrow> gomap_wf m' \<and> money m' = money m
     \<and> (\<forall>a c. goget m a = Some c \<longrightarrow> (\<exists>c'. goget m' a = Some c' \<and> same_contract c c'))"

lemma money_put:
  "gomap_wf m \<Longrightarrow> money (goput a c m) = money m + uint (ctBalance c)
     - (case goget m a of None \<Rightarrow> 0 | Some c' \<Rightarrow> uint (ctBalance c'))"
  by (simp add: money_def sum_list_map_goput split: option.split)

lemma balance_le_money: "goget m a = Some c \<Longrightarrow> uint (ctBalance c) \<le> money m"
proof -
  assume "goget m a = Some c"
  then have "uint (ctBalance c) \<in> set (map (\<lambda>p. uint (ctBalance (snd p))) m)"
    by (force dest: map_of_SomeD)
  then show ?thesis unfolding money_def by (rule member_le_sum_list) auto
qed

lemma conserved_put:
  assumes "conserved m m'" "goget m' a = Some c" "same_contract c c'" "ctBalance c' = ctBalance c"
  shows "conserved m (goput a c' m')"
proof -
  have "\<exists>c2. goget (goput a c' m') x = Some c2 \<and> same_contract c1 c2" if x: "goget m x = Some c1" for x c1
  proof -
    obtain c2 where "goget m' x = Some c2" "same_contract c1 c2" using assms(1) x by (auto simp: conserved_def)
    then show ?thesis using assms(2,3) same_contract_trans [of c1 c c'] by auto
  qed
  moreover have "money (goput a c' m') = money m"
    using assms by (simp add: conserved_def money_put)
  ultimately show ?thesis using assms(1) by (simp add: conserved_def)
qed

lemma conserved_refl: "gomap_wf m \<Longrightarrow> conserved m m"
  by (simp add: conserved_def)

text \<open>A transfer: the debit first, then the credit of what is now at the destination.\<close>

lemma conserved_transfer:
  assumes m: "conserved m0 m" and max: "money m0 < 2 ^ 64"
    and f: "goget m src = Some f" and amt: "uint a \<le> uint (ctBalance f)"
    and t: "t = (case goget (goput src (f\<lparr>ctBalance := ctBalance f - a\<rparr>) m) dest of
      None \<Rightarrow> new_contract dest | Some t \<Rightarrow> t)"
  shows "conserved m0 (goput dest (t\<lparr>ctBalance := ctBalance t + a\<rparr>)
    (goput src (f\<lparr>ctBalance := ctBalance f - a\<rparr>) m))"
proof -
  let ?m = "goput src (f\<lparr>ctBalance := ctBalance f - a\<rparr>) m"
  have wf: "gomap_wf m" "gomap_wf ?m" using m by (simp_all add: conserved_def)
  have debit: "uint (ctBalance f - a) = uint (ctBalance f) - uint a"
    using amt by (simp only: uint_minus_simple_alt [symmetric] word_le_def)
  have total: "money ?m = money m0 - uint a"
    using m f debit by (simp add: money_put wf conserved_def)
  have le: "uint (ctBalance t) \<le> money ?m"
  proof (cases "goget ?m dest")
    case None
    have "0 \<le> money ?m" unfolding money_def by (intro sum_list_nonneg) auto
    then show ?thesis using None by (simp add: t new_contract_def del: goget_put)
  next
    case (Some t')
    then show ?thesis using balance_le_money [OF Some] by (simp add: t del: goget_put)
  qed
  have "uint (ctBalance t) + uint a < 2 ^ 64" using le total max by simp
  then have credit: "uint (ctBalance t + a) = uint (ctBalance t) + uint a"
    using uint_add_lem [of "ctBalance t" a] by simp
  have old: "(case goget ?m dest of None \<Rightarrow> 0 | Some c' \<Rightarrow> uint (ctBalance c')) = uint (ctBalance t)"
    by (simp only: t) (simp add: new_contract_def split: option.split)
  have "money (goput dest (t\<lparr>ctBalance := ctBalance t + a\<rparr>) ?m) = money m0"
    by (simp add: money_put [OF wf(2)] old credit total del: goget_put)
  moreover have "\<exists>c'. goget (goput dest (t\<lparr>ctBalance := ctBalance t + a\<rparr>) ?m) x = Some c' \<and> same_contract c c'"
    if x0: "goget m0 x = Some c" for x c
  proof -
    obtain c1 where c1: "goget m x = Some c1" "same_contract c c1"
      using m x0 unfolding conserved_def by blast
    then show ?thesis using f by (auto simp: t)
  qed
  ultimately show ?thesis using wf by (simp add: conserved_def)
qed

lemma money_new: "goget m a = None \<Longrightarrow> conserved m0 m \<Longrightarrow> conserved m0 (goput a (new_contract a) m)"
proof -
  assume none: "goget m a = None" and m: "conserved m0 m"
  have "\<exists>c2. goget (goput a (new_contract a) m) x = Some c2 \<and> same_contract c1 c2"
    if "goget m0 x = Some c1" for x c1
    using m that none by (cases "x = a") (fastforce simp: conserved_def)+
  moreover have "money (goput a (new_contract a) m) = money m0"
    using m none by (simp add: conserved_def money_put new_contract_def)
  ultimately show ?thesis using m by (simp add: conserved_def)
qed

interpretation money: evm_keeps managerState
  "\<lambda>s. conserved m0 (msContracts s) \<and> money m0 < 2 ^ 64" for m0
proof
  fix s s' :: manager_state and a b k v x i ts d
  assume s: "conserved m0 (msContracts s) \<and> money m0 < 2 ^ 64"
  show "conserved m0 (msContracts s') \<and> money m0 < 2 ^ 64" if "esSetStorage managerState s a k v = Done s'"
    using s that by (auto simp: managerState_def ms_SetStorage_def intro!: conserved_put split: option.splits)
  show "conserved m0 (msContracts s') \<and> money m0 < 2 ^ 64" if "esCreateAccount managerState s a = Done s'"
    using s that by (auto simp: managerState_def ms_CreateAccount_def money_new)
  show "conserved m0 (msContracts (esAddLog managerState s a ts d)) \<and> money m0 < 2 ^ 64"
    using s by (simp add: managerState_def ms_AddLog_def)
  show "conserved m0 (msContracts (snd (esSnapshot managerState s))) \<and> money m0 < 2 ^ 64"
    using s by (simp add: managerState_def ms_Snapshot_def)
  show "conserved m0 (msContracts s') \<and> money m0 < 2 ^ 64" if "esRevertToSnapshot managerState s i = Done s'"
    using s that by (auto simp: managerState_def ms_RevertToSnapshot_def)
  assume "esTransfer managerState s a b x = Done s'"
  then have s': "s' = (if x \<le> 0 \<or> 2 ^ 64 \<le> x then s
      else let w = (word_of_int x :: u64)
        in case goget (msContracts s) a of None \<Rightarrow> s
         | Some f \<Rightarrow> if ctBalance f < w then s
             else let m = goput a (f\<lparr>ctBalance := ctBalance f - w\<rparr>) (msContracts s);
                      t = (case goget m b of None \<Rightarrow> new_contract b | Some t \<Rightarrow> t)
               in s\<lparr>msContracts := goput b (t\<lparr>ctBalance := ctBalance t + w\<rparr>) m\<rparr>)"
    by (simp only: managerState_def EVMState.simps ms_Transfer_def outcome.inject)
  show "conserved m0 (msContracts s') \<and> money m0 < 2 ^ 64"
  proof (cases "x \<le> 0 \<or> 2 ^ 64 \<le> x \<or> goget (msContracts s) a = None
      \<or> ctBalance (the (goget (msContracts s) a)) < word_of_int x")
    case True
    then have "s' = s" by (cases "goget (msContracts s) a") (auto simp: s' Let_def)
    then show ?thesis using s by simp
  next
    case False
    then obtain f where f: "goget (msContracts s) a = Some f" by auto
    then show ?thesis
      using s False conserved_transfer [OF conjunct1 [OF s] conjunct2 [OF s] f, of "word_of_int x"]
      by (auto simp: s' Let_def word_less_def linorder_not_less)
  qed
qed

lemma manager_conserves:
  assumes "gomap_wf (cmContracts cm)" and "money (cmContracts cm) < 2 ^ 64"
    and "manager_Execute fuel keccak address caller input height cm = Some (Done (r, cm'))"
  shows "conserved (cmContracts cm) (cmContracts cm')"
proof -
  show ?thesis
  proof (cases "goget (cmContracts cm) address")
    case None
    then show ?thesis using assms by (auto simp: manager_Execute_def intro: conserved_refl)
  next
    case (Some c)
    let ?s = "\<lparr>msContracts = cmContracts cm, msLogs = []\<rparr>"
    obtain ret g er s' where run: "Execute fuel keccak managerState
          (NewEVMExecutor (manager_context address caller input)) (ctCode c) ?s = Some (Done (ret, g, er, s'))"
      and cm': "cmContracts cm' = (if er = None then case goget (msContracts s') address of
          None \<Rightarrow> msContracts s' | Some c \<Rightarrow> goput address (c\<lparr>ctUpdatedAt := height\<rparr>) (msContracts s')
        else msContracts s')"
      using assms(3) Some by (auto simp: manager_Execute_def split: option.splits outcome.splits)
    from money.Execute_keeps [OF run] have "conserved (cmContracts cm) (msContracts s')"
      using assms(1,2) conserved_refl by simp
    then show ?thesis by (auto simp: cm' intro: conserved_put split: option.split)
  qed
qed


lemma manager_ends:
  assumes "goget (cmContracts cm) address = Some c" and "contracts_typed (cmContracts cm)"
    and "length address = 20" "length caller = 20" "length input < 2 ^ 64" and "\<And>x. length (keccak x) = 32"
    and "all_ops (\<lambda>op. \<not> is_call op) (ctCode c)"
  shows "manager_Execute 333334 keccak address caller input height cm \<noteq> None"
proof -
  let ?cx = "manager_context address caller input" and ?s = "\<lparr>msContracts = cmContracts cm, msLogs = []\<rparr>"
  have cx: "cx_typed ?cx" using assms(3-5) by (intro cx_typed_manager) simp_all
  have lim: "cxGasLimit ?cx < 2 ^ 63" "cxGasLimit ?cx div 3 + 1 = 333334" by (simp_all add: manager_context_def)
  have code: "length (ctCode c) < 2 ^ 64"
    using contracts_typed_get [OF assms(2,1)] by (simp only: contract_typed_def)
  have s: "contracts_typed (msContracts ?s)" using assms(2) by simp
  obtain r where "Execute 333334 keccak managerState (NewEVMExecutor ?cx) (ctCode c) ?s = Some r"
    by (rule manager.Execute_ends [where keccak = keccak, OF cx lim(1) s assms(6) code assms(7), unfolded lim(2)])
  then show ?thesis by (auto simp: manager_Execute_def assms(1) split: outcome.splits option.splits)
qed

text \<open>
  C18 (manager_money): executing a contract neither creates nor destroys money in the manager, and every
  contract that was deployed is still there with its code, hash, owner and height of creation
  (\<open>conserved\<close>). This holds at every state of the execution, in the frames of the contracts it calls or
  creates too, whether or not the execution ends, and for the manager that \<open>Execute\<close> leaves behind,
  whether it succeeds or fails. A code without calls and creations does end, within 333334
  iterations of its loop. The balances must sum to less than \<open>2^64\<close>.
\<close>

theorem manager_money:
  assumes "gomap_wf (cmContracts cm)" and "money (cmContracts cm) < 2 ^ 64"
    and "goget (cmContracts cm) address = Some c"
  shows "(visits keccak managerState (start (NewEVMExecutor (manager_context address caller input)) (ctCode c))
        \<lparr>msContracts = cmContracts cm, msLogs = []\<rparr> e s
      \<longrightarrow> conserved (cmContracts cm) (msContracts s))
    \<and> (manager_Execute fuel keccak address caller input height cm = Some (Done (r, cm'))
      \<longrightarrow> conserved (cmContracts cm) (cmContracts cm'))
    \<and> (contracts_typed (cmContracts cm) \<and> length address = 20 \<and> length caller = 20 \<and> length input < 2 ^ 64
        \<and> (\<forall>x. length (keccak x) = 32) \<and> all_ops (\<lambda>op. \<not> is_call op) (ctCode c)
      \<longrightarrow> manager_Execute 333334 keccak address caller input height cm \<noteq> None)"
proof (intro conjI impI)
  have "conserved (cmContracts cm) (msContracts \<lparr>msContracts = cmContracts cm, msLogs = []\<rparr>)
      \<and> money (cmContracts cm) < 2 ^ 64"
    using assms(1,2) conserved_refl by simp
  then show "conserved (cmContracts cm) (msContracts s)"
    if "visits keccak managerState (start (NewEVMExecutor (manager_context address caller input)) (ctCode c))
        \<lparr>msContracts = cmContracts cm, msLogs = []\<rparr> e s"
    using money.visits_keeps [OF that] by blast
qed (use manager_conserves [OF assms(1,2)] manager_ends [OF assms(3)] in blast)+

text \<open>
  Why nothing more is said of calls: the gas of a nested execution is added without a check, and one
  that ran out of gas reports more than its limit. So the counter can wrap to less than it was.
\<close>

lemma gas_counter_wraps:
  assumes "evGasUsed e < 2 ^ 64" and "evGasUsed e + subGas = 2 ^ 64"
  shows "resume_call I StaticCall e snap rOff rSz retdata subGas (Some OutOfGas) s
    = Next (e\<lparr>evGasUsed := 0, evReturndata := retdata, evStack := 0 # evStack e\<rparr>) s"
proof -
  have "wrap64 (evGasUsed e + subGas) = 0" unfolding assms(2) by (simp add: wrap64_def)
  then show ?thesis by (simp add: resume_call_def)
qed

subsection \<open>Concrete runs\<close>

definition idle_machine :: "int list \<Rightarrow> bytes \<Rightarrow> EVMExecutor" where
  "idle_machine st code = (start (NewEVMExecutor (manager_context [1] [2] [])) code)\<lparr>evStack := st\<rparr>"

definition no_contracts :: manager_state where
  "no_contracts = \<lparr>msContracts = [], msLogs = []\<rparr>"

text \<open>A state with one contract, which stores 7 and returns.\<close>

definition one_contract :: contract_manager where
  "one_contract = \<lparr>cmContracts = [(replicate 20 1, (new_contract (replicate 20 1))\<lparr>ctBalance := 5,
     ctCode := [0x60, 7, 0x60, 1, 0x55, 0]\<rparr>)], cmStandards = []\<rparr>"

lemma evm_terminates_witness:
  "Execute (1000000 div 3 + 1) (\<lambda>_. replicate 32 0) managerState
     (NewEVMExecutor (manager_context [1] [2] [])) [0x5B, 0x60, 0, 0x56] no_contracts \<noteq> None"
proof -
  let ?cx = "manager_context [1] [2] []"
  have cx: "cx_typed ?cx" by (rule cx_typed_manager) simp_all
  have l: "cxGasLimit ?cx = 1000000" by (simp add: manager_context_def)
  have "all_ops (\<lambda>op. \<not> is_call op) [0x5B, 0x60, 0, 0x56]"
    by (rule all_opsI) (auto simp: is_call_def)
  from evm_terminates [OF cx _ _ _ _ this, of no_contracts "\<lambda>_. replicate 32 0"]
  show ?thesis by (simp add: l no_contracts_def contracts_typed_def)
qed

lemma evm_type_sound_witness:
  "\<exists>r cm'. manager_Execute 333334 (\<lambda>_. replicate 32 0) (replicate 20 1) (replicate 20 2) [] 9 one_contract
     = Some (Done (r, cm')) \<and> r \<noteq> Inl ContractNotFound \<and> contracts_typed (cmContracts cm')"
  by (rule evm_type_sound [where c = "snd (hd (cmContracts one_contract))"])
    (auto simp: one_contract_def contracts_typed_def contract_typed_def new_contract_def
      touches_memory_def intro!: all_opsI)

lemma evm_static_witness:
  "\<exists>s'. Execute 1 (\<lambda>_. []) managerState ((idle_machine [] [])\<lparr>evStaticCall := True\<rparr>)
       [0x55] no_contracts = Some (Done ([], 0, Some (StaticViolation ''sstore''), s'))
     \<and> s' = no_contracts"
proof -
  have run: "Execute 1 (\<lambda>_. []) managerState ((idle_machine [] [])\<lparr>evStaticCall := True\<rparr>)
       [0x55] no_contracts = Some (Done ([], 0, Some (StaticViolation ''sstore''), no_contracts))"
    by (simp add: Execute_def start_def idle_machine_def step_def Let_def pushes_def writing_ops opSSTORE_def NewEVMExecutor_def)
  from evm_static [OF run] have "no_contracts = no_contracts"
    by (auto simp: idle_machine_def quiet_def is_call_def intro!: all_opsI)
  with run show ?thesis by blast
qed

lemma evm_words_witness:
  "simple_op (\<lambda>_. []) managerState 0x03 (idle_machine [5, 3] []) no_contracts
     = bind_res (useGas (word_gas 0x03 5) (idle_machine [5, 3] [])) no_contracts
         (\<lambda>e. Next (e\<lparr>evStack := [uint ((3 :: w256) - 5)]\<rparr>) no_contracts)"
  using evm_words [where op = "0x03" and ws = "[5, 3]" and v = "3 - 5" and e = "idle_machine [5, 3] []"
      and r = "[]" and keccak = "\<lambda>_. []" and I = managerState and s = no_contracts]
  by (simp add: eth_binary_def top_last_def standard_def idle_machine_def)

lemma evm_frames_witness:
  "frame_reach (\<lambda>_. []) managerState (start (NewEVMExecutor (manager_context [1] [2] [])) [0x5F, 0x5B])
     no_contracts (idle_machine [0] [0x5F, 0x5B]\<lparr>evPc := 1, evGasUsed := 3\<rparr>) no_contracts
   \<and> (1 = length [0x5F, 0x5B :: byte] \<or> instr_start [0x5F, 0x5B] 1)"
proof -
  let ?e = "start (NewEVMExecutor (manager_context [1] [2] [])) [0x5F, 0x5B]"
  have "step (\<lambda>_. []) managerState ?e no_contracts
      = Plain (Next (idle_machine [0] [0x5F, 0x5B]\<lparr>evPc := 1, evGasUsed := 3\<rparr>) no_contracts)"
    by (simp add: step_def start_def Let_def pushes_def simple_op_def op_table_def opPUSH0_def push_op_def
        useGas_def NewEVMExecutor_def manager_context_def wrap64_def idle_machine_def)
  from frame_reach.plain [OF frame_reach.init _ this]
  have reach: "frame_reach (\<lambda>_. []) managerState ?e no_contracts
      (idle_machine [0] [0x5F, 0x5B]\<lparr>evPc := 1, evGasUsed := 3\<rparr>) no_contracts"
    by (simp add: start_def)
  from evm_frames [OF reach] reach show ?thesis by simp
qed

text \<open>A contract that destroys itself, for the benefit of the zero address.\<close>

definition doomed :: contract where
  "doomed = (new_contract [1])\<lparr>ctBalance := 5, ctCode := [0x5F, 0xFF]\<rparr>"

lemma manager_money_witness:
  "\<exists>cm'. manager_Execute 2 (\<lambda>_. []) [1] [2] [] 9 \<lparr>cmContracts = [([1], doomed)], cmStandards = []\<rparr>
       = Some (Done (Inr [], cm'))
     \<and> map_option ctBalance (goget (cmContracts cm') (replicate 20 0)) = Some 5
     \<and> money (cmContracts cm') = 5"
proof -
  let ?cm = "\<lparr>cmContracts = [([1], doomed)], cmStandards = []\<rparr> :: contract_manager"
  let ?s = "\<lparr>msContracts = [([1], doomed)], msLogs = []\<rparr> :: manager_state"
  have first: "step (\<lambda>_. []) managerState (idle_machine [] [0x5F, 0xFF]) s
      = Plain (Next (idle_machine [0] [0x5F, 0xFF]\<lparr>evPc := 1, evGasUsed := 3\<rparr>) s)" for s
    by (simp add: step_def start_def Let_def pushes_def simple_op_def op_table_def opPUSH0_def push_op_def
        useGas_def NewEVMExecutor_def manager_context_def wrap64_def idle_machine_def)
  define z :: bytes where "z = replicate 20 0"
  have zero: "toAddress 0 = z" by (simp add: z_def toAddress_def wrap256_def)
  have "length z \<noteq> length [1 :: byte]" by (simp add: z_def)
  then have z: "z \<noteq> [1]" "[1] \<noteq> z" by auto
  define cs :: "(bytes, contract) gomap" where "cs = goput [1] (doomed\<lparr>ctBalance := 0, ctStorage := []\<rparr>)
    (goput (z) ((new_contract (z))\<lparr>ctBalance := 5\<rparr>) [([1], doomed)])"
  have second: "step (\<lambda>_. []) managerState (idle_machine [0] [0x5F, 0xFF]\<lparr>evPc := 1, evGasUsed := 3\<rparr>) ?s
      = Plain (Halt [] 5003 None \<lparr>msContracts = cs, msLogs = []\<rparr>)"
    by (simp add: step_def start_def Let_def pushes_def writing_ops opSELFDESTRUCT_def pop1_def
        useGas_def NewEVMExecutor_def manager_context_def wrap64_def idle_machine_def managerState_def
        ms_GetBalance_def doomed_def ms_Transfer_def ms_SetStorage_def cs_def zero new_contract_def z)
  have run: "manager_Execute 2 (\<lambda>_. []) [1] [2] [] 9 ?cm = Some (Done (Inr [], ?cm\<lparr>cmContracts := goput [1]
      (doomed\<lparr>ctBalance := 0, ctStorage := [], ctUpdatedAt := 9\<rparr>) cs\<rparr>))"
  proof -
    have "Execute 2 (\<lambda>_. []) managerState (NewEVMExecutor (manager_context [1] [2] [])) (ctCode doomed) ?s
        = Some (Done ([], 5003, None, \<lparr>msContracts = cs, msLogs = []\<rparr>))"
      using first [of ?s] second
      by (simp add: Execute_def eval_nat_numeral idle_machine_def doomed_def start_def NewEVMExecutor_def)
    then show ?thesis by (simp add: manager_Execute_def cs_def z)
  qed
  have "gomap_wf (cmContracts ?cm)" "money (cmContracts ?cm) < 2 ^ 64"
    by (simp_all add: doomed_def gomap_wf_def money_def)
  moreover have "goget (cmContracts ?cm) [1] = Some doomed" by simp
  ultimately have "conserved (cmContracts ?cm)
      (cmContracts (?cm\<lparr>cmContracts := goput [1] (doomed\<lparr>ctBalance := 0, ctStorage := [], ctUpdatedAt := 9\<rparr>) cs\<rparr>))"
    using manager_money [of ?cm "[1]" doomed, where fuel = 2 and keccak = "\<lambda>_. []" and caller = "[2]" and input = "[]" and height = 9]
      run by blast
  with run show ?thesis
    by (simp add: conserved_def) (simp add: money_def doomed_def cs_def z flip: z_def)
qed


end
