(* ===== verification/Exec_Accounts.thy ===== *)
theory Exec_Accounts
  imports State_Commit Persistent_Chain EVM_State
begin

text \<open>
  The accounts of the execution engine (\<open>AccountState\<close> in \<open>execution/engine.go\<close>), the two closures
  through which it reads and writes them (\<open>block_producer.go\<close>), and \<open>evmStateAdapter\<close>, the
  \<open>EVMState\<close> on top of them with its journal of undo entries.

  The closures of the block producer answer a fresh copy at every call and copy what they store, so
  pointers to accounts do not alias. \<open>account_io\<close> is the pair of closures over a world \<open>'w\<close>: reading
  answers \<open>None\<close> for an error, writing answers whether it failed, or panics.
\<close>

subsection \<open>Accounts\<close>

text \<open>A nil map and an empty one behave alike, as do nil and empty code; a nil balance does not.\<close>

record exec_account =
  xaAddress :: bytes
  xaBalance :: "int option"
  xaNonce :: u64
  xaCode :: bytes
  xaStorage :: "(bytes, bytes option) gomap"
  xaTokens :: "(bytes, int) gomap"

definition new_exec_account :: "bytes \<Rightarrow> exec_account" where
  "new_exec_account addr = \<lparr>xaAddress = addr, xaBalance = Some 0, xaNonce = 0, xaCode = [],
     xaStorage = [], xaTokens = []\<rparr>"

text \<open>Arithmetic on a nil \<open>*big.Int\<close> panics.\<close>

fun with_big :: "int option \<Rightarrow> (int \<Rightarrow> 'a outcome) \<Rightarrow> 'a outcome" where
  "with_big (Some x) k = k x"
| "with_big None k = Panics"

definition ex_GetTokenBalance :: "bytes \<Rightarrow> exec_account \<Rightarrow> int option" where
  "ex_GetTokenBalance token a = (if length token = 0 then xaBalance a
     else Some (case goget (xaTokens a) token of None \<Rightarrow> 0 | Some b \<Rightarrow> b))"

definition ex_DeductTokenBalance :: "bytes \<Rightarrow> int \<Rightarrow> exec_account \<Rightarrow> exec_account outcome" where
  "ex_DeductTokenBalance token amount a =
     (if length token = 0 then with_big (xaBalance a) (\<lambda>b. Done (a\<lparr>xaBalance := Some (b - amount)\<rparr>))
      else Done (a\<lparr>xaTokens := goput token
        ((case goget (xaTokens a) token of None \<Rightarrow> 0 | Some b \<Rightarrow> b) - amount) (xaTokens a)\<rparr>))"

definition ex_AddTokenBalance :: "bytes \<Rightarrow> int \<Rightarrow> exec_account \<Rightarrow> exec_account outcome" where
  "ex_AddTokenBalance token amount a =
     (if length token = 0 then with_big (xaBalance a) (\<lambda>b. Done (a\<lparr>xaBalance := Some (b + amount)\<rparr>))
      else Done (a\<lparr>xaTokens := goput token
        ((case goget (xaTokens a) token of None \<Rightarrow> 0 | Some b \<Rightarrow> b) + amount) (xaTokens a)\<rparr>))"

subsection \<open>The closures\<close>

record 'w account_io =
  ioGet :: "'w \<Rightarrow> bytes \<Rightarrow> exec_account option"
  ioSet :: "'w \<Rightarrow> bytes \<Rightarrow> exec_account \<Rightarrow> (bool \<times> 'w) outcome"

definition stateToExecAccount :: "account \<Rightarrow> exec_account" where
  "stateToExecAccount a = \<lparr>xaAddress = acAddress a, xaBalance = Some (acBalance a),
     xaNonce = acNonce a, xaCode = (case acCode a of None \<Rightarrow> [] | Some c \<Rightarrow> c),
     xaStorage = acStorage a, xaTokens = acTokenBalances a\<rparr>"

text \<open>The maps are merged into those of the account: an entry is never removed.\<close>

definition merge :: "('k, 'v) gomap \<Rightarrow> ('k, 'v) gomap \<Rightarrow> ('k, 'v) gomap" where
  "merge src dst = fold (\<lambda>(k, v) m. goput k v m) src dst"

definition execToStateAccount :: "exec_account \<Rightarrow> account \<Rightarrow> account outcome" where
  "execToStateAccount src dst = with_big (xaBalance src) (\<lambda>b.
     let dst = dst\<lparr>acBalance := b, acNonce := xaNonce src\<rparr>;
         dst = (if 0 < length (xaCode src)
           then dst\<lparr>acCode := Some (xaCode src), acType := AccountTypeContract\<rparr> else dst)
     in Done (dst\<lparr>acStorage := merge (xaStorage src) (acStorage dst),
          acTokenBalances := merge (xaTokens src) (acTokenBalances dst)\<rparr>))"

definition bp_getAccount :: "state_manager \<Rightarrow> bytes \<Rightarrow> exec_account option" where
  "bp_getAccount sm addr = (case GetAccount addr sm of
       Inl _ \<Rightarrow> Some (new_exec_account addr)
     | Inr a \<Rightarrow> Some (stateToExecAccount a))"

definition bp_setAccount :: "state_manager \<Rightarrow> bytes \<Rightarrow> exec_account \<Rightarrow> (bool \<times> state_manager) outcome" where
  "bp_setAccount sm addr x =
     (let a = (case GetAccount addr sm of Inl _ \<Rightarrow> NewAccount addr AccountTypeNormal | Inr a \<Rightarrow> a)
      in bind_outcome (execToStateAccount x a) (\<lambda>a. Done (False, SetAccount a sm)))"

definition producer_io :: "state_manager account_io" where
  "producer_io = \<lparr>ioGet = bp_getAccount, ioSet = bp_setAccount\<rparr>"

subsection \<open>The state adapter of the interpreter\<close>

datatype journal_entry = JBal bytes int | JStor bytes bytes "bytes option" | JCreate bytes

text \<open>The journal has its newest entry first; snapshots are lengths of the journal, in order.\<close>

record 'w evm_adapter =
  adWorld :: 'w
  adLogs :: "receipt_log list"
  adJournal :: "journal_entry list"
  adSnapshots :: "nat list"
  adErr :: bool

definition new_adapter :: "'w \<Rightarrow> 'w evm_adapter" where
  "new_adapter w = \<lparr>adWorld = w, adLogs = [], adJournal = [], adSnapshots = [], adErr = False\<rparr>"

text \<open>After a first error nothing is written any more.\<close>

definition setAccountErr ::
    "'w account_io \<Rightarrow> bytes \<Rightarrow> exec_account \<Rightarrow> 'w evm_adapter \<Rightarrow> 'w evm_adapter outcome" where
  "setAccountErr io addr a s = (if adErr s then Done s
     else bind_outcome (ioSet io (adWorld s) addr a) (\<lambda>(err, w).
       Done (s\<lparr>adErr := err, adWorld := w\<rparr>)))"

definition journal :: "journal_entry \<Rightarrow> 'w evm_adapter \<Rightarrow> 'w evm_adapter" where
  "journal j s = s\<lparr>adJournal := j # adJournal s\<rparr>"

definition ad_GetNonce :: "'w account_io \<Rightarrow> 'w evm_adapter \<Rightarrow> bytes \<Rightarrow> nat" where
  "ad_GetNonce io s addr = (case ioGet io (adWorld s) addr of None \<Rightarrow> 0 | Some a \<Rightarrow> unat (xaNonce a))"

definition ad_GetBalance :: "'w account_io \<Rightarrow> 'w evm_adapter \<Rightarrow> bytes \<Rightarrow> int option" where
  "ad_GetBalance io s addr = (case ioGet io (adWorld s) addr of None \<Rightarrow> Some 0 | Some a \<Rightarrow> xaBalance a)"

definition ad_GetCode :: "'w account_io \<Rightarrow> 'w evm_adapter \<Rightarrow> bytes \<Rightarrow> bytes" where
  "ad_GetCode io s addr = (case ioGet io (adWorld s) addr of None \<Rightarrow> [] | Some a \<Rightarrow> xaCode a)"

definition ad_GetStorage :: "'w account_io \<Rightarrow> 'w evm_adapter \<Rightarrow> bytes \<Rightarrow> bytes \<Rightarrow> bytes" where
  "ad_GetStorage io s addr key = (case ioGet io (adWorld s) addr of None \<Rightarrow> []
     | Some a \<Rightarrow> (case goget (xaStorage a) key of Some (Some v) \<Rightarrow> v | _ \<Rightarrow> []))"

definition ad_SetStorage :: "'w account_io \<Rightarrow> 'w evm_adapter \<Rightarrow> bytes \<Rightarrow> bytes \<Rightarrow> bytes option
    \<Rightarrow> 'w evm_adapter outcome" where
  "ad_SetStorage io s addr key v =
     (let (a, s) = (case ioGet io (adWorld s) addr of
            None \<Rightarrow> (new_exec_account addr, journal (JCreate addr) s) | Some a \<Rightarrow> (a, s));
          old = (case goget (xaStorage a) key of None \<Rightarrow> None | Some v \<Rightarrow> v);
          a = a\<lparr>xaStorage := goput key v (xaStorage a)\<rparr>
      in setAccountErr io addr a (journal (JStor addr key old) s))"

text \<open>Both accounts are read before either is written: for a transfer to oneself the credit wins.\<close>

definition ad_Transfer :: "'w account_io \<Rightarrow> 'w evm_adapter \<Rightarrow> bytes \<Rightarrow> bytes \<Rightarrow> int
    \<Rightarrow> 'w evm_adapter outcome" where
  "ad_Transfer io s src dest amount = (case ioGet io (adWorld s) src of
       None \<Rightarrow> Done s
     | Some f \<Rightarrow>
         let t = (case ioGet io (adWorld s) dest of None \<Rightarrow> new_exec_account dest | Some t \<Rightarrow> t)
         in with_big (xaBalance f) (\<lambda>fb.
            if fb < amount then Done s
            else with_big (xaBalance t) (\<lambda>tb.
              bind_outcome (setAccountErr io src (f\<lparr>xaBalance := Some (fb - amount)\<rparr>)
                  (journal (JBal dest tb) (journal (JBal src fb) s))) (\<lambda>s.
              setAccountErr io dest (t\<lparr>xaBalance := Some (tb + amount)\<rparr>) s))))"

definition ad_CreateAccount ::
    "'w account_io \<Rightarrow> 'w evm_adapter \<Rightarrow> bytes \<Rightarrow> 'w evm_adapter outcome" where
  "ad_CreateAccount io s addr = setAccountErr io addr (new_exec_account addr) (journal (JCreate addr) s)"

definition ad_AddLog ::
    "'w evm_adapter \<Rightarrow> bytes \<Rightarrow> bytes list \<Rightarrow> bytes \<Rightarrow> 'w evm_adapter" where
  "ad_AddLog s addr topics data = s\<lparr>adLogs := adLogs s @
     [\<lparr>lgAddress = addr, lgTopics = topics, lgData = data\<rparr>]\<rparr>"

definition ad_Snapshot :: "'w evm_adapter \<Rightarrow> int \<times> 'w evm_adapter" where
  "ad_Snapshot s = (int (length (adSnapshots s)),
     s\<lparr>adSnapshots := adSnapshots s @ [length (adJournal s)]\<rparr>)"

text \<open>
  Undoing an entry. The old value of a storage cell is a slice in an interface value, which is never
  nil itself, so the cell is written and not deleted; a created account is replaced by one whose balance
  is nil.
\<close>

definition undo_entry ::
    "'w account_io \<Rightarrow> journal_entry \<Rightarrow> 'w evm_adapter \<Rightarrow> 'w evm_adapter outcome" where
  "undo_entry io j s =
     (let get = (\<lambda>addr. case ioGet io (adWorld s) addr of None \<Rightarrow> new_exec_account addr | Some a \<Rightarrow> a)
      in case j of
           JBal addr old \<Rightarrow> setAccountErr io addr ((get addr)\<lparr>xaBalance := Some old\<rparr>) s
         | JStor addr key old \<Rightarrow>
             setAccountErr io addr ((get addr)\<lparr>xaStorage := goput key old (xaStorage (get addr))\<rparr>) s
         | JCreate addr \<Rightarrow> setAccountErr io addr ((new_exec_account addr)\<lparr>xaBalance := None\<rparr>) s)"

fun undo_all :: "'w account_io \<Rightarrow> journal_entry list \<Rightarrow> 'w evm_adapter \<Rightarrow> 'w evm_adapter outcome" where
  "undo_all io [] s = Done s"
| "undo_all io (j # js) s = bind_outcome (undo_entry io j s) (undo_all io js)"

definition ad_RevertToSnapshot ::
    "'w account_io \<Rightarrow> 'w evm_adapter \<Rightarrow> int \<Rightarrow> 'w evm_adapter outcome" where
  "ad_RevertToSnapshot io s n = (if n < 0 \<or> int (length (adSnapshots s)) \<le> n then Done s
     else let marker = adSnapshots s ! nat n;
              newer = length (adJournal s) - marker
       in bind_outcome (undo_all io (take newer (adJournal s))
            (s\<lparr>adJournal := drop newer (adJournal s)\<rparr>)) (\<lambda>s.
          Done (s\<lparr>adSnapshots := take (nat n) (adSnapshots s)\<rparr>)))"

definition adapterState :: "'w account_io \<Rightarrow> 'w evm_adapter EVMState" where
  "adapterState io = \<lparr>esGetBalance = ad_GetBalance io, esGetNonce = ad_GetNonce io,
     esGetCode = ad_GetCode io, esGetStorage = ad_GetStorage io, esSetStorage = ad_SetStorage io,
     esTransfer = ad_Transfer io, esCreateAccount = ad_CreateAccount io, esAddLog = ad_AddLog,
     esSnapshot = ad_Snapshot, esRevertToSnapshot = ad_RevertToSnapshot io\<rparr>"

end
