(* ===== verification/Shielded_Pool.thy ===== *)
theory Shielded_Pool
  imports Keys
begin

text \<open>
  The shielded pool over its memory backend (\<open>privacy/shielded_pool.go\<close>). SHA-256 and the Pedersen
  commitment on the curve BN254 (third-party libraries) are the parameters \<open>H\<close> and \<open>commit\<close>: a
  commitment is a function of the value and the 32 bytes of randomness. Notes are never changed after
  they are made, so pointers to them are values. Every operation holds the lock and is one step.
\<close>

record pool_note =
  ntNullifier :: bytes
  ntCommitment :: bytes
  ntValue :: u64
  ntOwnerHash :: bytes

subsection \<open>The memory backend\<close>

record pool_backend =
  pbNotes :: "pool_note list"
  pbNullifiers :: "(bytes, bool) gomap"
  pbCommitments :: "(bytes, bool) gomap"
  pbTotal :: u64

definition newMemoryBackend :: pool_backend where
  "newMemoryBackend = \<lparr>pbNotes = [], pbNullifiers = [], pbCommitments = [], pbTotal = 0\<rparr>"

definition SaveNote :: "pool_note \<Rightarrow> pool_backend \<Rightarrow> pool_backend" where
  "SaveNote n b = b\<lparr>pbNotes := pbNotes b @ [n]\<rparr>"

definition SaveNullifier :: "bytes \<Rightarrow> pool_backend \<Rightarrow> pool_backend" where
  "SaveNullifier k b = b\<lparr>pbNullifiers := goput k True (pbNullifiers b)\<rparr>"

definition SaveCommitment :: "bytes \<Rightarrow> pool_backend \<Rightarrow> pool_backend" where
  "SaveCommitment k b = b\<lparr>pbCommitments := goput k True (pbCommitments b)\<rparr>"

definition SaveTotalShielded :: "u64 \<Rightarrow> pool_backend \<Rightarrow> pool_backend" where
  "SaveTotalShielded v b = b\<lparr>pbTotal := v\<rparr>"

fun drop_note :: "bytes \<Rightarrow> pool_note list \<Rightarrow> pool_note list" where
  "drop_note k [] = []"
| "drop_note k (n # ns) = (if ntNullifier n = k then ns else n # drop_note k ns)"

definition DeleteNote :: "bytes \<Rightarrow> pool_backend \<Rightarrow> pool_backend" where
  "DeleteNote k b = b\<lparr>pbNotes := drop_note k (pbNotes b)\<rparr>"

definition flagged :: "(bytes, bool) gomap \<Rightarrow> bytes \<Rightarrow> bool" where
  "flagged m k = (case goget m k of None \<Rightarrow> False | Some b \<Rightarrow> b)"

subsection \<open>The pool\<close>

record shielded_pool =
  spBackend :: pool_backend
  spNotes :: "pool_note list"
  spNullifiers :: "(bytes, bool) gomap"
  spCommitments :: "(bytes, bool) gomap"
  spTotal :: u64

definition NewShieldedPoolWithBackend :: "pool_backend \<Rightarrow> shielded_pool" where
  "NewShieldedPoolWithBackend b = \<lparr>spBackend = b, spNotes = pbNotes b, spNullifiers = pbNullifiers b,
     spCommitments = pbCommitments b, spTotal = pbTotal b\<rparr>"

definition NewShieldedPool :: shielded_pool where
  "NewShieldedPool = NewShieldedPoolWithBackend newMemoryBackend"

datatype pool_error = PoolNoOwner | PoolShortRandomness | PoolZeroValue | PoolOverflow
  | PoolDuplicate | PoolBadNullifier | PoolUsed | PoolUnderflow | PoolUnknown

text \<open>The test for an overflow is \<open>totalShield > MaxUint64 - value\<close>.\<close>

definition CreateNote :: "(bytes \<Rightarrow> bytes) \<Rightarrow> (u64 \<Rightarrow> bytes \<Rightarrow> bytes) \<Rightarrow> u64 \<Rightarrow> bytes \<Rightarrow> bytes
    \<Rightarrow> shielded_pool \<Rightarrow> (pool_error + pool_note) \<times> shielded_pool" where
  "CreateNote H commit v owner randomness sp =
     (if length owner = 0 then (Inl PoolNoOwner, sp)
      else if length randomness < 16 then (Inl PoolShortRandomness, sp)
      else if v = 0 then (Inl PoolZeroValue, sp)
      else if - 1 - v < spTotal sp then (Inl PoolOverflow, sp)
      else let ownerHash = H owner;
               commitment = commit v (take 32 (randomness @ replicate 32 0));
               nullifier = H (ownerHash @ randomness @ [1])
        in if flagged (spCommitments sp) commitment then (Inl PoolDuplicate, sp)
           else let note = \<lparr>ntNullifier = nullifier, ntCommitment = commitment, ntValue = v,
                            ntOwnerHash = ownerHash\<rparr>;
                    b = SaveTotalShielded (spTotal sp) (SaveCommitment commitment
                          (SaveNote note (spBackend sp)))
             in (Inr note, sp\<lparr>spBackend := b, spNotes := spNotes sp @ [note],
                   spCommitments := goput commitment True (spCommitments sp),
                   spTotal := spTotal sp + v\<rparr>))"

fun find_note :: "bytes \<Rightarrow> pool_note list \<Rightarrow> pool_note option" where
  "find_note k [] = None"
| "find_note k (n # ns) = (if ntNullifier n = k then Some n else find_note k ns)"

definition SpendNote :: "bytes \<Rightarrow> shielded_pool \<Rightarrow> (pool_error + u64) \<times> shielded_pool" where
  "SpendNote nullifier sp =
     (if length nullifier \<noteq> 32 then (Inl PoolBadNullifier, sp)
      else if flagged (spNullifiers sp) nullifier then (Inl PoolUsed, sp)
      else case find_note nullifier (spNotes sp) of
          None \<Rightarrow> (Inl PoolUnknown, sp)
        | Some n \<Rightarrow>
            if spTotal sp < ntValue n then (Inl PoolUnderflow, sp)
            else let total = spTotal sp - ntValue n;
                     b = SaveTotalShielded total (DeleteNote nullifier
                           (SaveNullifier nullifier (spBackend sp)))
              in (Inr (ntValue n), sp\<lparr>spBackend := b, spTotal := total,
                    spNullifiers := goput nullifier True (spNullifiers sp),
                    spNotes := drop_note nullifier (spNotes sp)\<rparr>))"

definition HasNullifier :: "shielded_pool \<Rightarrow> bytes \<Rightarrow> bool" where
  "HasNullifier sp k \<longleftrightarrow> length k = 32 \<and> flagged (spNullifiers sp) k"

definition HasCommitment :: "shielded_pool \<Rightarrow> bytes \<Rightarrow> bool" where
  "HasCommitment sp k \<longleftrightarrow> length k = 32 \<and> flagged (spCommitments sp) k"

definition NoteCount :: "shielded_pool \<Rightarrow> nat" where
  "NoteCount sp = length (spNotes sp)"

definition TotalShielded :: "shielded_pool \<Rightarrow> u64" where
  "TotalShielded sp = spTotal sp"

subsection \<open>Histories\<close>

datatype pool_op = CreateOp u64 bytes bytes | SpendOp bytes

fun pool_step :: "(bytes \<Rightarrow> bytes) \<Rightarrow> (u64 \<Rightarrow> bytes \<Rightarrow> bytes) \<Rightarrow> shielded_pool \<Rightarrow> pool_op \<Rightarrow> shielded_pool" where
  "pool_step H commit sp (CreateOp v owner r) = snd (CreateNote H commit v owner r sp)"
| "pool_step H commit sp (SpendOp k) = snd (SpendNote k sp)"

text \<open>What an operation deposits, and the nullifier and value that it spends, if it succeeds.\<close>

fun deposit_of :: "(bytes \<Rightarrow> bytes) \<Rightarrow> (u64 \<Rightarrow> bytes \<Rightarrow> bytes) \<Rightarrow> shielded_pool \<Rightarrow> pool_op \<Rightarrow> nat" where
  "deposit_of H commit sp (CreateOp v owner r)
     = (case fst (CreateNote H commit v owner r sp) of Inl _ \<Rightarrow> 0 | Inr n \<Rightarrow> unat (ntValue n))"
| "deposit_of H commit sp (SpendOp k) = 0"

fun spend_of :: "shielded_pool \<Rightarrow> pool_op \<Rightarrow> (bytes \<times> nat) list" where
  "spend_of sp (CreateOp v owner r) = []"
| "spend_of sp (SpendOp k) = (case fst (SpendNote k sp) of Inl _ \<Rightarrow> [] | Inr v \<Rightarrow> [(k, unat v)])"

fun deposits :: "(bytes \<Rightarrow> bytes) \<Rightarrow> (u64 \<Rightarrow> bytes \<Rightarrow> bytes) \<Rightarrow> shielded_pool \<Rightarrow> pool_op list \<Rightarrow> nat" where
  "deposits H commit sp [] = 0"
| "deposits H commit sp (op # ops) = deposit_of H commit sp op + deposits H commit (pool_step H commit sp op) ops"

fun spends_in :: "(bytes \<Rightarrow> bytes) \<Rightarrow> (u64 \<Rightarrow> bytes \<Rightarrow> bytes) \<Rightarrow> shielded_pool \<Rightarrow> pool_op list
    \<Rightarrow> (bytes \<times> nat) list" where
  "spends_in H commit sp [] = []"
| "spends_in H commit sp (op # ops) = spend_of sp op @ spends_in H commit (pool_step H commit sp op) ops"

definition worth :: "pool_note list \<Rightarrow> nat" where
  "worth ns = (\<Sum>n\<leftarrow>ns. unat (ntValue n))"

lemma worth_drop: "find_note k ns = Some n \<Longrightarrow> worth (drop_note k ns) + unat (ntValue n) = worth ns"
  by (induction ns) (auto simp: worth_def split: if_splits)

lemma worth_find: "find_note k ns = Some n \<Longrightarrow> unat (ntValue n) \<le> worth ns"
  using worth_drop [of k ns n] by simp

definition pool_sound :: "shielded_pool \<Rightarrow> bool" where
  "pool_sound sp \<longleftrightarrow> unat (spTotal sp) = worth (spNotes sp)"

lemma no_overflow: "\<not> - 1 - v < (t :: u64) \<Longrightarrow> unat (t + v) = unat t + unat v"
proof -
  assume "\<not> - 1 - v < t"
  then have "unat t \<le> unat (- 1 - v)" by (simp add: word_less_nat_alt)
  also have "\<dots> = 2 ^ 64 - 1 - unat v"
    by (subst unat_sub) (simp_all add: unsigned_minus_1_eq_mask mask_eq_exp_minus_1)
  finally have "unat t + unat v < 2 ^ 64" using unsigned_less [of v, where 'a = nat] by simp
  then show ?thesis by (simp add: unat_add_lem [THEN iffD1])
qed

lemma pool_step_sound:
  assumes "pool_sound sp"
  shows "pool_sound (pool_step H commit sp op)"
    and "unat (spTotal (pool_step H commit sp op)) + (\<Sum>p\<leftarrow>spend_of sp op. snd p)
      = unat (spTotal sp) + deposit_of H commit sp op"
proof -
  have "pool_sound (pool_step H commit sp op) \<and>
      unat (spTotal (pool_step H commit sp op)) + (\<Sum>p\<leftarrow>spend_of sp op. snd p)
      = unat (spTotal sp) + deposit_of H commit sp op"
  proof (cases op)
    case (CreateOp v owner r)
    then show ?thesis using assms
      by (auto simp: CreateNote_def Let_def pool_sound_def worth_def no_overflow)
  next
    case (SpendOp k)
    then show ?thesis using assms worth_drop [of k "spNotes sp"] worth_find [of k "spNotes sp"]
      by (auto simp: SpendNote_def Let_def pool_sound_def unat_sub word_le_nat_alt linorder_not_less
          split: option.splits)
  qed
  then show "pool_sound (pool_step H commit sp op)"
    and "unat (spTotal (pool_step H commit sp op)) + (\<Sum>p\<leftarrow>spend_of sp op. snd p)
      = unat (spTotal sp) + deposit_of H commit sp op" by simp_all
qed

lemma step_flags:
  assumes "flagged (spNullifiers sp) k"
  shows "flagged (spNullifiers (pool_step H commit sp op)) k"
  using assms by (cases op) (auto simp: CreateNote_def SpendNote_def Let_def flagged_def split: option.splits)

lemma spend_flags: "p \<in> set (spend_of sp op) \<Longrightarrow> flagged (spNullifiers (pool_step H commit sp op)) (fst p)"
  by (cases op) (auto simp: SpendNote_def Let_def flagged_def split: option.splits sum.splits if_splits)

lemma spent_unflagged: "p \<in> set (spends_in H commit sp ops) \<Longrightarrow> \<not> flagged (spNullifiers sp) (fst p)"
proof (induction ops arbitrary: sp)
  case (Cons op ops)
  then consider "p \<in> set (spend_of sp op)" | "p \<in> set (spends_in H commit (pool_step H commit sp op) ops)"
    by auto
  then show ?case
  proof cases
    case 1
    then show ?thesis
      by (cases op) (auto simp: SpendNote_def Let_def split: option.splits sum.splits if_splits)
  next
    case 2
    then show ?thesis using Cons.IH step_flags by blast
  qed
qed simp

lemma spend_once: "length (spend_of sp op) \<le> 1"
  by (cases op) (simp_all split: sum.split)

lemma spends_distinct: "distinct (map fst (spends_in H commit sp ops))"
proof (induction ops arbitrary: sp)
  case (Cons op ops)
  have "fst p \<noteq> fst q" if "p \<in> set (spend_of sp op)" "q \<in> set (spends_in H commit (pool_step H commit sp op) ops)"
    for p q
    using spend_flags [OF that(1), of H commit] spent_unflagged [OF that(2)] by auto
  moreover have "distinct (map fst (spend_of sp op))"
    using spend_once [of sp op] by (cases "spend_of sp op") auto
  ultimately show ?case using Cons.IH by fastforce
qed simp

lemma pool_books:
  "pool_sound sp \<Longrightarrow> pool_sound (foldl (pool_step H commit) sp ops)
    \<and> unat (spTotal (foldl (pool_step H commit) sp ops)) + (\<Sum>p\<leftarrow>spends_in H commit sp ops. snd p)
      = unat (spTotal sp) + deposits H commit sp ops"
proof (induction ops arbitrary: sp)
  case (Cons op ops)
  show ?case
    using Cons.IH [OF pool_step_sound(1) [OF Cons.prems, of H commit op]] pool_step_sound(2) [OF Cons.prems, of H commit op]
    by simp
qed simp

text \<open>
  C21 (pool_spends_once): over any history of deposits and withdrawals no nullifier is spent twice, the
  recorded total is the sum of the values of the notes in the pool, and what was deposited is what was
  withdrawn and what is still there.
\<close>

theorem pool_spends_once:
  fixes H commit ops
  defines "sp \<equiv> foldl (pool_step H commit) NewShieldedPool ops"
  shows "distinct (map fst (spends_in H commit NewShieldedPool ops))
    \<and> unat (spTotal sp) = worth (spNotes sp)
    \<and> deposits H commit NewShieldedPool ops
      = (\<Sum>p\<leftarrow>spends_in H commit NewShieldedPool ops. snd p) + worth (spNotes sp)"
proof -
  have "pool_sound NewShieldedPool" "spTotal NewShieldedPool = 0"
    by (simp_all add: pool_sound_def worth_def NewShieldedPool_def NewShieldedPoolWithBackend_def newMemoryBackend_def)
  from pool_books [OF this(1), of H commit ops] this(2) show ?thesis
    using spends_distinct by (simp add: sp_def pool_sound_def)
qed

text \<open>
  The backend saves the total before the value is added, so a reopened pool knows less money than its
  notes are worth; when it has a single note, that note cannot be spent.
\<close>

lemma reopened_pool_stuck:
  assumes "length (H (H owner @ r @ [1])) = 32" "owner \<noteq> []" "16 \<le> length r" "0 < v"
    and "sp = snd (CreateNote H commit v owner r NewShieldedPool)"
  shows "fst (SpendNote (H (H owner @ r @ [1])) (NewShieldedPoolWithBackend (spBackend sp))) = Inl PoolUnderflow"
  using assms
  by (simp add: CreateNote_def SpendNote_def NewShieldedPool_def NewShieldedPoolWithBackend_def
      newMemoryBackend_def SaveNote_def SaveCommitment_def SaveTotalShielded_def Let_def flagged_def)

end
