(* ===== verification/Exec_Engine.thy ===== *)
theory Exec_Engine
  imports Exec_Accounts Shielded_Pool
begin

text \<open>
  The execution engine (\<open>execution/engine.go\<close>): transactions are classified, charged, executed
  as transfers, deployments or calls, and refunded. Parameters are what the engine is configured with or
  takes from outside: the cryptographic library, the curve commitment of the shielded pool, the
  conversion oracle (its rates are floating-point numbers), the proof verifier and the WebAssembly
  runtime (third-party libraries), the clock, and the fuel of the interpreter: \<open>None\<close> is a run
  that did not end within it.
\<close>

datatype tx_type = TxTransfer | TxContractDeploy | TxContractCall

datatype exec_error = XInvalidSignature | XNoSender | XGasLimit | XNativeBalance | XValueBalance
  | XTokenBalance | XNonce | XUpdateSender | XNoRecipient | XUpdateRecipient | XNoCode
  | XInit evm_error | XWasm | XPersist | XSaveContract | XNoContract | XCredit | XEvm evm_error
  | XPool pool_error | XNoPool | XShortData | XNoVerifier | XProofData | XProof
  | XErc20 erc20_error | XErc721 erc721_error

record exec_result =
  erGasUsed :: u64
  erGasRefund :: u64
  erStatus :: byte
  erOutput :: bytes
  erLogs :: "receipt_log list"
  erErr :: "exec_error option"

definition exec_failure :: "exec_error \<Rightarrow> exec_result" where
  "exec_failure er = \<lparr>erGasUsed = 0, erGasRefund = 0, erStatus = 0, erOutput = [], erLogs = [], erErr = Some er\<rparr>"

definition exec_success :: exec_result where
  "exec_success = \<lparr>erGasUsed = 0, erGasRefund = 0, erStatus = 1, erOutput = [], erLogs = [], erErr = None\<rparr>"

text \<open>
  The results of the proof verifier and of the WebAssembly runtime: the code only distinguishes
  whether and where they failed.
\<close>

datatype proof_check = BadProofData | BadProof | GoodProof

record wasm_context =
  wxCaller :: bytes
  wxAddress :: bytes
  wxValue :: int
  wxGasLimit :: nat
  wxData :: bytes

record ('w, 's, 'k) engine =
  egBaseGas :: u64
  egTransferGas :: u64
  egDeployGas :: u64
  egCallGas :: u64
  egStorageGas :: u64
  egLib :: "('s, 'k) crypto_lib"
  egCommit :: "u64 \<Rightarrow> bytes \<Rightarrow> bytes"
  egOracle :: "(bytes \<Rightarrow> u64 \<Rightarrow> u64) option"
  egVerify :: "(bytes \<Rightarrow> proof_check) option"
  egWasm :: "wasm_context \<Rightarrow> bytes \<Rightarrow> 'w evm_adapter
    \<Rightarrow> (bytes \<times> nat \<times> bool \<times> 'w evm_adapter) outcome"
  egNow :: nat
  egFuel :: nat

text \<open>What a transaction may change: the accounts, the shielded pool and the standard contracts.\<close>

record 'w exec_state =
  xsWorld :: 'w
  xsPool :: "shielded_pool option"
  xsContracts :: "contract_manager option"

definition NewExecutionEngine :: "('s, 'k) crypto_lib \<Rightarrow> (u64 \<Rightarrow> bytes \<Rightarrow> bytes)
    \<Rightarrow> (bytes \<Rightarrow> u64 \<Rightarrow> u64) option \<Rightarrow> (bytes \<Rightarrow> proof_check) option
    \<Rightarrow> (wasm_context \<Rightarrow> bytes \<Rightarrow> 'w evm_adapter \<Rightarrow> (bytes \<times> nat \<times> bool \<times> 'w evm_adapter) outcome)
    \<Rightarrow> nat \<Rightarrow> nat \<Rightarrow> ('w, 's, 'k) engine" where
  "NewExecutionEngine cl commit oracle verify wasm now fuel = \<lparr>egBaseGas = 21000,
     egTransferGas = 5000, egDeployGas = 32000, egCallGas = 10000, egStorageGas = 20000,
     egLib = cl, egCommit = commit, egOracle = oracle, egVerify = verify, egWasm = wasm,
     egNow = now, egFuel = fuel\<rparr>"

subsection \<open>Classification and gas\<close>

definition ClassifyTransaction :: "transaction \<Rightarrow> tx_type" where
  "ClassifyTransaction tx = (if length (txTo tx) = 0 \<and> 0 < length (txData tx) then TxContractDeploy
     else if 0 < length (txTo tx) \<and> 0 < length (txData tx) then TxContractCall
     else TxTransfer)"

text \<open>\<open>uint64(len(tx.Data)) * e.storageGas / 1000\<close> wraps before it is divided.\<close>

definition calculateGasCost :: "('w, 's, 'k) engine \<Rightarrow> tx_type \<Rightarrow> transaction \<Rightarrow> u64" where
  "calculateGasCost e ty tx =
     (let len = of_nat (length (txData tx));
          gas = (case ty of
              TxTransfer \<Rightarrow> if egBaseGas e \<le> txGasLimit tx \<and> txGasLimit tx < egBaseGas e + egTransferGas e
                then txGasLimit tx else egBaseGas e + egTransferGas e
            | TxContractDeploy \<Rightarrow> egBaseGas e + egDeployGas e + (len * egStorageGas e) div 1000
            | TxContractCall \<Rightarrow> egBaseGas e + egCallGas e)
      in if 0 < length (txData tx) then gas + len div 32 else gas)"

subsection \<open>Transfers\<close>

definition sender_of :: "('w, 's, 'k) engine \<Rightarrow> transaction \<Rightarrow> bytes" where
  "sender_of e tx = (case SenderAddress (egLib e) tx of None \<Rightarrow> [] | Some a \<Rightarrow> a)"

text \<open>A world after a write, or the error the caller makes of a failed write.\<close>

definition save :: "'w account_io \<Rightarrow> bytes \<Rightarrow> exec_account \<Rightarrow> 'w exec_state
    \<Rightarrow> (bool \<times> 'w exec_state) outcome" where
  "save io addr a s = bind_outcome (ioSet io (xsWorld s) addr a)
     (\<lambda>(err, w). Done (err, s\<lparr>xsWorld := w\<rparr>))"

definition executeTransfer :: "'w account_io \<Rightarrow> transaction \<Rightarrow> 'w exec_state
    \<Rightarrow> (exec_result \<times> 'w exec_state) outcome" where
  "executeTransfer io tx s = (if length (txTo tx) = 0 then Done (exec_failure XNoRecipient, s)
     else let r = (case ioGet io (xsWorld s) (txTo tx) of None \<Rightarrow> new_exec_account (txTo tx) | Some r \<Rightarrow> r);
              b = (case xaBalance r of None \<Rightarrow> 0 | Some b \<Rightarrow> b)
       in bind_outcome (save io (txTo tx) (r\<lparr>xaBalance := Some (b + uint (txValue tx))\<rparr>) s) (\<lambda>(err, s).
          Done (if err then exec_failure XUpdateRecipient else exec_success, s)))"

subsection \<open>Running code\<close>

text \<open>The magic number of a WebAssembly module, as the code spells it.\<close>

definition is_wasm :: "bytes \<Rightarrow> bool" where
  "is_wasm code \<longleftrightarrow> 4 \<le> length code \<and> take 4 code = [0x00, 0x61, 0x73, 0x6d]"

definition exec_context :: "('w, 's, 'k) engine \<Rightarrow> transaction \<Rightarrow> nat \<Rightarrow> bytes \<Rightarrow> EVMContext" where
  "exec_context e tx height addr = \<lparr>cxCaller = sender_of e tx, cxAddress = addr,
     cxValue = Some (uint (txValue tx)), cxGasLimit = unat (txGasLimit tx),
     cxGasPrice = Some (uint (txGasPrice tx)), cxData = txData tx, cxBlockNum = height,
     cxTimestamp = egNow e, cxChainID = Some (uint (txChainID tx)), cxCoinbase = None,
     cxBlockGasLimit = 0, cxBaseFee = Some 0, cxPrevRandao = None, cxGetBlockHash = None\<rparr>"

datatype run_error = RunEvm evm_error | RunWasm

text \<open>Both machines on the adapter: output, gas, error and the adapter afterwards.\<close>

definition run_code :: "('w, 's, 'k) engine \<Rightarrow> 'w account_io \<Rightarrow> transaction \<Rightarrow> nat \<Rightarrow> bytes \<Rightarrow> bytes
    \<Rightarrow> 'w evm_adapter \<Rightarrow> (bytes \<times> nat \<times> run_error option \<times> 'w evm_adapter) outcome option" where
  "run_code e io tx height addr code ad =
     (if is_wasm code
      then Some (bind_outcome (egWasm e \<lparr>wxCaller = sender_of e tx, wxAddress = addr,
          wxValue = uint (txValue tx), wxGasLimit = unat (txGasLimit tx), wxData = txData tx\<rparr> code ad)
        (\<lambda>(out, gas, failed, ad). Done (out, gas, if failed then Some RunWasm else None, ad)))
      else map_option (\<lambda>r. bind_outcome r (\<lambda>(out, gas, er, ad). Done (out, gas, map_option RunEvm er, ad)))
        (Execute (egFuel e) (clKeccak (egLib e)) (adapterState io)
          (NewEVMExecutor (exec_context e tx height addr)) code ad))"

text \<open>A partial computation that may panic, followed by the rest of the engine.\<close>

definition then_run :: "'a outcome option \<Rightarrow> ('a \<Rightarrow> 'b outcome) \<Rightarrow> 'b outcome option" where
  "then_run r k = map_option (\<lambda>x. bind_outcome x k) r"

definition deploy_address :: "('w, 's, 'k) engine \<Rightarrow> transaction \<Rightarrow> bytes" where
  "deploy_address e tx = drop 12 (clKeccak (egLib e) (sender_of e tx @ be_u64 (txNonce tx)))"

definition executeDeploy :: "('w, 's, 'k) engine \<Rightarrow> 'w account_io \<Rightarrow> transaction \<Rightarrow> nat
    \<Rightarrow> 'w exec_state \<Rightarrow> (exec_result \<times> 'w exec_state) outcome option" where
  "executeDeploy e io tx height s = (if length (txData tx) = 0 then Some (Done (exec_failure XNoCode, s))
     else let addr = deploy_address e tx
       in then_run (run_code e io tx height addr (txData tx) (new_adapter (xsWorld s)))
         (\<lambda>(runtime, gasUsed, er, ad).
            let s = s\<lparr>xsWorld := adWorld ad\<rparr>;
                res = (exec_success\<lparr>erGasUsed := of_nat gasUsed, erLogs := adLogs ad\<rparr>)
            in case er of
                 Some er \<Rightarrow> Done (res\<lparr>erStatus := 0,
                   erErr := Some (case er of RunEvm er \<Rightarrow> XInit er | RunWasm \<Rightarrow> XWasm)\<rparr>, s)
               | None \<Rightarrow>
                   if adErr ad then Done (res\<lparr>erStatus := 0, erErr := Some XPersist\<rparr>, s)
                   else let code = (if length runtime = 0 then txData tx else runtime);
                            storage = (case ioGet io (xsWorld s) addr of None \<Rightarrow> [] | Some a \<Rightarrow> xaStorage a);
                            c = (new_exec_account addr)\<lparr>xaBalance := Some (uint (txValue tx)),
                                  xaCode := code, xaStorage := storage\<rparr>
                     in bind_outcome (save io addr c s) (\<lambda>(err, s).
                        Done (if err then (exec_failure XSaveContract)\<lparr>erLogs := adLogs ad\<rparr>
                              else res\<lparr>erOutput := addr\<rparr>, s))))"

subsection \<open>Precompiled contracts\<close>

definition addrShieldedDeposit :: bytes where "addrShieldedDeposit = replicate 19 0 @ [0xF1]"
definition addrShieldedWithdraw :: bytes where "addrShieldedWithdraw = replicate 19 0 @ [0xF2]"
definition addrZKVerify :: bytes where "addrZKVerify = replicate 19 0 @ [0xF3]"

definition isPrecompileAddress :: "bytes \<Rightarrow> bool" where
  "isPrecompileAddress addr \<longleftrightarrow> length addr = 20
     \<and> (addr = addrShieldedDeposit \<or> addr = addrShieldedWithdraw \<or> addr = addrZKVerify)"

definition precompileShieldedDeposit :: "('w, 's, 'k) engine \<Rightarrow> transaction \<Rightarrow> 'w exec_state
    \<Rightarrow> exec_result \<times> 'w exec_state" where
  "precompileShieldedDeposit e tx s = (case xsPool s of None \<Rightarrow> (exec_failure XNoPool, s)
     | Some sp \<Rightarrow> if length (txData tx) < 32 then (exec_failure XShortData, s)
       else (case CreateNote (clSha256 (egLib e)) (egCommit e) (txValue tx) (txFrom tx)
                (take 32 (txData tx)) sp of
           (Inl er, sp) \<Rightarrow> (exec_failure (XPool er), s\<lparr>xsPool := Some sp\<rparr>)
         | (Inr n, sp) \<Rightarrow> (exec_success\<lparr>erOutput := ntCommitment n @ ntNullifier n\<rparr>,
             s\<lparr>xsPool := Some sp\<rparr>)))"

text \<open>The credited account is the address of the precompiled contract, and a failed write is dropped.\<close>

definition precompileShieldedWithdraw :: "'w account_io \<Rightarrow> transaction \<Rightarrow> 'w exec_state
    \<Rightarrow> (exec_result \<times> 'w exec_state) outcome" where
  "precompileShieldedWithdraw io tx s = (case xsPool s of None \<Rightarrow> Done (exec_failure XNoPool, s)
     | Some sp \<Rightarrow> if length (txData tx) < 32 then Done (exec_failure XShortData, s)
       else (case SpendNote (take 32 (txData tx)) sp of
           (Inl er, sp) \<Rightarrow> Done (exec_failure (XPool er), s\<lparr>xsPool := Some sp\<rparr>)
         | (Inr v, sp) \<Rightarrow>
             let s = s\<lparr>xsPool := Some sp\<rparr>;
                 r = (case ioGet io (xsWorld s) (txTo tx) of None \<Rightarrow> new_exec_account (txTo tx) | Some r \<Rightarrow> r)
             in with_big (xaBalance r) (\<lambda>b.
                bind_outcome (save io (txTo tx) (r\<lparr>xaBalance := Some (b + uint (txValue tx))\<rparr>) s)
                  (\<lambda>(err, s). Done (exec_success, s)))))"

definition precompileZKVerify :: "('w, 's, 'k) engine \<Rightarrow> transaction \<Rightarrow> exec_result" where
  "precompileZKVerify e tx = (case egVerify e of None \<Rightarrow> exec_failure XNoVerifier
     | Some verify \<Rightarrow> (case verify (txData tx) of
           BadProofData \<Rightarrow> exec_failure XProofData
         | BadProof \<Rightarrow> exec_failure XProof
         | GoodProof \<Rightarrow> exec_success\<lparr>erOutput := [1]\<rparr>))"

text \<open>A call of a standard contract: its state is updated in the manager.\<close>

definition standard_result :: "('e \<Rightarrow> exec_error) \<Rightarrow> 'e call_result \<Rightarrow> exec_result outcome" where
  "standard_result f r = (case r of
       Output out \<Rightarrow> Done (exec_success\<lparr>erGasUsed := 1000, erOutput := out\<rparr>)
     | CallError er \<Rightarrow> Done ((exec_failure (f er))\<lparr>erGasUsed := 1000\<rparr>)
     | CallPanic \<Rightarrow> Panics)"

definition call_standard :: "bytes \<Rightarrow> bytes \<Rightarrow> standard \<Rightarrow> exec_result outcome \<times> standard" where
  "call_standard caller input sc = (case sc of
       Standard20 t \<Rightarrow> (case ExecuteCall t caller input of (t, r) \<Rightarrow> (standard_result XErc20 r, Standard20 t))
     | Standard721 n \<Rightarrow>
         (case nft_ExecuteCall n caller input of (n, r) \<Rightarrow> (standard_result XErc721 r, Standard721 n)))"

definition handlePrecompile :: "('w, 's, 'k) engine \<Rightarrow> 'w account_io \<Rightarrow> transaction \<Rightarrow> 'w exec_state
    \<Rightarrow> (exec_result \<times> 'w exec_state) outcome option" where
  "handlePrecompile e io tx s = (if length (txTo tx) \<noteq> 20 then None
     else if txTo tx = addrShieldedDeposit then Some (Done (precompileShieldedDeposit e tx s))
     else if txTo tx = addrShieldedWithdraw then Some (precompileShieldedWithdraw io tx s)
     else if txTo tx = addrZKVerify then Some (Done (precompileZKVerify e tx, s))
     else case xsContracts s of None \<Rightarrow> None
       | Some cm \<Rightarrow> (case GetStandardContract cm (txTo tx) of None \<Rightarrow> None
         | Some sc \<Rightarrow> (case call_standard (sender_of e tx) (txData tx) sc of (r, sc) \<Rightarrow>
             Some (bind_outcome r (\<lambda>r. Done (r, s\<lparr>xsContracts := Some
               (cm\<lparr>cmStandards := goput (txTo tx) sc (cmStandards cm)\<rparr>)\<rparr>))))))"

subsection \<open>Calls\<close>

definition executeCall :: "('w, 's, 'k) engine \<Rightarrow> 'w account_io \<Rightarrow> transaction \<Rightarrow> nat
    \<Rightarrow> 'w exec_state \<Rightarrow> (exec_result \<times> 'w exec_state) outcome option" where
  "executeCall e io tx height s = (case handlePrecompile e io tx s of
       Some r \<Rightarrow> Some r
     | None \<Rightarrow> (case ioGet io (xsWorld s) (txTo tx) of
         None \<Rightarrow> Some (Done (exec_failure XNoContract, s))
       | Some c \<Rightarrow>
           if length (xaCode c) = 0 then Some (Done (exec_failure XNoContract, s))
           else let credited = (if txValue tx = 0 then Done (False, s)
                  else save io (txTo tx) (c\<lparr>xaBalance := Some
                    ((case xaBalance c of None \<Rightarrow> 0 | Some b \<Rightarrow> b) + uint (txValue tx))\<rparr>) s)
             in (case credited of
                 Panics \<Rightarrow> Some Panics
               | Done (True, s) \<Rightarrow> Some (Done (exec_failure XCredit, s))
               | Done (False, s) \<Rightarrow>
                   then_run (run_code e io tx height (txTo tx) (xaCode c) (new_adapter (xsWorld s)))
                     (\<lambda>(out, gasUsed, er, ad).
                        let s = s\<lparr>xsWorld := adWorld ad\<rparr>;
                            res = exec_success\<lparr>erGasUsed := of_nat gasUsed, erLogs := adLogs ad\<rparr>
                        in Done (case er of
                             Some er \<Rightarrow> res\<lparr>erStatus := 0,
                               erErr := Some (case er of RunEvm er \<Rightarrow> XEvm er | RunWasm \<Rightarrow> XWasm)\<rparr>
                           | None \<Rightarrow> if adErr ad then res\<lparr>erStatus := 0, erErr := Some XPersist\<rparr>
                               else res\<lparr>erOutput := out\<rparr>, s)))))"

subsection \<open>Transactions\<close>

text \<open>The fee in the token, and the balance that has to cover it.\<close>

definition fee_in_token :: "('w, 's, 'k) engine \<Rightarrow> bytes \<Rightarrow> u64 \<Rightarrow> u64" where
  "fee_in_token e token fee = (case egOracle e of None \<Rightarrow> fee
     | Some conv \<Rightarrow> if 0 < conv token fee then conv token fee else fee)"

definition fee_contract :: "'w exec_state \<Rightarrow> bytes \<Rightarrow> erc20 option" where
  "fee_contract s token = (case xsContracts s of None \<Rightarrow> None | Some cm \<Rightarrow> GetERC20 cm token)"

definition token_funds :: "'w exec_state \<Rightarrow> bytes \<Rightarrow> bytes \<Rightarrow> int \<Rightarrow> int \<Rightarrow> int" where
  "token_funds s token senderAddr bal fee = (if fee \<le> bal then bal
     else case fee_contract s token of None \<Rightarrow> bal
       | Some t \<Rightarrow> if fee \<le> BalanceOf t senderAddr then BalanceOf t senderAddr else bal)"

text \<open>The checks in front of the nonce: the fee to deduct, or the error.\<close>

definition check_funds :: "('w, 's, 'k) engine \<Rightarrow> transaction \<Rightarrow> bytes \<Rightarrow> exec_account \<Rightarrow> 'w exec_state
    \<Rightarrow> (exec_error + int) outcome" where
  "check_funds e tx senderAddr acct s =
     (let fee = txGasLimit tx * txGasPrice tx
      in case FeeToken tx of
           None \<Rightarrow> with_big (xaBalance acct) (\<lambda>b.
             Done (if b < uint (txValue tx) + uint fee then Inl XNativeBalance else Inr (uint fee)))
         | Some token \<Rightarrow> with_big (xaBalance acct) (\<lambda>b.
             if b < uint (txValue tx) then Done (Inl XValueBalance)
             else with_big (ex_GetTokenBalance token acct) (\<lambda>tb.
               let f = uint (fee_in_token e token fee)
               in Done (if token_funds s token senderAddr tb f < f then Inl XTokenBalance else Inr f))))"

text \<open>
  The deduction of the fee; a token fee that the account does not cover is taken from the ERC-20
  contract, and an error of that transfer is dropped.
\<close>

definition deduct_fee :: "transaction \<Rightarrow> bytes \<Rightarrow> int \<Rightarrow> exec_account \<Rightarrow> 'w exec_state
    \<Rightarrow> (exec_account \<times> 'w exec_state) outcome" where
  "deduct_fee tx senderAddr fee acct s = (case FeeToken tx of
       None \<Rightarrow> bind_outcome (ex_DeductTokenBalance [] fee acct) (\<lambda>a. Done (a, s))
     | Some token \<Rightarrow> with_big (ex_GetTokenBalance token acct) (\<lambda>tb.
         if fee \<le> tb then bind_outcome (ex_DeductTokenBalance token fee acct) (\<lambda>a. Done (a, s))
         else case xsContracts s of None \<Rightarrow> Done (acct, s)
           | Some cm \<Rightarrow> (case GetERC20 cm token of None \<Rightarrow> Done (acct, s)
             | Some t \<Rightarrow> Done (acct, s\<lparr>xsContracts := Some (cm\<lparr>cmStandards := goput token
                 (Standard20 (fst (TransferFromAccount t senderAddr [] fee))) (cmStandards cm)\<rparr>)\<rparr>))))"

text \<open>The refund of the gas that was not used, to a copy of the account that is read again.\<close>

definition refund :: "('w, 's, 'k) engine \<Rightarrow> 'w account_io \<Rightarrow> transaction \<Rightarrow> exec_result \<Rightarrow> 'w exec_state
    \<Rightarrow> (exec_result \<times> 'w exec_state) outcome" where
  "refund e io tx r s =
     (let native = (txGasLimit tx - erGasUsed r) * txGasPrice tx; addr = sender_of e tx
      in if native = 0 then Done (r, s)
         else case ioGet io (xsWorld s) addr of
           None \<Rightarrow> Done (r, s)
         | Some a \<Rightarrow>
             let amount = (case FeeToken tx of None \<Rightarrow> native | Some token \<Rightarrow> fee_in_token e token native);
                 token = (case FeeToken tx of None \<Rightarrow> [] | Some token \<Rightarrow> token)
             in bind_outcome (ex_AddTokenBalance token (uint amount) a) (\<lambda>a.
                bind_outcome (save io addr a s) (\<lambda>(err, s). Done (r\<lparr>erGasRefund := amount\<rparr>, s))))"

definition finish :: "('w, 's, 'k) engine \<Rightarrow> 'w account_io \<Rightarrow> transaction \<Rightarrow> u64 \<Rightarrow> exec_result
    \<Rightarrow> 'w exec_state \<Rightarrow> (exec_result \<times> 'w exec_state) outcome" where
  "finish e io tx gasCost r s =
     (let used = (if erGasUsed r = 0 then r\<lparr>erGasUsed := gasCost\<rparr> else r)
      in if erErr r \<noteq> None then Done (used, s) else refund e io tx (used\<lparr>erStatus := 1\<rparr>) s)"

definition ExecuteTransaction :: "('w, 's, 'k) engine \<Rightarrow> 'w account_io \<Rightarrow> transaction \<Rightarrow> nat
    \<Rightarrow> 'w exec_state \<Rightarrow> (exec_result \<times> 'w exec_state) outcome option" where
  "ExecuteTransaction e io tx height s =
     (let addr = sender_of e tx; reject = (\<lambda>er. Some (Done (exec_failure er, s)))
      in case Verify (egLib e) tx of
           Panics \<Rightarrow> Some Panics
         | Done False \<Rightarrow> reject XInvalidSignature
         | Done True \<Rightarrow> (case ioGet io (xsWorld s) addr of
             None \<Rightarrow> reject XNoSender
           | Some acct \<Rightarrow>
               let ty = ClassifyTransaction tx; gasCost = calculateGasCost e ty tx
               in if txGasLimit tx < gasCost then reject XGasLimit
                  else case check_funds e tx addr acct s of
                    Panics \<Rightarrow> Some Panics
                  | Done (Inl er) \<Rightarrow> reject er
                  | Done (Inr fee) \<Rightarrow>
                      if txNonce tx \<noteq> xaNonce acct then reject XNonce
                      else let acct = acct\<lparr>xaNonce := txNonce tx + 1,
                             xaBalance := map_option (\<lambda>b. b - uint (txValue tx)) (xaBalance acct)\<rparr>
                        in (case bind_outcome (deduct_fee tx addr fee acct s)
                               (\<lambda>(acct, s). save io addr acct s) of
                            Panics \<Rightarrow> Some Panics
                          | Done (True, s) \<Rightarrow> Some (Done (exec_failure XUpdateSender, s))
                          | Done (False, s) \<Rightarrow>
                              then_run (case ty of
                                  TxTransfer \<Rightarrow> Some (executeTransfer io tx s)
                                | TxContractDeploy \<Rightarrow> executeDeploy e io tx height s
                                | TxContractCall \<Rightarrow> executeCall e io tx height s)
                                (\<lambda>(r, s). finish e io tx gasCost r s))))"

subsection \<open>Blocks\<close>

text \<open>The sequential execution of a block: results in order and the sum of the gas used.\<close>

fun ExecuteBlock :: "('w, 's, 'k) engine \<Rightarrow> 'w account_io \<Rightarrow> transaction list \<Rightarrow> nat
    \<Rightarrow> 'w exec_state \<Rightarrow> (exec_result list \<times> u64 \<times> 'w exec_state) outcome option" where
  "ExecuteBlock e io [] height s = Some (Done ([], 0, s))"
| "ExecuteBlock e io (tx # txs) height s = (case ExecuteTransaction e io tx height s of
       None \<Rightarrow> None
     | Some Panics \<Rightarrow> Some Panics
     | Some (Done (r, s)) \<Rightarrow> then_run (ExecuteBlock e io txs height s)
         (\<lambda>(rs, total, s). Done (r # rs, erGasUsed r + total, s)))"

end
