(* ===== verification/Exec_Ledger.thy ===== *)
theory Exec_Ledger
  imports Exec_Engine
begin

text \<open>
  What the engine does to the ledger. \<open>ledger_io\<close> is the contract of the two closures: every account
  has a balance and a nonce, and writing an account changes the balance, the nonce and the total of that
  account only. The closures of the block producer over the state manager keep it. On such closures the
  execution of a transfer has an exact result, refusals change nothing, and a block of transfers burns
  what it charges and creates nothing, as long as no fee overflows.
\<close>

subsection \<open>Transfers with a native fee\<close>

text \<open>A transfer that pays its fee in the native coin; its signature check does not panic.\<close>

definition plain_transfer :: "('w, 's, 'k) engine \<Rightarrow> transaction \<Rightarrow> bool" where
  "plain_transfer e tx \<longleftrightarrow> Verify (egLib e) tx \<noteq> Panics \<and> ClassifyTransaction tx = TxTransfer
     \<and> FeeToken tx = None \<and> txTo tx \<noteq> []"

text \<open>
  The fee \<open>gasLimit * gasPrice\<close> is computed in 64 bits. What is said of balances needs that it fits;
  \<open>fee_overflow_mints\<close> below shows what happens when it does not.
\<close>

definition fee_fits :: "transaction \<Rightarrow> bool" where
  "fee_fits tx \<longleftrightarrow> uint (txGasLimit tx) * uint (txGasPrice tx) < 2 ^ 64"

definition fitting_transfer :: "('w, 's, 'k) engine \<Rightarrow> transaction \<Rightarrow> bool" where
  "fitting_transfer e tx \<longleftrightarrow> plain_transfer e tx \<and> fee_fits tx"

lemmas fitting_defs = fitting_transfer_def plain_transfer_def fee_fits_def

definition standard_gas :: "('w, 's, 'k) engine \<Rightarrow> bool" where
  "standard_gas e \<longleftrightarrow> egBaseGas e = 21000 \<and> egTransferGas e = 5000"

text \<open>The gas of a transfer: its limit when that is between the base price and the full price.\<close>

definition transfer_gas :: "transaction \<Rightarrow> u64" where
  "transfer_gas tx = (if 21000 \<le> txGasLimit tx \<and> txGasLimit tx < 26000 then txGasLimit tx else 26000)"

definition gas_paid :: "transaction \<Rightarrow> exec_result \<Rightarrow> int" where
  "gas_paid tx r = uint (erGasUsed r) * uint (txGasPrice tx)"

text \<open>The accepted transactions of a sender, in the order of the block.\<close>

definition accepted_of :: "('w, 's, 'k) engine \<Rightarrow> bytes \<Rightarrow> transaction list \<Rightarrow> exec_result list \<Rightarrow> transaction list" where
  "accepted_of e x txs rs = map fst (filter (\<lambda>(tx, r). erStatus r = 1 \<and> sender_of e tx = x) (zip txs rs))"

lemma transfer_no_data: "ClassifyTransaction tx = TxTransfer \<Longrightarrow> txTo tx \<noteq> [] \<Longrightarrow> txData tx = []"
  by (auto simp: ClassifyTransaction_def split: if_splits)

lemma calculate_transfer_gas:
  "standard_gas e \<Longrightarrow> txData tx = [] \<Longrightarrow> calculateGasCost e TxTransfer tx = transfer_gas tx"
  by (simp add: calculateGasCost_def standard_gas_def transfer_gas_def)

lemma transfer_gas_nonzero [simp]: "transfer_gas tx \<noteq> 0"
  by (auto simp: transfer_gas_def)

lemma fee_exact:
  fixes a b :: u64
  assumes "uint a * uint b < 2 ^ 64"
  shows "uint (a * b) = uint a * uint b"
  using assms iffD1 [OF uint_mult_lem, of a b] by simp

text \<open>The refund gives back exactly the part of the fee that the gas used does not account for.\<close>

lemma refund_exact:
  fixes l p g :: u64
  assumes "uint l * uint p < 2 ^ 64" "g \<le> l"
  shows "uint ((l - g) * p) = uint l * uint p - uint g * uint p"
proof -
  have sub: "uint (l - g) = uint l - uint g" using assms(2) by (simp add: uint_sub_lem word_le_def)
  have "uint (l - g) * uint p \<le> uint l * uint p" by (rule mult_right_mono) (simp_all add: sub)
  with assms(1) have "uint ((l - g) * p) = uint (l - g) * uint p" by (intro fee_exact) linarith
  then show ?thesis by (simp add: sub left_diff_distrib)
qed

locale ledger_io =
  fixes io :: "'w account_io" and W :: "'w \<Rightarrow> bool" and bal :: "'w \<Rightarrow> bytes \<Rightarrow> int"
    and non :: "'w \<Rightarrow> bytes \<Rightarrow> u64" and total :: "'w \<Rightarrow> int"
  assumes get: "W w \<Longrightarrow> \<exists>a. ioGet io w x = Some a \<and> xaBalance a = Some (bal w x) \<and> xaNonce a = non w x"
    and put: "W w \<Longrightarrow> xaBalance a = Some b \<Longrightarrow> \<exists>w'. ioSet io w x a = Done (False, w') \<and> W w'
      \<and> bal w' = (bal w)(x := b) \<and> non w' = (non w)(x := xaNonce a) \<and> total w' = total w - bal w x + b"
begin

lemma get_account:
  assumes "W w"
  obtains a where "ioGet io w x = Some a" "xaBalance a = Some (bal w x)" "xaNonce a = non w x"
  using get [OF assms] by blast

lemma save_account:
  assumes "W (xsWorld s)" "xaBalance a = Some b"
  obtains w where "save io x a s = Done (False, s\<lparr>xsWorld := w\<rparr>)" "W w" "bal w = (bal (xsWorld s))(x := b)"
    "non w = (non (xsWorld s))(x := xaNonce a)" "total w = total (xsWorld s) - bal (xsWorld s) x + b"
  using put [OF assms, of x] by (auto simp: save_def)

lemma transfer_runs:
  assumes "W (xsWorld s)" "txTo tx \<noteq> []"
  obtains w where "executeTransfer io tx s = Done (exec_success, s\<lparr>xsWorld := w\<rparr>)" "W w"
    "bal w = (bal (xsWorld s))(txTo tx := bal (xsWorld s) (txTo tx) + uint (txValue tx))"
    "non w = non (xsWorld s)" "total w = total (xsWorld s) + uint (txValue tx)"
proof -
  obtain a where a: "ioGet io (xsWorld s) (txTo tx) = Some a" "xaBalance a = Some (bal (xsWorld s) (txTo tx))"
    "xaNonce a = non (xsWorld s) (txTo tx)" using get_account [OF assms(1)] .
  let ?a = "a\<lparr>xaBalance := Some (bal (xsWorld s) (txTo tx) + uint (txValue tx))\<rparr>"
  obtain w where "save io (txTo tx) ?a s = Done (False, s\<lparr>xsWorld := w\<rparr>)" "W w"
    "bal w = (bal (xsWorld s))(txTo tx := bal (xsWorld s) (txTo tx) + uint (txValue tx))"
    "non w = (non (xsWorld s))(txTo tx := xaNonce ?a)"
    "total w = total (xsWorld s) - bal (xsWorld s) (txTo tx) + (bal (xsWorld s) (txTo tx) + uint (txValue tx))"
    using save_account [OF assms(1), of ?a "bal (xsWorld s) (txTo tx) + uint (txValue tx)" "txTo tx"] by auto
  with a assms(2) show thesis by (intro that [of w]) (simp_all add: executeTransfer_def)
qed

lemma refund_native:
  assumes "W (xsWorld s)" "FeeToken tx = None"
  obtains w r' where "refund e io tx r s = Done (r', s\<lparr>xsWorld := w\<rparr>)" "W w"
    "erStatus r' = erStatus r" "erErr r' = erErr r" "erGasUsed r' = erGasUsed r"
    "bal w = (bal (xsWorld s))(sender_of e tx := bal (xsWorld s) (sender_of e tx)
      + uint ((txGasLimit tx - erGasUsed r) * txGasPrice tx))"
    "non w = non (xsWorld s)" "total w = total (xsWorld s) + uint ((txGasLimit tx - erGasUsed r) * txGasPrice tx)"
proof -
  let ?n = "(txGasLimit tx - erGasUsed r) * txGasPrice tx" and ?x = "sender_of e tx"
  obtain a where a: "ioGet io (xsWorld s) ?x = Some a" "xaBalance a = Some (bal (xsWorld s) ?x)"
    "xaNonce a = non (xsWorld s) ?x" using get_account [OF assms(1)] .
  let ?a = "a\<lparr>xaBalance := Some (bal (xsWorld s) ?x + uint ?n)\<rparr>"
  obtain w where w: "save io ?x ?a s = Done (False, s\<lparr>xsWorld := w\<rparr>)" "W w"
    "bal w = (bal (xsWorld s))(?x := bal (xsWorld s) ?x + uint ?n)"
    "non w = (non (xsWorld s))(?x := xaNonce ?a)"
    "total w = total (xsWorld s) - bal (xsWorld s) ?x + (bal (xsWorld s) ?x + uint ?n)"
    using save_account [OF assms(1), of ?a "bal (xsWorld s) ?x + uint ?n" ?x] by auto
  show thesis
  proof (cases "?n = 0")
    case True
    then show ?thesis using assms by (intro that [of r "xsWorld s"]) (simp_all add: refund_def Let_def)
  next
    case False
    then show ?thesis using w a assms(2)
      by (intro that [of "r\<lparr>erGasRefund := ?n\<rparr>" w])
        (simp_all add: refund_def Let_def ex_AddTokenBalance_def)
  qed
qed

text \<open>What an accepted transfer with a native fee does, whatever its numbers.\<close>

lemma native_transfer:
  fixes e :: "('w, 's, 'k) engine" and tx :: transaction and s :: "'w exec_state"
  defines "x \<equiv> sender_of e tx" and "w \<equiv> xsWorld s"
    and "g \<equiv> calculateGasCost e TxTransfer tx"
  assumes "W (xsWorld s)" "Verify (egLib e) tx = Done True" "ClassifyTransaction tx = TxTransfer"
    "FeeToken tx = None" "g \<le> txGasLimit tx" "g \<noteq> 0" "txNonce tx = non (xsWorld s) x"
    "uint (txValue tx) + uint (txGasLimit tx * txGasPrice tx) \<le> bal (xsWorld s) x"
    "txTo tx \<noteq> []"
  obtains r w' where "ExecuteTransaction e io tx h s = Some (Done (r, s\<lparr>xsWorld := w'\<rparr>))" "W w'"
    "erStatus r = 1" "erErr r = None" "erGasUsed r = g"
    "bal w' = (\<lambda>y. bal w y - (if y = x then uint (txValue tx) + uint (txGasLimit tx * txGasPrice tx)
        - uint ((txGasLimit tx - g) * txGasPrice tx) else 0) + (if y = txTo tx then uint (txValue tx) else 0))"
    "non w' = (non w)(x := txNonce tx + 1)"
    "total w' = total w - uint (txGasLimit tx * txGasPrice tx) + uint ((txGasLimit tx - g) * txGasPrice tx)"
proof -
  let ?fee = "uint (txGasLimit tx * txGasPrice tx)" and ?v = "uint (txValue tx)"
  have Ww: "W w" using assms(4) by (simp add: w_def)
  obtain a where a: "ioGet io w x = Some a" "xaBalance a = Some (bal w x)" "xaNonce a = non w x"
    using get_account [OF Ww] .
  let ?a = "a\<lparr>xaNonce := txNonce tx + 1, xaBalance := Some (bal w x - ?v - ?fee)\<rparr>"
  obtain w1 where w1: "save io x ?a s = Done (False, s\<lparr>xsWorld := w1\<rparr>)" "W w1"
    "bal w1 = (bal w)(x := bal w x - ?v - ?fee)" "non w1 = (non w)(x := txNonce tx + 1)"
    "total w1 = total w - bal w x + (bal w x - ?v - ?fee)"
    using save_account [OF assms(4), of ?a "bal w x - ?v - ?fee" x] by (auto simp: w_def)
  obtain w2 where w2: "executeTransfer io tx (s\<lparr>xsWorld := w1\<rparr>) = Done (exec_success, s\<lparr>xsWorld := w2\<rparr>)" "W w2"
    "bal w2 = (bal w1)(txTo tx := bal w1 (txTo tx) + ?v)" "non w2 = non w1" "total w2 = total w1 + ?v"
    using transfer_runs [of "s\<lparr>xsWorld := w1\<rparr>" tx] w1(2) assms(12) by auto
  let ?r = "exec_success\<lparr>erGasUsed := g, erStatus := 1\<rparr>"
  obtain w3 r where w3: "refund e io tx ?r (s\<lparr>xsWorld := w2\<rparr>) = Done (r, s\<lparr>xsWorld := w3\<rparr>)" "W w3"
    "erStatus r = 1" "erErr r = None" "erGasUsed r = g"
    "bal w3 = (bal w2)(x := bal w2 x + uint ((txGasLimit tx - g) * txGasPrice tx))"
    "non w3 = non w2" "total w3 = total w2 + uint ((txGasLimit tx - g) * txGasPrice tx)"
    using refund_native [of "s\<lparr>xsWorld := w2\<rparr>" tx e ?r] w2(2) assms(7)
    by (simp add: x_def exec_success_def) metis
  have funds: "check_funds e tx x a s = Done (Inr ?fee)"
    using a(2) assms(7,11) by (simp add: check_funds_def Let_def w_def)
  have ded: "deduct_fee tx x ?fee (a\<lparr>xaNonce := txNonce tx + 1, xaBalance := Some (bal w x - ?v)\<rparr>) s
      = Done (?a, s)"
    using assms(7) by (simp add: deduct_fee_def ex_DeductTokenBalance_def)
  have fin: "finish e io tx g exec_success (s\<lparr>xsWorld := w2\<rparr>) = Done (r, s\<lparr>xsWorld := w3\<rparr>)"
    using w3(1) assms(9) by (simp add: finish_def exec_success_def)
  have "ExecuteTransaction e io tx h s = Some (Done (r, s\<lparr>xsWorld := w3\<rparr>))"
    using assms(5,6,8,10) a funds ded w1(1) w2(1) fin
    by (simp add: ExecuteTransaction_def Let_def x_def [symmetric] g_def [symmetric] w_def [symmetric] then_run_def)
  moreover have "bal w3 y = bal w y - (if y = x then ?v + ?fee - uint ((txGasLimit tx - g) * txGasPrice tx) else 0)
      + (if y = txTo tx then ?v else 0)" for y
    by (auto simp: w3(6) w2(3) w1(3))
  moreover have "non w3 = (non w)(x := txNonce tx + 1)" by (simp add: w3(7) w2(4) w1(4))
  moreover have "total w3 = total w - ?fee + uint ((txGasLimit tx - g) * txGasPrice tx)"
    by (simp add: w3(8) w2(5) w1(5))
  ultimately show thesis using w3 by (intro that [of r w3]) auto
qed

text \<open>A plain transfer is refused and changes nothing, or it is carried out exactly.\<close>

definition carried_out ::
    "('w, 's, 'k) engine \<Rightarrow> transaction \<Rightarrow> 'w \<Rightarrow> exec_result \<Rightarrow> 'w \<Rightarrow> bool" where
  "carried_out e tx w r w' \<longleftrightarrow> erStatus r = 1 \<and> erErr r = None \<and> erGasUsed r = transfer_gas tx
     \<and> transfer_gas tx \<le> txGasLimit tx \<and> txNonce tx = non w (sender_of e tx)
     \<and> uint (txValue tx) + uint (txGasLimit tx) * uint (txGasPrice tx) \<le> bal w (sender_of e tx)
     \<and> bal w' = (\<lambda>y. bal w y - (if y = sender_of e tx then uint (txValue tx) + gas_paid tx r else 0)
         + (if y = txTo tx then uint (txValue tx) else 0))
     \<and> non w' = (non w)(sender_of e tx := txNonce tx + 1) \<and> total w' = total w - gas_paid tx r"

definition admitted :: "('w, 's, 'k) engine \<Rightarrow> transaction \<Rightarrow> 'w \<Rightarrow> bool" where
  "admitted e tx w \<longleftrightarrow> transfer_gas tx \<le> txGasLimit tx
     \<and> uint (txValue tx) + uint (txGasLimit tx) * uint (txGasPrice tx) \<le> bal w (sender_of e tx)
     \<and> txNonce tx = non w (sender_of e tx)"

lemma fitting_transfer_carried:
  assumes "W (xsWorld s)" "standard_gas e" "fitting_transfer e tx" "Verify (egLib e) tx = Done True"
    "admitted e tx (xsWorld s)"
  obtains r w' where "ExecuteTransaction e io tx h s = Some (Done (r, s\<lparr>xsWorld := w'\<rparr>))" "W w'"
    "carried_out e tx (xsWorld s) r w'"
proof -
  let ?x = "sender_of e tx" and ?g = "transfer_gas tx"
  have tx: "ClassifyTransaction tx = TxTransfer" "FeeToken tx = None" "txTo tx \<noteq> []"
    and fits: "uint (txGasLimit tx) * uint (txGasPrice tx) < 2 ^ 64"
    using assms(3) by (simp_all add: fitting_defs)
  have fee: "uint (txGasLimit tx * txGasPrice tx) = uint (txGasLimit tx) * uint (txGasPrice tx)"
    using fits by (rule fee_exact)
  have g: "calculateGasCost e TxTransfer tx = ?g"
    using calculate_transfer_gas [OF assms(2)] transfer_no_data tx(1,3) by blast
  note facts = tx fee assms(1,4) assms(5) [unfolded admitted_def]
  show thesis
  proof (rule native_transfer [of s e tx h], (simp add: g facts; fail)+)
    fix r w'
    assume "ExecuteTransaction e io tx h s = Some (Done (r, s\<lparr>xsWorld := w'\<rparr>))" "W w'" and
      "erStatus r = 1" "erErr r = None" "erGasUsed r = calculateGasCost e TxTransfer tx"
      "bal w' = (\<lambda>y. bal (xsWorld s) y - (if y = ?x then uint (txValue tx)
          + uint (txGasLimit tx * txGasPrice tx)
          - uint ((txGasLimit tx - calculateGasCost e TxTransfer tx) * txGasPrice tx) else 0)
        + (if y = txTo tx then uint (txValue tx) else 0))"
      "non w' = (non (xsWorld s))(?x := txNonce tx + 1)"
      "total w' = total (xsWorld s) - uint (txGasLimit tx * txGasPrice tx)
        + uint ((txGasLimit tx - calculateGasCost e TxTransfer tx) * txGasPrice tx)"
    then show thesis using assms(5) refund_exact [OF fits, of ?g]
      by (intro that [of r w']) (simp_all add: carried_out_def admitted_def gas_paid_def g fee fun_eq_iff)
  qed
qed

lemma fitting_transfer_runs:
  assumes "W (xsWorld s)" "standard_gas e" "fitting_transfer e tx"
  obtains er where "ExecuteTransaction e io tx h s = Some (Done (exec_failure er, s))"
  | r w' where "ExecuteTransaction e io tx h s = Some (Done (r, s\<lparr>xsWorld := w'\<rparr>))" "W w'"
    "carried_out e tx (xsWorld s) r w'"
proof -
  let ?x = "sender_of e tx" and ?g = "transfer_gas tx"
  have tx: "ClassifyTransaction tx = TxTransfer" "FeeToken tx = None" "txTo tx \<noteq> []"
    "Verify (egLib e) tx \<noteq> Panics" and fits: "uint (txGasLimit tx) * uint (txGasPrice tx) < 2 ^ 64"
    using assms(3) by (simp_all add: fitting_defs)
  have g: "calculateGasCost e TxTransfer tx = ?g"
    using calculate_transfer_gas [OF assms(2)] transfer_no_data tx(1,3) by blast
  obtain a where a: "ioGet io (xsWorld s) ?x = Some a" "xaBalance a = Some (bal (xsWorld s) ?x)"
    "xaNonce a = non (xsWorld s) ?x" using get_account [OF assms(1)] .
  consider "Verify (egLib e) tx = Done False" | "Verify (egLib e) tx = Done True" "admitted e tx (xsWorld s)"
    | "Verify (egLib e) tx = Done True" "\<not> admitted e tx (xsWorld s)"
    using tx(4) by (cases "Verify (egLib e) tx") auto
  then show thesis
  proof cases
    case 1
    then show ?thesis by (intro that(1)) (simp add: ExecuteTransaction_def)
  next
    case 2
    then show ?thesis using fitting_transfer_carried [OF assms] that(2) by blast
  next
    case 3
    then consider "txGasLimit tx < ?g"
      | "\<not> txGasLimit tx < ?g" "bal (xsWorld s) ?x < uint (txValue tx) + uint (txGasLimit tx * txGasPrice tx)"
      | "\<not> txGasLimit tx < ?g" "\<not> bal (xsWorld s) ?x < uint (txValue tx) + uint (txGasLimit tx * txGasPrice tx)"
        "txNonce tx \<noteq> non (xsWorld s) ?x"
      unfolding admitted_def fee_exact [OF fits, symmetric] by (meson not_le)
    then show ?thesis
      by cases (rule that(1), use 3(1) a tx g in \<open>force simp: ExecuteTransaction_def Let_def check_funds_def\<close>)+
  qed
qed

text \<open>A block of plain transfers.\<close>

lemma block_runs:
  assumes "W (xsWorld s)" "standard_gas e" "list_all (fitting_transfer e) txs"
  shows "\<exists>rs used w'. ExecuteBlock e io txs h s = Some (Done (rs, used, s\<lparr>xsWorld := w'\<rparr>))
    \<and> W w' \<and> length rs = length txs
    \<and> total w' = total (xsWorld s) - (\<Sum>(tx, r)\<leftarrow>zip txs rs. gas_paid tx r)
    \<and> ((\<forall>y. 0 \<le> bal (xsWorld s) y) \<longrightarrow> (\<forall>y. 0 \<le> bal w' y))
    \<and> (\<forall>x. map txNonce (accepted_of e x txs rs)
        = map (\<lambda>i. non (xsWorld s) x + of_nat i) [0..<length (accepted_of e x txs rs)]
      \<and> non w' x = non (xsWorld s) x + of_nat (length (accepted_of e x txs rs)))"
  using assms
proof (induction txs arbitrary: s)
  case Nil
  then show ?case by (auto simp: accepted_of_def intro!: exI [of _ "xsWorld s"])
next
  case (Cons tx txs)
  then have plain: "fitting_transfer e tx" and rest: "list_all (fitting_transfer e) txs" by simp_all
  from Cons.prems(1,2) plain show ?case
  proof (cases rule: fitting_transfer_runs [where h = h])
    case (1 er)
    from Cons.IH [OF Cons.prems(1,2) rest] obtain rs used w' where
      "ExecuteBlock e io txs h s = Some (Done (rs, used, s\<lparr>xsWorld := w'\<rparr>))" "W w'" "length rs = length txs"
      "total w' = total (xsWorld s) - (\<Sum>(tx, r)\<leftarrow>zip txs rs. gas_paid tx r)"
      "(\<forall>y. 0 \<le> bal (xsWorld s) y) \<longrightarrow> (\<forall>y. 0 \<le> bal w' y)"
      "\<forall>x. map txNonce (accepted_of e x txs rs)
        = map (\<lambda>i. non (xsWorld s) x + of_nat i) [0..<length (accepted_of e x txs rs)]
      \<and> non w' x = non (xsWorld s) x + of_nat (length (accepted_of e x txs rs))" by blast
    with 1 show ?thesis
      by (intro exI [of _ "exec_failure er # rs"] exI [of _ used] exI [of _ w'])
        (simp add: then_run_def accepted_of_def gas_paid_def exec_failure_def)
  next
    case (2 r w1)
    let ?x = "sender_of e tx"
    from Cons.IH [of "s\<lparr>xsWorld := w1\<rparr>"] 2(2) Cons.prems(2) rest obtain rs used w' where IH:
      "ExecuteBlock e io txs h (s\<lparr>xsWorld := w1\<rparr>) = Some (Done (rs, used, s\<lparr>xsWorld := w'\<rparr>))" "W w'"
      "length rs = length txs" "total w' = total w1 - (\<Sum>(tx, r)\<leftarrow>zip txs rs. gas_paid tx r)"
      "(\<forall>y. 0 \<le> bal w1 y) \<longrightarrow> (\<forall>y. 0 \<le> bal w' y)"
      "\<forall>x. map txNonce (accepted_of e x txs rs)
        = map (\<lambda>i. non w1 x + of_nat i) [0..<length (accepted_of e x txs rs)]
      \<and> non w' x = non w1 x + of_nat (length (accepted_of e x txs rs))" by auto
    note r = 2(3) [unfolded carried_out_def]
    have "gas_paid tx r \<le> uint (txGasLimit tx) * uint (txGasPrice tx)"
      using r by (auto simp: gas_paid_def word_le_def intro: mult_right_mono)
    then have "0 \<le> bal w1 y" if "\<forall>y. 0 \<le> bal (xsWorld s) y" for y
      using r that [rule_format, of y] by auto
    moreover have "accepted_of e x (tx # txs) (r # rs) = (if x = ?x then [tx] else []) @ accepted_of e x txs rs" for x
      using r by (auto simp: accepted_of_def)
    moreover have "non w1 x = non (xsWorld s) x + (if x = ?x then 1 else 0)" for x using r by simp
    moreover have "map (\<lambda>i. c + 1 + of_nat i) [0..<n] = map (\<lambda>i. c + of_nat i) [Suc 0..<Suc n]" for c :: u64 and n
      by (simp add: map_Suc_upt [symmetric] del: upt_Suc)
    ultimately show ?thesis using 2(1) IH r
      by (intro exI [of _ "r # rs"] exI [of _ "erGasUsed r + used"] exI [of _ w'])
        (auto simp: then_run_def upt_conv_Cons simp del: upt_Suc)
  qed
qed

end

subsection \<open>The closures of the block producer\<close>

definition nonce_at :: "store \<Rightarrow> bytes \<Rightarrow> u64" where
  "nonce_at db x = (case as_GetAccount x db of Inl _ \<Rightarrow> 0 | Inr a \<Rightarrow> acNonce a)"

interpretation producer: ledger_io producer_io "\<lambda>sm. table_ok (sm_db sm)" "\<lambda>sm. balance_at (sm_db sm)"
  "\<lambda>sm. nonce_at (sm_db sm)" "\<lambda>sm. State_Commit.holdings (sm_db sm)"
proof
  fix sm x
  show "\<exists>a. ioGet producer_io sm x = Some a \<and> xaBalance a = Some (balance_at (sm_db sm) x)
      \<and> xaNonce a = nonce_at (sm_db sm) x"
    by (auto simp: producer_io_def bp_getAccount_def GetAccount_def account_result_def stateToExecAccount_def
        new_exec_account_def balance_at_def nonce_at_def split: sum.split)
next
  fix sm x and a :: exec_account and b
  assume table: "table_ok (sm_db sm)" and b: "xaBalance a = Some b"
  define old where "old = (case GetAccount x sm of Inl _ \<Rightarrow> NewAccount x AccountTypeNormal | Inr a \<Rightarrow> a)"
  have "acAddress old = x"
    by (cases "as_GetAccount x (sm_db sm)")
      (simp_all add: old_def GetAccount_def account_result_def NewAccount_def loaded_address [OF table])
  moreover obtain c where c: "execToStateAccount a old = Done c" "acAddress c = acAddress old"
    "acBalance c = b" "acNonce c = xaNonce a" using b by (simp add: execToStateAccount_def Let_def)
  ultimately show "\<exists>sm'. ioSet producer_io sm x a = Done (False, sm') \<and> table_ok (sm_db sm')
      \<and> balance_at (sm_db sm') = (balance_at (sm_db sm))(x := b)
      \<and> nonce_at (sm_db sm') = (nonce_at (sm_db sm))(x := xaNonce a)
      \<and> State_Commit.holdings (sm_db sm') = State_Commit.holdings (sm_db sm) - balance_at (sm_db sm) x + b"
    using table by (auto simp: producer_io_def bp_setAccount_def old_def [symmetric] SetAccount_def
        table_set State_Commit.holdings_set balance_at_def nonce_at_def get_set_account fun_eq_iff)
qed

subsection \<open>Properties\<close>

text \<open>
  C17 (transfer_exact): over the accounts of the state manager a plain transfer whose signature, gas limit,
  balance and nonce are right, and whose fee \<open>gasLimit * gasPrice\<close> fits 64 bits, is carried out: the recipient gains exactly the value, the sender loses
  the value and the price of the gas used, its nonce advances by one, every other account keeps its
  balance and nonce, and the sum of all balances falls by exactly the price of the gas.
\<close>

theorem transfer_exact:
  fixes e :: "(state_manager, 's, 'k) engine" and s :: "state_manager exec_state" and tx :: transaction
  defines "x \<equiv> sender_of e tx" and "db \<equiv> sm_db (xsWorld s)"
  assumes "table_ok (sm_db (xsWorld s))" "standard_gas e" "plain_transfer e tx" "fee_fits tx"
    and "Verify (egLib e) tx = Done True" "transfer_gas tx \<le> txGasLimit tx"
    and "txNonce tx = nonce_at (sm_db (xsWorld s)) (sender_of e tx)"
    and "uint (txValue tx) + uint (txGasLimit tx) * uint (txGasPrice tx) \<le> balance_at (sm_db (xsWorld s)) (sender_of e tx)"
  shows "\<exists>r sm'. ExecuteTransaction e producer_io tx h s = Some (Done (r, s\<lparr>xsWorld := sm'\<rparr>))
    \<and> erStatus r = 1 \<and> erErr r = None \<and> erGasUsed r = transfer_gas tx
    \<and> balance_at (sm_db sm') = (\<lambda>y. balance_at db y
        - (if y = x then uint (txValue tx) + uint (transfer_gas tx) * uint (txGasPrice tx) else 0)
        + (if y = txTo tx then uint (txValue tx) else 0))
    \<and> nonce_at (sm_db sm') = (nonce_at db)(x := txNonce tx + 1)
    \<and> State_Commit.holdings (sm_db sm')
      = State_Commit.holdings db - uint (transfer_gas tx) * uint (txGasPrice tx)
    \<and> table_ok (sm_db sm')"
proof -
  have "producer.admitted e tx (xsWorld s)" using assms(8-) by (simp add: producer.admitted_def)
  from producer.fitting_transfer_carried [OF assms(3,4) _ assms(7) this] assms(5,6) obtain r sm' where
    "ExecuteTransaction e producer_io tx h s = Some (Done (r, s\<lparr>xsWorld := sm'\<rparr>))" "table_ok (sm_db sm')"
    "producer.carried_out e tx (xsWorld s) r sm'"
    by (auto simp: fitting_transfer_def)
  then show ?thesis
    by (intro exI [of _ r] exI [of _ sm'])
      (simp add: producer.carried_out_def gas_paid_def x_def db_def fun_eq_iff)
qed


subsection \<open>A fee that overflows\<close>

definition toy_engine :: "(state_manager, byte, byte) engine" where
  "toy_engine = NewExecutionEngine toy_lib (\<lambda>_ _. []) None None (\<lambda>_ _ ad. Done ([], 0, False, ad)) 0 1"

definition funded_manager :: "int \<Rightarrow> state_manager" where
  "funded_manager b = SetAccount ((NewAccount (be 20 5) AccountTypeNormal)\<lparr>acBalance := b\<rparr>) fresh_manager"

definition funded :: "int \<Rightarrow> state_manager exec_state" where
  "funded b = \<lparr>xsWorld = funded_manager b, xsPool = None, xsContracts = None\<rparr>"

lemma funded_manager_ok:
  "table_ok (sm_db (funded_manager b))" "balance_at (sm_db (funded_manager b)) (be 20 5) = b"
  "nonce_at (sm_db (funded_manager b)) (be 20 5) = 0"
  "State_Commit.holdings (sm_db (funded_manager b)) = b"
proof -
  have "State_Commit.holdings (sm_db fresh_manager) = 0" "balance_at (sm_db fresh_manager) x = 0" for x
    by (simp_all add: fresh_manager_def NewMPT_def State_Commit.holdings_def addresses_def kv_Get_def
        balance_at_def as_GetAccount_def)
  then show "table_ok (sm_db (funded_manager b))" "balance_at (sm_db (funded_manager b)) (be 20 5) = b"
    "nonce_at (sm_db (funded_manager b)) (be 20 5) = 0"
    "State_Commit.holdings (sm_db (funded_manager b)) = b"
    by (simp_all add: funded_manager_def SetAccount_def table_set fresh_table mark_dirty_def
        State_Commit.holdings_set balance_at_def nonce_at_def get_set_account NewAccount_def)
qed

lemma sample_tx_fields:
  "txValue sample_tx = 100" "txGasPrice sample_tx = 10"
  "txGasLimit sample_tx = 21000" "txNonce sample_tx = 0" "txTo sample_tx = be 20 6" "transfer_gas sample_tx = 21000"
  by (simp_all add: sample_tx_def transfer_gas_def)

lemma sample_tx_plain: "plain_transfer toy_engine sample_tx" "fee_fits sample_tx" "sender_of toy_engine sample_tx = be 20 5"
  "Verify (egLib toy_engine) sample_tx = Done True" "standard_gas toy_engine"
proof -
  have "length (be 20 6) = 20" by simp
  then have "be 20 6 \<noteq> []" by (metis list.size(3) zero_neq_numeral)
  then show "plain_transfer toy_engine sample_tx" "fee_fits sample_tx" "sender_of toy_engine sample_tx = be 20 5"
    "Verify (egLib toy_engine) sample_tx = Done True" "standard_gas toy_engine"
    by (simp_all add: fitting_defs toy_engine_def NewExecutionEngine_def sample_tx_def Verify_def
        sender_of_def SenderAddress_def ClassifyTransaction_def FeeToken_def standard_gas_def)
qed

lemma other_address: "be 20 5 \<noteq> be 20 6"
  by code_simp

theorem transfer_exact_witness:
  "\<exists>r sm'. ExecuteTransaction toy_engine producer_io sample_tx 1 (funded 1000000)
      = Some (Done (r, (funded 1000000)\<lparr>xsWorld := sm'\<rparr>))
    \<and> balance_at (sm_db sm') (be 20 5) = 789900 \<and> State_Commit.holdings (sm_db sm') = 790000"
proof -
  have "xsWorld (funded 1000000) = funded_manager 1000000" by (simp add: funded_def)
  then show ?thesis
    using transfer_exact [of "funded 1000000" toy_engine sample_tx 1] sample_tx_plain other_address
    by (simp add: funded_manager_ok sample_tx_fields)
      (elim exE conjE, intro exI conjI, assumption, simp_all add: funded_manager_ok sample_tx_fields)
qed


text \<open>
  The fee is computed in 64 bits: with a gas limit of \<open>2 ^ 20\<close> and a price of \<open>2 ^ 44\<close>
  it is zero, and the refund of the unused gas creates money out of nothing.
\<close>

definition minting_tx :: transaction where
  "minting_tx = sample_tx\<lparr>txGasLimit := 2 ^ 20, txGasPrice := 2 ^ 44\<rparr>"

lemma fee_overflow_mints:
  "\<exists>r sm'. ExecuteTransaction toy_engine producer_io minting_tx 1 (funded 100)
      = Some (Done (r, (funded 100)\<lparr>xsWorld := sm'\<rparr>)) \<and> erStatus r = 1
    \<and> State_Commit.holdings (sm_db sm') = State_Commit.holdings (sm_db (funded_manager 100)) + (2 ^ 64 - 26000 * 2 ^ 44)"
proof -
  have tx: "Verify (egLib toy_engine) minting_tx = Verify (egLib toy_engine) sample_tx"
    "ClassifyTransaction minting_tx = ClassifyTransaction sample_tx" "FeeToken minting_tx = FeeToken sample_tx"
    "sender_of toy_engine minting_tx = sender_of toy_engine sample_tx" "txNonce minting_tx = 0"
    "txTo minting_tx = txTo sample_tx" "txValue minting_tx = 100" "txData minting_tx = []"
    by (simp_all add: minting_tx_def Verify_def ClassifyTransaction_def FeeToken_def sender_of_def
        SenderAddress_def SigningPayload_def sample_tx_def toy_engine_def NewExecutionEngine_def)
  have gas: "calculateGasCost toy_engine TxTransfer minting_tx = 26000"
    by (simp add: calculate_transfer_gas sample_tx_plain tx transfer_gas_def) (simp add: minting_tx_def)
  have fee: "txGasLimit minting_tx * txGasPrice minting_tx = 0" "26000 \<le> txGasLimit minting_tx"
    "uint ((txGasLimit minting_tx - 26000) * txGasPrice minting_tx) = 2 ^ 64 - 26000 * 2 ^ 44"
    by (simp_all add: minting_tx_def)
  have world: "xsWorld (funded 100) = funded_manager 100" by (simp add: funded_def)
  show ?thesis
    by (rule producer.native_transfer [of "funded 100" toy_engine minting_tx 1])
      (use sample_tx_plain in \<open>auto simp: world funded_manager_ok tx gas fee fitting_defs\<close>)
qed

end
