(* ===== verification/Exec_Refusals.thy ===== *)
theory Exec_Refusals
  imports Exec_Ledger
begin

text \<open>
  A transaction that is refused by the checks in front of its execution changes neither accounts nor
  pool nor contracts, whatever the closures do.
\<close>

subsection \<open>Refused transactions\<close>

definition admission_errors :: "exec_error set" where
  "admission_errors = {XInvalidSignature, XNoSender, XGasLimit, XNativeBalance, XValueBalance, XTokenBalance, XNonce}"

text \<open>
  The results of the parts of the engine behind the checks do not carry these errors: \<open>past\<close> follows
  the structure of the definitions.
\<close>

definition inner :: "exec_result \<Rightarrow> bool" where
  "inner r \<longleftrightarrow> erErr r \<notin> Some ` admission_errors"

definition past :: "(exec_result \<times> 'w exec_state) outcome option \<Rightarrow> bool" where
  "past x \<longleftrightarrow> (\<forall>r s. x = Some (Done (r, s)) \<longrightarrow> inner r)"

lemma inner_simps [simp]:
  "inner (exec_failure er) \<longleftrightarrow> er \<notin> admission_errors" "inner exec_success"
  "inner (r\<lparr>erGasUsed := g\<rparr>) = inner r" "inner (r\<lparr>erGasRefund := g\<rparr>) = inner r"
  "inner (r\<lparr>erStatus := b\<rparr>) = inner r" "inner (r\<lparr>erOutput := out\<rparr>) = inner r"
  "inner (r\<lparr>erLogs := logs\<rparr>) = inner r" "inner (r\<lparr>erErr := Some er\<rparr>) \<longleftrightarrow> er \<notin> admission_errors"
  by (auto simp: inner_def exec_failure_def exec_success_def)

lemma past_simps [simp]: "past None" "past (Some Panics)" "past (Some (Done (r, s))) = inner r"
  by (auto simp: past_def)

lemma past_bind [intro!]: "(\<And>y. x = Done y \<Longrightarrow> past (Some (k y))) \<Longrightarrow> past (Some (bind_outcome x k))"
  by (cases x) auto

lemma past_run [intro!]: "(\<And>y. x = Some (Done y) \<Longrightarrow> past (Some (k y))) \<Longrightarrow> past (then_run x k)"
  by (cases x) (auto simp: then_run_def)

lemma past_big [intro!]: "(\<And>b. past (Some (k b))) \<Longrightarrow> past (Some (with_big x k))"
  by (cases x) auto

lemma transfer_past: "past (Some (executeTransfer io tx s))"
  by (auto simp: executeTransfer_def Let_def admission_errors_def)

lemma deploy_past: "past (executeDeploy e io tx h s)"
  by (auto simp: executeDeploy_def Let_def admission_errors_def split: option.splits run_error.splits)

lemma standard_past: "call_standard caller input sc = (Done r, sc') \<Longrightarrow> inner r"
  by (auto simp: call_standard_def standard_result_def admission_errors_def
      split: standard.splits prod.splits call_result.splits)

lemma precompile_past: "handlePrecompile e io tx s = Some x \<Longrightarrow> past (Some x)"
  by (auto simp: handlePrecompile_def precompileShieldedDeposit_def
      precompileShieldedWithdraw_def precompileZKVerify_def Let_def admission_errors_def
      dest: standard_past
      split: if_splits option.splits sum.splits prod.splits proof_check.splits)

lemma call_past: "past (executeCall e io tx h s)"
  using precompile_past [of e io tx s]
  by (auto simp: executeCall_def Let_def admission_errors_def
      split: option.splits outcome.splits bool.splits run_error.splits)

lemma finish_past: "inner r \<Longrightarrow> past (Some (finish e io tx g r s))"
  by (auto simp: finish_def refund_def Let_def split: option.splits)

lemma past_finish: "past x \<Longrightarrow> past (then_run x (\<lambda>(r, s). finish e io tx g r s))"
  by (rule past_run) (auto simp: past_def [of x] intro!: finish_past)

text \<open>An answer that is no refusal, or a refusal in the state \<open>s\<close>.\<close>

definition silent :: "'w exec_state \<Rightarrow> (exec_result \<times> 'w exec_state) outcome option \<Rightarrow> bool" where
  "silent s x \<longleftrightarrow> past x \<or> (\<exists>er. x = Some (Done (exec_failure er, s)))"

lemma silent_simps [simp]: "silent s None" "silent s (Some Panics)" "silent s (Some (Done (exec_failure er, s)))"
  "silent s (Some (Done (exec_failure XUpdateSender, s')))"
  by (auto simp: silent_def admission_errors_def)

lemma silent_run: "silent s (then_run (case ty of TxTransfer \<Rightarrow> Some (executeTransfer io tx s')
    | TxContractDeploy \<Rightarrow> executeDeploy e io tx h s' | TxContractCall \<Rightarrow> executeCall e io tx h s')
    (\<lambda>(r, s). finish e io tx g r s))"
  unfolding silent_def
  by (intro disjI1 past_finish) (simp add: transfer_past deploy_past call_past split: tx_type.split)

lemma silent_case:
  "silent s (case r of Panics \<Rightarrow> Some Panics | Done (True, s') \<Rightarrow> Some (Done (exec_failure XUpdateSender, s'))
     | Done (False, s') \<Rightarrow> k s')" if "\<And>s'. silent s (k s')"
  using that by (auto simp: silent_def admission_errors_def split: outcome.split bool.split)

lemma execute_quiet: "silent s (ExecuteTransaction e io tx h s)"
  unfolding ExecuteTransaction_def Let_def
  by (auto intro!: silent_case silent_run split: outcome.split bool.split option.split sum.split)

text \<open>
  C20 (refused_unchanged): a transaction that is answered with a bad signature, a missing sender, a gas
  limit below its gas, a lack of funds or a wrong nonce has changed nothing: accounts, shielded pool and
  standard contracts are as before, it has used no gas, produced no logs and has status 0.
\<close>

theorem refused_unchanged:
  assumes "ExecuteTransaction e io tx h s = Some (Done (r, s'))"
    and "erErr r \<in> Some ` {XInvalidSignature, XNoSender, XGasLimit, XNativeBalance, XValueBalance, XTokenBalance, XNonce}"
  shows "s' = s \<and> (\<exists>er. r = exec_failure er)"
  using assms execute_quiet [of s e io tx h]
  by (auto simp: silent_def past_def inner_def admission_errors_def)

theorem refused_unchanged_witness:
  "\<exists>r s'. ExecuteTransaction toy_engine producer_io (sample_tx\<lparr>txSignature := None\<rparr>) 1 (funded 5) = Some (Done (r, s'))
    \<and> s' = funded 5 \<and> (\<exists>er. r = exec_failure er)"
proof -
  have run: "ExecuteTransaction toy_engine producer_io (sample_tx\<lparr>txSignature := None\<rparr>) 1 (funded 5)
      = Some (Done (exec_failure XInvalidSignature, funded 5))"
    by (simp add: ExecuteTransaction_def Verify_def)
  show ?thesis using refused_unchanged [OF run] run by (auto simp: exec_failure_def)
qed

end
