(* ===== verification/Exec_Batches.thy ===== *)
theory Exec_Batches
  imports Exec_Engine "HOL-Library.Multiset"
begin

text \<open>
  The batches of \<open>execution/parallel.go\<close>: the indices of a block, cut into sets without common
  accounts. A pass over the pending indices is \<open>scan\<close>; the passes end because the first pending
  index is always taken. The goroutines that execute the batches are not modelled.
\<close>

subsection \<open>Batches\<close>

text \<open>
  \<open>string(tx.From)\<close> and \<open>string(tx.To)\<close> are compared as they are, although the first is
  a public key where the second is an address.
\<close>

definition txAccounts :: "transaction \<Rightarrow> bytes list" where
  "txAccounts tx = txFrom tx # (if 0 < length (txTo tx) then [txTo tx] else [])"

text \<open>One pass over the pending indices: the batch and the indices that are left.\<close>

fun scan :: "transaction list \<Rightarrow> nat list \<Rightarrow> bytes list \<Rightarrow> nat list \<times> nat list" where
  "scan txs [] written = ([], [])"
| "scan txs (i # is) written =
     (if list_ex (\<lambda>a. a \<in> set written) (txAccounts (txs ! i))
      then (case scan txs is written of (batch, left) \<Rightarrow> (batch, i # left))
      else (case scan txs is (txAccounts (txs ! i) @ written) of (batch, left) \<Rightarrow> (i # batch, left)))"

lemma scan_size: "length (fst (scan txs is written)) + length (snd (scan txs is written)) = length is"
  by (induction txs "is" written rule: scan.induct) (auto simp: Let_def split: prod.splits)

lemma scan_progress: "is \<noteq> [] \<Longrightarrow> length (snd (scan txs is [])) < length is"
  using scan_size [of txs "tl is" "txAccounts (txs ! hd is)"]
  by (cases "is") (auto simp: list_ex_iff split: prod.splits)

function batches_from :: "transaction list \<Rightarrow> nat list \<Rightarrow> nat list list" where
  "batches_from txs pending = (if pending = [] then []
     else fst (scan txs pending []) # batches_from txs (snd (scan txs pending [])))"
  by pat_completeness auto
termination by (relation "measure (\<lambda>(txs, pending). length pending)") (simp_all add: scan_progress)

declare batches_from.simps [simp del]

definition ComputeBatches :: "transaction list \<Rightarrow> nat list list" where
  "ComputeBatches txs = batches_from txs [0..<length txs]"

definition conflict :: "transaction \<Rightarrow> transaction \<Rightarrow> bool" where
  "conflict tx tx' \<longleftrightarrow> set (txAccounts tx) \<inter> set (txAccounts tx') \<noteq> {}"

text \<open>What one pass guarantees, for the accounts \<open>W\<close> that were written before it.\<close>

definition pass_ok :: "transaction list \<Rightarrow> nat list \<Rightarrow> bytes set \<Rightarrow> nat list \<Rightarrow> nat list \<Rightarrow> bool" where
  "pass_ok txs is W batch left \<longleftrightarrow> mset is = mset batch + mset left
     \<and> sorted_wrt (<) batch \<and> sorted_wrt (<) left
     \<and> (\<forall>i \<in> set batch. set (txAccounts (txs ! i)) \<inter> W = {})
     \<and> sorted_wrt (\<lambda>i j. \<not> conflict (txs ! i) (txs ! j)) batch
     \<and> (\<forall>j \<in> set left. set (txAccounts (txs ! j)) \<inter> W \<noteq> {}
          \<or> (\<exists>i \<in> set batch. i < j \<and> conflict (txs ! i) (txs ! j)))"

lemma pass_sets: "pass_ok txs is W batch left \<Longrightarrow> set is = set batch \<union> set left"
  by (metis pass_ok_def mset_append set_append set_mset_mset)

lemma pass_skip:
  assumes "pass_ok txs is W batch left" "\<forall>j \<in> set is. i < j" "set (txAccounts (txs ! i)) \<inter> W \<noteq> {}"
  shows "pass_ok txs (i # is) W batch (i # left)"
  using assms pass_sets [OF assms(1)] by (auto simp: pass_ok_def)

lemma pass_take:
  assumes "pass_ok txs is (set (txAccounts (txs ! i)) \<union> W) batch left" "\<forall>j \<in> set is. i < j"
    "set (txAccounts (txs ! i)) \<inter> W = {}"
  shows "pass_ok txs (i # is) W (i # batch) left"
proof -
  have "i < j" if "j \<in> set batch \<or> j \<in> set left" for j using assms(2) pass_sets [OF assms(1)] that by blast
  moreover have "set (txAccounts (txs ! j)) \<inter> W \<noteq> {} \<or> conflict (txs ! i) (txs ! j)
      \<or> (\<exists>i \<in> set batch. i < j \<and> conflict (txs ! i) (txs ! j))" if "j \<in> set left" for j
    using assms(1) that unfolding pass_ok_def conflict_def by blast
  moreover have "\<not> conflict (txs ! i) (txs ! j) \<and> set (txAccounts (txs ! j)) \<inter> W = {}" if "j \<in> set batch" for j
    using assms(1) that unfolding pass_ok_def conflict_def by blast
  ultimately show ?thesis using assms by (simp add: pass_ok_def)
qed

lemma scan_ok:
  "sorted_wrt (<) is \<Longrightarrow> pass_ok txs is (set written) (fst (scan txs is written)) (snd (scan txs is written))"
proof (induction txs "is" written rule: scan.induct)
  case (2 txs i "is" written)
  show ?case
  proof (cases "list_ex (\<lambda>a. a \<in> set written) (txAccounts (txs ! i))")
    case True
    moreover have "set (txAccounts (txs ! i)) \<inter> set written \<noteq> {}" using True by (auto simp: list_ex_iff)
    ultimately show ?thesis using 2(1) 2(3) by (auto split: prod.split intro!: pass_skip)
  next
    case False
    moreover have "set (txAccounts (txs ! i)) \<inter> set written = {}" using False by (auto simp: list_ex_iff)
    ultimately show ?thesis using 2(2) 2(3) by (auto split: prod.split intro!: pass_take)
  qed
qed (simp add: pass_ok_def)

text \<open>The batches of a strictly increasing list of indices.\<close>

lemma batches_from_spec:
  assumes "sorted_wrt (<) pending" "bs = batches_from txs pending"
  shows "mset (concat bs) = mset pending
    \<and> (\<forall>batch \<in> set bs. batch \<noteq> [] \<and> sorted_wrt (<) batch
        \<and> sorted_wrt (\<lambda>i j. \<not> conflict (txs ! i) (txs ! j)) batch)
    \<and> sorted_wrt (\<lambda>b c. \<forall>j \<in> set c. \<exists>i \<in> set b. i < j \<and> conflict (txs ! i) (txs ! j)) bs"
  using assms
proof (induction txs pending arbitrary: bs rule: batches_from.induct)
  case (1 txs pending)
  show ?case
  proof (cases "pending = []")
    case True
    with 1(3) show ?thesis by (simp add: batches_from.simps)
  next
    case False
    define batch left where "batch = fst (scan txs pending [])" and "left = snd (scan txs pending [])"
    let ?rest = "batches_from txs left"
    have bs: "bs = batch # ?rest" using 1(3) False batches_from.simps [of txs pending] by (simp add: batch_def left_def)
    have ok: "pass_ok txs pending {} batch left"
      using scan_ok [OF 1(2), of txs "[]"] by (simp add: batch_def left_def)
    have IH: "mset (concat ?rest) = mset left"
      "\<forall>b \<in> set ?rest. b \<noteq> [] \<and> sorted_wrt (<) b \<and> sorted_wrt (\<lambda>i j. \<not> conflict (txs ! i) (txs ! j)) b"
      "sorted_wrt (\<lambda>b c. \<forall>j \<in> set c. \<exists>i \<in> set b. i < j \<and> conflict (txs ! i) (txs ! j)) ?rest"
      using 1(1) [OF False] ok by (simp_all add: pass_ok_def left_def)
    have "batch \<noteq> []" using scan_progress [OF False, of txs] scan_size [of txs pending "[]"]
      by (auto simp: batch_def)
    moreover have "set (concat ?rest) = set left" using IH(1) by (rule mset_eq_setD)
    then have "\<forall>c \<in> set ?rest. \<forall>j \<in> set c. \<exists>i \<in> set batch. i < j \<and> conflict (txs ! i) (txs ! j)"
      using ok by (auto simp: pass_ok_def)
    ultimately show ?thesis using IH ok by (simp add: bs pass_ok_def)
  qed
qed

text \<open>
  C22 (batches_partition): the batches contain every index of the block exactly once, none is empty, each
  lists its indices in the order of the block, no two transactions of a batch name a common account, and
  a transaction is in a later batch only because it has a conflict with an earlier transaction in each
  of the batches before.
\<close>

theorem batches_partition:
  "mset (concat (ComputeBatches txs)) = mset [0..<length txs]
    \<and> (\<forall>batch \<in> set (ComputeBatches txs). batch \<noteq> [] \<and> sorted_wrt (<) batch
        \<and> sorted_wrt (\<lambda>i j. \<not> conflict (txs ! i) (txs ! j)) batch)
    \<and> sorted_wrt (\<lambda>b c. \<forall>j \<in> set c. \<exists>i \<in> set b. i < j \<and> conflict (txs ! i) (txs ! j)) (ComputeBatches txs)"
  using batches_from_spec [OF _ refl, of "[0..<length txs]" txs] by (simp add: ComputeBatches_def)

theorem batches_partition_witness:
  "mset (concat (ComputeBatches [sample_tx, sample_tx])) = {#0, 1#}"
  using batches_partition [of "[sample_tx, sample_tx]"] by (simp add: upt_rec)

text \<open>
  Conflicting transactions need not run in the order of the block: the second and the third have a common
  account, and the third runs first.
\<close>

lemma batches_reorder:
  "ComputeBatches [sample_tx\<lparr>txFrom := [1], txTo := [2]\<rparr>, sample_tx\<lparr>txFrom := [3], txTo := [2]\<rparr>,
     sample_tx\<lparr>txFrom := [3], txTo := [4]\<rparr>] = [[0, 2], [1]]"
  by (simp add: ComputeBatches_def batches_from.simps txAccounts_def upt_rec)

end
