(* ===== verification/Bridge.thy ===== *)
theory Bridge
  imports Keys Json
begin

text \<open>
  The bridge between chains (\<open>layer3/bridge/bridge.go\<close>): lock events, messages that the validators
  of the source chain sign, the confirmation by stake, the execution that books the unlocked amount,
  the daily limit and the proof check of a bridge contract, and the older book of transfers.

  Amounts are \<open>*big.Int\<close> values that are never nil and never changed after they are handed in, so
  they are integers; messages and validator sets are reached through pointers of the maps, so an update
  of a message is an update of its entry. Every operation holds the lock and is one step. The clock is
  an argument of the operations that read it.
\<close>

subsection \<open>Messages and validators\<close>

datatype message_status = Pending | Confirmed | Executed | Failed

record bridge_message =
  bmID :: bytes
  bmSourceChain :: u64
  bmDestChain :: u64
  bmSender :: bytes
  bmReceiver :: bytes
  bmToken :: bytes
  bmAmount :: int
  bmNonce :: u64
  bmData :: bytes
  bmTimestamp :: u64
  bmSignatures :: "bytes list"
  bmValidatorIdx :: "int list"
  bmStatus :: message_status

record bridge_validator =
  bvAddress :: bytes
  bvPublicKey :: bytes
  bvStake :: u64
  bvIsActive :: bool

record bridge_validators =
  bvValidators :: "bridge_validator list"
  bvThreshold :: int

record lock_event =
  leTxHash :: bytes
  leChain :: u64
  leSender :: bytes
  leToken :: bytes
  leAmount :: int
  leNonce :: u64
  leBlockNum :: u64

record bridge_state =
  bsPending :: "(bytes, bridge_message) gomap"
  bsExecuted :: "(bytes, bool) gomap"
  bsLockEvents :: "lock_event list"
  bsValidatorSets :: "(u64, bridge_validators) gomap"
  bsSequence :: "(u64, u64) gomap"
  bsTotalLocked :: "(string, int) gomap"
  bsTotalUnlocked :: "(string, int) gomap"

datatype bridge_error = BrNoMessage | BrNoValidators | BrBadIndex | BrSigned | BrInactive | BrBadKey
  | BrBadSignature | BrNotConfirmed | BrExecuted | BrFewSignatures | BrFewStake

definition NewBridgeState :: bridge_state where
  "NewBridgeState = \<lparr>bsPending = [], bsExecuted = [], bsLockEvents = [], bsValidatorSets = [],
     bsSequence = [], bsTotalLocked = [], bsTotalUnlocked = []\<rparr>"

definition RegisterValidatorSet :: "u64 \<Rightarrow> bridge_validators \<Rightarrow> bridge_state \<Rightarrow> bridge_state" where
  "RegisterValidatorSet chain vs bs = bs\<lparr>bsValidatorSets := goput chain vs (bsValidatorSets bs)\<rparr>"

text \<open>\<open>fmt.Sprintf("%d:%x", chain, token)\<close>\<close>

definition token_key :: "u64 \<Rightarrow> bytes \<Rightarrow> string" where
  "token_key chain token = str_of_bytes (digits (unat chain)) @ '':'' @ hexEncode token"

definition total_of :: "(string, int) gomap \<Rightarrow> string \<Rightarrow> int" where
  "total_of m k = (case goget m k of None \<Rightarrow> 0 | Some v \<Rightarrow> v)"

definition SubmitLockEvent :: "lock_event \<Rightarrow> bridge_state \<Rightarrow> bridge_state" where
  "SubmitLockEvent ev bs = (let key = token_key (leChain ev) (leToken ev) in
     bs\<lparr>bsLockEvents := bsLockEvents bs @ [ev],
        bsTotalLocked := goput key (total_of (bsTotalLocked bs) key + leAmount ev) (bsTotalLocked bs)\<rparr>)"

text \<open>\<open>amount.Bytes()\<close> is the magnitude of the amount.\<close>

definition computeMessageID :: "(bytes \<Rightarrow> bytes) \<Rightarrow> u64 \<Rightarrow> u64 \<Rightarrow> bytes \<Rightarrow> bytes \<Rightarrow> bytes \<Rightarrow> int
    \<Rightarrow> u64 \<Rightarrow> bytes" where
  "computeMessageID H source dest from_addr receiver token amount nonce =
     H (be_u64 source @ be_u64 dest @ from_addr @ receiver @ token @ big_bytes (nat \<bar>amount\<bar>) @ be_u64 nonce)"

definition CreateBridgeMessage :: "(bytes \<Rightarrow> bytes) \<Rightarrow> u64 \<Rightarrow> u64 \<Rightarrow> u64 \<Rightarrow> bytes \<Rightarrow> bytes \<Rightarrow> bytes
    \<Rightarrow> int \<Rightarrow> bytes \<Rightarrow> bridge_state \<Rightarrow> bridge_message \<times> bridge_state" where
  "CreateBridgeMessage H now source dest from_addr receiver token amount data bs =
     (let nonce = (case goget (bsSequence bs) dest of None \<Rightarrow> 0 | Some n \<Rightarrow> n) + 1;
          id = computeMessageID H source dest from_addr receiver token amount nonce;
          msg = \<lparr>bmID = id, bmSourceChain = source, bmDestChain = dest, bmSender = from_addr,
                 bmReceiver = receiver, bmToken = token, bmAmount = amount, bmNonce = nonce,
                 bmData = data, bmTimestamp = now, bmSignatures = [], bmValidatorIdx = [],
                 bmStatus = Pending\<rparr>
      in (msg, bs\<lparr>bsSequence := goput dest nonce (bsSequence bs),
                  bsPending := goput id msg (bsPending bs)\<rparr>))"

subsection \<open>Signatures and confirmation\<close>

definition active_stake :: "bridge_validator list \<Rightarrow> u64" where
  "active_stake vs = (\<Sum>v\<leftarrow>filter bvIsActive vs. bvStake v)"

definition required_stake :: "bridge_validator list \<Rightarrow> u64" where
  "required_stake vs = active_stake vs * 2 div 3 + 1"

definition signed_stake :: "bridge_validator list \<Rightarrow> int list \<Rightarrow> u64" where
  "signed_stake vs idxs = (\<Sum>i\<leftarrow>idxs. bvStake (vs ! nat i))"

text \<open>
  A validator without a key needs no signature. An index that was taken under another validator set may
  be out of range, and the sum over the signers panics.
\<close>

definition signature_check :: "('s, 'k) crypto_lib \<Rightarrow> bridge_validator \<Rightarrow> bytes \<Rightarrow> bytes
    \<Rightarrow> bridge_error option outcome" where
  "signature_check cl v msgID sig = (if 0 < length (bvPublicKey v)
     then case PubKeyFromBytes cl (bvPublicKey v) of
         Inl _ \<Rightarrow> Done (Some BrBadKey)
       | Inr pub \<Rightarrow> bind_outcome (VerifyMessage cl pub msgID sig) (\<lambda>ok.
           Done (if ok then None else Some BrBadSignature))
     else Done None)"

definition AddSignature :: "('s, 'k) crypto_lib \<Rightarrow> bytes \<Rightarrow> int \<Rightarrow> bytes \<Rightarrow> bridge_state
    \<Rightarrow> (bridge_error option \<times> bridge_state) outcome" where
  "AddSignature cl msgID idx sig bs = (case goget (bsPending bs) msgID of
       None \<Rightarrow> Done (Some BrNoMessage, bs)
     | Some msg \<Rightarrow> (case goget (bsValidatorSets bs) (bmSourceChain msg) of
         None \<Rightarrow> Done (Some BrNoValidators, bs)
       | Some vset \<Rightarrow>
           let vs = bvValidators vset in
           if idx < 0 \<or> int (length vs) \<le> idx then Done (Some BrBadIndex, bs)
           else if idx \<in> set (bmValidatorIdx msg) then Done (Some BrSigned, bs)
           else if \<not> bvIsActive (vs ! nat idx) then Done (Some BrInactive, bs)
           else bind_outcome (signature_check cl (vs ! nat idx) msgID sig) (\<lambda>er. case er of
               Some e \<Rightarrow> Done (Some e, bs)
             | None \<Rightarrow>
                 let idxs = bmValidatorIdx msg @ [idx];
                     msg = msg\<lparr>bmSignatures := bmSignatures msg @ [sig], bmValidatorIdx := idxs\<rparr>
                 in if list_ex (\<lambda>i. int (length vs) \<le> i) idxs then Panics
                    else let msg = (if required_stake vs \<le> signed_stake vs idxs
                           then msg\<lparr>bmStatus := Confirmed\<rparr> else msg)
                      in Done (None, bs\<lparr>bsPending := goput msgID msg (bsPending bs)\<rparr>))))"

definition ExecuteMessage :: "bytes \<Rightarrow> bridge_state \<Rightarrow> bridge_error option \<times> bridge_state" where
  "ExecuteMessage msgID bs = (case goget (bsPending bs) msgID of
       None \<Rightarrow> (Some BrNoMessage, bs)
     | Some msg \<Rightarrow>
         if bmStatus msg \<noteq> Confirmed then (Some BrNotConfirmed, bs)
         else if goget (bsExecuted bs) msgID = Some True then (Some BrExecuted, bs)
         else let key = token_key (bmDestChain msg) (bmToken msg)
           in (None, bs\<lparr>bsExecuted := goput msgID True (bsExecuted bs),
                 bsPending := goput msgID (msg\<lparr>bmStatus := Executed\<rparr>) (bsPending bs),
                 bsTotalUnlocked := goput key (total_of (bsTotalUnlocked bs) key + bmAmount msg)
                   (bsTotalUnlocked bs)\<rparr>))"

text \<open>The signature that counts for validator \<open>i\<close>: the first with its index that verifies.\<close>

fun counted :: "('s, 'k) crypto_lib \<Rightarrow> bridge_message \<Rightarrow> bridge_validator \<Rightarrow> int \<Rightarrow> nat \<Rightarrow> int list
    \<Rightarrow> bool outcome" where
  "counted cl msg v i s [] = Done False"
| "counted cl msg v i s (idx # idxs) =
     (if idx = i then
        (if 0 < length (bvPublicKey v) \<and> s < length (bmSignatures msg)
         then bind_outcome (signature_check cl v (bmID msg) (bmSignatures msg ! s)) (\<lambda>er.
           if er = None then Done True else counted cl msg v i (Suc s) idxs)
         else Done True)
      else counted cl msg v i (Suc s) idxs)"

fun valid_stakes :: "('s, 'k) crypto_lib \<Rightarrow> bridge_message \<Rightarrow> int \<Rightarrow> bridge_validator list
    \<Rightarrow> (u64 \<times> u64) outcome" where
  "valid_stakes cl msg i [] = Done (0, 0)"
| "valid_stakes cl msg i (v # vs) =
     (if \<not> bvIsActive v then valid_stakes cl msg (i + 1) vs
      else bind_outcome (counted cl msg v i 0 (bmValidatorIdx msg)) (\<lambda>yes.
        bind_outcome (valid_stakes cl msg (i + 1) vs) (\<lambda>(valid, total).
          Done (valid + (if yes then bvStake v else 0), total + bvStake v))))"

definition bs_VerifyMessage :: "('s, 'k) crypto_lib \<Rightarrow> bridge_message \<Rightarrow> bridge_state
    \<Rightarrow> bridge_error option outcome" where
  "bs_VerifyMessage cl msg bs = (case goget (bsValidatorSets bs) (bmSourceChain msg) of
       None \<Rightarrow> Done (Some BrNoValidators)
     | Some vset \<Rightarrow>
         if int (length (bmSignatures msg)) < bvThreshold vset then Done (Some BrFewSignatures)
         else bind_outcome (valid_stakes cl msg 0 (bvValidators vset)) (\<lambda>(valid, total).
           Done (if valid < total * 2 div 3 then Some BrFewStake else None)))"

definition GetPendingMessages :: "u64 \<Rightarrow> bridge_state \<Rightarrow> bridge_message list" where
  "GetPendingMessages chain bs =
     filter (\<lambda>m. bmDestChain m = chain \<and> bmStatus m = Pending) (map snd (bsPending bs))"

definition GetMessage :: "bytes \<Rightarrow> bridge_state \<Rightarrow> bridge_message option" where
  "GetMessage msgID bs = goget (bsPending bs) msgID"

definition GetTotalLocked :: "u64 \<Rightarrow> bytes \<Rightarrow> bridge_state \<Rightarrow> int" where
  "GetTotalLocked chain token bs = total_of (bsTotalLocked bs) (token_key chain token)"

definition GetTotalUnlocked :: "u64 \<Rightarrow> bytes \<Rightarrow> bridge_state \<Rightarrow> int" where
  "GetTotalUnlocked chain token bs = total_of (bsTotalUnlocked bs) (token_key chain token)"

subsection \<open>Bridge contracts\<close>

record bridge_contract =
  bcIsPaused :: bool
  bcDailyLimit :: "int option"
  bcCurrentDayUsed :: int
  bcLastDayReset :: u64

datatype outbound_error = BrPaused | BrDailyLimit

text \<open>A new day is stored even when the message is then refused.\<close>

definition ProcessOutbound :: "u64 \<Rightarrow> bridge_message \<Rightarrow> bridge_contract
    \<Rightarrow> outbound_error option \<times> bridge_contract" where
  "ProcessOutbound now msg bc = (if bcIsPaused bc then (Some BrPaused, bc)
     else let day = now div 86400;
              bc = (if bcLastDayReset bc < day
                then bc\<lparr>bcCurrentDayUsed := 0, bcLastDayReset := day\<rparr> else bc);
              newTotal = bcCurrentDayUsed bc + bmAmount msg
       in case bcDailyLimit bc of
            Some limit \<Rightarrow> if limit < newTotal then (Some BrDailyLimit, bc)
              else (None, bc\<lparr>bcCurrentDayUsed := newTotal\<rparr>)
          | None \<Rightarrow> (None, bc\<lparr>bcCurrentDayUsed := newTotal\<rparr>))"

record oracle_proof =
  opBlockHash :: bytes
  opMerkleProof :: "bytes list"
  opStateRoot :: bytes

fun compareBytesLess :: "bytes \<Rightarrow> bytes \<Rightarrow> bool" where
  "compareBytesLess (a # as) (b # bs) = (if a < b then True else if b < a then False
     else compareBytesLess as bs)"
| "compareBytesLess [] (b # bs) = True"
| "compareBytesLess as [] = False"

text \<open>
  Siblings are values; the code appends to a sibling's slice, which copies it unless the sender of the
  proof left spare capacity behind it.
\<close>

fun walk_proof :: "(bytes \<Rightarrow> bytes) \<Rightarrow> bytes \<Rightarrow> bytes list \<Rightarrow> bytes option" where
  "walk_proof H current [] = Some current"
| "walk_proof H current (sibling # path) = (if length sibling \<noteq> 32 then None
     else walk_proof H (if compareBytesLess current sibling then H (current @ sibling)
       else H (sibling @ current)) path)"

definition VerifyOracleProof :: "(bytes \<Rightarrow> bytes) \<Rightarrow> oracle_proof \<Rightarrow> bridge_message \<Rightarrow> bool" where
  "VerifyOracleProof H p msg \<longleftrightarrow> length (opBlockHash p) = 32 \<and> opMerkleProof p \<noteq> []
     \<and> length (opStateRoot p) = 32
     \<and> walk_proof H (H (computeMessageID H (bmSourceChain msg) (bmDestChain msg) (bmSender msg)
          (bmReceiver msg) (bmToken msg) (bmAmount msg) (bmNonce msg))) (opMerkleProof p)
       = Some (opStateRoot p)"

subsection \<open>The book of transfers\<close>

datatype transfer_status = TransferPending | TransferLocked | TransferBurned | TransferMinted
  | TransferCompleted | TransferFailed

record chain_info =
  ciID :: string
  ciName :: string
  ciEndpoint :: string
  ciIsActive :: bool

record bridge_transfer =
  btID :: string
  btSourceChain :: string
  btDestChain :: string
  btSender :: bytes
  btReceiver :: bytes
  btAmount :: u64
  btToken :: bytes
  btStatus :: transfer_status
  btLockTxHash :: bytes
  btMintTxHash :: bytes
  btSigs :: "(string, bool) gomap"

record chain_bridge =
  cbChains :: "(string, chain_info) gomap"
  cbTransfers :: "(string, bridge_transfer) gomap"
  cbValidators :: "(string, bool) gomap"
  cbThreshold :: int
  cbNextID :: nat

datatype transfer_error = BtNoSource | BtNoDest | BtNoTransfer | BtUnknownValidator | BtFewSignatures

definition NewChainBridge :: "int \<Rightarrow> chain_bridge" where
  "NewChainBridge threshold = \<lparr>cbChains = [], cbTransfers = [], cbValidators = [],
     cbThreshold = threshold, cbNextID = 0\<rparr>"

definition AddChain :: "chain_info \<Rightarrow> chain_bridge \<Rightarrow> chain_bridge" where
  "AddChain info cb = cb\<lparr>cbChains := goput (ciID info) info (cbChains cb)\<rparr>"

definition RegisterChain :: "string \<Rightarrow> string \<Rightarrow> string \<Rightarrow> chain_bridge \<Rightarrow> chain_bridge" where
  "RegisterChain tid name endpoint cb = cb\<lparr>cbChains := goput tid
     \<lparr>ciID = tid, ciName = name, ciEndpoint = endpoint, ciIsActive = True\<rparr> (cbChains cb)\<rparr>"

definition RegisterValidator :: "string \<Rightarrow> chain_bridge \<Rightarrow> chain_bridge" where
  "RegisterValidator v cb = cb\<lparr>cbValidators := goput v True (cbValidators cb)\<rparr>"

definition InitiateTransfer :: "string \<Rightarrow> string \<Rightarrow> bytes \<Rightarrow> bytes \<Rightarrow> u64 \<Rightarrow> bytes \<Rightarrow> chain_bridge
    \<Rightarrow> (transfer_error + bridge_transfer) \<times> chain_bridge" where
  "InitiateTransfer source dest from_addr receiver amount token cb =
     (if goget (cbChains cb) source = None then (Inl BtNoSource, cb)
      else if goget (cbChains cb) dest = None then (Inl BtNoDest, cb)
      else let n = Suc (cbNextID cb);
               tid = ''transfer-'' @ str_of_bytes (digits n);
               t = \<lparr>btID = tid, btSourceChain = source, btDestChain = dest, btSender = from_addr,
                    btReceiver = receiver, btAmount = amount, btToken = token,
                    btStatus = TransferPending, btLockTxHash = [], btMintTxHash = [], btSigs = []\<rparr>
        in (Inr t, cb\<lparr>cbNextID := n, cbTransfers := goput tid t (cbTransfers cb)\<rparr>))"

definition LockTokens :: "string \<Rightarrow> bytes \<Rightarrow> chain_bridge \<Rightarrow> transfer_error option \<times> chain_bridge" where
  "LockTokens tid txHash cb = (case goget (cbTransfers cb) tid of
       None \<Rightarrow> (Some BtNoTransfer, cb)
     | Some t \<Rightarrow> (None, cb\<lparr>cbTransfers := goput tid
         (t\<lparr>btLockTxHash := txHash, btStatus := TransferLocked\<rparr>) (cbTransfers cb)\<rparr>))"

definition AddValidatorSignature :: "string \<Rightarrow> string \<Rightarrow> chain_bridge
    \<Rightarrow> transfer_error option \<times> chain_bridge" where
  "AddValidatorSignature tid v cb = (case goget (cbTransfers cb) tid of
       None \<Rightarrow> (Some BtNoTransfer, cb)
     | Some t \<Rightarrow>
         if goget (cbValidators cb) v \<noteq> Some True then (Some BtUnknownValidator, cb)
         else let t = t\<lparr>btSigs := goput v True (btSigs t)\<rparr>;
                  t = (if cbThreshold cb \<le> int (length (btSigs t))
                    then t\<lparr>btStatus := TransferCompleted\<rparr> else t)
           in (None, cb\<lparr>cbTransfers := goput tid t (cbTransfers cb)\<rparr>))"

definition CompleteTransfer :: "string \<Rightarrow> bytes \<Rightarrow> chain_bridge \<Rightarrow> transfer_error option \<times> chain_bridge" where
  "CompleteTransfer tid txHash cb = (case goget (cbTransfers cb) tid of
       None \<Rightarrow> (Some BtNoTransfer, cb)
     | Some t \<Rightarrow>
         if int (length (btSigs t)) < cbThreshold cb then (Some BtFewSignatures, cb)
         else (None, cb\<lparr>cbTransfers := goput tid
           (t\<lparr>btMintTxHash := txHash, btStatus := TransferCompleted\<rparr>) (cbTransfers cb)\<rparr>))"

definition GetTransfer :: "string \<Rightarrow> chain_bridge \<Rightarrow> bridge_transfer option" where
  "GetTransfer tid cb = goget (cbTransfers cb) tid"

definition GetTransfers :: "chain_bridge \<Rightarrow> bridge_transfer list" where
  "GetTransfers cb = map snd (cbTransfers cb)"

definition GetPendingTransfers :: "chain_bridge \<Rightarrow> bridge_transfer list" where
  "GetPendingTransfers cb = filter (\<lambda>t. btStatus t = TransferPending) (GetTransfers cb)"

end
