(* ===== verification/Bridge_Safety.thy ===== *)
theory Bridge_Safety
  imports Bridge Contracts Transactions
begin

text \<open>
  What the bridge guarantees while the validator sets stay as they were registered: no operation
  panics, a message is executed at most once and only when active validators with more than two thirds
  of the active stake have signed it, and the books of locked and unlocked amounts are the sums of the
  recorded events.
\<close>

subsection \<open>Histories\<close>

datatype bridge_op = LockOp lock_event | CreateOp u64 u64 u64 bytes bytes bytes int bytes
  | SignOp bytes int bytes | ExecOp bytes

fun bridge_step :: "('s, 'k) crypto_lib \<Rightarrow> bridge_state \<Rightarrow> bridge_op \<Rightarrow> bridge_state outcome" where
  "bridge_step cl bs (LockOp ev) = Done (SubmitLockEvent ev bs)"
| "bridge_step cl bs (CreateOp now source dest from_addr receiver token amount data)
     = Done (snd (CreateBridgeMessage (clSha256 cl) now source dest from_addr receiver token amount data bs))"
| "bridge_step cl bs (SignOp mid idx sig) = bind_outcome (AddSignature cl mid idx sig bs) (\<lambda>(er, bs). Done bs)"
| "bridge_step cl bs (ExecOp mid) = Done (snd (ExecuteMessage mid bs))"

fun bridge_run :: "('s, 'k) crypto_lib \<Rightarrow> bridge_state \<Rightarrow> bridge_op list \<Rightarrow> bridge_state outcome" where
  "bridge_run cl bs [] = Done bs"
| "bridge_run cl bs (op # ops) = bind_outcome (bridge_step cl bs op) (\<lambda>bs. bridge_run cl bs ops)"

text \<open>The message that an operation executes, and the messages that a history executes.\<close>

definition unlock_of :: "bridge_state \<Rightarrow> bridge_op \<Rightarrow> bridge_message list" where
  "unlock_of bs op = (case op of ExecOp mid \<Rightarrow> (case fst (ExecuteMessage mid bs) of
       None \<Rightarrow> (case goget (bsPending bs) mid of None \<Rightarrow> [] | Some m \<Rightarrow> [m]) | Some _ \<Rightarrow> []) | _ \<Rightarrow> [])"

fun unlocks :: "('s, 'k) crypto_lib \<Rightarrow> bridge_state \<Rightarrow> bridge_op list \<Rightarrow> bridge_message list" where
  "unlocks cl bs [] = []"
| "unlocks cl bs (op # ops) = unlock_of bs op @ (case bridge_step cl bs op of
       Panics \<Rightarrow> [] | Done bs \<Rightarrow> unlocks cl bs ops)"

definition unlocked_amount :: "bridge_message list \<Rightarrow> string \<Rightarrow> int" where
  "unlocked_amount ms k = (\<Sum>m\<leftarrow>filter (\<lambda>m. token_key (bmDestChain m) (bmToken m) = k) ms. bmAmount m)"

definition locked_amount :: "lock_event list \<Rightarrow> string \<Rightarrow> int" where
  "locked_amount evs k = (\<Sum>ev\<leftarrow>filter (\<lambda>ev. token_key (leChain ev) (leToken ev) = k) evs. leAmount ev)"

subsection \<open>Stakes without overflow\<close>

definition active_total :: "bridge_validator list \<Rightarrow> nat" where
  "active_total vs = (\<Sum>v\<leftarrow>filter bvIsActive vs. unat (bvStake v))"

definition signed_total :: "bridge_validator list \<Rightarrow> int list \<Rightarrow> nat" where
  "signed_total vs idxs = (\<Sum>i\<leftarrow>idxs. unat (bvStake (vs ! nat i)))"

definition stakes_bounded :: "(u64, bridge_validators) gomap \<Rightarrow> bool" where
  "stakes_bounded sets \<longleftrightarrow> (\<forall>chain vset. goget sets chain = Some vset
     \<longrightarrow> 2 * active_total (bvValidators vset) < 2 ^ 64)"

text \<open>Active validators of the set, each at most once.\<close>

definition signers_ok :: "bridge_validator list \<Rightarrow> int list \<Rightarrow> bool" where
  "signers_ok vs idxs \<longleftrightarrow> distinct idxs
     \<and> (\<forall>i \<in> set idxs. 0 \<le> i \<and> i < int (length vs) \<and> bvIsActive (vs ! nat i))"

lemma active_total_sum: "active_total vs = (\<Sum>i | i < length vs \<and> bvIsActive (vs ! i). unat (bvStake (vs ! i)))"
proof (induction vs rule: rev_induct)
  case (snoc v vs)
  have "{i. i < length (vs @ [v]) \<and> bvIsActive ((vs @ [v]) ! i)}
      = {i. i < length vs \<and> bvIsActive (vs ! i)} \<union> (if bvIsActive v then {length vs} else {})"
    by (auto simp: nth_append less_Suc_eq)
  moreover have "(\<Sum>i | i < length vs \<and> bvIsActive (vs ! i). unat (bvStake ((vs @ [v]) ! i)))
      = (\<Sum>i | i < length vs \<and> bvIsActive (vs ! i). unat (bvStake (vs ! i)))"
    by (rule sum.cong) (simp_all add: nth_append)
  ultimately show ?case using snoc by (auto simp: active_total_def sum.union_disjoint)
qed (simp add: active_total_def)

lemma signed_le_active:
  assumes "signers_ok vs idxs"
  shows "signed_total vs idxs \<le> active_total vs"
proof -
  have inj: "inj_on nat (set idxs)" using assms by (intro inj_onI) (metis eq_nat_nat_iff signers_ok_def)
  have "signed_total vs idxs = (\<Sum>i \<in> set idxs. unat (bvStake (vs ! nat i)))"
    using assms by (simp add: signed_total_def signers_ok_def sum_list_distinct_conv_sum_set)
  also have "\<dots> = (\<Sum>i \<in> nat ` set idxs. unat (bvStake (vs ! i)))"
    using inj by (simp add: sum.reindex)
  also have "\<dots> \<le> active_total vs" unfolding active_total_sum
    by (rule sum_mono2) (use assms in \<open>auto simp: signers_ok_def nat_less_iff\<close>)
  finally show ?thesis .
qed

lemma confirmed_two_thirds:
  assumes "signers_ok vs idxs" "2 * active_total vs < 2 ^ 64" "required_stake vs \<le> signed_stake vs idxs"
  shows "2 * active_total vs < 3 * signed_total vs idxs"
proof -
  have active: "unat (active_stake vs) = active_total vs"
    using assms(2) unat_sum_list [of bvStake "filter bvIsActive vs"]
    by (simp add: active_stake_def active_total_def)
  have signed: "unat (signed_stake vs idxs) = signed_total vs idxs"
    using assms(2) signed_le_active [OF assms(1)] unat_sum_list [of "\<lambda>i. bvStake (vs ! nat i)" idxs]
    by (simp add: signed_stake_def signed_total_def)
  have "unat (active_stake vs * 2) = active_total vs * 2"
    using assms(2) active by (simp add: unat_mult_lem [THEN iffD1])
  then have "unat (active_stake vs * 2 div 3) = active_total vs * 2 div 3" by (simp add: unat_div)
  moreover from this have "unat (active_stake vs * 2 div 3 + 1) = active_total vs * 2 div 3 + 1"
    using assms(2) by (simp add: unat_add_lem [THEN iffD1])
  ultimately have "active_total vs * 2 div 3 + 1 \<le> signed_total vs idxs"
    using assms(3) signed by (simp add: required_stake_def word_le_nat_alt)
  then show ?thesis by linarith
qed

subsection \<open>The invariant\<close>

text \<open>
  A message whose identifier, which is what is signed, is the hash of its fields, and whose signatures
  are of distinct active validators of its source chain and were all accepted (a validator that was
  registered without a key needs none).
\<close>

definition signed_ok :: "('s, 'k) crypto_lib \<Rightarrow> (u64, bridge_validators) gomap \<Rightarrow> bridge_message \<Rightarrow> bool" where
  "signed_ok cl sets m \<longleftrightarrow> length (bmSignatures m) = length (bmValidatorIdx m)
     \<and> bmID m = computeMessageID (clSha256 cl) (bmSourceChain m) (bmDestChain m) (bmSender m) (bmReceiver m)
          (bmToken m) (bmAmount m) (bmNonce m)
     \<and> (case goget sets (bmSourceChain m) of None \<Rightarrow> bmValidatorIdx m = []
        | Some vset \<Rightarrow> signers_ok (bvValidators vset) (bmValidatorIdx m)
          \<and> (\<forall>j < length (bmValidatorIdx m). signature_check cl
               (bvValidators vset ! nat (bmValidatorIdx m ! j)) (bmID m) (bmSignatures m ! j) = Done None))"

definition two_thirds :: "(u64, bridge_validators) gomap \<Rightarrow> bridge_message \<Rightarrow> bool" where
  "two_thirds sets m \<longleftrightarrow> (case goget sets (bmSourceChain m) of None \<Rightarrow> False
     | Some vset \<Rightarrow> 2 * active_total (bvValidators vset) < 3 * signed_total (bvValidators vset) (bmValidatorIdx m))"

definition bridge_ok :: "('s, 'k) crypto_lib \<Rightarrow> (u64, bridge_validators) gomap \<Rightarrow> bridge_state \<Rightarrow> bool" where
  "bridge_ok cl sets bs \<longleftrightarrow> bsValidatorSets bs = sets
     \<and> (\<forall>mid m. goget (bsPending bs) mid = Some m \<longrightarrow> bmID m = mid \<and> signed_ok cl sets m
          \<and> (bmStatus m = Confirmed \<longrightarrow> two_thirds sets m))"

lemma bridge_okD:
  assumes "bridge_ok cl sets bs" "goget (bsPending bs) mid = Some m"
  shows "bmID m = mid" "signed_ok cl sets m" "bmStatus m = Confirmed \<Longrightarrow> two_thirds sets m"
  using assms by (auto simp: bridge_ok_def)

lemma bridge_ok_put:
  assumes "bridge_ok cl sets bs" "bmID m = mid" "signed_ok cl sets m" "bmStatus m = Confirmed \<Longrightarrow> two_thirds sets m"
    "bsPending bs' = goput mid m (bsPending bs)" "bsValidatorSets bs' = bsValidatorSets bs"
  shows "bridge_ok cl sets bs'"
  using assms by (simp add: bridge_ok_def)

lemma create_ok: "bridge_ok cl sets bs \<Longrightarrow> bridge_ok cl sets
    (snd (CreateBridgeMessage (clSha256 cl) now source dest from_addr receiver token amount data bs))"
  by (erule bridge_ok_put) (auto simp: CreateBridgeMessage_def Let_def signed_ok_def signers_ok_def split: option.split)

lemma execute_ok:
  assumes "bridge_ok cl sets bs"
  shows "bridge_ok cl sets (snd (ExecuteMessage mid bs))"
proof (cases "goget (bsPending bs) mid")
  case None
  then show ?thesis using assms by (simp add: ExecuteMessage_def)
next
  case (Some m)
  have "signed_ok cl sets (m\<lparr>bmStatus := Executed\<rparr>)"
    using bridge_okD(2) [OF assms Some] unfolding signed_ok_def by (auto split: option.splits)
  then show ?thesis using assms Some bridge_okD(1) [OF assms Some]
    by (auto simp: ExecuteMessage_def Let_def intro: bridge_ok_put)
qed

lemma VerifyMessage_done: "VerifyMessage cl pub d sig \<noteq> Panics"
proof (cases "length sig = 64")
  case True
  have "length (big_bytes (unbe xs)) \<le> 32" if "length xs = 32" for xs
    using unbe_less [of xs] that by (simp add: length_big_bytes_le)
  from this [of "take 32 sig"] this [of "drop 32 sig"] True show ?thesis
    by (simp add: VerifyMessage_def pub_Verify_def VerifyHash_def fill32_def not_less)
qed (auto simp: VerifyMessage_def)

lemma signature_check_done: "\<exists>er. signature_check cl v d sig = Done er"
proof (cases "PubKeyFromBytes cl (bvPublicKey v)")
  case (Inr pub)
  with VerifyMessage_done [of cl pub d sig] show ?thesis
    by (cases "VerifyMessage cl pub d sig") (simp_all add: signature_check_def)
qed (simp add: signature_check_def)

text \<open>A signature is refused and changes nothing, or it extends the message.\<close>

lemma sign_cases:
  assumes "bridge_ok cl sets bs"
  obtains er where "AddSignature cl mid idx sig bs = Done (Some er, bs)"
  | m vset st where "goget (bsPending bs) mid = Some m" "goget sets (bmSourceChain m) = Some vset"
    "0 \<le> idx" "idx < int (length (bvValidators vset))" "idx \<notin> set (bmValidatorIdx m)"
    "bvIsActive (bvValidators vset ! nat idx)"
    "signature_check cl (bvValidators vset ! nat idx) mid sig = Done None"
    "st = (if required_stake (bvValidators vset) \<le> signed_stake (bvValidators vset) (bmValidatorIdx m @ [idx])
      then Confirmed else bmStatus m)"
    "AddSignature cl mid idx sig bs = Done (None, bs\<lparr>bsPending := goput mid (m\<lparr>bmSignatures := bmSignatures m @ [sig],
      bmValidatorIdx := bmValidatorIdx m @ [idx], bmStatus := st\<rparr>) (bsPending bs)\<rparr>)"
proof (cases "goget (bsPending bs) mid")
  case None
  then show ?thesis by (intro that(1)) (simp add: AddSignature_def)
next
  case m: (Some m)
  have sets: "bsValidatorSets bs = sets" using assms by (simp add: bridge_ok_def)
  show ?thesis
  proof (cases "goget sets (bmSourceChain m)")
    case None
    then show ?thesis using m sets by (intro that(1)) (simp add: AddSignature_def)
  next
    case vset: (Some vset)
    let ?vs = "bvValidators vset"
    obtain er where er: "signature_check cl (?vs ! nat idx) mid sig = Done er" using signature_check_done by blast
    have in_range: "i < int (length ?vs)" if "i \<in> set (bmValidatorIdx m)" for i
      using bridge_okD(2) [OF assms m] vset that by (simp add: signed_ok_def signers_ok_def)
    show ?thesis
    proof (cases "0 \<le> idx \<and> idx < int (length ?vs) \<and> idx \<notin> set (bmValidatorIdx m) \<and> bvIsActive (?vs ! nat idx)
        \<and> er = None")
      case True
      then have "\<not> list_ex (\<lambda>i. int (length ?vs) \<le> i) (bmValidatorIdx m @ [idx])"
        using in_range by (auto simp: list_ex_iff not_le)
      with True m vset er sets show ?thesis
        by (intro that(2) [OF m vset _ _ _ _ _ refl]) (simp_all add: AddSignature_def Let_def not_le)
    next
      case False
      then have "\<exists>er. AddSignature cl mid idx sig bs = Done (Some er, bs)" using m vset er sets
        by (cases er) (auto simp: AddSignature_def Let_def)
      then show ?thesis using that(1) by blast
    qed
  qed
qed

lemma sign_ok:
  assumes "bridge_ok cl sets bs" "stakes_bounded sets"
  shows "\<exists>er bs'. AddSignature cl mid idx sig bs = Done (er, bs') \<and> bridge_ok cl sets bs'
    \<and> bsExecuted bs' = bsExecuted bs \<and> bsTotalUnlocked bs' = bsTotalUnlocked bs
    \<and> bsTotalLocked bs' = bsTotalLocked bs \<and> bsLockEvents bs' = bsLockEvents bs"
proof (rule sign_cases [OF assms(1), of mid idx sig])
  fix er
  assume "AddSignature cl mid idx sig bs = Done (Some er, bs)"
  then show ?thesis using assms(1) by simp
next
  fix m vset st
  assume m: "goget (bsPending bs) mid = Some m" and vset: "goget sets (bmSourceChain m) = Some vset"
    and idx: "0 \<le> idx" "idx < int (length (bvValidators vset))" "idx \<notin> set (bmValidatorIdx m)"
      "bvIsActive (bvValidators vset ! nat idx)"
    and check: "signature_check cl (bvValidators vset ! nat idx) mid sig = Done None"
    and st: "st = (if required_stake (bvValidators vset) \<le> signed_stake (bvValidators vset) (bmValidatorIdx m @ [idx])
      then Confirmed else bmStatus m)"
    and run: "AddSignature cl mid idx sig bs = Done (None, bs\<lparr>bsPending := goput mid (m\<lparr>bmSignatures := bmSignatures m @ [sig],
      bmValidatorIdx := bmValidatorIdx m @ [idx], bmStatus := st\<rparr>) (bsPending bs)\<rparr>)"
  let ?m = "m\<lparr>bmSignatures := bmSignatures m @ [sig], bmValidatorIdx := bmValidatorIdx m @ [idx], bmStatus := st\<rparr>"
  note m_ok = bridge_okD [OF assms(1) m]
  have signers: "signers_ok (bvValidators vset) (bmValidatorIdx m @ [idx])"
    using m_ok(2) vset idx by (auto simp: signed_ok_def signers_ok_def)
  then have "signed_ok cl sets ?m" using m_ok(1,2) vset check
    by (auto simp: signed_ok_def nth_append less_Suc_eq)
  moreover have "two_thirds sets ?m" if "st = Confirmed"
  proof (cases "required_stake (bvValidators vset) \<le> signed_stake (bvValidators vset) (bmValidatorIdx m @ [idx])")
    case True
    have "2 * active_total (bvValidators vset) < 2 ^ 64" using assms(2) vset by (auto simp: stakes_bounded_def)
    from confirmed_two_thirds [OF signers this True] show ?thesis using vset by (simp add: two_thirds_def)
  next
    case False
    with st that have "two_thirds sets m" using m_ok(3) by simp
    then show ?thesis using vset by (simp add: two_thirds_def signed_total_def)
  qed
  ultimately show ?thesis using run assms(1) m_ok(1) by (auto intro: bridge_ok_put)
qed

text \<open>One step: it does not panic, keeps the invariant, and books what it unlocks and locks.\<close>

lemma bridge_step_ok:
  assumes "bridge_ok cl sets bs" "stakes_bounded sets"
  obtains bs' where "bridge_step cl bs op = Done bs'" "bridge_ok cl sets bs'"
    "\<And>k. total_of (bsTotalUnlocked bs') k = total_of (bsTotalUnlocked bs) k + unlocked_amount (unlock_of bs op) k"
    "\<And>k. total_of (bsTotalLocked bs) k = locked_amount (bsLockEvents bs) k
      \<Longrightarrow> total_of (bsTotalLocked bs') k = locked_amount (bsLockEvents bs') k"
    "\<forall>m \<in> set (unlock_of bs op). signed_ok cl sets m \<and> two_thirds sets m
      \<and> goget (bsExecuted bs) (bmID m) \<noteq> Some True \<and> goget (bsExecuted bs') (bmID m) = Some True"
    "\<And>mid. goget (bsExecuted bs) mid = Some True \<Longrightarrow> goget (bsExecuted bs') mid = Some True"
    "length (unlock_of bs op) \<le> 1"
proof (cases op)
  case (LockOp ev)
  then show ?thesis using assms
    by (intro that [of "SubmitLockEvent ev bs"]) (auto simp: SubmitLockEvent_def Let_def bridge_ok_def
        unlock_of_def unlocked_amount_def locked_amount_def total_of_def)
next
  case (CreateOp now source dest from_addr receiver token amount data)
  let ?bs = "snd (CreateBridgeMessage (clSha256 cl) now source dest from_addr receiver token amount data bs)"
  have "bridge_ok cl sets ?bs" using assms(1) by (rule create_ok)
  then show ?thesis using CreateOp
    by (intro that [of ?bs]) (simp_all add: CreateBridgeMessage_def Let_def unlock_of_def unlocked_amount_def)
next
  case (SignOp mid idx sig)
  obtain er bs' where "AddSignature cl mid idx sig bs = Done (er, bs')" "bridge_ok cl sets bs'"
    "bsExecuted bs' = bsExecuted bs" "bsTotalUnlocked bs' = bsTotalUnlocked bs"
    "bsTotalLocked bs' = bsTotalLocked bs" "bsLockEvents bs' = bsLockEvents bs"
    using sign_ok [OF assms] by blast
  then show ?thesis using SignOp by (intro that [of bs']) (simp_all add: unlock_of_def unlocked_amount_def)
next
  case (ExecOp mid)
  have ok: "bridge_ok cl sets (snd (ExecuteMessage mid bs))" using assms(1) by (rule execute_ok)
  show ?thesis
  proof (cases "goget (bsPending bs) mid")
    case None
    then show ?thesis using ExecOp ok
      by (intro that [of bs]) (simp_all add: ExecuteMessage_def unlock_of_def unlocked_amount_def)
  next
    case (Some m)
    note m_ok = bridge_okD [OF assms(1) Some]
    show ?thesis using ExecOp ok Some m_ok
      by (intro that [of "snd (ExecuteMessage mid bs)"])
        (auto simp: ExecuteMessage_def Let_def unlock_of_def unlocked_amount_def total_of_def split: if_splits)
  qed
qed

lemma unlocks_fresh:
  assumes "bridge_ok cl sets bs" "stakes_bounded sets"
  shows "m \<in> set (unlocks cl bs ops) \<Longrightarrow> goget (bsExecuted bs) (bmID m) \<noteq> Some True"
  using assms(1)
proof (induction ops arbitrary: bs)
  case (Cons op ops)
  show ?case
  proof (rule bridge_step_ok [OF Cons.prems(2) assms(2), of op])
    fix bs'
    assume "bridge_step cl bs op = Done bs'" "bridge_ok cl sets bs'"
      "\<forall>m \<in> set (unlock_of bs op). signed_ok cl sets m \<and> two_thirds sets m
        \<and> goget (bsExecuted bs) (bmID m) \<noteq> Some True \<and> goget (bsExecuted bs') (bmID m) = Some True"
      "\<And>mid. goget (bsExecuted bs) mid = Some True \<Longrightarrow> goget (bsExecuted bs') mid = Some True"
    with Cons show ?thesis by auto
  qed
qed simp

lemma bridge_run_ok:
  assumes "bridge_ok cl sets bs" "stakes_bounded sets"
    and "\<And>k. total_of (bsTotalLocked bs) k = locked_amount (bsLockEvents bs) k"
  shows "\<exists>bs'. bridge_run cl bs ops = Done bs' \<and> distinct (map bmID (unlocks cl bs ops))
    \<and> (\<forall>m \<in> set (unlocks cl bs ops). signed_ok cl sets m \<and> two_thirds sets m)
    \<and> (\<forall>k. total_of (bsTotalUnlocked bs') k
        = total_of (bsTotalUnlocked bs) k + unlocked_amount (unlocks cl bs ops) k)
    \<and> (\<forall>k. total_of (bsTotalLocked bs') k = locked_amount (bsLockEvents bs') k)"
  using assms(1,3)
proof (induction ops arbitrary: bs)
  case (Cons op ops)
  show ?case
  proof (rule bridge_step_ok [OF Cons.prems(1) assms(2), of op])
    fix bs1
    assume step: "bridge_step cl bs op = Done bs1" and ok: "bridge_ok cl sets bs1"
      and books: "\<And>k. total_of (bsTotalUnlocked bs1) k
        = total_of (bsTotalUnlocked bs) k + unlocked_amount (unlock_of bs op) k"
      "\<And>k. total_of (bsTotalLocked bs) k = locked_amount (bsLockEvents bs) k
        \<Longrightarrow> total_of (bsTotalLocked bs1) k = locked_amount (bsLockEvents bs1) k"
      and fresh: "\<forall>m \<in> set (unlock_of bs op). signed_ok cl sets m \<and> two_thirds sets m
        \<and> goget (bsExecuted bs) (bmID m) \<noteq> Some True \<and> goget (bsExecuted bs1) (bmID m) = Some True"
      and one: "length (unlock_of bs op) \<le> 1"
    have "distinct (map bmID (unlock_of bs op))" using one by (cases "unlock_of bs op") auto
    moreover have "bmID m \<noteq> bmID n" if "m \<in> set (unlock_of bs op)" "n \<in> set (unlocks cl bs1 ops)" for m n
      using fresh that unlocks_fresh [OF ok assms(2) that(2)] by auto
    moreover obtain bs' where "bridge_run cl bs1 ops = Done bs'" "distinct (map bmID (unlocks cl bs1 ops))"
      "\<forall>m \<in> set (unlocks cl bs1 ops). signed_ok cl sets m \<and> two_thirds sets m"
      "\<forall>k. total_of (bsTotalUnlocked bs') k
        = total_of (bsTotalUnlocked bs1) k + unlocked_amount (unlocks cl bs1 ops) k"
      "\<forall>k. total_of (bsTotalLocked bs') k = locked_amount (bsLockEvents bs') k"
      using Cons.IH [OF ok books(2) [OF Cons.prems(2)]] by blast
    ultimately show ?thesis using step fresh books
      by (intro exI [of _ bs']) (auto simp: unlocked_amount_def)
  qed
qed (simp add: unlocked_amount_def)

text \<open>
  C39 (bridge_unlocks_backed): on validator sets that stay as they were registered and whose active stake
  is below \<open>2^63\<close>, no history of locks, messages, signatures and executions panics. A message is executed
  at most once. Each executed message has the hash of its fields as its identifier and carries accepted
  signatures of distinct active validators of its source chain whose stake is more than two thirds of
  the active stake (\<open>signed_ok\<close>, \<open>two_thirds\<close>). The books of unlocked and locked amounts are the sums
  over the executed messages and over the lock events.
\<close>

theorem bridge_unlocks_backed:
  assumes "stakes_bounded sets"
  defines "bs \<equiv> NewBridgeState\<lparr>bsValidatorSets := sets\<rparr>"
  shows "\<exists>bs'. bridge_run cl bs ops = Done bs' \<and> distinct (map bmID (unlocks cl bs ops))
    \<and> (\<forall>m \<in> set (unlocks cl bs ops). signed_ok cl sets m \<and> two_thirds sets m)
    \<and> (\<forall>k. total_of (bsTotalUnlocked bs') k = unlocked_amount (unlocks cl bs ops) k)
    \<and> (\<forall>k. total_of (bsTotalLocked bs') k = locked_amount (bsLockEvents bs') k)"
proof -
  have "bridge_ok cl sets bs" by (simp add: bridge_ok_def bs_def NewBridgeState_def)
  from bridge_run_ok [OF this assms(1), of ops] show ?thesis
    by (simp add: bs_def NewBridgeState_def total_of_def locked_amount_def)
qed

text \<open>Two validators, one with a key, that must both sign; the second execution is refused.\<close>

definition key_signer :: bridge_validator where
  "key_signer = \<lparr>bvAddress = [1], bvPublicKey = replicate 64 4 @ [1], bvStake = 2, bvIsActive = True\<rparr>"

definition bare_signer :: bridge_validator where
  "bare_signer = \<lparr>bvAddress = [2], bvPublicKey = [], bvStake = 1, bvIsActive = True\<rparr>"

definition two_signers :: "(u64, bridge_validators) gomap" where
  "two_signers = [(1, \<lparr>bvValidators = [key_signer, bare_signer], bvThreshold = 2\<rparr>)]"

definition one_sig :: bytes where
  "one_sig = be 32 1 @ be 32 0"

definition sample_id :: bytes where
  "sample_id = computeMessageID (clSha256 toy_lib) 1 2 [5] [6] [9] 50 1"

definition sample_ops :: "bridge_op list" where
  "sample_ops = [CreateOp 0 1 2 [5] [6] [9] 50 [], SignOp sample_id 0 one_sig, ExecOp sample_id, SignOp sample_id 1 [],
     ExecOp sample_id, ExecOp sample_id]"

lemma sample_check [simp]:
  "signature_check toy_lib key_signer mid one_sig = Done None" "signature_check cl bare_signer mid sig = Done None"
proof -
  have key: "PubKeyFromBytes toy_lib (replicate 64 4 @ [1]) = Inr 1"
    by (simp add: PubKeyFromBytes_def toy_lib_def)
  have "fill32 (big_bytes (unbe (take 32 one_sig))) = Done (be 32 1)"
    "fill32 (big_bytes (unbe (drop 32 one_sig))) = Done (be 32 0)" "length one_sig = 64"
    by code_simp+
  then show "signature_check toy_lib key_signer mid one_sig = Done None"
    by (simp add: signature_check_def key_signer_def key VerifyMessage_def pub_Verify_def VerifyHash_def)
      (simp add: toy_lib_def)
qed (simp add: signature_check_def bare_signer_def)

lemma signer_fields [simp]:
  "bvIsActive key_signer" "bvIsActive bare_signer" "bvStake key_signer = 2" "bvStake bare_signer = 1"
  by (simp_all add: key_signer_def bare_signer_def)

lemma sample_unlocks:
  "map (\<lambda>m. (bmDestChain m, bmToken m, bmAmount m))
     (unlocks toy_lib (NewBridgeState\<lparr>bsValidatorSets := two_signers\<rparr>) sample_ops) = [(2, [9], 50)]"
  by (simp add: sample_ops_def two_signers_def NewBridgeState_def CreateBridgeMessage_def Let_def
      AddSignature_def required_stake_def active_stake_def signed_stake_def
      ExecuteMessage_def unlock_of_def flip: sample_id_def)

theorem bridge_unlocks_backed_witness:
  "\<exists>bs'. bridge_run toy_lib (NewBridgeState\<lparr>bsValidatorSets := two_signers\<rparr>) sample_ops = Done bs'
     \<and> total_of (bsTotalUnlocked bs') (token_key 2 [9]) = 50"
proof -
  have "stakes_bounded two_signers"
    by (simp add: stakes_bounded_def two_signers_def active_total_def)
  from bridge_unlocks_backed [OF this, of toy_lib sample_ops] obtain bs' where
    run: "bridge_run toy_lib (NewBridgeState\<lparr>bsValidatorSets := two_signers\<rparr>) sample_ops = Done bs'"
    and total: "\<And>k. total_of (bsTotalUnlocked bs') k
      = unlocked_amount (unlocks toy_lib (NewBridgeState\<lparr>bsValidatorSets := two_signers\<rparr>) sample_ops) k" by blast
  obtain m where "unlocks toy_lib (NewBridgeState\<lparr>bsValidatorSets := two_signers\<rparr>) sample_ops = [m]"
    "bmDestChain m = 2" "bmToken m = [9]" "bmAmount m = 50"
    using sample_unlocks by auto
  then show ?thesis using run total [of "token_key 2 [9]"] by (simp add: unlocked_amount_def)
qed

text \<open>
  \<open>VerifyMessage\<close> asks for less than a confirmation: two of three equal validators are enough for it.
\<close>

lemma verify_asks_less:
  assumes "goget (bsValidatorSets bs) (bmSourceChain m) = Some \<lparr>bvValidators = replicate 3 bare_signer, bvThreshold = 2\<rparr>"
    and "bmValidatorIdx m = [0, 1]" "bmSignatures m = [[], []]"
  shows "bs_VerifyMessage cl m bs = Done None"
    and "\<not> required_stake (replicate 3 bare_signer) \<le> signed_stake (replicate 3 bare_signer) (bmValidatorIdx m)"
proof -
  have v: "replicate 3 bare_signer = [bare_signer, bare_signer, bare_signer]" by (simp add: eval_nat_numeral)
  show "bs_VerifyMessage cl m bs = Done None"
    using assms unfolding v by (simp add: bs_VerifyMessage_def)
  show "\<not> required_stake (replicate 3 bare_signer) \<le> signed_stake (replicate 3 bare_signer) (bmValidatorIdx m)"
    using assms unfolding v by (simp add: required_stake_def active_stake_def signed_stake_def)
qed

end
