(* ===== verification/Spec2Isabelle.thy ===== *)
theory Spec2Isabelle
  imports HotStuff_Limits ERC721 Persistent_Chain State_Commit EVM_State Exec_Refusals Exec_Batches
    Bridge_Safety
begin

text \<open>
  Verification development for the Viri blockchain node (the Go module under \<open>src/\<close>). Paths below
  are relative to \<open>src/internal/\<close>.

  The node runs a HotStuff-style consensus engine (layer 1) that orders blocks of transactions; a ledger
  stores the blocks and the pending transactions; a state manager keeps accounts in a key-value store and
  commits them into a Merkle Patricia trie; an execution engine (layer 2) charges and executes the
  transactions of a block over the accounts, with native contracts, an EVM interpreter and a shielded
  pool; a bridge (layer 3) books transfers between chains. The consensus engine asks a block producer
  for blocks and for the application of decided ones; the producer runs the execution engine over the
  state manager's accounts and appends to the chain; the chain keeps the pool and the economics.
\<close>

text \<open>
  Conventions.

  \<^item> Go integers of 64 bits are \<open>64 word\<close> (\<open>u64\<close>) where they wrap, \<open>int\<close> where the code computes with
    \<open>big.Int\<close> or with an \<open>int\<close> whose wrap-around is written out. Byte slices are lists of \<open>8 word\<close>.
  \<^item> A Go map is an association list with distinct keys (\<open>gomap\<close> in \<open>Prelude\<close>). Where the code ranges over
    a map the order of the list is the order of the range, so a theorem for all lists holds for all orders.
  \<^item> A struct is a \<open>record\<close> with the fields of the source, an enumeration or an error is a \<open>datatype\<close>, a
    function with an error returns a sum, and a panic is a value of its own (\<open>Panics\<close>, \<open>Crash\<close>).
  \<^item> An exported method that holds its component's lock for its whole duration is one step. A method that
    gives the lock up is cut there, or is declared to be one step (\<open>GetBlock\<close>, \<open>ProcessReorg\<close>).
  \<^item> The clock, the answers of other components and the failures of writes are inputs of a step, so a
    theorem on all runs covers all of them.
\<close>

text \<open>
  Theories and sources.

  \<^item> \<open>Prelude\<close>: machine types, maps, byte and hexadecimal codecs, shared lemmas and the collections of
    facts. \<open>Contracts\<close>: the interfaces, as locales (below). \<open>Keys\<close>: \<open>layer1/crypto/keys.go\<close> over the record
    \<open>crypto_lib\<close> of the curve and hash libraries. \<open>Merkle\<close>: \<open>layer1/crypto/merkle.go\<close>.
  \<^item> Consensus, \<open>layer1/consensus/\<close>: \<open>Validator_Set\<close>, \<open>Codec\<close> and \<open>Quorum_Cert\<close> (\<open>validator_set.go\<close>),
    \<open>Staking\<close> (\<open>staking.go\<close>), \<open>Detectors\<close> (\<open>engine.go\<close>), \<open>State_Sync\<close> (\<open>state_sync.go\<close>). The engine of
    \<open>hotstuff.go\<close> and \<open>types.go\<close>: \<open>HotStuff_State\<close> (the record \<open>engine\<close> and its environment),
    \<open>HotStuff_Engine\<close> (proposing, phases, deciding, epochs, view changes), \<open>HotStuff_Handlers\<close> (votes,
    proposals, the dispatch of messages, and \<open>hs_step\<close>, the turns of the goroutines as events).
    \<open>HotStuff_Safety\<close>, \<open>HotStuff_Votes\<close>, \<open>HotStuff_Books\<close> and \<open>HotStuff_Limits\<close> hold the theorems.
  \<^item> Ledger, \<open>layer1/ledger/\<close>: \<open>Transactions\<close> (\<open>transaction.go\<close>, \<open>types.go\<close>), \<open>RLP\<close> (\<open>rlp.go\<close>), \<open>Tx_Pool\<close>
    (\<open>pool.go\<close>), \<open>Economics\<close> (\<open>economics.go\<close>, \<open>fee_market.go\<close>, \<open>slashing.go\<close>), \<open>Blocks\<close> (\<open>block.go\<close>),
    \<open>LRU\<close> and \<open>Mem_Chain\<close> (\<open>chain.go\<close>), \<open>Persistent_Chain\<close> (\<open>persistent_chain.go\<close>, \<open>tx_index.go\<close>,
    \<open>fork_choice.go\<close>).
  \<^item> State, \<open>layer1/state/\<close>: \<open>KV_Store\<close> (\<open>db.go\<close>), \<open>Json\<close> (what the layer needs of \<open>encoding/json\<close>),
    \<open>Accounts\<close> (\<open>account.go\<close>), \<open>MPT_Nodes\<close>, \<open>MPT\<close> and \<open>MPT_GC\<close> (\<open>mpt.go\<close>), \<open>State_Manager\<close> (\<open>state.go\<close>);
    theorems in \<open>MPT_Map\<close>, \<open>MPT_GC\<close> and \<open>State_Commit\<close>.
  \<^item> Execution, \<open>layer2/\<close>: \<open>Abi\<close> and \<open>ERC20\<close> (\<open>contracts/erc20.go\<close>), \<open>ERC721\<close> (\<open>contracts/erc721.go\<close>),
    \<open>EVM_Machine\<close>, \<open>EVM_Ops\<close> and \<open>EVM_Run\<close> (\<open>vm/evm.go\<close>), \<open>Contract_Manager\<close> (\<open>contracts/manager.go\<close>),
    \<open>Shielded_Pool\<close> (\<open>privacy/shielded_pool.go\<close>), \<open>Exec_Accounts\<close> and \<open>Exec_Engine\<close>
    (\<open>execution/engine.go\<close>, and the closures of \<open>cmd/virid/block_producer.go\<close>), \<open>Exec_Batches\<close>
    (\<open>execution/parallel.go\<close>). \<open>EVM_Words\<close>, \<open>EVM_Logic\<close>, \<open>EVM_Types\<close>, \<open>EVM_Gas\<close>, \<open>EVM_Frames\<close>,
    \<open>EVM_Ends\<close>, \<open>EVM_State\<close>, \<open>Exec_Ledger\<close> and \<open>Exec_Refusals\<close> hold the theorems.
  \<^item> Bridge, \<open>layer3/bridge/bridge.go\<close>: \<open>Bridge\<close>, with its theorem in \<open>Bridge_Safety\<close>.
\<close>

text \<open>
  What the lemmas show.

  \<^item> Consensus: a decided block has a super-majority of received or own commit votes; two quorums of one
    view have a correct validator in common, whose votes for both blocks were received; the heights of the commits
    increase; validator set and staking books stay sound. The block producer is restricted by
    \<open>producer_ok\<close>: it accepts no block of the largest height, and the height of its chain covers what was
    committed. The request to apply a decided block and its answer are one step: the goroutine of the
    applier, its time limit and its stopped state are not modelled, a refusal is an answer.
  \<^item> Ledger: the pool's maps, lists and limits agree; the supply is capped; the persistent chain refines
    an append-only list with every operation that can fail failing without effect; what the codecs of
    transactions, certificates and accounts write is read back; the item decoder panics on exactly the
    inputs whose length field overflows.
  \<^item> State: the trie is a map for every history of updates and deletions, garbage collection keeps the
    epochs it should, and a commit makes the trie equal to the account table. A commit only sees the
    accounts that are marked: \<open>IncrementNonce\<close> does not mark (\<open>nonce_not_marked\<close>), so the theorem on
    commits is about \<open>tracked\<close> histories.
  \<^item> Execution: the interpreter keeps its frames and types, computes the instructions of the Ethereum
    specification (\<open>eth_op\<close>) with the two exceptions that \<open>sdiv_rounds_down\<close> and \<open>shift_by_low_bits\<close> show,
    and neither creates nor destroys money; transfers move exactly their value and charge exactly
    their gas, as long as \<open>gasLimit * gasPrice\<close> fits 64 bits (\<open>fee_overflow_mints\<close> is what happens
    otherwise); refused transactions change nothing; the batches of a block are free of conflicts.
  \<^item> Native contracts, pool and bridge: supply and holdings agree after any history, owners change only
    by authority, a note is spent once, a bridge message is executed once and only with the stake it needs.
\<close>

text \<open>
  Interfaces, in \<open>Contracts\<close> unless noted, and where they are interpreted.

  \<^item> \<open>guarded_system\<close> (every operation keeps an invariant) with its extensions \<open>monotone_system\<close> and
    \<open>conserving_system\<close>, and \<open>admissible_system\<close> with \<open>admissible_ranked_system\<close> for steps under a
    condition on the event; each guarded system is an admissible one (\<open>sublocale\<close>). Interpreted on the
    validator set, staking, finality gadget, engine (books and commits), both token contracts, the
    pool and the economics.
  \<^item> \<open>append_chain\<close>: a block store that only appends; both chains.
  \<^item> \<open>weighted_quorum\<close>: members with weights; the validator set.
  \<^item> \<open>kv_store\<close> (\<open>KV_Store\<close>): the store's interface; the memory store. \<open>json_value\<close> (\<open>Json\<close>): a value
    that is read back from its text; numbers, strings, byte slices.
  \<^item> \<open>evm_host\<close> (\<open>EVM_Types\<close>) and \<open>evm_keeps\<close> (\<open>EVM_State\<close>): what a run needs of the state behind the
    interpreter, and what it keeps of it; the contract manager. \<open>ledger_io\<close> (\<open>Exec_Ledger\<close>): the two
    closures of the execution engine; those of the block producer.
\<close>

text \<open>
  Loops, fuel and bounds.

  \<^item> Loops over slices are structural, loops by a counter are \<open>function\<close>s with a measure.
  \<^item> \<open>getNode\<close>, \<open>upsert\<close> and \<open>mpt_remove\<close> of the trie and the loops over heights of the persistent chain
    are \<open>partial_function\<close>s: \<open>None\<close> is a call that does not return (a store may hold a cycle of nodes, a
    loop to the largest height never ends). The theorems of \<open>MPT_Map\<close> include that the trie operations
    return.
  \<^item> \<open>respond_loop\<close> has fuel because the loop to the largest \<open>uint64\<close> does not end;
    \<open>block_request_loop\<close> says exactly when it does. \<open>mark_range\<close> runs for the size of a batch.
    \<open>dec_entries\<close> has the length of the text as fuel, which has more bytes than entries.
  \<^item> \<open>run\<close>, the interpreter loop, has fuel for every iteration and every nested executor. Code without
    calls and creations needs at most a third of its gas limit (\<open>EVM_Ends\<close>). No bound is given for
    code with calls: an executor adds the gas of its callees to its own counter without a check, and
    \<open>gas_counter_wraps\<close> shows that counter falling below what was spent. What is shown of such code is
    shown of all states it visits (\<open>visits\<close>), whether or not it ends.
  \<^item> \<open>max_alloc\<close> is \<open>2^48\<close>: a \<open>make\<close> of more bytes panics, as on 64-bit systems.
  \<^item> \<open>mpLog\<close> is a ghost field that no operation reads: the encodings the trie has stored, so that
    collision-freedom of the hash can be asked of just those.
\<close>

text \<open>
  Parameters: the curve and hash libraries (\<open>crypto_lib\<close>, \<open>keccak\<close>), \<open>gob\<close> and the receipt and index
  encodings (\<open>chain_env\<close>), the sorts of the pool (any sorted permutation), the curve commitment, the
  conversion oracle, the proof verifier and the WebAssembly runtime of the execution engine, and the
  block producer seen from the consensus engine. Hypotheses on them are stated in the theorems that use
  them: a decoder returns what its encoder wrote, a hash has 32 bytes, a hash does not collide on the
  finitely many inputs named.

  Not modelled: networking, RPC, explorer and command lines (I/O); the disk store, backup and migration
  (a third-party database); WebAssembly, zero-knowledge proofs and the other signature schemes
  (third-party libraries); mnemonics and key files; genesis files, the older binary trie,
  governance, gas oracle, MEV protection, rollups, smart accounts, intents, the privacy bridge, the
  light client and the sequencer, which sit beside the core. Of modelled files: the JSON file of the
  staking module, \<open>InflationRate\<close> (a rounded \<open>big.Float\<close> quotient), \<open>GetTransactionsByAddress\<close>,
  \<open>BuildFromChain\<close> and \<open>ExportStateSnapshot\<close> of the chain, tracing and opcode names of the interpreter,
  the goroutines of parallel execution, and the aliasing of slices: slices are values, so a caller
  that writes into a slice it handed over is outside the model.
\<close>

end
